(* ===== verification/Prelude.thy ===== *)
theory Prelude
  imports Main "HOL-Library.Word" "HOL-Library.Monad_Syntax"
begin

section \<open>Shared types, machine arithmetic and generic lemmas\<close>

text \<open>
  The vocabulary every component theory uses: the C integer types of the 32-bit target as
  Isabelle types, little-endian byte images of them, memory as a function from addresses to
  bytes, and the generic lemmas on lists, options and words that the component proofs share.
  Two named collections are filled by the components: \<open>c_defs\<close> holds definitions that are
  plain macros of the source (unfolded freely by proofs), \<open>frame_simps\<close> holds equations
  stating which fields an operation leaves alone.
\<close>

unbundle bit_operations_syntax

named_theorems c_defs
named_theorems frame_simps

type_synonym byte = "8 word"
type_synonym u16 = "16 word"
type_synonym u32 = "32 word"

text \<open>A region of memory, addressed by offset.\<close>

type_synonym mem = "nat \<Rightarrow> byte"

subsection \<open>Unsigned arithmetic on naturals\<close>

text \<open>
  Sizes, addresses and counters of the C code are \<open>nat\<close> here, with the wrap-around of their C
  type written out where an operation can leave its range.
\<close>

definition u16_of :: "nat \<Rightarrow> nat" where
  "u16_of n = n mod 2 ^ 16"

definition u32_of :: "nat \<Rightarrow> nat" where
  "u32_of n = n mod 2 ^ 32"

definition add32 :: "nat \<Rightarrow> nat \<Rightarrow> nat" where
  "add32 a b = (a + b) mod 2 ^ 32"

definition sub32 :: "nat \<Rightarrow> nat \<Rightarrow> nat" where
  "sub32 a b = (a + 2 ^ 32 - b mod 2 ^ 32) mod 2 ^ 32"

text \<open>The signed reading of an unsigned 32-bit value, and a signed value stored as unsigned.\<close>

definition s32_of :: "nat \<Rightarrow> int" where
  "s32_of n = (if n mod 2 ^ 32 < 2 ^ 31 then int (n mod 2 ^ 32) else int (n mod 2 ^ 32) - 2 ^ 32)"

definition u32_of_int :: "int \<Rightarrow> nat" where
  "u32_of_int i = nat (i mod 2 ^ 32)"

lemma u16_of_id [simp]: "n < 65536 \<Longrightarrow> u16_of n = n"
  by (simp add: u16_of_def)

lemma u16_of_less [simp]: "u16_of n < 65536"
  by (simp add: u16_of_def)

lemma u32_of_id [simp]: "n < 4294967296 \<Longrightarrow> u32_of n = n"
  by (simp add: u32_of_def)

lemma add32_id [simp]: "a + b < 4294967296 \<Longrightarrow> add32 a b = a + b"
  by (simp add: add32_def)

lemma sub32_id [simp]: "b \<le> a \<Longrightarrow> a < 4294967296 \<Longrightarrow> sub32 a b = a - b"
  by (simp add: sub32_def mod_if)

lemma s32_of_small [simp]: "n < 2147483648 \<Longrightarrow> s32_of n = int n"
  by (simp add: s32_of_def)

subsection \<open>Control flow of a loop body\<close>

text \<open>How a loop body ends: a \<open>return\<close> out of the function, a \<open>break\<close>, or the next pass.\<close>

datatype ('r, 'a) flow = Return 'r | Break 'a | Continue 'a

subsection \<open>Arrays\<close>

text \<open>Reading and writing an element; an index beyond the array is undefined.\<close>

definition get_at :: "'a list \<Rightarrow> nat \<Rightarrow> 'a option" where
  "get_at a i = (if i < length a then Some (a ! i) else None)"

definition put_at :: "'a list \<Rightarrow> nat \<Rightarrow> 'a \<Rightarrow> 'a list option" where
  "put_at a i x = (if i < length a then Some (a[i := x]) else None)"

subsection \<open>Memory ranges\<close>

definition mem_read :: "mem \<Rightarrow> nat \<Rightarrow> nat \<Rightarrow> byte list" where
  "mem_read m a n = map m [a..<a + n]"

definition mem_write :: "nat \<Rightarrow> byte list \<Rightarrow> mem \<Rightarrow> mem" where
  "mem_write a bs m = (\<lambda>x. if a \<le> x \<and> x < a + length bs then bs ! (x - a) else m x)"

lemma length_mem_read [simp]: "length (mem_read m a n) = n"
  by (simp add: mem_read_def)

lemma mem_read_0 [simp]: "mem_read m a 0 = []"
  by (simp add: mem_read_def)

lemma nth_mem_read [simp]: "i < n \<Longrightarrow> mem_read m a n ! i = m (a + i)"
  by (simp add: mem_read_def)

lemma mem_read_add: "mem_read m a (n + k) = mem_read m a n @ mem_read m (a + n) k"
  by (rule nth_equalityI) (auto simp: nth_append)

lemma mem_read_cong: "(\<And>x. a \<le> x \<Longrightarrow> x < a + n \<Longrightarrow> m x = m' x) \<Longrightarrow> mem_read m a n = mem_read m' a n"
  by (simp add: mem_read_def)

lemma mem_read_upd_below: "p + n \<le> q \<Longrightarrow> mem_read (m(q := x)) p n = mem_read m p n"
  by (rule mem_read_cong) auto

lemma mem_read_Suc: "mem_read m p (Suc n) = m p # mem_read m (Suc p) n"
  by (simp add: mem_read_def upt_conv_Cons del: upt_Suc)

lemma take_mem_read [simp]: "k \<le> n \<Longrightarrow> take k (mem_read m a n) = mem_read m a k"
  by (simp add: mem_read_def take_map)

lemma drop_mem_read [simp]: "drop k (mem_read m a n) = mem_read m (a + k) (n - k)"
  by (cases "k \<le> n") (simp_all add: mem_read_def drop_map)

lemma mem_write_same [simp]: "mem_read (mem_write a bs m) a (length bs) = bs"
  by (rule nth_equalityI) (auto simp: mem_write_def)

lemma mem_write_other: "x < a \<or> a + length bs \<le> x \<Longrightarrow> mem_write a bs m x = m x"
  by (auto simp: mem_write_def)

subsection \<open>Little-endian images of the integer types\<close>

definition le16 :: "u16 \<Rightarrow> byte list" where
  "le16 w = [ucast w, ucast (drop_bit 8 w)]"

fun of_le16 :: "byte list \<Rightarrow> u16" where
  "of_le16 (a # b # _) = ucast a OR push_bit 8 (ucast b)"
| "of_le16 _ = 0"

definition le32 :: "u32 \<Rightarrow> byte list" where
  "le32 w = [ucast w, ucast (drop_bit 8 w), ucast (drop_bit 16 w), ucast (drop_bit 24 w)]"

fun of_le32 :: "byte list \<Rightarrow> u32" where
  "of_le32 (a # b # c # d # _) =
     ucast a OR push_bit 8 (ucast b) OR push_bit 16 (ucast c) OR push_bit 24 (ucast d)"
| "of_le32 _ = 0"

lemma bit_byte_ge [simp]: "\<not> bit (a :: byte) (8 + n)"
  using bit_imp_le_length [of a "8 + n"] by auto

lemma length_le16 [simp]: "length (le16 w) = 2"
  by (simp add: le16_def)

lemma length_le32 [simp]: "length (le32 w) = 4"
  by (simp add: le32_def)

lemma of_le16_le16 [simp]: "of_le16 (le16 w @ bs) = w"
  by (rule bit_word_eqI) (auto simp: le16_def bit_simps)

lemma of_le16_le16_nil [simp]: "of_le16 (le16 w) = w"
  using of_le16_le16 [of w "[]"] by simp

lemma of_le32_le32 [simp]: "of_le32 (le32 w @ bs) = w"
proof (rule bit_word_eqI)
  fix n assume "n < LENGTH(32)"
  then consider "n < 8" | "8 \<le> n" "n < 16" | "16 \<le> n" "n < 24" | "24 \<le> n" "n < 32"
    by fastforce
  then show "bit (of_le32 (le32 w @ bs)) n = bit w n"
    by cases (auto simp: le32_def bit_simps)
qed

lemma le16_of_le16: "length bs = 2 \<Longrightarrow> le16 (of_le16 bs) = bs"
  by (cases bs rule: of_le16.cases)
    (auto simp: le16_def bit_simps intro!: bit_word_eqI)

text \<open>Two bytes are equal when their eight bits are: concrete bit identities reduce to \<open>bit_simps\<close>.\<close>

lemma byte_eq_bits: "(a :: byte) = b \<longleftrightarrow>
  bit a 0 = bit b 0 \<and> bit a 1 = bit b 1 \<and> bit a 2 = bit b 2 \<and> bit a 3 = bit b 3 \<and>
  bit a 4 = bit b 4 \<and> bit a 5 = bit b 5 \<and> bit a 6 = bit b 6 \<and> bit a 7 = bit b 7"
  (is "_ \<longleftrightarrow> ?bits")
proof
  assume h: ?bits
  show "a = b"
  proof (rule bit_word_eqI)
    fix n assume "n < LENGTH(8)"
    then have "n = 0 \<or> n = 1 \<or> n = 2 \<or> n = 3 \<or> n = 4 \<or> n = 5 \<or> n = 6 \<or> n = 7" by auto
    then show "bit a n = bit b n" using h by (elim disjE) simp_all
  qed
qed simp

subsection \<open>Small facts on lists and options\<close>

lemma nth_list_update_if: "i < length xs \<Longrightarrow> (xs[j := v]) ! i = (if i = j then v else xs ! i)"
  by (simp add: nth_list_update)

lemma list_all_nth: "list_all P xs \<longleftrightarrow> (\<forall>i < length xs. P (xs ! i))"
  by (simp add: list_all_length)

lemma upt_split: "i \<le> j \<Longrightarrow> j \<le> k \<Longrightarrow> [i..<k] = [i..<j] @ [j..<k]"
  using upt_add_eq_append [of i j "k - j"] by simp

lemma bind_SomeE: "(do {x \<leftarrow> m; f x}) = Some y \<Longrightarrow> (\<And>x. m = Some x \<Longrightarrow> f x = Some y \<Longrightarrow> P) \<Longrightarrow> P"
  by (cases m) auto

end
