(* ===== verification/Base64.thy ===== *)
theory Base64
  imports Prelude
begin

section \<open>libb64: the streaming base64 codec of the core\<close>

text \<open>
  \<open>cores/esp31b/libb64/cencode.c\<close> and \<open>cdecode.c\<close>. Both routines are coroutines written
  with a \<open>switch\<close> into a \<open>while (1)\<close> loop: the state remembers the step at which the
  previous call ran out of input. Here each loop is a recursive function on the remaining
  input, with the step as an argument. The encoder appends to its output, which is a list; the
  decoder keeps writing at \<open>*plainchar\<close> before advancing, so its output buffer is a memory.

  Whether plain \<open>char\<close> is signed is up to the compiler and decides what the decoder does
  with characters outside the alphabet; the decoder takes it as the parameter \<open>sc\<close>.
\<close>

subsection \<open>Encoder\<close>

datatype base64_encodestep = step_A | step_B | step_C

record base64_encodestate =
  es_step :: base64_encodestep
  es_result :: byte
  es_stepcount :: int

definition CHARS_PER_LINE :: int where
  "CHARS_PER_LINE = 72"

definition base64_init_encodestate :: base64_encodestate where
  "base64_init_encodestate = \<lparr>es_step = step_A, es_result = 0, es_stepcount = 0\<rparr>"

definition encoding :: "byte list" where
  "encoding = map of_char ''ABCDEFGHIJKLMNOPQRSTUVWXYZabcdefghijklmnopqrstuvwxyz0123456789+/''"

definition base64_encode_value :: "byte \<Rightarrow> byte" where
  "base64_encode_value v = (if 63 < v then of_char CHR ''='' else encoding ! unat v)"

fun base64_encode_loop ::
  "base64_encodestep \<Rightarrow> byte \<Rightarrow> int \<Rightarrow> byte list \<Rightarrow> byte list \<times> base64_encodestate" where
  "base64_encode_loop st result sc [] = ([], \<lparr>es_step = st, es_result = result, es_stepcount = sc\<rparr>)"
| "base64_encode_loop step_A result sc (fragment # plain) =
     (let result = drop_bit 2 (fragment AND 0xfc);
          c = base64_encode_value result;
          result = push_bit 4 (fragment AND 0x03);
          (out, s) = base64_encode_loop step_B result sc plain
      in (c # out, s))"
| "base64_encode_loop step_B result sc (fragment # plain) =
     (let result = result OR drop_bit 4 (fragment AND 0xf0);
          c = base64_encode_value result;
          result = push_bit 2 (fragment AND 0x0f);
          (out, s) = base64_encode_loop step_C result sc plain
      in (c # out, s))"
| "base64_encode_loop step_C result sc (fragment # plain) =
     (let result = result OR drop_bit 6 (fragment AND 0xc0);
          c = base64_encode_value result;
          result = fragment AND 0x3f;
          d = base64_encode_value result;
          sc = sc + 1;
          nl = (sc = CHARS_PER_LINE div 4);
          (out, s) = base64_encode_loop step_A result (if nl then 0 else sc) plain
      in (c # d # (if nl then [0x0a] else []) @ out, s))"

definition base64_encode_block :: "byte list \<Rightarrow> base64_encodestate \<Rightarrow> byte list \<times> base64_encodestate" where
  "base64_encode_block plain s = base64_encode_loop (es_step s) (es_result s) (es_stepcount s) plain"

text \<open>The characters \<open>base64_encode_blockend\<close> counts in its result; a NUL follows them.\<close>

definition base64_encode_blockend :: "base64_encodestate \<Rightarrow> byte list" where
  "base64_encode_blockend s =
     (case es_step s of
        step_B \<Rightarrow> [base64_encode_value (es_result s), of_char CHR ''='', of_char CHR ''='']
      | step_C \<Rightarrow> [base64_encode_value (es_result s), of_char CHR ''='']
      | step_A \<Rightarrow> [])"

definition base64_encode_chars :: "byte list \<Rightarrow> byte list" where
  "base64_encode_chars plain =
     (let (out, s) = base64_encode_block plain base64_init_encodestate
      in out @ base64_encode_blockend s)"

subsection \<open>Decoder\<close>

datatype base64_decodestep = step_a | step_b | step_c | step_d

record base64_decodestate =
  ds_step :: base64_decodestep
  ds_plainchar :: byte

definition decoding :: "int list" where
  "decoding =
     [62,-1,-1,-1,63,52,53,54,55,56,57,58,59,60,61,-1,-1,-1,-2,-1,-1,-1,
      0,1,2,3,4,5,6,7,8,9,10,11,12,13,14,15,16,17,18,19,20,21,22,23,24,25,
      -1,-1,-1,-1,-1,-1,
      26,27,28,29,30,31,32,33,34,35,36,37,38,39,40,41,42,43,44,45,46,47,48,49,50,51]"

text \<open>
  The table is an array of plain \<open>char\<close>: its negative entries read back as negative numbers
  only where \<open>char\<close> is signed. The guard compares with \<open>>\<close>, so the index
  \<open>decoding_size\<close> itself passes it and reads past the table, the value \<open>None\<close>.
\<close>

definition char_value :: "bool \<Rightarrow> byte \<Rightarrow> int" where
  "char_value sc c = (if sc then sint c else uint c)"

definition base64_decode_value :: "bool \<Rightarrow> byte \<Rightarrow> int option" where
  "base64_decode_value sc c =
     (let v = char_value sc (c - 43)
      in if v < 0 \<or> int (length decoding) < v then Some (- 1)
         else if nat v < length decoding then Some (char_value sc (of_int (decoding ! nat v)))
         else None)"

definition base64_init_decodestate :: base64_decodestate where
  "base64_init_decodestate = \<lparr>ds_step = step_a, ds_plainchar = 0\<rparr>"

text \<open>
  One pass of the decoder: \<open>p\<close> is the offset of \<open>plainchar\<close> in \<open>plaintext_out\<close>. A fragment
  that is negative as a \<open>char\<close> is skipped by the inner \<open>do ... while\<close>.
\<close>

fun base64_decode_loop ::
  "bool \<Rightarrow> base64_decodestep \<Rightarrow> nat \<Rightarrow> mem \<Rightarrow> byte list \<Rightarrow> (nat \<times> mem \<times> base64_decodestate) option" where
  "base64_decode_loop sc st p m [] = Some (p, m, \<lparr>ds_step = st, ds_plainchar = m p\<rparr>)"
| "base64_decode_loop sc st p m (c # code) = do {
     v \<leftarrow> base64_decode_value sc c;
     let fragment = (of_int v :: byte);
     if char_value sc fragment < 0 then base64_decode_loop sc st p m code
     else (case st of
        step_a \<Rightarrow> base64_decode_loop sc step_b p (m(p := push_bit 2 (fragment AND 0x3f))) code
      | step_b \<Rightarrow> base64_decode_loop sc step_c (p + 1)
                   (m(p := m p OR drop_bit 4 (fragment AND 0x30),
                      p + 1 := push_bit 4 (fragment AND 0x0f))) code
      | step_c \<Rightarrow> base64_decode_loop sc step_d (p + 1)
                   (m(p := m p OR drop_bit 2 (fragment AND 0x3c),
                      p + 1 := push_bit 6 (fragment AND 0x03))) code
      | step_d \<Rightarrow> base64_decode_loop sc step_a (p + 1)
                   (m(p := m p OR (fragment AND 0x3f))) code)
   }"

definition base64_decode_block ::
  "bool \<Rightarrow> byte list \<Rightarrow> mem \<Rightarrow> base64_decodestate \<Rightarrow> (nat \<times> mem \<times> base64_decodestate) option" where
  "base64_decode_block sc code m s =
     base64_decode_loop sc (ds_step s) 0 (m(0 := ds_plainchar s)) code"

definition base64_decode_chars :: "bool \<Rightarrow> byte list \<Rightarrow> mem \<Rightarrow> (nat \<times> mem) option" where
  "base64_decode_chars sc code m = do {
     (len, m, s) \<leftarrow> base64_decode_block sc code m base64_init_decodestate;
     Some (len, if 0 < len then m(len := 0) else m)
   }"

subsection \<open>Tables and bit pieces\<close>

lemma encoding_eq [code]: "encoding = [65,66,67,68,69,70,71,72,73,74,75,76,77,78,79,80,81,82,83,84,85,86,87,88,89,90,
  97,98,99,100,101,102,103,104,105,106,107,108,109,110,111,112,113,114,115,116,117,118,119,120,121,122,
  48,49,50,51,52,53,54,55,56,57,43,47]"
  by (simp add: encoding_def of_char_def)

lemma length_encoding [simp]: "length encoding = 64"
  by (simp add: encoding_def)

lemma map_decode_encoding: "map (base64_decode_value sc) encoding = map (\<lambda>v. Some (int v)) [0..<64]"
proof (cases sc)
  case True
  have "map (base64_decode_value True) encoding = map (\<lambda>v. Some (int v)) [0..<64]" by code_simp
  with True show ?thesis by simp
next
  case False
  have "map (base64_decode_value False) encoding = map (\<lambda>v. Some (int v)) [0..<64]" by code_simp
  with False show ?thesis by simp
qed

lemma decode_encode_value:
  assumes "v \<le> 63"
  shows "base64_decode_value sc (base64_encode_value v) = Some (uint v)"
proof -
  have n: "unat v < 64"
    using assms by (simp add: word_le_nat_alt)
  have "map (base64_decode_value sc) encoding ! unat v = Some (int (unat v))"
    using n by (simp add: map_decode_encoding)
  then show ?thesis
    using assms n by (simp add: base64_encode_value_def not_less [symmetric])
qed

lemma decode_value_pad: "base64_decode_value True 0x3d = Some (- 2)"
  and decode_value_newline: "base64_decode_value True 0x0a = Some (- 1)"
  by code_simp+

text \<open>What the decoder reads back from one sextet of the encoder.\<close>

lemma decode_sextet:
  assumes "v \<le> 63"
  shows "base64_decode_loop sc st p m (base64_encode_value v # code) =
    (case st of
        step_a \<Rightarrow> base64_decode_loop sc step_b p (m(p := push_bit 2 (v AND 0x3f))) code
      | step_b \<Rightarrow> base64_decode_loop sc step_c (p + 1)
                   (m(p := m p OR drop_bit 4 (v AND 0x30), p + 1 := push_bit 4 (v AND 0x0f))) code
      | step_c \<Rightarrow> base64_decode_loop sc step_d (p + 1)
                   (m(p := m p OR drop_bit 2 (v AND 0x3c), p + 1 := push_bit 6 (v AND 0x03))) code
      | step_d \<Rightarrow> base64_decode_loop sc step_a (p + 1) (m(p := m p OR (v AND 0x3f))) code)"
proof -
  have "uint v \<le> 63"
    using assms by (simp add: word_le_def)
  then have "signed_take_bit 7 (uint v) = uint v"
    by (intro signed_take_bit_int_eq_self) (simp_all add: order_trans [OF _ uint_ge_0])
  then have "\<not> sint v < 0"
    using uint_ge_0 [of v] by (simp only: sint_uint) simp
  then have "\<not> char_value sc v < 0" by (simp add: char_value_def)
  then show ?thesis
    by (simp add: decode_encode_value [OF assms])
qed

lemma decode_skip:
  "base64_decode_loop True st p m (0x3d # code) = base64_decode_loop True st p m code"
  "base64_decode_loop True st p m (0x0a # code) = base64_decode_loop True st p m code"
  by (simp_all add: decode_value_pad decode_value_newline char_value_def)

declare base64_decode_loop.simps(2) [simp del]

lemma byte_masks:
  "(0xfc::byte) = push_bit 2 (mask 6)" "(0x03::byte) = mask 2" "(0xf0::byte) = push_bit 4 (mask 4)"
  "(0x0f::byte) = mask 4" "(0xc0::byte) = push_bit 6 (mask 2)" "(0x3f::byte) = mask 6"
  "(0x30::byte) = push_bit 4 (mask 2)" "(0x3c::byte) = push_bit 2 (mask 4)"
  by (simp_all add: mask_eq_exp_minus_1 push_bit_eq_mult)

lemma sextet_le:
  assumes "\<And>n. 6 \<le> n \<Longrightarrow> \<not> bit (v :: byte) n"
  shows "v \<le> 63"
proof -
  have "v = take_bit 6 v"
    using assms by (intro bit_word_eqI) (auto simp: bit_simps not_le [symmetric])
  then have "unat v = take_bit 6 (unat v)"
    by (metis unsigned_take_bit_eq)
  also have "\<dots> < 2 ^ 6"
    by (rule take_bit_nat_less_exp)
  finally show ?thesis by (simp add: word_le_nat_alt)
qed

text \<open>The four sextets of a triple stay below 64.\<close>

lemma sextets_le:
  "drop_bit 2 (x AND 0xfc) \<le> (63 :: byte)"
  "push_bit 4 (f AND 0x03) OR drop_bit 4 (x AND 0xf0) \<le> (63 :: byte)"
  "push_bit 2 (f AND 0x0f) OR drop_bit 6 (x AND 0xc0) \<le> (63 :: byte)"
  "x AND 0x3f \<le> (63 :: byte)"
  "push_bit 4 (f AND 0x03) \<le> (63 :: byte)" "push_bit 2 (f AND 0x0f) \<le> (63 :: byte)"
  by (rule sextet_le; auto simp: byte_masks bit_simps)+

text \<open>Reassembly: the pieces the decoder combines are the encoder's input again.\<close>

lemma reassemble:
  "push_bit 2 (drop_bit 2 ((x :: byte) AND 0xfc) AND 0x3f) = x AND 0xfc"
  "((f :: byte) AND 0xfc) OR drop_bit 4 ((push_bit 4 (f AND 0x03) OR drop_bit 4 (x AND 0xf0)) AND 0x30) = f"
  "push_bit 4 ((push_bit 4 ((f :: byte) AND 0x03) OR drop_bit 4 (x AND 0xf0)) AND 0x0f) = x AND 0xf0"
  "((f :: byte) AND 0xf0) OR drop_bit 2 ((push_bit 2 (f AND 0x0f) OR drop_bit 6 (x AND 0xc0)) AND 0x3c) = f"
  "push_bit 6 ((push_bit 2 ((f :: byte) AND 0x0f) OR drop_bit 6 (x AND 0xc0)) AND 0x03) = x AND 0xc0"
  "((x :: byte) AND 0xc0) OR (x AND 0x3f AND 0x3f) = x" "((x :: byte) AND 0xc0) OR (x AND 0x3f) = x"
  "((f :: byte) AND 0xfc) OR drop_bit 4 (push_bit 4 (f AND 0x03) AND 0x30) = f"
  "((f :: byte) AND 0xf0) OR drop_bit 2 (push_bit 2 (f AND 0x0f) AND 0x3c) = f"
  by (auto simp: byte_eq_bits byte_masks bit_simps)

subsection \<open>Round trip\<close>

text \<open>
  The relation between encoder and decoder between two input bytes: in steps B and C the
  encoder holds the low bits of the last byte \<open>f\<close> and the decoder has its high bits in place.
\<close>

fun pending :: "base64_encodestep \<Rightarrow> byte \<Rightarrow> byte \<Rightarrow> byte \<Rightarrow> bool" where
  "pending step_A f r cur = True"
| "pending step_B f r cur = (r = push_bit 4 (f AND 0x03) \<and> cur = f AND 0xfc)"
| "pending step_C f r cur = (r = push_bit 2 (f AND 0x0f) \<and> cur = f AND 0xf0)"

fun dec_of :: "base64_encodestep \<Rightarrow> base64_decodestep" where
  "dec_of step_A = step_a" | "dec_of step_B = step_b" | "dec_of step_C = step_c"

definition pend_list :: "base64_encodestep \<Rightarrow> byte \<Rightarrow> byte list" where
  "pend_list st f = (if st = step_A then [] else [f])"

declare push_bit_and [simp del] drop_bit_and [simp del]

lemma decode_encode_loop:
  assumes "pending st f r (m p)" and "base64_encode_loop st r k xs = (out, s)"
  shows "\<exists>m' s'. base64_decode_loop True (dec_of st) p m (out @ base64_encode_blockend s) =
           Some (p + length (pend_list st f @ xs), m', s') \<and>
         mem_read m' p (length (pend_list st f @ xs)) = pend_list st f @ xs \<and>
         (\<forall>i < p. m' i = m i)"
  using assms
proof (induction xs arbitrary: st f r k p m out s)
  case Nil
  then show ?case
    by (cases st) (auto simp: base64_encode_blockend_def decode_sextet sextets_le decode_skip
        reassemble pend_list_def mem_read_def)
next
  case (Cons x xs)
  show ?case
  proof (cases st)
    case step_A
    let ?m = "m(p := x AND 0xfc)"
    obtain out' s' where e: "base64_encode_loop step_B (push_bit 4 (x AND 0x03)) k xs = (out', s')"
      by fastforce
    have eq: "base64_decode_loop True (dec_of st) p m (out @ base64_encode_blockend s) =
        base64_decode_loop True step_b p ?m (out' @ base64_encode_blockend s')"
      using Cons.prems step_A e by (auto simp: decode_sextet sextets_le reassemble)
    from Cons.IH [where m = ?m and p = p and f = x, OF _ e] obtain m' t where
      "base64_decode_loop True step_b p ?m (out' @ base64_encode_blockend s') = Some (p + Suc (length xs), m', t)"
      "mem_read m' p (Suc (length xs)) = x # xs" "\<forall>i<p. m' i = m i"
      by (auto simp: pend_list_def fun_upd_def)
    with eq step_A show ?thesis
      by (intro exI [of _ m'] exI [of _ t]) (simp add: pend_list_def)
  next
    case step_B
    let ?m = "m(p := f, Suc p := x AND 0xf0)"
    obtain out' s' where e: "base64_encode_loop step_C (push_bit 2 (x AND 0x0f)) k xs = (out', s')"
      by fastforce
    have eq: "base64_decode_loop True (dec_of st) p m (out @ base64_encode_blockend s) =
        base64_decode_loop True step_c (Suc p) ?m (out' @ base64_encode_blockend s')"
      using Cons.prems step_B e by (auto simp: decode_sextet sextets_le reassemble)
    from Cons.IH [where m = ?m and p = "Suc p" and f = x, OF _ e] obtain m' t where
      "base64_decode_loop True step_c (Suc p) ?m (out' @ base64_encode_blockend s') =
         Some (Suc p + Suc (length xs), m', t)"
      "mem_read m' (Suc p) (Suc (length xs)) = x # xs" "\<forall>i<Suc p. m' i = (m(p := f)) i"
      by (auto simp: pend_list_def fun_upd_def)
    with eq step_B show ?thesis
      by (intro exI [of _ m'] exI [of _ t]) (simp add: pend_list_def mem_read_Suc)
  next
    case step_C
    let ?k = "if k + 1 = CHARS_PER_LINE div 4 then 0 else k + 1"
    let ?m = "m(p := f, Suc p := x)"
    obtain out' s' where e: "base64_encode_loop step_A (x AND 0x3f) ?k xs = (out', s')"
      by fastforce
    have eq: "base64_decode_loop True (dec_of st) p m (out @ base64_encode_blockend s) =
        base64_decode_loop True step_a (Suc (Suc p)) ?m (out' @ base64_encode_blockend s')"
      using Cons.prems step_C e
      by (auto simp: decode_sextet sextets_le reassemble decode_skip Let_def split: if_splits)
    from Cons.IH [where m = ?m and p = "Suc (Suc p)" and f = x, OF _ e] obtain m' t where
      "base64_decode_loop True step_a (Suc (Suc p)) ?m (out' @ base64_encode_blockend s') =
         Some (Suc (Suc p) + length xs, m', t)"
      "mem_read m' (Suc (Suc p)) (length xs) = xs" "\<forall>i<Suc (Suc p). m' i = ?m i"
      by (auto simp: pend_list_def fun_upd_def)
    with eq step_C show ?thesis
      by (intro exI [of _ m'] exI [of _ t]) (simp add: pend_list_def mem_read_Suc)
  qed
qed


text \<open>
  C22: decoding what the encoder produced gives the input back. For every byte string, with
  line breaks and padding included, the decoder stops with exactly the input's length and the
  input's bytes at the start of the output buffer (on a compiler whose plain \<open>char\<close> is
  signed, which the decoder's skip test needs).
\<close>

theorem base64_roundtrip:
  "\<exists>m'. base64_decode_chars True (base64_encode_chars plain) m = Some (length plain, m') \<and>
        mem_read m' 0 (length plain) = plain"
proof -
  obtain out s where e: "base64_encode_loop step_A 0 0 plain = (out, s)"
    by fastforce
  from decode_encode_loop [where p = 0 and m = "m(0 := 0)" and f = 0, OF _ e]
  obtain m' t where d: "base64_decode_loop True step_a 0 (m(0 := 0)) (out @ base64_encode_blockend s) =
      Some (length plain, m', t)" and r: "mem_read m' 0 (length plain) = plain"
    by (auto simp: pend_list_def)
  have "base64_encode_chars plain = out @ base64_encode_blockend s"
    using e by (simp add: base64_encode_chars_def base64_encode_block_def base64_init_encodestate_def)
  with d r show ?thesis
    by (auto simp: base64_decode_chars_def base64_decode_block_def base64_init_decodestate_def
        mem_read_upd_below)
qed

lemma encode_loop_append:
  "base64_encode_loop st r k (xs @ ys) =
     (let (out, s) = base64_encode_loop st r k xs;
          (out', s') = base64_encode_block ys s
      in (out @ out', s'))"
proof (induction xs arbitrary: st r k)
  case Nil
  then show ?case by (simp add: base64_encode_block_def)
next
  case (Cons x xs)
  show ?case
    by (cases st) (simp_all add: Cons.IH Let_def split: prod.splits)
qed

text \<open>
  The encoder is a stream transformer: encoding a block in two calls that share the state
  writes the same characters and ends in the same state as encoding it in one call.
\<close>

theorem base64_encode_streaming:
  "base64_encode_block (xs @ ys) s =
     (let (out, s') = base64_encode_block xs s; (out', s'') = base64_encode_block ys s'
      in (out @ out', s''))"
  by (simp add: base64_encode_block_def encode_loop_append)

fun quantum :: "base64_encodestep \<Rightarrow> nat" where
  "quantum step_A = 0" | "quantum step_B = 1" | "quantum step_C = 2"

lemma third: "(n + 5) div 3 = Suc (Suc (Suc n) div 3)" "(n + 3) div 3 = Suc (n div 3)"
  "(17 + Suc q) div 18 = Suc (q div 18)" for n q :: nat
  by presburger+

lemma encode_loop_length:
  assumes "base64_encode_loop st r (int k) xs = (out, s)" and "k < 18"
  shows "length out + length (base64_encode_blockend s) + quantum st =
    4 * ((length xs + quantum st + 2) div 3) + (k + (length xs + quantum st) div 3) div 18"
  using assms
proof (induction xs arbitrary: st r k out)
  case Nil
  then show ?case by (cases st) (auto simp: base64_encode_blockend_def)
next
  case (Cons x xs)
  show ?case
  proof (cases st)
    case step_A
    with Cons.prems(1) obtain out' where
      "out = base64_encode_value (drop_bit 2 (x AND 0xfc)) # out'"
      "base64_encode_loop step_B (push_bit 4 (x AND 0x03)) (int k) xs = (out', s)"
      by (auto split: prod.splits)
    with Cons.IH [OF _ Cons.prems(2)] step_A show ?thesis by fastforce
  next
    case step_B
    with Cons.prems(1) obtain c out' where
      "out = c # out'" "base64_encode_loop step_C (push_bit 2 (x AND 0x0f)) (int k) xs = (out', s)"
      by (auto split: prod.splits)
    with Cons.IH [OF _ Cons.prems(2)] step_B show ?thesis by fastforce
  next
    case step_C
    define nl where "nl = (Suc k = 18)"
    from step_C Cons.prems(1) obtain c d out' where
      "out = c # d # (if nl then [0x0a] else []) @ out'"
      "base64_encode_loop step_A (x AND 0x3f) (int (if nl then 0 else Suc k)) xs = (out', s)"
      by (auto simp: CHARS_PER_LINE_def nl_def Let_def add.commute split: prod.splits if_splits)
    with Cons.IH [of step_A "x AND 0x3f" "if nl then 0 else Suc k" out'] Cons.prems(2) step_C
    show ?thesis
      using third(1,2) [of "length xs"] third(3) [of "length xs div 3"] by (auto simp: nl_def add.commute)
  qed
qed

text \<open>
  the exact number of characters \<open>base64_encode_chars\<close> returns: four for every started
  triple of input bytes and one newline for every completed line of 54 input bytes.
\<close>

theorem base64_encode_length:
  "length (base64_encode_chars plain) = 4 * ((length plain + 2) div 3) + length plain div 54"
proof -
  obtain out s where e: "base64_encode_loop step_A 0 0 plain = (out, s)"
    by fastforce
  have "length plain div 3 div 18 = length plain div 54"
    by (simp add: div_mult2_eq [symmetric])
  with encode_loop_length [of step_A 0 0 plain out s] e show ?thesis
    by (simp add: base64_encode_chars_def base64_encode_block_def base64_init_encodestate_def)
qed

lemma length_decoding [simp]: "length decoding = 80"
  by (simp add: decoding_def)

lemma char_value_80: "char_value sc w = 80 \<longleftrightarrow> w = 80"
proof -
  have "sint w = sint (80 :: byte) \<longleftrightarrow> w = 80" by (metis signed_word_eqI)
  moreover have "uint w = uint (80 :: byte) \<longleftrightarrow> w = 80" by (metis unsigned_word_eqI)
  ultimately show ?thesis by (simp add: char_value_def)
qed

text \<open>
  The only character for which \<open>base64_decode_value\<close> reads outside its table is the
  opening brace, the first one after the table's range: the bound check admits the index
  \<open>decoding_size\<close>.
\<close>

theorem base64_decode_overread: "base64_decode_value sc c = None \<longleftrightarrow> c = of_char CHR ''{''"
proof -
  have "base64_decode_value sc c = None \<longleftrightarrow> char_value sc (c - 43) = 80"
    by (auto simp: base64_decode_value_def Let_def)
  also have "\<dots> \<longleftrightarrow> c = 123"
    by (simp add: char_value_80 diff_eq_eq)
  finally show ?thesis by simp
qed

text \<open>
  Where plain \<open>char\<close> is unsigned the test \<open>fragment < 0\<close> never holds, so padding is
  decoded as data: the encoding of one byte decodes to three.
\<close>

theorem base64_unsigned_char_decode:
  "\<exists>m'. base64_decode_chars False (base64_encode_chars [77]) m = Some (3, m')"
proof -
  have enc: "base64_encode_chars [77] = [84, 81, 61, 61]" by code_simp
  have vals: "base64_decode_value False 84 = Some 19" "base64_decode_value False 81 = Some 16"
    "base64_decode_value False 61 = Some 254" by code_simp+
  show ?thesis
    unfolding enc by (simp add: base64_decode_chars_def base64_decode_block_def
        base64_init_decodestate_def base64_decode_loop.simps(2) vals char_value_def)
qed

end
