(* ===== verification/Base64_String.thy ===== *)
theory Base64_String
  imports Base64
begin

section \<open>Base64 strings\<close>

text \<open>
  \<open>base64.cpp\<close>: the class \<open>base64\<close> encodes a buffer into a block of the heap whose size it estimates from
  the length, and returns the characters up to the terminating zero. A character written behind
  the block is undefined (\<open>None\<close>). \<open>mem\<close> tells whether \<open>malloc\<close> succeeds.

  The size is \<open>(length * 1.6f) + 1\<close> in single precision. \<open>1.6f\<close> is \<open>13421773 / 2 ^ 23\<close>. The rounding of the
  product and of the sum to 24 bits does not change the integer part for lengths below \<open>2 ^ 19\<close>, more
  than the memory of the chip holds: the fraction of \<open>1.6 * length\<close> is a multiple of one fifth, and
  the error stays below that. The theorems are restricted to such lengths.
\<close>

definition encode_size :: "nat \<Rightarrow> nat" where
  "encode_size n = 13421773 * n div 2 ^ 23 + 1"

definition base64_encode :: "bool \<Rightarrow> byte list \<Rightarrow> byte list option" where
  "base64_encode mem data =
     (if mem then
        let (out, s) = base64_encode_block data base64_init_encodestate;
            buffer = out @ base64_encode_blockend s @ [0]
        in if length buffer \<le> encode_size (length data) then Some (takeWhile (\<lambda>c. c \<noteq> 0) buffer) else None
      else Some (map of_char ''-FAIL-''))"

lemma encode_value_nonzero: "base64_encode_value v \<noteq> 0"
proof (cases "63 < v")
  case False
  then have "unat v < 64" by (simp add: word_less_nat_alt not_less word_le_nat_alt)
  then have "encoding ! unat v \<in> set encoding" by simp
  moreover have "0 \<notin> set encoding" by (simp add: encoding_eq)
  ultimately show ?thesis using False by (auto simp: base64_encode_value_def)
qed (simp add: base64_encode_value_def)

lemma encode_loop_nonzero:
  "base64_encode_loop st r k xs = (out, s) \<Longrightarrow> 0 \<notin> set out"
  by (induction st r k xs arbitrary: out s rule: base64_encode_loop.induct)
    (fastforce simp: Let_def encode_value_nonzero [symmetric] split: prod.splits if_splits)+

lemma encode_chars_nonzero: "0 \<notin> set (base64_encode_chars data)"
proof -
  obtain out s where e: "base64_encode_loop step_A 0 0 data = (out, s)" by fastforce
  moreover have "0 \<notin> set (base64_encode_blockend s)"
    by (simp add: base64_encode_blockend_def encode_value_nonzero [symmetric] split: base64_encodestep.splits)
  ultimately show ?thesis using encode_loop_nonzero [OF e]
    by (simp add: base64_encode_chars_def base64_encode_block_def base64_init_encodestate_def)
qed

lemma encode_size_floor: "n < 2 ^ 19 \<Longrightarrow> encode_size n = 8 * n div 5 + 1"
  unfolding encode_size_def by simp

lemma encode_fits: "4 * ((n + 2) div 3) + n div 54 + 1 \<le> 8 * n div 5 + 1 \<longleftrightarrow> n \<notin> {1, 2, 4, 7}" for n :: nat
proof (cases "n < 14")
  case True
  then have "n \<in> set [0..<14]" by simp
  also have "set [0..<14] = {0, 1, 2, 3, 4, 5, 6, 7, 8, 9, 10, 11, 12, 13}" by (simp add: upt_rec numeral_eq_Suc)
  finally show ?thesis by auto
next
  case False
  have "3 * ((n + 2) div 3) \<le> n + 2" "54 * (n div 54) \<le> n" "8 * n < 5 * (8 * n div 5) + 5" by simp_all
  then have "4 * ((n + 2) div 3) + n div 54 \<le> 8 * n div 5" using False by linarith
  then show ?thesis using False by auto
qed

text \<open>
  C37: Encoding to a string returns the base64 characters of the data, except for data of one, two, four
  or seven bytes: for these the block is too small and the encoder writes behind it.
\<close>

theorem base64_encode_overflow:
  assumes "length data < 2 ^ 19"
  shows "base64_encode True data = (if length data \<in> {1, 2, 4, 7} then None else Some (base64_encode_chars data))"
proof -
  have "base64_encode True data =
      (if length (base64_encode_chars data) + 1 \<le> encode_size (length data) then Some (base64_encode_chars data) else None)"
    using encode_chars_nonzero [of data]
    by (auto simp: base64_encode_def base64_encode_chars_def Let_def takeWhile_append split: prod.splits)
  then show ?thesis
    using encode_fits [of "length data"] by (simp add: encode_size_floor [OF assms] base64_encode_length)
qed

theorem base64_encode_overflow_witness:
  "base64_encode True [77] = None \<and> base64_encode True [77, 97, 110] = Some (base64_encode_chars [77, 97, 110])"
  using base64_encode_overflow [of "[77]"] base64_encode_overflow [of "[77, 97, 110]"] by simp

end
