(* ===== verification/Spiffs_Layout.thy ===== *)
theory Spiffs_Layout
  imports Prelude
begin

section \<open>SPIFFS: data structures and flash layout\<close>

text \<open>
  The types of \<open>spiffs.h\<close> and \<open>spiffs_nucleus.h\<close> and the address arithmetic of their macros,
  for the configuration of \<open>spiffs_config.h\<close> (cache with write cache, page check, magic,
  16-bit object ids, page, block and span indices, 32-byte names).

  Pointers: a file descriptor is its index in \<open>fd_space\<close>, a cache page its index in
  \<open>cpages\<close> (its \<open>ix\<close> field, set once by \<open>spiffs_cache_init\<close>), with \<open>None\<close> for the null
  pointer. The flash chip is the memory \<open>flash\<close>; the three HAL callbacks of the configuration
  act on it and may fail with a result code. \<open>None\<close> as the result of an operation stands for
  undefined behaviour of the C code: a null pointer used or an access outside an object.
  Bytes of stack structures the code leaves uninitialised have the fixed but arbitrary value
  \<open>junk\<close>.
\<close>

subsection \<open>Result codes and flags\<close>

definition SPIFFS_OK :: int where [c_defs]: "SPIFFS_OK = 0"
definition SPIFFS_ERR_NOT_MOUNTED :: int where [c_defs]: "SPIFFS_ERR_NOT_MOUNTED = - 10000"
definition SPIFFS_ERR_FULL :: int where [c_defs]: "SPIFFS_ERR_FULL = - 10001"
definition SPIFFS_ERR_NOT_FOUND :: int where [c_defs]: "SPIFFS_ERR_NOT_FOUND = - 10002"
definition SPIFFS_ERR_END_OF_OBJECT :: int where [c_defs]: "SPIFFS_ERR_END_OF_OBJECT = - 10003"
definition SPIFFS_ERR_DELETED :: int where [c_defs]: "SPIFFS_ERR_DELETED = - 10004"
definition SPIFFS_ERR_NOT_FINALIZED :: int where [c_defs]: "SPIFFS_ERR_NOT_FINALIZED = - 10005"
definition SPIFFS_ERR_NOT_INDEX :: int where [c_defs]: "SPIFFS_ERR_NOT_INDEX = - 10006"
definition SPIFFS_ERR_OUT_OF_FILE_DESCS :: int where [c_defs]: "SPIFFS_ERR_OUT_OF_FILE_DESCS = - 10007"
definition SPIFFS_ERR_FILE_CLOSED :: int where [c_defs]: "SPIFFS_ERR_FILE_CLOSED = - 10008"
definition SPIFFS_ERR_BAD_DESCRIPTOR :: int where [c_defs]: "SPIFFS_ERR_BAD_DESCRIPTOR = - 10010"
definition SPIFFS_ERR_IS_INDEX :: int where [c_defs]: "SPIFFS_ERR_IS_INDEX = - 10011"
definition SPIFFS_ERR_IS_FREE :: int where [c_defs]: "SPIFFS_ERR_IS_FREE = - 10012"
definition SPIFFS_ERR_INDEX_SPAN_MISMATCH :: int where [c_defs]: "SPIFFS_ERR_INDEX_SPAN_MISMATCH = - 10013"
definition SPIFFS_ERR_DATA_SPAN_MISMATCH :: int where [c_defs]: "SPIFFS_ERR_DATA_SPAN_MISMATCH = - 10014"
definition SPIFFS_ERR_INDEX_REF_FREE :: int where [c_defs]: "SPIFFS_ERR_INDEX_REF_FREE = - 10015"
definition SPIFFS_ERR_INDEX_REF_LU :: int where [c_defs]: "SPIFFS_ERR_INDEX_REF_LU = - 10016"
definition SPIFFS_ERR_INDEX_REF_INVALID :: int where [c_defs]: "SPIFFS_ERR_INDEX_REF_INVALID = - 10017"
definition SPIFFS_ERR_INDEX_FREE :: int where [c_defs]: "SPIFFS_ERR_INDEX_FREE = - 10018"
definition SPIFFS_ERR_INDEX_LU :: int where [c_defs]: "SPIFFS_ERR_INDEX_LU = - 10019"
definition SPIFFS_ERR_INDEX_INVALID :: int where [c_defs]: "SPIFFS_ERR_INDEX_INVALID = - 10020"
definition SPIFFS_ERR_NOT_WRITABLE :: int where [c_defs]: "SPIFFS_ERR_NOT_WRITABLE = - 10021"
definition SPIFFS_ERR_NOT_READABLE :: int where [c_defs]: "SPIFFS_ERR_NOT_READABLE = - 10022"
definition SPIFFS_ERR_CONFLICTING_NAME :: int where [c_defs]: "SPIFFS_ERR_CONFLICTING_NAME = - 10023"
definition SPIFFS_ERR_NOT_CONFIGURED :: int where [c_defs]: "SPIFFS_ERR_NOT_CONFIGURED = - 10024"
definition SPIFFS_ERR_NOT_A_FS :: int where [c_defs]: "SPIFFS_ERR_NOT_A_FS = - 10025"
definition SPIFFS_ERR_MOUNTED :: int where [c_defs]: "SPIFFS_ERR_MOUNTED = - 10026"
definition SPIFFS_ERR_ERASE_FAIL :: int where [c_defs]: "SPIFFS_ERR_ERASE_FAIL = - 10027"
definition SPIFFS_ERR_MAGIC_NOT_POSSIBLE :: int where [c_defs]: "SPIFFS_ERR_MAGIC_NOT_POSSIBLE = - 10028"
definition SPIFFS_ERR_NO_DELETED_BLOCKS :: int where [c_defs]: "SPIFFS_ERR_NO_DELETED_BLOCKS = - 10029"
definition SPIFFS_ERR_FILE_EXISTS :: int where [c_defs]: "SPIFFS_ERR_FILE_EXISTS = - 10030"
definition SPIFFS_ERR_INTERNAL :: int where [c_defs]: "SPIFFS_ERR_INTERNAL = - 10050"
definition SPIFFS_VIS_COUNTINUE :: int where [c_defs]: "SPIFFS_VIS_COUNTINUE = - 10070"
definition SPIFFS_VIS_COUNTINUE_RELOAD :: int where [c_defs]: "SPIFFS_VIS_COUNTINUE_RELOAD = - 10071"
definition SPIFFS_VIS_END :: int where [c_defs]: "SPIFFS_VIS_END = - 10072"

text \<open>The events \<open>SPIFFS_EV_IX_UPD\<close>, \<open>SPIFFS_EV_IX_NEW\<close>, \<open>SPIFFS_EV_IX_DEL\<close>.\<close>

datatype spiffs_ev = EV_IX_UPD | EV_IX_NEW | EV_IX_DEL

definition SPIFFS_OBJ_ID_IX_FLAG :: u16 where [c_defs]: "SPIFFS_OBJ_ID_IX_FLAG = 0x8000"
definition SPIFFS_OBJ_ID_DELETED :: u16 where [c_defs]: "SPIFFS_OBJ_ID_DELETED = 0"
definition SPIFFS_OBJ_ID_FREE :: u16 where [c_defs]: "SPIFFS_OBJ_ID_FREE = 0xffff"

definition SPIFFS_UNDEFINED_LEN :: nat where [c_defs]: "SPIFFS_UNDEFINED_LEN = 0xffffffff"
definition NO_IX :: nat where [c_defs]: "NO_IX = 0xffff"
definition SPIFFS_CONFIG_MAGIC :: nat where [c_defs]: "SPIFFS_CONFIG_MAGIC = 0x20090315"
definition SPIFFS_OBJ_NAME_LEN :: nat where [c_defs]: "SPIFFS_OBJ_NAME_LEN = 32"
definition SPIFFS_COPY_BUFFER_STACK :: nat where [c_defs]: "SPIFFS_COPY_BUFFER_STACK = 64"
definition SPIFFS_GC_MAX_RUNS :: nat where [c_defs]: "SPIFFS_GC_MAX_RUNS = 5"
definition SPIFFS_TYPE_FILE :: byte where [c_defs]: "SPIFFS_TYPE_FILE = 1"

definition OP_T_OBJ_LU :: byte where [c_defs]: "OP_T_OBJ_LU = 0"
definition OP_T_OBJ_LU2 :: byte where [c_defs]: "OP_T_OBJ_LU2 = 1"
definition OP_T_OBJ_IX :: byte where [c_defs]: "OP_T_OBJ_IX = 2"
definition OP_T_OBJ_DA :: byte where [c_defs]: "OP_T_OBJ_DA = 3"
definition OP_C_DELE :: byte where [c_defs]: "OP_C_DELE = 0"
definition OP_C_UPDT :: byte where [c_defs]: "OP_C_UPDT = 4"
definition OP_C_MOVS :: byte where [c_defs]: "OP_C_MOVS = 8"
definition OP_C_MOVD :: byte where [c_defs]: "OP_C_MOVD = 12"
definition OP_C_READ :: byte where [c_defs]: "OP_C_READ = 20"
definition OP_C_WRTHRU :: byte where [c_defs]: "OP_C_WRTHRU = 24"
definition OP_TYPE_MASK :: byte where [c_defs]: "OP_TYPE_MASK = 3"
definition OP_COM_MASK :: byte where [c_defs]: "OP_COM_MASK = 28"

definition PH_FLAG_USED :: byte where [c_defs]: "PH_FLAG_USED = 1"
definition PH_FLAG_FINAL :: byte where [c_defs]: "PH_FLAG_FINAL = 2"
definition PH_FLAG_INDEX :: byte where [c_defs]: "PH_FLAG_INDEX = 4"
definition PH_FLAG_IXDELE :: byte where [c_defs]: "PH_FLAG_IXDELE = 64"
definition PH_FLAG_DELET :: byte where [c_defs]: "PH_FLAG_DELET = 128"

definition CACHE_FLAG_DIRTY :: byte where [c_defs]: "CACHE_FLAG_DIRTY = 1"
definition CACHE_FLAG_WRTHRU :: byte where [c_defs]: "CACHE_FLAG_WRTHRU = 2"
definition CACHE_FLAG_TYPE_WR :: byte where [c_defs]: "CACHE_FLAG_TYPE_WR = 128"

definition VIS_CHECK_ID :: byte where [c_defs]: "VIS_CHECK_ID = 1"
definition VIS_CHECK_PH :: byte where [c_defs]: "VIS_CHECK_PH = 2"
definition VIS_NO_WRAP :: byte where [c_defs]: "VIS_NO_WRAP = 4"

definition SPIFFS_APPEND :: u16 where [c_defs]: "SPIFFS_APPEND = 1"
definition SPIFFS_TRUNC :: u16 where [c_defs]: "SPIFFS_TRUNC = 2"
definition SPIFFS_CREAT :: u16 where [c_defs]: "SPIFFS_CREAT = 4"
definition SPIFFS_RDONLY :: u16 where [c_defs]: "SPIFFS_RDONLY = 8"
definition SPIFFS_WRONLY :: u16 where [c_defs]: "SPIFFS_WRONLY = 16"
definition SPIFFS_DIRECT :: u16 where [c_defs]: "SPIFFS_DIRECT = 32"
definition SPIFFS_EXCL :: u16 where [c_defs]: "SPIFFS_EXCL = 64"

datatype spiffs_whence = SPIFFS_SEEK_SET | SPIFFS_SEEK_CUR | SPIFFS_SEEK_END

subsection \<open>Structures\<close>

record spiffs_config =
  hal_read_f :: "nat \<Rightarrow> nat \<Rightarrow> mem \<Rightarrow> (int \<times> byte list) option"
  hal_write_f :: "nat \<Rightarrow> byte list \<Rightarrow> mem \<Rightarrow> (int \<times> mem) option"
  hal_erase_f :: "nat \<Rightarrow> nat \<Rightarrow> mem \<Rightarrow> (int \<times> mem) option"
  phys_size :: nat
  phys_addr :: nat
  phys_erase_block :: nat
  log_block_size :: nat
  log_page_size :: nat

text \<open>A cache page with its data; \<open>cp_pix\<close> and \<open>cp_obj_id\<close> share a union in C and are read
  under the type flag only.\<close>

record spiffs_cache_page =
  cp_flags :: byte
  cp_last_access :: nat
  cp_pix :: nat
  cp_obj_id :: u16
  cp_offset :: nat
  cp_size :: nat
  cp_data :: "byte list"

record spiffs_cache =
  cpage_count :: nat
  c_last_access :: nat
  cpage_use_map :: u32
  cpage_use_mask :: u32
  cpages :: "spiffs_cache_page list"

record spiffs_fd =
  file_nbr :: int
  fd_obj_id :: u16
  fd_size :: nat
  objix_hdr_pix :: nat
  cursor_objix_pix :: nat
  cursor_objix_spix :: nat
  fd_offset :: nat
  fdoffset :: nat
  fd_flags :: u16
  cache_page :: "nat option"

record spiffs =
  cfg :: spiffs_config
  block_count :: nat
  free_cursor_block_ix :: nat
  free_cursor_obj_lu_entry :: nat
  cursor_block_ix :: nat
  cursor_obj_lu_entry :: nat
  lu_work :: "byte list"
  work :: "byte list"
  fd_space :: "spiffs_fd list"
  err_code :: int
  free_blocks :: nat
  stats_p_allocated :: nat
  stats_p_deleted :: nat
  cleaning :: bool
  max_erase_count :: u16
  cache :: "spiffs_cache option"
  cache_size :: nat
  mounted :: bool
  config_magic :: nat
  flash :: mem
  junk :: byte

record spiffs_page_header =
  ph_obj_id :: u16
  ph_span_ix :: nat
  ph_flags :: byte

record spiffs_page_object_ix_header =
  oh_p_hdr :: spiffs_page_header
  oh_size :: nat
  oh_type :: byte
  oh_name :: "byte list"

subsection \<open>Byte images of the page headers\<close>

definition SIZEOF_PAGE_HEADER :: nat where [c_defs]: "SIZEOF_PAGE_HEADER = 5"
definition OFFSETOF_FLAGS :: nat where [c_defs]: "OFFSETOF_FLAGS = 4"
definition SIZEOF_OBJIX_HEADER :: nat where [c_defs]: "SIZEOF_OBJIX_HEADER = 46"
definition SIZEOF_OBJIX :: nat where [c_defs]: "SIZEOF_OBJIX = 8"

definition page_header_bytes :: "spiffs_page_header \<Rightarrow> byte list" where
  "page_header_bytes h = le16 (ph_obj_id h) @ le16 (of_nat (ph_span_ix h)) @ [ph_flags h]"

definition page_header_of :: "byte list \<Rightarrow> spiffs_page_header" where
  "page_header_of bs =
     \<lparr>ph_obj_id = of_le16 bs, ph_span_ix = unat (of_le16 (drop 2 bs)), ph_flags = bs ! 4\<rparr>"

text \<open>Packed: header 5, alignment 3, size 4, type 1, name 32, one tail byte (alignment 2).\<close>

definition objix_header_bytes :: "byte \<Rightarrow> spiffs_page_object_ix_header \<Rightarrow> byte list" where
  "objix_header_bytes j h =
     page_header_bytes (oh_p_hdr h) @ [j, j, j] @ le32 (of_nat (oh_size h)) @ [oh_type h] @
     oh_name h @ [j]"

definition objix_header_of :: "byte list \<Rightarrow> spiffs_page_object_ix_header" where
  "objix_header_of bs =
     \<lparr>oh_p_hdr = page_header_of bs, oh_size = unat (of_le32 (drop 8 bs)), oh_type = bs ! 12,
      oh_name = take 32 (drop 13 bs)\<rparr>"

text \<open>\<open>strncpy\<close> into a name field: stop at NUL, pad with NUL, no terminator when full.\<close>

definition strncpy_name :: "byte list \<Rightarrow> byte list" where
  "strncpy_name s =
     (let t = take SPIFFS_OBJ_NAME_LEN (takeWhile (\<lambda>c. c \<noteq> 0) s)
      in t @ replicate (SPIFFS_OBJ_NAME_LEN - length t) 0)"

text \<open>\<open>strcmp(s, field) == 0\<close> for a terminated string \<open>s\<close> (the end of the list is its NUL) and the
  bytes of a name field up to the end of its structure; \<open>None\<close> when the comparison runs past them.\<close>

fun strcmp_eq :: "byte list \<Rightarrow> byte list \<Rightarrow> bool option" where
  "strcmp_eq s [] = None"
| "strcmp_eq s (b # bs) =
     (let a = (case s of [] \<Rightarrow> 0 | a # _ \<Rightarrow> a)
      in if a \<noteq> b then Some False else if a = 0 then Some True else strcmp_eq (tl s) bs)"

subsection \<open>Geometry\<close>

definition SPIFFS_MAGIC :: "spiffs_config \<Rightarrow> u16" where
  "SPIFFS_MAGIC c = ucast (0x20140529 XOR (of_nat (log_page_size c) :: u32))"

definition SPIFFS_MAX_PAGES :: "spiffs_config \<Rightarrow> nat" where
  "SPIFFS_MAX_PAGES c = phys_size c div log_page_size c"

definition SPIFFS_PAGES_PER_BLOCK :: "spiffs_config \<Rightarrow> nat" where
  "SPIFFS_PAGES_PER_BLOCK c = log_block_size c div log_page_size c"

definition SPIFFS_OBJ_LOOKUP_PAGES :: "spiffs_config \<Rightarrow> nat" where
  "SPIFFS_OBJ_LOOKUP_PAGES c = max 1 ((SPIFFS_PAGES_PER_BLOCK c * 2) div log_page_size c)"

definition SPIFFS_IS_LOOKUP_PAGE :: "spiffs_config \<Rightarrow> nat \<Rightarrow> bool" where
  "SPIFFS_IS_LOOKUP_PAGE c pix \<longleftrightarrow> pix mod SPIFFS_PAGES_PER_BLOCK c < SPIFFS_OBJ_LOOKUP_PAGES c"

definition SPIFFS_OBJ_LOOKUP_MAX_ENTRIES :: "spiffs_config \<Rightarrow> nat" where
  "SPIFFS_OBJ_LOOKUP_MAX_ENTRIES c = sub32 (SPIFFS_PAGES_PER_BLOCK c) (SPIFFS_OBJ_LOOKUP_PAGES c)"

definition SPIFFS_BLOCK_TO_PADDR :: "spiffs_config \<Rightarrow> nat \<Rightarrow> nat" where
  "SPIFFS_BLOCK_TO_PADDR c block = add32 (phys_addr c) (block * log_block_size c)"

definition SPIFFS_OBJ_LOOKUP_ENTRY_TO_PIX :: "spiffs_config \<Rightarrow> nat \<Rightarrow> nat \<Rightarrow> nat" where
  "SPIFFS_OBJ_LOOKUP_ENTRY_TO_PIX c block entry =
     u16_of (block * SPIFFS_PAGES_PER_BLOCK c + (SPIFFS_OBJ_LOOKUP_PAGES c + entry))"

definition SPIFFS_PAGE_TO_PADDR :: "spiffs_config \<Rightarrow> nat \<Rightarrow> nat" where
  "SPIFFS_PAGE_TO_PADDR c page = add32 (phys_addr c) (page * log_page_size c)"

definition SPIFFS_OBJ_LOOKUP_ENTRY_TO_PADDR :: "spiffs_config \<Rightarrow> nat \<Rightarrow> nat \<Rightarrow> nat" where
  "SPIFFS_OBJ_LOOKUP_ENTRY_TO_PADDR c block entry =
     add32 (SPIFFS_BLOCK_TO_PADDR c block) ((SPIFFS_OBJ_LOOKUP_PAGES c + entry) * log_page_size c)"

definition SPIFFS_PADDR_TO_PAGE :: "spiffs_config \<Rightarrow> nat \<Rightarrow> nat" where
  "SPIFFS_PADDR_TO_PAGE c addr = sub32 addr (phys_addr c) div log_page_size c"

definition SPIFFS_PADDR_TO_PAGE_OFFSET :: "spiffs_config \<Rightarrow> nat \<Rightarrow> nat" where
  "SPIFFS_PADDR_TO_PAGE_OFFSET c addr = sub32 addr (phys_addr c) mod log_page_size c"

definition SPIFFS_BLOCK_FOR_PAGE :: "spiffs_config \<Rightarrow> nat \<Rightarrow> nat" where
  "SPIFFS_BLOCK_FOR_PAGE c page = page div SPIFFS_PAGES_PER_BLOCK c"

definition SPIFFS_PAGE_FOR_BLOCK :: "spiffs_config \<Rightarrow> nat \<Rightarrow> nat" where
  "SPIFFS_PAGE_FOR_BLOCK c block = block * SPIFFS_PAGES_PER_BLOCK c"

definition SPIFFS_OBJ_LOOKUP_ENTRY_FOR_PAGE :: "spiffs_config \<Rightarrow> nat \<Rightarrow> nat" where
  "SPIFFS_OBJ_LOOKUP_ENTRY_FOR_PAGE c page =
     sub32 (page mod SPIFFS_PAGES_PER_BLOCK c) (SPIFFS_OBJ_LOOKUP_PAGES c)"

definition SPIFFS_DATA_PAGE_SIZE :: "spiffs_config \<Rightarrow> nat" where
  "SPIFFS_DATA_PAGE_SIZE c = sub32 (log_page_size c) SIZEOF_PAGE_HEADER"

definition SPIFFS_ERASE_COUNT_PADDR :: "spiffs_config \<Rightarrow> nat \<Rightarrow> nat" where
  "SPIFFS_ERASE_COUNT_PADDR c bix =
     sub32 (add32 (SPIFFS_BLOCK_TO_PADDR c bix) (SPIFFS_OBJ_LOOKUP_PAGES c * log_page_size c)) 2"

definition SPIFFS_MAGIC_PADDR :: "spiffs_config \<Rightarrow> nat \<Rightarrow> nat" where
  "SPIFFS_MAGIC_PADDR c bix =
     sub32 (add32 (SPIFFS_BLOCK_TO_PADDR c bix) (SPIFFS_OBJ_LOOKUP_PAGES c * log_page_size c)) 4"

definition SPIFFS_CHECK_MAGIC_POSSIBLE :: "spiffs_config \<Rightarrow> bool" where
  "SPIFFS_CHECK_MAGIC_POSSIBLE c \<longleftrightarrow>
     (SPIFFS_OBJ_LOOKUP_MAX_ENTRIES c mod (log_page_size c div 2)) * 2 \<le> sub32 (log_page_size c) 4"

definition SPIFFS_OBJ_HDR_IX_LEN :: "spiffs_config \<Rightarrow> nat" where
  "SPIFFS_OBJ_HDR_IX_LEN c = sub32 (log_page_size c) SIZEOF_OBJIX_HEADER div 2"

definition SPIFFS_OBJ_IX_LEN :: "spiffs_config \<Rightarrow> nat" where
  "SPIFFS_OBJ_IX_LEN c = sub32 (log_page_size c) SIZEOF_OBJIX div 2"

definition SPIFFS_OBJ_IX_ENTRY :: "spiffs_config \<Rightarrow> nat \<Rightarrow> nat" where
  "SPIFFS_OBJ_IX_ENTRY c spix =
     (if spix < SPIFFS_OBJ_HDR_IX_LEN c then spix
      else (spix - SPIFFS_OBJ_HDR_IX_LEN c) mod SPIFFS_OBJ_IX_LEN c)"

definition SPIFFS_OBJ_IX_ENTRY_SPAN_IX :: "spiffs_config \<Rightarrow> nat \<Rightarrow> nat" where
  "SPIFFS_OBJ_IX_ENTRY_SPAN_IX c spix =
     (if spix < SPIFFS_OBJ_HDR_IX_LEN c then 0
      else u16_of (1 + (spix - SPIFFS_OBJ_HDR_IX_LEN c) div SPIFFS_OBJ_IX_LEN c))"

subsection \<open>Header validation\<close>

text \<open>\<open>SPIFFS_VALIDATE_OBJIX\<close> and \<open>SPIFFS_VALIDATE_DATA\<close>: the code they return, or
  \<open>SPIFFS_OK\<close> when they fall through.\<close>

definition SPIFFS_VALIDATE_OBJIX :: "spiffs_page_header \<Rightarrow> u16 \<Rightarrow> nat \<Rightarrow> int" where
  "SPIFFS_VALIDATE_OBJIX ph objid spix =
     (if ph_flags ph AND PH_FLAG_USED \<noteq> 0 then SPIFFS_ERR_IS_FREE
      else if ph_flags ph AND PH_FLAG_DELET = 0 then SPIFFS_ERR_DELETED
      else if ph_flags ph AND PH_FLAG_FINAL \<noteq> 0 then SPIFFS_ERR_NOT_FINALIZED
      else if ph_flags ph AND PH_FLAG_INDEX \<noteq> 0 then SPIFFS_ERR_NOT_INDEX
      else if objid AND SPIFFS_OBJ_ID_IX_FLAG = 0 then SPIFFS_ERR_NOT_INDEX
      else if ph_span_ix ph \<noteq> spix then SPIFFS_ERR_INDEX_SPAN_MISMATCH
      else SPIFFS_OK)"

definition SPIFFS_VALIDATE_DATA :: "spiffs_page_header \<Rightarrow> u16 \<Rightarrow> nat \<Rightarrow> int" where
  "SPIFFS_VALIDATE_DATA ph objid spix =
     (if ph_flags ph AND PH_FLAG_USED \<noteq> 0 then SPIFFS_ERR_IS_FREE
      else if ph_flags ph AND PH_FLAG_DELET = 0 then SPIFFS_ERR_DELETED
      else if ph_flags ph AND PH_FLAG_FINAL \<noteq> 0 then SPIFFS_ERR_NOT_FINALIZED
      else if ph_flags ph AND PH_FLAG_INDEX = 0 then SPIFFS_ERR_IS_INDEX
      else if objid AND SPIFFS_OBJ_ID_IX_FLAG \<noteq> 0 then SPIFFS_ERR_IS_INDEX
      else if ph_span_ix ph \<noteq> spix then SPIFFS_ERR_DATA_SPAN_MISMATCH
      else SPIFFS_OK)"

subsection \<open>File descriptors and index entries in the work buffer\<close>

definition fd_at :: "nat \<Rightarrow> spiffs \<Rightarrow> spiffs_fd" where
  "fd_at i fs = fd_space fs ! i"

definition upd_fd :: "nat \<Rightarrow> (spiffs_fd \<Rightarrow> spiffs_fd) \<Rightarrow> spiffs \<Rightarrow> spiffs" where
  "upd_fd i f fs = fs\<lparr>fd_space := (fd_space fs)[i := f (fd_space fs ! i)]\<rparr>"

text \<open>Replacing the bytes of a buffer from an offset on; \<open>None\<close> outside the buffer.\<close>

definition buf_write :: "nat \<Rightarrow> byte list \<Rightarrow> byte list \<Rightarrow> byte list option" where
  "buf_write off bs buf =
     (if off + length bs \<le> length buf
      then Some (take off buf @ bs @ drop (off + length bs) buf) else None)"

definition buf_slice :: "nat \<Rightarrow> nat \<Rightarrow> byte list \<Rightarrow> byte list option" where
  "buf_slice off n buf = (if off + n \<le> length buf then Some (take n (drop off buf)) else None)"

text \<open>The page index stored for a data span index in the object index page held in \<open>work\<close>:
  the header page (span 0) keeps its entries after the larger header.\<close>

definition objix_entry_offset :: "spiffs_config \<Rightarrow> nat \<Rightarrow> nat \<Rightarrow> nat" where
  "objix_entry_offset c objix_spix data_spix =
     (if objix_spix = 0 then SIZEOF_OBJIX_HEADER + 2 * data_spix
      else SIZEOF_OBJIX + 2 * SPIFFS_OBJ_IX_ENTRY c data_spix)"

definition objix_get :: "nat \<Rightarrow> nat \<Rightarrow> spiffs \<Rightarrow> nat option" where
  "objix_get objix_spix data_spix fs =
     map_option (\<lambda>bs. unat (of_le16 bs))
       (buf_slice (objix_entry_offset (cfg fs) objix_spix data_spix) 2 (work fs))"

definition objix_put :: "nat \<Rightarrow> nat \<Rightarrow> nat \<Rightarrow> spiffs \<Rightarrow> spiffs option" where
  "objix_put objix_spix data_spix pix fs = do {
     w \<leftarrow> buf_write (objix_entry_offset (cfg fs) objix_spix data_spix) (le16 (of_nat pix)) (work fs);
     Some (fs\<lparr>work := w\<rparr>)
   }"

end
