(* ===== verification/Spiffs_Cache.thy ===== *)
theory Spiffs_Cache
  imports Spiffs_Layout
begin

section \<open>SPIFFS: the page cache\<close>

text \<open>
  \<open>spiffs_cache.c\<close>: a fixed set of cache pages in RAM. Read-cache pages mirror a flash page and
  are written through; write-cache pages (flag \<open>TYPE_WR\<close>) collect the pending bytes of a file.
  The bit map \<open>cpage_use_map\<close> marks the pages in use; its bits outside \<open>cpage_use_mask\<close> are
  ones. A shift \<open>1 << i\<close> by 32 or more and a page index outside the pages are undefined.
  The file handle argument of \<open>spiffs_phys_rd\<close> and \<open>spiffs_phys_wr\<close> is unused in the code
  and left out; \<open>dst\<close> is the list of bytes read, \<open>src\<close> with \<open>len\<close> the list of bytes written.
\<close>

definition upd_cp :: "nat \<Rightarrow> (spiffs_cache_page \<Rightarrow> spiffs_cache_page) \<Rightarrow> spiffs_cache \<Rightarrow> spiffs_cache" where
  "upd_cp i f c = c\<lparr>cpages := (cpages c)[i := f (cpages c ! i)]\<rparr>"

text \<open>The loop over the cache pages shared by the two lookups: the first page in use that
  satisfies the test.\<close>

fun cache_page_scan :: "(spiffs_cache_page \<Rightarrow> bool) \<Rightarrow> spiffs_cache \<Rightarrow> nat list \<Rightarrow> nat option option" where
  "cache_page_scan P c [] = Some None"
| "cache_page_scan P c (i # is) =
     (if 32 \<le> i \<or> length (cpages c) \<le> i then None
      else if bit (cpage_use_map c) i \<and> P (cpages c ! i) then Some (Some i)
      else cache_page_scan P c is)"

definition spiffs_cache_page_get :: "nat \<Rightarrow> spiffs \<Rightarrow> (nat option \<times> spiffs) option" where
  "spiffs_cache_page_get pix fs = do {
     c \<leftarrow> cache fs;
     if cpage_use_map c AND cpage_use_mask c = 0 then Some (None, fs)
     else do {
       r \<leftarrow> cache_page_scan (\<lambda>cp. cp_flags cp AND CACHE_FLAG_TYPE_WR = 0 \<and> cp_pix cp = pix) c
              [0..<cpage_count c];
       case r of
         None \<Rightarrow> Some (None, fs)
       | Some i \<Rightarrow>
           Some (Some i, fs\<lparr>cache := Some (upd_cp i (cp_last_access_update (\<lambda>_. c_last_access c)) c)\<rparr>)
     }
   }"

definition spiffs_cache_page_free :: "nat \<Rightarrow> bool \<Rightarrow> spiffs \<Rightarrow> (int \<times> spiffs) option" where
  "spiffs_cache_page_free ix write_back fs = do {
     c \<leftarrow> cache fs;
     if 32 \<le> ix \<or> length (cpages c) \<le> ix then None
     else if bit (cpage_use_map c) ix then do {
       (res, m) \<leftarrow>
         (if write_back \<and> cp_flags (cpages c ! ix) AND CACHE_FLAG_TYPE_WR = 0 \<and>
             cp_flags (cpages c ! ix) AND CACHE_FLAG_DIRTY \<noteq> 0
          then hal_write_f (cfg fs) (SPIFFS_PAGE_TO_PADDR (cfg fs) (cp_pix (cpages c ! ix)))
                 (cp_data (cpages c ! ix)) (flash fs)
          else Some (SPIFFS_OK, flash fs));
       let c' = upd_cp ix (cp_flags_update (\<lambda>_. 0)) c;
       Some (res, fs\<lparr>flash := m,
                     cache := Some (c'\<lparr>cpage_use_map := cpage_use_map c AND NOT (push_bit ix 1)\<rparr>)\<rparr>)
     }
     else Some (SPIFFS_OK, fs)
   }"

text \<open>The candidate search of \<open>spiffs_cache_page_remove_oldest\<close>: \<open>(oldest_val, cand_ix)\<close>.\<close>

definition oldest_step :: "byte \<Rightarrow> byte \<Rightarrow> spiffs_cache \<Rightarrow> nat \<Rightarrow> nat \<times> nat option \<Rightarrow> nat \<times> nat option" where
  "oldest_step flag_mask flags c i acc =
     (let age = sub32 (c_last_access c) (cp_last_access (cpages c ! i)) in
      if age > fst acc \<and> cp_flags (cpages c ! i) AND flag_mask = flags then (age, Some i) else acc)"

definition spiffs_cache_page_remove_oldest :: "byte \<Rightarrow> byte \<Rightarrow> spiffs \<Rightarrow> (int \<times> spiffs) option" where
  "spiffs_cache_page_remove_oldest flag_mask flags fs = do {
     c \<leftarrow> cache fs;
     if cpage_use_map c AND cpage_use_mask c \<noteq> cpage_use_mask c then Some (SPIFFS_OK, fs)
     else if length (cpages c) < cpage_count c then None
     else
       case snd (fold (oldest_step flag_mask flags c) [0..<cpage_count c] (0, None)) of
         None \<Rightarrow> Some (SPIFFS_OK, fs)
       | Some i \<Rightarrow> spiffs_cache_page_free i True fs
   }"

fun cache_free_scan :: "spiffs_cache \<Rightarrow> nat list \<Rightarrow> nat option option" where
  "cache_free_scan c [] = Some None"
| "cache_free_scan c (i # is) =
     (if 32 \<le> i then None
      else if \<not> bit (cpage_use_map c) i then if i < length (cpages c) then Some (Some i) else None
      else cache_free_scan c is)"

definition spiffs_cache_page_allocate :: "spiffs \<Rightarrow> (nat option \<times> spiffs) option" where
  "spiffs_cache_page_allocate fs = do {
     c \<leftarrow> cache fs;
     if cpage_use_map c = 0xffffffff then Some (None, fs)
     else do {
       r \<leftarrow> cache_free_scan c [0..<cpage_count c];
       case r of
         None \<Rightarrow> Some (None, fs)
       | Some i \<Rightarrow>
           let c' = c\<lparr>cpage_use_map := cpage_use_map c OR push_bit i 1\<rparr> in
           Some (Some i, fs\<lparr>cache := Some (upd_cp i (cp_last_access_update (\<lambda>_. c_last_access c)) c')\<rparr>)
     }
   }"

definition spiffs_cache_drop_page :: "nat \<Rightarrow> spiffs \<Rightarrow> spiffs option" where
  "spiffs_cache_drop_page pix fs = do {
     (cp, fs) \<leftarrow> spiffs_cache_page_get pix fs;
     case cp of
       None \<Rightarrow> Some fs
     | Some i \<Rightarrow> map_option snd (spiffs_cache_page_free i False fs)
   }"

subsection \<open>Reads and writes through the cache\<close>

text \<open>\<open>cache->last_access++\<close>, and the same followed by stamping a page.\<close>

definition cache_tick :: "spiffs_cache \<Rightarrow> spiffs_cache" where
  "cache_tick c = c\<lparr>c_last_access := add32 (c_last_access c) 1\<rparr>"

definition spiffs_phys_rd :: "byte \<Rightarrow> nat \<Rightarrow> nat \<Rightarrow> spiffs \<Rightarrow> (int \<times> byte list \<times> spiffs) option" where
  "spiffs_phys_rd op addr len fs = do {
     let pix = u16_of (SPIFFS_PADDR_TO_PAGE (cfg fs) addr);
     let off = SPIFFS_PADDR_TO_PAGE_OFFSET (cfg fs) addr;
     (cp, fs) \<leftarrow> spiffs_cache_page_get pix fs;
     c \<leftarrow> map_option cache_tick (cache fs);
     let fs = fs\<lparr>cache := Some c\<rparr>;
     case cp of
       Some i \<Rightarrow> do {
         bs \<leftarrow> buf_slice off len (cp_data (cpages c ! i));
         Some (SPIFFS_OK, bs,
               fs\<lparr>cache := Some (upd_cp i (cp_last_access_update (\<lambda>_. c_last_access c)) c)\<rparr>)
       }
     | None \<Rightarrow>
         if op AND OP_TYPE_MASK = OP_T_OBJ_LU2 then do {
           (res, bs) \<leftarrow> hal_read_f (cfg fs) addr len (flash fs);
           Some (res, bs, fs)
         }
         else do {
           (res, fs) \<leftarrow> spiffs_cache_page_remove_oldest CACHE_FLAG_TYPE_WR 0 fs;
           (cp, fs) \<leftarrow> spiffs_cache_page_allocate fs;
           i \<leftarrow> cp;
           (res2, page) \<leftarrow> hal_read_f (cfg fs) (sub32 addr off) (log_page_size (cfg fs)) (flash fs);
           c \<leftarrow> cache fs;
           let c = upd_cp i (\<lambda>p. p\<lparr>cp_flags := CACHE_FLAG_WRTHRU, cp_pix := pix, cp_data := page\<rparr>) c;
           bs \<leftarrow> buf_slice off len page;
           Some (if res2 \<noteq> SPIFFS_OK then res2 else res, bs, fs\<lparr>cache := Some c\<rparr>)
         }
   }"

definition hal_wr :: "nat \<Rightarrow> byte list \<Rightarrow> spiffs \<Rightarrow> (int \<times> spiffs) option" where
  "hal_wr addr src fs = do {
     (res, m) \<leftarrow> hal_write_f (cfg fs) addr src (flash fs);
     Some (res, fs\<lparr>flash := m\<rparr>)
   }"

definition spiffs_phys_wr :: "byte \<Rightarrow> nat \<Rightarrow> byte list \<Rightarrow> spiffs \<Rightarrow> (int \<times> spiffs) option" where
  "spiffs_phys_wr op addr src fs = do {
     let pix = u16_of (SPIFFS_PADDR_TO_PAGE (cfg fs) addr);
     (cp, fs) \<leftarrow> spiffs_cache_page_get pix fs;
     case cp of
       None \<Rightarrow> hal_wr addr src fs
     | Some i \<Rightarrow>
         if op AND OP_COM_MASK = OP_C_WRTHRU then hal_wr addr src fs
         else if op AND OP_COM_MASK = OP_C_DELE \<and> op AND OP_TYPE_MASK \<noteq> OP_T_OBJ_LU then do {
           (_, fs) \<leftarrow> spiffs_cache_page_free i False fs;
           hal_wr addr src fs
         }
         else do {
           c \<leftarrow> map_option cache_tick (cache fs);
           d \<leftarrow> buf_write (SPIFFS_PADDR_TO_PAGE_OFFSET (cfg fs) addr) src (cp_data (cpages c ! i));
           let c = upd_cp i (\<lambda>p. p\<lparr>cp_data := d, cp_last_access := c_last_access c\<rparr>) c;
           let fs = fs\<lparr>cache := Some c\<rparr>;
           if cp_flags (cpages c ! i) AND CACHE_FLAG_WRTHRU \<noteq> 0 then hal_wr addr src fs
           else Some (SPIFFS_OK, fs)
         }
   }"

subsection \<open>Write-cache pages of file descriptors\<close>

definition spiffs_cache_page_get_by_fd :: "nat \<Rightarrow> spiffs \<Rightarrow> nat option option" where
  "spiffs_cache_page_get_by_fd fd fs = do {
     c \<leftarrow> cache fs;
     if cpage_use_map c AND cpage_use_mask c = 0 then Some None
     else cache_page_scan
            (\<lambda>cp. cp_flags cp AND CACHE_FLAG_TYPE_WR \<noteq> 0 \<and> cp_obj_id cp = fd_obj_id (fd_at fd fs)) c
            [0..<cpage_count c]
   }"

definition spiffs_cache_page_allocate_by_fd :: "nat \<Rightarrow> spiffs \<Rightarrow> (nat option \<times> spiffs) option" where
  "spiffs_cache_page_allocate_by_fd fd fs = do {
     (_, fs) \<leftarrow> spiffs_cache_page_remove_oldest CACHE_FLAG_TYPE_WR 0 fs;
     (cp, fs) \<leftarrow> spiffs_cache_page_allocate fs;
     case cp of
       None \<Rightarrow> Some (None, fs)
     | Some i \<Rightarrow> do {
         c \<leftarrow> cache fs;
         let c = upd_cp i (\<lambda>p. p\<lparr>cp_flags := CACHE_FLAG_TYPE_WR, cp_obj_id := fd_obj_id (fd_at fd fs)\<rparr>) c;
         Some (Some i, upd_fd fd (cache_page_update (\<lambda>_. Some i)) (fs\<lparr>cache := Some c\<rparr>))
       }
   }"

definition spiffs_cache_fd_release :: "nat option \<Rightarrow> spiffs \<Rightarrow> spiffs option" where
  "spiffs_cache_fd_release cp fs =
     (case cp of
        None \<Rightarrow> Some fs
      | Some i \<Rightarrow> do {
          let fs = fs\<lparr>fd_space :=
                map (\<lambda>f. if file_nbr f \<noteq> 0 \<and> cache_page f = Some i then f\<lparr>cache_page := None\<rparr> else f)
                  (fd_space fs)\<rparr>;
          (_, fs) \<leftarrow> spiffs_cache_page_free i False fs;
          c \<leftarrow> cache fs;
          Some (fs\<lparr>cache := Some (upd_cp i (cp_obj_id_update (\<lambda>_. 0)) c)\<rparr>)
        })"

subsection \<open>Initialisation\<close>

definition SIZEOF_CACHE :: nat where [c_defs]: "SIZEOF_CACHE = 20"

definition SPIFFS_CACHE_PAGE_SIZE :: "spiffs_config \<Rightarrow> nat" where
  "SPIFFS_CACHE_PAGE_SIZE c = add32 20 (log_page_size c)"

definition blank_cache_page :: "nat \<Rightarrow> spiffs_cache_page" where
  "blank_cache_page n = \<lparr>cp_flags = 0, cp_last_access = 0, cp_pix = 0, cp_obj_id = 0, cp_offset = 0,
     cp_size = 0, cp_data = replicate n 0\<rparr>"

definition spiffs_cache_init :: "spiffs \<Rightarrow> spiffs" where
  "spiffs_cache_init fs =
     (case cache fs of
        None \<Rightarrow> fs
      | Some _ \<Rightarrow>
          let cache_entries = s32_of (sub32 (cache_size fs) SIZEOF_CACHE div SPIFFS_CACHE_PAGE_SIZE (cfg fs));
              cache_mask = ((\<lambda>m. push_bit 1 m OR 1) ^^ nat cache_entries) (0 :: u32);
              n = nat cache_entries mod 256
          in if cache_entries \<le> 0 then fs
             else fs\<lparr>cache := Some \<lparr>cpage_count = n, c_last_access = 0,
                    cpage_use_map = 0xffffffff AND NOT cache_mask, cpage_use_mask = cache_mask,
                    cpages = replicate n (blank_cache_page (log_page_size (cfg fs)))\<rparr>\<rparr>)"

end
