(* ===== verification/Spiffs_Lookup.thy ===== *)
theory Spiffs_Lookup
  imports Spiffs_Cache
begin

section \<open>SPIFFS: object lookup\<close>

text \<open>
  The part of \<open>spiffs_nucleus.c\<close> and \<open>spiffs_gc.c\<close> that works on the object lookup pages: the
  first pages of every block hold one object id per page of the block. The entry visitor with
  its three nested loops (blocks, lookup pages, entries), block erasure, the mount-time scan,
  the quick garbage collector, and the searches built on the visitor.

  The entry and page loops recurse over the indices still to visit; the block loop of the
  visitor and the erase loop take fuel (\<open>None\<close> when it runs out), chosen so that they finish:
  every pass over a block after the first visits at least one entry, and the erase loop
  advances by the erase size.
\<close>

subsection \<open>Reading lookup pages and ids\<close>

definition entries_per_page :: "spiffs_config \<Rightarrow> nat" where
  "entries_per_page c = log_page_size c div 2"

text \<open>\<open>(int)SPIFFS_OBJ_LOOKUP_MAX_ENTRIES(fs)\<close> as a loop bound: negative bounds run no pass.\<close>

definition max_entries :: "spiffs_config \<Rightarrow> nat" where
  "max_entries c = nat (s32_of (SPIFFS_OBJ_LOOKUP_MAX_ENTRIES c))"

definition lu_get :: "nat \<Rightarrow> spiffs \<Rightarrow> u16 option" where
  "lu_get k fs = map_option of_le16 (buf_slice (2 * k) 2 (lu_work fs))"

text \<open>\<open>_spiffs_rd\<close> of a lookup page into \<open>fs->lu_work\<close>, of a page into \<open>fs->work\<close>, of an id and of
  a page header into locals.\<close>

definition lu_load :: "nat \<Rightarrow> spiffs \<Rightarrow> (int \<times> spiffs) option" where
  "lu_load addr fs = do {
     (res, bs, fs) \<leftarrow> spiffs_phys_rd (OP_T_OBJ_LU OR OP_C_READ) addr (log_page_size (cfg fs)) fs;
     Some (res, fs\<lparr>lu_work := bs\<rparr>)
   }"

definition work_load :: "byte \<Rightarrow> nat \<Rightarrow> spiffs \<Rightarrow> (int \<times> spiffs) option" where
  "work_load op addr fs = do {
     (res, bs, fs) \<leftarrow> spiffs_phys_rd op addr (log_page_size (cfg fs)) fs;
     Some (res, fs\<lparr>work := bs\<rparr>)
   }"

definition rd_id :: "byte \<Rightarrow> nat \<Rightarrow> spiffs \<Rightarrow> (int \<times> u16 \<times> spiffs) option" where
  "rd_id op addr fs = do {
     (res, bs, fs) \<leftarrow> spiffs_phys_rd op addr 2 fs;
     Some (res, of_le16 bs, fs)
   }"

definition rd_header :: "byte \<Rightarrow> nat \<Rightarrow> spiffs \<Rightarrow> (int \<times> spiffs_page_header \<times> spiffs) option" where
  "rd_header op addr fs = do {
     (res, bs, fs) \<leftarrow> spiffs_phys_rd op addr SIZEOF_PAGE_HEADER fs;
     Some (res, page_header_of bs, fs)
   }"

subsection \<open>Page checks and physical copy\<close>

definition spiffs_page_data_check :: "nat \<Rightarrow> nat \<Rightarrow> nat \<Rightarrow> spiffs \<Rightarrow> (int \<times> spiffs) option" where
  "spiffs_page_data_check fd pix spix fs =
     (if pix = NO_IX then Some (SPIFFS_ERR_INDEX_REF_FREE, fs)
      else if pix mod SPIFFS_PAGES_PER_BLOCK (cfg fs) < SPIFFS_OBJ_LOOKUP_PAGES (cfg fs)
      then Some (SPIFFS_ERR_INDEX_REF_LU, fs)
      else if pix > SPIFFS_MAX_PAGES (cfg fs) then Some (SPIFFS_ERR_INDEX_REF_INVALID, fs)
      else do {
        (res, ph, fs) \<leftarrow> rd_header (OP_T_OBJ_DA OR OP_C_READ) (SPIFFS_PAGE_TO_PADDR (cfg fs) pix) fs;
        if res < 0 then Some (res, fs)
        else
          let v = SPIFFS_VALIDATE_DATA ph (fd_obj_id (fd_at fd fs) AND NOT SPIFFS_OBJ_ID_IX_FLAG) spix in
          Some (if v \<noteq> SPIFFS_OK then v else res, fs)
      })"

definition spiffs_page_index_check :: "nat \<Rightarrow> nat \<Rightarrow> nat \<Rightarrow> spiffs \<Rightarrow> (int \<times> spiffs) option" where
  "spiffs_page_index_check fd pix spix fs =
     (if pix = NO_IX then Some (SPIFFS_ERR_INDEX_FREE, fs)
      else if pix mod SPIFFS_PAGES_PER_BLOCK (cfg fs) < SPIFFS_OBJ_LOOKUP_PAGES (cfg fs)
      then Some (SPIFFS_ERR_INDEX_LU, fs)
      else if pix > SPIFFS_MAX_PAGES (cfg fs) then Some (SPIFFS_ERR_INDEX_INVALID, fs)
      else do {
        (res, ph, fs) \<leftarrow> rd_header (OP_T_OBJ_IX OR OP_C_READ) (SPIFFS_PAGE_TO_PADDR (cfg fs) pix) fs;
        if res < 0 then Some (res, fs)
        else
          let v = SPIFFS_VALIDATE_OBJIX ph (fd_obj_id (fd_at fd fs)) spix in
          Some (if v \<noteq> SPIFFS_OK then v else res, fs)
      })"

function spiffs_phys_cpy :: "nat \<Rightarrow> nat \<Rightarrow> nat \<Rightarrow> spiffs \<Rightarrow> (int \<times> spiffs) option" where
  "spiffs_phys_cpy dst src len fs =
     (if len = 0 then Some (SPIFFS_OK, fs)
      else
        let chunk_size = min SPIFFS_COPY_BUFFER_STACK len in
        case spiffs_phys_rd (OP_T_OBJ_DA OR OP_C_MOVS) src chunk_size fs of
          None \<Rightarrow> None
        | Some (res, b, fs) \<Rightarrow>
            if res < 0 then Some (res, fs)
            else
              (case spiffs_phys_wr (OP_T_OBJ_DA OR OP_C_MOVD) dst b fs of
                None \<Rightarrow> None
              | Some (res, fs) \<Rightarrow>
                  if res < 0 then Some (res, fs)
                  else spiffs_phys_cpy (add32 dst chunk_size) (add32 src chunk_size) (len - chunk_size) fs))"
  by pat_completeness auto
termination
  by (relation "measure (\<lambda>(dst, src, len, fs). len)") (auto simp: SPIFFS_COPY_BUFFER_STACK_def)

declare spiffs_phys_cpy.simps [simp del]

subsection \<open>The entry visitor\<close>

type_synonym 'u visitor = "u16 \<Rightarrow> nat \<Rightarrow> nat \<Rightarrow> 'u \<Rightarrow> spiffs \<Rightarrow> (int \<times> 'u \<times> spiffs) option"

text \<open>What the loops carry: \<open>*user_var_p\<close>, the reported \<open>*block_ix\<close> and \<open>*lu_entry\<close> (\<open>None\<close> before
  the first report), \<open>entry_count\<close> and the file system.\<close>

record 'u vis =
  vis_u :: 'u
  vis_loc :: "(nat \<times> nat) option"
  vis_count :: int
  vis_fs :: spiffs

text \<open>The arguments of the visitor that stay constant.\<close>

record 'u vis_arg =
  va_flags :: byte
  va_obj_id :: u16
  va_v :: "'u visitor option"

primrec visit_entries :: "'u vis_arg \<Rightarrow> nat \<Rightarrow> nat \<Rightarrow> nat \<Rightarrow> nat list \<Rightarrow> 'u vis \<Rightarrow>
    (int \<times> 'u vis, 'u vis) flow option" where
  "visit_entries va blk addr entry_offset [] s = Some (Continue s)"
| "visit_entries va blk addr entry_offset (cur_entry # es) s = do {
     id \<leftarrow> lu_get (cur_entry - entry_offset) (vis_fs s);
     if va_flags va AND VIS_CHECK_ID = 0 \<or> id = va_obj_id va then
       (let s = s\<lparr>vis_loc := Some (blk, cur_entry)\<rparr> in
        case va_v va of
          None \<Rightarrow> Some (Return (SPIFFS_OK, s))
        | Some v \<Rightarrow> do {
            (res, u, fs) \<leftarrow> v (if va_flags va AND VIS_CHECK_PH \<noteq> 0 then va_obj_id va else id)
                             blk cur_entry (vis_u s) (vis_fs s);
            let s = s\<lparr>vis_u := u, vis_fs := fs\<rparr>;
            if res = SPIFFS_VIS_COUNTINUE then
              visit_entries va blk addr entry_offset es (s\<lparr>vis_count := vis_count s - 1\<rparr>)
            else if res = SPIFFS_VIS_COUNTINUE_RELOAD then do {
              (res, fs) \<leftarrow> lu_load addr fs;
              if res < 0 then Some (Return (res, s\<lparr>vis_fs := fs\<rparr>))
              else visit_entries va blk addr entry_offset es
                     (s\<lparr>vis_fs := fs, vis_count := vis_count s - 1\<rparr>)
            }
            else Some (Return (res, s))
          })
     else visit_entries va blk addr entry_offset es (s\<lparr>vis_count := vis_count s - 1\<rparr>)
   }"

primrec visit_pages :: "'u vis_arg \<Rightarrow> nat \<Rightarrow> nat \<Rightarrow> nat list \<Rightarrow> nat \<Rightarrow> 'u vis \<Rightarrow>
    (int \<times> 'u vis, int \<times> 'u vis) flow option" where
  "visit_pages va blk blk_addr [] cur_entry s = Some (Continue (SPIFFS_OK, s))"
| "visit_pages va blk blk_addr (p # ps) cur_entry s = do {
     let c = cfg (vis_fs s);
     let addr = add32 blk_addr (SPIFFS_PAGE_TO_PADDR c p);
     let entry_offset = p * entries_per_page c;
     let lim = min (entry_offset + entries_per_page c) (max_entries c);
     (res, fs) \<leftarrow> lu_load addr (vis_fs s);
     let s = s\<lparr>vis_fs := fs\<rparr>;
     if res \<noteq> SPIFFS_OK then Some (Continue (res, s))
     else do {
       r \<leftarrow> visit_entries va blk addr entry_offset [cur_entry..<lim] s;
       case r of
         Continue s \<Rightarrow> visit_pages va blk blk_addr ps (max cur_entry lim) s
       | Break s \<Rightarrow> visit_pages va blk blk_addr ps (max cur_entry lim) s
       | Return x \<Rightarrow> Some (Return x)
     }
   }"

fun visit_blocks :: "nat \<Rightarrow> 'u vis_arg \<Rightarrow> nat \<Rightarrow> nat \<Rightarrow> nat \<Rightarrow> 'u vis \<Rightarrow> (int \<times> 'u vis) option" where
  "visit_blocks 0 va blk blk_addr cur_entry s = None"
| "visit_blocks (Suc n) va blk blk_addr cur_entry s =
     (if vis_count s \<le> 0 then Some (SPIFFS_VIS_END, s)
      else do {
        let c = cfg (vis_fs s);
        r \<leftarrow> visit_pages va blk blk_addr [cur_entry div entries_per_page c..<SPIFFS_OBJ_LOOKUP_PAGES c]
              cur_entry s;
        case r of
          Return x \<Rightarrow> Some x
        | Break (res, s) \<Rightarrow> None
        | Continue (res, s) \<Rightarrow>
            (let wrapped = block_count (vis_fs s) \<le> u16_of (blk + 1);
                 blk' = (if wrapped then 0 else u16_of (blk + 1));
                 addr' = (if wrapped then 0 else add32 blk_addr (log_block_size c))
             in if wrapped \<and> va_flags va AND VIS_NO_WRAP \<noteq> 0 then Some (SPIFFS_VIS_END, s)
                else if res = SPIFFS_OK then visit_blocks n va blk' addr' 0 s
                else Some (if res < 0 then res else SPIFFS_VIS_END, s))
      })"

definition spiffs_obj_lu_find_entry_visitor ::
    "nat \<Rightarrow> nat \<Rightarrow> byte \<Rightarrow> u16 \<Rightarrow> 'u visitor option \<Rightarrow> 'u \<Rightarrow> spiffs \<Rightarrow>
     (int \<times> 'u \<times> (nat \<times> nat) option \<times> spiffs) option" where
  "spiffs_obj_lu_find_entry_visitor starting_block starting_lu_entry flags obj_id v u fs =
     (let c = cfg fs;
          entry_count = s32_of (u32_of (block_count fs * SPIFFS_OBJ_LOOKUP_MAX_ENTRIES c));
          va = \<lparr>va_flags = flags, va_obj_id = obj_id, va_v = v\<rparr>;
          s = \<lparr>vis_u = u, vis_loc = None, vis_count = entry_count, vis_fs = fs\<rparr>;
          next = int starting_lu_entry \<ge> s32_of (SPIFFS_OBJ_LOOKUP_MAX_ENTRIES c) - 1;
          cur_block = (if next then u16_of (starting_block + 1) else starting_block);
          cur_entry = (if next then 0 else starting_lu_entry);
          wrapped = (next \<and> block_count fs \<le> cur_block);
          blk = (if wrapped then 0 else cur_block)
      in if wrapped \<and> flags AND VIS_NO_WRAP \<noteq> 0 then Some (SPIFFS_VIS_END, u, None, fs)
         else do {
           (res, s) \<leftarrow> visit_blocks (nat entry_count + 2) va blk (u32_of (blk * log_block_size c)) cur_entry s;
           Some (res, vis_u s, vis_loc s, vis_fs s)
         })"

subsection \<open>Erasing a block\<close>

fun erase_loop :: "nat \<Rightarrow> nat \<Rightarrow> int \<Rightarrow> spiffs \<Rightarrow> spiffs option" where
  "erase_loop 0 addr sz fs = None"
| "erase_loop (Suc n) addr sz fs =
     (if sz \<le> 0 then Some fs
      else do {
        (_, m) \<leftarrow> hal_erase_f (cfg fs) addr (phys_erase_block (cfg fs)) (flash fs);
        erase_loop n (add32 addr (phys_erase_block (cfg fs)))
          (sz - int (phys_erase_block (cfg fs))) (fs\<lparr>flash := m\<rparr>)
      })"

definition spiffs_erase_block :: "nat \<Rightarrow> spiffs \<Rightarrow> (int \<times> spiffs) option" where
  "spiffs_erase_block bix fs = do {
     let c = cfg fs;
     fs \<leftarrow> erase_loop (log_block_size c div phys_erase_block c + 2) (SPIFFS_BLOCK_TO_PADDR c bix)
            (s32_of (log_block_size c)) fs;
     let fs = fs\<lparr>free_blocks := add32 (free_blocks fs) 1\<rparr>;
     (res, fs) \<leftarrow> spiffs_phys_wr (OP_C_WRTHRU OR OP_T_OBJ_LU2) (SPIFFS_ERASE_COUNT_PADDR c bix)
                   (le16 (max_erase_count fs)) fs;
     if res < 0 then Some (res, fs)
     else do {
       (res, fs) \<leftarrow> spiffs_phys_wr (OP_C_WRTHRU OR OP_T_OBJ_LU2) (SPIFFS_MAGIC_PADDR c bix)
                     (le16 (SPIFFS_MAGIC c)) fs;
       if res < 0 then Some (res, fs)
       else
         let n = max_erase_count fs + 1 in
         Some (res, fs\<lparr>max_erase_count := (if n = SPIFFS_OBJ_ID_IX_FLAG then 0 else n)\<rparr>)
     }
   }"

primrec drop_pages :: "nat list \<Rightarrow> spiffs \<Rightarrow> spiffs option" where
  "drop_pages [] fs = Some fs"
| "drop_pages (p # ps) fs = do { fs \<leftarrow> spiffs_cache_drop_page (u16_of p) fs; drop_pages ps fs }"

definition spiffs_gc_erase_block :: "nat \<Rightarrow> spiffs \<Rightarrow> (int \<times> spiffs) option" where
  "spiffs_gc_erase_block bix fs = do {
     (res, fs) \<leftarrow> spiffs_erase_block bix fs;
     if res < 0 then Some (res, fs)
     else do {
       fs \<leftarrow> drop_pages (map ((+) (SPIFFS_PAGE_FOR_BLOCK (cfg fs) bix)) [0..<SPIFFS_PAGES_PER_BLOCK (cfg fs)]) fs;
       Some (res, fs)
     }
   }"

subsection \<open>Scanning one block\<close>

text \<open>
  The page and entry loops that \<open>spiffs_gc_quick\<close>, \<open>spiffs_gc_erase_page_stats\<close> and
  \<open>spiffs_gc_find_candidate\<close> share: every lookup page of the block is read and its entries are
  folded over counters; a step can kill the scan (\<open>res = 1\<close> in the code), and an error of the
  read ends it.
\<close>

fun scan_ids :: "(u16 \<Rightarrow> 'a \<Rightarrow> 'a \<times> bool) \<Rightarrow> u16 list \<Rightarrow> 'a \<Rightarrow> 'a \<times> bool" where
  "scan_ids step [] a = (a, True)"
| "scan_ids step (i # ids) a =
     (case step i a of (a, go) \<Rightarrow> if go then scan_ids step ids a else (a, False))"

fun lu_ids :: "nat list \<Rightarrow> spiffs \<Rightarrow> u16 list option" where
  "lu_ids [] fs = Some []"
| "lu_ids (k # ks) fs = do { i \<leftarrow> lu_get k fs; ids \<leftarrow> lu_ids ks fs; Some (i # ids) }"

primrec scan_pages :: "(u16 \<Rightarrow> 'a \<Rightarrow> 'a \<times> bool) \<Rightarrow> nat \<Rightarrow> nat list \<Rightarrow> 'a \<Rightarrow> spiffs \<Rightarrow>
    (int \<times> 'a \<times> spiffs) option" where
  "scan_pages step blk_addr [] a fs = Some (SPIFFS_OK, a, fs)"
| "scan_pages step blk_addr (p # ps) a fs = do {
     let c = cfg fs;
     (res, fs) \<leftarrow> lu_load (add32 blk_addr (SPIFFS_PAGE_TO_PADDR c p)) fs;
     if res \<noteq> SPIFFS_OK then Some (res, a, fs)
     else do {
       ids \<leftarrow> lu_ids [0..<min (entries_per_page c) (max_entries c - p * entries_per_page c)] fs;
       case scan_ids step ids a of
         (a, go) \<Rightarrow> if go then scan_pages step blk_addr ps a fs else Some (1, a, fs)
     }
   }"

definition scan_block :: "(u16 \<Rightarrow> 'a \<Rightarrow> 'a \<times> bool) \<Rightarrow> nat \<Rightarrow> 'a \<Rightarrow> spiffs \<Rightarrow> (int \<times> 'a \<times> spiffs) option" where
  "scan_block step blk_addr a fs = scan_pages step blk_addr [0..<SPIFFS_OBJ_LOOKUP_PAGES (cfg fs)] a fs"

subsection \<open>Quick garbage collection\<close>

text \<open>Counters \<open>(deleted_pages_in_block, free_pages_in_block)\<close>.\<close>

definition gc_quick_step :: "nat \<Rightarrow> u16 \<Rightarrow> nat \<times> nat \<Rightarrow> (nat \<times> nat) \<times> bool" where
  "gc_quick_step max_free_pages obj_id a =
     (if obj_id = SPIFFS_OBJ_ID_DELETED then ((u16_of (fst a + 1), snd a), True)
      else if obj_id = SPIFFS_OBJ_ID_FREE then
        (let f = u16_of (snd a + 1) in ((fst a, f), f \<le> max_free_pages))
      else (a, False))"

primrec gc_quick_blocks :: "nat \<Rightarrow> nat \<Rightarrow> nat \<Rightarrow> nat \<Rightarrow> spiffs \<Rightarrow> (int \<times> spiffs) option" where
  "gc_quick_blocks 0 max_free_pages cur_block cur_block_addr fs = Some (SPIFFS_ERR_NO_DELETED_BLOCKS, fs)"
| "gc_quick_blocks (Suc blocks) max_free_pages cur_block cur_block_addr fs = do {
     (res, (deleted, free), fs) \<leftarrow> scan_block (gc_quick_step max_free_pages) cur_block_addr (0, 0) fs;
     let res = (if res = 1 then SPIFFS_OK else res);
     if res \<noteq> SPIFFS_OK then Some (res, fs)
     else if deleted + free = SPIFFS_OBJ_LOOKUP_MAX_ENTRIES (cfg fs) \<and> free \<le> max_free_pages then
       spiffs_gc_erase_block cur_block (fs\<lparr>stats_p_deleted := sub32 (stats_p_deleted fs) deleted\<rparr>)
     else gc_quick_blocks blocks max_free_pages (u16_of (cur_block + 1))
            (add32 cur_block_addr (log_block_size (cfg fs))) fs
   }"

definition spiffs_gc_quick :: "nat \<Rightarrow> spiffs \<Rightarrow> (int \<times> spiffs) option" where
  "spiffs_gc_quick max_free_pages fs = gc_quick_blocks (block_count fs) max_free_pages 0 0 fs"

subsection \<open>The mount-time scan\<close>

definition spiffs_obj_lu_scan_v :: "unit visitor" where
  "spiffs_obj_lu_scan_v obj_id bix ix_entry u fs =
     Some (SPIFFS_VIS_COUNTINUE, u,
       if obj_id = SPIFFS_OBJ_ID_FREE then
         if ix_entry = 0 then fs\<lparr>free_blocks := add32 (free_blocks fs) 1\<rparr> else fs
       else if obj_id = SPIFFS_OBJ_ID_DELETED then fs\<lparr>stats_p_deleted := add32 (stats_p_deleted fs) 1\<rparr>
       else fs\<lparr>stats_p_allocated := add32 (stats_p_allocated fs) 1\<rparr>)"

text \<open>The loop over the blocks: the one block without magic, if any, and the extremes of the
  erase counts.\<close>

primrec lu_scan_blocks :: "nat list \<Rightarrow> nat option \<Rightarrow> u16 \<Rightarrow> u16 \<Rightarrow> spiffs \<Rightarrow>
    (int \<times> nat option \<times> u16 \<times> u16 \<times> spiffs) option" where
  "lu_scan_blocks [] unerased_bix ec_min ec_max fs = Some (SPIFFS_OK, unerased_bix, ec_min, ec_max, fs)"
| "lu_scan_blocks (bix # bs) unerased_bix ec_min ec_max fs = do {
     (res, magic, fs) \<leftarrow> rd_id (OP_T_OBJ_LU2 OR OP_C_READ) (SPIFFS_MAGIC_PADDR (cfg fs) bix) fs;
     if res < 0 then Some (res, unerased_bix, ec_min, ec_max, fs)
     else if magic \<noteq> SPIFFS_MAGIC (cfg fs) \<and> unerased_bix \<noteq> None then
       Some (SPIFFS_ERR_NOT_A_FS, unerased_bix, ec_min, ec_max, fs)
     else do {
       let unerased_bix = (if magic \<noteq> SPIFFS_MAGIC (cfg fs) then Some bix else unerased_bix);
       (res, erase_count, fs) \<leftarrow> rd_id (OP_T_OBJ_LU2 OR OP_C_READ) (SPIFFS_ERASE_COUNT_PADDR (cfg fs) bix) fs;
       if res < 0 then Some (res, unerased_bix, ec_min, ec_max, fs)
       else if erase_count \<noteq> SPIFFS_OBJ_ID_FREE then
         lu_scan_blocks bs unerased_bix (min ec_min erase_count) (max ec_max erase_count) fs
       else lu_scan_blocks bs unerased_bix ec_min ec_max fs
     }
   }"

definition erase_count_final :: "u16 \<Rightarrow> u16 \<Rightarrow> u16" where
  "erase_count_final ec_min ec_max =
     (if ec_min = 0 \<and> ec_max = SPIFFS_OBJ_ID_FREE then 0
      else if int (unat ec_max) - int (unat ec_min) > int (unat SPIFFS_OBJ_ID_FREE) div 2 then ec_min + 1
      else ec_max + 1)"

text \<open>The block index of the loop is 16 bits wide: with more than 65535 blocks it never ends.\<close>

definition spiffs_obj_lu_scan :: "spiffs \<Rightarrow> (int \<times> spiffs) option" where
  "spiffs_obj_lu_scan fs = do {
     (res, unerased_bix, ec_min, ec_max, fs) \<leftarrow>
        (if block_count fs > 65535 then None
         else lu_scan_blocks [0..<block_count fs] None SPIFFS_OBJ_ID_FREE 0 fs);
     if res < 0 then Some (res, fs)
     else do {
       let fs = fs\<lparr>max_erase_count := erase_count_final ec_min ec_max\<rparr>;
       (res, fs) \<leftarrow> (case unerased_bix of
                       None \<Rightarrow> Some (SPIFFS_OK, fs)
                     | Some bix \<Rightarrow> spiffs_erase_block bix fs);
       if res < 0 then Some (res, fs)
       else do {
         let fs = fs\<lparr>free_blocks := 0, stats_p_allocated := 0, stats_p_deleted := 0\<rparr>;
         (res, _, _, fs) \<leftarrow> spiffs_obj_lu_find_entry_visitor 0 0 0 0 (Some spiffs_obj_lu_scan_v) () fs;
         Some (if res = SPIFFS_VIS_END then SPIFFS_OK else res, fs)
       }
     }
   }"

subsection \<open>Searches\<close>

definition spiffs_obj_lu_find_id ::
    "nat \<Rightarrow> nat \<Rightarrow> u16 \<Rightarrow> spiffs \<Rightarrow> (int \<times> (nat \<times> nat) option \<times> spiffs) option" where
  "spiffs_obj_lu_find_id starting_block starting_lu_entry obj_id fs = do {
     (res, _, loc, fs) \<leftarrow> spiffs_obj_lu_find_entry_visitor starting_block starting_lu_entry VIS_CHECK_ID
                           obj_id (None :: unit visitor option) () fs;
     Some (if res = SPIFFS_VIS_END then SPIFFS_ERR_NOT_FOUND else res, loc, fs)
   }"

definition spiffs_obj_lu_find_free ::
    "nat \<Rightarrow> nat \<Rightarrow> spiffs \<Rightarrow> (int \<times> (nat \<times> nat) option \<times> spiffs) option" where
  "spiffs_obj_lu_find_free starting_block starting_lu_entry fs = do {
     (res, fs) \<leftarrow>
       (if \<not> cleaning fs \<and> free_blocks fs < 2 then do {
          (res, fs) \<leftarrow> spiffs_gc_quick 0 fs;
          let res = (if res = SPIFFS_ERR_NO_DELETED_BLOCKS then SPIFFS_OK else res);
          Some (if res < 0 then res else if free_blocks fs < 2 then SPIFFS_ERR_FULL else SPIFFS_OK, fs)
        }
        else Some (SPIFFS_OK, fs));
     if res < 0 then Some (res, None, fs)
     else do {
       (res, loc, fs) \<leftarrow> spiffs_obj_lu_find_id starting_block starting_lu_entry SPIFFS_OBJ_ID_FREE fs;
       if res = SPIFFS_OK then do {
         (bix, entry) \<leftarrow> loc;
         let fs = fs\<lparr>free_cursor_block_ix := bix, free_cursor_obj_lu_entry := entry\<rparr>;
         Some (res, loc,
               if entry = 0 then fs\<lparr>free_blocks := sub32 (free_blocks fs) 1\<rparr> else fs)
       }
       else Some (res, loc, fs)
     }
   }"

text \<open>
  The user constant is the excluded page (\<open>None\<close> for a null pointer), the user variable the span
  index. The call of \<open>_spiffs_rd\<close> passes 0 as the operation and the operation as file handle:
  the read goes through the cache.
\<close>

definition spiffs_obj_lu_find_id_and_span_v :: "nat option \<Rightarrow> nat visitor" where
  "spiffs_obj_lu_find_id_and_span_v exclusion obj_id bix ix_entry spix fs = do {
     let pix = SPIFFS_OBJ_LOOKUP_ENTRY_TO_PIX (cfg fs) bix ix_entry;
     (res, ph, fs) \<leftarrow> rd_header 0 (SPIFFS_PAGE_TO_PADDR (cfg fs) pix) fs;
     if res < 0 then Some (res, spix, fs)
     else if ph_obj_id ph = obj_id \<and> ph_span_ix ph = spix \<and>
        ph_flags ph AND (PH_FLAG_FINAL OR PH_FLAG_DELET OR PH_FLAG_USED) = PH_FLAG_DELET \<and>
        \<not> (obj_id AND SPIFFS_OBJ_ID_IX_FLAG \<noteq> 0 \<and> ph_flags ph AND PH_FLAG_IXDELE = 0 \<and> ph_span_ix ph = 0) \<and>
        (exclusion = None \<or> exclusion \<noteq> Some pix)
     then Some (SPIFFS_OK, spix, fs)
     else Some (SPIFFS_VIS_COUNTINUE, spix, fs)
   }"

definition find_span_with :: "byte \<Rightarrow> u16 \<Rightarrow> nat \<Rightarrow> nat \<Rightarrow> spiffs \<Rightarrow> (int \<times> nat \<times> spiffs) option" where
  "find_span_with flags obj_id spix exclusion_pix fs = do {
     (res, _, loc, fs) \<leftarrow> spiffs_obj_lu_find_entry_visitor (cursor_block_ix fs) (cursor_obj_lu_entry fs)
        flags obj_id
        (Some (spiffs_obj_lu_find_id_and_span_v (if exclusion_pix \<noteq> 0 then Some exclusion_pix else None)))
        spix fs;
     let res = (if res = SPIFFS_VIS_END then SPIFFS_ERR_NOT_FOUND else res);
     if res < 0 then Some (res, 0, fs)
     else do {
       (bix, entry) \<leftarrow> loc;
       Some (res, SPIFFS_OBJ_LOOKUP_ENTRY_TO_PIX (cfg fs) bix entry,
             fs\<lparr>cursor_block_ix := bix, cursor_obj_lu_entry := entry\<rparr>)
     }
   }"

definition spiffs_obj_lu_find_id_and_span :: "u16 \<Rightarrow> nat \<Rightarrow> nat \<Rightarrow> spiffs \<Rightarrow> (int \<times> nat \<times> spiffs) option" where
  "spiffs_obj_lu_find_id_and_span obj_id spix exclusion_pix fs =
     find_span_with VIS_CHECK_ID obj_id spix exclusion_pix fs"

definition spiffs_obj_lu_find_id_and_span_by_phdr ::
    "u16 \<Rightarrow> nat \<Rightarrow> nat \<Rightarrow> spiffs \<Rightarrow> (int \<times> nat \<times> spiffs) option" where
  "spiffs_obj_lu_find_id_and_span_by_phdr obj_id spix exclusion_pix fs =
     find_span_with VIS_CHECK_PH obj_id spix exclusion_pix fs"

end
