(* ===== verification/Spiffs_Page.thy ===== *)
theory Spiffs_Page
  imports Spiffs_Lookup
begin

section \<open>SPIFFS: pages and object index headers\<close>

text \<open>
  The page operations of \<open>spiffs_nucleus.c\<close>: allocating, moving and deleting a page, the event
  that keeps the file descriptors up to date, the update of an object index header, and the
  file descriptor table. A page header passed by pointer is returned updated. The page buffer
  passed as \<open>page_data\<close> or \<open>new_objix_hdr_data\<close> is \<open>fs->work\<close> in every call or null, which a
  flag tells apart. An output pointer the code has not written yet is \<open>None\<close>.
\<close>

subsection \<open>The page header in the work buffer\<close>

definition work_header :: "spiffs \<Rightarrow> spiffs_page_header option" where
  "work_header fs = map_option page_header_of (buf_slice 0 SIZEOF_PAGE_HEADER (work fs))"

definition set_work_flags :: "byte \<Rightarrow> spiffs \<Rightarrow> spiffs" where
  "set_work_flags b fs = fs\<lparr>work := (work fs)[OFFSETOF_FLAGS := b]\<rparr>"

definition work_put :: "nat \<Rightarrow> byte list \<Rightarrow> spiffs \<Rightarrow> spiffs option" where
  "work_put off bs fs = do { w \<leftarrow> buf_write off bs (work fs); Some (fs\<lparr>work := w\<rparr>) }"

definition work_objix_size :: "spiffs \<Rightarrow> nat" where
  "work_objix_size fs = unat (of_le32 (drop 8 (work fs)))"

text \<open>Writing the whole work buffer to a page.\<close>

definition wr_work :: "byte \<Rightarrow> nat \<Rightarrow> spiffs \<Rightarrow> (int \<times> spiffs) option" where
  "wr_work op pix fs = do {
     page \<leftarrow> buf_slice 0 (log_page_size (cfg fs)) (work fs);
     spiffs_phys_wr op (SPIFFS_PAGE_TO_PADDR (cfg fs) pix) page fs
   }"

text \<open>The address of the lookup entry of a page.\<close>

definition lu_entry_paddr :: "spiffs_config \<Rightarrow> nat \<Rightarrow> nat \<Rightarrow> nat" where
  "lu_entry_paddr c bix entry = add32 (SPIFFS_BLOCK_TO_PADDR c bix) (entry * 2)"

definition lu_page_paddr :: "spiffs_config \<Rightarrow> nat \<Rightarrow> nat" where
  "lu_page_paddr c pix = lu_entry_paddr c (SPIFFS_BLOCK_FOR_PAGE c pix) (SPIFFS_OBJ_LOOKUP_ENTRY_FOR_PAGE c pix)"

subsection \<open>Allocating, deleting and moving pages\<close>

definition spiffs_page_allocate_data ::
    "u16 \<Rightarrow> spiffs_page_header \<Rightarrow> byte list option \<Rightarrow> nat \<Rightarrow> bool \<Rightarrow> spiffs \<Rightarrow>
     (int \<times> spiffs_page_header \<times> nat option \<times> spiffs) option" where
  "spiffs_page_allocate_data obj_id ph data page_offs finalize fs = do {
     (res, loc, fs) \<leftarrow> spiffs_obj_lu_find_free (free_cursor_block_ix fs) (free_cursor_obj_lu_entry fs) fs;
     if res < 0 then Some (res, ph, None, fs)
     else do {
       (bix, entry) \<leftarrow> loc;
       (res, fs) \<leftarrow> spiffs_phys_wr (OP_T_OBJ_LU OR OP_C_UPDT) (lu_entry_paddr (cfg fs) bix entry) (le16 obj_id) fs;
       if res < 0 then Some (res, ph, None, fs)
       else do {
         let fs = fs\<lparr>stats_p_allocated := add32 (stats_p_allocated fs) 1\<rparr>;
         let ph = ph\<lparr>ph_flags := ph_flags ph AND NOT PH_FLAG_USED\<rparr>;
         let paddr = SPIFFS_OBJ_LOOKUP_ENTRY_TO_PADDR (cfg fs) bix entry;
         (res, fs) \<leftarrow> spiffs_phys_wr (OP_T_OBJ_DA OR OP_C_UPDT) paddr (page_header_bytes ph) fs;
         if res < 0 then Some (res, ph, None, fs)
         else do {
           (res, fs) \<leftarrow> (case data of
              None \<Rightarrow> Some (res, fs)
            | Some d \<Rightarrow> spiffs_phys_wr (OP_T_OBJ_DA OR OP_C_UPDT)
                          (add32 paddr (SIZEOF_PAGE_HEADER + page_offs)) d fs);
           if res < 0 then Some (res, ph, None, fs)
           else do {
             let final = (finalize \<and> ph_flags ph AND PH_FLAG_FINAL \<noteq> 0);
             let ph = (if final then ph\<lparr>ph_flags := ph_flags ph AND NOT PH_FLAG_FINAL\<rparr> else ph);
             (res, fs) \<leftarrow> (if final
               then spiffs_phys_wr (OP_T_OBJ_DA OR OP_C_UPDT) (add32 paddr OFFSETOF_FLAGS) [ph_flags ph] fs
               else Some (res, fs));
             if res < 0 then Some (res, ph, None, fs)
             else Some (res, ph, Some (SPIFFS_OBJ_LOOKUP_ENTRY_TO_PIX (cfg fs) bix entry), fs)
           }
         }
       }
     }
   }"

definition spiffs_page_delete :: "nat \<Rightarrow> spiffs \<Rightarrow> (int \<times> spiffs) option" where
  "spiffs_page_delete pix fs = do {
     let flags = 0xff AND NOT (PH_FLAG_DELET OR PH_FLAG_USED);
     (res, fs) \<leftarrow> spiffs_phys_wr (OP_T_OBJ_LU OR OP_C_DELE) (lu_page_paddr (cfg fs) pix)
                   (le16 SPIFFS_OBJ_ID_DELETED) fs;
     if res < 0 then Some (res, fs)
     else do {
       let fs = fs\<lparr>stats_p_deleted := add32 (stats_p_deleted fs) 1,
                   stats_p_allocated := sub32 (stats_p_allocated fs) 1\<rparr>;
       spiffs_phys_wr (OP_T_OBJ_DA OR OP_C_DELE)
         (add32 (SPIFFS_PAGE_TO_PADDR (cfg fs) pix) OFFSETOF_FLAGS) [flags] fs
     }
   }"

definition spiffs_page_move ::
    "bool \<Rightarrow> u16 \<Rightarrow> nat \<Rightarrow> spiffs \<Rightarrow> (int \<times> nat option \<times> spiffs) option" where
  "spiffs_page_move page_data obj_id src_pix fs = do {
     (res, loc, fs) \<leftarrow> spiffs_obj_lu_find_free (free_cursor_block_ix fs) (free_cursor_obj_lu_entry fs) fs;
     if res < 0 then Some (res, None, fs)
     else do {
       (bix, entry) \<leftarrow> loc;
       let free_pix = SPIFFS_OBJ_LOOKUP_ENTRY_TO_PIX (cfg fs) bix entry;
       (res, was_final, fs) \<leftarrow>
         (if page_data then do {
            h \<leftarrow> work_header fs;
            let fs = set_work_flags ((ph_flags h OR PH_FLAG_FINAL) AND NOT PH_FLAG_USED) fs;
            (res, fs) \<leftarrow> wr_work (OP_T_OBJ_DA OR OP_C_UPDT) free_pix fs;
            Some (res, ph_flags h AND PH_FLAG_FINAL = 0, fs)
          }
          else do {
            (res, fs) \<leftarrow> spiffs_phys_cpy (SPIFFS_PAGE_TO_PADDR (cfg fs) free_pix)
                          (SPIFFS_PAGE_TO_PADDR (cfg fs) src_pix) (log_page_size (cfg fs)) fs;
            Some (res, False, fs)
          });
       if res < 0 then Some (res, Some free_pix, fs)
       else do {
         (res, fs) \<leftarrow> spiffs_phys_wr (OP_T_OBJ_LU OR OP_C_UPDT) (lu_page_paddr (cfg fs) free_pix) (le16 obj_id) fs;
         if res < 0 then Some (res, Some free_pix, fs)
         else do {
           let fs = fs\<lparr>stats_p_allocated := add32 (stats_p_allocated fs) 1\<rparr>;
           (res, fs) \<leftarrow>
             (if was_final then do {
                h \<leftarrow> work_header fs;
                let flags = ph_flags h AND NOT (PH_FLAG_FINAL OR PH_FLAG_USED);
                let fs = set_work_flags flags fs;
                spiffs_phys_wr (OP_T_OBJ_DA OR OP_C_UPDT)
                  (add32 (SPIFFS_PAGE_TO_PADDR (cfg fs) free_pix) OFFSETOF_FLAGS) [flags] fs
              }
              else Some (res, fs));
           if res < 0 then Some (res, Some free_pix, fs)
           else do {
             (res, fs) \<leftarrow> spiffs_page_delete src_pix fs;
             Some (res, Some free_pix, fs)
           }
         }
       }
     }
   }"

subsection \<open>Object events\<close>

text \<open>The body of the loop over the file descriptors.\<close>

definition fd_event :: "spiffs_ev \<Rightarrow> u16 \<Rightarrow> nat \<Rightarrow> nat \<Rightarrow> nat \<Rightarrow> spiffs_fd \<Rightarrow> spiffs_fd" where
  "fd_event ev obj_id spix new_pix new_size f =
     (if file_nbr f = 0 \<or> fd_obj_id f AND NOT SPIFFS_OBJ_ID_IX_FLAG \<noteq> obj_id then f
      else
        let upd = (ev = EV_IX_NEW \<or> ev = EV_IX_UPD);
            f = (if spix = 0 then
                   if upd then f\<lparr>objix_hdr_pix := new_pix, fd_size := (if new_size \<noteq> 0 then new_size else fd_size f)\<rparr>
                   else f\<lparr>file_nbr := 0, fd_obj_id := SPIFFS_OBJ_ID_DELETED\<rparr>
                 else f)
        in if cursor_objix_spix f = spix
           then f\<lparr>cursor_objix_pix := (if upd then new_pix else 0)\<rparr> else f)"

definition spiffs_cb_object_event :: "spiffs_ev \<Rightarrow> u16 \<Rightarrow> nat \<Rightarrow> nat \<Rightarrow> nat \<Rightarrow> spiffs \<Rightarrow> spiffs" where
  "spiffs_cb_object_event ev obj_id spix new_pix new_size fs =
     fs\<lparr>fd_space := map (fd_event ev (obj_id AND NOT SPIFFS_OBJ_ID_IX_FLAG) spix new_pix new_size) (fd_space fs)\<rparr>"

subsection \<open>Updating an object index header\<close>

definition spiffs_object_update_index_hdr ::
    "nat option \<Rightarrow> u16 \<Rightarrow> nat \<Rightarrow> bool \<Rightarrow> byte list option \<Rightarrow> nat \<Rightarrow> spiffs \<Rightarrow>
     (int \<times> nat option \<times> spiffs) option" where
  "spiffs_object_update_index_hdr fd obj_id hdr_pix new_objix_hdr_data name new_size fs = do {
     let obj_id = obj_id OR SPIFFS_OBJ_ID_IX_FLAG;
     (res, fs) \<leftarrow>
       (if new_objix_hdr_data then Some (SPIFFS_OK, fs)
        else do {
          _ \<leftarrow> fd;
          work_load (OP_T_OBJ_IX OR OP_C_READ) (SPIFFS_PAGE_TO_PADDR (cfg fs) hdr_pix) fs
        });
     if res < 0 then Some (res, None, fs)
     else do {
       h \<leftarrow> work_header fs;
       let v = SPIFFS_VALIDATE_OBJIX h obj_id 0;
       if v \<noteq> SPIFFS_OK then Some (v, None, fs)
       else do {
         fs \<leftarrow> (case name of None \<Rightarrow> Some fs | Some nm \<Rightarrow> work_put 13 (strncpy_name nm) fs);
         fs \<leftarrow> (if new_size \<noteq> 0 then work_put 8 (le32 (of_nat new_size)) fs else Some fs);
         (res, new_pix, fs) \<leftarrow> spiffs_page_move True obj_id hdr_pix fs;
         if res = SPIFFS_OK then do {
           pix \<leftarrow> new_pix;
           h \<leftarrow> work_header fs;
           let fs = spiffs_cb_object_event EV_IX_UPD obj_id (ph_span_ix h) pix (work_objix_size fs) fs;
           let fs = (case fd of None \<Rightarrow> fs | Some f \<Rightarrow> upd_fd f (objix_hdr_pix_update (\<lambda>_. pix)) fs);
           Some (res, Some pix, fs)
         }
         else Some (res, None, fs)
       }
     }
   }"

subsection \<open>The file descriptor table\<close>

primrec fd_find_free :: "nat list \<Rightarrow> spiffs \<Rightarrow> nat option" where
  "fd_find_free [] fs = None"
| "fd_find_free (i # is) fs = (if file_nbr (fd_at i fs) = 0 then Some i else fd_find_free is fs)"

text \<open>A value stored in or cast to the 16-bit signed \<open>spiffs_file\<close>; \<open>(s16_t)fs->fd_count\<close>.\<close>

definition s16_of :: "nat \<Rightarrow> int" where
  "s16_of n = (if n mod 65536 < 32768 then int (n mod 65536) else int (n mod 65536) - 65536)"

definition fd_count_s16 :: "spiffs \<Rightarrow> int" where
  "fd_count_s16 fs = s16_of (length (fd_space fs))"

definition spiffs_fd_find_new :: "spiffs \<Rightarrow> int \<times> nat option \<times> spiffs" where
  "spiffs_fd_find_new fs =
     (case fd_find_free [0..<length (fd_space fs)] fs of
        None \<Rightarrow> (SPIFFS_ERR_OUT_OF_FILE_DESCS, None, fs)
      | Some i \<Rightarrow> (SPIFFS_OK, Some i, upd_fd i (file_nbr_update (\<lambda>_. s16_of (i + 1))) fs))"

definition spiffs_fd_return :: "int \<Rightarrow> spiffs \<Rightarrow> int \<times> spiffs" where
  "spiffs_fd_return f fs =
     (if f \<le> 0 \<or> f > fd_count_s16 fs then (SPIFFS_ERR_BAD_DESCRIPTOR, fs)
      else if file_nbr (fd_at (nat (f - 1)) fs) = 0 then (SPIFFS_ERR_FILE_CLOSED, fs)
      else (SPIFFS_OK, upd_fd (nat (f - 1)) (file_nbr_update (\<lambda>_. 0)) fs))"

text \<open>The descriptor is only used after \<open>SPIFFS_OK\<close>.\<close>

definition spiffs_fd_get :: "int \<Rightarrow> spiffs \<Rightarrow> int \<times> nat" where
  "spiffs_fd_get f fs =
     (if f \<le> 0 \<or> f > fd_count_s16 fs then (SPIFFS_ERR_BAD_DESCRIPTOR, 0)
      else if file_nbr (fd_at (nat (f - 1)) fs) = 0 then (SPIFFS_ERR_FILE_CLOSED, nat (f - 1))
      else (SPIFFS_OK, nat (f - 1)))"

end
