(* ===== verification/Spiffs_Gc.thy ===== *)
theory Spiffs_Gc
  imports Spiffs_Page
begin

section \<open>SPIFFS: garbage collection\<close>

text \<open>
  \<open>spiffs_gc.c\<close> beyond the quick collector: the statistics of a block about to be erased, the
  choice of the block to clean, the cleaner, a state machine that moves every live page of a
  block elsewhere, and \<open>spiffs_gc_check\<close>, which runs them until there is room.

  The cleaner's outer loop takes fuel: between two passes in state \<open>FIND_OBJ_DATA\<close> the scan
  index grows, so \<open>2 * max_entries + 4\<close> passes are enough.
\<close>

subsection \<open>Statistics of a block\<close>

text \<open>Counters \<open>(allo, dele)\<close>.\<close>

definition erase_stats_step :: "u16 \<Rightarrow> nat \<times> nat \<Rightarrow> (nat \<times> nat) \<times> bool" where
  "erase_stats_step obj_id a =
     (if obj_id = SPIFFS_OBJ_ID_FREE then (a, True)
      else if obj_id = SPIFFS_OBJ_ID_DELETED then ((fst a, add32 (snd a) 1), True)
      else ((add32 (fst a) 1, snd a), True))"

definition spiffs_gc_erase_page_stats :: "nat \<Rightarrow> spiffs \<Rightarrow> (int \<times> spiffs) option" where
  "spiffs_gc_erase_page_stats bix fs = do {
     (res, (allo, dele), fs) \<leftarrow> scan_block erase_stats_step (u32_of (bix * log_block_size (cfg fs))) (0, 0) fs;
     Some (res, fs\<lparr>stats_p_allocated := sub32 (stats_p_allocated fs) allo,
                   stats_p_deleted := sub32 (stats_p_deleted fs) dele\<rparr>)
   }"

subsection \<open>Choosing a block\<close>

definition SPIFFS_GC_HEUR_W_DELET :: int where [c_defs]: "SPIFFS_GC_HEUR_W_DELET = 5"
definition SPIFFS_GC_HEUR_W_USED :: int where [c_defs]: "SPIFFS_GC_HEUR_W_USED = - 1"
definition SPIFFS_GC_HEUR_W_ERASE_AGE :: int where [c_defs]: "SPIFFS_GC_HEUR_W_ERASE_AGE = 50"

text \<open>Counters \<open>(deleted_pages_in_block, used_pages_in_block)\<close>.\<close>

definition find_candidate_step :: "u16 \<Rightarrow> nat \<times> nat \<Rightarrow> (nat \<times> nat) \<times> bool" where
  "find_candidate_step obj_id a =
     (if obj_id = SPIFFS_OBJ_ID_FREE then (a, False)
      else if obj_id = SPIFFS_OBJ_ID_DELETED then ((u16_of (fst a + 1), snd a), True)
      else ((fst a, u16_of (snd a + 1)), True))"

definition gc_erase_age :: "u16 \<Rightarrow> u16 \<Rightarrow> u16" where
  "gc_erase_age max_ec erase_count =
     (if max_ec > erase_count then max_ec - erase_count
      else SPIFFS_OBJ_ID_FREE - (erase_count - max_ec))"

definition gc_score :: "nat \<Rightarrow> nat \<Rightarrow> u16 \<Rightarrow> bool \<Rightarrow> int" where
  "gc_score deleted used erase_age fs_crammed =
     int deleted * SPIFFS_GC_HEUR_W_DELET + int used * SPIFFS_GC_HEUR_W_USED +
     int (unat erase_age) * (if fs_crammed then 0 else SPIFFS_GC_HEUR_W_ERASE_AGE)"

text \<open>
  The candidate tables \<open>cand_blocks\<close> and \<open>cand_scores\<close> as one list of pairs of length
  \<open>max_candidates\<close>; \<open>(0xffff, -1)\<close> is a free slot. Inserting before a worse candidate shifts the
  rest and drops the last slot. After the scan the list is the content of \<open>fs->work\<close>.
\<close>

fun cand_insert :: "nat \<Rightarrow> int \<Rightarrow> (nat \<times> int) list \<Rightarrow> (nat \<times> int) list" where
  "cand_insert cur_block score [] = []"
| "cand_insert cur_block score ((b, s) # xs) =
     (if b = NO_IX then (cur_block, score) # xs
      else if s < score then (cur_block, score) # butlast ((b, s) # xs)
      else (b, s) # cand_insert cur_block score xs)"

definition max_candidates :: "spiffs \<Rightarrow> nat" where
  "max_candidates fs = min (block_count fs) (sub32 (log_page_size (cfg fs)) 8 div 6)"

definition cand_image :: "nat \<Rightarrow> (nat \<times> int) list \<Rightarrow> byte list" where
  "cand_image page_size cands =
     (let blocks = concat (map (\<lambda>(b, s). le16 (of_nat b)) cands);
          pad = replicate ((4 - length blocks mod 4) mod 4) 0xff;
          scores = concat (map (\<lambda>(b, s). le32 (of_int s)) cands);
          img = blocks @ pad @ scores
      in img @ replicate (page_size - length img) 0xff)"

primrec find_candidate_blocks :: "nat \<Rightarrow> bool \<Rightarrow> nat \<Rightarrow> nat \<Rightarrow> (nat \<times> int) list \<Rightarrow> nat \<Rightarrow> spiffs \<Rightarrow>
    (int \<times> (nat \<times> int) list \<times> nat \<times> spiffs) option" where
  "find_candidate_blocks 0 fs_crammed cur_block addr cands n fs = Some (SPIFFS_OK, cands, n, fs)"
| "find_candidate_blocks (Suc blocks) fs_crammed cur_block addr cands n fs = do {
     (res, (deleted, used), fs) \<leftarrow> scan_block find_candidate_step addr (0, 0) fs;
     let res = (if res = 1 then SPIFFS_OK else res);
     let next_block = u16_of (cur_block + 1);
     let next_addr = add32 addr (log_block_size (cfg fs));
     if res \<noteq> SPIFFS_OK then Some (res, cands, n, fs)
     else if deleted = 0 then find_candidate_blocks blocks fs_crammed next_block next_addr cands n fs
     else do {
       (res, erase_count, fs) \<leftarrow> rd_id (OP_C_READ OR OP_T_OBJ_LU2) (SPIFFS_ERASE_COUNT_PADDR (cfg fs) cur_block) fs;
       if res < 0 then Some (res, cands, n, fs)
       else
         let score = gc_score deleted used (gc_erase_age (max_erase_count fs) erase_count) fs_crammed;
             cands = cand_insert cur_block score cands
         in if res = SPIFFS_OK
            then find_candidate_blocks blocks fs_crammed next_block next_addr cands (n + 1) fs
            else Some (res, cands, n + 1, fs)
     }
   }"

definition spiffs_gc_find_candidate :: "bool \<Rightarrow> spiffs \<Rightarrow> (int \<times> (nat \<times> int) list \<times> nat \<times> spiffs) option" where
  "spiffs_gc_find_candidate fs_crammed fs = do {
     (res, cands, n, fs) \<leftarrow> find_candidate_blocks (block_count fs) fs_crammed 0 0
        (replicate (max_candidates fs) (NO_IX, - 1)) 0 fs;
     Some (res, cands, n, fs\<lparr>work := cand_image (log_page_size (cfg fs)) cands\<rparr>)
   }"

subsection \<open>Cleaning a block\<close>

datatype spiffs_gc_clean_state = FIND_OBJ_DATA | MOVE_OBJ_DATA | MOVE_OBJ_IX | FINISHED

record spiffs_gc =
  gc_state :: spiffs_gc_clean_state
  cur_obj_id :: u16
  cur_objix_spix :: nat
  cur_objix_pix :: nat
  stored_scan_entry_index :: nat
  obj_id_found :: bool

text \<open>The locals of \<open>spiffs_gc_clean\<close>: \<open>gc\<close>, \<open>cur_entry\<close>, \<open>cur_pix\<close>, \<open>scan\<close>, \<open>res\<close>, with the file
  system.\<close>

record gc_loop =
  gl_gc :: spiffs_gc
  gl_entry :: nat
  gl_pix :: nat
  gl_scan :: bool
  gl_res :: int
  gl_fs :: spiffs

text \<open>Case \<open>MOVE_OBJ_DATA\<close> of the scan: \<open>page_addr\<close> is the lookup page being scanned.\<close>

definition gc_move_data :: "nat \<Rightarrow> u16 \<Rightarrow> gc_loop \<Rightarrow> (int \<times> spiffs, gc_loop) flow option" where
  "gc_move_data page_addr obj_id s =
     (if obj_id \<noteq> cur_obj_id (gl_gc s) then Some (Continue s)
      else do {
        (res, p_hdr, fs) \<leftarrow> rd_header (OP_T_OBJ_LU2 OR OP_C_READ)
           (SPIFFS_PAGE_TO_PADDR (cfg (gl_fs s)) (gl_pix s)) (gl_fs s);
        if res < 0 then Some (Return (res, fs))
        else if SPIFFS_OBJ_IX_ENTRY_SPAN_IX (cfg fs) (ph_span_ix p_hdr) \<noteq> cur_objix_spix (gl_gc s)
        then Some (Continue (s\<lparr>gl_res := res, gl_fs := fs\<rparr>))
        else do {
          (res, new_data_pix, fs) \<leftarrow>
            (if ph_flags p_hdr AND PH_FLAG_DELET \<noteq> 0 then do {
               (res, dst, fs) \<leftarrow> spiffs_page_move False obj_id (gl_pix s) fs;
               if res < 0 then Some (res, 0, fs)
               else do {
                 new_pix \<leftarrow> dst;
                 (res, fs) \<leftarrow> lu_load page_addr fs;
                 Some (res, new_pix, fs)
               }
             }
             else do {
               (res, fs) \<leftarrow> spiffs_page_delete (gl_pix s) fs;
               Some (res, NO_IX, fs)
             });
          if res < 0 then Some (Return (res, fs))
          else do {
            fs \<leftarrow> objix_put (cur_objix_spix (gl_gc s)) (ph_span_ix p_hdr) new_data_pix fs;
            Some (Continue (s\<lparr>gl_res := res, gl_fs := fs\<rparr>))
          }
        }
      })"

definition gc_move_ix :: "nat \<Rightarrow> u16 \<Rightarrow> gc_loop \<Rightarrow> (int \<times> spiffs, gc_loop) flow option" where
  "gc_move_ix page_addr obj_id s =
     (if obj_id = SPIFFS_OBJ_ID_DELETED \<or> obj_id = SPIFFS_OBJ_ID_FREE \<or> obj_id AND SPIFFS_OBJ_ID_IX_FLAG = 0
      then Some (Continue s)
      else do {
        (res, p_hdr, fs) \<leftarrow> rd_header (OP_T_OBJ_LU2 OR OP_C_READ)
           (SPIFFS_PAGE_TO_PADDR (cfg (gl_fs s)) (gl_pix s)) (gl_fs s);
        if res < 0 then Some (Return (res, fs))
        else if ph_flags p_hdr AND PH_FLAG_DELET \<noteq> 0 then do {
          (res, dst, fs) \<leftarrow> spiffs_page_move False obj_id (gl_pix s) fs;
          if res < 0 then Some (Return (res, fs))
          else do {
            new_pix \<leftarrow> dst;
            let fs = spiffs_cb_object_event EV_IX_UPD obj_id (ph_span_ix p_hdr) new_pix 0 fs;
            (res, fs) \<leftarrow> lu_load page_addr fs;
            if res < 0 then Some (Return (res, fs))
            else Some (Continue (s\<lparr>gl_res := res, gl_fs := fs\<rparr>))
          }
        }
        else do {
          (res, fs) \<leftarrow> spiffs_page_delete (gl_pix s) fs;
          let fs = (if res = SPIFFS_OK
                    then spiffs_cb_object_event EV_IX_DEL obj_id (ph_span_ix p_hdr) (gl_pix s) 0 fs else fs);
          if res < 0 then Some (Return (res, fs))
          else Some (Continue (s\<lparr>gl_res := res, gl_fs := fs\<rparr>))
        }
      })"

definition gc_find_data :: "u16 \<Rightarrow> gc_loop \<Rightarrow> gc_loop" where
  "gc_find_data obj_id s =
     (if obj_id \<noteq> SPIFFS_OBJ_ID_DELETED \<and> obj_id \<noteq> SPIFFS_OBJ_ID_FREE \<and> obj_id AND SPIFFS_OBJ_ID_IX_FLAG = 0
      then s\<lparr>gl_gc := (gl_gc s)\<lparr>obj_id_found := True, cur_obj_id := obj_id\<rparr>, gl_scan := False\<rparr>
      else s)"

text \<open>The body of the entry loop: the switch on the state.\<close>

definition gc_entry :: "nat \<Rightarrow> nat \<Rightarrow> nat \<Rightarrow> nat \<Rightarrow> gc_loop \<Rightarrow> (int \<times> spiffs, gc_loop) flow option" where
  "gc_entry bix page_addr entry_offset cur_entry s = do {
     obj_id \<leftarrow> lu_get (cur_entry - entry_offset) (gl_fs s);
     let s = s\<lparr>gl_pix := SPIFFS_OBJ_LOOKUP_ENTRY_TO_PIX (cfg (gl_fs s)) bix cur_entry\<rparr>;
     r \<leftarrow> (case gc_state (gl_gc s) of
             FIND_OBJ_DATA \<Rightarrow> Some (Continue (gc_find_data obj_id s))
           | MOVE_OBJ_DATA \<Rightarrow> gc_move_data page_addr obj_id s
           | MOVE_OBJ_IX \<Rightarrow> gc_move_ix page_addr obj_id s
           | FINISHED \<Rightarrow> Some (Continue (s\<lparr>gl_scan := False\<rparr>)));
     Some (case r of
             Continue s \<Rightarrow> Continue (s\<lparr>gl_entry := cur_entry + 1\<rparr>)
           | Break s \<Rightarrow> Break s
           | Return x \<Rightarrow> Return x)
   }"

primrec gc_entries :: "nat \<Rightarrow> nat \<Rightarrow> nat \<Rightarrow> nat list \<Rightarrow> gc_loop \<Rightarrow> (int \<times> spiffs, gc_loop) flow option" where
  "gc_entries bix page_addr entry_offset [] s = Some (Continue s)"
| "gc_entries bix page_addr entry_offset (e # es) s =
     (if \<not> gl_scan s \<or> gl_res s \<noteq> SPIFFS_OK then Some (Continue s)
      else do {
        r \<leftarrow> gc_entry bix page_addr entry_offset e s;
        case r of
          Continue s \<Rightarrow> gc_entries bix page_addr entry_offset es s
        | _ \<Rightarrow> Some r
      })"

primrec gc_pages :: "nat \<Rightarrow> nat list \<Rightarrow> gc_loop \<Rightarrow> (int \<times> spiffs, gc_loop) flow option" where
  "gc_pages bix [] s = Some (Continue s)"
| "gc_pages bix (p # ps) s =
     (if \<not> gl_scan s \<or> gl_res s \<noteq> SPIFFS_OK then Some (Continue s)
      else do {
        let c = cfg (gl_fs s);
        let entry_offset = p * entries_per_page c;
        let addr = add32 (bix * log_block_size c) (SPIFFS_PAGE_TO_PADDR c p);
        (res, fs) \<leftarrow> lu_load addr (gl_fs s);
        let s = s\<lparr>gl_res := res, gl_fs := fs\<rparr>;
        r \<leftarrow> gc_entries bix addr entry_offset
              [gl_entry s..<min (entry_offset + entries_per_page c) (max_entries c)] s;
        case r of
          Continue s \<Rightarrow> gc_pages bix ps s
        | _ \<Rightarrow> Some r
      })"

text \<open>The switch after the scan.\<close>

definition gc_find_done :: "gc_loop \<Rightarrow> (int \<times> spiffs, gc_loop) flow option" where
  "gc_find_done s =
     (if \<not> obj_id_found (gl_gc s)
      then Some (Continue (s\<lparr>gl_gc := (gl_gc s)\<lparr>gc_state := MOVE_OBJ_IX\<rparr>, gl_entry := 0\<rparr>))
      else do {
        let gc = (gl_gc s)\<lparr>stored_scan_entry_index := gl_entry s, gc_state := MOVE_OBJ_DATA\<rparr>;
        (res, p_hdr, fs) \<leftarrow> rd_header (OP_T_OBJ_LU2 OR OP_C_READ)
           (SPIFFS_PAGE_TO_PADDR (cfg (gl_fs s)) (gl_pix s)) (gl_fs s);
        if res < 0 then Some (Return (res, fs))
        else do {
          let spix = SPIFFS_OBJ_IX_ENTRY_SPAN_IX (cfg fs) (ph_span_ix p_hdr);
          let oid = cur_obj_id gc OR SPIFFS_OBJ_ID_IX_FLAG;
          (res, objix_pix, fs) \<leftarrow> spiffs_obj_lu_find_id_and_span oid spix 0 fs;
          if res < 0 then Some (Return (res, fs))
          else do {
            (res, fs) \<leftarrow> work_load (OP_T_OBJ_LU2 OR OP_C_READ) (SPIFFS_PAGE_TO_PADDR (cfg fs) objix_pix) fs;
            if res < 0 then Some (Return (res, fs))
            else do {
              h \<leftarrow> work_header fs;
              let v = SPIFFS_VALIDATE_OBJIX h oid spix;
              if v \<noteq> SPIFFS_OK then Some (Return (v, fs))
              else Some (Continue (s\<lparr>gl_gc := gc\<lparr>cur_objix_spix := spix, cur_objix_pix := objix_pix\<rparr>,
                                     gl_entry := 0, gl_res := res, gl_fs := fs\<rparr>))
            }
          }
        }
      })"

definition gc_move_done :: "gc_loop \<Rightarrow> (int \<times> spiffs, gc_loop) flow option" where
  "gc_move_done s = do {
     let gc = gl_gc s;
     let s = s\<lparr>gl_gc := gc\<lparr>gc_state := FIND_OBJ_DATA\<rparr>, gl_entry := stored_scan_entry_index gc\<rparr>;
     let oid = cur_obj_id gc OR SPIFFS_OBJ_ID_IX_FLAG;
     if cur_objix_spix gc = 0 then do {
       (res, _, fs) \<leftarrow> spiffs_object_update_index_hdr None oid (cur_objix_pix gc) True None 0 (gl_fs s);
       if res < 0 then Some (Return (res, fs))
       else Some (Continue (s\<lparr>gl_res := res, gl_fs := fs\<rparr>))
     }
     else do {
       (res, dst, fs) \<leftarrow> spiffs_page_move True oid (cur_objix_pix gc) (gl_fs s);
       if res < 0 then Some (Return (res, fs))
       else do {
         new_objix_pix \<leftarrow> dst;
         h \<leftarrow> work_header fs;
         let fs = spiffs_cb_object_event EV_IX_UPD (cur_obj_id gc) (ph_span_ix h) new_objix_pix 0 fs;
         Some (Continue (s\<lparr>gl_res := res, gl_fs := fs\<rparr>))
       }
     }
   }"

definition gc_switch :: "gc_loop \<Rightarrow> (int \<times> spiffs, gc_loop) flow option" where
  "gc_switch s =
     (case gc_state (gl_gc s) of
        FIND_OBJ_DATA \<Rightarrow> gc_find_done s
      | MOVE_OBJ_DATA \<Rightarrow> gc_move_done s
      | MOVE_OBJ_IX \<Rightarrow> Some (Continue (s\<lparr>gl_gc := (gl_gc s)\<lparr>gc_state := FINISHED\<rparr>\<rparr>))
      | FINISHED \<Rightarrow> Some (Continue (s\<lparr>gl_entry := 0\<rparr>)))"

primrec gc_clean_loop :: "nat \<Rightarrow> nat \<Rightarrow> gc_loop \<Rightarrow> (int \<times> spiffs) option" where
  "gc_clean_loop 0 bix s = None"
| "gc_clean_loop (Suc n) bix s =
     (if gl_res s \<noteq> SPIFFS_OK \<or> gc_state (gl_gc s) = FINISHED then Some (gl_res s, gl_fs s)
      else do {
        let c = cfg (gl_fs s);
        let s = s\<lparr>gl_gc := (gl_gc s)\<lparr>obj_id_found := False\<rparr>, gl_scan := True\<rparr>;
        r \<leftarrow> gc_pages bix [gl_entry s div entries_per_page c..<SPIFFS_OBJ_LOOKUP_PAGES c] s;
        case r of
          Return x \<Rightarrow> Some x
        | Break s \<Rightarrow> None
        | Continue s \<Rightarrow>
            if gl_res s \<noteq> SPIFFS_OK then Some (gl_res s, gl_fs s)
            else do {
              r \<leftarrow> gc_switch s;
              case r of
                Return x \<Rightarrow> Some x
              | Break s \<Rightarrow> None
              | Continue s \<Rightarrow> gc_clean_loop n bix s
            }
      })"

definition spiffs_gc_clean :: "nat \<Rightarrow> spiffs \<Rightarrow> (int \<times> spiffs) option" where
  "spiffs_gc_clean bix fs =
     (let gc = \<lparr>gc_state = FIND_OBJ_DATA, cur_obj_id = 0, cur_objix_spix = 0, cur_objix_pix = 0,
                stored_scan_entry_index = 0, obj_id_found = False\<rparr>;
          fs = (if free_cursor_block_ix fs = bix
                then fs\<lparr>free_cursor_block_ix := (bix + 1) mod block_count fs, free_cursor_obj_lu_entry := 0\<rparr>
                else fs)
      in gc_clean_loop (2 * max_entries (cfg fs) + 4) bix
           \<lparr>gl_gc = gc, gl_entry = 0, gl_pix = 0, gl_scan = True, gl_res = SPIFFS_OK, gl_fs = fs\<rparr>)"

subsection \<open>Making room\<close>

definition gc_free_pages :: "spiffs \<Rightarrow> int" where
  "gc_free_pages fs =
     s32_of (sub32 (sub32 (u32_of (SPIFFS_OBJ_LOOKUP_MAX_ENTRIES (cfg fs) * sub32 (block_count fs) 2))
               (stats_p_allocated fs)) (stats_p_deleted fs))"

text \<open>The \<open>do ... while\<close> loop with its exit code, \<open>n\<close> runs left; \<open>Continue\<close> leaves the loop.\<close>

primrec gc_check_runs :: "nat \<Rightarrow> nat \<Rightarrow> nat \<Rightarrow> int \<Rightarrow> spiffs \<Rightarrow> (int \<times> spiffs, int \<times> spiffs) flow option" where
  "gc_check_runs 0 len needed_pages free_pages fs = Some (Continue (SPIFFS_OK, fs))"
| "gc_check_runs (Suc n) len needed_pages free_pages fs = do {
     (res, cands, count, fs) \<leftarrow> spiffs_gc_find_candidate (free_pages \<le> 0) fs;
     if res < 0 then Some (Return (res, fs))
     else if count = 0 then
       Some (Return (if s32_of needed_pages < free_pages then SPIFFS_OK else SPIFFS_ERR_FULL, fs))
     else do {
       let cand = (case cands of [] \<Rightarrow> NO_IX | (b, _) # _ \<Rightarrow> b);
       (res, fs) \<leftarrow> spiffs_gc_clean cand (fs\<lparr>cleaning := True\<rparr>);
       let fs = fs\<lparr>cleaning := False\<rparr>;
       if res < 0 then Some (Return (res, fs))
       else do {
         (res, fs) \<leftarrow> spiffs_gc_erase_page_stats cand fs;
         if res < 0 then Some (Return (res, fs))
         else do {
           (res, fs) \<leftarrow> spiffs_gc_erase_block cand fs;
           if res < 0 then Some (Return (res, fs))
           else
             let prev_free_pages = free_pages; free_pages = gc_free_pages fs in
             if prev_free_pages \<le> 0 \<and> prev_free_pages = free_pages then Some (Continue (res, fs))
             else if n > 0 \<and> (free_blocks fs \<le> 2 \<or>
                     s32_of len > free_pages * s32_of (SPIFFS_DATA_PAGE_SIZE (cfg fs)))
             then gc_check_runs n len needed_pages free_pages fs
             else Some (Continue (res, fs))
         }
       }
     }
   }"

definition spiffs_gc_check :: "nat \<Rightarrow> spiffs \<Rightarrow> (int \<times> spiffs) option" where
  "spiffs_gc_check len fs =
     (let D = SPIFFS_DATA_PAGE_SIZE (cfg fs);
          free_pages = gc_free_pages fs;
          needed_pages = sub32 (add32 len D) 1 div D
      in if free_blocks fs > 3 \<and> s32_of len < free_pages * s32_of D then Some (SPIFFS_OK, fs)
         else if s32_of needed_pages > s32_of (u32_of_int (free_pages + int (stats_p_deleted fs)))
         then Some (SPIFFS_ERR_FULL, fs)
         else do {
           r \<leftarrow> gc_check_runs SPIFFS_GC_MAX_RUNS len needed_pages free_pages fs;
           case r of
             Return x \<Rightarrow> Some x
           | Break x \<Rightarrow> None
           | Continue (res, fs) \<Rightarrow>
               Some (if s32_of len > gc_free_pages fs * s32_of D then SPIFFS_ERR_FULL else res, fs)
         })"

end
