(* ===== verification/Spiffs_Object.thy ===== *)
theory Spiffs_Object
  imports Spiffs_Gc
begin

section \<open>SPIFFS: objects\<close>

text \<open>
  The object operations of \<open>spiffs_nucleus.c\<close>: create, open, append, modify, truncate, read, the
  search by name and the search for a free object id. Each of the long loops is a function for
  the object index part of its body, one for the data part, the loop itself with fuel, and the
  code after the loop. An append or modify pass writes at least one byte and all passes but the
  first start at a page boundary, so \<open>len div D + 3\<close> passes are enough; a truncate pass removes
  a page (\<open>size div D + 3\<close>), a read pass returns at least one byte (\<open>len + 1\<close>).
\<close>

subsection \<open>Creating and opening\<close>

definition spiffs_object_create ::
    "u16 \<Rightarrow> byte list \<Rightarrow> byte \<Rightarrow> spiffs \<Rightarrow> (int \<times> nat option \<times> spiffs) option" where
  "spiffs_object_create obj_id name type fs = do {
     (res, fs) \<leftarrow> spiffs_gc_check (SPIFFS_DATA_PAGE_SIZE (cfg fs)) fs;
     if res < 0 then Some (res, None, fs)
     else do {
       let obj_id = obj_id OR SPIFFS_OBJ_ID_IX_FLAG;
       (res, loc, fs) \<leftarrow> spiffs_obj_lu_find_free (free_cursor_block_ix fs) (free_cursor_obj_lu_entry fs) fs;
       if res < 0 then Some (res, None, fs)
       else do {
         (bix, entry) \<leftarrow> loc;
         (res, fs) \<leftarrow> spiffs_phys_wr (OP_T_OBJ_LU OR OP_C_UPDT) (lu_entry_paddr (cfg fs) bix entry) (le16 obj_id) fs;
         if res < 0 then Some (res, None, fs)
         else do {
           let fs = fs\<lparr>stats_p_allocated := add32 (stats_p_allocated fs) 1\<rparr>;
           let oix_hdr = \<lparr>oh_p_hdr = \<lparr>ph_obj_id = obj_id, ph_span_ix = 0,
                            ph_flags = 0xff AND NOT (PH_FLAG_FINAL OR PH_FLAG_INDEX OR PH_FLAG_USED)\<rparr>,
                          oh_size = SPIFFS_UNDEFINED_LEN, oh_type = type, oh_name = strncpy_name name\<rparr>;
           (res, fs) \<leftarrow> spiffs_phys_wr (OP_T_OBJ_DA OR OP_C_UPDT)
              (SPIFFS_OBJ_LOOKUP_ENTRY_TO_PADDR (cfg fs) bix entry) (objix_header_bytes (junk fs) oix_hdr) fs;
           if res < 0 then Some (res, None, fs)
           else
             let pix = SPIFFS_OBJ_LOOKUP_ENTRY_TO_PIX (cfg fs) bix entry in
             Some (res, Some pix, spiffs_cb_object_event EV_IX_NEW obj_id 0 pix SPIFFS_UNDEFINED_LEN fs)
         }
       }
     }
   }"

definition spiffs_object_open_by_page :: "nat \<Rightarrow> nat \<Rightarrow> u16 \<Rightarrow> spiffs \<Rightarrow> (int \<times> spiffs) option" where
  "spiffs_object_open_by_page pix fd flags fs = do {
     (res, bs, fs) \<leftarrow> spiffs_phys_rd (OP_T_OBJ_IX OR OP_C_READ) (SPIFFS_PAGE_TO_PADDR (cfg fs) pix)
                        SIZEOF_OBJIX_HEADER fs;
     if res < 0 then Some (res, fs)
     else do {
       let oix_hdr = objix_header_of bs;
       (res, obj_id, fs) \<leftarrow> rd_id (OP_T_OBJ_LU OR OP_C_READ) (lu_page_paddr (cfg fs) pix) fs;
       let fs = upd_fd fd (\<lambda>f. f\<lparr>objix_hdr_pix := pix, fd_size := oh_size oix_hdr, fd_offset := 0,
                  cursor_objix_pix := pix, cursor_objix_spix := 0, fd_obj_id := obj_id, fd_flags := flags\<rparr>) fs;
       let v = SPIFFS_VALIDATE_OBJIX (oh_p_hdr oix_hdr) obj_id 0;
       Some (if v \<noteq> SPIFFS_OK then v else res, fs)
     }
   }"

definition spiffs_object_open_by_id :: "u16 \<Rightarrow> nat \<Rightarrow> u16 \<Rightarrow> spiffs \<Rightarrow> (int \<times> spiffs) option" where
  "spiffs_object_open_by_id obj_id fd flags fs = do {
     (res, pix, fs) \<leftarrow> spiffs_obj_lu_find_id_and_span (obj_id OR SPIFFS_OBJ_ID_IX_FLAG) 0 0 fs;
     if res < 0 then Some (res, fs)
     else spiffs_object_open_by_page pix fd flags fs
   }"

subsection \<open>Appending\<close>

text \<open>The locals the loops of append and modify carry, with the file system.\<close>

record obj_loop =
  ol_written :: nat
  ol_cur_spix :: nat
  ol_prev_spix :: nat
  ol_cur_pix :: nat
  ol_data_spix :: nat
  ol_page_offs :: nat
  ol_res :: int
  ol_fs :: spiffs

text \<open>What an uninitialised page index holds.\<close>

definition junk_ix :: "spiffs \<Rightarrow> nat" where
  "junk_ix fs = unat (of_le16 [junk fs, junk fs])"

definition append_store_prev :: "nat \<Rightarrow> nat \<Rightarrow> obj_loop \<Rightarrow> (int \<times> spiffs) option" where
  "append_store_prev fd offset s = do {
     let fs = ol_fs s;
     let end_offs = add32 offset (ol_written s);
     if ol_prev_spix s = 0 then do {
       fs \<leftarrow> work_put 8 (le32 (of_nat end_offs)) fs;
       if offset = 0 then do {
         (res, fs) \<leftarrow> spiffs_page_index_check fd (ol_cur_pix s) 0 fs;
         if res < 0 then Some (res, fs)
         else wr_work (OP_T_OBJ_IX OR OP_C_UPDT) (ol_cur_pix s) fs
       }
       else do {
         (res, _, fs) \<leftarrow> spiffs_object_update_index_hdr (Some fd) (fd_obj_id (fd_at fd fs))
            (objix_hdr_pix (fd_at fd fs)) True None end_offs fs;
         Some (res, fs)
       }
     }
     else do {
       (res, fs) \<leftarrow> spiffs_page_index_check fd (ol_cur_pix s) (ol_prev_spix s) fs;
       if res < 0 then Some (res, fs)
       else do {
         (res, fs) \<leftarrow> wr_work (OP_T_OBJ_IX OR OP_C_UPDT) (ol_cur_pix s) fs;
         if res < 0 then Some (res, fs)
         else do {
           h \<leftarrow> work_header fs;
           let fs = spiffs_cb_object_event EV_IX_UPD (fd_obj_id (fd_at fd fs)) (ph_span_ix h) (ol_cur_pix s) 0 fs;
           (res, _, fs) \<leftarrow> spiffs_object_update_index_hdr (Some fd) (fd_obj_id (fd_at fd fs))
              (objix_hdr_pix (fd_at fd fs)) False None end_offs fs;
           Some (res, fs)
         }
       }
     }
   }"

text \<open>Loading an object index page into the work buffer and validating its header.\<close>

definition load_objix :: "nat \<Rightarrow> nat \<Rightarrow> nat \<Rightarrow> spiffs \<Rightarrow> (int \<times> spiffs) option" where
  "load_objix fd pix spix fs = do {
     (res, fs) \<leftarrow> work_load (OP_T_OBJ_IX OR OP_C_READ) (SPIFFS_PAGE_TO_PADDR (cfg fs) pix) fs;
     if res < 0 then Some (res, fs)
     else do {
       h \<leftarrow> work_header fs;
       let v = SPIFFS_VALIDATE_OBJIX h (fd_obj_id (fd_at fd fs)) spix;
       Some (if v \<noteq> SPIFFS_OK then v else res, fs)
     }
   }"

text \<open>The page of an object index of a descriptor: its cursor if it fits, a search otherwise.\<close>

definition find_objix_pix :: "nat \<Rightarrow> nat \<Rightarrow> spiffs \<Rightarrow> (int \<times> nat \<times> spiffs) option" where
  "find_objix_pix fd spix fs =
     (if cursor_objix_spix (fd_at fd fs) = spix then Some (SPIFFS_OK, cursor_objix_pix (fd_at fd fs), fs)
      else spiffs_obj_lu_find_id_and_span (fd_obj_id (fd_at fd fs) OR SPIFFS_OBJ_ID_IX_FLAG) spix 0 fs)"

text \<open>\<open>(res, cur_objix_pix, fs)\<close> after creating or loading the current object index page.\<close>

definition append_load_index :: "nat \<Rightarrow> nat \<Rightarrow> obj_loop \<Rightarrow> (int \<times> nat \<times> spiffs) option" where
  "append_load_index fd offset s = do {
     let fs = ol_fs s;
     let cur = ol_cur_spix s;
     if cur = 0 then do {
       (res, fs) \<leftarrow> load_objix fd (ol_cur_pix s) cur fs;
       Some (res, ol_cur_pix s, fs)
     }
     else do {
       let end_offs = add32 offset (ol_written s);
       let len_objix_spix = SPIFFS_OBJ_IX_ENTRY_SPAN_IX (cfg fs)
             (sub32 (fd_size (fd_at fd fs)) 1 div SPIFFS_DATA_PAGE_SIZE (cfg fs));
       (res, pix, fs) \<leftarrow>
         (if ol_written s > 0 \<or> cur > len_objix_spix then do {
            let oid = fd_obj_id (fd_at fd fs) OR SPIFFS_OBJ_ID_IX_FLAG;
            let p_hdr = \<lparr>ph_obj_id = oid, ph_span_ix = cur,
                         ph_flags = 0xff AND NOT (PH_FLAG_FINAL OR PH_FLAG_INDEX)\<rparr>;
            (res, p_hdr, pix, fs) \<leftarrow> spiffs_page_allocate_data oid p_hdr None 0 True fs;
            if res < 0 then Some (res, 0, fs)
            else do {
              pix \<leftarrow> pix;
              let fs = spiffs_cb_object_event EV_IX_NEW (fd_obj_id (fd_at fd fs)) cur pix 0 fs;
              Some (res, pix, fs\<lparr>work := page_header_bytes p_hdr @
                                        replicate (log_page_size (cfg fs) - SIZEOF_PAGE_HEADER) 0xff\<rparr>)
            }
          }
          else do {
            (res, pix, fs) \<leftarrow> find_objix_pix fd cur fs;
            if res < 0 then Some (res, 0, fs)
            else do {
              (res, fs) \<leftarrow> load_objix fd pix cur fs;
              Some (res, pix, fs)
            }
          });
       if res < 0 then Some (res, 0, fs)
       else Some (res, pix, upd_fd fd (\<lambda>f. f\<lparr>cursor_objix_pix := pix, cursor_objix_spix := cur,
                    fd_offset := end_offs, fd_size := end_offs\<rparr>) fs)
     }
   }"

text \<open>The object index part of a pass.\<close>

definition append_index :: "nat \<Rightarrow> nat \<Rightarrow> obj_loop \<Rightarrow> (int \<times> spiffs, obj_loop) flow option" where
  "append_index fd offset s = do {
     let s = s\<lparr>ol_cur_spix := SPIFFS_OBJ_IX_ENTRY_SPAN_IX (cfg (ol_fs s)) (ol_data_spix s)\<rparr>;
     if ol_cur_spix s = ol_prev_spix s then Some (Continue s)
     else do {
       (res, fs) \<leftarrow>
         (if ol_written s > 0 then do {
            (res, fs) \<leftarrow> append_store_prev fd offset s;
            let end_offs = add32 offset (ol_written s);
            Some (res, if res < 0 then fs
                       else upd_fd fd (\<lambda>f. f\<lparr>fd_size := end_offs, fd_offset := end_offs\<rparr>) fs)
          }
          else Some (SPIFFS_OK, ol_fs s));
       if res < 0 then Some (Return (res, fs))
       else do {
         (res, pix, fs) \<leftarrow> append_load_index fd offset (s\<lparr>ol_fs := fs\<rparr>);
         if res < 0 then Some (Return (res, fs))
         else Some (Continue (s\<lparr>ol_cur_pix := pix, ol_prev_spix := ol_cur_spix s, ol_res := res, ol_fs := fs\<rparr>))
       }
     }
   }"

text \<open>The data part of a pass.\<close>

definition append_data :: "nat \<Rightarrow> nat \<Rightarrow> byte list \<Rightarrow> obj_loop \<Rightarrow> (int \<times> spiffs, obj_loop) flow option" where
  "append_data fd offset data s = do {
     let fs = ol_fs s;
     let D = SPIFFS_DATA_PAGE_SIZE (cfg fs);
     let to_write = min (length data - ol_written s) (sub32 D (ol_page_offs s));
     let oid = fd_obj_id (fd_at fd fs) AND NOT SPIFFS_OBJ_ID_IX_FLAG;
     chunk \<leftarrow> buf_slice (ol_written s) to_write data;
     r \<leftarrow>
       (if ol_page_offs s = 0 then do {
          let p_hdr = \<lparr>ph_obj_id = oid, ph_span_ix = ol_data_spix s, ph_flags = 0xff AND NOT PH_FLAG_FINAL\<rparr>;
          (res, _, pix, fs) \<leftarrow> spiffs_page_allocate_data oid p_hdr (Some chunk) (ol_page_offs s) True fs;
          Some (Continue (res, pix, fs))
        }
        else do {
          data_page \<leftarrow> objix_get (ol_cur_spix s) (ol_data_spix s) fs;
          (res, fs) \<leftarrow> spiffs_page_data_check fd data_page (ol_data_spix s) fs;
          if res < 0 then Some (Return (res, fs))
          else do {
            (res, fs) \<leftarrow> spiffs_phys_wr (OP_T_OBJ_DA OR OP_C_UPDT)
               (add32 (SPIFFS_PAGE_TO_PADDR (cfg fs) data_page) (SIZEOF_PAGE_HEADER + ol_page_offs s)) chunk fs;
            Some (Continue (res, Some data_page, fs))
          }
        });
     case r of
       Return x \<Rightarrow> Some (Return x)
     | Break _ \<Rightarrow> None
     | Continue (res, pix, fs) \<Rightarrow>
         if res \<noteq> SPIFFS_OK then Some (Break (s\<lparr>ol_res := res, ol_fs := fs\<rparr>))
         else do {
           data_page \<leftarrow> pix;
           fs \<leftarrow> objix_put (ol_cur_spix s) (ol_data_spix s) data_page fs;
           fs \<leftarrow> (if ol_cur_spix s = 0 then work_put 8 (le32 (of_nat (add32 offset (ol_written s)))) fs
                  else Some fs);
           Some (Continue (s\<lparr>ol_page_offs := 0, ol_data_spix := u16_of (ol_data_spix s + 1),
                             ol_written := ol_written s + to_write, ol_res := res, ol_fs := fs\<rparr>))
         }
   }"

primrec append_loop :: "nat \<Rightarrow> nat \<Rightarrow> nat \<Rightarrow> byte list \<Rightarrow> obj_loop \<Rightarrow> (int \<times> spiffs, obj_loop) flow option" where
  "append_loop 0 fd offset data s = None"
| "append_loop (Suc n) fd offset data s =
     (if ol_res s \<noteq> SPIFFS_OK \<or> length data \<le> ol_written s then Some (Continue s)
      else do {
        r \<leftarrow> append_index fd offset s;
        case r of
          Continue s \<Rightarrow> do {
            r \<leftarrow> append_data fd offset data s;
            case r of
              Continue s \<Rightarrow> append_loop n fd offset data s
            | _ \<Rightarrow> Some r
          }
        | _ \<Rightarrow> Some r
      })"

text \<open>The code after the loop; \<open>res\<close> of the loop is the result when nothing fails here.\<close>

definition append_finish :: "nat \<Rightarrow> nat \<Rightarrow> obj_loop \<Rightarrow> (int \<times> spiffs) option" where
  "append_finish fd offset s = do {
     let end_offs = add32 offset (ol_written s);
     let fs = upd_fd fd (\<lambda>f. f\<lparr>fd_size := end_offs, fd_offset := end_offs,
                cursor_objix_pix := ol_cur_pix s, cursor_objix_spix := ol_cur_spix s\<rparr>) (ol_fs s);
     let oid = fd_obj_id (fd_at fd fs);
     if ol_cur_spix s = 0 \<and> offset \<noteq> 0 then do {
       (res2, _, fs) \<leftarrow> spiffs_object_update_index_hdr (Some fd) oid (objix_hdr_pix (fd_at fd fs)) True None end_offs fs;
       Some (if res2 < 0 then res2 else ol_res s, fs)
     }
     else do {
       fs \<leftarrow> (if ol_cur_spix s = 0 then work_put 8 (le32 (of_nat end_offs)) fs else Some fs);
       (res2, fs) \<leftarrow> spiffs_page_index_check fd (ol_cur_pix s) (ol_cur_spix s) fs;
       if res2 < 0 then Some (res2, fs)
       else do {
         (res2, fs) \<leftarrow> wr_work (OP_T_OBJ_IX OR OP_C_UPDT) (ol_cur_pix s) fs;
         if res2 < 0 then Some (res2, fs)
         else do {
           h \<leftarrow> work_header fs;
           if ol_cur_spix s = 0 then
             Some (ol_res s, spiffs_cb_object_event EV_IX_UPD oid (ph_span_ix h) (ol_cur_pix s) (work_objix_size fs) fs)
           else do {
             let fs = spiffs_cb_object_event EV_IX_UPD oid (ph_span_ix h) (ol_cur_pix s) 0 fs;
             (res2, _, fs) \<leftarrow> spiffs_object_update_index_hdr (Some fd) oid (objix_hdr_pix (fd_at fd fs)) False None
                end_offs fs;
             Some (if res2 < 0 then res2 else ol_res s, fs)
           }
         }
       }
     }
   }"

definition obj_loop_init :: "nat \<Rightarrow> nat \<Rightarrow> int \<Rightarrow> spiffs \<Rightarrow> obj_loop" where
  "obj_loop_init fd offset res fs =
     \<lparr>ol_written = 0, ol_cur_spix = 0, ol_prev_spix = NO_IX, ol_cur_pix = objix_hdr_pix (fd_at fd fs),
      ol_data_spix = u16_of (offset div SPIFFS_DATA_PAGE_SIZE (cfg fs)),
      ol_page_offs = offset mod SPIFFS_DATA_PAGE_SIZE (cfg fs), ol_res = res, ol_fs = fs\<rparr>"

definition spiffs_object_append :: "nat \<Rightarrow> nat \<Rightarrow> byte list \<Rightarrow> spiffs \<Rightarrow> (int \<times> spiffs) option" where
  "spiffs_object_append fd offset data fs = do {
     let offset = min offset (fd_size (fd_at fd fs));
     let D = SPIFFS_DATA_PAGE_SIZE (cfg fs);
     (res, fs) \<leftarrow> spiffs_gc_check (add32 (length data) D) fs;
     if res < 0 then Some (res, fs)
     else do {
       r \<leftarrow> append_loop (length data div D + 3) fd offset data (obj_loop_init fd offset res fs);
       case r of
         Return x \<Rightarrow> Some x
       | Continue s \<Rightarrow> append_finish fd offset s
       | Break s \<Rightarrow> append_finish fd offset s
     }
   }"

end
