(* ===== verification/Spiffs_Modify.thy ===== *)
theory Spiffs_Modify
  imports Spiffs_Object
begin

section \<open>SPIFFS: modifying, truncating and reading objects, names and free ids\<close>

text \<open>
  The second half of the object operations of \<open>spiffs_nucleus.c\<close>. In \<open>spiffs_object_modify\<close> the
  result of allocating a full page is not tested before the original page is deleted; the page
  index stored then is an uninitialised variable (\<open>junk_ix\<close>).
\<close>

subsection \<open>Modifying\<close>

definition modify_store_prev :: "nat \<Rightarrow> obj_loop \<Rightarrow> (int \<times> spiffs) option" where
  "modify_store_prev fd s = do {
     let fs = ol_fs s;
     if ol_prev_spix s = 0 then do {
       (res, _, fs) \<leftarrow> spiffs_object_update_index_hdr (Some fd) (fd_obj_id (fd_at fd fs))
          (objix_hdr_pix (fd_at fd fs)) True None 0 fs;
       Some (res, fs)
     }
     else do {
       (res, fs) \<leftarrow> spiffs_page_index_check fd (ol_cur_pix s) (ol_prev_spix s) fs;
       if res < 0 then Some (res, fs)
       else do {
         (res, dst, fs) \<leftarrow> spiffs_page_move True (fd_obj_id (fd_at fd fs)) (ol_cur_pix s) fs;
         if res < 0 then Some (res, fs)
         else do {
           new_objix_pix \<leftarrow> dst;
           h \<leftarrow> work_header fs;
           Some (res, spiffs_cb_object_event EV_IX_UPD (fd_obj_id (fd_at fd fs)) (ph_span_ix h) new_objix_pix 0 fs)
         }
       }
     }
   }"

definition modify_index :: "nat \<Rightarrow> nat \<Rightarrow> obj_loop \<Rightarrow> (int \<times> spiffs, obj_loop) flow option" where
  "modify_index fd offset s = do {
     let s = s\<lparr>ol_cur_spix := SPIFFS_OBJ_IX_ENTRY_SPAN_IX (cfg (ol_fs s)) (ol_data_spix s)\<rparr>;
     let cur = ol_cur_spix s;
     if cur = ol_prev_spix s then Some (Continue s)
     else do {
       (res, fs) \<leftarrow> (if ol_written s > 0 then modify_store_prev fd s else Some (SPIFFS_OK, ol_fs s));
       if res < 0 then Some (Return (res, fs))
       else do {
         (res, pix, fs) \<leftarrow> (if cur = 0 then Some (SPIFFS_OK, ol_cur_pix s, fs) else find_objix_pix fd cur fs);
         if res < 0 then Some (Return (res, fs))
         else do {
           (res, fs) \<leftarrow> load_objix fd pix cur fs;
           if res < 0 then Some (Return (res, fs))
           else
             let fs = upd_fd fd (\<lambda>f. f\<lparr>cursor_objix_pix := pix, cursor_objix_spix := cur,
                        fd_offset := add32 offset (ol_written s)\<rparr>) fs
             in Some (Continue (s\<lparr>ol_cur_pix := pix, ol_prev_spix := cur, ol_res := res, ol_fs := fs\<rparr>))
         }
       }
     }
   }"

text \<open>Sequencing of calls where any result other than \<open>SPIFFS_OK\<close> breaks out of the loop.\<close>

definition and_then :: "(int \<times> spiffs) option \<Rightarrow> (spiffs \<Rightarrow> (int \<times> spiffs) option) \<Rightarrow> (int \<times> spiffs) option" where
  "and_then r f = do { (res, fs) \<leftarrow> r; if res \<noteq> SPIFFS_OK then Some (res, fs) else f fs }"

text \<open>Replacing part of a page: a new page with the unmodified bytes copied around the new
  ones, finalized last.\<close>

definition modify_partial ::
    "u16 \<Rightarrow> spiffs_page_header \<Rightarrow> nat \<Rightarrow> nat \<Rightarrow> byte list \<Rightarrow> spiffs \<Rightarrow> (int \<times> nat \<times> spiffs) option" where
  "modify_partial oid p_hdr orig_pix page_offs chunk fs = do {
     let c = cfg fs;
     let D = SPIFFS_DATA_PAGE_SIZE c;
     let after = page_offs + length chunk;
     (res, p_hdr, pix, fs) \<leftarrow> spiffs_page_allocate_data oid p_hdr None 0 False fs;
     if res \<noteq> SPIFFS_OK then Some (res, 0, fs)
     else do {
       data_pix \<leftarrow> pix;
       let dst = SPIFFS_PAGE_TO_PADDR c data_pix + SIZEOF_PAGE_HEADER;
       let src = SPIFFS_PAGE_TO_PADDR c orig_pix + SIZEOF_PAGE_HEADER;
       (res, fs) \<leftarrow>
         and_then (if page_offs > 0 then spiffs_phys_cpy (u32_of dst) (u32_of src) page_offs fs
                   else Some (SPIFFS_OK, fs)) (\<lambda>fs.
         and_then (if after < D then spiffs_phys_cpy (add32 dst after) (add32 src after) (D - after) fs
                   else Some (SPIFFS_OK, fs)) (\<lambda>fs.
         and_then (spiffs_phys_wr (OP_T_OBJ_DA OR OP_C_UPDT) (add32 dst page_offs) chunk fs) (\<lambda>fs.
         spiffs_phys_wr (OP_T_OBJ_DA OR OP_C_UPDT)
           (add32 (SPIFFS_PAGE_TO_PADDR c data_pix) OFFSETOF_FLAGS) [ph_flags p_hdr AND NOT PH_FLAG_FINAL] fs)));
       Some (res, data_pix, fs)
     }
   }"

definition modify_data :: "nat \<Rightarrow> byte list \<Rightarrow> obj_loop \<Rightarrow> (int \<times> spiffs, obj_loop) flow option" where
  "modify_data fd data s = do {
     let fs = ol_fs s;
     let D = SPIFFS_DATA_PAGE_SIZE (cfg fs);
     let to_write = min (length data - ol_written s) (sub32 D (ol_page_offs s));
     let oid = fd_obj_id (fd_at fd fs) AND NOT SPIFFS_OBJ_ID_IX_FLAG;
     chunk \<leftarrow> buf_slice (ol_written s) to_write data;
     orig_data_pix \<leftarrow> objix_get (ol_cur_spix s) (ol_data_spix s) fs;
     let p_hdr = \<lparr>ph_obj_id = oid, ph_span_ix = ol_data_spix s, ph_flags = 0xff\<rparr>;
     r \<leftarrow>
       (if ol_page_offs s = 0 \<and> to_write = D then do {
          (_, _, pix, fs) \<leftarrow> spiffs_page_allocate_data oid p_hdr (Some chunk) (ol_page_offs s) True fs;
          Some (Continue (SPIFFS_OK, case pix of None \<Rightarrow> junk_ix fs | Some p \<Rightarrow> p, fs))
        }
        else do {
          (res, fs) \<leftarrow> spiffs_page_data_check fd orig_data_pix (ol_data_spix s) fs;
          if res < 0 then Some (Return (res, fs))
          else do {
            (res, data_pix, fs) \<leftarrow> modify_partial oid p_hdr orig_data_pix (ol_page_offs s) chunk fs;
            Some (Continue (res, data_pix, fs))
          }
        });
     case r of
       Return x \<Rightarrow> Some (Return x)
     | Break _ \<Rightarrow> None
     | Continue (res, data_pix, fs) \<Rightarrow>
         if res \<noteq> SPIFFS_OK then Some (Break (s\<lparr>ol_res := res, ol_fs := fs\<rparr>))
         else do {
           (res, fs) \<leftarrow> spiffs_page_delete orig_data_pix fs;
           if res \<noteq> SPIFFS_OK then Some (Break (s\<lparr>ol_res := res, ol_fs := fs\<rparr>))
           else do {
             fs \<leftarrow> objix_put (ol_cur_spix s) (ol_data_spix s) data_pix fs;
             Some (Continue (s\<lparr>ol_page_offs := 0, ol_data_spix := u16_of (ol_data_spix s + 1),
                               ol_written := ol_written s + to_write, ol_res := res, ol_fs := fs\<rparr>))
           }
         }
   }"

primrec modify_loop :: "nat \<Rightarrow> nat \<Rightarrow> nat \<Rightarrow> byte list \<Rightarrow> obj_loop \<Rightarrow> (int \<times> spiffs, obj_loop) flow option" where
  "modify_loop 0 fd offset data s = None"
| "modify_loop (Suc n) fd offset data s =
     (if ol_res s \<noteq> SPIFFS_OK \<or> length data \<le> ol_written s then Some (Continue s)
      else do {
        r \<leftarrow> modify_index fd offset s;
        case r of
          Continue s \<Rightarrow> do {
            r \<leftarrow> modify_data fd data s;
            case r of
              Continue s \<Rightarrow> modify_loop n fd offset data s
            | _ \<Rightarrow> Some r
          }
        | _ \<Rightarrow> Some r
      })"

definition modify_finish :: "nat \<Rightarrow> nat \<Rightarrow> obj_loop \<Rightarrow> (int \<times> spiffs) option" where
  "modify_finish fd offset s = do {
     let fs = upd_fd fd (\<lambda>f. f\<lparr>fd_offset := add32 offset (ol_written s),
                cursor_objix_pix := ol_cur_pix s, cursor_objix_spix := ol_cur_spix s\<rparr>) (ol_fs s);
     let oid = fd_obj_id (fd_at fd fs);
     if ol_cur_spix s \<noteq> 0 then do {
       (res2, fs) \<leftarrow> spiffs_page_index_check fd (ol_cur_pix s) (ol_cur_spix s) fs;
       if res2 < 0 then Some (res2, fs)
       else do {
         (res2, dst, fs) \<leftarrow> spiffs_page_move True oid (ol_cur_pix s) fs;
         let new_objix_pix = (case dst of None \<Rightarrow> junk_ix fs | Some p \<Rightarrow> p);
         let fs = upd_fd fd (\<lambda>f. f\<lparr>cursor_objix_pix := new_objix_pix, cursor_objix_spix := ol_cur_spix s\<rparr>) fs;
         if res2 < 0 then Some (res2, fs)
         else do {
           h \<leftarrow> work_header fs;
           Some (ol_res s, spiffs_cb_object_event EV_IX_UPD oid (ph_span_ix h) new_objix_pix 0 fs)
         }
       }
     }
     else do {
       (res2, _, fs) \<leftarrow> spiffs_object_update_index_hdr (Some fd) oid (objix_hdr_pix (fd_at fd fs)) True None 0 fs;
       Some (if res2 < 0 then res2 else ol_res s, fs)
     }
   }"

definition spiffs_object_modify :: "nat \<Rightarrow> nat \<Rightarrow> byte list \<Rightarrow> spiffs \<Rightarrow> (int \<times> spiffs) option" where
  "spiffs_object_modify fd offset data fs = do {
     let D = SPIFFS_DATA_PAGE_SIZE (cfg fs);
     (res, fs) \<leftarrow> spiffs_gc_check (add32 (length data) D) fs;
     if res < 0 then Some (res, fs)
     else do {
       r \<leftarrow> modify_loop (length data div D + 3) fd offset data (obj_loop_init fd offset res fs);
       case r of
         Return x \<Rightarrow> Some x
       | Continue s \<Rightarrow> modify_finish fd offset s
       | Break s \<Rightarrow> modify_finish fd offset s
     }
   }"

subsection \<open>Searching by name\<close>

definition OBJIX_NAME_OFFSET :: nat where [c_defs]: "OBJIX_NAME_OFFSET = 13"

definition spiffs_object_find_object_index_header_by_name_v :: "byte list \<Rightarrow> unit visitor" where
  "spiffs_object_find_object_index_header_by_name_v name obj_id bix ix_entry u fs =
     (if obj_id = SPIFFS_OBJ_ID_FREE \<or> obj_id = SPIFFS_OBJ_ID_DELETED \<or> obj_id AND SPIFFS_OBJ_ID_IX_FLAG = 0
      then Some (SPIFFS_VIS_COUNTINUE, u, fs)
      else do {
        let pix = SPIFFS_OBJ_LOOKUP_ENTRY_TO_PIX (cfg fs) bix ix_entry;
        (res, bs, fs) \<leftarrow> spiffs_phys_rd (OP_T_OBJ_LU2 OR OP_C_READ) (SPIFFS_PAGE_TO_PADDR (cfg fs) pix)
                          SIZEOF_OBJIX_HEADER fs;
        if res < 0 then Some (res, u, fs)
        else
          let h = page_header_of bs in
          if ph_span_ix h = 0 \<and>
             ph_flags h AND (PH_FLAG_DELET OR PH_FLAG_FINAL OR PH_FLAG_IXDELE) = (PH_FLAG_DELET OR PH_FLAG_IXDELE)
          then do {
            eq \<leftarrow> strcmp_eq name (drop OBJIX_NAME_OFFSET bs);
            Some (if eq then SPIFFS_OK else SPIFFS_VIS_COUNTINUE, u, fs)
          }
          else Some (SPIFFS_VIS_COUNTINUE, u, fs)
      })"

definition spiffs_object_find_object_index_header_by_name ::
    "byte list \<Rightarrow> spiffs \<Rightarrow> (int \<times> nat \<times> spiffs) option" where
  "spiffs_object_find_object_index_header_by_name name fs = do {
     (res, _, loc, fs) \<leftarrow> spiffs_obj_lu_find_entry_visitor (cursor_block_ix fs) (cursor_obj_lu_entry fs) 0 0
        (Some (spiffs_object_find_object_index_header_by_name_v name)) () fs;
     let res = (if res = SPIFFS_VIS_END then SPIFFS_ERR_NOT_FOUND else res);
     if res < 0 then Some (res, 0, fs)
     else do {
       (bix, entry) \<leftarrow> loc;
       Some (res, SPIFFS_OBJ_LOOKUP_ENTRY_TO_PIX (cfg fs) bix entry,
             fs\<lparr>cursor_block_ix := bix, cursor_obj_lu_entry := entry\<rparr>)
     }
   }"

subsection \<open>Truncating\<close>

record trunc_loop =
  tl_objix_pix :: nat
  tl_data_spix :: nat
  tl_cur_size :: nat
  tl_cur_spix :: nat
  tl_prev_spix :: nat
  tl_res :: int
  tl_fs :: spiffs

definition truncate_drop_prev :: "nat \<Rightarrow> trunc_loop \<Rightarrow> (int \<times> spiffs) option" where
  "truncate_drop_prev fd s = do {
     (res, fs) \<leftarrow> spiffs_page_index_check fd (tl_objix_pix s) (tl_prev_spix s) (tl_fs s);
     if res < 0 then Some (res, fs)
     else do {
       (res, fs) \<leftarrow> spiffs_page_delete (tl_objix_pix s) fs;
       if res < 0 then Some (res, fs)
       else do {
         h \<leftarrow> work_header fs;
         let fs = spiffs_cb_object_event EV_IX_DEL (fd_obj_id (fd_at fd fs)) (ph_span_ix h) (tl_objix_pix s) 0 fs;
         if tl_prev_spix s > 0 then do {
           (res, _, fs) \<leftarrow> spiffs_object_update_index_hdr (Some fd) (fd_obj_id (fd_at fd fs))
              (objix_hdr_pix (fd_at fd fs)) False None (tl_cur_size s) fs;
           Some (res, if res < 0 then fs else upd_fd fd (fd_size_update (\<lambda>_. tl_cur_size s)) fs)
         }
         else Some (res, fs)
       }
     }
   }"

definition truncate_index :: "nat \<Rightarrow> trunc_loop \<Rightarrow> (int \<times> spiffs, trunc_loop) flow option" where
  "truncate_index fd s = do {
     let s = s\<lparr>tl_cur_spix := SPIFFS_OBJ_IX_ENTRY_SPAN_IX (cfg (tl_fs s)) (tl_data_spix s)\<rparr>;
     let cur = tl_cur_spix s;
     if tl_prev_spix s = cur then Some (Continue s)
     else do {
       (res, fs) \<leftarrow> (if tl_prev_spix s \<noteq> NO_IX then truncate_drop_prev fd s else Some (SPIFFS_OK, tl_fs s));
       if res < 0 then Some (Return (res, fs))
       else do {
         (res, pix, fs) \<leftarrow>
           (if cur = 0 then Some (SPIFFS_OK, objix_hdr_pix (fd_at fd fs), fs)
            else spiffs_obj_lu_find_id_and_span (fd_obj_id (fd_at fd fs) OR SPIFFS_OBJ_ID_IX_FLAG) cur 0 fs);
         if res < 0 then Some (Return (res, fs))
         else do {
           (res, fs) \<leftarrow> load_objix fd pix cur fs;
           if res < 0 then Some (Return (res, fs))
           else
             let fs = upd_fd fd (\<lambda>f. f\<lparr>cursor_objix_pix := pix, cursor_objix_spix := cur,
                        fd_offset := tl_cur_size s\<rparr>) fs
             in Some (Continue (s\<lparr>tl_objix_pix := pix, tl_prev_spix := cur, tl_res := res, tl_fs := fs\<rparr>))
         }
       }
     }
   }"

text \<open>Deleting a whole data page; \<open>Break\<close> carries the result that leaves the loop.\<close>

definition truncate_full :: "nat \<Rightarrow> nat \<Rightarrow> trunc_loop \<Rightarrow> (int \<times> spiffs, trunc_loop) flow option" where
  "truncate_full fd data_pix s = do {
     let D = SPIFFS_DATA_PAGE_SIZE (cfg (tl_fs s));
     (res, fs) \<leftarrow> spiffs_page_data_check fd data_pix (tl_data_spix s) (tl_fs s);
     if res \<noteq> SPIFFS_ERR_DELETED \<and> res \<noteq> SPIFFS_OK \<and> res \<noteq> SPIFFS_ERR_INDEX_REF_FREE
     then Some (Break (s\<lparr>tl_res := res, tl_fs := fs\<rparr>))
     else do {
       (res, fs) \<leftarrow> (if res = SPIFFS_OK then spiffs_page_delete data_pix fs else Some (SPIFFS_OK, fs));
       if res \<noteq> SPIFFS_OK then Some (Break (s\<lparr>tl_res := res, tl_fs := fs\<rparr>))
       else
         let sz = tl_cur_size s;
             sz = (if sz mod D = 0 then sub32 sz D else sz - sz mod D);
             fs = upd_fd fd (\<lambda>f. f\<lparr>fd_size := sz, fd_offset := sz\<rparr>) fs
         in Some (Continue (s\<lparr>tl_cur_size := sz, tl_data_spix := u16_of (tl_data_spix s + 65535),
                              tl_res := res, tl_fs := fs\<rparr>))
     }
   }"

definition truncate_partial :: "nat \<Rightarrow> nat \<Rightarrow> nat \<Rightarrow> trunc_loop \<Rightarrow> (int \<times> spiffs, trunc_loop) flow option" where
  "truncate_partial fd new_size data_pix s = do {
     let c = cfg (tl_fs s);
     let D = SPIFFS_DATA_PAGE_SIZE c;
     let bytes_to_remove = D - new_size mod D;
     let oid = fd_obj_id (fd_at fd (tl_fs s)) AND NOT SPIFFS_OBJ_ID_IX_FLAG;
     let stop = (\<lambda>res fs. Some (Break (s\<lparr>tl_res := res, tl_fs := fs\<rparr>)));
     (res, fs) \<leftarrow> spiffs_page_data_check fd data_pix (tl_data_spix s) (tl_fs s);
     if res \<noteq> SPIFFS_OK then stop res fs
     else do {
       (res, p_hdr, pix, fs) \<leftarrow> spiffs_page_allocate_data oid
          \<lparr>ph_obj_id = oid, ph_span_ix = tl_data_spix s, ph_flags = 0xff\<rparr> None 0 False fs;
       if res \<noteq> SPIFFS_OK then stop res fs
       else do {
         new_data_pix \<leftarrow> pix;
         (res, fs) \<leftarrow>
           and_then (spiffs_phys_cpy (add32 (SPIFFS_PAGE_TO_PADDR c new_data_pix) SIZEOF_PAGE_HEADER)
                       (add32 (SPIFFS_PAGE_TO_PADDR c data_pix) SIZEOF_PAGE_HEADER) (D - bytes_to_remove) fs) (\<lambda>fs.
           and_then (spiffs_page_delete data_pix fs) (\<lambda>fs.
           spiffs_phys_wr (OP_T_OBJ_DA OR OP_C_UPDT) (add32 (SPIFFS_PAGE_TO_PADDR c new_data_pix) OFFSETOF_FLAGS)
             [ph_flags p_hdr AND NOT PH_FLAG_FINAL] fs));
         if res \<noteq> SPIFFS_OK then stop res fs
         else do {
           fs \<leftarrow> objix_put (tl_cur_spix s) (tl_data_spix s) new_data_pix fs;
           let fs = upd_fd fd (\<lambda>f. f\<lparr>fd_size := new_size, fd_offset := new_size\<rparr>) fs;
           Some (Break (s\<lparr>tl_cur_size := new_size, tl_res := res, tl_fs := fs\<rparr>))
         }
       }
     }
   }"

definition truncate_page :: "nat \<Rightarrow> nat \<Rightarrow> bool \<Rightarrow> trunc_loop \<Rightarrow> (int \<times> spiffs, trunc_loop) flow option" where
  "truncate_page fd new_size remove s = do {
     data_pix \<leftarrow> objix_get (tl_cur_spix s) (tl_data_spix s) (tl_fs s);
     fs \<leftarrow> objix_put (tl_cur_spix s) (tl_data_spix s) NO_IX (tl_fs s);
     let s = s\<lparr>tl_fs := fs\<rparr>;
     if new_size = 0 \<or> remove \<or> tl_cur_size s - new_size \<ge> SPIFFS_DATA_PAGE_SIZE (cfg fs)
     then truncate_full fd data_pix s
     else truncate_partial fd new_size data_pix s
   }"

primrec truncate_loop :: "nat \<Rightarrow> nat \<Rightarrow> nat \<Rightarrow> bool \<Rightarrow> trunc_loop \<Rightarrow> (int \<times> spiffs, trunc_loop) flow option" where
  "truncate_loop 0 fd new_size remove s = None"
| "truncate_loop (Suc n) fd new_size remove s =
     (if tl_cur_size s \<le> new_size then Some (Continue s)
      else do {
        r \<leftarrow> truncate_index fd s;
        case r of
          Continue s \<Rightarrow> do {
            r \<leftarrow> truncate_page fd new_size remove s;
            case r of
              Continue s \<Rightarrow> truncate_loop n fd new_size remove s
            | _ \<Rightarrow> Some r
          }
        | _ \<Rightarrow> Some r
      })"

definition truncate_finish :: "nat \<Rightarrow> bool \<Rightarrow> trunc_loop \<Rightarrow> (int \<times> spiffs) option" where
  "truncate_finish fd remove s = do {
     let fs = tl_fs s;
     let oid = fd_obj_id (fd_at fd fs);
     let pix = tl_objix_pix s;
     (res, fs) \<leftarrow>
       (if tl_cur_spix s = 0 then
          if tl_cur_size s = 0 \<and> remove then do {
            (res, fs) \<leftarrow> spiffs_page_index_check fd pix 0 fs;
            if res < 0 then Some (res, fs)
            else do {
              (res, fs) \<leftarrow> spiffs_page_delete pix fs;
              Some (res, if res < 0 then fs
                         else spiffs_cb_object_event EV_IX_DEL (fd_obj_id (fd_at fd fs)) 0 pix 0 fs)
            }
          }
          else do {
            fs \<leftarrow> (if tl_cur_size s = 0
                   then work_put SIZEOF_OBJIX_HEADER
                          (replicate (log_page_size (cfg fs) - SIZEOF_OBJIX_HEADER) 0xff) fs
                   else Some fs);
            (res, _, fs) \<leftarrow> spiffs_object_update_index_hdr (Some fd) oid pix True None
               (if tl_cur_size s = 0 then SPIFFS_UNDEFINED_LEN else tl_cur_size s) fs;
            Some (res, fs)
          }
        else do {
          (res, fs) \<leftarrow> spiffs_page_index_check fd pix (tl_cur_spix s) fs;
          if res < 0 then Some (res, fs)
          else do {
            (res, dst, fs) \<leftarrow> spiffs_page_move True oid pix fs;
            if res < 0 then Some (res, fs)
            else do {
              new_pix \<leftarrow> dst;
              h \<leftarrow> work_header fs;
              let fs = spiffs_cb_object_event EV_IX_UPD oid (ph_span_ix h) new_pix 0 fs;
              let fs = upd_fd fd (\<lambda>f. f\<lparr>cursor_objix_pix := new_pix, cursor_objix_spix := tl_cur_spix s,
                         fd_offset := tl_cur_size s\<rparr>) fs;
              (res, _, fs) \<leftarrow> spiffs_object_update_index_hdr (Some fd) oid (objix_hdr_pix (fd_at fd fs)) False None
                 (tl_cur_size s) fs;
              Some (res, fs)
            }
          }
        });
     Some (res, if res < 0 then fs else upd_fd fd (fd_size_update (\<lambda>_. tl_cur_size s)) fs)
   }"

definition spiffs_object_truncate :: "nat \<Rightarrow> nat \<Rightarrow> bool \<Rightarrow> spiffs \<Rightarrow> (int \<times> spiffs) option" where
  "spiffs_object_truncate fd new_size remove fs = do {
     let D = SPIFFS_DATA_PAGE_SIZE (cfg fs);
     (res, fs) \<leftarrow> spiffs_gc_check (if remove then 0 else u32_of (D * 2)) fs;
     if res < 0 then Some (res, fs)
     else do {
       let sz = fd_size (fd_at fd fs);
       let pix = objix_hdr_pix (fd_at fd fs);
       let cur_size = (if sz = SPIFFS_UNDEFINED_LEN then 0 else sz);
       let flags = NOT (PH_FLAG_USED OR PH_FLAG_INDEX OR PH_FLAG_FINAL OR PH_FLAG_IXDELE);
       (res, fs) \<leftarrow>
         (if remove \<and> new_size = 0
          then spiffs_phys_wr (OP_T_OBJ_IX OR OP_C_UPDT)
                 (add32 (SPIFFS_PAGE_TO_PADDR (cfg fs) pix) OFFSETOF_FLAGS) [flags] fs
          else Some (res, fs));
       if res < 0 then Some (res, fs)
       else do {
         r \<leftarrow> truncate_loop (cur_size div D + 3) fd new_size remove
              \<lparr>tl_objix_pix = pix, tl_data_spix = u16_of ((if sz > 0 then sz - 1 else 0) div D),
               tl_cur_size = cur_size, tl_cur_spix = 0, tl_prev_spix = NO_IX, tl_res = res, tl_fs = fs\<rparr>;
         case r of
           Return x \<Rightarrow> Some x
         | Continue s \<Rightarrow> truncate_finish fd remove s
         | Break s \<Rightarrow> truncate_finish fd remove s
       }
     }
   }"

subsection \<open>Reading\<close>

text \<open>
  A pass of the loop, with the bytes delivered to \<open>dst\<close> so far; it goes on with the next offset, span
  index, loaded index page, bytes, result and file system.
\<close>

type_synonym read_state = "nat \<times> nat \<times> nat \<times> byte list \<times> int \<times> spiffs"

definition read_pass :: "nat \<Rightarrow> nat \<Rightarrow> nat \<Rightarrow> nat \<Rightarrow> nat \<Rightarrow> byte list \<Rightarrow> spiffs \<Rightarrow>
    (int \<times> byte list \<times> spiffs, read_state) flow option" where
  "read_pass fd end_offs cur_offset data_spix prev_spix dst fs = do {
     let c = cfg fs;
     let D = SPIFFS_DATA_PAGE_SIZE c;
     let cur = SPIFFS_OBJ_IX_ENTRY_SPAN_IX c data_spix;
     (res, fs) \<leftarrow>
       (if prev_spix = cur then Some (SPIFFS_OK, fs)
        else do {
          (res, pix, fs) \<leftarrow>
            (if cur = 0 then Some (SPIFFS_OK, objix_hdr_pix (fd_at fd fs), fs)
             else spiffs_obj_lu_find_id_and_span (fd_obj_id (fd_at fd fs) OR SPIFFS_OBJ_ID_IX_FLAG) cur 0 fs);
          if res < 0 then Some (res, fs)
          else do {
            (res, fs) \<leftarrow> load_objix fd pix cur fs;
            Some (res, if res < 0 then fs
                       else upd_fd fd (\<lambda>f. f\<lparr>fd_offset := cur_offset, cursor_objix_pix := pix,
                              cursor_objix_spix := cur\<rparr>) fs)
          }
        });
     if res < 0 then Some (Return (res, dst, fs))
     else do {
       data_pix \<leftarrow> objix_get cur data_spix fs;
       let len_to_read = min (min (end_offs - cur_offset) (D - cur_offset mod D)) (fd_size (fd_at fd fs));
       if len_to_read = 0 then Some (Return (SPIFFS_ERR_END_OF_OBJECT, dst, fs))
       else do {
         (res, fs) \<leftarrow> spiffs_page_data_check fd data_pix data_spix fs;
         if res < 0 then Some (Return (res, dst, fs))
         else do {
           (res, bs, fs) \<leftarrow> spiffs_phys_rd (OP_T_OBJ_DA OR OP_C_READ)
              (add32 (SPIFFS_PAGE_TO_PADDR c data_pix) (SIZEOF_PAGE_HEADER + cur_offset mod D)) len_to_read fs;
           if res < 0 then Some (Return (res, dst @ bs, fs))
           else Some (Continue (cur_offset + len_to_read, u16_of (data_spix + 1), cur, dst @ bs, res,
                  upd_fd fd (fd_offset_update (\<lambda>_. cur_offset + len_to_read)) fs))
         }
       }
     }
   }"

primrec read_loop :: "nat \<Rightarrow> nat \<Rightarrow> nat \<Rightarrow> nat \<Rightarrow> nat \<Rightarrow> nat \<Rightarrow> byte list \<Rightarrow> int \<Rightarrow> spiffs \<Rightarrow>
    (int \<times> byte list \<times> spiffs) option" where
  "read_loop 0 fd end_offs cur_offset data_spix prev_spix dst res fs = None"
| "read_loop (Suc n) fd end_offs cur_offset data_spix prev_spix dst res fs =
     (if end_offs \<le> cur_offset then Some (res, dst, fs)
      else do {
        r \<leftarrow> read_pass fd end_offs cur_offset data_spix prev_spix dst fs;
        case r of
          Return x \<Rightarrow> Some x
        | Break (_, _, _, dst, res, fs) \<Rightarrow> Some (res, dst, fs)
        | Continue (cur_offset, data_spix, prev_spix, dst, res, fs) \<Rightarrow>
            read_loop n fd end_offs cur_offset data_spix prev_spix dst res fs
      })"

definition spiffs_object_read :: "nat \<Rightarrow> nat \<Rightarrow> nat \<Rightarrow> spiffs \<Rightarrow> (int \<times> byte list \<times> spiffs) option" where
  "spiffs_object_read fd offset len fs =
     read_loop (len + 1) fd (add32 offset len) offset
       (u16_of (offset div SPIFFS_DATA_PAGE_SIZE (cfg fs))) NO_IX [] SPIFFS_OK fs"

subsection \<open>Finding a free object id\<close>

record spiffs_free_obj_id_state =
  min_obj_id :: u16
  max_obj_id :: u16
  compaction :: nat
  conflicting_name :: "byte list option"

text \<open>The object index header of an entry names a live object with the given name.\<close>

definition spiffs_obj_lu_find_free_obj_id_bitmap_v :: "byte list option \<Rightarrow> u16 visitor" where
  "spiffs_obj_lu_find_free_obj_id_bitmap_v name oid bix ix_entry min_id fs =
     (if oid = SPIFFS_OBJ_ID_FREE \<or> oid = SPIFFS_OBJ_ID_DELETED then Some (SPIFFS_VIS_COUNTINUE, min_id, fs)
      else do {
        (res, fs) \<leftarrow>
          (case name of
             Some nm \<Rightarrow>
               if oid AND SPIFFS_OBJ_ID_IX_FLAG = 0 then Some (SPIFFS_OK, fs)
               else do {
                 let pix = SPIFFS_OBJ_LOOKUP_ENTRY_TO_PIX (cfg fs) bix ix_entry;
                 (res, bs, fs) \<leftarrow> spiffs_phys_rd (OP_T_OBJ_LU2 OR OP_C_READ)
                    (SPIFFS_PAGE_TO_PADDR (cfg fs) pix) SIZEOF_OBJIX_HEADER fs;
                 let h = page_header_of bs;
                 if res < 0 then Some (res, fs)
                 else if ph_span_ix h = 0 \<and>
                    ph_flags h AND (PH_FLAG_DELET OR PH_FLAG_FINAL OR PH_FLAG_IXDELE) =
                      (PH_FLAG_DELET OR PH_FLAG_IXDELE)
                 then do {
                   eq \<leftarrow> strcmp_eq nm (drop OBJIX_NAME_OFFSET bs);
                   Some (if eq then SPIFFS_ERR_CONFLICTING_NAME else SPIFFS_OK, fs)
                 }
                 else Some (SPIFFS_OK, fs)
               }
           | None \<Rightarrow> Some (SPIFFS_OK, fs));
        if res < 0 then Some (res, min_id, fs)
        else
          let d = int (unat (oid AND NOT SPIFFS_OBJ_ID_IX_FLAG)) - int (unat min_id);
              bit_ix = nat (d mod 8);
              byte_ix = d div 8
          in if byte_ix \<ge> 0 \<and> nat byte_ix < log_page_size (cfg fs)
             then Some (SPIFFS_VIS_COUNTINUE, min_id,
                    fs\<lparr>work := (work fs)[nat byte_ix := (work fs ! nat byte_ix) OR push_bit bit_ix 1]\<rparr>)
             else Some (SPIFFS_VIS_COUNTINUE, min_id, fs)
      })"

text \<open>\<open>fs->work[ix]++\<close>: \<open>fs->lu_work\<close> follows \<open>fs->work\<close> in the caller's buffer.\<close>

definition work_count :: "nat \<Rightarrow> spiffs \<Rightarrow> spiffs option" where
  "work_count ix fs =
     (if ix < length (work fs) then Some (fs\<lparr>work := (work fs)[ix := work fs ! ix + 1]\<rparr>)
      else if ix < length (work fs) + length (lu_work fs) then
        let k = ix - length (work fs) in Some (fs\<lparr>lu_work := (lu_work fs)[k := lu_work fs ! k + 1]\<rparr>)
      else None)"

definition spiffs_obj_lu_find_free_obj_id_compact_v :: "spiffs_free_obj_id_state \<Rightarrow> unit visitor" where
  "spiffs_obj_lu_find_free_obj_id_compact_v st oid bix ix_entry u fs =
     (if oid = SPIFFS_OBJ_ID_FREE \<or> oid = SPIFFS_OBJ_ID_DELETED \<or> oid AND SPIFFS_OBJ_ID_IX_FLAG = 0
      then Some (SPIFFS_VIS_COUNTINUE, u, fs)
      else do {
        (res, bs, fs) \<leftarrow> spiffs_phys_rd (OP_T_OBJ_LU2 OR OP_C_READ)
           (SPIFFS_OBJ_LOOKUP_ENTRY_TO_PADDR (cfg fs) bix ix_entry) SIZEOF_OBJIX_HEADER fs;
        let h = page_header_of bs;
        if res = SPIFFS_OK \<and> ph_span_ix h = 0 \<and>
           ph_flags h AND (PH_FLAG_INDEX OR PH_FLAG_FINAL OR PH_FLAG_DELET) = PH_FLAG_DELET
        then do {
          eq \<leftarrow> (case conflicting_name st of
                  None \<Rightarrow> Some False
                | Some nm \<Rightarrow> strcmp_eq nm (drop OBJIX_NAME_OFFSET bs));
          if eq then Some (SPIFFS_ERR_CONFLICTING_NAME, u, fs)
          else do {
            let oid = oid AND NOT SPIFFS_OBJ_ID_IX_FLAG;
            fs \<leftarrow> (if min_obj_id st \<le> oid \<and> oid \<le> max_obj_id st
                   then work_count ((unat oid - unat (min_obj_id st)) div compaction st) fs
                   else Some fs);
            Some (SPIFFS_VIS_COUNTINUE, u, fs)
          }
        }
        else Some (SPIFFS_VIS_COUNTINUE, u, fs)
      })"

text \<open>The first clear bit of the map, and the first byte with the least count.\<close>

fun bitmap_free :: "nat \<Rightarrow> byte list \<Rightarrow> nat option" where
  "bitmap_free i [] = None"
| "bitmap_free i (b # bs) =
     (case filter (\<lambda>j. \<not> bit b j) [0..<8] of
        j # _ \<Rightarrow> Some (8 * i + j)
      | [] \<Rightarrow> bitmap_free (i + 1) bs)"

fun compact_min :: "nat \<Rightarrow> byte list \<Rightarrow> byte \<times> nat \<Rightarrow> byte \<times> nat" where
  "compact_min i [] acc = acc"
| "compact_min i (b # bs) acc =
     (if b < fst acc then if b = 0 then (b, i) else compact_min (i + 1) bs (b, i)
      else compact_min (i + 1) bs acc)"

definition ids_fit_bitmap :: "spiffs_config \<Rightarrow> spiffs_free_obj_id_state \<Rightarrow> bool" where
  "ids_fit_bitmap c st \<longleftrightarrow>
     int (unat (max_obj_id st)) - int (unat (min_obj_id st)) \<le> int (u16_of (log_page_size c)) * 8"

definition free_id_bitmap :: "byte list option \<Rightarrow> spiffs_free_obj_id_state \<Rightarrow> spiffs \<Rightarrow>
    (int \<times> u16 option \<times> spiffs) option" where
  "free_id_bitmap name st fs = do {
     let fs = fs\<lparr>work := replicate (log_page_size (cfg fs)) 0\<rparr>;
     (res, _, _, fs) \<leftarrow> spiffs_obj_lu_find_entry_visitor 0 0 0 0
        (Some (spiffs_obj_lu_find_free_obj_id_bitmap_v name)) (min_obj_id st) fs;
     let res = (if res = SPIFFS_VIS_END then SPIFFS_OK else res);
     if res < 0 then Some (res, None, fs)
     else case bitmap_free 0 (work fs) of
            Some k \<Rightarrow> Some (SPIFFS_OK, Some (of_nat k + min_obj_id st), fs)
          | None \<Rightarrow> Some (SPIFFS_ERR_FULL, None, fs)
   }"

definition free_id_compact :: "spiffs_free_obj_id_state \<Rightarrow> spiffs \<Rightarrow>
    (int \<times> spiffs_free_obj_id_state \<times> spiffs) option" where
  "free_id_compact st fs = do {
     let st = st\<lparr>compaction := (unat (max_obj_id st) - unat (min_obj_id st)) div log_page_size (cfg fs)\<rparr>;
     let fs = fs\<lparr>work := replicate (log_page_size (cfg fs)) 0\<rparr>;
     (res, _, _, fs) \<leftarrow> spiffs_obj_lu_find_entry_visitor 0 0 0 0
        (Some (spiffs_obj_lu_find_free_obj_id_compact_v st)) () fs;
     Some (if res = SPIFFS_VIS_END then SPIFFS_OK else res, st\<lparr>conflicting_name := None\<rparr>, fs)
   }"

fun free_obj_id_loop :: "nat \<Rightarrow> byte list option \<Rightarrow> spiffs_free_obj_id_state \<Rightarrow> int \<Rightarrow> spiffs \<Rightarrow>
    (int \<times> u16 option \<times> spiffs) option" where
  "free_obj_id_loop 0 name st res fs = None"
| "free_obj_id_loop (Suc n) name st res fs =
     (if res \<noteq> SPIFFS_OK then Some (res, None, fs)
      else if ids_fit_bitmap (cfg fs) st then free_id_bitmap name st fs
      else
        let (min_count, min_i) = compact_min 0 (work fs) (0xff, 0);
            recompact = (\<lambda>st. do {
              (res, st, fs) \<leftarrow> free_id_compact st fs;
              if res < 0 then Some (res, None, fs) else free_obj_id_loop n name st res fs
            })
        in if compaction st = 0 then recompact st
           else if unat min_count = compaction st then Some (SPIFFS_ERR_FULL, None, fs)
           else if min_count = 0
           then Some (SPIFFS_OK, Some (of_nat (min_i * compaction st) + min_obj_id st), fs)
           else
             let lo = min_obj_id st + of_nat (min_i * compaction st);
                 st = st\<lparr>min_obj_id := lo, max_obj_id := lo + of_nat (compaction st)\<rparr>
             in if ids_fit_bitmap (cfg fs) st then free_obj_id_loop n name st res fs else recompact st)"

definition spiffs_obj_lu_find_free_obj_id ::
    "byte list option \<Rightarrow> spiffs \<Rightarrow> (int \<times> u16 option \<times> spiffs) option" where
  "spiffs_obj_lu_find_free_obj_id name fs =
     (let max_objects = u32_of (block_count fs * SPIFFS_OBJ_LOOKUP_MAX_ENTRIES (cfg fs)) div 2;
          m = of_nat (max_objects + 1);
          m = (if m AND SPIFFS_OBJ_ID_IX_FLAG \<noteq> 0 then 0xffff AND NOT SPIFFS_OBJ_ID_IX_FLAG else m)
      in free_obj_id_loop 40 name
           \<lparr>min_obj_id = 1, max_obj_id = m, compaction = 0, conflicting_name = name\<rparr> SPIFFS_OK fs)"

end
