(* ===== verification/Spiffs_Api.thy ===== *)
theory Spiffs_Api
  imports Spiffs_Modify
begin

section \<open>SPIFFS: the public interface\<close>

text \<open>
  \<open>spiffs_hydrogen.c\<close>. A function that fails stores the code in \<open>err_code\<close> and returns -1; the
  locking macros are empty in this configuration. Data buffers are lists of bytes, so their
  length is the \<open>len\<close> argument. \<open>SPIFFS_mount\<close> gets the contents of the caller's buffers and the
  low address bits of the descriptor and cache buffers, on which the alignment depends.
\<close>

subsection \<open>Guards\<close>

definition api_fail :: "int \<Rightarrow> spiffs \<Rightarrow> int \<times> spiffs" where
  "api_fail code fs = (- 1, fs\<lparr>err_code := code\<rparr>)"

text \<open>\<open>SPIFFS_API_CHECK_CFG\<close> and \<open>SPIFFS_API_CHECK_MOUNT\<close>: the code they fail with, if any.\<close>

definition api_guard :: "spiffs \<Rightarrow> int option" where
  "api_guard fs =
     (if config_magic fs \<noteq> SPIFFS_CONFIG_MAGIC then Some SPIFFS_ERR_NOT_CONFIGURED
      else if \<not> mounted fs then Some SPIFFS_ERR_NOT_MOUNTED else None)"

text \<open>\<open>SPIFFS_API_CHECK_RES\<close> as the last statement before a return of \<open>r\<close>.\<close>

definition api_result :: "int \<Rightarrow> int \<Rightarrow> spiffs \<Rightarrow> int \<times> spiffs" where
  "api_result res r fs = (if res < 0 then api_fail res fs else (r, fs))"

definition SPIFFS_mounted :: "spiffs \<Rightarrow> bool" where
  "SPIFFS_mounted fs = mounted fs"

definition SPIFFS_errno :: "spiffs \<Rightarrow> int" where
  "SPIFFS_errno fs = err_code fs"

definition SPIFFS_clearerr :: "spiffs \<Rightarrow> spiffs" where
  "SPIFFS_clearerr fs = fs\<lparr>err_code := SPIFFS_OK\<rparr>"

definition SIZEOF_FD :: nat where [c_defs]: "SIZEOF_FD = 36"

definition SPIFFS_buffer_bytes_for_filedescs :: "nat \<Rightarrow> nat" where
  "SPIFFS_buffer_bytes_for_filedescs num_descs = u32_of (num_descs * SIZEOF_FD)"

definition SPIFFS_buffer_bytes_for_cache :: "spiffs \<Rightarrow> nat \<Rightarrow> nat" where
  "SPIFFS_buffer_bytes_for_cache fs num_pages =
     add32 SIZEOF_CACHE (num_pages * SPIFFS_CACHE_PAGE_SIZE (cfg fs))"

subsection \<open>Formatting and mounting\<close>

primrec format_blocks :: "nat list \<Rightarrow> spiffs \<Rightarrow> (int \<times> spiffs) option" where
  "format_blocks [] fs = Some (0, fs)"
| "format_blocks (bix # bs) fs = do {
     (res, fs) \<leftarrow> spiffs_erase_block bix (fs\<lparr>max_erase_count := 0\<rparr>);
     if res \<noteq> SPIFFS_OK then Some (api_fail SPIFFS_ERR_ERASE_FAIL fs) else format_blocks bs fs
   }"

definition SPIFFS_format :: "spiffs \<Rightarrow> (int \<times> spiffs) option" where
  "SPIFFS_format fs =
     (if config_magic fs \<noteq> SPIFFS_CONFIG_MAGIC then Some (api_fail SPIFFS_ERR_NOT_CONFIGURED fs)
      else if mounted fs then Some (api_fail SPIFFS_ERR_MOUNTED fs)
      else if block_count fs > 65535 then None
      else format_blocks [0..<block_count fs] fs)"

definition blank_fd :: spiffs_fd where
  "blank_fd = \<lparr>file_nbr = 0, fd_obj_id = 0, fd_size = 0, objix_hdr_pix = 0, cursor_objix_pix = 0,
     cursor_objix_spix = 0, fd_offset = 0, fdoffset = 0, fd_flags = 0, cache_page = None\<rparr>"

text \<open>The size of a buffer after its start has been moved to the next multiple of four.\<close>

definition align_buffer :: "nat \<Rightarrow> nat \<Rightarrow> nat" where
  "align_buffer addr_lsb sz = (if addr_lsb mod 4 \<noteq> 0 then sub32 sz (4 - addr_lsb mod 4) else sz)"

definition SPIFFS_mount ::
    "spiffs_config \<Rightarrow> byte list \<Rightarrow> nat \<Rightarrow> nat \<Rightarrow> spiffs_cache option \<Rightarrow> nat \<Rightarrow> nat \<Rightarrow> spiffs \<Rightarrow>
     (int \<times> spiffs) option" where
  "SPIFFS_mount config work_buf fd_lsb fd_space_size cache_mem cache_lsb cache_bytes fs = do {
     let page = log_page_size config;
     w \<leftarrow> buf_slice 0 page work_buf;
     lw \<leftarrow> buf_slice page page work_buf;
     let cb = align_buffer cache_lsb cache_bytes;
     let cb = cb - cb mod 4;
     let fs = \<lparr>cfg = config, block_count = phys_size config div log_block_size config,
        free_cursor_block_ix = 0, free_cursor_obj_lu_entry = 0, cursor_block_ix = 0, cursor_obj_lu_entry = 0,
        lu_work = lw, work = w,
        fd_space = replicate (align_buffer fd_lsb fd_space_size div SIZEOF_FD) blank_fd,
        err_code = 0, free_blocks = 0, stats_p_allocated = 0, stats_p_deleted = 0, cleaning = False,
        max_erase_count = 0, cache = cache_mem,
        cache_size = (if cb > u32_of (page * 32) then u32_of (page * 32) else cb),
        mounted = False, config_magic = 0, flash = flash fs, junk = junk fs\<rparr>;
     let fs = spiffs_cache_init fs;
     if \<not> SPIFFS_CHECK_MAGIC_POSSIBLE config then Some (api_fail SPIFFS_ERR_MAGIC_NOT_POSSIBLE fs)
     else do {
       (res, fs) \<leftarrow> spiffs_obj_lu_scan (fs\<lparr>config_magic := SPIFFS_CONFIG_MAGIC\<rparr>);
       if res < 0 then Some (api_fail res fs) else Some (0, fs\<lparr>mounted := True\<rparr>)
     }
   }"

subsection \<open>Writing through to the object layer\<close>

definition spiffs_hydro_write :: "nat \<Rightarrow> byte list \<Rightarrow> nat \<Rightarrow> spiffs \<Rightarrow> (int \<times> spiffs) option" where
  "spiffs_hydro_write fd buf offset fs = do {
     let len = length buf;
     let sz = fd_size (fd_at fd fs);
     let m_len = (if sz \<noteq> SPIFFS_UNDEFINED_LEN \<and> offset < sz then min (sz - offset) len else 0);
     (res, fs) \<leftarrow> (if sz \<noteq> SPIFFS_UNDEFINED_LEN \<and> offset < sz
                   then spiffs_object_modify fd offset (take m_len buf) fs else Some (SPIFFS_OK, fs));
     if res < 0 then Some (res, fs)
     else if len - m_len > 0 then do {
       (res, fs) \<leftarrow> spiffs_object_append fd (add32 offset m_len) (drop m_len buf) fs;
       Some (if res < 0 then res else int len, fs)
     }
     else Some (int len, fs)
   }"

definition cpage_at :: "nat \<Rightarrow> spiffs \<Rightarrow> spiffs_cache_page option" where
  "cpage_at i fs = do { c \<leftarrow> cache fs; if i < length (cpages c) then Some (cpages c ! i) else None }"

text \<open>Writing back a cached page of a descriptor and releasing it.\<close>

definition write_back_cpage :: "nat \<Rightarrow> nat \<Rightarrow> spiffs \<Rightarrow> (int \<times> spiffs) option" where
  "write_back_cpage fd i fs = do {
     cp \<leftarrow> cpage_at i fs;
     bs \<leftarrow> buf_slice 0 (cp_size cp) (cp_data cp);
     (res, fs) \<leftarrow> spiffs_hydro_write fd bs (cp_offset cp) fs;
     fs \<leftarrow> spiffs_cache_fd_release (cache_page (fd_at fd fs)) fs;
     Some (res, fs)
   }"

text \<open>\<open>if (fd->cache_page == 0) fd->cache_page = spiffs_cache_page_get_by_fd(fs, fd)\<close>\<close>

definition adopt_cpage :: "nat \<Rightarrow> spiffs \<Rightarrow> spiffs option" where
  "adopt_cpage fd fs =
     (if cache_page (fd_at fd fs) = None then do {
        cp \<leftarrow> spiffs_cache_page_get_by_fd fd fs;
        Some (upd_fd fd (cache_page_update (\<lambda>_. cp)) fs)
      }
      else Some fs)"

definition spiffs_fflush_cache :: "int \<Rightarrow> spiffs \<Rightarrow> (int \<times> spiffs) option" where
  "spiffs_fflush_cache fh fs =
     (case spiffs_fd_get fh fs of (res, fd) \<Rightarrow>
        if res < 0 then Some (api_fail res fs)
        else if fd_flags (fd_at fd fs) AND SPIFFS_DIRECT \<noteq> 0 then Some (res, fs)
        else do {
          fs \<leftarrow> adopt_cpage fd fs;
          case cache_page (fd_at fd fs) of
            None \<Rightarrow> Some (res, fs)
          | Some i \<Rightarrow> do {
              cp \<leftarrow> cpage_at i fs;
              bs \<leftarrow> buf_slice 0 (cp_size cp) (cp_data cp);
              (res, fs) \<leftarrow> spiffs_hydro_write fd bs (cp_offset cp) fs;
              let fs = (if res < 0 then fs\<lparr>err_code := res\<rparr> else fs);
              fs \<leftarrow> spiffs_cache_fd_release (cache_page (fd_at fd fs)) fs;
              Some (res, fs)
            }
        })"

primrec unmount_fds :: "nat list \<Rightarrow> spiffs \<Rightarrow> spiffs option" where
  "unmount_fds [] fs = Some fs"
| "unmount_fds (i # is) fs =
     (if file_nbr (fd_at i fs) \<noteq> 0 then do {
        (_, fs) \<leftarrow> spiffs_fflush_cache (file_nbr (fd_at i fs)) fs;
        unmount_fds is (snd (spiffs_fd_return (file_nbr (fd_at i fs)) fs))
      }
      else unmount_fds is fs)"

definition SPIFFS_unmount :: "spiffs \<Rightarrow> spiffs option" where
  "SPIFFS_unmount fs =
     (if config_magic fs \<noteq> SPIFFS_CONFIG_MAGIC \<or> \<not> mounted fs then Some fs
      else do {
        fs \<leftarrow> unmount_fds [0..<length (fd_space fs)] fs;
        Some (fs\<lparr>mounted := False\<rparr>)
      })"

subsection \<open>Creating and opening files\<close>

definition SPIFFS_creat :: "byte list \<Rightarrow> spiffs \<Rightarrow> (int \<times> spiffs) option" where
  "SPIFFS_creat path fs =
     (case api_guard fs of Some e \<Rightarrow> Some (api_fail e fs) | None \<Rightarrow> do {
        (res, obj_id, fs) \<leftarrow> spiffs_obj_lu_find_free_obj_id (Some path) fs;
        if res < 0 then Some (api_fail res fs)
        else do {
          oid \<leftarrow> obj_id;
          (res, _, fs) \<leftarrow> spiffs_object_create oid path SPIFFS_TYPE_FILE fs;
          Some (api_result res 0 fs)
        }
      })"

text \<open>Giving a descriptor back on failure.\<close>

definition open_fail :: "nat \<Rightarrow> int \<Rightarrow> spiffs \<Rightarrow> int \<times> spiffs" where
  "open_fail fd res fs = api_fail res (snd (spiffs_fd_return (file_nbr (fd_at fd fs)) fs))"

text \<open>\<open>SPIFFS_remove\<close> and \<open>SPIFFS_rename\<close> give it back whenever the result is not \<open>SPIFFS_OK\<close>.\<close>

definition return_unless_ok :: "nat \<Rightarrow> int \<Rightarrow> spiffs \<Rightarrow> spiffs" where
  "return_unless_ok fd res fs =
     (if res \<noteq> SPIFFS_OK then snd (spiffs_fd_return (file_nbr (fd_at fd fs)) fs) else fs)"

text \<open>The common end of \<open>SPIFFS_open\<close> and \<open>SPIFFS_open_by_dirent\<close>.\<close>

definition open_page :: "nat \<Rightarrow> nat \<Rightarrow> u16 \<Rightarrow> spiffs \<Rightarrow> (int \<times> spiffs) option" where
  "open_page pix fd flags fs = do {
     (res, fs) \<leftarrow> spiffs_object_open_by_page pix fd flags fs;
     if res < 0 then Some (open_fail fd res fs)
     else do {
       (res, fs) \<leftarrow> (if flags AND SPIFFS_TRUNC \<noteq> 0 then spiffs_object_truncate fd 0 False fs
                     else Some (SPIFFS_OK, fs));
       if res < 0 then Some (open_fail fd res fs)
       else
         let fs = upd_fd fd (fdoffset_update (\<lambda>_. 0)) fs in
         Some (file_nbr (fd_at fd fs), fs)
     }
   }"

definition SPIFFS_open :: "byte list \<Rightarrow> u16 \<Rightarrow> spiffs \<Rightarrow> (int \<times> spiffs) option" where
  "SPIFFS_open path flags fs =
     (case api_guard fs of Some e \<Rightarrow> Some (api_fail e fs) | None \<Rightarrow>
      (case spiffs_fd_find_new fs of
         (res, None, fs) \<Rightarrow> Some (api_fail res fs)
       | (_, Some fd, fs) \<Rightarrow> do {
           (res, pix, fs) \<leftarrow> spiffs_object_find_object_index_header_by_name path fs;
           if flags AND SPIFFS_CREAT = 0 \<and> res < 0 then Some (open_fail fd res fs)
           else if res = SPIFFS_OK \<and>
              flags AND (SPIFFS_CREAT OR SPIFFS_EXCL) = (SPIFFS_CREAT OR SPIFFS_EXCL)
           then Some (open_fail fd SPIFFS_ERR_FILE_EXISTS fs)
           else if flags AND SPIFFS_CREAT \<noteq> 0 \<and> res = SPIFFS_ERR_NOT_FOUND then do {
             (res, obj_id, fs) \<leftarrow> spiffs_obj_lu_find_free_obj_id None fs;
             if res < 0 then Some (open_fail fd res fs)
             else do {
               oid \<leftarrow> obj_id;
               (res, pix, fs) \<leftarrow> spiffs_object_create oid path SPIFFS_TYPE_FILE fs;
               if res < 0 then Some (open_fail fd res fs)
               else do {
                 p \<leftarrow> pix;
                 open_page p fd (flags AND NOT SPIFFS_TRUNC) fs
               }
             }
           }
           else if res < 0 then Some (open_fail fd res fs)
           else open_page pix fd flags fs
         }))"

record spiffs_dirent =
  de_obj_id :: u16
  de_name :: "byte list"
  de_type :: byte
  de_size :: nat
  de_pix :: nat

definition SPIFFS_open_by_dirent :: "spiffs_dirent \<Rightarrow> u16 \<Rightarrow> spiffs \<Rightarrow> (int \<times> spiffs) option" where
  "SPIFFS_open_by_dirent e flags fs =
     (case api_guard fs of Some err \<Rightarrow> Some (api_fail err fs) | None \<Rightarrow>
      (case spiffs_fd_find_new fs of
         (res, None, fs) \<Rightarrow> Some (api_fail res fs)
       | (_, Some fd, fs) \<Rightarrow> open_page (de_pix e) fd flags fs))"

subsection \<open>Reading, writing and seeking\<close>

definition SPIFFS_read :: "int \<Rightarrow> nat \<Rightarrow> spiffs \<Rightarrow> (int \<times> byte list \<times> spiffs) option" where
  "SPIFFS_read fh len fs =
     (let fail = (\<lambda>e bs fs. Some (- 1, bs, fs\<lparr>err_code := e\<rparr>)) in
      case api_guard fs of Some e \<Rightarrow> fail e [] fs | None \<Rightarrow>
      (case spiffs_fd_get fh fs of (res, fd) \<Rightarrow>
         if res < 0 then fail res [] fs
         else if fd_flags (fd_at fd fs) AND SPIFFS_RDONLY = 0 then fail SPIFFS_ERR_NOT_READABLE [] fs
         else if fd_size (fd_at fd fs) = SPIFFS_UNDEFINED_LEN \<and> len > 0 then fail SPIFFS_ERR_END_OF_OBJECT [] fs
         else do {
           (_, fs) \<leftarrow> spiffs_fflush_cache fh fs;
           let offs = fdoffset (fd_at fd fs);
           let sz = fd_size (fd_at fd fs);
           if add32 offs len \<ge> sz then do {
             let avail = s32_of (sub32 sz offs);
             if avail \<le> 0 then fail SPIFFS_ERR_END_OF_OBJECT [] fs
             else do {
               (res, bs, fs) \<leftarrow> spiffs_object_read fd offs (nat avail) fs;
               if res < 0 \<and> res \<noteq> SPIFFS_ERR_END_OF_OBJECT then fail res bs fs
               else Some (avail, bs, upd_fd fd (fdoffset_update (\<lambda>off. add32 off (nat avail))) fs)
             }
           }
           else do {
             (res, bs, fs) \<leftarrow> spiffs_object_read fd offs len fs;
             if res < 0 then fail res bs fs
             else Some (int len, bs, upd_fd fd (fdoffset_update (\<lambda>off. add32 off len)) fs)
           }
         }))"

text \<open>The small write: into the cache page of the descriptor when there is one.\<close>

definition write_small :: "nat \<Rightarrow> byte list \<Rightarrow> nat \<Rightarrow> spiffs \<Rightarrow> (int \<times> spiffs) option" where
  "write_small fd buf offset fs = do {
     let page = log_page_size (cfg fs);
     let len = length buf;
     (res, alloc_cpage, fs) \<leftarrow>
       (case cache_page (fd_at fd fs) of
          None \<Rightarrow> Some (SPIFFS_OK, True, fs)
        | Some i \<Rightarrow> do {
            cp \<leftarrow> cpage_at i fs;
            if offset < cp_offset cp \<or> offset > add32 (cp_offset cp) (cp_size cp) \<or>
               add32 offset len > add32 (cp_offset cp) page
            then do {
              (res, fs) \<leftarrow> write_back_cpage fd i fs;
              Some (res, True, fs)
            }
            else Some (SPIFFS_OK, False, fs)
          });
     if res < 0 then Some (api_fail res fs)
     else do {
       fs \<leftarrow>
         (if alloc_cpage then do {
            (cp, fs) \<leftarrow> spiffs_cache_page_allocate_by_fd fd fs;
            let fs = upd_fd fd (cache_page_update (\<lambda>_. cp)) fs;
            case cp of
              None \<Rightarrow> Some fs
            | Some i \<Rightarrow> do {
                c \<leftarrow> cache fs;
                Some (fs\<lparr>cache := Some (upd_cp i (\<lambda>p. p\<lparr>cp_offset := offset, cp_size := 0\<rparr>) c)\<rparr>)
              }
          }
          else Some fs);
       case cache_page (fd_at fd fs) of
         Some i \<Rightarrow> do {
           cp \<leftarrow> cpage_at i fs;
           c \<leftarrow> cache fs;
           let offset_in_cpage = sub32 offset (cp_offset cp);
           d \<leftarrow> buf_write offset_in_cpage buf (cp_data cp);
           let n = u16_of (max (cp_size cp) (add32 offset_in_cpage len));
           let fs = fs\<lparr>cache := Some (upd_cp i (\<lambda>p. p\<lparr>cp_data := d, cp_size := n\<rparr>) c)\<rparr>;
           Some (int len, upd_fd fd (fdoffset_update (\<lambda>off. add32 off len)) fs)
         }
       | None \<Rightarrow> do {
           (res, fs) \<leftarrow> spiffs_hydro_write fd buf offset fs;
           if res < 0 then Some (api_fail res fs)
           else Some (res, upd_fd fd (fdoffset_update (\<lambda>off. add32 off len)) fs)
         }
     }
   }"

text \<open>The big write: the cached page is written back first, then the data; the code goes on to
  write the data once more.\<close>

definition write_big :: "nat \<Rightarrow> byte list \<Rightarrow> nat \<Rightarrow> spiffs \<Rightarrow> (int \<times> spiffs) option" where
  "write_big fd buf offset fs =
     (case cache_page (fd_at fd fs) of
        None \<Rightarrow> Some (SPIFFS_OK, fs)
      | Some i \<Rightarrow> do {
          (res, fs) \<leftarrow> write_back_cpage fd i fs;
          if res < 0 then Some (res, fs) else spiffs_hydro_write fd buf offset fs
        })"

definition write_offset :: "nat \<Rightarrow> spiffs \<Rightarrow> nat option" where
  "write_offset fd fs =
     (let f = fd_at fd fs in
      if fd_flags f AND SPIFFS_APPEND = 0 then Some (fdoffset f)
      else
        let offset = (if fd_size f = SPIFFS_UNDEFINED_LEN then 0 else fd_size f) in
        case cache_page f of
          None \<Rightarrow> Some offset
        | Some i \<Rightarrow> do { cp \<leftarrow> cpage_at i fs; Some (max offset (add32 (cp_offset cp) (cp_size cp))) })"

definition SPIFFS_write :: "int \<Rightarrow> byte list \<Rightarrow> spiffs \<Rightarrow> (int \<times> spiffs) option" where
  "SPIFFS_write fh buf fs =
     (case api_guard fs of Some e \<Rightarrow> Some (api_fail e fs) | None \<Rightarrow>
      (case spiffs_fd_get fh fs of (res, fd) \<Rightarrow>
         if res < 0 then Some (api_fail res fs)
         else if fd_flags (fd_at fd fs) AND SPIFFS_WRONLY = 0 then Some (api_fail SPIFFS_ERR_NOT_WRITABLE fs)
         else do {
           fs \<leftarrow> adopt_cpage fd fs;
           offset \<leftarrow> write_offset fd fs;
           if fd_flags (fd_at fd fs) AND SPIFFS_DIRECT = 0 \<and>
              int (length buf) < s32_of (log_page_size (cfg fs))
           then write_small fd buf offset fs
           else do {
             (res, fs) \<leftarrow> (if fd_flags (fd_at fd fs) AND SPIFFS_DIRECT = 0
                           then write_big fd buf offset fs else Some (SPIFFS_OK, fs));
             if res < 0 then Some (api_fail res fs)
             else do {
               (res, fs) \<leftarrow> spiffs_hydro_write fd buf offset fs;
               if res < 0 then Some (api_fail res fs)
               else Some (res, upd_fd fd (fdoffset_update (\<lambda>off. add32 off (length buf))) fs)
             }
           }
         }))"

definition s32_wrap :: "int \<Rightarrow> int" where
  "s32_wrap i = s32_of (u32_of_int i)"

definition SPIFFS_lseek :: "int \<Rightarrow> int \<Rightarrow> spiffs_whence \<Rightarrow> spiffs \<Rightarrow> (int \<times> spiffs) option" where
  "SPIFFS_lseek fh offs whence fs =
     (case api_guard fs of Some e \<Rightarrow> Some (api_fail e fs) | None \<Rightarrow>
      (case spiffs_fd_get fh fs of (res, fd) \<Rightarrow>
         if res < 0 then Some (api_fail res fs)
         else do {
           (_, fs) \<leftarrow> spiffs_fflush_cache fh fs;
           let f = fd_at fd fs;
           let offs = (case whence of
                 SPIFFS_SEEK_SET \<Rightarrow> offs
               | SPIFFS_SEEK_CUR \<Rightarrow> s32_wrap (int (fdoffset f) + offs)
               | SPIFFS_SEEK_END \<Rightarrow>
                   s32_wrap (int (if fd_size f = SPIFFS_UNDEFINED_LEN then 0 else fd_size f) + offs));
           if offs > s32_of (fd_size f) then Some (api_fail SPIFFS_ERR_END_OF_OBJECT fs)
           else do {
             let data_spix = u16_of (u32_of_int offs div SPIFFS_DATA_PAGE_SIZE (cfg fs));
             let objix_spix = SPIFFS_OBJ_IX_ENTRY_SPAN_IX (cfg fs) data_spix;
             (res, fs) \<leftarrow>
               (if cursor_objix_spix f = objix_spix then Some (SPIFFS_OK, fs)
                else do {
                  (res, pix, fs) \<leftarrow> spiffs_obj_lu_find_id_and_span
                     (fd_obj_id f OR SPIFFS_OBJ_ID_IX_FLAG) objix_spix 0 fs;
                  Some (res, if res < 0 then fs
                     else upd_fd fd (\<lambda>f. f\<lparr>cursor_objix_spix := objix_spix, cursor_objix_pix := pix\<rparr>) fs)
                });
             if res < 0 then Some (api_fail res fs)
             else Some (offs, upd_fd fd (fdoffset_update (\<lambda>_. u32_of_int offs)) fs)
           }
         }))"

subsection \<open>Removing, renaming and querying files\<close>

definition SPIFFS_remove :: "byte list \<Rightarrow> spiffs \<Rightarrow> (int \<times> spiffs) option" where
  "SPIFFS_remove path fs =
     (case api_guard fs of Some e \<Rightarrow> Some (api_fail e fs) | None \<Rightarrow>
      (case spiffs_fd_find_new fs of
         (res, None, fs) \<Rightarrow> Some (api_fail res fs)
       | (_, Some fd, fs) \<Rightarrow> do {
           (res, pix, fs) \<leftarrow> spiffs_object_find_object_index_header_by_name path fs;
           let fs = return_unless_ok fd res fs;
           if res < 0 then Some (api_fail res fs)
           else do {
             (res, fs) \<leftarrow> spiffs_object_open_by_page pix fd 0 fs;
             let fs = return_unless_ok fd res fs;
             if res < 0 then Some (api_fail res fs)
             else do {
               (res, fs) \<leftarrow> spiffs_object_truncate fd 0 True fs;
               let fs = return_unless_ok fd res fs;
               Some (api_result res 0 fs)
             }
           }
         }))"

definition SPIFFS_fremove :: "int \<Rightarrow> spiffs \<Rightarrow> (int \<times> spiffs) option" where
  "SPIFFS_fremove fh fs =
     (case api_guard fs of Some e \<Rightarrow> Some (api_fail e fs) | None \<Rightarrow>
      (case spiffs_fd_get fh fs of (res, fd) \<Rightarrow>
         if res < 0 then Some (api_fail res fs)
         else if fd_flags (fd_at fd fs) AND SPIFFS_WRONLY = 0 then Some (api_fail SPIFFS_ERR_NOT_WRITABLE fs)
         else do {
           fs \<leftarrow> spiffs_cache_fd_release (cache_page (fd_at fd fs)) fs;
           (res, fs) \<leftarrow> spiffs_object_truncate fd 0 True fs;
           Some (api_result res 0 fs)
         }))"

record spiffs_stat =
  st_obj_id :: u16
  st_size :: nat
  st_type :: byte
  st_name :: "byte list"

definition spiffs_stat_pix :: "nat \<Rightarrow> spiffs \<Rightarrow> (int \<times> spiffs_stat option \<times> spiffs) option" where
  "spiffs_stat_pix pix fs = do {
     (res, bs, fs) \<leftarrow> spiffs_phys_rd (OP_T_OBJ_IX OR OP_C_READ) (SPIFFS_PAGE_TO_PADDR (cfg fs) pix)
                        SIZEOF_OBJIX_HEADER fs;
     if res < 0 then Some (- 1, None, fs\<lparr>err_code := res\<rparr>)
     else do {
       let h = objix_header_of bs;
       (res, obj_id, fs) \<leftarrow> rd_id (OP_T_OBJ_LU OR OP_C_READ) (lu_page_paddr (cfg fs) pix) fs;
       if res < 0 then Some (- 1, None, fs\<lparr>err_code := res\<rparr>)
       else Some (res, Some \<lparr>st_obj_id = obj_id,
              st_size = (if oh_size h = SPIFFS_UNDEFINED_LEN then 0 else oh_size h),
              st_type = oh_type h, st_name = strncpy_name (oh_name h)\<rparr>, fs)
     }
   }"

definition SPIFFS_stat :: "byte list \<Rightarrow> spiffs \<Rightarrow> (int \<times> spiffs_stat option \<times> spiffs) option" where
  "SPIFFS_stat path fs =
     (case api_guard fs of Some e \<Rightarrow> Some (- 1, None, fs\<lparr>err_code := e\<rparr>) | None \<Rightarrow> do {
        (res, pix, fs) \<leftarrow> spiffs_object_find_object_index_header_by_name path fs;
        if res < 0 then Some (- 1, None, fs\<lparr>err_code := res\<rparr>) else spiffs_stat_pix pix fs
      })"

definition SPIFFS_fstat :: "int \<Rightarrow> spiffs \<Rightarrow> (int \<times> spiffs_stat option \<times> spiffs) option" where
  "SPIFFS_fstat fh fs =
     (case api_guard fs of Some e \<Rightarrow> Some (- 1, None, fs\<lparr>err_code := e\<rparr>) | None \<Rightarrow>
      (case spiffs_fd_get fh fs of (res, fd) \<Rightarrow>
         if res < 0 then Some (- 1, None, fs\<lparr>err_code := res\<rparr>)
         else do {
           (_, fs) \<leftarrow> spiffs_fflush_cache fh fs;
           spiffs_stat_pix (objix_hdr_pix (fd_at fd fs)) fs
         }))"

definition SPIFFS_fflush :: "int \<Rightarrow> spiffs \<Rightarrow> (int \<times> spiffs) option" where
  "SPIFFS_fflush fh fs =
     (case api_guard fs of Some e \<Rightarrow> Some (api_fail e fs) | None \<Rightarrow> do {
        (res, fs) \<leftarrow> spiffs_fflush_cache fh fs;
        Some (api_result res res fs)
      })"

definition SPIFFS_close :: "int \<Rightarrow> spiffs \<Rightarrow> (int \<times> spiffs) option" where
  "SPIFFS_close fh fs =
     (case api_guard fs of Some e \<Rightarrow> Some (api_fail e fs) | None \<Rightarrow> do {
        (res, fs) \<leftarrow> spiffs_fflush_cache fh fs;
        if res < 0 then Some (api_fail res fs)
        else case spiffs_fd_return fh fs of (res, fs) \<Rightarrow> Some (api_result res res fs)
      })"

definition SPIFFS_rename :: "byte list \<Rightarrow> byte list \<Rightarrow> spiffs \<Rightarrow> (int \<times> spiffs) option" where
  "SPIFFS_rename old new fs =
     (case api_guard fs of Some e \<Rightarrow> Some (api_fail e fs) | None \<Rightarrow> do {
        (res, pix_old, fs) \<leftarrow> spiffs_object_find_object_index_header_by_name old fs;
        if res < 0 then Some (api_fail res fs)
        else do {
          (res, _, fs) \<leftarrow> spiffs_object_find_object_index_header_by_name new fs;
          let res = (if res = SPIFFS_ERR_NOT_FOUND then SPIFFS_OK
                     else if res = SPIFFS_OK then SPIFFS_ERR_CONFLICTING_NAME else res);
          if res < 0 then Some (api_fail res fs)
          else (case spiffs_fd_find_new fs of
             (res, None, fs) \<Rightarrow> Some (api_fail res fs)
           | (_, Some fd, fs) \<Rightarrow> do {
               (res, fs) \<leftarrow> spiffs_object_open_by_page pix_old fd 0 fs;
               let fs = return_unless_ok fd res fs;
               if res < 0 then Some (api_fail res fs)
               else do {
                 (res, _, fs) \<leftarrow> spiffs_object_update_index_hdr (Some fd) (fd_obj_id (fd_at fd fs))
                    (objix_hdr_pix (fd_at fd fs)) False (Some new) 0 fs;
                 let fs = snd (spiffs_fd_return (file_nbr (fd_at fd fs)) fs);
                 Some (api_result res res fs)
               }
             })
        }
      })"

subsection \<open>Directories\<close>

record spiffs_DIR =
  dir_block :: nat
  dir_entry :: nat

definition SPIFFS_opendir :: "spiffs \<Rightarrow> spiffs_DIR option \<times> spiffs" where
  "SPIFFS_opendir fs =
     (case api_guard fs of
        Some e \<Rightarrow> (None, fs\<lparr>err_code := e\<rparr>)
      | None \<Rightarrow> (Some \<lparr>dir_block = 0, dir_entry = 0\<rparr>, fs))"

text \<open>\<open>strcpy\<close> out of a name field: the terminated string; \<open>None\<close> when it is not terminated within
  the field, where the copy runs over the end of \<open>e->name\<close>.\<close>

definition name_string :: "byte list \<Rightarrow> byte list option" where
  "name_string nm = (if 0 \<in> set nm then Some (takeWhile (\<lambda>c. c \<noteq> 0) nm) else None)"

definition spiffs_read_dir_v :: "spiffs_dirent visitor" where
  "spiffs_read_dir_v obj_id bix ix_entry e fs =
     (if obj_id = SPIFFS_OBJ_ID_FREE \<or> obj_id = SPIFFS_OBJ_ID_DELETED \<or> obj_id AND SPIFFS_OBJ_ID_IX_FLAG = 0
      then Some (SPIFFS_VIS_COUNTINUE, e, fs)
      else do {
        let pix = SPIFFS_OBJ_LOOKUP_ENTRY_TO_PIX (cfg fs) bix ix_entry;
        (res, bs, fs) \<leftarrow> spiffs_phys_rd (OP_T_OBJ_LU2 OR OP_C_READ) (SPIFFS_PAGE_TO_PADDR (cfg fs) pix)
                          SIZEOF_OBJIX_HEADER fs;
        let h = objix_header_of bs;
        let ph = oh_p_hdr h;
        if res \<noteq> SPIFFS_OK then Some (res, e, fs)
        else if ph_span_ix ph = 0 \<and>
           ph_flags ph AND (PH_FLAG_DELET OR PH_FLAG_FINAL OR PH_FLAG_IXDELE) = (PH_FLAG_DELET OR PH_FLAG_IXDELE)
        then do {
          nm \<leftarrow> name_string (oh_name h);
          Some (SPIFFS_OK, \<lparr>de_obj_id = obj_id, de_name = nm, de_type = oh_type h,
             de_size = (if oh_size h = SPIFFS_UNDEFINED_LEN then 0 else oh_size h), de_pix = pix\<rparr>, fs)
        }
        else Some (SPIFFS_VIS_COUNTINUE, e, fs)
      })"

definition SPIFFS_readdir :: "spiffs_DIR \<Rightarrow> spiffs_dirent \<Rightarrow> spiffs \<Rightarrow>
    (spiffs_dirent option \<times> spiffs_DIR \<times> spiffs) option" where
  "SPIFFS_readdir d e fs =
     (if \<not> mounted fs then Some (None, d, fs\<lparr>err_code := SPIFFS_ERR_NOT_MOUNTED\<rparr>)
      else do {
        (res, e, loc, fs) \<leftarrow> spiffs_obj_lu_find_entry_visitor (dir_block d) (dir_entry d) VIS_NO_WRAP 0
           (Some spiffs_read_dir_v) e fs;
        if res = SPIFFS_OK then do {
          (bix, entry) \<leftarrow> loc;
          Some (Some e, \<lparr>dir_block = bix, dir_entry = entry + 1\<rparr>, fs)
        }
        else Some (None, d, fs\<lparr>err_code := res\<rparr>)
      })"

definition SPIFFS_closedir :: "spiffs \<Rightarrow> int \<times> spiffs" where
  "SPIFFS_closedir fs = (case api_guard fs of Some e \<Rightarrow> api_fail e fs | None \<Rightarrow> (0, fs))"

subsection \<open>Space and position\<close>

definition SPIFFS_info :: "spiffs \<Rightarrow> int \<times> (nat \<times> nat) option \<times> spiffs" where
  "SPIFFS_info fs =
     (case api_guard fs of
        Some e \<Rightarrow> (- 1, None, fs\<lparr>err_code := e\<rparr>)
      | None \<Rightarrow>
          let D = SPIFFS_DATA_PAGE_SIZE (cfg fs);
              total_data_pages = add32 (sub32 (block_count fs) 2 * SPIFFS_OBJ_LOOKUP_MAX_ENTRIES (cfg fs)) 1
          in (SPIFFS_OK, Some (u32_of (total_data_pages * D), u32_of (stats_p_allocated fs * D)), fs))"

definition SPIFFS_gc_quick :: "nat \<Rightarrow> spiffs \<Rightarrow> (int \<times> spiffs) option" where
  "SPIFFS_gc_quick max_free_pages fs =
     (case api_guard fs of Some e \<Rightarrow> Some (api_fail e fs) | None \<Rightarrow> do {
        (res, fs) \<leftarrow> spiffs_gc_quick max_free_pages fs;
        Some (api_result res 0 fs)
      })"

definition SPIFFS_gc :: "nat \<Rightarrow> spiffs \<Rightarrow> (int \<times> spiffs) option" where
  "SPIFFS_gc sz fs =
     (case api_guard fs of Some e \<Rightarrow> Some (api_fail e fs) | None \<Rightarrow> do {
        (res, fs) \<leftarrow> spiffs_gc_check sz fs;
        Some (api_result res 0 fs)
      })"

text \<open>The common part of \<open>SPIFFS_eof\<close> and \<open>SPIFFS_tell\<close>.\<close>

definition with_flushed_fd :: "(spiffs_fd \<Rightarrow> int) \<Rightarrow> int \<Rightarrow> spiffs \<Rightarrow> (int \<times> spiffs) option" where
  "with_flushed_fd r fh fs =
     (case api_guard fs of Some e \<Rightarrow> Some (api_fail e fs) | None \<Rightarrow>
      (case spiffs_fd_get fh fs of (res, fd) \<Rightarrow>
         if res < 0 then Some (api_fail res fs)
         else do {
           (res, fs) \<leftarrow> spiffs_fflush_cache fh fs;
           Some (api_result res (r (fd_at fd fs)) fs)
         }))"

definition SPIFFS_eof :: "int \<Rightarrow> spiffs \<Rightarrow> (int \<times> spiffs) option" where
  "SPIFFS_eof fh fs = with_flushed_fd (\<lambda>f. if fdoffset f = fd_size f then 1 else 0) fh fs"

definition SPIFFS_tell :: "int \<Rightarrow> spiffs \<Rightarrow> (int \<times> spiffs) option" where
  "SPIFFS_tell fh fs = with_flushed_fd (\<lambda>f. s32_of (fdoffset f)) fh fs"

subsection \<open>Visualisation\<close>

text \<open>
  \<open>SPIFFS_vis\<close>; what it prints of each block - the lookup entries read and the erase count - is part
  of the result, the text around it is not. The block index is 16 bits wide: with more than 65535
  blocks the loop never ends.
\<close>

primrec vis_dump :: "nat list \<Rightarrow> int \<Rightarrow> spiffs \<Rightarrow> (int \<times> (nat \<times> u16 list \<times> u16 option) list \<times> spiffs) option" where
  "vis_dump [] res fs = Some (res, [], fs)"
| "vis_dump (bix # bs) res fs = do {
     (_, ids, fs) \<leftarrow> (if res = SPIFFS_OK
        then scan_block (\<lambda>i ids. (ids @ [i], True)) (u32_of (bix * log_block_size (cfg fs))) [] fs
        else Some (res, [], fs));
     (res, erase_count, fs) \<leftarrow> rd_id (OP_C_READ OR OP_T_OBJ_LU2) (SPIFFS_ERASE_COUNT_PADDR (cfg fs) bix) fs;
     if res < 0 then Some (res, [(bix, ids, None)], fs)
     else do {
       (res, out, fs) \<leftarrow> vis_dump bs res fs;
       Some (res, (bix, ids, Some erase_count) # out, fs)
     }
   }"

definition SPIFFS_vis :: "spiffs \<Rightarrow> (int \<times> (nat \<times> u16 list \<times> u16 option) list \<times> spiffs) option" where
  "SPIFFS_vis fs =
     (case api_guard fs of Some e \<Rightarrow> Some (case api_fail e fs of (r, fs) \<Rightarrow> (r, [], fs)) | None \<Rightarrow>
        if block_count fs > 65535 then None else vis_dump [0..<block_count fs] SPIFFS_OK fs)"

end
