(* ===== verification/Spiffs_Check.thy ===== *)
theory Spiffs_Check
  imports Spiffs_Api
begin

section \<open>SPIFFS: consistency checks\<close>

text \<open>
  \<open>spiffs_check.c\<close> and \<open>SPIFFS_check\<close>: the lookup check (entries against page headers), the object
  index check (index pages without header), the page check (pages against the references of the
  indices) with the repairs each of them makes. The callback that reports progress and repairs has
  no part in the file system and is left out.

  A pointer to a local the code has not written yet is \<open>None\<close>, and reading it is undefined
  (\<open>None\<close>). \<open>Return\<close> is an early return. The loops of the page check can run forever - a repair
  restarts the scan of a range of pages, and page and block indices are 16 bits wide - so they are
  partial functions: \<open>None\<close> when they do not return.
\<close>

subsection \<open>Mending\<close>

definition spiffs_object_get_data_page_index_reference ::
    "u16 \<Rightarrow> nat \<Rightarrow> spiffs \<Rightarrow> (int \<times> nat \<times> nat \<times> spiffs) option" where
  "spiffs_object_get_data_page_index_reference obj_id data_spix fs = do {
     let objix_spix = SPIFFS_OBJ_IX_ENTRY_SPAN_IX (cfg fs) data_spix;
     (res, objix_pix, fs) \<leftarrow> spiffs_obj_lu_find_id_and_span (obj_id OR SPIFFS_OBJ_ID_IX_FLAG) objix_spix 0 fs;
     if res < 0 then Some (res, 0, 0, fs)
     else do {
       let addr = add32 (SPIFFS_PAGE_TO_PADDR (cfg fs) objix_pix) (objix_entry_offset (cfg fs) objix_spix data_spix);
       (res, pix, fs) \<leftarrow> rd_id (OP_T_OBJ_LU2 OR OP_C_READ) addr fs;
       Some (res, unat pix, objix_pix, fs)
     }
   }"

definition spiffs_rewrite_page :: "nat \<Rightarrow> spiffs_page_header \<Rightarrow> spiffs \<Rightarrow> (int \<times> nat option \<times> spiffs) option" where
  "spiffs_rewrite_page cur_pix p_hdr fs = do {
     (res, _, new_pix, fs) \<leftarrow> spiffs_page_allocate_data (ph_obj_id p_hdr) p_hdr None 0 False fs;
     if res < 0 then Some (res, None, fs)
     else do {
       pix \<leftarrow> new_pix;
       (res, fs) \<leftarrow> spiffs_phys_cpy (add32 (SPIFFS_PAGE_TO_PADDR (cfg fs) pix) SIZEOF_PAGE_HEADER)
                     (add32 (SPIFFS_PAGE_TO_PADDR (cfg fs) cur_pix) SIZEOF_PAGE_HEADER) (SPIFFS_DATA_PAGE_SIZE (cfg fs)) fs;
       Some (res, Some pix, fs)
     }
   }"

text \<open>\<open>_spiffs_rd\<close> of a page into \<open>fs->lu_work\<close> for its contents, and the page header there.\<close>

definition lu_work_load :: "nat \<Rightarrow> spiffs \<Rightarrow> (int \<times> spiffs) option" where
  "lu_work_load pix fs = do {
     (res, bs, fs) \<leftarrow> spiffs_phys_rd (OP_T_OBJ_LU2 OR OP_C_READ) (SPIFFS_PAGE_TO_PADDR (cfg fs) pix) (log_page_size (cfg fs)) fs;
     Some (res, fs\<lparr>lu_work := bs\<rparr>)
   }"

definition lu_header :: "spiffs \<Rightarrow> spiffs_page_header option" where
  "lu_header fs = map_option page_header_of (buf_slice 0 SIZEOF_PAGE_HEADER (lu_work fs))"

definition ERR_CHECK_OBJ_ID_MISM :: int where [c_defs]: "ERR_CHECK_OBJ_ID_MISM = SPIFFS_ERR_INTERNAL - 1"
definition ERR_CHECK_SPIX_MISM :: int where [c_defs]: "ERR_CHECK_SPIX_MISM = SPIFFS_ERR_INTERNAL - 2"
definition ERR_CHECK_FLAGS_BAD :: int where [c_defs]: "ERR_CHECK_FLAGS_BAD = SPIFFS_ERR_INTERNAL - 3"

text \<open>\<open>res <= _SPIFFS_ERR_CHECK_FIRST && res > _SPIFFS_ERR_CHECK_LAST\<close>.\<close>

definition is_check_err :: "int \<Rightarrow> bool" where
  "is_check_err res \<longleftrightarrow> res \<le> SPIFFS_ERR_INTERNAL - 1 \<and> res > SPIFFS_ERR_INTERNAL - 4"

definition spiffs_rewrite_index :: "u16 \<Rightarrow> nat \<Rightarrow> nat \<Rightarrow> nat \<Rightarrow> spiffs \<Rightarrow> (int \<times> spiffs) option" where
  "spiffs_rewrite_index obj_id data_spix new_data_pix objix_pix fs = do {
     let obj_id = obj_id OR SPIFFS_OBJ_ID_IX_FLAG;
     (res, loc, fs) \<leftarrow> spiffs_obj_lu_find_free (free_cursor_block_ix fs) (free_cursor_obj_lu_entry fs) fs;
     if res < 0 then Some (res, fs)
     else do {
       (bix, entry) \<leftarrow> loc;
       let free_pix = SPIFFS_OBJ_LOOKUP_ENTRY_TO_PIX (cfg fs) bix entry;
       let objix_spix = SPIFFS_OBJ_IX_ENTRY_SPAN_IX (cfg fs) data_spix;
       (res, fs) \<leftarrow> lu_work_load objix_pix fs;
       if res < 0 then Some (res, fs)
       else do {
         h \<leftarrow> lu_header fs;
         if ph_obj_id h \<noteq> obj_id then do {
           (_, fs) \<leftarrow> spiffs_page_delete free_pix fs; Some (ERR_CHECK_OBJ_ID_MISM, fs)
         }
         else if ph_span_ix h \<noteq> objix_spix then do {
           (_, fs) \<leftarrow> spiffs_page_delete free_pix fs; Some (ERR_CHECK_SPIX_MISM, fs)
         }
         else if ph_flags h AND (PH_FLAG_USED OR PH_FLAG_IXDELE OR PH_FLAG_INDEX OR PH_FLAG_FINAL OR PH_FLAG_DELET)
             \<noteq> PH_FLAG_IXDELE OR PH_FLAG_DELET then do {
           (_, fs) \<leftarrow> spiffs_page_delete free_pix fs; Some (ERR_CHECK_FLAGS_BAD, fs)
         }
         else do {
           w \<leftarrow> buf_write (objix_entry_offset (cfg fs) objix_spix data_spix) (le16 (of_nat new_data_pix)) (lu_work fs);
           let fs = fs\<lparr>lu_work := w\<rparr>;
           page \<leftarrow> buf_slice 0 (log_page_size (cfg fs)) (lu_work fs);
           (res, fs) \<leftarrow> spiffs_phys_wr (OP_T_OBJ_DA OR OP_C_UPDT) (SPIFFS_PAGE_TO_PADDR (cfg fs) free_pix) page fs;
           if res < 0 then Some (res, fs)
           else do {
             (res, fs) \<leftarrow> spiffs_phys_wr (OP_T_OBJ_LU OR OP_C_UPDT) (lu_page_paddr (cfg fs) free_pix) (le16 obj_id) fs;
             if res < 0 then Some (res, fs)
             else spiffs_page_delete objix_pix fs
           }
         }
       }
     }
   }"

definition spiffs_delete_obj_lazy :: "u16 \<Rightarrow> spiffs \<Rightarrow> (int \<times> spiffs) option" where
  "spiffs_delete_obj_lazy obj_id fs = do {
     (res, objix_hdr_pix, fs) \<leftarrow> spiffs_obj_lu_find_id_and_span obj_id 0 0 fs;
     if res = SPIFFS_ERR_NOT_FOUND then Some (SPIFFS_OK, fs)
     else if res < 0 then Some (res, fs)
     else spiffs_phys_wr (OP_T_OBJ_LU OR OP_C_UPDT)
            (add32 (SPIFFS_PAGE_TO_PADDR (cfg fs) objix_hdr_pix) OFFSETOF_FLAGS) [0xff AND NOT PH_FLAG_IXDELE] fs
   }"

subsection \<open>The lookup check\<close>

text \<open>
  Copying a referenced data page to a new place and pointing its index there; when the index is bad
  as well, the copy and the object are deleted (the second component tells).
\<close>

definition relocate_data_page :: "nat \<Rightarrow> spiffs_page_header \<Rightarrow> nat \<Rightarrow> spiffs \<Rightarrow> (int \<times> bool \<times> spiffs) option" where
  "relocate_data_page cur_pix p_hdr objix_pix fs = do {
     (res, new_pix, fs) \<leftarrow> spiffs_rewrite_page cur_pix p_hdr fs;
     if res < 0 then Some (res, False, fs)
     else do {
       new_pix \<leftarrow> new_pix;
       (res, fs) \<leftarrow> spiffs_rewrite_index (ph_obj_id p_hdr) (ph_span_ix p_hdr) new_pix objix_pix fs;
       if is_check_err res then do {
         (res, fs) \<leftarrow> spiffs_page_delete new_pix fs;
         if res < 0 then Some (res, True, fs)
         else do { (res, fs) \<leftarrow> spiffs_delete_obj_lazy (ph_obj_id p_hdr) fs; Some (res, True, fs) }
       }
       else Some (res, False, fs)
     }
   }"

text \<open>
  The parts of \<open>spiffs_lookup_check_validate\<close>. A part goes on with \<open>(res, reload_lu, delete_page, fs)\<close>
  or returns early.
\<close>

type_synonym validate = "(int \<times> spiffs, int \<times> bool \<times> bool \<times> spiffs) flow option"

text \<open>A search whose result may be missing: \<open>res = SPIFFS_OK; pix = 0\<close> when nothing is found.\<close>

definition find_or_zero :: "u16 \<Rightarrow> nat \<Rightarrow> nat \<Rightarrow> spiffs \<Rightarrow> (int \<times> nat \<times> spiffs) option" where
  "find_or_zero obj_id spix exclusion_pix fs = do {
     (res, pix, fs) \<leftarrow> spiffs_obj_lu_find_id_and_span obj_id spix exclusion_pix fs;
     Some (if res = SPIFFS_ERR_NOT_FOUND then (SPIFFS_OK, 0, fs) else (res, pix, fs))
   }"

text \<open>The entry is deleted or free, the page is not: \<open>*reload_lu = 1\<close>, \<open>delete_page = 1\<close>.\<close>

definition check_unused_entry :: "nat \<Rightarrow> spiffs_page_header \<Rightarrow> spiffs \<Rightarrow> validate" where
  "check_unused_entry cur_pix p_hdr fs =
     (if ph_flags p_hdr AND PH_FLAG_INDEX \<noteq> 0 then do {
        (res, ref_pix, objix_pix, fs) \<leftarrow>
          spiffs_object_get_data_page_index_reference (ph_obj_id p_hdr) (ph_span_ix p_hdr) fs;
        if res = SPIFFS_ERR_NOT_FOUND then Some (Continue (SPIFFS_OK, True, True, fs))
        else if res < 0 then Some (Return (res, fs))
        else if ref_pix = cur_pix then do {
          (res, _, fs) \<leftarrow> relocate_data_page cur_pix p_hdr objix_pix fs;
          Some (if res < 0 then Return (res, fs) else Continue (res, True, True, fs))
        }
        else Some (Continue (res, True, True, fs))
      }
      else do {
        (res, _, fs) \<leftarrow> spiffs_obj_lu_find_id_and_span (ph_obj_id p_hdr OR SPIFFS_OBJ_ID_IX_FLAG) (ph_span_ix p_hdr) cur_pix fs;
        if res = SPIFFS_ERR_NOT_FOUND then do {
          (res, _, fs) \<leftarrow> spiffs_obj_lu_find_id_and_span_by_phdr (ph_obj_id p_hdr OR SPIFFS_OBJ_ID_IX_FLAG) 0 0 fs;
          if res = SPIFFS_OK then do {
            (res, _, fs) \<leftarrow> spiffs_rewrite_page cur_pix p_hdr fs;
            Some (if res < 0 then Return (res, fs) else Continue (res, True, True, fs))
          }
          else Some (Continue (res, True, True, fs))
        }
        else Some (if res < 0 then Return (res, fs) else Continue (res, True, True, fs))
      })"

text \<open>
  Entry and header name different objects: \<open>delete_page = 1\<close>. The two searches for data pages clear
  the index page they found before instead of the data page, whose variable stays unwritten.
\<close>

definition check_other_index :: "u16 \<Rightarrow> nat \<Rightarrow> spiffs_page_header \<Rightarrow> nat \<Rightarrow> nat \<Rightarrow> spiffs \<Rightarrow> validate" where
  "check_other_index lu_obj_id cur_pix p_hdr objix_pix_lu objix_pix_ph fs = do {
     (res, data_pix, fs) \<leftarrow> spiffs_obj_lu_find_id_and_span (lu_obj_id AND NOT SPIFFS_OBJ_ID_IX_FLAG) 0 0 fs;
     let missing = (res = SPIFFS_ERR_NOT_FOUND);
     let data_pix_lu = (if missing then None else Some data_pix);
     let objix_pix_lu = (if missing then 0 else objix_pix_lu);
     if res < 0 \<and> \<not> missing then Some (Return (res, fs))
     else do {
       (res, data_pix, fs) \<leftarrow> spiffs_obj_lu_find_id_and_span (ph_obj_id p_hdr AND NOT SPIFFS_OBJ_ID_IX_FLAG) 0 0 fs;
       let missing = (res = SPIFFS_ERR_NOT_FOUND);
       let data_pix_ph = (if missing then None else Some data_pix);
       let objix_pix_ph = (if missing then 0 else objix_pix_ph);
       let res = (if missing then SPIFFS_OK else res);
       if res < 0 then Some (Return (res, fs))
       else do {
         let new_ph = \<lparr>ph_obj_id = 0, ph_span_ix = ph_span_ix p_hdr,
                       ph_flags = 0xff AND NOT (PH_FLAG_USED OR PH_FLAG_INDEX OR PH_FLAG_FINAL)\<rparr>;
         as_ph \<leftarrow> (if objix_pix_lu \<noteq> 0
           then do { dl \<leftarrow> data_pix_lu; if dl = 0 then Some False else do { dp \<leftarrow> data_pix_ph; Some (dp \<noteq> 0 \<and> objix_pix_ph = 0) } }
           else do { dp \<leftarrow> data_pix_ph; Some (dp \<noteq> 0 \<and> objix_pix_ph = 0) });
         as_lu \<leftarrow> (if as_ph then Some False
           else if objix_pix_ph \<noteq> 0
           then do { dp \<leftarrow> data_pix_ph; if dp = 0 then Some False else do { dl \<leftarrow> data_pix_lu; Some (dl \<noteq> 0 \<and> objix_pix_lu = 0) } }
           else do { dl \<leftarrow> data_pix_lu; Some (dl \<noteq> 0 \<and> objix_pix_lu = 0) });
         if as_ph \<or> as_lu then do {
           let new_ph = new_ph\<lparr>ph_obj_id := (if as_ph then ph_obj_id p_hdr else lu_obj_id) OR SPIFFS_OBJ_ID_IX_FLAG\<rparr>;
           (res, _, fs) \<leftarrow> spiffs_rewrite_page cur_pix new_ph fs;
           Some (if res < 0 then Return (res, fs) else Continue (res, True, True, fs))
         }
         else Some (Continue (res, False, True, fs))
       }
     }
   }"

definition check_wrong_id :: "u16 \<Rightarrow> nat \<Rightarrow> spiffs_page_header \<Rightarrow> spiffs \<Rightarrow> validate" where
  "check_wrong_id lu_obj_id cur_pix p_hdr fs =
     (if ph_flags p_hdr AND PH_FLAG_DELET = 0 \<or> ph_flags p_hdr AND PH_FLAG_FINAL \<noteq> 0 \<or>
         ph_flags p_hdr AND (PH_FLAG_INDEX OR PH_FLAG_IXDELE) = 0
      then Some (Continue (SPIFFS_OK, False, True, fs))
      else if ph_flags p_hdr AND PH_FLAG_INDEX \<noteq> 0 then do {
        (res, ref_pix, objix_pix, fs) \<leftarrow>
          spiffs_object_get_data_page_index_reference (ph_obj_id p_hdr) (ph_span_ix p_hdr) fs;
        if res = SPIFFS_ERR_NOT_FOUND then Some (Continue (SPIFFS_OK, False, True, fs))
        else if res < 0 then Some (Return (res, fs))
        else if ref_pix = cur_pix then do {
          (res, bad, fs) \<leftarrow> relocate_data_page cur_pix p_hdr objix_pix fs;
          Some (if res < 0 then Return (res, fs) else Continue (res, bad, True, fs))
        }
        else Some (Continue (res, False, True, fs))
      }
      else do {
        (res, objix_pix_lu, fs) \<leftarrow> find_or_zero (lu_obj_id OR SPIFFS_OBJ_ID_IX_FLAG) (ph_span_ix p_hdr) 0 fs;
        if res < 0 then Some (Return (res, fs))
        else do {
          (res, objix_pix_ph, fs) \<leftarrow> find_or_zero (ph_obj_id p_hdr OR SPIFFS_OBJ_ID_IX_FLAG) (ph_span_ix p_hdr) 0 fs;
          if res < 0 then Some (Return (res, fs))
          else if objix_pix_ph = 0 \<or> objix_pix_lu = 0 then
            check_other_index lu_obj_id cur_pix p_hdr objix_pix_lu objix_pix_ph fs
          else Some (Continue (res, False, True, fs))
        }
      })"

text \<open>Writing the page again as an index or a data page.\<close>

definition remake_page :: "u16 \<Rightarrow> byte \<Rightarrow> nat \<Rightarrow> spiffs_page_header \<Rightarrow> spiffs \<Rightarrow> (int \<times> spiffs) option" where
  "remake_page obj_id flags cur_pix p_hdr fs = do {
     let new_ph = \<lparr>ph_obj_id = obj_id, ph_span_ix = ph_span_ix p_hdr, ph_flags = flags\<rparr>;
     (res, _, new_pix, fs) \<leftarrow> spiffs_page_allocate_data obj_id new_ph None 0 True fs;
     if res < 0 then Some (res, fs)
     else do {
       pix \<leftarrow> new_pix;
       spiffs_phys_cpy (add32 (SPIFFS_PAGE_TO_PADDR (cfg fs) pix) SIZEOF_PAGE_HEADER)
         (add32 (SPIFFS_PAGE_TO_PADDR (cfg fs) cur_pix) SIZEOF_PAGE_HEADER) (sub32 (log_page_size (cfg fs)) SIZEOF_PAGE_HEADER) fs
     }
   }"

text \<open>Entry and header disagree on data or index page: \<open>delete_page = 1\<close>.\<close>

definition check_marking :: "u16 \<Rightarrow> nat \<Rightarrow> spiffs_page_header \<Rightarrow> spiffs \<Rightarrow> validate" where
  "check_marking lu_obj_id cur_pix p_hdr fs = do {
     (res, data_pix, fs) \<leftarrow> find_or_zero (lu_obj_id AND NOT SPIFFS_OBJ_ID_IX_FLAG) (ph_span_ix p_hdr) cur_pix fs;
     if res < 0 then Some (Return (res, fs))
     else do {
       (res, objix_pix_d, fs) \<leftarrow> find_or_zero (lu_obj_id OR SPIFFS_OBJ_ID_IX_FLAG) (ph_span_ix p_hdr) cur_pix fs;
       if res < 0 then Some (Return (res, fs))
       else do {
         (res, fs) \<leftarrow>
           (if data_pix \<noteq> 0 \<and> objix_pix_d = 0 then
              remake_page (lu_obj_id OR SPIFFS_OBJ_ID_IX_FLAG)
                (0xff AND NOT (PH_FLAG_USED OR PH_FLAG_FINAL OR PH_FLAG_INDEX)) cur_pix p_hdr fs
            else if data_pix = 0 \<and> objix_pix_d \<noteq> 0 then
              remake_page (lu_obj_id AND NOT SPIFFS_OBJ_ID_IX_FLAG)
                (0xff AND NOT (PH_FLAG_USED OR PH_FLAG_FINAL)) cur_pix p_hdr fs
            else Some (res, fs));
         Some (if res < 0 then Return (res, fs) else Continue (res, False, True, fs))
       }
     }
   }"

text \<open>The page was not finalised: \<open>*reload_lu = 1\<close>.\<close>

definition check_not_final :: "u16 \<Rightarrow> nat \<Rightarrow> spiffs_page_header \<Rightarrow> spiffs \<Rightarrow> validate" where
  "check_not_final lu_obj_id cur_pix p_hdr fs = do {
     (res, ref_pix, objix_pix, fs) \<leftarrow>
       spiffs_object_get_data_page_index_reference lu_obj_id (ph_span_ix p_hdr) fs;
     if res = SPIFFS_ERR_NOT_FOUND then Some (Continue (SPIFFS_OK, True, True, fs))
     else if res < 0 then Some (Return (res, fs))
     else if ref_pix \<noteq> cur_pix then Some (Continue (res, True, True, fs))
     else do {
       (res, fs) \<leftarrow> spiffs_phys_wr (OP_T_OBJ_DA OR OP_C_UPDT)
         (add32 (SPIFFS_PAGE_TO_PADDR (cfg fs) cur_pix) OFFSETOF_FLAGS) [0xff AND NOT PH_FLAG_FINAL] fs;
       Some (Continue (res, True, False, fs))
     }
   }"

definition check_entry :: "u16 \<Rightarrow> nat \<Rightarrow> spiffs_page_header \<Rightarrow> spiffs \<Rightarrow> validate" where
  "check_entry lu_obj_id cur_pix p_hdr fs =
     (if lu_obj_id = SPIFFS_OBJ_ID_DELETED \<and> ph_flags p_hdr AND PH_FLAG_DELET \<noteq> 0 \<or>
         lu_obj_id = SPIFFS_OBJ_ID_FREE \<and> ph_flags p_hdr AND PH_FLAG_USED = 0
      then check_unused_entry cur_pix p_hdr fs
      else if lu_obj_id = SPIFFS_OBJ_ID_FREE \<or> lu_obj_id = SPIFFS_OBJ_ID_DELETED
      then Some (Continue (SPIFFS_OK, False, False, fs))
      else if ph_obj_id p_hdr OR SPIFFS_OBJ_ID_IX_FLAG \<noteq> lu_obj_id OR SPIFFS_OBJ_ID_IX_FLAG
      then check_wrong_id lu_obj_id cur_pix p_hdr fs
      else if lu_obj_id AND SPIFFS_OBJ_ID_IX_FLAG \<noteq> 0 \<and> ph_flags p_hdr AND PH_FLAG_INDEX \<noteq> 0 \<or>
         lu_obj_id AND SPIFFS_OBJ_ID_IX_FLAG = 0 \<and> ph_flags p_hdr AND PH_FLAG_INDEX = 0
      then check_marking lu_obj_id cur_pix p_hdr fs
      else if ph_flags p_hdr AND PH_FLAG_DELET = 0 then Some (Continue (SPIFFS_OK, False, True, fs))
      else if ph_flags p_hdr AND PH_FLAG_FINAL \<noteq> 0 then check_not_final lu_obj_id cur_pix p_hdr fs
      else Some (Continue (SPIFFS_OK, False, False, fs)))"

definition spiffs_lookup_check_validate :: "u16 \<Rightarrow> spiffs_page_header \<Rightarrow> nat \<Rightarrow> spiffs \<Rightarrow> (int \<times> bool \<times> spiffs) option" where
  "spiffs_lookup_check_validate lu_obj_id p_hdr cur_pix fs = do {
     r \<leftarrow> check_entry lu_obj_id cur_pix p_hdr fs;
     case r of
       Return (res, fs) \<Rightarrow> Some (res, False, fs)
     | Break (res, reload_lu, delete_page, fs) \<Rightarrow> None
     | Continue (res, reload_lu, delete_page, fs) \<Rightarrow>
         if delete_page then do {
           (res, fs) \<leftarrow> spiffs_page_delete cur_pix fs;
           Some (res, reload_lu, fs)
         }
         else Some (res, reload_lu, fs)
   }"

definition spiffs_lookup_check_v :: "unit visitor" where
  "spiffs_lookup_check_v obj_id cur_block cur_entry u fs = do {
     let cur_pix = SPIFFS_OBJ_LOOKUP_ENTRY_TO_PIX (cfg fs) cur_block cur_entry;
     (res, p_hdr, fs) \<leftarrow> rd_header (OP_T_OBJ_LU2 OR OP_C_READ) (SPIFFS_PAGE_TO_PADDR (cfg fs) cur_pix) fs;
     if res < 0 then Some (res, u, fs)
     else do {
       (res, reload_lu, fs) \<leftarrow> spiffs_lookup_check_validate obj_id p_hdr cur_pix fs;
       Some (if res = SPIFFS_OK then if reload_lu then SPIFFS_VIS_COUNTINUE_RELOAD else SPIFFS_VIS_COUNTINUE else res, u, fs)
     }
   }"

definition spiffs_lookup_consistency_check :: "spiffs \<Rightarrow> (int \<times> spiffs) option" where
  "spiffs_lookup_consistency_check fs = do {
     (res, _, _, fs) \<leftarrow> spiffs_obj_lu_find_entry_visitor 0 0 0 0 (Some spiffs_lookup_check_v) () fs;
     Some (if res = SPIFFS_VIS_END then SPIFFS_OK else res, fs)
   }"

subsection \<open>The object index check\<close>

text \<open>The table of object ids in \<open>fs->work\<close>.\<close>

definition table_len :: "spiffs \<Rightarrow> nat" where
  "table_len fs = log_page_size (cfg fs) div 2"

definition table_get :: "nat \<Rightarrow> spiffs \<Rightarrow> u16 option" where
  "table_get i fs = map_option of_le16 (buf_slice (2 * i) 2 (work fs))"

primrec index_search :: "u16 \<Rightarrow> nat list \<Rightarrow> spiffs \<Rightarrow> nat option option" where
  "index_search obj_id [] fs = Some None"
| "index_search obj_id (i # is) fs = do {
     x \<leftarrow> table_get i fs;
     if x AND NOT SPIFFS_OBJ_ID_IX_FLAG = obj_id then Some (Some i) else index_search obj_id is fs
   }"

definition spiffs_object_index_search :: "u16 \<Rightarrow> spiffs \<Rightarrow> nat option option" where
  "spiffs_object_index_search obj_id fs =
     index_search (obj_id AND NOT SPIFFS_OBJ_ID_IX_FLAG) [0..<table_len fs] fs"

text \<open>\<open>obj_table[*log_ix] = id; (*log_ix)++; if (*log_ix >= ...) *log_ix = 0\<close>; a null pointer is \<open>None\<close>.\<close>

definition register_id :: "u16 \<Rightarrow> nat option \<Rightarrow> spiffs \<Rightarrow> (nat option \<times> spiffs) option" where
  "register_id i log_ix fs = do {
     k \<leftarrow> log_ix;
     fs \<leftarrow> work_put (2 * k) (le16 i) fs;
     Some (Some (if k + 1 \<ge> table_len fs then 0 else k + 1), fs)
   }"

definition spiffs_object_index_consistency_check_v :: "nat option visitor" where
  "spiffs_object_index_consistency_check_v obj_id cur_block cur_entry log_ix fs =
     (if obj_id = SPIFFS_OBJ_ID_FREE \<or> obj_id = SPIFFS_OBJ_ID_DELETED \<or> obj_id AND SPIFFS_OBJ_ID_IX_FLAG = 0
      then Some (SPIFFS_VIS_COUNTINUE, log_ix, fs)
      else do {
        let cur_pix = SPIFFS_OBJ_LOOKUP_ENTRY_TO_PIX (cfg fs) cur_block cur_entry;
        (res, p_hdr, fs) \<leftarrow> rd_header (OP_T_OBJ_LU2 OR OP_C_READ) (SPIFFS_PAGE_TO_PADDR (cfg fs) cur_pix) fs;
        let flags = ph_flags p_hdr AND (PH_FLAG_INDEX OR PH_FLAG_FINAL OR PH_FLAG_DELET OR PH_FLAG_IXDELE);
        if res < 0 then Some (res, log_ix, fs)
        else if ph_span_ix p_hdr = 0 \<and> flags = PH_FLAG_DELET then do {
          (res, fs) \<leftarrow> spiffs_page_delete cur_pix fs;
          Some (if res < 0 then res else SPIFFS_VIS_COUNTINUE, log_ix, fs)
        }
        else if flags = PH_FLAG_DELET OR PH_FLAG_IXDELE then Some (SPIFFS_VIS_COUNTINUE, log_ix, fs)
        else do {
          r \<leftarrow> spiffs_object_index_search obj_id fs;
          if ph_span_ix p_hdr = 0 then
            (case r of
               None \<Rightarrow> do {
                 (log_ix, fs) \<leftarrow> register_id (obj_id AND NOT SPIFFS_OBJ_ID_IX_FLAG) log_ix fs;
                 Some (SPIFFS_VIS_COUNTINUE, log_ix, fs)
               }
             | Some _ \<Rightarrow> Some (SPIFFS_VIS_COUNTINUE, log_ix, fs))
          else do {
            (res, res_c, del, log_ix, fs) \<leftarrow>
              (case r of
                 None \<Rightarrow> do {
                   (res, _, fs) \<leftarrow> spiffs_obj_lu_find_id_and_span (obj_id OR SPIFFS_OBJ_ID_IX_FLAG) 0 0 fs;
                   if res = SPIFFS_OK then do {
                     (log_ix, fs) \<leftarrow> register_id (obj_id AND NOT SPIFFS_OBJ_ID_IX_FLAG) log_ix fs;
                     Some (res, SPIFFS_VIS_COUNTINUE_RELOAD, False, log_ix, fs)
                   }
                   else if res = SPIFFS_ERR_NOT_FOUND then do {
                     (log_ix, fs) \<leftarrow> register_id (obj_id OR SPIFFS_OBJ_ID_IX_FLAG) log_ix fs;
                     Some (SPIFFS_OK, SPIFFS_VIS_COUNTINUE_RELOAD, True, log_ix, fs)
                   }
                   else if res < 0 then Some (res, SPIFFS_VIS_COUNTINUE_RELOAD, False, log_ix, fs)
                   else do {
                     k \<leftarrow> log_ix;
                     Some (res, SPIFFS_VIS_COUNTINUE_RELOAD, False, Some (if k + 1 \<ge> table_len fs then 0 else k + 1), fs)
                   }
                 }
               | Some i \<Rightarrow> do {
                   x \<leftarrow> table_get i fs;
                   Some (SPIFFS_OK, SPIFFS_VIS_COUNTINUE, x AND SPIFFS_OBJ_ID_IX_FLAG \<noteq> 0, log_ix, fs)
                 });
            if res < 0 then Some (res, log_ix, fs)
            else if del then do {
              (res, fs) \<leftarrow> spiffs_page_delete cur_pix fs;
              Some (if res < 0 then res else res_c, log_ix, fs)
            }
            else Some (res_c, log_ix, fs)
          }
        }
      })"

text \<open>The position in the table is passed as the constant argument of the visitor, which reads it from
  the other one: that is null.\<close>

definition spiffs_object_index_consistency_check :: "spiffs \<Rightarrow> (int \<times> spiffs) option" where
  "spiffs_object_index_consistency_check fs = do {
     let fs = fs\<lparr>work := replicate (log_page_size (cfg fs)) 0 @ drop (log_page_size (cfg fs)) (work fs)\<rparr>;
     (res, _, _, fs) \<leftarrow> spiffs_obj_lu_find_entry_visitor 0 0 0 0 (Some spiffs_object_index_consistency_check_v) None fs;
     Some (if res = SPIFFS_VIS_END then SPIFFS_OK else res, fs)
   }"

subsection \<open>The page check\<close>

text \<open>
  Four bits for each page of a range in \<open>fs->work\<close>: used, referenced, index. A step of the scan goes
  on with \<open>(restart, res, fs)\<close>.
\<close>

type_synonym scan_step = "(int \<times> spiffs, bool \<times> int \<times> spiffs) flow option"

definition pages_per_scan :: "spiffs_config \<Rightarrow> nat" where
  "pages_per_scan c = u16_of (log_page_size c * 8 div 4)"

definition in_scan :: "spiffs_config \<Rightarrow> nat \<Rightarrow> nat \<Rightarrow> bool" where
  "in_scan c pix_offset pix \<longleftrightarrow> pix_offset \<le> pix \<and> pix < pix_offset + pages_per_scan c"

definition page_mark :: "nat \<Rightarrow> nat \<Rightarrow> spiffs \<Rightarrow> byte option" where
  "page_mark pix_offset pix fs =
     (let i = (pix - pix_offset) div 2 in if i < length (work fs) then Some (work fs ! i) else None)"

definition set_mark :: "nat \<Rightarrow> nat \<Rightarrow> nat \<Rightarrow> spiffs \<Rightarrow> spiffs option" where
  "set_mark k pix_offset pix fs = do {
     b \<leftarrow> page_mark pix_offset pix fs;
     Some (fs\<lparr>work := (work fs)[(pix - pix_offset) div 2 := b OR push_bit (4 * (pix mod 2) + k) 1]\<rparr>)
   }"

text \<open>
  A reference outside of the file system or to a lookup page. The header of the index page is read
  again and again through a pointer into \<open>fs->lu_work\<close>, which the search in between overwrites.
\<close>

definition fix_bad_reference :: "nat \<Rightarrow> nat \<Rightarrow> spiffs \<Rightarrow> scan_step" where
  "fix_bad_reference cur_pix spix fs = do {
     h \<leftarrow> lu_header fs;
     (res, data_pix, fs) \<leftarrow> find_or_zero (ph_obj_id h AND NOT SPIFFS_OBJ_ID_IX_FLAG) (u16_of spix) 0 fs;
     if res < 0 then Some (Return (res, fs))
     else do {
       (res, data_pix, fs) \<leftarrow>
         (if data_pix = 0 then do {
            h \<leftarrow> lu_header fs;
            let i = ph_obj_id h AND NOT SPIFFS_OBJ_ID_IX_FLAG;
            let new_ph = \<lparr>ph_obj_id = i, ph_span_ix = u16_of spix, ph_flags = 0xff AND NOT (PH_FLAG_USED OR PH_FLAG_FINAL)\<rparr>;
            (res, _, pix, fs) \<leftarrow> spiffs_page_allocate_data i new_ph None 0 True fs;
            if res < 0 then Some (res, 0, fs) else do { pix \<leftarrow> pix; Some (res, pix, fs) }
          }
          else Some (res, data_pix, fs));
       if res < 0 then Some (Return (res, fs))
       else do {
         h \<leftarrow> lu_header fs;
         (res, fs) \<leftarrow> spiffs_rewrite_index (ph_obj_id h OR SPIFFS_OBJ_ID_IX_FLAG) (u16_of spix) data_pix cur_pix fs;
         (res, fs) \<leftarrow> (if is_check_err res then spiffs_page_delete cur_pix fs else Some (res, fs));
         Some (if res < 0 then Return (res, fs) else Continue (True, res, fs))
       }
     }
   }"

text \<open>A reference to a page that does not belong there.\<close>

definition fix_wrong_reference :: "nat \<Rightarrow> spiffs_page_header \<Rightarrow> nat \<Rightarrow> nat \<Rightarrow> spiffs \<Rightarrow> scan_step" where
  "fix_wrong_reference cur_pix p_hdr spix rpix fs = do {
     (res, data_pix, fs) \<leftarrow> find_or_zero (ph_obj_id p_hdr AND NOT SPIFFS_OBJ_ID_IX_FLAG) (u16_of spix) rpix fs;
     if res < 0 then Some (Return (res, fs))
     else if data_pix = 0 then do {
       (res, fs) \<leftarrow> spiffs_delete_obj_lazy (ph_obj_id p_hdr) fs;
       Some (if res < 0 then Return (res, fs) else Break (False, res, fs))
     }
     else do {
       (res, fs) \<leftarrow> spiffs_rewrite_index (ph_obj_id p_hdr) (u16_of spix) data_pix cur_pix fs;
       (res, fs) \<leftarrow> (if is_check_err res then spiffs_delete_obj_lazy (ph_obj_id p_hdr) fs else Some (res, fs));
       Some (if res < 0 then Return (res, fs) else Continue (True, res, fs))
     }
   }"

text \<open>Marking a page as referenced; a second reference deletes the object that holds it.\<close>

definition mark_referenced :: "nat \<Rightarrow> nat \<Rightarrow> spiffs_page_header \<Rightarrow> nat \<Rightarrow> int \<Rightarrow> spiffs \<Rightarrow> scan_step" where
  "mark_referenced pix_offset cur_pix p_hdr rpix res fs = do {
     b \<leftarrow> page_mark pix_offset rpix fs;
     if bit b (4 * (rpix mod 2) + 1) then do {
       (res, fs) \<leftarrow> spiffs_delete_obj_lazy (ph_obj_id p_hdr) fs;
       if res < 0 then Some (Return (res, fs))
       else do {
         (res, fs) \<leftarrow> spiffs_page_delete cur_pix fs;
         if res < 0 then Some (Return (res, fs))
         else do { fs \<leftarrow> set_mark 1 pix_offset rpix fs; Some (Continue (True, res, fs)) }
       }
     }
     else do { fs \<leftarrow> set_mark 1 pix_offset rpix fs; Some (Continue (False, res, fs)) }
   }"

definition check_reference :: "nat \<Rightarrow> nat \<Rightarrow> spiffs_page_header \<Rightarrow> nat \<Rightarrow> nat \<Rightarrow> int \<Rightarrow> spiffs \<Rightarrow> scan_step" where
  "check_reference pix_offset cur_pix p_hdr spix rpix res fs =
     (let here = in_scan (cfg fs) pix_offset rpix in
      if rpix \<noteq> NO_IX \<and> rpix > SPIFFS_MAX_PAGES (cfg fs) \<or> here \<and> SPIFFS_IS_LOOKUP_PAGE (cfg fs) rpix
      then fix_bad_reference cur_pix spix fs
      else if here then do {
        (res, rp_hdr, fs) \<leftarrow> rd_header (OP_T_OBJ_LU2 OR OP_C_READ) (SPIFFS_PAGE_TO_PADDR (cfg fs) rpix) fs;
        if res < 0 then Some (Return (res, fs))
        else if ph_obj_id rp_hdr \<noteq> ph_obj_id p_hdr AND NOT SPIFFS_OBJ_ID_IX_FLAG \<or> ph_span_ix rp_hdr \<noteq> spix \<or>
           ph_flags rp_hdr AND (PH_FLAG_DELET OR PH_FLAG_INDEX OR PH_FLAG_USED) \<noteq> PH_FLAG_DELET OR PH_FLAG_INDEX
        then fix_wrong_reference cur_pix p_hdr spix rpix fs
        else mark_referenced pix_offset cur_pix p_hdr rpix res fs
      }
      else Some (Continue (False, res, fs)))"

text \<open>The loop over the entries of an index page, which start at \<open>off\<close>.\<close>

primrec check_references :: "nat \<Rightarrow> nat \<Rightarrow> spiffs_page_header \<Rightarrow> nat \<Rightarrow> nat \<Rightarrow> nat list \<Rightarrow> int \<Rightarrow> spiffs \<Rightarrow> scan_step" where
  "check_references pix_offset cur_pix p_hdr off spix_offset [] res fs = Some (Continue (False, res, fs))"
| "check_references pix_offset cur_pix p_hdr off spix_offset (i # is) res fs = do {
     bs \<leftarrow> buf_slice (off + 2 * i) 2 (lu_work fs);
     r \<leftarrow> check_reference pix_offset cur_pix p_hdr (spix_offset + i) (unat (of_le16 bs)) res fs;
     case r of
       Return x \<Rightarrow> Some (Return x)
     | Break x \<Rightarrow> Some (Continue x)
     | Continue (restart, res, fs) \<Rightarrow>
         if restart then Some (Continue (True, res, fs))
         else check_references pix_offset cur_pix p_hdr off spix_offset is res fs
   }"

definition check_index_page :: "nat \<Rightarrow> nat \<Rightarrow> spiffs_page_header \<Rightarrow> spiffs \<Rightarrow> scan_step" where
  "check_index_page pix_offset cur_pix p_hdr fs = do {
     (res, fs) \<leftarrow> lu_work_load cur_pix fs;
     if res < 0 then Some (Return (res, fs))
     else
       let c = cfg fs in
       if ph_span_ix p_hdr = 0 then
         check_references pix_offset cur_pix p_hdr SIZEOF_OBJIX_HEADER 0 [0..<SPIFFS_OBJ_HDR_IX_LEN c] res fs
       else
         check_references pix_offset cur_pix p_hdr SIZEOF_OBJIX
           (u16_of (SPIFFS_OBJ_HDR_IX_LEN c + SPIFFS_OBJ_IX_LEN c * (ph_span_ix p_hdr - 1))) [0..<SPIFFS_OBJ_IX_LEN c] res fs
   }"

definition check_page :: "nat \<Rightarrow> nat \<Rightarrow> spiffs \<Rightarrow> scan_step" where
  "check_page pix_offset cur_pix fs = do {
     (res, p_hdr, fs) \<leftarrow> rd_header (OP_T_OBJ_LU2 OR OP_C_READ) (SPIFFS_PAGE_TO_PADDR (cfg fs) cur_pix) fs;
     if res < 0 then Some (Return (res, fs))
     else do {
       let here = in_scan (cfg fs) pix_offset cur_pix;
       fs \<leftarrow> (if here \<and> ph_flags p_hdr AND PH_FLAG_DELET \<noteq> 0 \<and> ph_flags p_hdr AND PH_FLAG_USED = 0
              then set_mark 0 pix_offset cur_pix fs else Some fs);
       if ph_flags p_hdr AND PH_FLAG_DELET \<noteq> 0 \<and> ph_flags p_hdr AND PH_FLAG_IXDELE \<noteq> 0 \<and>
          ph_flags p_hdr AND (PH_FLAG_INDEX OR PH_FLAG_USED) = 0 then do {
         fs \<leftarrow> (if here then set_mark 2 pix_offset cur_pix fs else Some fs);
         check_index_page pix_offset cur_pix p_hdr fs
       }
       else Some (Continue (False, res, fs))
     }
   }"

partial_function (option) check_pages :: "nat \<Rightarrow> nat \<Rightarrow> nat \<Rightarrow> int \<Rightarrow> spiffs \<Rightarrow> scan_step" where
  "check_pages pix_offset lim cur_pix res fs =
     (if cur_pix < lim then do {
        r \<leftarrow> check_page pix_offset cur_pix fs;
        case r of
          Return x \<Rightarrow> Some (Return x)
        | Break x \<Rightarrow> Some (Continue x)
        | Continue (restart, res, fs) \<Rightarrow>
            if restart then Some (Continue (True, res, fs))
            else check_pages pix_offset lim (u16_of (cur_pix + 1)) res fs
      }
      else Some (Continue (False, res, fs)))"

partial_function (option) check_blocks :: "nat \<Rightarrow> nat \<Rightarrow> int \<Rightarrow> spiffs \<Rightarrow> scan_step" where
  "check_blocks pix_offset cur_block res fs =
     (if cur_block < block_count fs then do {
        let ppb = SPIFFS_PAGES_PER_BLOCK (cfg fs);
        r \<leftarrow> check_pages pix_offset (u32_of (ppb * (cur_block + 1)))
              (u16_of (SPIFFS_OBJ_LOOKUP_PAGES (cfg fs) + ppb * cur_block)) res fs;
        case r of
          Return x \<Rightarrow> Some (Return x)
        | Break x \<Rightarrow> Some (Continue x)
        | Continue (restart, res, fs) \<Rightarrow>
            if restart then Some (Continue (True, res, fs))
            else check_blocks pix_offset (u16_of (cur_block + 1)) res fs
      }
      else Some (Continue (False, res, fs)))"

text \<open>A page that is used but not referenced.\<close>

definition check_unreferenced :: "nat \<Rightarrow> spiffs \<Rightarrow> scan_step" where
  "check_unreferenced cur_pix fs = do {
     (res, p_hdr, fs) \<leftarrow> rd_header (OP_T_OBJ_LU2 OR OP_C_READ) (SPIFFS_PAGE_TO_PADDR (cfg fs) cur_pix) fs;
     if res < 0 then Some (Return (res, fs))
     else do {
       (res, rpix, objix_pix, fs) \<leftarrow>
         spiffs_object_get_data_page_index_reference (ph_obj_id p_hdr) (ph_span_ix p_hdr) fs;
       (res, rewrite_ix_to_this, delete_page, fs) \<leftarrow>
         (if res = SPIFFS_OK then
            if rpix = NO_IX \<or> rpix > SPIFFS_MAX_PAGES (cfg fs) \<or> SPIFFS_IS_LOOKUP_PAGE (cfg fs) rpix
            then Some (res, True, False, fs)
            else do {
              (res, rp_hdr, fs) \<leftarrow> rd_header (OP_T_OBJ_LU2 OR OP_C_READ) (SPIFFS_PAGE_TO_PADDR (cfg fs) rpix) fs;
              if res < 0 then Some (res, False, False, fs)
              else if ph_obj_id p_hdr AND NOT SPIFFS_OBJ_ID_IX_FLAG = ph_obj_id rp_hdr \<and>
                 ph_flags rp_hdr AND (PH_FLAG_INDEX OR PH_FLAG_DELET OR PH_FLAG_USED OR PH_FLAG_FINAL) = PH_FLAG_INDEX OR PH_FLAG_DELET
              then Some (res, False, True, fs)
              else Some (res, rpix \<noteq> cur_pix, False, fs)
            }
          else if res = SPIFFS_ERR_NOT_FOUND then Some (SPIFFS_OK, False, True, fs)
          else Some (res, False, False, fs));
       if rewrite_ix_to_this then do {
         (res, fs) \<leftarrow> spiffs_rewrite_index (ph_obj_id p_hdr) (ph_span_ix p_hdr) cur_pix objix_pix fs;
         if is_check_err res then do {
           (res, fs) \<leftarrow> spiffs_page_delete cur_pix fs;
           if res < 0 then Some (Return (res, fs))
           else do {
             (res, fs) \<leftarrow> spiffs_delete_obj_lazy (ph_obj_id p_hdr) fs;
             Some (if res < 0 then Return (res, fs) else Continue (True, res, fs))
           }
         }
         else Some (if res < 0 then Return (res, fs) else Continue (True, res, fs))
       }
       else do {
         (res, fs) \<leftarrow> (if delete_page then spiffs_page_delete cur_pix fs else Some (res, fs));
         Some (if res < 0 then Return (res, fs) else Continue (False, res, fs))
       }
     }
   }"

text \<open>The loops over the bytes of the bitmap and the two pages of each; \<open>k\<close> counts the pages.\<close>

primrec check_bitmap :: "nat \<Rightarrow> nat list \<Rightarrow> int \<Rightarrow> spiffs \<Rightarrow> scan_step" where
  "check_bitmap pix_offset [] res fs = Some (Continue (False, res, fs))"
| "check_bitmap pix_offset (k # ks) res fs = do {
     b \<leftarrow> page_mark 0 k fs;
     let bitmask = drop_bit (4 * (k mod 2)) b AND 7;
     r \<leftarrow> (if bitmask = 1 then check_unreferenced (u16_of (pix_offset + k)) fs else Some (Continue (False, res, fs)));
     case r of
       Return x \<Rightarrow> Some (Return x)
     | Break x \<Rightarrow> Some (Continue x)
     | Continue (restart, res, fs) \<Rightarrow>
         if restart then Some (Continue (True, res, fs)) else check_bitmap pix_offset ks res fs
   }"

text \<open>One pass over the file system for the range of pages from \<open>pix_offset\<close> on.\<close>

definition check_range :: "nat \<Rightarrow> int \<Rightarrow> spiffs \<Rightarrow> scan_step" where
  "check_range pix_offset res fs = do {
     let page = log_page_size (cfg fs);
     r \<leftarrow> check_blocks pix_offset 0 res (fs\<lparr>work := replicate page 0 @ drop page (work fs)\<rparr>);
     case r of
       Return x \<Rightarrow> Some (Return x)
     | Break x \<Rightarrow> Some (Continue x)
     | Continue (restart, res, fs) \<Rightarrow>
         if restart then Some (Continue (True, res, fs))
         else check_bitmap pix_offset [0..<2 * log_page_size (cfg fs)] res fs
   }"

partial_function (option) page_check_loop :: "nat \<Rightarrow> int \<Rightarrow> spiffs \<Rightarrow> (int \<times> spiffs) option" where
  "page_check_loop pix_offset res fs =
     (if pix_offset < u32_of (SPIFFS_PAGES_PER_BLOCK (cfg fs) * block_count fs) then do {
        r \<leftarrow> check_range pix_offset res fs;
        case r of
          Return x \<Rightarrow> Some x
        | Break (restart, res, fs) \<Rightarrow> None
        | Continue (restart, res, fs) \<Rightarrow>
            page_check_loop (if restart then pix_offset else u16_of (pix_offset + pages_per_scan (cfg fs))) res fs
      }
      else Some (res, fs))"

definition spiffs_page_consistency_check_i :: "spiffs \<Rightarrow> (int \<times> spiffs) option" where
  "spiffs_page_consistency_check_i fs = page_check_loop 0 SPIFFS_OK fs"

definition spiffs_page_consistency_check :: "spiffs \<Rightarrow> (int \<times> spiffs) option" where
  "spiffs_page_consistency_check fs = spiffs_page_consistency_check_i fs"

subsection \<open>The interface function\<close>

definition SPIFFS_check :: "spiffs \<Rightarrow> (int \<times> spiffs) option" where
  "SPIFFS_check fs =
     (case api_guard fs of Some e \<Rightarrow> Some (api_fail e fs) | None \<Rightarrow> do {
        (_, fs) \<leftarrow> spiffs_lookup_consistency_check fs;
        (_, fs) \<leftarrow> spiffs_object_index_consistency_check fs;
        (_, fs) \<leftarrow> spiffs_page_consistency_check fs;
        spiffs_obj_lu_scan fs
      })"

end
