(* ===== verification/Spiffs_Hal.thy ===== *)
theory Spiffs_Hal
  imports Spiffs_Layout
begin

section \<open>SPIFFS: the flash access layer\<close>

text \<open>
  \<open>spiffs_hal.cpp\<close>: the three callbacks SPIFFS uses to reach the SPI flash, written on top of
  \<open>ESP.flashRead\<close>, \<open>ESP.flashWrite\<close> and \<open>ESP.flashEraseSector\<close>. These call the vendor SDK, which
  is not part of the sources: they are the parameter \<open>dev\<close>, and the locale \<open>spi_flash\<close> states
  what the SDK documents of them (word-aligned accesses; NOR flash: programming can only clear
  bits, erasing sets a sector to ones). The locale \<open>nor_hal\<close> is the contract SPIFFS needs from its
  callbacks; it is proved for \<open>spiffs_hal.cpp\<close> over every such device, for the addresses where
  the code meets it.
\<close>

subsection \<open>The device\<close>

text \<open>\<open>None\<close>: the operation reports failure.\<close>

record spi_dev =
  flashRead :: "nat \<Rightarrow> nat \<Rightarrow> mem \<Rightarrow> byte list option"
  flashWrite :: "nat \<Rightarrow> byte list \<Rightarrow> mem \<Rightarrow> mem option"
  flashEraseSector :: "nat \<Rightarrow> mem \<Rightarrow> mem option"

definition prog :: "nat \<Rightarrow> byte list \<Rightarrow> mem \<Rightarrow> mem" where
  "prog a bs m = (\<lambda>x. if a \<le> x \<and> x < a + length bs then m x AND bs ! (x - a) else m x)"

definition erase :: "nat \<Rightarrow> nat \<Rightarrow> mem \<Rightarrow> mem" where
  "erase a n m = (\<lambda>x. if a \<le> x \<and> x < a + n then 0xff else m x)"

definition SPI_FLASH_SEC_SIZE :: nat where [c_defs]: "SPI_FLASH_SEC_SIZE = 4096"

subsection \<open>The callbacks\<close>

definition align_down4 :: "nat \<Rightarrow> nat" where
  "align_down4 x = x - x mod 4"

text \<open>\<open>alignedBegin\<close> and \<open>alignedEnd\<close>.\<close>

definition aligned_range :: "nat \<Rightarrow> nat \<Rightarrow> nat \<times> nat" where
  "aligned_range addr sz =
     (let ab = align_down4 (add32 addr 3); ae = align_down4 (add32 addr sz)
      in (ab, if ae < ab then ab else ae))"

text \<open>
  \<open>d0\<close> is what \<open>dst\<close> holds when the call fails. The copy of the leading bytes reads from
  \<open>&tmp + 4 - nb\<close>, which counts in words of the variable \<open>tmp\<close>: with one to three leading bytes
  it lies outside of \<open>tmp\<close>, an undefined access.
\<close>

definition spiffs_hal_read :: "spi_dev \<Rightarrow> (nat \<Rightarrow> byte list) \<Rightarrow> nat \<Rightarrow> nat \<Rightarrow> mem \<Rightarrow> (int \<times> byte list) option" where
  "spiffs_hal_read dev d0 addr sz m =
     (case aligned_range addr sz of (ab, ae) \<Rightarrow>
        if addr < ab then
          (case flashRead dev (sub32 ab 4) 4 m of
             None \<Rightarrow> Some (SPIFFS_ERR_INTERNAL, d0 sz)
           | Some _ \<Rightarrow> None)
        else
          let mid = (if ae \<noteq> ab then flashRead dev ab (ae - ab) m else Some []);
              nb = sub32 (add32 addr sz) ae
          in case mid of
               None \<Rightarrow> Some (SPIFFS_ERR_INTERNAL, d0 sz)
             | Some bs \<Rightarrow>
                 if add32 addr sz > ae then
                   (case flashRead dev ae 4 m of
                      None \<Rightarrow> Some (SPIFFS_ERR_INTERNAL, d0 sz)
                    | Some w \<Rightarrow> Some (SPIFFS_OK, bs @ take nb w))
                 else Some (SPIFFS_OK, bs))"

definition UNALIGNED_WRITE_BUFFER_SIZE :: nat where [c_defs]: "UNALIGNED_WRITE_BUFFER_SIZE = 512"

text \<open>The loop for a misaligned source; \<open>srcLeftover\<close> is a word pointer, so the source position
  advances by four times the bytes written.\<close>

function hal_write_chunks :: "spi_dev \<Rightarrow> byte list \<Rightarrow> nat \<Rightarrow> nat \<Rightarrow> nat \<Rightarrow> mem \<Rightarrow> (int \<times> mem) option" where
  "hal_write_chunks dev src off ab sizeLeft m =
     (if sizeLeft = 0 then Some (SPIFFS_OK, m)
      else
        let willCopy = min sizeLeft UNALIGNED_WRITE_BUFFER_SIZE in
        case buf_slice off willCopy src of
          None \<Rightarrow> None
        | Some buf \<Rightarrow>
            (case flashWrite dev ab buf m of
               None \<Rightarrow> Some (SPIFFS_ERR_INTERNAL, m)
             | Some m \<Rightarrow> hal_write_chunks dev src (off + 4 * willCopy) (ab + willCopy) (sizeLeft - willCopy) m))"
  by pat_completeness auto
termination
  by (relation "measure (\<lambda>(dev, src, off, ab, sizeLeft, m). sizeLeft)") (auto simp: c_defs)

declare hal_write_chunks.simps [simp del]

text \<open>\<open>src_addr\<close> is the address of the source buffer.\<close>

definition spiffs_hal_write :: "spi_dev \<Rightarrow> nat \<Rightarrow> nat \<Rightarrow> byte list \<Rightarrow> mem \<Rightarrow> (int \<times> mem) option" where
  "spiffs_hal_write dev src_addr addr src m =
     (case aligned_range addr (length src) of (ab, ae) \<Rightarrow>
        let sz = length src;
            ofs = ab - addr;
            pre = (if addr < ab then
                     let n = min sz ofs in
                     flashWrite dev (sub32 ab 4) (replicate (4 - ofs) 0xff @ take n src @ replicate (ofs - n) 0xff) m
                   else Some m)
        in case pre of
             None \<Rightarrow> Some (SPIFFS_ERR_INTERNAL, m)
           | Some m \<Rightarrow>
               (case (if ae = ab then Some (SPIFFS_OK, m)
                      else if (src_addr + ofs) mod 4 = 0 then
                        case buf_slice ofs (ae - ab) src of
                          None \<Rightarrow> None
                        | Some bs \<Rightarrow> Some (case flashWrite dev ab bs m of
                                            None \<Rightarrow> (SPIFFS_ERR_INTERNAL, m)
                                          | Some m \<Rightarrow> (SPIFFS_OK, m))
                      else hal_write_chunks dev src ofs ab (ae - ab) m) of
                  None \<Rightarrow> None
                | Some (res, m) \<Rightarrow>
                    if res \<noteq> SPIFFS_OK then Some (res, m)
                    else if add32 addr sz > ae then
                      let n = sub32 (add32 addr sz) ae in
                      (case flashWrite dev ae (drop (sz - n) src @ replicate (4 - n) 0xff) m of
                         None \<Rightarrow> Some (SPIFFS_ERR_INTERNAL, m)
                       | Some m \<Rightarrow> Some (SPIFFS_OK, m))
                    else Some (SPIFFS_OK, m)))"

primrec hal_erase_sectors :: "spi_dev \<Rightarrow> nat list \<Rightarrow> mem \<Rightarrow> int \<times> mem" where
  "hal_erase_sectors dev [] m = (SPIFFS_OK, m)"
| "hal_erase_sectors dev (s # ss) m =
     (case flashEraseSector dev s m of
        None \<Rightarrow> (SPIFFS_ERR_INTERNAL, m)
      | Some m \<Rightarrow> hal_erase_sectors dev ss m)"

text \<open>\<open>None\<close> is the call of \<open>abort\<close>.\<close>

definition spiffs_hal_erase :: "spi_dev \<Rightarrow> nat \<Rightarrow> nat \<Rightarrow> mem \<Rightarrow> (int \<times> mem) option" where
  "spiffs_hal_erase dev addr sz m =
     (if sz mod SPI_FLASH_SEC_SIZE \<noteq> 0 \<or> addr mod SPI_FLASH_SEC_SIZE \<noteq> 0 then None
      else
        let sector = addr div SPI_FLASH_SEC_SIZE; n = sz div SPI_FLASH_SEC_SIZE
        in Some (hal_erase_sectors dev [sector..<sector + n] m))"

subsection \<open>Contracts\<close>

text \<open>The SDK functions, for accesses inside a chip of \<open>chip\<close> bytes.\<close>

locale spi_flash =
  fixes dev :: spi_dev and chip :: nat
  assumes chip_size: "chip + 8 \<le> 2 ^ 32"
    and dev_read: "a mod 4 = 0 \<Longrightarrow> n mod 4 = 0 \<Longrightarrow> a + n \<le> chip \<Longrightarrow>
      flashRead dev a n m = Some (mem_read m a n)"
    and dev_write: "a mod 4 = 0 \<Longrightarrow> length bs mod 4 = 0 \<Longrightarrow> a + length bs \<le> chip \<Longrightarrow>
      flashWrite dev a bs m = Some (prog a bs m)"
    and dev_erase: "(s + 1) * SPI_FLASH_SEC_SIZE \<le> chip \<Longrightarrow>
      flashEraseSector dev s m = Some (erase (s * SPI_FLASH_SEC_SIZE) SPI_FLASH_SEC_SIZE m)"

text \<open>The contract of SPIFFS with its callbacks, on the ranges it can rely on.\<close>

locale nor_hal =
  fixes rd :: "nat \<Rightarrow> nat \<Rightarrow> mem \<Rightarrow> (int \<times> byte list) option"
    and wr :: "nat \<Rightarrow> byte list \<Rightarrow> mem \<Rightarrow> (int \<times> mem) option"
    and er :: "nat \<Rightarrow> nat \<Rightarrow> mem \<Rightarrow> (int \<times> mem) option"
    and readable :: "nat \<Rightarrow> nat \<Rightarrow> bool"
    and writable :: "nat \<Rightarrow> nat \<Rightarrow> bool"
    and erasable :: "nat \<Rightarrow> nat \<Rightarrow> bool"
  assumes rd_ok: "readable a n \<Longrightarrow> rd a n m = Some (SPIFFS_OK, mem_read m a n)"
    and wr_ok: "writable a (length bs) \<Longrightarrow> wr a bs m = Some (SPIFFS_OK, prog a bs m)"
    and er_ok: "erasable a n \<Longrightarrow> er a n m = Some (SPIFFS_OK, erase a n m)"

subsection \<open>Programming and erasing memory\<close>

lemma prog_nil [simp]: "prog a [] m = m"
  by (auto simp: prog_def fun_eq_iff)

lemma prog_other: "x < a \<or> a + length bs \<le> x \<Longrightarrow> prog a bs m x = m x"
  by (auto simp: prog_def)

lemma prog_append: "prog a (bs @ cs) m = prog (a + length bs) cs (prog a bs m)"
  by (auto simp: prog_def fun_eq_iff nth_append)

lemma and_ff [simp]: "(b :: byte) AND 0xff = b" "0xff AND b = b"
proof -
  have "(0xff :: byte) = - 1" by simp
  then show "b AND 0xff = b" "0xff AND b = b" by (metis word_and_max and.commute)+
qed

lemma prog_ones [simp]: "prog a (replicate n 0xff) m = m"
  by (auto simp: prog_def fun_eq_iff)

text \<open>Programming with bytes that only clear bits stores exactly these bytes.\<close>

definition clears :: "nat \<Rightarrow> byte list \<Rightarrow> mem \<Rightarrow> bool" where
  "clears a bs m \<longleftrightarrow> (\<forall>i < length bs. m (a + i) AND bs ! i = bs ! i)"

lemma prog_clears: "clears a bs m \<Longrightarrow> prog a bs m = mem_write a bs m"
proof
  fix x assume "clears a bs m"
  then have "x - a < length bs \<Longrightarrow> m (a + (x - a)) AND bs ! (x - a) = bs ! (x - a)"
    by (simp add: clears_def)
  then show "prog a bs m x = mem_write a bs m x"
    by (auto simp: prog_def mem_write_def)
qed

lemma clears_erased: "(\<And>i. i < length bs \<Longrightarrow> m (a + i) = 0xff) \<Longrightarrow> clears a bs m"
  by (simp add: clears_def)

lemma erase_add: "erase (a + n) k (erase a n m) = erase a (n + k) m"
  by (auto simp: erase_def fun_eq_iff)

lemma mem_read_erase: "a \<le> b \<Longrightarrow> b + k \<le> a + n \<Longrightarrow> mem_read (erase a n m) b k = replicate k 0xff"
  by (rule nth_equalityI) (auto simp: erase_def)

lemma mem_read_erase_other: "b + k \<le> a \<or> a + n \<le> b \<Longrightarrow> mem_read (erase a n m) b k = mem_read m b k"
  by (rule mem_read_cong) (auto simp: erase_def)

lemma mem_read_prog_other: "b + k \<le> a \<or> a + length bs \<le> b \<Longrightarrow> mem_read (prog a bs m) b k = mem_read m b k"
  by (rule mem_read_cong) (auto simp: prog_def)

subsection \<open>The callbacks meet the contract\<close>

lemma align_down4_mod [simp]: "align_down4 x mod 4 = 0"
  by (simp add: align_down4_def minus_mod_eq_mult_div)

lemma align_down4_le: "align_down4 x \<le> x" "x < align_down4 x + 4"
proof -
  have "x mod 4 < 4" by simp
  then show "align_down4 x \<le> x" "x < align_down4 x + 4" by (simp_all add: align_down4_def)
qed

lemma aligned_range_less:
  assumes "addr + sz + 3 < 2 ^ 32"
  shows "aligned_range addr sz = (align_down4 (addr + 3),
           max (align_down4 (addr + 3)) (align_down4 (addr + sz)))"
  using assms by (simp add: aligned_range_def max_def Let_def)

lemma align_down4_id: "addr mod 4 = 0 \<Longrightarrow> align_down4 (addr + 3) = addr"
proof -
  assume "addr mod 4 = 0"
  then obtain k where "addr = 4 * k" by (metis mod_0_imp_dvd dvdE)
  then show ?thesis by (simp add: align_down4_def)
qed

context spi_flash
begin

lemma hal_read_ok:
  assumes "addr mod 4 = 0" and fits: "addr + sz + 4 \<le> chip"
  shows "spiffs_hal_read dev d0 addr sz m = Some (SPIFFS_OK, mem_read m addr sz)"
proof -
  define ae where "ae = align_down4 (addr + sz)"
  have ab: "align_down4 (addr + 3) = addr"
    using assms(1) by (rule align_down4_id)
  have ae: "ae mod 4 = 0" "ae \<le> addr + sz" "addr + sz < ae + 4"
    using align_down4_le [of "addr + sz"] by (simp_all add: ae_def)
  have le: "addr \<le> ae" using ae assms(1) by presburger
  have r: "aligned_range addr sz = (addr, ae)"
    using fits chip_size le by (simp add: aligned_range_less ab ae_def max_def)
  have mid: "(if ae \<noteq> addr then flashRead dev addr (ae - addr) m else Some []) = Some (mem_read m addr (ae - addr))"
  proof -
    have "(ae - addr) mod 4 = 0" using ae(1) assms(1) le by presburger
    then show ?thesis using ae le assms by (auto simp: dev_read)
  qed
  have tail: "flashRead dev ae 4 m = Some (mem_read m ae 4)"
    using ae fits by (intro dev_read) auto
  have split: "mem_read m addr sz = mem_read m addr (ae - addr) @ mem_read m ae (addr + sz - ae)"
    using mem_read_add [of m addr "ae - addr" "addr + sz - ae"] le ae by simp
  have nb: "add32 addr sz = addr + sz" "sub32 (addr + sz) ae = addr + sz - ae"
    using fits chip_size ae by simp_all
  have "take (addr + sz - ae) (mem_read m ae 4) = mem_read m ae (addr + sz - ae)"
    using ae by (intro take_mem_read) simp
  then show ?thesis
    using ae unfolding spiffs_hal_read_def r split
    by (cases "ae < addr + sz") (simp_all only: mid tail nb Let_def prod.case option.case if_True if_False
      less_irrefl not_less refl simp_thms, simp_all)
qed

lemma hal_chunks_ok:
  assumes "0 < n" "n \<le> 512" "n mod 4 = 0" "ab mod 4 = 0" "ab + n \<le> chip" "off + n \<le> length src"
  shows "hal_write_chunks dev src off ab n m = Some (SPIFFS_OK, prog ab (take n (drop off src)) m)"
proof -
  have "length (take n (drop off src)) = n" using assms by simp
  then have w: "flashWrite dev ab (take n (drop off src)) m = Some (prog ab (take n (drop off src)) m)"
    using assms by (intro dev_write) auto
  show ?thesis
    using assms w
    by (subst hal_write_chunks.simps)
      (simp add: c_defs min_def buf_slice_def hal_write_chunks.simps [of _ _ _ _ 0])
qed

lemma hal_mid_ok:
  assumes "ab \<le> ae" "ae - ab \<le> 512" "ab mod 4 = 0" "ae mod 4 = 0" "ae \<le> chip" "ofs + (ae - ab) \<le> length src"
  shows "(if ae = ab then Some (SPIFFS_OK, m)
          else if (src_addr + ofs) mod 4 = 0 then
            case buf_slice ofs (ae - ab) src of
              None \<Rightarrow> None
            | Some bs \<Rightarrow> Some (case flashWrite dev ab bs m of
                                None \<Rightarrow> (SPIFFS_ERR_INTERNAL, m)
                              | Some m \<Rightarrow> (SPIFFS_OK, m))
          else hal_write_chunks dev src ofs ab (ae - ab) m)
         = Some (SPIFFS_OK, prog ab (take (ae - ab) (drop ofs src)) m)"
proof -
  have "(ae - ab) mod 4 = 0" using assms by presburger
  moreover have "length (take (ae - ab) (drop ofs src)) = ae - ab" using assms by simp
  ultimately show ?thesis
    using assms by (auto simp: buf_slice_def dev_write hal_chunks_ok)
qed

lemma hal_write_ok:
  assumes fits: "addr + length src + 4 \<le> chip" and len: "length src \<le> 512"
  shows "spiffs_hal_write dev src_addr addr src m = Some (SPIFFS_OK, prog addr src m)"
proof -
  define sz where "sz = length src"
  define ab where "ab = align_down4 (addr + 3)"
  define ae where "ae = max ab (align_down4 (addr + sz))"
  define ofs where "ofs = ab - addr"
  define n where "n = min sz ofs"
  have ab: "ab mod 4 = 0" "addr \<le> ab" "ab \<le> addr + 3"
    using align_down4_le [of "addr + 3"] by (simp_all add: ab_def)
  have ae: "ae mod 4 = 0" "ab \<le> ae" "addr + sz < ae + 4" "ae \<le> ab \<or> ae \<le> addr + sz"
    using align_down4_le [of "addr + sz"] ab by (auto simp: ae_def max_def)
  have r: "aligned_range addr (length src) = (ab, ae)"
    using fits chip_size by (simp add: aligned_range_less ab_def ae_def sz_def)
  let ?pre = "replicate (4 - ofs) 0xff @ take n src @ replicate (ofs - n) 0xff"
  have pre: "flashWrite dev (sub32 ab 4) ?pre m = Some (prog addr (take n src) m)" if "addr < ab"
  proof -
    have "4 \<le> ab" "ofs \<le> 3" using ab that ofs_def by presburger+
    moreover have "length ?pre = 4" using \<open>ofs \<le> 3\<close> by (simp add: n_def sz_def)
    moreover have "(ab - 4) mod 4 = 0" using ab(1) \<open>4 \<le> ab\<close> by presburger
    ultimately have "flashWrite dev (ab - 4) ?pre m = Some (prog (ab - 4) ?pre m)"
      using ab fits by (intro dev_write) auto
    moreover have "prog (ab - 4) ?pre m = prog addr (take n src) m"
      using \<open>4 \<le> ab\<close> that \<open>ofs \<le> 3\<close> by (simp add: prog_append ofs_def)
    ultimately show ?thesis using \<open>4 \<le> ab\<close> fits chip_size ab by simp
  qed
  have pre': "(if addr < ab then flashWrite dev (sub32 ab 4) ?pre m else Some m) = Some (prog addr (take n src) m)"
    using pre ab by (auto simp: n_def ofs_def)
  have small: "sz < ofs \<Longrightarrow> ae = ab" using ae ab ofs_def by linarith
  have mid_len: "ofs + (ae - ab) \<le> length src" if "ofs \<le> sz" using that ae ab sz_def ofs_def by linarith
  show ?thesis
  proof (cases "sz < ofs")
    case True
    then have "n = sz" "ae = ab" "\<not> addr + sz > ae" using small ofs_def n_def by auto
    moreover have "addr < ab" using True ofs_def by simp
    moreover have "add32 addr sz = addr + sz" using fits chip_size sz_def by simp
    ultimately show ?thesis
      using pre unfolding spiffs_hal_write_def r
      by (simp add: Let_def ofs_def [symmetric] sz_def [symmetric] n_def [symmetric])
  next
    case False
    then have n: "n = ofs" by (simp add: n_def)
    have ends: "ae \<le> addr + sz" using ae False ab ofs_def by linarith
    let ?m1 = "prog addr (take n src) m"
    let ?m2 = "prog ab (take (ae - ab) (drop ofs src)) ?m1"
    let ?k = "addr + sz - ae"
    have mid: "(if ae = ab then Some (SPIFFS_OK, ?m1)
          else if (src_addr + ofs) mod 4 = 0 then
            case buf_slice ofs (ae - ab) src of
              None \<Rightarrow> None
            | Some bs \<Rightarrow> Some (case flashWrite dev ab bs ?m1 of
                                None \<Rightarrow> (SPIFFS_ERR_INTERNAL, ?m1)
                              | Some m \<Rightarrow> (SPIFFS_OK, m))
          else hal_write_chunks dev src ofs ab (ae - ab) ?m1) = Some (SPIFFS_OK, ?m2)"
      using ab ae fits len mid_len False ends by (intro hal_mid_ok) (auto simp: sz_def)
    have tail: "flashWrite dev ae (drop (sz - ?k) src @ replicate (4 - ?k) 0xff) ?m2
                  = Some (prog ae (drop (sz - ?k) src) ?m2)" if "ae < addr + sz"
    proof -
      have "?k \<le> sz" using ab ae by linarith
      then have "length (drop (sz - ?k) src @ replicate (4 - ?k) 0xff) = 4" using ae by (simp add: sz_def)
      then show ?thesis using that ae fits by (subst dev_write) (auto simp: sz_def prog_append)
    qed
    have parts: "take n src @ take (ae - ab) (drop ofs src) @ drop (sz - ?k) src = src"
    proof -
      have "sz - ?k = ofs + (ae - ab)" using ends ab ae False ofs_def by linarith
      moreover have "take (ae - ab) (drop ofs src) @ drop (ofs + (ae - ab)) src = drop ofs src"
        by (metis append_take_drop_id drop_drop add.commute)
      ultimately show ?thesis by (simp add: n)
    qed
    have "prog addr (take n src @ take (ae - ab) (drop ofs src) @ drop (sz - ?k) src) m
            = prog ae (drop (sz - ?k) src) ?m2"
    proof -
      have "length (take n src) = ab - addr" "length (take (ae - ab) (drop ofs src)) = ae - ab"
        using ab False mid_len by (simp_all add: n sz_def ofs_def)
      then show ?thesis using ab ae by (simp add: prog_append)
    qed
    then have whole: "prog ae (drop (sz - ?k) src) ?m2 = prog addr src m" by (simp add: parts)
    have w: "add32 addr sz = addr + sz" "sub32 (addr + sz) ae = ?k" using fits chip_size ends by (simp_all add: sz_def)
    note unfolded = spiffs_hal_write_def r [folded sz_def] prod.case Let_def sz_def [symmetric] ofs_def [symmetric]
      n_def [symmetric] pre' option.case mid
    show ?thesis
    proof (cases "ae < addr + sz")
      case True
      then show ?thesis using tail by (simp only: unfolded w whole) simp
    next
      case False
      then have "drop (sz - ?k) src = []" using ends by (simp add: sz_def)
      then have "?m2 = prog addr src m" using whole by simp
      then show ?thesis using False by (simp only: unfolded w) simp
    qed
  qed
qed

lemma hal_erase_sectors_ok:
  "(s + n) * SPI_FLASH_SEC_SIZE \<le> chip \<Longrightarrow>
   hal_erase_sectors dev [s..<s + n] m =
     (SPIFFS_OK, erase (s * SPI_FLASH_SEC_SIZE) (n * SPI_FLASH_SEC_SIZE) m)"
proof (induction n arbitrary: s m)
  case 0
  then show ?case by (auto simp: erase_def fun_eq_iff)
next
  case (Suc n)
  have "[s..<s + Suc n] = s # [Suc s..<Suc s + n]"
    by (simp add: upt_conv_Cons del: upt_Suc)
  moreover have "(s + 1) * SPI_FLASH_SEC_SIZE \<le> chip"
    using Suc.prems by (rule le_trans [rotated]) (simp add: SPI_FLASH_SEC_SIZE_def)
  ultimately show ?case
    using Suc.prems Suc.IH [of "Suc s"] erase_add [of "s * SPI_FLASH_SEC_SIZE" SPI_FLASH_SEC_SIZE]
    by (simp add: dev_erase algebra_simps)
qed

lemma hal_erase_ok:
  assumes "addr mod SPI_FLASH_SEC_SIZE = 0" "sz mod SPI_FLASH_SEC_SIZE = 0" "addr + sz \<le> chip"
  shows "spiffs_hal_erase dev addr sz m = Some (SPIFFS_OK, erase addr sz m)"
proof -
  have "addr div SPI_FLASH_SEC_SIZE * SPI_FLASH_SEC_SIZE = addr" "sz div SPI_FLASH_SEC_SIZE * SPI_FLASH_SEC_SIZE = sz"
    using assms by (simp_all add: mod_0_imp_dvd)
  then show ?thesis
    using assms hal_erase_sectors_ok [of "addr div SPI_FLASH_SEC_SIZE" "sz div SPI_FLASH_SEC_SIZE" m]
    by (simp add: spiffs_hal_erase_def add_mult_distrib Let_def)
qed

end

text \<open>What the callbacks of \<open>spiffs_hal.cpp\<close> guarantee: word-aligned reads, writes of at most one
  write buffer, sector-aligned erases, four bytes short of the end of the chip.\<close>

definition hal_readable :: "nat \<Rightarrow> nat \<Rightarrow> nat \<Rightarrow> bool" where
  "hal_readable chip a n \<longleftrightarrow> a mod 4 = 0 \<and> a + n + 4 \<le> chip"

definition hal_writable :: "nat \<Rightarrow> nat \<Rightarrow> nat \<Rightarrow> bool" where
  "hal_writable chip a n \<longleftrightarrow> n \<le> UNALIGNED_WRITE_BUFFER_SIZE \<and> a + n + 4 \<le> chip"

definition hal_erasable :: "nat \<Rightarrow> nat \<Rightarrow> nat \<Rightarrow> bool" where
  "hal_erasable chip a n \<longleftrightarrow>
     a mod SPI_FLASH_SEC_SIZE = 0 \<and> n mod SPI_FLASH_SEC_SIZE = 0 \<and> a + n \<le> chip"

sublocale spi_flash \<subseteq> hal: nor_hal "spiffs_hal_read dev d0" "spiffs_hal_write dev src_addr"
    "spiffs_hal_erase dev" "hal_readable chip" "hal_writable chip" "hal_erasable chip" for d0 src_addr
  by unfold_locales
    (simp_all add: hal_readable_def hal_writable_def hal_erasable_def hal_read_ok hal_write_ok hal_erase_ok
      UNALIGNED_WRITE_BUFFER_SIZE_def)

context spi_flash
begin

lemma esp_hal: "nor_hal (spiffs_hal_read dev d0) (spiffs_hal_write dev src_addr) (spiffs_hal_erase dev)
    (hal_readable chip) (hal_writable chip) (hal_erasable chip)"
  by (rule hal.nor_hal_axioms)

end

text \<open>A chip that behaves as documented, without size limit on the accesses: the instance on which
  the hypotheses of the theorems below are shown to hold.\<close>

definition nor_chip :: spi_dev where
  "nor_chip = \<lparr>flashRead = \<lambda>a n m. Some (mem_read m a n), flashWrite = \<lambda>a bs m. Some (prog a bs m),
     flashEraseSector = \<lambda>s m. Some (erase (s * SPI_FLASH_SEC_SIZE) SPI_FLASH_SEC_SIZE m)\<rparr>"

interpretation chip: spi_flash nor_chip "4 * 1024 * 1024"
  by unfold_locales (simp_all add: nor_chip_def)

subsection \<open>Properties\<close>

text \<open>
  C26: Writing up to 512 bytes through \<open>spiffs_hal_write\<close> programs exactly the addressed bytes, for
  every alignment of the flash address and of the source buffer, over every device that follows
  the SDK documentation: the padding words of 0xff around an unaligned range change nothing.
\<close>

theorem spiffs_hal_write_programs:
  assumes "spi_flash dev chip" and "addr + length src + 4 \<le> chip" and "length src \<le> 512"
  shows "spiffs_hal_write dev src_addr addr src m = Some (SPIFFS_OK, prog addr src m)"
  using assms by (rule spi_flash.hal_write_ok)

theorem spiffs_hal_write_programs_witness:
  "spiffs_hal_write nor_chip 1 4099 [1, 2, 3, 4, 5, 6] (\<lambda>_. 0xff) =
     Some (SPIFFS_OK, prog 4099 [1, 2, 3, 4, 5, 6] (\<lambda>_. 0xff))"
  using chip.spi_flash_axioms by (rule spiffs_hal_write_programs) simp_all

text \<open>
  A read at a word-aligned address returns the bytes of the flash; a read at any other address
  is undefined as soon as the device answers, because the leading bytes are copied from outside of
  the word just read.
\<close>

theorem spiffs_hal_read_alignment:
  assumes "spi_flash dev chip" and "addr + sz + 4 \<le> chip"
  shows "spiffs_hal_read dev d0 addr sz m =
           (if addr mod 4 = 0 then Some (SPIFFS_OK, mem_read m addr sz) else None)"
proof (cases "addr mod 4 = 0")
  case True
  then show ?thesis using assms by (simp add: spi_flash.hal_read_ok)
next
  case False
  have chip: "chip + 8 \<le> 2 ^ 32" using assms(1) by (simp add: spi_flash_def)
  define ab where "ab = align_down4 (addr + 3)"
  have ab: "ab mod 4 = 0" "ab \<le> addr + 3" "addr + 3 < ab + 4"
    using align_down4_le [of "addr + 3"] by (simp_all add: ab_def)
  then have "addr < ab" using False by (cases "addr = ab") auto
  moreover have "4 \<le> ab" using ab \<open>addr < ab\<close> by presburger
  moreover have "flashRead dev (ab - 4) 4 m = Some (mem_read m (ab - 4) 4)"
    using ab \<open>4 \<le> ab\<close> assms(2) by (intro spi_flash.dev_read [OF assms(1)]) presburger+
  ultimately show ?thesis
    using False assms(2) chip ab by (simp add: spiffs_hal_read_def aligned_range_less ab_def [symmetric])
qed

theorem spiffs_hal_read_alignment_witness:
  "spiffs_hal_read nor_chip (\<lambda>n. []) 8 3 (\<lambda>_. 7) =
     (if 8 mod 4 = (0 :: nat) then Some (SPIFFS_OK, mem_read (\<lambda>_. 7) 8 3) else None) \<and>
   spiffs_hal_read nor_chip (\<lambda>n. []) 254 2 (\<lambda>_. 7) =
     (if 254 mod 4 = (0 :: nat) then Some (SPIFFS_OK, mem_read (\<lambda>_. 7) 254 2) else None)"
  using spiffs_hal_read_alignment [OF chip.spi_flash_axioms, of 8 3 "\<lambda>n. []" "\<lambda>_. 7"]
    spiffs_hal_read_alignment [OF chip.spi_flash_axioms, of 254 2 "\<lambda>n. []" "\<lambda>_. 7"]
  by simp

end
