(* ===== verification/Spiffs_Coherence.thy ===== *)
theory Spiffs_Coherence
  imports Spiffs_Cache Spiffs_Hal
begin

section \<open>SPIFFS: coherence of the page cache\<close>

text \<open>
  The invariant of the page cache and the proof that, while it holds, a read through the cache
  returns the bytes of the flash and a write reaches both. The invariant: the tables have their
  sizes, every read page in use mirrors its flash page, no flash page is cached twice, the access
  stamps lie in the past, and at least one page is not taken by write caching.
\<close>

subsection \<open>Geometry\<close>

definition geom :: "spiffs_config \<Rightarrow> bool" where
  "geom c \<longleftrightarrow> 0 < log_page_size c \<and> phys_addr c + phys_size c < 2 ^ 32 \<and> SPIFFS_MAX_PAGES c \<le> 65536"

definition page_of :: "spiffs_config \<Rightarrow> nat \<Rightarrow> nat" where
  "page_of c addr = (addr - phys_addr c) div log_page_size c"

definition page_start :: "spiffs_config \<Rightarrow> nat \<Rightarrow> nat" where
  "page_start c pix = phys_addr c + pix * log_page_size c"

text \<open>The range lies inside one page of the file system.\<close>

definition in_page :: "spiffs_config \<Rightarrow> nat \<Rightarrow> nat \<Rightarrow> bool" where
  "in_page c addr n \<longleftrightarrow> phys_addr c \<le> addr \<and> page_of c addr < SPIFFS_MAX_PAGES c \<and>
     addr + n \<le> page_start c (page_of c addr) + log_page_size c"

lemma page_start_le: "phys_addr c \<le> addr \<Longrightarrow> page_start c (page_of c addr) \<le> addr"
  unfolding page_start_def page_of_def by (metis div_times_less_eq_dividend le_add_diff_inverse nat_add_left_cancel_le)

lemma pages_fit: "geom c \<Longrightarrow> p < SPIFFS_MAX_PAGES c \<Longrightarrow> page_start c p + log_page_size c < 2 ^ 32"
proof -
  assume g: "geom c" and "p < SPIFFS_MAX_PAGES c"
  then have "Suc p * log_page_size c \<le> SPIFFS_MAX_PAGES c * log_page_size c" by (intro mult_le_mono1) simp
  also have "\<dots> \<le> phys_size c" by (simp add: SPIFFS_MAX_PAGES_def div_times_less_eq_dividend)
  finally show ?thesis using g by (simp add: geom_def page_start_def)
qed

lemma PAGE_TO_PADDR_eq: "geom c \<Longrightarrow> p < SPIFFS_MAX_PAGES c \<Longrightarrow> SPIFFS_PAGE_TO_PADDR c p = page_start c p"
  using pages_fit [of c p] by (simp add: SPIFFS_PAGE_TO_PADDR_def page_start_def)

lemma in_page_addr:
  assumes "geom c" "in_page c addr n"
  shows "addr < 2 ^ 32" "page_of c addr < 65536"
    "SPIFFS_PADDR_TO_PAGE c addr = page_of c addr"
    "SPIFFS_PADDR_TO_PAGE_OFFSET c addr = addr - page_start c (page_of c addr)"
    "addr - page_start c (page_of c addr) + n \<le> log_page_size c"
    "sub32 addr (SPIFFS_PADDR_TO_PAGE_OFFSET c addr) = page_start c (page_of c addr)"
proof -
  have le: "phys_addr c \<le> addr" and p: "page_of c addr < SPIFFS_MAX_PAGES c"
    and e: "addr + n \<le> page_start c (page_of c addr) + log_page_size c"
    using assms(2) by (auto simp: in_page_def)
  have f: "page_start c (page_of c addr) + log_page_size c < 2 ^ 32" using pages_fit [OF assms(1) p] .
  then show a: "addr < 2 ^ 32" using e by simp
  show "page_of c addr < 65536" using p assms(1) by (simp add: geom_def)
  have s: "sub32 addr (phys_addr c) = addr - phys_addr c" using a le by simp
  show "SPIFFS_PADDR_TO_PAGE c addr = page_of c addr" by (simp add: SPIFFS_PADDR_TO_PAGE_def s page_of_def)
  have st: "page_start c (page_of c addr) \<le> addr" using le by (rule page_start_le)
  show o: "SPIFFS_PADDR_TO_PAGE_OFFSET c addr = addr - page_start c (page_of c addr)"
    by (simp add: SPIFFS_PADDR_TO_PAGE_OFFSET_def s page_start_def page_of_def minus_div_mult_eq_mod [symmetric])
  show "addr - page_start c (page_of c addr) + n \<le> log_page_size c" using e st by simp
  show "sub32 addr (SPIFFS_PADDR_TO_PAGE_OFFSET c addr) = page_start c (page_of c addr)"
    using a st by (simp add: o)
qed

lemma pages_disjoint:
  "p \<noteq> q \<Longrightarrow> page_start c p + log_page_size c \<le> page_start c q \<or> page_start c q + log_page_size c \<le> page_start c p"
proof -
  assume "p \<noteq> q"
  then consider "Suc p \<le> q" | "Suc q \<le> p" by linarith
  then show ?thesis
    by cases (use mult_le_mono1 [of "Suc p" q "log_page_size c"] mult_le_mono1 [of "Suc q" p "log_page_size c"]
      in \<open>simp_all add: page_start_def\<close>)
qed

subsection \<open>The invariant\<close>

text \<open>A page in use as a read cache.\<close>

definition read_page :: "spiffs_cache \<Rightarrow> nat \<Rightarrow> bool" where
  "read_page c i \<longleftrightarrow> i < cpage_count c \<and> bit (cpage_use_map c) i \<and> cp_flags (cpages c ! i) AND CACHE_FLAG_TYPE_WR = 0"

definition cache_wf :: "nat \<Rightarrow> spiffs_cache \<Rightarrow> bool" where
  "cache_wf page c \<longleftrightarrow> cpage_count c = length (cpages c) \<and> cpage_count c \<le> 32 \<and>
     cpage_use_mask c = mask (cpage_count c) \<and>
     (\<forall>i < 32. cpage_count c \<le> i \<longrightarrow> bit (cpage_use_map c) i) \<and>
     (\<forall>i < cpage_count c. length (cp_data (cpages c ! i)) = page)"

definition mirrors :: "spiffs_config \<Rightarrow> mem \<Rightarrow> spiffs_cache \<Rightarrow> bool" where
  "mirrors cf m c \<longleftrightarrow>
     (\<forall>i. read_page c i \<longrightarrow> cp_flags (cpages c ! i) = CACHE_FLAG_WRTHRU \<and> cp_pix (cpages c ! i) < SPIFFS_MAX_PAGES cf \<and>
        cp_data (cpages c ! i) = mem_read m (page_start cf (cp_pix (cpages c ! i))) (log_page_size cf)) \<and>
     (\<forall>i j. read_page c i \<longrightarrow> read_page c j \<longrightarrow> cp_pix (cpages c ! i) = cp_pix (cpages c ! j) \<longrightarrow> i = j)"

definition stamped :: "nat \<Rightarrow> spiffs_cache \<Rightarrow> bool" where
  "stamped n c \<longleftrightarrow> c_last_access c + n < 2 ^ 32 \<and>
     (\<forall>i < cpage_count c. cp_last_access (cpages c ! i) \<le> c_last_access c)"

definition read_slot :: "spiffs_cache \<Rightarrow> bool" where
  "read_slot c \<longleftrightarrow> (\<exists>i < cpage_count c. \<not> bit (cpage_use_map c) i \<or> cp_flags (cpages c ! i) AND CACHE_FLAG_TYPE_WR = 0)"

text \<open>\<open>n\<close> more accesses fit before the access counter wraps.\<close>

definition cache_ok :: "nat \<Rightarrow> spiffs \<Rightarrow> bool" where
  "cache_ok n fs \<longleftrightarrow> (\<exists>c. cache fs = Some c \<and> cache_wf (log_page_size (cfg fs)) c \<and>
     mirrors (cfg fs) (flash fs) c \<and> stamped n c \<and> read_slot c)"

lemma cache_okE:
  assumes "cache_ok n fs"
  obtains c where "cache fs = Some c" "cache_wf (log_page_size (cfg fs)) c"
    "mirrors (cfg fs) (flash fs) c" "stamped n c" "read_slot c"
  using assms by (auto simp: cache_ok_def)

lemma wr_flag_simps [simp]:
  "CACHE_FLAG_WRTHRU AND CACHE_FLAG_TYPE_WR = 0" "CACHE_FLAG_WRTHRU AND CACHE_FLAG_DIRTY = 0"
  "CACHE_FLAG_WRTHRU \<noteq> 0"
  by (simp_all add: CACHE_FLAG_WRTHRU_def CACHE_FLAG_TYPE_WR_def CACHE_FLAG_DIRTY_def)

subsection \<open>Changing one page\<close>

lemma upd_cp_simps [simp]:
  "cpage_count (upd_cp i f c) = cpage_count c" "c_last_access (upd_cp i f c) = c_last_access c"
  "cpage_use_map (upd_cp i f c) = cpage_use_map c" "cpage_use_mask (upd_cp i f c) = cpage_use_mask c"
  "length (cpages (upd_cp i f c)) = length (cpages c)"
  by (simp_all add: upd_cp_def)

lemma cpages_upd_cp:
  "j < length (cpages c) \<Longrightarrow> cpages (upd_cp i f c) ! j = (if j = i then f (cpages c ! i) else cpages c ! j)"
  by (simp add: upd_cp_def nth_list_update)

lemma cache_tick_simps [simp]:
  "cpage_count (cache_tick c) = cpage_count c" "cpages (cache_tick c) = cpages c"
  "cpage_use_map (cache_tick c) = cpage_use_map c" "cpage_use_mask (cache_tick c) = cpage_use_mask c"
  by (simp_all add: cache_tick_def)

text \<open>A stamp changes nothing but the stamps.\<close>

abbreviation stamp :: "nat \<Rightarrow> nat \<Rightarrow> spiffs_cache \<Rightarrow> spiffs_cache" where
  "stamp i t \<equiv> upd_cp i (cp_last_access_update (\<lambda>_. t))"

lemma stamp_same:
  "j < length (cpages c) \<Longrightarrow> cp_flags (cpages (stamp i t c) ! j) = cp_flags (cpages c ! j) \<and>
     cp_pix (cpages (stamp i t c) ! j) = cp_pix (cpages c ! j) \<and> cp_data (cpages (stamp i t c) ! j) = cp_data (cpages c ! j)"
  by (simp add: cpages_upd_cp)

lemma read_page_cong:
  assumes "cpage_count c' = cpage_count c" "cpage_use_map c' = cpage_use_map c"
    and "\<And>j. j < cpage_count c \<Longrightarrow> cp_flags (cpages c' ! j) = cp_flags (cpages c ! j)"
  shows "read_page c' i = read_page c i"
  using assms by (auto simp: read_page_def)

lemma stamp_keeps:
  assumes "cache_wf page c"
  shows "cache_wf page (stamp i t c)" "mirrors cf m (stamp i t c) = mirrors cf m c" "read_slot (stamp i t c) = read_slot c"
proof -
  have len: "cpage_count c = length (cpages c)" using assms by (simp add: cache_wf_def)
  have f: "j < cpage_count c \<Longrightarrow> cp_flags (cpages (stamp i t c) ! j) = cp_flags (cpages c ! j)"
    "j < cpage_count c \<Longrightarrow> cp_pix (cpages (stamp i t c) ! j) = cp_pix (cpages c ! j)"
    "j < cpage_count c \<Longrightarrow> cp_data (cpages (stamp i t c) ! j) = cp_data (cpages c ! j)" for j
    using stamp_same [of j c i t] len by simp_all
  have rp: "read_page (stamp i t c) j = read_page c j" for j
    by (rule read_page_cong) (simp_all add: f)
  have lt: "read_page c j \<Longrightarrow> j < cpage_count c" for j by (simp add: read_page_def)
  show "cache_wf page (stamp i t c)" using assms by (simp add: cache_wf_def f)
  show "mirrors cf m (stamp i t c) = mirrors cf m c"
    by (simp add: mirrors_def rp f [OF lt] cong: imp_cong)
  show "read_slot (stamp i t c) = read_slot c" by (auto simp: read_slot_def f)
qed

lemma stamp_stamped:
  assumes "cache_wf page c" "stamped n c" "t \<le> c_last_access c"
  shows "stamped n (stamp i t c)"
  using assms by (auto simp: stamped_def cache_wf_def cpages_upd_cp)

lemma tick_keeps:
  assumes "stamped (Suc n) c"
  shows "stamped n (cache_tick c)" "c_last_access (cache_tick c) = c_last_access c + 1"
    "cache_wf page (cache_tick c) = cache_wf page c" "mirrors cf m (cache_tick c) = mirrors cf m c"
    "read_slot (cache_tick c) = read_slot c"
  using assms
  by (auto simp: stamped_def cache_tick_def cache_wf_def mirrors_def read_page_def read_slot_def)

subsection \<open>Searching the cache\<close>

lemma cache_page_scan_find:
  "\<forall>i \<in> set is. i < 32 \<and> i < length (cpages c) \<Longrightarrow>
   cache_page_scan P c is = Some (find (\<lambda>i. bit (cpage_use_map c) i \<and> P (cpages c ! i)) is)"
  by (induction "is") auto

lemma use_map_free:
  assumes "cache_wf page c" "cpage_use_map c AND cpage_use_mask c = 0" "i < cpage_count c"
  shows "\<not> bit (cpage_use_map c) i"
proof -
  have "\<not> bit (cpage_use_map c AND mask (cpage_count c)) i" using assms by (simp add: cache_wf_def)
  then show ?thesis using assms by (simp add: bit_and_iff bit_mask_iff cache_wf_def)
qed

lemma use_map_busy:
  assumes "cache_wf page c"
  shows "cpage_use_map c AND cpage_use_mask c = cpage_use_mask c \<longleftrightarrow> (\<forall>i < cpage_count c. bit (cpage_use_map c) i)"
proof -
  have n: "cpage_use_mask c = mask (cpage_count c)" "cpage_count c \<le> 32" using assms by (simp_all add: cache_wf_def)
  have "(\<forall>i < cpage_count c. bit (cpage_use_map c) i) = (\<forall>i < 32. bit (cpage_use_map c AND mask (cpage_count c)) i = bit (mask (cpage_count c) :: u32) i)"
    using n(2) by (auto simp: bit_and_iff bit_mask_iff) (meson less_le_trans)
  also have "\<dots> = (cpage_use_map c AND mask (cpage_count c) = mask (cpage_count c))"
    by (auto intro: bit_word_eqI)
  finally show ?thesis by (simp add: n)
qed

text \<open>\<open>spiffs_cache_page_get\<close> finds the read page of a flash page, if there is one.\<close>

lemma page_get_None:
  assumes "cache fs = Some c" "cache_wf page c" "\<And>i. read_page c i \<Longrightarrow> cp_pix (cpages c ! i) \<noteq> pix"
  shows "spiffs_cache_page_get pix fs = Some (None, fs)"
proof -
  have "find (\<lambda>i. bit (cpage_use_map c) i \<and> cp_flags (cpages c ! i) AND CACHE_FLAG_TYPE_WR = 0 \<and> cp_pix (cpages c ! i) = pix)
      [0..<cpage_count c] = None"
    using assms(3) by (auto simp: find_None_iff read_page_def)
  then show ?thesis
    using assms(1,2) by (simp add: spiffs_cache_page_get_def cache_page_scan_find cache_wf_def)
qed

lemma page_get_Some:
  assumes "cache fs = Some c" "cache_wf page c" "read_page c i" "cp_pix (cpages c ! i) = pix" "mirrors cf m c"
  shows "spiffs_cache_page_get pix fs = Some (Some i, fs\<lparr>cache := Some (stamp i (c_last_access c) c)\<rparr>)"
proof -
  let ?P = "\<lambda>i. bit (cpage_use_map c) i \<and> cp_flags (cpages c ! i) AND CACHE_FLAG_TYPE_WR = 0 \<and> cp_pix (cpages c ! i) = pix"
  have uniq: "j = i" if "j < cpage_count c" "?P j" for j
    using that assms(3-5) by (auto simp: mirrors_def read_page_def)
  have first: "\<not> ?P j" if "j < i" for j
    using uniq [of j] that assms(3) by (auto simp: read_page_def)
  have "find ?P [0..<cpage_count c] = Some i"
    unfolding find_Some_iff using assms(3,4) first by (intro exI [of _ i]) (auto simp: read_page_def)
  moreover have "cpage_use_map c AND cpage_use_mask c \<noteq> 0"
    using use_map_free [OF assms(2)] assms(3) by (auto simp: read_page_def)
  ultimately show ?thesis
    using assms(1,2) by (simp add: spiffs_cache_page_get_def cache_page_scan_find cache_wf_def)
qed

subsection \<open>Making room\<close>

lemma oldest_fold:
  assumes "snd acc = None \<Longrightarrow> fst acc = 0"
  shows "(case snd (fold (oldest_step fm fl c) xs acc) of
            None \<Rightarrow> snd acc = None \<and> (\<forall>i \<in> set xs. sub32 (c_last_access c) (cp_last_access (cpages c ! i)) = 0 \<or>
                        cp_flags (cpages c ! i) AND fm \<noteq> fl)
          | Some i \<Rightarrow> snd acc = Some i \<or> (i \<in> set xs \<and> cp_flags (cpages c ! i) AND fm = fl))"
  using assms
proof (induction xs arbitrary: acc)
  case Nil
  then show ?case by (auto split: option.splits)
next
  case (Cons i xs)
  let ?acc = "oldest_step fm fl c i acc"
  have a: "snd ?acc = None \<Longrightarrow> fst ?acc = 0" using Cons.prems by (auto simp: oldest_step_def Let_def)
  have b: "snd ?acc = None \<Longrightarrow> snd acc = None \<and>
      (sub32 (c_last_access c) (cp_last_access (cpages c ! i)) = 0 \<or> cp_flags (cpages c ! i) AND fm \<noteq> fl)"
    using Cons.prems by (auto simp: oldest_step_def Let_def split: if_splits)
  have d: "snd ?acc = Some j \<Longrightarrow> snd acc = Some j \<or> (j = i \<and> cp_flags (cpages c ! i) AND fm = fl)" for j
    by (auto simp: oldest_step_def Let_def split: if_splits)
  show ?case
    using Cons.IH [OF a] b d by (fastforce split: option.splits)
qed

text \<open>Dropping page \<open>i\<close>.\<close>

definition drop_cp :: "nat \<Rightarrow> spiffs_cache \<Rightarrow> spiffs_cache" where
  "drop_cp i c = (upd_cp i (cp_flags_update (\<lambda>_. 0)) c)\<lparr>cpage_use_map := cpage_use_map c AND NOT (push_bit i 1)\<rparr>"

lemma drop_cp_simps [simp]:
  "cpage_count (drop_cp i c) = cpage_count c" "c_last_access (drop_cp i c) = c_last_access c"
  "cpage_use_mask (drop_cp i c) = cpage_use_mask c" "length (cpages (drop_cp i c)) = length (cpages c)"
  by (simp_all add: drop_cp_def)

lemma cpages_drop_cp:
  "j < length (cpages c) \<Longrightarrow> cpages (drop_cp i c) ! j = (if j = i then (cpages c ! i)\<lparr>cp_flags := 0\<rparr> else cpages c ! j)"
  by (simp add: drop_cp_def cpages_upd_cp)

lemma bit_drop_cp: "j < 32 \<Longrightarrow> bit (cpage_use_map (drop_cp i c)) j \<longleftrightarrow> bit (cpage_use_map c) j \<and> j \<noteq> i"
  by (auto simp: drop_cp_def bit_and_iff bit_not_iff bit_exp_iff)

lemma read_page_drop_cp:
  assumes "cache_wf page c" "i < cpage_count c"
  shows "read_page (drop_cp i c) j \<longleftrightarrow> read_page c j \<and> j \<noteq> i"
  using assms by (auto simp: read_page_def cache_wf_def bit_drop_cp cpages_drop_cp)

lemma drop_cp_keeps:
  assumes "cache_wf page c" "i < cpage_count c"
  shows "cache_wf page (drop_cp i c)" "mirrors cf m c \<Longrightarrow> mirrors cf m (drop_cp i c)"
    "stamped n c \<Longrightarrow> stamped n (drop_cp i c)" "read_slot (drop_cp i c)"
    "\<not> bit (cpage_use_map (drop_cp i c)) i"
proof -
  note rp = read_page_drop_cp [OF assms]
  have n: "cpage_count c = length (cpages c)" "cpage_count c \<le> 32" using assms by (simp_all add: cache_wf_def)
  have lt: "read_page c j \<Longrightarrow> j < length (cpages c)" for j using n by (simp add: read_page_def)
  show "cache_wf page (drop_cp i c)"
    using assms by (auto simp: cache_wf_def bit_drop_cp cpages_drop_cp)
  show "mirrors cf m c \<Longrightarrow> mirrors cf m (drop_cp i c)"
    by (auto simp: mirrors_def rp cpages_drop_cp [OF lt])
  show "stamped n c \<Longrightarrow> stamped n (drop_cp i c)" using n by (auto simp: stamped_def cpages_drop_cp)
  show free: "\<not> bit (cpage_use_map (drop_cp i c)) i" using assms n by (simp add: bit_drop_cp)
  show "read_slot (drop_cp i c)" using assms free by (auto simp: read_slot_def)
qed

lemma page_free_eq:
  assumes "cache fs = Some c" "cache_wf page c" "i < cpage_count c" "bit (cpage_use_map c) i"
    and "wb \<Longrightarrow> cp_flags (cpages c ! i) AND CACHE_FLAG_DIRTY = 0 \<or> cp_flags (cpages c ! i) AND CACHE_FLAG_TYPE_WR \<noteq> 0"
  shows "spiffs_cache_page_free i wb fs = Some (SPIFFS_OK, fs\<lparr>cache := Some (drop_cp i c)\<rparr>)"
  using assms by (auto simp: spiffs_cache_page_free_def cache_wf_def drop_cp_def Let_def)

text \<open>Eviction leaves the cache with a free page.\<close>

lemma remove_oldest_frees:
  assumes c: "cache fs = Some c" and wf: "cache_wf page c" and mir: "mirrors cf m c" and slot: "read_slot c"
    and old: "\<And>i. i < cpage_count c \<Longrightarrow> cp_last_access (cpages c ! i) < c_last_access c"
    and top: "c_last_access c < 2 ^ 32" and st: "stamped n c"
  obtains c' i where "spiffs_cache_page_remove_oldest CACHE_FLAG_TYPE_WR 0 fs = Some (SPIFFS_OK, fs\<lparr>cache := Some c'\<rparr>)"
    "cache_wf page c'" "mirrors cf m c'" "stamped n c'" "read_slot c'" "i < cpage_count c'"
    "\<not> bit (cpage_use_map c') i" "c_last_access c' = c_last_access c"
    "\<forall>j. read_page c' j \<longrightarrow> read_page c j \<and> cp_pix (cpages c' ! j) = cp_pix (cpages c ! j)"
proof (cases "\<forall>i < cpage_count c. bit (cpage_use_map c) i")
  case False
  then obtain i where "i < cpage_count c" "\<not> bit (cpage_use_map c) i" by blast
  moreover have "spiffs_cache_page_remove_oldest CACHE_FLAG_TYPE_WR 0 fs = Some (SPIFFS_OK, fs\<lparr>cache := Some c\<rparr>)"
    using False use_map_busy [OF wf] c by (simp add: spiffs_cache_page_remove_oldest_def)
  ultimately show ?thesis using that [of c i] wf mir st slot by simp
next
  case True
  have n: "cpage_count c = length (cpages c)" using wf by (simp add: cache_wf_def)
  let ?r = "snd (fold (oldest_step CACHE_FLAG_TYPE_WR 0 c) [0..<cpage_count c] (0, None))"
  obtain k where k: "k < cpage_count c" "cp_flags (cpages c ! k) AND CACHE_FLAG_TYPE_WR = 0"
    using slot True by (auto simp: read_slot_def)
  have age: "sub32 (c_last_access c) (cp_last_access (cpages c ! k)) \<noteq> 0" using old [OF k(1)] top by simp
  obtain i where r: "?r = Some i" "i < cpage_count c" "cp_flags (cpages c ! i) AND CACHE_FLAG_TYPE_WR = 0"
    using oldest_fold [where acc = "(0, None)" and fm = CACHE_FLAG_TYPE_WR and fl = 0 and c = c
        and xs = "[0..<cpage_count c]"] k age by (force split: option.splits)
  have "read_page c i" using r True by (simp add: read_page_def)
  then have "cp_flags (cpages c ! i) AND CACHE_FLAG_DIRTY = 0" using mir by (simp add: mirrors_def)
  then have "spiffs_cache_page_free i True fs = Some (SPIFFS_OK, fs\<lparr>cache := Some (drop_cp i c)\<rparr>)"
    using page_free_eq [OF c wf r(2)] True r by simp
  then have "spiffs_cache_page_remove_oldest CACHE_FLAG_TYPE_WR 0 fs = Some (SPIFFS_OK, fs\<lparr>cache := Some (drop_cp i c)\<rparr>)"
    using True use_map_busy [OF wf] c r n by (simp add: spiffs_cache_page_remove_oldest_def)
  moreover have "read_page c j \<and> cp_pix (cpages (drop_cp i c) ! j) = cp_pix (cpages c ! j)"
    if "read_page (drop_cp i c) j" for j
  proof -
    have "read_page c j" using that by (simp add: read_page_drop_cp [OF wf r(2)])
    moreover from this have "j < length (cpages c)" using n by (simp add: read_page_def)
    ultimately show ?thesis by (simp add: cpages_drop_cp)
  qed
  ultimately show ?thesis
    using that [of "drop_cp i c" i] drop_cp_keeps [OF wf r(2)] mir st r(2) by simp
qed

lemma cache_free_scan_find:
  "\<forall>i \<in> set is. i < 32 \<and> i < length (cpages c) \<Longrightarrow>
   cache_free_scan c is = Some (find (\<lambda>i. \<not> bit (cpage_use_map c) i) is)"
  by (induction "is") auto

text \<open>Page \<open>i\<close> taken into use as a read page.\<close>

definition take_cp :: "nat \<Rightarrow> nat \<Rightarrow> nat \<Rightarrow> byte list \<Rightarrow> spiffs_cache \<Rightarrow> spiffs_cache" where
  "take_cp i t pix d c =
     (upd_cp i (\<lambda>p. p\<lparr>cp_last_access := t, cp_flags := CACHE_FLAG_WRTHRU, cp_pix := pix, cp_data := d\<rparr>) c)
       \<lparr>cpage_use_map := cpage_use_map c OR push_bit i 1\<rparr>"

lemma take_cp_simps [simp]:
  "cpage_count (take_cp i t pix d c) = cpage_count c" "c_last_access (take_cp i t pix d c) = c_last_access c"
  "cpage_use_mask (take_cp i t pix d c) = cpage_use_mask c"
  "length (cpages (take_cp i t pix d c)) = length (cpages c)"
  by (simp_all add: take_cp_def)

lemma cpages_take_cp:
  "j < length (cpages c) \<Longrightarrow> cpages (take_cp i t pix d c) ! j =
     (if j = i then (cpages c ! i)\<lparr>cp_last_access := t, cp_flags := CACHE_FLAG_WRTHRU, cp_pix := pix, cp_data := d\<rparr>
      else cpages c ! j)"
  by (simp add: take_cp_def cpages_upd_cp)

lemma bit_take_cp: "j < 32 \<Longrightarrow> bit (cpage_use_map (take_cp i t pix d c)) j \<longleftrightarrow> bit (cpage_use_map c) j \<or> j = i"
  by (auto simp: take_cp_def bit_or_iff bit_exp_iff)

lemma take_cp_keeps:
  assumes "cache_wf page c" "i < cpage_count c" "\<not> bit (cpage_use_map c) i" "length d = page"
  shows "cache_wf page (take_cp i t pix d c)" "read_slot (take_cp i t pix d c)"
    "stamped n c \<Longrightarrow> t \<le> c_last_access c \<Longrightarrow> stamped n (take_cp i t pix d c)"
    "mirrors cf m c \<Longrightarrow> (\<And>j. read_page c j \<Longrightarrow> cp_pix (cpages c ! j) \<noteq> pix) \<Longrightarrow> pix < SPIFFS_MAX_PAGES cf \<Longrightarrow>
       d = mem_read m (page_start cf pix) (log_page_size cf) \<Longrightarrow> mirrors cf m (take_cp i t pix d c)"
proof -
  have n: "cpage_count c = length (cpages c)" "cpage_count c \<le> 32" using assms by (simp_all add: cache_wf_def)
  have rp: "read_page (take_cp i t pix d c) j \<longleftrightarrow> j = i \<or> read_page c j" for j
    using assms n by (auto simp: read_page_def bit_take_cp cpages_take_cp)
  have lt: "read_page c j \<Longrightarrow> j < length (cpages c)" for j using n by (simp add: read_page_def)
  have ne: "read_page c j \<Longrightarrow> j \<noteq> i" for j using assms by (auto simp: read_page_def)
  show "cache_wf page (take_cp i t pix d c)" using assms by (auto simp: cache_wf_def bit_take_cp cpages_take_cp)
  show "read_slot (take_cp i t pix d c)" using assms n by (auto simp: read_slot_def cpages_take_cp intro!: exI [of _ i])
  show "stamped n c \<Longrightarrow> t \<le> c_last_access c \<Longrightarrow> stamped n (take_cp i t pix d c)"
    using n by (auto simp: stamped_def cpages_take_cp)
  have i: "i < length (cpages c)" using assms n by simp
  assume mir: "mirrors cf m c" and new: "\<And>j. read_page c j \<Longrightarrow> cp_pix (cpages c ! j) \<noteq> pix"
    and pd: "pix < SPIFFS_MAX_PAGES cf" "d = mem_read m (page_start cf pix) (log_page_size cf)"
  have same: "cpages (take_cp i t pix d c) ! j = cpages c ! j" if "read_page c j" for j
    using lt [OF that] ne [OF that] by (simp add: cpages_take_cp)
  have ci: "cp_flags (cpages (take_cp i t pix d c) ! i) = CACHE_FLAG_WRTHRU" "cp_pix (cpages (take_cp i t pix d c) ! i) = pix"
    "cp_data (cpages (take_cp i t pix d c) ! i) = mem_read m (page_start cf pix) (log_page_size cf)"
    using i pd(2) by (simp_all add: cpages_take_cp)
  show "mirrors cf m (take_cp i t pix d c)"
    unfolding mirrors_def rp using mir new pd(1)
    by (auto simp: same ci mirrors_def)
qed

lemma allocate_takes:
  assumes c: "cache fs = Some c" and wf: "cache_wf page c" and free: "k < cpage_count c" "\<not> bit (cpage_use_map c) k"
  obtains i where "i < cpage_count c" "\<not> bit (cpage_use_map c) i"
    "spiffs_cache_page_allocate fs = Some (Some i, fs\<lparr>cache := Some (stamp i (c_last_access c)
       (c\<lparr>cpage_use_map := cpage_use_map c OR push_bit i 1\<rparr>))\<rparr>)"
proof -
  have "find (\<lambda>i. \<not> bit (cpage_use_map c) i) [0..<cpage_count c] \<noteq> None"
    using free by (auto simp: find_None_iff)
  then obtain i where i: "find (\<lambda>i. \<not> bit (cpage_use_map c) i) [0..<cpage_count c] = Some i" by blast
  then have "i < cpage_count c" "\<not> bit (cpage_use_map c) i" by (auto simp: find_Some_iff)
  moreover have "cpage_use_map c \<noteq> 0xffffffff"
  proof
    assume "cpage_use_map c = 0xffffffff"
    moreover have "(0xffffffff :: u32) = - 1" by simp
    ultimately show False using free wf by (simp add: cache_wf_def)
  qed
  ultimately show ?thesis
    using that [of i] i c wf by (simp add: spiffs_cache_page_allocate_def cache_free_scan_find cache_wf_def)
qed

subsection \<open>Reading\<close>

lemma buf_slice_mem_read: "off + len \<le> n \<Longrightarrow> buf_slice off len (mem_read m a n) = Some (mem_read m (a + off) len)"
  by (simp add: buf_slice_def)

lemma upd_cp_take:
  "i < length (cpages c) \<Longrightarrow>
   upd_cp i (\<lambda>p. p\<lparr>cp_flags := CACHE_FLAG_WRTHRU, cp_pix := pix, cp_data := d\<rparr>)
     (stamp i t (c\<lparr>cpage_use_map := cpage_use_map c OR push_bit i 1\<rparr>)) = take_cp i t pix d c"
  by (simp add: take_cp_def upd_cp_def)

text \<open>A hit delivers the cached bytes.\<close>

lemma hit_reads:
  assumes g: "geom (cfg fs)" and p: "in_page (cfg fs) addr len"
    and c: "cache fs = Some c" "cache_wf (log_page_size (cfg fs)) c" "mirrors (cfg fs) m c" "stamped (Suc n) c" "read_slot c"
    and i: "read_page c i" "cp_pix (cpages c ! i) = page_of (cfg fs) addr"
  shows "\<exists>c'. spiffs_phys_rd op addr len fs = Some (SPIFFS_OK, mem_read m addr len, fs\<lparr>cache := Some c'\<rparr>) \<and>
           cache_wf (log_page_size (cfg fs)) c' \<and> mirrors (cfg fs) m c' \<and> stamped n c' \<and> read_slot c'"
proof -
  let ?cf = "cfg fs"
  let ?st = "page_start ?cf (page_of ?cf addr)"
  note a = in_page_addr [OF g p]
  let ?c1 = "cache_tick (stamp i (c_last_access c) c)"
  let ?c2 = "stamp i (c_last_access ?c1) ?c1"
  have il: "i < length (cpages c)" using i(1) c(2) by (simp add: read_page_def cache_wf_def)
  have "cp_data (cpages ?c1 ! i) = mem_read m ?st (log_page_size ?cf)"
    using c(3) i il by (simp add: cpages_upd_cp mirrors_def)
  then have sl: "buf_slice (addr - ?st) len (cp_data (cpages ?c1 ! i)) = Some (mem_read m addr len)"
    using a(5) page_start_le [of ?cf addr] p by (simp add: buf_slice_mem_read in_page_def)
  have st: "stamped (Suc n) (stamp i (c_last_access c) c)"
    using c by (intro stamp_stamped [where page = "log_page_size ?cf"]) auto
  note k1 = tick_keeps [OF st]
  have w: "cache_wf (log_page_size ?cf) ?c1" using c by (simp add: k1 stamp_keeps)
  have "cache_wf (log_page_size ?cf) ?c2" "mirrors ?cf m ?c2" "read_slot ?c2" "stamped n ?c2"
    using c by (simp_all add: stamp_keeps(1) [OF w] stamp_keeps(2,3) [OF w] k1 stamp_keeps(2,3) [OF c(2)]
      stamp_stamped [OF w])
  moreover have "spiffs_phys_rd op addr len fs = Some (SPIFFS_OK, mem_read m addr len, fs\<lparr>cache := Some ?c2\<rparr>)"
    using a sl by (simp add: spiffs_phys_rd_def page_get_Some [OF c(1,2) i c(3)])
  ultimately show ?thesis by blast
qed

text \<open>A miss loads the page into a slot of the cache, whatever the callback answers.\<close>

lemma miss_loads:
  assumes g: "geom (cfg fs)" and p: "in_page (cfg fs) addr len"
    and c: "cache fs = Some c" "cache_wf (log_page_size (cfg fs)) c" "mirrors (cfg fs) m c" "stamped (Suc n) c" "read_slot c"
    and miss: "\<And>i. read_page c i \<Longrightarrow> cp_pix (cpages c ! i) \<noteq> page_of (cfg fs) addr"
    and op: "op AND OP_TYPE_MASK \<noteq> OP_T_OBJ_LU2"
    and r: "hal_read_f (cfg fs) (page_start (cfg fs) (page_of (cfg fs) addr)) (log_page_size (cfg fs)) (flash fs) =
      Some (res2, mem_read m' (page_start (cfg fs) (page_of (cfg fs) addr)) (log_page_size (cfg fs)))"
    and m': "\<And>q. q \<noteq> page_of (cfg fs) addr \<Longrightarrow>
      mem_read m' (page_start (cfg fs) q) (log_page_size (cfg fs)) = mem_read m (page_start (cfg fs) q) (log_page_size (cfg fs))"
  shows "\<exists>c' i. spiffs_phys_rd op addr len fs = Some (res2, mem_read m' addr len, fs\<lparr>cache := Some c'\<rparr>) \<and>
           cache_wf (log_page_size (cfg fs)) c' \<and> mirrors (cfg fs) m' c' \<and> stamped n c' \<and> read_slot c' \<and>
           read_page c' i \<and> cp_pix (cpages c' ! i) = page_of (cfg fs) addr"
proof -
  let ?cf = "cfg fs"
  let ?pix = "page_of ?cf addr"
  let ?st = "page_start ?cf ?pix"
  let ?page = "mem_read m' ?st (log_page_size ?cf)"
  note a = in_page_addr [OF g p]
  note k = tick_keeps [OF c(4)]
  let ?c1 = "cache_tick c"
  let ?fs1 = "fs\<lparr>cache := Some ?c1\<rparr>"
  have old: "i < cpage_count ?c1 \<Longrightarrow> cp_last_access (cpages ?c1 ! i) < c_last_access ?c1" for i
    using c(4) by (auto simp: k(2) stamped_def)
  have top: "c_last_access ?c1 < 2 ^ 32" using k(1) by (simp add: stamped_def)
  have q: "cache ?fs1 = Some ?c1" "cache_wf (log_page_size ?cf) ?c1" "mirrors ?cf m ?c1" "read_slot ?c1"
    using c k by simp_all
  obtain c2 j where c2: "spiffs_cache_page_remove_oldest CACHE_FLAG_TYPE_WR 0 ?fs1 = Some (SPIFFS_OK, ?fs1\<lparr>cache := Some c2\<rparr>)"
    "cache_wf (log_page_size ?cf) c2" "mirrors ?cf m c2" "stamped n c2" "read_slot c2"
    "j < cpage_count c2" "\<not> bit (cpage_use_map c2) j" "c_last_access c2 = c_last_access ?c1"
    "\<forall>j. read_page c2 j \<longrightarrow> read_page ?c1 j \<and> cp_pix (cpages c2 ! j) = cp_pix (cpages ?c1 ! j)"
    by (rule remove_oldest_frees [OF q old top k(1)])
  let ?fs2 = "?fs1\<lparr>cache := Some c2\<rparr>"
  obtain i where i: "i < cpage_count c2" "\<not> bit (cpage_use_map c2) i"
    "spiffs_cache_page_allocate ?fs2 = Some (Some i, ?fs2\<lparr>cache := Some (stamp i (c_last_access c2)
       (c2\<lparr>cpage_use_map := cpage_use_map c2 OR push_bit i 1\<rparr>))\<rparr>)"
    using allocate_takes [of ?fs2 c2 "log_page_size ?cf" j] c2 by auto
  let ?c3 = "take_cp i (c_last_access c2) ?pix ?page c2"
  have new: "read_page c2 j \<Longrightarrow> cp_pix (cpages c2 ! j) \<noteq> ?pix" for j
    using c2(9) miss [of j] by (auto simp: read_page_def)
  have mir: "mirrors ?cf m' c2" using c2(3) by (simp add: mirrors_def m' [OF new] cong: imp_cong)
  have il: "i < length (cpages c2)" "i < 32" using i(1) c2(2) by (simp_all add: cache_wf_def)
  have ok: "cache_wf (log_page_size ?cf) ?c3" "mirrors ?cf m' ?c3" "read_slot ?c3" "stamped n ?c3"
    using take_cp_keeps [OF c2(2) i(1,2), of ?page] c2(4) mir new p by (simp_all add: in_page_def)
  have here: "read_page ?c3 i" "cp_pix (cpages ?c3 ! i) = ?pix"
    using il i by (simp_all add: read_page_def cpages_take_cp bit_take_cp)
  have sl: "buf_slice (addr - ?st) len ?page = Some (mem_read m' addr len)"
    using a(5) page_start_le [of ?cf addr] p by (simp add: buf_slice_mem_read in_page_def)
  have "spiffs_phys_rd op addr len fs = Some (res2, mem_read m' addr len, fs\<lparr>cache := Some ?c3\<rparr>)"
    using a op r c(1) c2(1) i(3) sl upd_cp_take [OF il(1)]
    by (simp add: spiffs_phys_rd_def page_get_None [OF c(1,2) miss] Let_def)
  then show ?thesis using ok here by blast
qed

context nor_hal
begin

text \<open>A read inside a page returns the bytes of the flash and changes the cache only.\<close>

lemma phys_rd_ok:
  assumes g: "geom (cfg fs)" and p: "in_page (cfg fs) addr len" and ok: "cache_ok (Suc n) fs"
    and r: "hal_read_f (cfg fs) = rd" "readable (page_start (cfg fs) (page_of (cfg fs) addr)) (log_page_size (cfg fs))"
    and lu2: "op AND OP_TYPE_MASK = OP_T_OBJ_LU2 \<Longrightarrow> readable addr len"
  shows "\<exists>fs'. spiffs_phys_rd op addr len fs = Some (SPIFFS_OK, mem_read (flash fs) addr len, fs') \<and>
           cache_ok n fs' \<and> fs' = fs\<lparr>cache := cache fs'\<rparr>"
proof -
  obtain c where c: "cache fs = Some c" "cache_wf (log_page_size (cfg fs)) c" "mirrors (cfg fs) (flash fs) c"
      "stamped (Suc n) c" "read_slot c"
    using ok by (rule cache_okE)
  consider (hit) i where "read_page c i" "cp_pix (cpages c ! i) = page_of (cfg fs) addr"
    | (lu2) "\<And>i. read_page c i \<Longrightarrow> cp_pix (cpages c ! i) \<noteq> page_of (cfg fs) addr" "op AND OP_TYPE_MASK = OP_T_OBJ_LU2"
    | (miss) "\<And>i. read_page c i \<Longrightarrow> cp_pix (cpages c ! i) \<noteq> page_of (cfg fs) addr" "op AND OP_TYPE_MASK \<noteq> OP_T_OBJ_LU2"
    by blast
  then show ?thesis
  proof cases
    case hit
    then show ?thesis using hit_reads [OF g p c] by (fastforce simp: cache_ok_def)
  next
    case lu2
    have "spiffs_phys_rd op addr len fs =
        Some (SPIFFS_OK, mem_read (flash fs) addr len, fs\<lparr>cache := Some (cache_tick c)\<rparr>)"
      using in_page_addr [OF g p] lu2(2) assms(6) r c(1)
      by (simp add: spiffs_phys_rd_def page_get_None [OF c(1,2) lu2(1)] rd_ok)
    then show ?thesis using tick_keeps [OF c(4)] c by (auto simp: cache_ok_def)
  next
    case miss
    then show ?thesis
      using miss_loads [OF g p c miss] r rd_ok by (fastforce simp: cache_ok_def)
  qed
qed

end

subsection \<open>Writing\<close>

text \<open>The write inside the page of \<open>addr\<close>, seen from the pages of the flash.\<close>

lemma page_write_other:
  assumes "geom cf" "in_page cf addr (length src)" "q \<noteq> page_of cf addr"
  shows "mem_read (mem_write addr src m) (page_start cf q) (log_page_size cf) = mem_read m (page_start cf q) (log_page_size cf)"
proof (rule mem_read_cong)
  fix x assume "page_start cf q \<le> x" "x < page_start cf q + log_page_size cf"
  then have "x < addr \<or> addr + length src \<le> x"
    using pages_disjoint [OF assms(3), of cf] page_start_le [of cf addr] assms(2) by (auto simp: in_page_def)
  then show "mem_write addr src m x = m x" by (rule mem_write_other)
qed

lemma page_write_same:
  assumes "geom cf" "in_page cf addr (length src)"
  defines "st \<equiv> page_start cf (page_of cf addr)"
  shows "buf_write (addr - st) src (mem_read m st (log_page_size cf)) = Some (mem_read (mem_write addr src m) st (log_page_size cf))"
proof -
  have le: "st \<le> addr" using assms(2) page_start_le [of cf addr] by (simp add: in_page_def st_def)
  have fit: "addr - st + length src \<le> log_page_size cf" using in_page_addr(5) [OF assms(1,2)] by (simp add: st_def)
  have "take (addr - st) (mem_read m st (log_page_size cf)) @ src @ drop (addr - st + length src) (mem_read m st (log_page_size cf))
      = mem_read (mem_write addr src m) st (log_page_size cf)"
    using fit le by (intro nth_equalityI) (auto simp: nth_append mem_write_def add.commute)
  then show ?thesis using fit by (simp add: buf_write_def)
qed

lemma mirrors_uncached_write:
  assumes "geom cf" "in_page cf addr (length src)" "mirrors cf m c"
    and "\<And>i. read_page c i \<Longrightarrow> cp_pix (cpages c ! i) \<noteq> page_of cf addr"
  shows "mirrors cf (mem_write addr src m) c"
  using assms(3) by (simp add: mirrors_def page_write_other [OF assms(1,2) assms(4)] cong: imp_cong)

text \<open>Page \<open>i\<close> with new contents.\<close>

lemma mirrors_cached_write:
  assumes g: "geom cf" "in_page cf addr (length src)" and wf: "cache_wf page c" and mir: "mirrors cf m c"
    and i: "read_page c i" "cp_pix (cpages c ! i) = page_of cf addr"
    and d: "d = mem_read (mem_write addr src m) (page_start cf (page_of cf addr)) (log_page_size cf)"
  shows "mirrors cf (mem_write addr src m) (upd_cp i (\<lambda>p. p\<lparr>cp_data := d, cp_last_access := t\<rparr>) c)" (is "mirrors _ _ ?c")
proof -
  have lt: "read_page c j \<Longrightarrow> j < length (cpages c)" for j using wf by (simp add: read_page_def cache_wf_def)
  have il: "i < length (cpages c)" using lt [OF i(1)] .
  have ci: "cp_flags (cpages ?c ! i) = cp_flags (cpages c ! i)" "cp_pix (cpages ?c ! i) = page_of cf addr"
    "cp_data (cpages ?c ! i) = mem_read (mem_write addr src m) (page_start cf (page_of cf addr)) (log_page_size cf)"
    using il i(2) d by (simp_all add: cpages_upd_cp)
  have other: "cpages ?c ! j = cpages c ! j" if "read_page c j" "j \<noteq> i" for j
    using lt [OF that(1)] that(2) by (simp add: cpages_upd_cp)
  have rp: "read_page ?c j = read_page c j" for j
    by (rule read_page_cong) (use wf in \<open>auto simp: cpages_upd_cp cache_wf_def\<close>)
  have pix: "cp_pix (cpages ?c ! j) = cp_pix (cpages c ! j)" "cp_flags (cpages ?c ! j) = cp_flags (cpages c ! j)"
    if "read_page c j" for j
    using other [OF that] ci i(2) by (cases "j = i"; simp)+
  have ne: "cp_pix (cpages c ! j) \<noteq> page_of cf addr" if "read_page c j" "j \<noteq> i" for j
    using mir i that by (auto simp: mirrors_def)
  have data: "cp_data (cpages ?c ! j) = mem_read (mem_write addr src m) (page_start cf (cp_pix (cpages c ! j))) (log_page_size cf)"
    if "read_page c j" for j
  proof (cases "j = i")
    case True
    then show ?thesis using ci i(2) by simp
  next
    case False
    then have "cp_data (cpages ?c ! j) = mem_read m (page_start cf (cp_pix (cpages c ! j))) (log_page_size cf)"
      using mir that by (simp add: other mirrors_def)
    then show ?thesis using page_write_other [OF g ne [OF that False]] by simp
  qed
  show ?thesis
    using mir by (simp add: mirrors_def rp pix data cong: imp_cong)
qed

lemma upd_data_keeps:
  assumes "cache_wf page c" "length d = page" "i < cpage_count c" "t \<le> c_last_access c"
  shows "cache_wf page (upd_cp i (\<lambda>p. p\<lparr>cp_data := d, cp_last_access := t\<rparr>) c)"
    "stamped n c \<Longrightarrow> stamped n (upd_cp i (\<lambda>p. p\<lparr>cp_data := d, cp_last_access := t\<rparr>) c)"
    "read_slot (upd_cp i (\<lambda>p. p\<lparr>cp_data := d, cp_last_access := t\<rparr>) c) = read_slot c"
  using assms by (auto simp: cache_wf_def stamped_def read_slot_def cpages_upd_cp split: if_splits)

lemma stamped_mono: "stamped (Suc n) c \<Longrightarrow> stamped n c"
  by (simp add: stamped_def)

context nor_hal
begin

lemma hal_wr_ok:
  assumes "hal_write_f (cfg fs) = wr" "writable addr (length src)" "clears addr src (flash fs)"
  shows "hal_wr addr src fs = Some (SPIFFS_OK, fs\<lparr>flash := mem_write addr src (flash fs)\<rparr>)"
  using assms by (simp add: hal_wr_def wr_ok prog_clears)

text \<open>A write inside a page that only clears bits reaches the flash and the cache.\<close>

lemma phys_wr_ok:
  assumes g: "geom (cfg fs)" and p: "in_page (cfg fs) addr (length src)" and ok: "cache_ok (Suc n) fs"
    and w: "hal_write_f (cfg fs) = wr" "writable addr (length src)" "clears addr src (flash fs)"
    and op: "op AND OP_COM_MASK \<noteq> OP_C_WRTHRU"
  shows "\<exists>c'. spiffs_phys_wr op addr src fs =
           Some (SPIFFS_OK, fs\<lparr>cache := c', flash := mem_write addr src (flash fs)\<rparr>) \<and>
           cache_ok n (fs\<lparr>cache := c', flash := mem_write addr src (flash fs)\<rparr>)"
proof -
  let ?cf = "cfg fs"
  let ?m = "mem_write addr src (flash fs)"
  note a = in_page_addr [OF g p]
  obtain c where c: "cache fs = Some c" "cache_wf (log_page_size ?cf) c" "mirrors ?cf (flash fs) c"
      "stamped (Suc n) c" "read_slot c"
    using ok by (rule cache_okE)
  show ?thesis
  proof (cases "\<exists>i. read_page c i \<and> cp_pix (cpages c ! i) = page_of ?cf addr")
    case False
    then have miss: "\<And>i. read_page c i \<Longrightarrow> cp_pix (cpages c ! i) \<noteq> page_of ?cf addr" by blast
    have "spiffs_phys_wr op addr src fs = Some (SPIFFS_OK, fs\<lparr>cache := Some c, flash := ?m\<rparr>)"
      using a c(1) hal_wr_ok [OF w] by (simp add: spiffs_phys_wr_def page_get_None [OF c(1,2) miss])
    moreover have "cache_ok n (fs\<lparr>cache := Some c, flash := ?m\<rparr>)"
      using c mirrors_uncached_write [OF g p c(3) miss] stamped_mono by (auto simp: cache_ok_def)
    ultimately show ?thesis by blast
  next
    case True
    then obtain i where i: "read_page c i" "cp_pix (cpages c ! i) = page_of ?cf addr" by blast
    have ic: "i < cpage_count c" "bit (cpage_use_map c) i" using i by (simp_all add: read_page_def)
    let ?c1 = "stamp i (c_last_access c) c"
    have w1: "cache_wf (log_page_size ?cf) ?c1" "mirrors ?cf (flash fs) ?c1" "read_slot ?c1"
      using c stamp_keeps [OF c(2)] by simp_all
    have s1: "stamped (Suc n) ?c1" using c by (simp add: stamp_stamped [OF c(2)])
    have i1: "read_page ?c1 i" "cp_pix (cpages ?c1 ! i) = page_of ?cf addr" "cp_flags (cpages ?c1 ! i) = CACHE_FLAG_WRTHRU"
      using i c(2,3) by (auto simp: read_page_def cpages_upd_cp cache_wf_def mirrors_def)
    note got = page_get_Some [OF c(1,2) i c(3)]
    show ?thesis
    proof (cases "op AND OP_COM_MASK = OP_C_DELE \<and> op AND OP_TYPE_MASK \<noteq> OP_T_OBJ_LU")
      case True
      let ?c2 = "drop_cp i ?c1"
      have "spiffs_phys_wr op addr src fs = Some (SPIFFS_OK, fs\<lparr>cache := Some ?c2, flash := ?m\<rparr>)"
        using a True op hal_wr_ok [of "fs\<lparr>cache := Some ?c2\<rparr>" addr src] w ic
          page_free_eq [of "fs\<lparr>cache := Some ?c1\<rparr>" ?c1 "log_page_size ?cf" i False] w1
        by (simp add: spiffs_phys_wr_def got)
      moreover have "mirrors ?cf ?m ?c2"
      proof (rule mirrors_uncached_write [OF g p])
        show "mirrors ?cf (flash fs) ?c2" using drop_cp_keeps [OF w1(1)] ic w1(2) by simp
        fix j assume "read_page ?c2 j"
        then have j: "read_page ?c1 j" "j \<noteq> i" using read_page_drop_cp [OF w1(1)] ic by auto
        then have "cp_pix (cpages ?c1 ! j) \<noteq> page_of ?cf addr" using w1(2) i1 by (auto simp: mirrors_def)
        then show "cp_pix (cpages ?c2 ! j) \<noteq> page_of ?cf addr"
          using j w1(1) by (simp add: cpages_drop_cp read_page_def cache_wf_def)
      qed
      ultimately show ?thesis
        using drop_cp_keeps [OF w1(1)] ic stamped_mono [OF s1] by (fastforce simp: cache_ok_def)
    next
      case False
      let ?c2 = "cache_tick ?c1"
      let ?d = "mem_read ?m (page_start ?cf (page_of ?cf addr)) (log_page_size ?cf)"
      let ?c3 = "upd_cp i (\<lambda>p. p\<lparr>cp_data := ?d, cp_last_access := c_last_access ?c2\<rparr>) ?c2"
      note k = tick_keeps [OF s1]
      have w2: "cache_wf (log_page_size ?cf) ?c2" "mirrors ?cf (flash fs) ?c2" "read_slot ?c2" using w1 k by simp_all
      have i2: "read_page ?c2 i" "cp_pix (cpages ?c2 ! i) = page_of ?cf addr" using i1 by (simp_all add: read_page_def)
      have data: "cp_data (cpages ?c2 ! i) = mem_read (flash fs) (page_start ?cf (page_of ?cf addr)) (log_page_size ?cf)"
        using w2(2) i2 by (simp add: mirrors_def)
      have il: "i < length (cpages ?c2)" using ic w1(1) by (simp add: cache_wf_def)
      have flag: "cp_flags (cpages ?c3 ! i) = CACHE_FLAG_WRTHRU" using i1 il by (simp add: cpages_upd_cp)
      have "spiffs_phys_wr op addr src fs = Some (SPIFFS_OK, fs\<lparr>cache := Some ?c3, flash := ?m\<rparr>)"
        using a op hal_wr_ok [of "fs\<lparr>cache := Some ?c3\<rparr>" addr src] w flag page_write_same [OF g p, of "flash fs"] data
        by (simp add: spiffs_phys_wr_def got Let_def if_not_P [OF False])
      moreover have "cache_ok n (fs\<lparr>cache := Some ?c3, flash := ?m\<rparr>)"
        using mirrors_cached_write [OF g p w2(1,2) i2 refl] upd_data_keeps [OF w2(1)] ic k(1) w2(3)
        by (simp add: cache_ok_def)
      ultimately show ?thesis by blast
    qed
  qed
qed

end

subsection \<open>Initialisation\<close>

lemma cache_mask_eq: "((\<lambda>m. m * 2 OR 1) ^^ n) (0 :: u32) = mask n"
proof (induction n)
  case (Suc n)
  then show ?case by (simp add: mask_Suc_double or.commute mult.commute)
qed simp

lemma cache_init_ok:
  assumes "cache fs = Some c0" "0 < log_page_size (cfg fs)" "log_page_size (cfg fs) * 32 < 2 ^ 31"
    and "cache_size fs \<le> log_page_size (cfg fs) * 32" "20 + (20 + log_page_size (cfg fs)) \<le> cache_size fs"
    and "n < 2 ^ 32"
  shows "cache_ok n (spiffs_cache_init fs)"
    "\<exists>c. cache (spiffs_cache_init fs) = Some c \<and> cpage_count c = (cache_size fs - 20) div (20 + log_page_size (cfg fs)) \<and>
       0 < cpage_count c \<and> cpage_count c < 32"
    "cfg (spiffs_cache_init fs) = cfg fs \<and> flash (spiffs_cache_init fs) = flash fs"
proof -
  let ?page = "log_page_size (cfg fs)"
  define k where "k = (cache_size fs - 20) div (20 + ?page)"
  have sz: "SPIFFS_CACHE_PAGE_SIZE (cfg fs) = 20 + ?page" using assms(3) by (simp add: SPIFFS_CACHE_PAGE_SIZE_def)
  have k0: "0 < k" using assms(5) by (simp add: k_def div_greater_zero_iff)
  have "k * (20 + ?page) \<le> cache_size fs - 20" by (simp add: k_def div_times_less_eq_dividend)
  also have "\<dots> < 32 * (20 + ?page)" using assms(4) by simp
  finally have k32: "k < 32" by (simp only: mult_less_cancel2)
  have ents: "s32_of (sub32 (cache_size fs) SIZEOF_CACHE div SPIFFS_CACHE_PAGE_SIZE (cfg fs)) = int k"
  proof -
    have "sub32 (cache_size fs) SIZEOF_CACHE = cache_size fs - 20"
      using assms by (simp add: SIZEOF_CACHE_def)
    then show ?thesis using k32 by (simp add: sz k_def)
  qed
  let ?c = "\<lparr>cpage_count = k, c_last_access = 0, cpage_use_map = 0xffffffff AND NOT (mask k :: u32),
     cpage_use_mask = mask k, cpages = replicate k (blank_cache_page ?page)\<rparr>"
  have i: "spiffs_cache_init fs = fs\<lparr>cache := Some ?c\<rparr>"
    using assms(1) k0 k32 by (simp add: spiffs_cache_init_def ents cache_mask_eq Let_def)
  have ff: "(0xffffffff :: u32) = - 1" by simp
  have bits: "j < 32 \<Longrightarrow> bit (0xffffffff AND NOT (mask k :: u32)) j \<longleftrightarrow> k \<le> j" for j
    unfolding ff by (auto simp: bit_and_iff bit_not_iff bit_mask_iff)
  have none: "\<not> read_page ?c j" for j
  proof
    assume "read_page ?c j"
    then have "j < k" "bit (0xffffffff AND NOT (mask k :: u32)) j" by (auto simp: read_page_def)
    then show False using bits [of j] k32 by simp
  qed
  have "mirrors (cfg fs) (flash fs) ?c" by (simp add: mirrors_def none)
  moreover have "cache_wf ?page ?c" "stamped n ?c" "read_slot ?c"
    using k0 k32 assms(6)
    by (auto simp: cache_wf_def stamped_def read_slot_def bits blank_cache_page_def intro: exI [of _ 0])
  ultimately show "cache_ok n (spiffs_cache_init fs)" unfolding cache_ok_def i by simp
  show "\<exists>c. cache (spiffs_cache_init fs) = Some c \<and> cpage_count c = (cache_size fs - 20) div (20 + ?page) \<and>
       0 < cpage_count c \<and> cpage_count c < 32"
    using k0 k32 by (simp add: i k_def)
  show "cfg (spiffs_cache_init fs) = cfg fs \<and> flash (spiffs_cache_init fs) = flash fs" by (simp add: i)
qed

subsection \<open>A file system for the witnesses\<close>

text \<open>Four blocks of sixteen 256-byte pages at the start of the chip, driven by \<open>spiffs_hal.cpp\<close>,
  with two cache pages, freshly initialised, over an erased flash.\<close>

definition demo_cfg :: spiffs_config where
  "demo_cfg = \<lparr>hal_read_f = spiffs_hal_read nor_chip (\<lambda>n. replicate n 0), hal_write_f = spiffs_hal_write nor_chip 0,
     hal_erase_f = spiffs_hal_erase nor_chip, phys_size = 16384, phys_addr = 0, phys_erase_block = 4096,
     log_block_size = 4096, log_page_size = 256\<rparr>"

definition demo_raw :: spiffs where
  "demo_raw = \<lparr>cfg = demo_cfg, block_count = 4, free_cursor_block_ix = 0, free_cursor_obj_lu_entry = 0,
     cursor_block_ix = 0, cursor_obj_lu_entry = 0, lu_work = replicate 256 0, work = replicate 256 0,
     fd_space = [], err_code = 0, free_blocks = 4, stats_p_allocated = 0, stats_p_deleted = 0, cleaning = False,
     max_erase_count = 0,
     cache = Some \<lparr>cpage_count = 0, c_last_access = 0, cpage_use_map = 0, cpage_use_mask = 0, cpages = []\<rparr>,
     cache_size = 600, mounted = True, config_magic = SPIFFS_CONFIG_MAGIC, flash = \<lambda>_. 0xff, junk = 0\<rparr>"

definition demo_fs :: spiffs where
  "demo_fs = spiffs_cache_init demo_raw"

lemma demo_cfg_simps [simp]:
  "log_page_size demo_cfg = 256" "log_block_size demo_cfg = 4096" "phys_addr demo_cfg = 0" "phys_size demo_cfg = 16384"
  "phys_erase_block demo_cfg = 4096" "hal_read_f demo_cfg = spiffs_hal_read nor_chip (\<lambda>n. replicate n 0)"
  "hal_write_f demo_cfg = spiffs_hal_write nor_chip 0" "hal_erase_f demo_cfg = spiffs_hal_erase nor_chip"
  "SPIFFS_MAX_PAGES demo_cfg = 64"
  by (simp_all add: demo_cfg_def SPIFFS_MAX_PAGES_def)

lemma demo_fs_ok: "cache_ok 1000000 demo_fs" "cfg demo_fs = demo_cfg" "flash demo_fs = (\<lambda>_. 0xff)" "geom demo_cfg"
proof -
  note i = cache_init_ok [of demo_raw _ 1000000]
  show "cache_ok 1000000 demo_fs" unfolding demo_fs_def by (rule i) (simp_all add: demo_raw_def)
  show "cfg demo_fs = demo_cfg" "flash demo_fs = (\<lambda>_. 0xff)"
    unfolding demo_fs_def using i(3) by (simp_all add: demo_raw_def)
  show "geom demo_cfg" by (simp add: geom_def)
qed

subsection \<open>Properties\<close>

text \<open>
  C2: Coherence of reads. On a file system that uses the callbacks of \<open>spiffs_hal.cpp\<close> over a device
  that follows its documentation, while the cache invariant holds, a read inside one page returns
  \<open>SPIFFS_OK\<close> and exactly the bytes of the flash, whether it hits the cache, loads and possibly
  evicts a page, or bypasses the cache as a second-layer lookup; nothing but the cache changes and
  the invariant holds again.
\<close>

theorem cached_read_coherent:
  assumes "spi_flash dev chip" "hal_read_f (cfg fs) = spiffs_hal_read dev d0" "geom (cfg fs)"
    and "in_page (cfg fs) addr len" "cache_ok (Suc n) fs"
    and "hal_readable chip (page_start (cfg fs) (page_of (cfg fs) addr)) (log_page_size (cfg fs))"
    and "op AND OP_TYPE_MASK = OP_T_OBJ_LU2 \<Longrightarrow> hal_readable chip addr len"
  shows "\<exists>fs'. spiffs_phys_rd op addr len fs = Some (SPIFFS_OK, mem_read (flash fs) addr len, fs') \<and>
           cache_ok n fs' \<and> fs' = fs\<lparr>cache := cache fs'\<rparr>"
  using nor_hal.phys_rd_ok [OF spi_flash.esp_hal [OF assms(1)] assms(3-5)] assms(2,6,7) by blast

theorem cached_read_coherent_witness:
  "\<exists>fs'. spiffs_phys_rd (OP_T_OBJ_DA OR OP_C_READ) 514 5 demo_fs = Some (SPIFFS_OK, mem_read (flash demo_fs) 514 5, fs') \<and>
     cache_ok 999999 fs' \<and> fs' = demo_fs\<lparr>cache := cache fs'\<rparr>"
proof (rule cached_read_coherent [OF chip.spi_flash_axioms])
  show "hal_read_f (cfg demo_fs) = spiffs_hal_read nor_chip (\<lambda>n. replicate n 0)" by (simp add: demo_fs_ok)
  show "geom (cfg demo_fs)" "cache_ok (Suc 999999) demo_fs" by (simp_all add: demo_fs_ok)
  show "in_page (cfg demo_fs) 514 5"
    "hal_readable (4 * 1024 * 1024) (page_start (cfg demo_fs) (page_of (cfg demo_fs) 514)) (log_page_size (cfg demo_fs))"
    by (simp_all add: demo_fs_ok in_page_def page_start_def page_of_def hal_readable_def)
  show "(OP_T_OBJ_DA OR OP_C_READ) AND OP_TYPE_MASK = OP_T_OBJ_LU2 \<Longrightarrow> hal_readable (4 * 1024 * 1024) 514 5"
    by (simp add: c_defs)
qed

text \<open>
  C1: Coherence of writes. Under the same hypotheses a write inside one page that only clears bits
  puts exactly its bytes into the flash, the cached copy follows, and the invariant holds again. The
  write-through command is excluded: it passes the cache by.
\<close>

theorem cached_write_coherent:
  assumes "spi_flash dev chip" "hal_write_f (cfg fs) = spiffs_hal_write dev src_addr" "geom (cfg fs)"
    and "in_page (cfg fs) addr (length src)" "cache_ok (Suc n) fs"
    and "hal_writable chip addr (length src)" "clears addr src (flash fs)" "op AND OP_COM_MASK \<noteq> OP_C_WRTHRU"
  shows "\<exists>c'. spiffs_phys_wr op addr src fs =
           Some (SPIFFS_OK, fs\<lparr>cache := c', flash := mem_write addr src (flash fs)\<rparr>) \<and>
           cache_ok n (fs\<lparr>cache := c', flash := mem_write addr src (flash fs)\<rparr>)"
  using nor_hal.phys_wr_ok [OF spi_flash.esp_hal [OF assms(1)] assms(3-5)] assms(2,6-8) by blast

theorem cached_write_coherent_witness:
  "\<exists>c'. spiffs_phys_wr (OP_T_OBJ_DA OR OP_C_UPDT) 516 [1, 2, 3] demo_fs =
      Some (SPIFFS_OK, demo_fs\<lparr>cache := c', flash := mem_write 516 [1, 2, 3] (flash demo_fs)\<rparr>) \<and>
      cache_ok 999999 (demo_fs\<lparr>cache := c', flash := mem_write 516 [1, 2, 3] (flash demo_fs)\<rparr>)"
proof (rule cached_write_coherent [OF chip.spi_flash_axioms])
  show "hal_write_f (cfg demo_fs) = spiffs_hal_write nor_chip 0" by (simp add: demo_fs_ok)
  show "geom (cfg demo_fs)" "cache_ok (Suc 999999) demo_fs" by (simp_all add: demo_fs_ok)
  show "in_page (cfg demo_fs) 516 (length [1, 2, 3 :: byte])" "hal_writable (4 * 1024 * 1024) 516 (length [1, 2, 3 :: byte])"
    by (simp_all add: demo_fs_ok in_page_def page_start_def page_of_def hal_writable_def UNALIGNED_WRITE_BUFFER_SIZE_def)
  show "clears 516 [1, 2, 3] (flash demo_fs)" by (simp add: demo_fs_ok clears_def)
  show "(OP_T_OBJ_DA OR OP_C_UPDT) AND OP_COM_MASK \<noteq> OP_C_WRTHRU" by (simp add: c_defs)
qed

text \<open>
  When every cache page is held by pending file writes, the next read of an uncached page (other
  than a second-layer lookup) uses a null pointer: eviction spares write pages, the allocation
  fails, and \<open>spiffs_phys_rd\<close> goes on with the page it did not get.
\<close>

theorem read_with_write_pages_only_undefined:
  assumes "cache fs = Some c" "cache_wf page c" "op AND OP_TYPE_MASK \<noteq> OP_T_OBJ_LU2"
    and "\<And>i. i < cpage_count c \<Longrightarrow> bit (cpage_use_map c) i \<and> cp_flags (cpages c ! i) AND CACHE_FLAG_TYPE_WR \<noteq> 0"
  shows "spiffs_phys_rd op addr len fs = None"
proof -
  let ?c = "cache_tick c"
  let ?fs = "fs\<lparr>cache := Some ?c\<rparr>"
  have wf: "cache_wf page ?c" using assms(2) by (simp add: cache_wf_def)
  have busy: "\<forall>i < cpage_count ?c. bit (cpage_use_map ?c) i" using assms(4) by simp
  have none: "\<not> read_page c i" for i using assms(4) by (auto simp: read_page_def)
  have "snd (fold (oldest_step CACHE_FLAG_TYPE_WR 0 ?c) [0..<cpage_count ?c] (0, None)) = None"
    using oldest_fold [where acc = "(0, None)" and fm = CACHE_FLAG_TYPE_WR and fl = 0 and c = ?c
        and xs = "[0..<cpage_count ?c]"] assms(4) by (auto split: option.splits)
  then have evict: "spiffs_cache_page_remove_oldest CACHE_FLAG_TYPE_WR 0 ?fs = Some (SPIFFS_OK, ?fs)"
    using use_map_busy [OF wf] busy assms(2)
    by (simp add: spiffs_cache_page_remove_oldest_def cache_wf_def)
  have "find (\<lambda>i. \<not> bit (cpage_use_map ?c) i) [0..<cpage_count ?c] = None"
    using busy by (auto simp: find_None_iff)
  then have "spiffs_cache_page_allocate ?fs = Some (None, ?fs)"
    using wf by (simp add: spiffs_cache_page_allocate_def cache_free_scan_find cache_wf_def)
  moreover have got: "spiffs_cache_page_get pix fs = Some (None, fs)" for pix
    using none by (intro page_get_None [OF assms(1,2)]) auto
  ultimately show ?thesis
    using assms(1,3) evict by (simp add: spiffs_phys_rd_def got Let_def)
qed

text \<open>Both cache pages of the file system below hold pending writes.\<close>

definition demo_full_cache :: spiffs_cache where
  "demo_full_cache = \<lparr>cpage_count = 2, c_last_access = 9, cpage_use_map = 0xffffffff, cpage_use_mask = 3,
     cpages = replicate 2 ((blank_cache_page 256)\<lparr>cp_flags := CACHE_FLAG_TYPE_WR\<rparr>)\<rparr>"

theorem read_with_write_pages_only_undefined_witness:
  "spiffs_phys_rd (OP_T_OBJ_DA OR OP_C_READ) 514 5 (demo_fs\<lparr>cache := Some demo_full_cache\<rparr>) = None"
proof (rule read_with_write_pages_only_undefined)
  let ?fs = "demo_fs\<lparr>cache := Some demo_full_cache\<rparr>"
  have ff: "(0xffffffff :: u32) = - 1" by simp
  have three: "(3 :: u32) = mask 2" by (simp add: mask_eq_exp_minus_1)
  show "cache ?fs = Some demo_full_cache" by simp
  show "cache_wf 256 demo_full_cache"
    unfolding cache_wf_def demo_full_cache_def ff three by (auto simp: blank_cache_page_def)
  show "(OP_T_OBJ_DA OR OP_C_READ) AND OP_TYPE_MASK \<noteq> OP_T_OBJ_LU2" by (simp add: c_defs)
  show "bit (cpage_use_map demo_full_cache) i \<and> cp_flags (cpages demo_full_cache ! i) AND CACHE_FLAG_TYPE_WR \<noteq> 0"
    if "i < cpage_count demo_full_cache" for i
    using that unfolding demo_full_cache_def ff by (simp add: CACHE_FLAG_TYPE_WR_def)
qed

end
