(* ===== verification/Spiffs_Disk.thy ===== *)
theory Spiffs_Disk
  imports Spiffs_Coherence Spiffs_Page
begin

section \<open>SPIFFS: the disk as the file system sees it\<close>

text \<open>
  The layer between the cache and the file system proofs. \<open>disk_hal\<close> collects what the upper layers
  need of the configuration: its callbacks work on whole pages, on writes inside a page and on
  erase blocks. It is proved for \<open>spiffs_hal.cpp\<close>. Under it, reads and writes through the cache are
  reads and writes of the flash; the lookup entries of the blocks become the function \<open>lu_id\<close>.
\<close>

subsection \<open>Callbacks that serve whole pages\<close>

definition disk_hal :: "spiffs_config \<Rightarrow> bool" where
  "disk_hal c \<longleftrightarrow> geom c \<and>
     (\<forall>p n m. p < SPIFFS_MAX_PAGES c \<longrightarrow> n \<le> log_page_size c \<longrightarrow>
        hal_read_f c (page_start c p) n m = Some (SPIFFS_OK, mem_read m (page_start c p) n)) \<and>
     (\<forall>a bs m. in_page c a (length bs) \<longrightarrow> hal_write_f c a bs m = Some (SPIFFS_OK, prog a bs m)) \<and>
     (\<forall>k m. (k + 1) * phys_erase_block c \<le> phys_size c \<longrightarrow>
        hal_erase_f c (phys_addr c + k * phys_erase_block c) (phys_erase_block c) m =
          Some (SPIFFS_OK, erase (phys_addr c + k * phys_erase_block c) (phys_erase_block c) m))"

lemma disk_hal_geom [simp]: "disk_hal c \<Longrightarrow> geom c"
  by (simp add: disk_hal_def)

lemma page_end: "p < SPIFFS_MAX_PAGES c \<Longrightarrow> page_start c p + log_page_size c \<le> phys_addr c + phys_size c"
proof -
  assume "p < SPIFFS_MAX_PAGES c"
  then have "Suc p * log_page_size c \<le> SPIFFS_MAX_PAGES c * log_page_size c" by (intro mult_le_mono1) simp
  also have "\<dots> \<le> phys_size c" by (simp add: SPIFFS_MAX_PAGES_def div_times_less_eq_dividend)
  finally show ?thesis by (simp add: page_start_def)
qed

lemma esp_disk_hal:
  assumes dev: "spi_flash dev chip" and g: "geom c"
    and hal: "hal_read_f c = spiffs_hal_read dev d0" "hal_write_f c = spiffs_hal_write dev src_addr"
      "hal_erase_f c = spiffs_hal_erase dev"
    and page: "log_page_size c \<le> 512" "log_page_size c mod 4 = 0"
    and sect: "phys_addr c mod 4096 = 0" "phys_erase_block c mod 4096 = 0"
    and fits: "phys_addr c + phys_size c + 4 \<le> chip"
  shows "disk_hal c"
proof -
  note h = nor_hal.rd_ok [OF spi_flash.esp_hal [OF dev]] nor_hal.wr_ok [OF spi_flash.esp_hal [OF dev]]
    nor_hal.er_ok [OF spi_flash.esp_hal [OF dev]]
  have d: "4 dvd phys_addr c" "4 dvd log_page_size c" "4096 dvd phys_addr c" "4096 dvd phys_erase_block c"
    using sect page(2) by (auto simp: mod_eq_0_iff_dvd intro: dvd_trans [of 4 4096])
  have rd: "hal_readable chip (page_start c p) n" if "p < SPIFFS_MAX_PAGES c" "n \<le> log_page_size c" for p n
  proof -
    have "4 dvd page_start c p" using d(1,2) unfolding page_start_def by (intro dvd_add dvd_mult)
    then show ?thesis using page_end [OF that(1)] that(2) fits by (simp add: hal_readable_def)
  qed
  have wr: "hal_writable chip a (length bs)" if "in_page c a (length bs)" for a and bs :: "byte list"
  proof -
    have "a + length bs \<le> page_start c (page_of c a) + log_page_size c" "page_of c a < SPIFFS_MAX_PAGES c"
      "page_start c (page_of c a) \<le> a"
      using that page_start_le by (auto simp: in_page_def)
    then show ?thesis
      using page_end [of "page_of c a" c] fits page(1)
      by (simp add: hal_writable_def UNALIGNED_WRITE_BUFFER_SIZE_def)
  qed
  have er: "hal_erasable chip (phys_addr c + k * phys_erase_block c) (phys_erase_block c)"
    if "(k + 1) * phys_erase_block c \<le> phys_size c" for k
  proof -
    have "4096 dvd phys_addr c + k * phys_erase_block c" using d(3,4) by (intro dvd_add dvd_mult)
    then show ?thesis using that d(4) fits by (simp add: hal_erasable_def SPI_FLASH_SEC_SIZE_def)
  qed
  show ?thesis unfolding disk_hal_def hal by (intro conjI allI impI g h rd wr er)
qed

text \<open>A configuration whose callbacks serve whole pages meets the callback contract.\<close>

lemma disk_nor_hal:
  assumes "disk_hal c"
  shows "nor_hal (hal_read_f c) (hal_write_f c) (hal_erase_f c)
    (\<lambda>a n. \<exists>p < SPIFFS_MAX_PAGES c. a = page_start c p \<and> n \<le> log_page_size c) (in_page c)
    (\<lambda>a n. \<exists>k. (k + 1) * phys_erase_block c \<le> phys_size c \<and> a = phys_addr c + k * phys_erase_block c \<and> n = phys_erase_block c)"
  by unfold_locales (use assms in \<open>auto simp: disk_hal_def\<close>)

subsection \<open>Reading and writing\<close>

lemma page_start_of: "geom c \<Longrightarrow> page_of c (page_start c p) = p"
  by (simp add: page_of_def page_start_def geom_def)

lemma disk_rd:
  assumes "disk_hal (cfg fs)" "in_page (cfg fs) addr len" "cache_ok (Suc n) fs"
    and "op AND OP_TYPE_MASK = OP_T_OBJ_LU2 \<Longrightarrow> addr = page_start (cfg fs) (page_of (cfg fs) addr)"
  shows "\<exists>c'. spiffs_phys_rd op addr len fs = Some (SPIFFS_OK, mem_read (flash fs) addr len, fs\<lparr>cache := c'\<rparr>) \<and>
           cache_ok n (fs\<lparr>cache := c'\<rparr>)"
proof -
  let ?p = "page_of (cfg fs) addr"
  have p: "?p < SPIFFS_MAX_PAGES (cfg fs)" using assms(2) by (simp add: in_page_def)
  have len: "addr = page_start (cfg fs) ?p \<Longrightarrow> len \<le> log_page_size (cfg fs)"
    using assms(2) by (simp add: in_page_def)
  have "\<exists>fs'. spiffs_phys_rd op addr len fs = Some (SPIFFS_OK, mem_read (flash fs) addr len, fs') \<and>
           cache_ok n fs' \<and> fs' = fs\<lparr>cache := cache fs'\<rparr>"
    by (rule nor_hal.phys_rd_ok [OF disk_nor_hal [OF assms(1)] disk_hal_geom [OF assms(1)] assms(2,3) refl])
      (use p assms(4) len in blast)+
  then show ?thesis by metis
qed

lemma disk_wr:
  assumes "disk_hal (cfg fs)" "in_page (cfg fs) addr (length src)" "cache_ok (Suc n) fs"
    and "clears addr src (flash fs)" "op AND OP_COM_MASK \<noteq> OP_C_WRTHRU"
  shows "\<exists>c'. spiffs_phys_wr op addr src fs =
           Some (SPIFFS_OK, fs\<lparr>cache := c', flash := mem_write addr src (flash fs)\<rparr>) \<and>
           cache_ok n (fs\<lparr>cache := c', flash := mem_write addr src (flash fs)\<rparr>)"
  by (rule nor_hal.phys_wr_ok [OF disk_nor_hal [OF assms(1)] disk_hal_geom [OF assms(1)] assms(2,3) refl assms(2,4,5)])

lemma cache_ok_less: "cache_ok (n + k) fs \<Longrightarrow> cache_ok n fs"
  by (auto simp: cache_ok_def stamped_def)

subsection \<open>Blocks and lookup entries\<close>

text \<open>Blocks consist of whole pages, a page holds an object index header, the lookup pages have room for the entries, and indices fit
  their 16 bits.\<close>

definition lu_geom :: "spiffs_config \<Rightarrow> nat \<Rightarrow> bool" where
  "lu_geom c blocks \<longleftrightarrow> 0 < blocks \<and> blocks \<le> 65535 \<and> blocks * log_block_size c \<le> phys_size c \<and>
     SPIFFS_PAGES_PER_BLOCK c * log_page_size c = log_block_size c \<and> even (log_page_size c) \<and>
     SIZEOF_OBJIX_HEADER \<le> log_page_size c \<and> SPIFFS_OBJ_LOOKUP_PAGES c < SPIFFS_PAGES_PER_BLOCK c \<and> SPIFFS_PAGES_PER_BLOCK c < 2 ^ 31 \<and>
     (SPIFFS_PAGES_PER_BLOCK c - SPIFFS_OBJ_LOOKUP_PAGES c) * 2 \<le> SPIFFS_OBJ_LOOKUP_PAGES c * log_page_size c \<and>
     blocks * (SPIFFS_PAGES_PER_BLOCK c - SPIFFS_OBJ_LOOKUP_PAGES c) < 2 ^ 31"

lemma lu_geom_entries:
  assumes "lu_geom c nb"
  shows "SPIFFS_OBJ_LOOKUP_MAX_ENTRIES c = SPIFFS_PAGES_PER_BLOCK c - SPIFFS_OBJ_LOOKUP_PAGES c"
    "max_entries c = SPIFFS_OBJ_LOOKUP_MAX_ENTRIES c" "0 < max_entries c"
    "s32_of (SPIFFS_OBJ_LOOKUP_MAX_ENTRIES c) = int (max_entries c)"
    "2 * entries_per_page c = log_page_size c"
    "max_entries c \<le> SPIFFS_OBJ_LOOKUP_PAGES c * entries_per_page c"
    "s32_of (u32_of (nb * SPIFFS_OBJ_LOOKUP_MAX_ENTRIES c)) = int (nb * max_entries c)"
proof -
  show a: "SPIFFS_OBJ_LOOKUP_MAX_ENTRIES c = SPIFFS_PAGES_PER_BLOCK c - SPIFFS_OBJ_LOOKUP_PAGES c"
    using assms by (simp add: SPIFFS_OBJ_LOOKUP_MAX_ENTRIES_def lu_geom_def)
  show b: "max_entries c = SPIFFS_OBJ_LOOKUP_MAX_ENTRIES c"
    using assms unfolding max_entries_def a lu_geom_def by (subst s32_of_small) (auto intro: less_imp_diff_less)
  show "0 < max_entries c" using assms unfolding b a by (simp add: lu_geom_def)
  show "s32_of (SPIFFS_OBJ_LOOKUP_MAX_ENTRIES c) = int (max_entries c)"
    using assms unfolding b a lu_geom_def by (intro s32_of_small less_imp_diff_less) simp
  show e: "2 * entries_per_page c = log_page_size c" using assms by (simp add: entries_per_page_def lu_geom_def)
  have "max_entries c * 2 \<le> SPIFFS_OBJ_LOOKUP_PAGES c * (2 * entries_per_page c)"
    using assms unfolding b a e by (simp add: lu_geom_def)
  then show "max_entries c \<le> SPIFFS_OBJ_LOOKUP_PAGES c * entries_per_page c" by simp
  show "s32_of (u32_of (nb * SPIFFS_OBJ_LOOKUP_MAX_ENTRIES c)) = int (nb * max_entries c)"
    using assms unfolding b a by (simp add: lu_geom_def)
qed

definition lu_addr :: "spiffs_config \<Rightarrow> nat \<Rightarrow> nat \<Rightarrow> nat" where
  "lu_addr c b e = phys_addr c + b * log_block_size c + 2 * e"

definition lu_id :: "spiffs_config \<Rightarrow> mem \<Rightarrow> nat \<Rightarrow> nat \<Rightarrow> u16" where
  "lu_id c m b e = of_le16 (mem_read m (lu_addr c b e) 2)"

lemma block_pages:
  assumes "lu_geom c nb" "b < nb" "p < SPIFFS_PAGES_PER_BLOCK c"
  shows "b * SPIFFS_PAGES_PER_BLOCK c + p < SPIFFS_MAX_PAGES c"
proof -
  let ?P = "SPIFFS_PAGES_PER_BLOCK c"
  have "0 < log_page_size c" using assms(3) by (cases "log_page_size c") (simp_all add: SPIFFS_PAGES_PER_BLOCK_def)
  have "(b * ?P + p) + 1 \<le> Suc b * ?P" using assms(3) by simp
  also have "\<dots> \<le> nb * ?P" using assms(2) by (intro mult_le_mono1) simp
  finally have "(b * ?P + p + 1) * log_page_size c \<le> nb * ?P * log_page_size c" by (rule mult_le_mono1)
  also have "\<dots> = nb * log_block_size c" using assms(1) by (simp add: lu_geom_def mult.assoc)
  also have "\<dots> \<le> phys_size c" using assms(1) by (simp add: lu_geom_def)
  finally have "b * ?P + p + 1 \<le> SPIFFS_MAX_PAGES c"
    using \<open>0 < log_page_size c\<close> by (simp add: SPIFFS_MAX_PAGES_def less_eq_div_iff_mult_less_eq)
  then show ?thesis by simp
qed

lemma block_page_start:
  "lu_geom c nb \<Longrightarrow> page_start c (b * SPIFFS_PAGES_PER_BLOCK c + p) = phys_addr c + b * log_block_size c + p * log_page_size c"
  by (simp add: page_start_def lu_geom_def add_mult_distrib mult.assoc)

lemma whole_page: "geom c \<Longrightarrow> p < SPIFFS_MAX_PAGES c \<Longrightarrow> in_page c (page_start c p) (log_page_size c)"
  by (simp add: in_page_def page_start_of) (simp add: page_start_def)

lemma page_part:
  "geom c \<Longrightarrow> p < SPIFFS_MAX_PAGES c \<Longrightarrow> k < log_page_size c \<Longrightarrow> k + n \<le> log_page_size c \<Longrightarrow>
   in_page c (page_start c p + k) n \<and> page_of c (page_start c p + k) = p"
  by (auto simp: in_page_def page_of_def page_start_def geom_def)

text \<open>The lookup entries are the little-endian half words of the lookup pages.\<close>

lemma lu_get_page:
  assumes "lu_geom c nb" "k < entries_per_page c" "lu_work fs = mem_read m (page_start c (b * SPIFFS_PAGES_PER_BLOCK c + p)) (log_page_size c)"
  shows "lu_get k fs = Some (lu_id c m b (p * entries_per_page c + k))"
proof -
  have e: "log_page_size c = 2 * entries_per_page c" using lu_geom_entries(5) [OF assms(1)] by simp
  have "page_start c (b * SPIFFS_PAGES_PER_BLOCK c + p) + 2 * k = lu_addr c b (p * entries_per_page c + k)"
    unfolding block_page_start [OF assms(1)] by (simp add: lu_addr_def e algebra_simps)
  then show ?thesis using assms(2,3) by (simp add: lu_get_def buf_slice_def lu_id_def e)
qed

lemma block_addr_fits:
  assumes "geom c" "lu_geom c nb" "b < nb"
  shows "phys_addr c + Suc b * log_block_size c < 2 ^ 32"
proof -
  have "Suc b * log_block_size c \<le> nb * log_block_size c" using assms(3) by (intro mult_le_mono1) simp
  then show ?thesis using assms(1,2) by (simp add: geom_def lu_geom_def)
qed

lemma lu_load_ok:
  assumes "disk_hal (cfg fs)" "lu_geom (cfg fs) nb" "b < nb" "p < SPIFFS_OBJ_LOOKUP_PAGES (cfg fs)" "cache_ok (Suc n) fs"
  shows "\<exists>c'. lu_load (add32 (b * log_block_size (cfg fs)) (SPIFFS_PAGE_TO_PADDR (cfg fs) p)) fs =
      Some (SPIFFS_OK, fs\<lparr>cache := c', lu_work := mem_read (flash fs)
         (page_start (cfg fs) (b * SPIFFS_PAGES_PER_BLOCK (cfg fs) + p)) (log_page_size (cfg fs))\<rparr>) \<and>
      cache_ok n (fs\<lparr>cache := c'\<rparr>)"
proof -
  let ?c = "cfg fs"
  let ?q = "b * SPIFFS_PAGES_PER_BLOCK ?c + p"
  have g: "geom ?c" using assms(1) by simp
  have p: "p < SPIFFS_PAGES_PER_BLOCK ?c" using assms(2,4) by (simp add: lu_geom_def)
  have q: "?q < SPIFFS_MAX_PAGES ?c" using block_pages [OF assms(2,3) p] .
  have p0: "p < SPIFFS_MAX_PAGES ?c" using block_pages [OF assms(2) _ p, of 0] assms(3) by simp
  have a: "add32 (b * log_block_size ?c) (SPIFFS_PAGE_TO_PADDR ?c p) = page_start ?c ?q"
    using pages_fit [OF g q] block_page_start [OF assms(2), of b p]
    by (simp add: PAGE_TO_PADDR_eq [OF g p0] page_start_def)
  have lu: "(OP_T_OBJ_LU OR OP_C_READ) AND OP_TYPE_MASK \<noteq> OP_T_OBJ_LU2" by (simp add: c_defs)
  obtain c' where "spiffs_phys_rd (OP_T_OBJ_LU OR OP_C_READ) (page_start ?c ?q) (log_page_size ?c) fs =
        Some (SPIFFS_OK, mem_read (flash fs) (page_start ?c ?q) (log_page_size ?c), fs\<lparr>cache := c'\<rparr>)"
      "cache_ok n (fs\<lparr>cache := c'\<rparr>)"
    using disk_rd [OF assms(1) whole_page [OF g q] assms(5), of "OP_T_OBJ_LU OR OP_C_READ"] lu by blast
  then show ?thesis unfolding a by (intro exI [of _ c']) (simp add: lu_load_def)
qed

end
