(* ===== verification/Spiffs_Search.thy ===== *)
theory Spiffs_Search
  imports Spiffs_Disk
begin

section \<open>SPIFFS: what the lookup visitor computes\<close>

text \<open>
  The three nested loops of \<open>spiffs_obj_lu_find_entry_visitor\<close> run the visitor over a list of
  entries, \<open>visitor_order\<close>. The locale \<open>lu_visitor\<close> is the contract between the loops and a
  visitor callback: on a coherent cache the callback computes a function of the flash and of the
  file system state without the cache, spends a bounded number of cache accesses, and leaves the
  disk alone. The callback may rely on being given the id of the entry it is called for, unless the
  visitor is run with \<open>SPIFFS_VIS_CHECK_PH\<close> (\<open>by_ph\<close>). Every visitor below is shown to meet it, and the searches follow from the one
  theorem proved inside the locale.
\<close>

subsection \<open>The order of the visits\<close>

text \<open>From entry \<open>e\<close> of block \<open>b\<close> over at most \<open>k\<close> blocks.\<close>

primrec visit_order :: "nat \<Rightarrow> bool \<Rightarrow> nat \<Rightarrow> nat \<Rightarrow> nat \<Rightarrow> nat \<Rightarrow> (nat \<times> nat) list" where
  "visit_order nb nowrap me 0 b e = []"
| "visit_order nb nowrap me (Suc k) b e = map (Pair b) [e..<me] @
     (if nb \<le> b + 1 then if nowrap then [] else visit_order nb nowrap me k 0 0
      else visit_order nb nowrap me k (b + 1) 0)"

definition visitor_order :: "spiffs_config \<Rightarrow> nat \<Rightarrow> byte \<Rightarrow> nat \<Rightarrow> nat \<Rightarrow> (nat \<times> nat) list" where
  "visitor_order c nb flags sb se =
     (let me = max_entries c; nowrap = (flags AND VIS_NO_WRAP \<noteq> 0); next = (me \<le> se + 1);
          e = (if next then 0 else se);
          b = (if next then if nb \<le> sb + 1 then 0 else sb + 1 else sb)
      in if next \<and> nb \<le> sb + 1 \<and> nowrap then []
         else visit_order nb nowrap me (if e = 0 then nb else nb + 1) b e)"

lemma visit_order_bounds:
  "(x, y) \<in> set (visit_order nb nw me k b e) \<Longrightarrow> b < nb \<Longrightarrow> x < nb \<and> y < me"
  by (induction k arbitrary: b e) (auto split: if_splits)

text \<open>With wrapping, every block within reach is visited from its first entry on, the starting
  block from the starting entry on.\<close>

lemma visit_order_reaches:
  assumes "b < nb" "x < nb" "y < me" "x \<ge> b \<Longrightarrow> x - b < k" "x < b \<Longrightarrow> nb - b + x < k" "x = b \<Longrightarrow> e \<le> y"
  shows "(x, y) \<in> set (visit_order nb False me k b e)"
  using assms
proof (induction k arbitrary: b e)
  case 0
  then show ?case by (cases "x < b") auto
next
  case (Suc k)
  show ?case
  proof (cases "x = b")
    case True
    then show ?thesis using Suc.prems by auto
  next
    case False
    show ?thesis
    proof (cases "nb \<le> b + 1")
      case True
      then have "x < b" using False Suc.prems(2) by simp
      then have "(x, y) \<in> set (visit_order nb False me k 0 0)" using Suc.prems True by (intro Suc.IH) auto
      then show ?thesis using True by simp
    next
      case nowrap: False
      have "(x, y) \<in> set (visit_order nb False me k (b + 1) 0)" using Suc.prems nowrap False by (intro Suc.IH) auto
      then show ?thesis using nowrap by simp
    qed
  qed
qed

text \<open>Coming round to the starting block again costs one block more.\<close>

lemma visit_order_again:
  assumes "b < nb" "y < me"
  shows "(b, y) \<in> set (visit_order nb False me (nb + 1) b e)"
proof (cases "nb \<le> b + 1")
  case True
  have "(b, y) \<in> set (visit_order nb False me nb 0 0)" using assms by (intro visit_order_reaches) auto
  then show ?thesis using True by simp
next
  case False
  then obtain k where k: "nb = Suc k" by (cases nb) auto
  have "(b, y) \<in> set (visit_order nb False me nb (b + 1) 0)"
    using assms False by (intro visit_order_reaches) auto
  then show ?thesis using False by simp
qed

lemma visitor_order_all:
  assumes "sb < nb" "0 < max_entries c" "flags AND VIS_NO_WRAP = 0"
  shows "set (visitor_order c nb flags sb se) = {..<nb} \<times> {..<max_entries c}"
proof -
  define me where "me = max_entries c"
  define e where "e = (if me \<le> se + 1 then 0 else se)"
  define b where "b = (if me \<le> se + 1 then if nb \<le> sb + 1 then 0 else sb + 1 else sb)"
  have b: "b < nb" using assms(1) by (auto simp: b_def)
  have o: "visitor_order c nb flags sb se = visit_order nb False me (if e = 0 then nb else nb + 1) b e"
    using assms(3) by (simp add: visitor_order_def Let_def me_def e_def b_def)
  have "(x, y) \<in> set (visit_order nb False me (if e = 0 then nb else nb + 1) b e)" if "x < nb" "y < me" for x y
  proof (cases "e = 0 \<or> x \<noteq> b")
    case True
    then show ?thesis using that b by (intro visit_order_reaches) auto
  next
    case False
    then show ?thesis using visit_order_again [OF b that(2), of e] by (simp del: visit_order.simps)
  qed
  then show ?thesis unfolding o me_def [symmetric] using visit_order_bounds [OF _ b] by (auto simp del: visit_order.simps)
qed

subsection \<open>Running a visitor over entries\<close>

text \<open>The state without the cache and the lookup buffer.\<close>

definition strip :: "spiffs \<Rightarrow> spiffs" where
  "strip fs = fs\<lparr>cache := None, lu_work := []\<rparr>"

lemma strip_simps [simp]:
  "strip (fs\<lparr>cache := c\<rparr>) = strip fs" "strip (fs\<lparr>lu_work := w\<rparr>) = strip fs" "strip (strip fs) = strip fs"
  "cfg (strip fs) = cfg fs" "flash (strip fs) = flash fs" "block_count (strip fs) = block_count fs"
  by (simp_all add: strip_def)

text \<open>\<open>None\<close>: every entry was visited.\<close>

fun lu_run :: "(nat \<Rightarrow> nat \<Rightarrow> u16) \<Rightarrow> byte \<Rightarrow> u16 \<Rightarrow> (u16 \<Rightarrow> nat \<Rightarrow> nat \<Rightarrow> 'u \<Rightarrow> spiffs \<Rightarrow> int \<times> 'u \<times> spiffs) \<Rightarrow>
    (nat \<times> nat) list \<Rightarrow> 'u \<Rightarrow> spiffs \<Rightarrow> (int \<times> nat \<times> nat) option \<times> 'u \<times> spiffs" where
  "lu_run ids flags oid f [] u t = (None, u, t)"
| "lu_run ids flags oid f ((b, e) # es) u t =
     (if flags AND VIS_CHECK_ID = 0 \<or> ids b e = oid then
        (case f (if flags AND VIS_CHECK_PH \<noteq> 0 then oid else ids b e) b e u t of (r, u, t) \<Rightarrow>
           if r = SPIFFS_VIS_COUNTINUE then lu_run ids flags oid f es u t else (Some (r, b, e), u, t))
      else lu_run ids flags oid f es u t)"

lemma lu_run_append:
  "lu_run ids flags oid f (xs @ ys) u t =
     (case lu_run ids flags oid f xs u t of
        (None, u, t) \<Rightarrow> lu_run ids flags oid f ys u t
      | (Some x, u, t) \<Rightarrow> (Some x, u, t))"
proof (induction xs arbitrary: u t)
  case (Cons x xs)
  then show ?case by (cases x) (auto split: prod.splits)
qed simp

definition on_disk :: "spiffs_config \<Rightarrow> mem \<Rightarrow> nat \<Rightarrow> spiffs \<Rightarrow> bool" where
  "on_disk c m nb fs \<longleftrightarrow> cfg fs = c \<and> flash fs = m \<and> block_count fs = nb"

lemma on_disk_strip [simp]: "on_disk c m nb (strip fs) = on_disk c m nb fs"
  by (simp add: on_disk_def)

lemma on_disk_simps [simp]:
  "on_disk c m nb (fs\<lparr>cache := x\<rparr>) = on_disk c m nb fs" "on_disk c m nb (fs\<lparr>lu_work := w\<rparr>) = on_disk c m nb fs"
  by (simp_all add: on_disk_def)

lemma cache_ok_lu_work [simp]: "cache_ok n (fs\<lparr>lu_work := w\<rparr>) = cache_ok n fs"
  by (simp add: cache_ok_def)

text \<open>What the loops leave behind, against the result of \<open>lu_run\<close>.\<close>

definition run_post :: "nat \<Rightarrow> (int \<times> nat \<times> nat) option \<times> 'u \<times> spiffs \<Rightarrow> 'u vis \<Rightarrow> bool" where
  "run_post n R s \<longleftrightarrow> vis_u s = fst (snd R) \<and> strip (vis_fs s) = snd (snd R) \<and> cache_ok n (vis_fs s) \<and>
     (\<forall>r l. fst R = Some (r, l) \<longrightarrow> vis_loc s = Some l)"

locale lu_visitor =
  fixes v :: "'u visitor" and cost :: nat
    and f :: "u16 \<Rightarrow> nat \<Rightarrow> nat \<Rightarrow> 'u \<Rightarrow> spiffs \<Rightarrow> int \<times> 'u \<times> spiffs"
    and inv :: "spiffs \<Rightarrow> bool" and by_ph :: bool
  assumes visit: "disk_hal c \<Longrightarrow> lu_geom c nb \<Longrightarrow> on_disk c m nb fs \<Longrightarrow> cache_ok (n + cost) fs \<Longrightarrow>
      b < nb \<Longrightarrow> e < max_entries c \<Longrightarrow> inv (strip fs) \<Longrightarrow> by_ph \<or> i = lu_id c m b e \<Longrightarrow> f i b e u (strip fs) = (r, u', t) \<Longrightarrow>
      \<exists>x. v i b e u fs = Some (r, u', t\<lparr>cache := x, lu_work := lu_work fs\<rparr>) \<and> cache_ok n (t\<lparr>cache := x\<rparr>)"
    and keeps: "on_disk c m nb t \<Longrightarrow> strip t = t \<Longrightarrow> inv t \<Longrightarrow> f i b e u t = (r, u', t') \<Longrightarrow>
      on_disk c m nb t' \<and> strip t' = t' \<and> inv t'"
    and no_reload: "inv t \<Longrightarrow> fst (f i b e u t) \<noteq> SPIFFS_VIS_COUNTINUE_RELOAD"
begin

lemma run_keeps:
  "on_disk c m nb t \<Longrightarrow> strip t = t \<Longrightarrow> inv t \<Longrightarrow> lu_run ids flags oid f es u t = (x, u', t') \<Longrightarrow>
   on_disk c m nb t' \<and> strip t' = t' \<and> inv t'"
proof (induction es arbitrary: u t)
  case (Cons be es)
  obtain b e where be: "be = (b, e)" by (cases be)
  let ?i = "if flags AND VIS_CHECK_PH \<noteq> 0 then oid else ids b e"
  obtain r1 u1 t1 where f: "f ?i b e u t = (r1, u1, t1)" by (cases "f ?i b e u t") auto
  have k: "on_disk c m nb t1 \<and> strip t1 = t1 \<and> inv t1" using keeps [OF Cons.prems(1-3) f] .
  show ?case using Cons.prems(4) Cons.IH [OF Cons.prems(1-3)] Cons.IH [of t1 u1] k
    unfolding be by (auto simp: f split: if_splits)
qed simp

lemma entries_run:
  assumes "disk_hal c" "lu_geom c nb" "b < nb" "va_v va = Some v \<and> (va_flags va AND VIS_CHECK_PH \<noteq> 0 \<longrightarrow> by_ph)" "off = p * entries_per_page c"
    and "cache_ok (n + cost * length es) (vis_fs s)" "on_disk c m nb (vis_fs s)" "inv (strip (vis_fs s))"
    and "\<forall>e \<in> set es. off \<le> e \<and> e < off + entries_per_page c \<and> e < max_entries c"
    and "lu_work (vis_fs s) = mem_read m (page_start c (b * SPIFFS_PAGES_PER_BLOCK c + p)) (log_page_size c)"
    and "R = lu_run (lu_id c m) (va_flags va) (va_obj_id va) f (map (Pair b) es) (vis_u s) (strip (vis_fs s))"
  shows "\<exists>s'. visit_entries va b addr off es s = Some (case fst R of None \<Rightarrow> Continue s' | Some (r, _) \<Rightarrow> Return (r, s')) \<and>
      run_post n R s' \<and> (fst R = None \<longrightarrow> vis_count s' = vis_count s - int (length es))"
  using assms(6-)
proof (induction es arbitrary: s R)
  case Nil
  then show ?case by (simp add: run_post_def)
next
  case (Cons e es)
  let ?id = "lu_id c m b e"
  let ?i = "if va_flags va AND VIS_CHECK_PH \<noteq> 0 then va_obj_id va else ?id"
  let ?s = "s\<lparr>vis_loc := Some (b, e)\<rparr>"
  have get: "lu_get (e - off) (vis_fs s) = Some ?id"
    using lu_get_page [OF assms(2) _ Cons.prems(5), of "e - off"] Cons.prems(4) assms(5) by auto
  have budget: "cache_ok (n + cost * length es + cost) (vis_fs s)"
    using Cons.prems(1) by (simp add: ac_simps)
  then have less: "cache_ok (n + cost * length es) (vis_fs s)" by (rule cache_ok_less)
  show ?case
  proof (cases "va_flags va AND VIS_CHECK_ID = 0 \<or> ?id = va_obj_id va")
    case False
    then show ?thesis
      using Cons.IH [of "s\<lparr>vis_count := vis_count s - 1\<rparr>" R] Cons.prems less by (simp add: get diff_diff_eq)
  next
    case True
    obtain r u' t where f: "f ?i b e (vis_u s) (strip (vis_fs s)) = (r, u', t)"
      by (cases "f ?i b e (vis_u s) (strip (vis_fs s))") auto
    have e: "e < max_entries c" using Cons.prems(4) by simp
    have i: "by_ph \<or> ?i = lu_id c m b e" using assms(4) by simp
    obtain x where x: "v ?i b e (vis_u s) (vis_fs s) = Some (r, u', t\<lparr>cache := x, lu_work := lu_work (vis_fs s)\<rparr>)"
        "cache_ok (n + cost * length es) (t\<lparr>cache := x\<rparr>)"
      using visit [OF assms(1,2) Cons.prems(2) budget assms(3) e Cons.prems(3) i f] by blast
    let ?t = "t\<lparr>cache := x, lu_work := lu_work (vis_fs s)\<rparr>"
    have k: "on_disk c m nb t" "strip t = t" "inv t"
      using keeps [OF _ _ Cons.prems(3) f] Cons.prems(2) by auto
    have nr: "r \<noteq> SPIFFS_VIS_COUNTINUE_RELOAD" using no_reload [OF Cons.prems(3)] f by (metis fst_conv)
    show ?thesis
    proof (cases "r = SPIFFS_VIS_COUNTINUE")
      case False
      have "cache_ok n (t\<lparr>cache := x\<rparr>)" using x(2) by (rule cache_ok_less)
      then show ?thesis
        using True False nr Cons.prems(6) k(2)
        by (intro exI [of _ "?s\<lparr>vis_u := u', vis_fs := ?t\<rparr>"]) (simp add: get assms(4) x(1) f run_post_def)
    next
      case c: True
      let ?s' = "?s\<lparr>vis_u := u', vis_fs := ?t, vis_count := vis_count s - 1\<rparr>"
      have "R = lu_run (lu_id c m) (va_flags va) (va_obj_id va) f (map (Pair b) es) (vis_u ?s') (strip (vis_fs ?s'))"
        using Cons.prems(6) True f c k(2) by simp
      then show ?thesis
        using Cons.IH [of ?s' R] Cons.prems(4,5) True c k x(2) by (simp add: get assms(4) x(1) diff_diff_eq)
    qed
  qed
qed

lemma pages_run:
  assumes d: "disk_hal c" and l: "lu_geom c nb" and b: "b < nb" and v: "va_v va = Some v \<and> (va_flags va AND VIS_CHECK_PH \<noteq> 0 \<longrightarrow> by_ph)"
    and "p \<le> SPIFFS_OBJ_LOOKUP_PAGES c" "min (p * entries_per_page c) (max_entries c) \<le> cur"
    and "cache_ok (n + (SPIFFS_OBJ_LOOKUP_PAGES c - p) + cost * (max_entries c - cur)) (vis_fs s)"
    and "on_disk c m nb (vis_fs s)" "inv (strip (vis_fs s))"
    and "R = lu_run (lu_id c m) (va_flags va) (va_obj_id va) f (map (Pair b) [cur..<max_entries c]) (vis_u s) (strip (vis_fs s))"
  shows "\<exists>s'. visit_pages va b (b * log_block_size c) [p..<SPIFFS_OBJ_LOOKUP_PAGES c] cur s =
        Some (case fst R of None \<Rightarrow> Continue (SPIFFS_OK, s') | Some (r, _) \<Rightarrow> Return (r, s')) \<and>
      run_post n R s' \<and> (fst R = None \<longrightarrow> vis_count s' = vis_count s - int (max_entries c - cur))"
  using assms(5-)
proof (induction "SPIFFS_OBJ_LOOKUP_PAGES c - p" arbitrary: p cur s R)
  case 0
  then have p: "p = SPIFFS_OBJ_LOOKUP_PAGES c" by simp
  then have cur: "max_entries c \<le> cur" using 0 lu_geom_entries(6) [OF l] by simp
  have "cache_ok n (vis_fs s)" using 0 cur p by simp
  then show ?case using 0 p cur by (simp add: run_post_def)
next
  case (Suc k)
  let ?E = "entries_per_page c" and ?M = "max_entries c"
  let ?lim = "min (p * ?E + ?E) ?M"
  let ?run = "\<lambda>es. lu_run (lu_id c m) (va_flags va) (va_obj_id va) f (map (Pair b) es)"
  have p: "p < SPIFFS_OBJ_LOOKUP_PAGES c" using Suc.hyps(2) by simp
  have cfg: "cfg (vis_fs s) = c" "flash (vis_fs s) = m" using Suc.prems(4) by (simp_all add: on_disk_def)
  have split: "[cur..<?M] = [cur..<?lim] @ [max cur ?lim..<?M]"
  proof (cases "cur \<le> ?lim")
    case True
    then show ?thesis using upt_split [of cur ?lim ?M] by (simp add: max_absorb2)
  next
    case False
    then have "max cur ?lim = cur" "[cur..<?lim] = []" by (simp_all only: upt_eq_Nil_conv not_le max_absorb1 less_imp_le simp_thms)
    then show ?thesis by simp
  qed
  have lens: "cost * (?M - cur) = cost * length [cur..<?lim] + cost * (?M - max cur ?lim)"
    using arg_cong [OF split, of length] by (simp add: add_mult_distrib2 [symmetric] del: min.bounded_iff max.bounded_iff)
  have budget: "cache_ok (Suc (n + k + cost * (?M - cur))) (vis_fs s)"
    using Suc.prems(3) unfolding Suc.hyps(2) [symmetric] by simp
  obtain x where x: "lu_load (add32 (b * log_block_size c) (SPIFFS_PAGE_TO_PADDR c p)) (vis_fs s) =
      Some (SPIFFS_OK, (vis_fs s)\<lparr>cache := x,
         lu_work := mem_read m (page_start c (b * SPIFFS_PAGES_PER_BLOCK c + p)) (log_page_size c)\<rparr>)"
      "cache_ok (n + k + cost * (?M - cur)) ((vis_fs s)\<lparr>cache := x\<rparr>)"
    using lu_load_ok [of "vis_fs s" nb b p "n + k + cost * (?M - cur)"] d l b p budget
    by (auto simp: cfg)
  let ?fs = "(vis_fs s)\<lparr>cache := x,
         lu_work := mem_read m (page_start c (b * SPIFFS_PAGES_PER_BLOCK c + p)) (log_page_size c)\<rparr>"
  let ?s = "s\<lparr>vis_fs := ?fs\<rparr>"
  define R1 where "R1 = ?run [cur..<?lim] (vis_u s) (strip (vis_fs s))"
  have R: "R = (case R1 of (None, u, t) \<Rightarrow> ?run [max cur ?lim..<?M] u t | (Some y, u, t) \<Rightarrow> (Some y, u, t))"
    using Suc.prems(6) unfolding split R1_def by (simp only: map_append lu_run_append)
  have "\<exists>s'. visit_entries va b (add32 (b * log_block_size c) (SPIFFS_PAGE_TO_PADDR c p)) (p * ?E) [cur..<?lim] ?s =
        Some (case fst R1 of None \<Rightarrow> Continue s' | Some (r, _) \<Rightarrow> Return (r, s')) \<and>
      run_post (n + k + cost * (?M - max cur ?lim)) R1 s' \<and>
      (fst R1 = None \<longrightarrow> vis_count s' = vis_count ?s - int (length [cur..<?lim]))"
    using x(2) Suc.prems(2,4,5) unfolding lens
    by (intro entries_run [OF d l b v refl]) (auto simp: R1_def ac_simps)
  then obtain s1 where s1: "visit_entries va b (add32 (b * log_block_size c) (SPIFFS_PAGE_TO_PADDR c p)) (p * ?E) [cur..<?lim] ?s =
        Some (case fst R1 of None \<Rightarrow> Continue s1 | Some (r, _) \<Rightarrow> Return (r, s1))"
      "run_post (n + k + cost * (?M - max cur ?lim)) R1 s1"
      "fst R1 = None \<Longrightarrow> vis_count s1 = vis_count s - int (length [cur..<?lim])"
    by auto
  obtain y1 u1 t1 where R1: "R1 = (y1, u1, t1)" by (cases R1)
  have k1: "on_disk c m nb t1" "inv t1"
    using run_keeps [of c m nb "strip (vis_fs s)"] Suc.prems(4,5) R1 [unfolded R1_def] by auto
  have upt: "[p..<SPIFFS_OBJ_LOOKUP_PAGES c] = p # [Suc p..<SPIFFS_OBJ_LOOKUP_PAGES c]"
    using p by (rule upt_conv_Cons)
  show ?case
  proof (cases y1)
    case (Some y)
    have "cache_ok n (vis_fs s1)" using s1(2) unfolding run_post_def by (meson cache_ok_less)
    then show ?thesis
      using s1 Some R R1 unfolding upt by (intro exI [of _ s1]) (auto simp: cfg x(1) run_post_def split: prod.splits)
  next
    case None
    have st: "vis_u s1 = u1" "strip (vis_fs s1) = t1" using s1(2) R1 by (simp_all add: run_post_def)
    have od: "on_disk c m nb (vis_fs s1)" using k1(1) on_disk_strip [of c m nb "vis_fs s1"] st(2) by simp
    have kk: "SPIFFS_OBJ_LOOKUP_PAGES c - Suc p = k" using Suc.hyps(2) by simp
    have "\<exists>s'. visit_pages va b (b * log_block_size c) [Suc p..<SPIFFS_OBJ_LOOKUP_PAGES c] (max cur ?lim) s1 =
        Some (case fst R of None \<Rightarrow> Continue (SPIFFS_OK, s') | Some (r, _) \<Rightarrow> Return (r, s')) \<and>
      run_post n R s' \<and> (fst R = None \<longrightarrow> vis_count s' = vis_count s1 - int (?M - max cur ?lim))"
    proof (rule Suc.hyps(1))
      show "k = SPIFFS_OBJ_LOOKUP_PAGES c - Suc p" "Suc p \<le> SPIFFS_OBJ_LOOKUP_PAGES c" using Suc.hyps(2) p by simp_all
      show "min (Suc p * ?E) ?M \<le> max cur ?lim" by (simp add: add.commute)
      show "cache_ok (n + (SPIFFS_OBJ_LOOKUP_PAGES c - Suc p) + cost * (?M - max cur ?lim)) (vis_fs s1)"
        using s1(2) unfolding kk run_post_def by blast
      show "on_disk c m nb (vis_fs s1)" "inv (strip (vis_fs s1))" using od k1(2) st(2) by simp_all
      show "R = ?run [max cur ?lim..<?M] (vis_u s1) (strip (vis_fs s1))" using R R1 None st by simp
    qed
    moreover have "int (length [cur..<?lim]) + int (?M - max cur ?lim) = int (?M - cur)"
      using arg_cong [OF split, of length] by simp
    ultimately show ?thesis
      using s1(1,3) R1 None unfolding upt by (auto simp: cfg x(1))
  qed
qed

lemma blocks_run:
  assumes d: "disk_hal c" and l: "lu_geom c nb" and v: "va_v va = Some v \<and> (va_flags va AND VIS_CHECK_PH \<noteq> 0 \<longrightarrow> by_ph)"
    and "b < nb" "cur < max_entries c" "k < fuel" "0 < vis_count s \<longleftrightarrow> 0 < k"
    and "(int k - 1) * int (max_entries c) < vis_count s + int cur" "vis_count s + int cur \<le> int k * int (max_entries c)"
    and "cache_ok (n + k * (SPIFFS_OBJ_LOOKUP_PAGES c + cost * max_entries c)) (vis_fs s)"
    and "on_disk c m nb (vis_fs s)" "inv (strip (vis_fs s))"
    and "R = lu_run (lu_id c m) (va_flags va) (va_obj_id va) f
           (visit_order nb (va_flags va AND VIS_NO_WRAP \<noteq> 0) (max_entries c) k b cur) (vis_u s) (strip (vis_fs s))"
  shows "\<exists>s'. visit_blocks fuel va b (b * log_block_size c) cur s =
        Some (case fst R of None \<Rightarrow> SPIFFS_VIS_END | Some (r, _) \<Rightarrow> r, s') \<and> run_post n R s'"
  using assms(4-)
proof (induction k arbitrary: fuel b cur s R)
  case 0
  then obtain g where "fuel = Suc g" by (cases fuel) auto
  then show ?case using 0 by (simp add: run_post_def)
next
  case (Suc k)
  let ?M = "max_entries c" and ?O = "SPIFFS_OBJ_LOOKUP_PAGES c"
  let ?nw = "va_flags va AND VIS_NO_WRAP \<noteq> 0"
  let ?run = "\<lambda>es. lu_run (lu_id c m) (va_flags va) (va_obj_id va) f es"
  obtain g where g: "fuel = Suc g" using Suc.prems(3) by (cases fuel) auto
  have cfg: "cfg (vis_fs s) = c" using Suc.prems(8) by (simp add: on_disk_def)
  define wrap where "wrap = (nb \<le> b + 1)"
  define b' where "b' = (if wrap then 0 else b + 1)"
  define rest where "rest = (if wrap \<and> ?nw then [] else visit_order nb ?nw ?M k b' 0)"
  define R1 where "R1 = ?run (map (Pair b) [cur..<?M]) (vis_u s) (strip (vis_fs s))"
  have "visit_order nb ?nw ?M (Suc k) b cur = map (Pair b) [cur..<?M] @ rest"
    by (simp add: rest_def b'_def wrap_def)
  then have R: "R = (case R1 of (None, u, t) \<Rightarrow> ?run rest u t | (Some y, u, t) \<Rightarrow> (Some y, u, t))"
    using Suc.prems(10) unfolding R1_def by (simp only: lu_run_append)
  have pg: "cur div entries_per_page c \<le> ?O"
    using Suc.prems(2) lu_geom_entries(6) [OF l] by (metis less_imp_le less_le_trans div_le_mono div_mult_self_is_m gr0I mult_0_right not_less_zero le_trans less_or_eq_imp_le)
  have budget: "cache_ok ((n + k * (?O + cost * ?M)) + (?O - cur div entries_per_page c) + cost * (?M - cur)) (vis_fs s)"
  proof -
    have "(?O - cur div entries_per_page c) + cost * (?M - cur) \<le> ?O + cost * ?M" by (intro add_mono mult_le_mono2) auto
    then obtain j where "?O + cost * ?M = (?O - cur div entries_per_page c) + cost * (?M - cur) + j" by (metis le_Suc_ex)
    then show ?thesis using Suc.prems(7) cache_ok_less [of _ j "vis_fs s"] by (simp add: ac_simps)
  qed
  have "\<exists>s'. visit_pages va b (b * log_block_size c) [cur div entries_per_page c..<?O] cur s =
        Some (case fst R1 of None \<Rightarrow> Continue (SPIFFS_OK, s') | Some (r, _) \<Rightarrow> Return (r, s')) \<and>
      run_post (n + k * (?O + cost * ?M)) R1 s' \<and> (fst R1 = None \<longrightarrow> vis_count s' = vis_count s - int (?M - cur))"
    using Suc.prems(8,9) by (intro pages_run [OF d l Suc.prems(1) v pg _ budget]) (auto simp: R1_def min.coboundedI1)
  then obtain s1 where s1: "visit_pages va b (b * log_block_size c) [cur div entries_per_page c..<?O] cur s =
        Some (case fst R1 of None \<Rightarrow> Continue (SPIFFS_OK, s1) | Some (r, _) \<Rightarrow> Return (r, s1))"
      "run_post (n + k * (?O + cost * ?M)) R1 s1" "fst R1 = None \<Longrightarrow> vis_count s1 = vis_count s - int (?M - cur)"
    by auto
  have ok1: "cache_ok n (vis_fs s1)" using s1(2) unfolding run_post_def by (meson cache_ok_less)
  have pos: "\<not> vis_count s \<le> 0" using Suc.prems(4) by simp
  obtain y1 u1 t1 where R1: "R1 = (y1, u1, t1)" by (cases R1)
  show ?case
  proof (cases y1)
    case (Some y)
    then show ?thesis
      using s1(1,2) ok1 R R1 pos unfolding g by (intro exI [of _ s1]) (auto simp: cfg run_post_def Let_def split: prod.splits)
  next
    case None
    have st: "vis_u s1 = u1" "strip (vis_fs s1) = t1" using s1(2) R1 by (simp_all add: run_post_def)
    have k1: "on_disk c m nb t1" "inv t1"
      using run_keeps [of c m nb "strip (vis_fs s)"] Suc.prems(8,9) R1 [unfolded R1_def] by auto
    have od: "on_disk c m nb (vis_fs s1)" using k1(1) on_disk_strip [of c m nb "vis_fs s1"] st(2) by simp
    have nb: "block_count (vis_fs s1) = nb" "nb \<le> 65535" using od l by (simp_all add: on_disk_def lu_geom_def)
    have nxt: "u16_of (b + 1) = b + 1" using nb Suc.prems(1) by simp
    have addr: "add32 (b * log_block_size c) (log_block_size c) = (b + 1) * log_block_size c" if "\<not> wrap"
      using block_addr_fits [OF disk_hal_geom [OF d] l Suc.prems(1)] by simp
    have step: "visit_blocks fuel va b (b * log_block_size c) cur s =
        (if wrap \<and> ?nw then Some (SPIFFS_VIS_END, s1) else visit_blocks g va b' (b' * log_block_size c) 0 s1)"
      using s1(1) R1 None pos nxt addr unfolding g by (simp add: cfg nb(1) wrap_def b'_def Let_def)
    show ?thesis
    proof (cases "wrap \<and> ?nw")
      case True
      then show ?thesis
        unfolding step using R R1 None st ok1 by (intro exI [of _ s1]) (simp add: rest_def run_post_def)
    next
      case False
      have cnt: "vis_count s1 = vis_count s + int cur - int ?M" using s1(3) R1 None Suc.prems(2) by simp
      have lo: "(int k - 1) * int ?M < vis_count s1 + int 0" and hi: "vis_count s1 + int 0 \<le> int k * int ?M"
        using Suc.prems(5,6) unfolding cnt by (simp_all add: algebra_simps)
      have "\<exists>s'. visit_blocks g va b' (b' * log_block_size c) 0 s1 =
          Some (case fst R of None \<Rightarrow> SPIFFS_VIS_END | Some (r, _) \<Rightarrow> r, s') \<and> run_post n R s'"
      proof (rule Suc.IH)
        show "b' < nb" "0 < ?M" "k < g" using Suc.prems(1,2,3) by (simp_all add: b'_def wrap_def g)
        show "0 < vis_count s1 \<longleftrightarrow> 0 < k"
        proof
          assume "0 < vis_count s1"
          then show "0 < k" using hi by (cases k) auto
        next
          assume "0 < k"
          then have "0 \<le> (int k - 1) * int ?M" by simp
          then show "0 < vis_count s1" using lo by simp
        qed
        show "cache_ok (n + k * (?O + cost * ?M)) (vis_fs s1)" using s1(2) by (simp add: run_post_def)
        show "on_disk c m nb (vis_fs s1)" "inv (strip (vis_fs s1))" using od k1(2) st(2) by simp_all
        show "R = ?run (visit_order nb ?nw ?M k b' 0) (vis_u s1) (strip (vis_fs s1))"
          using R R1 None st False by (simp add: rest_def)
      qed (use lo hi in simp_all)
      then show ?thesis using step False by simp
    qed
  qed
qed

text \<open>The visitor as a whole.\<close>

theorem visitor_run:
  assumes d: "disk_hal (cfg fs)" and l: "lu_geom (cfg fs) (block_count fs)" and sb: "sb < block_count fs"
    and ok: "cache_ok (n + (block_count fs + 1) * (SPIFFS_OBJ_LOOKUP_PAGES (cfg fs) + cost * max_entries (cfg fs))) fs"
    and inv: "inv (strip fs)"
    and run: "lu_run (lu_id (cfg fs) (flash fs)) flags oid f (visitor_order (cfg fs) (block_count fs) flags sb se) u (strip fs) =
      (x, u', t)"
    and ph: "flags AND VIS_CHECK_PH \<noteq> 0 \<Longrightarrow> by_ph"
  shows "\<exists>loc fs'. spiffs_obj_lu_find_entry_visitor sb se flags oid (Some v) u fs =
           Some (case x of None \<Rightarrow> SPIFFS_VIS_END | Some (r, _) \<Rightarrow> r, u', loc, fs') \<and>
         strip fs' = t \<and> cache_ok n fs' \<and> (\<forall>r be. x = Some (r, be) \<longrightarrow> loc = Some be)"
proof -
  let ?c = "cfg fs" and ?nb = "block_count fs"
  let ?M = "max_entries ?c"
  define nxt where "nxt = (?M \<le> se + 1)"
  define e where "e = (if nxt then 0 else se)"
  define b where "b = (if nxt then if ?nb \<le> sb + 1 then 0 else sb + 1 else sb)"
  define k where "k = (if e = 0 then ?nb else ?nb + 1)"
  let ?va = "\<lparr>va_flags = flags, va_obj_id = oid, va_v = Some v\<rparr>"
  let ?s = "\<lparr>vis_u = u, vis_loc = None, vis_count = int (?nb * ?M), vis_fs = fs\<rparr>"
  note ge = lu_geom_entries [OF l]
  have M: "0 < ?M" and nb: "0 < ?nb" "?nb \<le> 65535" using ge(3) l by (simp_all add: lu_geom_def)
  have n1: "u16_of (sb + 1) = sb + 1" using sb nb by simp
  have nx: "(int se \<ge> s32_of (SPIFFS_OBJ_LOOKUP_MAX_ENTRIES ?c) - 1) = nxt" unfolding ge(4) nxt_def by linarith
  have bnb: "b < ?nb" using sb by (auto simp: b_def)
  have eM: "e < ?M" using M by (simp add: e_def nxt_def)
  have addr: "u32_of (b * log_block_size ?c) = b * log_block_size ?c"
    using block_addr_fits [OF disk_hal_geom [OF d] l bnb] by simp
  show ?thesis
  proof (cases "nxt \<and> ?nb \<le> sb + 1 \<and> flags AND VIS_NO_WRAP \<noteq> 0")
    case True
    then have "spiffs_obj_lu_find_entry_visitor sb se flags oid (Some v) u fs = Some (SPIFFS_VIS_END, u, None, fs)"
      unfolding spiffs_obj_lu_find_entry_visitor_def Let_def nx n1 by simp
    moreover have "visitor_order ?c ?nb flags sb se = []" using True by (simp add: visitor_order_def nxt_def Let_def)
    ultimately show ?thesis using run cache_ok_less [OF ok] by auto
  next
    case False
    have o: "visitor_order ?c ?nb flags sb se = visit_order ?nb (flags AND VIS_NO_WRAP \<noteq> 0) ?M k b e"
      using False unfolding visitor_order_def Let_def nxt_def k_def b_def e_def by (simp add: if_not_P)
    have kb: "k \<le> ?nb + 1" by (simp add: k_def)
    have fuel: "?nb + 1 < ?nb * ?M + 2" using nb(1) M by (cases ?M) auto
    have ok': "cache_ok (n + k * (SPIFFS_OBJ_LOOKUP_PAGES ?c + cost * ?M)) fs"
    proof -
      obtain j where "?nb + 1 = k + j" using kb by (metis le_Suc_ex)
      then show ?thesis using ok cache_ok_less [of "n + k * (SPIFFS_OBJ_LOOKUP_PAGES ?c + cost * ?M)"]
        by (simp add: add_mult_distrib add.assoc)
    qed
    have "\<exists>s'. visit_blocks (nat (int (?nb * ?M)) + 2) ?va b (b * log_block_size ?c) e ?s =
        Some (case fst (x, u', t) of None \<Rightarrow> SPIFFS_VIS_END | Some (r, _) \<Rightarrow> r, s') \<and> run_post n (x, u', t) s'"
    proof (rule blocks_run [OF d l])
      show "b < ?nb" "e < ?M" by (fact bnb eM)+
      show "k < nat (int (?nb * ?M)) + 2" unfolding nat_int using kb fuel by linarith
      show "0 < vis_count ?s \<longleftrightarrow> 0 < k" using nb(1) M by (simp add: k_def)
      have "(int k - 1) * int ?M < int ?nb * int ?M + int e \<and> int ?nb * int ?M + int e \<le> int k * int ?M"
        using eM M by (simp add: k_def algebra_simps)
      then show "(int k - 1) * int ?M < vis_count ?s + int e" "vis_count ?s + int e \<le> int k * int ?M" by simp_all
      show "(x, u', t) = lu_run (lu_id ?c (flash fs)) (va_flags ?va) (va_obj_id ?va) f
           (visit_order ?nb (va_flags ?va AND VIS_NO_WRAP \<noteq> 0) ?M k b e) (vis_u ?s) (strip (vis_fs ?s))"
        using run unfolding o by simp
    qed (use ok' inv ph in \<open>simp_all add: on_disk_def\<close>)
    then obtain s' where s': "visit_blocks (nat (int (?nb * ?M)) + 2) ?va b (b * log_block_size ?c) e ?s =
        Some (case x of None \<Rightarrow> SPIFFS_VIS_END | Some (r, _) \<Rightarrow> r, s')" "run_post n (x, u', t) s'"
      by auto
    have bb: "(if nxt \<and> ?nb \<le> (if nxt then sb + 1 else sb) then 0 else if nxt then sb + 1 else sb) = b"
      by (simp add: b_def)
    have "spiffs_obj_lu_find_entry_visitor sb se flags oid (Some v) u fs =
        Some (case x of None \<Rightarrow> SPIFFS_VIS_END | Some (r, _) \<Rightarrow> r, vis_u s', vis_loc s', vis_fs s')"
      unfolding spiffs_obj_lu_find_entry_visitor_def Let_def nx n1 ge(7) bb addr e_def [symmetric]
      using False s'(1) by (auto simp: if_not_P)
    then show ?thesis using s'(2) by (auto simp: run_post_def)
  qed
qed

end

end
