(* ===== verification/Spiffs_Find.thy ===== *)
theory Spiffs_Find
  imports Spiffs_Search
begin

section \<open>SPIFFS: correctness of the searches\<close>

text \<open>
  The visitors of the object lookup meet the contract \<open>lu_visitor\<close>; the searches built on them
  find an entry if and only if there is one, and the mount-time statistics are exact counts.
\<close>

subsection \<open>Searching an id\<close>

text \<open>Without a callback the visitor stops at the first entry, like a callback that answers
  \<open>SPIFFS_OK\<close>.\<close>

definition stop_v :: "unit visitor" where
  "stop_v i b e u fs = Some (SPIFFS_OK, u, fs)"

interpretation stop: lu_visitor stop_v 0 "\<lambda>i b e u t. (SPIFFS_OK, u, t)" "\<lambda>_. True" True
proof
  fix c nb m fs n b e i u r u' t
  assume "(SPIFFS_OK, u, strip fs) = (r, u' :: unit, t)" "cache_ok (n + 0) fs"
  then show "\<exists>x. stop_v i b e u fs = Some (r, u', t\<lparr>cache := x, lu_work := lu_work fs\<rparr>) \<and> cache_ok n (t\<lparr>cache := x\<rparr>)"
    by (intro exI [of _ "cache fs"]) (auto simp: stop_v_def strip_def)
qed (auto simp: c_defs)

lemma ok_stops: "SPIFFS_OK \<noteq> SPIFFS_VIS_COUNTINUE" "SPIFFS_OK \<noteq> SPIFFS_VIS_COUNTINUE_RELOAD"
  by (simp_all add: c_defs)

abbreviation stopping :: "unit vis_arg \<Rightarrow> unit vis_arg" where
  "stopping va \<equiv> va\<lparr>va_v := Some stop_v\<rparr>"

lemma visit_entries_stop:
  assumes "va_v va = None"
  shows "visit_entries (stopping va) b addr off es s = visit_entries va b addr off es s"
proof (induction es arbitrary: s)
  case (Cons e es)
  have f: "stop_v i b e u fs = Some (SPIFFS_OK, u, fs)" for i u fs by (simp add: stop_v_def)
  have uu: "s\<lparr>vis_loc := x, vis_u := ()\<rparr> = s\<lparr>vis_loc := x\<rparr>" for x and s :: "unit vis" by (cases s) simp
  show ?case unfolding visit_entries.simps Cons.IH Let_def by (simp add: assms f ok_stops uu cong: if_cong)
qed simp

lemma visit_pages_stop:
  assumes "va_v va = None"
  shows "visit_pages (stopping va) b addr ps e s = visit_pages va b addr ps e s"
proof (induction ps arbitrary: e s)
  case (Cons p ps)
  show ?case unfolding visit_pages.simps visit_entries_stop [OF assms] Cons.IH by (rule refl)
qed simp

lemma visit_blocks_stop:
  assumes "va_v va = None"
  shows "visit_blocks k (stopping va) b addr e s = visit_blocks k va b addr e s"
proof (induction k arbitrary: b addr e s)
  case (Suc k)
  have "va_flags (stopping va) = va_flags va" by simp
  then show ?case unfolding visit_blocks.simps visit_pages_stop [OF assms] Suc.IH by simp
qed simp

lemma visitor_stop:
  "spiffs_obj_lu_find_entry_visitor sb se flags oid None u fs =
   spiffs_obj_lu_find_entry_visitor sb se flags oid (Some stop_v) u fs"
proof -
  let ?va = "\<lparr>va_flags = flags, va_obj_id = oid, va_v = None\<rparr>"
  have "visit_blocks k \<lparr>va_flags = flags, va_obj_id = oid, va_v = Some stop_v\<rparr> b a e s = visit_blocks k ?va b a e s" for k b a e s
    using visit_blocks_stop [of ?va] by simp
  then show ?thesis by (simp only: spiffs_obj_lu_find_entry_visitor_def Let_def)
qed

lemma lu_run_stop:
  "lu_run ids VIS_CHECK_ID oid (\<lambda>i b e u t. (SPIFFS_OK, u, t)) es u t =
     (map_option (Pair SPIFFS_OK) (find (\<lambda>(b, e). ids b e = oid) es), u, t)"
  by (induction es) (auto simp: c_defs)

lemma find_id_spec:
  assumes "disk_hal (cfg fs)" "lu_geom (cfg fs) (block_count fs)" "sb < block_count fs"
    and "cache_ok (n + (block_count fs + 1) * SPIFFS_OBJ_LOOKUP_PAGES (cfg fs)) fs"
    and "hit = find (\<lambda>(b, e). lu_id (cfg fs) (flash fs) b e = oid) (visitor_order (cfg fs) (block_count fs) VIS_CHECK_ID sb se)"
  shows "\<exists>loc fs'. spiffs_obj_lu_find_id sb se oid fs =
           Some (case hit of None \<Rightarrow> SPIFFS_ERR_NOT_FOUND | Some _ \<Rightarrow> SPIFFS_OK, loc, fs') \<and>
         strip fs' = strip fs \<and> cache_ok n fs' \<and> (\<forall>be. hit = Some be \<longrightarrow> loc = Some be)"
proof -
  obtain loc fs' where "spiffs_obj_lu_find_entry_visitor sb se VIS_CHECK_ID oid (Some stop_v) () fs =
        Some (case map_option (Pair SPIFFS_OK) hit of None \<Rightarrow> SPIFFS_VIS_END | Some (r, _) \<Rightarrow> r, (), loc, fs')"
      "strip fs' = strip fs" "cache_ok n fs'" "\<forall>r be. map_option (Pair SPIFFS_OK) hit = Some (r, be) \<longrightarrow> loc = Some be"
    using stop.visitor_run [OF assms(1-3), of n VIS_CHECK_ID oid se "()", unfolded lu_run_stop, OF _ _ refl] assms(4,5) by auto
  then show ?thesis
    by (intro exI [of _ loc] exI [of _ fs']) (auto simp: spiffs_obj_lu_find_id_def visitor_stop c_defs split: option.splits)
qed

lemma find_order_None:
  assumes "sb < nb" "lu_geom c nb"
  shows "find (\<lambda>(b, e). P b e) (visitor_order c nb VIS_CHECK_ID sb se) = None \<longleftrightarrow>
     (\<forall>b e. b < nb \<longrightarrow> e < max_entries c \<longrightarrow> \<not> P b e)"
  using visitor_order_all [OF assms(1) lu_geom_entries(3) [OF assms(2)], of VIS_CHECK_ID se]
  by (auto simp: find_None_iff c_defs)

subsection \<open>Pages and their headers\<close>

lemma entry_page:
  assumes "geom c" "lu_geom c nb" "b < nb" "e < max_entries c"
  defines "pix \<equiv> SPIFFS_OBJ_LOOKUP_ENTRY_TO_PIX c b e"
  shows "pix = b * SPIFFS_PAGES_PER_BLOCK c + (SPIFFS_OBJ_LOOKUP_PAGES c + e)" "pix < SPIFFS_MAX_PAGES c"
    "SPIFFS_PAGE_TO_PADDR c pix = page_start c pix"
proof -
  have "SPIFFS_OBJ_LOOKUP_PAGES c + e < SPIFFS_PAGES_PER_BLOCK c"
    using assms(4) lu_geom_entries(1,2) [OF assms(2)] by simp
  then have lt: "b * SPIFFS_PAGES_PER_BLOCK c + (SPIFFS_OBJ_LOOKUP_PAGES c + e) < SPIFFS_MAX_PAGES c"
    using block_pages [OF assms(2,3)] by blast
  also have "\<dots> \<le> 65536" using assms(1) by (simp add: geom_def)
  finally show "pix = b * SPIFFS_PAGES_PER_BLOCK c + (SPIFFS_OBJ_LOOKUP_PAGES c + e)"
    by (simp add: pix_def SPIFFS_OBJ_LOOKUP_ENTRY_TO_PIX_def)
  then show p: "pix < SPIFFS_MAX_PAGES c" using lt by simp
  show "SPIFFS_PAGE_TO_PADDR c pix = page_start c pix" using PAGE_TO_PADDR_eq [OF assms(1) p] .
qed

definition hdr_at :: "spiffs_config \<Rightarrow> mem \<Rightarrow> nat \<Rightarrow> spiffs_page_header" where
  "hdr_at c m pix = page_header_of (mem_read m (page_start c pix) SIZEOF_PAGE_HEADER)"

lemma rd_header_ok:
  assumes "disk_hal (cfg fs)" "pix < SPIFFS_MAX_PAGES (cfg fs)" "SIZEOF_PAGE_HEADER \<le> log_page_size (cfg fs)" "cache_ok (Suc n) fs"
  shows "\<exists>x. rd_header op (page_start (cfg fs) pix) fs = Some (SPIFFS_OK, hdr_at (cfg fs) (flash fs) pix, fs\<lparr>cache := x\<rparr>) \<and>
     cache_ok n (fs\<lparr>cache := x\<rparr>)"
proof -
  let ?c = "cfg fs"
  have "in_page ?c (page_start ?c pix) SIZEOF_PAGE_HEADER"
    using page_part [OF disk_hal_geom [OF assms(1)] assms(2), of 0] assms(3) by (simp add: c_defs)
  then obtain x where "spiffs_phys_rd op (page_start ?c pix) SIZEOF_PAGE_HEADER fs =
      Some (SPIFFS_OK, mem_read (flash fs) (page_start ?c pix) SIZEOF_PAGE_HEADER, fs\<lparr>cache := x\<rparr>)"
      "cache_ok n (fs\<lparr>cache := x\<rparr>)"
    using disk_rd [OF assms(1) _ assms(4), of "page_start ?c pix" SIZEOF_PAGE_HEADER op]
      page_start_of [OF disk_hal_geom [OF assms(1)], of pix] by auto
  then show ?thesis by (auto simp: rd_header_def hdr_at_def)
qed

subsection \<open>Searching a span\<close>

text \<open>A page header names the wanted span of an object: written, final, not deleted.\<close>

definition span_match :: "u16 \<Rightarrow> nat \<Rightarrow> nat option \<Rightarrow> nat \<Rightarrow> spiffs_page_header \<Rightarrow> bool" where
  "span_match obj_id spix exclusion pix ph \<longleftrightarrow> ph_obj_id ph = obj_id \<and> ph_span_ix ph = spix \<and>
     ph_flags ph AND (PH_FLAG_FINAL OR PH_FLAG_DELET OR PH_FLAG_USED) = PH_FLAG_DELET \<and>
     \<not> (obj_id AND SPIFFS_OBJ_ID_IX_FLAG \<noteq> 0 \<and> ph_flags ph AND PH_FLAG_IXDELE = 0 \<and> ph_span_ix ph = 0) \<and>
     exclusion \<noteq> Some pix"

definition span_f :: "nat option \<Rightarrow> u16 \<Rightarrow> nat \<Rightarrow> nat \<Rightarrow> nat \<Rightarrow> spiffs \<Rightarrow> int \<times> nat \<times> spiffs" where
  "span_f excl i b e spix t =
     (let pix = SPIFFS_OBJ_LOOKUP_ENTRY_TO_PIX (cfg t) b e
      in (if span_match i spix excl pix (hdr_at (cfg t) (flash t) pix) then SPIFFS_OK else SPIFFS_VIS_COUNTINUE, spix, t))"

interpretation span: lu_visitor "spiffs_obj_lu_find_id_and_span_v excl" 1 "span_f excl" "\<lambda>_. True" True for excl
proof
  fix c nb m fs n b e i u r u' t
  assume d: "disk_hal c" and l: "lu_geom c nb" and o: "on_disk c m nb fs" and ok: "cache_ok (n + 1) fs"
    and b: "b < nb" and e: "e < max_entries c" and f: "span_f excl i b e u (strip fs) = (r, u', t)"
  have c: "cfg fs = c" using o by (simp add: on_disk_def)
  note p = entry_page [OF disk_hal_geom [OF d] l b e]
  have h: "SIZEOF_PAGE_HEADER \<le> log_page_size c" using l by (simp add: lu_geom_def c_defs)
  obtain x where "rd_header 0 (page_start c (SPIFFS_OBJ_LOOKUP_ENTRY_TO_PIX c b e)) fs =
      Some (SPIFFS_OK, hdr_at c (flash fs) (SPIFFS_OBJ_LOOKUP_ENTRY_TO_PIX c b e), fs\<lparr>cache := x\<rparr>)"
      "cache_ok n (fs\<lparr>cache := x\<rparr>)"
    using rd_header_ok [of fs "SPIFFS_OBJ_LOOKUP_ENTRY_TO_PIX c b e" n 0] d p(2) h ok by (auto simp: c)
  then show "\<exists>x. spiffs_obj_lu_find_id_and_span_v excl i b e u fs = Some (r, u', t\<lparr>cache := x, lu_work := lu_work fs\<rparr>) \<and>
      cache_ok n (t\<lparr>cache := x\<rparr>)"
    using f unfolding span_f_def
    by (intro exI [of _ x])
      (auto simp: spiffs_obj_lu_find_id_and_span_v_def c p(3) span_match_def strip_def c_defs cache_ok_def Let_def split: if_splits)
qed (auto simp: span_f_def c_defs Let_def split: if_splits)

lemma lu_run_span:
  "lu_run ids flags oid (span_f excl) es spix t =
     (map_option (Pair SPIFFS_OK) (find (\<lambda>(b, e). (flags AND VIS_CHECK_ID = 0 \<or> ids b e = oid) \<and>
         (let pix = SPIFFS_OBJ_LOOKUP_ENTRY_TO_PIX (cfg t) b e
          in span_match (if flags AND VIS_CHECK_PH \<noteq> 0 then oid else ids b e) spix excl pix (hdr_at (cfg t) (flash t) pix))) es), spix, t)"
proof (induction es)
  case (Cons be es)
  obtain b e where be: "be = (b, e)" by (cases be)
  have f: "span_f excl i b e spix t =
      (if span_match i spix excl (SPIFFS_OBJ_LOOKUP_ENTRY_TO_PIX (cfg t) b e)
            (hdr_at (cfg t) (flash t) (SPIFFS_OBJ_LOOKUP_ENTRY_TO_PIX (cfg t) b e))
       then SPIFFS_OK else SPIFFS_VIS_COUNTINUE, spix, t)" for i
    by (simp add: span_f_def Let_def)
  show ?case using ok_stops unfolding be by (simp add: f Cons.IH Let_def)
qed simp

text \<open>Entry \<open>e\<close> of block \<open>b\<close> is for a page with the wanted span, other than page \<open>excl\<close>.\<close>

definition span_at :: "spiffs_config \<Rightarrow> mem \<Rightarrow> u16 \<Rightarrow> nat \<Rightarrow> nat \<Rightarrow> nat \<Rightarrow> nat \<Rightarrow> bool" where
  "span_at c m oid spix excl b e \<longleftrightarrow> lu_id c m b e = oid \<and>
     (let pix = SPIFFS_OBJ_LOOKUP_ENTRY_TO_PIX c b e
      in span_match oid spix (if excl \<noteq> 0 then Some excl else None) pix (hdr_at c m pix))"

lemma strip_cursor:
  "strip (fs\<lparr>cursor_block_ix := b\<rparr>) = (strip fs)\<lparr>cursor_block_ix := b\<rparr>"
  "strip (fs\<lparr>cursor_obj_lu_entry := e\<rparr>) = (strip fs)\<lparr>cursor_obj_lu_entry := e\<rparr>"
  by (simp_all add: strip_def)

lemma find_span_spec:
  assumes "disk_hal (cfg fs)" "lu_geom (cfg fs) (block_count fs)" "cursor_block_ix fs < block_count fs"
    and "cache_ok (n + (block_count fs + 1) * (SPIFFS_OBJ_LOOKUP_PAGES (cfg fs) + max_entries (cfg fs))) fs"
    and "want = span_at (cfg fs) (flash fs) oid spix excl"
  shows "(\<exists>b e fs'. spiffs_obj_lu_find_id_and_span oid spix excl fs =
             Some (SPIFFS_OK, SPIFFS_OBJ_LOOKUP_ENTRY_TO_PIX (cfg fs) b e, fs') \<and> b < block_count fs \<and> e < max_entries (cfg fs) \<and>
             want b e \<and> strip fs' = (strip fs)\<lparr>cursor_block_ix := b, cursor_obj_lu_entry := e\<rparr> \<and> cache_ok n fs') \<or>
         (\<exists>fs'. spiffs_obj_lu_find_id_and_span oid spix excl fs = Some (SPIFFS_ERR_NOT_FOUND, 0, fs') \<and>
             (\<forall>b e. b < block_count fs \<longrightarrow> e < max_entries (cfg fs) \<longrightarrow> \<not> want b e) \<and> strip fs' = strip fs \<and> cache_ok n fs')"
proof -
  let ?x = "if excl \<noteq> 0 then Some excl else None"
  let ?order = "visitor_order (cfg fs) (block_count fs) VIS_CHECK_ID (cursor_block_ix fs) (cursor_obj_lu_entry fs)"
  define hit where "hit = find (\<lambda>(b, e). want b e) ?order"
  have ph: "VIS_CHECK_ID AND VIS_CHECK_PH = 0" "VIS_CHECK_ID AND VIS_CHECK_ID \<noteq> 0" by (simp_all add: c_defs)
  have "(\<lambda>(b, e). (VIS_CHECK_ID AND VIS_CHECK_ID = 0 \<or> lu_id (cfg fs) (flash fs) b e = oid) \<and>
         (let pix = SPIFFS_OBJ_LOOKUP_ENTRY_TO_PIX (cfg (strip fs)) b e
          in span_match (if VIS_CHECK_ID AND VIS_CHECK_PH \<noteq> 0 then oid else lu_id (cfg fs) (flash fs) b e) spix ?x pix
               (hdr_at (cfg (strip fs)) (flash (strip fs)) pix))) = (\<lambda>(b, e). want b e)"
    using ph by (auto simp: assms(5) span_at_def fun_eq_iff Let_def)
  then have run: "lu_run (lu_id (cfg fs) (flash fs)) VIS_CHECK_ID oid (span_f ?x) ?order spix (strip fs) =
      (map_option (Pair SPIFFS_OK) hit, spix, strip fs)"
    unfolding lu_run_span hit_def by simp
  obtain loc fs' where v: "spiffs_obj_lu_find_entry_visitor (cursor_block_ix fs) (cursor_obj_lu_entry fs) VIS_CHECK_ID oid
        (Some (spiffs_obj_lu_find_id_and_span_v ?x)) spix fs =
        Some (case map_option (Pair SPIFFS_OK) hit of None \<Rightarrow> SPIFFS_VIS_END | Some (r, _) \<Rightarrow> r, spix, loc, fs')"
      "strip fs' = strip fs" "cache_ok n fs'" "\<forall>r be. map_option (Pair SPIFFS_OK) hit = Some (r, be) \<longrightarrow> loc = Some be"
    using span.visitor_run [OF assms(1-3) _ _ run, of n] assms(4) by auto
  have fs': "cfg fs' = cfg fs" using v(2) strip_simps(4) [of fs'] by simp
  show ?thesis
  proof (cases hit)
    case None
    then have "\<forall>b e. b < block_count fs \<longrightarrow> e < max_entries (cfg fs) \<longrightarrow> \<not> want b e"
      using find_order_None [OF assms(3,2), of want "cursor_obj_lu_entry fs"] by (simp add: hit_def)
    moreover have "spiffs_obj_lu_find_id_and_span oid spix excl fs = Some (SPIFFS_ERR_NOT_FOUND, 0, fs')"
      using v(1) None unfolding spiffs_obj_lu_find_id_and_span_def find_span_with_def
      by (simp add: SPIFFS_VIS_END_def SPIFFS_ERR_NOT_FOUND_def)
    ultimately show ?thesis using v(2,3) by (intro disjI2 exI [of _ fs'] conjI)
  next
    case (Some be)
    obtain b e where be: "be = (b, e)" by (cases be)
    have w: "want b e" "(b, e) \<in> set ?order" using Some unfolding hit_def be find_Some_iff by (auto simp: in_set_conv_nth)
    then have "b < block_count fs" "e < max_entries (cfg fs)"
      using visitor_order_all [OF assms(3) lu_geom_entries(3) [OF assms(2)], of VIS_CHECK_ID] by (auto simp: c_defs)
    moreover have "spiffs_obj_lu_find_id_and_span oid spix excl fs = Some (SPIFFS_OK, SPIFFS_OBJ_LOOKUP_ENTRY_TO_PIX (cfg fs) b e,
        fs'\<lparr>cursor_block_ix := b, cursor_obj_lu_entry := e\<rparr>)"
      using v(1,4) Some be fs' unfolding spiffs_obj_lu_find_id_and_span_def find_span_with_def
      by (simp add: SPIFFS_VIS_END_def SPIFFS_OK_def)
    moreover have "strip (fs'\<lparr>cursor_block_ix := b, cursor_obj_lu_entry := e\<rparr>) =
        (strip fs)\<lparr>cursor_block_ix := b, cursor_obj_lu_entry := e\<rparr>"
      using v(2) by (simp add: strip_cursor)
    moreover have "cache_ok n (fs'\<lparr>cursor_block_ix := b, cursor_obj_lu_entry := e\<rparr>)" using v(3) by (simp add: cache_ok_def)
    ultimately show ?thesis
      using w(1) by (intro disjI1 exI [of _ b] exI [of _ e] exI [of _ "fs'\<lparr>cursor_block_ix := b, cursor_obj_lu_entry := e\<rparr>"] conjI)
  qed
qed

subsection \<open>The statistics of the mount-time scan\<close>

definition scan_bump :: "u16 \<Rightarrow> nat \<Rightarrow> spiffs \<Rightarrow> spiffs" where
  "scan_bump i e t =
     (if i = SPIFFS_OBJ_ID_FREE then if e = 0 then t\<lparr>free_blocks := add32 (free_blocks t) 1\<rparr> else t
      else if i = SPIFFS_OBJ_ID_DELETED then t\<lparr>stats_p_deleted := add32 (stats_p_deleted t) 1\<rparr>
      else t\<lparr>stats_p_allocated := add32 (stats_p_allocated t) 1\<rparr>)"

lemma scan_bump_simps [simp]:
  "cfg (scan_bump i e t) = cfg t" "flash (scan_bump i e t) = flash t" "block_count (scan_bump i e t) = block_count t"
  "strip (scan_bump i e t) = scan_bump i e (strip t)" "cache (scan_bump i e t) = cache t"
  "(scan_bump i e (strip fs))\<lparr>cache := cache fs, lu_work := lu_work fs\<rparr> = scan_bump i e fs"
  by (simp_all add: scan_bump_def strip_def)

interpretation scan: lu_visitor spiffs_obj_lu_scan_v 0
  "\<lambda>i b e u t. (SPIFFS_VIS_COUNTINUE, u, scan_bump i e t)" "\<lambda>_. True" True
proof
  fix c nb m fs n b e i u r u' t
  assume f: "(SPIFFS_VIS_COUNTINUE, u, scan_bump i e (strip fs)) = (r, u' :: unit, t)" and ok: "cache_ok (n + 0) fs"
  have "spiffs_obj_lu_scan_v i b e u fs = Some (SPIFFS_VIS_COUNTINUE, u, scan_bump i e fs)"
    by (simp add: spiffs_obj_lu_scan_v_def scan_bump_def)
  moreover have "cache_ok n ((scan_bump i e (strip fs))\<lparr>cache := cache fs\<rparr>)" using ok by (simp add: cache_ok_def)
  ultimately show "\<exists>x. spiffs_obj_lu_scan_v i b e u fs = Some (r, u', t\<lparr>cache := x, lu_work := lu_work fs\<rparr>) \<and>
      cache_ok n (t\<lparr>cache := x\<rparr>)"
    using f by (intro exI [of _ "cache fs"]) auto
qed (auto simp: on_disk_def c_defs)

lemma lu_run_scan:
  "lu_run ids 0 oid (\<lambda>i b e u t. (SPIFFS_VIS_COUNTINUE, u, scan_bump i e t)) es u t =
     (None, u, fold (\<lambda>(b, e). scan_bump (ids b e) e) es t)"
  by (induction es arbitrary: u t) auto

abbreviation entry_count :: "(nat \<times> nat \<Rightarrow> bool) \<Rightarrow> (nat \<times> nat) list \<Rightarrow> nat" where
  "entry_count P es \<equiv> length (filter P es)"

lemma scan_fold:
  assumes "free_blocks t + length es < 2 ^ 32" "stats_p_deleted t + length es < 2 ^ 32" "stats_p_allocated t + length es < 2 ^ 32"
  shows "fold (\<lambda>(b, e). scan_bump (ids b e) e) es t = t\<lparr>
     free_blocks := free_blocks t + entry_count (\<lambda>(b, e). ids b e = SPIFFS_OBJ_ID_FREE \<and> e = 0) es,
     stats_p_deleted := stats_p_deleted t + entry_count (\<lambda>(b, e). ids b e = SPIFFS_OBJ_ID_DELETED) es,
     stats_p_allocated := stats_p_allocated t +
       entry_count (\<lambda>(b, e). ids b e \<noteq> SPIFFS_OBJ_ID_FREE \<and> ids b e \<noteq> SPIFFS_OBJ_ID_DELETED) es\<rparr>"
  using assms
proof (induction es arbitrary: t)
  case (Cons be es)
  obtain b e where be: "be = (b, e)" by (cases be)
  have ne: "SPIFFS_OBJ_ID_DELETED \<noteq> SPIFFS_OBJ_ID_FREE" by (simp add: c_defs)
  show ?case using Cons.IH [of "scan_bump (ids b e) e t"] Cons.prems ne unfolding be
    by (auto simp: scan_bump_def)
qed simp

text \<open>Started at the first block, the visitor meets every entry once.\<close>

lemma length_visit_order: "b < nb \<Longrightarrow> length (visit_order nb False me k b 0) = k * me"
  by (induction k arbitrary: b) (simp_all split: if_splits)

lemma scan_order:
  assumes "lu_geom c nb"
  shows "length (visitor_order c nb 0 0 0) = nb * max_entries c" "distinct (visitor_order c nb 0 0 0)"
    "set (visitor_order c nb 0 0 0) = {..<nb} \<times> {..<max_entries c}"
proof -
  have nb: "0 < nb" "0 < max_entries c" using assms lu_geom_entries(3) by (auto simp: lu_geom_def)
  show s: "set (visitor_order c nb 0 0 0) = {..<nb} \<times> {..<max_entries c}"
    using nb by (intro visitor_order_all) simp_all
  show l: "length (visitor_order c nb 0 0 0) = nb * max_entries c"
    using nb by (auto simp: visitor_order_def Let_def length_visit_order)
  show "distinct (visitor_order c nb 0 0 0)" by (rule card_distinct) (simp add: s l card_cartesian_product)
qed

lemma count_card: "distinct xs \<Longrightarrow> length (filter P xs) = card {x \<in> set xs. P x}"
  using distinct_card [of "filter P xs"] by simp

lemma scan_spec:
  assumes "disk_hal (cfg fs)" "lu_geom (cfg fs) (block_count fs)"
    and "cache_ok (n + (block_count fs + 1) * SPIFFS_OBJ_LOOKUP_PAGES (cfg fs)) fs"
    and "free_blocks fs = 0" "stats_p_allocated fs = 0" "stats_p_deleted fs = 0"
    and "entries = {..<block_count fs} \<times> {..<max_entries (cfg fs)}" "ids = (\<lambda>(b, e). lu_id (cfg fs) (flash fs) b e)"
  shows "\<exists>loc fs'. spiffs_obj_lu_find_entry_visitor 0 0 0 0 (Some spiffs_obj_lu_scan_v) () fs = Some (SPIFFS_VIS_END, (), loc, fs') \<and>
     cache_ok n fs' \<and> strip fs' = (strip fs)\<lparr>
       free_blocks := card {x \<in> entries. ids x = SPIFFS_OBJ_ID_FREE \<and> snd x = 0},
       stats_p_deleted := card {x \<in> entries. ids x = SPIFFS_OBJ_ID_DELETED},
       stats_p_allocated := card {x \<in> entries. ids x \<noteq> SPIFFS_OBJ_ID_FREE \<and> ids x \<noteq> SPIFFS_OBJ_ID_DELETED}\<rparr>"
proof -
  let ?es = "visitor_order (cfg fs) (block_count fs) 0 0 0"
  note o = scan_order [OF assms(2)]
  have nb: "0 < block_count fs" "length ?es < 2 ^ 32"
    using assms(2) o(1) lu_geom_entries(1,2) [OF assms(2)] by (simp_all add: lu_geom_def)
  have cnt: "entry_count P ?es = card {x \<in> entries. P x}" for P
    using count_card [OF o(2)] o(3) assms(7) by simp
  have z: "free_blocks (strip fs) = 0" "stats_p_allocated (strip fs) = 0" "stats_p_deleted (strip fs) = 0"
    using assms(4-6) by (simp_all add: strip_def)
  let ?t = "(strip fs)\<lparr>
       free_blocks := card {x \<in> entries. ids x = SPIFFS_OBJ_ID_FREE \<and> snd x = 0},
       stats_p_deleted := card {x \<in> entries. ids x = SPIFFS_OBJ_ID_DELETED},
       stats_p_allocated := card {x \<in> entries. ids x \<noteq> SPIFFS_OBJ_ID_FREE \<and> ids x \<noteq> SPIFFS_OBJ_ID_DELETED}\<rparr>"
  have "fold (\<lambda>(b, e). scan_bump (lu_id (cfg fs) (flash fs) b e) e) ?es (strip fs) = ?t"
    using scan_fold [of "strip fs" ?es "lu_id (cfg fs) (flash fs)"] nb(2) z
    unfolding cnt assms(8) by (simp add: case_prod_unfold)
  then have run: "lu_run (lu_id (cfg fs) (flash fs)) 0 0 (\<lambda>i b e u t. (SPIFFS_VIS_COUNTINUE, u, scan_bump i e t)) ?es () (strip fs) =
      (None, (), ?t)"
    unfolding lu_run_scan by simp
  show ?thesis
    using scan.visitor_run [OF assms(1,2) nb(1) _ _ run, of n] assms(3) by auto
qed

subsection \<open>A file system for the witnesses\<close>

text \<open>The flash of the example file system: block 1 has a deleted page, a data page of object 1 and
  its index header page.\<close>

definition demo_img :: mem where
  "demo_img = mem_write 5120 (page_header_bytes \<lparr>ph_obj_id = 0x8001, ph_span_ix = 0, ph_flags = 0xf8\<rparr>)
     (mem_write 4096 (le16 0 @ le16 1 @ le16 0xffff @ le16 0x8001) (\<lambda>_. 0xff))"

definition demo_on :: "mem \<Rightarrow> spiffs" where
  "demo_on m = spiffs_cache_init (demo_raw\<lparr>flash := m, free_blocks := 0\<rparr>)"

lemma demo_on_simps [simp]:
  "cfg (demo_on m) = demo_cfg" "flash (demo_on m) = m" "block_count (demo_on m) = 4" "free_blocks (demo_on m) = 0"
  "stats_p_allocated (demo_on m) = 0" "stats_p_deleted (demo_on m) = 0" "cursor_block_ix (demo_on m) = 0"
  "cache_ok 1000000 (demo_on m)" "SPIFFS_OBJ_LOOKUP_PAGES demo_cfg = 1" "SPIFFS_PAGES_PER_BLOCK demo_cfg = 16"
  "max_entries demo_cfg = 15"
proof -
  note i = cache_init_ok [of "demo_raw\<lparr>flash := m, free_blocks := 0\<rparr>" _ 1000000]
  show "cache_ok 1000000 (demo_on m)" unfolding demo_on_def by (rule i) (simp_all add: demo_raw_def)
  show "cfg (demo_on m) = demo_cfg" "flash (demo_on m) = m"
    unfolding demo_on_def using i(3) by (simp_all add: demo_raw_def)
  show "block_count (demo_on m) = 4" "free_blocks (demo_on m) = 0" "cursor_block_ix (demo_on m) = 0"
    "stats_p_allocated (demo_on m) = 0" "stats_p_deleted (demo_on m) = 0"
    by (simp_all add: demo_on_def spiffs_cache_init_def demo_raw_def Let_def)
  show p: "SPIFFS_OBJ_LOOKUP_PAGES demo_cfg = 1" "SPIFFS_PAGES_PER_BLOCK demo_cfg = 16"
    by (simp_all add: SPIFFS_OBJ_LOOKUP_PAGES_def SPIFFS_PAGES_PER_BLOCK_def)
  show "max_entries demo_cfg = 15" by (simp add: max_entries_def SPIFFS_OBJ_LOOKUP_MAX_ENTRIES_def p)
qed

lemma demo_disk: "disk_hal demo_cfg" "lu_geom demo_cfg 4"
proof -
  show "disk_hal demo_cfg"
    by (rule esp_disk_hal [OF chip.spi_flash_axioms demo_fs_ok(4), of "\<lambda>n. replicate n 0" 0]) simp_all
  show "lu_geom demo_cfg 4" by (simp add: lu_geom_def SIZEOF_OBJIX_HEADER_def)
qed

lemma demo_ok: "n \<le> 1000000 \<Longrightarrow> cache_ok n (demo_on m)"
  using cache_ok_less [of n "1000000 - n" "demo_on m"] by simp

subsection \<open>Properties\<close>

text \<open>
  C3: Searching an object id visits the entries of all blocks, from the given entry to the end and
  round to the start, and reports the first entry with this id; it answers \<open>SPIFFS_ERR_NOT_FOUND\<close>
  only when no entry of any block has the id. Nothing but the cache and the lookup buffer changes,
  and the search ends.
\<close>

theorem find_id_correct:
  assumes "disk_hal (cfg fs)" "lu_geom (cfg fs) (block_count fs)" "sb < block_count fs"
    and "cache_ok (n + (block_count fs + 1) * SPIFFS_OBJ_LOOKUP_PAGES (cfg fs)) fs"
  shows "\<exists>res loc fs'. spiffs_obj_lu_find_id sb se oid fs = Some (res, loc, fs') \<and> strip fs' = strip fs \<and> cache_ok n fs' \<and>
     (case find (\<lambda>(b, e). lu_id (cfg fs) (flash fs) b e = oid) (visitor_order (cfg fs) (block_count fs) VIS_CHECK_ID sb se) of
        Some be \<Rightarrow> res = SPIFFS_OK \<and> loc = Some be
      | None \<Rightarrow> res = SPIFFS_ERR_NOT_FOUND \<and>
          (\<forall>b e. b < block_count fs \<longrightarrow> e < max_entries (cfg fs) \<longrightarrow> lu_id (cfg fs) (flash fs) b e \<noteq> oid))"
proof (cases "find (\<lambda>(b, e). lu_id (cfg fs) (flash fs) b e = oid) (visitor_order (cfg fs) (block_count fs) VIS_CHECK_ID sb se)")
  case None
  then show ?thesis
    using find_id_spec [OF assms refl, where oid = oid and se = se]
      find_order_None [OF assms(3,2), where P = "\<lambda>b e. lu_id (cfg fs) (flash fs) b e = oid" and se = se] by auto
next
  case (Some be)
  then show ?thesis using find_id_spec [OF assms refl, where oid = oid and se = se] by auto
qed

theorem find_id_correct_witness:
  "\<exists>res loc fs'. spiffs_obj_lu_find_id 2 7 0x8001 (demo_on demo_img) = Some (res, loc, fs') \<and>
     strip fs' = strip (demo_on demo_img) \<and> cache_ok 100 fs' \<and>
     (case find (\<lambda>(b, e). lu_id demo_cfg demo_img b e = 0x8001) (visitor_order demo_cfg 4 VIS_CHECK_ID 2 7) of
        Some be \<Rightarrow> res = SPIFFS_OK \<and> loc = Some be
      | None \<Rightarrow> res = SPIFFS_ERR_NOT_FOUND \<and> (\<forall>b e. b < 4 \<longrightarrow> e < 15 \<longrightarrow> lu_id demo_cfg demo_img b e \<noteq> 0x8001))"
  by (rule find_id_correct [of "demo_on demo_img" 2 100 7 "0x8001", unfolded demo_on_simps, OF demo_disk])
    (simp_all add: demo_ok)

text \<open>
  C20: Searching the page of a span of an object succeeds exactly when some lookup entry carries the
  object id and the header of its page names the object and the span and marks the page as used,
  final and not deleted (an index header page: its object not deleted either), the excluded page
  apart. The page returned is such a page.
\<close>

theorem find_id_and_span_correct:
  assumes "disk_hal (cfg fs)" "lu_geom (cfg fs) (block_count fs)" "cursor_block_ix fs < block_count fs"
    and "cache_ok (n + (block_count fs + 1) * (SPIFFS_OBJ_LOOKUP_PAGES (cfg fs) + max_entries (cfg fs))) fs"
  shows "\<exists>res pix fs'. spiffs_obj_lu_find_id_and_span oid spix excl fs = Some (res, pix, fs') \<and>
     flash fs' = flash fs \<and> cache_ok n fs' \<and>
     (if \<exists>b e. b < block_count fs \<and> e < max_entries (cfg fs) \<and> span_at (cfg fs) (flash fs) oid spix excl b e
      then res = SPIFFS_OK \<and> (\<exists>b e. b < block_count fs \<and> e < max_entries (cfg fs) \<and>
             pix = SPIFFS_OBJ_LOOKUP_ENTRY_TO_PIX (cfg fs) b e \<and> span_at (cfg fs) (flash fs) oid spix excl b e)
      else res = SPIFFS_ERR_NOT_FOUND)"
proof -
  let ?want = "span_at (cfg fs) (flash fs) oid spix excl"
  have flash: "flash fs' = flash (strip fs')" for fs' by simp
  from find_span_spec [OF assms refl, of oid spix excl] show ?thesis
  proof (elim disjE exE conjE)
    fix b e fs'
    assume r: "spiffs_obj_lu_find_id_and_span oid spix excl fs = Some (SPIFFS_OK, SPIFFS_OBJ_LOOKUP_ENTRY_TO_PIX (cfg fs) b e, fs')"
      "cache_ok n fs'" and w: "b < block_count fs" "e < max_entries (cfg fs)" "?want b e"
      and st: "strip fs' = (strip fs)\<lparr>cursor_block_ix := b, cursor_obj_lu_entry := e\<rparr>"
    have "flash fs' = flash fs" unfolding flash [of fs'] st by simp
    moreover have "\<exists>b e. b < block_count fs \<and> e < max_entries (cfg fs) \<and> ?want b e" using w by blast
    ultimately show ?thesis
      using r w by (intro exI [of _ SPIFFS_OK] exI [of _ "SPIFFS_OBJ_LOOKUP_ENTRY_TO_PIX (cfg fs) b e"] exI [of _ fs']) auto
  next
    fix fs'
    assume r: "spiffs_obj_lu_find_id_and_span oid spix excl fs = Some (SPIFFS_ERR_NOT_FOUND, 0, fs')" "cache_ok n fs'"
      and w: "\<forall>b e. b < block_count fs \<longrightarrow> e < max_entries (cfg fs) \<longrightarrow> \<not> ?want b e" and st: "strip fs' = strip fs"
    have "flash fs' = flash fs" unfolding flash [of fs'] st by simp
    moreover have "\<not> (\<exists>b e. b < block_count fs \<and> e < max_entries (cfg fs) \<and> ?want b e)" using w by blast
    ultimately show ?thesis using r by (simp add: if_not_P del: not_ex)
  qed
qed

theorem find_id_and_span_correct_witness:
  "\<exists>res pix fs'. spiffs_obj_lu_find_id_and_span 0x8001 0 0 (demo_on demo_img) = Some (res, pix, fs') \<and>
     flash fs' = demo_img \<and> cache_ok 100 fs' \<and>
     (if \<exists>b e. b < 4 \<and> e < 15 \<and> span_at demo_cfg demo_img 0x8001 0 0 b e
      then res = SPIFFS_OK \<and> (\<exists>b e. b < 4 \<and> e < 15 \<and>
             pix = SPIFFS_OBJ_LOOKUP_ENTRY_TO_PIX demo_cfg b e \<and> span_at demo_cfg demo_img 0x8001 0 0 b e)
      else res = SPIFFS_ERR_NOT_FOUND)"
  by (rule find_id_and_span_correct [of "demo_on demo_img" 100 "0x8001" 0 0, unfolded demo_on_simps, OF demo_disk])
    (simp_all add: demo_ok)

text \<open>
  The mount-time scan counts exactly: after it, \<open>stats_p_deleted\<close> and \<open>stats_p_allocated\<close> are the
  numbers of deleted and of used lookup entries, and \<open>free_blocks\<close> is the number of blocks whose
  first entry is free.
\<close>

theorem lu_scan_counts:
  assumes "disk_hal (cfg fs)" "lu_geom (cfg fs) (block_count fs)"
    and "cache_ok (n + (block_count fs + 1) * SPIFFS_OBJ_LOOKUP_PAGES (cfg fs)) fs"
    and "free_blocks fs = 0" "stats_p_allocated fs = 0" "stats_p_deleted fs = 0"
  shows "\<exists>loc fs'. spiffs_obj_lu_find_entry_visitor 0 0 0 0 (Some spiffs_obj_lu_scan_v) () fs = Some (SPIFFS_VIS_END, (), loc, fs') \<and>
     cache_ok n fs' \<and> strip fs' = (strip fs)\<lparr>
       free_blocks := card {x \<in> {..<block_count fs} \<times> {..<max_entries (cfg fs)}.
         (case x of (b, e) \<Rightarrow> lu_id (cfg fs) (flash fs) b e) = SPIFFS_OBJ_ID_FREE \<and> snd x = 0},
       stats_p_deleted := card {x \<in> {..<block_count fs} \<times> {..<max_entries (cfg fs)}.
         (case x of (b, e) \<Rightarrow> lu_id (cfg fs) (flash fs) b e) = SPIFFS_OBJ_ID_DELETED},
       stats_p_allocated := card {x \<in> {..<block_count fs} \<times> {..<max_entries (cfg fs)}.
         (case x of (b, e) \<Rightarrow> lu_id (cfg fs) (flash fs) b e) \<noteq> SPIFFS_OBJ_ID_FREE \<and>
         (case x of (b, e) \<Rightarrow> lu_id (cfg fs) (flash fs) b e) \<noteq> SPIFFS_OBJ_ID_DELETED}\<rparr>"
  by (rule scan_spec [OF assms refl refl])

theorem lu_scan_counts_witness:
  "\<exists>loc fs'. spiffs_obj_lu_find_entry_visitor 0 0 0 0 (Some spiffs_obj_lu_scan_v) () (demo_on demo_img) =
       Some (SPIFFS_VIS_END, (), loc, fs') \<and> cache_ok 100 fs' \<and>
     stats_p_deleted (strip fs') = card {x \<in> {..<4} \<times> {..<15}. (case x of (b, e) \<Rightarrow> lu_id demo_cfg demo_img b e) = SPIFFS_OBJ_ID_DELETED}"
proof -
  have ok: "cache_ok (100 + (4 + 1) * 1) (demo_on demo_img)" by (rule demo_ok) simp
  show ?thesis using lu_scan_counts [of "demo_on demo_img" 100, unfolded demo_on_simps, OF demo_disk ok refl refl refl] by force
qed

end
