(* ===== verification/Spiffs_Erase.thy ===== *)
theory Spiffs_Erase
  imports Spiffs_Find Spiffs_Api
begin

section \<open>SPIFFS: erasing blocks\<close>

text \<open>
  Erasing a block bypasses the cache: while it runs, the cache mirrors an older flash, which agrees
  with the present one outside of the block. \<open>stale\<close> states this; dropping the pages of the block
  from the cache restores coherence. On this rest the garbage collector's \<open>spiffs_gc_erase_block\<close>,
  the quick garbage collection and \<open>SPIFFS_format\<close>.
\<close>

subsection \<open>The flash of an erased block\<close>

definition block_addr :: "spiffs_config \<Rightarrow> nat \<Rightarrow> nat" where
  "block_addr c b = phys_addr c + b * log_block_size c"

text \<open>Erased, with the erase count and the magic number behind the lookup entries.\<close>

definition blank_block :: "spiffs_config \<Rightarrow> u16 \<Rightarrow> nat \<Rightarrow> mem \<Rightarrow> mem" where
  "blank_block c ec b m =
     (let a = block_addr c b + SPIFFS_OBJ_LOOKUP_PAGES c * log_page_size c
      in mem_write (a - 4) (le16 (SPIFFS_MAGIC c)) (mem_write (a - 2) (le16 ec) (erase (block_addr c b) (log_block_size c) m)))"

definition erase_geom :: "spiffs_config \<Rightarrow> bool" where
  "erase_geom c \<longleftrightarrow> 0 < phys_erase_block c \<and> phys_erase_block c dvd log_block_size c \<and> log_block_size c < 2 ^ 31 \<and>
     max_entries c * 2 + 4 \<le> SPIFFS_OBJ_LOOKUP_PAGES c * log_page_size c"

text \<open>The erase counter after an erase.\<close>

definition next_erase_count :: "u16 \<Rightarrow> u16" where
  "next_erase_count n = (if n + 1 = SPIFFS_OBJ_ID_IX_FLAG then 0 else n + 1)"

lemma erase_loop_ok:
  assumes "disk_hal (cfg fs)" "(j + k) * phys_erase_block (cfg fs) \<le> phys_size (cfg fs)" "k < fuel" "0 < phys_erase_block (cfg fs)"
  shows "erase_loop fuel (phys_addr (cfg fs) + j * phys_erase_block (cfg fs)) (int k * int (phys_erase_block (cfg fs))) fs =
     Some (fs\<lparr>flash := erase (phys_addr (cfg fs) + j * phys_erase_block (cfg fs)) (k * phys_erase_block (cfg fs)) (flash fs)\<rparr>)"
  using assms
proof (induction k arbitrary: j fuel fs)
  case 0
  then obtain g where "fuel = Suc g" by (cases fuel) auto
  moreover have "erase a 0 m = m" for a m by (auto simp: erase_def fun_eq_iff)
  ultimately show ?case by simp
next
  case (Suc k)
  let ?c = "cfg fs"
  let ?eb = "phys_erase_block ?c"
  let ?a = "phys_addr ?c + j * ?eb"
  obtain g where g: "fuel = Suc g" "k < g" using Suc.prems(3) by (cases fuel) auto
  have "(j + 1) * ?eb \<le> (j + Suc k) * ?eb" by (intro mult_le_mono1) simp
  also have "\<dots> \<le> phys_size ?c" using Suc.prems(2) .
  finally have fit: "(j + 1) * ?eb \<le> phys_size ?c" .
  have hal: "hal_erase_f ?c ?a ?eb (flash fs) = Some (SPIFFS_OK, erase ?a ?eb (flash fs))"
    using Suc.prems(1) fit by (simp add: disk_hal_def)
  have addr: "add32 ?a ?eb = phys_addr ?c + (j + 1) * ?eb"
    using fit Suc.prems(1) by (simp add: disk_hal_def geom_def)
  let ?fs = "fs\<lparr>flash := erase ?a ?eb (flash fs)\<rparr>"
  have "erase_loop g (phys_addr (cfg ?fs) + (j + 1) * phys_erase_block (cfg ?fs)) (int k * int (phys_erase_block (cfg ?fs))) ?fs =
      Some (?fs\<lparr>flash := erase (phys_addr (cfg ?fs) + (j + 1) * phys_erase_block (cfg ?fs)) (k * phys_erase_block (cfg ?fs)) (flash ?fs)\<rparr>)"
    using Suc.prems g(2) by (intro Suc.IH) (simp_all add: add.commute)
  moreover have "int (Suc k) * int ?eb - int ?eb = int k * int ?eb" by (simp add: algebra_simps)
  moreover have "erase (?a + ?eb) (k * ?eb) (erase ?a ?eb (flash fs)) = erase ?a (?eb + k * ?eb) (flash fs)"
    by (rule erase_add)
  moreover have "\<not> int (Suc k) * int ?eb \<le> 0" using Suc.prems(4) by (simp add: mult_le_0_iff)
  ultimately show ?case unfolding g(1) erase_loop.simps
    by (simp add: hal addr add.assoc add.commute [of ?eb])
qed

lemma block_erase_ok:
  assumes "disk_hal (cfg fs)" "lu_geom (cfg fs) nb" "erase_geom (cfg fs)" "b < nb"
  shows "erase_loop (log_block_size (cfg fs) div phys_erase_block (cfg fs) + 2) (SPIFFS_BLOCK_TO_PADDR (cfg fs) b)
       (s32_of (log_block_size (cfg fs))) fs =
     Some (fs\<lparr>flash := erase (block_addr (cfg fs) b) (log_block_size (cfg fs)) (flash fs)\<rparr>)"
proof -
  let ?c = "cfg fs"
  let ?eb = "phys_erase_block ?c"
  obtain q where q: "log_block_size ?c = q * ?eb" using assms(3) by (auto simp: erase_geom_def dvd_def mult.commute)
  have eb: "0 < ?eb" "log_block_size ?c < 2 ^ 31" using assms(3) by (simp_all add: erase_geom_def)
  have "(b * q + q) * ?eb = Suc b * log_block_size ?c" by (simp add: q algebra_simps)
  also have "\<dots> \<le> nb * log_block_size ?c" using assms(4) by (intro mult_le_mono1) simp
  also have "\<dots> \<le> phys_size ?c" using assms(2) by (simp add: lu_geom_def)
  finally have fit: "(b * q + q) * ?eb \<le> phys_size ?c" .
  have "SPIFFS_BLOCK_TO_PADDR ?c b = block_addr ?c b"
    using block_addr_fits [OF disk_hal_geom [OF assms(1)] assms(2,4)] by (simp add: SPIFFS_BLOCK_TO_PADDR_def block_addr_def)
  moreover have "block_addr ?c b = phys_addr ?c + (b * q) * ?eb" by (simp add: block_addr_def q mult.assoc)
  moreover have "s32_of (log_block_size ?c) = int q * int ?eb" using eb(2) by (simp add: q)
  moreover have "log_block_size ?c div ?eb = q" using eb(1) by (simp add: q)
  ultimately show ?thesis using erase_loop_ok [OF assms(1) fit _ eb(1), of "q + 2"] by (simp add: q)
qed

subsection \<open>A stale cache\<close>

definition stale :: "nat \<Rightarrow> mem \<Rightarrow> spiffs \<Rightarrow> bool" where
  "stale n m fs \<longleftrightarrow> cache_ok n (fs\<lparr>flash := m\<rparr>)"

lemma page_get_stale:
  assumes "stale n m fs"
  shows "\<exists>r x. spiffs_cache_page_get pix fs = Some (r, fs\<lparr>cache := x\<rparr>) \<and> stale n m (fs\<lparr>cache := x\<rparr>)"
proof -
  obtain c where c: "cache fs = Some c" "cache_wf (log_page_size (cfg fs)) c" "mirrors (cfg fs) m c" "stamped n c" "read_slot c"
    using assms unfolding stale_def by (rule cache_okE) simp
  show ?thesis
  proof (cases "\<exists>i. read_page c i \<and> cp_pix (cpages c ! i) = pix")
    case False
    then have "spiffs_cache_page_get pix fs = Some (None, fs)" by (intro page_get_None [OF c(1,2)]) auto
    then show ?thesis using assms by (intro exI [of _ None] exI [of _ "cache fs"]) simp
  next
    case True
    then obtain i where i: "read_page c i" "cp_pix (cpages c ! i) = pix" by blast
    have "stale n m (fs\<lparr>cache := Some (stamp i (c_last_access c) c)\<rparr>)"
      using c stamp_keeps [OF c(2)] stamp_stamped [OF c(2,4)] by (simp add: stale_def cache_ok_def)
    then show ?thesis using page_get_Some [OF c(1,2) i c(3)] by blast
  qed
qed

text \<open>The write-through command changes the flash only.\<close>

lemma wrthru_stale:
  assumes "disk_hal (cfg fs)" "in_page (cfg fs) addr (length src)" "stale n m fs" "op AND OP_COM_MASK = OP_C_WRTHRU"
  shows "\<exists>x. spiffs_phys_wr op addr src fs = Some (SPIFFS_OK, fs\<lparr>cache := x, flash := prog addr src (flash fs)\<rparr>) \<and>
     stale n m (fs\<lparr>cache := x\<rparr>)"
proof -
  obtain r x where "spiffs_cache_page_get (u16_of (SPIFFS_PADDR_TO_PAGE (cfg fs) addr)) fs = Some (r, fs\<lparr>cache := x\<rparr>)"
      "stale n m (fs\<lparr>cache := x\<rparr>)"
    using page_get_stale [OF assms(3)] by blast
  moreover have "hal_write_f (cfg fs) addr src (flash fs) = Some (SPIFFS_OK, prog addr src (flash fs))"
    using assms(1,2) by (simp add: disk_hal_def)
  ultimately show ?thesis
    using assms(4) by (intro exI [of _ x]) (simp add: spiffs_phys_wr_def hal_wr_def Let_def split: option.splits)
qed

text \<open>The pages in read cache.\<close>

definition cached_pages :: "spiffs \<Rightarrow> nat set" where
  "cached_pages fs = (case cache fs of None \<Rightarrow> {} | Some c \<Rightarrow> {cp_pix (cpages c ! i) | i. read_page c i})"

lemma drop_page_stale:
  assumes "stale n m fs"
  shows "\<exists>x. spiffs_cache_drop_page pix fs = Some (fs\<lparr>cache := x\<rparr>) \<and> stale n m (fs\<lparr>cache := x\<rparr>) \<and>
     cached_pages (fs\<lparr>cache := x\<rparr>) \<subseteq> cached_pages fs - {pix}"
proof -
  obtain c where c: "cache fs = Some c" "cache_wf (log_page_size (cfg fs)) c" "mirrors (cfg fs) m c" "stamped n c" "read_slot c"
    using assms unfolding stale_def by (rule cache_okE) simp
  show ?thesis
  proof (cases "\<exists>i. read_page c i \<and> cp_pix (cpages c ! i) = pix")
    case False
    then have "spiffs_cache_page_get pix fs = Some (None, fs)" by (intro page_get_None [OF c(1,2)]) auto
    moreover have "pix \<notin> cached_pages fs" using False c(1) by (auto simp: cached_pages_def)
    ultimately show ?thesis using assms by (intro exI [of _ "cache fs"]) (simp add: spiffs_cache_drop_page_def)
  next
    case True
    then obtain i where i: "read_page c i" "cp_pix (cpages c ! i) = pix" by blast
    let ?c1 = "stamp i (c_last_access c) c"
    let ?fs = "fs\<lparr>cache := Some ?c1\<rparr>"
    let ?c2 = "drop_cp i ?c1"
    have w1: "cache_wf (log_page_size (cfg fs)) ?c1" "mirrors (cfg fs) m ?c1" "stamped n ?c1"
      using c stamp_keeps [OF c(2)] stamp_stamped [OF c(2,4)] by simp_all
    have il: "i < cpage_count ?c1" "bit (cpage_use_map ?c1) i" using i by (simp_all add: read_page_def)
    have "spiffs_cache_page_free i False ?fs = Some (SPIFFS_OK, ?fs\<lparr>cache := Some ?c2\<rparr>)"
      by (rule page_free_eq [OF _ w1(1) il]) simp_all
    then have d: "spiffs_cache_drop_page pix fs = Some (fs\<lparr>cache := Some ?c2\<rparr>)"
      using page_get_Some [OF c(1,2) i c(3)] by (simp add: spiffs_cache_drop_page_def)
    have "stale n m (fs\<lparr>cache := Some ?c2\<rparr>)"
      using drop_cp_keeps [OF w1(1) il(1)] w1 by (simp add: stale_def cache_ok_def)
    moreover have "cp_pix (cpages ?c2 ! j) \<in> cached_pages fs - {pix}" if "read_page ?c2 j" for j
    proof -
      have j: "read_page ?c1 j" "j \<noteq> i" using that read_page_drop_cp [OF w1(1) il(1)] by auto
      have jl: "j < length (cpages c)" using j c(2) by (simp add: read_page_def cache_wf_def)
      have rj: "read_page c j" using j(1) jl by (simp add: read_page_def cpages_upd_cp split: if_splits)
      have "cp_pix (cpages ?c2 ! j) = cp_pix (cpages c ! j)" using j(2) jl by (simp add: cpages_drop_cp cpages_upd_cp)
      moreover have "cp_pix (cpages c ! j) \<noteq> pix" using c(3) i rj j(2) by (auto simp: mirrors_def)
      ultimately show ?thesis using rj c(1) by (auto simp: cached_pages_def)
    qed
    ultimately show ?thesis using d by (intro exI [of _ "Some ?c2"]) (auto simp: cached_pages_def)
  qed
qed

lemma drop_pages_stale:
  assumes "stale n m fs" "\<forall>p \<in> set ps. p < 65536"
  shows "\<exists>x. drop_pages ps fs = Some (fs\<lparr>cache := x\<rparr>) \<and> stale n m (fs\<lparr>cache := x\<rparr>) \<and>
     cached_pages (fs\<lparr>cache := x\<rparr>) \<subseteq> cached_pages fs - set ps"
  using assms
proof (induction ps arbitrary: fs)
  case Nil
  then show ?case by (intro exI [of _ "cache fs"]) simp
next
  case (Cons p ps)
  obtain x where x: "spiffs_cache_drop_page p fs = Some (fs\<lparr>cache := x\<rparr>)" "stale n m (fs\<lparr>cache := x\<rparr>)"
      "cached_pages (fs\<lparr>cache := x\<rparr>) \<subseteq> cached_pages fs - {p}"
    using drop_page_stale [OF Cons.prems(1)] by blast
  obtain y where y: "drop_pages ps (fs\<lparr>cache := x\<rparr>) = Some (fs\<lparr>cache := y\<rparr>)" "stale n m (fs\<lparr>cache := y\<rparr>)"
      "cached_pages (fs\<lparr>cache := y\<rparr>) \<subseteq> cached_pages (fs\<lparr>cache := x\<rparr>) - set ps"
    using Cons.IH [OF x(2)] Cons.prems(2) by auto
  have "cached_pages (fs\<lparr>cache := y\<rparr>) \<subseteq> cached_pages fs - set (p # ps)" using x(3) y(3) by auto
  then show ?case using x(1) y Cons.prems(2) by (intro exI [of _ y]) simp
qed

text \<open>When the pages in cache are pages where the two flashes agree, the cache is coherent.\<close>

lemma stale_fresh:
  assumes "stale n m fs"
    and "\<And>p. p \<in> cached_pages fs \<Longrightarrow> p < SPIFFS_MAX_PAGES (cfg fs) \<Longrightarrow>
        mem_read (flash fs) (page_start (cfg fs) p) (log_page_size (cfg fs)) = mem_read m (page_start (cfg fs) p) (log_page_size (cfg fs))"
  shows "cache_ok n fs"
proof -
  obtain c where c: "cache fs = Some c" "cache_wf (log_page_size (cfg fs)) c" "mirrors (cfg fs) m c" "stamped n c" "read_slot c"
    using assms(1) unfolding stale_def by (rule cache_okE) simp
  have "cp_data (cpages c ! i) = mem_read (flash fs) (page_start (cfg fs) (cp_pix (cpages c ! i))) (log_page_size (cfg fs))"
    if i: "read_page c i" for i
  proof -
    have "cp_pix (cpages c ! i) \<in> cached_pages fs" using i c(1) by (auto simp: cached_pages_def)
    then show ?thesis using assms(2) c(3) i by (simp add: mirrors_def)
  qed
  then have "mirrors (cfg fs) (flash fs) c" using c(3) by (simp add: mirrors_def)
  then show ?thesis using c by (auto simp: cache_ok_def)
qed

subsection \<open>Erasing a block\<close>

lemma mark_addrs:
  assumes "geom c" "lu_geom c nb" "erase_geom c" "b < nb"
  defines "a \<equiv> block_addr c b + SPIFFS_OBJ_LOOKUP_PAGES c * log_page_size c"
  shows "SPIFFS_ERASE_COUNT_PADDR c b = a - 2" "SPIFFS_MAGIC_PADDR c b = a - 4"
    "in_page c (a - 2) 2" "in_page c (a - 4) 2" "block_addr c b + max_entries c * 2 + 4 \<le> a"
    "a + log_page_size c \<le> block_addr c b + log_block_size c"
proof -
  let ?O = "SPIFFS_OBJ_LOOKUP_PAGES c" and ?P = "log_page_size c"
  have O: "0 < ?O" by (simp add: SPIFFS_OBJ_LOOKUP_PAGES_def)
  have P: "46 \<le> ?P" "?O < SPIFFS_PAGES_PER_BLOCK c" "SPIFFS_PAGES_PER_BLOCK c * ?P = log_block_size c"
    using assms(2) by (simp_all add: lu_geom_def SIZEOF_OBJIX_HEADER_def)
  have "(?O + 1) * ?P \<le> SPIFFS_PAGES_PER_BLOCK c * ?P" using P(2) by (intro mult_le_mono1) simp
  then show last: "a + ?P \<le> block_addr c b + log_block_size c" by (simp add: a_def P(3))
  show room: "block_addr c b + max_entries c * 2 + 4 \<le> a" using assms(3) by (simp add: a_def erase_geom_def)
  have fit: "block_addr c b + log_block_size c < 2 ^ 32"
    using block_addr_fits [OF assms(1,2,4)] by (simp add: block_addr_def)
  have B: "SPIFFS_BLOCK_TO_PADDR c b = block_addr c b"
    using fit by (simp add: SPIFFS_BLOCK_TO_PADDR_def block_addr_def)
  have A: "add32 (block_addr c b) (?O * ?P) = a" using fit last by (simp add: a_def)
  show "SPIFFS_ERASE_COUNT_PADDR c b = a - 2" "SPIFFS_MAGIC_PADDR c b = a - 4"
    using fit last room by (simp_all add: SPIFFS_ERASE_COUNT_PADDR_def SPIFFS_MAGIC_PADDR_def B A)
  let ?q = "b * SPIFFS_PAGES_PER_BLOCK c + (?O - 1)"
  have q: "?q < SPIFFS_MAX_PAGES c" using P(2) by (intro block_pages [OF assms(2,4)]) simp
  obtain o' where o': "?O = Suc o'" using O by (cases ?O) auto
  have "page_start c ?q + ?P = a"
    using block_page_start [OF assms(2), of b "?O - 1"] by (simp add: a_def block_addr_def o')
  then have "a - 2 = page_start c ?q + (?P - 2)" "a - 4 = page_start c ?q + (?P - 4)" using P(1) by simp_all
  then show "in_page c (a - 2) 2" "in_page c (a - 4) 2"
    using page_part [OF assms(1) q, of "?P - 2" 2] page_part [OF assms(1) q, of "?P - 4" 2] P(1) by simp_all
qed

lemma erase_block_ok:
  assumes "disk_hal (cfg fs)" "lu_geom (cfg fs) nb" "erase_geom (cfg fs)" "b < nb" "stale n m fs"
  shows "\<exists>x. spiffs_erase_block b fs = Some (SPIFFS_OK, fs\<lparr>cache := x,
       flash := blank_block (cfg fs) (max_erase_count fs) b (flash fs), free_blocks := add32 (free_blocks fs) 1,
       max_erase_count := next_erase_count (max_erase_count fs)\<rparr>) \<and> stale n m (fs\<lparr>cache := x\<rparr>)"
proof -
  let ?c = "cfg fs"
  let ?a = "block_addr ?c b + SPIFFS_OBJ_LOOKUP_PAGES ?c * log_page_size ?c"
  let ?op = "OP_C_WRTHRU OR OP_T_OBJ_LU2"
  let ?m0 = "erase (block_addr ?c b) (log_block_size ?c) (flash fs)"
  let ?m1 = "mem_write (?a - 2) (le16 (max_erase_count fs)) ?m0"
  let ?f0 = "fs\<lparr>flash := ?m0, free_blocks := add32 (free_blocks fs) 1\<rparr>"
  note k = mark_addrs [OF disk_hal_geom [OF assms(1)] assms(2-4)]
  have op: "?op AND OP_COM_MASK = OP_C_WRTHRU" by (simp add: c_defs)
  have e0: "?m0 (?a - j + i) = 0xff" if "i < j" "j \<le> 4" for i j
    using k(5,6) that by (auto simp: erase_def)
  have m1: "prog (?a - 2) (le16 (max_erase_count fs)) ?m0 = ?m1"
    by (rule prog_clears, rule clears_erased) (simp add: e0)
  have e1: "?m1 (?a - 4 + i) = 0xff" if "i < 2" for i
  proof -
    have "?a - 4 + i < ?a - 2" using k(5) that by simp
    then show ?thesis using e0 [of i 4] that mem_write_other [of "?a - 4 + i" "?a - 2"] by simp
  qed
  have m2: "prog (?a - 4) (le16 (SPIFFS_MAGIC ?c)) ?m1 = blank_block ?c (max_erase_count fs) b (flash fs)"
    unfolding blank_block_def Let_def by (rule prog_clears, rule clears_erased) (simp add: e1)
  have st: "stale n m ?f0" using assms(5) by (simp add: stale_def cache_ok_def)
  obtain x where x: "spiffs_phys_wr ?op (?a - 2) (le16 (max_erase_count fs)) ?f0 = Some (SPIFFS_OK, ?f0\<lparr>cache := x, flash := ?m1\<rparr>)"
      "stale n m (?f0\<lparr>cache := x\<rparr>)"
    using wrthru_stale [OF _ _ st op, of "?a - 2" "le16 (max_erase_count fs)"] assms(1) k(3) m1 by auto
  let ?f1 = "?f0\<lparr>cache := x, flash := ?m1\<rparr>"
  have st1: "stale n m ?f1" using x(2) by (simp add: stale_def cache_ok_def)
  obtain y where y: "spiffs_phys_wr ?op (?a - 4) (le16 (SPIFFS_MAGIC ?c)) ?f1 =
        Some (SPIFFS_OK, ?f1\<lparr>cache := y, flash := blank_block ?c (max_erase_count fs) b (flash fs)\<rparr>)"
      "stale n m (?f1\<lparr>cache := y\<rparr>)"
    using wrthru_stale [OF _ _ st1 op, of "?a - 4" "le16 (SPIFFS_MAGIC ?c)"] assms(1) k(4) m2 by auto
  have "stale n m (fs\<lparr>cache := y\<rparr>)" using y(2) by (simp add: stale_def cache_ok_def)
  moreover have "\<not> SPIFFS_OK < 0" by (simp add: SPIFFS_OK_def)
  ultimately show ?thesis
    unfolding spiffs_erase_block_def Let_def block_erase_ok [OF assms(1-4)] k(1,2)
    using x(1) y(1) by (intro exI [of _ y]) (simp add: next_erase_count_def)
qed

lemma blank_block_other:
  assumes "geom c" "lu_geom c nb" "erase_geom c" "b < nb" "x < block_addr c b \<or> block_addr c b + log_block_size c \<le> x"
  shows "blank_block c ec b m x = m x"
  using mark_addrs(5,6) [OF assms(1-4)] assms(5) by (auto simp: blank_block_def mem_write_def erase_def Let_def)

lemma blank_block_entries:
  assumes "geom c" "lu_geom c nb" "erase_geom c" "b < nb" "x < block_addr c b + max_entries c * 2" "block_addr c b \<le> x"
  shows "blank_block c ec b m x = 0xff"
  using mark_addrs(5,6) [OF assms(1-4)] assms(5,6) by (auto simp: blank_block_def mem_write_def erase_def Let_def)

lemma of_le16_ff: "of_le16 [0xff, 0xff] = SPIFFS_OBJ_ID_FREE"
  by (simp add: SPIFFS_OBJ_ID_FREE_def)

lemma blank_block_free:
  assumes "geom c" "lu_geom c nb" "erase_geom c" "b < nb" "e < max_entries c"
  shows "lu_id c (blank_block c ec b m) b e = SPIFFS_OBJ_ID_FREE"
proof -
  have "blank_block c ec b m (lu_addr c b e + i) = 0xff" if "i < 2" for i
    using that assms(5) by (intro blank_block_entries [OF assms(1-4)]) (simp_all add: lu_addr_def block_addr_def)
  then have "mem_read (blank_block c ec b m) (lu_addr c b e) 2 = [0xff, 0xff]"
    by (intro nth_equalityI) (auto simp: less_2_cases_iff)
  then show ?thesis unfolding lu_id_def by (simp only: of_le16_ff)
qed

lemma gc_erase_block_ok:
  assumes "disk_hal (cfg fs)" "lu_geom (cfg fs) nb" "erase_geom (cfg fs)" "b < nb" "cache_ok n fs"
  shows "\<exists>x. spiffs_gc_erase_block b fs = Some (SPIFFS_OK, fs\<lparr>cache := x,
       flash := blank_block (cfg fs) (max_erase_count fs) b (flash fs), free_blocks := add32 (free_blocks fs) 1,
       max_erase_count := next_erase_count (max_erase_count fs)\<rparr>) \<and>
     cache_ok n (fs\<lparr>cache := x, flash := blank_block (cfg fs) (max_erase_count fs) b (flash fs)\<rparr>)"
proof -
  let ?c = "cfg fs"
  let ?m = "blank_block ?c (max_erase_count fs) b (flash fs)"
  have g: "geom ?c" using assms(1) by simp
  have "stale n (flash fs) fs" using assms(5) by (simp add: stale_def)
  then obtain x where x: "spiffs_erase_block b fs = Some (SPIFFS_OK, fs\<lparr>cache := x, flash := ?m,
        free_blocks := add32 (free_blocks fs) 1, max_erase_count := next_erase_count (max_erase_count fs)\<rparr>)"
      "stale n (flash fs) (fs\<lparr>cache := x\<rparr>)"
    using erase_block_ok [OF assms(1-4)] by blast
  let ?f1 = "fs\<lparr>cache := x, flash := ?m, free_blocks := add32 (free_blocks fs) 1, max_erase_count := next_erase_count (max_erase_count fs)\<rparr>"
  let ?ps = "map ((+) (SPIFFS_PAGE_FOR_BLOCK ?c b)) [0..<SPIFFS_PAGES_PER_BLOCK ?c]"
  have st: "stale n (flash fs) ?f1" using x(2) by (simp add: stale_def cache_ok_def)
  have ps: "\<forall>p \<in> set ?ps. p < 65536"
  proof
    fix p assume "p \<in> set ?ps"
    then have "b * SPIFFS_PAGES_PER_BLOCK ?c \<le> p" "p < b * SPIFFS_PAGES_PER_BLOCK ?c + SPIFFS_PAGES_PER_BLOCK ?c"
      by (auto simp: SPIFFS_PAGE_FOR_BLOCK_def)
    then have "p < SPIFFS_MAX_PAGES ?c"
      using block_pages [OF assms(2,4), of "p - b * SPIFFS_PAGES_PER_BLOCK ?c"] by simp
    then show "p < 65536" using g by (simp add: geom_def)
  qed
  obtain y where y: "drop_pages ?ps ?f1 = Some (?f1\<lparr>cache := y\<rparr>)" "stale n (flash fs) (?f1\<lparr>cache := y\<rparr>)"
      "cached_pages (?f1\<lparr>cache := y\<rparr>) \<subseteq> cached_pages ?f1 - set ?ps"
    using drop_pages_stale [OF st ps] by blast
  have "cache_ok n (?f1\<lparr>cache := y\<rparr>)"
  proof (rule stale_fresh [OF y(2)])
    fix p assume "p \<in> cached_pages (?f1\<lparr>cache := y\<rparr>)"
    then have "p \<notin> set ?ps" using y(3) by auto
    then have p: "p < b * SPIFFS_PAGES_PER_BLOCK ?c \<or> b * SPIFFS_PAGES_PER_BLOCK ?c + SPIFFS_PAGES_PER_BLOCK ?c \<le> p"
      by (auto simp: SPIFFS_PAGE_FOR_BLOCK_def)
    let ?P = "log_page_size ?c"
    have lb: "b * SPIFFS_PAGES_PER_BLOCK ?c * ?P = b * log_block_size ?c" "SPIFFS_PAGES_PER_BLOCK ?c * ?P = log_block_size ?c"
      using assms(2) by (simp_all add: lu_geom_def mult.assoc)
    from p have "(p + 1) * ?P \<le> b * SPIFFS_PAGES_PER_BLOCK ?c * ?P \<or>
        (b * SPIFFS_PAGES_PER_BLOCK ?c + SPIFFS_PAGES_PER_BLOCK ?c) * ?P \<le> p * ?P"
      by (metis Suc_eq_plus1 Suc_leI mult_le_mono1)
    then have "page_start ?c p + ?P \<le> block_addr ?c b \<or> block_addr ?c b + log_block_size ?c \<le> page_start ?c p"
      unfolding add_mult_distrib lb page_start_def block_addr_def by linarith
    then have "mem_read ?m (page_start ?c p) ?P = mem_read (flash fs) (page_start ?c p) ?P"
      by (intro mem_read_cong blank_block_other [OF g assms(2-4)]) auto
    then show "mem_read (flash (?f1\<lparr>cache := y\<rparr>)) (page_start (cfg (?f1\<lparr>cache := y\<rparr>)) p) (log_page_size (cfg (?f1\<lparr>cache := y\<rparr>))) =
        mem_read (flash fs) (page_start (cfg (?f1\<lparr>cache := y\<rparr>)) p) (log_page_size (cfg (?f1\<lparr>cache := y\<rparr>)))" by simp
  qed
  then have "cache_ok n (fs\<lparr>cache := y, flash := ?m\<rparr>)" by (simp add: cache_ok_def)
  moreover have "spiffs_gc_erase_block b fs = Some (SPIFFS_OK, ?f1\<lparr>cache := y\<rparr>)"
    unfolding spiffs_gc_erase_block_def x(1) using y(1) by (simp add: SPIFFS_OK_def)
  ultimately show ?thesis by (intro exI [of _ y]) simp
qed

subsection \<open>Scanning a block\<close>

lemma scan_ids_append:
  "scan_ids step (xs @ ys) a = (case scan_ids step xs a of (a, go) \<Rightarrow> if go then scan_ids step ys a else (a, False))"
  by (induction xs arbitrary: a) (auto split: prod.splits)

lemma lu_ids_map: "\<forall>k \<in> set ks. lu_get k fs = Some (f k) \<Longrightarrow> lu_ids ks fs = Some (map f ks)"
  by (induction ks) auto

lemma scan_pages_ok:
  assumes "disk_hal c" "lu_geom c nb" "b < nb" "p \<le> SPIFFS_OBJ_LOOKUP_PAGES c" "cfg fs = c"
    and "cache_ok (n + (SPIFFS_OBJ_LOOKUP_PAGES c - p)) fs"
  shows "\<exists>x w. scan_pages step (b * log_block_size c) [p..<SPIFFS_OBJ_LOOKUP_PAGES c] a fs =
      (case scan_ids step (map (lu_id c (flash fs) b) [p * entries_per_page c..<max_entries c]) a of
         (a, go) \<Rightarrow> Some (if go then SPIFFS_OK else 1, a, fs\<lparr>cache := x, lu_work := w\<rparr>)) \<and>
      cache_ok n (fs\<lparr>cache := x\<rparr>)"
  using assms(4-)
proof (induction "SPIFFS_OBJ_LOOKUP_PAGES c - p" arbitrary: p a fs)
  case 0
  then have p: "p = SPIFFS_OBJ_LOOKUP_PAGES c" by simp
  then show ?case
    using 0 lu_geom_entries(6) [OF assms(2)] by (intro exI [of _ "cache fs"] exI [of _ "lu_work fs"]) simp
next
  case (Suc k)
  let ?E = "entries_per_page c" and ?M = "max_entries c" and ?O = "SPIFFS_OBJ_LOOKUP_PAGES c"
  let ?w = "mem_read (flash fs) (page_start c (b * SPIFFS_PAGES_PER_BLOCK c + p)) (log_page_size c)"
  let ?n = "min ?E (?M - p * ?E)"
  have p: "p < ?O" using Suc.hyps(2) by simp
  have ok: "cache_ok (Suc (n + k)) fs" using Suc.prems(3) unfolding Suc.hyps(2) [symmetric] by simp
  obtain x where x: "lu_load (add32 (b * log_block_size c) (SPIFFS_PAGE_TO_PADDR c p)) fs =
      Some (SPIFFS_OK, fs\<lparr>cache := x, lu_work := ?w\<rparr>)" "cache_ok (n + k) (fs\<lparr>cache := x\<rparr>)"
    using lu_load_ok [of fs nb b p "n + k"] assms(1-3) p ok Suc.prems(2) by auto
  let ?fs = "fs\<lparr>cache := x, lu_work := ?w\<rparr>"
  have ids: "lu_ids [0..<?n] ?fs = Some (map (\<lambda>k. lu_id c (flash fs) b (p * ?E + k)) [0..<?n])"
    by (rule lu_ids_map) (auto intro!: lu_get_page [OF assms(2)])
  have page: "map (\<lambda>k. lu_id c (flash fs) b (p * ?E + k)) [0..<?n] = map (lu_id c (flash fs) b) [p * ?E..<min (p * ?E + ?E) ?M]"
    by (rule nth_equalityI) auto
  have split: "map (lu_id c (flash fs) b) [p * ?E..<?M] =
      map (lu_id c (flash fs) b) [p * ?E..<min (p * ?E + ?E) ?M] @ map (lu_id c (flash fs) b) [Suc p * ?E..<?M]"
  proof (cases "p * ?E + ?E \<le> ?M")
    case True
    then show ?thesis using upt_split [of "p * ?E" "p * ?E + ?E" ?M] by (simp add: add.commute min_absorb1)
  next
    case False
    then show ?thesis by (simp add: add.commute min_absorb2)
  qed
  obtain a1 go where s1: "scan_ids step (map (lu_id c (flash fs) b) [p * ?E..<min (p * ?E + ?E) ?M]) a = (a1, go)"
    by (cases "scan_ids step (map (lu_id c (flash fs) b) [p * ?E..<min (p * ?E + ?E) ?M]) a")
  have upt: "[p..<?O] = p # [Suc p..<?O]" using p by (rule upt_conv_Cons)
  show ?case
  proof (cases go)
    case False
    then show ?thesis
      using x(2) s1 Suc.prems(2) unfolding upt split scan_ids_append
      by (intro exI [of _ x] exI [of _ ?w]) (auto simp: x(1) ids page dest: cache_ok_less)
  next
    case True
    have k: "?O - Suc p = k" using Suc.hyps(2) by simp
    have "\<exists>y w. scan_pages step (b * log_block_size c) [Suc p..<?O] a1 ?fs =
        (case scan_ids step (map (lu_id c (flash ?fs) b) [Suc p * ?E..<?M]) a1 of
           (a, go) \<Rightarrow> Some (if go then SPIFFS_OK else 1, a, ?fs\<lparr>cache := y, lu_work := w\<rparr>)) \<and> cache_ok n (?fs\<lparr>cache := y\<rparr>)"
      using p Suc.prems(2) x(2) by (intro Suc.hyps(1)) (simp_all only: k, simp_all)
    then obtain y w where "scan_pages step (b * log_block_size c) [Suc p..<?O] a1 ?fs =
        (case scan_ids step (map (lu_id c (flash fs) b) [Suc p * ?E..<?M]) a1 of
           (a, go) \<Rightarrow> Some (if go then SPIFFS_OK else 1, a, fs\<lparr>cache := y, lu_work := w\<rparr>))" "cache_ok n (fs\<lparr>cache := y\<rparr>)"
      by (auto simp: cache_ok_def)
    then show ?thesis
      using True s1 Suc.prems(2) unfolding upt split scan_ids_append
      by (intro exI [of _ y] exI [of _ w]) (auto simp: x(1) ids page split: prod.splits)
  qed
qed

lemma scan_block_ok:
  assumes "disk_hal (cfg fs)" "lu_geom (cfg fs) nb" "b < nb" "cache_ok (n + SPIFFS_OBJ_LOOKUP_PAGES (cfg fs)) fs"
  shows "\<exists>x w. scan_block step (b * log_block_size (cfg fs)) a fs =
      (case scan_ids step (map (lu_id (cfg fs) (flash fs) b) [0..<max_entries (cfg fs)]) a of
         (a, go) \<Rightarrow> Some (if go then SPIFFS_OK else 1, a, fs\<lparr>cache := x, lu_work := w\<rparr>)) \<and>
      cache_ok n (fs\<lparr>cache := x\<rparr>)"
  using scan_pages_ok [OF assms(1-3) _ refl, of 0 n step a] assms(4) by (simp add: scan_block_def)

subsection \<open>Quick garbage collection\<close>

lemma quick_scan:
  assumes "scan_ids (gc_quick_step mf) ids (d0, f0) = ((d, f), go)" "d0 + f0 + length ids < 65536" "f0 \<le> mf"
  shows "d + f \<le> d0 + f0 + length ids \<and>
     (d + f = d0 + f0 + length ids \<and> f \<le> mf \<longleftrightarrow>
       (\<forall>i \<in> set ids. i = SPIFFS_OBJ_ID_DELETED \<or> i = SPIFFS_OBJ_ID_FREE) \<and>
       f0 + length (filter (\<lambda>i. i = SPIFFS_OBJ_ID_FREE) ids) \<le> mf) \<and>
     (d + f = d0 + f0 + length ids \<and> f \<le> mf \<longrightarrow> d = d0 + length (filter (\<lambda>i. i = SPIFFS_OBJ_ID_DELETED) ids))"
  using assms
proof (induction ids arbitrary: d0 f0)
  case (Cons i ids)
  have ne: "SPIFFS_OBJ_ID_FREE \<noteq> SPIFFS_OBJ_ID_DELETED" by (simp add: c_defs)
  consider (del) "i = SPIFFS_OBJ_ID_DELETED" | (free) "i = SPIFFS_OBJ_ID_FREE" "f0 < mf" | (many) "i = SPIFFS_OBJ_ID_FREE" "f0 = mf"
    | (live) "i \<noteq> SPIFFS_OBJ_ID_DELETED" "i \<noteq> SPIFFS_OBJ_ID_FREE"
    using Cons.prems(3) by fastforce
  then show ?case
  proof cases
    case del
    then show ?thesis using Cons.IH [of "Suc d0" f0] Cons.prems ne by (auto simp: gc_quick_step_def)
  next
    case free
    then show ?thesis using Cons.IH [of d0 "Suc f0"] Cons.prems ne by (auto simp: gc_quick_step_def Let_def)
  next
    case many
    then show ?thesis using Cons.prems ne by (auto simp: gc_quick_step_def Let_def)
  next
    case live
    then show ?thesis using Cons.prems by (auto simp: gc_quick_step_def)
  qed
qed simp

text \<open>A block the quick collector may take: no entry is in use, and few are free.\<close>

definition quick_block :: "spiffs_config \<Rightarrow> mem \<Rightarrow> nat \<Rightarrow> nat \<Rightarrow> bool" where
  "quick_block c m mf b \<longleftrightarrow>
     (\<forall>e < max_entries c. lu_id c m b e = SPIFFS_OBJ_ID_DELETED \<or> lu_id c m b e = SPIFFS_OBJ_ID_FREE) \<and>
     card {e. e < max_entries c \<and> lu_id c m b e = SPIFFS_OBJ_ID_FREE} \<le> mf"

definition deleted_in :: "spiffs_config \<Rightarrow> mem \<Rightarrow> nat \<Rightarrow> nat" where
  "deleted_in c m b = card {e. e < max_entries c \<and> lu_id c m b e = SPIFFS_OBJ_ID_DELETED}"

lemma entries_card: "length (filter P (map f [0..<k])) = card {e. e < k \<and> P (f e)}"
proof -
  have "length (filter P (map f [0..<k])) = length (filter (\<lambda>e. P (f e)) [0..<k])" by (simp add: filter_map o_def)
  also have "\<dots> = card (set (filter (\<lambda>e. P (f e)) [0..<k]))" by (metis distinct_card distinct_filter distinct_upt)
  finally show ?thesis by simp
qed

lemma entries_u16:
  assumes "geom c" "lu_geom c nb" shows "max_entries c < 65536"
proof -
  have "0 < nb" using assms(2) by (simp add: lu_geom_def)
  have m: "max_entries c = SPIFFS_PAGES_PER_BLOCK c - SPIFFS_OBJ_LOOKUP_PAGES c" "0 < max_entries c"
    using lu_geom_entries(1,2,3) [OF assms(2)] by simp_all
  have "0 * SPIFFS_PAGES_PER_BLOCK c + (SPIFFS_PAGES_PER_BLOCK c - 1) < SPIFFS_MAX_PAGES c"
    using m by (intro block_pages [OF assms(2) \<open>0 < nb\<close>]) simp
  moreover have "0 < SPIFFS_OBJ_LOOKUP_PAGES c" by (simp add: SPIFFS_OBJ_LOOKUP_PAGES_def)
  moreover have "SPIFFS_MAX_PAGES c \<le> 65536" using assms(1) by (simp add: geom_def)
  ultimately show ?thesis using m by linarith
qed

text \<open>The state after the quick collector has taken a block.\<close>

definition quick_post :: "spiffs \<Rightarrow> nat option \<Rightarrow> spiffs" where
  "quick_post fs hit = (case hit of None \<Rightarrow> fs
     | Some b \<Rightarrow> fs\<lparr>stats_p_deleted := sub32 (stats_p_deleted fs) (deleted_in (cfg fs) (flash fs) b),
            flash := blank_block (cfg fs) (max_erase_count fs) b (flash fs), free_blocks := add32 (free_blocks fs) 1,
            max_erase_count := next_erase_count (max_erase_count fs)\<rparr>)"

lemma quick_post_frame:
  "quick_post (fs\<lparr>cache := x, lu_work := w\<rparr>) hit = (quick_post fs hit)\<lparr>cache := x, lu_work := w\<rparr>"
  "strip (quick_post fs hit) = quick_post (strip fs) hit"
  by (simp_all add: quick_post_def strip_def split: option.splits)

lemma gc_quick_blocks_ok:
  assumes "disk_hal (cfg fs)" "lu_geom (cfg fs) nb" "erase_geom (cfg fs)" "b + k = nb"
    and "cache_ok (n + k * SPIFFS_OBJ_LOOKUP_PAGES (cfg fs)) fs" "hit = find (quick_block (cfg fs) (flash fs) mf) [b..<nb]"
  shows "\<exists>x w. gc_quick_blocks k mf b (b * log_block_size (cfg fs)) fs =
        Some (case hit of None \<Rightarrow> SPIFFS_ERR_NO_DELETED_BLOCKS | Some _ \<Rightarrow> SPIFFS_OK, (quick_post fs hit)\<lparr>cache := x, lu_work := w\<rparr>) \<and>
      cache_ok n ((quick_post fs hit)\<lparr>cache := x, lu_work := w\<rparr>)"
  using assms
proof (induction k arbitrary: b fs)
  case 0
  then show ?case by (intro exI [of _ "cache fs"] exI [of _ "lu_work fs"]) (simp add: quick_post_def)
next
  case (Suc k)
  let ?c = "cfg fs"
  let ?M = "max_entries ?c" and ?O = "SPIFFS_OBJ_LOOKUP_PAGES ?c"
  let ?ids = "map (lu_id ?c (flash fs) b) [0..<?M]"
  have b: "b < nb" using Suc.prems(4) by simp
  have hit: "hit = (if quick_block ?c (flash fs) mf b then Some b else find (quick_block ?c (flash fs) mf) [Suc b..<nb])"
    unfolding Suc.prems(6) using b by (simp add: upt_conv_Cons)
  have g: "geom ?c" using Suc.prems(1) by simp
  have M: "SPIFFS_OBJ_LOOKUP_MAX_ENTRIES ?c = ?M" using lu_geom_entries(2) [OF Suc.prems(2)] by simp
  have ok: "cache_ok (n + k * ?O + ?O) fs" using Suc.prems(5) by (simp add: ac_simps)
  obtain x w where x: "scan_block (gc_quick_step mf) (b * log_block_size ?c) (0, 0) fs =
      (case scan_ids (gc_quick_step mf) ?ids (0, 0) of
         (a, go) \<Rightarrow> Some (if go then SPIFFS_OK else 1, a, fs\<lparr>cache := x, lu_work := w\<rparr>))"
      "cache_ok (n + k * ?O) (fs\<lparr>cache := x\<rparr>)"
    using scan_block_ok [OF Suc.prems(1,2) b ok, where step = "gc_quick_step mf" and a = "(0, 0)"] by blast
  obtain d f go where s: "scan_ids (gc_quick_step mf) ?ids (0, 0) = ((d, f), go)"
    by (cases "scan_ids (gc_quick_step mf) ?ids (0, 0)") auto
  have all: "(\<forall>i \<in> set ?ids. i = SPIFFS_OBJ_ID_DELETED \<or> i = SPIFFS_OBJ_ID_FREE) \<longleftrightarrow>
      (\<forall>e < ?M. lu_id ?c (flash fs) b e = SPIFFS_OBJ_ID_DELETED \<or> lu_id ?c (flash fs) b e = SPIFFS_OBJ_ID_FREE)"
    by auto
  have q: "d + f = ?M \<and> f \<le> mf \<longleftrightarrow> quick_block ?c (flash fs) mf b"
    "d + f = ?M \<and> f \<le> mf \<Longrightarrow> d = deleted_in ?c (flash fs) b"
    using quick_scan [OF s] entries_u16 [OF g Suc.prems(2)] unfolding entries_card all
    by (simp_all add: quick_block_def deleted_in_def)
  let ?fs = "fs\<lparr>cache := x, lu_work := w\<rparr>"
  have step: "gc_quick_blocks (Suc k) mf b (b * log_block_size ?c) fs =
      (if quick_block ?c (flash fs) mf b
       then spiffs_gc_erase_block b (?fs\<lparr>stats_p_deleted := sub32 (stats_p_deleted fs) (deleted_in ?c (flash fs) b)\<rparr>)
       else gc_quick_blocks k mf (u16_of (b + 1)) (add32 (b * log_block_size ?c) (log_block_size ?c)) ?fs)"
  proof (cases "quick_block ?c (flash fs) mf b")
    case True
    then have "d + f = ?M" "f \<le> mf" "deleted_in ?c (flash fs) b = d" using q by auto
    then show ?thesis using True by (simp add: x(1) s M SPIFFS_OK_def)
  next
    case False
    then show ?thesis using q(1) by (auto simp: x(1) s M SPIFFS_OK_def)
  qed
  show ?case
  proof (cases "quick_block ?c (flash fs) mf b")
    case True
    let ?f = "?fs\<lparr>stats_p_deleted := sub32 (stats_p_deleted fs) (deleted_in ?c (flash fs) b)\<rparr>"
    have "cache_ok n ?f" using cache_ok_less [OF x(2)] by (simp add: cache_ok_def)
    then obtain y where "spiffs_gc_erase_block b ?f = Some (SPIFFS_OK, ?f\<lparr>cache := y,
         flash := blank_block ?c (max_erase_count fs) b (flash fs), free_blocks := add32 (free_blocks fs) 1,
         max_erase_count := next_erase_count (max_erase_count fs)\<rparr>)"
        "cache_ok n (?f\<lparr>cache := y, flash := blank_block ?c (max_erase_count fs) b (flash fs)\<rparr>)"
      using gc_erase_block_ok [of ?f nb b n] Suc.prems(1-3) b by auto
    then show ?thesis
      using True unfolding step hit by (intro exI [of _ y] exI [of _ w]) (simp add: quick_post_def cache_ok_def)
  next
    case False
    have a: "u16_of (b + 1) = Suc b" "add32 (b * log_block_size ?c) (log_block_size ?c) = Suc b * log_block_size (cfg ?fs)"
      using b Suc.prems(2) block_addr_fits [OF g Suc.prems(2) b] by (simp_all add: lu_geom_def)
    have "\<exists>y v. gc_quick_blocks k mf (Suc b) (Suc b * log_block_size (cfg ?fs)) ?fs =
        Some (case hit of None \<Rightarrow> SPIFFS_ERR_NO_DELETED_BLOCKS | Some _ \<Rightarrow> SPIFFS_OK, (quick_post ?fs hit)\<lparr>cache := y, lu_work := v\<rparr>) \<and>
      cache_ok n ((quick_post ?fs hit)\<lparr>cache := y, lu_work := v\<rparr>)"
      using Suc.prems(1-4) x(2) hit False by (intro Suc.IH) simp_all
    then show ?thesis unfolding step a quick_post_frame by (simp add: False)
  qed
qed

subsection \<open>Formatting\<close>

text \<open>The flash after the blocks of a list have been erased one after the other.\<close>

definition blank_blocks :: "spiffs_config \<Rightarrow> nat list \<Rightarrow> mem \<Rightarrow> mem" where
  "blank_blocks c bs m = fold (blank_block c 0) bs m"

lemma format_blocks_ok:
  assumes "disk_hal (cfg fs)" "lu_geom (cfg fs) nb" "erase_geom (cfg fs)" "\<forall>b \<in> set bs. b < nb" "stale n m fs"
  shows "\<exists>fs'. format_blocks bs fs = Some (0, fs') \<and> flash fs' = blank_blocks (cfg fs) bs (flash fs) \<and> cfg fs' = cfg fs \<and>
     block_count fs' = block_count fs \<and> mounted fs' = mounted fs"
  using assms
proof (induction bs arbitrary: fs)
  case Nil
  then show ?case by (simp add: blank_blocks_def)
next
  case (Cons b bs)
  let ?f = "fs\<lparr>max_erase_count := 0\<rparr>"
  have "stale n m ?f" using Cons.prems(5) by (simp add: stale_def cache_ok_def)
  then obtain x where x: "spiffs_erase_block b ?f = Some (SPIFFS_OK, ?f\<lparr>cache := x, flash := blank_block (cfg fs) 0 b (flash fs),
        free_blocks := add32 (free_blocks fs) 1, max_erase_count := next_erase_count 0\<rparr>)" "stale n m (?f\<lparr>cache := x\<rparr>)"
    using erase_block_ok [of ?f nb b n m] Cons.prems by auto
  let ?f2 = "?f\<lparr>cache := x, flash := blank_block (cfg fs) 0 b (flash fs), free_blocks := add32 (free_blocks fs) 1,
        max_erase_count := next_erase_count 0\<rparr>"
  have "stale n m ?f2" using x(2) by (simp add: stale_def cache_ok_def)
  then show ?case using Cons.IH [of ?f2] Cons.prems x(1) by (simp add: blank_blocks_def)
qed

lemma blank_blocks_free:
  assumes "geom c" "lu_geom c nb" "erase_geom c" "set bs \<subseteq> {..<nb}" "b \<in> set bs" "x < block_addr c b + max_entries c * 2" "block_addr c b \<le> x"
  shows "blank_blocks c bs m x = 0xff"
  using assms(4,5)
proof (induction bs rule: rev_induct)
  case (snoc b' bs)
  have b': "b' < nb" "b < nb" using snoc.prems by auto
  show ?case
  proof (cases "b = b'")
    case True
    then show ?thesis using blank_block_entries [OF assms(1-3) b'(2) assms(6,7)] by (simp add: blank_blocks_def)
  next
    case False
    have "max_entries c * 2 + 4 \<le> log_block_size c"
      using mark_addrs(5,6) [OF assms(1-3) b'(2)] by simp
    moreover have "Suc b * log_block_size c \<le> b' * log_block_size c \<or> Suc b' * log_block_size c \<le> b * log_block_size c"
      using False by (metis Suc_leI linorder_neqE_nat mult_le_mono1)
    ultimately have "x < block_addr c b' \<or> block_addr c b' + log_block_size c \<le> x"
      using assms(6,7) by (auto simp: block_addr_def)
    then have "blank_block c 0 b' m' x = m' x" for m' using blank_block_other [OF assms(1-3) b'(1)] by blast
    then show ?thesis using snoc False by (simp add: blank_blocks_def)
  qed
qed simp

lemma blank_blocks_ids:
  assumes "geom c" "lu_geom c nb" "erase_geom c" "b < nb" "e < max_entries c"
  shows "lu_id c (blank_blocks c [0..<nb] m) b e = SPIFFS_OBJ_ID_FREE"
proof -
  have "blank_blocks c [0..<nb] m (lu_addr c b e + i) = 0xff" if "i < 2" for i
    using that assms(4,5) by (intro blank_blocks_free [OF assms(1-3)]) (auto simp: lu_addr_def block_addr_def)
  then have "mem_read (blank_blocks c [0..<nb] m) (lu_addr c b e) 2 = [0xff, 0xff]"
    by (intro nth_equalityI) (auto simp: less_2_cases_iff)
  then show ?thesis unfolding lu_id_def by (simp only: of_le16_ff)
qed

subsection \<open>Properties\<close>

text \<open>
  C7: Erasing a block for the garbage collector ends, leaves every lookup entry of the block free,
  touches no byte outside of the block, counts the block as free, advances the erase counter, and
  leaves the cache coherent although the erase itself bypasses it.
\<close>

theorem gc_erase_block_correct:
  assumes "disk_hal (cfg fs)" "lu_geom (cfg fs) nb" "erase_geom (cfg fs)" "b < nb" "cache_ok n fs"
  shows "\<exists>fs'. spiffs_gc_erase_block b fs = Some (SPIFFS_OK, fs') \<and> cache_ok n fs' \<and>
     (\<forall>e < max_entries (cfg fs). lu_id (cfg fs) (flash fs') b e = SPIFFS_OBJ_ID_FREE) \<and>
     (\<forall>x. x < block_addr (cfg fs) b \<or> block_addr (cfg fs) b + log_block_size (cfg fs) \<le> x \<longrightarrow> flash fs' x = flash fs x) \<and>
     free_blocks fs' = add32 (free_blocks fs) 1 \<and> max_erase_count fs' = next_erase_count (max_erase_count fs) \<and>
     fd_space fs' = fd_space fs \<and> stats_p_deleted fs' = stats_p_deleted fs \<and> stats_p_allocated fs' = stats_p_allocated fs"
proof -
  let ?m = "blank_block (cfg fs) (max_erase_count fs) b (flash fs)"
  obtain x where x: "spiffs_gc_erase_block b fs = Some (SPIFFS_OK, fs\<lparr>cache := x, flash := ?m,
       free_blocks := add32 (free_blocks fs) 1, max_erase_count := next_erase_count (max_erase_count fs)\<rparr>)"
     "cache_ok n (fs\<lparr>cache := x, flash := ?m\<rparr>)"
    using gc_erase_block_ok [OF assms] by blast
  note g = disk_hal_geom [OF assms(1)]
  show ?thesis
    unfolding x(1) using x(2) blank_block_free [OF g assms(2-4)] blank_block_other [OF g assms(2-4)]
    by (simp add: cache_ok_def)
qed

lemma demo_erase_geom: "erase_geom demo_cfg"
  by (simp add: erase_geom_def)

theorem gc_erase_block_correct_witness:
  "\<exists>fs'. spiffs_gc_erase_block 1 (demo_on demo_img) = Some (SPIFFS_OK, fs') \<and> cache_ok 100 fs' \<and>
     (\<forall>e < 15. lu_id demo_cfg (flash fs') 1 e = SPIFFS_OBJ_ID_FREE) \<and>
     (\<forall>x. x < 4096 \<or> 8192 \<le> x \<longrightarrow> flash fs' x = demo_img x) \<and> free_blocks fs' = 1"
  using gc_erase_block_correct [of "demo_on demo_img" 4 1 100] demo_disk demo_erase_geom demo_ok [of 100]
  by (auto simp: block_addr_def)

text \<open>
  C4: The quick garbage collector erases the first block, in order, whose entries are all deleted or
  free with at most \<open>max_free_pages\<close> free ones, and corrects the deleted-pages statistics by the
  number of its deleted entries; if there is no such block it answers
  \<open>SPIFFS_ERR_NO_DELETED_BLOCKS\<close> and changes nothing. So it never erases a page in use.
\<close>

theorem gc_quick_correct:
  assumes "disk_hal (cfg fs)" "lu_geom (cfg fs) (block_count fs)" "erase_geom (cfg fs)"
    and "cache_ok (n + block_count fs * SPIFFS_OBJ_LOOKUP_PAGES (cfg fs)) fs"
  shows "\<exists>fs'. spiffs_gc_quick mf fs =
        Some (case find (quick_block (cfg fs) (flash fs) mf) [0..<block_count fs] of
                None \<Rightarrow> SPIFFS_ERR_NO_DELETED_BLOCKS | Some _ \<Rightarrow> SPIFFS_OK, fs') \<and> cache_ok n fs' \<and>
     strip fs' = quick_post (strip fs) (find (quick_block (cfg fs) (flash fs) mf) [0..<block_count fs])"
proof -
  let ?hit = "find (quick_block (cfg fs) (flash fs) mf) [0..<block_count fs]"
  obtain x w where "gc_quick_blocks (block_count fs) mf 0 (0 * log_block_size (cfg fs)) fs =
        Some (case ?hit of None \<Rightarrow> SPIFFS_ERR_NO_DELETED_BLOCKS | Some _ \<Rightarrow> SPIFFS_OK, (quick_post fs ?hit)\<lparr>cache := x, lu_work := w\<rparr>)"
      "cache_ok n ((quick_post fs ?hit)\<lparr>cache := x, lu_work := w\<rparr>)"
    using gc_quick_blocks_ok [OF assms(1-3) _ assms(4) refl, of 0 mf] by auto
  then show ?thesis
    by (intro exI [of _ "(quick_post fs ?hit)\<lparr>cache := x, lu_work := w\<rparr>"]) (simp add: spiffs_gc_quick_def quick_post_frame)
qed

theorem gc_quick_correct_witness:
  "\<exists>fs'. spiffs_gc_quick 2 (demo_on demo_img) =
        Some (case find (quick_block demo_cfg demo_img 2) [0..<4] of
                None \<Rightarrow> SPIFFS_ERR_NO_DELETED_BLOCKS | Some _ \<Rightarrow> SPIFFS_OK, fs') \<and> cache_ok 100 fs' \<and>
     strip fs' = quick_post (strip (demo_on demo_img)) (find (quick_block demo_cfg demo_img 2) [0..<4])"
  by (rule gc_quick_correct [of "demo_on demo_img" 100 2, unfolded demo_on_simps, OF demo_disk demo_erase_geom])
    (simp add: demo_ok)

text \<open>
  C27: Formatting an unmounted file system succeeds and leaves every lookup entry of every block free.
\<close>

theorem format_frees_everything:
  assumes "disk_hal (cfg fs)" "lu_geom (cfg fs) (block_count fs)" "erase_geom (cfg fs)" "cache_ok n fs"
    and "config_magic fs = SPIFFS_CONFIG_MAGIC" "\<not> mounted fs"
  shows "\<exists>fs'. SPIFFS_format fs = Some (0, fs') \<and> cfg fs' = cfg fs \<and> \<not> mounted fs' \<and>
     (\<forall>b < block_count fs. \<forall>e < max_entries (cfg fs). lu_id (cfg fs) (flash fs') b e = SPIFFS_OBJ_ID_FREE)"
proof -
  have nb: "block_count fs \<le> 65535" using assms(2) by (simp add: lu_geom_def)
  have "stale n (flash fs) fs" using assms(4) by (simp add: stale_def)
  then obtain fs' where "format_blocks [0..<block_count fs] fs = Some (0, fs')" "cfg fs' = cfg fs"
      "flash fs' = blank_blocks (cfg fs) [0..<block_count fs] (flash fs)" "mounted fs' = mounted fs"
    using format_blocks_ok [OF assms(1-3), of "[0..<block_count fs]" n "flash fs"] by auto
  then show ?thesis
    using blank_blocks_ids [OF disk_hal_geom [OF assms(1)] assms(2,3)] assms(5,6) nb by (simp add: SPIFFS_format_def)
qed

theorem format_frees_everything_witness:
  "\<exists>fs'. SPIFFS_format ((demo_on demo_img)\<lparr>mounted := False\<rparr>) = Some (0, fs') \<and> cfg fs' = demo_cfg \<and> \<not> mounted fs' \<and>
     (\<forall>b < 4. \<forall>e < 15. lu_id demo_cfg (flash fs') b e = SPIFFS_OBJ_ID_FREE)"
proof -
  let ?fs = "(demo_on demo_img)\<lparr>mounted := False\<rparr>"
  have "cache_ok 0 ?fs" using demo_ok [of 0 demo_img] by (simp add: cache_ok_def)
  moreover have "config_magic ?fs = SPIFFS_CONFIG_MAGIC"
    by (simp add: demo_on_def spiffs_cache_init_def demo_raw_def Let_def)
  ultimately show ?thesis using format_frees_everything [of ?fs 0] demo_disk demo_erase_geom by simp
qed

end
