(* ===== verification/Spiffs_Alloc.thy ===== *)
theory Spiffs_Alloc
  imports Spiffs_Erase
begin

section \<open>SPIFFS: allocating and deleting pages\<close>

text \<open>
  What deleting and allocating a page does to the flash: a page is deleted by clearing its lookup
  entry and its header flags, and allocated by writing the lookup entry, the header, the data and
  at last the final flag. All writes only clear bits of erased or used bytes, so the flash ends up
  with exactly the bytes written.
\<close>

subsection \<open>Addresses of entries and pages\<close>

abbreviation entry_pix :: "spiffs_config \<Rightarrow> nat \<Rightarrow> nat \<Rightarrow> nat" where
  "entry_pix c b e \<equiv> b * SPIFFS_PAGES_PER_BLOCK c + (SPIFFS_OBJ_LOOKUP_PAGES c + e)"

lemma entry_addrs:
  assumes "geom c" "lu_geom c nb" "b < nb" "e < max_entries c"
  shows "lu_entry_paddr c b e = lu_addr c b e" "in_page c (lu_addr c b e) 2"
    "SPIFFS_OBJ_LOOKUP_ENTRY_TO_PADDR c b e = page_start c (entry_pix c b e)"
    "lu_page_paddr c (entry_pix c b e) = lu_addr c b e"
    "lu_addr c b e + 2 \<le> page_start c (entry_pix c b e)" "page_start c (entry_pix c b e) + log_page_size c < 2 ^ 32"
    "lu_addr c b e + 2 \<le> phys_addr c + b * log_block_size c + SPIFFS_OBJ_LOOKUP_PAGES c * log_page_size c"
proof -
  let ?O = "SPIFFS_OBJ_LOOKUP_PAGES c" and ?P = "log_page_size c" and ?E = "entries_per_page c"
  note ge = lu_geom_entries [OF assms(2)]
  note ep = entry_page [OF assms]
  have pe: "?P = 2 * ?E" and E: "0 < ?E" using ge(5) assms(1) by (auto simp: geom_def)
  show fits: "page_start c (entry_pix c b e) + ?P < 2 ^ 32" using pages_fit [OF assms(1)] ep(1,2) by simp
  have st: "page_start c (entry_pix c b e) = phys_addr c + b * log_block_size c + (?O + e) * ?P"
    using block_page_start [OF assms(2)] .
  have M: "max_entries c * 2 \<le> ?O * ?P" using ge(6) pe by (simp add: mult.assoc [symmetric])
  show "lu_addr c b e + 2 \<le> phys_addr c + b * log_block_size c + ?O * ?P" using M assms(4) by (simp add: lu_addr_def)
  then show le: "lu_addr c b e + 2 \<le> page_start c (entry_pix c b e)" unfolding st by (simp add: add_mult_distrib)
  have B: "SPIFFS_BLOCK_TO_PADDR c b = phys_addr c + b * log_block_size c"
    using block_addr_fits [OF assms(1-3)] by (simp add: SPIFFS_BLOCK_TO_PADDR_def)
  show la: "lu_entry_paddr c b e = lu_addr c b e" using le fits by (simp add: lu_entry_paddr_def B lu_addr_def)
  show "SPIFFS_OBJ_LOOKUP_ENTRY_TO_PADDR c b e = page_start c (entry_pix c b e)"
    using fits unfolding SPIFFS_OBJ_LOOKUP_ENTRY_TO_PADDR_def B st by (simp add: add.assoc)
  have lt: "?O + e < SPIFFS_PAGES_PER_BLOCK c" using assms(4) ge(1,2) by simp
  have "SPIFFS_BLOCK_FOR_PAGE c (entry_pix c b e) = b" using lt by (simp add: SPIFFS_BLOCK_FOR_PAGE_def)
  moreover have "SPIFFS_OBJ_LOOKUP_ENTRY_FOR_PAGE c (entry_pix c b e) = e"
    using lt assms(2) by (simp add: SPIFFS_OBJ_LOOKUP_ENTRY_FOR_PAGE_def lu_geom_def)
  ultimately show "lu_page_paddr c (entry_pix c b e) = lu_addr c b e" using la by (simp add: lu_page_paddr_def)
  let ?p = "e div ?E" and ?k = "2 * (e mod ?E)"
  have "?p < ?O" using assms(4) ge(6) E by (simp add: div_less_iff_less_mult less_le_trans)
  then have q: "b * SPIFFS_PAGES_PER_BLOCK c + ?p < SPIFFS_MAX_PAGES c"
    using assms(2) by (intro block_pages [OF assms(2,3)]) (simp add: lu_geom_def)
  have k: "?k < ?P" "?k + 2 \<le> ?P" using pe mod_less_divisor [OF E, of e] by simp_all
  have "?p * ?P + ?k = 2 * e" unfolding pe by (metis (no_types, lifting) div_mult_mod_eq distrib_left mult.assoc mult.commute)
  then have "page_start c (b * SPIFFS_PAGES_PER_BLOCK c + ?p) + ?k = lu_addr c b e"
    unfolding block_page_start [OF assms(2)] lu_addr_def by simp
  then show "in_page c (lu_addr c b e) 2" using page_part [OF assms(1) q k] by simp
qed

text \<open>Distinct pages and entries do not overlap.\<close>

lemma entry_not_in_page:
  assumes "geom c" "lu_geom c nb" "b < nb" "e < max_entries c" "b' < nb" "e' < max_entries c"
  shows "lu_addr c b e + 2 \<le> page_start c (entry_pix c b' e') \<or>
     page_start c (entry_pix c b' e') + log_page_size c \<le> lu_addr c b e"
proof -
  let ?P = "log_page_size c" and ?B = "log_block_size c"
  have L: "SPIFFS_PAGES_PER_BLOCK c * ?P = ?B" using assms(2) by (simp add: lu_geom_def)
  have st: "page_start c (entry_pix c b' e') = phys_addr c + b' * ?B + (SPIFFS_OBJ_LOOKUP_PAGES c + e') * ?P"
    using block_page_start [OF assms(2)] .
  consider "b < b'" | "b = b'" | "b' < b" by linarith
  then show ?thesis
  proof cases
    case 1
    have "Suc b * ?B \<le> b' * ?B" using 1 by (intro mult_le_mono1) simp
    moreover have "lu_addr c b e + 2 \<le> phys_addr c + Suc b * ?B"
    proof -
      have "lu_addr c b e + 2 \<le> page_start c (entry_pix c b e)" using entry_addrs(5) [OF assms(1-4)] .
      also have "\<dots> \<le> phys_addr c + Suc b * ?B"
      proof -
        have "(SPIFFS_OBJ_LOOKUP_PAGES c + e) * ?P \<le> SPIFFS_PAGES_PER_BLOCK c * ?P"
          using assms(4) lu_geom_entries(1,2) [OF assms(2)] by (intro mult_le_mono1) simp
        then show ?thesis unfolding block_page_start [OF assms(2)] L by simp
      qed
      finally show ?thesis .
    qed
    ultimately show ?thesis unfolding st by simp
  next
    case 2
    then show ?thesis using entry_addrs(7) [OF assms(1-4)] unfolding st by (simp add: add_mult_distrib)
  next
    case 3
    have "(SPIFFS_OBJ_LOOKUP_PAGES c + e' + 1) * ?P \<le> SPIFFS_PAGES_PER_BLOCK c * ?P"
      using assms(6) lu_geom_entries(1,2) [OF assms(2)] by (intro mult_le_mono1) simp
    then have "(SPIFFS_OBJ_LOOKUP_PAGES c + e') * ?P + ?P \<le> ?B" unfolding L by (simp add: add_mult_distrib)
    moreover have "Suc b' * ?B \<le> b * ?B" using 3 by (intro mult_le_mono1) simp
    ultimately show ?thesis unfolding st by (simp add: lu_addr_def)
  qed
qed

subsection \<open>Deleting a page\<close>

text \<open>The delete command drops the page from the cache and programs the flash.\<close>

lemma phys_wr_dele:
  "op AND OP_COM_MASK = OP_C_DELE \<Longrightarrow> op AND OP_TYPE_MASK \<noteq> OP_T_OBJ_LU \<Longrightarrow>
   spiffs_phys_wr op addr src fs = do {
     fs \<leftarrow> spiffs_cache_drop_page (u16_of (SPIFFS_PADDR_TO_PAGE (cfg fs) addr)) fs;
     hal_wr addr src fs
   }"
proof -
  assume op: "op AND OP_COM_MASK = OP_C_DELE" "op AND OP_TYPE_MASK \<noteq> OP_T_OBJ_LU"
  have "OP_C_DELE \<noteq> OP_C_WRTHRU" by (simp add: c_defs)
  then show ?thesis
    unfolding spiffs_phys_wr_def spiffs_cache_drop_page_def Let_def op(1)
    using op(2) by (auto split: option.splits Option.bind_split)
qed

lemma disk_wr_dele:
  assumes "disk_hal (cfg fs)" "in_page (cfg fs) addr (length src)" "cache_ok n fs"
    and op: "op AND OP_COM_MASK = OP_C_DELE" "op AND OP_TYPE_MASK \<noteq> OP_T_OBJ_LU"
  shows "\<exists>x. spiffs_phys_wr op addr src fs = Some (SPIFFS_OK, fs\<lparr>cache := x, flash := prog addr src (flash fs)\<rparr>) \<and>
     cache_ok n (fs\<lparr>cache := x, flash := prog addr src (flash fs)\<rparr>)"
proof -
  let ?c = "cfg fs"
  let ?q = "page_of ?c addr"
  let ?m = "prog addr src (flash fs)"
  have g: "geom ?c" using assms(1) by simp
  note a = in_page_addr [OF g assms(2)]
  have pix: "u16_of (SPIFFS_PADDR_TO_PAGE ?c addr) = ?q" using a(2,3) by simp
  have "stale n (flash fs) fs" using assms(3) by (simp add: stale_def)
  then obtain x where x: "spiffs_cache_drop_page ?q fs = Some (fs\<lparr>cache := x\<rparr>)" "stale n (flash fs) (fs\<lparr>cache := x\<rparr>)"
      "cached_pages (fs\<lparr>cache := x\<rparr>) \<subseteq> cached_pages fs - {?q}"
    using drop_page_stale by blast
  let ?fs = "fs\<lparr>cache := x, flash := ?m\<rparr>"
  have "cache_ok n ?fs"
  proof (rule stale_fresh)
    show "stale n (flash fs) ?fs" using x(2) by (simp add: stale_def)
    fix p assume p: "p \<in> cached_pages ?fs"
    have "cached_pages ?fs = cached_pages (fs\<lparr>cache := x\<rparr>)" by (simp add: cached_pages_def)
    then have "p \<noteq> ?q" using p x(3) by auto
    then have "page_start ?c p + log_page_size ?c \<le> page_start ?c ?q \<or> page_start ?c ?q + log_page_size ?c \<le> page_start ?c p"
      by (rule pages_disjoint)
    then have "page_start ?c p + log_page_size ?c \<le> addr \<or> addr + length src \<le> page_start ?c p"
      using assms(2) page_start_le [of ?c addr] by (auto simp: in_page_def)
    then show "mem_read (flash ?fs) (page_start (cfg ?fs) p) (log_page_size (cfg ?fs)) =
        mem_read (flash fs) (page_start (cfg ?fs) p) (log_page_size (cfg ?fs))"
      using mem_read_prog_other by simp
  qed
  moreover have "spiffs_phys_wr op addr src fs = Some (SPIFFS_OK, ?fs)"
    using phys_wr_dele [OF op] x(1) assms(1,2) by (simp add: pix hal_wr_def disk_hal_def)
  ultimately show ?thesis by blast
qed

text \<open>The flash after page \<open>pix\<close> of entry \<open>(b, e)\<close> was deleted.\<close>

definition delete_img :: "spiffs_config \<Rightarrow> nat \<Rightarrow> nat \<Rightarrow> mem \<Rightarrow> mem" where
  "delete_img c b e m = prog (page_start c (entry_pix c b e) + OFFSETOF_FLAGS) [0x7e]
     (mem_write (lu_addr c b e) (le16 SPIFFS_OBJ_ID_DELETED) m)"

lemma page_delete_ok:
  assumes "disk_hal (cfg fs)" "lu_geom (cfg fs) nb" "b < nb" "e < max_entries (cfg fs)" "cache_ok (Suc n) fs"
  shows "\<exists>x. spiffs_page_delete (entry_pix (cfg fs) b e) fs = Some (SPIFFS_OK, fs\<lparr>cache := x, flash := delete_img (cfg fs) b e (flash fs),
       stats_p_deleted := add32 (stats_p_deleted fs) 1, stats_p_allocated := sub32 (stats_p_allocated fs) 1\<rparr>) \<and>
     cache_ok n (fs\<lparr>cache := x, flash := delete_img (cfg fs) b e (flash fs)\<rparr>)"
proof -
  let ?c = "cfg fs"
  let ?pix = "entry_pix ?c b e"
  note g = disk_hal_geom [OF assms(1)]
  note a = entry_addrs [OF g assms(2-4)] and ep = entry_page [OF g assms(2-4)]
  have P: "5 \<le> log_page_size ?c" using assms(2) by (simp add: lu_geom_def SIZEOF_OBJIX_HEADER_def)
  let ?m1 = "mem_write (lu_addr ?c b e) (le16 SPIFFS_OBJ_ID_DELETED) (flash fs)"
  have cl: "clears (lu_addr ?c b e) (le16 SPIFFS_OBJ_ID_DELETED) (flash fs)"
    by (auto simp: clears_def le16_def SPIFFS_OBJ_ID_DELETED_def less_Suc_eq)
  have op: "(OP_T_OBJ_LU OR OP_C_DELE) AND OP_COM_MASK \<noteq> OP_C_WRTHRU" by (simp add: c_defs)
  obtain x where x: "spiffs_phys_wr (OP_T_OBJ_LU OR OP_C_DELE) (lu_addr ?c b e) (le16 SPIFFS_OBJ_ID_DELETED) fs =
        Some (SPIFFS_OK, fs\<lparr>cache := x, flash := ?m1\<rparr>)" "cache_ok n (fs\<lparr>cache := x, flash := ?m1\<rparr>)"
    using disk_wr [OF assms(1) _ assms(5) cl op] a(2) by auto
  let ?f = "fs\<lparr>cache := x, flash := ?m1, stats_p_deleted := add32 (stats_p_deleted fs) 1,
       stats_p_allocated := sub32 (stats_p_allocated fs) 1\<rparr>"
  have ok: "cache_ok n ?f" using x(2) by (simp add: cache_ok_def)
  have pg: "in_page ?c (page_start ?c ?pix + OFFSETOF_FLAGS) (length [0x7e :: byte])"
    using page_part [OF g, of ?pix OFFSETOF_FLAGS 1] ep(1,2) P by (simp add: OFFSETOF_FLAGS_def)
  have op2: "(OP_T_OBJ_DA OR OP_C_DELE) AND OP_COM_MASK = OP_C_DELE" "(OP_T_OBJ_DA OR OP_C_DELE) AND OP_TYPE_MASK \<noteq> OP_T_OBJ_LU"
    by (simp_all add: c_defs)
  obtain y where y: "spiffs_phys_wr (OP_T_OBJ_DA OR OP_C_DELE) (page_start ?c ?pix + OFFSETOF_FLAGS) [0x7e] ?f =
        Some (SPIFFS_OK, ?f\<lparr>cache := y, flash := delete_img ?c b e (flash fs)\<rparr>)"
      "cache_ok n (?f\<lparr>cache := y, flash := delete_img ?c b e (flash fs)\<rparr>)"
    using disk_wr_dele [OF _ _ ok op2, of "page_start ?c ?pix + OFFSETOF_FLAGS" "[0x7e]"] assms(1) pg by (auto simp: delete_img_def)
  have ad: "add32 (SPIFFS_PAGE_TO_PADDR ?c ?pix) OFFSETOF_FLAGS = page_start ?c ?pix + OFFSETOF_FLAGS"
    using ep(1,3) a(6) P by (simp add: OFFSETOF_FLAGS_def)
  have fl: "(0xff :: byte) AND NOT (PH_FLAG_DELET OR PH_FLAG_USED) = 0x7e" by (simp add: c_defs)
  have "spiffs_page_delete ?pix fs = Some (SPIFFS_OK, ?f\<lparr>cache := y, flash := delete_img ?c b e (flash fs)\<rparr>)"
    unfolding spiffs_page_delete_def Let_def a(4) fl using x(1) y(1) ad by (simp add: SPIFFS_OK_def)
  moreover have "cache_ok n (fs\<lparr>cache := y, flash := delete_img ?c b e (flash fs)\<rparr>)" using y(2) by (simp add: cache_ok_def)
  ultimately show ?thesis by (intro exI [of _ y]) simp
qed

lemma delete_img_at:
  assumes "geom c" "lu_geom c nb" "b < nb" "e < max_entries c"
  shows "lu_id c (delete_img c b e m) b e = SPIFFS_OBJ_ID_DELETED"
    "ph_flags (hdr_at c (delete_img c b e m) (entry_pix c b e)) = ph_flags (hdr_at c m (entry_pix c b e)) AND 0x7e"
    "x \<noteq> lu_addr c b e \<Longrightarrow> x \<noteq> lu_addr c b e + 1 \<Longrightarrow> x \<noteq> page_start c (entry_pix c b e) + 4 \<Longrightarrow> delete_img c b e m x = m x"
proof -
  note a = entry_addrs(5) [OF assms]
  have "mem_read (delete_img c b e m) (lu_addr c b e) 2 = mem_read (mem_write (lu_addr c b e) (le16 SPIFFS_OBJ_ID_DELETED) m) (lu_addr c b e) 2"
    using a unfolding delete_img_def by (intro mem_read_prog_other) simp
  also have "\<dots> = le16 SPIFFS_OBJ_ID_DELETED" using mem_write_same [of "lu_addr c b e" "le16 SPIFFS_OBJ_ID_DELETED" m] by simp
  finally show "lu_id c (delete_img c b e m) b e = SPIFFS_OBJ_ID_DELETED" by (simp add: lu_id_def)
  show "ph_flags (hdr_at c (delete_img c b e m) (entry_pix c b e)) = ph_flags (hdr_at c m (entry_pix c b e)) AND 0x7e"
    using a by (simp add: hdr_at_def page_header_of_def SIZEOF_PAGE_HEADER_def delete_img_def prog_def OFFSETOF_FLAGS_def mem_write_other)
  show "x \<noteq> lu_addr c b e \<Longrightarrow> x \<noteq> lu_addr c b e + 1 \<Longrightarrow> x \<noteq> page_start c (entry_pix c b e) + 4 \<Longrightarrow> delete_img c b e m x = m x"
    by (auto simp: delete_img_def prog_def mem_write_def OFFSETOF_FLAGS_def)
qed

subsection \<open>Finding a free entry\<close>

text \<open>The first free entry from the free cursor on.\<close>

definition free_entry :: "spiffs \<Rightarrow> (nat \<times> nat) option" where
  "free_entry fs = find (\<lambda>(b, e). lu_id (cfg fs) (flash fs) b e = SPIFFS_OBJ_ID_FREE)
     (visitor_order (cfg fs) (block_count fs) VIS_CHECK_ID (free_cursor_block_ix fs) (free_cursor_obj_lu_entry fs))"

definition take_entry :: "nat \<Rightarrow> nat \<Rightarrow> spiffs \<Rightarrow> spiffs" where
  "take_entry b e fs = fs\<lparr>free_cursor_block_ix := b, free_cursor_obj_lu_entry := e,
     free_blocks := (if e = 0 then sub32 (free_blocks fs) 1 else free_blocks fs)\<rparr>"

lemma take_entry_simps [simp]:
  "cfg (take_entry b e fs) = cfg fs" "flash (take_entry b e fs) = flash fs" "block_count (take_entry b e fs) = block_count fs"
  "strip (take_entry b e fs) = take_entry b e (strip fs)" "cache (take_entry b e fs) = cache fs"
  "stats_p_allocated (take_entry b e fs) = stats_p_allocated fs" "cache_ok n (take_entry b e fs) = cache_ok n fs"
  by (simp_all add: take_entry_def strip_def cache_ok_def)

lemma free_entry_Some:
  assumes "lu_geom (cfg fs) (block_count fs)" "free_cursor_block_ix fs < block_count fs" "free_entry fs = Some (b, e)"
  shows "b < block_count fs" "e < max_entries (cfg fs)" "lu_id (cfg fs) (flash fs) b e = SPIFFS_OBJ_ID_FREE"
proof -
  have "(b, e) \<in> set (visitor_order (cfg fs) (block_count fs) VIS_CHECK_ID (free_cursor_block_ix fs) (free_cursor_obj_lu_entry fs))"
    "lu_id (cfg fs) (flash fs) b e = SPIFFS_OBJ_ID_FREE"
    using assms(3) unfolding free_entry_def find_Some_iff by (auto simp: in_set_conv_nth)
  then show "b < block_count fs" "e < max_entries (cfg fs)" "lu_id (cfg fs) (flash fs) b e = SPIFFS_OBJ_ID_FREE"
    using visitor_order_all [OF assms(2) lu_geom_entries(3) [OF assms(1)], of VIS_CHECK_ID] by (auto simp: c_defs)
qed

lemma find_free_ok:
  assumes "disk_hal (cfg fs)" "lu_geom (cfg fs) (block_count fs)" "free_cursor_block_ix fs < block_count fs"
    and "cache_ok (n + (block_count fs + 1) * SPIFFS_OBJ_LOOKUP_PAGES (cfg fs)) fs" "cleaning fs \<or> 2 \<le> free_blocks fs"
  shows "\<exists>x w loc. spiffs_obj_lu_find_free (free_cursor_block_ix fs) (free_cursor_obj_lu_entry fs) fs =
      (case free_entry fs of
         None \<Rightarrow> Some (SPIFFS_ERR_NOT_FOUND, loc, fs\<lparr>cache := x, lu_work := w\<rparr>)
       | Some (b, e) \<Rightarrow> Some (SPIFFS_OK, Some (b, e), (take_entry b e fs)\<lparr>cache := x, lu_work := w\<rparr>)) \<and>
      cache_ok n (fs\<lparr>cache := x\<rparr>)"
proof -
  obtain loc fs' where f: "spiffs_obj_lu_find_id (free_cursor_block_ix fs) (free_cursor_obj_lu_entry fs) SPIFFS_OBJ_ID_FREE fs =
        Some (case free_entry fs of None \<Rightarrow> SPIFFS_ERR_NOT_FOUND | Some _ \<Rightarrow> SPIFFS_OK, loc, fs')"
      "strip fs' = strip fs" "cache_ok n fs'" "\<forall>be. free_entry fs = Some be \<longrightarrow> loc = Some be"
    using find_id_spec [OF assms(1-4), of "free_entry fs" SPIFFS_OBJ_ID_FREE "free_cursor_obj_lu_entry fs"]
    by (auto simp: free_entry_def)
  obtain x w where xw: "fs' = fs\<lparr>cache := x, lu_work := w\<rparr>"
  proof
    have "(strip fs')\<lparr>cache := cache fs', lu_work := lu_work fs'\<rparr> = fs'" by (simp add: strip_def)
    then show "fs' = fs\<lparr>cache := cache fs', lu_work := lu_work fs'\<rparr>" unfolding f(2) by (simp add: strip_def)
  qed
  have ok: "cache_ok n (fs\<lparr>cache := x\<rparr>)" using f(3) xw by (simp add: cache_ok_def)
  have room: "\<not> (\<not> cleaning fs \<and> free_blocks fs < 2)" using assms(5) by auto
  show ?thesis
  proof (cases "free_entry fs")
    case None
    then show ?thesis
      using f(1) ok unfolding spiffs_obj_lu_find_free_def if_not_P [OF room] xw
      by (intro exI [of _ x] exI [of _ w] exI [of _ loc]) (simp add: c_defs)
  next
    case (Some be)
    then show ?thesis
      using f(1,4) ok unfolding spiffs_obj_lu_find_free_def if_not_P [OF room] xw
      by (intro exI [of _ x] exI [of _ w]) (cases be, simp add: SPIFFS_OK_def take_entry_def Let_def)
  qed
qed

subsection \<open>Allocating a page\<close>

lemma length_page_header_bytes [simp]: "length (page_header_bytes h) = 5"
  by (simp add: page_header_bytes_def)

text \<open>The header as it is on the flash in the end.\<close>

definition final_header :: "bool \<Rightarrow> spiffs_page_header \<Rightarrow> spiffs_page_header" where
  "final_header finalize ph =
     (let ph = ph\<lparr>ph_flags := ph_flags ph AND NOT PH_FLAG_USED\<rparr>
      in if finalize then ph\<lparr>ph_flags := ph_flags ph AND NOT PH_FLAG_FINAL\<rparr> else ph)"

definition alloc_img :: "spiffs_config \<Rightarrow> nat \<Rightarrow> nat \<Rightarrow> u16 \<Rightarrow> spiffs_page_header \<Rightarrow> nat \<Rightarrow> byte list \<Rightarrow> mem \<Rightarrow> mem" where
  "alloc_img c b e oid ph offs d m =
     (let ps = page_start c (entry_pix c b e)
      in mem_write (ps + SIZEOF_PAGE_HEADER + offs) d (mem_write ps (page_header_bytes ph) (mem_write (lu_addr c b e) (le16 oid) m)))"

lemma flags_rewrite:
  "mem_write (ps + 4) [f] (mem_write (ps + 5 + offs) d (mem_write ps (page_header_bytes h) m)) =
   mem_write (ps + 5 + offs) d (mem_write ps (page_header_bytes (h\<lparr>ph_flags := f\<rparr>)) m)"
proof
  fix x
  consider "x < ps" | "ps \<le> x" "x < ps + 4" | "x = ps + 4" | "ps + 5 \<le> x" by linarith
  then show "mem_write (ps + 4) [f] (mem_write (ps + 5 + offs) d (mem_write ps (page_header_bytes h) m)) x =
      mem_write (ps + 5 + offs) d (mem_write ps (page_header_bytes (h\<lparr>ph_flags := f\<rparr>)) m) x"
    by cases (auto simp: mem_write_def page_header_bytes_def nth_append)
qed

lemma not_and_clears: "(x :: byte) AND (x AND y) = x AND y"
  by (simp add: and.assoc [symmetric])

lemma lu_id_free:
  assumes "lu_id c m b e = SPIFFS_OBJ_ID_FREE" "i < 2"
  shows "m (lu_addr c b e + i) = 0xff"
proof -
  have "le16 (of_le16 (mem_read m (lu_addr c b e) 2)) = mem_read m (lu_addr c b e) 2" by (rule le16_of_le16) simp
  then have "mem_read m (lu_addr c b e) 2 = le16 SPIFFS_OBJ_ID_FREE" using assms(1) by (simp add: lu_id_def)
  also have "\<dots> = [0xff, 0xff]" by (simp add: le16_def SPIFFS_OBJ_ID_FREE_def)
  finally have "mem_read m (lu_addr c b e) 2 = [0xff, 0xff]" .
  moreover have "m (lu_addr c b e + i) = mem_read m (lu_addr c b e) 2 ! i" using assms(2) by simp
  ultimately show ?thesis using assms(2) by (auto simp: less_2_cases_iff)
qed

text \<open>A write to an update address whose bytes only clear bits.\<close>

lemma update_wr:
  assumes "disk_hal (cfg fs)" "in_page (cfg fs) a (length bs)" "cache_ok (Suc n) fs" "clears a bs (flash fs)" "op \<in> {OP_T_OBJ_LU, OP_T_OBJ_DA, OP_T_OBJ_IX}"
  shows "\<exists>x. spiffs_phys_wr (op OR OP_C_UPDT) a bs fs = Some (SPIFFS_OK, fs\<lparr>cache := x, flash := mem_write a bs (flash fs)\<rparr>) \<and>
     cache_ok n (fs\<lparr>cache := x, flash := mem_write a bs (flash fs)\<rparr>)"
  using assms(5) by (intro disk_wr [OF assms(1-4)]) (auto simp: c_defs)

text \<open>The page of a free entry is erased.\<close>

definition erased_page :: "spiffs_config \<Rightarrow> mem \<Rightarrow> nat \<Rightarrow> bool" where
  "erased_page c m pix \<longleftrightarrow> (\<forall>i < log_page_size c. m (page_start c pix + i) = 0xff)"

lemma allocate_ok:
  assumes "disk_hal (cfg fs)" "lu_geom (cfg fs) (block_count fs)" "free_cursor_block_ix fs < block_count fs"
    and "cache_ok (Suc (Suc (Suc (Suc n))) + (block_count fs + 1) * SPIFFS_OBJ_LOOKUP_PAGES (cfg fs)) fs" "cleaning fs \<or> 2 \<le> free_blocks fs"
    and "free_entry fs = Some (b, e)" "erased_page (cfg fs) (flash fs) (entry_pix (cfg fs) b e)"
    and "SIZEOF_PAGE_HEADER + offs + length d \<le> log_page_size (cfg fs)" "d \<noteq> []" "bit (ph_flags ph) 1"
    and "m' = alloc_img (cfg fs) b e oid (final_header fin ph) offs d (flash fs)"
  shows "\<exists>x w. spiffs_page_allocate_data oid ph (Some d) offs fin fs =
       Some (SPIFFS_OK, final_header fin ph, Some (entry_pix (cfg fs) b e),
         (take_entry b e fs)\<lparr>cache := x, lu_work := w, flash := m', stats_p_allocated := add32 (stats_p_allocated fs) 1\<rparr>) \<and>
     cache_ok n (fs\<lparr>cache := x, flash := m'\<rparr>)"
proof -
  let ?c = "cfg fs"
  let ?pix = "entry_pix ?c b e"
  let ?ps = "page_start ?c ?pix" and ?la = "lu_addr ?c b e"
  let ?ph1 = "ph\<lparr>ph_flags := ph_flags ph AND NOT PH_FLAG_USED\<rparr>"
  note g = disk_hal_geom [OF assms(1)]
  note be = free_entry_Some [OF assms(2,3,6)]
  note a = entry_addrs [OF g assms(2) be(1,2)] and ep = entry_page [OF g assms(2) be(1,2)]
  have P: "46 \<le> log_page_size ?c" using assms(2) by (simp add: lu_geom_def SIZEOF_OBJIX_HEADER_def)
  have er: "flash fs (?ps + i) = 0xff" if "i < log_page_size ?c" for i using assms(7) that by (simp add: erased_page_def)
  have part: "in_page ?c (?ps + k) j" if "k < log_page_size ?c" "k + j \<le> log_page_size ?c" for k j
    using page_part [OF g _ that, of ?pix] ep(1,2) by simp
  obtain x0 w where f0: "spiffs_obj_lu_find_free (free_cursor_block_ix fs) (free_cursor_obj_lu_entry fs) fs =
        Some (SPIFFS_OK, Some (b, e), (take_entry b e fs)\<lparr>cache := x0, lu_work := w\<rparr>)" "cache_ok (Suc (Suc (Suc (Suc n)))) (fs\<lparr>cache := x0\<rparr>)"
    using find_free_ok [OF assms(1-5)] assms(6) by auto
  let ?f0 = "(take_entry b e fs)\<lparr>cache := x0, lu_work := w\<rparr>"
  have k0: "cache_ok (Suc (Suc (Suc (Suc n)))) ?f0" using f0(2) by (simp add: cache_ok_def)
  let ?m1 = "mem_write ?la (le16 oid) (flash fs)"
  have c1: "clears ?la (le16 oid) (flash fs)" by (rule clears_erased) (simp add: lu_id_free [OF be(3)])
  obtain x1 where f1: "spiffs_phys_wr (OP_T_OBJ_LU OR OP_C_UPDT) ?la (le16 oid) ?f0 = Some (SPIFFS_OK, ?f0\<lparr>cache := x1, flash := ?m1\<rparr>)"
      "cache_ok (Suc (Suc (Suc n))) (?f0\<lparr>cache := x1, flash := ?m1\<rparr>)"
    using update_wr [of ?f0 ?la "le16 oid" "Suc (Suc (Suc n))" OP_T_OBJ_LU] assms(1) a(2) k0 c1 by auto
  let ?f1 = "?f0\<lparr>cache := x1, flash := ?m1, stats_p_allocated := add32 (stats_p_allocated fs) 1\<rparr>"
  have k1: "cache_ok (Suc (Suc (Suc n))) ?f1" using f1(2) by (simp add: cache_ok_def)
  have e1: "?m1 (?ps + i) = 0xff" if "i < log_page_size ?c" for i using er [OF that] a(5) by (simp add: mem_write_other)
  let ?m2 = "mem_write ?ps (page_header_bytes ?ph1) ?m1"
  have c2: "clears ?ps (page_header_bytes ?ph1) ?m1" by (rule clears_erased) (use e1 P in simp)
  obtain x2 where f2: "spiffs_phys_wr (OP_T_OBJ_DA OR OP_C_UPDT) ?ps (page_header_bytes ?ph1) ?f1 = Some (SPIFFS_OK, ?f1\<lparr>cache := x2, flash := ?m2\<rparr>)"
      "cache_ok (Suc (Suc n)) (?f1\<lparr>cache := x2, flash := ?m2\<rparr>)"
    using update_wr [of ?f1 ?ps "page_header_bytes ?ph1" "Suc (Suc n)" OP_T_OBJ_DA] assms(1) part [of 0 5] P k1 c2 by auto
  let ?f2 = "?f1\<lparr>cache := x2, flash := ?m2\<rparr>"
  have k2: "cache_ok (Suc (Suc n)) ?f2" using f2(2) by (simp add: cache_ok_def)
  let ?da = "?ps + 5 + offs"
  let ?m3 = "mem_write ?da d ?m2"
  have dl: "5 + offs < log_page_size ?c" "5 + offs + length d \<le> log_page_size ?c"
    using assms(8,9) by (cases d; simp add: SIZEOF_PAGE_HEADER_def)+
  have c3: "clears ?da d ?m2"
    using e1 dl by (intro clears_erased) (simp add: mem_write_other add.assoc)
  have da: "add32 ?ps (SIZEOF_PAGE_HEADER + offs) = ?da" using a(6) dl by (simp add: SIZEOF_PAGE_HEADER_def)
  obtain x3 where f3: "spiffs_phys_wr (OP_T_OBJ_DA OR OP_C_UPDT) ?da d ?f2 = Some (SPIFFS_OK, ?f2\<lparr>cache := x3, flash := ?m3\<rparr>)"
      "cache_ok (Suc n) (?f2\<lparr>cache := x3, flash := ?m3\<rparr>)"
    using update_wr [of ?f2 ?da d "Suc n" OP_T_OBJ_DA] assms(1) part [of "5 + offs" "length d"] dl k2 c3
    by (auto simp: add.assoc)
  let ?f3 = "?f2\<lparr>cache := x3, flash := ?m3\<rparr>"
  have k3: "cache_ok (Suc n) ?f3" using f3(2) by simp
  have ok0: "\<not> SPIFFS_OK < 0" by (simp add: SPIFFS_OK_def)
  have pix: "SPIFFS_OBJ_LOOKUP_ENTRY_TO_PIX ?c b e = ?pix" using ep(1) .
  have used: "ph_flags ?ph1 AND PH_FLAG_FINAL \<noteq> 0"
  proof -
    have "bit (ph_flags ?ph1 AND PH_FLAG_FINAL) 1" using assms(10) by (simp add: c_defs bit_simps)
    then show ?thesis by (metis bit_0_eq bot_apply bot_bool_def)
  qed
  show ?thesis
  proof (cases fin)
    case False
    then have m': "m' = ?m3" "final_header fin ph = ?ph1"
      by (simp_all add: assms(11) alloc_img_def final_header_def Let_def SIZEOF_PAGE_HEADER_def)
    have "cache_ok n ?f3" using cache_ok_less [of n 1 ?f3] f3(2) by simp
    then show ?thesis
      unfolding spiffs_page_allocate_data_def m' f0(1)
      using False ok0 f1(1) f2(1) f3(1) by (intro exI [of _ x3] exI [of _ w]) (simp add: a(1,3) da pix cache_ok_def Let_def)
  next
    case True
    let ?ph2 = "?ph1\<lparr>ph_flags := ph_flags ?ph1 AND NOT PH_FLAG_FINAL\<rparr>"
    let ?m4 = "mem_write (?ps + 4) [ph_flags ?ph2] ?m3"
    have m': "m' = ?m4" "final_header fin ph = ?ph2"
      using True flags_rewrite [of ?ps "ph_flags ?ph2" offs d ?ph1 ?m1]
      by (simp_all add: assms(11) alloc_img_def final_header_def Let_def SIZEOF_PAGE_HEADER_def)
    have "?m3 (?ps + 4) = ph_flags ?ph1" by (simp add: mem_write_def page_header_bytes_def nth_append)
    then have c4: "clears (?ps + 4) [ph_flags ?ph2] ?m3" by (simp add: clears_def not_and_clears)
    obtain x4 where f4: "spiffs_phys_wr (OP_T_OBJ_DA OR OP_C_UPDT) (?ps + 4) [ph_flags ?ph2] ?f3 =
          Some (SPIFFS_OK, ?f3\<lparr>cache := x4, flash := ?m4\<rparr>)" "cache_ok n (?f3\<lparr>cache := x4, flash := ?m4\<rparr>)"
      using update_wr [of ?f3 "?ps + 4" "[ph_flags ?ph2]" n OP_T_OBJ_DA] assms(1) part [of 4 1] P k3 c4 by auto
    have fa: "add32 ?ps OFFSETOF_FLAGS = ?ps + 4" using a(6) P by (simp add: OFFSETOF_FLAGS_def)
    show ?thesis
      unfolding spiffs_page_allocate_data_def m' f0(1)
      using True used ok0 f1(1) f2(1) f3(1) f4 by (intro exI [of _ x4] exI [of _ w]) (simp add: a(1,3) da fa pix cache_ok_def Let_def)
  qed
qed

text \<open>What the image of an allocation holds.\<close>

lemma page_header_of_bytes: "ph_span_ix h < 2 ^ 16 \<Longrightarrow> page_header_of (page_header_bytes h) = h"
  by (simp add: page_header_of_def page_header_bytes_def unat_of_nat nth_append take_bit_nat_eq_self)

lemma alloc_img_at:
  assumes "geom c" "lu_geom c nb" "b < nb" "e < max_entries c" "ph_span_ix h < 2 ^ 16"
    and "m' = alloc_img c b e oid h offs d m" "ps = page_start c (entry_pix c b e)"
  shows "lu_id c m' b e = oid" "hdr_at c m' (entry_pix c b e) = h" "mem_read m' (ps + SIZEOF_PAGE_HEADER + offs) (length d) = d"
    "x < ps \<or> ps + log_page_size c \<le> x \<Longrightarrow> ps + SIZEOF_PAGE_HEADER + offs + length d \<le> ps + log_page_size c \<Longrightarrow>
     x \<noteq> lu_addr c b e \<Longrightarrow> x \<noteq> lu_addr c b e + 1 \<Longrightarrow> m' x = m x"
proof -
  have m': "m' = mem_write (ps + 5 + offs) d (mem_write ps (page_header_bytes h) (mem_write (lu_addr c b e) (le16 oid) m))"
    by (simp add: assms(6,7) alloc_img_def SIZEOF_PAGE_HEADER_def Let_def)
  have le: "lu_addr c b e + 2 \<le> ps" using entry_addrs(5) [OF assms(1-4)] assms(7) by simp
  have "mem_read m' (lu_addr c b e) 2 = mem_read (mem_write (lu_addr c b e) (le16 oid) m) (lu_addr c b e) (length (le16 oid))"
    using le unfolding m' by (intro nth_equalityI) (auto simp: mem_write_other)
  then show "lu_id c m' b e = oid" unfolding lu_id_def mem_write_same by simp
  have "mem_read m' ps 5 = mem_read (mem_write ps (page_header_bytes h) (mem_write (lu_addr c b e) (le16 oid) m)) ps (length (page_header_bytes h))"
    unfolding m' by (intro nth_equalityI) (auto simp: mem_write_other)
  then have "mem_read m' ps 5 = page_header_bytes h" unfolding mem_write_same .
  then show "hdr_at c m' (entry_pix c b e) = h"
    using page_header_of_bytes [OF assms(5)] by (simp add: hdr_at_def SIZEOF_PAGE_HEADER_def assms(7) [symmetric])
  show "mem_read m' (ps + SIZEOF_PAGE_HEADER + offs) (length d) = d" by (simp add: m' SIZEOF_PAGE_HEADER_def)
  show "x < ps \<or> ps + log_page_size c \<le> x \<Longrightarrow> ps + SIZEOF_PAGE_HEADER + offs + length d \<le> ps + log_page_size c \<Longrightarrow>
     x \<noteq> lu_addr c b e \<Longrightarrow> x \<noteq> lu_addr c b e + 1 \<Longrightarrow> m' x = m x"
    unfolding m' by (auto simp: mem_write_def SIZEOF_PAGE_HEADER_def)
qed

lemma spare_entry: "2 \<le> free_blocks fs \<Longrightarrow> free_blocks fs < 2 ^ 32 \<Longrightarrow> Suc 0 \<le> free_blocks (take_entry b e fs)"
  by (auto simp: take_entry_def)

subsection \<open>Properties\<close>

text \<open>
  C6: Deleting a page ends successfully, marks its lookup entry as deleted, clears the deletion and
  used flags of its header and leaves every other byte of the flash alone; one more page counts as
  deleted and one less as allocated, and the cache stays coherent.
\<close>

theorem page_delete_correct:
  assumes "disk_hal (cfg fs)" "lu_geom (cfg fs) nb" "b < nb" "e < max_entries (cfg fs)" "cache_ok (Suc n) fs"
  shows "\<exists>fs'. spiffs_page_delete (entry_pix (cfg fs) b e) fs = Some (SPIFFS_OK, fs') \<and> cache_ok n fs' \<and>
     lu_id (cfg fs) (flash fs') b e = SPIFFS_OBJ_ID_DELETED \<and>
     ph_flags (hdr_at (cfg fs) (flash fs') (entry_pix (cfg fs) b e)) =
       ph_flags (hdr_at (cfg fs) (flash fs) (entry_pix (cfg fs) b e)) AND NOT (PH_FLAG_DELET OR PH_FLAG_USED) \<and>
     (\<forall>x. x \<notin> {lu_addr (cfg fs) b e, lu_addr (cfg fs) b e + 1, page_start (cfg fs) (entry_pix (cfg fs) b e) + OFFSETOF_FLAGS} \<longrightarrow>
        flash fs' x = flash fs x) \<and>
     stats_p_deleted fs' = add32 (stats_p_deleted fs) 1 \<and> stats_p_allocated fs' = sub32 (stats_p_allocated fs) 1"
proof -
  obtain x where x: "spiffs_page_delete (entry_pix (cfg fs) b e) fs = Some (SPIFFS_OK, fs\<lparr>cache := x,
        flash := delete_img (cfg fs) b e (flash fs), stats_p_deleted := add32 (stats_p_deleted fs) 1,
        stats_p_allocated := sub32 (stats_p_allocated fs) 1\<rparr>)"
      "cache_ok n (fs\<lparr>cache := x, flash := delete_img (cfg fs) b e (flash fs)\<rparr>)"
    using page_delete_ok [OF assms] by blast
  have "NOT (PH_FLAG_DELET OR PH_FLAG_USED) = (0x7e :: byte)" by (simp add: c_defs)
  then show ?thesis
    unfolding x(1) using x(2) delete_img_at [OF disk_hal_geom [OF assms(1)] assms(2-4), where m = "flash fs"]
    by (simp add: cache_ok_def OFFSETOF_FLAGS_def)
qed

theorem page_delete_correct_witness:
  "\<exists>fs'. spiffs_page_delete 20 (demo_on demo_img) = Some (SPIFFS_OK, fs') \<and> cache_ok 100 fs' \<and>
     lu_id demo_cfg (flash fs') 1 3 = SPIFFS_OBJ_ID_DELETED \<and> stats_p_deleted fs' = 1"
  using page_delete_correct [of "demo_on demo_img" 4 1 3 100] demo_disk demo_ok [of 101 demo_img] by auto

text \<open>
  C5: Allocating a page while blocks are left takes the first free entry from the free cursor on.
  If its page is erased, then afterwards the entry holds the object id, the page holds the header
  with the used flag cleared (and the final flag, if asked for) and the data at the given offset,
  no byte outside of the page and the entry has changed, the page is counted, and the cache is coherent.
\<close>

theorem page_allocate_correct:
  assumes "disk_hal (cfg fs)" "lu_geom (cfg fs) (block_count fs)" "free_cursor_block_ix fs < block_count fs"
    and "cache_ok (n + 4 + (block_count fs + 1) * SPIFFS_OBJ_LOOKUP_PAGES (cfg fs)) fs" "cleaning fs \<or> 2 \<le> free_blocks fs"
    and "free_entry fs = Some (b, e)" "erased_page (cfg fs) (flash fs) (entry_pix (cfg fs) b e)"
    and "SIZEOF_PAGE_HEADER + offs + length d \<le> log_page_size (cfg fs)" "d \<noteq> []" "bit (ph_flags ph) 1" "ph_span_ix ph < 2 ^ 16"
  shows "\<exists>fs'. spiffs_page_allocate_data oid ph (Some d) offs fin fs =
       Some (SPIFFS_OK, final_header fin ph, Some (entry_pix (cfg fs) b e), fs') \<and> cache_ok n fs' \<and>
     lu_id (cfg fs) (flash fs') b e = oid \<and> hdr_at (cfg fs) (flash fs') (entry_pix (cfg fs) b e) = final_header fin ph \<and>
     mem_read (flash fs') (page_start (cfg fs) (entry_pix (cfg fs) b e) + SIZEOF_PAGE_HEADER + offs) (length d) = d \<and>
     (\<forall>x. x \<noteq> lu_addr (cfg fs) b e \<and> x \<noteq> lu_addr (cfg fs) b e + 1 \<and>
        (x < page_start (cfg fs) (entry_pix (cfg fs) b e) \<or>
         page_start (cfg fs) (entry_pix (cfg fs) b e) + log_page_size (cfg fs) \<le> x) \<longrightarrow> flash fs' x = flash fs x) \<and>
     stats_p_allocated fs' = add32 (stats_p_allocated fs) 1 \<and> free_cursor_block_ix fs' = b \<and> free_cursor_obj_lu_entry fs' = e"
proof -
  let ?m = "alloc_img (cfg fs) b e oid (final_header fin ph) offs d (flash fs)"
  have ok: "cache_ok (Suc (Suc (Suc (Suc n))) + (block_count fs + 1) * SPIFFS_OBJ_LOOKUP_PAGES (cfg fs)) fs"
    using assms(4) by (simp add: numeral_eq_Suc)
  obtain x w where x: "spiffs_page_allocate_data oid ph (Some d) offs fin fs = Some (SPIFFS_OK, final_header fin ph, Some (entry_pix (cfg fs) b e),
         (take_entry b e fs)\<lparr>cache := x, lu_work := w, flash := ?m, stats_p_allocated := add32 (stats_p_allocated fs) 1\<rparr>)"
      "cache_ok n (fs\<lparr>cache := x, flash := ?m\<rparr>)"
    using allocate_ok [OF assms(1-3) ok assms(5-10) refl] by blast
  have sp: "ph_span_ix (final_header fin ph) < 2 ^ 16" using assms(11) by (simp add: final_header_def Let_def)
  note be = free_entry_Some [OF assms(2,3,6)]
  note at = alloc_img_at [OF disk_hal_geom [OF assms(1)] assms(2) be(1,2) sp refl refl, where oid = oid and offs = offs and d = d and m = "flash fs"]
  show ?thesis
    unfolding x(1) using x(2) at(1-3) at(4) assms(8)
    by (simp add: cache_ok_def take_entry_def)
qed

lemma blank_id: "lu_id c (\<lambda>_. 0xff) b e = SPIFFS_OBJ_ID_FREE"
proof -
  have "mem_read (\<lambda>_. 0xff) (lu_addr c b e) 2 = [0xff, 0xff]" by (intro nth_equalityI) (auto simp: less_2_cases_iff)
  then show ?thesis unfolding lu_id_def by (simp only: of_le16_ff)
qed

definition demo_blank :: spiffs where
  "demo_blank = (demo_on (\<lambda>_. 0xff))\<lparr>free_blocks := 4, free_cursor_block_ix := 0, free_cursor_obj_lu_entry := 0\<rparr>"

lemma demo_blank_simps [simp]:
  "cfg demo_blank = demo_cfg" "flash demo_blank = (\<lambda>_. 0xff)" "block_count demo_blank = 4" "free_blocks demo_blank = 4"
  "free_cursor_block_ix demo_blank = 0" "free_cursor_obj_lu_entry demo_blank = 0" "n \<le> 1000000 \<Longrightarrow> cache_ok n demo_blank"
  "\<not> cleaning demo_blank" "stats_p_allocated demo_blank = 0"
  using demo_ok [of n "\<lambda>_. 0xff"]
  by (simp_all add: demo_blank_def cache_ok_def) (simp add: demo_on_def spiffs_cache_init_def demo_raw_def Let_def)

lemma demo_blank_entry: "free_entry demo_blank = Some (0, 0)"
  by (simp add: free_entry_def visitor_order_def blank_id c_defs numeral_eq_Suc upt_rec)

theorem page_allocate_correct_witness:
  "\<exists>fs'. spiffs_page_allocate_data 1 \<lparr>ph_obj_id = 1, ph_span_ix = 0, ph_flags = 0xff\<rparr> (Some [7, 8, 9]) 0 True demo_blank =
       Some (SPIFFS_OK, \<lparr>ph_obj_id = 1, ph_span_ix = 0, ph_flags = 0xfc\<rparr>, Some 1, fs') \<and> cache_ok 100 fs' \<and>
     lu_id demo_cfg (flash fs') 0 0 = 1 \<and> mem_read (flash fs') 261 3 = [7, 8, 9] \<and> stats_p_allocated fs' = 1"
proof -
  have h: "final_header True \<lparr>ph_obj_id = 1, ph_span_ix = 0, ph_flags = 0xff\<rparr> = \<lparr>ph_obj_id = 1, ph_span_ix = 0, ph_flags = 0xfc\<rparr>"
    by (simp add: final_header_def c_defs)
  show ?thesis
    using page_allocate_correct [of demo_blank 100 0 0 0 "[7, 8, 9]" "\<lparr>ph_obj_id = 1, ph_span_ix = 0, ph_flags = 0xff\<rparr>" 1 True]
      demo_disk demo_blank_entry
    by (auto simp: h erased_page_def SIZEOF_PAGE_HEADER_def page_start_def numeral_3_eq_3)
qed

text \<open>
  C8: Looking for a free page outside of a cleaning run always ends and never gives away the last
  free block: with fewer than two free blocks it first tries the quick garbage collector and then
  answers \<open>SPIFFS_ERR_FULL\<close>; whenever it hands out an entry, at least one free block is left, and
  when it fails no free block was lost.
\<close>

theorem find_free_keeps_spare_block:
  assumes "disk_hal (cfg fs)" "lu_geom (cfg fs) (block_count fs)" "erase_geom (cfg fs)" "free_cursor_block_ix fs < block_count fs"
    and "cache_ok (n + (block_count fs + 1) * SPIFFS_OBJ_LOOKUP_PAGES (cfg fs) + block_count fs * SPIFFS_OBJ_LOOKUP_PAGES (cfg fs)) fs"
    and "\<not> cleaning fs" "free_blocks fs < 2 ^ 32"
  shows "\<exists>res loc fs'. spiffs_obj_lu_find_free (free_cursor_block_ix fs) (free_cursor_obj_lu_entry fs) fs = Some (res, loc, fs') \<and>
     cache_ok n fs' \<and> (res = SPIFFS_OK \<longrightarrow> 1 \<le> free_blocks fs') \<and> (res \<noteq> SPIFFS_OK \<longrightarrow> free_blocks fs \<le> free_blocks fs')"
proof (cases "2 \<le> free_blocks fs")
  case True
  have "cache_ok (n + block_count fs * SPIFFS_OBJ_LOOKUP_PAGES (cfg fs) + (block_count fs + 1) * SPIFFS_OBJ_LOOKUP_PAGES (cfg fs)) fs"
    using assms(5) by (simp only: ac_simps)
  then obtain x w loc where f: "spiffs_obj_lu_find_free (free_cursor_block_ix fs) (free_cursor_obj_lu_entry fs) fs =
      (case free_entry fs of
         None \<Rightarrow> Some (SPIFFS_ERR_NOT_FOUND, loc, fs\<lparr>cache := x, lu_work := w\<rparr>)
       | Some (b, e) \<Rightarrow> Some (SPIFFS_OK, Some (b, e), (take_entry b e fs)\<lparr>cache := x, lu_work := w\<rparr>))"
      "cache_ok (n + block_count fs * SPIFFS_OBJ_LOOKUP_PAGES (cfg fs)) (fs\<lparr>cache := x\<rparr>)"
    using find_free_ok [OF assms(1,2,4)] True by blast
  have "cache_ok n (fs\<lparr>cache := x\<rparr>)" using f(2) by (rule cache_ok_less)
  then show ?thesis
    using True assms(7) unfolding f(1)
    by (auto simp: spare_entry c_defs cache_ok_def split: option.splits)
next
  case False
  let ?L = "SPIFFS_OBJ_LOOKUP_PAGES (cfg fs)" and ?nb = "block_count fs"
  let ?hit = "find (quick_block (cfg fs) (flash fs) 0) [0..<?nb]"
  let ?find = "spiffs_obj_lu_find_free (free_cursor_block_ix fs) (free_cursor_obj_lu_entry fs)"
  obtain x w where q: "spiffs_gc_quick 0 fs =
        Some (case ?hit of None \<Rightarrow> SPIFFS_ERR_NO_DELETED_BLOCKS | Some _ \<Rightarrow> SPIFFS_OK, (quick_post fs ?hit)\<lparr>cache := x, lu_work := w\<rparr>)"
      "cache_ok (n + (?nb + 1) * ?L) ((quick_post fs ?hit)\<lparr>cache := x, lu_work := w\<rparr>)"
    using gc_quick_blocks_ok [OF assms(1-3) _ assms(5) refl, of 0 0] by (auto simp: spiffs_gc_quick_def)
  let ?f = "(quick_post fs ?hit)\<lparr>cache := x, lu_work := w\<rparr>"
  have fr: "cfg ?f = cfg fs" "block_count ?f = ?nb" "free_cursor_block_ix ?f = free_cursor_block_ix fs"
      "free_cursor_obj_lu_entry ?f = free_cursor_obj_lu_entry fs" "cleaning ?f = cleaning fs" "free_blocks fs \<le> free_blocks ?f"
      "free_blocks ?f < 2 ^ 32"
    using False by (simp_all add: quick_post_def split: option.splits)
  show ?thesis
  proof (cases "2 \<le> free_blocks ?f")
    case room: True
    have "?find fs = ?find ?f"
      unfolding spiffs_obj_lu_find_free_def q(1) using False assms(6) room fr(5) by (simp add: c_defs split: option.splits)
    moreover obtain y v loc where "?find ?f =
      (case free_entry ?f of
         None \<Rightarrow> Some (SPIFFS_ERR_NOT_FOUND, loc, ?f\<lparr>cache := y, lu_work := v\<rparr>)
       | Some (b, e) \<Rightarrow> Some (SPIFFS_OK, Some (b, e), (take_entry b e ?f)\<lparr>cache := y, lu_work := v\<rparr>))"
      "cache_ok n (?f\<lparr>cache := y\<rparr>)"
      using find_free_ok [of ?f n, unfolded fr(1-4)] assms(1,2,4) q(2) room by blast
    ultimately show ?thesis
      using room fr(6,7) by (auto simp: spare_entry c_defs cache_ok_def split: option.splits)
  next
    case full: False
    then have "?find fs = Some (SPIFFS_ERR_FULL, None, ?f)"
      unfolding spiffs_obj_lu_find_free_def q(1) using False assms(6) by (simp add: c_defs split: option.splits)
    then show ?thesis using q(2) fr(6) cache_ok_less [of n _ ?f] by (simp add: c_defs)
  qed
qed


theorem find_free_keeps_spare_block_witness:
  "\<exists>res loc fs'. spiffs_obj_lu_find_free 0 0 demo_blank = Some (res, loc, fs') \<and> cache_ok 100 fs' \<and>
     (res = SPIFFS_OK \<longrightarrow> 1 \<le> free_blocks fs') \<and> (res \<noteq> SPIFFS_OK \<longrightarrow> 4 \<le> free_blocks fs')"
  using find_free_keeps_spare_block [of demo_blank 100] demo_disk demo_erase_geom by simp

end
