(* ===== verification/Spiffs_Frame.thy ===== *)
theory Spiffs_Frame
  imports Spiffs_Alloc
begin

section \<open>SPIFFS: invariants of all operations\<close>

text \<open>
  Partial-correctness triples for the option monad of the model, and a locale for state
  predicates that do not look at the parts every operation may change. The lemmas of the locale
  show once that each operation, for any behaviour of the flash callbacks and on every error
  path, keeps such a predicate. Its interpretations are in \<open>Spiffs_Session\<close>.
\<close>

subsection \<open>Triples\<close>

definition holds :: "'a option \<Rightarrow> ('a \<Rightarrow> bool) \<Rightarrow> bool" where
  "holds m Q \<longleftrightarrow> (\<forall>x. m = Some x \<longrightarrow> Q x)"

lemma holds_None [simp]: "holds None Q" and holds_Some [simp]: "holds (Some x) Q \<longleftrightarrow> Q x"
  by (simp_all add: holds_def)

lemma holds_if: "(c \<Longrightarrow> holds a Q) \<Longrightarrow> (\<not> c \<Longrightarrow> holds b Q) \<Longrightarrow> holds (if c then a else b) Q"
  by simp

lemma holds_case_option:
  "(x = None \<Longrightarrow> holds a Q) \<Longrightarrow> (\<And>y. x = Some y \<Longrightarrow> holds (f y) Q) \<Longrightarrow> holds (case x of None \<Rightarrow> a | Some y \<Rightarrow> f y) Q"
  by (cases x) simp_all

lemma holds_case_prod: "(\<And>a b. x = (a, b) \<Longrightarrow> holds (f a b) Q) \<Longrightarrow> holds (case x of (a, b) \<Rightarrow> f a b) Q"
  by (cases x) simp

lemma holds_bind_any: "(\<And>x. m = Some x \<Longrightarrow> holds (f x) Q) \<Longrightarrow> holds (m \<bind> f) Q"
  by (auto simp: holds_def bind_eq_Some_conv)

lemma holds_bind: "holds m P \<Longrightarrow> (\<And>x. P x \<Longrightarrow> holds (f x) Q) \<Longrightarrow> holds (m \<bind> f) Q"
  by (auto simp: holds_def bind_eq_Some_conv)

lemma holds_map_option: "holds m (\<lambda>x. Q (f x)) \<Longrightarrow> holds (map_option f m) Q"
  by (auto simp: holds_def)

lemma holdsD: "holds m Q \<Longrightarrow> m = Some x \<Longrightarrow> Q x"
  by (simp add: holds_def)

text \<open>The outcomes of a part of a loop body.\<close>

primrec flow_holds :: "('r \<Rightarrow> bool) \<Rightarrow> ('a \<Rightarrow> bool) \<Rightarrow> ('r, 'a) flow \<Rightarrow> bool" where
  "flow_holds R P (Return x) = R x"
| "flow_holds R P (Break s) = P s"
| "flow_holds R P (Continue s) = P s"

lemma holds_flow:
  "holds m (flow_holds R P) \<Longrightarrow> (\<And>x. R x \<Longrightarrow> holds (f (Return x)) Q) \<Longrightarrow> (\<And>s. P s \<Longrightarrow> holds (f (Break s)) Q) \<Longrightarrow>
   (\<And>s. P s \<Longrightarrow> holds (f (Continue s)) Q) \<Longrightarrow> holds (m \<bind> f) Q"
  by (erule holds_bind) (metis flow_holds.simps flow.exhaust)

text \<open>A visitor that keeps a predicate.\<close>

definition keeps_v :: "(spiffs \<Rightarrow> bool) \<Rightarrow> 'u visitor option \<Rightarrow> bool" where
  "keeps_v I v \<longleftrightarrow> (\<forall>f id b e u fs. v = Some f \<longrightarrow> I fs \<longrightarrow> holds (f id b e u fs) (\<lambda>(a, b, fs). I fs))"

subsection \<open>Predicates every operation keeps\<close>

locale spiffs_inv =
  fixes I :: "spiffs \<Rightarrow> bool"
  assumes I_cache [simp]: "I (fs\<lparr>cache := x\<rparr>) = I fs"
    and I_flash [simp]: "I (fs\<lparr>flash := m\<rparr>) = I fs"
    and I_lu_work [simp]: "I (fs\<lparr>lu_work := w\<rparr>) = I fs"
    and I_work [simp]: "I (fs\<lparr>work := w\<rparr>) = I fs"
    and I_free_blocks [simp]: "I (fs\<lparr>free_blocks := n\<rparr>) = I fs"
    and I_stats_p_allocated [simp]: "I (fs\<lparr>stats_p_allocated := n\<rparr>) = I fs"
    and I_stats_p_deleted [simp]: "I (fs\<lparr>stats_p_deleted := n\<rparr>) = I fs"
    and I_max_erase_count [simp]: "I (fs\<lparr>max_erase_count := e\<rparr>) = I fs"
    and I_free_cursor_block_ix [simp]: "I (fs\<lparr>free_cursor_block_ix := n\<rparr>) = I fs"
    and I_free_cursor_obj_lu_entry [simp]: "I (fs\<lparr>free_cursor_obj_lu_entry := n\<rparr>) = I fs"
    and I_cursor_block_ix [simp]: "I (fs\<lparr>cursor_block_ix := n\<rparr>) = I fs"
    and I_cursor_obj_lu_entry [simp]: "I (fs\<lparr>cursor_obj_lu_entry := n\<rparr>) = I fs"
    and I_cleaning [simp]: "I (fs\<lparr>cleaning := b\<rparr>) = I fs"
    and I_err_code [simp]: "I (fs\<lparr>err_code := r\<rparr>) = I fs"
    and I_fd_map: "I fs \<Longrightarrow> (\<And>f. file_nbr (g f) = file_nbr f \<or> file_nbr (g f) = 0) \<Longrightarrow>
       I (fs\<lparr>fd_space := map g (fd_space fs)\<rparr>)"
    and I_upd_fd: "I fs \<Longrightarrow> (\<And>f. file_nbr (g f) \<in> {file_nbr f, 0, s16_of (i + 1)}) \<Longrightarrow> I (upd_fd i g fs)"
begin

text \<open>The rules for binding a call that returns the new state as its last component.\<close>

lemma bind1: "holds m I \<Longrightarrow> (\<And>fs. I fs \<Longrightarrow> holds (f fs) Q) \<Longrightarrow> holds (m \<bind> f) Q"
  by (rule holds_bind)

lemma bind2: "holds m (\<lambda>(a, fs). I fs) \<Longrightarrow> (\<And>a fs. I fs \<Longrightarrow> holds (f a fs) Q) \<Longrightarrow> holds (m \<bind> (\<lambda>(a, fs). f a fs)) Q"
  by (erule holds_bind) auto

lemma bind3:
  "holds m (\<lambda>(a, b, fs). I fs) \<Longrightarrow> (\<And>a b fs. I fs \<Longrightarrow> holds (f a b fs) Q) \<Longrightarrow> holds (m \<bind> (\<lambda>(a, b, fs). f a b fs)) Q"
  by (erule holds_bind) auto

lemma bind4:
  "holds m (\<lambda>(a, b, c, fs). I fs) \<Longrightarrow> (\<And>a b c fs. I fs \<Longrightarrow> holds (f a b c fs) Q) \<Longrightarrow>
   holds (m \<bind> (\<lambda>(a, b, c, fs). f a b c fs)) Q"
  by (erule holds_bind) auto

lemma bind5:
  "holds m (\<lambda>(a, b, c, d, fs). I fs) \<Longrightarrow> (\<And>a b c d fs. I fs \<Longrightarrow> holds (f a b c d fs) Q) \<Longrightarrow>
   holds (m \<bind> (\<lambda>(a, b, c, d, fs). f a b c d fs)) Q"
  by (erule holds_bind) auto

text \<open>A call that returns a pair of counters as well.\<close>

lemma bind3_pair:
  "holds m (\<lambda>(a, b, fs). I fs) \<Longrightarrow> (\<And>a b c fs. I fs \<Longrightarrow> holds (f a b c fs) Q) \<Longrightarrow>
   holds (m \<bind> (\<lambda>(a, (b, c), fs). f a b c fs)) Q"
  by (erule holds_bind) auto

lemmas wp = bind3_pair bind5 bind4 bind3 bind2 bind1 holds_if holds_case_option holds_case_prod holds_bind_any

lemma I_upd_fd_same [simp]: "I fs \<Longrightarrow> (\<And>f. file_nbr (g f) = file_nbr f) \<Longrightarrow> I (upd_fd i g fs)"
  by (rule I_upd_fd) simp_all

subsubsection \<open>The cache\<close>

lemma I_page_get: "I fs \<Longrightarrow> holds (spiffs_cache_page_get pix fs) (\<lambda>(a, fs). I fs)"
  unfolding spiffs_cache_page_get_def by ((rule wp | simp)+)

lemma I_page_free: "I fs \<Longrightarrow> holds (spiffs_cache_page_free ix wb fs) (\<lambda>(a, fs). I fs)"
  unfolding spiffs_cache_page_free_def Let_def by ((rule wp | simp)+)

lemma I_remove_oldest: "I fs \<Longrightarrow> holds (spiffs_cache_page_remove_oldest fm fl fs) (\<lambda>(a, fs). I fs)"
  unfolding spiffs_cache_page_remove_oldest_def by ((rule wp I_page_free | simp)+)

lemma I_page_allocate: "I fs \<Longrightarrow> holds (spiffs_cache_page_allocate fs) (\<lambda>(a, fs). I fs)"
  unfolding spiffs_cache_page_allocate_def Let_def by ((rule wp | simp)+)

lemma I_drop_page: "I fs \<Longrightarrow> holds (spiffs_cache_drop_page pix fs) I"
  unfolding spiffs_cache_drop_page_def
  by ((rule wp I_page_get holds_map_option | simp)+) (use I_page_free in \<open>auto simp: holds_def\<close>)

lemmas cache_ops = I_page_get I_page_free I_remove_oldest I_page_allocate I_drop_page

lemma I_phys_rd: "I fs \<Longrightarrow> holds (spiffs_phys_rd op addr len fs) (\<lambda>(a, b, fs). I fs)"
  unfolding spiffs_phys_rd_def Let_def by ((rule cache_ops wp | simp)+)

lemma I_hal_wr: "I fs \<Longrightarrow> holds (hal_wr addr src fs) (\<lambda>(a, fs). I fs)"
  unfolding hal_wr_def by ((rule wp | simp)+)

lemma I_phys_wr: "I fs \<Longrightarrow> holds (spiffs_phys_wr op addr src fs) (\<lambda>(a, fs). I fs)"
  unfolding spiffs_phys_wr_def Let_def by ((rule cache_ops I_hal_wr wp | simp)+)

lemmas phys_ops = I_phys_rd I_phys_wr

subsubsection \<open>Lookup\<close>

lemma I_lu_load: "I fs \<Longrightarrow> holds (lu_load addr fs) (\<lambda>(a, fs). I fs)"
  unfolding lu_load_def by ((rule phys_ops wp | simp)+)

lemma I_work_load: "I fs \<Longrightarrow> holds (work_load op addr fs) (\<lambda>(a, fs). I fs)"
  unfolding work_load_def by ((rule phys_ops wp | simp)+)

lemma I_rd_id: "I fs \<Longrightarrow> holds (rd_id op addr fs) (\<lambda>(a, b, fs). I fs)"
  unfolding rd_id_def by ((rule phys_ops wp | simp)+)

lemma I_rd_header: "I fs \<Longrightarrow> holds (rd_header op addr fs) (\<lambda>(a, b, fs). I fs)"
  unfolding rd_header_def by ((rule phys_ops wp | simp)+)

lemmas load_ops = phys_ops I_lu_load I_work_load I_rd_id I_rd_header

lemma I_data_check: "I fs \<Longrightarrow> holds (spiffs_page_data_check fd pix spix fs) (\<lambda>(a, fs). I fs)"
  unfolding spiffs_page_data_check_def Let_def by ((rule load_ops wp | simp)+)

lemma I_index_check: "I fs \<Longrightarrow> holds (spiffs_page_index_check fd pix spix fs) (\<lambda>(a, fs). I fs)"
  unfolding spiffs_page_index_check_def Let_def by ((rule load_ops wp | simp)+)

lemma I_phys_cpy: "I fs \<Longrightarrow> holds (spiffs_phys_cpy dst src len fs) (\<lambda>(a, fs). I fs)"
proof (induction dst src len fs rule: spiffs_phys_cpy.induct)
  case (1 dst src len fs)
  let ?k = "min SPIFFS_COPY_BUFFER_STACK len"
  show ?case
  proof (cases "len = 0")
    case True
    then show ?thesis using 1 by (simp add: spiffs_phys_cpy.simps)
  next
    case False
    have "I fs2" if "spiffs_phys_rd (OP_T_OBJ_DA OR OP_C_MOVS) src ?k fs = Some (r, b, fs2)" for r b fs2
      using holdsD [OF I_phys_rd [OF "1.prems"] that] by simp
    moreover have "I fs3" if "spiffs_phys_wr op a b fs2 = Some (r, fs3)" "I fs2" for op a b fs2 r fs3
      using holdsD [OF I_phys_wr that(1)] that(2) by simp
    ultimately show ?thesis
      using False "1.IH" [OF False refl]
      by (subst spiffs_phys_cpy.simps) (simp add: Let_def split: option.split)
  qed
qed

text \<open>The visitor.\<close>

lemma I_visit_entries:
  "keeps_v I (va_v va) \<Longrightarrow> I (vis_fs s) \<Longrightarrow>
   holds (visit_entries va blk addr off es s) (flow_holds (\<lambda>(a, s). I (vis_fs s)) (\<lambda>s. I (vis_fs s)))"
proof (induction es arbitrary: s)
  case (Cons e es)
  note v = Cons.prems(1) [unfolded keeps_v_def, rule_format]
  show ?case unfolding visit_entries.simps Let_def
    by ((rule Cons.IH [OF Cons.prems(1)] I_lu_load v wp | simp add: Cons.prems)+)
qed simp

lemma I_visit_pages:
  "keeps_v I (va_v va) \<Longrightarrow> I (vis_fs s) \<Longrightarrow>
   holds (visit_pages va blk addr ps e s) (flow_holds (\<lambda>(a, s). I (vis_fs s)) (\<lambda>(a, s). I (vis_fs s)))"
proof (induction ps arbitrary: e s)
  case (Cons p ps)
  show ?case unfolding visit_pages.simps Let_def
    by ((rule Cons.IH [OF Cons.prems(1)] I_lu_load holds_flow [OF I_visit_entries] wp | simp add: Cons.prems)+)
qed simp

lemma I_visit_blocks:
  "keeps_v I (va_v va) \<Longrightarrow> I (vis_fs s) \<Longrightarrow> holds (visit_blocks n va blk addr e s) (\<lambda>(a, s). I (vis_fs s))"
proof (induction n arbitrary: blk addr e s)
  case (Suc n)
  show ?case unfolding visit_blocks.simps Let_def
    by ((rule holds_flow [OF I_visit_pages [OF Suc.prems(1)]] Suc.IH [OF Suc.prems(1)] wp |
        clarsimp simp: Suc.prems simp del: visit_blocks.simps split del: if_split)+)
qed simp

lemma I_visitor:
  "keeps_v I v \<Longrightarrow> I fs \<Longrightarrow> holds (spiffs_obj_lu_find_entry_visitor sb se flags oid v u fs) (\<lambda>(a, b, c, fs). I fs)"
  unfolding spiffs_obj_lu_find_entry_visitor_def Let_def
  by (rule holds_if, simp, rule holds_bind, rule I_visit_blocks) auto

text \<open>Erasing and scanning blocks.\<close>

lemma I_erase_loop: "I fs \<Longrightarrow> holds (erase_loop n addr sz fs) I"
  by (induction n addr sz fs rule: erase_loop.induct) (auto intro!: holds_bind_any)

lemma I_erase_block: "I fs \<Longrightarrow> holds (spiffs_erase_block bix fs) (\<lambda>(a, fs). I fs)"
  unfolding spiffs_erase_block_def Let_def by ((rule I_erase_loop phys_ops wp | simp)+)

lemma I_drop_pages: "I fs \<Longrightarrow> holds (drop_pages ps fs) I"
  by (induction ps arbitrary: fs) (auto intro!: bind1 I_drop_page)

lemma I_gc_erase_block: "I fs \<Longrightarrow> holds (spiffs_gc_erase_block bix fs) (\<lambda>(a, fs). I fs)"
  unfolding spiffs_gc_erase_block_def by ((rule I_erase_block I_drop_pages wp | simp)+)

lemma I_scan_pages: "I fs \<Longrightarrow> holds (scan_pages step addr ps a fs) (\<lambda>(a, b, fs). I fs)"
proof (induction ps arbitrary: a fs)
  case (Cons p ps)
  show ?case unfolding scan_pages.simps Let_def
    by ((rule I_lu_load wp | simp add: Cons)+)
qed simp

lemma I_scan_block: "I fs \<Longrightarrow> holds (scan_block step addr a fs) (\<lambda>(a, b, fs). I fs)"
  unfolding scan_block_def by (rule I_scan_pages)

lemma I_gc_quick_blocks: "I fs \<Longrightarrow> holds (gc_quick_blocks k mf b addr fs) (\<lambda>(a, fs). I fs)"
proof (induction k arbitrary: b addr fs)
  case (Suc k)
  show ?case unfolding gc_quick_blocks.simps Let_def
    by ((rule I_gc_erase_block I_scan_block wp | simp add: Suc)+)
qed simp

lemma I_gc_quick: "I fs \<Longrightarrow> holds (spiffs_gc_quick mf fs) (\<lambda>(a, fs). I fs)"
  unfolding spiffs_gc_quick_def by (rule I_gc_quick_blocks)

lemma I_find_id: "I fs \<Longrightarrow> holds (spiffs_obj_lu_find_id sb se oid fs) (\<lambda>(a, b, fs). I fs)"
  unfolding spiffs_obj_lu_find_id_def by ((rule I_visitor wp | simp add: keeps_v_def)+)

lemma I_find_free: "I fs \<Longrightarrow> holds (spiffs_obj_lu_find_free sb se fs) (\<lambda>(a, b, fs). I fs)"
  unfolding spiffs_obj_lu_find_free_def Let_def by ((rule I_find_id I_gc_quick wp | simp)+)

lemma keeps_span_v: "keeps_v I (Some (spiffs_obj_lu_find_id_and_span_v ex))"
  unfolding keeps_v_def spiffs_obj_lu_find_id_and_span_v_def Let_def
  by (clarsimp, (rule load_ops wp | simp)+)

lemma I_find_span_with: "I fs \<Longrightarrow> holds (find_span_with fl oid spix ex fs) (\<lambda>(a, b, fs). I fs)"
  unfolding find_span_with_def Let_def by ((rule I_visitor keeps_span_v wp | simp)+)

lemma I_find_id_and_span: "I fs \<Longrightarrow> holds (spiffs_obj_lu_find_id_and_span oid spix ex fs) (\<lambda>(a, b, fs). I fs)"
  unfolding spiffs_obj_lu_find_id_and_span_def by (rule I_find_span_with)

lemma keeps_scan_v: "keeps_v I (Some spiffs_obj_lu_scan_v)"
  by (simp add: keeps_v_def spiffs_obj_lu_scan_v_def)

lemma I_lu_scan_blocks: "I fs \<Longrightarrow> holds (lu_scan_blocks bs x mi ma fs) (\<lambda>(a, b, c, d, fs). I fs)"
proof (induction bs arbitrary: x mi ma fs)
  case (Cons b bs)
  show ?case unfolding lu_scan_blocks.simps Let_def by ((rule Cons.IH load_ops wp | simp add: Cons.prems)+)
qed simp

lemma I_lu_scan: "I fs \<Longrightarrow> holds (spiffs_obj_lu_scan fs) (\<lambda>(a, fs). I fs)"
  unfolding spiffs_obj_lu_scan_def Let_def
  by ((rule I_lu_scan_blocks I_erase_block I_visitor keeps_scan_v wp | simp)+)

lemmas lookup_ops = load_ops I_find_id I_find_free I_find_id_and_span I_phys_cpy I_data_check I_index_check

subsubsection \<open>Pages and descriptors\<close>

lemma I_event [simp]: "I fs \<Longrightarrow> I (spiffs_cb_object_event ev oid spix pix sz fs)"
  unfolding spiffs_cb_object_event_def by (rule I_fd_map) (auto simp: fd_event_def Let_def)

lemma I_set_work_flags [simp]: "I (set_work_flags b fs) = I fs"
  by (simp add: set_work_flags_def)

lemma I_work_put: "I fs \<Longrightarrow> holds (work_put off bs fs) I"
  unfolding work_put_def by ((rule wp | simp)+)

lemma I_wr_work: "I fs \<Longrightarrow> holds (wr_work op pix fs) (\<lambda>(a, fs). I fs)"
  unfolding wr_work_def by ((rule phys_ops wp | simp)+)

lemma I_objix_put: "I fs \<Longrightarrow> holds (objix_put a b c fs) I"
  unfolding objix_put_def by ((rule wp | simp)+)

lemmas work_ops = lookup_ops I_work_put I_wr_work I_objix_put

lemma I_page_allocate_data:
  "I fs \<Longrightarrow> holds (spiffs_page_allocate_data oid ph d offs fin fs) (\<lambda>(a, b, c, fs). I fs)"
  unfolding spiffs_page_allocate_data_def Let_def by ((rule work_ops wp | simp)+)

lemma I_page_delete: "I fs \<Longrightarrow> holds (spiffs_page_delete pix fs) (\<lambda>(a, fs). I fs)"
  unfolding spiffs_page_delete_def Let_def by ((rule work_ops wp | simp)+)

lemma I_page_move: "I fs \<Longrightarrow> holds (spiffs_page_move pd oid src fs) (\<lambda>(a, b, fs). I fs)"
  unfolding spiffs_page_move_def Let_def by ((rule I_page_delete work_ops wp | simp)+)

lemma I_update_index_hdr:
  "I fs \<Longrightarrow> holds (spiffs_object_update_index_hdr fd oid pix nw nm sz fs) (\<lambda>(a, b, fs). I fs)"
  unfolding spiffs_object_update_index_hdr_def Let_def
  by ((rule I_page_move work_ops wp | simp split: option.split)+)

lemmas page_ops = work_ops I_page_allocate_data I_page_delete I_page_move I_update_index_hdr

lemma I_fd_find_new: "spiffs_fd_find_new fs = (r, x, fs') \<Longrightarrow> I fs \<Longrightarrow> I fs'"
  by (auto simp: spiffs_fd_find_new_def intro!: I_upd_fd split: option.splits)

lemma I_fd_return [simp]: "I fs \<Longrightarrow> I (snd (spiffs_fd_return f fs))"
  by (auto simp: spiffs_fd_return_def intro!: I_upd_fd)

lemma I_fd_return_eq: "spiffs_fd_return f fs = (r, fs') \<Longrightarrow> I fs \<Longrightarrow> I fs'"
  using I_fd_return [of fs f] by simp

subsubsection \<open>The garbage collector\<close>

lemma I_gc_erase_page_stats: "I fs \<Longrightarrow> holds (spiffs_gc_erase_page_stats bix fs) (\<lambda>(a, fs). I fs)"
  unfolding spiffs_gc_erase_page_stats_def by ((rule I_scan_block wp | simp)+)

lemma I_find_candidate_blocks:
  "I fs \<Longrightarrow> holds (find_candidate_blocks k cr b addr cs n fs) (\<lambda>(a, b, c, fs). I fs)"
proof (induction k arbitrary: b addr cs n fs)
  case (Suc k)
  show ?case unfolding find_candidate_blocks.simps Let_def
    by ((rule Suc.IH I_scan_block load_ops wp | simp add: Suc.prems)+)
qed simp

lemma I_gc_find_candidate: "I fs \<Longrightarrow> holds (spiffs_gc_find_candidate cr fs) (\<lambda>(a, b, c, fs). I fs)"
  unfolding spiffs_gc_find_candidate_def by ((rule I_find_candidate_blocks wp | simp)+)

text \<open>The cleaner; its loop bodies either return or go on with the locals.\<close>

lemma I_gc_move_data:
  "I (gl_fs s) \<Longrightarrow> holds (gc_move_data addr oid s) (flow_holds (\<lambda>(a, fs). I fs) (\<lambda>s. I (gl_fs s)))"
  unfolding gc_move_data_def Let_def by ((rule page_ops wp | simp)+)

lemma I_gc_move_ix:
  "I (gl_fs s) \<Longrightarrow> holds (gc_move_ix addr oid s) (flow_holds (\<lambda>(a, fs). I fs) (\<lambda>s. I (gl_fs s)))"
  unfolding gc_move_ix_def Let_def by ((rule page_ops wp | simp)+)

lemma I_gc_entry:
  "I (gl_fs s) \<Longrightarrow> holds (gc_entry bix addr off e s) (flow_holds (\<lambda>(a, fs). I fs) (\<lambda>s. I (gl_fs s)))"
  unfolding gc_entry_def Let_def
  by ((rule holds_flow [where R = "\<lambda>(a, fs). I fs" and P = "\<lambda>s. I (gl_fs s)"] wp |
       simp add: I_gc_move_data I_gc_move_ix gc_find_data_def split: spiffs_gc_clean_state.split)+)

lemma I_gc_entries:
  "I (gl_fs s) \<Longrightarrow> holds (gc_entries bix addr off es s) (flow_holds (\<lambda>(a, fs). I fs) (\<lambda>s. I (gl_fs s)))"
proof (induction es arbitrary: s)
  case (Cons e es)
  show ?case unfolding gc_entries.simps by ((rule Cons.IH holds_flow [OF I_gc_entry] holds_if | simp add: Cons.prems)+)
qed simp

lemma I_gc_pages:
  "I (gl_fs s) \<Longrightarrow> holds (gc_pages bix ps s) (flow_holds (\<lambda>(a, fs). I fs) (\<lambda>s. I (gl_fs s)))"
proof (induction ps arbitrary: s)
  case (Cons p ps)
  show ?case unfolding gc_pages.simps Let_def
    by ((rule Cons.IH holds_flow [OF I_gc_entries] I_lu_load holds_if bind2 | simp add: Cons.prems)+)
qed simp

lemma I_gc_find_done: "I (gl_fs s) \<Longrightarrow> holds (gc_find_done s) (flow_holds (\<lambda>(a, fs). I fs) (\<lambda>s. I (gl_fs s)))"
  unfolding gc_find_done_def Let_def by ((rule page_ops wp | simp)+)

lemma I_gc_move_done: "I (gl_fs s) \<Longrightarrow> holds (gc_move_done s) (flow_holds (\<lambda>(a, fs). I fs) (\<lambda>s. I (gl_fs s)))"
  unfolding gc_move_done_def Let_def by ((rule page_ops wp | simp)+)

lemma I_gc_switch: "I (gl_fs s) \<Longrightarrow> holds (gc_switch s) (flow_holds (\<lambda>(a, fs). I fs) (\<lambda>s. I (gl_fs s)))"
  unfolding gc_switch_def by (cases "gc_state (gl_gc s)") (simp_all add: I_gc_find_done I_gc_move_done)

lemma I_gc_clean_loop: "I (gl_fs s) \<Longrightarrow> holds (gc_clean_loop n bix s) (\<lambda>(a, fs). I fs)"
proof (induction n arbitrary: s)
  case (Suc n)
  show ?case unfolding gc_clean_loop.simps Let_def
    by ((rule Suc.IH holds_flow [OF I_gc_pages] holds_flow [OF I_gc_switch] holds_if |
        simp add: Suc.prems split del: if_split)+)
qed simp

lemma I_gc_clean: "I fs \<Longrightarrow> holds (spiffs_gc_clean bix fs) (\<lambda>(a, fs). I fs)"
  unfolding spiffs_gc_clean_def Let_def by (rule I_gc_clean_loop) simp

lemma I_gc_check_runs:
  "I fs \<Longrightarrow> holds (gc_check_runs n len np fp fs) (flow_holds (\<lambda>(a, fs). I fs) (\<lambda>(a, fs). I fs))"
proof (induction n arbitrary: fp fs)
  case (Suc n)
  show ?case unfolding gc_check_runs.simps Let_def
    by ((rule Suc.IH I_gc_find_candidate I_gc_clean I_gc_erase_page_stats I_gc_erase_block wp | simp add: Suc.prems)+)
qed simp

lemma I_gc_check: "I fs \<Longrightarrow> holds (spiffs_gc_check len fs) (\<lambda>(a, fs). I fs)"
  unfolding spiffs_gc_check_def Let_def by ((rule holds_flow [OF I_gc_check_runs] holds_if | clarsimp)+)

subsubsection \<open>Objects\<close>

lemma I_object_create: "I fs \<Longrightarrow> holds (spiffs_object_create oid nm t fs) (\<lambda>(a, b, fs). I fs)"
  unfolding spiffs_object_create_def Let_def by ((rule I_gc_check page_ops wp | simp)+)

lemma I_open_by_page: "I fs \<Longrightarrow> holds (spiffs_object_open_by_page pix fd fl fs) (\<lambda>(a, fs). I fs)"
  unfolding spiffs_object_open_by_page_def Let_def by ((rule page_ops wp | simp)+)

lemma I_load_objix: "I fs \<Longrightarrow> holds (load_objix fd pix spix fs) (\<lambda>(a, fs). I fs)"
  unfolding load_objix_def Let_def by ((rule page_ops wp | simp)+)

lemma I_find_objix_pix: "I fs \<Longrightarrow> holds (find_objix_pix fd spix fs) (\<lambda>(a, b, fs). I fs)"
  unfolding find_objix_pix_def by ((rule page_ops wp | simp)+)

lemmas objix_ops = page_ops I_load_objix I_find_objix_pix

lemma I_append_store_prev: "I (ol_fs s) \<Longrightarrow> holds (append_store_prev fd offs s) (\<lambda>(a, fs). I fs)"
  unfolding append_store_prev_def Let_def by ((rule objix_ops wp | simp)+)

lemma I_append_load_index: "I (ol_fs s) \<Longrightarrow> holds (append_load_index fd offs s) (\<lambda>(a, b, fs). I fs)"
  unfolding append_load_index_def Let_def by ((rule objix_ops wp | simp)+)

lemma I_append_index:
  "I (ol_fs s) \<Longrightarrow> holds (append_index fd offs s) (flow_holds (\<lambda>(a, fs). I fs) (\<lambda>s. I (ol_fs s)))"
  unfolding append_index_def Let_def by ((rule I_append_store_prev I_append_load_index wp | simp)+)

lemma I_append_data:
  "I (ol_fs s) \<Longrightarrow> holds (append_data fd offs d s) (flow_holds (\<lambda>(a, fs). I fs) (\<lambda>s. I (ol_fs s)))"
  unfolding append_data_def Let_def
  by ((rule holds_flow [where R = "\<lambda>(a, fs). I fs" and P = "\<lambda>(a, b, fs). I fs"] objix_ops wp |
       clarsimp split del: if_split)+)

lemma I_append_loop:
  "I (ol_fs s) \<Longrightarrow> holds (append_loop n fd offs d s) (flow_holds (\<lambda>(a, fs). I fs) (\<lambda>s. I (ol_fs s)))"
proof (induction n arbitrary: s)
  case (Suc n)
  show ?case unfolding append_loop.simps
    by ((rule Suc.IH holds_flow [OF I_append_index] holds_flow [OF I_append_data] holds_if |
        simp add: Suc.prems split del: if_split)+)
qed simp

lemma I_append_finish: "I (ol_fs s) \<Longrightarrow> holds (append_finish fd offs s) (\<lambda>(a, fs). I fs)"
  unfolding append_finish_def Let_def by ((rule objix_ops wp | simp)+)

lemma I_loop_init [simp]: "ol_fs (obj_loop_init fd offs r fs) = fs"
  by (simp add: obj_loop_init_def)

lemma I_object_append: "I fs \<Longrightarrow> holds (spiffs_object_append fd offs d fs) (\<lambda>(a, fs). I fs)"
  unfolding spiffs_object_append_def Let_def
  by ((rule holds_flow [OF I_append_loop] I_append_finish I_gc_check bind2 holds_if | simp)+)

lemma I_modify_store_prev: "I (ol_fs s) \<Longrightarrow> holds (modify_store_prev fd s) (\<lambda>(a, fs). I fs)"
  unfolding modify_store_prev_def Let_def by ((rule objix_ops wp | simp)+)

lemma I_modify_index:
  "I (ol_fs s) \<Longrightarrow> holds (modify_index fd offs s) (flow_holds (\<lambda>(a, fs). I fs) (\<lambda>s. I (ol_fs s)))"
  unfolding modify_index_def Let_def by ((rule I_modify_store_prev objix_ops wp | simp)+)

lemma I_and_then:
  "holds m (\<lambda>(a, fs). I fs) \<Longrightarrow> (\<And>fs. I fs \<Longrightarrow> holds (f fs) (\<lambda>(a, fs). I fs)) \<Longrightarrow> holds (and_then m f) (\<lambda>(a, fs). I fs)"
  unfolding and_then_def by ((rule wp | simp)+)

lemma I_modify_partial: "I fs \<Longrightarrow> holds (modify_partial oid ph pix offs ch fs) (\<lambda>(a, b, fs). I fs)"
  unfolding modify_partial_def Let_def by ((rule I_and_then objix_ops wp | simp)+)

lemma I_modify_data:
  "I (ol_fs s) \<Longrightarrow> holds (modify_data fd d s) (flow_holds (\<lambda>(a, fs). I fs) (\<lambda>s. I (ol_fs s)))"
  unfolding modify_data_def Let_def
  by ((rule holds_flow [where R = "\<lambda>(a, fs). I fs" and P = "\<lambda>(a, b, fs). I fs"] I_modify_partial objix_ops wp |
       clarsimp split del: if_split)+)

lemma I_modify_loop:
  "I (ol_fs s) \<Longrightarrow> holds (modify_loop n fd offs d s) (flow_holds (\<lambda>(a, fs). I fs) (\<lambda>s. I (ol_fs s)))"
proof (induction n arbitrary: s)
  case (Suc n)
  show ?case unfolding modify_loop.simps
    by ((rule Suc.IH holds_flow [OF I_modify_index] holds_flow [OF I_modify_data] holds_if |
        simp add: Suc.prems split del: if_split)+)
qed simp

lemma I_modify_finish: "I (ol_fs s) \<Longrightarrow> holds (modify_finish fd offs s) (\<lambda>(a, fs). I fs)"
  unfolding modify_finish_def Let_def by ((rule objix_ops wp | simp)+)

lemma I_object_modify: "I fs \<Longrightarrow> holds (spiffs_object_modify fd offs d fs) (\<lambda>(a, fs). I fs)"
  unfolding spiffs_object_modify_def Let_def
  by ((rule holds_flow [OF I_modify_loop] I_modify_finish I_gc_check bind2 holds_if | simp)+)

lemma I_truncate_drop_prev: "I (tl_fs s) \<Longrightarrow> holds (truncate_drop_prev fd s) (\<lambda>(a, fs). I fs)"
  unfolding truncate_drop_prev_def Let_def by ((rule objix_ops wp | simp)+)

lemma I_truncate_index: "I (tl_fs s) \<Longrightarrow> holds (truncate_index fd s) (flow_holds (\<lambda>(a, fs). I fs) (\<lambda>s. I (tl_fs s)))"
  unfolding truncate_index_def Let_def by ((rule I_truncate_drop_prev objix_ops wp | simp)+)

lemma I_truncate_full: "I (tl_fs s) \<Longrightarrow> holds (truncate_full fd pix s) (flow_holds (\<lambda>(a, fs). I fs) (\<lambda>s. I (tl_fs s)))"
  unfolding truncate_full_def Let_def by ((rule objix_ops wp | simp)+)

lemma I_truncate_partial: "I (tl_fs s) \<Longrightarrow> holds (truncate_partial fd n pix s) (flow_holds (\<lambda>(a, fs). I fs) (\<lambda>s. I (tl_fs s)))"
  unfolding truncate_partial_def Let_def by ((rule I_and_then objix_ops wp | simp)+)

lemma I_truncate_page: "I (tl_fs s) \<Longrightarrow> holds (truncate_page fd n rm s) (flow_holds (\<lambda>(a, fs). I fs) (\<lambda>s. I (tl_fs s)))"
  unfolding truncate_page_def Let_def by ((rule I_truncate_full I_truncate_partial objix_ops wp | simp)+)

lemma I_truncate_loop: "I (tl_fs s) \<Longrightarrow> holds (truncate_loop k fd n rm s) (flow_holds (\<lambda>(a, fs). I fs) (\<lambda>s. I (tl_fs s)))"
proof (induction k arbitrary: s)
  case (Suc k)
  show ?case unfolding truncate_loop.simps
    by ((rule Suc.IH holds_flow [OF I_truncate_index] holds_flow [OF I_truncate_page] holds_if |
        simp add: Suc.prems split del: if_split)+)
qed simp

lemma I_truncate_finish: "I (tl_fs s) \<Longrightarrow> holds (truncate_finish fd rm s) (\<lambda>(a, fs). I fs)"
  unfolding truncate_finish_def Let_def by ((rule objix_ops wp | simp)+)

lemma I_object_truncate: "I fs \<Longrightarrow> holds (spiffs_object_truncate fd n rm fs) (\<lambda>(a, fs). I fs)"
  unfolding spiffs_object_truncate_def Let_def
  by ((rule holds_flow [OF I_truncate_loop] I_truncate_finish I_gc_check objix_ops bind2 holds_if | simp)+)

lemma I_read_pass:
  "I fs \<Longrightarrow> holds (read_pass fd eo co ds ps d fs) (flow_holds (\<lambda>(a, b, fs). I fs) (\<lambda>(a, b, c, d, e, fs). I fs))"
  unfolding read_pass_def Let_def by ((rule objix_ops wp | simp)+)

lemma I_read_loop: "I fs \<Longrightarrow> holds (read_loop n fd eo co ds ps d r fs) (\<lambda>(a, b, fs). I fs)"
proof (induction n arbitrary: co ds ps d r fs)
  case (Suc n)
  show ?case unfolding read_loop.simps
    by ((rule holds_if holds_flow [OF I_read_pass [OF Suc.prems]] | use Suc in force)+)
qed simp

lemma I_object_read: "I fs \<Longrightarrow> holds (spiffs_object_read fd offs len fs) (\<lambda>(a, b, fs). I fs)"
  unfolding spiffs_object_read_def by (rule I_read_loop)

lemma keeps_name_v: "keeps_v I (Some (spiffs_object_find_object_index_header_by_name_v nm))"
  unfolding keeps_v_def spiffs_object_find_object_index_header_by_name_v_def Let_def
  by (clarsimp, (rule load_ops wp | simp)+)

lemma I_find_by_name:
  "I fs \<Longrightarrow> holds (spiffs_object_find_object_index_header_by_name nm fs) (\<lambda>(a, b, fs). I fs)"
  unfolding spiffs_object_find_object_index_header_by_name_def Let_def
  by ((rule I_visitor keeps_name_v wp | simp)+)

lemma keeps_bitmap_v: "keeps_v I (Some (spiffs_obj_lu_find_free_obj_id_bitmap_v nm))"
  unfolding keeps_v_def spiffs_obj_lu_find_free_obj_id_bitmap_v_def Let_def
  by (clarsimp split del: if_split, (rule load_ops wp | simp)+)

lemma I_work_count: "I fs \<Longrightarrow> holds (work_count ix fs) I"
  unfolding work_count_def Let_def by ((rule wp | simp)+)

lemma keeps_compact_v: "keeps_v I (Some (spiffs_obj_lu_find_free_obj_id_compact_v st))"
  unfolding keeps_v_def spiffs_obj_lu_find_free_obj_id_compact_v_def Let_def
  by (clarsimp split del: if_split, (rule I_work_count load_ops wp | simp)+)

lemma I_free_id_bitmap: "I fs \<Longrightarrow> holds (free_id_bitmap nm st fs) (\<lambda>(a, b, fs). I fs)"
  unfolding free_id_bitmap_def Let_def by ((rule I_visitor keeps_bitmap_v wp | simp)+)

lemma I_free_id_compact: "I fs \<Longrightarrow> holds (free_id_compact st fs) (\<lambda>(a, b, fs). I fs)"
  unfolding free_id_compact_def Let_def by ((rule I_visitor keeps_compact_v wp | simp)+)

lemma I_free_obj_id_loop: "I fs \<Longrightarrow> holds (free_obj_id_loop n nm st r fs) (\<lambda>(a, b, fs). I fs)"
proof (induction n arbitrary: st r fs)
  case (Suc n)
  show ?case unfolding free_obj_id_loop.simps Let_def
    by ((rule Suc.IH I_free_id_bitmap I_free_id_compact wp | simp add: Suc.prems split del: if_split)+)
qed simp

lemma I_find_free_obj_id: "I fs \<Longrightarrow> holds (spiffs_obj_lu_find_free_obj_id nm fs) (\<lambda>(a, b, fs). I fs)"
  unfolding spiffs_obj_lu_find_free_obj_id_def Let_def by (rule I_free_obj_id_loop)

lemmas object_ops = objix_ops I_object_create I_open_by_page I_object_append I_object_modify I_object_truncate
  I_object_read I_find_by_name I_find_free_obj_id

subsubsection \<open>The public interface\<close>

lemma I_api_fail [simp]: "(case api_fail e fs of (a, fs) \<Rightarrow> I fs) = I fs"
  by (simp add: api_fail_def)

lemma I_api_result [simp]: "(case api_result e r fs of (a, fs) \<Rightarrow> I fs) = I fs"
  by (simp add: api_result_def)

lemma I_open_fail [simp]: "I fs \<Longrightarrow> (case open_fail fd r fs of (a, fs) \<Rightarrow> I fs)"
  by (simp add: open_fail_def)

lemma I_return_unless_ok [simp]: "I fs \<Longrightarrow> I (return_unless_ok fd r fs)"
  by (simp add: return_unless_ok_def)

lemma I_hydro_write: "I fs \<Longrightarrow> holds (spiffs_hydro_write fd b off fs) (\<lambda>(a, fs). I fs)"
  unfolding spiffs_hydro_write_def Let_def by ((rule object_ops wp | simp)+)

lemma I_fd_release: "I fs \<Longrightarrow> holds (spiffs_cache_fd_release cp fs) I"
  unfolding spiffs_cache_fd_release_def Let_def by ((rule cache_ops wp I_fd_map | simp)+)

lemma I_adopt_cpage: "I fs \<Longrightarrow> holds (adopt_cpage fd fs) I"
  unfolding adopt_cpage_def by ((rule wp | simp)+)

lemma I_write_back_cpage: "I fs \<Longrightarrow> holds (write_back_cpage fd i fs) (\<lambda>(a, fs). I fs)"
  unfolding write_back_cpage_def by ((rule I_hydro_write I_fd_release wp | simp)+)

lemma I_fflush_cache: "I fs \<Longrightarrow> holds (spiffs_fflush_cache fh fs) (\<lambda>(a, fs). I fs)"
  unfolding spiffs_fflush_cache_def Let_def by ((rule I_hydro_write I_fd_release I_adopt_cpage wp | simp)+)

lemma I_unmount_fds: "I fs \<Longrightarrow> holds (unmount_fds is fs) I"
proof (induction "is" arbitrary: fs)
  case (Cons i "is")
  show ?case unfolding unmount_fds.simps by ((rule Cons.IH I_fflush_cache wp | simp add: Cons.prems)+)
qed simp

lemma I_open_page: "I fs \<Longrightarrow> holds (open_page pix fd fl fs) (\<lambda>(a, fs). I fs)"
  unfolding open_page_def Let_def by ((rule object_ops wp | simp)+)

lemma I_allocate_by_fd: "I fs \<Longrightarrow> holds (spiffs_cache_page_allocate_by_fd fd fs) (\<lambda>(a, fs). I fs)"
  unfolding spiffs_cache_page_allocate_by_fd_def Let_def by ((rule cache_ops wp | simp)+)

lemma I_write_small: "I fs \<Longrightarrow> holds (write_small fd b off fs) (\<lambda>(a, fs). I fs)"
  unfolding write_small_def Let_def by ((rule I_write_back_cpage I_allocate_by_fd I_hydro_write wp | simp)+)

lemma I_write_big: "I fs \<Longrightarrow> holds (write_big fd b off fs) (\<lambda>(a, fs). I fs)"
  unfolding write_big_def by ((rule I_write_back_cpage I_hydro_write wp | simp)+)

lemmas fd_ops = object_ops I_fflush_cache I_open_page I_write_small I_write_big I_adopt_cpage I_hydro_write I_fd_release

lemma I_creat: "I fs \<Longrightarrow> holds (SPIFFS_creat p fs) (\<lambda>(a, fs). I fs)"
  unfolding SPIFFS_creat_def by ((rule fd_ops wp | simp)+)

text \<open>A new descriptor, if there is one.\<close>

lemma I_new_fd:
  "I fs \<Longrightarrow> (\<And>r fs. I fs \<Longrightarrow> holds (a r fs) Q) \<Longrightarrow> (\<And>r fd fs. I fs \<Longrightarrow> holds (f r fd fs) Q) \<Longrightarrow>
   holds (case spiffs_fd_find_new fs of (r, x, fs) \<Rightarrow> (case x of None \<Rightarrow> a r fs | Some fd \<Rightarrow> f r fd fs)) Q"
  using I_fd_find_new by (auto split: prod.split option.split)

lemma I_open: "I fs \<Longrightarrow> holds (SPIFFS_open p fl fs) (\<lambda>(a, fs). I fs)"
  unfolding SPIFFS_open_def by ((rule I_new_fd fd_ops wp | simp)+)

lemma I_open_by_dirent: "I fs \<Longrightarrow> holds (SPIFFS_open_by_dirent e fl fs) (\<lambda>(a, fs). I fs)"
  unfolding SPIFFS_open_by_dirent_def by ((rule I_new_fd fd_ops wp | simp)+)

lemma I_read: "I fs \<Longrightarrow> holds (SPIFFS_read fh len fs) (\<lambda>(a, b, fs). I fs)"
  unfolding SPIFFS_read_def Let_def by ((rule fd_ops wp | simp)+)

lemma I_write: "I fs \<Longrightarrow> holds (SPIFFS_write fh b fs) (\<lambda>(a, fs). I fs)"
  unfolding SPIFFS_write_def Let_def by ((rule fd_ops wp | simp)+)

lemma I_lseek: "I fs \<Longrightarrow> holds (SPIFFS_lseek fh off wh fs) (\<lambda>(a, fs). I fs)"
  unfolding SPIFFS_lseek_def Let_def by ((rule fd_ops wp | simp)+)

lemma I_remove: "I fs \<Longrightarrow> holds (SPIFFS_remove p fs) (\<lambda>(a, fs). I fs)"
  unfolding SPIFFS_remove_def Let_def by ((rule I_new_fd fd_ops wp | simp)+)

lemma I_fremove: "I fs \<Longrightarrow> holds (SPIFFS_fremove fh fs) (\<lambda>(a, fs). I fs)"
  unfolding SPIFFS_fremove_def by ((rule fd_ops wp | simp)+)

lemma I_stat_pix: "I fs \<Longrightarrow> holds (spiffs_stat_pix pix fs) (\<lambda>(a, b, fs). I fs)"
  unfolding spiffs_stat_pix_def Let_def by ((rule fd_ops wp | simp)+)

lemma I_stat: "I fs \<Longrightarrow> holds (SPIFFS_stat p fs) (\<lambda>(a, b, fs). I fs)"
  unfolding SPIFFS_stat_def by ((rule I_stat_pix fd_ops wp | simp)+)

lemma I_fstat: "I fs \<Longrightarrow> holds (SPIFFS_fstat fh fs) (\<lambda>(a, b, fs). I fs)"
  unfolding SPIFFS_fstat_def by ((rule I_stat_pix fd_ops wp | simp)+)

lemma I_fflush: "I fs \<Longrightarrow> holds (SPIFFS_fflush fh fs) (\<lambda>(a, fs). I fs)"
  unfolding SPIFFS_fflush_def by ((rule fd_ops wp | simp)+)

lemma I_close: "I fs \<Longrightarrow> holds (SPIFFS_close fh fs) (\<lambda>(a, fs). I fs)"
  unfolding SPIFFS_close_def
  by ((rule fd_ops wp | erule I_fd_return_eq | simp)+)

lemma I_rename: "I fs \<Longrightarrow> holds (SPIFFS_rename p q fs) (\<lambda>(a, fs). I fs)"
  unfolding SPIFFS_rename_def Let_def by ((rule I_new_fd fd_ops wp | simp split del: if_split)+)

lemma keeps_read_dir_v: "keeps_v I (Some spiffs_read_dir_v)"
  unfolding keeps_v_def spiffs_read_dir_v_def Let_def
  by (clarsimp split del: if_split, (rule load_ops wp | simp)+)

lemma I_readdir: "I fs \<Longrightarrow> holds (SPIFFS_readdir d e fs) (\<lambda>(a, b, fs). I fs)"
  unfolding SPIFFS_readdir_def by ((rule I_visitor keeps_read_dir_v wp | simp)+)

lemma I_api_gc_quick: "I fs \<Longrightarrow> holds (SPIFFS_gc_quick mf fs) (\<lambda>(a, fs). I fs)"
  unfolding SPIFFS_gc_quick_def by ((rule I_gc_quick wp | simp)+)

lemma I_gc: "I fs \<Longrightarrow> holds (SPIFFS_gc sz fs) (\<lambda>(a, fs). I fs)"
  unfolding SPIFFS_gc_def by ((rule I_gc_check wp | simp)+)

lemma I_with_flushed_fd: "I fs \<Longrightarrow> holds (with_flushed_fd r fh fs) (\<lambda>(a, fs). I fs)"
  unfolding with_flushed_fd_def by ((rule fd_ops wp | simp)+)

end

end
