(* ===== verification/Spiffs_Check_Frame.thy ===== *)
theory Spiffs_Check_Frame
  imports Spiffs_Frame Spiffs_Check
begin

section \<open>SPIFFS: invariants of the consistency checks\<close>

text \<open>
  The checks and all their repairs keep the predicates of \<open>spiffs_inv\<close>, like the other operations.
  The loops of the page check are partial functions: what is shown holds whenever they return.
\<close>

context spiffs_inv
begin

abbreviation I_validate :: "validate \<Rightarrow> bool" where
  "I_validate m \<equiv> holds m (flow_holds (\<lambda>(a, fs). I fs) (\<lambda>(a, b, c, fs). I fs))"

abbreviation I_scan :: "scan_step \<Rightarrow> bool" where
  "I_scan m \<equiv> holds m (flow_holds (\<lambda>(a, fs). I fs) (\<lambda>(a, b, fs). I fs))"

lemma I_get_reference:
  "I fs \<Longrightarrow> holds (spiffs_object_get_data_page_index_reference oid spix fs) (\<lambda>(a, b, c, fs). I fs)"
  unfolding spiffs_object_get_data_page_index_reference_def Let_def by ((rule page_ops wp | simp)+)

lemma I_rewrite_page: "I fs \<Longrightarrow> holds (spiffs_rewrite_page pix h fs) (\<lambda>(a, b, fs). I fs)"
  unfolding spiffs_rewrite_page_def by ((rule page_ops wp | simp)+)

lemma I_lu_work_load: "I fs \<Longrightarrow> holds (lu_work_load pix fs) (\<lambda>(a, fs). I fs)"
  unfolding lu_work_load_def by ((rule page_ops wp | simp)+)

lemma I_rewrite_index: "I fs \<Longrightarrow> holds (spiffs_rewrite_index oid spix dpix opix fs) (\<lambda>(a, fs). I fs)"
  unfolding spiffs_rewrite_index_def Let_def by ((rule I_lu_work_load page_ops wp | simp)+)

lemma I_delete_obj_lazy: "I fs \<Longrightarrow> holds (spiffs_delete_obj_lazy oid fs) (\<lambda>(a, fs). I fs)"
  unfolding spiffs_delete_obj_lazy_def by ((rule page_ops wp | simp)+)

lemmas mend_ops = page_ops I_get_reference I_rewrite_page I_lu_work_load I_rewrite_index I_delete_obj_lazy

lemma I_by_phdr: "I fs \<Longrightarrow> holds (spiffs_obj_lu_find_id_and_span_by_phdr oid spix ex fs) (\<lambda>(a, b, fs). I fs)"
  unfolding spiffs_obj_lu_find_id_and_span_by_phdr_def by (rule I_find_span_with)

lemma I_find_or_zero: "I fs \<Longrightarrow> holds (find_or_zero oid spix ex fs) (\<lambda>(a, b, fs). I fs)"
  unfolding find_or_zero_def by ((rule mend_ops wp | simp)+)

lemma I_relocate: "I fs \<Longrightarrow> holds (relocate_data_page pix h opix fs) (\<lambda>(a, b, fs). I fs)"
  unfolding relocate_data_page_def by ((rule mend_ops wp | simp)+)

lemma I_remake_page: "I fs \<Longrightarrow> holds (remake_page oid fl pix h fs) (\<lambda>(a, fs). I fs)"
  unfolding remake_page_def Let_def by ((rule mend_ops wp | simp)+)

lemmas check_ops = mend_ops I_by_phdr I_find_or_zero I_relocate I_remake_page

lemma I_check_unused: "I fs \<Longrightarrow> I_validate (check_unused_entry pix h fs)"
  unfolding check_unused_entry_def by ((rule check_ops wp | simp)+)

lemma I_check_other_index: "I fs \<Longrightarrow> I_validate (check_other_index i pix h a b fs)"
  unfolding check_other_index_def Let_def by ((rule check_ops wp | simp)+)

lemma I_check_wrong_id: "I fs \<Longrightarrow> I_validate (check_wrong_id i pix h fs)"
  unfolding check_wrong_id_def by ((rule I_check_other_index check_ops wp | simp)+)

lemma I_check_marking: "I fs \<Longrightarrow> I_validate (check_marking i pix h fs)"
  unfolding check_marking_def by ((rule check_ops wp | simp)+)

lemma I_check_not_final: "I fs \<Longrightarrow> I_validate (check_not_final i pix h fs)"
  unfolding check_not_final_def by ((rule check_ops wp | simp)+)

lemma I_check_entry: "I fs \<Longrightarrow> I_validate (check_entry i pix h fs)"
  unfolding check_entry_def
  by ((rule I_check_unused I_check_wrong_id I_check_marking I_check_not_final holds_if | simp split del: if_split)+)

lemma I_check_validate: "I fs \<Longrightarrow> holds (spiffs_lookup_check_validate i h pix fs) (\<lambda>(a, b, fs). I fs)"
  unfolding spiffs_lookup_check_validate_def
  by ((rule holds_flow [OF I_check_entry] check_ops bind2 holds_if | clarsimp split del: if_split)+)

lemma keeps_check_v: "keeps_v I (Some spiffs_lookup_check_v)"
  unfolding keeps_v_def spiffs_lookup_check_v_def Let_def
  by (clarsimp, (rule I_check_validate check_ops wp | simp)+)

lemma I_register_id: "I fs \<Longrightarrow> holds (register_id i k fs) (\<lambda>(a, fs). I fs)"
  unfolding register_id_def by ((rule I_work_put wp | simp)+)

lemma keeps_index_v: "keeps_v I (Some spiffs_object_index_consistency_check_v)"
  unfolding keeps_v_def spiffs_object_index_consistency_check_v_def Let_def
  by (clarsimp split del: if_split, (rule I_register_id check_ops wp | simp split del: if_split)+)

lemma I_lookup_check: "I fs \<Longrightarrow> holds (spiffs_lookup_consistency_check fs) (\<lambda>(a, fs). I fs)"
  unfolding spiffs_lookup_consistency_check_def by ((rule I_visitor keeps_check_v wp | simp)+)

lemma I_index_check_all: "I fs \<Longrightarrow> holds (spiffs_object_index_consistency_check fs) (\<lambda>(a, fs). I fs)"
  unfolding spiffs_object_index_consistency_check_def Let_def by ((rule I_visitor keeps_index_v wp | simp)+)

lemma I_set_mark: "I fs \<Longrightarrow> holds (set_mark k off pix fs) I"
  unfolding set_mark_def by ((rule wp | simp)+)

lemma I_fix_bad: "I fs \<Longrightarrow> I_scan (fix_bad_reference pix spix fs)"
  unfolding fix_bad_reference_def Let_def by ((rule check_ops wp | simp)+)

lemma I_fix_wrong: "I fs \<Longrightarrow> I_scan (fix_wrong_reference pix h spix r fs)"
  unfolding fix_wrong_reference_def by ((rule check_ops wp | simp)+)

lemma I_mark_referenced: "I fs \<Longrightarrow> I_scan (mark_referenced off pix h r res fs)"
  unfolding mark_referenced_def by ((rule I_set_mark check_ops wp | simp)+)

lemma I_check_reference: "I fs \<Longrightarrow> I_scan (check_reference off pix h spix r res fs)"
  unfolding check_reference_def Let_def
  by ((rule I_fix_bad I_fix_wrong I_mark_referenced check_ops wp | simp)+)

lemma I_check_references: "I fs \<Longrightarrow> I_scan (check_references off pix h st fi is res fs)"
proof (induction "is" arbitrary: res fs)
  case (Cons i "is")
  show ?case unfolding check_references.simps
    by ((rule Cons.IH holds_flow [OF I_check_reference] holds_bind_any holds_if | clarsimp simp: Cons.prems split del: if_split)+)
qed simp

lemma I_check_index_page: "I fs \<Longrightarrow> I_scan (check_index_page off pix h fs)"
  unfolding check_index_page_def Let_def by ((rule I_check_references check_ops wp | simp)+)

lemma I_check_page: "I fs \<Longrightarrow> I_scan (check_page off pix fs)"
  unfolding check_page_def Let_def by ((rule I_check_index_page I_set_mark check_ops wp | simp)+)

text \<open>The loops, by induction on their fixed points.\<close>

lemma I_check_pages: "I fs \<Longrightarrow> I_scan (check_pages off lim cur res fs)"
proof -
  let ?Q = "flow_holds (\<lambda>(a, fs). I fs) (\<lambda>(a, b, fs). I fs)"
  have "I fs \<longrightarrow> ?Q y" if "check_pages off lim cur res fs = Some y" for y
  proof (rule check_pages.raw_induct [OF _ that])
    fix f :: "nat \<Rightarrow> nat \<Rightarrow> nat \<Rightarrow> int \<Rightarrow> spiffs \<Rightarrow> scan_step" and off lim cur res fs y
    assume f: "\<And>off lim cur res fs y. f off lim cur res fs = Some y \<Longrightarrow> I fs \<longrightarrow> ?Q y"
      and y: "(if cur < lim then check_page off cur fs \<bind> (\<lambda>r. case r of
          Return x \<Rightarrow> Some (Return x) | Break x \<Rightarrow> Some (Continue x)
        | Continue (restart, res, fs) \<Rightarrow> if restart then Some (Continue (True, res, fs)) else f off lim (u16_of (cur + 1)) res fs)
      else Some (Continue (False, res, fs))) = Some y"
    have ih: "I fs \<Longrightarrow> I_scan (f off lim cur res fs)" for off lim cur res fs using f by (auto simp: holds_def)
    have "I fs \<Longrightarrow> ?Q y"
      by (rule holdsD [OF _ y]) ((rule ih holds_flow [OF I_check_page] holds_if | clarsimp split del: if_split)+)
    then show "I fs \<longrightarrow> ?Q y" ..
  qed
  then show "I fs \<Longrightarrow> I_scan (check_pages off lim cur res fs)" by (simp add: holds_def)
qed

lemma I_check_blocks: "I fs \<Longrightarrow> I_scan (check_blocks off b res fs)"
proof -
  let ?Q = "flow_holds (\<lambda>(a, fs). I fs) (\<lambda>(a, b, fs). I fs)"
  have "I fs \<longrightarrow> ?Q y" if "check_blocks off b res fs = Some y" for y
  proof (rule check_blocks.raw_induct [OF _ that])
    fix f :: "nat \<Rightarrow> nat \<Rightarrow> int \<Rightarrow> spiffs \<Rightarrow> scan_step" and off b res fs y
    assume f: "\<And>off b res fs y. f off b res fs = Some y \<Longrightarrow> I fs \<longrightarrow> ?Q y"
      and y: "(if b < block_count fs then let ppb = SPIFFS_PAGES_PER_BLOCK (cfg fs) in
          check_pages off (u32_of (ppb * (b + 1))) (u16_of (SPIFFS_OBJ_LOOKUP_PAGES (cfg fs) + ppb * b)) res fs \<bind> (\<lambda>r. case r of
            Return x \<Rightarrow> Some (Return x) | Break x \<Rightarrow> Some (Continue x)
          | Continue (restart, res, fs) \<Rightarrow> if restart then Some (Continue (True, res, fs)) else f off (u16_of (b + 1)) res fs)
      else Some (Continue (False, res, fs))) = Some y"
    have ih: "I fs \<Longrightarrow> I_scan (f off b res fs)" for off b res fs using f by (auto simp: holds_def)
    have "I fs \<Longrightarrow> ?Q y"
      by (rule holdsD [OF _ y [unfolded Let_def]])
        ((rule ih holds_flow [OF I_check_pages] holds_if | clarsimp split del: if_split)+)
    then show "I fs \<longrightarrow> ?Q y" ..
  qed
  then show "I fs \<Longrightarrow> I_scan (check_blocks off b res fs)" by (simp add: holds_def)
qed

lemma I_check_unreferenced: "I fs \<Longrightarrow> I_scan (check_unreferenced pix fs)"
  unfolding check_unreferenced_def by ((rule check_ops wp | simp)+)

lemma I_check_bitmap: "I fs \<Longrightarrow> I_scan (check_bitmap off ks res fs)"
proof (induction ks arbitrary: res fs)
  case (Cons k ks)
  have u: "I_scan (if c then check_unreferenced p fs else Some (Continue (False, res, fs)))" for c p
    using I_check_unreferenced [OF Cons.prems] Cons.prems by simp
  show ?case unfolding check_bitmap.simps Let_def
    by (rule holds_bind_any, (rule Cons.IH holds_flow [OF u] holds_if | clarsimp split del: if_split)+)
qed simp

lemma I_check_range: "I fs \<Longrightarrow> I_scan (check_range off res fs)"
  unfolding check_range_def Let_def
  by ((rule I_check_bitmap holds_flow [OF I_check_blocks] holds_if | clarsimp split del: if_split)+)

lemma I_page_check_loop: "I fs \<Longrightarrow> holds (page_check_loop off res fs) (\<lambda>(a, fs). I fs)"
proof -
  have "I fs \<longrightarrow> (case y of (a, fs) \<Rightarrow> I fs)" if "page_check_loop off res fs = Some y" for y
  proof (rule page_check_loop.raw_induct [OF _ that])
    fix f :: "nat \<Rightarrow> int \<Rightarrow> spiffs \<Rightarrow> (int \<times> spiffs) option" and off res fs y
    assume f: "\<And>off res fs y. f off res fs = Some y \<Longrightarrow> I fs \<longrightarrow> (case y of (a, fs) \<Rightarrow> I fs)"
      and y: "(if off < u32_of (SPIFFS_PAGES_PER_BLOCK (cfg fs) * block_count fs) then check_range off res fs \<bind> (\<lambda>r. case r of
          Return x \<Rightarrow> Some x | Break (restart, res, fs) \<Rightarrow> None
        | Continue (restart, res, fs) \<Rightarrow> f (if restart then off else u16_of (off + pages_per_scan (cfg fs))) res fs)
      else Some (res, fs)) = Some y"
    have ih: "I fs \<Longrightarrow> holds (f off res fs) (\<lambda>(a, fs). I fs)" for off res fs using f by (auto simp: holds_def)
    have "I fs \<Longrightarrow> (case y of (a, fs) \<Rightarrow> I fs)"
      by (rule holdsD [OF _ y]) ((rule ih holds_flow [OF I_check_range] holds_if | clarsimp split del: if_split)+)
    then show "I fs \<longrightarrow> (case y of (a, fs) \<Rightarrow> I fs)" ..
  qed
  then show "I fs \<Longrightarrow> holds (page_check_loop off res fs) (\<lambda>(a, fs). I fs)" by (simp add: holds_def)
qed

lemma I_check: "I fs \<Longrightarrow> holds (SPIFFS_check fs) (\<lambda>(a, fs). I fs)"
  unfolding SPIFFS_check_def spiffs_page_consistency_check_def spiffs_page_consistency_check_i_def
  by ((rule I_lookup_check I_index_check_all I_page_check_loop I_lu_scan bind2 holds_case_option | simp)+)

text \<open>The visualisation only reads.\<close>

lemma I_vis_dump: "I fs \<Longrightarrow> holds (vis_dump bs res fs) (\<lambda>(a, b, fs). I fs)"
proof (induction bs arbitrary: res fs)
  case (Cons b bs)
  show ?case unfolding vis_dump.simps by ((rule Cons.IH I_scan_block load_ops wp | simp add: Cons.prems)+)
qed simp

lemma I_vis: "I fs \<Longrightarrow> holds (SPIFFS_vis fs) (\<lambda>(a, b, fs). I fs)"
  unfolding SPIFFS_vis_def by ((rule I_vis_dump wp | simp add: api_fail_def)+)

end

end
