(* ===== verification/Spiffs_Session.thy ===== *)
theory Spiffs_Session
  imports Spiffs_Check_Frame
begin

section \<open>SPIFFS: sessions\<close>

text \<open>
  Sequences of interface calls between mounting and unmounting, and two invariants of them: the
  shape of the file system (configuration, block count, table sizes, mount flag) never changes,
  and the descriptor table stays consistent. Then the descriptor table itself.
\<close>

subsection \<open>Sessions\<close>

text \<open>One call of an interface function between mounting and unmounting.\<close>

inductive api_step :: "spiffs \<Rightarrow> spiffs \<Rightarrow> bool" where
  creat: "SPIFFS_creat p fs = Some (r, fs') \<Longrightarrow> api_step fs fs'"
| "open": "SPIFFS_open p fl fs = Some (r, fs') \<Longrightarrow> api_step fs fs'"
| open_by_dirent: "SPIFFS_open_by_dirent e fl fs = Some (r, fs') \<Longrightarrow> api_step fs fs'"
| read: "SPIFFS_read fh len fs = Some (r, bs, fs') \<Longrightarrow> api_step fs fs'"
| "write": "SPIFFS_write fh bs fs = Some (r, fs') \<Longrightarrow> api_step fs fs'"
| lseek: "SPIFFS_lseek fh off wh fs = Some (r, fs') \<Longrightarrow> api_step fs fs'"
| remove: "SPIFFS_remove p fs = Some (r, fs') \<Longrightarrow> api_step fs fs'"
| fremove: "SPIFFS_fremove fh fs = Some (r, fs') \<Longrightarrow> api_step fs fs'"
| stat: "SPIFFS_stat p fs = Some (r, st, fs') \<Longrightarrow> api_step fs fs'"
| fstat: "SPIFFS_fstat fh fs = Some (r, st, fs') \<Longrightarrow> api_step fs fs'"
| fflush: "SPIFFS_fflush fh fs = Some (r, fs') \<Longrightarrow> api_step fs fs'"
| "close": "SPIFFS_close fh fs = Some (r, fs') \<Longrightarrow> api_step fs fs'"
| rename: "SPIFFS_rename p q fs = Some (r, fs') \<Longrightarrow> api_step fs fs'"
| opendir: "SPIFFS_opendir fs = (d, fs') \<Longrightarrow> api_step fs fs'"
| readdir: "SPIFFS_readdir dir e fs = Some (r, dir', fs') \<Longrightarrow> api_step fs fs'"
| closedir: "SPIFFS_closedir fs = (r, fs') \<Longrightarrow> api_step fs fs'"
| info: "SPIFFS_info fs = (r, x, fs') \<Longrightarrow> api_step fs fs'"
| gc_quick: "SPIFFS_gc_quick mf fs = Some (r, fs') \<Longrightarrow> api_step fs fs'"
| gc: "SPIFFS_gc sz fs = Some (r, fs') \<Longrightarrow> api_step fs fs'"
| eof: "SPIFFS_eof fh fs = Some (r, fs') \<Longrightarrow> api_step fs fs'"
| tell: "SPIFFS_tell fh fs = Some (r, fs') \<Longrightarrow> api_step fs fs'"
| check: "SPIFFS_check fs = Some (r, fs') \<Longrightarrow> api_step fs fs'"
| vis: "SPIFFS_vis fs = Some (r, out, fs') \<Longrightarrow> api_step fs fs'"
| clearerr: "api_step fs (SPIFFS_clearerr fs)"

inductive api_run :: "spiffs \<Rightarrow> spiffs \<Rightarrow> bool" where
  start: "api_run fs fs"
| call: "api_run fs fs' \<Longrightarrow> api_step fs' fs'' \<Longrightarrow> api_run fs fs''"

context spiffs_inv
begin

lemma I_eof: "I fs \<Longrightarrow> holds (SPIFFS_eof fh fs) (\<lambda>(a, fs). I fs)"
  unfolding SPIFFS_eof_def by (rule I_with_flushed_fd)

lemma I_tell: "I fs \<Longrightarrow> holds (SPIFFS_tell fh fs) (\<lambda>(a, fs). I fs)"
  unfolding SPIFFS_tell_def by (rule I_with_flushed_fd)

lemma I_opendir: "SPIFFS_opendir fs = (d, fs') \<Longrightarrow> I fs \<Longrightarrow> I fs'"
  by (auto simp: SPIFFS_opendir_def split: option.splits)

lemma I_closedir: "SPIFFS_closedir fs = (d, fs') \<Longrightarrow> I fs \<Longrightarrow> I fs'"
  by (auto simp: SPIFFS_closedir_def api_fail_def split: option.splits)

lemma I_info: "SPIFFS_info fs = (r, x, fs') \<Longrightarrow> I fs \<Longrightarrow> I fs'"
  by (auto simp: SPIFFS_info_def Let_def split: option.splits)

lemma I_clearerr: "I fs \<Longrightarrow> I (SPIFFS_clearerr fs)"
  by (simp add: SPIFFS_clearerr_def)

lemma result2: "m = Some (r, fs') \<Longrightarrow> holds m (\<lambda>(a, fs). I fs) \<Longrightarrow> I fs'"
  by (simp add: holds_def)

lemma result3: "m = Some (r, x, fs') \<Longrightarrow> holds m (\<lambda>(a, b, fs). I fs) \<Longrightarrow> I fs'"
  by (simp add: holds_def)

lemmas api_ops = I_creat I_open I_open_by_dirent I_read I_write I_lseek I_remove I_fremove I_stat I_fstat I_fflush
  I_close I_rename I_readdir I_api_gc_quick I_gc I_eof I_tell I_check I_vis

lemma step: "api_step fs fs' \<Longrightarrow> I fs \<Longrightarrow> I fs'"
  by (induction rule: api_step.induct)
    ((erule result3, rule api_ops, assumption) | (erule result2, rule api_ops, assumption) |
     (rule I_clearerr, assumption) | (erule I_opendir I_closedir I_info, assumption))+

lemma run: "api_run fs fs' \<Longrightarrow> I fs \<Longrightarrow> I fs'"
  by (induction rule: api_run.induct) (auto dest: step)

end

subsection \<open>The two invariants\<close>

text \<open>What a session never changes, and the numbers of the descriptors: 0 for a closed one, the
  position counted from 1 for an open one.\<close>

definition same_shape :: "spiffs \<Rightarrow> spiffs \<Rightarrow> bool" where
  "same_shape fs0 fs \<longleftrightarrow> cfg fs = cfg fs0 \<and> block_count fs = block_count fs0 \<and>
     length (fd_space fs) = length (fd_space fs0) \<and> config_magic fs = config_magic fs0 \<and>
     cache_size fs = cache_size fs0 \<and> mounted fs = mounted fs0"

interpretation shape: spiffs_inv "same_shape fs0" for fs0
  by unfold_locales (simp_all add: same_shape_def upd_fd_def)

definition fd_ok :: "spiffs \<Rightarrow> bool" where
  "fd_ok fs \<longleftrightarrow> (\<forall>i < length (fd_space fs). file_nbr (fd_at i fs) \<in> {0, s16_of (i + 1)})"

interpretation fds: spiffs_inv fd_ok
proof
  fix fs :: spiffs and g :: "spiffs_fd \<Rightarrow> spiffs_fd"
  assume ok: "fd_ok fs" and g: "\<And>f. file_nbr (g f) = file_nbr f \<or> file_nbr (g f) = 0"
  show "fd_ok (fs\<lparr>fd_space := map g (fd_space fs)\<rparr>)"
    unfolding fd_ok_def
  proof (intro allI impI)
    fix i assume "i < length (fd_space (fs\<lparr>fd_space := map g (fd_space fs)\<rparr>))"
    then show "file_nbr (fd_at i (fs\<lparr>fd_space := map g (fd_space fs)\<rparr>)) \<in> {0, s16_of (i + 1)}"
      using ok g [of "fd_space fs ! i"] by (auto simp: fd_ok_def fd_at_def)
  qed
next
  fix fs :: spiffs and g :: "spiffs_fd \<Rightarrow> spiffs_fd" and i
  assume ok: "fd_ok fs" and g: "\<And>f. file_nbr (g f) \<in> {file_nbr f, 0, s16_of (i + 1)}"
  show "fd_ok (upd_fd i g fs)"
    unfolding fd_ok_def
  proof (intro allI impI)
    fix j assume "j < length (fd_space (upd_fd i g fs))"
    then show "file_nbr (fd_at j (upd_fd i g fs)) \<in> {0, s16_of (j + 1)}"
      using ok g [of "fd_space fs ! i"]
      by (cases "i = j") (auto simp: fd_ok_def fd_at_def upd_fd_def)
  qed
qed (simp_all add: fd_ok_def fd_at_def)

text \<open>Mounting establishes both.\<close>

lemma cache_init_frame:
  "cfg (spiffs_cache_init fs) = cfg fs" "fd_space (spiffs_cache_init fs) = fd_space fs"
  "block_count (spiffs_cache_init fs) = block_count fs" "mounted (spiffs_cache_init fs) = mounted fs"
  by (simp_all add: spiffs_cache_init_def Let_def split: option.split)

lemma mount_shape:
  assumes "SPIFFS_mount config wb fl fsz cm cl cb fs = Some (r, fs0)"
  shows "fd_ok fs0" "cfg fs0 = config" "block_count fs0 = phys_size config div log_block_size config" "r = 0 \<longleftrightarrow> mounted fs0"
    "length (fd_space fs0) = align_buffer fl fsz div SIZEOF_FD"
proof -
  let ?P = "\<lambda>r f. fd_ok f \<and> cfg f = config \<and> block_count f = phys_size config div log_block_size config \<and>
     (r = 0 \<longleftrightarrow> mounted f) \<and> length (fd_space f) = align_buffer fl fsz div SIZEOF_FD"
  let ?start = "\<lambda>f. fd_ok f \<and> cfg f = config \<and> block_count f = phys_size config div log_block_size config \<and>
     \<not> mounted f \<and> length (fd_space f) = align_buffer fl fsz div SIZEOF_FD"
  have scan: "?start f'" if "spiffs_obj_lu_scan f = Some (res, f')" "?start f" for f f' res
    using holdsD [OF shape.I_lu_scan [of f f] that(1)] holdsD [OF fds.I_lu_scan [of f] that(1)] that(2)
    by (simp add: same_shape_def)
  have "holds (SPIFFS_mount config wb fl fsz cm cl cb fs) (\<lambda>(r, f). ?P r f)"
    unfolding SPIFFS_mount_def Let_def
  proof (rule holds_bind_any, rule holds_bind_any, rule holds_if, goal_cases)
    case 1
    then show ?case by (simp add: api_fail_def cache_init_frame fd_ok_def fd_at_def blank_fd_def)
  next
    case (2 w lw)
    show ?case
    proof (rule holds_bind_any, clarify)
      fix res f
      let ?f0 = "spiffs_cache_init \<lparr>cfg = config, block_count = phys_size config div log_block_size config,
        free_cursor_block_ix = 0, free_cursor_obj_lu_entry = 0, cursor_block_ix = 0, cursor_obj_lu_entry = 0,
        lu_work = lw, work = w, fd_space = replicate (align_buffer fl fsz div SIZEOF_FD) blank_fd,
        err_code = 0, free_blocks = 0, stats_p_allocated = 0, stats_p_deleted = 0, cleaning = False,
        max_erase_count = 0, cache = cm,
        cache_size = (if u32_of (log_page_size config * 32) < align_buffer cl cb - align_buffer cl cb mod 4
           then u32_of (log_page_size config * 32) else align_buffer cl cb - align_buffer cl cb mod 4),
        mounted = False, config_magic = 0, flash = flash fs, junk = junk fs\<rparr>"
      assume "spiffs_obj_lu_scan (?f0\<lparr>config_magic := SPIFFS_CONFIG_MAGIC\<rparr>) = Some (res, f)"
      moreover have "?start (?f0\<lparr>config_magic := SPIFFS_CONFIG_MAGIC\<rparr>)"
        by (simp add: cache_init_frame fd_ok_def fd_at_def blank_fd_def)
      ultimately have "?start f" by (rule scan)
      then show "holds (if res < 0 then Some (api_fail res f) else Some (0, f\<lparr>mounted := True\<rparr>)) (\<lambda>(r, f). ?P r f)"
        by (simp add: api_fail_def fd_ok_def fd_at_def)
    qed
  qed
  then have "?P r fs0" using holdsD assms by fastforce
  then show "fd_ok fs0" "cfg fs0 = config" "block_count fs0 = phys_size config div log_block_size config" "r = 0 \<longleftrightarrow> mounted fs0"
    "length (fd_space fs0) = align_buffer fl fsz div SIZEOF_FD" by simp_all
qed

subsection \<open>The descriptor table\<close>

lemma s16_small: "n < 32768 \<Longrightarrow> s16_of n = int n"
  by (simp add: s16_of_def)

lemma fd_find_free_spec: "fd_find_free is fs = find (\<lambda>i. file_nbr (fd_at i fs) = 0) is"
  by (induction "is") simp_all

lemma fd_at_upd: "i < length (fd_space fs) \<Longrightarrow> fd_at j (upd_fd i g fs) = (if j = i then g (fd_at i fs) else fd_at j fs)"
  by (simp add: fd_at_def upd_fd_def)

lemma fd_count_upd [simp]: "length (fd_space (upd_fd i g fs)) = length (fd_space fs)"
  by (simp add: upd_fd_def)

subsection \<open>Properties\<close>

text \<open>
  C9: Whatever the flash callbacks do, after mounting and any sequence of interface calls, failing
  ones included, the configuration, the block count, the size of the descriptor table and the
  mount state are those the mount set up, and every descriptor is closed or carries its own
  number, so that a file handle always finds the slot it was given for.
\<close>

theorem session_invariant:
  assumes "SPIFFS_mount config wb fl fsz cm cl cb fs = Some (r, fs0)" "api_run fs0 fs1"
  shows "cfg fs1 = config \<and> block_count fs1 = phys_size config div log_block_size config \<and>
     length (fd_space fs1) = align_buffer fl fsz div SIZEOF_FD \<and> (mounted fs1 \<longleftrightarrow> r = 0) \<and>
     (\<forall>i < length (fd_space fs1). file_nbr (fd_at i fs1) \<in> {0, s16_of (i + 1)})"
proof -
  note m = mount_shape [OF assms(1)]
  have "same_shape fs0 fs1" using assms(2) by (rule shape.run) (simp add: same_shape_def)
  moreover have "fd_ok fs1" using assms(2) m(1) by (rule fds.run)
  ultimately show ?thesis using m by (simp add: same_shape_def fd_ok_def)
qed

text \<open>A medium too small for a block: the mount finds no block to scan.\<close>

definition tiny_cfg :: spiffs_config where
  "tiny_cfg = demo_cfg\<lparr>phys_size := 0\<rparr>"

definition empty_cache :: spiffs_cache where
  "empty_cache = \<lparr>cpage_count = 0, c_last_access = 0, cpage_use_map = 0, cpage_use_mask = 0, cpages = []\<rparr>"

definition tiny_fs :: spiffs where
  "tiny_fs = snd (the (SPIFFS_mount tiny_cfg (replicate 512 0) 0 72 (Some empty_cache) 0 600 demo_raw))"

lemma tiny_mount: "SPIFFS_mount tiny_cfg (replicate 512 0) 0 72 (Some empty_cache) 0 600 demo_raw = Some (0, tiny_fs)"
proof -
  have g: "log_page_size tiny_cfg = 256" "log_block_size tiny_cfg = 4096" "phys_size tiny_cfg = 0"
    by (simp_all add: tiny_cfg_def)
  have m: "SPIFFS_CHECK_MAGIC_POSSIBLE tiny_cfg"
    by (simp add: SPIFFS_CHECK_MAGIC_POSSIBLE_def SPIFFS_OBJ_LOOKUP_MAX_ENTRIES_def SPIFFS_PAGES_PER_BLOCK_def
        SPIFFS_OBJ_LOOKUP_PAGES_def g)
  have "\<exists>f. spiffs_obj_lu_scan fs = Some (0, f)" if "block_count fs = 0" for fs
    using that by (simp add: spiffs_obj_lu_scan_def spiffs_obj_lu_find_entry_visitor_def erase_count_final_def Let_def c_defs)
  then obtain scan where scan: "\<And>fs. block_count fs = 0 \<Longrightarrow> spiffs_obj_lu_scan fs = Some (0, scan fs)" by metis
  have "\<exists>f. SPIFFS_mount tiny_cfg (replicate 512 0) 0 72 (Some empty_cache) 0 600 demo_raw = Some (0, f)"
    unfolding SPIFFS_mount_def Let_def using m by (simp add: g buf_slice_def cache_init_frame scan)
  then show ?thesis by (auto simp: tiny_fs_def)
qed

theorem session_invariant_witness:
  "cfg (snd (SPIFFS_closedir tiny_fs)) = tiny_cfg \<and> length (fd_space (snd (SPIFFS_closedir tiny_fs))) = 2 \<and>
   mounted (snd (SPIFFS_closedir tiny_fs))"
proof -
  have "api_run tiny_fs (snd (SPIFFS_closedir tiny_fs))"
    by (rule api_run.call [OF api_run.start], rule api_step.closedir, rule prod.collapse [symmetric])
  then show ?thesis
    using session_invariant [OF tiny_mount] by (simp add: align_buffer_def SIZEOF_FD_def)
qed

text \<open>
  C28: Taking a descriptor finds the first closed one, gives it the handle \<open>i + 1\<close>, and leaves all
  others alone; the handle is then good until it is returned, after which it answers
  \<open>SPIFFS_ERR_FILE_CLOSED\<close>. With all descriptors open the answer is
  \<open>SPIFFS_ERR_OUT_OF_FILE_DESCS\<close>, and handles outside of the table are bad descriptors.
\<close>

theorem fd_table_correct:
  assumes "length (fd_space fs) < 32768"
  shows "(case find (\<lambda>i. file_nbr (fd_at i fs) = 0) [0..<length (fd_space fs)] of
       None \<Rightarrow> spiffs_fd_find_new fs = (SPIFFS_ERR_OUT_OF_FILE_DESCS, None, fs)
     | Some i \<Rightarrow> (\<exists>fs'. spiffs_fd_find_new fs = (SPIFFS_OK, Some i, fs') \<and> i < length (fd_space fs) \<and>
          spiffs_fd_get (int i + 1) fs' = (SPIFFS_OK, i) \<and> (\<forall>j. j \<noteq> i \<longrightarrow> fd_at j fs' = fd_at j fs) \<and>
          (\<exists>fs''. spiffs_fd_return (int i + 1) fs' = (SPIFFS_OK, fs'') \<and>
             fst (spiffs_fd_get (int i + 1) fs'') = SPIFFS_ERR_FILE_CLOSED))) \<and>
     (\<forall>f. f \<le> 0 \<or> int (length (fd_space fs)) < f \<longrightarrow>
        fst (spiffs_fd_get f fs) = SPIFFS_ERR_BAD_DESCRIPTOR \<and> spiffs_fd_return f fs = (SPIFFS_ERR_BAD_DESCRIPTOR, fs))"
    (is "?new \<and> ?bad")
proof
  have c: "fd_count_s16 f = int (length (fd_space fs))" if "length (fd_space f) = length (fd_space fs)" for f
    using assms that by (simp add: fd_count_s16_def s16_small)
  show ?bad by (simp add: spiffs_fd_get_def spiffs_fd_return_def c)
  show ?new
  proof (cases "find (\<lambda>i. file_nbr (fd_at i fs) = 0) [0..<length (fd_space fs)]")
    case (Some i)
    then have i: "i < length (fd_space fs)" by (auto simp: find_Some_iff)
    let ?f1 = "upd_fd i (file_nbr_update (\<lambda>_. s16_of (i + 1))) fs"
    have n: "s16_of (i + 1) = int i + 1" using i assms by (simp add: s16_small)
    have "spiffs_fd_find_new fs = (SPIFFS_OK, Some i, ?f1)"
      using Some by (simp add: spiffs_fd_find_new_def fd_find_free_spec)
    moreover have "spiffs_fd_get (int i + 1) ?f1 = (SPIFFS_OK, i)"
      using i n by (simp add: spiffs_fd_get_def c fd_at_upd)
    moreover have "spiffs_fd_return (int i + 1) ?f1 = (SPIFFS_OK, upd_fd i (file_nbr_update (\<lambda>_. 0)) ?f1)"
      using i n by (simp add: spiffs_fd_return_def c fd_at_upd)
    moreover have "fst (spiffs_fd_get (int i + 1) (upd_fd i (file_nbr_update (\<lambda>_. 0)) ?f1)) = SPIFFS_ERR_FILE_CLOSED"
      using i by (simp add: spiffs_fd_get_def c fd_at_upd)
    ultimately show ?thesis using Some i by (simp add: fd_at_upd)
  qed (simp add: spiffs_fd_find_new_def fd_find_free_spec)
qed

definition demo_fds :: spiffs where
  "demo_fds = demo_raw\<lparr>fd_space := [blank_fd\<lparr>file_nbr := 1\<rparr>, blank_fd]\<rparr>"

theorem fd_table_correct_witness:
  "(\<exists>fs'. spiffs_fd_find_new demo_fds = (SPIFFS_OK, Some 1, fs') \<and> spiffs_fd_get 2 fs' = (SPIFFS_OK, 1)) \<and>
   fst (spiffs_fd_get 3 demo_fds) = SPIFFS_ERR_BAD_DESCRIPTOR"
  using fd_table_correct [of demo_fds] by (auto simp: demo_fds_def fd_at_def blank_fd_def)

end
