(* ===== verification/Spiffs_Clean.thy ===== *)
theory Spiffs_Clean
  imports Spiffs_Session "HOL-Library.Multiset"
begin

section \<open>SPIFFS: the cleaner and its candidates\<close>

text \<open>
  The outer loop of \<open>spiffs_gc_clean\<close> as a step relation between its passes, with the rank that
  every pass decreases: the cleaner ends whatever the flash callbacks do, and the fuel of the model
  is never used up. Then the choice of the blocks to clean: the table of candidates is sorted by
  score.
\<close>

subsection \<open>Passes of the cleaner\<close>

inductive gc_pass :: "nat \<Rightarrow> gc_loop \<Rightarrow> gc_loop \<Rightarrow> bool" for bix where
  pass: "gl_res s = SPIFFS_OK \<Longrightarrow> gc_state (gl_gc s) \<noteq> FINISHED \<Longrightarrow>
     gc_pages bix [gl_entry s div entries_per_page (cfg (gl_fs s))..<SPIFFS_OBJ_LOOKUP_PAGES (cfg (gl_fs s))]
       (s\<lparr>gl_gc := (gl_gc s)\<lparr>obj_id_found := False\<rparr>, gl_scan := True\<rparr>) = Some (Continue s1) \<Longrightarrow>
     gl_res s1 = SPIFFS_OK \<Longrightarrow> gc_switch s1 = Some (Continue s2) \<Longrightarrow> gc_pass bix s s2"

inductive_cases gc_passE: "gc_pass bix s s'"

text \<open>Passes left: the scan index of the search for object data only moves forward.\<close>

definition gc_rank :: "nat \<Rightarrow> gc_loop \<Rightarrow> nat" where
  "gc_rank me s = (case gc_state (gl_gc s) of
     FIND_OBJ_DATA \<Rightarrow> 2 * (me - gl_entry s) + 2
   | MOVE_OBJ_DATA \<Rightarrow> 2 * (me - stored_scan_entry_index (gl_gc s)) + 3
   | MOVE_OBJ_IX \<Rightarrow> 1
   | FINISHED \<Rightarrow> 0)"

lemma holds_mono: "holds m P \<Longrightarrow> (\<And>x. P x \<Longrightarrow> Q x) \<Longrightarrow> holds m Q"
  by (simp add: holds_def)

text \<open>
  What every entry and every load of a lookup page keep, the scan of the lookup pages keeps. The
  entries come in order, so that the entry at hand is the one the loop variable names.
\<close>

lemma gc_entries_keep:
  assumes entry: "\<And>s a off. P s \<Longrightarrow> gl_scan s \<Longrightarrow> gl_entry s < lim \<Longrightarrow>
      holds (gc_entry bix a off (gl_entry s) s) (flow_holds (\<lambda>_. True) (\<lambda>s'. P s' \<and> gl_entry s' = Suc (gl_entry s)))"
    and "P s"
  shows "holds (gc_entries bix a off [gl_entry s..<lim] s) (flow_holds (\<lambda>_. True) P)"
  using assms(2)
proof (induction "[gl_entry s..<lim]" arbitrary: s)
  case (Cons e es s)
  have e: "e = gl_entry s" "gl_entry s < lim" "es = [Suc (gl_entry s)..<lim]"
    using Cons(2) [symmetric] by (auto simp: upt_eq_Cons_conv)
  show ?case
  proof (cases "\<not> gl_scan s \<or> gl_res s \<noteq> SPIFFS_OK")
    case True
    show ?thesis unfolding Cons(2) [symmetric] gc_entries.simps if_P [OF True] using Cons.prems by simp
  next
    case False
    show ?thesis
      unfolding Cons(2) [symmetric] gc_entries.simps if_not_P [OF False] e(1)
    proof (rule holds_flow [OF entry], goal_cases)
      case (6 t)
      then have "es = [gl_entry t..<lim]" using e(3) by simp
      then show ?case using Cons.hyps(1) [of t] 6 by simp
    qed (use Cons.prems e False in auto)
  qed
next
  case Nil
  then show ?case by (simp del: upt_eq_Nil_conv)
qed

lemma gc_pages_keep:
  assumes load: "\<And>(s :: gc_loop) r f a. P s \<Longrightarrow> lu_load a (gl_fs s) = Some (r, f) \<Longrightarrow> P (s\<lparr>gl_res := r, gl_fs := f\<rparr>)"
    and entry: "\<And>s a off. P s \<Longrightarrow> gl_scan s \<Longrightarrow> gl_entry s < max_entries (cfg (gl_fs s)) \<Longrightarrow>
      holds (gc_entry bix a off (gl_entry s) s) (flow_holds (\<lambda>_. True) (\<lambda>s'. P s' \<and> gl_entry s' = Suc (gl_entry s)))"
    and cfg: "\<And>s. P s \<Longrightarrow> cfg (gl_fs s) = c" and "P s"
  shows "holds (gc_pages bix ps s) (flow_holds (\<lambda>_. True) P)"
  using assms(4)
proof (induction ps arbitrary: s)
  case (Cons p ps)
  show ?case
  proof (cases "\<not> gl_scan s \<or> gl_res s \<noteq> SPIFFS_OK")
    case True
    show ?thesis unfolding gc_pages.simps if_P [OF True] using Cons.prems by simp
  next
    case False
    show ?thesis
      unfolding gc_pages.simps if_not_P [OF False] Let_def
    proof (rule holds_bind_any, rule holds_case_prod, rule holds_flow)
      fix x r f
      assume "lu_load (add32 (bix * log_block_size (cfg (gl_fs s))) (SPIFFS_PAGE_TO_PADDR (cfg (gl_fs s)) p)) (gl_fs s) = Some x"
        "x = (r, f)"
      then have P: "P (s\<lparr>gl_res := r, gl_fs := f\<rparr>)" using load Cons.prems by blast
      show "holds (gc_entries bix (add32 (bix * log_block_size (cfg (gl_fs s))) (SPIFFS_PAGE_TO_PADDR (cfg (gl_fs s)) p))
          (p * entries_per_page (cfg (gl_fs s)))
          [gl_entry (s\<lparr>gl_res := r, gl_fs := f\<rparr>)..<
             min (p * entries_per_page (cfg (gl_fs s)) + entries_per_page (cfg (gl_fs s))) (max_entries (cfg (gl_fs s)))]
          (s\<lparr>gl_res := r, gl_fs := f\<rparr>)) (flow_holds (\<lambda>_. True) P)"
        by (rule gc_entries_keep [OF entry]) (use P cfg Cons.prems in auto)
    qed (use Cons.IH in auto)
  qed
qed simp

text \<open>Searching for object data from entry \<open>i\<close> on: what holds throughout the scan.\<close>

definition find_scan :: "spiffs_config \<Rightarrow> nat \<Rightarrow> gc_loop \<Rightarrow> bool" where
  "find_scan c i s \<longleftrightarrow> gc_state (gl_gc s) = FIND_OBJ_DATA \<and> cfg (gl_fs s) = c \<and> i \<le> gl_entry s \<and>
     (obj_id_found (gl_gc s) \<longrightarrow> \<not> gl_scan s \<and> i < gl_entry s \<and> gl_entry s \<le> max_entries c)"

lemma cfg_lu_load: "lu_load a fs = Some (r, f) \<Longrightarrow> cfg f = cfg fs"
  using holdsD [OF shape.I_lu_load [of fs fs a]] by (fastforce simp: same_shape_def)

lemma find_pages:
  assumes "find_scan c i s"
  shows "holds (gc_pages bix ps s) (flow_holds (\<lambda>_. True) (find_scan c i))"
proof (rule gc_pages_keep [where P = "find_scan c i" and c = c])
  show "find_scan c i (s\<lparr>gl_res := r, gl_fs := f\<rparr>)" if "find_scan c i s" "lu_load a (gl_fs s) = Some (r, f)" for s r f a
    using that cfg_lu_load [OF that(2)] by (simp add: find_scan_def)
  show "holds (gc_entry bix a off (gl_entry s) s)
      (flow_holds (\<lambda>_. True) (\<lambda>s'. find_scan c i s' \<and> gl_entry s' = Suc (gl_entry s)))"
    if "find_scan c i s" "gl_scan s" "gl_entry s < max_entries (cfg (gl_fs s))" for s a off
    unfolding gc_entry_def Let_def using that
    by (intro holds_bind_any) (auto simp: find_scan_def gc_find_data_def)
qed (use assms in \<open>simp_all add: find_scan_def\<close>)

text \<open>The moving states keep the state of the machine during the scan.\<close>

lemma move_keeps:
  assumes "gl_gc s = g"
  shows "holds (gc_move_data a oid s) (flow_holds (\<lambda>_. True) (\<lambda>s'. gl_gc s' = g))"
    "holds (gc_move_ix a oid s) (flow_holds (\<lambda>_. True) (\<lambda>s'. gl_gc s' = g))"
  unfolding gc_move_data_def gc_move_ix_def Let_def
  by ((rule holds_if holds_bind_any holds_case_prod | simp add: assms)+)

lemma move_pages:
  assumes "gl_gc s = g" "gc_state g \<in> {MOVE_OBJ_DATA, MOVE_OBJ_IX}"
  shows "holds (gc_pages bix ps s) (flow_holds (\<lambda>_. True) (\<lambda>s'. gl_gc s' = g))"
proof -
  let ?F = "flow_holds (\<lambda>_. True) (\<lambda>s'. gl_gc s' = g)"
  have en: "holds (gc_entry bix a off e t) ?F" if "gl_gc t = g" for a off e t
    unfolding gc_entry_def Let_def
    by (rule holds_bind_any, rule holds_flow [where R = "\<lambda>_. True" and P = "\<lambda>s'. gl_gc s' = g"])
      (use that assms(2) in \<open>auto split: spiffs_gc_clean_state.split intro: move_keeps\<close>)
  have ens: "holds (gc_entries bix a off es t) ?F" if "gl_gc t = g" for a off es t
    using that by (induction es arbitrary: t) (auto intro!: holds_flow [OF en])
  have "holds (gc_pages bix ps t) ?F" if "gl_gc t = g" for t
    using that
  proof (induction ps arbitrary: t)
    case (Cons p ps)
    show ?case unfolding gc_pages.simps Let_def
      by ((rule Cons.IH holds_flow [OF ens] holds_if holds_bind_any holds_case_prod | simp add: Cons.prems)+)
  qed simp
  then show ?thesis using assms(1) .
qed

lemma find_done:
  "gc_find_done s = Some (Continue s') \<Longrightarrow>
   if obj_id_found (gl_gc s) then gc_state (gl_gc s') = MOVE_OBJ_DATA \<and> stored_scan_entry_index (gl_gc s') = gl_entry s
   else gc_state (gl_gc s') = MOVE_OBJ_IX"
  unfolding gc_find_done_def Let_def
  by (auto simp: bind_eq_Some_conv split: if_splits prod.splits)

lemma move_done:
  "gc_move_done s = Some (Continue s') \<Longrightarrow>
   gc_state (gl_gc s') = FIND_OBJ_DATA \<and> gl_entry s' = stored_scan_entry_index (gl_gc s)"
  unfolding gc_move_done_def Let_def
  by (auto simp: bind_eq_Some_conv split: if_splits prod.splits)

text \<open>A pass keeps the configuration and decreases the rank.\<close>

lemma gc_pass_cfg:
  assumes "gc_pass bix s s'"
  shows "cfg (gl_fs s') = cfg (gl_fs s)"
  using assms
proof (rule gc_passE)
  fix s1
  let ?s = "s\<lparr>gl_gc := (gl_gc s)\<lparr>obj_id_found := False\<rparr>, gl_scan := True\<rparr>"
  assume p: "gc_pages bix [gl_entry s div entries_per_page (cfg (gl_fs s))..<SPIFFS_OBJ_LOOKUP_PAGES (cfg (gl_fs s))] ?s =
      Some (Continue s1)" "gc_switch s1 = Some (Continue s')"
  have "same_shape (gl_fs s) (gl_fs s1)"
    using holdsD [OF shape.I_gc_pages p(1), of "gl_fs s"] by (simp add: same_shape_def)
  then have "same_shape (gl_fs s) (gl_fs s')"
    using holdsD [OF shape.I_gc_switch p(2), of "gl_fs s"] by simp
  then show ?thesis by (simp add: same_shape_def)
qed

lemma gc_pass_rank:
  assumes "gc_pass bix s s'"
  shows "gc_rank (max_entries (cfg (gl_fs s))) s' < gc_rank (max_entries (cfg (gl_fs s))) s"
  using assms
proof (rule gc_passE)
  fix s1
  let ?c = "cfg (gl_fs s)"
  let ?s = "s\<lparr>gl_gc := (gl_gc s)\<lparr>obj_id_found := False\<rparr>, gl_scan := True\<rparr>"
  assume a: "gc_state (gl_gc s) \<noteq> FINISHED"
    and p: "gc_pages bix [gl_entry s div entries_per_page ?c..<SPIFFS_OBJ_LOOKUP_PAGES ?c] ?s = Some (Continue s1)"
    and sw: "gc_switch s1 = Some (Continue s')"
  show ?thesis
  proof (cases "gc_state (gl_gc s)")
    case FIND_OBJ_DATA
    then have "find_scan ?c (gl_entry s) ?s" by (simp add: find_scan_def)
    then have "find_scan ?c (gl_entry s) s1" using holdsD [OF find_pages p] by simp
    then show ?thesis using sw FIND_OBJ_DATA find_done [of s1 s']
      by (auto simp: gc_switch_def gc_rank_def find_scan_def split: if_splits)
  next
    case MOVE_OBJ_DATA
    then have "gl_gc s1 = gl_gc ?s" using holdsD [OF move_pages [of ?s "gl_gc ?s"] p] by simp
    then show ?thesis using sw MOVE_OBJ_DATA move_done [of s1 s'] by (auto simp: gc_switch_def gc_rank_def)
  next
    case MOVE_OBJ_IX
    then have "gl_gc s1 = gl_gc ?s" using holdsD [OF move_pages [of ?s "gl_gc ?s"] p] by simp
    then show ?thesis using sw MOVE_OBJ_IX by (auto simp: gc_switch_def gc_rank_def)
  qed (use a in simp)
qed

lemma gc_rank_bound: "gc_rank me s < 2 * me + 4"
  by (cases "gc_state (gl_gc s)") (auto simp: gc_rank_def)

text \<open>With more fuel than the rank, fuel does not matter.\<close>

lemma gc_clean_loop_fuel:
  "gc_rank (max_entries (cfg (gl_fs s))) s < n \<Longrightarrow> gc_clean_loop (n + k) bix s = gc_clean_loop n bix s"
proof (induction n arbitrary: s)
  case (Suc n)
  have IH: "gc_clean_loop (n + k) bix s' = gc_clean_loop n bix s'" if "gc_pass bix s s'" for s'
    using Suc gc_pass_rank [OF that] gc_pass_cfg [OF that] by simp
  let ?c = "cfg (gl_fs s)"
  let ?p = "gc_pages bix [gl_entry s div entries_per_page ?c..<SPIFFS_OBJ_LOOKUP_PAGES ?c]
       (s\<lparr>gl_gc := (gl_gc s)\<lparr>obj_id_found := False\<rparr>, gl_scan := True\<rparr>)"
  show ?case
  proof (cases "gl_res s \<noteq> SPIFFS_OK \<or> gc_state (gl_gc s) = FINISHED")
    case False
    show ?thesis
    proof (cases "\<exists>s1. ?p = Some (Continue s1) \<and> gl_res s1 = SPIFFS_OK")
      case True
      then obtain s1 where s1: "?p = Some (Continue s1)" "gl_res s1 = SPIFFS_OK" by blast
      have "gc_clean_loop (n + k) bix s' = gc_clean_loop n bix s'" if "gc_switch s1 = Some (Continue s')" for s'
        using IH gc_pass.pass [OF _ _ s1 that] False by blast
      then show ?thesis using False s1 by (cases "gc_switch s1") (auto simp: Let_def split: flow.split)
    next
      case no: False
      then show ?thesis using False by (cases ?p) (auto simp: Let_def split: flow.split)
    qed
  qed simp
qed simp

subsection \<open>Candidates\<close>

text \<open>The table: the real candidates, best score first, then free slots.\<close>

definition cand_slot :: "nat \<times> int" where
  "cand_slot = (NO_IX, - 1)"

definition cand_table :: "nat \<Rightarrow> (nat \<times> int) list \<Rightarrow> (nat \<times> int) list" where
  "cand_table k xs = take k xs @ replicate (k - length xs) cand_slot"

text \<open>Insertion by ascending key, behind equal keys: one step of a stable sort.\<close>

fun insert_after :: "('a \<Rightarrow> 'k :: linorder) \<Rightarrow> 'a \<Rightarrow> 'a list \<Rightarrow> 'a list" where
  "insert_after f x [] = [x]"
| "insert_after f x (y # ys) = (if f x < f y then x # y # ys else y # insert_after f x ys)"

lemma mset_insert_after: "mset (insert_after f x ys) = add_mset x (mset ys)"
  by (induction ys) auto

lemma set_insert_after: "set (insert_after f x ys) = insert x (set ys)"
  by (induction ys) auto

lemma sorted_insert_after: "sorted (map f ys) \<Longrightarrow> sorted (map f (insert_after f x ys))"
  by (induction ys) (auto simp: set_insert_after)

lemma filter_insert_after:
  "sorted (map f ys) \<Longrightarrow>
   filter (\<lambda>z. f z = k) (insert_after f x ys) = filter (\<lambda>z. f z = k) ys @ (if f x = k then [x] else [])"
proof (induction ys)
  case (Cons y ys)
  have "filter (\<lambda>z. f z = f x) (y # ys) = []" if "f x < f y"
    using that Cons.prems by (auto simp: filter_empty_conv)
  then show ?case using Cons by auto
qed simp

lemma sort_key_snoc: "sort_key f (xs @ [x]) = insert_after f x (sort_key f xs)"
proof (rule properties_for_sort_key)
  show "mset (insert_after f x (sort_key f xs)) = mset (xs @ [x])" by (simp add: mset_insert_after)
  show "filter (\<lambda>z. f k = f z) (insert_after f x (sort_key f xs)) = filter (\<lambda>z. f k = f z) (xs @ [x])" for k
  proof -
    have eq: "(\<lambda>z. f k = f z) = (\<lambda>z. f z = f k)" by auto
    show ?thesis unfolding eq using filter_insert_after [of f "sort_key f xs" "f k" x] by (simp add: sort_key_stable)
  qed
qed (simp add: sorted_insert_after)

lemma butlast_cand_table: "butlast (cand_table (Suc k) ys) = cand_table k ys"
proof (cases "Suc k \<le> length ys")
  case True
  then show ?thesis by (simp add: cand_table_def butlast_take)
next
  case False
  then have "Suc k - length ys = Suc (k - length ys)" by simp
  moreover have "butlast (replicate (Suc n) x) = replicate n x" for n and x :: "nat \<times> int"
    by (induction n) simp_all
  ultimately show ?thesis using False by (simp add: cand_table_def butlast_append del: replicate.simps)
qed

lemma cand_insert_table:
  assumes "\<forall>x \<in> set xs. fst x \<noteq> NO_IX"
  shows "cand_insert b s (cand_table k xs) = cand_table k (insert_after (\<lambda>x. - snd x) (b, s) xs)"
  using assms
proof (induction xs arbitrary: k)
  case Nil
  then show ?case by (cases k) (simp_all add: cand_table_def cand_slot_def)
next
  case (Cons x xs)
  show ?case
  proof (cases k)
    case 0
    then show ?thesis by (simp add: cand_table_def)
  next
    case (Suc j)
    have c: "cand_table k (y # ys) = y # cand_table j ys" for y ys by (simp add: cand_table_def Suc)
    show ?thesis
      using Cons butlast_cand_table [of j "x # xs"] by (cases x) (auto simp: c cand_table_def Suc)
  qed
qed

text \<open>What the search for candidates has found among the blocks before \<open>b\<close>.\<close>

definition cands_upto :: "nat \<Rightarrow> nat \<Rightarrow> (nat \<times> int) list \<Rightarrow> nat \<Rightarrow> (nat \<times> int) list \<Rightarrow> bool" where
  "cands_upto k b cands n xs \<longleftrightarrow> cands = cand_table k (sort_key (\<lambda>x. - snd x) xs) \<and> n = length xs \<and>
     sorted_wrt (<) (map fst xs) \<and> (\<forall>x \<in> set xs. fst x < b)"

lemma cands_upto_insert:
  assumes "cands_upto k b cands n xs" "b < NO_IX"
  shows "cands_upto k (Suc b) (cand_insert b s cands) (n + 1) (xs @ [(b, s)])"
proof -
  have "\<forall>x \<in> set (sort_key (\<lambda>x. - snd x) xs). fst x \<noteq> NO_IX"
    using assms by (fastforce simp: cands_upto_def)
  then show ?thesis
    using assms cand_insert_table [of "sort_key (\<lambda>x. - snd x) xs" b s k]
    by (auto simp: cands_upto_def sort_key_snoc sorted_wrt_append less_Suc_eq)
qed

lemma cands_upto_mono: "cands_upto k b cands n xs \<Longrightarrow> b \<le> b' \<Longrightarrow> cands_upto k b' cands n xs"
  by (auto simp: cands_upto_def)

lemma holds_pair:
  "(\<And>a b c d. m = Some (a, (b, c), d) \<Longrightarrow> holds (f a b c d) Q) \<Longrightarrow> holds (m \<bind> (\<lambda>(a, (b, c), d). f a b c d)) Q"
  by (rule holds_bind_any) auto

lemma find_candidate_blocks_table:
  assumes "cands_upto k b cands n xs" "b + m \<le> NO_IX"
  shows "holds (find_candidate_blocks m cr b addr cands n fs)
     (\<lambda>(res, cands, n, fs). \<exists>xs. cands_upto k (b + m) cands n xs)"
  using assms
proof (induction m arbitrary: b addr cands n xs fs)
  case (Suc m)
  have b: "b < NO_IX" "u16_of (b + 1) = Suc b" using Suc.prems(2) by (simp_all add: NO_IX_def)
  have IH: "holds (find_candidate_blocks m cr (Suc b) a cs n' f) (\<lambda>(res, cands, n, fs). \<exists>xs. cands_upto k (b + Suc m) cands n xs)"
    if "cands_upto k (Suc b) cs n' ys" for a cs n' f ys
    using Suc.IH [OF that] Suc.prems(2) by simp
  let ?P = "\<lambda>cs n'. \<exists>xs. cands_upto k (b + Suc m) cs n' xs"
  have stop: "?P cands n" using cands_upto_mono [OF Suc.prems(1), of "b + Suc m"] by auto
  have ins: "?P (cand_insert b s cands) (n + 1)" for s
    using cands_upto_mono [OF cands_upto_insert [OF Suc.prems(1) b(1), of s], of "b + Suc m"] by auto
  show ?case
    unfolding find_candidate_blocks.simps Let_def b(2)
    by ((rule holds_pair holds_if holds_bind_any holds_case_prod | rule IH [OF cands_upto_mono [OF Suc.prems(1) le_SucI [OF order_refl]]] |
        rule IH [OF cands_upto_insert [OF Suc.prems(1) b(1)]] | (unfold holds_Some prod.case, rule stop ins))+)
qed auto

subsection \<open>Properties\<close>

text \<open>
  C18: The cleaner always comes to an end, whatever the flash callbacks return: there is no infinite
  sequence of passes of its state machine, and more passes than \<open>2 * max_entries + 4\<close> change
  nothing, so the bound of the model is never reached.
\<close>

theorem gc_clean_terminates:
  "\<not> (\<exists>f. \<forall>i. gc_pass bix (f i) (f (Suc i))) \<and>
   gc_clean_loop (2 * max_entries (cfg (gl_fs s)) + 4 + k) bix s = gc_clean_loop (2 * max_entries (cfg (gl_fs s)) + 4) bix s"
proof
  show "\<not> (\<exists>f. \<forall>i. gc_pass bix (f i) (f (Suc i)))"
  proof
    assume "\<exists>f. \<forall>i. gc_pass bix (f i) (f (Suc i))"
    then obtain f where f: "\<And>i. gc_pass bix (f i) (f (Suc i))" by blast
    have c: "cfg (gl_fs (f i)) = cfg (gl_fs (f 0))" for i
      by (induction i) (simp_all add: gc_pass_cfg [OF f])
    have "gc_rank (max_entries (cfg (gl_fs (f 0)))) (f (Suc i)) < gc_rank (max_entries (cfg (gl_fs (f 0)))) (f i)" for i
      using gc_pass_rank [OF f, of i] unfolding c [of i] .
    then show False
      using wf_measure [of "gc_rank (max_entries (cfg (gl_fs (f 0))))"] unfolding wf_iff_no_infinite_down_chain
      by (metis in_measure)
  qed
  show "gc_clean_loop (2 * max_entries (cfg (gl_fs s)) + 4 + k) bix s = gc_clean_loop (2 * max_entries (cfg (gl_fs s)) + 4) bix s"
    by (rule gc_clean_loop_fuel) (rule gc_rank_bound)
qed

text \<open>
  C19: When the search for blocks to clean returns, with any outcome of the flash callbacks, the
  table of candidates is the list of the blocks it counted, each at most once and below the block
  count, stably sorted by falling score, cut off or filled up with free slots at the end. The
  collector takes its head, so it cleans a block of the best score.
\<close>

theorem gc_candidates_sorted:
  assumes "spiffs_gc_find_candidate crammed fs = Some (res, cands, n, fs')" "block_count fs < NO_IX"
  shows "\<exists>xs. cands = cand_table (max_candidates fs) (sort_key (\<lambda>x. - snd x) xs) \<and> n = length xs \<and>
     sorted_wrt (<) (map fst xs) \<and> (\<forall>x \<in> set xs. fst x < block_count fs)"
proof -
  have "cands_upto (max_candidates fs) 0 (replicate (max_candidates fs) (NO_IX, - 1)) 0 []"
    by (simp add: cands_upto_def cand_table_def cand_slot_def)
  then have "holds (find_candidate_blocks (block_count fs) crammed 0 0 (replicate (max_candidates fs) (NO_IX, - 1)) 0 fs)
      (\<lambda>(res, cands, n, fs'). \<exists>xs. cands_upto (max_candidates fs) (0 + block_count fs) cands n xs)"
    using assms(2) by (intro find_candidate_blocks_table) auto
  then show ?thesis
    using assms(1) by (auto simp: spiffs_gc_find_candidate_def bind_eq_Some_conv holds_def cands_upto_def)
qed

text \<open>One block of two pages whose only entry is deleted, with one page in the cache.\<close>

definition small_fs :: spiffs where
  "small_fs = demo_raw\<lparr>cfg := demo_cfg\<lparr>hal_read_f := (\<lambda>a n m. Some (0, replicate n 0)), phys_size := 32,
       log_block_size := 32, log_page_size := 16\<rparr>, block_count := 1,
     cache := Some \<lparr>cpage_count = 1, c_last_access = 0, cpage_use_map = 0xfffffffe, cpage_use_mask = 1,
       cpages = [blank_cache_page 16]\<rparr>\<rparr>"

lemma small_find: "\<exists>fs'. spiffs_gc_find_candidate False small_fs = Some (SPIFFS_OK, [(0, 3276755)], 1, fs')"
  by (simp add: small_fs_def spiffs_gc_find_candidate_def scan_block_def SPIFFS_OBJ_LOOKUP_PAGES_def SPIFFS_PAGES_PER_BLOCK_def
     lu_load_def spiffs_phys_rd_def spiffs_cache_page_get_def demo_raw_def max_candidates_def blank_cache_page_def
     SPIFFS_PADDR_TO_PAGE_def SPIFFS_PADDR_TO_PAGE_OFFSET_def SPIFFS_PAGE_TO_PADDR_def cache_tick_def c_defs
     spiffs_cache_page_remove_oldest_def spiffs_cache_page_allocate_def upd_cp_def buf_slice_def lu_get_def
     entries_per_page_def max_entries_def SPIFFS_OBJ_LOOKUP_MAX_ENTRIES_def s32_of_def Let_def find_candidate_step_def rd_id_def
     SPIFFS_ERASE_COUNT_PADDR_def SPIFFS_BLOCK_TO_PADDR_def gc_score_def gc_erase_age_def) (simp add: numeral_2_eq_2)

theorem gc_candidates_sorted_witness:
  "\<exists>cands n xs. cands = cand_table 1 (sort_key (\<lambda>x. - snd x) xs) \<and> cands = [(0, 3276755)] \<and> n = length xs \<and> n = 1"
proof -
  obtain fs' where f: "spiffs_gc_find_candidate False small_fs = Some (SPIFFS_OK, [(0, 3276755)], 1, fs')"
    using small_find by blast
  have "block_count small_fs < NO_IX" "max_candidates small_fs = 1"
    by (simp_all add: small_fs_def max_candidates_def NO_IX_def)
  then show ?thesis using gc_candidates_sorted [OF f] by auto
qed

end
