(* ===== verification/Spiffs_Terminate.thy ===== *)
theory Spiffs_Terminate
  imports Spiffs_Clean
begin

section \<open>SPIFFS: the object loops end\<close>

text \<open>
  The loops of append, modify, truncate and read and the search for a free object id carry fuel in
  the model. Here none of the object loops runs on, whatever the flash callbacks return: there is no
  infinite chain of passes, and the fuel is enough - a loop is undefined only where one of its passes
  is, never for want of fuel. For the search for a free object id more fuel gives the same result.
\<close>

subsection \<open>Loops with fuel\<close>

primrec fuel_loop :: "('a \<Rightarrow> bool) \<Rightarrow> ('a \<Rightarrow> ('r, 'a) flow option) \<Rightarrow> nat \<Rightarrow> 'a \<Rightarrow> ('r, 'a) flow option" where
  "fuel_loop fin body 0 s = None"
| "fuel_loop fin body (Suc n) s =
     (if fin s then Some (Continue s)
      else do { r \<leftarrow> body s; case r of Continue s \<Rightarrow> fuel_loop fin body n s | _ \<Rightarrow> Some r })"

lemma fuel_loop_enough:
  assumes pass: "\<And>s s'. ok s \<Longrightarrow> \<not> fin s \<Longrightarrow> body s = Some (Continue s') \<Longrightarrow> ok s' \<and> rank s' < (rank s :: nat)"
    and "ok s" "rank s < n"
  shows "fuel_loop fin body (n + k) s = fuel_loop fin body n s"
  using assms(2,3)
proof (induction n arbitrary: s)
  case (Suc n)
  have "fuel_loop fin body (n + k) s' = fuel_loop fin body n s'" if "\<not> fin s" "body s = Some (Continue s')" for s'
    using pass [OF Suc.prems(1) that] Suc by simp
  then show ?case by (cases "body s") (auto split: flow.split)
qed simp

text \<open>One pass, from a state where the loop goes on.\<close>

inductive loop_pass :: "('a \<Rightarrow> bool) \<Rightarrow> ('a \<Rightarrow> ('r, 'a) flow option) \<Rightarrow> 'a \<Rightarrow> 'a \<Rightarrow> bool" for fin body where
  "\<not> fin s \<Longrightarrow> body s = Some (Continue s') \<Longrightarrow> loop_pass fin body s s'"

inductive_simps loop_pass_iff: "loop_pass fin body s s'"

text \<open>
  A loop of the code, with passes \<open>body\<close> until \<open>fin\<close> and the result read off by \<open>res\<close>, ends from the
  state \<open>s\<close> within the passes that \<open>n\<close> allows.
\<close>

definition loop_ends :: "(nat \<Rightarrow> 'a \<Rightarrow> 'b option) \<Rightarrow> (('r, 'a) flow \<Rightarrow> 'b) \<Rightarrow> ('a \<Rightarrow> bool) \<Rightarrow> ('a \<Rightarrow> ('r, 'a) flow option) \<Rightarrow>
    nat \<Rightarrow> 'a \<Rightarrow> bool" where
  "loop_ends loop res fin body n s \<longleftrightarrow>
     (\<forall>m t. loop m t = map_option res (fuel_loop fin body m t)) \<and>
     \<not> (\<exists>f. f 0 = s \<and> (\<forall>i. loop_pass fin body (f i) (f (Suc i)))) \<and>
     (loop n s = None \<longrightarrow> (\<exists>t. (loop_pass fin body)\<^sup>*\<^sup>* s t \<and> \<not> fin t \<and> body t = None)) \<and>
     (\<forall>k. loop (n + k) s = loop n s)"

lemma fuel_loop_None:
  assumes pass: "\<And>s s'. ok s \<Longrightarrow> \<not> fin s \<Longrightarrow> body s = Some (Continue s') \<Longrightarrow> ok s' \<and> rank s' < (rank s :: nat)"
    and "ok s" "rank s < n" "fuel_loop fin body n s = None"
  shows "\<exists>t. (loop_pass fin body)\<^sup>*\<^sup>* s t \<and> \<not> fin t \<and> body t = None"
  using assms(2-4)
proof (induction n arbitrary: s)
  case (Suc n)
  have go: "\<not> fin s" using Suc.prems(3) by auto
  show ?case
  proof (cases "body s")
    case None
    then show ?thesis using go by blast
  next
    case (Some r)
    then obtain s' where s': "r = Continue s'" "fuel_loop fin body n s' = None"
      using Suc.prems(3) go by (cases r) simp_all
    have "ok s' \<and> rank s' < rank s" using pass [OF Suc.prems(1) go] Some s'(1) by simp
    then obtain t where "(loop_pass fin body)\<^sup>*\<^sup>* s' t" "\<not> fin t" "body t = None" using Suc.IH s'(2) Suc.prems(2) by fastforce
    moreover have "loop_pass fin body s s'" using go Some s'(1) by (simp add: loop_pass_iff)
    ultimately show ?thesis by (meson converse_rtranclp_into_rtranclp)
  qed
qed simp

lemma no_chain:
  assumes pass: "\<And>s s'. ok s \<Longrightarrow> \<not> fin s \<Longrightarrow> body s = Some (Continue s') \<Longrightarrow> ok s' \<and> rank s' < (rank s :: nat)"
    and "ok s"
  shows "\<not> (\<exists>f. f 0 = s \<and> (\<forall>i. loop_pass fin body (f i) (f (Suc i))))"
proof
  assume "\<exists>f. f 0 = s \<and> (\<forall>i. loop_pass fin body (f i) (f (Suc i)))"
  then obtain f where f: "f 0 = s" "\<And>i. loop_pass fin body (f i) (f (Suc i))" by blast
  have "ok (f i)" for i
  proof (induction i)
    case (Suc i)
    then show ?case using pass f(2) [of i] by (simp add: loop_pass_iff)
  qed (simp add: f(1) assms(2))
  then have "rank (f (Suc i)) < rank (f i)" for i using pass f(2) [of i] by (simp add: loop_pass_iff)
  then show False using wf_measure [of rank] unfolding wf_iff_no_infinite_down_chain by (metis in_measure)
qed

lemma loop_endsI:
  assumes "\<And>m t. loop m t = map_option res (fuel_loop fin body m t)"
    and "\<And>s s'. ok s \<Longrightarrow> \<not> fin s \<Longrightarrow> body s = Some (Continue s') \<Longrightarrow> ok s' \<and> rank s' < (rank s :: nat)"
    and "ok s" "rank s < n"
  shows "loop_ends loop res fin body n s"
  unfolding loop_ends_def assms(1) option.map_disc_iff
proof (intro conjI allI impI refl)
  show "\<not> (\<exists>f. f 0 = s \<and> (\<forall>i. loop_pass fin body (f i) (f (Suc i))))"
    by (rule no_chain [where ok = ok and rank = rank, OF assms(2,3)])
  show "fuel_loop fin body n s = None \<Longrightarrow> \<exists>t. (loop_pass fin body)\<^sup>*\<^sup>* s t \<and> \<not> fin t \<and> body t = None"
    by (rule fuel_loop_None [where ok = ok and rank = rank, OF assms(2-4)])
  show "map_option res (fuel_loop fin body (n + k) s) = map_option res (fuel_loop fin body n s)" for k
    by (rule arg_cong, rule fuel_loop_enough [where ok = ok and rank = rank, OF assms(2-4)])
qed

text \<open>Two parts of a body in sequence.\<close>

definition then_flow :: "('r, 'a) flow option \<Rightarrow> ('a \<Rightarrow> ('r, 'a) flow option) \<Rightarrow> ('r, 'a) flow option" where
  "then_flow m f = do { r \<leftarrow> m; case r of Continue s \<Rightarrow> f s | _ \<Rightarrow> Some r }"

lemma then_flow_Continue:
  "then_flow m f = Some (Continue s') \<longleftrightarrow> (\<exists>s. m = Some (Continue s) \<and> f s = Some (Continue s'))"
proof (cases m)
  case (Some r)
  then show ?thesis by (cases r) (simp_all add: then_flow_def)
qed (simp add: then_flow_def)

lemma loop_flow:
  "m \<bind> case_flow (\<lambda>x. Some (Return x)) (\<lambda>s. Some (Break s))
     (\<lambda>s. f s \<bind> case_flow (\<lambda>x. Some (Return x)) (\<lambda>s. Some (Break s)) g) =
   then_flow m f \<bind> case_flow (\<lambda>x. Some (Return x)) (\<lambda>s. Some (Break s)) g"
proof (cases m)
  case (Some r)
  then show ?thesis by (cases r) (simp_all add: then_flow_def)
qed (simp add: then_flow_def)

subsection \<open>Append and modify\<close>

definition obj_done :: "byte list \<Rightarrow> obj_loop \<Rightarrow> bool" where
  "obj_done data s \<longleftrightarrow> ol_res s \<noteq> SPIFFS_OK \<or> length data \<le> ol_written s"

definition append_body :: "nat \<Rightarrow> nat \<Rightarrow> byte list \<Rightarrow> obj_loop \<Rightarrow> (int \<times> spiffs, obj_loop) flow option" where
  "append_body fd offs data s = then_flow (append_index fd offs s) (append_data fd offs data)"

definition modify_body :: "nat \<Rightarrow> nat \<Rightarrow> byte list \<Rightarrow> obj_loop \<Rightarrow> (int \<times> spiffs, obj_loop) flow option" where
  "modify_body fd offs data s = then_flow (modify_index fd offs s) (modify_data fd data)"

lemma append_fuel: "append_loop n fd offs data s = fuel_loop (obj_done data) (append_body fd offs data) n s"
  by (induction n arbitrary: s) (simp_all add: obj_done_def append_body_def loop_flow cong: flow.case_cong)

lemma modify_fuel: "modify_loop n fd offs data s = fuel_loop (obj_done data) (modify_body fd offs data) n s"
  by (induction n arbitrary: s) (simp_all add: obj_done_def modify_body_def loop_flow cong: flow.case_cong)

text \<open>Pages to go: with \<open>D\<close> bytes per page, the first one from \<open>ol_page_offs\<close> on.\<close>

definition obj_rank :: "byte list \<Rightarrow> nat \<Rightarrow> obj_loop \<Rightarrow> nat" where
  "obj_rank data D s = (if length data \<le> ol_written s then 0 else (length data - ol_written s + ol_page_offs s) div D + 1)"

definition obj_ok :: "nat \<Rightarrow> obj_loop \<Rightarrow> bool" where
  "obj_ok D s \<longleftrightarrow> SPIFFS_DATA_PAGE_SIZE (cfg (ol_fs s)) = D \<and> ol_page_offs s < D"

lemma rank_step:
  assumes "w < len" "p < (D :: nat)" "w' = w + min (len - w) (D - p)" "w' < len"
  shows "(len - w') div D < (len - w + p) div D"
proof -
  have w': "w' = w + (D - p)" using assms(3,4) by (auto simp: min_def split: if_splits)
  then have "len - w + p = (len - w') + D" using assms(2,4) by linarith
  then show ?thesis using assms(2) by (simp add: div_add_self2)
qed

lemmas split_rules = holds_if holds_bind_any holds_case_prod holds_case_option

text \<open>The index part of a pass leaves the position alone, the data part moves it on.\<close>

lemma append_index_pos:
  "holds (append_index fd offs s) (flow_holds (\<lambda>_. True) (\<lambda>s'. ol_written s' = ol_written s \<and> ol_page_offs s' = ol_page_offs s))"
  unfolding append_index_def Let_def by ((rule split_rules | simp)+)

lemma modify_index_pos:
  "holds (modify_index fd offs s) (flow_holds (\<lambda>_. True) (\<lambda>s'. ol_written s' = ol_written s \<and> ol_page_offs s' = ol_page_offs s))"
  unfolding modify_index_def Let_def by ((rule split_rules | simp)+)

definition moved :: "byte list \<Rightarrow> obj_loop \<Rightarrow> (int \<times> spiffs, obj_loop) flow \<Rightarrow> bool" where
  "moved data s r \<longleftrightarrow> (\<forall>s'. r = Continue s' \<longrightarrow> ol_page_offs s' = 0 \<and>
     ol_written s' = ol_written s + min (length data - ol_written s) (sub32 (SPIFFS_DATA_PAGE_SIZE (cfg (ol_fs s))) (ol_page_offs s)))"

lemma append_data_pos: "holds (append_data fd offs data s) (moved data s)"
  unfolding append_data_def Let_def
  by ((rule holds_flow [where R = "\<lambda>_. True" and P = "\<lambda>_. True"] split_rules | simp add: moved_def split del: if_split)+)

lemma modify_data_pos: "holds (modify_data fd data s) (moved data s)"
  unfolding modify_data_def Let_def
  by ((rule holds_flow [where R = "\<lambda>_. True" and P = "\<lambda>_. True"] split_rules | simp add: moved_def split del: if_split)+)

lemma obj_pass:
  assumes ix: "\<And>s. holds (ix s) (flow_holds (\<lambda>_. True) (\<lambda>s'. ol_written s' = ol_written s \<and> ol_page_offs s' = ol_page_offs s))"
    and ix_cfg: "\<And>s. holds (ix s) (flow_holds (\<lambda>(a, fs). same_shape (ol_fs s) fs) (\<lambda>s'. same_shape (ol_fs s) (ol_fs s')))"
    and dat: "\<And>s. holds (dat s) (moved data s)"
    and dat_cfg: "\<And>s. holds (dat s) (flow_holds (\<lambda>(a, fs). same_shape (ol_fs s) fs) (\<lambda>s'. same_shape (ol_fs s) (ol_fs s')))"
    and s: "obj_ok D s" "\<not> obj_done data s" "then_flow (ix s) dat = Some (Continue s')"
  shows "obj_ok D s' \<and> obj_rank data D s' < obj_rank data D s"
proof -
  obtain t where t: "ix s = Some (Continue t)" "dat t = Some (Continue s')" using s(3) by (auto simp: then_flow_Continue)
  have pos: "ol_written t = ol_written s" "ol_page_offs t = ol_page_offs s" using holdsD [OF ix t(1)] by simp_all
  have c: "cfg (ol_fs t) = cfg (ol_fs s)" "cfg (ol_fs s') = cfg (ol_fs s)"
    using holdsD [OF ix_cfg t(1)] holdsD [OF dat_cfg t(2)] by (simp_all add: same_shape_def)
  have D: "D < 4294967296" using s(1) mod_less_divisor [of "2 ^ 32"] by (auto simp: obj_ok_def SPIFFS_DATA_PAGE_SIZE_def sub32_def)
  have m: "ol_page_offs s' = 0" "ol_written s' = ol_written s + min (length data - ol_written s) (D - ol_page_offs s)"
    using holdsD [OF dat t(2)] pos c s(1) D by (simp_all add: moved_def obj_ok_def)
  have "ol_written s < length data" using s(2) by (simp add: obj_done_def)
  then have "obj_rank data D s' < obj_rank data D s"
    using rank_step [of "ol_written s" "length data" "ol_page_offs s" D "ol_written s'"] m s(1) by (auto simp: obj_rank_def obj_ok_def)
  then show ?thesis using m(1) c s(1) by (simp add: obj_ok_def)
qed

lemma same_shape_refl [simp]: "same_shape fs fs"
  by (simp add: same_shape_def)

lemma obj_rank_init:
  assumes "0 < SPIFFS_DATA_PAGE_SIZE (cfg fs)"
  shows "obj_rank data (SPIFFS_DATA_PAGE_SIZE (cfg fs)) (obj_loop_init fd offs r fs) < length data div SPIFFS_DATA_PAGE_SIZE (cfg fs) + 3"
    "obj_ok (SPIFFS_DATA_PAGE_SIZE (cfg fs)) (obj_loop_init fd offs r fs)"
proof -
  let ?D = "SPIFFS_DATA_PAGE_SIZE (cfg fs)"
  have m: "offs mod ?D < ?D" using assms by simp
  then have "(length data + offs mod ?D) div ?D \<le> (length data + ?D) div ?D" by (intro div_le_mono) simp
  also have "\<dots> = length data div ?D + 1" using assms by (simp add: div_add_self2)
  finally show "obj_rank data ?D (obj_loop_init fd offs r fs) < length data div ?D + 3"
    by (simp add: obj_rank_def obj_loop_init_def)
  show "obj_ok ?D (obj_loop_init fd offs r fs)" using m by (simp add: obj_ok_def obj_loop_init_def)
qed

lemma append_loop_ends:
  assumes "D = SPIFFS_DATA_PAGE_SIZE (cfg fs)" "0 < D"
  shows "loop_ends (\<lambda>n. append_loop n fd offs data) id (obj_done data) (append_body fd offs data) (length data div D + 3)
    (obj_loop_init fd offs r fs)"
proof (rule loop_endsI [where ok = "obj_ok D" and rank = "obj_rank data D"])
  fix s s' assume "obj_ok D s" "\<not> obj_done data s" "append_body fd offs data s = Some (Continue s')"
  then show "obj_ok D s' \<and> obj_rank data D s' < obj_rank data D s" unfolding append_body_def
    by (intro obj_pass [OF append_index_pos shape.I_append_index append_data_pos shape.I_append_data]) simp_all
qed (use assms obj_rank_init [of fs] in \<open>simp_all add: append_fuel option.map_id\<close>)

lemma modify_loop_ends:
  assumes "D = SPIFFS_DATA_PAGE_SIZE (cfg fs)" "0 < D"
  shows "loop_ends (\<lambda>n. modify_loop n fd offs data) id (obj_done data) (modify_body fd offs data) (length data div D + 3)
    (obj_loop_init fd offs r fs)"
proof (rule loop_endsI [where ok = "obj_ok D" and rank = "obj_rank data D"])
  fix s s' assume "obj_ok D s" "\<not> obj_done data s" "modify_body fd offs data s = Some (Continue s')"
  then show "obj_ok D s' \<and> obj_rank data D s' < obj_rank data D s" unfolding modify_body_def
    by (intro obj_pass [OF modify_index_pos shape.I_modify_index modify_data_pos shape.I_modify_data]) simp_all
qed (use assms obj_rank_init [of fs] in \<open>simp_all add: modify_fuel option.map_id\<close>)

subsection \<open>Truncate\<close>

definition trunc_done :: "nat \<Rightarrow> trunc_loop \<Rightarrow> bool" where
  "trunc_done new_size s \<longleftrightarrow> tl_cur_size s \<le> new_size"

definition truncate_body :: "nat \<Rightarrow> nat \<Rightarrow> bool \<Rightarrow> trunc_loop \<Rightarrow> (int \<times> spiffs, trunc_loop) flow option" where
  "truncate_body fd ns rm s = then_flow (truncate_index fd s) (truncate_page fd ns rm)"

lemma truncate_fuel: "truncate_loop n fd ns rm s = fuel_loop (trunc_done ns) (truncate_body fd ns rm) n s"
  by (induction n arbitrary: s) (simp_all add: trunc_done_def truncate_body_def loop_flow cong: flow.case_cong)

lemma truncate_index_pos: "holds (truncate_index fd s) (flow_holds (\<lambda>_. True) (\<lambda>s'. tl_cur_size s' = tl_cur_size s))"
  unfolding truncate_index_def Let_def by ((rule split_rules | simp)+)

definition shrunk :: "trunc_loop \<Rightarrow> (int \<times> spiffs, trunc_loop) flow \<Rightarrow> bool" where
  "shrunk s r \<longleftrightarrow> (\<forall>s'. r = Continue s' \<longrightarrow>
     (let D = SPIFFS_DATA_PAGE_SIZE (cfg (tl_fs s)); sz = tl_cur_size s
      in tl_cur_size s' = (if sz mod D = 0 then sub32 sz D else sz - sz mod D)))"

lemma truncate_full_pos: "holds (truncate_full fd pix s) (shrunk s)"
  unfolding truncate_full_def Let_def by ((rule split_rules | simp add: shrunk_def Let_def split del: if_split)+)

lemma truncate_partial_pos: "holds (truncate_partial fd ns pix s) (shrunk s)"
  unfolding truncate_partial_def Let_def by ((rule split_rules | simp add: shrunk_def)+)

lemma truncate_page_pos: "holds (truncate_page fd ns rm s) (shrunk s)"
  unfolding truncate_page_def Let_def
proof ((rule holds_bind_any)+, rule holds_if)
  fix pix f assume "objix_put (tl_cur_spix s) (tl_data_spix s) NO_IX (tl_fs s) = Some f"
  then have "shrunk (s\<lparr>tl_fs := f\<rparr>) = shrunk s"
    by (auto simp: shrunk_def objix_put_def bind_eq_Some_conv fun_eq_iff)
  then show "holds (truncate_full fd pix (s\<lparr>tl_fs := f\<rparr>)) (shrunk s)" "holds (truncate_partial fd ns pix (s\<lparr>tl_fs := f\<rparr>)) (shrunk s)"
    using truncate_full_pos [of fd pix "s\<lparr>tl_fs := f\<rparr>"] truncate_partial_pos [of fd ns pix "s\<lparr>tl_fs := f\<rparr>"] by simp_all
qed

definition trunc_ok :: "nat \<Rightarrow> trunc_loop \<Rightarrow> bool" where
  "trunc_ok D s \<longleftrightarrow> SPIFFS_DATA_PAGE_SIZE (cfg (tl_fs s)) = D \<and> tl_cur_size s < 2 ^ 32"

text \<open>Cutting back to a page boundary leaves one page less.\<close>

lemma pages_shrink:
  assumes "0 < (D :: nat)" "0 < sz"
  shows "((if sz mod D = 0 then sz - D else sz - sz mod D) + D - 1) div D < (sz + D - 1) div D"
proof (cases "sz mod D = 0")
  case True
  then have "D \<le> sz" using assms(2) by (intro dvd_imp_le) auto
  then have "sz - D + D - 1 = sz - 1" "sz + D - 1 = (sz - 1) + D" using assms(2) by simp_all
  moreover have "(sz - 1 + D) div D = (sz - 1) div D + 1" using assms(1) by (intro div_add_self2) simp
  ultimately show ?thesis using True by simp
next
  case False
  define q r where "q = sz div D" and "r = sz mod D"
  have sz: "sz = D * q + r" "0 < r" "r < D" using False assms(1) by (simp_all add: q_def r_def)
  have "(D * q + D - 1) div D = q" using assms(1) by (intro div_nat_eqI) (auto simp: algebra_simps)
  moreover have "(sz + D - 1) div D = q + 1" using sz by (intro div_nat_eqI) (auto simp: algebra_simps)
  moreover have "sz - sz mod D = D * q" using sz by (simp add: r_def [symmetric])
  ultimately show ?thesis using False by simp
qed

lemma truncate_loop_ends:
  assumes "D = SPIFFS_DATA_PAGE_SIZE (cfg (tl_fs s))" "0 < D" "tl_cur_size s < 2 ^ 32"
  shows "loop_ends (\<lambda>n. truncate_loop n fd ns rm) id (trunc_done ns) (truncate_body fd ns rm) (tl_cur_size s div D + 3) s"
proof (rule loop_endsI [where ok = "trunc_ok D" and rank = "\<lambda>s. (tl_cur_size s + D - 1) div D"])
  fix s s' assume a: "trunc_ok D s" "\<not> trunc_done ns s" "truncate_body fd ns rm s = Some (Continue s')"
  obtain t where t: "truncate_index fd s = Some (Continue t)" "truncate_page fd ns rm t = Some (Continue s')"
    using a(3) by (auto simp: truncate_body_def then_flow_Continue)
  have sz: "tl_cur_size t = tl_cur_size s" using holdsD [OF truncate_index_pos t(1)] by simp
  have c: "cfg (tl_fs t) = cfg (tl_fs s)" "cfg (tl_fs s') = cfg (tl_fs s)"
    using holdsD [OF shape.I_truncate_index t(1), of "tl_fs s"] holdsD [OF shape.I_truncate_page t(2), of "tl_fs t"]
    by (simp_all add: same_shape_def)
  have "0 < tl_cur_size s" using a(2) by (simp add: trunc_done_def)
  moreover have "D \<le> tl_cur_size s" if "tl_cur_size s mod D = 0" using that calculation by (intro dvd_imp_le) auto
  ultimately have s': "tl_cur_size s' = (if tl_cur_size s mod D = 0 then tl_cur_size s - D else tl_cur_size s - tl_cur_size s mod D)"
    using holdsD [OF truncate_page_pos t(2)] a(1) c sz by (auto simp: shrunk_def trunc_ok_def Let_def)
  then show "trunc_ok D s' \<and> (tl_cur_size s' + D - 1) div D < (tl_cur_size s + D - 1) div D"
    using pages_shrink [OF assms(2) \<open>0 < tl_cur_size s\<close>] a(1) c by (auto simp: trunc_ok_def)
next
  have "(tl_cur_size s + D - 1) div D \<le> (tl_cur_size s + D) div D" by (intro div_le_mono) simp
  then show "(tl_cur_size s + D - 1) div D < tl_cur_size s div D + 3" using assms(2) by (simp add: div_add_self2)
qed (use assms in \<open>simp_all add: trunc_ok_def truncate_fuel option.map_id\<close>)

subsection \<open>Read\<close>

definition read_done :: "nat \<Rightarrow> read_state \<Rightarrow> bool" where
  "read_done end_offs s \<longleftrightarrow> end_offs \<le> fst s"

definition read_body :: "nat \<Rightarrow> nat \<Rightarrow> read_state \<Rightarrow> (int \<times> byte list \<times> spiffs, read_state) flow option" where
  "read_body fd end_offs = (\<lambda>(cur_offset, data_spix, prev_spix, dst, res, fs).
     read_pass fd end_offs cur_offset data_spix prev_spix dst fs)"

fun read_result :: "(int \<times> byte list \<times> spiffs, read_state) flow \<Rightarrow> int \<times> byte list \<times> spiffs" where
  "read_result (Return x) = x"
| "read_result (Break (_, _, _, dst, res, fs)) = (res, dst, fs)"
| "read_result (Continue (_, _, _, dst, res, fs)) = (res, dst, fs)"

lemma read_fuel:
  "read_loop n fd eo co ds ps d r fs = map_option read_result (fuel_loop (read_done eo) (read_body fd eo) n (co, ds, ps, d, r, fs))"
proof (induction n arbitrary: co ds ps d r fs)
  case (Suc n)
  show ?case
  proof (cases "read_pass fd eo co ds ps d fs")
    case (Some x)
    then show ?thesis using Suc by (cases x) (auto simp: read_done_def read_body_def split: prod.splits)
  qed (simp add: read_done_def read_body_def)
qed simp

text \<open>A pass that goes on has delivered at least a byte.\<close>

lemma read_pass_moves: "holds (read_pass fd eo co ds ps d fs) (\<lambda>r. \<forall>s'. r = Continue s' \<longrightarrow> co < fst s')"
  unfolding read_pass_def Let_def by ((rule split_rules | simp)+)

lemma read_loop_ends:
  assumes "eo - co < n"
  shows "loop_ends (\<lambda>n (co, ds, ps, d, r, fs). read_loop n fd eo co ds ps d r fs) read_result (read_done eo) (read_body fd eo) n
    (co, ds, ps, d, r, fs)"
proof (rule loop_endsI [where ok = "\<lambda>_. True" and rank = "\<lambda>s. eo - fst s"])
  fix s s' assume a: "\<not> read_done eo s" "read_body fd eo s = Some (Continue s')"
  then have "fst s < fst s'" using holdsD [OF read_pass_moves] by (cases s) (fastforce simp: read_body_def)
  then show "True \<and> eo - fst s' < eo - fst s" using a(1) by (simp add: read_done_def)
qed (use assms in \<open>auto simp: read_fuel\<close>)

subsection \<open>Free object ids\<close>

text \<open>The width of the range of ids still searched.\<close>

definition id_range :: "spiffs_free_obj_id_state \<Rightarrow> nat" where
  "id_range st = unat (max_obj_id st) - unat (min_obj_id st)"

lemma narrowed:
  fixes lo :: u16
  shows "unat (lo + of_nat c) - unat lo \<le> c"
proof -
  have "unat (lo + of_nat c) = (unat lo + c) mod 2 ^ 16" by (simp add: unat_word_ariths unat_of_nat mod_add_right_eq)
  also have "\<dots> \<le> unat lo + c" by (rule mod_less_eq_dividend)
  finally show ?thesis by simp
qed

lemma compact_range: "holds (free_id_compact st fs)
    (\<lambda>(r, st', fs'). id_range st' = id_range st \<and> compaction st' = id_range st div log_page_size (cfg fs) \<and> cfg fs' = cfg fs)"
  unfolding free_id_compact_def Let_def
  by (rule holds_bind, rule shape.I_visitor [OF shape.keeps_compact_v, of fs]) (auto simp: id_range_def same_shape_def)

text \<open>
  With more than \<open>8 * page_size\<close> ids left, every round divides the range by the page size, which is
  at least halving it.
\<close>

lemma unfit_range:
  assumes "\<not> ids_fit_bitmap c st" "2 \<le> log_page_size c" "log_page_size c < 65536"
  shows "0 < id_range st div log_page_size c" "id_range st div log_page_size c \<le> id_range st div 2"
proof -
  have "u16_of (log_page_size c) = log_page_size c" using assms(3) by simp
  then have "int (log_page_size c) * 8 < int (unat (max_obj_id st)) - int (unat (min_obj_id st))"
    using assms(1) unfolding ids_fit_bitmap_def by (simp only: not_le)
  then have "8 * log_page_size c < id_range st" unfolding id_range_def by linarith
  then have "log_page_size c \<le> id_range st" by simp
  then show "0 < id_range st div log_page_size c" using assms(2) by (simp add: div_greater_zero_iff)
  show "id_range st div log_page_size c \<le> id_range st div 2" using assms(2) by (rule div_le_mono2 [rotated]) simp
qed

lemma recompact_cong:
  assumes "\<And>st' r fs'. id_range st' = id_range st \<Longrightarrow> compaction st' = id_range st div log_page_size (cfg fs) \<Longrightarrow>
     cfg fs' = cfg fs \<Longrightarrow> f st' r fs' = g st' r fs'"
  shows "(free_id_compact st fs \<bind> (\<lambda>(res, st, fs). if res < 0 then Some (res, None, fs) else f st res fs)) =
     (free_id_compact st fs \<bind> (\<lambda>(res, st, fs). if res < 0 then Some (res, None, fs) else g st res fs))"
proof (rule Option.bind_cong [OF refl], clarify)
  fix res st' fs' assume "free_id_compact st fs = Some (res, st', fs')"
  from holdsD [OF compact_range this] show "(if res < 0 then Some (res, None, fs') else f st' res fs') =
      (if res < 0 then Some (res, None, fs') else g st' res fs')" using assms by simp
qed

lemma free_obj_id_loop_enough:
  assumes "2 \<le> log_page_size (cfg fs)" "log_page_size (cfg fs) < 65536"
    and "id_range st < 2 ^ n" "0 < compaction st" "compaction st \<le> id_range st div 2"
  shows "free_obj_id_loop (n + 2 + k) nm st r fs = free_obj_id_loop (n + 2) nm st r fs"
  using assms
proof (induction n arbitrary: st r fs)
  case (Suc n)
  obtain mc i where mc: "compact_min 0 (work fs) (0xff, 0) = (mc, i)" by fastforce
  let ?lo = "min_obj_id st + of_nat (i * compaction st)"
  let ?st = "st\<lparr>min_obj_id := ?lo, max_obj_id := ?lo + of_nat (compaction st)\<rparr>"
  have r: "id_range ?st \<le> compaction st" using narrowed by (simp add: id_range_def)
  have fit: "free_obj_id_loop (n + 2 + k) nm ?st r fs = free_obj_id_loop (n + 2) nm ?st r fs" if "ids_fit_bitmap (cfg fs) ?st"
    using that by simp
  have unfit: "(free_id_compact ?st fs \<bind> (\<lambda>(res, st, fs). if res < 0 then Some (res, None, fs) else free_obj_id_loop (n + 2 + k) nm st res fs)) =
     (free_id_compact ?st fs \<bind> (\<lambda>(res, st, fs). if res < 0 then Some (res, None, fs) else free_obj_id_loop (n + 2) nm st res fs))"
    if "\<not> ids_fit_bitmap (cfg fs) ?st"
    using unfit_range [OF that Suc.prems(1,2)] r Suc.prems by (intro recompact_cong Suc.IH) auto
  have c: "compaction st \<noteq> 0" using Suc.prems(4) by simp
  have e: "Suc n + 2 = Suc (n + 2)" by simp
  show ?case
    unfolding e add_Suc free_obj_id_loop.simps(2) Let_def mc prod.case if_not_P [OF c]
    by (rule refl fit unfit if_cong | assumption)+
qed auto

text \<open>The first round, with nothing compacted yet.\<close>

lemma free_obj_id_search_enough:
  assumes "2 \<le> log_page_size (cfg fs)" "log_page_size (cfg fs) < 65536" "compaction st = 0"
  shows "free_obj_id_loop (40 + k) nm st r fs = free_obj_id_loop 40 nm st r fs"
proof (cases "ids_fit_bitmap (cfg fs) st")
  case True
  have e: "40 = Suc 39" by simp
  show ?thesis unfolding e add_Suc free_obj_id_loop.simps(2) if_P [OF True] ..
next
  case False
  have lt: "id_range st < 2 ^ 37"
    using unsigned_less [of "max_obj_id st", where ?'a = nat] by (simp add: id_range_def)
  have rc: "(free_id_compact st fs \<bind> (\<lambda>(res, st, fs). if res < 0 then Some (res, None, fs) else free_obj_id_loop (37 + 2 + k) nm st res fs)) =
     (free_id_compact st fs \<bind> (\<lambda>(res, st, fs). if res < 0 then Some (res, None, fs) else free_obj_id_loop (37 + 2) nm st res fs))"
    using unfit_range [OF False assms(1,2)] lt assms(1,2) by (intro recompact_cong free_obj_id_loop_enough) auto
  have e: "40 = Suc (37 + 2)" by simp
  obtain mc i where mc: "compact_min 0 (work fs) (0xff, 0) = (mc, i)" by fastforce
  show ?thesis
    unfolding e add_Suc free_obj_id_loop.simps(2) Let_def mc prod.case if_P [OF assms(3)]
    by (rule refl rc if_cong)+
qed

subsection \<open>Properties\<close>

text \<open>
  C29: The loops of append, modify, truncate and read end, whatever the flash callbacks return: all
  passes but the first and the last of append and modify write whole pages, truncate removes a
  page in each pass, and read delivers at least a byte. From the states they start in there is no
  infinite chain of passes; the numbers of passes the model allows are enough, so that a loop has no
  result only if a pass that it reaches is undefined itself, and more passes would not change the
  result.
\<close>

theorem object_loops_terminate:
  assumes "D = SPIFFS_DATA_PAGE_SIZE (cfg fs)" "0 < D" "tl_fs t = fs" "tl_cur_size t < 2 ^ 32"
  shows "loop_ends (\<lambda>n. append_loop n fd offs data) id (obj_done data) (append_body fd offs data) (length data div D + 3)
       (obj_loop_init fd offs r fs) \<and>
     loop_ends (\<lambda>n. modify_loop n fd offs data) id (obj_done data) (modify_body fd offs data) (length data div D + 3)
       (obj_loop_init fd offs r fs) \<and>
     loop_ends (\<lambda>n. truncate_loop n fd new_size rm) id (trunc_done new_size) (truncate_body fd new_size rm) (tl_cur_size t div D + 3) t \<and>
     loop_ends (\<lambda>n (co, ds, ps, d, r, fs). read_loop n fd (add32 offs len) co ds ps d r fs) read_result (read_done (add32 offs len))
       (read_body fd (add32 offs len)) (len + 1) (offs, spix, prev, dst, r, fs)"
proof -
  have "add32 offs len \<le> offs + len" unfolding add32_def by (rule mod_less_eq_dividend)
  then have "add32 offs len - offs < len + 1" by simp
  then show ?thesis
    using assms by (intro conjI append_loop_ends modify_loop_ends truncate_loop_ends read_loop_ends) simp_all
qed

theorem object_loops_terminate_witness:
  "\<not> (\<exists>f. f 0 = obj_loop_init 0 0 SPIFFS_OK demo_blank \<and>
      (\<forall>i. loop_pass (obj_done (replicate 10 7)) (append_body 0 0 (replicate 10 7)) (f i) (f (Suc i)))) \<and>
   append_loop (10 div 251 + 3 + 5) 0 0 (replicate 10 7) (obj_loop_init 0 0 SPIFFS_OK demo_blank) =
     append_loop (10 div 251 + 3) 0 0 (replicate 10 7) (obj_loop_init 0 0 SPIFFS_OK demo_blank)"
proof -
  let ?t = "\<lparr>tl_objix_pix = 1, tl_data_spix = 0, tl_cur_size = 10, tl_cur_spix = 0, tl_prev_spix = NO_IX,
     tl_res = SPIFFS_OK, tl_fs = demo_blank\<rparr>"
  have "(251 :: nat) = SPIFFS_DATA_PAGE_SIZE (cfg demo_blank)" "(0 :: nat) < 251" "tl_fs ?t = demo_blank" "tl_cur_size ?t < 2 ^ 32"
    by (simp_all add: SPIFFS_DATA_PAGE_SIZE_def SIZEOF_PAGE_HEADER_def)
  from object_loops_terminate [OF this, of 0 0 "replicate 10 7" SPIFFS_OK, unfolded length_replicate]
  have "loop_ends (\<lambda>n. append_loop n 0 0 (replicate 10 7)) id (obj_done (replicate 10 7)) (append_body 0 0 (replicate 10 7))
      (10 div 251 + 3) (obj_loop_init 0 0 SPIFFS_OK demo_blank)" by (rule conjunct1)
  then show ?thesis unfolding loop_ends_def by (elim conjE) (intro conjI, assumption, rule spec)
qed

text \<open>
  The search for a free object id ends: once the ids do not fit the bit map, each round divides
  the range of ids by the page size, so 40 rounds are enough for the 16-bit ids.
\<close>

theorem free_obj_id_search_terminates:
  assumes "2 \<le> log_page_size (cfg fs)" "log_page_size (cfg fs) < 65536" "compaction st = 0"
  shows "free_obj_id_loop (40 + k) nm st r fs = free_obj_id_loop 40 nm st r fs"
  using assms by (rule free_obj_id_search_enough)

theorem free_obj_id_search_terminates_witness:
  "free_obj_id_loop (40 + 3) None \<lparr>min_obj_id = 1, max_obj_id = 0x7fff, compaction = 0, conflicting_name = None\<rparr> SPIFFS_OK demo_blank =
   free_obj_id_loop 40 None \<lparr>min_obj_id = 1, max_obj_id = 0x7fff, compaction = 0, conflicting_name = None\<rparr> SPIFFS_OK demo_blank"
  by (rule free_obj_id_search_terminates) simp_all

end
