(* ===== verification/Spiffs_Geometry.thy ===== *)
theory Spiffs_Geometry
  imports Spiffs_Terminate
begin

section \<open>SPIFFS: geometry, object indices and names\<close>

text \<open>
  Where things are: lookup entries against pages, spans of an object against the entries of its
  index pages, the marks of a block against its lookup entries, and the encoding of headers and
  names.
\<close>

subsection \<open>Lookup entries and pages\<close>

lemma entry_inverse:
  assumes "geom c" "lu_geom c nb" "b < nb" "e < max_entries c"
  shows "SPIFFS_BLOCK_FOR_PAGE c (SPIFFS_OBJ_LOOKUP_ENTRY_TO_PIX c b e) = b"
    "SPIFFS_OBJ_LOOKUP_ENTRY_FOR_PAGE c (SPIFFS_OBJ_LOOKUP_ENTRY_TO_PIX c b e) = e"
    "\<not> SPIFFS_IS_LOOKUP_PAGE c (SPIFFS_OBJ_LOOKUP_ENTRY_TO_PIX c b e)"
    "SPIFFS_OBJ_LOOKUP_ENTRY_TO_PIX c b e < nb * SPIFFS_PAGES_PER_BLOCK c"
proof -
  let ?P = "SPIFFS_PAGES_PER_BLOCK c" and ?O = "SPIFFS_OBJ_LOOKUP_PAGES c"
  have lt: "?O + e < ?P" using assms(4) lu_geom_entries(1,2) [OF assms(2)] by simp
  have p: "SPIFFS_OBJ_LOOKUP_ENTRY_TO_PIX c b e = b * ?P + (?O + e)" using entry_page(1) [OF assms] .
  show "SPIFFS_BLOCK_FOR_PAGE c (SPIFFS_OBJ_LOOKUP_ENTRY_TO_PIX c b e) = b" using lt by (simp add: p SPIFFS_BLOCK_FOR_PAGE_def)
  show "SPIFFS_OBJ_LOOKUP_ENTRY_FOR_PAGE c (SPIFFS_OBJ_LOOKUP_ENTRY_TO_PIX c b e) = e"
    using lt assms(2) by (simp add: p SPIFFS_OBJ_LOOKUP_ENTRY_FOR_PAGE_def lu_geom_def)
  show "\<not> SPIFFS_IS_LOOKUP_PAGE c (SPIFFS_OBJ_LOOKUP_ENTRY_TO_PIX c b e)" using lt by (simp add: p SPIFFS_IS_LOOKUP_PAGE_def)
  have "b * ?P + (?O + e) < Suc b * ?P" using lt by simp
  also have "\<dots> \<le> nb * ?P" using assms(3) by (intro mult_le_mono1) simp
  finally show "SPIFFS_OBJ_LOOKUP_ENTRY_TO_PIX c b e < nb * ?P" by (simp add: p)
qed

lemma page_entry:
  assumes "geom c" "lu_geom c nb" "pix < nb * SPIFFS_PAGES_PER_BLOCK c" "\<not> SPIFFS_IS_LOOKUP_PAGE c pix"
  shows "SPIFFS_BLOCK_FOR_PAGE c pix < nb" "SPIFFS_OBJ_LOOKUP_ENTRY_FOR_PAGE c pix < max_entries c"
    "SPIFFS_OBJ_LOOKUP_ENTRY_TO_PIX c (SPIFFS_BLOCK_FOR_PAGE c pix) (SPIFFS_OBJ_LOOKUP_ENTRY_FOR_PAGE c pix) = pix"
proof -
  let ?P = "SPIFFS_PAGES_PER_BLOCK c" and ?O = "SPIFFS_OBJ_LOOKUP_PAGES c"
  have P: "0 < ?P" "?P < 2 ^ 31" using assms(2) by (auto simp: lu_geom_def)
  have m: "?O \<le> pix mod ?P" "pix mod ?P < ?P" using assms(4) P by (simp_all add: SPIFFS_IS_LOOKUP_PAGE_def)
  have e: "SPIFFS_OBJ_LOOKUP_ENTRY_FOR_PAGE c pix = pix mod ?P - ?O"
    unfolding SPIFFS_OBJ_LOOKUP_ENTRY_FOR_PAGE_def using m P(2) by (intro sub32_id) auto
  show b: "SPIFFS_BLOCK_FOR_PAGE c pix < nb" using assms(3) by (simp add: SPIFFS_BLOCK_FOR_PAGE_def less_mult_imp_div_less)
  show "SPIFFS_OBJ_LOOKUP_ENTRY_FOR_PAGE c pix < max_entries c"
    using m lu_geom_entries(1,2) [OF assms(2)] by (simp add: e)
  from entry_page(1) [OF assms(1,2) b this]
  show "SPIFFS_OBJ_LOOKUP_ENTRY_TO_PIX c (SPIFFS_BLOCK_FOR_PAGE c pix) (SPIFFS_OBJ_LOOKUP_ENTRY_FOR_PAGE c pix) = pix"
    using m(1) by (simp add: e SPIFFS_BLOCK_FOR_PAGE_def)
qed

subsection \<open>Object indices\<close>

lemma index_lens:
  assumes "48 \<le> log_page_size c" "log_page_size c < 2 ^ 32"
  shows "0 < SPIFFS_OBJ_HDR_IX_LEN c" "0 < SPIFFS_OBJ_IX_LEN c"
    "SIZEOF_OBJIX_HEADER + 2 * SPIFFS_OBJ_HDR_IX_LEN c \<le> log_page_size c" "SIZEOF_OBJIX + 2 * SPIFFS_OBJ_IX_LEN c \<le> log_page_size c"
  using assms by (simp_all add: SPIFFS_OBJ_HDR_IX_LEN_def SPIFFS_OBJ_IX_LEN_def SIZEOF_OBJIX_HEADER_def SIZEOF_OBJIX_def)

text \<open>The span of data that entry \<open>k\<close> of index page \<open>s\<close> stands for.\<close>

definition span_of :: "spiffs_config \<Rightarrow> nat \<Rightarrow> nat \<Rightarrow> nat" where
  "span_of c s k = (if s = 0 then k else SPIFFS_OBJ_HDR_IX_LEN c + (s - 1) * SPIFFS_OBJ_IX_LEN c + k)"

lemma span_split:
  assumes "48 \<le> log_page_size c" "log_page_size c < 2 ^ 32" "spix < 65536"
  shows "SPIFFS_OBJ_IX_ENTRY_SPAN_IX c spix = 0 \<longleftrightarrow> spix < SPIFFS_OBJ_HDR_IX_LEN c"
    "SPIFFS_OBJ_IX_ENTRY c spix < (if SPIFFS_OBJ_IX_ENTRY_SPAN_IX c spix = 0 then SPIFFS_OBJ_HDR_IX_LEN c else SPIFFS_OBJ_IX_LEN c)"
    "span_of c (SPIFFS_OBJ_IX_ENTRY_SPAN_IX c spix) (SPIFFS_OBJ_IX_ENTRY c spix) = spix"
proof -
  let ?H = "SPIFFS_OBJ_HDR_IX_LEN c" and ?L = "SPIFFS_OBJ_IX_LEN c"
  note l = index_lens [OF assms(1,2)]
  have u: "u16_of (1 + (spix - ?H) div ?L) = 1 + (spix - ?H) div ?L" if "?H \<le> spix"
  proof -
    have "(spix - ?H) div ?L \<le> spix - ?H" by (rule div_le_dividend)
    then have "1 + (spix - ?H) div ?L < 65536" using l(1) that assms(3) by linarith
    then show ?thesis by simp
  qed
  show z: "SPIFFS_OBJ_IX_ENTRY_SPAN_IX c spix = 0 \<longleftrightarrow> spix < ?H"
    using u by (auto simp: SPIFFS_OBJ_IX_ENTRY_SPAN_IX_def)
  show "SPIFFS_OBJ_IX_ENTRY c spix < (if SPIFFS_OBJ_IX_ENTRY_SPAN_IX c spix = 0 then ?H else ?L)"
    using z l by (auto simp: SPIFFS_OBJ_IX_ENTRY_def)
  show "span_of c (SPIFFS_OBJ_IX_ENTRY_SPAN_IX c spix) (SPIFFS_OBJ_IX_ENTRY c spix) = spix"
    using u by (auto simp: span_of_def SPIFFS_OBJ_IX_ENTRY_SPAN_IX_def SPIFFS_OBJ_IX_ENTRY_def)
qed

lemma objix_offset:
  assumes "48 \<le> log_page_size c" "log_page_size c < 2 ^ 32" "spix < 65536" "s = SPIFFS_OBJ_IX_ENTRY_SPAN_IX c spix"
  shows "objix_entry_offset c s spix =
      (if s = 0 then SIZEOF_OBJIX_HEADER else SIZEOF_OBJIX) + 2 * SPIFFS_OBJ_IX_ENTRY c spix"
    "objix_entry_offset c s spix + 2 \<le> log_page_size c"
proof -
  note sp = span_split [OF assms(1-3)] and l = index_lens [OF assms(1,2)]
  show o: "objix_entry_offset c s spix = (if s = 0 then SIZEOF_OBJIX_HEADER else SIZEOF_OBJIX) + 2 * SPIFFS_OBJ_IX_ENTRY c spix"
    using sp(1) assms(4) by (simp add: objix_entry_offset_def SPIFFS_OBJ_IX_ENTRY_def)
  show "objix_entry_offset c s spix + 2 \<le> log_page_size c" using sp(2) l assms(4) unfolding o by (auto split: if_splits)
qed

text \<open>Writing a part of a buffer and reading it, and other parts, back.\<close>

lemma buf_slice_write:
  assumes "buf_write off bs buf = Some w"
  shows "buf_slice off (length bs) w = Some bs" "length w = length buf"
    "off' + n \<le> off \<or> off + length bs \<le> off' \<Longrightarrow> buf_slice off' n w = buf_slice off' n buf"
proof -
  have le: "off + length bs \<le> length buf" and w: "w = take off buf @ bs @ drop (off + length bs) buf"
    using assms by (auto simp: buf_write_def split: if_splits)
  show "buf_slice off (length bs) w = Some bs" and l: "length w = length buf" using le by (simp_all add: w buf_slice_def)
  show "buf_slice off' n w = buf_slice off' n buf" if "off' + n \<le> off \<or> off + length bs \<le> off'"
  proof -
    have "take n (drop off' w) = take n (drop off' buf)"
    proof (rule nth_equalityI)
      show "length (take n (drop off' w)) = length (take n (drop off' buf))" using l by simp
      fix i assume "i < length (take n (drop off' w))"
      then show "take n (drop off' w) ! i = take n (drop off' buf) ! i"
        using that le by (auto simp: w nth_append)
    qed
    then show ?thesis using l by (simp add: buf_slice_def)
  qed
qed

subsection \<open>Names\<close>

lemma takeWhile_nonzero: "0 \<notin> set nm \<Longrightarrow> takeWhile (\<lambda>c. c \<noteq> (0 :: byte)) nm = nm"
  by (auto simp: takeWhile_eq_all_conv)

lemma strncpy_short: "0 \<notin> set nm \<Longrightarrow> length nm < 32 \<Longrightarrow> strncpy_name nm = nm @ 0 # replicate (31 - length nm) 0"
  by (simp add: strncpy_name_def takeWhile_nonzero SPIFFS_OBJ_NAME_LEN_def Let_def replicate_Suc [symmetric] Suc_diff_le del: replicate_Suc)

lemma strcmp_terminated: "0 \<notin> set a \<Longrightarrow> 0 \<notin> set b \<Longrightarrow> strcmp_eq a (b @ 0 # rest) = Some (a = b)"
proof (induction b arbitrary: a)
  case Nil
  then show ?case by (cases a) auto
next
  case (Cons x b)
  then show ?case by (cases a) auto
qed

lemma length_strncpy [simp]: "length (strncpy_name nm) = 32"
  by (simp add: strncpy_name_def SPIFFS_OBJ_NAME_LEN_def Let_def)

lemma objix_header_of_bytes:
  assumes "ph_span_ix (oh_p_hdr h) < 2 ^ 16" "oh_size h < 2 ^ 32" "length (oh_name h) = 32"
  shows "objix_header_of (objix_header_bytes j h) = h"
proof -
  have "page_header_of (page_header_bytes p @ bs) = page_header_of (page_header_bytes p)" for p bs
    by (simp add: page_header_of_def page_header_bytes_def le16_def nth_append)
  then show ?thesis
    using assms page_header_of_bytes [of "oh_p_hdr h"]
    by (simp add: objix_header_of_def objix_header_bytes_def nth_append unat_of_nat take_bit_nat_eq_self)
qed

subsection \<open>Properties\<close>

text \<open>
  The lookup entries of all blocks and the pages outside of the lookup pages correspond one to
  one: every entry names a page of its block that is no lookup page, the page leads back to the
  block and the entry, and every such page has an entry.
\<close>

theorem entries_are_pages:
  assumes "geom c" "lu_geom c nb"
  shows "bij_betw (\<lambda>(b, e). SPIFFS_OBJ_LOOKUP_ENTRY_TO_PIX c b e) ({..<nb} \<times> {..<max_entries c})
       {pix. pix < nb * SPIFFS_PAGES_PER_BLOCK c \<and> \<not> SPIFFS_IS_LOOKUP_PAGE c pix} \<and>
     (\<forall>b < nb. \<forall>e < max_entries c.
        SPIFFS_BLOCK_FOR_PAGE c (SPIFFS_OBJ_LOOKUP_ENTRY_TO_PIX c b e) = b \<and>
        SPIFFS_OBJ_LOOKUP_ENTRY_FOR_PAGE c (SPIFFS_OBJ_LOOKUP_ENTRY_TO_PIX c b e) = e)"
proof
  show "bij_betw (\<lambda>(b, e). SPIFFS_OBJ_LOOKUP_ENTRY_TO_PIX c b e) ({..<nb} \<times> {..<max_entries c})
       {pix. pix < nb * SPIFFS_PAGES_PER_BLOCK c \<and> \<not> SPIFFS_IS_LOOKUP_PAGE c pix}"
  proof (rule bij_betw_byWitness [where f' = "\<lambda>pix. (SPIFFS_BLOCK_FOR_PAGE c pix, SPIFFS_OBJ_LOOKUP_ENTRY_FOR_PAGE c pix)"])
  qed (use entry_inverse [OF assms] page_entry [OF assms] in auto)
qed (use entry_inverse [OF assms] in auto)

theorem entries_are_pages_witness:
  "SPIFFS_OBJ_LOOKUP_ENTRY_FOR_PAGE demo_cfg (SPIFFS_OBJ_LOOKUP_ENTRY_TO_PIX demo_cfg 2 7) = 7"
  using entries_are_pages [OF disk_hal_geom [OF demo_disk(1)] demo_disk(2)] by simp

text \<open>
  An index page holds the page of each of its spans apart: writing the entry of a span
  succeeds, stays within the page, is read back as written, and leaves the entries of all other
  spans of the same index page alone.
\<close>

theorem objix_put_get:
  assumes "48 \<le> log_page_size (cfg fs)" "log_page_size (cfg fs) < 2 ^ 32" "length (work fs) = log_page_size (cfg fs)"
    and "spix < 65536" "pix < 65536" "s = SPIFFS_OBJ_IX_ENTRY_SPAN_IX (cfg fs) spix"
  shows "\<exists>fs'. objix_put s spix pix fs = Some fs' \<and> objix_get s spix fs' = Some pix \<and> length (work fs') = length (work fs) \<and>
     (\<forall>spix'. spix' < 65536 \<and> spix' \<noteq> spix \<and> SPIFFS_OBJ_IX_ENTRY_SPAN_IX (cfg fs) spix' = s \<longrightarrow>
        objix_get s spix' fs' = objix_get s spix' fs)"
proof -
  let ?c = "cfg fs"
  let ?o = "objix_entry_offset ?c s spix"
  note o = objix_offset [OF assms(1,2,4,6)]
  obtain w where w: "buf_write ?o (le16 (of_nat pix)) (work fs) = Some w"
    using o(2) assms(3) by (auto simp: buf_write_def)
  note sl = buf_slice_write [OF w]
  have "objix_get s spix' (fs\<lparr>work := w\<rparr>) = objix_get s spix' fs"
    if "spix' < 65536" "spix' \<noteq> spix" "SPIFFS_OBJ_IX_ENTRY_SPAN_IX ?c spix' = s" for spix'
  proof -
    have "SPIFFS_OBJ_IX_ENTRY ?c spix' \<noteq> SPIFFS_OBJ_IX_ENTRY ?c spix"
      using span_split(3) [OF assms(1,2,4)] span_split(3) [OF assms(1,2) that(1)] that assms(6) by metis
    then have "objix_entry_offset ?c s spix' + 2 \<le> ?o \<or> ?o + 2 \<le> objix_entry_offset ?c s spix'"
      using o(1) objix_offset(1) [OF assms(1,2) that(1) that(3) [symmetric]] by auto
    then show ?thesis using sl(3) [of "objix_entry_offset ?c s spix'" 2] by (simp add: objix_get_def)
  qed
  moreover have "objix_get s spix (fs\<lparr>work := w\<rparr>) = Some pix"
    using sl(1) assms(5) by (simp add: objix_get_def unat_of_nat take_bit_nat_eq_self)
  moreover have "objix_put s spix pix fs = Some (fs\<lparr>work := w\<rparr>)" by (simp add: objix_put_def w)
  ultimately show ?thesis using sl(2) by auto
qed

theorem objix_put_get_witness:
  "\<exists>fs'. objix_put 1 105 77 demo_raw = Some fs' \<and> objix_get 1 105 fs' = Some 77"
  using objix_put_get [of demo_raw 105 77 1]
  by (auto simp: demo_raw_def SPIFFS_OBJ_IX_ENTRY_SPAN_IX_def SPIFFS_OBJ_HDR_IX_LEN_def SPIFFS_OBJ_IX_LEN_def
      SIZEOF_OBJIX_HEADER_def SIZEOF_OBJIX_def)

text \<open>
  The object header an object is created with is read back field by field. The name in it
  matches exactly the name given, for names of up to 31 characters; a longer one is stored without
  terminator, and copying it out of the header runs past the field.
\<close>

theorem header_and_name_roundtrip:
  assumes "ph_span_ix (oh_p_hdr h) < 2 ^ 16" "oh_size h < 2 ^ 32" "oh_name h = strncpy_name nm" "0 \<notin> set nm"
  shows "objix_header_of (objix_header_bytes j h) = h \<and>
     (if length nm < 32
      then name_string (oh_name h) = Some nm \<and>
        (\<forall>nm'. 0 \<notin> set nm' \<longrightarrow> strcmp_eq nm' (drop OBJIX_NAME_OFFSET (objix_header_bytes j h)) = Some (nm' = nm))
      else name_string (oh_name h) = None)"
proof -
  have n: "drop OBJIX_NAME_OFFSET (objix_header_bytes j h) = oh_name h @ [j]"
    by (simp add: objix_header_bytes_def OBJIX_NAME_OFFSET_def)
  have long: "0 \<notin> set (strncpy_name nm)" if "\<not> length nm < 32"
    using that assms(4) by (auto simp: strncpy_name_def takeWhile_nonzero SPIFFS_OBJ_NAME_LEN_def Let_def dest: in_set_takeD)
  show ?thesis
    using objix_header_of_bytes [of h j] assms strcmp_terminated [OF _ assms(4)] long
    by (auto simp: n name_string_def strncpy_short takeWhile_append takeWhile_nonzero)
qed

theorem header_and_name_roundtrip_witness:
  "name_string (strncpy_name [104, 105]) = Some [104, 105] \<and>
   strcmp_eq [104] (drop OBJIX_NAME_OFFSET (objix_header_bytes 0 \<lparr>oh_p_hdr = \<lparr>ph_obj_id = 0x8001, ph_span_ix = 0, ph_flags = 0xf8\<rparr>,
     oh_size = 5, oh_type = 1, oh_name = strncpy_name [104, 105]\<rparr>)) = Some False"
  using header_and_name_roundtrip [of "\<lparr>oh_p_hdr = \<lparr>ph_obj_id = 0x8001, ph_span_ix = 0, ph_flags = 0xf8\<rparr>,
     oh_size = 5, oh_type = 1, oh_name = strncpy_name [104, 105]\<rparr>" "[104, 105]" 0]
  by auto

text \<open>
  The test of the mount that a block has room for its magic and its erase count is sound when
  the last lookup page in use is not full: the lookup entries then end before the two marks.
  When they fill it, the test passes as well, although the marks overwrite entries.
\<close>

theorem magic_check_sound_unless_full:
  assumes "lu_geom c nb" "log_page_size c < 2 ^ 32"
  shows "(SPIFFS_OBJ_LOOKUP_MAX_ENTRIES c mod entries_per_page c \<noteq> 0 \<and> SPIFFS_CHECK_MAGIC_POSSIBLE c \<longrightarrow>
       max_entries c * 2 + 4 \<le> SPIFFS_OBJ_LOOKUP_PAGES c * log_page_size c) \<and>
     (SPIFFS_OBJ_LOOKUP_MAX_ENTRIES c mod entries_per_page c = 0 \<longrightarrow> SPIFFS_CHECK_MAGIC_POSSIBLE c)"
proof -
  let ?M = "SPIFFS_OBJ_LOOKUP_MAX_ENTRIES c" and ?E = "entries_per_page c" and ?O = "SPIFFS_OBJ_LOOKUP_PAGES c"
  note g = lu_geom_entries [OF assms(1)]
  have P: "46 \<le> log_page_size c" using assms(1) by (simp add: lu_geom_def SIZEOF_OBJIX_HEADER_def)
  have E: "log_page_size c = 2 * ?E" using g(5) by simp
  have chk: "SPIFFS_CHECK_MAGIC_POSSIBLE c \<longleftrightarrow> ?M mod ?E * 2 \<le> log_page_size c - 4"
    using P assms(2) by (simp add: SPIFFS_CHECK_MAGIC_POSSIBLE_def entries_per_page_def)
  have "?M * 2 + 4 \<le> ?O * log_page_size c" if r: "?M mod ?E \<noteq> 0" "?M mod ?E * 2 \<le> log_page_size c - 4"
  proof -
    have "?M \<le> ?O * ?E" using g(2,6) by simp
    moreover have "?M = ?M div ?E * ?E + ?M mod ?E" by simp
    ultimately have "?M div ?E * ?E < ?O * ?E" using r(1) by linarith
    then have "Suc (?M div ?E) \<le> ?O" by simp
    then have "Suc (?M div ?E) * log_page_size c \<le> ?O * log_page_size c" by (rule mult_le_mono1)
    moreover have "?M * 2 = ?M div ?E * log_page_size c + ?M mod ?E * 2"
      unfolding E by (metis (no_types, lifting) add_mult_distrib div_mult_mod_eq mult.assoc mult.commute)
    ultimately show ?thesis using r(2) P by simp
  qed
  then show ?thesis using g(2) by (simp add: chk)
qed

text \<open>Blocks of 33 pages of 64 bytes: the 32 entries fill the lookup page.\<close>

definition full_lookup_cfg :: spiffs_config where
  "full_lookup_cfg = demo_cfg\<lparr>phys_size := 4224, log_block_size := 2112, log_page_size := 64\<rparr>"

theorem magic_check_sound_unless_full_witness:
  "SPIFFS_CHECK_MAGIC_POSSIBLE full_lookup_cfg \<and>
   \<not> max_entries full_lookup_cfg * 2 + 4 \<le> SPIFFS_OBJ_LOOKUP_PAGES full_lookup_cfg * log_page_size full_lookup_cfg"
proof -
  have g: "SPIFFS_PAGES_PER_BLOCK full_lookup_cfg = 33" "SPIFFS_OBJ_LOOKUP_PAGES full_lookup_cfg = 1"
      "SPIFFS_OBJ_LOOKUP_MAX_ENTRIES full_lookup_cfg = 32" "max_entries full_lookup_cfg = 32" "entries_per_page full_lookup_cfg = 32"
    by (simp_all add: full_lookup_cfg_def SPIFFS_PAGES_PER_BLOCK_def SPIFFS_OBJ_LOOKUP_PAGES_def
        SPIFFS_OBJ_LOOKUP_MAX_ENTRIES_def max_entries_def entries_per_page_def s32_of_def)
  have "lu_geom full_lookup_cfg 2"
    by (simp add: lu_geom_def g full_lookup_cfg_def SIZEOF_OBJIX_HEADER_def) (simp add: g [unfolded full_lookup_cfg_def])
  then have "SPIFFS_CHECK_MAGIC_POSSIBLE full_lookup_cfg"
    using magic_check_sound_unless_full [of full_lookup_cfg 2] g by (simp add: full_lookup_cfg_def)
  then show ?thesis using g by (simp add: full_lookup_cfg_def)
qed

end
