(* ===== verification/Spiffs_Consistent.thy ===== *)
theory Spiffs_Consistent
  imports Spiffs_Check Spiffs_Geometry
begin

section \<open>SPIFFS: a consistent file system passes the checks\<close>

text \<open>
  What the checks of \<open>spiffs_check.c\<close> take for a consistent file system, as a predicate on the
  flash, and that they leave such a file system alone: every check returns \<open>SPIFFS_OK\<close> - the page
  check, whose loops start over after each repair, ends - and neither the flash nor the state
  outside of the cache and the work buffers changes.
\<close>

subsection \<open>Lookup entries and page headers\<close>

definition entry_ok :: "u16 \<Rightarrow> spiffs_page_header \<Rightarrow> bool" where
  "entry_ok i h \<longleftrightarrow>
     (if i = SPIFFS_OBJ_ID_DELETED then ph_flags h AND PH_FLAG_DELET = 0
      else if i = SPIFFS_OBJ_ID_FREE then ph_flags h AND PH_FLAG_USED \<noteq> 0
      else ph_obj_id h OR SPIFFS_OBJ_ID_IX_FLAG = i OR SPIFFS_OBJ_ID_IX_FLAG \<and>
        (i AND SPIFFS_OBJ_ID_IX_FLAG \<noteq> 0 \<longleftrightarrow> ph_flags h AND PH_FLAG_INDEX = 0) \<and>
        ph_flags h AND PH_FLAG_DELET \<noteq> 0 \<and> ph_flags h AND PH_FLAG_FINAL = 0)"

definition lookup_consistent :: "spiffs_config \<Rightarrow> mem \<Rightarrow> nat \<Rightarrow> bool" where
  "lookup_consistent c m nb \<longleftrightarrow> (\<forall>b<nb. \<forall>e<max_entries c.
     entry_ok (lu_id c m b e) (hdr_at c m (SPIFFS_OBJ_LOOKUP_ENTRY_TO_PIX c b e)))"

text \<open>No index page is left of an object that was being deleted.\<close>

definition index_consistent :: "spiffs_config \<Rightarrow> mem \<Rightarrow> nat \<Rightarrow> bool" where
  "index_consistent c m nb \<longleftrightarrow> (\<forall>b<nb. \<forall>e<max_entries c. let i = lu_id c m b e in
     i \<noteq> SPIFFS_OBJ_ID_FREE \<longrightarrow> i \<noteq> SPIFFS_OBJ_ID_DELETED \<longrightarrow> i AND SPIFFS_OBJ_ID_IX_FLAG \<noteq> 0 \<longrightarrow>
     ph_flags (hdr_at c m (SPIFFS_OBJ_LOOKUP_ENTRY_TO_PIX c b e)) AND
       (PH_FLAG_INDEX OR PH_FLAG_FINAL OR PH_FLAG_DELET OR PH_FLAG_IXDELE) = PH_FLAG_DELET OR PH_FLAG_IXDELE)"

lemma validate_ok:
  "entry_ok i h \<Longrightarrow> spiffs_lookup_check_validate i h pix fs = Some (SPIFFS_OK, False, fs)"
proof -
  assume ok: "entry_ok i h"
  have "SPIFFS_OBJ_ID_DELETED \<noteq> SPIFFS_OBJ_ID_FREE" by (simp add: c_defs)
  with ok have "check_entry i pix h fs = Some (Continue (SPIFFS_OK, False, False, fs))"
    by (auto simp: entry_ok_def check_entry_def split: if_splits)
  then show ?thesis by (simp add: spiffs_lookup_check_validate_def)
qed

text \<open>A visitor that reads the header of the page of each entry and goes on.\<close>

lemma visit_header:
  assumes "disk_hal c" "lu_geom c nb" "on_disk c m nb fs" "cache_ok (n + 1) fs" "b < nb" "e < max_entries c"
  defines "pix \<equiv> SPIFFS_OBJ_LOOKUP_ENTRY_TO_PIX c b e"
  shows "\<exists>x. rd_header op (SPIFFS_PAGE_TO_PADDR c pix) fs = Some (SPIFFS_OK, hdr_at c m pix, fs\<lparr>cache := x\<rparr>) \<and>
    cache_ok n ((strip fs)\<lparr>cache := x\<rparr>) \<and> (strip fs)\<lparr>cache := x, lu_work := lu_work fs\<rparr> = fs\<lparr>cache := x\<rparr>"
proof -
  have c: "cfg fs = c" "flash fs = m" using assms(3) by (simp_all add: on_disk_def)
  note p = entry_page [OF disk_hal_geom [OF assms(1)] assms(2,5,6), folded pix_def]
  have "SIZEOF_PAGE_HEADER \<le> log_page_size c" using assms(2) by (simp add: lu_geom_def c_defs)
  then obtain x where "rd_header op (page_start c pix) fs = Some (SPIFFS_OK, hdr_at c m pix, fs\<lparr>cache := x\<rparr>)"
      "cache_ok n (fs\<lparr>cache := x\<rparr>)"
    using rd_header_ok [of fs pix n op] assms(1,4) p(2) by (auto simp: c)
  then show ?thesis by (intro exI [of _ x]) (auto simp: p(3) strip_def cache_ok_def)
qed

interpretation lookup_check: lu_visitor spiffs_lookup_check_v 1 "\<lambda>i b e u t. (SPIFFS_VIS_COUNTINUE, u, t)"
  "\<lambda>t. lookup_consistent (cfg t) (flash t) (block_count t)" False
proof
  fix c nb m fs n b e i u r u' t
  assume a: "disk_hal c" "lu_geom c nb" "on_disk c m nb fs" "cache_ok (n + 1) fs" "b < nb" "e < max_entries c"
    and ok: "lookup_consistent (cfg (strip fs)) (flash (strip fs)) (block_count (strip fs))" and i: "False \<or> i = lu_id c m b e"
    and f: "(SPIFFS_VIS_COUNTINUE, u, strip fs) = (r, u' :: unit, t)"
  have c: "cfg fs = c" using a(3) by (simp add: on_disk_def)
  have "entry_ok i (hdr_at c m (SPIFFS_OBJ_LOOKUP_ENTRY_TO_PIX c b e))"
    using ok i a(3,5,6) by (simp add: lookup_consistent_def on_disk_def)
  moreover obtain x where "rd_header (OP_T_OBJ_LU2 OR OP_C_READ) (SPIFFS_PAGE_TO_PADDR c (SPIFFS_OBJ_LOOKUP_ENTRY_TO_PIX c b e)) fs =
      Some (SPIFFS_OK, hdr_at c m (SPIFFS_OBJ_LOOKUP_ENTRY_TO_PIX c b e), fs\<lparr>cache := x\<rparr>)"
      "cache_ok n ((strip fs)\<lparr>cache := x\<rparr>)" "(strip fs)\<lparr>cache := x, lu_work := lu_work fs\<rparr> = fs\<lparr>cache := x\<rparr>"
    using visit_header [OF a] by blast
  ultimately show "\<exists>x. spiffs_lookup_check_v i b e u fs = Some (r, u', t\<lparr>cache := x, lu_work := lu_work fs\<rparr>) \<and> cache_ok n (t\<lparr>cache := x\<rparr>)"
    using f by (intro exI [of _ x]) (auto simp: spiffs_lookup_check_v_def c validate_ok SPIFFS_OK_def)
qed (auto simp: on_disk_def c_defs)

interpretation index_check: lu_visitor spiffs_object_index_consistency_check_v 1 "\<lambda>i b e u t. (SPIFFS_VIS_COUNTINUE, u, t)"
  "\<lambda>t. index_consistent (cfg t) (flash t) (block_count t)" False
proof
  fix c nb m fs n b e i u r u' t
  assume a: "disk_hal c" "lu_geom c nb" "on_disk c m nb fs" "cache_ok (n + 1) fs" "b < nb" "e < max_entries c"
    and ok: "index_consistent (cfg (strip fs)) (flash (strip fs)) (block_count (strip fs))" and i: "False \<or> i = lu_id c m b e"
    and f: "(SPIFFS_VIS_COUNTINUE, u, strip fs) = (r, u' :: nat option, t)"
  have c: "cfg fs = c" using a(3) by (simp add: on_disk_def)
  show "\<exists>x. spiffs_object_index_consistency_check_v i b e u fs = Some (r, u', t\<lparr>cache := x, lu_work := lu_work fs\<rparr>) \<and>
      cache_ok n (t\<lparr>cache := x\<rparr>)"
  proof (cases "i = SPIFFS_OBJ_ID_FREE \<or> i = SPIFFS_OBJ_ID_DELETED \<or> i AND SPIFFS_OBJ_ID_IX_FLAG = 0")
    case True
    then show ?thesis using f cache_ok_less [OF a(4)]
      by (intro exI [of _ "cache fs"]) (auto simp: spiffs_object_index_consistency_check_v_def strip_def cache_ok_def)
  next
    case False
    have "ph_flags (hdr_at c m (SPIFFS_OBJ_LOOKUP_ENTRY_TO_PIX c b e)) AND
        (PH_FLAG_INDEX OR PH_FLAG_FINAL OR PH_FLAG_DELET OR PH_FLAG_IXDELE) = PH_FLAG_DELET OR PH_FLAG_IXDELE"
      using ok i a(3,5,6) False by (simp add: index_consistent_def on_disk_def Let_def)
    moreover have "PH_FLAG_DELET OR PH_FLAG_IXDELE \<noteq> PH_FLAG_DELET" by (simp add: c_defs)
    moreover obtain x where "rd_header (OP_T_OBJ_LU2 OR OP_C_READ) (SPIFFS_PAGE_TO_PADDR c (SPIFFS_OBJ_LOOKUP_ENTRY_TO_PIX c b e)) fs =
        Some (SPIFFS_OK, hdr_at c m (SPIFFS_OBJ_LOOKUP_ENTRY_TO_PIX c b e), fs\<lparr>cache := x\<rparr>)"
        "cache_ok n ((strip fs)\<lparr>cache := x\<rparr>)" "(strip fs)\<lparr>cache := x, lu_work := lu_work fs\<rparr> = fs\<lparr>cache := x\<rparr>"
      using visit_header [OF a] by blast
    ultimately show ?thesis using False f
      by (intro exI [of _ x]) (auto simp: spiffs_object_index_consistency_check_v_def c SPIFFS_OK_def Let_def)
  qed
qed (auto simp: on_disk_def c_defs)

lemma lu_run_continue: "lu_run ids 0 oid (\<lambda>i b e u t. (SPIFFS_VIS_COUNTINUE, u, t)) es u t = (None, u, t)"
  by (induction es) auto

definition scan_cost :: "spiffs \<Rightarrow> nat" where
  "scan_cost fs = (block_count fs + 1) * (SPIFFS_OBJ_LOOKUP_PAGES (cfg fs) + max_entries (cfg fs))"

lemma lookup_check_ok:
  assumes "disk_hal (cfg fs)" "lu_geom (cfg fs) (block_count fs)" "cache_ok (n + scan_cost fs) fs"
    and "lookup_consistent (cfg fs) (flash fs) (block_count fs)"
  shows "\<exists>fs'. spiffs_lookup_consistency_check fs = Some (SPIFFS_OK, fs') \<and> strip fs' = strip fs \<and> cache_ok n fs'"
proof -
  have nb: "0 < block_count fs" using assms(2) by (simp add: lu_geom_def)
  show ?thesis
    using lookup_check.visitor_run [OF assms(1,2) nb, of n 0 0 0 "()", unfolded lu_run_continue, OF _ _ refl] assms(3,4)
    by (auto simp: spiffs_lookup_consistency_check_def scan_cost_def SPIFFS_VIS_END_def)
qed

lemma index_check_ok:
  assumes "disk_hal (cfg fs)" "lu_geom (cfg fs) (block_count fs)" "cache_ok (n + scan_cost fs) fs"
    and "index_consistent (cfg fs) (flash fs) (block_count fs)"
  shows "\<exists>w fs'. spiffs_object_index_consistency_check fs = Some (SPIFFS_OK, fs') \<and> strip fs' = (strip fs)\<lparr>work := w\<rparr> \<and>
    length w = max (log_page_size (cfg fs)) (length (work fs)) \<and> cache_ok n fs'"
proof -
  have nb: "0 < block_count fs" using assms(2) by (simp add: lu_geom_def)
  define w where "w = replicate (log_page_size (cfg fs)) 0 @ drop (log_page_size (cfg fs)) (work fs)"
  let ?fs = "fs\<lparr>work := w\<rparr>"
  have st: "strip ?fs = (strip fs)\<lparr>work := w\<rparr>" "cache_ok (n + scan_cost fs) ?fs"
    using assms(3) by (simp_all add: strip_def cache_ok_def)
  have len: "length w = max (log_page_size (cfg fs)) (length (work fs))" by (simp add: w_def)
  show ?thesis
    using index_check.visitor_run [of ?fs 0 n 0 0 0 None, unfolded lu_run_continue, OF _ _ _ _ _ refl] assms(1,2,4) st nb len
    by (auto simp: spiffs_object_index_consistency_check_def scan_cost_def SPIFFS_VIS_END_def w_def [symmetric])
qed

subsection \<open>Pages and references\<close>

definition is_used :: "spiffs_page_header \<Rightarrow> bool" where
  "is_used h \<longleftrightarrow> ph_flags h AND PH_FLAG_DELET \<noteq> 0 \<and> ph_flags h AND PH_FLAG_USED = 0"

definition is_index :: "spiffs_page_header \<Rightarrow> bool" where
  "is_index h \<longleftrightarrow> ph_flags h AND PH_FLAG_DELET \<noteq> 0 \<and> ph_flags h AND PH_FLAG_IXDELE \<noteq> 0 \<and>
     ph_flags h AND (PH_FLAG_INDEX OR PH_FLAG_USED) = 0"

text \<open>The entries of an index page: data span and page.\<close>

definition index_refs :: "spiffs_config \<Rightarrow> mem \<Rightarrow> nat \<Rightarrow> (nat \<times> nat) list" where
  "index_refs c m pix =
     (let span = ph_span_ix (hdr_at c m pix);
          off = (if span = 0 then SIZEOF_OBJIX_HEADER else SIZEOF_OBJIX);
          first = (if span = 0 then 0 else u16_of (SPIFFS_OBJ_HDR_IX_LEN c + SPIFFS_OBJ_IX_LEN c * (span - 1)))
      in map (\<lambda>i. (first + i, unat (of_le16 (mem_read m (page_start c pix + (off + 2 * i)) 2))))
           [0..<if span = 0 then SPIFFS_OBJ_HDR_IX_LEN c else SPIFFS_OBJ_IX_LEN c])"

text \<open>The pages behind the lookup pages, in the order of the scan.\<close>

definition block_data_pages :: "spiffs_config \<Rightarrow> nat \<Rightarrow> nat list" where
  "block_data_pages c b = [SPIFFS_OBJ_LOOKUP_PAGES c + SPIFFS_PAGES_PER_BLOCK c * b..<SPIFFS_PAGES_PER_BLOCK c * (b + 1)]"

definition data_pages :: "spiffs_config \<Rightarrow> nat \<Rightarrow> nat list" where
  "data_pages c nb = concat (map (block_data_pages c) [0..<nb])"

text \<open>The pages an index page refers to; free entries do not count.\<close>

definition page_refs :: "spiffs_config \<Rightarrow> mem \<Rightarrow> nat \<Rightarrow> nat list" where
  "page_refs c m pix =
     (if is_index (hdr_at c m pix) then filter (\<lambda>r. r \<noteq> NO_IX) (map snd (index_refs c m pix)) else [])"

definition ref_ok :: "spiffs_page_header \<Rightarrow> nat \<Rightarrow> spiffs_page_header \<Rightarrow> bool" where
  "ref_ok h spix r \<longleftrightarrow> ph_obj_id r = ph_obj_id h AND NOT SPIFFS_OBJ_ID_IX_FLAG \<and> ph_span_ix r = spix \<and>
     ph_flags r AND (PH_FLAG_DELET OR PH_FLAG_INDEX OR PH_FLAG_USED) = PH_FLAG_DELET OR PH_FLAG_INDEX"

text \<open>
  References go to data pages of the right object and span, no page is referred to twice, and every
  used page is an index page or referred to.
\<close>

definition pages_consistent :: "spiffs_config \<Rightarrow> mem \<Rightarrow> nat \<Rightarrow> bool" where
  "pages_consistent c m nb \<longleftrightarrow>
     (\<forall>p \<in> set (data_pages c nb). is_index (hdr_at c m p) \<longrightarrow>
        (\<forall>(spix, r) \<in> set (index_refs c m p). r \<noteq> NO_IX \<longrightarrow> r \<in> set (data_pages c nb) \<and> ref_ok (hdr_at c m p) spix (hdr_at c m r))) \<and>
     distinct (concat (map (page_refs c m) (data_pages c nb))) \<and>
     (\<forall>p \<in> set (data_pages c nb). is_used (hdr_at c m p) \<longrightarrow>
        is_index (hdr_at c m p) \<or> p \<in> set (concat (map (page_refs c m) (data_pages c nb))))"

subsection \<open>The bitmap\<close>

definition marks :: "spiffs_config \<Rightarrow> nat \<Rightarrow> (nat \<Rightarrow> nat set) \<Rightarrow> byte list \<Rightarrow> bool" where
  "marks c off K w \<longleftrightarrow> log_page_size c \<le> length w \<and>
     (\<forall>pix k. in_scan c off pix \<longrightarrow> k < 4 \<longrightarrow> (bit (w ! ((pix - off) div 2)) (4 * (pix mod 2) + k) \<longleftrightarrow> pix \<in> K k))"

lemma marks_bit:
  "marks c off K w \<Longrightarrow> in_scan c off pix \<Longrightarrow> k < 4 \<Longrightarrow> bit (w ! ((pix - off) div 2)) (4 * (pix mod 2) + k) \<longleftrightarrow> pix \<in> K k"
  unfolding marks_def by blast

text \<open>The indices of pages, with room for one more range, fit their 16 bits.\<close>

definition scan_geom :: "spiffs_config \<Rightarrow> nat \<Rightarrow> bool" where
  "scan_geom c nb \<longleftrightarrow> lu_geom c nb \<and> SPIFFS_PAGES_PER_BLOCK c * nb + 2 * log_page_size c < 65536"

lemma pages_per_scan_eq: "scan_geom c nb \<Longrightarrow> pages_per_scan c = 2 * log_page_size c"
  by (simp add: scan_geom_def pages_per_scan_def)

lemma same_mark:
  assumes "even (off :: nat)" "off \<le> pix" "off \<le> pix'" "(pix - off) div 2 = (pix' - off) div 2"
    and "k < (4 :: nat)" "k' < 4" "4 * (pix mod 2) + k = 4 * (pix' mod 2) + k'"
  shows "pix = pix' \<and> k = k'"
proof -
  have "(4 * (pix mod 2) + k) div 4 = (4 * (pix' mod 2) + k') div 4" using assms(7) by simp
  then have m: "pix mod 2 = pix' mod 2" using assms(5,6) by simp
  obtain j where "off = 2 * j" using assms(1) by (elim evenE)
  moreover obtain d d' where d: "pix = off + d" "pix' = off + d'" using assms(2,3) by (metis le_Suc_ex)
  ultimately have "d mod 2 = d' mod 2" using m by simp
  moreover have "d div 2 = d' div 2" using assms(4) d by simp
  ultimately have "d = d'" by (metis div_mult_mod_eq)
  then show ?thesis using d m assms(7) by simp
qed

lemma nibble_less: "k < (4 :: nat) \<Longrightarrow> 4 * (pix mod 2) + k < 8"
  by (cases "even pix") (auto simp: odd_iff_mod_2_eq_one)

lemma set_mark_ok:
  assumes "marks c off K (work fs)" "in_scan c off pix" "even off" "k < 4" "pages_per_scan c = 2 * log_page_size c"
  shows "\<exists>w. set_mark k off pix fs = Some (fs\<lparr>work := w\<rparr>) \<and> length w = length (work fs) \<and> marks c off (K(k := insert pix (K k))) w"
proof -
  define i where "i = (pix - off) div 2"
  define j where "j = 4 * (pix mod 2) + k"
  define w where "w = (work fs)[i := work fs ! i OR push_bit j 1]"
  have i: "i < length (work fs)" using assms(1,2,5) by (auto simp: in_scan_def marks_def i_def)
  have j: "j < 8" unfolding j_def by (rule nibble_less [OF assms(4)])
  have len: "length w = length (work fs)" by (simp add: w_def)
  have "bit (w ! ((pix' - off) div 2)) (4 * (pix' mod 2) + k') \<longleftrightarrow> pix' \<in> (K(k := insert pix (K k))) k'"
    if s: "in_scan c off pix'" and k': "k' < 4" for pix' k'
  proof -
    define i' where "i' = (pix' - off) div 2"
    define j' where "j' = 4 * (pix' mod 2) + k'"
    have j': "j' < 8" unfolding j'_def by (rule nibble_less [OF k'])
    have old: "bit (work fs ! i') j' \<longleftrightarrow> pix' \<in> K k'"
      using assms(1) s k' by (simp add: marks_def i'_def j'_def)
    have same: "i' = i \<and> j' = j \<longleftrightarrow> pix' = pix \<and> k' = k"
      using same_mark [OF assms(3), of pix' pix k' k] s assms(2,4) k' by (auto simp: in_scan_def i_def i'_def j_def j'_def)
    have "bit (w ! i') j' \<longleftrightarrow> bit (work fs ! i') j' \<or> i' = i \<and> j' = j"
      using i j' by (cases "i' = i") (auto simp: w_def bit_or_iff bit_push_bit_iff bit_exp_iff)
    then show ?thesis unfolding i'_def [symmetric] j'_def [symmetric] old same by auto
  qed
  then have "marks c off (K(k := insert pix (K k))) w" using assms(1) len by (simp add: marks_def)
  then show ?thesis using i len by (intro exI [of _ w]) (simp add: set_mark_def page_mark_def w_def i_def j_def)
qed

subsection \<open>The scan of a range\<close>

text \<open>What the scan relies on, and its state: the file system without cache and buffers, and the
  bitmap.\<close>

definition scan_ok :: "spiffs_config \<Rightarrow> mem \<Rightarrow> nat \<Rightarrow> nat \<Rightarrow> spiffs \<Rightarrow> bool" where
  "scan_ok c m nb off t \<longleftrightarrow> disk_hal c \<and> scan_geom c nb \<and> pages_consistent c m nb \<and> on_disk c m nb t \<and>
     even off \<and> off < SPIFFS_PAGES_PER_BLOCK c * nb"

definition scan_state :: "spiffs \<Rightarrow> nat \<Rightarrow> nat \<Rightarrow> (nat \<Rightarrow> nat set) \<Rightarrow> spiffs \<Rightarrow> bool" where
  "scan_state t n off K fs \<longleftrightarrow> strip (fs\<lparr>work := []\<rparr>) = t \<and> cache_ok n fs \<and> marks (cfg t) off K (work fs)"

lemma scan_okD:
  assumes "scan_ok c m nb off t"
  shows "disk_hal c" "geom c" "scan_geom c nb" "lu_geom c nb" "pages_consistent c m nb" "cfg t = c" "flash t = m" "block_count t = nb"
    "even off" "pages_per_scan c = 2 * log_page_size c" "\<not> in_scan c off NO_IX"
  using assms pages_per_scan_eq [of c nb]
  by (auto simp: scan_ok_def scan_geom_def on_disk_def in_scan_def NO_IX_def)

lemma scan_stateD:
  assumes "scan_ok c m nb off t" "scan_state t n off K fs"
  shows "cfg fs = c" "flash fs = m" "block_count fs = nb" "cache_ok n fs" "marks c off K (work fs)"
proof -
  have "cfg (strip (fs\<lparr>work := []\<rparr>)) = cfg t" "flash (strip (fs\<lparr>work := []\<rparr>)) = flash t"
    "block_count (strip (fs\<lparr>work := []\<rparr>)) = block_count t"
    using assms(2) by (simp_all add: scan_state_def)
  then show "cfg fs = c" "flash fs = m" "block_count fs = nb" "cache_ok n fs" "marks c off K (work fs)"
    using scan_okD [OF assms(1)] assms(2) by (simp_all add: scan_state_def)
qed

lemma data_page_bounds:
  assumes "scan_geom c nb" "p \<in> set (data_pages c nb)"
  shows "p < SPIFFS_MAX_PAGES c" "\<not> SPIFFS_IS_LOOKUP_PAGE c p" "p < SPIFFS_PAGES_PER_BLOCK c * nb" "p \<noteq> NO_IX"
proof -
  let ?P = "SPIFFS_PAGES_PER_BLOCK c" and ?O = "SPIFFS_OBJ_LOOKUP_PAGES c"
  have l: "lu_geom c nb" using assms(1) by (simp add: scan_geom_def)
  obtain b where b: "b < nb" "?O + ?P * b \<le> p" "p < ?P * (b + 1)"
    using assms(2) by (auto simp: data_pages_def block_data_pages_def)
  obtain d where d: "p = ?P * b + d" using b(2) by (metis add.commute le_Suc_ex add.assoc add_leD2)
  then have d': "d < ?P" "?O \<le> d" using b(2,3) by simp_all
  show "p < SPIFFS_MAX_PAGES c" using block_pages [OF l b(1) d'(1)] by (simp add: d mult.commute)
  show "\<not> SPIFFS_IS_LOOKUP_PAGE c p" using d' by (simp add: SPIFFS_IS_LOOKUP_PAGE_def d)
  have "?P * (b + 1) \<le> ?P * nb" using b(1) by (intro mult_le_mono2) simp
  then show "p < ?P * nb" using b(3) by simp
  then show "p \<noteq> NO_IX" using assms(1) by (simp add: scan_geom_def NO_IX_def)
qed

lemma scan_rd_header:
  assumes "scan_ok c m nb off t" "p \<in> set (data_pages c nb)" "scan_state t (Suc n) off K fs"
  shows "\<exists>fs'. rd_header op (SPIFFS_PAGE_TO_PADDR c p) fs = Some (SPIFFS_OK, hdr_at c m p, fs') \<and>
    scan_state t n off K fs' \<and> lu_work fs' = lu_work fs"
proof -
  note o = scan_okD [OF assms(1)] and s = scan_stateD [OF assms(1,3)]
  have p: "p < SPIFFS_MAX_PAGES c" by (rule data_page_bounds [OF o(3) assms(2)])
  have "SIZEOF_PAGE_HEADER \<le> log_page_size c" using o(4) by (simp add: lu_geom_def c_defs)
  then obtain x where "rd_header op (page_start c p) fs = Some (SPIFFS_OK, hdr_at c m p, fs\<lparr>cache := x\<rparr>)" "cache_ok n (fs\<lparr>cache := x\<rparr>)"
    using rd_header_ok [of fs p n op] o(1) p s by auto
  moreover have "strip (fs\<lparr>cache := x, work := []\<rparr>) = t" for x using assms(3) by (simp add: scan_state_def strip_def)
  ultimately show ?thesis using assms(3) PAGE_TO_PADDR_eq [OF o(2) p] by (auto simp: scan_state_def)
qed

lemma scan_set_mark:
  assumes "scan_ok c m nb off t" "in_scan c off p" "k < 4" "scan_state t n off K fs"
  shows "\<exists>fs'. set_mark k off p fs = Some fs' \<and> scan_state t n off (K(k := insert p (K k))) fs' \<and> lu_work fs' = lu_work fs"
proof -
  note o = scan_okD [OF assms(1)] and s = scan_stateD [OF assms(1,4)]
  obtain w where "set_mark k off p fs = Some (fs\<lparr>work := w\<rparr>)" "marks c off (K(k := insert p (K k))) w"
    using set_mark_ok [OF s(5) assms(2) o(9) assms(3) o(10)] by blast
  moreover have "cache_ok n (fs\<lparr>work := w\<rparr>)" for w using s(4) by (simp add: cache_ok_def)
  ultimately show ?thesis using assms(4) o(6) by (auto simp: scan_state_def)
qed

lemma scan_state_cong:
  assumes "\<And>p k. in_scan (cfg t) off p \<Longrightarrow> k < 4 \<Longrightarrow> p \<in> K k \<longleftrightarrow> p \<in> K' k" "scan_state t n off K fs"
  shows "scan_state t n off K' fs"
  using assms by (simp add: scan_state_def marks_def)

lemma scan_state_less: "scan_state t (n + k) off K fs \<Longrightarrow> scan_state t n off K fs"
  using cache_ok_less by (auto simp: scan_state_def)

text \<open>Marking a page if it is in the range.\<close>

lemma scan_mark_if:
  assumes "scan_ok c m nb off t" "k < 4" "scan_state t n off K fs"
  shows "\<exists>fs'. (if in_scan c off p \<and> A then set_mark k off p fs else Some fs) = Some fs' \<and>
    scan_state t n off (if A then K(k := insert p (K k)) else K) fs' \<and> lu_work fs' = lu_work fs"
proof (cases "in_scan c off p \<and> A")
  case True
  then show ?thesis using scan_set_mark [OF assms(1) _ assms(2,3)] by auto
next
  case False
  have "scan_state t n off (if A then K(k := insert p (K k)) else K) fs"
    using False scan_okD(6) [OF assms(1)] by (intro scan_state_cong [OF _ assms(3)]) auto
  then show ?thesis using False by auto
qed

subsection \<open>References\<close>

definition add_refs :: "(nat \<Rightarrow> nat set) \<Rightarrow> nat list \<Rightarrow> nat \<Rightarrow> nat set" where
  "add_refs K rs k = (if k = 1 then K k \<union> {r \<in> set rs. r \<noteq> NO_IX} else K k)"

lemma add_refs_Nil [simp]: "add_refs K [] = K"
  by (simp add: add_refs_def fun_eq_iff)

lemma add_refs_Cons: "add_refs (add_refs K [r]) rs = add_refs K (r # rs)"
  by (auto simp: add_refs_def fun_eq_iff)

lemma add_refs_one: "r \<noteq> NO_IX \<Longrightarrow> add_refs K [r] = K(1 := insert r (K 1))"
  by (auto simp: add_refs_def fun_eq_iff)

lemma check_reference_ok:
  assumes "scan_ok c m nb off t" "p \<in> set (data_pages c nb)" "is_index (hdr_at c m p)" "(spix, r) \<in> set (index_refs c m p)"
    and "r \<noteq> NO_IX \<Longrightarrow> r \<notin> K 1" "scan_state t (Suc n) off K fs"
  shows "\<exists>fs'. check_reference off p (hdr_at c m p) spix r SPIFFS_OK fs = Some (Continue (False, SPIFFS_OK, fs')) \<and>
    scan_state t n off (add_refs K [r]) fs' \<and> lu_work fs' = lu_work fs"
proof -
  note o = scan_okD [OF assms(1)] and s = scan_stateD [OF assms(1,6)]
  have less: "scan_state t n off K fs" using scan_state_less [of t n 1] assms(6) by simp
  have good: "r \<in> set (data_pages c nb) \<and> ref_ok (hdr_at c m p) spix (hdr_at c m r)" if "r \<noteq> NO_IX"
    using o(5) assms(2-4) that by (auto simp: pages_consistent_def)
  show ?thesis
  proof (cases "in_scan c off r")
    case False
    have "r = NO_IX \<or> \<not> SPIFFS_MAX_PAGES c < r"
      using good data_page_bounds(1) [OF o(3)] by (metis less_imp_le not_less)
    then have "check_reference off p (hdr_at c m p) spix r SPIFFS_OK fs = Some (Continue (False, SPIFFS_OK, fs))"
      using False by (auto simp: check_reference_def s(1))
    moreover have "scan_state t n off (add_refs K [r]) fs"
      using False o(6) by (intro scan_state_cong [OF _ less]) (auto simp: add_refs_def)
    ultimately show ?thesis by blast
  next
    case True
    then have ne: "r \<noteq> NO_IX" using o(11) by blast
    then have r: "r \<in> set (data_pages c nb)" "ref_ok (hdr_at c m p) spix (hdr_at c m r)"
      using good by blast+
    note rb = data_page_bounds [OF o(3) r(1)]
    obtain fs1 where f1: "rd_header (OP_T_OBJ_LU2 OR OP_C_READ) (SPIFFS_PAGE_TO_PADDR c r) fs = Some (SPIFFS_OK, hdr_at c m r, fs1)"
        "scan_state t n off K fs1" "lu_work fs1 = lu_work fs"
      using scan_rd_header [OF assms(1) r(1) assms(6)] by blast
    obtain fs2 where f2: "set_mark 1 off r fs1 = Some fs2" "scan_state t n off (K(1 := insert r (K 1))) fs2" "lu_work fs2 = lu_work fs1"
      using scan_set_mark [OF assms(1) True _ f1(2), of 1] by auto
    obtain b where b: "page_mark off r fs1 = Some b" using f2(1) by (cases "page_mark off r fs1") (auto simp: set_mark_def)
    have "bit (work fs1 ! ((r - off) div 2)) (4 * (r mod 2) + 1) \<longleftrightarrow> r \<in> K 1"
      by (rule marks_bit [OF scan_stateD(5) [OF assms(1) f1(2)] True]) simp
    then have "\<not> bit b (4 * (r mod 2) + 1)"
      using assms(5) [OF ne] b by (auto simp: page_mark_def Let_def split: if_splits)
    then have "mark_referenced off p (hdr_at c m p) r SPIFFS_OK fs1 = Some (Continue (False, SPIFFS_OK, fs2))"
      using b f2(1) by (simp add: mark_referenced_def)
    moreover have "\<not> (SPIFFS_OK < 0)" by (simp add: SPIFFS_OK_def)
    ultimately have "check_reference off p (hdr_at c m p) spix r SPIFFS_OK fs = Some (Continue (False, SPIFFS_OK, fs2))"
      using True r(2) rb f1(1) by (simp add: check_reference_def s(1) ref_ok_def Let_def)
    moreover have "scan_state t n off (add_refs K [r]) fs2" using f2(2) by (simp only: add_refs_one [OF ne])
    ultimately show ?thesis using f1(3) f2(3) by auto
  qed
qed

text \<open>The entries of an index page as the loop reads them.\<close>

lemma check_references_ok:
  assumes "scan_ok c m nb off t" "p \<in> set (data_pages c nb)" "is_index (hdr_at c m p)"
    and "\<forall>i \<in> set is. (first + i, ref i) \<in> set (index_refs c m p)"
    and "\<forall>i \<in> set is. buf_slice (start + 2 * i) 2 w = Some (bs i) \<and> unat (of_le16 (bs i)) = ref i"
    and "distinct (filter (\<lambda>r. r \<noteq> NO_IX) (map ref is))" "\<forall>r \<in> set (map ref is). r \<noteq> NO_IX \<longrightarrow> r \<notin> K 1"
    and "scan_state t (n + length is) off K fs" "lu_work fs = w"
  shows "\<exists>fs'. check_references off p (hdr_at c m p) start first is SPIFFS_OK fs = Some (Continue (False, SPIFFS_OK, fs')) \<and>
    scan_state t n off (add_refs K (map ref is)) fs'"
  using assms(4-)
proof (induction "is" arbitrary: K fs)
  case Nil
  then show ?case by auto
next
  case (Cons i "is")
  have st: "scan_state t (Suc (n + length is)) off K fs" using Cons.prems(5) by simp
  obtain fs1 where f1: "check_reference off p (hdr_at c m p) (first + i) (ref i) SPIFFS_OK fs = Some (Continue (False, SPIFFS_OK, fs1))"
      "scan_state t (n + length is) off (add_refs K [ref i]) fs1" "lu_work fs1 = lu_work fs"
    using check_reference_ok [OF assms(1-3) _ _ st, of "first + i" "ref i"] Cons.prems(1,4) by auto
  define K' where "K' = add_refs K [ref i]"
  have K': "K' 1 = K 1 \<union> {r. r = ref i \<and> r \<noteq> NO_IX}" by (simp add: K'_def add_refs_def)
  have new: "\<forall>r \<in> set (map ref is). r \<noteq> NO_IX \<longrightarrow> r \<notin> K' 1"
    using Cons.prems(3,4) unfolding K' by (auto simp: image_iff split: if_splits)
  have d: "distinct (filter (\<lambda>r. r \<noteq> NO_IX) (map ref is))" using Cons.prems(3) by (auto split: if_splits)
  have f2: "scan_state t (n + length is) off K' fs1" using f1(2) unfolding K'_def .
  have "\<exists>fs'. check_references off p (hdr_at c m p) start first is SPIFFS_OK fs1 = Some (Continue (False, SPIFFS_OK, fs')) \<and>
      scan_state t n off (add_refs K' (map ref is)) fs'"
    using Cons.prems(1,2,6) f1(3) by (intro Cons.IH [OF _ _ d new f2]) simp_all
  moreover have "add_refs K' (map ref is) = add_refs K (map ref (i # is))" by (simp add: K'_def add_refs_Cons)
  ultimately show ?case using f1(1) Cons.prems(2,6) by auto
qed

lemma check_index_page_ok:
  assumes "scan_ok c m nb off t" "p \<in> set (data_pages c nb)" "is_index (hdr_at c m p)"
    and "distinct (page_refs c m p)" "set (page_refs c m p) \<inter> K 1 = {}"
    and "scan_state t (n + log_page_size c + 1) off K fs"
  shows "\<exists>fs'. check_index_page off p (hdr_at c m p) fs = Some (Continue (False, SPIFFS_OK, fs')) \<and>
    scan_state t n off (K(1 := K 1 \<union> set (page_refs c m p))) fs'"
proof -
  note o = scan_okD [OF assms(1)] and s = scan_stateD [OF assms(1,6)]
  note pb = data_page_bounds [OF o(3) assms(2)]
  define span where "span = ph_span_ix (hdr_at c m p)"
  define start where "start = (if span = 0 then SIZEOF_OBJIX_HEADER else SIZEOF_OBJIX)"
  define first where "first = (if span = 0 then 0 else u16_of (SPIFFS_OBJ_HDR_IX_LEN c + SPIFFS_OBJ_IX_LEN c * (span - 1)))"
  define len where "len = (if span = 0 then SPIFFS_OBJ_HDR_IX_LEN c else SPIFFS_OBJ_IX_LEN c)"
  define bs where "bs i = mem_read m (page_start c p + (start + 2 * i)) 2" for i
  let ?ref = "\<lambda>i. unat (of_le16 (bs i))"
  have refs: "index_refs c m p = map (\<lambda>i. (first + i, ?ref i)) [0..<len]"
    by (simp add: index_refs_def Let_def span_def start_def first_def len_def bs_def)
  have prefs: "page_refs c m p = filter (\<lambda>r. r \<noteq> NO_IX) (map ?ref [0..<len])"
    using assms(3) by (simp add: page_refs_def refs comp_def)
  have "SIZEOF_OBJIX_HEADER \<le> log_page_size c" "log_page_size c < 2 ^ 32"
    using o(3,4) by (simp_all add: lu_geom_def scan_geom_def)
  then have fit: "start + 2 * len \<le> log_page_size c"
    by (auto simp: start_def len_def SPIFFS_OBJ_HDR_IX_LEN_def SPIFFS_OBJ_IX_LEN_def SIZEOF_OBJIX_HEADER_def SIZEOF_OBJIX_def)
  obtain x where x: "spiffs_phys_rd (OP_T_OBJ_LU2 OR OP_C_READ) (page_start c p) (log_page_size c) fs =
        Some (SPIFFS_OK, mem_read m (page_start c p) (log_page_size c), fs\<lparr>cache := x\<rparr>)"
      "cache_ok (n + log_page_size c) (fs\<lparr>cache := x\<rparr>)"
    using disk_rd [of fs "page_start c p" "log_page_size c" "n + log_page_size c" "OP_T_OBJ_LU2 OR OP_C_READ"]
      o(1) whole_page [OF o(2) pb(1)] s page_start_of [OF o(2), of p] by auto
  let ?fs = "fs\<lparr>cache := x, lu_work := mem_read m (page_start c p) (log_page_size c)\<rparr>"
  have load: "lu_work_load p fs = Some (SPIFFS_OK, ?fs)"
    using x(1) PAGE_TO_PADDR_eq [OF o(2) pb(1)] by (simp add: lu_work_load_def s(1))
  have "scan_state t (n + log_page_size c) off K ?fs"
    using assms(6) x(2) by (auto simp: scan_state_def strip_def cache_ok_def)
  then have st: "scan_state t (n + length [0..<len]) off K ?fs"
    using scan_state_less [of t "n + len" "log_page_size c - len"] fit by simp
  have "\<exists>fs'. check_references off p (hdr_at c m p) start first [0..<len] SPIFFS_OK ?fs = Some (Continue (False, SPIFFS_OK, fs')) \<and>
      scan_state t n off (add_refs K (map ?ref [0..<len])) fs'"
  proof (rule check_references_ok [OF assms(1-3) _ _ _ _ st])
    show "\<forall>i \<in> set [0..<len]. (first + i, ?ref i) \<in> set (index_refs c m p)" by (auto simp: refs)
    show "\<forall>i \<in> set [0..<len]. buf_slice (start + 2 * i) 2 (mem_read m (page_start c p) (log_page_size c)) = Some (bs i) \<and> ?ref i = ?ref i"
      using fit by (auto simp: buf_slice_mem_read bs_def)
    show "distinct (filter (\<lambda>r. r \<noteq> NO_IX) (map ?ref [0..<len]))" using assms(4) by (simp add: prefs)
    show "\<forall>r \<in> set (map ?ref [0..<len]). r \<noteq> NO_IX \<longrightarrow> r \<notin> K 1" using assms(5) by (auto simp: prefs)
  qed simp
  moreover have "add_refs K (map ?ref [0..<len]) = K(1 := K 1 \<union> set (page_refs c m p))"
    by (auto simp: prefs fun_eq_iff add_refs_def)
  moreover have "check_index_page off p (hdr_at c m p) fs = check_references off p (hdr_at c m p) start first [0..<len] SPIFFS_OK ?fs"
    using load by (simp add: check_index_page_def SPIFFS_OK_def Let_def s(1) span_def [symmetric] start_def first_def len_def)
  ultimately show ?thesis by simp
qed

subsection \<open>Pages, blocks and ranges\<close>

text \<open>What visiting a page adds to the bitmap.\<close>

definition add_page :: "spiffs_config \<Rightarrow> mem \<Rightarrow> nat \<Rightarrow> (nat \<Rightarrow> nat set) \<Rightarrow> nat \<Rightarrow> nat set" where
  "add_page c m p K k =
     K k \<union> (if k = 0 then {q. q = p \<and> is_used (hdr_at c m p)} else if k = 1 then set (page_refs c m p)
             else if k = 2 then {q. q = p \<and> is_index (hdr_at c m p)} else {})"

lemma fold_add_page:
  "fold (add_page c m) ps K k =
     K k \<union> (if k = 0 then {q \<in> set ps. is_used (hdr_at c m q)} else if k = 1 then set (concat (map (page_refs c m) ps))
             else if k = 2 then {q \<in> set ps. is_index (hdr_at c m q)} else {})"
proof (induction ps arbitrary: K)
  case (Cons p ps)
  show ?case unfolding fold_simps comp_apply Cons by (auto simp: add_page_def)
qed simp

definition page_cost :: "spiffs_config \<Rightarrow> nat" where
  "page_cost c = log_page_size c + 2"

lemma check_page_ok:
  assumes "scan_ok c m nb off t" "p \<in> set (data_pages c nb)"
    and "distinct (page_refs c m p)" "set (page_refs c m p) \<inter> K 1 = {}"
    and "scan_state t (n + page_cost c) off K fs"
  shows "\<exists>fs'. check_page off p fs = Some (Continue (False, SPIFFS_OK, fs')) \<and> scan_state t n off (add_page c m p K) fs'"
proof -
  let ?h = "hdr_at c m p" and ?N = "n + log_page_size c + 1"
  have c: "cfg fs = c" using scan_stateD [OF assms(1,5)] by simp
  have "scan_state t (Suc ?N) off K fs" using assms(5) by (simp add: page_cost_def)
  then obtain fs1 where f1: "rd_header (OP_T_OBJ_LU2 OR OP_C_READ) (SPIFFS_PAGE_TO_PADDR c p) fs = Some (SPIFFS_OK, ?h, fs1)"
      "scan_state t ?N off K fs1"
    using scan_rd_header [OF assms(1,2)] by blast
  have c1: "cfg fs1 = c" using scan_stateD [OF assms(1) f1(2)] by simp
  define K1 where "K1 = (if is_used ?h then K(0 := insert p (K 0)) else K)"
  obtain fs2 where f2: "(if in_scan c off p \<and> is_used ?h then set_mark 0 off p fs1 else Some fs1) = Some fs2"
      "scan_state t ?N off K1 fs2"
    using scan_mark_if [OF assms(1) _ f1(2), of 0 p "is_used ?h"] unfolding K1_def by auto
  have d: "check_page off p fs =
      (if is_index ?h then (if in_scan c off p then set_mark 2 off p fs2 else Some fs2) \<bind> check_index_page off p ?h
       else Some (Continue (False, SPIFFS_OK, fs2)))"
    using f1(1) f2(1) by (simp add: check_page_def c c1 SPIFFS_OK_def Let_def is_used_def is_index_def conj_ac)
  show ?thesis
  proof (cases "is_index ?h")
    case False
    then have "K1 = add_page c m p K" by (auto simp: K1_def add_page_def fun_eq_iff page_refs_def)
    then show ?thesis using False d f2(2) scan_state_less [of t n "log_page_size c + 1"] by (simp add: add.assoc)
  next
    case True
    define K2 where "K2 = K1(2 := insert p (K1 2))"
    obtain fs3 where f3: "(if in_scan c off p then set_mark 2 off p fs2 else Some fs2) = Some fs3" "scan_state t ?N off K2 fs3"
      using scan_mark_if [OF assms(1) _ f2(2), of 2 p True] unfolding K2_def by auto
    have "set (page_refs c m p) \<inter> K2 1 = {}" using assms(4) by (simp add: K2_def K1_def)
    then obtain fs4 where "check_index_page off p ?h fs3 = Some (Continue (False, SPIFFS_OK, fs4))"
        "scan_state t n off (K2(1 := K2 1 \<union> set (page_refs c m p))) fs4"
      using check_index_page_ok [OF assms(1,2) True assms(3) _ f3(2)] by blast
    moreover have "K2(1 := K2 1 \<union> set (page_refs c m p)) = add_page c m p K"
      using True by (auto simp: K2_def K1_def add_page_def fun_eq_iff)
    ultimately show ?thesis using True d f3(1) by simp
  qed
qed

lemma check_pages_ok:
  assumes "scan_ok c m nb off t" "lim < 65536"
    and "cur \<le> lim" "set [cur..<lim] \<subseteq> set (data_pages c nb)"
    and "distinct (concat (map (page_refs c m) [cur..<lim]))" "set (concat (map (page_refs c m) [cur..<lim])) \<inter> K 1 = {}"
    and "scan_state t (n + page_cost c * (lim - cur)) off K fs"
  shows "\<exists>fs'. check_pages off lim cur SPIFFS_OK fs = Some (Continue (False, SPIFFS_OK, fs')) \<and>
    scan_state t n off (fold (add_page c m) [cur..<lim] K) fs'"
  using assms(3-)
proof (induction "lim - cur" arbitrary: cur K fs)
  case 0
  then show ?case by (simp add: check_pages.simps)
next
  case (Suc d)
  have lt: "cur < lim" using Suc.hyps(2) by simp
  then have upt: "[cur..<lim] = cur # [Suc cur..<lim]" by (rule upt_conv_Cons)
  have rest: "d = lim - Suc cur" using Suc.hyps(2) by simp
  have dis: "distinct (page_refs c m cur)" "distinct (concat (map (page_refs c m) [Suc cur..<lim]))"
    "set (page_refs c m cur) \<inter> set (concat (map (page_refs c m) [Suc cur..<lim])) = {}"
    using Suc.prems(3) unfolding upt by simp_all
  have st: "scan_state t ((n + page_cost c * (lim - Suc cur)) + page_cost c) off K fs"
    using Suc.prems(5) unfolding Suc.hyps(2) [symmetric] rest [symmetric] by (simp add: ac_simps)
  have p: "cur \<in> set (data_pages c nb)" "set (page_refs c m cur) \<inter> K 1 = {}" using Suc.prems(2,4) unfolding upt by auto
  obtain fs1 where f1: "check_page off cur fs = Some (Continue (False, SPIFFS_OK, fs1))"
      "scan_state t (n + page_cost c * (lim - Suc cur)) off (add_page c m cur K) fs1"
    using check_page_ok [OF assms(1) p(1) dis(1) p(2) st] by blast
  have new: "set (concat (map (page_refs c m) [Suc cur..<lim])) \<inter> add_page c m cur K 1 = {}"
    using Suc.prems(4) dis(3) unfolding upt by (auto simp: add_page_def)
  have sub: "set [Suc cur..<lim] \<subseteq> set (data_pages c nb)" using Suc.prems(2) unfolding upt by simp
  have "u16_of (cur + 1) = Suc cur" using lt assms(2) by simp
  then have "check_pages off lim cur SPIFFS_OK fs = check_pages off lim (Suc cur) SPIFFS_OK fs1"
    using lt f1(1) by (subst check_pages.simps) simp
  moreover have "\<exists>fs'. check_pages off lim (Suc cur) SPIFFS_OK fs1 = Some (Continue (False, SPIFFS_OK, fs')) \<and>
      scan_state t n off (fold (add_page c m) [Suc cur..<lim] (add_page c m cur K)) fs'"
    using lt by (intro Suc.hyps(1) [OF rest _ sub dis(2) new f1(2)]) simp
  ultimately show ?case unfolding upt by simp
qed

lemma check_blocks_ok:
  assumes "scan_ok c m nb off t"
    and "b \<le> nb" "ps = concat (map (block_data_pages c) [b..<nb])"
    and "distinct (concat (map (page_refs c m) ps))" "set (concat (map (page_refs c m) ps)) \<inter> K 1 = {}"
    and "scan_state t (n + page_cost c * length ps) off K fs"
  shows "\<exists>fs'. check_blocks off b SPIFFS_OK fs = Some (Continue (False, SPIFFS_OK, fs')) \<and>
    scan_state t n off (fold (add_page c m) ps K) fs'"
  using assms(2-)
proof (induction "nb - b" arbitrary: b ps K fs)
  case 0
  then have "\<not> b < block_count fs" "ps = []" using scan_stateD [OF assms(1) 0(6)] by simp_all
  then show ?case using 0 by (simp add: check_blocks.simps)
next
  case (Suc d)
  note o = scan_okD [OF assms(1)] and s = scan_stateD [OF assms(1) Suc.prems(5)]
  let ?P = "SPIFFS_PAGES_PER_BLOCK c" and ?O = "SPIFFS_OBJ_LOOKUP_PAGES c"
  have lt: "b < nb" using Suc.hyps(2) by simp
  define qs where "qs = concat (map (block_data_pages c) [Suc b..<nb])"
  define cur where "cur = ?O + ?P * b"
  define lim where "lim = ?P * (b + 1)"
  have ps: "ps = [cur..<lim] @ qs"
    using lt Suc.prems(2) by (simp add: upt_conv_Cons qs_def block_data_pages_def cur_def lim_def del: upt_Suc)
  have sub: "set [cur..<lim] \<subseteq> set (data_pages c nb)"
    using lt by (auto simp: data_pages_def block_data_pages_def cur_def lim_def)
  have "lim \<le> ?P * nb" unfolding lim_def using lt by (intro mult_le_mono2) simp
  then have lim: "lim < 65536" "cur \<le> lim" "b < 65535"
    using o(3,4) lt by (auto simp: scan_geom_def lu_geom_def cur_def lim_def)
  have u: "u32_of (?P * (b + 1)) = lim" "u16_of (?O + ?P * b) = cur" "u16_of (b + 1) = Suc b"
    using lim unfolding lim_def [symmetric] cur_def [symmetric] by simp_all
  have dis: "distinct (concat (map (page_refs c m) [cur..<lim]))" "distinct (concat (map (page_refs c m) qs))"
    "set (concat (map (page_refs c m) [cur..<lim])) \<inter> set (concat (map (page_refs c m) qs)) = {}"
    using Suc.prems(3) unfolding ps by simp_all
  have st: "scan_state t ((n + page_cost c * length qs) + page_cost c * (lim - cur)) off K fs"
    using Suc.prems(5) unfolding ps by (simp add: add_mult_distrib2 ac_simps)
  have new: "set (concat (map (page_refs c m) [cur..<lim])) \<inter> K 1 = {}" using Suc.prems(4) unfolding ps by auto
  define K' where "K' = fold (add_page c m) [cur..<lim] K"
  obtain fs1 where f1: "check_pages off lim cur SPIFFS_OK fs = Some (Continue (False, SPIFFS_OK, fs1))"
      "scan_state t (n + page_cost c * length qs) off K' fs1"
    using check_pages_ok [OF assms(1) lim(1,2) sub dis(1) new st] unfolding K'_def by blast
  have new': "set (concat (map (page_refs c m) qs)) \<inter> K' 1 = {}"
    using Suc.prems(4) dis(3) unfolding ps K'_def by (auto simp: fold_add_page)
  have "check_blocks off b SPIFFS_OK fs = check_blocks off (Suc b) SPIFFS_OK fs1"
    using lt f1(1) by (subst check_blocks.simps) (simp add: s(1,3) u del: mult_Suc_right add_2_eq_Suc' One_nat_def)
  moreover have "\<exists>fs'. check_blocks off (Suc b) SPIFFS_OK fs1 = Some (Continue (False, SPIFFS_OK, fs')) \<and>
      scan_state t n off (fold (add_page c m) qs K') fs'"
    using Suc.hyps(2) lt by (intro Suc.hyps(1) [OF _ _ qs_def dis(2) new' f1(2)]) simp_all
  ultimately show ?case unfolding ps by (simp add: K'_def)
qed

lemma and_7_one:
  fixes x :: byte
  assumes "x AND 7 = 1"
  shows "bit x 0" "\<not> bit x 1" "\<not> bit x 2"
proof -
  have "bit (x AND 7) n = bit (1 :: byte) n" for n by (simp only: assms)
  from this [of 0] this [of 1] this [of 2] show "bit x 0" "\<not> bit x 1" "\<not> bit x 2"
    by (simp_all add: bit_and_iff bit_1_iff)
qed

lemma check_bitmap_ok:
  assumes "scan_ok c m nb off t" "scan_state t n off K fs" "set ks \<subseteq> {..<2 * log_page_size c}"
    and "\<And>p. p \<in> K 0 \<Longrightarrow> p \<in> K 1 \<or> p \<in> K 2"
  shows "check_bitmap off ks SPIFFS_OK fs = Some (Continue (False, SPIFFS_OK, fs))"
  using assms(3)
proof (induction ks)
  case (Cons k ks)
  note o = scan_okD [OF assms(1)] and s = scan_stateD [OF assms(1,2)]
  have k: "k < 2 * log_page_size c" using Cons.prems by simp
  define b where "b = work fs ! (k div 2)"
  have len: "k div 2 < length (work fs)" using k s(5) by (auto simp: marks_def)
  have "in_scan c off (off + k)" using k o(10) by (simp add: in_scan_def)
  note mb = marks_bit [OF s(5) this]
  have m2: "(off + k) mod 2 = k mod 2" using o(9) by (simp add: mod_add_eq [symmetric] even_iff_mod_2_eq_zero)
  have bits: "bit b (4 * (k mod 2) + j) \<longleftrightarrow> off + k \<in> K j" if "j < 4" for j
    using mb [OF that] by (simp add: m2 b_def)
  have "drop_bit (4 * (k mod 2)) b AND 7 \<noteq> 1"
  proof
    assume "drop_bit (4 * (k mod 2)) b AND 7 = 1"
    note this [THEN and_7_one(1)] this [THEN and_7_one(2)] this [THEN and_7_one(3)]
    then show False using assms(4) [of "off + k"] bits [of 0] bits [of 1] bits [of 2] by (simp add: bit_drop_bit_eq)
  qed
  then show ?case using Cons len by (simp add: page_mark_def b_def)
qed simp

definition range_cost :: "spiffs_config \<Rightarrow> nat \<Rightarrow> nat" where
  "range_cost c nb = page_cost c * length (data_pages c nb)"

lemma check_range_ok:
  assumes "scan_ok c m nb off t" "strip (fs\<lparr>work := []\<rparr>) = t" "cache_ok (n + range_cost c nb) fs"
  shows "\<exists>fs'. check_range off SPIFFS_OK fs = Some (Continue (False, SPIFFS_OK, fs')) \<and> strip (fs'\<lparr>work := []\<rparr>) = t \<and> cache_ok n fs'"
proof -
  note o = scan_okD [OF assms(1)]
  have c: "cfg fs = c" using arg_cong [OF assms(2), of cfg] o(6) by simp
  define w where "w = replicate (log_page_size c) 0 @ drop (log_page_size c) (work fs)"
  let ?ps = "data_pages c nb"
  have "marks c off (\<lambda>_. {}) w"
    using o(10) by (auto simp: marks_def w_def in_scan_def nth_append)
  moreover have "cache_ok (n + range_cost c nb) (fs\<lparr>work := w\<rparr>)" using assms(3) by (simp add: cache_ok_def)
  ultimately have st: "scan_state t (n + page_cost c * length ?ps) off (\<lambda>_. {}) (fs\<lparr>work := w\<rparr>)"
    using assms(2) o(6) by (simp add: scan_state_def range_cost_def)
  define K where "K = fold (add_page c m) ?ps (\<lambda>_. {})"
  obtain fs1 where f1: "check_blocks off 0 SPIFFS_OK (fs\<lparr>work := w\<rparr>) = Some (Continue (False, SPIFFS_OK, fs1))" "scan_state t n off K fs1"
    using check_blocks_ok [OF assms(1) _ data_pages_def _ _ st] o(5) unfolding K_def by (auto simp: pages_consistent_def)
  have "p \<in> K 1 \<or> p \<in> K 2" if "p \<in> K 0" for p
    using that o(5) by (auto simp: K_def fold_add_page pages_consistent_def)
  then have "check_bitmap off [0..<2 * log_page_size c] SPIFFS_OK fs1 = Some (Continue (False, SPIFFS_OK, fs1))"
    by (intro check_bitmap_ok [OF assms(1) f1(2)]) auto
  then have "check_range off SPIFFS_OK fs = Some (Continue (False, SPIFFS_OK, fs1))"
    using f1(1) scan_stateD(1) [OF assms(1) f1(2)] by (simp add: check_range_def c w_def [symmetric])
  then show ?thesis using f1(2) by (auto simp: scan_state_def)
qed

text \<open>The number of ranges from a page on.\<close>

definition ranges_from :: "spiffs_config \<Rightarrow> nat \<Rightarrow> nat \<Rightarrow> nat" where
  "ranges_from c nb off = (SPIFFS_PAGES_PER_BLOCK c * nb + 2 * log_page_size c - 1 - off) div (2 * log_page_size c)"

lemma page_check_loop_ok:
  assumes "disk_hal c" "scan_geom c nb" "pages_consistent c m nb" "on_disk c m nb t"
    and "even off" "strip (fs\<lparr>work := []\<rparr>) = t" "cache_ok (n + range_cost c nb * ranges_from c nb off) fs"
  shows "\<exists>fs'. page_check_loop off SPIFFS_OK fs = Some (SPIFFS_OK, fs') \<and> strip (fs'\<lparr>work := []\<rparr>) = t \<and> cache_ok n fs'"
  using assms(5-)
proof (induction "SPIFFS_PAGES_PER_BLOCK c * nb - off" arbitrary: off fs rule: less_induct)
  case less
  let ?T = "SPIFFS_PAGES_PER_BLOCK c * nb" and ?S = "2 * log_page_size c"
  have c: "cfg fs = c" "block_count fs = nb"
    using arg_cong [OF less.prems(2), of cfg] arg_cong [OF less.prems(2), of block_count] assms(4) by (simp_all add: on_disk_def)
  have T: "u32_of (?T) = ?T" using assms(2) by (simp add: scan_geom_def)
  show ?case
  proof (cases "off < ?T")
    case False
    then have "page_check_loop off SPIFFS_OK fs = Some (SPIFFS_OK, fs)" by (simp add: page_check_loop.simps c T)
    then show ?thesis using less.prems(2) cache_ok_less [OF less.prems(3)] by blast
  next
    case True
    have ok: "scan_ok c m nb off t" unfolding scan_ok_def by (intro conjI assms(1-4) less.prems(1) True)
    note o = scan_okD [OF ok]
    have S: "0 < ?S" using o(2) by (simp add: geom_def)
    have r: "ranges_from c nb off = Suc (ranges_from c nb (off + ?S))"
    proof -
      have "?T + ?S - 1 - off = (?T - 1 - off) + ?S" "?T + ?S - 1 - (off + ?S) = ?T - 1 - off" using True by simp_all
      then show ?thesis using S unfolding ranges_from_def by (simp only: div_add_self2 [OF S [THEN less_imp_neq, symmetric]] Suc_eq_plus1)
    qed
    have cost: "cache_ok (n + range_cost c nb * ranges_from c nb (off + ?S) + range_cost c nb) fs"
      using less.prems(3) unfolding r mult_Suc_right by (simp only: ac_simps)
    obtain fs1 where f1: "check_range off SPIFFS_OK fs = Some (Continue (False, SPIFFS_OK, fs1))" "strip (fs1\<lparr>work := []\<rparr>) = t"
        "cache_ok (n + range_cost c nb * ranges_from c nb (off + ?S)) fs1"
      using check_range_ok [OF ok less.prems(2) cost] by blast
    have c1: "cfg fs1 = c" using arg_cong [OF f1(2), of cfg] o(6) by simp
    have "u16_of (off + pages_per_scan (cfg fs1)) = off + ?S" using o(3,10) True by (simp add: c1 scan_geom_def)
    then have "page_check_loop off SPIFFS_OK fs = page_check_loop (off + ?S) SPIFFS_OK fs1"
      using True f1(1) by (subst page_check_loop.simps) (simp add: c T)
    moreover have "\<exists>fs'. page_check_loop (off + ?S) SPIFFS_OK fs1 = Some (SPIFFS_OK, fs') \<and> strip (fs'\<lparr>work := []\<rparr>) = t \<and> cache_ok n fs'"
      using True S less.prems(1) f1(3) by (intro less.hyps [OF _ _ f1(2)]) simp_all
    ultimately show ?thesis by simp
  qed
qed

subsection \<open>Properties\<close>

text \<open>No orphans: an index page has the index header of its object, its index page of span 0.\<close>

definition headers_consistent :: "spiffs_config \<Rightarrow> mem \<Rightarrow> nat \<Rightarrow> bool" where
  "headers_consistent c m nb \<longleftrightarrow> (\<forall>b<nb. \<forall>e<max_entries c. let i = lu_id c m b e in
     i \<noteq> SPIFFS_OBJ_ID_FREE \<longrightarrow> i \<noteq> SPIFFS_OBJ_ID_DELETED \<longrightarrow> i AND SPIFFS_OBJ_ID_IX_FLAG \<noteq> 0 \<longrightarrow>
     (\<exists>b'<nb. \<exists>e'<max_entries c. lu_id c m b' e' = i \<and> ph_span_ix (hdr_at c m (SPIFFS_OBJ_LOOKUP_ENTRY_TO_PIX c b' e')) = 0))"

definition consistent :: "spiffs_config \<Rightarrow> mem \<Rightarrow> nat \<Rightarrow> bool" where
  "consistent c m nb \<longleftrightarrow> lookup_consistent c m nb \<and> index_consistent c m nb \<and> headers_consistent c m nb \<and> pages_consistent c m nb"

definition check_cost :: "spiffs \<Rightarrow> nat" where
  "check_cost fs = 2 * scan_cost fs + range_cost (cfg fs) (block_count fs) * ranges_from (cfg fs) (block_count fs) 0"

lemma strip_work: "strip (fs\<lparr>work := w\<rparr>) = (strip fs)\<lparr>work := w\<rparr>"
  by (simp add: strip_def)

text \<open>
  C10: A consistent file system passes the checks of \<open>SPIFFS_check\<close> unharmed. Consistent means: every
  lookup entry agrees with the header of its page (deleted, free, or used with the same object and
  kind, finalised); no index page is left of an object being deleted; every index page has the index
  header of its object, so that there are no orphans; the references of the index pages go to data pages of their object and span, no page is referred to twice, and every used page
  is an index page or referred to. Then the lookup, object index and page checks, one after the
  other, return \<open>SPIFFS_OK\<close> - the page check, which starts over after every repair, ends - and
  flash, descriptors, cursors and statistics are as before.
\<close>

theorem checks_accept_consistent:
  assumes "disk_hal (cfg fs)" "scan_geom (cfg fs) (block_count fs)" "cache_ok (n + check_cost fs) fs"
    and "consistent (cfg fs) (flash fs) (block_count fs)"
  shows "\<exists>fs1 fs2 fs3 w. spiffs_lookup_consistency_check fs = Some (SPIFFS_OK, fs1) \<and>
     spiffs_object_index_consistency_check fs1 = Some (SPIFFS_OK, fs2) \<and>
     spiffs_page_consistency_check fs2 = Some (SPIFFS_OK, fs3) \<and>
     strip fs3 = (strip fs)\<lparr>work := w\<rparr> \<and> cache_ok n fs3"
proof -
  let ?c = "cfg fs" and ?m = "flash fs" and ?nb = "block_count fs"
  define k where "k = range_cost ?c ?nb * ranges_from ?c ?nb 0"
  have l: "lu_geom ?c ?nb" using assms(2) by (simp add: scan_geom_def)
  have ok: "cache_ok ((n + k + scan_cost fs) + scan_cost fs) fs" using assms(3) by (simp add: check_cost_def k_def ac_simps mult_2 mult_2_right)
  obtain fs1 where f1: "spiffs_lookup_consistency_check fs = Some (SPIFFS_OK, fs1)" "strip fs1 = strip fs" "cache_ok (n + k + scan_cost fs) fs1"
    using lookup_check_ok [OF assms(1) l ok] assms(4) by (auto simp: consistent_def)
  have e1: "cfg fs1 = ?c" "flash fs1 = ?m" "block_count fs1 = ?nb"
    using arg_cong [OF f1(2), of cfg] arg_cong [OF f1(2), of flash] arg_cong [OF f1(2), of block_count] by simp_all
  have "cache_ok ((n + k) + scan_cost fs1) fs1" using f1(3) by (simp add: scan_cost_def e1)
  then obtain w fs2 where f2: "spiffs_object_index_consistency_check fs1 = Some (SPIFFS_OK, fs2)" "strip fs2 = (strip fs1)\<lparr>work := w\<rparr>"
      "cache_ok (n + k) fs2"
    using index_check_ok [of fs1 "n + k"] assms(1,4) l by (auto simp: e1 consistent_def)
  have st: "strip (fs2\<lparr>work := []\<rparr>) = (strip fs)\<lparr>work := []\<rparr>" using f2(2) f1(2) by (simp add: strip_work)
  have "on_disk ?c ?m ?nb ((strip fs)\<lparr>work := []\<rparr>)" by (simp add: on_disk_def)
  then obtain fs3 where f3: "page_check_loop 0 SPIFFS_OK fs2 = Some (SPIFFS_OK, fs3)" "strip (fs3\<lparr>work := []\<rparr>) = (strip fs)\<lparr>work := []\<rparr>" "cache_ok n fs3"
    using page_check_loop_ok [OF assms(1,2) _ _ _ st, of ?m 0 n] f2(3) assms(4) by (auto simp: consistent_def k_def)
  have "strip fs3 = (strip (fs3\<lparr>work := []\<rparr>))\<lparr>work := work fs3\<rparr>" by (simp add: strip_work [symmetric])
  then have "strip fs3 = (strip fs)\<lparr>work := work fs3\<rparr>" unfolding f3(2) by simp
  then show ?thesis using f1(1) f2(1) f3(1,3)
    unfolding spiffs_page_consistency_check_def spiffs_page_consistency_check_i_def by blast
qed

text \<open>A file system with one object of one page: data in page 17, index header in page 18.\<close>

definition object_img :: mem where
  "object_img = mem_write 4352 (page_header_bytes \<lparr>ph_obj_id = 1, ph_span_ix = 0, ph_flags = 0xfc\<rparr>)
     (mem_write 4608 (page_header_bytes \<lparr>ph_obj_id = 0x8001, ph_span_ix = 0, ph_flags = 0xf8\<rparr>)
     (mem_write (4608 + SIZEOF_OBJIX_HEADER) (le16 17) (mem_write 4096 (le16 1 @ le16 0x8001) (\<lambda>_. 0xff))))"

lemma object_img_blank:
  assumes "a + n \<le> 4096 \<or> 4100 \<le> a" "a + n \<le> 4352 \<or> 4357 \<le> a" "a + n \<le> 4608 \<or> 4613 \<le> a" "a + n \<le> 4654 \<or> 4656 \<le> a"
  shows "mem_read object_img a n = replicate n 0xff"
proof (rule nth_equalityI)
  fix i assume "i < length (mem_read object_img a n)"
  then show "mem_read object_img a n ! i = replicate n 0xff ! i"
    using assms by (auto simp: object_img_def mem_write_def length_page_header_bytes SIZEOF_OBJIX_HEADER_def)
qed simp

lemma object_img_parts:
  "mem_read object_img 4352 5 = page_header_bytes \<lparr>ph_obj_id = 1, ph_span_ix = 0, ph_flags = 0xfc\<rparr>"
  "mem_read object_img 4608 5 = page_header_bytes \<lparr>ph_obj_id = 0x8001, ph_span_ix = 0, ph_flags = 0xf8\<rparr>"
  "mem_read object_img 4654 2 = le16 17" "mem_read object_img 4096 2 = le16 1" "mem_read object_img 4098 2 = le16 0x8001"
proof -
  note other = mem_read_cong [where m = object_img]
  show "mem_read object_img 4352 5 = page_header_bytes \<lparr>ph_obj_id = 1, ph_span_ix = 0, ph_flags = 0xfc\<rparr>"
    using mem_write_same [of 4352 "page_header_bytes \<lparr>ph_obj_id = 1, ph_span_ix = 0, ph_flags = 0xfc\<rparr>"]
    by (simp add: object_img_def length_page_header_bytes)
  show "mem_read object_img 4608 5 = page_header_bytes \<lparr>ph_obj_id = 0x8001, ph_span_ix = 0, ph_flags = 0xf8\<rparr>"
    by (rule nth_equalityI) (auto simp: object_img_def mem_write_def length_page_header_bytes)
  show "mem_read object_img 4654 2 = le16 17" "mem_read object_img 4096 2 = le16 1" "mem_read object_img 4098 2 = le16 0x8001"
    by (rule nth_equalityI; auto simp: object_img_def mem_write_def length_page_header_bytes SIZEOF_OBJIX_HEADER_def nth_append)+
qed

lemma demo_page_start: "page_start demo_cfg p = 256 * p"
  by (simp add: page_start_def)

lemma object_hdr:
  "hdr_at demo_cfg object_img p =
     (if p = 17 then \<lparr>ph_obj_id = 1, ph_span_ix = 0, ph_flags = 0xfc\<rparr>
      else if p = 18 then \<lparr>ph_obj_id = 0x8001, ph_span_ix = 0, ph_flags = 0xf8\<rparr>
      else page_header_of (replicate 5 0xff))" if "p \<noteq> 16"
proof -
  have "mem_read object_img (256 * p) 5 = replicate 5 0xff" if "p \<noteq> 17" "p \<noteq> 18"
  proof -
    have "p \<le> 15 \<or> 19 \<le> p" using that \<open>p \<noteq> 16\<close> by linarith
    then show ?thesis by (elim disjE; intro object_img_blank; linarith)
  qed
  then show ?thesis
    using object_img_parts(1,2) by (auto simp: hdr_at_def demo_page_start SIZEOF_PAGE_HEADER_def page_header_of_bytes)
qed

lemma blank_id16: "of_le16 (replicate 2 0xff) = 0xffff"
proof -
  have "replicate 2 (0xff :: byte) = [0xff, 0xff]" unfolding numeral_2_eq_2 replicate_Suc replicate_0 ..
  then show ?thesis by (simp only: of_le16_ff SPIFFS_OBJ_ID_FREE_def)
qed

lemma object_id:
  assumes "b < 4" "e < 15"
  shows "lu_id demo_cfg object_img b e = (if b = 1 \<and> e = 0 then 1 else if b = 1 \<and> e = 1 then 0x8001 else 0xffff)"
proof -
  have id: "lu_id demo_cfg object_img b e = of_le16 (mem_read object_img (b * 4096 + 2 * e) 2)"
    by (simp add: lu_id_def lu_addr_def)
  have "b = 0 \<or> b = 1 \<or> 2 \<le> b" "e = 0 \<or> e = 1 \<or> 2 \<le> e" by linarith+
  then consider "b = 0" | "b = 1" "e = 0" | "b = 1" "e = 1" | "b = 1" "2 \<le> e" | "2 \<le> b" by blast
  then show ?thesis
  proof cases
    case 1
    then have "mem_read object_img (b * 4096 + 2 * e) 2 = replicate 2 0xff" using assms(2) by (intro object_img_blank) auto
    then show ?thesis using 1 unfolding id by (simp only: blank_id16) simp
  next
    case 2
    then show ?thesis unfolding id by (simp add: object_img_parts)
  next
    case 3
    then show ?thesis unfolding id by (simp add: object_img_parts)
  next
    case 4
    then have "mem_read object_img (b * 4096 + 2 * e) 2 = replicate 2 0xff" using assms(2) by (intro object_img_blank) auto
    then show ?thesis using 4 unfolding id by (simp only: blank_id16) simp
  next
    case 5
    then have "8192 \<le> b * 4096" by simp
    then have "mem_read object_img (b * 4096 + 2 * e) 2 = replicate 2 0xff" by (intro object_img_blank) linarith+
    then show ?thesis using 5 unfolding id by (simp only: blank_id16) simp
  qed
qed

lemma demo_entry_pix: "b < 4 \<Longrightarrow> e < 15 \<Longrightarrow> SPIFFS_OBJ_LOOKUP_ENTRY_TO_PIX demo_cfg b e = 16 * b + 1 + e"
  using entry_page(1) [OF demo_fs_ok(4) demo_disk(2), of b e] by simp

lemma object_headers:
  "is_used (page_header_of (replicate 5 0xff)) = False" "is_index (page_header_of (replicate 5 0xff)) = False"
  "is_index \<lparr>ph_obj_id = 1, ph_span_ix = 0, ph_flags = 0xfc\<rparr> = False"
  "is_index \<lparr>ph_obj_id = 0x8001, ph_span_ix = 0, ph_flags = 0xf8\<rparr>"
  by (simp_all add: is_used_def is_index_def page_header_of_def c_defs)

definition free_spans :: "nat list" where
  "free_spans = [1..<105]"

lemma object_refs: "index_refs demo_cfg object_img 18 = (0, 17) # map (\<lambda>i. (i, NO_IX)) free_spans"
proof -
  define r where "r i = unat (of_le16 (mem_read object_img (4608 + (46 + 2 * i)) 2))" for i
  have len: "SPIFFS_OBJ_HDR_IX_LEN demo_cfg = 105" by (simp add: SPIFFS_OBJ_HDR_IX_LEN_def SIZEOF_OBJIX_HEADER_def)
  have upt: "[0..<105] = 0 # free_spans" 
    using upt_conv_Cons [of 0 105] unfolding free_spans_def by (simp del: upt_Suc upt_rec_numeral)
  have "index_refs demo_cfg object_img 18 = map (\<lambda>i. (i, r i)) (0 # free_spans)"
    by (simp add: index_refs_def object_hdr len upt demo_page_start SIZEOF_OBJIX_HEADER_def r_def del: upt_Suc upt_rec_numeral)
  moreover have "r 0 = 17" using object_img_parts(3) by (simp add: r_def)
  moreover have "r i = NO_IX" if "i \<in> set free_spans" for i
  proof -
    have "1 \<le> i" using that unfolding free_spans_def by (simp only: set_upt atLeastLessThan_iff)
    then have "mem_read object_img (4608 + (46 + 2 * i)) 2 = replicate 2 0xff" by (intro object_img_blank) linarith+
    then show ?thesis by (simp only: r_def blank_id16) (simp add: NO_IX_def)
  qed
  ultimately show ?thesis by simp
qed

lemma object_page_refs: "p \<noteq> 16 \<Longrightarrow> page_refs demo_cfg object_img p = (if p = 18 then [17] else [])"
  using object_headers by (auto simp: page_refs_def object_hdr object_refs NO_IX_def comp_def)

lemma demo_data_pages: "data_pages demo_cfg 4 = [1..<16] @ [17..<32] @ [33..<48] @ [49..<64]"
proof -
  have "[0..<4] = [0, 1, 2, 3 :: nat]" by (simp add: upt_rec)
  then show ?thesis by (simp add: data_pages_def block_data_pages_def del: upt_rec_numeral)
qed

lemma concat_map_one:
  assumes "\<forall>p \<in> set xs. f p = (if p = a then [b] else [])" "distinct xs" "a \<in> set xs"
  shows "concat (map f xs) = [b]"
proof -
  have none: "concat (map f ys) = []" if "\<forall>p \<in> set ys. f p = (if p = a then [b] else [])" "a \<notin> set ys" for ys
    using that by (induction ys) auto
  show ?thesis using assms
  proof (induction xs)
    case (Cons x xs)
    then show ?case using none [of xs] by (cases "x = a") auto
  qed simp
qed

lemma object_consistent: "consistent demo_cfg object_img 4"
proof -
  let ?pix = "\<lambda>b e. SPIFFS_OBJ_LOOKUP_ENTRY_TO_PIX demo_cfg b e"
  have e: "entry_ok 1 \<lparr>ph_obj_id = 1, ph_span_ix = 0, ph_flags = 0xfc\<rparr>"
    "entry_ok 0x8001 \<lparr>ph_obj_id = 0x8001, ph_span_ix = 0, ph_flags = 0xf8\<rparr>"
    "entry_ok 0xffff (page_header_of (replicate 5 0xff))"
    by (simp_all add: entry_ok_def page_header_of_def c_defs)
  have hdr: "hdr_at demo_cfg object_img (?pix b e) =
      (if b = 1 \<and> e = 0 then \<lparr>ph_obj_id = 1, ph_span_ix = 0, ph_flags = 0xfc\<rparr>
       else if b = 1 \<and> e = 1 then \<lparr>ph_obj_id = 0x8001, ph_span_ix = 0, ph_flags = 0xf8\<rparr>
       else page_header_of (replicate 5 0xff))" if "b < 4" "e < 15" for b e
  proof -
    have "16 * b + 1 + e \<noteq> 16" "16 * b + 1 + e = 17 \<longleftrightarrow> b = 1 \<and> e = 0" "16 * b + 1 + e = 18 \<longleftrightarrow> b = 1 \<and> e = 1"
      using that(2) by presburger+
    note this(2,3) object_hdr [OF this(1)]
    then show ?thesis unfolding demo_entry_pix [OF that] by simp
  qed
  have "lookup_consistent demo_cfg object_img 4"
    unfolding lookup_consistent_def using e by (simp add: object_id hdr)
  moreover have "index_consistent demo_cfg object_img 4"
    unfolding index_consistent_def by (auto simp: object_id hdr Let_def c_defs)
  moreover have "headers_consistent demo_cfg object_img 4"
  proof -
    have "\<exists>b'<4. \<exists>e'<15. lu_id demo_cfg object_img b' e' = 0x8001 \<and> ph_span_ix (hdr_at demo_cfg object_img (?pix b' e')) = 0"
      by (rule exI [of _ 1], rule conjI, simp, rule exI [of _ 1]) (simp add: object_id hdr)
    then show ?thesis unfolding headers_consistent_def by (auto simp: object_id Let_def c_defs)
  qed
  moreover have "pages_consistent demo_cfg object_img 4"
  proof -
    let ?D = "set (data_pages demo_cfg 4)"
    have D: "17 \<in> ?D" "18 \<in> ?D" "16 \<notin> ?D" "distinct (data_pages demo_cfg 4)"
      unfolding demo_data_pages by (auto simp del: upt_Suc upt_rec_numeral)
    have ne: "p \<noteq> 16" if "p \<in> ?D" for p using that D(3) by metis
    have idx: "is_index (hdr_at demo_cfg object_img p) \<longleftrightarrow> p = 18" if "p \<in> ?D" for p
      using object_headers object_hdr [OF ne [OF that]] by (auto split: if_splits)
    have used: "is_used (hdr_at demo_cfg object_img p) \<Longrightarrow> p = 17 \<or> p = 18" if "p \<in> ?D" for p
      using object_headers object_hdr [OF ne [OF that]] by (auto split: if_splits)
    have refs: "page_refs demo_cfg object_img p = (if p = 18 then [17] else [])" if "p \<in> ?D" for p
      by (rule object_page_refs [OF ne [OF that]])
    have "concat (map (page_refs demo_cfg object_img) (data_pages demo_cfg 4)) = [17]"
      using concat_map_one [of "data_pages demo_cfg 4" "page_refs demo_cfg object_img" 18 17] refs D by auto
    moreover have "r \<in> ?D \<and> ref_ok (hdr_at demo_cfg object_img p) spix (hdr_at demo_cfg object_img r)"
      if "p \<in> ?D" "is_index (hdr_at demo_cfg object_img p)" "(spix, r) \<in> set (index_refs demo_cfg object_img p)" "r \<noteq> NO_IX" for p spix r
    proof -
      have p: "p = 18" using idx [OF that(1)] that(2) by simp
      then have "spix = 0" "r = 17" using that(3,4) by (auto simp: object_refs)
      then show ?thesis using D(1) p by (simp add: object_hdr ref_ok_def c_defs)
    qed
    moreover have "is_index (hdr_at demo_cfg object_img p) \<or> p = 17" if "p \<in> ?D" "is_used (hdr_at demo_cfg object_img p)" for p
      using idx [OF that(1)] used [OF that] by blast
    ultimately show ?thesis unfolding pages_consistent_def by auto
  qed
  ultimately show ?thesis by (simp add: consistent_def)
qed

theorem checks_accept_consistent_witness:
  "\<exists>fs1 fs2 fs3 w. spiffs_lookup_consistency_check (demo_on object_img) = Some (SPIFFS_OK, fs1) \<and>
     spiffs_object_index_consistency_check fs1 = Some (SPIFFS_OK, fs2) \<and>
     spiffs_page_consistency_check fs2 = Some (SPIFFS_OK, fs3) \<and>
     strip fs3 = (strip (demo_on object_img))\<lparr>work := w\<rparr> \<and> cache_ok 0 fs3"
proof (rule checks_accept_consistent)
  show "disk_hal (cfg (demo_on object_img))" using demo_disk by simp
  show "scan_geom (cfg (demo_on object_img)) (block_count (demo_on object_img))" using demo_disk by (simp add: scan_geom_def)
  have "length (data_pages demo_cfg 4) = 60" by (simp add: demo_data_pages del: upt_Suc upt_rec_numeral)
  then have "check_cost (demo_on object_img) = 2 * 80 + 258 * 60"
    by (simp add: check_cost_def scan_cost_def range_cost_def page_cost_def ranges_from_def)
  then show "cache_ok (0 + check_cost (demo_on object_img)) (demo_on object_img)" by (simp add: demo_ok)
  show "consistent (cfg (demo_on object_img)) (flash (demo_on object_img)) (block_count (demo_on object_img))"
    using object_consistent by simp
qed

subsection \<open>The table of the object index check\<close>

lemma empty_table_search:
  assumes "take k (work fs) = replicate k 0" "even k" "k = log_page_size (cfg fs)" "i AND NOT SPIFFS_OBJ_ID_IX_FLAG \<noteq> 0"
  shows "spiffs_object_index_search i fs = Some None"
proof -
  have len: "k \<le> length (work fs)" using arg_cong [OF assms(1), of length] by simp
  have "table_get j fs = Some 0" if "j < k div 2" for j
  proof -
    have j: "2 * j + 2 \<le> k" using that by presburger
    then have "take 2 (drop (2 * j) (work fs)) = take 2 (drop (2 * j) (take k (work fs)))" by (simp add: drop_take min_def)
    also have "\<dots> = replicate 2 0" unfolding assms(1) using j by (simp add: min_def)
    finally have "buf_slice (2 * j) 2 (work fs) = Some (replicate 2 0)" using j len by (simp add: buf_slice_def)
    moreover have "of_le16 (replicate 2 0) = 0" unfolding numeral_2_eq_2 replicate_Suc replicate_0 by simp
    ultimately show ?thesis by (simp add: table_get_def)
  qed
  then have none: "index_search (i AND NOT SPIFFS_OBJ_ID_IX_FLAG) js fs = Some None" if "set js \<subseteq> {..<k div 2}" for js
    using that assms(4) by (induction js) auto
  show ?thesis unfolding spiffs_object_index_search_def table_len_def assms(3) [symmetric] by (rule none) auto
qed

lemma register_nowhere [simp]: "register_id i None fs = None"
  by (simp add: register_id_def)

text \<open>
  Entries of index pages; index pages that are intact; headers of objects whose deletion was
  interrupted. The check is there for the others.
\<close>

definition index_id :: "u16 \<Rightarrow> bool" where
  "index_id i \<longleftrightarrow> i \<noteq> SPIFFS_OBJ_ID_FREE \<and> i \<noteq> SPIFFS_OBJ_ID_DELETED \<and> i AND SPIFFS_OBJ_ID_IX_FLAG \<noteq> 0"

definition index_flags :: "spiffs_page_header \<Rightarrow> byte" where
  "index_flags h = ph_flags h AND (PH_FLAG_INDEX OR PH_FLAG_FINAL OR PH_FLAG_DELET OR PH_FLAG_IXDELE)"

definition intact_index :: "spiffs_page_header \<Rightarrow> bool" where
  "intact_index h \<longleftrightarrow> index_flags h = PH_FLAG_DELET OR PH_FLAG_IXDELE"

definition half_deleted :: "spiffs_page_header \<Rightarrow> bool" where
  "half_deleted h \<longleftrightarrow> ph_span_ix h = 0 \<and> index_flags h = PH_FLAG_DELET"

text \<open>Without a place for the object id the visitor is undefined at an index page that is not intact.\<close>

lemma broken_index_undefined:
  assumes "disk_hal (cfg fs)" "lu_geom (cfg fs) (block_count fs)" "cursor_block_ix fs < block_count fs"
    and "cache_ok (n + (scan_cost fs + 1)) fs" "b < block_count fs" "e < max_entries (cfg fs)"
    and "take (log_page_size (cfg fs)) (work fs) = replicate (log_page_size (cfg fs)) 0"
    and "index_id i" "i AND NOT SPIFFS_OBJ_ID_IX_FLAG \<noteq> 0"
    and "h = hdr_at (cfg fs) (flash fs) (SPIFFS_OBJ_LOOKUP_ENTRY_TO_PIX (cfg fs) b e)" "\<not> intact_index h" "\<not> half_deleted h"
  shows "spiffs_object_index_consistency_check_v i b e None fs = None"
proof -
  have ok: "cache_ok ((n + scan_cost fs) + 1) fs" using assms(4) by simp
  have od: "on_disk (cfg fs) (flash fs) (block_count fs) fs" by (simp add: on_disk_def)
  obtain x where x: "rd_header (OP_T_OBJ_LU2 OR OP_C_READ) (SPIFFS_PAGE_TO_PADDR (cfg fs) (SPIFFS_OBJ_LOOKUP_ENTRY_TO_PIX (cfg fs) b e)) fs =
      Some (SPIFFS_OK, h, fs\<lparr>cache := x\<rparr>)" "cache_ok (n + scan_cost fs) ((strip fs)\<lparr>cache := x\<rparr>)"
    using visit_header [OF assms(1,2) od ok assms(5,6)] unfolding assms(10) by blast
  let ?fs = "fs\<lparr>cache := x\<rparr>"
  have even: "even (log_page_size (cfg fs))" using assms(2) by (simp add: lu_geom_def)
  have s: "spiffs_object_index_search i ?fs = Some None"
    by (rule empty_table_search [OF _ even]) (use assms(7,9) in simp_all)
  have ok2: "cache_ok (n + (block_count ?fs + 1) * (SPIFFS_OBJ_LOOKUP_PAGES (cfg ?fs) + max_entries (cfg ?fs))) ?fs"
    using x(2) by (simp add: cache_ok_def scan_cost_def)
  obtain r pix fs2 where f: "spiffs_obj_lu_find_id_and_span (i OR SPIFFS_OBJ_ID_IX_FLAG) 0 0 ?fs = Some (r, pix, fs2)"
      "r = SPIFFS_OK \<or> r = SPIFFS_ERR_NOT_FOUND"
    using find_span_spec [OF _ _ _ ok2 refl, of "i OR SPIFFS_OBJ_ID_IX_FLAG" 0 0] assms(1-3) by auto
  have c: "\<not> (SPIFFS_OK < 0)" "SPIFFS_ERR_NOT_FOUND \<noteq> SPIFFS_OK" by (simp_all add: c_defs)
  show ?thesis
    unfolding spiffs_object_index_consistency_check_v_def Let_def
    using assms(8,11,12) f(2) c
    by (cases "ph_span_ix h = 0") (auto simp: x(1) s f(1) index_id_def intact_index_def half_deleted_def index_flags_def)
qed

text \<open>Nor does it find a place.\<close>

lemma no_place: "spiffs_object_index_consistency_check_v i b e None fs = Some (r, u, fs') \<Longrightarrow> u = None"
  unfolding spiffs_object_index_consistency_check_v_def
  by (auto simp: Let_def bind_eq_Some_conv split: if_splits option.splits prod.splits)

subsection \<open>Visitors with undefined outcomes\<close>

text \<open>A visitor with a fixed argument whose undefined outcomes show: it stops and raises a flag.\<close>

definition flagged :: "'u visitor \<Rightarrow> 'u \<Rightarrow> bool visitor" where
  "flagged v u0 i b e u fs =
     (case v i b e u0 fs of None \<Rightarrow> Some (SPIFFS_OK, True, fs) | Some (r, _, fs) \<Rightarrow> Some (r, u, fs))"

definition flag_va :: "'u visitor \<Rightarrow> 'u \<Rightarrow> 'u vis_arg \<Rightarrow> bool vis_arg" where
  "flag_va v u0 va = \<lparr>va_flags = va_flags va, va_obj_id = va_obj_id va, va_v = Some (flagged v u0)\<rparr>"

definition flag_vis :: "'u vis \<Rightarrow> bool vis" where
  "flag_vis s = \<lparr>vis_u = False, vis_loc = vis_loc s, vis_count = vis_count s, vis_fs = vis_fs s\<rparr>"

lemma flag_simps [simp]:
  "vis_u (flag_vis s) = False" "vis_loc (flag_vis s) = vis_loc s" "vis_count (flag_vis s) = vis_count s" "vis_fs (flag_vis s) = vis_fs s"
  "(flag_vis s)\<lparr>vis_fs := fs\<rparr> = flag_vis (s\<lparr>vis_fs := fs\<rparr>)" "(flag_vis s)\<lparr>vis_count := k\<rparr> = flag_vis (s\<lparr>vis_count := k\<rparr>)"
  "(flag_vis s)\<lparr>vis_loc := l\<rparr> = flag_vis (s\<lparr>vis_loc := l\<rparr>)" "(flag_vis s)\<lparr>vis_u := False\<rparr> = flag_vis s" "flag_vis (s\<lparr>vis_u := u\<rparr>) = flag_vis s"
  "va_flags (flag_va v u0 va) = va_flags va" "va_obj_id (flag_va v u0 va) = va_obj_id va" "va_v (flag_va v u0 va) = Some (flagged v u0)"
  by (simp_all add: flag_vis_def flag_va_def)

text \<open>A defined run is the run of the flagged visitor, with the flag down.\<close>

locale fixed_visitor =
  fixes v :: "'u visitor" and u0 :: 'u
  assumes stays: "v i b e u0 fs = Some (r, u, fs') \<Longrightarrow> u = u0"
begin

lemma flag_entries:
  assumes "va_v va = Some v" "vis_u s = u0" "visit_entries va blk addr off es s = Some r"
  shows "flow_holds (\<lambda>(x, s'). vis_u s' = u0) (\<lambda>s'. vis_u s' = u0) r \<and>
    visit_entries (flag_va v u0 va) blk addr off es (flag_vis s) = Some (map_flow (apsnd flag_vis) flag_vis r)"
  using assms(2,3)
proof (induction es arbitrary: s)
  case (Cons e es)
  obtain i where i: "lu_get (e - off) (vis_fs s) = Some i" using Cons.prems(2) by (auto simp: bind_eq_Some_conv)
  show ?case
  proof (cases "va_flags va AND VIS_CHECK_ID = 0 \<or> i = va_obj_id va")
    case False
    then show ?thesis using Cons.IH [of "s\<lparr>vis_count := vis_count s - 1\<rparr>"] Cons.prems i by simp
  next
    case True
    let ?i = "if va_flags va AND VIS_CHECK_PH \<noteq> 0 then va_obj_id va else i"
    obtain q u fs where q: "v ?i blk e u0 (vis_fs s) = Some (q, u, fs)"
      using Cons.prems True i assms(1) by (auto simp: bind_eq_Some_conv Let_def)
    have u: "u = u0" by (rule stays [OF q])
    have w: "flagged v u0 ?i blk e False (vis_fs s) = Some (q, False, fs)" using q by (simp add: flagged_def)
    let ?s = "s\<lparr>vis_loc := Some (blk, e), vis_u := u0, vis_fs := fs\<rparr>"
    note step = Cons.prems(2) [unfolded visit_entries.simps i assms(1), simplified Cons.prems(1) q u True]
    show ?thesis
    proof (cases "q = SPIFFS_VIS_COUNTINUE_RELOAD")
      case False
      then show ?thesis using Cons.IH [of "?s\<lparr>vis_count := vis_count s - 1\<rparr>"] Cons.prems(2) True i w q u Cons.prems(1) assms(1)
        by (auto simp: Let_def split: if_splits)
    next
      case reload: True
      have ne: "SPIFFS_VIS_COUNTINUE_RELOAD \<noteq> SPIFFS_VIS_COUNTINUE" by (simp add: c_defs)
      obtain l fs2 where l: "lu_load addr fs = Some (l, fs2)"
        using Cons.prems True i q u reload ne assms(1) by (auto simp: bind_eq_Some_conv Let_def)
      show ?thesis using Cons.IH [of "?s\<lparr>vis_fs := fs2, vis_count := vis_count s - 1\<rparr>"] Cons.prems True i w q u l reload ne assms(1)
        by (auto simp: Let_def split: if_splits)
    qed
  qed
qed auto

lemma flag_pages:
  assumes "va_v va = Some v" "vis_u s = u0" "visit_pages va blk addr ps e s = Some r"
  shows "flow_holds (\<lambda>(x, s'). vis_u s' = u0) (\<lambda>(x, s'). vis_u s' = u0) r \<and>
    visit_pages (flag_va v u0 va) blk addr ps e (flag_vis s) = Some (map_flow (apsnd flag_vis) (apsnd flag_vis) r)"
  using assms(2,3)
proof (induction ps arbitrary: e s)
  case (Cons p ps)
  let ?c = "cfg (vis_fs s)"
  let ?addr = "add32 addr (SPIFFS_PAGE_TO_PADDR ?c p)" and ?off = "p * entries_per_page ?c"
  let ?lim = "min (?off + entries_per_page ?c) (max_entries ?c)"
  obtain l fs where l: "lu_load ?addr (vis_fs s) = Some (l, fs)" using Cons.prems(2) by (auto simp: bind_eq_Some_conv Let_def)
  show ?case
  proof (cases "l = SPIFFS_OK")
    case False
    then show ?thesis using Cons.prems l by (auto simp: Let_def)
  next
    case True
    obtain q where q: "visit_entries va blk ?addr ?off [e..<?lim] (s\<lparr>vis_fs := fs\<rparr>) = Some q"
      using Cons.prems(2) l True by (auto simp: bind_eq_Some_conv Let_def)
    note f = flag_entries [OF assms(1) _ q]
    show ?thesis
    proof (cases q)
      case (Return x)
      then show ?thesis using f Cons.prems l True q by (auto simp: Let_def)
    next
      case (Break s')
      then show ?thesis using f Cons.prems l True q Cons.IH [of s' "max e ?lim"] by (auto simp: Let_def)
    next
      case (Continue s')
      then show ?thesis using f Cons.prems l True q Cons.IH [of s' "max e ?lim"] by (auto simp: Let_def)
    qed
  qed
qed auto

lemma flag_blocks:
  assumes "va_v va = Some v" "vis_u s = u0" "visit_blocks n va blk addr e s = Some (x, s')"
  shows "visit_blocks n (flag_va v u0 va) blk addr e (flag_vis s) = Some (x, flag_vis s')"
  using assms(2,3)
proof (induction n arbitrary: blk addr e s)
  case (Suc n)
  show ?case
  proof (cases "vis_count s \<le> 0")
    case True
    then show ?thesis using Suc.prems by simp
  next
    case False
    let ?c = "cfg (vis_fs s)"
    obtain q where q: "visit_pages va blk addr [e div entries_per_page ?c..<SPIFFS_OBJ_LOOKUP_PAGES ?c] e s = Some q"
      using Suc.prems(2) False by (auto simp: bind_eq_Some_conv Let_def)
    note f = flag_pages [OF assms(1) Suc.prems(1) q]
    show ?thesis
    proof (cases q)
      case (Return y)
      then show ?thesis using f q Suc.prems(2) False by auto
    next
      case (Break y)
      then show ?thesis using q Suc.prems(2) False by (auto split: prod.splits)
    next
      case (Continue y)
      obtain r1 s1 where y: "y = (r1, s1)" by (cases y)
      then show ?thesis using f q Suc.prems(2) False Continue Suc.IH [of s1]
        by (auto simp: Let_def split: if_splits)
    qed
  qed
qed simp

theorem flag_visitor:
  assumes "spiffs_obj_lu_find_entry_visitor sb se flags oid (Some v) u0 fs = Some (r, u, loc, fs')"
  shows "spiffs_obj_lu_find_entry_visitor sb se flags oid (Some (flagged v u0)) False fs = Some (r, False, loc, fs')"
proof -
  let ?va = "\<lparr>va_flags = flags, va_obj_id = oid, va_v = Some v\<rparr>"
  have va: "flag_va v u0 ?va = \<lparr>va_flags = flags, va_obj_id = oid, va_v = Some (flagged v u0)\<rparr>" by (simp add: flag_va_def)
  have b: "visit_blocks n \<lparr>va_flags = flags, va_obj_id = oid, va_v = Some (flagged v u0)\<rparr> blk addr e
      \<lparr>vis_u = False, vis_loc = None, vis_count = k, vis_fs = fs\<rparr> = Some (x, flag_vis s')"
    if "visit_blocks n ?va blk addr e \<lparr>vis_u = u0, vis_loc = None, vis_count = k, vis_fs = fs\<rparr> = Some (x, s')" for n blk addr e k x s'
    using flag_blocks [OF _ _ that] unfolding va by (simp add: flag_vis_def)
  show ?thesis using assms b unfolding spiffs_obj_lu_find_entry_visitor_def Let_def
    by (auto simp: bind_eq_Some_conv simp del: visit_blocks.simps split: if_splits)
qed

end

interpretation index_v: fixed_visitor spiffs_object_index_consistency_check_v None
  by unfold_locales (rule no_place)

subsection \<open>The object index check as a whole\<close>

definition broken_at :: "spiffs_config \<Rightarrow> mem \<Rightarrow> nat \<Rightarrow> nat \<Rightarrow> bool" where
  "broken_at c m b e \<longleftrightarrow> index_id (lu_id c m b e) \<and> \<not> intact_index (hdr_at c m (SPIFFS_OBJ_LOOKUP_ENTRY_TO_PIX c b e))"

text \<open>No deletion was interrupted, and the ids of objects are not zero.\<close>

definition no_half_deleted :: "spiffs_config \<Rightarrow> mem \<Rightarrow> nat \<Rightarrow> bool" where
  "no_half_deleted c m nb \<longleftrightarrow> (\<forall>b<nb. \<forall>e<max_entries c. index_id (lu_id c m b e) \<longrightarrow>
     lu_id c m b e AND NOT SPIFFS_OBJ_ID_IX_FLAG \<noteq> 0 \<and> \<not> half_deleted (hdr_at c m (SPIFFS_OBJ_LOOKUP_ENTRY_TO_PIX c b e)))"

definition stop_broken :: "u16 \<Rightarrow> nat \<Rightarrow> nat \<Rightarrow> bool \<Rightarrow> spiffs \<Rightarrow> int \<times> bool \<times> spiffs" where
  "stop_broken i b e u t = (if broken_at (cfg t) (flash t) b e then (SPIFFS_OK, True, t) else (SPIFFS_VIS_COUNTINUE, u, t))"

definition empty_table :: "nat \<Rightarrow> spiffs \<Rightarrow> bool" where
  "empty_table k t \<longleftrightarrow> cursor_block_ix t < block_count t \<and> scan_cost t \<le> k \<and> no_half_deleted (cfg t) (flash t) (block_count t) \<and>
     take (log_page_size (cfg t)) (work t) = replicate (log_page_size (cfg t)) 0"

lemma strip_more [simp]: "cursor_block_ix (strip fs) = cursor_block_ix fs" "work (strip fs) = work fs" "scan_cost (strip fs) = scan_cost fs"
  by (simp_all add: strip_def scan_cost_def)

lemma intact_index_visit:
  assumes "disk_hal c" "lu_geom c nb" "on_disk c m nb fs" "cache_ok (n + 1) fs" "b < nb" "e < max_entries c"
    and "\<not> broken_at c m b e"
  shows "\<exists>x. spiffs_object_index_consistency_check_v (lu_id c m b e) b e None fs =
      Some (SPIFFS_VIS_COUNTINUE, None, (strip fs)\<lparr>cache := x, lu_work := lu_work fs\<rparr>) \<and> cache_ok n ((strip fs)\<lparr>cache := x\<rparr>)"
proof (cases "index_id (lu_id c m b e)")
  case False
  then show ?thesis using cache_ok_less [OF assms(4)]
    by (intro exI [of _ "cache fs"]) (auto simp: spiffs_object_index_consistency_check_v_def strip_def cache_ok_def index_id_def)
next
  case True
  have c: "cfg fs = c" using assms(3) by (simp add: on_disk_def)
  let ?h = "hdr_at c m (SPIFFS_OBJ_LOOKUP_ENTRY_TO_PIX c b e)"
  have "index_flags ?h = PH_FLAG_DELET OR PH_FLAG_IXDELE" using True assms(7) by (simp add: broken_at_def intact_index_def)
  moreover have "PH_FLAG_DELET OR PH_FLAG_IXDELE \<noteq> PH_FLAG_DELET" by (simp add: c_defs)
  moreover obtain x where "rd_header (OP_T_OBJ_LU2 OR OP_C_READ) (SPIFFS_PAGE_TO_PADDR c (SPIFFS_OBJ_LOOKUP_ENTRY_TO_PIX c b e)) fs =
      Some (SPIFFS_OK, ?h, fs\<lparr>cache := x\<rparr>)"
      "cache_ok n ((strip fs)\<lparr>cache := x\<rparr>)" "(strip fs)\<lparr>cache := x, lu_work := lu_work fs\<rparr> = fs\<lparr>cache := x\<rparr>"
    using visit_header [OF assms(1-6)] by blast
  ultimately show ?thesis using True
    by (intro exI [of _ x]) (auto simp: spiffs_object_index_consistency_check_v_def c SPIFFS_OK_def Let_def index_id_def index_flags_def)
qed

lemma flagged_check:
  "lu_visitor (flagged spiffs_object_index_consistency_check_v None) (Suc k) stop_broken (empty_table k) False"
proof
  fix c nb m fs n b e i u r u' t
  assume a: "disk_hal c" "lu_geom c nb" "on_disk c m nb fs" "cache_ok (n + Suc k) fs" "b < nb" "e < max_entries c"
    and inv: "empty_table k (strip fs)" and i: "False \<or> i = lu_id c m b e" and f: "stop_broken i b e u (strip fs) = (r, u', t)"
  have od: "cfg fs = c" "flash fs = m" "block_count fs = nb" using a(3) by (simp_all add: on_disk_def)
  show "\<exists>x. flagged spiffs_object_index_consistency_check_v None i b e u fs = Some (r, u', t\<lparr>cache := x, lu_work := lu_work fs\<rparr>) \<and>
      cache_ok n (t\<lparr>cache := x\<rparr>)"
  proof (cases "broken_at c m b e")
    case True
    have sc: "scan_cost fs \<le> k" using inv by (simp add: empty_table_def scan_cost_def)
    then have ok: "cache_ok ((n + (k - scan_cost fs)) + (scan_cost fs + 1)) fs" using a(4) by simp
    have h: "index_id i" "i AND NOT SPIFFS_OBJ_ID_IX_FLAG \<noteq> 0" "\<not> intact_index (hdr_at c m (SPIFFS_OBJ_LOOKUP_ENTRY_TO_PIX c b e))"
      "\<not> half_deleted (hdr_at c m (SPIFFS_OBJ_LOOKUP_ENTRY_TO_PIX c b e))"
      using True inv i a(5,6) by (auto simp: broken_at_def empty_table_def no_half_deleted_def od)
    have "spiffs_object_index_consistency_check_v i b e None fs = None"
      using a(1,2,5,6) inv h by (intro broken_index_undefined [OF _ _ _ ok]) (auto simp: od empty_table_def)
    then show ?thesis using f True cache_ok_less [OF a(4)]
      by (intro exI [of _ "cache fs"]) (auto simp: flagged_def stop_broken_def od strip_def cache_ok_def)
  next
    case False
    have "cache_ok ((n + k) + 1) fs" using a(4) by simp
    from intact_index_visit [OF a(1-3) this a(5,6) False] obtain x where
      x: "spiffs_object_index_consistency_check_v i b e None fs = Some (SPIFFS_VIS_COUNTINUE, None, (strip fs)\<lparr>cache := x, lu_work := lu_work fs\<rparr>)"
      "cache_ok (n + k) ((strip fs)\<lparr>cache := x\<rparr>)" using i by auto
    from cache_ok_less [OF x(2)] show ?thesis using x(1) f False by (intro exI [of _ x]) (auto simp: flagged_def stop_broken_def od)
  qed
qed (auto simp: stop_broken_def empty_table_def c_defs split: if_splits)

lemma run_to_broken:
  "\<exists>(b, e) \<in> set es. broken_at (cfg t) (flash t) b e \<Longrightarrow>
   \<exists>x. lu_run ids 0 oid stop_broken es u t = (x, True, t)"
proof (induction es arbitrary: u)
  case (Cons be es)
  obtain b e where be: "be = (b, e)" by (cases be)
  show ?case
  proof (cases "broken_at (cfg t) (flash t) b e")
    case True
    then show ?thesis by (simp add: be stop_broken_def SPIFFS_OK_def SPIFFS_VIS_COUNTINUE_def)
  next
    case False
    then have "\<exists>(b, e) \<in> set es. broken_at (cfg t) (flash t) b e" using Cons.prems by (auto simp: be)
    from Cons.IH [OF this] show ?thesis using False by (simp add: be stop_broken_def)
  qed
qed simp

definition index_check_cost :: "spiffs \<Rightarrow> nat" where
  "index_check_cost fs = (block_count fs + 1) * (SPIFFS_OBJ_LOOKUP_PAGES (cfg fs) + Suc (scan_cost fs) * max_entries (cfg fs))"

text \<open>
  C30: The object index check is undefined on every file system, with no interrupted deletion, that has
  an index page which is not intact - an index page that was not finalised, say. It passes the
  position in its table of object ids as the constant argument of the visitor, which takes it from the
  other argument, a null pointer: the visitor goes over the intact index pages and dereferences the null
  pointer at the first one that is not. Pages of that kind are what the check is there to find.
\<close>

theorem index_check_null_pointer:
  assumes "disk_hal (cfg fs)" "lu_geom (cfg fs) (block_count fs)" "cursor_block_ix fs < block_count fs"
    and "cache_ok (n + index_check_cost fs) fs" "no_half_deleted (cfg fs) (flash fs) (block_count fs)"
    and "b < block_count fs" "e < max_entries (cfg fs)" "broken_at (cfg fs) (flash fs) b e"
  shows "spiffs_object_index_consistency_check fs = None"
proof (rule ccontr)
  let ?L = "log_page_size (cfg fs)"
  define fs0 where "fs0 = fs\<lparr>work := replicate ?L 0 @ drop ?L (work fs)\<rparr>"
  assume "spiffs_object_index_consistency_check fs \<noteq> None"
  then obtain r u loc fs' where "spiffs_obj_lu_find_entry_visitor 0 0 0 0 (Some spiffs_object_index_consistency_check_v) None fs0 = Some (r, u, loc, fs')"
    by (auto simp: spiffs_object_index_consistency_check_def fs0_def bind_eq_None_conv split: prod.splits)
  note run = index_v.flag_visitor [OF this]
  have s: "cfg fs0 = cfg fs" "flash fs0 = flash fs" "block_count fs0 = block_count fs" "cursor_block_ix fs0 = cursor_block_ix fs"
    "scan_cost fs0 = scan_cost fs" by (simp_all add: fs0_def scan_cost_def)
  have nb: "0 < block_count fs0" "0 < max_entries (cfg fs)" using assms(6,7) by (simp_all add: s)
  have ok: "cache_ok (n + (block_count fs0 + 1) * (SPIFFS_OBJ_LOOKUP_PAGES (cfg fs0) + Suc (scan_cost fs) * max_entries (cfg fs0))) fs0"
    using assms(4) unfolding s by (simp add: index_check_cost_def cache_ok_def fs0_def)
  have inv: "empty_table (scan_cost fs) (strip fs0)"
    using assms(3,5) by (simp add: empty_table_def s) (simp add: fs0_def)
  have "(b, e) \<in> set (visitor_order (cfg fs0) (block_count fs0) 0 0 0)"
    using visitor_order_all [OF nb(1), of "cfg fs0" 0 0] nb(2) assms(6,7) by (simp add: s)
  then have "\<exists>(b, e) \<in> set (visitor_order (cfg fs0) (block_count fs0) 0 0 0). broken_at (cfg (strip fs0)) (flash (strip fs0)) b e"
    using assms(8) by (auto simp: s)
  from run_to_broken [OF this] obtain x where
    x: "lu_run (lu_id (cfg fs0) (flash fs0)) 0 0 stop_broken (visitor_order (cfg fs0) (block_count fs0) 0 0 0) False (strip fs0) = (x, True, strip fs0)"
    by blast
  have "disk_hal (cfg fs0)" "lu_geom (cfg fs0) (block_count fs0)" using assms(1,2) by (simp_all add: s)
  from lu_visitor.visitor_run [OF flagged_check this nb(1) ok inv x] show False using run by auto
qed

text \<open>The index page of the object above, not finalised.\<close>

definition unfinished_img :: mem where
  "unfinished_img = mem_write 4608 (page_header_bytes \<lparr>ph_obj_id = 0x8001, ph_span_ix = 0, ph_flags = 0xfa\<rparr>) object_img"

lemma unfinished_page: "hdr_at demo_cfg unfinished_img 18 = \<lparr>ph_obj_id = 0x8001, ph_span_ix = 0, ph_flags = 0xfa\<rparr>"
  using mem_write_same [of 4608 "page_header_bytes \<lparr>ph_obj_id = 0x8001, ph_span_ix = 0, ph_flags = 0xfa\<rparr>"]
  by (simp add: hdr_at_def demo_page_start SIZEOF_PAGE_HEADER_def unfinished_img_def page_header_of_bytes)

lemma unfinished_id:
  assumes "b < 4" "e < 15"
  shows "lu_id demo_cfg unfinished_img b e = lu_id demo_cfg object_img b e"
proof -
  have "b * 4096 + 2 * e + 2 \<le> 4608 \<or> 4613 \<le> b * 4096 + 2 * e"
    using assms mult_le_mono1 [of b 1 4096] mult_le_mono1 [of 2 b 4096] by (cases "b \<le> 1") linarith+
  then have "mem_read unfinished_img (b * 4096 + 2 * e) 2 = mem_read object_img (b * 4096 + 2 * e) 2"
    by (intro mem_read_cong) (auto simp: unfinished_img_def mem_write_def)
  then show ?thesis by (simp add: lu_id_def lu_addr_def)
qed

theorem index_check_null_pointer_witness:
  "spiffs_object_index_consistency_check (demo_on unfinished_img) = None"
proof (rule index_check_null_pointer [where n = 0 and b = 1 and e = 1])
  have pix: "SPIFFS_OBJ_LOOKUP_ENTRY_TO_PIX demo_cfg 1 1 = 18" using demo_entry_pix [of 1 1] by simp
  have ix: "index_id (lu_id demo_cfg unfinished_img b e) \<longleftrightarrow> b = 1 \<and> e = 1" if "b < 4" "e < 15" for b e
    using that by (auto simp: unfinished_id object_id index_id_def c_defs)
  have id: "lu_id demo_cfg unfinished_img 1 1 = 0x8001" by (simp add: unfinished_id object_id)
  show "disk_hal (cfg (demo_on unfinished_img))" "lu_geom (cfg (demo_on unfinished_img)) (block_count (demo_on unfinished_img))"
    "cursor_block_ix (demo_on unfinished_img) < block_count (demo_on unfinished_img)"
    "1 < block_count (demo_on unfinished_img)" "1 < max_entries (cfg (demo_on unfinished_img))"
    using demo_disk by simp_all
  show "cache_ok (0 + index_check_cost (demo_on unfinished_img)) (demo_on unfinished_img)"
    by (rule demo_ok) (simp add: index_check_cost_def scan_cost_def)
  show "no_half_deleted (cfg (demo_on unfinished_img)) (flash (demo_on unfinished_img)) (block_count (demo_on unfinished_img))"
    using ix by (auto simp: no_half_deleted_def id pix unfinished_page half_deleted_def index_flags_def c_defs simp del: One_nat_def)
  show "broken_at (cfg (demo_on unfinished_img)) (flash (demo_on unfinished_img)) 1 1"
    using ix [of 1 1] by (simp add: broken_at_def pix unfinished_page intact_index_def index_flags_def c_defs del: One_nat_def)
qed

end
