(* ===== verification/Sha1.thy ===== *)
theory Sha1
  imports Prelude
begin

section \<open>Hash: SHA-1\<close>

text \<open>
  \<open>libraries/Hash/src/sha1/sha1.c\<close>: the compression function with its 16-word circular schedule,
  the context that collects data into blocks, and the padding. The specification is the one of
  FIPS 180: 80-word schedules, padded messages, blocks folded over the initial value. The block is
  read little-endian, as on the target (\<open>BYTE_ORDER == LITTLE_ENDIAN\<close>), and swapped by \<open>blk0\<close>. The
  wiping of local variables and of the context at the end has no effect on the digest and is left
  out, apart from the wiped context \<open>SHA1Final\<close> returns. Data buffers are lists of bytes whose
  lengths the theorems bound by \<open>2 ^ 32 - 64\<close>, below which the index arithmetic does not wrap; the bit counters do.
\<close>

subsection \<open>The compression function\<close>

definition rol :: "nat \<Rightarrow> u32 \<Rightarrow> u32" where
  "rol bits value = push_bit bits value OR drop_bit (32 - bits) value"

text \<open>The macros \<open>blk0\<close> and \<open>blk\<close> return a word and store it in the block.\<close>

definition blk0 :: "nat \<Rightarrow> u32 list \<Rightarrow> u32 \<times> u32 list" where
  "blk0 i block =
     (let x = (rol 24 (block ! i) AND 0xFF00FF00) OR (rol 8 (block ! i) AND 0x00FF00FF)
      in (x, block[i := x]))"

definition blk :: "nat \<Rightarrow> u32 list \<Rightarrow> u32 \<times> u32 list" where
  "blk i block =
     (let x = rol 1 (block ! ((i + 13) mod 16) XOR block ! ((i + 8) mod 16) XOR block ! ((i + 2) mod 16) XOR block ! (i mod 16))
      in (x, block[i mod 16 := x]))"

text \<open>
  The five working variables in the order of the arguments of the round macros. A round changes
  \<open>z\<close> and \<open>w\<close>, and the next round names the variables one place further on.
\<close>

type_synonym vars = "u32 \<times> u32 \<times> u32 \<times> u32 \<times> u32"

definition R0 :: "nat \<Rightarrow> vars \<times> u32 list \<Rightarrow> vars \<times> u32 list" where
  "R0 i s = (case s of ((v, w, x, y, z), block) \<Rightarrow>
     (case blk0 i block of (t, block) \<Rightarrow>
        ((z + (((w AND (x XOR y)) XOR y) + t + 0x5A827999 + rol 5 v), v, rol 30 w, x, y), block)))"

definition R1 :: "nat \<Rightarrow> vars \<times> u32 list \<Rightarrow> vars \<times> u32 list" where
  "R1 i s = (case s of ((v, w, x, y, z), block) \<Rightarrow>
     (case blk i block of (t, block) \<Rightarrow>
        ((z + (((w AND (x XOR y)) XOR y) + t + 0x5A827999 + rol 5 v), v, rol 30 w, x, y), block)))"

definition R2 :: "nat \<Rightarrow> vars \<times> u32 list \<Rightarrow> vars \<times> u32 list" where
  "R2 i s = (case s of ((v, w, x, y, z), block) \<Rightarrow>
     (case blk i block of (t, block) \<Rightarrow>
        ((z + ((w XOR x XOR y) + t + 0x6ED9EBA1 + rol 5 v), v, rol 30 w, x, y), block)))"

definition R3 :: "nat \<Rightarrow> vars \<times> u32 list \<Rightarrow> vars \<times> u32 list" where
  "R3 i s = (case s of ((v, w, x, y, z), block) \<Rightarrow>
     (case blk i block of (t, block) \<Rightarrow>
        ((z + ((((w OR x) AND y) OR (w AND x)) + t + 0x8F1BBCDC + rol 5 v), v, rol 30 w, x, y), block)))"

definition R4 :: "nat \<Rightarrow> vars \<times> u32 list \<Rightarrow> vars \<times> u32 list" where
  "R4 i s = (case s of ((v, w, x, y, z), block) \<Rightarrow>
     (case blk i block of (t, block) \<Rightarrow>
        ((z + ((w XOR x XOR y) + t + 0xCA62C1D6 + rol 5 v), v, rol 30 w, x, y), block)))"

text \<open>The unrolled sequence of rounds.\<close>

definition sha1_op :: "nat \<Rightarrow> vars \<times> u32 list \<Rightarrow> vars \<times> u32 list" where
  "sha1_op i = (if i < 16 then R0 i else if i < 20 then R1 i else if i < 40 then R2 i else if i < 60 then R3 i else R4 i)"

definition SHA1Transform :: "u32 list \<Rightarrow> byte list \<Rightarrow> u32 list" where
  "SHA1Transform st buf =
     (let block = map (\<lambda>k. of_le32 (drop (4 * k) buf)) [0..<16]
      in case fold sha1_op [0..<80] ((st ! 0, st ! 1, st ! 2, st ! 3, st ! 4), block) of
           ((a, b, c, d, e), _) \<Rightarrow> [st ! 0 + a, st ! 1 + b, st ! 2 + c, st ! 3 + d, st ! 4 + e])"

subsection \<open>The context\<close>

record SHA1_CTX =
  sha_state :: "u32 list"
  sha_count0 :: u32
  sha_count1 :: u32
  sha_buffer :: "byte list"

definition SHA1Init :: "SHA1_CTX \<Rightarrow> SHA1_CTX" where
  "SHA1Init ctx = ctx\<lparr>sha_state := [0x67452301, 0xEFCDAB89, 0x98BADCFE, 0x10325476, 0xC3D2E1F0],
     sha_count0 := 0, sha_count1 := 0\<rparr>"

text \<open>\<open>memcpy\<close> into the buffer.\<close>

definition put :: "nat \<Rightarrow> byte list \<Rightarrow> byte list \<Rightarrow> byte list" where
  "put off bs buf = take off buf @ bs @ drop (off + length bs) buf"

text \<open>The loop over the whole blocks of the data; \<open>(state, i)\<close>.\<close>

function update_blocks :: "u32 list \<Rightarrow> byte list \<Rightarrow> nat \<Rightarrow> u32 list \<times> nat" where
  "update_blocks st data i =
     (if i + 63 < length data then update_blocks (SHA1Transform st (take 64 (drop i data))) data (i + 64) else (st, i))"
  by pat_completeness auto
termination by (relation "measure (\<lambda>(st, data, i). length data - i)") auto

declare update_blocks.simps [simp del]

definition SHA1Update :: "byte list \<Rightarrow> SHA1_CTX \<Rightarrow> SHA1_CTX" where
  "SHA1Update data ctx =
     (let len = length data; j = sha_count0 ctx;
          count0 = j + push_bit 3 (of_nat len);
          count1 = (if count0 < j then sha_count1 ctx + 1 else sha_count1 ctx) + drop_bit 29 (of_nat len);
          ctx = ctx\<lparr>sha_count0 := count0, sha_count1 := count1\<rparr>;
          j = unat (drop_bit 3 j AND 63)
      in if j + len > 63 then
           (let i = 64 - j;
                buf = put j (take i data) (sha_buffer ctx);
                st = SHA1Transform (sha_state ctx) buf;
                (st, i) = update_blocks st data i
            in ctx\<lparr>sha_state := st, sha_buffer := put 0 (drop i data) buf\<rparr>)
         else ctx\<lparr>sha_buffer := put j data (sha_buffer ctx)\<rparr>)"

text \<open>The loop that fills up with zero bytes, with fuel; a block has 64 bytes.\<close>

primrec pad_loop :: "nat \<Rightarrow> SHA1_CTX \<Rightarrow> SHA1_CTX option" where
  "pad_loop 0 ctx = None"
| "pad_loop (Suc n) ctx = (if sha_count0 ctx AND 504 \<noteq> 448 then pad_loop n (SHA1Update [0] ctx) else Some ctx)"

definition be_byte :: "u32 \<Rightarrow> nat \<Rightarrow> byte" where
  "be_byte w i = ucast (drop_bit ((3 - i mod 4) * 8) w AND 255)"

definition SHA1Final :: "SHA1_CTX \<Rightarrow> (byte list \<times> SHA1_CTX) option" where
  "SHA1Final ctx = do {
     let finalcount = map (\<lambda>i. be_byte (if i \<ge> 4 then sha_count0 ctx else sha_count1 ctx) i) [0..<8];
     ctx \<leftarrow> pad_loop 65 (SHA1Update [0x80] ctx);
     let ctx = SHA1Update finalcount ctx;
     Some (map (\<lambda>i. be_byte (sha_state ctx ! (i div 4)) i) [0..<20],
           \<lparr>sha_state = replicate 5 0, sha_count0 = 0, sha_count1 = 0, sha_buffer = replicate 64 0\<rparr>)
   }"

subsection \<open>The standard\<close>

definition be32 :: "byte list \<Rightarrow> u32" where
  "be32 bs = push_bit 24 (ucast (bs ! 0)) OR push_bit 16 (ucast (bs ! 1)) OR push_bit 8 (ucast (bs ! 2)) OR ucast (bs ! 3)"

definition sched_step :: "u32 list \<Rightarrow> u32 list" where
  "sched_step ws = (let n = length ws in ws @ [rol 1 (ws ! (n - 3) XOR ws ! (n - 8) XOR ws ! (n - 14) XOR ws ! (n - 16))])"

definition sched :: "byte list \<Rightarrow> u32 list" where
  "sched buf = (sched_step ^^ 64) (map (\<lambda>k. be32 (drop (4 * k) buf)) [0..<16])"

definition sha1_f :: "nat \<Rightarrow> u32 \<Rightarrow> u32 \<Rightarrow> u32 \<Rightarrow> u32" where
  "sha1_f t x y z =
     (if t < 20 then (x AND y) OR (NOT x AND z)
      else if 40 \<le> t \<and> t < 60 then (x AND y) OR (x AND z) OR (y AND z)
      else x XOR y XOR z)"

definition sha1_K :: "nat \<Rightarrow> u32" where
  "sha1_K t = (if t < 20 then 0x5A827999 else if t < 40 then 0x6ED9EBA1 else if t < 60 then 0x8F1BBCDC else 0xCA62C1D6)"

definition sha1_round :: "u32 list \<Rightarrow> nat \<Rightarrow> vars \<Rightarrow> vars" where
  "sha1_round W t s = (case s of (a, b, c, d, e) \<Rightarrow> (rol 5 a + sha1_f t b c d + e + sha1_K t + W ! t, a, rol 30 b, c, d))"

definition sha1_block :: "u32 list \<Rightarrow> byte list \<Rightarrow> u32 list" where
  "sha1_block H buf = (case fold (sha1_round (sched buf)) [0..<80] (H ! 0, H ! 1, H ! 2, H ! 3, H ! 4) of
     (a, b, c, d, e) \<Rightarrow> [H ! 0 + a, H ! 1 + b, H ! 2 + c, H ! 3 + d, H ! 4 + e])"

function hash_blocks :: "(u32 list \<Rightarrow> byte list \<Rightarrow> u32 list) \<Rightarrow> u32 list \<Rightarrow> byte list \<Rightarrow> u32 list" where
  "hash_blocks f st bs = (if length bs < 64 then st else hash_blocks f (f st (take 64 bs)) (drop 64 bs))"
  by pat_completeness auto
termination by (relation "measure (\<lambda>(f, st, bs). length bs)") auto

declare hash_blocks.simps [simp del]

definition be64 :: "nat \<Rightarrow> byte list" where
  "be64 n = map (\<lambda>i. of_nat (n div 2 ^ (8 * (7 - i)))) [0..<8]"

definition sha1_pad :: "byte list \<Rightarrow> byte list" where
  "sha1_pad m = m @ [0x80] @ replicate ((119 - length m mod 64) mod 64) 0 @ be64 (8 * length m)"

definition sha1_IV :: "u32 list" where
  "sha1_IV = [0x67452301, 0xEFCDAB89, 0x98BADCFE, 0x10325476, 0xC3D2E1F0]"

definition sha1_spec :: "byte list \<Rightarrow> byte list" where
  "sha1_spec m = concat (map (\<lambda>w. map (be_byte w) [0..<4]) (hash_blocks sha1_block sha1_IV (sha1_pad m)))"

subsection \<open>The compression function meets the standard\<close>

lemma length_sched_step [simp]: "length (sched_step ws) = Suc (length ws)"
  by (simp add: sched_step_def Let_def)

lemma sched_steps:
  assumes "16 \<le> length ws"
  shows "length ((sched_step ^^ n) ws) = length ws + n"
    "t < length ws \<Longrightarrow> (sched_step ^^ n) ws ! t = ws ! t"
    "length ws \<le> t \<Longrightarrow> t < length ws + n \<Longrightarrow> (let W = (sched_step ^^ n) ws in
        W ! t = rol 1 (W ! (t - 3) XOR W ! (t - 8) XOR W ! (t - 14) XOR W ! (t - 16)))"
proof -
  show len: "length ((sched_step ^^ k) ws) = length ws + k" for k by (induction k) simp_all
  have keep: "sched_step ((sched_step ^^ k) ws) ! t = (sched_step ^^ k) ws ! t" if "t < length ws + k" for k t
    using that len [of k] by (simp add: sched_step_def Let_def nth_append)
  show "t < length ws \<Longrightarrow> (sched_step ^^ n) ws ! t = ws ! t"
    by (induction n) (simp_all add: keep)
  show "length ws \<le> t \<Longrightarrow> t < length ws + n \<Longrightarrow> (let W = (sched_step ^^ n) ws in
        W ! t = rol 1 (W ! (t - 3) XOR W ! (t - 8) XOR W ! (t - 14) XOR W ! (t - 16)))"
  proof (induction n)
    case (Suc n)
    show ?case
    proof (cases "t < length ws + n")
      case True
      then show ?thesis using Suc keep by (simp add: Let_def)
    next
      case False
      then have t: "t = length ws + n" using Suc.prems by simp
      have "(sched_step ^^ Suc n) ws ! t = rol 1 ((sched_step ^^ n) ws ! (t - 3) XOR (sched_step ^^ n) ws ! (t - 8) XOR
          (sched_step ^^ n) ws ! (t - 14) XOR (sched_step ^^ n) ws ! (t - 16))"
        using len [of n] by (simp add: sched_step_def Let_def t nth_append)
      then show ?thesis using t assms keep by (simp add: Let_def)
    qed
  qed simp
qed

lemma sched_props:
  shows "length (sched buf) = 80" "k < 16 \<Longrightarrow> sched buf ! k = be32 (drop (4 * k) buf)"
    "16 \<le> t \<Longrightarrow> t < 80 \<Longrightarrow> sched buf ! t =
       rol 1 (sched buf ! (t - 3) XOR sched buf ! (t - 8) XOR sched buf ! (t - 14) XOR sched buf ! (t - 16))"
  using sched_steps [of "map (\<lambda>k. be32 (drop (4 * k) buf)) [0..<16]"] by (simp_all add: sched_def Let_def)

text \<open>Byte swapping, and the two ways to write the functions of a round.\<close>

lemma less_32_cases:
  assumes "n < (32 :: nat)" "list_all P [0..<32]"
  shows "P n"
  using assms by (simp add: list_all_iff)

lemma byte_bit_high [simp]: "8 \<le> n \<Longrightarrow> \<not> bit (b :: byte) n"
  by (simp add: bit_imp_le_length impossible_bit)

lemma swap_word:
  assumes "4 \<le> length bs"
  shows "(rol 24 (of_le32 bs) AND 0xFF00FF00) OR (rol 8 (of_le32 bs) AND 0x00FF00FF) = be32 bs"
proof -
  obtain a b c d r where bs: "bs = a # b # c # d # r"
    using assms by (auto simp: Suc_le_length_iff numeral_eq_Suc)
  show ?thesis
  proof (rule bit_word_eqI)
    fix n assume "n < LENGTH(32)"
    then have "n < 32" by simp
    then show "bit ((rol 24 (of_le32 bs) AND 0xFF00FF00) OR (rol 8 (of_le32 bs) AND 0x00FF00FF)) n = bit (be32 bs) n"
      by (rule less_32_cases) (simp add: upt_rec bs rol_def be32_def bit_simps)
  qed
qed

lemma ch_eq: "((w AND (x XOR y)) XOR y) = (w AND x) OR (NOT w AND (y :: u32))"
  by (rule bit_word_eqI) (auto simp: bit_simps)

lemma maj_eq: "((w OR x) AND y) OR (w AND x) = (w AND x) OR (w AND y) OR (x AND (y :: u32))"
  by (rule bit_word_eqI) (auto simp: bit_simps)

text \<open>The circular block holds the last 16 words of the schedule.\<close>

definition block_ok :: "byte list \<Rightarrow> nat \<Rightarrow> u32 list \<Rightarrow> bool" where
  "block_ok buf t block \<longleftrightarrow> length block = 16 \<and>
     (\<forall>j < t. t \<le> j + 16 \<longrightarrow> block ! (j mod 16) = sched buf ! j) \<and>
     (\<forall>k. t \<le> k \<and> k < 16 \<longrightarrow> block ! k = of_le32 (drop (4 * k) buf))"

lemma block_ok_update:
  assumes "block_ok buf t block" "x = sched buf ! t"
  shows "block_ok buf (Suc t) (block[t mod 16 := x])"
proof -
  have "block[t mod 16 := x] ! (j mod 16) = sched buf ! j" if "j < Suc t" "Suc t \<le> j + 16" for j
  proof (cases "j = t")
    case True
    then show ?thesis using assms by (simp add: block_ok_def)
  next
    case False
    then have "0 < t - j" "t - j < 16" using that by auto
    then have "j mod 16 \<noteq> t mod 16"
      using mod_eq_dvd_iff_nat [of j t 16] by (auto dest: dvd_imp_le)
    then show ?thesis using assms(1) that False by (simp add: block_ok_def)
  qed
  moreover have "block[t mod 16 := x] ! k = of_le32 (drop (4 * k) buf)" if "Suc t \<le> k" "k < 16" for k
    using assms(1) that by (simp add: block_ok_def)
  ultimately show ?thesis using assms(1) by (simp add: block_ok_def)
qed

lemma blk_ok:
  assumes "block_ok buf t block" "64 \<le> length buf" "t < 80"
  shows "t < 16 \<Longrightarrow> blk0 t block = (sched buf ! t, block[t mod 16 := sched buf ! t])"
    "16 \<le> t \<Longrightarrow> blk t block = (sched buf ! t, block[t mod 16 := sched buf ! t])"
proof -
  show "blk0 t block = (sched buf ! t, block[t mod 16 := sched buf ! t])" if "t < 16"
    using that assms swap_word [of "drop (4 * t) buf"] by (simp add: blk0_def block_ok_def sched_props Let_def)
  show "blk t block = (sched buf ! t, block[t mod 16 := sched buf ! t])" if "16 \<le> t"
  proof -
    have at: "block ! ((t + d) mod 16) = sched buf ! (t + d - 16)" if "d < 16" for d
    proof -
      have "(t + d) mod 16 = (t + d - 16) mod 16" using \<open>16 \<le> t\<close> by (metis le_add1 le_trans mod_if le_mod_geq)
      then show ?thesis using assms(1) that \<open>16 \<le> t\<close> by (simp add: block_ok_def)
    qed
    show ?thesis
      using at [of 13] at [of 8] at [of 2] at [of 0] that assms(3) sched_props(3) [of t buf]
      by (simp add: blk_def Let_def)
  qed
qed

lemma op_round:
  assumes "block_ok buf t block" "64 \<le> length buf" "t < 80"
  shows "sha1_op t (s, block) = (sha1_round (sched buf) t s, block[t mod 16 := sched buf ! t])"
proof -
  obtain v w x y z where s: "s = (v, w, x, y, z)" by (cases s) auto
  note ok = blk_ok [OF assms]
  consider "t < 16" | "16 \<le> t" "t < 20" | "20 \<le> t" "t < 40" | "40 \<le> t" "t < 60" | "60 \<le> t" by linarith
  then show ?thesis
    by cases (simp_all add: s sha1_op_def R0_def R1_def R2_def R3_def R4_def ok sha1_round_def sha1_f_def sha1_K_def
      ch_eq maj_eq add_ac)
qed

lemma ops_rounds:
  assumes "64 \<le> length buf" "n \<le> 80"
  shows "\<exists>block. fold sha1_op [0..<n] (s, map (\<lambda>k. of_le32 (drop (4 * k) buf)) [0..<16]) =
      (fold (sha1_round (sched buf)) [0..<n] s, block) \<and> block_ok buf n block"
  using assms(2)
proof (induction n)
  case 0
  then show ?case by (simp add: block_ok_def del: upt_Suc)
next
  case (Suc n)
  then obtain block where "fold sha1_op [0..<n] (s, map (\<lambda>k. of_le32 (drop (4 * k) buf)) [0..<16]) =
      (fold (sha1_round (sched buf)) [0..<n] s, block)" "block_ok buf n block" by auto
  then show ?case using Suc.prems assms(1) by (simp add: op_round block_ok_update)
qed

lemma transform_block: "length buf = 64 \<Longrightarrow> SHA1Transform st buf = sha1_block st buf"
  using ops_rounds [of buf 80 "(st ! 0, st ! 1, st ! 2, st ! 3, st ! 4)"]
  by (auto simp: SHA1Transform_def sha1_block_def Let_def simp del: upt_Suc split: prod.splits)

subsection \<open>Collecting the message\<close>

lemma hash_blocks_short [simp]: "length bs < 64 \<Longrightarrow> hash_blocks f st bs = st"
  by (simp add: hash_blocks.simps)

lemma hash_blocks_long: "64 \<le> length bs \<Longrightarrow> hash_blocks f st bs = hash_blocks f (f st (take 64 bs)) (drop 64 bs)"
  by (subst hash_blocks.simps) simp

lemma hash_blocks_append:
  assumes "length bs mod 64 = 0"
  shows "hash_blocks f st (bs @ cs) = hash_blocks f (hash_blocks f st bs) cs"
  using assms
proof (induction f st bs rule: hash_blocks.induct)
  case (1 f st bs)
  show ?case
  proof (cases "length bs < 64")
    case True
    then show ?thesis using 1 by simp
  next
    case False
    then have "(length bs - 64) mod 64 = 0" using 1(2) by (simp add: mod_if)
    then show ?thesis using False 1(1) by (simp add: hash_blocks_long)
  qed
qed

text \<open>The state after the whole blocks of a message, and the rest of it.\<close>

definition whole :: "byte list \<Rightarrow> nat" where
  "whole m = 64 * (length m div 64)"

lemma whole_le [simp]: "whole m \<le> length m"
  by (simp add: whole_def)

lemma length_minus_whole [simp]: "length m - whole m = length m mod 64"
  by (simp add: whole_def minus_mult_div_eq_mod)

lemma hash_blocks_whole: "hash_blocks f st (take (whole m) m) = hash_blocks f st m"
proof -
  have "length (take (whole m) m) mod 64 = 0" "length (drop (whole m) m) < 64"
    by (simp_all add: min_absorb2) (simp add: whole_def)
  from hash_blocks_append [OF this(1), of f st "drop (whole m) m"] this(2) show ?thesis by simp
qed

lemma update_blocks_hash:
  "update_blocks st data i = (let n = whole (drop i data) in (hash_blocks SHA1Transform st (drop i data), i + n))"
proof (induction st data i rule: update_blocks.induct)
  case (1 st data i)
  show ?case
  proof (cases "i + 63 < length data")
    case True
    then have "64 \<le> length data - i" by simp
    then have "whole (drop i data) = 64 + whole (drop (i + 64) data)"
      by (simp add: whole_def div_if)
    moreover have "hash_blocks SHA1Transform st (drop i data) =
        hash_blocks SHA1Transform (SHA1Transform st (take 64 (drop i data))) (drop (i + 64) data)"
      using True by (subst hash_blocks_long) (auto simp: add.commute)
    ultimately show ?thesis using True 1 by (subst update_blocks.simps) (simp add: Let_def)
  next
    case False
    then show ?thesis by (subst update_blocks.simps) (simp add: whole_def Let_def)
  qed
qed

text \<open>What the context holds when the bytes of \<open>m\<close> have gone through it.\<close>

definition absorbed :: "byte list \<Rightarrow> SHA1_CTX \<Rightarrow> bool" where
  "absorbed m ctx \<longleftrightarrow>
     sha_state ctx = hash_blocks SHA1Transform sha1_IV m \<and>
     length (sha_buffer ctx) = 64 \<and> take (length m mod 64) (sha_buffer ctx) = drop (whole m) m \<and>
     sha_count0 ctx = of_nat (8 * length m) \<and> sha_count1 ctx = of_nat (8 * length m div 2 ^ 32)"

lemma absorbed_init: "length (sha_buffer ctx) = 64 \<Longrightarrow> absorbed [] (SHA1Init ctx)"
  by (simp add: absorbed_def SHA1Init_def sha1_IV_def)

lemma and_63: "(w :: u32) AND 63 = take_bit 6 w"
  by (simp add: take_bit_eq_mask mask_eq_exp_minus_1)

lemma count_index: "unat (drop_bit 3 (of_nat (8 * n) :: u32) AND 63) = n mod 64"
proof -
  have "(8 * n mod 2 ^ 32) div 8 = n mod 2 ^ 29"
    using mult_mod_right [of 8 n "2 ^ 29"] by simp
  moreover have "n mod 2 ^ 29 mod 2 ^ 6 = n mod 2 ^ 6" by (simp add: mod_mod_cancel)
  moreover have "unat (drop_bit 3 (of_nat (8 * n) :: u32) AND 63) = take_bit 6 (drop_bit 3 (8 * n mod 2 ^ 32))"
    unfolding and_63 unsigned_take_bit_eq unsigned_drop_bit_eq unat_of_nat by (simp add: take_bit_eq_mod)
  ultimately show ?thesis by (simp add: take_bit_eq_mod drop_bit_eq_div)
qed

lemma count_low: "(of_nat (8 * n) :: u32) + push_bit 3 (of_nat k) = of_nat (8 * (n + k))"
  by (simp add: push_bit_eq_mult algebra_simps)

lemma count_carry:
  fixes n k :: nat
  assumes "k < 2 ^ 32"
  shows "(if (of_nat (8 * (n + k)) :: u32) < of_nat (8 * n) then of_nat (8 * n div 2 ^ 32) + 1 else of_nat (8 * n div 2 ^ 32))
      + drop_bit 29 (of_nat k :: u32) = (of_nat (8 * (n + k) div 2 ^ 32) :: u32)"
proof -
  define a b where "a = 8 * n mod 2 ^ 32" and "b = 8 * k mod 2 ^ 32"
  have ab: "a < 2 ^ 32" "b < 2 ^ 32" by (simp_all add: a_def b_def)
  have sum: "8 * (n + k) mod 2 ^ 32 = (a + b) mod 2 ^ 32"
    by (simp add: a_def b_def distrib_left mod_add_eq del: mod_add_left_eq mod_add_right_eq)
  have "8 * (n + k) div 2 ^ 32 = 8 * n div 2 ^ 32 + 8 * k div 2 ^ 32 + (a + b) div 2 ^ 32"
    unfolding a_def b_def distrib_left by (rule div_add1_eq)
  moreover have "(a + b) div 2 ^ 32 = (if (a + b) mod 2 ^ 32 < a then 1 else 0)"
    using ab by (auto simp: div_if mod_if)
  moreover have "(of_nat (8 * (n + k)) :: u32) < of_nat (8 * n) \<longleftrightarrow> (a + b) mod 2 ^ 32 < a"
    unfolding word_less_nat_alt unat_of_nat sum [symmetric] by (simp add: a_def)
  moreover have "drop_bit 29 (of_nat k :: u32) = of_nat (8 * k div 2 ^ 32)"
  proof (rule word_unat_eq_iff [THEN iffD2])
    have "k div 2 ^ 29 < 2 ^ 32" using assms by (simp add: less_mult_imp_div_less)
    then show "unat (drop_bit 29 (of_nat k :: u32)) = unat (of_nat (8 * k div 2 ^ 32) :: u32)"
      using assms unfolding unsigned_drop_bit_eq unat_of_nat by (simp add: drop_bit_eq_div take_bit_eq_mod)
  qed
  ultimately show ?thesis by (simp del: of_nat_mult)
qed

lemma length_put [simp]: "off + length bs \<le> length buf \<Longrightarrow> length (put off bs buf) = length buf"
  by (simp add: put_def)

lemma take_put: "take (length bs) (put 0 bs buf) = bs"
  by (simp add: put_def)

lemma length_rest [simp]: "length (drop (whole m) m) = length m mod 64"
  by simp

text \<open>A message extended by data: within the block, or past its end.\<close>

lemma extend_short:
  assumes "length m mod 64 + length data < 64"
  shows "whole (m @ data) = whole m" "hash_blocks f st (m @ data) = hash_blocks f st m"
    "length (m @ data) mod 64 = length m mod 64 + length data"
proof -
  have "length (m @ data) = 64 * (length m div 64) + (length m mod 64 + length data)" by simp
  with assms show w: "whole (m @ data) = whole m" "length (m @ data) mod 64 = length m mod 64 + length data"
    unfolding whole_def by (simp_all only: div_mult_self4 mod_mult_self4 zero_neq_numeral) simp_all
  show "hash_blocks f st (m @ data) = hash_blocks f st m"
    using hash_blocks_whole [of f st "m @ data"] hash_blocks_whole [of f st m] by (simp add: w)
qed

lemma extend_long:
  fixes m data
  defines "i \<equiv> 64 - length m mod 64"
  assumes "64 \<le> length m mod 64 + length data"
  shows "whole (m @ data) = whole m + 64 + whole (drop i data)"
    "hash_blocks f st (m @ data) =
       hash_blocks f (f (hash_blocks f st m) (drop (whole m) m @ take i data)) (drop i data)"
proof -
  let ?r = "drop (whole m) m"
  have split: "length (m @ data) = 64 * Suc (length m div 64) + length (drop i data)"
    using assms(2) mod_less_divisor [of 64 "length m"] by (simp add: i_def)
  then show "whole (m @ data) = whole m + 64 + whole (drop i data)"
    unfolding whole_def by (simp only: div_mult_self4 zero_neq_numeral) simp
  have "length (take (whole m) m) mod 64 = 0" by (simp add: min_absorb2) (simp add: whole_def)
  from hash_blocks_append [OF this, of f st "?r @ data"]
  have "hash_blocks f st (m @ data) = hash_blocks f (hash_blocks f st m) (?r @ data)"
    by (simp add: hash_blocks_whole flip: append_assoc)
  moreover have rest: "length m = whole m + length m mod 64" "length m mod 64 < 64" by (simp_all add: whole_def)
  then have "length m \<le> whole m + 64" by linarith
  then have "64 \<le> length (?r @ data)" "take 64 (?r @ data) = ?r @ take i data" "drop 64 (?r @ data) = drop i data"
    using assms(2) rest by (simp_all add: i_def)
  ultimately show "hash_blocks f st (m @ data) =
       hash_blocks f (f (hash_blocks f st m) (?r @ take i data)) (drop i data)"
    by (simp add: hash_blocks_long)
qed

lemma update_short:
  assumes "unat (drop_bit 3 (sha_count0 ctx) AND 63) = j" "j + length data < 64"
  shows "sha_state (SHA1Update data ctx) = sha_state ctx"
    "sha_buffer (SHA1Update data ctx) = put j data (sha_buffer ctx)"
  using assms by (simp_all add: SHA1Update_def Let_def)

lemma update_long:
  assumes "unat (drop_bit 3 (sha_count0 ctx) AND 63) = j" "64 \<le> j + length data"
  shows "sha_state (SHA1Update data ctx) = hash_blocks SHA1Transform
      (SHA1Transform (sha_state ctx) (put j (take (64 - j) data) (sha_buffer ctx))) (drop (64 - j) data)"
    "sha_buffer (SHA1Update data ctx) = put 0 (drop (whole (drop (64 - j) data)) (drop (64 - j) data))
      (put j (take (64 - j) data) (sha_buffer ctx))"
  using assms by (simp_all add: SHA1Update_def Let_def update_blocks_hash add.commute)

lemma absorbed_update:
  assumes "absorbed m ctx" "length data < 2 ^ 32"
  shows "absorbed (m @ data) (SHA1Update data ctx)"
proof -
  let ?j = "length m mod 64"
  let ?i = "64 - ?j"
  let ?r = "drop (whole m) m"
  note a = assms(1) [unfolded absorbed_def]
  have counts: "sha_count0 (SHA1Update data ctx) = of_nat (8 * length (m @ data))"
    "sha_count1 (SHA1Update data ctx) = of_nat (8 * length (m @ data) div 2 ^ 32)"
    using count_carry [OF assms(2), of "length m"] a
    by (auto simp: SHA1Update_def Let_def count_low split: prod.splits simp del: of_nat_mult of_nat_add)
  have j: "unat (drop_bit 3 (sha_count0 ctx) AND 63) = ?j" using a by (simp add: count_index del: of_nat_mult)
  have "sha_state (SHA1Update data ctx) = hash_blocks SHA1Transform sha1_IV (m @ data) \<and>
    length (sha_buffer (SHA1Update data ctx)) = 64 \<and>
    take (length (m @ data) mod 64) (sha_buffer (SHA1Update data ctx)) = drop (whole (m @ data)) (m @ data)"
  proof (cases "?j + length data < 64")
    case True
    then show ?thesis using a
      by (simp only: extend_short update_short [OF j]) (simp add: put_def)
  next
    case False
    then have long: "64 \<le> ?j + length data" by simp
    let ?rest = "drop (whole (drop ?i data)) (drop ?i data)"
    have buf: "put ?j (take ?i data) (sha_buffer ctx) = ?r @ take ?i data" using a long by (simp add: put_def)
    have "length m = whole m + ?j" "?j < 64" by (simp_all add: whole_def)
    then have "length m \<le> whole m + 64 + whole (drop ?i data)"
      "whole m + 64 + whole (drop ?i data) - length m = whole (drop ?i data) + 64 - ?j" by linarith+
    then have rest: "drop (whole (m @ data)) (m @ data) = ?rest"
      unfolding extend_long [OF long] by simp
    then have n: "length (m @ data) mod 64 = length ?rest" by (metis length_rest)
    moreover have "length (?r @ take ?i data) = 64" using long by simp
    moreover have "length ?rest < 64" unfolding n [symmetric] by simp
    ultimately show ?thesis using a
      unfolding rest n update_long [OF j long] buf extend_long(2) [OF long] by (simp only: length_put take_put)
  qed
  then show ?thesis unfolding absorbed_def using counts by simp
qed

subsection \<open>Padding and the digest\<close>

lemma absorbed_updates:
  assumes "absorbed m ctx" "\<forall>c \<in> set cs. length c < 2 ^ 32"
  shows "absorbed (m @ concat cs) (fold SHA1Update cs ctx)"
  using assms
proof (induction cs arbitrary: m ctx)
  case (Cons c cs)
  then have "absorbed (m @ c) (SHA1Update c ctx)" by (intro absorbed_update) simp_all
  from Cons.IH [OF this] Cons.prems(2) show ?case by simp
qed simp

lemma count_pad: "(of_nat (8 * n) :: u32) AND 504 = 448 \<longleftrightarrow> n mod 64 = 56"
proof -
  have "(of_nat (8 * n) :: u32) AND 504 = push_bit 3 (of_nat n AND 63)"
    unfolding push_bit_and by (simp add: push_bit_eq_mult mult.commute)
  also have "\<dots> = of_nat (8 * (n mod 64))"
    by (simp only: and_63 take_bit_of_nat) (simp add: take_bit_eq_mod push_bit_eq_mult mult.commute)
  finally have eq: "(of_nat (8 * n) :: u32) AND 504 = of_nat (8 * (n mod 64))" .
  have "8 * (n mod 64) < 2 ^ 32" by (rule less_trans [of _ 512]) simp_all
  then have "(of_nat (8 * (n mod 64)) :: u32) = of_nat 448 \<longleftrightarrow> 8 * (n mod 64) = 448"
    unfolding word_unat_eq_iff unat_of_nat by simp
  then show ?thesis unfolding eq by simp
qed

lemma pad_step:
  fixes n :: nat
  assumes "n mod 64 \<noteq> 56"
  shows "(120 - n mod 64) mod 64 = Suc ((120 - Suc n mod 64) mod 64)"
proof -
  define k where "k = n mod 64"
  have "k < 64" "k \<noteq> 56" using assms by (simp_all add: k_def)
  moreover have "Suc n mod 64 = (if Suc k = 64 then 0 else Suc k)" by (simp add: k_def mod_Suc)
  moreover have "(120 - i) mod 64 = (if i \<le> 56 then 56 - i else 120 - i)" if "i < 64" for i :: nat
    using that le_mod_geq [of 64 "120 - i"] by auto
  ultimately show ?thesis unfolding k_def [symmetric] by auto
qed

lemma pad_start: "(120 - Suc n mod 64) mod 64 = (119 - n mod 64) mod (64 :: nat)"
proof (cases "Suc (n mod 64) = 64")
  case True
  then have "n mod 64 = 63" by simp
  then show ?thesis using True by (simp add: mod_Suc)
next
  case False
  then show ?thesis by (simp add: mod_Suc)
qed

lemma pad_loop_pads:
  assumes "absorbed m ctx" "(56 + 64 - length m mod 64) mod 64 = d" "d < n"
  shows "\<exists>ctx'. pad_loop n ctx = Some ctx' \<and> absorbed (m @ replicate d 0) ctx'"
  using assms
proof (induction n arbitrary: m ctx d)
  case (Suc n)
  have test: "sha_count0 ctx AND 504 = 448 \<longleftrightarrow> length m mod 64 = 56"
    using Suc.prems(1) count_pad [of "length m"] by (simp add: absorbed_def)
  show ?case
  proof (cases "length m mod 64 = 56")
    case True
    then show ?thesis using Suc.prems test by simp
  next
    case False
    then have "d = Suc ((56 + 64 - length (m @ [0]) mod 64) mod 64)"
      using Suc.prems(2) pad_step [of "length m"] by simp
    then obtain d' where d: "d = Suc d'" "(56 + 64 - length (m @ [0]) mod 64) mod 64 = d'" by blast
    have "absorbed (m @ [0]) (SHA1Update [0] ctx)" by (rule absorbed_update [OF Suc.prems(1)]) simp
    from Suc.IH [OF this d(2)] show ?thesis using Suc.prems(3) d(1) test False by auto
  qed
qed simp

lemma low_byte: "(255 :: u32) = mask 8"
  by (simp add: mask_eq_exp_minus_1)

lemma be_byte_of_nat: "be_byte (of_nat n) i = of_nat (n div 2 ^ (8 * (3 - i mod 4)))"
proof (rule bit_word_eqI)
  fix k assume "k < LENGTH(8)"
  moreover have "3 - i mod 4 \<le> 3" by simp
  ultimately have "k < 8" "k + (3 - i mod 4) * 8 < 32" by (simp_all, linarith?)
  then show "bit (be_byte (of_nat n) i) k = bit (of_nat (n div 2 ^ (8 * (3 - i mod 4))) :: byte) k"
    by (simp add: be_byte_def low_byte bit_simps mult.commute add.commute flip: drop_bit_eq_div)
qed

lemma finalcount_be64:
  "map (\<lambda>i. be_byte (if i \<ge> 4 then of_nat n else of_nat (n div 2 ^ 32)) i) [0..<8] = be64 n"
  by (simp add: be64_def be_byte_of_nat upt_rec div_mult2_eq [symmetric])

lemma digest_bytes:
  "length st = 5 \<Longrightarrow> map (\<lambda>i. be_byte (st ! (i div 4)) i) [0..<20] = concat (map (\<lambda>w. map (be_byte w) [0..<4]) st)"
proof -
  assume "length st = 5"
  then obtain a b c d e where st: "st = [a, b, c, d, e]" by (auto simp: length_Suc_conv numeral_eq_Suc)
  have "[0..<20] = [0, 1, 2, 3, 4, 5, 6, 7, 8, 9, 10, 11, 12, 13, 14, 15, 16, 17, 18, 19]" "[0..<4] = [0, 1, 2, 3]"
    by code_simp+
  then show ?thesis by (simp add: st be_byte_def)
qed

lemma length_hash_blocks: "length st = 5 \<Longrightarrow> length (hash_blocks SHA1Transform st m) = 5"
proof (induction SHA1Transform st m rule: hash_blocks.induct)
  case (1 st m)
  then show ?case
    by (subst hash_blocks.simps) (auto simp: SHA1Transform_def Let_def split: prod.splits)
qed

lemma hash_blocks_transform: "hash_blocks SHA1Transform st m = hash_blocks sha1_block st m"
proof (induction SHA1Transform st m rule: hash_blocks.induct)
  case (1 st m)
  then show ?case
    by (cases "length m < 64") (simp_all add: hash_blocks_long transform_block)
qed

lemma final_absorbed:
  assumes "absorbed m ctx"
  shows "SHA1Final ctx =
    Some (sha1_spec m, \<lparr>sha_state = replicate 5 0, sha_count0 = 0, sha_count1 = 0, sha_buffer = replicate 64 0\<rparr>)"
proof -
  let ?pad = "replicate ((119 - length m mod 64) mod 64) 0"
  have "absorbed (m @ [0x80]) (SHA1Update [0x80] ctx)" by (rule absorbed_update [OF assms]) simp
  moreover have "(56 + 64 - length (m @ [0x80 :: byte]) mod 64) mod 64 = (119 - length m mod 64) mod 64"
    by (simp add: pad_start)
  moreover have "(119 - length m mod 64) mod 64 < 65" by (rule less_trans [OF mod_less_divisor]) simp_all
  ultimately obtain c where c: "pad_loop 65 (SHA1Update [0x80] ctx) = Some c" "absorbed ((m @ [0x80]) @ ?pad) c"
    using pad_loop_pads by blast
  have "absorbed (((m @ [0x80]) @ ?pad) @ be64 (8 * length m)) (SHA1Update (be64 (8 * length m)) c)"
    by (rule absorbed_update [OF c(2)]) (simp add: be64_def)
  then have "sha_state (SHA1Update (be64 (8 * length m)) c) = hash_blocks sha1_block sha1_IV (sha1_pad m)"
    by (simp add: absorbed_def sha1_pad_def hash_blocks_transform)
  moreover have "length (hash_blocks sha1_block sha1_IV (sha1_pad m)) = 5"
    using length_hash_blocks [of sha1_IV] by (simp add: hash_blocks_transform sha1_IV_def)
  moreover have "map (\<lambda>i. be_byte (if i \<ge> 4 then sha_count0 ctx else sha_count1 ctx) i) [0..<8] = be64 (8 * length m)"
    using assms finalcount_be64 [of "8 * length m"] by (simp only: absorbed_def)
  ultimately show ?thesis
    by (simp add: SHA1Final_def c(1) digest_bytes sha1_spec_def Let_def del: upt_Suc)
qed

text \<open>A context fed in any number of pieces.\<close>

lemma absorbed_session:
  assumes "length (sha_buffer ctx) = 64" "\<forall>c \<in> set cs. length c < 2 ^ 32 - 64"
  shows "absorbed (concat cs) (fold SHA1Update cs (SHA1Init ctx))"
proof -
  have "\<forall>c \<in> set cs. length c < 2 ^ 32" using assms(2) by auto
  from absorbed_updates [OF absorbed_init [OF assms(1)] this] show ?thesis by simp
qed

definition blank_ctx :: SHA1_CTX where
  "blank_ctx = \<lparr>sha_state = replicate 5 0, sha_count0 = 0, sha_count1 = 0, sha_buffer = replicate 64 0\<rparr>"

subsection \<open>Properties\<close>

text \<open>
  The unrolled compression function with its circular 16-word schedule, in-place byte swap and
  rotated variable names computes, for every chaining state and every 64-byte block, exactly the
  80-step compression of FIPS 180 over the big-endian words of the block.
\<close>

theorem sha1_transform_correct:
  assumes "length buf = 64"
  shows "SHA1Transform st buf = sha1_block st buf"
  using assms by (rule transform_block)

theorem sha1_transform_correct_witness:
  "length (replicate 64 (0x61 :: byte)) = 64 \<and>
   SHA1Transform sha1_IV (replicate 64 0x61) = sha1_block sha1_IV (replicate 64 0x61)"
  using sha1_transform_correct [of "replicate 64 0x61" sha1_IV] by simp

text \<open>
  However the data is cut into calls of \<open>SHA1Update\<close>, the context holds the compression of
  the whole blocks seen so far, the bytes left over at the start of its buffer, and the 64-bit bit
  count (carry between the two words included) of everything seen.
\<close>

theorem sha1_update_invariant:
  assumes "length (sha_buffer ctx) = 64" "\<forall>c \<in> set cs. length c < 2 ^ 32 - 64"
  shows "let m = concat cs; ctx' = fold SHA1Update cs (SHA1Init ctx) in
    sha_state ctx' = hash_blocks SHA1Transform sha1_IV m \<and>
    length (sha_buffer ctx') = 64 \<and>
    take (length m mod 64) (sha_buffer ctx') = drop (64 * (length m div 64)) m \<and>
    unat (sha_count0 ctx') + 2 ^ 32 * unat (sha_count1 ctx') = 8 * length m mod 2 ^ 64"
proof -
  define m where "m = concat cs"
  define ctx' where "ctx' = fold SHA1Update cs (SHA1Init ctx)"
  have a: "absorbed m ctx'" unfolding m_def ctx'_def by (rule absorbed_session [OF assms])
  have "unat (sha_count0 ctx') = 8 * length m mod 2 ^ 32" "unat (sha_count1 ctx') = 8 * length m div 2 ^ 32 mod 2 ^ 32"
    using a by (simp_all only: absorbed_def unat_of_nat) simp_all
  then have "unat (sha_count0 ctx') + 2 ^ 32 * unat (sha_count1 ctx') = 8 * length m mod 2 ^ 64"
    using mod_mult2_eq [of "8 * length m" "2 ^ 32" "2 ^ 32"] by simp
  with a show ?thesis unfolding m_def [symmetric] ctx'_def [symmetric] Let_def absorbed_def whole_def by blast
qed

theorem sha1_update_invariant_witness:
  "unat (sha_count0 (SHA1Update [0x62, 0x63] (SHA1Update [0x61] (SHA1Init blank_ctx)))) +
   2 ^ 32 * unat (sha_count1 (SHA1Update [0x62, 0x63] (SHA1Update [0x61] (SHA1Init blank_ctx)))) = 24"
  using sha1_update_invariant [of blank_ctx "[[0x61], [0x62, 0x63]]"] by (simp add: blank_ctx_def Let_def)

text \<open>
  C21: \<open>SHA1Final\<close> always ends, and the digest of data fed in any pieces is the FIPS 180 digest of
  their concatenation: padding with one bit, zeros and the big-endian 64-bit length, compression
  of all blocks, big-endian output.
\<close>

theorem sha1_digest_correct:
  assumes "length (sha_buffer ctx) = 64" "\<forall>c \<in> set cs. length c < 2 ^ 32 - 64"
  shows "SHA1Final (fold SHA1Update cs (SHA1Init ctx)) =
    Some (sha1_spec (concat cs), \<lparr>sha_state = replicate 5 0, sha_count0 = 0, sha_count1 = 0, sha_buffer = replicate 64 0\<rparr>)"
  by (rule final_absorbed [OF absorbed_session [OF assms]])

theorem sha1_digest_correct_witness:
  "SHA1Final (SHA1Update [0x62, 0x63] (SHA1Update [0x61] (SHA1Init blank_ctx))) =
   Some (sha1_spec [0x61, 0x62, 0x63], blank_ctx)"
  using sha1_digest_correct [of blank_ctx "[[0x61], [0x62, 0x63]]"] by (simp add: blank_ctx_def)

end
