(* ===== verification/Gpio.thy ===== *)
theory Gpio
  imports Prelude
begin

section \<open>Pins\<close>

text \<open>
  \<open>core_esp31b_wiring_digital.c\<close> (\<open>pinMode\<close>, \<open>digitalWrite\<close>, \<open>digitalRead\<close>) and
  \<open>core_esp31b_wiring_shift.c\<close>. The state is the history of accesses to the peripheral registers,
  with the contents of the registers the code reads back to modify them. What an input register
  shows is up to the outside: it is a parameter, a function of the history, so that a device may
  react to every write and every read. The set and clear registers (write one to set, write one to
  clear, \<open>esp31b_peri.h\<close>) give the level and the direction of a pin as a fold over the history.
  \<open>PERI a\<close> is the register of a peripheral at the address \<open>a\<close>.
\<close>

subsection \<open>Peripheral registers\<close>

datatype reg = GPOS0 | GPOS1 | GPOC0 | GPOC1 | GPES0 | GPES1 | GPEC0 | GPEC1 | GPI0 | GPI1
  | GPF nat | GPC nat | T1L | T1C | T1I | PERI nat

datatype event = Wr reg u32 | Rd reg

record io =
  events :: "event list"
  regs :: "reg \<Rightarrow> u32"

type_synonym inputs = "event list \<Rightarrow> reg \<Rightarrow> u32"

definition wr :: "reg \<Rightarrow> u32 \<Rightarrow> io \<Rightarrow> io" where
  "wr r v s = s\<lparr>events := events s @ [Wr r v], regs := (regs s)(r := v)\<rparr>"

definition rd :: "inputs \<Rightarrow> reg \<Rightarrow> io \<Rightarrow> u32 \<times> io" where
  "rd env r s = (env (events s) r, s\<lparr>events := events s @ [Rd r]\<rparr>)"

text \<open>\<open>r |= v\<close> and \<open>r &= ~v\<close>.\<close>

definition set_bits :: "reg \<Rightarrow> u32 \<Rightarrow> io \<Rightarrow> io" where
  "set_bits r v s = wr r (regs s r OR v) s"

definition clear_bits :: "reg \<Rightarrow> u32 \<Rightarrow> io \<Rightarrow> io" where
  "clear_bits r v s = wr r (regs s r AND NOT v) s"

subsection \<open>Digital pins\<close>

definition esp31b_gpioToFn :: "byte list" where
  "esp31b_gpioToFn =
     [0x44, 0x88, 0x40, 0x84, 0x48, 0x6c, 0x60, 0x64, 0x68, 0x54,
      0x58, 0x5c, 0x34, 0x38, 0x30, 0x3c, 0x4c, 0x50, 0x70, 0x74,
      0x78, 0x7c, 0x80, 0x8c, 0xFF, 0x24, 0x28, 0x2c, 0xFF, 0xFF,
      0xFF, 0xFF, 0x1c, 0x20, 0x14, 0x18, 0x04, 0x08, 0x0c, 0x10]"

definition no_pin :: "nat \<Rightarrow> bool" where
  "no_pin pin \<longleftrightarrow> pin > 39 \<or> esp31b_gpioToFn ! pin = 0xFF"

text \<open>The registers of a pin below 32 and of the others: \<open>GPOS0 = 1 << pin\<close>, \<open>GPOS1 = 1 << (pin - 32)\<close>.\<close>

definition pin_wr :: "reg \<Rightarrow> reg \<Rightarrow> nat \<Rightarrow> io \<Rightarrow> io" where
  "pin_wr r0 r1 pin s = (if pin < 32 then wr r0 (push_bit pin 1) s else wr r1 (push_bit (pin - 32) 1) s)"

definition gpf :: "nat \<Rightarrow> reg" where
  "gpf pin = GPF (0x9000 + unat (esp31b_gpioToFn ! pin))"

definition INPUT :: byte where "INPUT = 0x01"
definition OUTPUT :: byte where "OUTPUT = 0x02"
definition PULLUP :: byte where "PULLUP = 0x04"
definition PULLDOWN :: byte where "PULLDOWN = 0x08"
definition OPEN_DRAIN :: byte where "OPEN_DRAIN = 0x10"
definition SPECIAL :: byte where "SPECIAL = 0xF0"
definition INPUT_PULLUP :: byte where "INPUT_PULLUP = 0x05"

definition GPFFS_BUS :: "nat \<Rightarrow> u32" where
  "GPFFS_BUS pin = (if pin = 1 \<or> pin = 3 then 0 else 1)"

definition pinMode :: "nat \<Rightarrow> byte \<Rightarrow> io \<Rightarrow> io" where
  "pinMode pin mode s =
     (if no_pin pin then s
      else let
        s = (if mode AND INPUT \<noteq> 0 then set_bits (gpf pin) (push_bit 9 1) (pin_wr GPEC0 GPEC1 pin s)
             else if mode AND OUTPUT \<noteq> 0 then pin_wr GPES0 GPES1 pin s else s);
        s = (if mode AND PULLUP \<noteq> 0 then set_bits (gpf pin) (push_bit 8 1) s else clear_bits (gpf pin) (push_bit 8 1) s);
        s = (if mode AND PULLDOWN \<noteq> 0 then set_bits (gpf pin) (push_bit 7 1) s else clear_bits (gpf pin) (push_bit 7 1) s);
        s = clear_bits (gpf pin) (push_bit 12 7) s;
        s = (if mode AND (INPUT OR OUTPUT) \<noteq> 0 then set_bits (gpf pin) (push_bit 12 2) s
             else if mode = SPECIAL then set_bits (gpf pin) (push_bit 12 (GPFFS_BUS pin)) s
             else set_bits (gpf pin) (push_bit 12 (ucast (drop_bit 5 mode))) s);
        s = (if mode AND OPEN_DRAIN \<noteq> 0 then set_bits (GPC pin) (push_bit 2 1) s else s);
        s = clear_bits (GPC pin) (push_bit 13 0x1F OR push_bit 7 7) s
      in set_bits (GPC pin) (push_bit 13 4) s)"

definition digitalWrite :: "nat \<Rightarrow> byte \<Rightarrow> io \<Rightarrow> io" where
  "digitalWrite pin val s =
     (if no_pin pin then s
      else if val \<noteq> 0 then pin_wr GPOS0 GPOS1 pin s
      else pin_wr GPOC0 GPOC1 pin s)"

definition digitalRead :: "inputs \<Rightarrow> nat \<Rightarrow> io \<Rightarrow> u32 \<times> io" where
  "digitalRead env pin s =
     (if no_pin pin then (0, s)
      else if pin < 32 then (case rd env GPI0 s of (v, s) \<Rightarrow> (drop_bit pin v AND 1, s))
      else (case rd env GPI1 s of (v, s) \<Rightarrow> (drop_bit (pin - 32) v AND 1, s)))"

subsection \<open>Shifting bytes\<close>

definition HIGH :: byte where "HIGH = 1"
definition LOW :: byte where "LOW = 0"
definition LSBFIRST :: byte where "LSBFIRST = 0"

definition shiftIn_step :: "inputs \<Rightarrow> nat \<Rightarrow> nat \<Rightarrow> byte \<Rightarrow> nat \<Rightarrow> byte \<times> io \<Rightarrow> byte \<times> io" where
  "shiftIn_step env dataPin clockPin bitOrder i vs =
     (case vs of (value, s) \<Rightarrow>
        let s = digitalWrite clockPin HIGH s
        in case digitalRead env dataPin s of (d, s) \<Rightarrow>
             (value OR ucast (push_bit (if bitOrder = LSBFIRST then i else 7 - i) d), digitalWrite clockPin LOW s))"

definition shiftIn :: "inputs \<Rightarrow> nat \<Rightarrow> nat \<Rightarrow> byte \<Rightarrow> io \<Rightarrow> byte \<times> io" where
  "shiftIn env dataPin clockPin bitOrder s = fold (shiftIn_step env dataPin clockPin bitOrder) [0..<8] (0, s)"

definition shiftOut_step :: "nat \<Rightarrow> nat \<Rightarrow> byte \<Rightarrow> byte \<Rightarrow> nat \<Rightarrow> io \<Rightarrow> io" where
  "shiftOut_step dataPin clockPin bitOrder val i s =
     (let b = (if bitOrder = LSBFIRST then val AND push_bit i 1 else val AND push_bit (7 - i) 1)
      in digitalWrite clockPin LOW (digitalWrite clockPin HIGH (digitalWrite dataPin (if b \<noteq> 0 then 1 else 0) s)))"

definition shiftOut :: "nat \<Rightarrow> nat \<Rightarrow> byte \<Rightarrow> byte \<Rightarrow> io \<Rightarrow> io" where
  "shiftOut dataPin clockPin bitOrder val s = fold (shiftOut_step dataPin clockPin bitOrder val) [0..<8] s"

subsection \<open>Levels and directions\<close>

text \<open>A set or clear register acts on the pins whose bits are written.\<close>

definition hits :: "nat \<Rightarrow> nat \<Rightarrow> u32 \<Rightarrow> nat \<Rightarrow> bool" where
  "hits first n v pin \<longleftrightarrow> first \<le> pin \<and> pin < first + n \<and> bit v (pin - first)"

fun out_ev :: "event \<Rightarrow> (nat \<Rightarrow> bool) \<Rightarrow> nat \<Rightarrow> bool" where
  "out_ev (Wr GPOS0 v) l = (\<lambda>p. hits 0 32 v p \<or> l p)"
| "out_ev (Wr GPOS1 v) l = (\<lambda>p. hits 32 32 v p \<or> l p)"
| "out_ev (Wr GPOC0 v) l = (\<lambda>p. \<not> hits 0 32 v p \<and> l p)"
| "out_ev (Wr GPOC1 v) l = (\<lambda>p. \<not> hits 32 32 v p \<and> l p)"
| "out_ev _ l = l"

fun dir_ev :: "event \<Rightarrow> (nat \<Rightarrow> bool) \<Rightarrow> nat \<Rightarrow> bool" where
  "dir_ev (Wr GPES0 v) l = (\<lambda>p. hits 0 32 v p \<or> l p)"
| "dir_ev (Wr GPES1 v) l = (\<lambda>p. hits 32 32 v p \<or> l p)"
| "dir_ev (Wr GPEC0 v) l = (\<lambda>p. \<not> hits 0 32 v p \<and> l p)"
| "dir_ev (Wr GPEC1 v) l = (\<lambda>p. \<not> hits 32 32 v p \<and> l p)"
| "dir_ev _ l = l"

text \<open>The level a pin is driven to and whether it is driven, all low and not driven at first.\<close>

definition out :: "event list \<Rightarrow> nat \<Rightarrow> bool" where
  "out evs = fold out_ev evs (\<lambda>_. False)"

definition drives :: "event list \<Rightarrow> nat \<Rightarrow> bool" where
  "drives evs = fold dir_ev evs (\<lambda>_. False)"

lemma out_append [simp]: "out (evs @ es) = fold out_ev es (out evs)"
  by (simp add: out_def)

lemma drives_append [simp]: "drives (evs @ es) = fold dir_ev es (drives evs)"
  by (simp add: drives_def)

lemma hits_one [simp]: "n \<le> 32 \<Longrightarrow> hits first n (2 ^ k) pin \<longleftrightarrow> pin = first + k \<and> k < n"
  by (auto simp: hits_def bit_simps)

lemma events_wr [simp]: "events (wr r v s) = events s @ [Wr r v]"
  by (simp add: wr_def)

lemma regs_wr [simp]: "regs (wr r v s) = (regs s)(r := v)"
  by (simp add: wr_def)

lemma pin_wr_out [simp]:
  assumes "pin < 64"
  shows "out (events (pin_wr GPOS0 GPOS1 pin s)) = (out (events s))(pin := True)"
    "out (events (pin_wr GPOC0 GPOC1 pin s)) = (out (events s))(pin := False)"
    "drives (events (pin_wr GPES0 GPES1 pin s)) = (drives (events s))(pin := True)"
    "drives (events (pin_wr GPEC0 GPEC1 pin s)) = (drives (events s))(pin := False)"
    "drives (events (pin_wr GPOS0 GPOS1 pin s)) = drives (events s)"
    "drives (events (pin_wr GPOC0 GPOC1 pin s)) = drives (events s)"
    "out (events (pin_wr GPES0 GPES1 pin s)) = out (events s)"
    "out (events (pin_wr GPEC0 GPEC1 pin s)) = out (events s)"
  using assms by (auto simp: pin_wr_def fun_eq_iff)

lemma regs_pin_wr [simp]: "r \<noteq> r0 \<Longrightarrow> r \<noteq> r1 \<Longrightarrow> regs (pin_wr r0 r1 pin s) r = regs s r"
  by (simp add: pin_wr_def)

lemma plain_reg [simp]:
  "out (events (set_bits (GPF k) v s)) = out (events s)" "out (events (clear_bits (GPF k) v s)) = out (events s)"
  "out (events (set_bits (GPC k) v s)) = out (events s)" "out (events (clear_bits (GPC k) v s)) = out (events s)"
  "drives (events (set_bits (GPF k) v s)) = drives (events s)" "drives (events (clear_bits (GPF k) v s)) = drives (events s)"
  "drives (events (set_bits (GPC k) v s)) = drives (events s)" "drives (events (clear_bits (GPC k) v s)) = drives (events s)"
  by (simp_all add: set_bits_def clear_bits_def)

lemma regs_set_bits [simp]: "regs (set_bits r v s) = (regs s)(r := regs s r OR v)"
  by (simp add: set_bits_def)

lemma regs_clear_bits [simp]: "regs (clear_bits r v s) = (regs s)(r := regs s r AND NOT v)"
  by (simp add: clear_bits_def)

lemma is_pin: "\<not> no_pin pin \<Longrightarrow> pin < 64"
  by (simp add: no_pin_def)

lemma digitalWrite_levels:
  "\<not> no_pin pin \<Longrightarrow> out (events (digitalWrite pin val s)) = (out (events s))(pin := val \<noteq> 0)"
  "drives (events (digitalWrite pin val s)) = drives (events s)"
  by (simp_all add: digitalWrite_def is_pin)

lemma digitalRead_levels:
  "out (events (snd (digitalRead env pin s))) = out (events s)"
  by (simp add: digitalRead_def rd_def split: prod.splits)

lemma gpf_inj: "\<not> no_pin p \<Longrightarrow> \<not> no_pin q \<Longrightarrow> gpf p = gpf q \<longleftrightarrow> p = q"
proof -
  have "list_all (\<lambda>p. list_all (\<lambda>q. no_pin p \<or> no_pin q \<or> p = q \<or> esp31b_gpioToFn ! p \<noteq> esp31b_gpioToFn ! q) [0..<40]) [0..<40]"
    by code_simp
  then have "\<forall>p < 40. \<forall>q < 40. no_pin p \<or> no_pin q \<or> p = q \<or> esp31b_gpioToFn ! p \<noteq> esp31b_gpioToFn ! q"
    unfolding list_all_iff by fastforce
  moreover assume "\<not> no_pin p" "\<not> no_pin q"
  moreover from this have "p < 40" "q < 40" by (auto simp: no_pin_def)
  ultimately show ?thesis by (auto simp: gpf_def simp flip: word_unat_eq_iff)
qed

lemma pinMode_levels:
  assumes "\<not> no_pin pin"
  shows "out (events (pinMode pin mode s)) = out (events s)"
    "drives (events (pinMode pin mode s)) =
       (if mode AND INPUT \<noteq> 0 then (drives (events s))(pin := False)
        else if mode AND OUTPUT \<noteq> 0 then (drives (events s))(pin := True) else drives (events s))"
  using assms by (simp_all add: pinMode_def Let_def is_pin gpf_def)

text \<open>The function a mode selects in the register of a pin.\<close>

definition mode_function :: "nat \<Rightarrow> byte \<Rightarrow> u32" where
  "mode_function pin mode =
     (if mode AND (INPUT OR OUTPUT) \<noteq> 0 then 2 else if mode = SPECIAL then GPFFS_BUS pin else ucast (drop_bit 5 mode))"

lemma gpf_not [simp]: "gpf pin \<noteq> GPC k" "GPC k \<noteq> gpf pin" "gpf pin \<noteq> GPES0" "gpf pin \<noteq> GPES1" "gpf pin \<noteq> GPEC0" "gpf pin \<noteq> GPEC1"
  by (simp_all add: gpf_def)

definition mode_pulls :: "byte \<Rightarrow> u32 \<Rightarrow> u32" where
  "mode_pulls mode f =
     (let f = (if mode AND INPUT \<noteq> 0 then f OR push_bit 9 1 else f);
          f = (if mode AND PULLUP \<noteq> 0 then f OR push_bit 8 1 else f AND NOT (push_bit 8 1))
      in if mode AND PULLDOWN \<noteq> 0 then f OR push_bit 7 1 else f AND NOT (push_bit 7 1))"

lemma mode_pulls_bits:
  "bit (mode_pulls mode f) 8 \<longleftrightarrow> mode AND PULLUP \<noteq> 0" "bit (mode_pulls mode f) 7 \<longleftrightarrow> mode AND PULLDOWN \<noteq> 0"
  by (simp_all add: mode_pulls_def Let_def bit_simps)

lemma pinMode_gpf:
  assumes "\<not> no_pin pin"
  shows "regs (pinMode pin mode s) (gpf pin) =
    (mode_pulls mode (regs s (gpf pin)) AND NOT (push_bit 12 7)) OR push_bit 12 (mode_function pin mode)"
  using assms by (simp add: pinMode_def Let_def mode_function_def mode_pulls_def)

lemma pinMode_other:
  assumes "r \<noteq> gpf pin" "r \<noteq> GPC pin" "r \<notin> {GPES0, GPES1, GPEC0, GPEC1}"
  shows "regs (pinMode pin mode s) r = regs s r"
  using assms by (simp add: pinMode_def Let_def)

lemma mode_function_small: "mode_function pin mode = take_bit 3 (mode_function pin mode)"
proof -
  have "take_bit 3 (drop_bit 5 mode) = drop_bit 5 mode"
    by (rule bit_word_eqI) (auto simp: bit_simps dest: bit_imp_le_length)
  then have "take_bit 3 (ucast (drop_bit 5 mode) :: u32) = ucast (drop_bit 5 mode)"
    by (simp flip: unsigned_take_bit_eq)
  then show ?thesis by (simp add: mode_function_def GPFFS_BUS_def take_bit_eq_mod)
qed

subsection \<open>What a shift register sees\<close>

text \<open>The levels of the data pin at the rising edges of the clock pin.\<close>

primrec clocked :: "nat \<Rightarrow> nat \<Rightarrow> (nat \<Rightarrow> bool) \<Rightarrow> event list \<Rightarrow> bool list" where
  "clocked d c l [] = []"
| "clocked d c l (e # es) =
     (let l' = out_ev e l in (if \<not> l c \<and> l' c then [l' d] else []) @ clocked d c l' es)"

lemma clocked_append: "clocked d c l (es @ fs) = clocked d c l es @ clocked d c (fold out_ev es l) fs"
  by (induction es arbitrary: l) (simp_all add: Let_def)

definition seen :: "nat \<Rightarrow> nat \<Rightarrow> io \<Rightarrow> bool list" where
  "seen d c s = clocked d c (\<lambda>_. False) (events s)"

lemma seen_write:
  assumes "\<not> no_pin pin"
  shows "seen d c (digitalWrite pin val s) =
    seen d c s @ (if pin = c \<and> val \<noteq> 0 \<and> \<not> out (events s) c then [((out (events s))(c := True)) d] else [])"
proof -
  have "\<exists>e. events (digitalWrite pin val s) = events s @ [e]"
    using assms by (simp add: digitalWrite_def pin_wr_def)
  then obtain e where e: "events (digitalWrite pin val s) = events s @ [e]" by blast
  then have "out_ev e (out (events s)) = (out (events s))(pin := val \<noteq> 0)"
    using digitalWrite_levels(1) [OF assms, of val s] by simp
  then show ?thesis
    unfolding seen_def e by (simp add: clocked_append Let_def out_def [symmetric])
qed

lemma shiftOut_step_seen:
  assumes "\<not> no_pin d" "\<not> no_pin c" "d \<noteq> c" "\<not> out (events s) c" "i < 8"
  shows "seen d c (shiftOut_step d c ord val i s) = seen d c s @ [bit val (if ord = LSBFIRST then i else 7 - i)]"
    "\<not> out (events (shiftOut_step d c ord val i s)) c"
proof -
  have mask: "val AND push_bit k 1 \<noteq> 0 \<longleftrightarrow> bit val k" if "k < 8" for k
    by (simp add: and_exp_eq_0_iff_not_bit)
  show "seen d c (shiftOut_step d c ord val i s) = seen d c s @ [bit val (if ord = LSBFIRST then i else 7 - i)]"
    "\<not> out (events (shiftOut_step d c ord val i s)) c"
    using assms mask [of i] mask [of "7 - i"]
    by (simp_all add: shiftOut_step_def Let_def seen_write digitalWrite_levels HIGH_def LOW_def)
qed

lemma pinMode_select:
  assumes "\<not> no_pin pin"
  shows "take_bit 3 (drop_bit 12 (regs (pinMode pin mode s) (gpf pin))) = mode_function pin mode"
proof -
  have seven: "(7 :: u32) = mask 3" by (simp add: mask_eq_exp_minus_1)
  have "take_bit 3 (drop_bit 12 ((v AND NOT (push_bit 12 7)) OR push_bit 12 f)) = take_bit 3 f" for v f :: u32
    unfolding seven by (rule bit_word_eqI) (auto simp: bit_simps)
  then show ?thesis using assms by (simp add: pinMode_gpf mode_function_small [symmetric] del: push_bit_of_1)
qed

lemma shiftOut_seen:
  assumes "\<not> no_pin d" "\<not> no_pin c" "d \<noteq> c" "\<not> out (events s) c"
  shows "n \<le> 8 \<Longrightarrow> seen d c (fold (shiftOut_step d c ord val) [0..<n] s) =
      seen d c s @ map (\<lambda>i. bit val (if ord = LSBFIRST then i else 7 - i)) [0..<n] \<and>
      \<not> out (events (fold (shiftOut_step d c ord val) [0..<n] s)) c"
  using assms by (induction n) (simp_all add: shiftOut_step_seen)

text \<open>A device that shows, after each rising edge, the next of a list of bits.\<close>

definition presents :: "nat \<Rightarrow> nat \<Rightarrow> nat \<Rightarrow> bool list \<Rightarrow> inputs \<Rightarrow> bool" where
  "presents d c k bs env \<longleftrightarrow>
     (\<forall>es. let n = length (clocked d c (\<lambda>_. False) es) in
        k < n \<and> n \<le> k + length bs \<longrightarrow>
        bit (env es (if d < 32 then GPI0 else GPI1)) (if d < 32 then d else d - 32) = bs ! (n - k - 1))"

lemma events_read: "\<not> no_pin d \<Longrightarrow> \<exists>r. events (snd (digitalRead env d s)) = events s @ [Rd r]"
  by (simp add: digitalRead_def rd_def split: prod.splits)

lemma seen_read [simp]: "seen d c (snd (digitalRead env p s)) = seen d c s"
  by (cases "no_pin p") (auto simp: seen_def digitalRead_def rd_def clocked_append)

lemma digitalRead_value:
  assumes "\<not> no_pin d"
  shows "fst (digitalRead env d s) = of_bool (bit (env (events s) (if d < 32 then GPI0 else GPI1)) (if d < 32 then d else d - 32))"
  using assms by (auto simp: digitalRead_def rd_def is_pin and_one_eq mod_2_eq_odd bit_iff_odd_drop_bit)

lemma shiftIn_step_reads:
  assumes "\<not> no_pin d" "\<not> no_pin c" "d \<noteq> c" "\<not> out (events s) c"
    "presents d c k bs env" "length (seen d c s) = k + i" "i < length bs"
  shows "\<exists>s'. shiftIn_step env d c ord i (value, s) =
      (value OR ucast (push_bit (if ord = LSBFIRST then i else 7 - i) (of_bool (bs ! i) :: u32)), s') \<and>
      length (seen d c s') = k + Suc i \<and> \<not> out (events s') c"
proof -
  let ?s = "digitalWrite c HIGH s"
  have len: "length (seen d c ?s) = k + Suc i" using assms by (simp add: seen_write HIGH_def)
  then have "fst (digitalRead env d ?s) = of_bool (bs ! i)"
    using assms(5,7) by (simp add: digitalRead_value [OF assms(1)] presents_def seen_def Let_def)
  then show ?thesis
    using assms(2) len
    by (auto simp: shiftIn_step_def Let_def split_beta seen_write digitalWrite_levels LOW_def)
qed

lemma shiftIn_reads:
  assumes "\<not> no_pin d" "\<not> no_pin c" "d \<noteq> c" "\<not> out (events s) c"
    "presents d c (length (seen d c s)) bs env" "length bs = 8"
  shows "n \<le> 8 \<Longrightarrow> \<exists>v s'. fold (shiftIn_step env d c ord) [0..<n] (0, s) = (v, s') \<and>
      length (seen d c s') = length (seen d c s) + n \<and> \<not> out (events s') c \<and>
      (\<forall>j < 8. bit v j \<longleftrightarrow> (\<exists>i < n. (if ord = LSBFIRST then i else 7 - i) = j \<and> bs ! i))"
proof (induction n)
  case 0
  then show ?case using assms(4) by simp
next
  case (Suc n)
  then obtain v s' where IH: "fold (shiftIn_step env d c ord) [0..<n] (0, s) = (v, s')"
      "length (seen d c s') = length (seen d c s) + n" "\<not> out (events s') c"
      "\<forall>j < 8. bit v j \<longleftrightarrow> (\<exists>i < n. (if ord = LSBFIRST then i else 7 - i) = j \<and> bs ! i)" by auto
  have "n < length bs" using Suc.prems assms(6) by simp
  from shiftIn_step_reads [OF assms(1-3) IH(3) assms(5) IH(2) this, of ord v] obtain s''
    where s'': "shiftIn_step env d c ord n (v, s') =
        (v OR ucast (push_bit (if ord = LSBFIRST then n else 7 - n) (of_bool (bs ! n) :: u32)), s'')"
      "length (seen d c s'') = length (seen d c s) + Suc n" "\<not> out (events s'') c" by blast
  have "bit (v OR ucast (push_bit (if ord = LSBFIRST then n else 7 - n) (of_bool (bs ! n) :: u32))) j \<longleftrightarrow>
      (\<exists>i < Suc n. (if ord = LSBFIRST then i else 7 - i) = j \<and> bs ! i)" if "j < 8" for j
    using that IH(4) Suc.prems by (auto simp: bit_simps less_Suc_eq)
  moreover have "fold (shiftIn_step env d c ord) [0..<Suc n] (0, s) =
      (v OR ucast (push_bit (if ord = LSBFIRST then n else 7 - n) (of_bool (bs ! n) :: u32)), s'')"
    using IH(1) s''(1) by simp
  ultimately show ?case using s''(2,3) by blast
qed

text \<open>The bits of a byte in the order they travel, and a device that holds a byte.\<close>

definition shift_bits :: "byte \<Rightarrow> byte \<Rightarrow> bool list" where
  "shift_bits ord val = map (\<lambda>i. bit val (if ord = LSBFIRST then i else 7 - i)) [0..<8]"

definition byte_device :: "nat \<Rightarrow> nat \<Rightarrow> byte \<Rightarrow> byte \<Rightarrow> inputs" where
  "byte_device d c ord val es r = (if shift_bits ord val ! (length (clocked d c (\<lambda>_. False) es) - 1) then - 1 else 0)"

subsection \<open>Properties\<close>

text \<open>
  On a pin of the board, \<open>digitalWrite\<close> sets the level of that pin and of no other and keeps
  all directions; \<open>pinMode\<close> keeps all levels, makes the pin an input or an output (or keeps its
  direction for the other modes), sets or clears its pull-up and pull-down, selects the function
  the mode asks for, and changes no configuration of another pin. On any other pin number nothing
  is written at all.
\<close>

theorem pin_operations_correct:
  "(no_pin pin \<longrightarrow> digitalWrite pin val s = s \<and> pinMode pin mode s = s \<and> digitalRead env pin s = (0, s)) \<and>
   (\<not> no_pin pin \<longrightarrow>
     out (events (digitalWrite pin val s)) = (out (events s))(pin := val \<noteq> 0) \<and>
     drives (events (digitalWrite pin val s)) = drives (events s) \<and>
     out (events (pinMode pin mode s)) = out (events s) \<and>
     drives (events (pinMode pin mode s)) =
       (if mode AND INPUT \<noteq> 0 then (drives (events s))(pin := False)
        else if mode AND OUTPUT \<noteq> 0 then (drives (events s))(pin := True) else drives (events s)) \<and>
     (bit (regs (pinMode pin mode s) (gpf pin)) 8 \<longleftrightarrow> mode AND PULLUP \<noteq> 0) \<and>
     (bit (regs (pinMode pin mode s) (gpf pin)) 7 \<longleftrightarrow> mode AND PULLDOWN \<noteq> 0) \<and>
     take_bit 3 (drop_bit 12 (regs (pinMode pin mode s) (gpf pin))) = mode_function pin mode \<and>
     (\<forall>q. q \<noteq> pin \<and> \<not> no_pin q \<longrightarrow>
        regs (pinMode pin mode s) (gpf q) = regs s (gpf q) \<and> regs (pinMode pin mode s) (GPC q) = regs s (GPC q)))"
proof -
  have "regs (pinMode pin mode s) (gpf q) = regs s (gpf q)" if "q \<noteq> pin" "\<not> no_pin q" "\<not> no_pin pin" for q
    using that by (intro pinMode_other) (simp_all add: gpf_inj)
  moreover have "regs (pinMode pin mode s) (GPC q) = regs s (GPC q)" if "q \<noteq> pin" for q
    using that by (intro pinMode_other) simp_all
  moreover have "bit (regs (pinMode pin mode s) (gpf pin)) 8 \<longleftrightarrow> mode AND PULLUP \<noteq> 0"
    "bit (regs (pinMode pin mode s) (gpf pin)) 7 \<longleftrightarrow> mode AND PULLDOWN \<noteq> 0" if "\<not> no_pin pin"
    using that by (simp_all add: pinMode_gpf bit_simps mode_pulls_bits del: push_bit_of_1)
  ultimately show ?thesis
    by (simp add: digitalWrite_levels pinMode_levels pinMode_select)
      (simp add: digitalWrite_def pinMode_def digitalRead_def)
qed

theorem pin_operations_correct_witness:
  "out (events (digitalWrite 5 1 \<lparr>events = [], regs = \<lambda>_. 0\<rparr>)) = (\<lambda>_. False)(5 := True)"
  using pin_operations_correct [of 5 1 "\<lparr>events = [], regs = \<lambda>_. 0\<rparr>" 0 "\<lambda>_ _. 0"]
  by (simp add: no_pin_def esp31b_gpioToFn_def out_def)

text \<open>
  With a clock that starts low, \<open>shiftOut\<close> shows a device that samples the data pin at the rising
  edges of the clock exactly the eight bits of the value in the order asked for, and leaves the
  clock low; and \<open>shiftIn\<close> from a device that presents those bits after the rising edges returns
  the value.
\<close>

theorem shift_roundtrip:
  assumes "\<not> no_pin d" "\<not> no_pin c" "d \<noteq> c" "\<not> out (events s) c"
  shows "seen d c (shiftOut d c ord val s) = seen d c s @ shift_bits ord val \<and> \<not> out (events (shiftOut d c ord val s)) c \<and>
    (presents d c (length (seen d c s)) (shift_bits ord val) env \<longrightarrow> fst (shiftIn env d c ord s) = val)"
proof (intro conjI impI)
  show "seen d c (shiftOut d c ord val s) = seen d c s @ shift_bits ord val" "\<not> out (events (shiftOut d c ord val s)) c"
    using shiftOut_seen [OF assms(1-4), of 8 ord val] by (simp_all add: shiftOut_def shift_bits_def del: upt_Suc)
  assume "presents d c (length (seen d c s)) (shift_bits ord val) env"
  from shiftIn_reads [OF assms(1-4) this, of 8 ord]
  obtain v s' where v: "shiftIn env d c ord s = (v, s')"
    "\<forall>j < 8. bit v j \<longleftrightarrow> (\<exists>i < 8. (if ord = LSBFIRST then i else 7 - i) = j \<and> shift_bits ord val ! i)"
    by (auto simp: shiftIn_def shift_bits_def simp del: upt_Suc)
  have "bit v j = bit val j" if "j < 8" for j
  proof -
    have "(\<exists>i < 8. (if ord = LSBFIRST then i else 7 - i) = j \<and> shift_bits ord val ! i) \<longleftrightarrow> bit val j"
    proof
      show "bit val j" if "\<exists>i < 8. (if ord = LSBFIRST then i else 7 - i) = j \<and> shift_bits ord val ! i"
        using that by (auto simp: shift_bits_def simp del: upt_Suc)
      show "\<exists>i < 8. (if ord = LSBFIRST then i else 7 - i) = j \<and> shift_bits ord val ! i" if "bit val j"
      proof (intro exI [of _ "if ord = LSBFIRST then j else 7 - j"])
        have "7 - j < 8" "[0..<8] ! (7 - j) = 7 - j" by (simp, subst nth_upt) simp_all
        then show "(if ord = LSBFIRST then j else 7 - j) < 8 \<and>
            (if ord = LSBFIRST then (if ord = LSBFIRST then j else 7 - j) else 7 - (if ord = LSBFIRST then j else 7 - j)) = j \<and>
            shift_bits ord val ! (if ord = LSBFIRST then j else 7 - j)"
          using that \<open>j < 8\<close> by (simp add: shift_bits_def del: upt_Suc)
      qed
    qed
    then show ?thesis using v(2) that by simp
  qed
  then have "v = val" by (intro bit_word_eqI) simp
  then show "fst (shiftIn env d c ord s) = val" by (simp add: v(1))
qed

theorem shift_roundtrip_witness:
  "fst (shiftIn (byte_device 4 5 0 0xA6) 4 5 0 \<lparr>events = [], regs = \<lambda>_. 0\<rparr>) = 0xA6 \<and>
   seen 4 5 (shiftOut 4 5 0 0xA6 \<lparr>events = [], regs = \<lambda>_. 0\<rparr>) = shift_bits 0 0xA6"
proof -
  have "presents 4 5 0 (shift_bits 0 0xA6) (byte_device 4 5 0 0xA6)"
    by (simp add: presents_def byte_device_def Let_def)
  then show ?thesis
    using shift_roundtrip [of 4 5 "\<lparr>events = [], regs = \<lambda>_. 0\<rparr>" 0 "0xA6" "byte_device 4 5 0 0xA6"]
    by (simp add: no_pin_def esp31b_gpioToFn_def out_def seen_def)
qed

end
