(* ===== verification/Pwm.thy ===== *)
theory Pwm
  imports Gpio "HOL-Library.Multiset"
begin

section \<open>Pulse width modulation\<close>

text \<open>
  \<open>core_esp31b_wiring_pwm.c\<close> with the hardware timer of \<open>core_esp31b_timer.c\<close>: duty values per pin,
  the table of steps of a period, and the timer interrupt that raises all active pins at the start
  of a period and lowers each of them at its step. Undefined behaviour of the C code is \<open>None\<close>: an
  index beyond an array of 32 words, a shift by 32 or more, a division by zero. The
  timer interrupt is masked while \<open>prep_pwm_steps\<close> replaces the tables; an interrupt is a step between
  two calls of the interface. Not modelled is an interrupt inside \<open>analogWrite\<close> before that, when
  \<open>pwm_mask\<close> has changed and the tables have not. A write to \<open>T1L\<close> is kept with all its bits in the history;
  the counter has 23 of them (\<open>esp31b_peri.h\<close>), which \<open>timer_ticks\<close> reads out.
\<close>

subsection \<open>Timer 1\<close>

definition timer1_disable :: "io \<Rightarrow> io" where
  "timer1_disable s = wr T1I 0 (wr T1C 0 s)"

definition timer1_enable :: "byte \<Rightarrow> byte \<Rightarrow> byte \<Rightarrow> io \<Rightarrow> io" where
  "timer1_enable divider int_type reload s =
     wr T1I 0 (wr T1C (push_bit 7 1 OR push_bit 6 (ucast (reload AND 1)) OR push_bit 2 (ucast (divider AND 3)) OR ucast (int_type AND 1)) s)"

definition timer1_write :: "u32 \<Rightarrow> io \<Rightarrow> io" where
  "timer1_write ticks s = set_bits T1C (push_bit 7 1) (wr T1I 0 (wr T1L (ticks AND 0x7FFFFF) s))"

subsection \<open>State\<close>

record pwm =
  pwm_mask :: u32
  pwm_values :: "u32 list"
  pwm_freq :: u32
  pwm_range :: u32
  pwm_multiplier :: u32
  pwm_steps :: "u32 list"
  pwm_steps_len :: nat
  pwm_steps_mask :: "u32 list"
  isr_current_step :: nat
  isr_stepcount :: nat
  isr_steps :: "u32 list"
  isr_masks :: "u32 list"
  timer1_user_cb :: bool
  pwm_io :: io

definition on_io :: "(io \<Rightarrow> io) \<Rightarrow> pwm \<Rightarrow> pwm" where
  "on_io f s = s\<lparr>pwm_io := f (pwm_io s)\<rparr>"

subsection \<open>Sorting\<close>

text \<open>The inner loop moves larger elements up, the outer loop inserts, the last loop removes repetitions.\<close>

fun sort_shift :: "u32 list \<Rightarrow> u32 \<Rightarrow> nat \<Rightarrow> (u32 list \<times> nat) option" where
  "sort_shift a tmp 0 = Some (a, 0)"
| "sort_shift a tmp (Suc j) = do {
     x \<leftarrow> get_at a j;
     if tmp < x then do { a \<leftarrow> put_at a (Suc j) x; sort_shift a tmp j } else Some (a, Suc j)
   }"

definition sort_insert :: "nat \<Rightarrow> u32 list option \<Rightarrow> u32 list option" where
  "sort_insert i m = do {
     a \<leftarrow> m;
     tmp \<leftarrow> get_at a i;
     (a, j) \<leftarrow> sort_shift a tmp i;
     put_at a j tmp
   }"

definition sort_dedup :: "nat \<Rightarrow> (u32 list \<times> nat) option \<Rightarrow> (u32 list \<times> nat) option" where
  "sort_dedup i m = do {
     (a, bl) \<leftarrow> m;
     x \<leftarrow> get_at a i;
     y \<leftarrow> get_at a (i - 1);
     if x \<noteq> y then do { a \<leftarrow> put_at a bl x; Some (a, bl + 1) } else Some (a, bl)
   }"

definition pwm_sort_array :: "u32 list \<Rightarrow> nat \<Rightarrow> (u32 list \<times> nat) option" where
  "pwm_sort_array a al = do {
     a \<leftarrow> fold sort_insert [1..<al] (Some a);
     fold sort_dedup [1..<al] (Some (a, 1))
   }"

subsection \<open>The steps of a period\<close>

definition pwm_get_mask :: "u32 \<Rightarrow> pwm \<Rightarrow> u32" where
  "pwm_get_mask value s =
     fold (\<lambda>i mask. if pwm_mask s AND push_bit i 1 \<noteq> 0 \<and> pwm_values s ! i = value then mask OR push_bit i 1 else mask) [0..<32] 0"

definition prep_collect :: "pwm \<Rightarrow> nat \<Rightarrow> (u32 list \<times> nat) option \<Rightarrow> (u32 list \<times> nat) option" where
  "prep_collect s i m = do {
     (steps, len) \<leftarrow> m;
     if pwm_mask s AND push_bit i 1 \<noteq> 0 \<and> pwm_values s ! i \<noteq> 0 then do {
       steps \<leftarrow> put_at steps len (pwm_values s ! i);
       Some (steps, len + 1)
     } else Some (steps, len)
   }"

text \<open>The loop that turns times into distances, from the last step down to the first.\<close>

primrec prep_differences :: "u32 list \<Rightarrow> nat \<Rightarrow> u32 list" where
  "prep_differences a 0 = a"
| "prep_differences a (Suc i) = prep_differences (a[Suc i := a ! Suc i - a ! i]) i"

text \<open>
  The two local arrays are not initialised; no element is read before it is written, and they
  start as zeros here.
\<close>

definition prep_pwm_steps :: "pwm \<Rightarrow> pwm option" where
  "prep_pwm_steps s =
     (if pwm_mask s = 0 then Some (s\<lparr>pwm_steps_len := 0\<rparr>)
      else do {
        (steps, len) \<leftarrow> fold (prep_collect s) [0..<32] (Some (replicate 32 0, 0));
        steps \<leftarrow> put_at steps len (pwm_range s);
        (steps, bl) \<leftarrow> pwm_sort_array steps (len + 1);
        let len = bl - 1;
        let masks = map (\<lambda>i. pwm_get_mask (steps ! i) s) [0..<len];
        let steps = prep_differences steps len;
        if pwm_range s * pwm_freq s = 0 then None
        else Some (s\<lparr>pwm_steps_len := len,
          pwm_steps := take (len + 1) steps @ drop (len + 1) (pwm_steps s),
          pwm_steps_mask := masks @ drop len (pwm_steps_mask s),
          pwm_multiplier := 80000000 div (pwm_range s * pwm_freq s)\<rparr>)
      })"

subsection \<open>The timer interrupt\<close>

definition pwm_timer_isr :: "pwm \<Rightarrow> pwm option" where
  "pwm_timer_isr s =
     (if isr_current_step s < isr_stepcount s then do {
        st \<leftarrow> get_at (pwm_steps s) (isr_current_step s + 1);
        m \<leftarrow> get_at (isr_masks s) (isr_current_step s);
        Some ((on_io (wr GPOC0 m \<circ> set_bits T1C (push_bit 7 1) \<circ> wr T1I 0 \<circ> wr T1L (st * pwm_multiplier s)) s)
          \<lparr>isr_current_step := isr_current_step s + 1\<rparr>)
      } else
        (let s = s\<lparr>isr_current_step := 0, isr_stepcount := 0\<rparr>
         in if pwm_mask s = 0 then Some s
            else do {
              st \<leftarrow> get_at (pwm_steps s) 0;
              let s = on_io (wr GPOS0 (pwm_mask s) \<circ> set_bits T1C (push_bit 7 1) \<circ> wr T1I 0 \<circ> wr T1L (st * pwm_multiplier s)) s;
              Some (s\<lparr>isr_stepcount := pwm_steps_len s,
                isr_steps := take (pwm_steps_len s + 1) (pwm_steps s) @ drop (pwm_steps_len s + 1) (isr_steps s),
                isr_masks := take (pwm_steps_len s) (pwm_steps_mask s) @ drop (pwm_steps_len s) (isr_masks s)\<rparr>)
            }))"

definition timer1_isr_handler :: "pwm \<Rightarrow> pwm option" where
  "timer1_isr_handler s =
     (let s = (if regs (pwm_io s) T1C AND push_bit 6 1 = 0 then on_io (clear_bits T1C (push_bit 7 1)) s else s);
          s = on_io (wr T1I 0) s
      in if timer1_user_cb s then pwm_timer_isr s else Some s)"

subsection \<open>The interface\<close>

definition timer1_attachInterrupt :: "bool \<Rightarrow> pwm \<Rightarrow> pwm" where
  "timer1_attachInterrupt userFunc s = s\<lparr>timer1_user_cb := userFunc\<rparr>"

definition timer1_detachInterrupt :: "pwm \<Rightarrow> pwm" where
  "timer1_detachInterrupt s = s\<lparr>timer1_user_cb := False\<rparr>"

definition pwm_start_timer :: "pwm \<Rightarrow> pwm" where
  "pwm_start_timer s =
     on_io (timer1_write 1 \<circ> timer1_enable 0 0 0) (timer1_attachInterrupt True (on_io timer1_disable s))"

text \<open>The part of \<open>__analogWrite\<close> that takes a pin into the set of active ones.\<close>

definition pwm_activate :: "nat \<Rightarrow> pwm \<Rightarrow> pwm" where
  "pwm_activate pin s =
     (if pwm_mask s AND push_bit pin 1 = 0
      then on_io (digitalWrite pin LOW \<circ> pinMode pin OUTPUT) (s\<lparr>pwm_mask := pwm_mask s OR push_bit pin 1\<rparr>)
      else s)"

definition analogWrite :: "nat \<Rightarrow> u32 \<Rightarrow> pwm \<Rightarrow> pwm option" where
  "analogWrite pin value s =
     (if pin \<ge> 32 then None
      else if value = 0 then do {
        s \<leftarrow> prep_pwm_steps (s\<lparr>pwm_mask := pwm_mask s AND NOT (push_bit pin 1)\<rparr>);
        let s = on_io (digitalWrite pin LOW) s;
        Some (if pwm_mask s = 0 then on_io timer1_disable s else s)
      } else
        (let start_timer = (pwm_mask s AND push_bit pin 1 = 0 \<and> pwm_mask s = 0);
             s = pwm_activate pin s
         in if pwm_range s + 1 = 0 then None
            else do {
              s \<leftarrow> prep_pwm_steps (s\<lparr>pwm_values := (pwm_values s)[pin := value mod (pwm_range s + 1)]\<rparr>);
              Some (if start_timer then pwm_start_timer s else s)
            }))"

definition analogWriteFreq :: "u32 \<Rightarrow> pwm \<Rightarrow> pwm option" where
  "analogWriteFreq freq s = prep_pwm_steps (s\<lparr>pwm_freq := freq\<rparr>)"

definition analogWriteRange :: "u32 \<Rightarrow> pwm \<Rightarrow> pwm option" where
  "analogWriteRange rng s = prep_pwm_steps (s\<lparr>pwm_range := rng\<rparr>)"

subsection \<open>Sorting is correct\<close>

lemma insort_before: "tmp \<le> x \<Longrightarrow> insort tmp (xs @ [x]) = insort tmp xs @ [x]"
  by (induction xs) auto

lemma insort_after:
  fixes xs :: "u32 list"
  assumes "sorted xs" "\<forall>y \<in> set xs. y \<le> tmp"
  shows "insort tmp xs = xs @ [tmp]"
proof -
  have "sort (tmp # xs) = xs @ [tmp]"
    using assms by (intro properties_for_sort) (auto simp: sorted_append)
  then show ?thesis using assms(1) by (simp add: sorted_sort_id)
qed

lemma sort_shift_insort:
  assumes "j < length a" "sorted (take j a)"
  shows "\<exists>a' j'. sort_shift a tmp j = Some (a', j') \<and> j' < length a' \<and> a'[j' := tmp] = insort tmp (take j a) @ drop (Suc j) a"
  using assms
proof (induction a tmp j rule: sort_shift.induct)
  case (1 a tmp)
  then show ?case by (cases a) auto
next
  case (2 a tmp j)
  let ?x = "a ! j"
  have take: "take (Suc j) a = take j a @ [?x]" using 2(2) by (simp add: take_Suc_conv_app_nth)
  show ?case
  proof (cases "tmp < ?x")
    case True
    let ?a = "a[Suc j := ?x]"
    have "drop (Suc j) ?a = ?x # drop (Suc (Suc j)) a"
      using 2(2) by (metis Cons_nth_drop_Suc drop_update_cancel length_list_update lessI nth_list_update_eq)
    moreover have "sorted (take j ?a)" using 2(3) unfolding take by (simp add: sorted_append)
    ultimately show ?thesis
      using 2(1) [of ?x ?a] 2(2) True by (auto simp: get_at_def put_at_def take insort_before)
  next
    case False
    then have "insort tmp (take (Suc j) a) = take (Suc j) a @ [tmp]"
      using 2(3) unfolding take by (intro insort_after) (auto simp: sorted_append)
    then show ?thesis using False 2(2) by (simp add: get_at_def upd_conv_take_nth_drop)
  qed
qed

lemma sort_insert_step:
  assumes "i < length a" "sorted (take i a)"
  shows "sort_insert i (Some a) = Some (insort (a ! i) (take i a) @ drop (Suc i) a)"
  using assms sort_shift_insort [OF assms, of "a ! i"] by (auto simp: sort_insert_def get_at_def put_at_def)

lemma sort_inserts:
  assumes "n \<le> length a" "0 < n"
  shows "fold sort_insert [1..<n] (Some a) = Some (sort (take n a) @ drop n a)"
  using assms(2,1)
proof (induction n rule: nat_induct_non_zero)
  case 1
  then show ?case by (cases a) auto
next
  case (Suc n)
  let ?a = "sort (take n a) @ drop n a"
  have nth: "?a ! n = a ! n" using Suc.prems by (simp add: nth_append)
  have "sort_insert n (Some ?a) = Some (insort (a ! n) (sort (take n a)) @ drop (Suc n) a)"
    using sort_insert_step [of n ?a] Suc.prems by (simp add: nth)
  moreover have "sort (take (Suc n) a) = insort (a ! n) (sort (take n a))"
    using Suc.prems by (intro properties_for_sort) (simp_all add: take_Suc_conv_app_nth sorted_insort)
  ultimately show ?case using Suc by simp
qed

text \<open>Removing repetitions in place: what lies ahead of the cursor is still untouched.\<close>

lemma dedup_steps:
  assumes "n \<le> length a" "0 < n"
  shows "\<exists>b bl. fold sort_dedup [1..<n] (Some (a, 1)) = Some (b, bl) \<and> length b = length a \<and>
      take bl b = remdups_adj (take n a) \<and> 0 < bl \<and> bl \<le> n \<and> drop (n - 1) b = drop (n - 1) a"
  using assms(2,1)
proof (induction n rule: nat_induct_non_zero)
  case 1
  then show ?case by (cases a) auto
next
  case (Suc n)
  then obtain b bl where IH: "fold sort_dedup [1..<n] (Some (a, 1)) = Some (b, bl)" "length b = length a"
    "take bl b = remdups_adj (take n a)" "0 < bl" "bl \<le> n" "drop (n - 1) b = drop (n - 1) a" by auto
  have at: "b ! k = a ! k" if "n - 1 \<le> k" "k < length a" for k
  proof -
    have "drop (n - 1) b ! (k - (n - 1)) = drop (n - 1) a ! (k - (n - 1))" by (simp only: IH(6))
    then show ?thesis using that IH(2) by simp
  qed
  obtain m where n: "n = Suc m" using Suc.hyps by (cases n) auto
  have "remdups_adj (take (Suc n) a) = remdups_adj (take n a) @ (if a ! (n - 1) = a ! n then [] else [a ! n])"
    using Suc.prems by (simp add: n take_Suc_conv_app_nth remdups_adj_append_two)
  moreover have "drop n (b[bl := a ! n]) = drop n a" if "bl \<le> n"
  proof (rule nth_equalityI)
    show "drop n (b[bl := a ! n]) ! k = drop n a ! k" if "k < length (drop n (b[bl := a ! n]))" for k
      using that at [of "n + k"] IH(2) by (cases "n + k = bl") (use \<open>bl \<le> n\<close> in auto)
  qed (simp add: IH(2))
  moreover have "drop n b = drop n a" using at IH(2) by (intro nth_equalityI) auto
  moreover have "take (Suc bl) (b[bl := a ! n]) = take bl b @ [a ! n]"
    using IH(2,5) Suc.prems by (simp add: take_Suc_conv_app_nth)
  moreover have "sort_dedup n (Some (b, bl)) = Some (if a ! (n - 1) = a ! n then (b, bl) else (b[bl := a ! n], bl + 1))"
    using IH Suc.prems at [of n] at [of "n - 1"] by (simp add: sort_dedup_def get_at_def put_at_def)
  ultimately show ?case
    using IH Suc.hyps Suc.prems by (cases "a ! (n - 1) = a ! n") auto
qed

lemma sorted_distinct_remdups_adj: "sorted (xs :: u32 list) \<Longrightarrow> distinct (remdups_adj xs)"
  by (induction xs rule: remdups_adj.induct) (auto simp: order_le_less)

lemma pwm_sort_array_sorts:
  assumes "al \<le> length a" "0 < al"
  shows "\<exists>b bl. pwm_sort_array a al = Some (b, bl) \<and> length b = length a \<and>
    take bl b = sorted_list_of_set (set (take al a)) \<and> 0 < bl \<and> bl \<le> al"
proof -
  let ?a = "sort (take al a) @ drop al a"
  have "al \<le> length ?a" using assms(1) by simp
  from dedup_steps [OF this assms(2)] obtain b bl where b:
    "fold sort_dedup [1..<al] (Some (?a, 1)) = Some (b, bl)" "length b = length ?a"
    "take bl b = remdups_adj (take al ?a)" "0 < bl" "bl \<le> al" by auto
  have "remdups_adj (sort (take al a)) = sorted_list_of_set (set (take al a))"
    using sorted_list_of_set.idem_if_sorted_distinct [of "remdups_adj (sort (take al a))"]
    by (simp add: sorted_distinct_remdups_adj)
  then show ?thesis
    using b assms(1) sort_inserts [OF assms] unfolding pwm_sort_array_def by (simp add: min_absorb2)
qed

subsection \<open>The tables of a period\<close>

text \<open>The active pins, and the times at which something happens.\<close>

definition active :: "pwm \<Rightarrow> nat \<Rightarrow> bool" where
  "active s i \<longleftrightarrow> i < 32 \<and> bit (pwm_mask s) i"

definition duties :: "pwm \<Rightarrow> u32 set" where
  "duties s = {pwm_values s ! i |i. active s i \<and> pwm_values s ! i \<noteq> 0}"

lemma mask_test: "i < 32 \<Longrightarrow> pwm_mask s AND push_bit i 1 \<noteq> 0 \<longleftrightarrow> active s i"
  by (simp add: active_def and_exp_eq_0_iff_not_bit)

lemma pwm_get_mask_bits: "bit (pwm_get_mask v s) i \<longleftrightarrow> active s i \<and> pwm_values s ! i = v"
proof -
  have "bit (fold (\<lambda>i mask. if pwm_mask s AND push_bit i 1 \<noteq> 0 \<and> pwm_values s ! i = v then mask OR push_bit i 1 else mask) [0..<n] (0 :: u32)) i
      \<longleftrightarrow> i < n \<and> active s i \<and> pwm_values s ! i = v" if "n \<le> 32" for n
    using that
  proof (induction n)
    case (Suc n)
    then show ?case using mask_test [of n s] by (auto simp: bit_simps less_Suc_eq active_def)
  qed simp
  from this [OF order_refl] show ?thesis unfolding pwm_get_mask_def by (simp add: active_def)
qed

lemma collect_steps:
  assumes "length (pwm_values s) = 32" "n \<le> 32"
  shows "\<exists>steps. fold (prep_collect s) [0..<n] (Some (replicate 32 0, 0)) =
      Some (steps, length (filter (\<lambda>i. active s i \<and> pwm_values s ! i \<noteq> 0) [0..<n])) \<and> length steps = 32 \<and>
    take (length (filter (\<lambda>i. active s i \<and> pwm_values s ! i \<noteq> 0) [0..<n])) steps =
      map ((!) (pwm_values s)) (filter (\<lambda>i. active s i \<and> pwm_values s ! i \<noteq> 0) [0..<n])"
  using assms(2)
proof (induction n)
  case (Suc n)
  let ?f = "filter (\<lambda>i. active s i \<and> pwm_values s ! i \<noteq> 0)"
  obtain steps where IH: "fold (prep_collect s) [0..<n] (Some (replicate 32 0, 0)) = Some (steps, length (?f [0..<n]))"
    "length steps = 32" "take (length (?f [0..<n])) steps = map ((!) (pwm_values s)) (?f [0..<n])" using Suc by auto
  have "length (?f [0..<n]) \<le> n" by (rule order_trans [OF length_filter_le]) simp
  then have "length (?f [0..<n]) < 32" using Suc.prems by simp
  then have "prep_collect s n (Some (steps, length (?f [0..<n]))) =
      Some (if active s n \<and> pwm_values s ! n \<noteq> 0 then (steps[length (?f [0..<n]) := pwm_values s ! n], Suc (length (?f [0..<n])))
        else (steps, length (?f [0..<n])))"
    using Suc.prems IH(2) mask_test [of n s] by (simp add: prep_collect_def put_at_def)
  then show ?case
    using IH \<open>length (?f [0..<n]) < 32\<close>
    by (cases "active s n \<and> pwm_values s ! n \<noteq> 0") (auto simp: take_Suc_conv_app_nth)
qed simp

text \<open>The distances between the times, and their sums.\<close>

lemma differences_nth:
  "n < length a \<Longrightarrow> length (prep_differences a n) = length a \<and>
     (\<forall>k < length a. prep_differences a n ! k = (if 0 < k \<and> k \<le> n then a ! k - a ! (k - 1) else a ! k))"
proof (induction n arbitrary: a)
  case (Suc n)
  let ?a = "a[Suc n := a ! Suc n - a ! n]"
  have "length (prep_differences ?a n) = length ?a \<and>
     (\<forall>k < length ?a. prep_differences ?a n ! k = (if 0 < k \<and> k \<le> n then ?a ! k - ?a ! (k - 1) else ?a ! k))"
    using Suc.prems by (intro Suc.IH) simp
  then show ?case using Suc.prems by (auto simp: nth_list_update le_Suc_eq)
qed simp

definition switch_times :: "pwm \<Rightarrow> u32 list" where
  "switch_times s = sorted_list_of_set (insert (pwm_range s) (duties s))"

text \<open>Tables that fit the values: what \<open>prep_pwm_steps\<close> leaves and the interrupt relies on.\<close>

definition tables_ok :: "pwm \<Rightarrow> bool" where
  "tables_ok s \<longleftrightarrow>
     length (pwm_steps s) = 32 \<and> length (pwm_steps_mask s) = 32 \<and> length (isr_masks s) = 32 \<and>
     pwm_steps_len s + 1 = length (switch_times s) \<and> pwm_steps_len s < 32 \<and>
     (\<forall>k \<le> pwm_steps_len s. pwm_steps s ! k = (if k = 0 then switch_times s ! 0 else switch_times s ! k - switch_times s ! (k - 1))) \<and>
     (\<forall>k < pwm_steps_len s. pwm_steps_mask s ! k = pwm_get_mask (switch_times s ! k) s) \<and>
     pwm_multiplier s = 80000000 div (pwm_range s * pwm_freq s)"

definition arrays_ok :: "pwm \<Rightarrow> bool" where
  "arrays_ok s \<longleftrightarrow> length (pwm_values s) = 32 \<and> length (pwm_steps s) = 32 \<and> length (pwm_steps_mask s) = 32 \<and>
     length (isr_steps s) = 32 \<and> length (isr_masks s) = 32"

lemma prep_collects:
  assumes "length (pwm_values s) = 32"
  defines "n \<equiv> card {i. active s i \<and> pwm_values s ! i \<noteq> 0}"
  shows "\<exists>steps. fold (prep_collect s) [0..<32] (Some (replicate 32 0, 0)) = Some (steps, n) \<and> length steps = 32 \<and>
    set (take n steps) = duties s \<and> n \<le> 32"
proof -
  define F where "F = filter (\<lambda>i. active s i \<and> pwm_values s ! i \<noteq> 0) [0..<32]"
  obtain steps where steps: "fold (prep_collect s) [0..<32] (Some (replicate 32 0, 0)) = Some (steps, length F)"
      "length steps = 32" "take (length F) steps = map ((!) (pwm_values s)) F"
    using collect_steps [OF assms(1) order_refl] unfolding F_def [symmetric] by blast
  have F: "set F = {i. active s i \<and> pwm_values s ! i \<noteq> 0}" "distinct F"
    unfolding F_def set_filter set_upt by (auto simp: active_def)
  have n: "length F = n" using distinct_card [OF F(2)] by (simp add: n_def F(1))
  have "length F \<le> length [0..<32]" unfolding F_def by (rule length_filter_le)
  then have "n \<le> 32" unfolding n length_upt by simp
  moreover have "set (take n steps) = duties s" using steps(3) by (auto simp: n duties_def F(1))
  ultimately show ?thesis using steps(1,2) n by blast
qed

lemma switch_times_after:
  assumes "pwm_mask s' = pwm_mask s" "pwm_values s' = pwm_values s" "pwm_range s' = pwm_range s"
  shows "switch_times s' = switch_times s" "pwm_get_mask v s' = pwm_get_mask v s"
  using assms by (simp_all add: switch_times_def duties_def active_def pwm_get_mask_def)

text \<open>Nothing but the tables changes.\<close>

definition same_request :: "pwm \<Rightarrow> pwm \<Rightarrow> bool" where
  "same_request s s' \<longleftrightarrow> pwm_mask s' = pwm_mask s \<and> pwm_values s' = pwm_values s \<and> pwm_range s' = pwm_range s \<and>
     pwm_freq s' = pwm_freq s \<and> isr_current_step s' = isr_current_step s \<and> isr_stepcount s' = isr_stepcount s \<and>
     isr_masks s' = isr_masks s \<and> pwm_io s' = pwm_io s \<and> timer1_user_cb s' = timer1_user_cb s"

lemma prep_tables:
  assumes ok: "arrays_ok s" and on: "pwm_mask s \<noteq> 0" and room: "card {i. active s i \<and> pwm_values s ! i \<noteq> 0} < 32"
    and freq: "pwm_range s * pwm_freq s \<noteq> 0"
  shows "\<exists>s'. prep_pwm_steps s = Some s' \<and> arrays_ok s' \<and> tables_ok s' \<and> same_request s s'"
proof -
  define n where "n = card {i. active s i \<and> pwm_values s ! i \<noteq> 0}"
  obtain steps where steps: "fold (prep_collect s) [0..<32] (Some (replicate 32 0, 0)) = Some (steps, n)"
      "length steps = 32" "set (take n steps) = duties s"
    using prep_collects [of s] ok by (auto simp: arrays_ok_def n_def)
  have n: "n < 32" using room by (simp add: n_def)
  let ?a = "steps[n := pwm_range s]"
  have put: "put_at steps n (pwm_range s) = Some ?a" using n steps(2) by (simp add: put_at_def)
  have "set (take (n + 1) ?a) = insert (pwm_range s) (duties s)"
    using n steps(2,3) by (auto simp: take_Suc_conv_app_nth)
  then obtain b bl where b: "pwm_sort_array ?a (n + 1) = Some (b, bl)" "length b = 32" "take bl b = switch_times s" "0 < bl" "bl \<le> n + 1"
    using pwm_sort_array_sorts [of "n + 1" ?a] n steps(2) by (auto simp: switch_times_def)
  have len: "length (switch_times s) = bl" using b(2-5) n by (simp flip: b(3))
  have nth: "b ! k = switch_times s ! k" if "k < bl" for k using that by (simp flip: b(3))
  let ?m = "map (\<lambda>i. pwm_get_mask (b ! i) s) [0..<bl - 1]"
  let ?d = "prep_differences b (bl - 1)"
  have d: "length ?d = 32" "\<And>k. k < bl \<Longrightarrow> ?d ! k = (if k = 0 then switch_times s ! 0 else switch_times s ! k - switch_times s ! (k - 1))"
    using differences_nth [of "bl - 1" b] b(2,4,5) n nth by auto
  let ?s' = "s\<lparr>pwm_steps_len := bl - 1, pwm_steps := take bl ?d @ drop bl (pwm_steps s),
      pwm_steps_mask := ?m @ drop (bl - 1) (pwm_steps_mask s), pwm_multiplier := 80000000 div (pwm_range s * pwm_freq s)\<rparr>"
  have "prep_pwm_steps s = Some ?s'"
    using on freq b(1,4) by (simp add: prep_pwm_steps_def steps(1) put Let_def)
  moreover have "arrays_ok ?s'" "same_request s ?s'"
    using ok d(1) b(5) n by (auto simp: arrays_ok_def same_request_def)
  moreover have "tables_ok ?s'"
  proof -
    have "pwm_steps ?s' ! k = ?d ! k" if "k < bl" for k using that d(1) b(5) n by (simp add: nth_append)
    moreover have "pwm_steps_mask ?s' ! k = pwm_get_mask (switch_times s ! k) s" if "k < bl - 1" for k
      using that nth [of k] by (simp add: nth_append)
    moreover have "switch_times ?s' = switch_times s" "pwm_get_mask v ?s' = pwm_get_mask v s" for v
      using switch_times_after [of ?s' s] by simp_all
    ultimately show ?thesis
      using ok d b(4,5) n len by (simp add: tables_ok_def arrays_ok_def)
  qed
  ultimately show ?thesis by blast
qed

lemma prep_overflow:
  assumes "arrays_ok s" "pwm_mask s \<noteq> 0" "card {i. active s i \<and> pwm_values s ! i \<noteq> 0} = 32"
  shows "prep_pwm_steps s = None"
  using prep_collects [of s] assms by (auto simp: prep_pwm_steps_def arrays_ok_def put_at_def)

subsection \<open>A period of the timer\<close>

text \<open>The states after each of a number of timer interrupts.\<close>

primrec isr_states :: "nat \<Rightarrow> pwm \<Rightarrow> pwm list option" where
  "isr_states 0 s = Some []"
| "isr_states (Suc n) s = do {
     ss \<leftarrow> isr_states n s;
     s' \<leftarrow> timer1_isr_handler (if ss = [] then s else last ss);
     Some (ss @ [s'])
   }"

text \<open>The state after the interrupt number \<open>k\<close> of a period that serves the request of \<open>s0\<close>.\<close>

definition serves :: "pwm \<Rightarrow> nat \<Rightarrow> pwm \<Rightarrow> bool" where
  "serves s0 k s \<longleftrightarrow>
     pwm_mask s = pwm_mask s0 \<and> pwm_values s = pwm_values s0 \<and> pwm_range s = pwm_range s0 \<and> pwm_freq s = pwm_freq s0 \<and>
     pwm_steps s = pwm_steps s0 \<and> pwm_steps_len s = pwm_steps_len s0 \<and> pwm_steps_mask s = pwm_steps_mask s0 \<and>
     pwm_multiplier s = pwm_multiplier s0 \<and> timer1_user_cb s = timer1_user_cb s0 \<and>
     isr_current_step s = k \<and> isr_stepcount s = pwm_steps_len s0 \<and>
     length (isr_masks s) = 32 \<and> (\<forall>j < pwm_steps_len s0. isr_masks s ! j = pwm_steps_mask s0 ! j) \<and>
     regs (pwm_io s) T1L = pwm_steps s0 ! k * pwm_multiplier s0 \<and>
     (\<forall>p. out (events (pwm_io s)) p \<longleftrightarrow>
        (active s0 p \<or> out (events (pwm_io s0)) p) \<and> \<not> (\<exists>j < k. active s0 p \<and> pwm_values s0 ! p = switch_times s0 ! j))"

text \<open>Registers other than the output registers do not move a pin.\<close>

lemma out_timer [simp]:
  "out (events (wr T1L v s)) = out (events s)" "out (events (wr T1I v s)) = out (events s)" "out (events (wr T1C v s)) = out (events s)"
  "out (events (set_bits T1C v s)) = out (events s)" "out (events (clear_bits T1C v s)) = out (events s)"
  by (simp_all add: set_bits_def clear_bits_def)

lemma handler_isr:
  assumes "timer1_user_cb s"
  shows "\<exists>io'. timer1_isr_handler s = pwm_timer_isr (s\<lparr>pwm_io := io'\<rparr>) \<and> out (events io') = out (events (pwm_io s))"
proof (cases "regs (pwm_io s) T1C AND push_bit 6 1 = 0")
  case True
  then show ?thesis using assms
    by (intro exI [of _ "wr T1I 0 (clear_bits T1C (push_bit 7 1) (pwm_io s))"]) (simp add: timer1_isr_handler_def on_io_def)
next
  case False
  then show ?thesis using assms
    by (intro exI [of _ "wr T1I 0 (pwm_io s)"]) (simp add: timer1_isr_handler_def on_io_def)
qed

lemma isr_start:
  assumes "isr_stepcount s \<le> isr_current_step s" "pwm_mask s \<noteq> 0" "length (pwm_steps s) = 32"
  shows "pwm_timer_isr s = Some
    (s\<lparr>isr_current_step := 0, isr_stepcount := pwm_steps_len s,
       isr_steps := take (pwm_steps_len s + 1) (pwm_steps s) @ drop (pwm_steps_len s + 1) (isr_steps s),
       isr_masks := take (pwm_steps_len s) (pwm_steps_mask s) @ drop (pwm_steps_len s) (isr_masks s),
       pwm_io := wr GPOS0 (pwm_mask s) (set_bits T1C (push_bit 7 1) (wr T1I 0 (wr T1L (pwm_steps s ! 0 * pwm_multiplier s) (pwm_io s))))\<rparr>)"
  using assms by (simp add: pwm_timer_isr_def get_at_def on_io_def Let_def)

lemma isr_step:
  assumes "isr_current_step s < isr_stepcount s" "isr_stepcount s < 32" "length (pwm_steps s) = 32" "length (isr_masks s) = 32"
  shows "pwm_timer_isr s = Some
    (s\<lparr>isr_current_step := Suc (isr_current_step s),
       pwm_io := wr GPOC0 (isr_masks s ! isr_current_step s) (set_bits T1C (push_bit 7 1) (wr T1I 0
         (wr T1L (pwm_steps s ! Suc (isr_current_step s) * pwm_multiplier s) (pwm_io s))))\<rparr>)"
  using assms by (simp add: pwm_timer_isr_def get_at_def on_io_def)

lemma isr_first:
  assumes "tables_ok s0" "pwm_mask s0 \<noteq> 0" "timer1_user_cb s0" "isr_stepcount s0 \<le> isr_current_step s0"
  shows "\<exists>s. timer1_isr_handler s0 = Some s \<and> serves s0 0 s"
proof -
  obtain io' where io': "timer1_isr_handler s0 = pwm_timer_isr (s0\<lparr>pwm_io := io'\<rparr>)" "out (events io') = out (events (pwm_io s0))"
    using handler_isr [OF assms(3)] by blast
  have len: "length (pwm_steps s0) = 32" "length (pwm_steps_mask s0) = 32" "length (isr_masks s0) = 32" "pwm_steps_len s0 < 32"
    using assms(1) by (simp_all add: tables_ok_def)
  have "hits 0 32 (pwm_mask s0) p \<longleftrightarrow> active s0 p" for p by (simp add: hits_def active_def)
  then show ?thesis
    unfolding io'(1) using assms(2,4) len
    by (subst isr_start) (simp_all add: serves_def io'(2) nth_append set_bits_def)
qed

lemma isr_next:
  assumes "tables_ok s0" "timer1_user_cb s0" "serves s0 k s" "k < pwm_steps_len s0"
  shows "\<exists>s'. timer1_isr_handler s = Some s' \<and> serves s0 (Suc k) s'"
proof -
  note s = assms(3) [unfolded serves_def]
  have "timer1_user_cb s" using assms(2) s by simp
  then obtain io' where io': "timer1_isr_handler s = pwm_timer_isr (s\<lparr>pwm_io := io'\<rparr>)" "out (events io') = out (events (pwm_io s))"
    using handler_isr by blast
  have len: "length (pwm_steps s0) = 32" "pwm_steps_len s0 < 32" using assms(1) by (simp_all add: tables_ok_def)
  have "pwm_steps_mask s0 ! k = pwm_get_mask (switch_times s0 ! k) s0" using assms(1,4) by (simp add: tables_ok_def)
  then have hit: "hits 0 32 (pwm_steps_mask s0 ! k) p \<longleftrightarrow> active s0 p \<and> pwm_values s0 ! p = switch_times s0 ! k" for p
    by (auto simp: hits_def pwm_get_mask_bits active_def)
  show ?thesis
    unfolding io'(1) using s assms(4) len
    by (subst isr_step) (simp_all add: serves_def io'(2) set_bits_def, auto simp: hit less_Suc_eq)
qed

lemma period_states:
  assumes "tables_ok s0" "pwm_mask s0 \<noteq> 0" "timer1_user_cb s0" "isr_stepcount s0 \<le> isr_current_step s0" "n \<le> pwm_steps_len s0"
  shows "\<exists>ss. isr_states (Suc n) s0 = Some ss \<and> length ss = Suc n \<and> (\<forall>k \<le> n. serves s0 k (ss ! k))"
  using assms(5)
proof (induction n)
  case 0
  then show ?case using isr_first [OF assms(1-4)] by auto
next
  case (Suc n)
  then obtain ss where ss: "isr_states (Suc n) s0 = Some ss" "length ss = Suc n" "\<forall>k \<le> n. serves s0 k (ss ! k)" by auto
  then have "ss \<noteq> []" by auto
  then have "last ss = ss ! n" using ss(2) by (simp add: last_conv_nth)
  then obtain s' where "timer1_isr_handler (last ss) = Some s'" "serves s0 (Suc n) s'"
    using isr_next [OF assms(1,3), of n "ss ! n"] ss(3) Suc.prems by auto
  then show ?case unfolding isr_states.simps(2) [of "Suc n"] using ss \<open>ss \<noteq> []\<close>
    by (auto simp: nth_append le_Suc_eq simp del: isr_states.simps)
qed

subsection \<open>Time\<close>

lemma finite_duties [simp]: "finite (duties s)"
proof -
  have "duties s \<subseteq> (!) (pwm_values s) ` {..<32}" by (auto simp: duties_def active_def)
  then show ?thesis by (rule finite_subset) simp
qed

lemma switch_times_props:
  shows "set (switch_times s) = insert (pwm_range s) (duties s)"
    "i < j \<Longrightarrow> j < length (switch_times s) \<Longrightarrow> switch_times s ! i < switch_times s ! j"
proof -
  show "set (switch_times s) = insert (pwm_range s) (duties s)"
    unfolding switch_times_def by (rule sorted_list_of_set.set_sorted_key_list_of_set) simp_all
  have "sorted_wrt (<) (switch_times s)" unfolding switch_times_def by (rule strict_sorted_list_of_set)
  then show "i < j \<Longrightarrow> j < length (switch_times s) \<Longrightarrow> switch_times s ! i < switch_times s ! j"
    by (rule sorted_wrt_nth_less)
qed

lemma last_switch:
  assumes "\<forall>v \<in> duties s. v \<le> pwm_range s" "n + 1 = length (switch_times s)"
  shows "switch_times s ! n = pwm_range s"
proof -
  have "switch_times s ! n \<in> set (switch_times s)" using assms(2) by simp
  then have le: "switch_times s ! n \<le> pwm_range s" using assms(1) unfolding switch_times_props(1) by auto
  obtain i where i: "i < length (switch_times s)" "switch_times s ! i = pwm_range s"
    using switch_times_props(1) [of s] by (metis in_set_conv_nth insertI1)
  show ?thesis
  proof (cases "i = n")
    case False
    then have "switch_times s ! i < switch_times s ! n" using i(1) assms(2) by (intro switch_times_props(2)) auto
    then show ?thesis using le i(2) by simp
  qed (use i in simp)
qed

text \<open>Without overflow, the loads add up to the times.\<close>

definition no_overflow :: "pwm \<Rightarrow> bool" where
  "no_overflow s \<longleftrightarrow> (\<forall>v \<in> duties s. v \<le> pwm_range s) \<and> unat (pwm_range s) * unat (pwm_multiplier s) < 2 ^ 32"

lemma switch_bound:
  assumes "no_overflow s" "k < length (switch_times s)"
  shows "unat (switch_times s ! k) * unat (pwm_multiplier s) < 2 ^ 32"
proof -
  have "switch_times s ! k \<in> set (switch_times s)" using assms(2) by simp
  then have "unat (switch_times s ! k) \<le> unat (pwm_range s)"
    using assms(1) unfolding switch_times_props(1) by (auto simp: no_overflow_def word_le_nat_alt)
  then show ?thesis using assms(1) by (meson le_less_trans mult_le_mono1 no_overflow_def)
qed

lemma load_step:
  assumes "no_overflow s" "Suc k < length (switch_times s)"
  shows "unat ((switch_times s ! Suc k - switch_times s ! k) * pwm_multiplier s) =
    unat (switch_times s ! Suc k) * unat (pwm_multiplier s) - unat (switch_times s ! k) * unat (pwm_multiplier s)"
proof -
  have lt: "switch_times s ! k < switch_times s ! Suc k" using assms(2) by (intro switch_times_props(2)) simp_all
  have "unat (switch_times s ! Suc k - switch_times s ! k) * unat (pwm_multiplier s) < 2 ^ 32"
    using switch_bound [OF assms] by (simp add: unat_sub [OF less_imp_le [OF lt]] diff_mult_distrib)
  then show ?thesis by (simp add: unat_word_ariths unat_sub [OF less_imp_le [OF lt]] diff_mult_distrib)
qed

lemma loads_sum:
  assumes "tables_ok s" "no_overflow s" "k \<le> pwm_steps_len s"
  shows "(\<Sum>j < Suc k. unat (pwm_steps s ! j * pwm_multiplier s)) = unat (switch_times s ! k) * unat (pwm_multiplier s)"
  using assms(3)
proof (induction k)
  case 0
  have "pwm_steps s ! 0 = switch_times s ! 0" "0 < length (switch_times s)" using assms(1) by (auto simp: tables_ok_def)
  then show ?case using switch_bound [OF assms(2), of 0] by (simp add: unat_word_ariths)
next
  case (Suc k)
  have k: "Suc k < length (switch_times s)" using Suc.prems assms(1) by (simp add: tables_ok_def)
  have "unat (switch_times s ! k) \<le> unat (switch_times s ! Suc k)"
    using switch_times_props(2) [of k "Suc k" s] k by (simp add: word_less_nat_alt)
  then have "unat (switch_times s ! k) * unat (pwm_multiplier s) \<le> unat (switch_times s ! Suc k) * unat (pwm_multiplier s)"
    by (rule mult_le_mono1)
  moreover have "pwm_steps s ! Suc k = switch_times s ! Suc k - switch_times s ! k"
    using Suc.prems assms(1) by (simp add: tables_ok_def)
  ultimately show ?case using Suc load_step [OF assms(2) k] by simp
qed

text \<open>The position of a duty among the times decides when its pin falls.\<close>

lemma elapsed:
  assumes "tables_ok s" "no_overflow s" "k \<le> pwm_steps_len s" "0 < unat (pwm_multiplier s)"
    "i < length (switch_times s)" "switch_times s ! i \<noteq> 0"
  shows "(\<Sum>j < k. unat (pwm_steps s ! j * pwm_multiplier s)) < unat (switch_times s ! i) * unat (pwm_multiplier s) \<longleftrightarrow> k \<le> i"
proof (cases k)
  case 0
  then show ?thesis using assms(4,6) by (simp add: unat_gt_0)
next
  case (Suc l)
  have "unat (switch_times s ! l) < unat (switch_times s ! i) \<longleftrightarrow> l < i"
  proof
    show "l < i \<Longrightarrow> unat (switch_times s ! l) < unat (switch_times s ! i)"
      using switch_times_props(2) [of l i s] assms(5) by (simp add: word_less_nat_alt)
    show "unat (switch_times s ! l) < unat (switch_times s ! i) \<Longrightarrow> l < i"
      using switch_times_props(2) [of i l s] assms(1,3) Suc
      by (cases l i rule: linorder_cases) (auto simp: word_less_nat_alt tables_ok_def)
  qed
  then show ?thesis
    using loads_sum [OF assms(1,2), of l] assms(3,4) Suc by (simp add: Suc_le_eq)
qed

text \<open>Before the interrupt number \<open>k\<close>, a pin has fallen if its duty is one of the earlier times.\<close>

lemma fallen:
  assumes "tables_ok s" "no_overflow s" "0 < unat (pwm_multiplier s)" "k \<le> pwm_steps_len s" "active s p" "pwm_values s ! p \<noteq> 0"
  shows "\<not> (\<exists>j < k. pwm_values s ! p = switch_times s ! j) \<longleftrightarrow>
    (\<Sum>j < k. unat (pwm_steps s ! j * pwm_multiplier s)) < unat (pwm_values s ! p) * unat (pwm_multiplier s)"
proof -
  have "pwm_values s ! p \<in> set (switch_times s)" using assms(5,6) by (auto simp: switch_times_props(1) duties_def)
  then obtain i where i: "i < length (switch_times s)" "switch_times s ! i = pwm_values s ! p" by (auto simp: in_set_conv_nth)
  have "pwm_values s ! p = switch_times s ! j \<longleftrightarrow> j = i" if "j < k" for j
    using that i assms(1,4) switch_times_props(2) [of i j s] switch_times_props(2) [of j i s]
    by (cases i j rule: linorder_cases) (auto simp: tables_ok_def)
  then have "(\<exists>j < k. pwm_values s ! p = switch_times s ! j) \<longleftrightarrow> i < k" by blast
  then have "\<not> (\<exists>j < k. pwm_values s ! p = switch_times s ! j) \<longleftrightarrow> k \<le> i" by auto
  also have "\<dots> \<longleftrightarrow> (\<Sum>j < k. unat (pwm_steps s ! j * pwm_multiplier s)) < unat (switch_times s ! i) * unat (pwm_multiplier s)"
    using elapsed [OF assms(1,2,4,3) i(1)] i(2) assms(6) by simp
  finally show ?thesis by (simp add: i(2))
qed

lemma multiplier_bounds:
  fixes s :: pwm
  assumes "pwm_multiplier s = 80000000 div (pwm_range s * pwm_freq s)"
    "0 < unat (pwm_range s) * unat (pwm_freq s)" "unat (pwm_range s) * unat (pwm_freq s) \<le> 80000000"
  shows "0 < unat (pwm_multiplier s)" "unat (pwm_range s) * unat (pwm_multiplier s) \<le> 80000000"
    "pwm_range s * pwm_freq s \<noteq> 0" "unat (pwm_multiplier s) = 80000000 div (unat (pwm_range s) * unat (pwm_freq s))"
proof -
  let ?p = "unat (pwm_range s) * unat (pwm_freq s)"
  have p: "unat (pwm_range s * pwm_freq s) = ?p" using assms(3) by (simp add: unat_word_ariths)
  then show "pwm_range s * pwm_freq s \<noteq> 0" using assms(2) by (metis less_irrefl unat_0)
  show m: "unat (pwm_multiplier s) = 80000000 div ?p" by (simp only: assms(1) unat_div_distrib p) simp
  then show "0 < unat (pwm_multiplier s)" using assms(2,3) by (simp add: div_greater_zero_iff)
  have "unat (pwm_range s) * (80000000 div ?p) \<le> ?p * (80000000 div ?p)" using assms(2) by simp
  also have "\<dots> \<le> 80000000" by (rule times_div_less_eq_dividend)
  finally show "unat (pwm_range s) * unat (pwm_multiplier s) \<le> 80000000" by (simp add: m)
qed

lemma card_active:
  assumes "\<exists>i < 32. \<not> active s i"
  shows "card {i. active s i \<and> pwm_values s ! i \<noteq> 0} < 32"
proof -
  have "{i. active s i \<and> pwm_values s ! i \<noteq> 0} \<subset> {..<32}" using assms by (auto simp: active_def)
  then have "card {i. active s i \<and> pwm_values s ! i \<noteq> 0} < card {..<32 :: nat}" by (intro psubset_card_mono) simp_all
  then show ?thesis by simp
qed

text \<open>One period over tables that fit.\<close>

lemma period_ok:
  assumes "tables_ok s1" "no_overflow s1" "0 < unat (pwm_multiplier s1)" "pwm_mask s1 \<noteq> 0" "timer1_user_cb s1"
    "isr_stepcount s1 \<le> isr_current_step s1"
  shows "\<exists>ss. isr_states (Suc (pwm_steps_len s1)) s1 = Some ss \<and> length ss = Suc (pwm_steps_len s1) \<and>
    (let load = (\<lambda>k. unat (regs (pwm_io (ss ! k)) T1L)) in
       (\<Sum>k < Suc (pwm_steps_len s1). load k) = unat (pwm_range s1) * unat (pwm_multiplier s1) \<and>
       (\<forall>k \<le> pwm_steps_len s1. \<forall>p. active s1 p \<and> pwm_values s1 ! p \<noteq> 0 \<longrightarrow>
          (out (events (pwm_io (ss ! k))) p \<longleftrightarrow> (\<Sum>j < k. load j) < unat (pwm_values s1 ! p) * unat (pwm_multiplier s1)))) \<and>
    (\<forall>k \<le> pwm_steps_len s1. serves s1 k (ss ! k))"
proof -
  obtain ss where ss: "isr_states (Suc (pwm_steps_len s1)) s1 = Some ss" "length ss = Suc (pwm_steps_len s1)"
      "\<forall>k \<le> pwm_steps_len s1. serves s1 k (ss ! k)"
    using period_states [OF assms(1,4-6) order_refl] by blast
  have load: "regs (pwm_io (ss ! k)) T1L = pwm_steps s1 ! k * pwm_multiplier s1" if "k \<le> pwm_steps_len s1" for k
    using ss(3) that by (simp add: serves_def)
  have sums: "(\<Sum>j < n. unat (regs (pwm_io (ss ! j)) T1L)) = (\<Sum>j < n. unat (pwm_steps s1 ! j * pwm_multiplier s1))"
    if "n \<le> Suc (pwm_steps_len s1)" for n using that by (intro sum.cong) (auto simp: load)
  have total: "(\<Sum>j < Suc (pwm_steps_len s1). unat (regs (pwm_io (ss ! j)) T1L)) = unat (pwm_range s1) * unat (pwm_multiplier s1)"
    unfolding sums [OF order_refl] loads_sum [OF assms(1,2) order_refl]
    using last_switch [of s1 "pwm_steps_len s1"] assms(1,2) by (simp add: no_overflow_def tables_ok_def)
  have "out (events (pwm_io (ss ! k))) p \<longleftrightarrow>
      (\<Sum>j < k. unat (regs (pwm_io (ss ! j)) T1L)) < unat (pwm_values s1 ! p) * unat (pwm_multiplier s1)"
    if "k \<le> pwm_steps_len s1" "active s1 p" "pwm_values s1 ! p \<noteq> 0" for k p
    using fallen [OF assms(1-3) that] ss(3) that sums [of k] by (simp add: serves_def)
  then show ?thesis using ss total by (auto simp: Let_def)
qed

lemma prep_request:
  assumes "arrays_ok s" "pwm_mask s \<noteq> 0"
    "\<exists>i < 32. \<not> active s i" "\<forall>i. active s i \<longrightarrow> pwm_values s ! i \<le> pwm_range s"
    "0 < unat (pwm_range s) * unat (pwm_freq s)" "unat (pwm_range s) * unat (pwm_freq s) \<le> 80000000"
  shows "\<exists>s1. prep_pwm_steps s = Some s1 \<and> tables_ok s1 \<and> same_request s s1 \<and> no_overflow s1 \<and> 0 < unat (pwm_multiplier s1) \<and>
    unat (pwm_multiplier s1) = 80000000 div (unat (pwm_range s) * unat (pwm_freq s))"
proof -
  have "unat (pwm_range s * pwm_freq s) \<noteq> 0" using assms(5,6) by (simp add: unat_word_ariths)
  then have "pwm_range s * pwm_freq s \<noteq> 0" by auto
  from prep_tables [OF assms(1,2) card_active [OF assms(3)] this]
  obtain s1 where s1: "prep_pwm_steps s = Some s1" "tables_ok s1" "same_request s s1" by blast
  note same = s1(3) [unfolded same_request_def]
  have "pwm_multiplier s1 = 80000000 div (pwm_range s1 * pwm_freq s1)" using s1(2) by (simp add: tables_ok_def)
  from multiplier_bounds [OF this]
  have "0 < unat (pwm_multiplier s1)" "unat (pwm_range s1) * unat (pwm_multiplier s1) \<le> 80000000"
      "unat (pwm_multiplier s1) = 80000000 div (unat (pwm_range s) * unat (pwm_freq s))"
    using assms(5,6) same by simp_all
  moreover have "\<forall>v \<in> duties s1. v \<le> pwm_range s1" using assms(4) same by (auto simp: duties_def active_def)
  ultimately show ?thesis using s1 by (auto simp: no_overflow_def)
qed

subsection \<open>Properties\<close>

text \<open>The ticks a load of the counter lasts: 23 bits of the register.\<close>

definition timer_ticks :: "io \<Rightarrow> nat" where
  "timer_ticks s = unat (take_bit 23 (regs s T1L))"

lemma timer_ticks_sum:
  fixes m n :: nat
  assumes "(\<Sum>k < n. unat (regs (f k) T1L)) < 2 ^ 23" "m \<le> n"
  shows "(\<Sum>k < m. timer_ticks (f k)) = (\<Sum>k < m. unat (regs (f k) T1L))"
proof (rule sum.cong [OF refl])
  fix k assume "k \<in> {..<m}"
  then have "unat (regs (f k) T1L) \<le> (\<Sum>k < n. unat (regs (f k) T1L))" using assms(2) by (intro member_le_sum) auto
  then have "unat (regs (f k) T1L) < 2 ^ 23" using assms(1) by simp
  then show "timer_ticks (f k) = unat (regs (f k) T1L)" by (simp add: timer_ticks_def unsigned_take_bit_eq take_bit_nat_eq_self)
qed

text \<open>
  C23: Take any request with a pin to spare whose duties do not exceed the range, a range times
  frequency of at most 80 million, a period the 23-bit counter can hold (any frequency from 10 Hz up),
  and the timer between two periods. Then the tables are computed without undefined behaviour, with
  the multiplier \<open>M = 80000000 / (range * freq)\<close> rounded down, the ticks of 12.5 ns in a unit of duty. The
  interrupts of one period, each starting the counter for the next distance, make every active pin
  with a duty other than zero high for exactly its duty times \<open>M\<close> ticks from the start of the period,
  for a period of exactly \<open>range * M\<close> ticks; the other pins keep their levels, and the next interrupt
  starts the next period. Because of the rounding the period is up to \<open>range - 1\<close> ticks shorter than the
  \<open>80000000 / freq\<close> asked for: 79872 instead of 80000 for the defaults.
\<close>

theorem pwm_period_correct:
  assumes "arrays_ok s" "pwm_mask s \<noteq> 0" "timer1_user_cb s" "isr_stepcount s \<le> isr_current_step s"
    "\<exists>i < 32. \<not> active s i" "\<forall>i. active s i \<longrightarrow> pwm_values s ! i \<le> pwm_range s"
    "0 < unat (pwm_range s) * unat (pwm_freq s)" "unat (pwm_range s) * unat (pwm_freq s) \<le> 80000000"
    "M = 80000000 div (unat (pwm_range s) * unat (pwm_freq s))" "unat (pwm_range s) * M \<le> 8388607"
  shows "\<exists>s1 ss. prep_pwm_steps s = Some s1 \<and> isr_states (Suc (pwm_steps_len s1)) s1 = Some ss \<and>
    (let ticks = (\<lambda>k. timer_ticks (pwm_io (ss ! k))) in
       length ss = Suc (pwm_steps_len s1) \<and> 0 < M \<and>
       (\<Sum>k < Suc (pwm_steps_len s1). ticks k) = unat (pwm_range s) * M \<and>
       (\<forall>k \<le> pwm_steps_len s1. \<forall>p. active s p \<and> pwm_values s ! p \<noteq> 0 \<longrightarrow>
          (out (events (pwm_io (ss ! k))) p \<longleftrightarrow> (\<Sum>j < k. ticks j) < unat (pwm_values s ! p) * M)) \<and>
       (\<forall>k \<le> pwm_steps_len s1. \<forall>p. \<not> active s p \<longrightarrow> out (events (pwm_io (ss ! k))) p = out (events (pwm_io s)) p) \<and>
       isr_stepcount (last ss) \<le> isr_current_step (last ss))"
proof -
  obtain s1 where s1: "prep_pwm_steps s = Some s1" "tables_ok s1" "same_request s s1" "no_overflow s1" "0 < unat (pwm_multiplier s1)"
    and M: "unat (pwm_multiplier s1) = M"
    using prep_request [OF assms(1,2,5-8)] assms(9) by blast
  note same = s1(3) [unfolded same_request_def]
  have act: "active s1 = active s" using same by (simp add: active_def fun_eq_iff)
  obtain ss where ss: "isr_states (Suc (pwm_steps_len s1)) s1 = Some ss" "length ss = Suc (pwm_steps_len s1)"
      "(\<Sum>k < Suc (pwm_steps_len s1). unat (regs (pwm_io (ss ! k)) T1L)) = unat (pwm_range s) * M"
      "\<forall>k \<le> pwm_steps_len s1. \<forall>p. active s p \<and> pwm_values s ! p \<noteq> 0 \<longrightarrow> (out (events (pwm_io (ss ! k))) p \<longleftrightarrow>
         (\<Sum>j < k. unat (regs (pwm_io (ss ! j)) T1L)) < unat (pwm_values s ! p) * M)"
      "\<forall>k \<le> pwm_steps_len s1. serves s1 k (ss ! k)"
    using period_ok [OF s1(2,4,5)] assms(2-4) same unfolding Let_def act M by auto
  have "(\<Sum>k < Suc (pwm_steps_len s1). unat (regs (pwm_io (ss ! k)) T1L)) < 2 ^ 23" using ss(3) assms(10) by simp
  note ticks = timer_ticks_sum [where f = "\<lambda>k. pwm_io (ss ! k)", OF this]
  have "last ss = ss ! pwm_steps_len s1" using ss(2) by (metis Suc_neq_Zero diff_Suc_1 last_conv_nth list.size(3))
  then have "isr_stepcount (last ss) \<le> isr_current_step (last ss)" using ss(5) by (simp add: serves_def)
  moreover have "\<forall>k \<le> pwm_steps_len s1. \<forall>p. \<not> active s p \<longrightarrow> out (events (pwm_io (ss ! k))) p = out (events (pwm_io s)) p"
    using ss(5) same by (simp add: serves_def act)
  moreover have "(\<Sum>k < Suc (pwm_steps_len s1). timer_ticks (pwm_io (ss ! k))) = unat (pwm_range s) * M"
    using ss(3) ticks [OF order_refl] by simp
  moreover have "\<forall>k \<le> pwm_steps_len s1. (\<Sum>j < k. timer_ticks (pwm_io (ss ! j))) = (\<Sum>j < k. unat (regs (pwm_io (ss ! j)) T1L))"
    using ticks by simp
  ultimately show ?thesis
    using s1(1,5) ss(1,2,4) M unfolding Let_def by (intro exI [of _ s1] exI [of _ ss]) simp
qed

definition demo_pwm :: pwm where
  "demo_pwm = \<lparr>pwm_mask = 0x30, pwm_values = (replicate 32 0)[4 := 256, 5 := 512], pwm_freq = 1000, pwm_range = 1024,
     pwm_multiplier = 0, pwm_steps = replicate 32 0, pwm_steps_len = 0, pwm_steps_mask = replicate 32 0,
     isr_current_step = 0, isr_stepcount = 0, isr_steps = replicate 32 0, isr_masks = replicate 32 0,
     timer1_user_cb = True, pwm_io = \<lparr>events = [], regs = \<lambda>_. 0\<rparr>\<rparr>"

theorem pwm_period_correct_witness:
  "\<exists>s1 ss. prep_pwm_steps demo_pwm = Some s1 \<and> isr_states (Suc (pwm_steps_len s1)) s1 = Some ss \<and>
     (\<Sum>k < Suc (pwm_steps_len s1). timer_ticks (pwm_io (ss ! k))) = 79872"
proof -
  have "list_all (\<lambda>v. v \<le> 1024) ((replicate 32 0)[4 := 256, 5 := (512 :: u32)])" by code_simp
  then have "\<forall>i. active demo_pwm i \<longrightarrow> pwm_values demo_pwm ! i \<le> pwm_range demo_pwm"
    unfolding list_all_length by (simp add: active_def demo_pwm_def)
  moreover have "\<not> active demo_pwm 0" by (simp add: active_def demo_pwm_def)
  then have "\<exists>i < 32. \<not> active demo_pwm i" by (intro exI [of _ 0]) simp
  moreover have "arrays_ok demo_pwm" by (simp add: arrays_ok_def demo_pwm_def)
  ultimately show ?thesis
    using pwm_period_correct [of demo_pwm 78] unfolding Let_def by (auto simp: demo_pwm_def)
qed

lemma prep_zero_product:
  assumes "arrays_ok s" "pwm_mask s \<noteq> 0" "pwm_range s * pwm_freq s = 0"
  shows "prep_pwm_steps s = None"
  using assms by (simp add: prep_pwm_steps_def Let_def bind_eq_None_conv split_beta)

lemma activate_fields [simp]:
  "pwm_values (pwm_activate pin s) = pwm_values s" "pwm_range (pwm_activate pin s) = pwm_range s"
  "pwm_freq (pwm_activate pin s) = pwm_freq s" "isr_current_step (pwm_activate pin s) = isr_current_step s"
  "isr_stepcount (pwm_activate pin s) = isr_stepcount s" "timer1_user_cb (pwm_activate pin s) = timer1_user_cb s"
  "pwm_steps (pwm_activate pin s) = pwm_steps s" "pwm_steps_mask (pwm_activate pin s) = pwm_steps_mask s"
  "isr_steps (pwm_activate pin s) = isr_steps s" "isr_masks (pwm_activate pin s) = isr_masks s"
  by (simp_all add: pwm_activate_def on_io_def)

lemma activate_active: "pin < 32 \<Longrightarrow> active (pwm_activate pin s) i \<longleftrightarrow> active s i \<or> i = pin"
  using mask_test [of pin s] by (auto simp: pwm_activate_def on_io_def active_def bit_simps)

text \<open>Starting the timer leaves the tables alone.\<close>

lemma tables_ok_timer [simp]:
  "tables_ok (pwm_start_timer s) = tables_ok s" "active (pwm_start_timer s) = active s"
  "pwm_values (pwm_start_timer s) = pwm_values s" "timer1_user_cb (pwm_start_timer s)"
  "isr_current_step (pwm_start_timer s) = isr_current_step s" "isr_stepcount (pwm_start_timer s) = isr_stepcount s"
  "pwm_range (pwm_start_timer s) = pwm_range s"
  by (simp_all add: pwm_start_timer_def on_io_def timer1_attachInterrupt_def tables_ok_def switch_times_def duties_def
      active_def pwm_get_mask_def fun_eq_iff)

text \<open>A pin whose value is a multiple of the range plus one.\<close>

lemma write_wrapped:
  assumes "arrays_ok s" "pin < 32" "value \<noteq> 0" "pwm_range s + 1 \<noteq> 0" "value mod (pwm_range s + 1) = 0"
    "\<exists>i < 32. i \<noteq> pin \<and> \<not> active s i" "pwm_range s * pwm_freq s \<noteq> 0" "pwm_mask s = 0 \<or> timer1_user_cb s"
  shows "\<exists>s1. analogWrite pin value s = Some s1 \<and> tables_ok s1 \<and> active s1 pin \<and> pwm_values s1 ! pin = 0 \<and>
    timer1_user_cb s1 \<and> isr_current_step s1 = isr_current_step s \<and> isr_stepcount s1 = isr_stepcount s \<and> pwm_range s1 = pwm_range s"
proof -
  define s' where "s' = (pwm_activate pin s)\<lparr>pwm_values := (pwm_values s)[pin := 0]\<rparr>"
  have s': "pwm_values s' = (pwm_values s)[pin := 0]" "pwm_range s' = pwm_range s" "pwm_freq s' = pwm_freq s"
    "isr_current_step s' = isr_current_step s" "isr_stepcount s' = isr_stepcount s" "timer1_user_cb s' = timer1_user_cb s"
    "arrays_ok s'"
    using assms(1) by (simp_all add: s'_def arrays_ok_def)
  have act: "active s' i \<longleftrightarrow> active s i \<or> i = pin" for i
    using activate_active [OF assms(2), of s i] by (simp add: s'_def active_def)
  have "active s' pin" by (simp add: act)
  then have on: "pwm_mask s' \<noteq> 0" by (auto simp: active_def)
  have "card {i. active s' i \<and> pwm_values s' ! i \<noteq> 0} < 32" using assms(6) by (intro card_active) (auto simp: act)
  then obtain s2 where s2: "prep_pwm_steps s' = Some s2" "tables_ok s2" "same_request s' s2"
    using prep_tables [OF s'(7) on] assms(7) unfolding s'(2,3) by blast
  note same = s2(3) [unfolded same_request_def]
  have "analogWrite pin value s = Some (if pwm_mask s = 0 then pwm_start_timer s2 else s2)"
    using assms(2-5) s2(1) by (auto simp: analogWrite_def Let_def s'_def)
  moreover have "active s2 pin" "pwm_values s2 ! pin = 0"
    using act [of pin] same assms(1,2) s'(1) by (simp_all add: active_def arrays_ok_def)
  ultimately show ?thesis
    using s2(2) same s' assms(8) by (auto simp: tables_ok_timer)
qed

text \<open>
  Where the duty cycle goes wrong. A write to a pin number of 32 or more is undefined. With all 32
  pins active with duties other than zero, the step table is overrun by its 33rd entry. A range
  times frequency that is zero in 32 bits divides by zero. And a value that is a multiple of the
  range plus one is stored as duty zero while its pin becomes active: the interrupts raise the pin at
  the start of the period and never lower it.
\<close>

theorem pwm_errors:
  assumes "arrays_ok s"
  shows "(32 \<le> pin \<longrightarrow> analogWrite pin value s = None) \<and>
    ((\<forall>i < 32. active s i \<and> pwm_values s ! i \<noteq> 0) \<longrightarrow> prep_pwm_steps s = None) \<and>
    (pwm_mask s \<noteq> 0 \<and> pwm_range s * pwm_freq s = 0 \<longrightarrow> prep_pwm_steps s = None) \<and>
    (pin < 32 \<and> value \<noteq> 0 \<and> pwm_range s + 1 \<noteq> 0 \<and> value mod (pwm_range s + 1) = 0 \<and>
     (\<exists>i < 32. i \<noteq> pin \<and> \<not> active s i) \<and> pwm_range s * pwm_freq s \<noteq> 0 \<and>
     (pwm_mask s = 0 \<or> timer1_user_cb s) \<and> isr_stepcount s \<le> isr_current_step s \<longrightarrow>
     (\<exists>s1 ss. analogWrite pin value s = Some s1 \<and> isr_states (Suc (pwm_steps_len s1)) s1 = Some ss \<and>
        (\<forall>k \<le> pwm_steps_len s1. out (events (pwm_io (ss ! k))) pin)))"
proof (intro conjI impI)
  show "analogWrite pin value s = None" if "32 \<le> pin" using that by (simp add: analogWrite_def)
  show "prep_pwm_steps s = None" if "\<forall>i < 32. active s i \<and> pwm_values s ! i \<noteq> 0"
  proof (rule prep_overflow [OF assms])
    have "active s 0" using that by simp
    then show "pwm_mask s \<noteq> 0" by (auto simp: active_def)
    have "{i. active s i \<and> pwm_values s ! i \<noteq> 0} = {..<32}" using that by (auto simp: active_def)
    then show "card {i. active s i \<and> pwm_values s ! i \<noteq> 0} = 32" by simp
  qed
  show "prep_pwm_steps s = None" if "pwm_mask s \<noteq> 0 \<and> pwm_range s * pwm_freq s = 0"
    using that assms by (intro prep_zero_product) simp_all
  assume *: "pin < 32 \<and> value \<noteq> 0 \<and> pwm_range s + 1 \<noteq> 0 \<and> value mod (pwm_range s + 1) = 0 \<and>
     (\<exists>i < 32. i \<noteq> pin \<and> \<not> active s i) \<and> pwm_range s * pwm_freq s \<noteq> 0 \<and>
     (pwm_mask s = 0 \<or> timer1_user_cb s) \<and> isr_stepcount s \<le> isr_current_step s"
  then obtain s1 where s1: "analogWrite pin value s = Some s1" "tables_ok s1" "active s1 pin" "pwm_values s1 ! pin = 0"
      "timer1_user_cb s1" "isr_stepcount s1 \<le> isr_current_step s1" "pwm_range s1 = pwm_range s"
    using write_wrapped [OF assms, of pin "value"] by auto
  have "pwm_mask s1 \<noteq> 0" using s1(3) by (auto simp: active_def)
  from period_states [OF s1(2) this s1(5,6) order_refl] obtain ss
    where ss: "isr_states (Suc (pwm_steps_len s1)) s1 = Some ss" "\<forall>k \<le> pwm_steps_len s1. serves s1 k (ss ! k)" by blast
  have "pwm_range s1 \<noteq> 0" using * s1(7) by auto
  then have "0 \<notin> set (switch_times s1)" by (auto simp: switch_times_props(1) duties_def)
  then have "switch_times s1 ! j \<noteq> 0" if "j < pwm_steps_len s1" for j
    using that s1(2) by (metis Suc_eq_plus1 less_SucI nth_mem tables_ok_def)
  then have "\<forall>k \<le> pwm_steps_len s1. out (events (pwm_io (ss ! k))) pin"
    using ss(2) s1(3,4) by (fastforce simp: serves_def)
  then show "\<exists>s1 ss. analogWrite pin value s = Some s1 \<and> isr_states (Suc (pwm_steps_len s1)) s1 = Some ss \<and>
        (\<forall>k \<le> pwm_steps_len s1. out (events (pwm_io (ss ! k))) pin)"
    using s1(1) ss(1) by blast
qed

theorem pwm_errors_witness:
  "analogWrite 40 7 demo_pwm = None \<and>
   (\<exists>s1 ss. analogWrite 4 1025 demo_pwm = Some s1 \<and> isr_states (Suc (pwm_steps_len s1)) s1 = Some ss \<and>
      (\<forall>k \<le> pwm_steps_len s1. out (events (pwm_io (ss ! k))) 4))"
proof -
  have "arrays_ok demo_pwm" by (simp add: arrays_ok_def demo_pwm_def)
  moreover have "\<exists>i < 32. i \<noteq> 4 \<and> \<not> active demo_pwm i"
    by (intro exI [of _ 0]) (simp add: active_def demo_pwm_def)
  moreover have "pwm_range demo_pwm = 1024" "pwm_freq demo_pwm = 1000" "timer1_user_cb demo_pwm"
    "isr_stepcount demo_pwm \<le> isr_current_step demo_pwm"
    by (simp_all add: demo_pwm_def)
  ultimately show ?thesis
    using pwm_errors [of demo_pwm 40 7] pwm_errors [of demo_pwm 4 1025] by simp
qed

end
