(* ===== verification/Si2c.thy ===== *)
theory Si2c
  imports Gpio
begin

section \<open>The two-wire bus in software\<close>

text \<open>
  \<open>core_esp31b_si2c.c\<close>: the master of an I2C bus on two pins. A line is low while a pin drives it (the
  output latch of both pins is low) and high when nobody does, for both lines: a device may hold the
  data line to answer and the clock line to make the master wait. Time passes with the reads of the
  input registers, which are all that the delays and the waiting loops do; a device holds the clock
  for a number of reads after the master let it go. \<open>slow\<close> tells whether the core is built for 80 MHz (\<open>F_CPU == FCPU80\<close>).
\<close>

record twi =
  twi_dcount :: nat
  twi_sda :: nat
  twi_scl :: nat
  twi_io :: io

definition on_bus :: "(io \<Rightarrow> io) \<Rightarrow> twi \<Rightarrow> twi" where
  "on_bus f s = s\<lparr>twi_io := f (twi_io s)\<rparr>"

definition SDA_LOW :: "twi \<Rightarrow> twi" where "SDA_LOW s = on_bus (pin_wr GPES0 GPES1 (twi_sda s)) s"
definition SDA_HIGH :: "twi \<Rightarrow> twi" where "SDA_HIGH s = on_bus (pin_wr GPEC0 GPEC1 (twi_sda s)) s"
definition SCL_LOW :: "twi \<Rightarrow> twi" where "SCL_LOW s = on_bus (pin_wr GPES0 GPES1 (twi_scl s)) s"
definition SCL_HIGH :: "twi \<Rightarrow> twi" where "SCL_HIGH s = on_bus (pin_wr GPEC0 GPEC1 (twi_scl s)) s"

definition line_read :: "inputs \<Rightarrow> nat \<Rightarrow> twi \<Rightarrow> bool \<times> twi" where
  "line_read env pin s =
     (if pin < 32 then (case rd env GPI0 (twi_io s) of (v, io) \<Rightarrow> (v AND push_bit pin 1 \<noteq> 0, s\<lparr>twi_io := io\<rparr>))
      else (case rd env GPI1 (twi_io s) of (v, io) \<Rightarrow> (v AND push_bit (pin - 32) 1 \<noteq> 0, s\<lparr>twi_io := io\<rparr>)))"

definition SDA_READ :: "inputs \<Rightarrow> twi \<Rightarrow> bool \<times> twi" where "SDA_READ env s = line_read env (twi_sda s) s"
definition SCL_READ :: "inputs \<Rightarrow> twi \<Rightarrow> bool \<times> twi" where "SCL_READ env s = line_read env (twi_scl s) s"

definition TWI_CLOCK_STRETCH :: "bool \<Rightarrow> nat" where
  "TWI_CLOCK_STRETCH slow = (if slow then 800 else 1600)"

definition twi_setClock :: "bool \<Rightarrow> nat \<Rightarrow> twi \<Rightarrow> twi" where
  "twi_setClock slow freq s = s\<lparr>twi_dcount :=
     (if slow then
        (if freq \<le> 100000 then 19 else if freq \<le> 200000 then 8 else if freq \<le> 300000 then 3 else if freq \<le> 400000 then 1 else 1)
      else
        (if freq \<le> 100000 then 32 else if freq \<le> 200000 then 14 else if freq \<le> 300000 then 8 else if freq \<le> 400000 then 5
         else if freq \<le> 500000 then 3 else if freq \<le> 600000 then 2 else 1))\<rparr>"

definition twi_init :: "bool \<Rightarrow> nat \<Rightarrow> nat \<Rightarrow> twi \<Rightarrow> twi" where
  "twi_init slow sda scl s =
     twi_setClock slow 100000 (on_bus (pinMode scl INPUT_PULLUP \<circ> pinMode sda INPUT_PULLUP) (s\<lparr>twi_sda := sda, twi_scl := scl\<rparr>))"

definition twi_stop :: "twi \<Rightarrow> twi" where
  "twi_stop s = on_bus (pinMode (twi_scl s) INPUT \<circ> pinMode (twi_sda s) INPUT) s"

definition twi_delay :: "inputs \<Rightarrow> nat \<Rightarrow> twi \<Rightarrow> twi" where
  "twi_delay env v s = ((\<lambda>s. s\<lparr>twi_io := snd (rd env GPI0 (twi_io s))\<rparr>) ^^ (v mod 256)) s"

text \<open>The loop that waits for the clock line, at most \<open>n\<close> further times.\<close>

primrec stretch :: "inputs \<Rightarrow> nat \<Rightarrow> twi \<Rightarrow> twi" where
  "stretch env 0 s = snd (SCL_READ env s)"
| "stretch env (Suc n) s = (case SCL_READ env s of (high, s) \<Rightarrow> if high then s else stretch env n s)"

definition twi_write_start :: "inputs \<Rightarrow> twi \<Rightarrow> bool \<times> twi" where
  "twi_write_start env s =
     (case SDA_READ env (SDA_HIGH (SCL_HIGH s)) of (high, s) \<Rightarrow>
        if \<not> high then (False, s)
        else (True, twi_delay env (twi_dcount s) (SDA_LOW (twi_delay env (twi_dcount s) s))))"

definition twi_write_stop :: "bool \<Rightarrow> inputs \<Rightarrow> twi \<Rightarrow> twi" where
  "twi_write_stop slow env s =
     (let d = twi_delay env (twi_dcount s);
          s = SCL_HIGH (d (SDA_LOW (SCL_LOW s)));
          s = stretch env (TWI_CLOCK_STRETCH slow) s
      in d (SDA_HIGH (d s)))"

definition twi_write_bit :: "bool \<Rightarrow> inputs \<Rightarrow> bool \<Rightarrow> twi \<Rightarrow> twi" where
  "twi_write_bit slow env b s =
     (let s = SCL_LOW s;
          s = (if b then SDA_HIGH s else SDA_LOW s);
          s = SCL_HIGH (twi_delay env (twi_dcount s + 1) s);
          s = stretch env (TWI_CLOCK_STRETCH slow) s
      in twi_delay env (twi_dcount s) s)"

definition twi_read_bit :: "bool \<Rightarrow> inputs \<Rightarrow> twi \<Rightarrow> bool \<times> twi" where
  "twi_read_bit slow env s =
     (let s = SDA_HIGH (SCL_LOW s);
          s = SCL_HIGH (twi_delay env (twi_dcount s + 2) s);
          s = stretch env (TWI_CLOCK_STRETCH slow) s
      in case SDA_READ env s of (b, s) \<Rightarrow> (b, twi_delay env (twi_dcount s) s))"

primrec write_bits :: "bool \<Rightarrow> inputs \<Rightarrow> nat \<Rightarrow> byte \<Rightarrow> twi \<Rightarrow> twi" where
  "write_bits slow env 0 v s = s"
| "write_bits slow env (Suc n) v s = write_bits slow env n (push_bit 1 v) (twi_write_bit slow env (v AND 0x80 \<noteq> 0) s)"

definition twi_write_byte :: "bool \<Rightarrow> inputs \<Rightarrow> byte \<Rightarrow> twi \<Rightarrow> bool \<times> twi" where
  "twi_write_byte slow env v s =
     (case twi_read_bit slow env (write_bits slow env 8 v s) of (b, s) \<Rightarrow> (\<not> b, s))"

primrec read_bits :: "bool \<Rightarrow> inputs \<Rightarrow> nat \<Rightarrow> byte \<Rightarrow> twi \<Rightarrow> byte \<times> twi" where
  "read_bits slow env 0 v s = (v, s)"
| "read_bits slow env (Suc n) v s =
     (case twi_read_bit slow env s of (b, s) \<Rightarrow> read_bits slow env n (push_bit 1 v OR of_bool b) s)"

definition twi_read_byte :: "bool \<Rightarrow> inputs \<Rightarrow> bool \<Rightarrow> twi \<Rightarrow> byte \<times> twi" where
  "twi_read_byte slow env nack s =
     (case read_bits slow env 8 0 s of (v, s) \<Rightarrow> (v, twi_write_bit slow env nack s))"

text \<open>The clock pulses at the end of a transfer while the data line is still low.\<close>

primrec release_line :: "inputs \<Rightarrow> nat \<Rightarrow> twi \<Rightarrow> twi" where
  "release_line env 0 s = snd (SDA_READ env s)"
| "release_line env (Suc n) s =
     (case SDA_READ env s of (high, s) \<Rightarrow>
        if high then s
        else let d = twi_delay env (twi_dcount s) in release_line env n (d (SCL_HIGH (d (SCL_LOW s)))))"

primrec write_data :: "bool \<Rightarrow> inputs \<Rightarrow> byte list \<Rightarrow> twi \<Rightarrow> bool \<times> twi" where
  "write_data slow env [] s = (True, s)"
| "write_data slow env (v # vs) s =
     (case twi_write_byte slow env v s of (ack, s) \<Rightarrow> if \<not> ack then (False, s) else write_data slow env vs s)"

text \<open>\<open>if (sendStop) twi_write_stop();\<close>\<close>

definition send_stop :: "bool \<Rightarrow> inputs \<Rightarrow> bool \<Rightarrow> twi \<Rightarrow> twi" where
  "send_stop slow env sendStop s = (if sendStop then twi_write_stop slow env s else s)"

definition twi_writeTo :: "bool \<Rightarrow> inputs \<Rightarrow> byte \<Rightarrow> byte list \<Rightarrow> bool \<Rightarrow> twi \<Rightarrow> nat \<times> twi" where
  "twi_writeTo slow env address buf sendStop s =
     (case twi_write_start env s of (ok, s) \<Rightarrow>
        if \<not> ok then (4, s)
        else case twi_write_byte slow env (push_bit 1 address) s of (ack, s) \<Rightarrow>
          if \<not> ack then (2, send_stop slow env sendStop s)
          else case write_data slow env buf s of (ok, s) \<Rightarrow>
            if \<not> ok then (3, send_stop slow env sendStop s)
            else (0, release_line env 10 (send_stop slow env sendStop s)))"

primrec read_data :: "bool \<Rightarrow> inputs \<Rightarrow> nat \<Rightarrow> twi \<Rightarrow> byte list \<times> twi" where
  "read_data slow env 0 s = (case twi_read_byte slow env True s of (v, s) \<Rightarrow> ([v], s))"
| "read_data slow env (Suc n) s =
     (case twi_read_byte slow env False s of (v, s) \<Rightarrow> case read_data slow env n s of (vs, s) \<Rightarrow> (v # vs, s))"

text \<open>
  \<open>twi_readFrom\<close> of \<open>len\<close> bytes; the bytes stored are part of the result. With \<open>len\<close> zero the loop
  runs to \<open>2 ^ 32 - 1\<close> over the buffer: undefined.
\<close>

definition twi_readFrom :: "bool \<Rightarrow> inputs \<Rightarrow> byte \<Rightarrow> nat \<Rightarrow> bool \<Rightarrow> twi \<Rightarrow> (nat \<times> byte list \<times> twi) option" where
  "twi_readFrom slow env address len sendStop s =
     (case twi_write_start env s of (ok, s) \<Rightarrow>
        if \<not> ok then Some (4, [], s)
        else case twi_write_byte slow env (push_bit 1 address OR 1) s of (ack, s) \<Rightarrow>
          if \<not> ack then Some (2, [], send_stop slow env sendStop s)
          else if len = 0 then None
          else case read_data slow env (len - 1) s of (vs, s) \<Rightarrow>
            Some (0, vs, release_line env 10 (send_stop slow env sendStop s)))"

subsection \<open>What the bus carries\<close>

datatype symbol = Start | Stop | Bit bool

text \<open>
  The lines as an observer sees them: which of them the master drives, the symbols so far, and for
  how many more reads the device holds the clock. \<open>hold S\<close> is how long it does so when the clock falls
  after the symbols \<open>S\<close>.
\<close>

record lines =
  driven :: "nat \<Rightarrow> bool"
  held :: nat
  syms :: "symbol list"

definition clock_low :: "nat \<Rightarrow> (nat \<Rightarrow> bool) \<Rightarrow> nat \<Rightarrow> bool" where
  "clock_low scl d h \<longleftrightarrow> d scl \<or> 0 < h"

fun is_read :: "event \<Rightarrow> bool" where
  "is_read (Rd r) = True"
| "is_read (Wr r v) = False"

definition held_after :: "nat \<Rightarrow> (symbol list \<Rightarrow> nat) \<Rightarrow> event \<Rightarrow> lines \<Rightarrow> nat" where
  "held_after scl hold e l =
     (if dir_ev e (driven l) scl \<and> \<not> clock_low scl (driven l) (held l) then hold (syms l)
      else if is_read e \<and> \<not> driven l scl then held l - 1
      else held l)"

text \<open>
  A bit at each rising edge of the clock line, which is when neither side holds it any more; a start
  or stop condition when the data line moves while the clock line is high.
\<close>

definition line_sym :: "nat \<Rightarrow> nat \<Rightarrow> (nat \<Rightarrow> bool) \<Rightarrow> bool \<Rightarrow> (nat \<Rightarrow> bool) \<Rightarrow> bool \<Rightarrow> symbol list" where
  "line_sym sda scl d low d' low' =
     (if low \<and> \<not> low' then [Bit (\<not> d' sda)]
      else if \<not> low \<and> \<not> low' \<and> d sda \<noteq> d' sda then [if d' sda then Start else Stop]
      else [])"

definition line_ev :: "nat \<Rightarrow> nat \<Rightarrow> (symbol list \<Rightarrow> nat) \<Rightarrow> event \<Rightarrow> lines \<Rightarrow> lines" where
  "line_ev sda scl hold e l =
     (let d = dir_ev e (driven l); h = held_after scl hold e l
      in \<lparr>driven = d, held = h,
          syms = syms l @ line_sym sda scl (driven l) (clock_low scl (driven l) (held l)) d (clock_low scl d h)\<rparr>)"

definition lines_of :: "nat \<Rightarrow> nat \<Rightarrow> (symbol list \<Rightarrow> nat) \<Rightarrow> event list \<Rightarrow> lines" where
  "lines_of sda scl hold es = fold (line_ev sda scl hold) es \<lparr>driven = \<lambda>_. False, held = 0, syms = []\<rparr>"

definition bus_lines :: "(symbol list \<Rightarrow> nat) \<Rightarrow> twi \<Rightarrow> lines" where
  "bus_lines hold s = lines_of (twi_sda s) (twi_scl s) hold (events (twi_io s))"

lemma lines_of_snoc: "lines_of sda scl hold (es @ [e]) = line_ev sda scl hold e (lines_of sda scl hold es)"
  by (simp add: lines_of_def)

lemma driven_lines_of: "driven (lines_of sda scl hold es) = drives es"
  by (induction es rule: rev_induct) (simp_all add: lines_of_snoc line_ev_def Let_def, simp add: lines_of_def drives_def)

subsection \<open>The protocol\<close>

text \<open>
  The same transfers on the level of symbols, against a device that answers to the symbols sent so
  far: \<open>dev S\<close> tells whether the device leaves the data line high after \<open>S\<close>. The pulses that free the
  data line do not wait for the clock: they reach the device only if it holds the clock for no
  longer than the delay \<open>d\<close> of a pulse, otherwise (\<open>None\<close>) nothing is said of the lines.
\<close>

definition byte_syms :: "byte \<Rightarrow> symbol list" where
  "byte_syms v = map (\<lambda>i. Bit (bit v (7 - i))) [0..<8] @ [Bit True]"

definition stop_syms :: "bool \<Rightarrow> symbol list" where
  "stop_syms sendStop = (if sendStop then [Bit False, Stop] else [])"

primrec send :: "(symbol list \<Rightarrow> bool) \<Rightarrow> byte list \<Rightarrow> symbol list \<Rightarrow> bool \<times> symbol list" where
  "send dev [] S = (True, S)"
| "send dev (v # vs) S = (let S = S @ byte_syms v in if dev S then (False, S) else send dev vs S)"

primrec release :: "(symbol list \<Rightarrow> bool) \<Rightarrow> (symbol list \<Rightarrow> nat) \<Rightarrow> nat \<Rightarrow> nat \<Rightarrow> symbol list \<Rightarrow> symbol list option" where
  "release dev hold d 0 S = Some S"
| "release dev hold d (Suc n) S =
     (if dev S then Some S else if hold S \<le> d then release dev hold d n (S @ [Bit True]) else None)"

primrec receive_bits :: "(symbol list \<Rightarrow> bool) \<Rightarrow> nat \<Rightarrow> byte \<Rightarrow> symbol list \<Rightarrow> byte \<times> symbol list" where
  "receive_bits dev 0 v S = (v, S)"
| "receive_bits dev (Suc n) v S = (let S = S @ [Bit True] in receive_bits dev n (push_bit 1 v OR of_bool (dev S)) S)"

primrec receive :: "(symbol list \<Rightarrow> bool) \<Rightarrow> nat \<Rightarrow> symbol list \<Rightarrow> byte list \<times> symbol list" where
  "receive dev 0 S = (case receive_bits dev 8 0 S of (v, S) \<Rightarrow> ([v], S @ [Bit True]))"
| "receive dev (Suc n) S =
     (case receive_bits dev 8 0 S of (v, S) \<Rightarrow> case receive dev n (S @ [Bit False]) of (vs, S) \<Rightarrow> (v # vs, S))"

definition protocol_write ::
    "(symbol list \<Rightarrow> bool) \<Rightarrow> (symbol list \<Rightarrow> nat) \<Rightarrow> nat \<Rightarrow> byte \<Rightarrow> byte list \<Rightarrow> bool \<Rightarrow> symbol list \<Rightarrow> nat \<times> symbol list option" where
  "protocol_write dev hold d address buf sendStop S =
     (if \<not> dev S then (4, Some S)
      else let S = S @ [Start] @ byte_syms (push_bit 1 address)
      in if dev S then (2, Some (S @ stop_syms sendStop))
         else case send dev buf S of (ok, S) \<Rightarrow>
           if \<not> ok then (3, Some (S @ stop_syms sendStop)) else (0, release dev hold d 10 (S @ stop_syms sendStop)))"

definition protocol_read ::
    "(symbol list \<Rightarrow> bool) \<Rightarrow> (symbol list \<Rightarrow> nat) \<Rightarrow> nat \<Rightarrow> byte \<Rightarrow> nat \<Rightarrow> bool \<Rightarrow> symbol list \<Rightarrow> nat \<times> byte list \<times> symbol list option" where
  "protocol_read dev hold d address len sendStop S =
     (if \<not> dev S then (4, [], Some S)
      else let S = S @ [Start] @ byte_syms (push_bit 1 address OR 1)
      in if dev S then (2, [], Some (S @ stop_syms sendStop))
         else case receive dev (len - 1) S of (vs, S) \<Rightarrow> (0, vs, release dev hold d 10 (S @ stop_syms sendStop)))"

subsection \<open>The lines\<close>

definition pins :: "twi \<Rightarrow> nat \<times> nat \<times> nat" where
  "pins s = (twi_sda s, twi_scl s, twi_dcount s)"

definition two_pins :: "twi \<Rightarrow> bool" where
  "two_pins s \<longleftrightarrow> twi_sda s < 64 \<and> twi_scl s < 64 \<and> twi_sda s \<noteq> twi_scl s"

text \<open>The bit of the input registers that shows the pin, after the history \<open>es\<close>.\<close>

definition level :: "inputs \<Rightarrow> event list \<Rightarrow> nat \<Rightarrow> bool" where
  "level env es pin = bit (env es (if pin < 32 then GPI0 else GPI1)) (if pin < 32 then pin else pin - 32)"

text \<open>Wired lines: low when the master or the device holds them.\<close>

definition wired :: "(symbol list \<Rightarrow> bool) \<Rightarrow> (symbol list \<Rightarrow> nat) \<Rightarrow> twi \<Rightarrow> inputs \<Rightarrow> bool" where
  "wired dev hold s env \<longleftrightarrow>
     (\<forall>es. let l = lines_of (twi_sda s) (twi_scl s) hold es in
        (level env es (twi_sda s) \<longleftrightarrow> \<not> drives es (twi_sda s) \<and> dev (syms l)) \<and>
        (level env es (twi_scl s) \<longleftrightarrow> \<not> drives es (twi_scl s) \<and> held l = 0))"

text \<open>What there is to tell about a state: the symbols, the lines driven, how long the clock is held.\<close>

definition view :: "(symbol list \<Rightarrow> nat) \<Rightarrow> twi \<Rightarrow> symbol list \<times> bool \<times> bool \<times> nat" where
  "view hold s = (let l = bus_lines hold s in (syms l, driven l (twi_sda s), driven l (twi_scl s), held l))"

text \<open>
  On the bus with the clock high and the data line driven or not; \<open>ready\<close> for the next transfer:
  both lines released, the symbols \<open>S\<close> sent.
\<close>

definition on_lines :: "(symbol list \<Rightarrow> bool) \<Rightarrow> (symbol list \<Rightarrow> nat) \<Rightarrow> inputs \<Rightarrow> nat \<times> nat \<times> nat \<Rightarrow>
    symbol list \<times> bool \<times> bool \<times> nat \<Rightarrow> twi \<Rightarrow> bool" where
  "on_lines dev hold env p v s \<longleftrightarrow> two_pins s \<and> wired dev hold s env \<and> pins s = p \<and> view hold s = v"

definition ready :: "(symbol list \<Rightarrow> bool) \<Rightarrow> (symbol list \<Rightarrow> nat) \<Rightarrow> inputs \<Rightarrow> symbol list \<Rightarrow> twi \<Rightarrow> bool" where
  "ready dev hold env S s \<longleftrightarrow> on_lines dev hold env (pins s) (S, False, False, 0) s"

lemma on_bus_pins [simp]: "twi_sda (on_bus f s) = twi_sda s" "twi_scl (on_bus f s) = twi_scl s" "twi_dcount (on_bus f s) = twi_dcount s"
  "twi_io (on_bus f s) = f (twi_io s)"
  by (simp_all add: on_bus_def)

lemma on_lines_cong:
  assumes "on_lines dev hold env p v s" "pins s' = pins s" "view hold s' = v'"
  shows "on_lines dev hold env p v' s'"
proof -
  have "twi_sda s' = twi_sda s" "twi_scl s' = twi_scl s" using assms(2) by (simp_all add: pins_def)
  then show ?thesis using assms by (simp add: on_lines_def two_pins_def wired_def)
qed

lemma pin_wr_lines:
  assumes "pin < 64"
  shows "\<exists>e. events (pin_wr GPES0 GPES1 pin io) = events io @ [e] \<and> \<not> is_read e \<and> (\<forall>l. dir_ev e l = l(pin := True))"
    "\<exists>e. events (pin_wr GPEC0 GPEC1 pin io) = events io @ [e] \<and> \<not> is_read e \<and> (\<forall>l. dir_ev e l = l(pin := False))"
  using assms by (auto simp: pin_wr_def fun_eq_iff)

lemma drive_line:
  assumes "pin < 64"
  shows "\<exists>e. bus_lines hold (on_bus (pin_wr GPES0 GPES1 pin) s) = line_ev (twi_sda s) (twi_scl s) hold e (bus_lines hold s) \<and>
      \<not> is_read e \<and> (\<forall>l. dir_ev e l = l(pin := True))"
    "\<exists>e. bus_lines hold (on_bus (pin_wr GPEC0 GPEC1 pin) s) = line_ev (twi_sda s) (twi_scl s) hold e (bus_lines hold s) \<and>
      \<not> is_read e \<and> (\<forall>l. dir_ev e l = l(pin := False))"
  using pin_wr_lines [OF assms, of "twi_io s"] by (auto simp: bus_lines_def lines_of_snoc)

lemma line_views:
  assumes "two_pins s" "view hold s = (S, a, b, h)"
  shows "view hold (SDA_LOW s) = (S @ (if \<not> b \<and> h = 0 \<and> \<not> a then [Start] else []), True, b, h)"
    "view hold (SDA_HIGH s) = (S @ (if \<not> b \<and> h = 0 \<and> a then [Stop] else []), False, b, h)"
    "view hold (SCL_LOW s) = (S, a, True, if \<not> b \<and> h = 0 then hold S else h)"
    "view hold (SCL_HIGH s) = (S @ (if b \<and> h = 0 then [Bit (\<not> a)] else []), a, False, h)"
  using assms drive_line [of "twi_sda s" hold s] drive_line [of "twi_scl s" hold s]
  by (auto simp: view_def two_pins_def SDA_LOW_def SDA_HIGH_def SCL_LOW_def SCL_HIGH_def Let_def line_ev_def held_after_def
      clock_low_def line_sym_def)

lemma line_pins [simp]:
  "pins (SDA_LOW s) = pins s" "pins (SDA_HIGH s) = pins s" "pins (SCL_LOW s) = pins s" "pins (SCL_HIGH s) = pins s"
  by (simp_all add: pins_def SDA_LOW_def SDA_HIGH_def SCL_LOW_def SCL_HIGH_def)

lemma line_steps:
  assumes "on_lines dev hold env p (S, a, b, h) s"
  shows "on_lines dev hold env p (S @ (if \<not> b \<and> h = 0 \<and> \<not> a then [Start] else []), True, b, h) (SDA_LOW s)"
    "on_lines dev hold env p (S @ (if \<not> b \<and> h = 0 \<and> a then [Stop] else []), False, b, h) (SDA_HIGH s)"
    "on_lines dev hold env p (S, a, True, if \<not> b \<and> h = 0 then hold S else h) (SCL_LOW s)"
    "on_lines dev hold env p (S @ (if b \<and> h = 0 then [Bit (\<not> a)] else []), a, False, h) (SCL_HIGH s)"
proof -
  have "two_pins s" "view hold s = (S, a, b, h)" using assms by (simp_all add: on_lines_def)
  note v = line_views [OF this]
  show "on_lines dev hold env p (S @ (if \<not> b \<and> h = 0 \<and> \<not> a then [Start] else []), True, b, h) (SDA_LOW s)"
    "on_lines dev hold env p (S @ (if \<not> b \<and> h = 0 \<and> a then [Stop] else []), False, b, h) (SDA_HIGH s)"
    "on_lines dev hold env p (S, a, True, if \<not> b \<and> h = 0 then hold S else h) (SCL_LOW s)"
    "on_lines dev hold env p (S @ (if b \<and> h = 0 then [Bit (\<not> a)] else []), a, False, h) (SCL_HIGH s)"
    by (rule on_lines_cong [OF assms line_pins(1) v(1)], rule on_lines_cong [OF assms line_pins(2) v(2)],
        rule on_lines_cong [OF assms line_pins(3) v(3)], rule on_lines_cong [OF assms line_pins(4) v(4)])
qed

text \<open>A read gives the device time: with its last one the clock rises.\<close>

definition tick :: "symbol list \<times> bool \<times> bool \<times> nat \<Rightarrow> symbol list \<times> bool \<times> bool \<times> nat" where
  "tick v = (case v of (S, a, b, h) \<Rightarrow>
     (S @ (if \<not> b \<and> h = 1 then [Bit (\<not> a)] else []), a, b, if b then h else h - 1))"

lemma read_tick:
  assumes "on_lines dev hold env p v s"
  shows "on_lines dev hold env p (tick v) (s\<lparr>twi_io := snd (rd env r (twi_io s))\<rparr>)"
proof -
  let ?s = "s\<lparr>twi_io := snd (rd env r (twi_io s))\<rparr>"
  have "bus_lines hold ?s = line_ev (twi_sda s) (twi_scl s) hold (Rd r) (bus_lines hold s)"
    by (simp add: bus_lines_def rd_def lines_of_snoc)
  then have "view hold ?s = tick (view hold s)"
    by (auto simp: view_def Let_def line_ev_def held_after_def clock_low_def line_sym_def tick_def)
  then show ?thesis using assms by (intro on_lines_cong [OF assms]) (simp_all add: pins_def on_lines_def)
qed

lemma line_read_tick: "on_lines dev hold env p v s \<Longrightarrow> on_lines dev hold env p (tick v) (snd (line_read env pin s))"
  using read_tick [of dev hold env p v s] by (simp add: line_read_def split_beta)

lemma SDA_READ_lines:
  assumes "on_lines dev hold env p (S, a, b, h) s"
  shows "fst (SDA_READ env s) \<longleftrightarrow> \<not> a \<and> dev S" "on_lines dev hold env p (tick (S, a, b, h)) (snd (SDA_READ env s))"
  using assms line_read_tick [OF assms]
  by (auto simp: SDA_READ_def line_read_def rd_def on_lines_def wired_def level_def view_def bus_lines_def Let_def driven_lines_of
      and_exp_eq_0_iff_not_bit two_pins_def split: if_splits)

lemma SCL_READ_lines:
  assumes "on_lines dev hold env p (S, a, b, h) s"
  shows "fst (SCL_READ env s) \<longleftrightarrow> \<not> b \<and> h = 0" "on_lines dev hold env p (tick (S, a, b, h)) (snd (SCL_READ env s))"
  using assms line_read_tick [OF assms]
  by (auto simp: SCL_READ_def line_read_def rd_def on_lines_def wired_def level_def view_def bus_lines_def Let_def driven_lines_of
      and_exp_eq_0_iff_not_bit two_pins_def split: if_splits)

text \<open>Delays: with the clock driven low or high nothing moves, otherwise the device may let it go.\<close>

lemma twi_delay_tick:
  assumes "on_lines dev hold env p v s"
  shows "on_lines dev hold env p ((tick ^^ (n mod 256)) v) (twi_delay env n s)"
proof -
  have "on_lines dev hold env p ((tick ^^ k) v) (((\<lambda>s. s\<lparr>twi_io := snd (rd env GPI0 (twi_io s))\<rparr>) ^^ k) s)" for k
    using assms by (induction k) (simp_all add: read_tick)
  then show ?thesis by (simp add: twi_delay_def)
qed

lemma tick_still [simp]: "b \<or> h = 0 \<Longrightarrow> (tick ^^ k) (S, a, b, h) = (S, a, b, h)"
  by (induction k) (auto simp: tick_def)

lemma tick_rise: "0 < h \<Longrightarrow> h \<le> k \<Longrightarrow> (tick ^^ k) (S, a, False, h) = (S @ [Bit (\<not> a)], a, False, 0)"
proof (induction k arbitrary: h S)
  case (Suc k)
  show ?case
  proof (cases "h = 1")
    case True
    then have "tick (S, a, False, h) = (S @ [Bit (\<not> a)], a, False, 0)" by (simp add: tick_def)
    then show ?thesis by (simp add: funpow_swap1)
  next
    case False
    then have "tick (S, a, False, h) = (S, a, False, h - 1)" "0 < h - 1" "h - 1 \<le> k" using Suc.prems by (simp_all add: tick_def)
    then show ?thesis using Suc.IH [of "h - 1" S] by (simp add: funpow_swap1)
  qed
qed simp

lemma delay_still:
  assumes "on_lines dev hold env p (S, a, b, h) s" "b \<or> h = 0"
  shows "on_lines dev hold env p (S, a, b, h) (twi_delay env n s)"
  using twi_delay_tick [OF assms(1), of n] assms(2) by simp

text \<open>The waiting loop sees a clock rise that comes in time.\<close>

lemma stretch_rise:
  assumes "on_lines dev hold env p (S, a, False, h) s" "h \<le> n"
  shows "on_lines dev hold env p (S @ (if h = 0 then [] else [Bit (\<not> a)]), a, False, 0) (stretch env n s)"
  using assms
proof (induction n arbitrary: S h s)
  case 0
  then show ?case using SCL_READ_lines(2) [OF 0(1)] by (simp add: tick_def)
next
  case (Suc n)
  note r = SCL_READ_lines [OF Suc.prems(1)]
  show ?case
  proof (cases "h = 0")
    case True
    then show ?thesis using r by (simp add: split_beta tick_def)
  next
    case False
    note r' = r(2) [unfolded tick_def, simplified]
    have "on_lines dev hold env p (S @ (if h = 1 then [Bit (\<not> a)] else []), a, False, h - 1) (snd (SCL_READ env s))"
      using r' by simp
    from Suc.IH [OF this] show ?thesis using False Suc.prems(2) r(1) by (cases "h = 1") (simp_all add: split_beta)
  qed
qed

text \<open>
  From low, the clock rises once the master lets it go and waits: the bit on the data line is sent.
\<close>

lemma clock_bit:
  assumes "on_lines dev hold env p (S, a, True, h) s" "h \<le> n"
  shows "on_lines dev hold env p (S @ [Bit (\<not> a)], a, False, 0) (stretch env n (SCL_HIGH s))"
  using stretch_rise [OF line_steps(4) [OF assms(1)], of n] assms(2) by (cases "h = 0") simp_all

lemma write_bit_lines:
  assumes "on_lines dev hold env p (S, a, False, 0) s" "\<And>S. hold S \<le> TWI_CLOCK_STRETCH slow"
  shows "on_lines dev hold env p (S @ [Bit b], \<not> b, False, 0) (twi_write_bit slow env b s)"
proof -
  let ?s1 = "SCL_LOW s"
  let ?s2 = "if b then SDA_HIGH ?s1 else SDA_LOW ?s1"
  have "on_lines dev hold env p (S, a, True, hold S) ?s1" using line_steps(3) [OF assms(1)] by simp
  from line_steps(1,2) [OF this] have "on_lines dev hold env p (S, \<not> b, True, hold S) ?s2" by simp
  from clock_bit [OF delay_still [OF this, of "twi_dcount ?s2 + 1"] assms(2)]
  have "on_lines dev hold env p (S @ [Bit b], \<not> b, False, 0)
      (stretch env (TWI_CLOCK_STRETCH slow) (SCL_HIGH (twi_delay env (twi_dcount ?s2 + 1) ?s2)))" by simp
  from delay_still [OF this] show ?thesis by (simp add: twi_write_bit_def Let_def)
qed

lemma read_bit_lines:
  assumes "on_lines dev hold env p (S, a, False, 0) s" "\<And>S. hold S \<le> TWI_CLOCK_STRETCH slow"
  shows "on_lines dev hold env p (S @ [Bit True], False, False, 0) (snd (twi_read_bit slow env s))"
    "fst (twi_read_bit slow env s) = dev (S @ [Bit True])"
proof -
  let ?s2 = "SDA_HIGH (SCL_LOW s)"
  let ?s3 = "stretch env (TWI_CLOCK_STRETCH slow) (SCL_HIGH (twi_delay env (twi_dcount ?s2 + 2) ?s2))"
  have "on_lines dev hold env p (S, a, True, hold S) (SCL_LOW s)" using line_steps(3) [OF assms(1)] by simp
  from line_steps(2) [OF this] have "on_lines dev hold env p (S, False, True, hold S) ?s2" by simp
  from clock_bit [OF delay_still [OF this, of "twi_dcount ?s2 + 2"] assms(2)]
  have up: "on_lines dev hold env p (S @ [Bit True], False, False, 0) ?s3" by simp
  note r = SDA_READ_lines [OF up]
  have "on_lines dev hold env p (S @ [Bit True], False, False, 0) (snd (SDA_READ env ?s3))" using r(2) by (simp add: tick_def)
  from delay_still [OF this]
  show "on_lines dev hold env p (S @ [Bit True], False, False, 0) (snd (twi_read_bit slow env s))"
    by (simp add: twi_read_bit_def Let_def split_beta)
  show "fst (twi_read_bit slow env s) = dev (S @ [Bit True])" using r(1) by (simp add: twi_read_bit_def Let_def split_beta)
qed

subsection \<open>Bytes\<close>

lemma top_bit: "(v :: byte) AND 0x80 \<noteq> 0 \<longleftrightarrow> bit v 7"
  using and_exp_eq_0_iff_not_bit [of v 7] by simp

lemma write_bits_lines:
  assumes "on_lines dev hold env p (S, a, False, 0) s" "\<And>S. hold S \<le> TWI_CLOCK_STRETCH slow" "n \<le> 8"
  shows "\<exists>a. on_lines dev hold env p (S @ map (\<lambda>i. Bit (bit v (7 - i))) [0..<n], a, False, 0) (write_bits slow env n v s)"
  using assms(1,3)
proof (induction n arbitrary: v S a s)
  case (Suc n)
  let ?s = "twi_write_bit slow env (v AND 0x80 \<noteq> 0) s"
  have "on_lines dev hold env p (S @ [Bit (bit v 7)], \<not> bit v 7, False, 0) ?s"
    using write_bit_lines [OF Suc.prems(1) assms(2), of "v AND 0x80 \<noteq> 0"] by (simp add: top_bit)
  moreover have "map (\<lambda>i. Bit (bit v (7 - i))) [0..<Suc n] = Bit (bit v 7) # map (\<lambda>i. Bit (bit (push_bit 1 v) (7 - i))) [0..<n]"
    using Suc.prems(2) by (auto simp: upt_conv_Cons map_Suc_upt [symmetric] bit_push_bit_iff simp del: upt_Suc push_bit_of_Suc_0 push_bit_Suc)
  ultimately show ?case using Suc.IH [of "S @ [Bit (bit v 7)]" "\<not> bit v 7" ?s "push_bit 1 v"] Suc.prems(2)
    by (simp del: upt_Suc)
qed auto

lemma write_byte_lines:
  assumes "on_lines dev hold env p (S, a, False, 0) s" "\<And>S. hold S \<le> TWI_CLOCK_STRETCH slow"
  shows "on_lines dev hold env p (S @ byte_syms v, False, False, 0) (snd (twi_write_byte slow env v s))"
    "fst (twi_write_byte slow env v s) \<longleftrightarrow> \<not> dev (S @ byte_syms v)"
proof -
  from write_bits_lines [OF assms, of 8 v] obtain a' where
    "on_lines dev hold env p (S @ map (\<lambda>i. Bit (bit v (7 - i))) [0..<8], a', False, 0) (write_bits slow env 8 v s)" by blast
  from read_bit_lines [OF this assms(2)]
  show "on_lines dev hold env p (S @ byte_syms v, False, False, 0) (snd (twi_write_byte slow env v s))"
    "fst (twi_write_byte slow env v s) \<longleftrightarrow> \<not> dev (S @ byte_syms v)"
    by (simp_all add: twi_write_byte_def split_beta byte_syms_def del: upt_Suc upt_rec_numeral)
qed

lemma read_bits_receive:
  assumes "on_lines dev hold env p (S, a, False, 0) s" "\<And>S. hold S \<le> TWI_CLOCK_STRETCH slow"
  shows "fst (read_bits slow env n v s) = fst (receive_bits dev n v S) \<and>
    (\<exists>a. on_lines dev hold env p (snd (receive_bits dev n v S), a, False, 0) (snd (read_bits slow env n v s)))"
  using assms(1)
proof (induction n arbitrary: v s S a)
  case (Suc n)
  note r = read_bit_lines [OF Suc.prems assms(2)]
  from Suc.IH [OF r(1)] r(2) show ?case by (simp add: split_beta Let_def)
qed auto

lemma read_byte_lines:
  assumes "on_lines dev hold env p (S, a, False, 0) s" "\<And>S. hold S \<le> TWI_CLOCK_STRETCH slow"
  shows "fst (twi_read_byte slow env nack s) = fst (receive_bits dev 8 0 S)"
    "on_lines dev hold env p (snd (receive_bits dev 8 0 S) @ [Bit nack], \<not> nack, False, 0) (snd (twi_read_byte slow env nack s))"
proof -
  from read_bits_receive [OF assms, of 8 0] obtain a' where r: "fst (read_bits slow env 8 0 s) = fst (receive_bits dev 8 0 S)"
    "on_lines dev hold env p (snd (receive_bits dev 8 0 S), a', False, 0) (snd (read_bits slow env 8 0 s))" by blast
  show "fst (twi_read_byte slow env nack s) = fst (receive_bits dev 8 0 S)"
    "on_lines dev hold env p (snd (receive_bits dev 8 0 S) @ [Bit nack], \<not> nack, False, 0) (snd (twi_read_byte slow env nack s))"
    using r(1) write_bit_lines [OF r(2) assms(2)] by (simp_all add: twi_read_byte_def split_beta)
qed

subsection \<open>Transfers\<close>

lemma write_start_lines:
  assumes "on_lines dev hold env p (S, False, False, 0) s"
  shows "fst (twi_write_start env s) = dev S"
    "on_lines dev hold env p (if dev S then (S @ [Start], True, False, 0) else (S, False, False, 0)) (snd (twi_write_start env s))"
proof -
  let ?s1 = "SDA_HIGH (SCL_HIGH s)"
  have "on_lines dev hold env p (S, False, False, 0) (SCL_HIGH s)" using line_steps(4) [OF assms] by simp
  from line_steps(2) [OF this] have "on_lines dev hold env p (S, False, False, 0) ?s1" by simp
  note r = SDA_READ_lines [OF this]
  show "fst (twi_write_start env s) = dev S" using r(1) by (simp add: twi_write_start_def split_beta)
  have r2: "on_lines dev hold env p (S, False, False, 0) (snd (SDA_READ env ?s1))" using r(2) by (simp add: tick_def)
  from line_steps(1) [OF delay_still [OF r2]]
  have "on_lines dev hold env p (S @ [Start], True, False, 0)
      (SDA_LOW (twi_delay env (twi_dcount (snd (SDA_READ env ?s1))) (snd (SDA_READ env ?s1))))" by simp
  from delay_still [OF this] r r2
  show "on_lines dev hold env p (if dev S then (S @ [Start], True, False, 0) else (S, False, False, 0)) (snd (twi_write_start env s))"
    by (simp add: twi_write_start_def split_beta)
qed

lemma write_stop_lines:
  assumes "on_lines dev hold env p (S, False, False, 0) s" "\<And>S. hold S \<le> TWI_CLOCK_STRETCH slow"
  shows "on_lines dev hold env p (S @ [Bit False, Stop], False, False, 0) (twi_write_stop slow env s)"
proof -
  let ?d = "twi_delay env (twi_dcount s)"
  have "on_lines dev hold env p (S, False, True, hold S) (SCL_LOW s)" using line_steps(3) [OF assms(1)] by simp
  from line_steps(1) [OF this] have "on_lines dev hold env p (S, True, True, hold S) (SDA_LOW (SCL_LOW s))" by simp
  from clock_bit [OF delay_still [OF this, of "twi_dcount s"] assms(2)]
  have "on_lines dev hold env p (S @ [Bit False], True, False, 0)
      (stretch env (TWI_CLOCK_STRETCH slow) (SCL_HIGH (?d (SDA_LOW (SCL_LOW s)))))" by simp
  from line_steps(2) [OF delay_still [OF this, of "twi_dcount s"]]
  have "on_lines dev hold env p (S @ [Bit False, Stop], False, False, 0)
      (SDA_HIGH (?d (stretch env (TWI_CLOCK_STRETCH slow) (SCL_HIGH (?d (SDA_LOW (SCL_LOW s)))))))" by simp
  from delay_still [OF this] show ?thesis by (simp add: twi_write_stop_def Let_def)
qed

lemma stop_lines:
  assumes "on_lines dev hold env p (S, False, False, 0) s" "\<And>S. hold S \<le> TWI_CLOCK_STRETCH slow"
  shows "on_lines dev hold env p (S @ stop_syms sendStop, False, False, 0) (send_stop slow env sendStop s)"
  using assms write_stop_lines [OF assms] by (simp add: stop_syms_def send_stop_def)

text \<open>A pulse that does not wait, from a device that lets the clock go within the delay.\<close>

lemma pulse_lines:
  assumes "on_lines dev hold env p (S, False, False, 0) s" "hold S \<le> n mod 256"
  shows "on_lines dev hold env p (S @ [Bit True], False, False, 0) (twi_delay env n (SCL_HIGH (twi_delay env n (SCL_LOW s))))"
proof -
  have "on_lines dev hold env p (S, False, True, hold S) (SCL_LOW s)" using line_steps(3) [OF assms(1)] by simp
  from twi_delay_tick [OF line_steps(4) [OF delay_still [OF this]], of n n] show ?thesis
    using assms(2) by (cases "hold S = 0") (simp_all add: tick_rise)
qed

lemma release_lines:
  assumes "on_lines dev hold env p (S, False, False, 0) s" "release dev hold (snd (snd p) mod 256) n S = Some S'"
  shows "on_lines dev hold env p (S', False, False, 0) (release_line env n s)"
  using assms
proof (induction n arbitrary: S s)
  case 0
  then show ?case using SDA_READ_lines(2) [OF 0(1)] by (simp add: tick_def)
next
  case (Suc n)
  let ?r = "snd (SDA_READ env s)"
  note r = SDA_READ_lines [OF Suc.prems(1)]
  have r2: "on_lines dev hold env p (S, False, False, 0) ?r" using r(2) by (simp add: tick_def)
  then have d: "twi_dcount ?r = snd (snd p)" by (auto simp: on_lines_def pins_def)
  show ?case
  proof (cases "dev S")
    case True
    then show ?thesis using Suc.prems(2) r(1) r2 by (simp add: split_beta)
  next
    case False
    then have "hold S \<le> twi_dcount ?r mod 256" and rel: "release dev hold (snd (snd p) mod 256) n (S @ [Bit True]) = Some S'"
      using Suc.prems(2) by (simp_all add: d split: if_splits)
    from Suc.IH [OF pulse_lines [OF r2 this(1)] rel] False r(1) show ?thesis by (simp add: split_beta Let_def)
  qed
qed

lemma write_data_send:
  assumes "on_lines dev hold env p (S, False, False, 0) s" "\<And>S. hold S \<le> TWI_CLOCK_STRETCH slow"
  shows "fst (write_data slow env vs s) = fst (send dev vs S) \<and>
    on_lines dev hold env p (snd (send dev vs S), False, False, 0) (snd (write_data slow env vs s))"
  using assms(1)
proof (induction vs arbitrary: S s)
  case (Cons v vs)
  note w = write_byte_lines [OF Cons.prems assms(2), of v]
  show ?case using w Cons.IH [OF w(1)] by (cases "dev (S @ byte_syms v)") (simp_all add: split_beta Let_def)
qed simp

lemma read_data_receive:
  assumes "on_lines dev hold env p (S, a, False, 0) s" "\<And>S. hold S \<le> TWI_CLOCK_STRETCH slow"
  shows "fst (read_data slow env n s) = fst (receive dev n S) \<and>
    on_lines dev hold env p (snd (receive dev n S), False, False, 0) (snd (read_data slow env n s))"
  using assms(1)
proof (induction n arbitrary: S a s)
  case 0
  show ?case using read_byte_lines [OF 0 assms(2), of True] by (simp add: split_beta)
next
  case (Suc n)
  note r = read_byte_lines [OF Suc.prems assms(2), of False]
  from Suc.IH [OF r(2)] show ?case using r by (simp add: split_beta)
qed

lemma address_lines:
  assumes "on_lines dev hold env p (S, False, False, 0) s" "\<And>S. hold S \<le> TWI_CLOCK_STRETCH slow" "dev S"
  shows "on_lines dev hold env p (S @ [Start] @ byte_syms v, False, False, 0)
      (snd (twi_write_byte slow env v (snd (twi_write_start env s))))"
    "fst (twi_write_byte slow env v (snd (twi_write_start env s))) \<longleftrightarrow> \<not> dev (S @ [Start] @ byte_syms v)"
  using write_start_lines(2) [OF assms(1)] assms(3) write_byte_lines [OF _ assms(2), where S = "S @ [Start]" and a = True and v = v] by simp_all

lemma ready_lines: "ready dev hold env S s \<Longrightarrow> on_lines dev hold env (pins s) (S, False, False, 0) s"
  by (simp add: ready_def)

lemma lines_ready: "on_lines dev hold env p (S, False, False, 0) s \<Longrightarrow> ready dev hold env S s"
  by (simp add: ready_def on_lines_def)

lemma writeTo_protocol:
  fixes address :: byte and buf :: "byte list" and sendStop :: bool
  assumes "ready dev hold env S s" "\<And>S. hold S \<le> TWI_CLOCK_STRETCH slow"
  defines "P \<equiv> protocol_write dev hold (twi_dcount s mod 256) address buf sendStop S"
  shows "fst (twi_writeTo slow env address buf sendStop s) = fst P \<and>
    (\<forall>S'. snd P = Some S' \<longrightarrow> ready dev hold env S' (snd (twi_writeTo slow env address buf sendStop s)))"
proof (cases "dev S")
  case True
  define a where "a = push_bit 1 address"
  note l = ready_lines [OF assms(1)]
  note a = address_lines [OF l assms(2) True, where v = a]
  note d = write_data_send [OF a(1) assms(2), of buf]
  note stops = stop_lines [OF a(1) assms(2), of sendStop] stop_lines [OF d [THEN conjunct2] assms(2), of sendStop]
  note rel = release_lines [OF stops(2), of 10]
  have p: "snd (snd (pins s)) = twi_dcount s" by (simp add: pins_def)
  show ?thesis using True a d write_start_lines(1) [OF l] stops [THEN lines_ready] rel [THEN lines_ready]
    by (simp add: twi_writeTo_def P_def protocol_write_def split_beta Let_def a_def [symmetric] p del: One_nat_def release.simps release_line.simps)
next
  case False
  then show ?thesis using write_start_lines [OF ready_lines [OF assms(1)]] lines_ready
    by (auto simp: twi_writeTo_def P_def protocol_write_def split_beta)
qed

lemma readFrom_protocol:
  fixes address :: byte and sendStop :: bool
  assumes "ready dev hold env S s" "\<And>S. hold S \<le> TWI_CLOCK_STRETCH slow" "0 < len"
  defines "P \<equiv> protocol_read dev hold (twi_dcount s mod 256) address len sendStop S"
  shows "\<exists>s'. twi_readFrom slow env address len sendStop s = Some (fst P, fst (snd P), s') \<and>
    (\<forall>S'. snd (snd P) = Some S' \<longrightarrow> ready dev hold env S' s')"
proof (cases "dev S")
  case True
  define a where "a = push_bit 1 address OR 1"
  note l = ready_lines [OF assms(1)]
  note a = address_lines [OF l assms(2) True, where v = a]
  note d = read_data_receive [OF a(1) assms(2), of "len - 1"]
  note stops = stop_lines [OF a(1) assms(2), of sendStop] stop_lines [OF d [THEN conjunct2] assms(2), of sendStop]
  note rel = release_lines [OF stops(2), of 10]
  have p: "snd (snd (pins s)) = twi_dcount s" by (simp add: pins_def)
  show ?thesis using True a d assms(3) write_start_lines(1) [OF l] stops [THEN lines_ready] rel [THEN lines_ready]
    by (simp add: twi_readFrom_def P_def protocol_read_def split_beta Let_def a_def [symmetric] p del: One_nat_def release.simps release_line.simps)
next
  case False
  then show ?thesis using write_start_lines [OF ready_lines [OF assms(1)]] lines_ready
    by (auto simp: twi_readFrom_def P_def protocol_read_def split_beta)
qed

text \<open>
  C24: The software I2C master refines the bus protocol. From lines that are both released, against a
  device that answers to what was sent so far and, each time the clock falls, may hold it low for up
  to \<open>TWI_CLOCK_STRETCH\<close> reads after the master let it go (the limit of the waiting loops, about 100us),
  \<open>twi_writeTo\<close> and \<open>twi_readFrom\<close> (of at least one byte) return, with the code of the protocol (4 when
  the data line is held low, 2 when the address is not acknowledged, 3 when a data byte is not, 0
  otherwise) and its bytes. They have put exactly the symbols of the protocol on the lines - a bit
  only counts when the clock line really rises: start condition, address and data most significant
  bit first, an acknowledge slot after each byte, the last byte read not acknowledged, the stop
  condition if it was asked for, at most ten clock pulses to free the data line - and both lines are
  released again. Those last pulses do not wait for the clock; the statement about the lines excludes
  a device that holds the clock there for longer than the delay of a pulse.
\<close>

theorem twi_transfers_refine_protocol:
  fixes address :: byte and buf :: "byte list" and sendStop slow :: bool and len :: nat
  assumes "ready dev hold env S s" "\<And>S. hold S \<le> TWI_CLOCK_STRETCH slow"
  shows "(let P = protocol_write dev hold (twi_dcount s mod 256) address buf sendStop S; w = twi_writeTo slow env address buf sendStop s in
      fst w = fst P \<and> (\<forall>S'. snd P = Some S' \<longrightarrow> ready dev hold env S' (snd w))) \<and>
    (0 < len \<longrightarrow> (let P = protocol_read dev hold (twi_dcount s mod 256) address len sendStop S in
      \<exists>s'. twi_readFrom slow env address len sendStop s = Some (fst P, fst (snd P), s') \<and>
        (\<forall>S'. snd (snd P) = Some S' \<longrightarrow> ready dev hold env S' s')))"
  using writeTo_protocol [OF assms] readFrom_protocol [OF assms] by (simp add: Let_def)

text \<open>
  A device that acknowledges its address and one byte of data, on pins 4 and 5, and holds the clock
  for 40 reads after the address.
\<close>

definition one_byte_device :: "symbol list \<Rightarrow> bool" where
  "one_byte_device S \<longleftrightarrow> length S \<noteq> 10 \<and> length S \<noteq> 12 \<and> length S \<noteq> 19"

definition after_address :: "symbol list \<Rightarrow> nat" where
  "after_address S = (if length S = 10 then 40 else 0)"

definition bench :: inputs where
  "bench es r = (if r = GPI0 then let l = lines_of 4 5 after_address es in
       (if \<not> drives es 4 \<and> one_byte_device (syms l) then push_bit 4 1 else 0) OR
       (if \<not> drives es 5 \<and> held l = 0 then push_bit 5 1 else 0)
     else 0)"

definition bench_start :: twi where
  "bench_start = \<lparr>twi_dcount = 32, twi_sda = 4, twi_scl = 5, twi_io = \<lparr>events = [], regs = \<lambda>_. 0\<rparr>\<rparr>"

lemma bench_ready: "ready one_byte_device after_address bench [] bench_start"
  by (auto simp: ready_def on_lines_def two_pins_def wired_def level_def bench_def bench_start_def view_def bus_lines_def
      lines_of_def Let_def bit_simps)

lemma bench_in_time: "after_address S \<le> TWI_CLOCK_STRETCH slow"
  by (simp add: after_address_def TWI_CLOCK_STRETCH_def)

lemma bench_protocol:
  "fst (protocol_write one_byte_device after_address 32 0x3C [0xA5] True []) = 0"
  "fst (protocol_write one_byte_device after_address 32 0x3C [0xA5, 0x5A] True []) = 3"
  "fst (protocol_read one_byte_device after_address 32 0x3C 1 True []) = 0"
  "fst (snd (protocol_read one_byte_device after_address 32 0x3C 1 True [])) = [0xBF]"
  "map_option length (snd (protocol_write one_byte_device after_address 32 0x3C [0xA5] True [])) = Some 21"
  by (code_simp, code_simp, code_simp, code_simp, code_simp)

lemma bench_pause [simp]: "twi_dcount bench_start mod 256 = 32"
  by (simp add: bench_start_def)

theorem twi_transfers_refine_protocol_witness:
  "fst (twi_writeTo False bench 0x3C [0xA5] True bench_start) = 0 \<and>
   (\<exists>S. length S = 21 \<and> ready one_byte_device after_address bench S (snd (twi_writeTo False bench 0x3C [0xA5] True bench_start))) \<and>
   fst (twi_writeTo False bench 0x3C [0xA5, 0x5A] True bench_start) = 3 \<and>
   (\<exists>s'. twi_readFrom False bench 0x3C 1 True bench_start = Some (0, [0xBF], s'))"
proof -
  from bench_protocol(5) obtain S where "length S = 21" "snd (protocol_write one_byte_device after_address 32 0x3C [0xA5] True []) = Some S"
    by blast
  then show ?thesis
    using twi_transfers_refine_protocol [OF bench_ready bench_in_time, of "0x3C" "[0xA5]" True False 1]
      twi_transfers_refine_protocol [OF bench_ready bench_in_time, of "0x3C" "[0xA5, 0x5A]" True False 1]
    by (auto simp: bench_protocol Let_def simp del: One_nat_def)
qed

end
