(* ===== verification/Wire.thy ===== *)
theory Wire
  imports Si2c
begin

section \<open>The Wire library\<close>

text \<open>
  \<open>libraries/Wire/Wire.cpp\<close>: the class \<open>TwoWire\<close> buffers a transmission of up to 32 bytes and the bytes
  received, and hands them to the software I2C master. An index beyond a buffer is undefined
  (\<open>None\<close>), as is a request for no bytes, which \<open>twi_readFrom\<close> leaves undefined. The callbacks of the
  slave mode, which is commented out in the source, are left out.
\<close>

definition BUFFER_LENGTH :: nat where [c_defs]: "BUFFER_LENGTH = 32"

record wire =
  rxBuffer :: "byte list"
  rxBufferIndex :: nat
  rxBufferLength :: nat
  txAddress :: byte
  txBuffer :: "byte list"
  txBufferIndex :: nat
  txBufferLength :: nat
  transmitting :: bool
  write_error :: nat
  default_sda_pin :: nat
  default_scl_pin :: nat
  wire_bus :: twi

subsection \<open>Operations\<close>

definition wire_flush :: "wire \<Rightarrow> wire" where
  "wire_flush s = s\<lparr>rxBufferIndex := 0, rxBufferLength := 0, txBufferIndex := 0, txBufferLength := 0\<rparr>"

definition wire_pins :: "nat \<Rightarrow> nat \<Rightarrow> wire \<Rightarrow> wire" where
  "wire_pins sda scl s = s\<lparr>default_sda_pin := sda, default_scl_pin := scl\<rparr>"

definition wire_begin_on :: "bool \<Rightarrow> nat \<Rightarrow> nat \<Rightarrow> wire \<Rightarrow> wire" where
  "wire_begin_on slow sda scl s =
     wire_flush (s\<lparr>default_sda_pin := sda, default_scl_pin := scl, wire_bus := twi_init slow sda scl (wire_bus s)\<rparr>)"

definition wire_begin :: "bool \<Rightarrow> wire \<Rightarrow> wire" where
  "wire_begin slow s = wire_begin_on slow (default_sda_pin s) (default_scl_pin s) s"

definition wire_setClock :: "bool \<Rightarrow> nat \<Rightarrow> wire \<Rightarrow> wire" where
  "wire_setClock slow frequency s = s\<lparr>wire_bus := twi_setClock slow frequency (wire_bus s)\<rparr>"

definition wire_requestFrom :: "bool \<Rightarrow> inputs \<Rightarrow> byte \<Rightarrow> nat \<Rightarrow> bool \<Rightarrow> wire \<Rightarrow> (nat \<times> wire) option" where
  "wire_requestFrom slow env address sz sendStop s = do {
     let sz = (if sz > BUFFER_LENGTH then BUFFER_LENGTH else sz);
     (code, bs, tw) \<leftarrow> twi_readFrom slow env address sz sendStop (wire_bus s);
     let n = (if code = 0 then sz else 0);
     Some (n, s\<lparr>rxBuffer := bs @ drop (length bs) (rxBuffer s), rxBufferIndex := 0, rxBufferLength := n, wire_bus := tw\<rparr>)
   }"

definition wire_beginTransmission :: "byte \<Rightarrow> wire \<Rightarrow> wire" where
  "wire_beginTransmission address s = s\<lparr>transmitting := True, txAddress := address, txBufferIndex := 0, txBufferLength := 0\<rparr>"

definition wire_endTransmission :: "bool \<Rightarrow> inputs \<Rightarrow> bool \<Rightarrow> wire \<Rightarrow> nat \<times> wire" where
  "wire_endTransmission slow env sendStop s =
     (case twi_writeTo slow env (txAddress s) (take (txBufferLength s) (txBuffer s)) sendStop (wire_bus s) of (ret, tw) \<Rightarrow>
        (ret, s\<lparr>txBufferIndex := 0, txBufferLength := 0, transmitting := False, wire_bus := tw\<rparr>))"

definition wire_write :: "byte \<Rightarrow> wire \<Rightarrow> (nat \<times> wire) option" where
  "wire_write data s =
     (if transmitting s then
        if txBufferLength s \<ge> BUFFER_LENGTH then Some (0, s\<lparr>write_error := 1\<rparr>)
        else do {
          buf \<leftarrow> put_at (txBuffer s) (txBufferIndex s) data;
          Some (1, s\<lparr>txBuffer := buf, txBufferIndex := txBufferIndex s + 1, txBufferLength := txBufferIndex s + 1\<rparr>)
        }
      else Some (1, s))"

primrec write_loop :: "byte list \<Rightarrow> nat \<Rightarrow> wire \<Rightarrow> (nat \<times> wire) option" where
  "write_loop [] i s = Some (i, s)"
| "write_loop (d # ds) i s = do {
     (n, s) \<leftarrow> wire_write d s;
     if n = 0 then Some (i, s) else write_loop ds (i + 1) s
   }"

definition wire_write_all :: "byte list \<Rightarrow> wire \<Rightarrow> (nat \<times> wire) option" where
  "wire_write_all data s = (if transmitting s then write_loop data 0 s else Some (length data, s))"

definition wire_available :: "wire \<Rightarrow> int" where
  "wire_available s = int (rxBufferLength s) - int (rxBufferIndex s)"

definition wire_read :: "wire \<Rightarrow> (int \<times> wire) option" where
  "wire_read s =
     (if rxBufferIndex s < rxBufferLength s then do {
        v \<leftarrow> get_at (rxBuffer s) (rxBufferIndex s);
        Some (uint v, s\<lparr>rxBufferIndex := rxBufferIndex s + 1\<rparr>)
      } else Some (-1, s))"

definition wire_peek :: "wire \<Rightarrow> int option" where
  "wire_peek s =
     (if rxBufferIndex s < rxBufferLength s then map_option uint (get_at (rxBuffer s) (rxBufferIndex s)) else Some (-1))"

subsection \<open>Transfers\<close>

text \<open>\<open>n\<close> calls of \<open>read()\<close>.\<close>

primrec reads :: "nat \<Rightarrow> wire \<Rightarrow> (int list \<times> wire) option" where
  "reads 0 s = Some ([], s)"
| "reads (Suc n) s = do { (v, s) \<leftarrow> wire_read s; (vs, s) \<leftarrow> reads n s; Some (v # vs, s) }"

definition transmission :: "bool \<Rightarrow> inputs \<Rightarrow> byte \<Rightarrow> byte list \<Rightarrow> bool \<Rightarrow> wire \<Rightarrow> (nat \<times> nat \<times> wire) option" where
  "transmission slow env address data sendStop s = do {
     (n, s) \<leftarrow> wire_write_all data (wire_beginTransmission address s);
     let (ret, s) = wire_endTransmission slow env sendStop s;
     Some (n, ret, s)
   }"

definition wire_ok :: "wire \<Rightarrow> bool" where
  "wire_ok s \<longleftrightarrow> length (rxBuffer s) = 32 \<and> length (txBuffer s) = 32 \<and> txBufferIndex s = txBufferLength s \<and> txBufferLength s \<le> 32 \<and>
     rxBufferIndex s \<le> rxBufferLength s \<and> rxBufferLength s \<le> 32"

lemma write_loop_ok:
  "wire_ok s \<Longrightarrow> transmitting s \<Longrightarrow>
   \<exists>t. write_loop ds i s = Some (i + min (length ds) (32 - txBufferLength s), t) \<and> wire_ok t \<and>
     take (txBufferLength t) (txBuffer t) = take (txBufferLength s) (txBuffer s) @ take (32 - txBufferLength s) ds \<and>
     txAddress t = txAddress s \<and> wire_bus t = wire_bus s"
proof (induction ds arbitrary: i s)
  case (Cons d ds)
  show ?case
  proof (cases "txBufferLength s < 32")
    case True
    define u where "u = s\<lparr>txBuffer := (txBuffer s)[txBufferLength s := d], txBufferIndex := Suc (txBufferLength s), txBufferLength := Suc (txBufferLength s)\<rparr>"
    have w: "wire_write d s = Some (1, u)" using True Cons.prems by (simp add: wire_write_def wire_ok_def put_at_def u_def c_defs)
    have u: "wire_ok u" "transmitting u" using Cons.prems True by (simp_all add: u_def wire_ok_def)
    have "take (Suc (txBufferLength s)) ((txBuffer s)[txBufferLength s := d]) = take (txBufferLength s) (txBuffer s) @ [d]"
      using True Cons.prems(1) by (simp add: take_Suc_conv_app_nth wire_ok_def)
    moreover have "32 - txBufferLength s = Suc (32 - Suc (txBufferLength s))" using True by simp
    ultimately show ?thesis using Cons.IH [OF u, of "i + 1"] w by (auto simp: u_def)
  next
    case False
    then have "wire_write d s = Some (0, s\<lparr>write_error := 1\<rparr>)" using Cons.prems by (simp add: wire_write_def c_defs)
    then show ?thesis using False Cons.prems by (simp add: wire_ok_def)
  qed
qed simp

lemma reads_ok:
  "rxBufferIndex s + n \<le> rxBufferLength s \<Longrightarrow> rxBufferLength s \<le> length (rxBuffer s) \<Longrightarrow>
   reads n s = Some (map uint (take n (drop (rxBufferIndex s) (rxBuffer s))), s\<lparr>rxBufferIndex := rxBufferIndex s + n\<rparr>)"
proof (induction n arbitrary: s)
  case (Suc n)
  have "wire_read s = Some (uint (rxBuffer s ! rxBufferIndex s), s\<lparr>rxBufferIndex := Suc (rxBufferIndex s)\<rparr>)"
    using Suc.prems by (simp add: wire_read_def get_at_def)
  moreover have "take (Suc n) (drop (rxBufferIndex s) (rxBuffer s)) =
      rxBuffer s ! rxBufferIndex s # take n (drop (Suc (rxBufferIndex s)) (rxBuffer s))"
    using Suc.prems by (simp add: Cons_nth_drop_Suc [symmetric])
  ultimately show ?case using Suc.IH [of "s\<lparr>rxBufferIndex := Suc (rxBufferIndex s)\<rparr>"] Suc.prems by simp
qed simp

lemma length_receive [simp]: "length (fst (receive dev n S)) = Suc n"
  by (induction n arbitrary: S) (simp_all add: split_beta)

lemma length_protocol_read:
  "0 < n \<Longrightarrow> length (fst (snd (protocol_read dev hold d address n sendStop S))) =
     (if fst (protocol_read dev hold d address n sendStop S) = 0 then n else 0)"
  by (simp add: protocol_read_def Let_def split_beta)

text \<open>
  C36: The Wire library carries transfers to the bus protocol. A transmission of any bytes accepts the
  first 32 of them, returns their number, and sends exactly these to the address with the result
  code of the protocol. A request for bytes, at most 32 of them, returns how many the device
  delivered; reading that often returns them in order, and the next read returns -1. Nothing
  undefined happens, whatever the device answers and however it holds the clock, up to the
  \<open>TWI_CLOCK_STRETCH\<close> reads the bus driver waits for it; and the symbols of the protocol are on the bus,
  which is left released (unless the device holds the clock beyond the pulses that free the data line).
\<close>

theorem wire_refines_protocol:
  assumes "wire_ok s" "ready dev hold env S (wire_bus s)" "\<And>S. hold S \<le> TWI_CLOCK_STRETCH slow" "0 < n"
  shows "(\<exists>t. let r = protocol_write dev hold (twi_dcount (wire_bus s) mod 256) address (take 32 xs) sendStop S in
      transmission slow env address xs sendStop s = Some (min (length xs) 32, fst r, t) \<and>
      wire_ok t \<and> (\<forall>S'. snd r = Some S' \<longrightarrow> ready dev hold env S' (wire_bus t))) \<and>
    (\<exists>k t u. let r = protocol_read dev hold (twi_dcount (wire_bus s) mod 256) address (min n 32) sendStop S in
      k = (if fst r = 0 then min n 32 else 0) \<and> wire_requestFrom slow env address n sendStop s = Some (k, t) \<and>
      wire_ok t \<and> wire_available t = int k \<and> (\<forall>S'. snd (snd r) = Some S' \<longrightarrow> ready dev hold env S' (wire_bus t)) \<and>
      reads k t = Some (map uint (fst (snd r)), u) \<and> wire_read u = Some (-1, u))"
proof
  let ?b = "wire_beginTransmission address s"
  have b: "wire_ok ?b" "transmitting ?b" "txBufferLength ?b = 0" "txAddress ?b = address" "wire_bus ?b = wire_bus s"
    using assms(1) by (simp_all add: wire_beginTransmission_def wire_ok_def)
  from write_loop_ok [OF b(1,2), of xs 0] obtain t where t: "write_loop xs 0 ?b = Some (min (length xs) 32, t)" "wire_ok t"
    "take (txBufferLength t) (txBuffer t) = take 32 xs" "txAddress t = address" "wire_bus t = wire_bus s"
    using b by auto
  define r where "r = twi_writeTo slow env address (take 32 xs) sendStop (wire_bus s)"
  have "transmission slow env address xs sendStop s = Some (min (length xs) 32, fst r,
      t\<lparr>txBufferIndex := 0, txBufferLength := 0, transmitting := False, wire_bus := snd r\<rparr>)"
    using t b(2) by (simp add: transmission_def wire_write_all_def wire_endTransmission_def split_beta r_def)
  then show "\<exists>t. let r = protocol_write dev hold (twi_dcount (wire_bus s) mod 256) address (take 32 xs) sendStop S in
      transmission slow env address xs sendStop s = Some (min (length xs) 32, fst r, t) \<and>
      wire_ok t \<and> (\<forall>S'. snd r = Some S' \<longrightarrow> ready dev hold env S' (wire_bus t))"
    using writeTo_protocol [OF assms(2,3), of address "take 32 xs" sendStop] t(2) by (simp add: r_def wire_ok_def Let_def)
next
  define r where "r = protocol_read dev hold (twi_dcount (wire_bus s) mod 256) address (min n 32) sendStop S"
  define k where "k = (if fst r = 0 then min n 32 else 0)"
  have len: "length (fst (snd r)) = k" using length_protocol_read [of "min n 32"] assms(4) by (simp add: r_def k_def)
  from readFrom_protocol [OF assms(2,3), of "min n 32" address sendStop] assms(4) obtain b where
    b: "twi_readFrom slow env address (min n 32) sendStop (wire_bus s) = Some (fst r, fst (snd r), b)"
      "\<forall>S'. snd (snd r) = Some S' \<longrightarrow> ready dev hold env S' b"
    by (auto simp: r_def)
  define t where "t = s\<lparr>rxBuffer := fst (snd r) @ drop k (rxBuffer s), rxBufferIndex := 0, rxBufferLength := k, wire_bus := b\<rparr>"
  have "(if n > BUFFER_LENGTH then BUFFER_LENGTH else n) = min n 32" by (simp add: c_defs)
  then have req: "wire_requestFrom slow env address n sendStop s = Some (k, t)"
    using b(1) len by (simp add: wire_requestFrom_def Let_def t_def k_def)
  have k: "k \<le> 32" by (simp add: k_def)
  then have ok: "wire_ok t" using assms(1) len by (simp add: wire_ok_def t_def)
  have "reads k t = Some (map uint (fst (snd r)), t\<lparr>rxBufferIndex := k\<rparr>)"
    using reads_ok [of t k] ok len by (simp add: t_def wire_ok_def)
  moreover have "wire_read (t\<lparr>rxBufferIndex := k\<rparr>) = Some (-1, t\<lparr>rxBufferIndex := k\<rparr>)" by (simp add: wire_read_def t_def)
  ultimately show "\<exists>k t u. let r = protocol_read dev hold (twi_dcount (wire_bus s) mod 256) address (min n 32) sendStop S in
      k = (if fst r = 0 then min n 32 else 0) \<and> wire_requestFrom slow env address n sendStop s = Some (k, t) \<and>
      wire_ok t \<and> wire_available t = int k \<and> (\<forall>S'. snd (snd r) = Some S' \<longrightarrow> ready dev hold env S' (wire_bus t)) \<and>
      reads k t = Some (map uint (fst (snd r)), u) \<and> wire_read u = Some (-1, u)"
    using req ok b(2) by (auto simp: Let_def r_def [symmetric] k_def [symmetric] wire_available_def t_def)
qed

definition wire0 :: wire where
  "wire0 = \<lparr>rxBuffer = replicate 32 0, rxBufferIndex = 0, rxBufferLength = 0, txAddress = 0, txBuffer = replicate 32 0, txBufferIndex = 0,
     txBufferLength = 0, transmitting = False, write_error = 0, default_sda_pin = 4, default_scl_pin = 5, wire_bus = bench_start\<rparr>"

theorem wire_refines_protocol_witness:
  "(\<exists>t. transmission False bench 0x3C [0xA5, 0x5A] True wire0 = Some (2, 3, t)) \<and>
   (\<exists>t u. wire_requestFrom False bench 0x3C 1 True wire0 = Some (1, t) \<and> reads 1 t = Some (map uint [0xBF :: byte], u))"
proof -
  have "wire_ok wire0" by (simp add: wire_ok_def wire0_def)
  moreover have "ready one_byte_device after_address bench [] (wire_bus wire0)" using bench_ready by (simp add: wire0_def)
  moreover have "twi_dcount (wire_bus wire0) mod 256 = 32" by (simp add: wire0_def bench_start_def)
  ultimately show ?thesis
    using wire_refines_protocol [of wire0 one_byte_device after_address bench "[]" False 1 "0x3C" "[0xA5, 0x5A]" True]
      bench_protocol(1-4) bench_in_time
    by (auto simp: Let_def numeral_2_eq_2 [symmetric] simp del: reads.simps One_nat_def)
qed

end
