(* ===== verification/Periph.thy ===== *)
theory Periph
  imports Gpio
begin

section \<open>The pin matrix and the peripherals behind it\<close>

text \<open>
  \<open>core_esp31b_matrix.c\<close> (which signal a pin carries, which pin a signal is read from, which
  interrupt a source raises), the LED controller (\<open>core_esp31b_ledc_hs.c\<close>, \<open>core_esp31b_ledc_ls.c\<close>)
  and the sigma-delta modulator (\<open>core_esp31b_sigma_delta.c\<close>). All of them set bit fields of
  registers shared by several pins, signals, timers or channels, with \<open>SET_PERI_REG_BITS\<close> and its
  relatives (\<open>eagle_soc.h\<close>). The theorems say what the fields hold afterwards and that the fields of
  all others are as before. Undefined behaviour (a shift by 32 or more, a division by zero) is \<open>None\<close>.
\<close>

subsection \<open>Bit fields of registers\<close>

definition put_field :: "u32 \<Rightarrow> nat \<Rightarrow> u32 \<Rightarrow> u32 \<Rightarrow> u32" where
  "put_field m sh v w = (w AND NOT (push_bit sh m)) OR push_bit sh (v AND m)"

definition SET_PERI_REG_BITS :: "nat \<Rightarrow> u32 \<Rightarrow> u32 \<Rightarrow> nat \<Rightarrow> io \<Rightarrow> io" where
  "SET_PERI_REG_BITS a bit_map value shift s = wr (PERI a) (put_field bit_map shift value (regs s (PERI a))) s"

definition SET_PERI_REG_MASK :: "nat \<Rightarrow> u32 \<Rightarrow> io \<Rightarrow> io" where
  "SET_PERI_REG_MASK a m s = set_bits (PERI a) m s"

definition CLEAR_PERI_REG_MASK :: "nat \<Rightarrow> u32 \<Rightarrow> io \<Rightarrow> io" where
  "CLEAR_PERI_REG_MASK a m s = clear_bits (PERI a) m s"

definition BIT :: "nat \<Rightarrow> u32" where
  "BIT n = push_bit n 1"

definition field :: "nat \<Rightarrow> nat \<Rightarrow> u32 \<Rightarrow> u32" where
  "field sh k w = take_bit k (drop_bit sh w)"

lemma bit_put_field:
  "bit (put_field (mask k) sh v w) n \<longleftrightarrow> n < 32 \<and> (if sh \<le> n \<and> n < sh + k then bit v (n - sh) else bit w n)"
  by (auto simp: put_field_def bit_simps)

lemma field_put_same [simp]: "sh + k \<le> 32 \<Longrightarrow> field sh k (put_field (mask k) sh v w) = take_bit k v"
  by (rule bit_word_eqI) (auto simp: field_def bit_simps bit_put_field)

lemma field_put_other:
  "sh + k \<le> sh' \<or> sh' + k' \<le> sh \<Longrightarrow> field sh k (put_field (mask k') sh' v w) = field sh k w"
  by (rule bit_word_eqI) (auto simp: field_def bit_simps bit_put_field dest: bit_imp_le_length)

lemma bit_flag:
  "bit (w OR BIT n) m \<longleftrightarrow> bit w m \<or> m = n \<and> n < 32" "bit (w AND NOT (BIT n)) m \<longleftrightarrow> bit w m \<and> m \<noteq> n"
  by (auto simp: BIT_def bit_simps dest: bit_imp_le_length)

lemma field_flag [simp]:
  assumes "n < sh \<or> sh + k \<le> n"
  shows "field sh k (w OR BIT n) = field sh k w" "field sh k (w AND NOT (BIT n)) = field sh k w"
  by (rule bit_word_eqI; use assms in \<open>auto simp: field_def BIT_def bit_simps dest: bit_imp_le_length\<close>)+

lemma regs_SET_BITS [simp]: "regs (SET_PERI_REG_BITS a m v sh s) = (regs s)(PERI a := put_field m sh v (regs s (PERI a)))"
  by (simp add: SET_PERI_REG_BITS_def)

lemma regs_SET_MASK [simp]: "regs (SET_PERI_REG_MASK a m s) = (regs s)(PERI a := regs s (PERI a) OR m)"
  by (simp add: SET_PERI_REG_MASK_def)

lemma regs_CLEAR_MASK [simp]: "regs (CLEAR_PERI_REG_MASK a m s) = (regs s)(PERI a := regs s (PERI a) AND NOT m)"
  by (simp add: CLEAR_PERI_REG_MASK_def)

lemma drives_peri [simp]:
  "drives (events (SET_PERI_REG_BITS a m v sh s)) = drives (events s)"
  "drives (events (SET_PERI_REG_MASK a m s)) = drives (events s)"
  "drives (events (CLEAR_PERI_REG_MASK a m s)) = drives (events s)"
  by (simp_all add: SET_PERI_REG_BITS_def SET_PERI_REG_MASK_def CLEAR_PERI_REG_MASK_def set_bits_def clear_bits_def)

text \<open>The masks of the registers as powers of two.\<close>

lemma masks:
  "(3 :: u32) = mask 2" "(0x1F :: u32) = mask 5" "(0x3F :: u32) = mask 6" "(0xFF :: u32) = mask 8" "(0x3FF :: u32) = mask 10"
  "(0xFFFF :: u32) = mask 16" "(0x3FFFF :: u32) = mask 18" "(0xFFFFF :: u32) = mask 20" "(0x1FFFFFF :: u32) = mask 25"
  by (simp_all add: mask_eq_exp_minus_1)

subsection \<open>The pin matrix\<close>

definition MATRIX_DETACH_OUT_SIG :: byte where "MATRIX_DETACH_OUT_SIG = 0x80"
definition MATRIX_DETACH_IN_LOW_PIN :: nat where "MATRIX_DETACH_IN_LOW_PIN = 0x30"
definition MATRIX_DETACH_IN_LOW_HIGH :: nat where "MATRIX_DETACH_IN_LOW_HIGH = 0x38"

definition GPIO_FUNC_IN_SEL0 :: nat where "GPIO_FUNC_IN_SEL0 = 0x60004130"
definition GPIO_FUNC_OUT_SEL0 :: nat where "GPIO_FUNC_OUT_SEL0 = 0x60004198"
definition SIG_FUNC_IN_SEL :: nat where "SIG_FUNC_IN_SEL = 0x600041c0"
definition PRO_INTR_MAP_REG_A :: nat where "PRO_INTR_MAP_REG_A = 0x3ff00070"

definition pinMatrixOutAttach :: "nat \<Rightarrow> byte \<Rightarrow> io \<Rightarrow> io" where
  "pinMatrixOutAttach pin function s =
     (let s = (if function \<noteq> MATRIX_DETACH_OUT_SIG then pinMode pin OUTPUT s else s);
          s = SET_PERI_REG_BITS (GPIO_FUNC_OUT_SEL0 + (pin div 4) * 4) 0xff (ucast function) ((pin mod 4) * 8) s
      in if function = MATRIX_DETACH_OUT_SIG then pinMode pin INPUT s else s)"

definition pinMatrixOutDetach :: "nat \<Rightarrow> io \<Rightarrow> io" where
  "pinMatrixOutDetach pin s = pinMatrixOutAttach pin MATRIX_DETACH_OUT_SIG s"

text \<open>\<open>1 << function\<close> is undefined for the signals 63 to 68.\<close>

definition pinMatrixInAttach :: "nat \<Rightarrow> nat \<Rightarrow> io \<Rightarrow> io option" where
  "pinMatrixInAttach pin function s =
     (let s = SET_PERI_REG_BITS (GPIO_FUNC_IN_SEL0 + (function div 5) * 4) 0x3f (of_nat pin) ((function mod 5) * 6) s
      in if function < 6 \<or> function < 16 \<and> function > 7 \<or> function < 19 \<and> function > 16 \<or> function < 69 \<and> function > 62
         then if function < 32 then Some (SET_PERI_REG_MASK SIG_FUNC_IN_SEL (push_bit function 1) s) else None
         else Some s)"

definition pinMatrixInDetach :: "nat \<Rightarrow> bool \<Rightarrow> io \<Rightarrow> io option" where
  "pinMatrixInDetach signal high s =
     pinMatrixInAttach (if high then MATRIX_DETACH_IN_LOW_HIGH else MATRIX_DETACH_IN_LOW_PIN) signal s"

definition intrMatrixAttach :: "nat \<Rightarrow> nat \<Rightarrow> io \<Rightarrow> io" where
  "intrMatrixAttach source inum s =
     (let shift = (source mod 6) * 5;
          shift = (if shift \<ge> 15 then shift + 1 else shift)
      in SET_PERI_REG_BITS (PRO_INTR_MAP_REG_A + (source div 6) * 4) 0x1f (of_nat inum) shift s)"

text \<open>What the matrix holds: the signal on a pin, the pin of a signal, the interrupt of a source.\<close>

definition out_signal :: "io \<Rightarrow> nat \<Rightarrow> u32" where
  "out_signal s pin = field ((pin mod 4) * 8) 8 (regs s (PERI (GPIO_FUNC_OUT_SEL0 + (pin div 4) * 4)))"

definition in_pin :: "io \<Rightarrow> nat \<Rightarrow> u32" where
  "in_pin s sig = field ((sig mod 5) * 6) 6 (regs s (PERI (GPIO_FUNC_IN_SEL0 + (sig div 5) * 4)))"

definition intr_of :: "io \<Rightarrow> nat \<Rightarrow> u32" where
  "intr_of s source =
     field (source mod 6 * 5 + (if source mod 6 \<ge> 3 then 1 else 0)) 5 (regs s (PERI (PRO_INTR_MAP_REG_A + (source div 6) * 4)))"

lemma regs_pinMode_peri [simp]: "regs (pinMode pin mode s) (PERI a) = regs s (PERI a)"
  by (simp add: pinMode_def Let_def gpf_def)

text \<open>Fields of the same width, several to a word: position \<open>i\<close> is a field of the word \<open>i div n\<close>.\<close>

lemma slots_disjoint:
  assumes "i \<noteq> j" "i div n = j div n"
  shows "i mod n * k + k \<le> j mod n * k \<or> j mod n * k + k \<le> i mod n * (k :: nat)"
proof -
  have "i mod n \<noteq> j mod n" using assms by (metis mod_mult_div_eq)
  then have "Suc (i mod n) \<le> j mod n \<or> Suc (j mod n) \<le> i mod n" by linarith
  then show ?thesis by (metis add.commute mult_Suc mult_le_mono1)
qed

lemma out_signal_put [simp]:
  "out_signal (SET_PERI_REG_BITS (GPIO_FUNC_OUT_SEL0 + (pin div 4) * 4) 0xff v ((pin mod 4) * 8) s) p =
   (if p = pin then take_bit 8 v else out_signal s p)"
proof -
  have "pin mod 4 * 8 + 8 \<le> 32" by presburger
  moreover have "p \<noteq> pin \<Longrightarrow> p div 4 = pin div 4 \<Longrightarrow> p mod 4 * 8 + 8 \<le> pin mod 4 * 8 \<or> pin mod 4 * 8 + 8 \<le> p mod 4 * 8"
    using slots_disjoint [of p pin 4 8] by blast
  ultimately show ?thesis by (auto simp: out_signal_def masks field_put_other)
qed

lemma in_pin_put [simp]:
  "in_pin (SET_PERI_REG_BITS (GPIO_FUNC_IN_SEL0 + (f div 5) * 4) 0x3f v ((f mod 5) * 6) s) sig =
   (if sig = f then take_bit 6 v else in_pin s sig)"
proof -
  have "f mod 5 * 6 + 6 \<le> 32" by presburger
  moreover have "sig \<noteq> f \<Longrightarrow> sig div 5 = f div 5 \<Longrightarrow> sig mod 5 * 6 + 6 \<le> f mod 5 * 6 \<or> f mod 5 * 6 + 6 \<le> sig mod 5 * 6"
    using slots_disjoint [of sig f 5 6] by blast
  ultimately show ?thesis by (auto simp: in_pin_def masks field_put_other)
qed

lemma intr_of_attach:
  "intr_of (intrMatrixAttach source inum s) src = (if src = source then take_bit 5 (of_nat inum) else intr_of s src)"
proof -
  define pos where "pos i = i mod 6 * 5 + (if i mod 6 \<ge> 3 then 1 else 0 :: nat)" for i
  have a: "intrMatrixAttach source inum s =
      SET_PERI_REG_BITS (PRO_INTR_MAP_REG_A + (source div 6) * 4) 0x1f (of_nat inum) (pos source) s"
    unfolding intrMatrixAttach_def pos_def Let_def by (cases "source mod 6 \<ge> 3") (simp_all add: not_le)
  have g: "intr_of t i = field (pos i) 5 (regs t (PERI (PRO_INTR_MAP_REG_A + (i div 6) * 4)))" for t i
    by (simp add: intr_of_def pos_def)
  have le: "pos source + 5 \<le> 32" unfolding pos_def by presburger
  have disj: "pos src + 5 \<le> pos source \<or> pos source + 5 \<le> pos src" if "src \<noteq> source" "src div 6 = source div 6"
    using slots_disjoint [OF that, of 5] unfolding pos_def by auto
  show ?thesis using le disj unfolding a g by (auto simp: masks field_put_other)
qed

subsection \<open>The LED controller\<close>

definition LEDC_HSTIMER_CONF :: "nat \<Rightarrow> nat" where "LEDC_HSTIMER_CONF t = 0x60019000 + 0x0144 + t * 8"
definition LEDC_HSCH_CONF0 :: "nat \<Rightarrow> nat" where "LEDC_HSCH_CONF0 c = 0x60019000 + 0x0000 + c * 0x14"
definition LEDC_HSCH_HPOINT :: "nat \<Rightarrow> nat" where "LEDC_HSCH_HPOINT c = 0x60019000 + 0x0004 + c * 0x14"
definition LEDC_HSCH_DUTY :: "nat \<Rightarrow> nat" where "LEDC_HSCH_DUTY c = 0x60019000 + 0x0008 + c * 0x14"
definition LEDC_HSCH_CONF1 :: "nat \<Rightarrow> nat" where "LEDC_HSCH_CONF1 c = 0x60019000 + 0x000c + c * 0x14"

definition set_flag :: "nat \<Rightarrow> nat \<Rightarrow> bool \<Rightarrow> io \<Rightarrow> io" where
  "set_flag a n v s = (if v then SET_PERI_REG_MASK a (BIT n) s else CLEAR_PERI_REG_MASK a (BIT n) s)"

definition ledc_hs_setup_timer :: "nat \<Rightarrow> u32 \<Rightarrow> byte \<Rightarrow> io \<Rightarrow> io" where
  "ledc_hs_setup_timer timer div_num lim s =
     (let a = LEDC_HSTIMER_CONF timer;
          s = SET_PERI_REG_MASK a (BIT 24) s;
          s = SET_PERI_REG_BITS a 0x0003FFFF div_num 5 s;
          s = SET_PERI_REG_BITS a 0x0000001F (ucast lim) 0 s
      in CLEAR_PERI_REG_MASK a (BIT 24) s)"

definition ledc_hs_setup_channel :: "nat \<Rightarrow> byte \<Rightarrow> u32 \<Rightarrow> u32 \<Rightarrow> bool \<Rightarrow> u16 \<Rightarrow> u16 \<Rightarrow> u16 \<Rightarrow> io \<Rightarrow> io" where
  "ledc_hs_setup_channel channel idle hpoint duty increase num cycle scale s =
     (let s = set_flag (LEDC_HSCH_CONF0 channel) 3 (idle \<noteq> 0) s;
          s = SET_PERI_REG_BITS (LEDC_HSCH_HPOINT channel) 0x000FFFFF hpoint 0 s;
          s = SET_PERI_REG_BITS (LEDC_HSCH_DUTY channel) 0x01FFFFFF duty 0 s;
          s = set_flag (LEDC_HSCH_CONF1 channel) 30 increase s;
          s = SET_PERI_REG_BITS (LEDC_HSCH_CONF1 channel) 0x000003FF (ucast num) 20 s;
          s = SET_PERI_REG_BITS (LEDC_HSCH_CONF1 channel) 0x000003FF (ucast cycle) 10 s
      in SET_PERI_REG_BITS (LEDC_HSCH_CONF1 channel) 0x000003FF (ucast scale) 0 s)"

definition ledc_hs_attach_timer :: "nat \<Rightarrow> nat \<Rightarrow> io \<Rightarrow> io" where
  "ledc_hs_attach_timer channel timer s = SET_PERI_REG_BITS (LEDC_HSCH_CONF0 channel) 0x00000003 (of_nat timer) 0 s"

definition ledc_hs_start_channel :: "nat \<Rightarrow> io \<Rightarrow> io" where
  "ledc_hs_start_channel channel s =
     SET_PERI_REG_MASK (LEDC_HSCH_CONF0 channel) (BIT 2) (SET_PERI_REG_MASK (LEDC_HSCH_CONF1 channel) (BIT 31) s)"

definition ledc_hs_stop_channel :: "nat \<Rightarrow> io \<Rightarrow> io" where
  "ledc_hs_stop_channel channel s =
     CLEAR_PERI_REG_MASK (LEDC_HSCH_CONF0 channel) (BIT 2) (CLEAR_PERI_REG_MASK (LEDC_HSCH_CONF1 channel) (BIT 31) s)"

definition ledc_hs_attach_pin :: "nat \<Rightarrow> byte \<Rightarrow> io \<Rightarrow> io" where
  "ledc_hs_attach_pin pin channel s = pinMatrixOutAttach pin (71 + channel) s"

definition ledc_hs_detach_pin :: "nat \<Rightarrow> io \<Rightarrow> io" where
  "ledc_hs_detach_pin pin s = pinMatrixOutDetach pin s"

text \<open>The low-speed half has a second stage: \<open>PARA_UP\<close> makes it take over the parameters.\<close>

definition LEDC_LSTIMER_CONF :: "nat \<Rightarrow> nat" where "LEDC_LSTIMER_CONF t = 0x60019000 + 0x0164 + t * 8"
definition LEDC_LSCH_CONF0 :: "nat \<Rightarrow> nat" where "LEDC_LSCH_CONF0 c = 0x60019000 + 0x00a0 + c * 0x14"
definition LEDC_LSCH_HPOINT :: "nat \<Rightarrow> nat" where "LEDC_LSCH_HPOINT c = 0x60019000 + 0x00a4 + c * 0x14"
definition LEDC_LSCH_DUTY :: "nat \<Rightarrow> nat" where "LEDC_LSCH_DUTY c = 0x60019000 + 0x00a8 + c * 0x14"
definition LEDC_LSCH_CONF1 :: "nat \<Rightarrow> nat" where "LEDC_LSCH_CONF1 c = 0x60019000 + 0x00ac + c * 0x14"

definition ledc_ls_setup_timer :: "nat \<Rightarrow> u32 \<Rightarrow> byte \<Rightarrow> io \<Rightarrow> io" where
  "ledc_ls_setup_timer timer div_num lim s =
     (let a = LEDC_LSTIMER_CONF timer;
          s = SET_PERI_REG_MASK a (BIT 24) s;
          s = SET_PERI_REG_BITS a 0x0003FFFF div_num 5 s;
          s = SET_PERI_REG_BITS a 0x0000001F (ucast lim) 0 s;
          s = SET_PERI_REG_MASK a (BIT 26) s
      in CLEAR_PERI_REG_MASK a (BIT 24) s)"

definition ledc_ls_setup_channel :: "nat \<Rightarrow> byte \<Rightarrow> u32 \<Rightarrow> u32 \<Rightarrow> bool \<Rightarrow> u16 \<Rightarrow> u16 \<Rightarrow> u16 \<Rightarrow> io \<Rightarrow> io" where
  "ledc_ls_setup_channel channel idle hpoint duty increase num cycle scale s =
     (let s = set_flag (LEDC_LSCH_CONF0 channel) 3 (idle \<noteq> 0) s;
          s = SET_PERI_REG_BITS (LEDC_LSCH_HPOINT channel) 0x000FFFFF hpoint 0 s;
          s = SET_PERI_REG_BITS (LEDC_LSCH_DUTY channel) 0x01FFFFFF duty 0 s;
          s = set_flag (LEDC_LSCH_CONF1 channel) 30 increase s;
          s = SET_PERI_REG_BITS (LEDC_LSCH_CONF1 channel) 0x000003FF (ucast num) 20 s;
          s = SET_PERI_REG_BITS (LEDC_LSCH_CONF1 channel) 0x000003FF (ucast cycle) 10 s
      in SET_PERI_REG_BITS (LEDC_LSCH_CONF1 channel) 0x000003FF (ucast scale) 0 s)"

definition ledc_ls_attach_timer :: "nat \<Rightarrow> nat \<Rightarrow> io \<Rightarrow> io" where
  "ledc_ls_attach_timer channel timer s = SET_PERI_REG_BITS (LEDC_LSCH_CONF0 channel) 0x00000003 (of_nat timer) 0 s"

definition ledc_ls_start_channel :: "nat \<Rightarrow> io \<Rightarrow> io" where
  "ledc_ls_start_channel channel s =
     (let s = SET_PERI_REG_MASK (LEDC_LSCH_CONF1 channel) (BIT 31) s;
          s = SET_PERI_REG_MASK (LEDC_LSCH_CONF0 channel) (BIT 2) s
      in SET_PERI_REG_MASK (LEDC_LSCH_CONF0 channel) (BIT 4) s)"

definition ledc_ls_stop_channel :: "nat \<Rightarrow> io \<Rightarrow> io" where
  "ledc_ls_stop_channel channel s =
     (let s = CLEAR_PERI_REG_MASK (LEDC_LSCH_CONF1 channel) (BIT 31) s;
          s = CLEAR_PERI_REG_MASK (LEDC_LSCH_CONF0 channel) (BIT 2) s
      in CLEAR_PERI_REG_MASK (LEDC_LSCH_CONF0 channel) (BIT 4) s)"

definition ledc_ls_attach_pin :: "nat \<Rightarrow> byte \<Rightarrow> io \<Rightarrow> io" where
  "ledc_ls_attach_pin pin channel s = pinMatrixOutAttach pin (79 + channel) s"

definition ledc_ls_detach_pin :: "nat \<Rightarrow> io \<Rightarrow> io" where
  "ledc_ls_detach_pin pin s = pinMatrixOutDetach pin s"

subsection \<open>The sigma-delta modulator\<close>

definition SIGMADELTA :: "nat \<Rightarrow> nat" where "SIGMADELTA c = 0x60004f00 + c * 4"
definition SIGMADELTA_CG :: nat where "SIGMADELTA_CG = 0x60004f20"

definition sd_detach_pin :: "nat \<Rightarrow> io \<Rightarrow> io" where
  "sd_detach_pin pin s = pinMatrixOutDetach pin s"

definition sd_attach_pin :: "nat \<Rightarrow> byte \<Rightarrow> io \<Rightarrow> io" where
  "sd_attach_pin pin channel s = pinMatrixOutAttach pin (100 + channel) s"

definition sd_set_prescale :: "nat \<Rightarrow> byte \<Rightarrow> io \<Rightarrow> io" where
  "sd_set_prescale channel prescale s =
     (let s = SET_PERI_REG_BITS (SIGMADELTA channel) 0xFF (ucast prescale) 8 s;
          s = CLEAR_PERI_REG_MASK SIGMADELTA_CG (BIT 31) s
      in SET_PERI_REG_MASK SIGMADELTA_CG (BIT 31) s)"

definition sd_set_freq :: "nat \<Rightarrow> u32 \<Rightarrow> io \<Rightarrow> io option" where
  "sd_set_freq channel freq s =
     (if freq * 32 = 0 then None
      else let prescale = 10000000 div (freq * 32) - 1;
               prescale = (if prescale > 0xFF then 0xFF else prescale)
           in Some (sd_set_prescale channel (ucast prescale) s))"

definition sd_write :: "nat \<Rightarrow> byte \<Rightarrow> io \<Rightarrow> io" where
  "sd_write channel in' s = SET_PERI_REG_BITS (SIGMADELTA channel) 0xFF (ucast (in' + 128)) 0 s"

subsection \<open>What the LED controller holds\<close>

text \<open>
  The sixteen channels and eight timers of the controller: the low-speed channels and timers follow
  the high-speed ones in the register file.
\<close>

record led_channel =
  ch_idle :: bool
  ch_timer :: u32
  ch_out :: bool
  ch_up :: bool
  ch_hpoint :: u32
  ch_duty :: u32
  ch_start :: bool
  ch_increase :: bool
  ch_num :: u32
  ch_cycle :: u32
  ch_scale :: u32

record led_timer =
  tm_reset :: bool
  tm_div :: u32
  tm_lim :: u32
  tm_up :: bool

definition ch_reg :: "nat \<Rightarrow> nat \<Rightarrow> nat" where
  "ch_reg k j = 0x60019000 + k * 0x14 + 4 * j"

definition tm_reg :: "nat \<Rightarrow> nat" where
  "tm_reg t = 0x60019144 + t * 8"

definition channel_of :: "io \<Rightarrow> nat \<Rightarrow> led_channel" where
  "channel_of s k =
     (let conf0 = regs s (PERI (ch_reg k 0)); conf1 = regs s (PERI (ch_reg k 3)) in
      \<lparr>ch_idle = bit conf0 3, ch_timer = field 0 2 conf0, ch_out = bit conf0 2, ch_up = bit conf0 4,
       ch_hpoint = field 0 20 (regs s (PERI (ch_reg k 1))), ch_duty = field 0 25 (regs s (PERI (ch_reg k 2))),
       ch_start = bit conf1 31, ch_increase = bit conf1 30,
       ch_num = field 20 10 conf1, ch_cycle = field 10 10 conf1, ch_scale = field 0 10 conf1\<rparr>)"

definition timer_of :: "io \<Rightarrow> nat \<Rightarrow> led_timer" where
  "timer_of s t =
     (let conf = regs s (PERI (tm_reg t)) in
      \<lparr>tm_reset = bit conf 24, tm_div = field 5 18 conf, tm_lim = field 0 5 conf, tm_up = bit conf 26\<rparr>)"

definition ledc :: "io \<Rightarrow> led_channel list \<times> led_timer list" where
  "ledc s = (map (channel_of s) [0..<16], map (timer_of s) [0..<8])"

lemma ch_reg_eq [simp]: "j < 5 \<Longrightarrow> j' < 5 \<Longrightarrow> ch_reg k j = ch_reg k' j' \<longleftrightarrow> k = k' \<and> j = j'"
proof -
  assume j: "j < 5" "j' < 5"
  have "(5 * a + i) div 5 = a \<and> (5 * a + i) mod 5 = i" if "i < 5" for a i :: nat using that by simp
  from this [OF j(1), of k] this [OF j(2), of k'] have "5 * k + j = 5 * k' + j' \<longleftrightarrow> k = k' \<and> j = j'" by metis
  moreover have "ch_reg k j = ch_reg k' j' \<longleftrightarrow> 5 * k + j = 5 * k' + j'" unfolding ch_reg_def by linarith
  ultimately show ?thesis by simp
qed

lemma ch_reg_neq [simp]: "j < 5 \<Longrightarrow> k < 16 \<Longrightarrow> ch_reg k j \<noteq> tm_reg t" "j < 5 \<Longrightarrow> k < 16 \<Longrightarrow> tm_reg t \<noteq> ch_reg k j"
  unfolding ch_reg_def tm_reg_def by linarith+

lemma tm_reg_eq [simp]: "tm_reg t = tm_reg t' \<longleftrightarrow> t = t'"
  by (simp add: tm_reg_def)

lemma ledc_addresses:
  "LEDC_HSCH_CONF0 c = ch_reg c 0" "LEDC_HSCH_HPOINT c = ch_reg c 1" "LEDC_HSCH_DUTY c = ch_reg c 2" "LEDC_HSCH_CONF1 c = ch_reg c 3"
  "LEDC_LSCH_CONF0 c = ch_reg (8 + c) 0" "LEDC_LSCH_HPOINT c = ch_reg (8 + c) 1" "LEDC_LSCH_DUTY c = ch_reg (8 + c) 2"
  "LEDC_LSCH_CONF1 c = ch_reg (8 + c) 3" "LEDC_HSTIMER_CONF t = tm_reg t" "LEDC_LSTIMER_CONF t = tm_reg (4 + t)"
  by (simp_all add: ch_reg_def tm_reg_def LEDC_HSCH_CONF0_def LEDC_HSCH_HPOINT_def LEDC_HSCH_DUTY_def LEDC_HSCH_CONF1_def
      LEDC_LSCH_CONF0_def LEDC_LSCH_HPOINT_def LEDC_LSCH_DUTY_def LEDC_LSCH_CONF1_def LEDC_HSTIMER_CONF_def LEDC_LSTIMER_CONF_def)

text \<open>An operation on the registers of one channel or of one timer changes its entry only.\<close>

lemma map_upt_update:
  "(\<And>i. i < n \<Longrightarrow> i \<noteq> k \<Longrightarrow> f i = g i) \<Longrightarrow> map f [0..<n] = (map g [0..<n])[k := f k]"
  by (rule nth_equalityI) (simp_all add: nth_list_update_if)

lemma ledc_channel_op:
  assumes "k < 16" "\<And>r. r \<notin> (\<lambda>j. PERI (ch_reg k j)) ` {0..<4} \<Longrightarrow> regs s' r = regs s r"
  shows "ledc s' = ((fst (ledc s))[k := channel_of s' k], snd (ledc s))"
proof -
  have "channel_of s' i = channel_of s i" if "i \<noteq> k" for i
    using that by (auto simp: channel_of_def Let_def assms(2) image_iff)
  moreover have "timer_of s' t = timer_of s t" for t
    using assms(1) by (auto simp: timer_of_def Let_def assms(2) image_iff)
  ultimately show ?thesis
    unfolding ledc_def fst_conv snd_conv by (intro arg_cong2 [of _ _ _ _ Pair] map_upt_update map_cong) simp_all
qed

lemma ledc_timer_op:
  assumes "\<And>r. r \<noteq> PERI (tm_reg t) \<Longrightarrow> regs s' r = regs s r"
  shows "ledc s' = (fst (ledc s), (snd (ledc s))[t := timer_of s' t])"
proof -
  have "timer_of s' i = timer_of s i" if "i \<noteq> t" for i
    using that by (auto simp: timer_of_def Let_def assms)
  moreover have "channel_of s' k = channel_of s k" if "k < 16" for k
    using that by (auto simp: channel_of_def Let_def assms)
  ultimately show ?thesis
    unfolding ledc_def fst_conv snd_conv by (intro arg_cong2 [of _ _ _ _ Pair] map_upt_update map_cong) simp_all
qed

lemmas ledc_field_simps = masks bit_put_field bit_flag field_put_other

lemma ls_as_hs:
  "ledc_ls_setup_channel c = ledc_hs_setup_channel (8 + c)" "ledc_ls_attach_timer c = ledc_hs_attach_timer (8 + c)"
  by (simp_all add: fun_eq_iff ledc_addresses ledc_ls_setup_channel_def ledc_hs_setup_channel_def
      ledc_ls_attach_timer_def ledc_hs_attach_timer_def)

lemma ledc_setup_channel:
  assumes "k < 16"
  shows "ledc (ledc_hs_setup_channel k idle hpoint duty increase num cycle scale s) =
    ((fst (ledc s))[k := (channel_of s k)\<lparr>ch_idle := idle \<noteq> 0, ch_hpoint := take_bit 20 hpoint, ch_duty := take_bit 25 duty,
       ch_increase := increase, ch_num := take_bit 10 (ucast num), ch_cycle := take_bit 10 (ucast cycle),
       ch_scale := take_bit 10 (ucast scale)\<rparr>], snd (ledc s))" (is "ledc ?s = _")
  by (subst ledc_channel_op [of k ?s s])
    (use assms in \<open>auto simp: channel_of_def ledc_hs_setup_channel_def Let_def set_flag_def ledc_addresses image_iff ledc_field_simps\<close>)

lemma ledc_attach_timer:
  assumes "k < 16"
  shows "ledc (ledc_hs_attach_timer k t s) = ((fst (ledc s))[k := (channel_of s k)\<lparr>ch_timer := take_bit 2 (of_nat t)\<rparr>], snd (ledc s))"
    (is "ledc ?s = _")
  by (subst ledc_channel_op [of k ?s s])
    (use assms in \<open>auto simp: channel_of_def ledc_hs_attach_timer_def Let_def ledc_addresses image_iff ledc_field_simps\<close>)

lemma ledc_hs_start_stop:
  assumes "c < 8"
  shows "ledc (ledc_hs_start_channel c s) = ((fst (ledc s))[c := (channel_of s c)\<lparr>ch_start := True, ch_out := True\<rparr>], snd (ledc s))"
      (is "ledc ?a = _")
    and "ledc (ledc_hs_stop_channel c s) = ((fst (ledc s))[c := (channel_of s c)\<lparr>ch_start := False, ch_out := False\<rparr>], snd (ledc s))"
      (is "ledc ?b = _")
  by (subst ledc_channel_op [of c ?a s], use assms in
      \<open>auto simp: channel_of_def ledc_hs_start_channel_def Let_def ledc_addresses image_iff ledc_field_simps\<close>)
    (subst ledc_channel_op [of c ?b s], use assms in
      \<open>auto simp: channel_of_def ledc_hs_stop_channel_def Let_def ledc_addresses image_iff ledc_field_simps\<close>)

lemma ledc_ls_start_stop:
  assumes "c < 8"
  shows "ledc (ledc_ls_start_channel c s) =
      ((fst (ledc s))[8 + c := (channel_of s (8 + c))\<lparr>ch_start := True, ch_out := True, ch_up := True\<rparr>], snd (ledc s))"
      (is "ledc ?a = _")
    and "ledc (ledc_ls_stop_channel c s) =
      ((fst (ledc s))[8 + c := (channel_of s (8 + c))\<lparr>ch_start := False, ch_out := False, ch_up := False\<rparr>], snd (ledc s))"
      (is "ledc ?b = _")
  by (subst ledc_channel_op [of "8 + c" ?a s], use assms in
      \<open>auto simp: channel_of_def ledc_ls_start_channel_def Let_def ledc_addresses image_iff ledc_field_simps\<close>)
    (subst ledc_channel_op [of "8 + c" ?b s], use assms in
      \<open>auto simp: channel_of_def ledc_ls_stop_channel_def Let_def ledc_addresses image_iff ledc_field_simps\<close>)

lemma ledc_setup_timer:
  shows "ledc (ledc_hs_setup_timer t d l s) =
      (fst (ledc s), (snd (ledc s))[t := (timer_of s t)\<lparr>tm_reset := False, tm_div := take_bit 18 d, tm_lim := take_bit 5 (ucast l)\<rparr>])"
      (is "ledc ?a = _")
    and "ledc (ledc_ls_setup_timer t d l s) =
      (fst (ledc s), (snd (ledc s))[4 + t := \<lparr>tm_reset = False, tm_div = take_bit 18 d, tm_lim = take_bit 5 (ucast l), tm_up = True\<rparr>])"
      (is "ledc ?b = _")
  by (subst ledc_timer_op [of t ?a s],
      auto simp: timer_of_def ledc_hs_setup_timer_def Let_def ledc_addresses ledc_field_simps)
    (subst ledc_timer_op [of "4 + t" ?b s],
      auto simp: timer_of_def ledc_ls_setup_timer_def Let_def ledc_addresses ledc_field_simps)

subsection \<open>Theorems\<close>

lemma signals_pinMode [simp]:
  "out_signal (pinMode pin mode s) p = out_signal s p" "in_pin (pinMode pin mode s) g = in_pin s g"
  by (simp_all add: out_signal_def in_pin_def)

lemma out_signal_in_sel:
  "f < 130 \<Longrightarrow> out_signal (SET_PERI_REG_BITS (GPIO_FUNC_IN_SEL0 + f div 5 * 4) m v sh s) p = out_signal s p"
  "p < 40 \<Longrightarrow> out_signal (SET_PERI_REG_MASK SIG_FUNC_IN_SEL m s) p = out_signal s p"
  "g < 130 \<Longrightarrow> in_pin (SET_PERI_REG_BITS (GPIO_FUNC_OUT_SEL0 + p div 4 * 4) m v sh s) g = in_pin s g"
  "g < 130 \<Longrightarrow> in_pin (SET_PERI_REG_MASK SIG_FUNC_IN_SEL m s) g = in_pin s g"
  by (auto simp: out_signal_def in_pin_def GPIO_FUNC_IN_SEL0_def GPIO_FUNC_OUT_SEL0_def SIG_FUNC_IN_SEL_def)

lemma take_bit_ucast_byte: "take_bit 8 (ucast (b :: byte) :: u32) = ucast b"
  by (rule bit_word_eqI) (auto simp: bit_simps dest: bit_imp_le_length)

text \<open>
  C31: The pin matrix routes what it is told to route and nothing else. \<open>pinMatrixOutAttach\<close> puts a
  signal on a pin, drives the pin - or stops driving it for the signal that detaches - and leaves the
  signals of all other pins and the sources of all input signals alone. \<open>pinMatrixInAttach\<close> connects
  an input signal to a pin and leaves the other input signals and the pins' outputs alone; only the
  signals 63 to 68, for which it shifts by more than 31, are excepted. \<open>intrMatrixAttach\<close> maps one
  interrupt source and leaves the others alone.
\<close>

theorem matrix_routes:
  assumes "f < 130" "f < 63 \<or> 68 < f" "\<not> no_pin pin"
  shows "(\<forall>p. out_signal (pinMatrixOutAttach pin sig s) p = (if p = pin then ucast sig else out_signal s p)) \<and>
    (\<forall>g < 130. in_pin (pinMatrixOutAttach pin sig s) g = in_pin s g) \<and>
    drives (events (pinMatrixOutAttach pin sig s)) = (drives (events s))(pin := sig \<noteq> MATRIX_DETACH_OUT_SIG) \<and>
    (\<exists>s'. pinMatrixInAttach pin f s = Some s' \<and>
       (\<forall>g < 130. in_pin s' g = (if g = f then of_nat pin else in_pin s g)) \<and>
       (\<forall>p < 40. out_signal s' p = out_signal s p)) \<and>
    (\<forall>j. intr_of (intrMatrixAttach source inum s) j = (if j = source then take_bit 5 (of_nat inum) else intr_of s j))"
proof (intro conjI)
  have pin: "take_bit 6 (of_nat pin :: u32) = of_nat pin"
    using is_pin [OF assms(3)] by (simp add: take_bit_eq_mod unat_arith_simps(3) unat_mod unat_of_nat)
  show "\<forall>p. out_signal (pinMatrixOutAttach pin sig s) p = (if p = pin then ucast sig else out_signal s p)"
    by (simp add: pinMatrixOutAttach_def Let_def take_bit_ucast_byte)
  show "\<forall>g < 130. in_pin (pinMatrixOutAttach pin sig s) g = in_pin s g"
    by (simp add: pinMatrixOutAttach_def Let_def out_signal_in_sel)
  show "drives (events (pinMatrixOutAttach pin sig s)) = (drives (events s))(pin := sig \<noteq> MATRIX_DETACH_OUT_SIG)"
    using assms(3) by (simp add: pinMatrixOutAttach_def Let_def pinMode_levels INPUT_def OUTPUT_def)
  show "\<exists>s'. pinMatrixInAttach pin f s = Some s' \<and>
      (\<forall>g < 130. in_pin s' g = (if g = f then of_nat pin else in_pin s g)) \<and> (\<forall>p < 40. out_signal s' p = out_signal s p)"
    using assms pin by (auto simp: pinMatrixInAttach_def Let_def out_signal_in_sel simp del: push_bit_of_1)
  show "\<forall>j. intr_of (intrMatrixAttach source inum s) j = (if j = source then take_bit 5 (of_nat inum) else intr_of s j)"
    by (simp add: intr_of_attach)
qed

definition blank_io :: io where
  "blank_io = \<lparr>events = [], regs = \<lambda>_. 0\<rparr>"

theorem matrix_routes_witness:
  "out_signal (pinMatrixOutAttach 18 25 blank_io) 18 = 25 \<and> drives (events (pinMatrixOutAttach 18 25 blank_io)) 18 \<and>
   \<not> drives (events (pinMatrixOutAttach 18 0x80 blank_io)) 18 \<and>
   (\<exists>s'. pinMatrixInAttach 18 14 blank_io = Some s' \<and> in_pin s' 14 = 18 \<and> in_pin s' 17 = in_pin blank_io 17)"
proof -
  have "\<not> no_pin 18" by (simp add: no_pin_def esp31b_gpioToFn_def)
  then show ?thesis
    using matrix_routes [of 14 18 25 blank_io 0 0] matrix_routes [of 14 18 "0x80" blank_io 0 0]
    by (auto simp: MATRIX_DETACH_OUT_SIG_def)
qed

text \<open>
  C32: The LED controller, seen as its sixteen channels and eight timers: setting up a timer, setting up
  a channel, choosing its timer, starting and stopping it change the parameters of that timer or
  channel, as many bits of each as the hardware has, and no parameter of any other, for the
  high-speed half (channels 0 to 7, timers 0 to 3) and for the low-speed half behind it.
\<close>

theorem ledc_refines:
  assumes "c < 8" "t < 4" "ledc s = (chs, tms)"
  shows "ledc (ledc_hs_setup_channel c idle hpoint duty increase num cycle scale s) =
      (chs[c := (chs ! c)\<lparr>ch_idle := idle \<noteq> 0, ch_hpoint := take_bit 20 hpoint, ch_duty := take_bit 25 duty, ch_increase := increase,
         ch_num := take_bit 10 (ucast num), ch_cycle := take_bit 10 (ucast cycle), ch_scale := take_bit 10 (ucast scale)\<rparr>], tms) \<and>
    ledc (ledc_ls_setup_channel c idle hpoint duty increase num cycle scale s) =
      (chs[8 + c := (chs ! (8 + c))\<lparr>ch_idle := idle \<noteq> 0, ch_hpoint := take_bit 20 hpoint, ch_duty := take_bit 25 duty, ch_increase := increase,
         ch_num := take_bit 10 (ucast num), ch_cycle := take_bit 10 (ucast cycle), ch_scale := take_bit 10 (ucast scale)\<rparr>], tms) \<and>
    ledc (ledc_hs_attach_timer c t s) = (chs[c := (chs ! c)\<lparr>ch_timer := of_nat t\<rparr>], tms) \<and>
    ledc (ledc_ls_attach_timer c t s) = (chs[8 + c := (chs ! (8 + c))\<lparr>ch_timer := of_nat t\<rparr>], tms) \<and>
    ledc (ledc_hs_start_channel c s) = (chs[c := (chs ! c)\<lparr>ch_start := True, ch_out := True\<rparr>], tms) \<and>
    ledc (ledc_hs_stop_channel c s) = (chs[c := (chs ! c)\<lparr>ch_start := False, ch_out := False\<rparr>], tms) \<and>
    ledc (ledc_ls_start_channel c s) = (chs[8 + c := (chs ! (8 + c))\<lparr>ch_start := True, ch_out := True, ch_up := True\<rparr>], tms) \<and>
    ledc (ledc_ls_stop_channel c s) = (chs[8 + c := (chs ! (8 + c))\<lparr>ch_start := False, ch_out := False, ch_up := False\<rparr>], tms) \<and>
    ledc (ledc_hs_setup_timer t d l s) =
      (chs, tms[t := (tms ! t)\<lparr>tm_reset := False, tm_div := take_bit 18 d, tm_lim := take_bit 5 (ucast l)\<rparr>]) \<and>
    ledc (ledc_ls_setup_timer t d l s) =
      (chs, tms[4 + t := \<lparr>tm_reset = False, tm_div = take_bit 18 d, tm_lim = take_bit 5 (ucast l), tm_up = True\<rparr>])"
proof -
  have v: "chs ! c = channel_of s c" "chs ! (8 + c) = channel_of s (8 + c)" "tms ! t = timer_of s t"
    using assms by (auto simp: ledc_def simp del: upt_Suc upt_rec_numeral)
  have "take_bit 2 (of_nat t :: u32) = of_nat t"
    using assms(2) by (simp add: take_bit_eq_mod unat_arith_simps(3) unat_mod unat_of_nat)
  then show ?thesis
    using assms unfolding v
    by (simp only: ls_as_hs ledc_setup_channel ledc_attach_timer ledc_hs_start_stop ledc_ls_start_stop ledc_setup_timer
        fst_conv snd_conv)
qed

theorem ledc_refines_witness:
  "fst (ledc (ledc_hs_start_channel 3 blank_io)) = (fst (ledc blank_io))[3 := (fst (ledc blank_io) ! 3)\<lparr>ch_start := True, ch_out := True\<rparr>]"
  using ledc_refines [of 3 0 blank_io "fst (ledc blank_io)" "snd (ledc blank_io)" 0 0 0 False 0 0 0 0 0] by simp

text \<open>
  The prescaler of a channel: the quotient for frequencies from 1221 to 312500 Hz; below, the largest
  prescaler; above, the largest prescaler as well - the slowest setting for the fastest request.
\<close>

lemma sd_set_freq_prescale:
  assumes "0 < unat freq" "unat freq < 2 ^ 27" "c < 8"
  shows "\<exists>s'. sd_set_freq c freq s = Some s' \<and>
    field 8 8 (regs s' (PERI (SIGMADELTA c))) =
      of_nat (if 312500 < unat freq then 255 else min 255 (10000000 div (unat freq * 32) - 1))"
proof -
  have u: "unat (freq * 32) = unat freq * 32"
    using assms(2) by (subst unat_mult_lem [THEN iffD1]) simp_all
  then have nz: "freq * 32 \<noteq> 0" using assms(1) by (metis mult_is_0 neq0_conv unat_0 zero_neq_numeral)
  define q where "q = 10000000 div (unat freq * 32)"
  have q: "10000000 div (freq * 32) = of_nat q"
  proof -
    have "unat (10000000 div (freq * 32)) = q" unfolding q_def by (simp add: unat_div u)
    then have "of_nat (unat (10000000 div (freq * 32))) = (of_nat q :: u32)" by simp
    then show ?thesis unfolding of_nat_unat by simp
  qed
  have "q \<le> 10000000 div 1" unfolding q_def using assms(1) by (intro div_le_mono2) simp_all
  then have small: "q - 1 < 2 ^ 32" by simp
  have zero: "q = 0 \<longleftrightarrow> 312500 < unat freq"
    unfolding q_def using assms(1) by (simp add: div_eq_0_iff)
  define p where "p = (if (of_nat q - 1 :: u32) > 0xFF then 0xFF else of_nat q - 1 :: u32)"
  have p: "p = of_nat (if 312500 < unat freq then 255 else min 255 (q - 1))"
  proof (cases "q = 0")
    case False
    then have m: "of_nat q - (1 :: u32) = of_nat (q - 1)" by (simp add: of_nat_diff)
    have "(255 :: u32) < of_nat (q - 1) \<longleftrightarrow> 255 < q - 1"
      using small by (simp add: word_less_nat_alt unat_of_nat)
    then show ?thesis using False zero unfolding p_def m by (simp add: min_def)
  qed (use zero in \<open>simp add: p_def\<close>)
  have b: "take_bit 8 (ucast (ucast p :: byte) :: u32) = p"
  proof -
    have "take_bit 8 (ucast (ucast p :: byte) :: u32) = take_bit 8 p" by (rule bit_word_eqI) (auto simp: bit_simps)
    also have "\<dots> = p"
      unfolding p by (simp add: take_bit_eq_mod unat_arith_simps(3) unat_mod unat_of_nat min_def)
    finally show ?thesis .
  qed
  have "sd_set_freq c freq s = Some (sd_set_prescale c (ucast p) s)"
    using nz by (simp add: sd_set_freq_def Let_def q p_def)
  moreover have "field 8 8 (regs (sd_set_prescale c (ucast p) s) (PERI (SIGMADELTA c))) = p"
    using assms(3) b by (simp add: sd_set_prescale_def Let_def SIGMADELTA_def SIGMADELTA_CG_def masks)
  ultimately show ?thesis unfolding q_def [symmetric] p [symmetric] by simp
qed

end
