(* ===== verification/Fifo.thy ===== *)
theory Fifo
  imports Prelude
begin

section \<open>Bounded queues\<close>

text \<open>
  What the clients of a bounded queue rely on: a locale with the laws of putting an element in at
  the end and taking one out at the front, and what follows for any sequence of such operations. The
  queue of free buffers of the I2S driver and the ring buffer \<open>cbuf\<close> are instances.
\<close>

datatype 'a fifo_op = Push 'a | Pop

text \<open>
  A sequence of operations: a push that is refused and a pop that finds nothing leave the queue
  alone; what was accepted and what came out are recorded.
\<close>

primrec fifo_run :: "('a \<Rightarrow> 's \<Rightarrow> 's option) \<Rightarrow> ('s \<Rightarrow> ('a \<times> 's) option) \<Rightarrow> 'a fifo_op list \<Rightarrow> 's \<Rightarrow> 'a list \<times> 'a list \<times> 's" where
  "fifo_run push pop [] s = ([], [], s)"
| "fifo_run push pop (c # cs) s =
     (case c of
        Push a \<Rightarrow> (case push a s of
            None \<Rightarrow> fifo_run push pop cs s
          | Some s' \<Rightarrow> (case fifo_run push pop cs s' of (ins, outs, t) \<Rightarrow> (a # ins, outs, t)))
      | Pop \<Rightarrow> (case pop s of
            None \<Rightarrow> fifo_run push pop cs s
          | Some (a, s') \<Rightarrow> (case fifo_run push pop cs s' of (ins, outs, t) \<Rightarrow> (ins, a # outs, t))))"

locale bounded_fifo =
  fixes ok :: "'s \<Rightarrow> bool"
    and items :: "'s \<Rightarrow> 'a list"
    and cap :: "'s \<Rightarrow> nat"
    and push :: "'a \<Rightarrow> 's \<Rightarrow> 's option"
    and pop :: "'s \<Rightarrow> ('a \<times> 's) option"
  assumes bound: "ok s \<Longrightarrow> length (items s) \<le> cap s"
    and push_room: "ok s \<Longrightarrow> length (items s) < cap s \<Longrightarrow>
      \<exists>s'. push a s = Some s' \<and> ok s' \<and> items s' = items s @ [a] \<and> cap s' = cap s"
    and push_full: "ok s \<Longrightarrow> length (items s) = cap s \<Longrightarrow> push a s = None"
    and pop_some: "ok s \<Longrightarrow> items s = a # as \<Longrightarrow> \<exists>s'. pop s = Some (a, s') \<and> ok s' \<and> items s' = as \<and> cap s' = cap s"
    and pop_none: "ok s \<Longrightarrow> items s = [] \<Longrightarrow> pop s = None"
begin

lemma push_cases:
  assumes "ok s"
  obtains "push a s = None" "length (items s) = cap s"
    | s' where "push a s = Some s'" "ok s'" "items s' = items s @ [a]" "cap s' = cap s"
  using push_room [OF assms, of a] push_full [OF assms, of a] bound [OF assms] by (metis le_neq_implies_less)

lemma pop_cases:
  assumes "ok s"
  obtains "pop s = None" "items s = []"
    | a as s' where "pop s = Some (a, s')" "items s = a # as" "ok s'" "items s' = as" "cap s' = cap s"
proof (cases "items s")
  case Nil
  then show ?thesis using pop_none [OF assms] that(1) by simp
next
  case (Cons a as)
  then show ?thesis using pop_some [OF assms Cons] that(2) by blast
qed

text \<open>Nothing is lost, nothing is made up, and the order is kept.\<close>

lemma fifo_order:
  "ok s \<Longrightarrow> fifo_run push pop cs s = (ins, outs, t) \<Longrightarrow>
   ok t \<and> cap t = cap s \<and> items s @ ins = outs @ items t \<and> length (items t) \<le> cap t"
proof (induction cs arbitrary: s ins outs t)
  case Nil
  then show ?case by (auto simp: bound)
next
  case (Cons c cs)
  show ?case
  proof (cases c)
    case (Push a)
    show ?thesis
    proof (rule push_cases [OF Cons.prems(1), of a])
      fix s' assume s': "push a s = Some s'" "ok s'" "items s' = items s @ [a]" "cap s' = cap s"
      obtain i o' t' where r: "fifo_run push pop cs s' = (i, o', t')" by (metis prod_cases3)
      show ?thesis using Cons.IH [OF s'(2) r] Cons.prems(2) s' r Push by auto
    qed (use Cons.prems Cons.IH [OF Cons.prems(1)] Push in \<open>simp add: bound\<close>)
  next
    case Pop
    show ?thesis
    proof (rule pop_cases [OF Cons.prems(1)])
      fix a as s' assume s': "pop s = Some (a, s')" "items s = a # as" "ok s'" "items s' = as" "cap s' = cap s"
      obtain i o' t' where r: "fifo_run push pop cs s' = (i, o', t')" by (metis prod_cases3)
      show ?thesis using Cons.IH [OF s'(3) r] Cons.prems(2) s' r Pop by auto
    qed (use Cons.prems Cons.IH [OF Cons.prems(1)] Pop in \<open>simp add: bound\<close>)
  qed
qed

end

end
