(* ===== verification/I2s.thy ===== *)
theory I2s
  imports Periph Fifo
begin

section \<open>Sound output\<close>

text \<open>
  \<open>core_esp31b_i2s.c\<close>. The DMA engine plays eight buffers of 64 samples in a circle. When it has
  finished one, an interrupt clears that buffer and puts it at the end of a queue of free buffers;
  \<open>i2s_write_sample\<close> takes the buffer at the front of the queue and fills it. The state is that of the
  file, with the heap blocks of the buffers by address. Undefined behaviour (an index beyond an
  array, a store through a null pointer, a division by zero) is \<open>None\<close>. The address of the array of
  descriptors, which the linker chooses, and the addresses \<open>malloc\<close> returns are parameters.
\<close>

subsection \<open>State\<close>

definition SLC_BUF_CNT :: nat where [c_defs]: "SLC_BUF_CNT = 8"
definition SLC_BUF_LEN :: nat where [c_defs]: "SLC_BUF_LEN = 64"

record slc_queue_item =
  blocksize :: nat
  datalen :: nat
  unused :: nat
  sub_sof :: nat
  eof :: nat
  owner :: nat
  buf_ptr :: u32
  next_link_ptr :: u32

record i2s =
  i2s_slc_queue :: "u32 list"
  i2s_slc_queue_len :: nat
  i2s_slc_buf_pntr :: "u32 list"
  i2s_slc_items :: "slc_queue_item list"
  i2s_curr_slc_buf :: u32
  i2s_curr_slc_buf_pos :: nat
  i2s_sample_rate :: u32
  ws_pin :: nat
  data_pin :: nat
  bck_pin :: nat
  blocks :: "u32 \<Rightarrow> u32 list option"
  slc_ints :: bool
  slc_handler :: bool
  i2s_io :: io

definition NULL :: u32 where [c_defs]: "NULL = 0"

definition I2S_REG :: "nat \<Rightarrow> reg" where [c_defs]: "I2S_REG a = PERI (0x60000000 + a)"
definition I2SC :: reg where "I2SC = I2S_REG 0xF008"
definition I2SIS :: reg where "I2SIS = I2S_REG 0xF010"
definition I2SIE :: reg where "I2SIE = I2S_REG 0xF014"
definition I2SIC :: reg where "I2SIC = I2S_REG 0xF018"
definition I2SFC :: reg where "I2SFC = I2S_REG 0xF020"
definition I2SCC :: reg where "I2SCC = I2S_REG 0xF02C"
definition SLCRXL :: reg where "SLCRXL = I2S_REG 0xF030"
definition SLCTXL :: reg where "SLCTXL = I2S_REG 0xF034"
definition SLCRXEDA :: reg where "SLCRXEDA = I2S_REG 0xF038"
definition SLCC0 :: reg where "SLCC0 = I2S_REG 0xF060"

definition I2SITE :: u32 where "I2SITE = push_bit 12 1"
definition I2SIFSE :: u32 where "I2SIFSE = push_bit 9 1"

definition on_i2s :: "(io \<Rightarrow> io) \<Rightarrow> i2s \<Rightarrow> i2s" where
  "on_i2s f s = s\<lparr>i2s_io := f (i2s_io s)\<rparr>"

subsection \<open>The queue of free buffers\<close>

definition i2s_is_full :: "i2s \<Rightarrow> bool" where
  "i2s_is_full s \<longleftrightarrow>
     (i2s_curr_slc_buf_pos s = SLC_BUF_LEN \<or> i2s_curr_slc_buf s = NULL) \<and> i2s_slc_queue_len s = 0"

definition i2s_is_empty :: "i2s \<Rightarrow> bool" where
  "i2s_is_empty s \<longleftrightarrow> i2s_slc_queue_len s \<ge> SLC_BUF_CNT - 1"

primrec queue_shift :: "nat list \<Rightarrow> u32 list \<Rightarrow> u32 list option" where
  "queue_shift [] q = Some q"
| "queue_shift (i # is) q = do {
     x \<leftarrow> get_at q (i + 1);
     q \<leftarrow> put_at q i x;
     queue_shift is q
   }"

definition i2s_slc_queue_next_item :: "i2s \<Rightarrow> (u32 \<times> i2s) option" where
  "i2s_slc_queue_next_item s = do {
     item \<leftarrow> get_at (i2s_slc_queue s) 0;
     let len = (i2s_slc_queue_len s + 255) mod 256;
     q \<leftarrow> queue_shift [0..<len] (i2s_slc_queue s);
     Some (item, s\<lparr>i2s_slc_queue := q, i2s_slc_queue_len := len\<rparr>)
   }"

definition queue_push :: "u32 \<Rightarrow> i2s \<Rightarrow> i2s option" where
  "queue_push p s = do {
     q \<leftarrow> put_at (i2s_slc_queue s) (i2s_slc_queue_len s) p;
     Some (s\<lparr>i2s_slc_queue := q, i2s_slc_queue_len := (i2s_slc_queue_len s + 1) mod 256\<rparr>)
   }"

subsection \<open>The interrupt\<close>

text \<open>The descriptor at an address, the array of descriptors being at \<open>base\<close>; a descriptor has 12 bytes.\<close>

definition item_addr :: "u32 \<Rightarrow> nat \<Rightarrow> u32" where
  "item_addr base x = base + 12 * of_nat x"

definition item_at :: "u32 \<Rightarrow> u32 \<Rightarrow> i2s \<Rightarrow> slc_queue_item option" where
  "item_at base p s = do { x \<leftarrow> List.find (\<lambda>x. item_addr base x = p) [0..<SLC_BUF_CNT]; get_at (i2s_slc_items s) x }"

definition zero_block :: "u32 \<Rightarrow> i2s \<Rightarrow> i2s option" where
  "zero_block p s = do { b \<leftarrow> blocks s p; Some (s\<lparr>blocks := (blocks s)(p \<mapsto> replicate SLC_BUF_LEN 0)\<rparr>) }"

definition i2s_slc_isr :: "inputs \<Rightarrow> u32 \<Rightarrow> i2s \<Rightarrow> i2s option" where
  "i2s_slc_isr env base s =
     (case rd env I2SIS (i2s_io s) of (slc_intr_status, io) \<Rightarrow>
        let s = s\<lparr>i2s_io := wr I2SIC 0xFFFFFFFF io\<rparr> in
        if slc_intr_status AND I2SITE \<noteq> 0 then
          let s = s\<lparr>slc_ints := False\<rparr> in
          case rd env SLCRXEDA (i2s_io s) of (p, io) \<Rightarrow> do {
            let s = s\<lparr>i2s_io := io\<rparr>;
            finished_item \<leftarrow> item_at base p s;
            s \<leftarrow> zero_block (buf_ptr finished_item) s;
            s \<leftarrow> (if i2s_slc_queue_len s \<ge> SLC_BUF_CNT - 1 then map_option snd (i2s_slc_queue_next_item s) else Some s);
            s \<leftarrow> queue_push (buf_ptr finished_item) s;
            Some (s\<lparr>slc_ints := True\<rparr>)
          }
        else Some s)"

subsection \<open>Starting and stopping the DMA engine\<close>

definition slc_item :: "u32 \<Rightarrow> u32 list \<Rightarrow> nat \<Rightarrow> slc_queue_item" where
  "slc_item base ptrs x = \<lparr>blocksize = SLC_BUF_LEN * 4, datalen = SLC_BUF_LEN * 4, unused = 0, sub_sof = 0, eof = 1, owner = 1,
     buf_ptr = ptrs ! x, next_link_ptr = (if x < SLC_BUF_CNT - 1 then item_addr base (x + 1) else item_addr base 0)\<rparr>"

text \<open>The loop: \<open>malloc\<close> returns the addresses \<open>ptrs\<close> one after the other; storing through a null pointer is undefined.\<close>

primrec slc_alloc :: "u32 \<Rightarrow> u32 list \<Rightarrow> nat list \<Rightarrow> i2s \<Rightarrow> i2s option" where
  "slc_alloc base ptrs [] s = Some s"
| "slc_alloc base ptrs (x # xs) s =
     (if ptrs ! x = NULL then None
      else slc_alloc base ptrs xs (s\<lparr>i2s_slc_buf_pntr := (i2s_slc_buf_pntr s)[x := ptrs ! x],
        blocks := (blocks s)(ptrs ! x \<mapsto> replicate SLC_BUF_LEN 0),
        i2s_slc_items := (i2s_slc_items s)[x := slc_item base ptrs x]\<rparr>))"

definition i2s_slc_begin :: "u32 \<Rightarrow> u32 list \<Rightarrow> i2s \<Rightarrow> i2s option" where
  "i2s_slc_begin base ptrs s = do {
     s \<leftarrow> slc_alloc base ptrs [0..<SLC_BUF_CNT] (s\<lparr>i2s_slc_queue_len := 0\<rparr>);
     let s = s\<lparr>slc_ints := False\<rparr>;
     let s = on_i2s (set_bits SLCC0 (push_bit 1 1 OR push_bit 0 1)) s;
     let s = on_i2s (clear_bits SLCC0 (push_bit 1 1 OR push_bit 0 1)) s;
     let s = on_i2s (set_bits SLCC0 (push_bit 12 1 OR push_bit 8 1)) s;
     let s = on_i2s (wr I2SIC 0xFFFFFFFF) s;
     let s = on_i2s (clear_bits SLCTXL 0xFFFFF) s;
     let s = on_i2s (set_bits SLCTXL (item_addr base 1)) s;
     let s = on_i2s (clear_bits SLCRXL 0xFFFF) s;
     let s = on_i2s (set_bits SLCRXL (item_addr base 0)) s;
     let s = on_i2s (SET_PERI_REG_BITS (PRO_INTR_MAP_REG_A + 4) 0x1F 1 16) s;
     let s = on_i2s (intrMatrixAttach 1 1) s;
     let s = s\<lparr>slc_handler := True\<rparr>;
     let s = on_i2s (wr I2SIE (I2SITE OR I2SIFSE)) s;
     let s = s\<lparr>slc_ints := True\<rparr>;
     let s = on_i2s (set_bits SLCTXL (push_bit 29 1)) s;
     Some (on_i2s (set_bits SLCRXL (push_bit 29 1)) s)
   }"

definition i2s_slc_end :: "i2s \<Rightarrow> i2s" where
  "i2s_slc_end s =
     on_i2s (clear_bits SLCRXL 0xFFFF) (on_i2s (clear_bits SLCTXL 0xFFFFF)
       (on_i2s (wr I2SIE 0) (on_i2s (wr I2SIC 0xFFFFFFFF) (s\<lparr>slc_ints := False\<rparr>))))"

subsection \<open>Writing samples\<close>

definition needs_buffer :: "i2s \<Rightarrow> bool" where
  "needs_buffer s \<longleftrightarrow> i2s_curr_slc_buf_pos s = SLC_BUF_LEN \<or> i2s_curr_slc_buf s = NULL"

text \<open>The section with the interrupt disabled, and the store.\<close>

definition take_buffer :: "i2s \<Rightarrow> i2s option" where
  "take_buffer s = do {
     (item, s) \<leftarrow> i2s_slc_queue_next_item (s\<lparr>slc_ints := False\<rparr>);
     Some (s\<lparr>i2s_curr_slc_buf := item, slc_ints := True\<rparr>)
   }"

definition store_sample :: "u32 \<Rightarrow> i2s \<Rightarrow> i2s option" where
  "store_sample sample s = do {
     b \<leftarrow> blocks s (i2s_curr_slc_buf s);
     b \<leftarrow> put_at b (i2s_curr_slc_buf_pos s) sample;
     Some (s\<lparr>blocks := (blocks s)(i2s_curr_slc_buf s \<mapsto> b), i2s_curr_slc_buf_pos := i2s_curr_slc_buf_pos s + 1\<rparr>)
   }"

definition i2s_write_sample_nb :: "u32 \<Rightarrow> i2s \<Rightarrow> (bool \<times> i2s) option" where
  "i2s_write_sample_nb sample s =
     (if needs_buffer s then
        if i2s_slc_queue_len s = 0 then Some (False, s)
        else do {
          s \<leftarrow> take_buffer s;
          s \<leftarrow> store_sample sample (s\<lparr>i2s_curr_slc_buf_pos := 0\<rparr>);
          Some (True, s)
        }
      else do { s \<leftarrow> store_sample sample s; Some (True, s) })"

text \<open>
  The loop that waits for a free buffer: between two looks at the length of the queue an interrupt
  may come, with what the registers show it, or not. \<open>None\<close> when the list of these events ends
  with the queue still empty: the loop goes on.
\<close>

primrec wait_buffer :: "u32 \<Rightarrow> inputs option list \<Rightarrow> i2s \<Rightarrow> i2s option" where
  "wait_buffer base [] s = (if i2s_slc_queue_len s > 0 then Some s else None)"
| "wait_buffer base (e # es) s =
     (if i2s_slc_queue_len s > 0 then Some s
      else case e of None \<Rightarrow> wait_buffer base es s | Some env \<Rightarrow> do { s \<leftarrow> i2s_slc_isr env base s; wait_buffer base es s })"

definition i2s_write_sample :: "u32 \<Rightarrow> inputs option list \<Rightarrow> u32 \<Rightarrow> i2s \<Rightarrow> (bool \<times> i2s) option" where
  "i2s_write_sample base ints sample s = do {
     s \<leftarrow> (if needs_buffer s then do {
            s \<leftarrow> wait_buffer base ints s;
            s \<leftarrow> take_buffer s;
            Some (s\<lparr>i2s_curr_slc_buf_pos := 0\<rparr>)
          } else Some s);
     s \<leftarrow> store_sample sample s;
     Some (True, s)
   }"

definition lr_sample :: "u16 \<Rightarrow> u16 \<Rightarrow> u32" where
  "lr_sample left right = push_bit 16 (ucast right) OR ucast left"

definition i2s_write_lr :: "u32 \<Rightarrow> inputs option list \<Rightarrow> u16 \<Rightarrow> u16 \<Rightarrow> i2s \<Rightarrow> (bool \<times> i2s) option" where
  "i2s_write_lr base ints left right s = i2s_write_sample base ints (lr_sample left right) s"

subsection \<open>The peripheral\<close>

definition i2s_set_rate :: "u32 \<Rightarrow> i2s \<Rightarrow> i2s option" where
  "i2s_set_rate rate s =
     (if rate = i2s_sample_rate s then Some s
      else if rate * 32 = 0 then None
      else let clock_div = (16000000 div (rate * 32)) AND 0x3F in
        if rate * clock_div * 2 = 0 then None
        else let bck_div = (16000000 div (rate * clock_div * 2)) AND 0x3F in
          if bck_div = 0 then None
          else let
            s = s\<lparr>i2s_sample_rate := rate\<rparr>;
            s = on_i2s (clear_bits I2SC (push_bit 4 1 OR push_bit 12 0xF OR push_bit 22 0x3F OR push_bit 16 0x3F)) s
          in Some (on_i2s (set_bits I2SC (push_bit 6 1 OR push_bit 7 1 OR push_bit 5 1 OR push_bit 11 1 OR
               push_bit 22 (bck_div - 1) OR push_bit 16 (clock_div - 1))) s))"

definition FUNCTION_0 :: byte where "FUNCTION_0 = 0x00"

definition attach_signal :: "nat \<Rightarrow> byte \<Rightarrow> i2s \<Rightarrow> i2s" where
  "attach_signal pin sig s =
     on_i2s (pinMatrixOutAttach pin sig) (on_i2s (pinMode pin FUNCTION_0) (on_i2s (pinMode pin OUTPUT) s))"

definition i2s_begin :: "u32 \<Rightarrow> u32 list \<Rightarrow> nat \<Rightarrow> nat \<Rightarrow> nat \<Rightarrow> i2s \<Rightarrow> i2s option" where
  "i2s_begin base ptrs ws data bck s = do {
     s \<leftarrow> i2s_slc_begin base ptrs (s\<lparr>i2s_sample_rate := 0\<rparr>);
     let s = s\<lparr>ws_pin := ws, data_pin := data, bck_pin := bck\<rparr>;
     let s = attach_signal bck 24 (attach_signal data 23 (attach_signal ws 25 s));
     let s = on_i2s (wr I2SIE 0) (on_i2s (wr I2SIC 0x3F) s);
     let s = on_i2s (clear_bits I2SC 0xF) s;
     let s = on_i2s (set_bits I2SC 0xF) s;
     let s = on_i2s (clear_bits I2SC 0xF) s;
     let s = on_i2s (clear_bits I2SFC (push_bit 12 1 OR push_bit 13 7 OR push_bit 16 7)) s;
     let s = on_i2s (set_bits I2SFC (push_bit 12 1)) s;
     let s = on_i2s (clear_bits I2SCC (push_bit 0 7 OR push_bit 3 3)) s;
     s \<leftarrow> i2s_set_rate 44100 s;
     Some (on_i2s (set_bits I2SC (push_bit 8 1)) s)
   }"

definition detach_pin :: "nat \<Rightarrow> i2s \<Rightarrow> i2s" where
  "detach_pin pin s = on_i2s (pinMode pin INPUT) (on_i2s (pinMatrixOutDetach pin) s)"

definition i2s_end :: "i2s \<Rightarrow> i2s" where
  "i2s_end s =
     (let s = i2s_slc_end s in detach_pin (bck_pin s) (detach_pin (data_pin s) (detach_pin (ws_pin s) s)))"

subsection \<open>The queue as a list\<close>

definition free_bufs :: "i2s \<Rightarrow> u32 list" where
  "free_bufs s = take (i2s_slc_queue_len s) (i2s_slc_queue s)"

definition queue_ok :: "i2s \<Rightarrow> bool" where
  "queue_ok s \<longleftrightarrow> length (i2s_slc_queue s) = SLC_BUF_CNT - 1 \<and> i2s_slc_queue_len s \<le> SLC_BUF_CNT - 1"

lemma queue_shift_upt:
  "n < length q \<Longrightarrow> k \<le> n \<Longrightarrow> \<exists>q'. queue_shift [k..<n] q = Some q' \<and> length q' = length q \<and>
    (\<forall>i < length q. q' ! i = (if k \<le> i \<and> i < n then q ! (i + 1) else q ! i))"
proof (induction "n - k" arbitrary: k q)
  case 0
  then show ?case by auto
next
  case (Suc d)
  then have k: "k < n" "d = n - Suc k" "Suc k \<le> n" by simp_all
  let ?q = "q[k := q ! (k + 1)]"
  obtain q' where q': "queue_shift [Suc k..<n] ?q = Some q'" "length q' = length q"
      "\<forall>i < length q. q' ! i = (if Suc k \<le> i \<and> i < n then ?q ! (i + 1) else ?q ! i)"
    using Suc.hyps(1) [OF k(2), of ?q] k(3) Suc.prems(1) by (simp del: One_nat_def) blast
  have "queue_shift [k..<n] q = Some q'"
    using k q'(1) Suc.prems(1) by (simp add: upt_conv_Cons get_at_def put_at_def)
  moreover have "q' ! i = (if k \<le> i \<and> i < n then q ! (i + 1) else q ! i)" if "i < length q" for i
    using q'(3) that k(1) Suc.prems(1) by (auto simp: nth_list_update)
  ultimately show ?case using q'(2) by blast
qed

lemma next_item_free:
  assumes "queue_ok s" "free_bufs s = p # ps"
  shows "\<exists>q. i2s_slc_queue_next_item s = Some (p, s\<lparr>i2s_slc_queue := q, i2s_slc_queue_len := length ps\<rparr>) \<and>
    length q = SLC_BUF_CNT - 1 \<and> take (length ps) q = ps"
proof -
  let ?n = "i2s_slc_queue_len s" and ?q = "i2s_slc_queue s"
  have n: "?n = Suc (length ps)" "?n \<le> 7" "length ?q = 7"
    using assms by (auto simp: queue_ok_def free_bufs_def c_defs dest: arg_cong [where f = length])
  have at: "?q ! i = (p # ps) ! i" if "i < ?n" for i
    using assms(2) that n by (metis free_bufs_def nth_take)
  obtain q' where q': "queue_shift [0..<length ps] ?q = Some q'" "length q' = 7"
      "\<forall>i < 7. q' ! i = (if i < length ps then ?q ! (i + 1) else ?q ! i)"
    using queue_shift_upt [of "length ps" ?q 0] n by auto
  have len: "(?n + 255) mod 256 = length ps" using n by simp
  have "take (length ps) q' = ps"
    by (rule nth_equalityI) (use n q' at in auto)
  then show ?thesis
    using q' n len at [of 0] unfolding i2s_slc_queue_next_item_def
    by (intro exI [of _ q']) (simp add: get_at_def c_defs del: mod_add_self2)
qed

definition queue_pop :: "i2s \<Rightarrow> (u32 \<times> i2s) option" where
  "queue_pop s = (if i2s_slc_queue_len s = 0 then None else i2s_slc_queue_next_item s)"

lemma queue_push_free:
  assumes "queue_ok s" "i2s_slc_queue_len s < SLC_BUF_CNT - 1"
  shows "\<exists>q. queue_push p s = Some (s\<lparr>i2s_slc_queue := q, i2s_slc_queue_len := i2s_slc_queue_len s + 1\<rparr>) \<and>
    length q = SLC_BUF_CNT - 1 \<and> take (i2s_slc_queue_len s + 1) q = free_bufs s @ [p]"
proof -
  let ?n = "i2s_slc_queue_len s" and ?q = "i2s_slc_queue s"
  have "take (?n + 1) (?q[?n := p]) = take ?n ?q @ [p]"
    using assms by (simp add: queue_ok_def c_defs take_Suc_conv_app_nth)
  then show ?thesis using assms
    by (intro exI [of _ "?q[?n := p]"]) (simp add: queue_push_def queue_ok_def put_at_def free_bufs_def c_defs)
qed

text \<open>The queue of free buffers is a bounded queue.\<close>

interpretation free_queue: bounded_fifo queue_ok free_bufs "\<lambda>_. SLC_BUF_CNT - 1" queue_push queue_pop
proof
  fix s :: i2s assume "queue_ok s"
  then show "length (free_bufs s) \<le> SLC_BUF_CNT - 1" by (simp add: free_bufs_def queue_ok_def)
next
  fix s :: i2s and a assume a: "queue_ok s" "length (free_bufs s) < SLC_BUF_CNT - 1"
  then have "i2s_slc_queue_len s < SLC_BUF_CNT - 1" by (auto simp: free_bufs_def queue_ok_def)
  from queue_push_free [OF a(1) this, of a] this
  show "\<exists>s'. queue_push a s = Some s' \<and> queue_ok s' \<and> free_bufs s' = free_bufs s @ [a] \<and> SLC_BUF_CNT - 1 = SLC_BUF_CNT - 1"
    by (auto simp: queue_ok_def free_bufs_def)
next
  fix s :: i2s and a assume "queue_ok s" "length (free_bufs s) = SLC_BUF_CNT - 1"
  then show "queue_push a s = None" by (auto simp: queue_push_def put_at_def free_bufs_def queue_ok_def)
next
  fix s :: i2s and a as assume a: "queue_ok s" "free_bufs s = a # as"
  then have "i2s_slc_queue_len s \<noteq> 0" "length as < SLC_BUF_CNT - 1"
    by (auto simp: free_bufs_def queue_ok_def dest!: arg_cong [where f = length])
  then show "\<exists>s'. queue_pop s = Some (a, s') \<and> queue_ok s' \<and> free_bufs s' = as \<and> SLC_BUF_CNT - 1 = SLC_BUF_CNT - 1"
    using next_item_free [OF a] by (auto simp: queue_pop_def queue_ok_def free_bufs_def)
next
  fix s :: i2s assume "queue_ok s" "free_bufs s = []"
  then show "queue_pop s = None" by (auto simp: queue_pop_def free_bufs_def queue_ok_def c_defs)
qed

subsection \<open>Driver, DMA engine and interrupt together\<close>

text \<open>
  The driver, the DMA engine and the interrupt take turns. The program counter of the one writer is
  at the points where an interrupt can come in between; the section with the interrupt disabled is
  one step. The DMA engine plays the words of the current buffer one by one. After the last one it
  raises its interrupt and goes on with the descriptor the finished one links to. \<open>written\<close> and
  \<open>played\<close> record the samples accepted and the samples played; \<open>late\<close> says that the writer was too
  slow (a word was played before it was written, or the interrupt found all buffers free) or that
  the interrupt was served too late (the next buffer was finished before).
\<close>

datatype pc = Idle | Enter u32 bool | Waiting u32 bool | Taking u32 | Resetting u32 | Storing u32

record sys =
  drv :: i2s
  pc :: pc
  dma_ptr :: u32
  dma_pos :: nat
  pending :: "u32 option"
  written :: "u32 list"
  played :: "u32 list"
  late :: bool

definition LAG :: nat where "LAG = SLC_BUF_CNT * SLC_BUF_LEN"

definition irq_enabled :: "i2s \<Rightarrow> bool" where
  "irq_enabled s \<longleftrightarrow> slc_ints s \<and> slc_handler s \<and> regs (i2s_io s) I2SIE AND I2SITE \<noteq> 0"

definition dma_next :: "slc_queue_item \<Rightarrow> sys \<Rightarrow> sys" where
  "dma_next item y =
     (if dma_pos y + 1 < SLC_BUF_LEN then y\<lparr>dma_pos := dma_pos y + 1\<rparr>
      else y\<lparr>dma_pos := 0, dma_ptr := next_link_ptr item, pending := Some (dma_ptr y), late := late y \<or> pending y \<noteq> None\<rparr>)"

inductive i2s_step :: "u32 \<Rightarrow> sys \<Rightarrow> sys \<Rightarrow> bool" for base where
  call: "pc y = Idle \<Longrightarrow> i2s_step base y (y\<lparr>pc := Enter x nb\<rparr>)"
| room: "pc y = Enter x nb \<Longrightarrow> \<not> needs_buffer (drv y) \<Longrightarrow> i2s_step base y (y\<lparr>pc := Storing x\<rparr>)"
| no_room: "pc y = Enter x nb \<Longrightarrow> needs_buffer (drv y) \<Longrightarrow> i2s_step base y (y\<lparr>pc := Waiting x nb\<rparr>)"
| refuse: "pc y = Waiting x True \<Longrightarrow> i2s_slc_queue_len (drv y) = 0 \<Longrightarrow> i2s_step base y (y\<lparr>pc := Idle\<rparr>)"
| spin: "pc y = Waiting x False \<Longrightarrow> i2s_slc_queue_len (drv y) = 0 \<Longrightarrow> i2s_step base y y"
| free: "pc y = Waiting x nb \<Longrightarrow> i2s_slc_queue_len (drv y) > 0 \<Longrightarrow> i2s_step base y (y\<lparr>pc := Taking x\<rparr>)"
| take_buf: "pc y = Taking x \<Longrightarrow> take_buffer (drv y) = Some s \<Longrightarrow> i2s_step base y (y\<lparr>pc := Resetting x, drv := s\<rparr>)"
| reset: "pc y = Resetting x \<Longrightarrow> i2s_step base y (y\<lparr>pc := Storing x, drv := (drv y)\<lparr>i2s_curr_slc_buf_pos := 0\<rparr>\<rparr>)"
| store: "pc y = Storing x \<Longrightarrow> store_sample x (drv y) = Some s \<Longrightarrow>
    i2s_step base y (y\<lparr>pc := Idle, drv := s, written := written y @ [x]\<rparr>)"
| play: "item_at base (dma_ptr y) (drv y) = Some item \<Longrightarrow> blocks (drv y) (buf_ptr item) = Some b \<Longrightarrow> dma_pos y < length b \<Longrightarrow>
    i2s_step base y (dma_next item (y\<lparr>played := played y @ [b ! dma_pos y],
      late := late y \<or> length (played y) \<ge> LAG + length (written y)\<rparr>))"
| irq: "pending y = Some p \<Longrightarrow> irq_enabled (drv y) \<Longrightarrow> st AND I2SITE \<noteq> 0 \<Longrightarrow>
    i2s_slc_isr (\<lambda>_ r. if r = I2SIS then st else if r = SLCRXEDA then p else 0) base (drv y) = Some s \<Longrightarrow>
    i2s_step base y (y\<lparr>drv := s, pending := None, late := late y \<or> i2s_is_empty (drv y)\<rparr>)"

inductive i2s_steps :: "u32 \<Rightarrow> sys \<Rightarrow> sys \<Rightarrow> bool" for base where
  i2s_start: "i2s_steps base y y"
| i2s_more: "i2s_steps base y z \<Longrightarrow> i2s_step base z w \<Longrightarrow> i2s_steps base y w"

definition sys_init :: "u32 \<Rightarrow> i2s \<Rightarrow> sys" where
  "sys_init base s = \<lparr>drv = s, pc = Idle, dma_ptr = item_addr base 0, dma_pos = 0, pending = None, written = [], played = [], late = False\<rparr>"

text \<open>Nothing the driver, the DMA engine or the interrupt is about to do is undefined.\<close>

definition well_defined :: "u32 \<Rightarrow> sys \<Rightarrow> bool" where
  "well_defined base y \<longleftrightarrow>
     (case pc y of Taking x \<Rightarrow> take_buffer (drv y) \<noteq> None | Storing x \<Rightarrow> store_sample x (drv y) \<noteq> None | _ \<Rightarrow> True) \<and>
     (\<exists>item b. item_at base (dma_ptr y) (drv y) = Some item \<and> blocks (drv y) (buf_ptr item) = Some b \<and> dma_pos y < length b) \<and>
     (\<forall>p st. pending y = Some p \<longrightarrow>
        i2s_slc_isr (\<lambda>_ r. if r = I2SIS then st else if r = SLCRXEDA then p else 0) base (drv y) \<noteq> None)"

subsection \<open>No undefined behaviour\<close>

definition ptrs_ok :: "u32 list \<Rightarrow> bool" where
  "ptrs_ok ptrs \<longleftrightarrow> length ptrs = SLC_BUF_CNT \<and> distinct ptrs \<and> NULL \<notin> set ptrs"

definition drv_ok :: "u32 \<Rightarrow> u32 list \<Rightarrow> i2s \<Rightarrow> bool" where
  "drv_ok base ptrs s \<longleftrightarrow> queue_ok s \<and> i2s_slc_items s = map (slc_item base ptrs) [0..<SLC_BUF_CNT] \<and>
     set (free_bufs s) \<subseteq> set ptrs \<and> i2s_curr_slc_buf s \<in> insert NULL (set ptrs) \<and>
     (\<forall>p \<in> set ptrs. \<exists>b. blocks s p = Some b \<and> length b = SLC_BUF_LEN) \<and> i2s_curr_slc_buf_pos s \<le> SLC_BUF_LEN"

fun pc_ok :: "pc \<Rightarrow> i2s \<Rightarrow> bool" where
  "pc_ok (Waiting x nb) s \<longleftrightarrow> needs_buffer s"
| "pc_ok (Taking x) s \<longleftrightarrow> needs_buffer s \<and> i2s_slc_queue_len s > 0"
| "pc_ok (Resetting x) s \<longleftrightarrow> i2s_curr_slc_buf s \<noteq> NULL"
| "pc_ok (Storing x) s \<longleftrightarrow> i2s_curr_slc_buf s \<noteq> NULL \<and> i2s_curr_slc_buf_pos s < SLC_BUF_LEN"
| "pc_ok _ s \<longleftrightarrow> True"

definition item_addrs :: "u32 \<Rightarrow> u32 set" where
  "item_addrs base = item_addr base ` {0..<SLC_BUF_CNT}"

definition sys_ok :: "u32 \<Rightarrow> u32 list \<Rightarrow> sys \<Rightarrow> bool" where
  "sys_ok base ptrs y \<longleftrightarrow> drv_ok base ptrs (drv y) \<and> pc_ok (pc y) (drv y) \<and> dma_ptr y \<in> item_addrs base \<and>
     dma_pos y < SLC_BUF_LEN \<and> (\<forall>p. pending y = Some p \<longrightarrow> p \<in> item_addrs base)"

lemma item_addr_inj: "x < SLC_BUF_CNT \<Longrightarrow> x' < SLC_BUF_CNT \<Longrightarrow> item_addr base x = item_addr base x' \<longleftrightarrow> x = x'"
proof -
  assume "x < SLC_BUF_CNT" "x' < SLC_BUF_CNT"
  then have "unat (12 * of_nat x :: u32) = 12 * x" "unat (12 * of_nat x' :: u32) = 12 * x'"
    by (simp_all add: c_defs unat_word_ariths unat_of_nat)
  then show ?thesis unfolding item_addr_def by (metis add_left_cancel mult_left_cancel zero_neq_numeral)
qed

lemma item_at_addr:
  assumes "drv_ok base ptrs s" "x < SLC_BUF_CNT"
  shows "item_at base (item_addr base x) s = Some (slc_item base ptrs x)"
proof -
  have "List.find (\<lambda>i. item_addr base i = item_addr base x) [0..<SLC_BUF_CNT] = Some x"
    unfolding find_Some_iff using assms(2) by (auto simp: item_addr_inj intro!: exI [of _ x])
  then show ?thesis using assms by (simp add: item_at_def drv_ok_def get_at_def)
qed

lemma slc_item_buf [simp]: "buf_ptr (slc_item base ptrs x) = ptrs ! x"
  by (simp add: slc_item_def)

lemma next_link: "x < SLC_BUF_CNT \<Longrightarrow> next_link_ptr (slc_item base ptrs x) = item_addr base ((x + 1) mod SLC_BUF_CNT)"
  by (cases "x = 7") (auto simp: slc_item_def c_defs)

lemma take_buffer_ok:
  assumes "queue_ok s" "free_bufs s = p # ps"
  shows "\<exists>q. take_buffer s = Some (s\<lparr>i2s_slc_queue := q, i2s_slc_queue_len := length ps, i2s_curr_slc_buf := p, slc_ints := True\<rparr>) \<and>
    length q = SLC_BUF_CNT - 1 \<and> take (length ps) q = ps"
proof -
  have "queue_ok (s\<lparr>slc_ints := False\<rparr>)" "free_bufs (s\<lparr>slc_ints := False\<rparr>) = p # ps"
    using assms by (simp_all add: queue_ok_def free_bufs_def)
  from next_item_free [OF this] show ?thesis by (auto simp: take_buffer_def)
qed

lemma store_sample_ok:
  assumes "drv_ok base ptrs s" "i2s_curr_slc_buf s \<noteq> NULL" "i2s_curr_slc_buf_pos s < SLC_BUF_LEN"
  shows "\<exists>b. blocks s (i2s_curr_slc_buf s) = Some b \<and> length b = SLC_BUF_LEN \<and>
    store_sample x s = Some (s\<lparr>blocks := (blocks s)(i2s_curr_slc_buf s \<mapsto> b[i2s_curr_slc_buf_pos s := x]),
      i2s_curr_slc_buf_pos := i2s_curr_slc_buf_pos s + 1\<rparr>)"
proof -
  obtain b where "blocks s (i2s_curr_slc_buf s) = Some b" "length b = SLC_BUF_LEN"
    using assms unfolding drv_ok_def by (metis insertE)
  then show ?thesis using assms(3) by (auto simp: store_sample_def put_at_def)
qed

lemma slc_regs [simp]: "I2SIS \<noteq> SLCRXEDA" "SLCRXEDA \<noteq> I2SIS" "I2SIE \<noteq> I2SIC" "I2SIC \<noteq> I2SIE"
  "I2SIE \<noteq> SLCRXL" "SLCRXL \<noteq> I2SIE" "I2SIE \<noteq> SLCTXL" "SLCTXL \<noteq> I2SIE" "I2SIE \<noteq> I2SC" "I2SC \<noteq> I2SIE"
  "I2SIE \<noteq> I2SFC" "I2SFC \<noteq> I2SIE" "I2SIE \<noteq> I2SCC" "I2SCC \<noteq> I2SIE"
  by (simp_all add: I2SIS_def SLCRXEDA_def I2SIE_def I2SIC_def SLCRXL_def SLCTXL_def I2SC_def I2SFC_def I2SCC_def I2S_REG_def)

abbreviation dma_env :: "u32 \<Rightarrow> u32 \<Rightarrow> inputs" where
  "dma_env st p \<equiv> \<lambda>_ r. if r = I2SIS then st else if r = SLCRXEDA then p else 0"

text \<open>Putting a buffer into the queue, at the cost of the oldest one when it is full.\<close>

lemma queue_replace:
  assumes "queue_ok s"
  shows "\<exists>q n. do {t \<leftarrow> (if i2s_slc_queue_len s \<ge> SLC_BUF_CNT - 1 then map_option snd (i2s_slc_queue_next_item s) else Some s);
      queue_push p t} = Some (s\<lparr>i2s_slc_queue := q, i2s_slc_queue_len := n\<rparr>) \<and>
    length q = SLC_BUF_CNT - 1 \<and> 0 < n \<and> n \<le> SLC_BUF_CNT - 1 \<and>
    take n q = (if i2s_is_empty s then tl (free_bufs s) else free_bufs s) @ [p]"
proof (cases "i2s_is_empty s")
  case True
  then have "free_bufs s \<noteq> []" using assms by (auto simp: free_bufs_def queue_ok_def i2s_is_empty_def c_defs)
  then obtain x ps where ps: "free_bufs s = x # ps" by (cases "free_bufs s") auto
  from next_item_free [OF assms ps] obtain q where q: "i2s_slc_queue_next_item s = Some (x, s\<lparr>i2s_slc_queue := q, i2s_slc_queue_len := length ps\<rparr>)"
      "length q = SLC_BUF_CNT - 1" "take (length ps) q = ps" by blast
  let ?t = "s\<lparr>i2s_slc_queue := q, i2s_slc_queue_len := length ps\<rparr>"
  have len: "length ps < SLC_BUF_CNT - 1"
    using arg_cong [OF ps, of length] assms by (auto simp: free_bufs_def queue_ok_def c_defs)
  have "queue_ok ?t" "free_bufs ?t = ps" using q len by (simp_all add: queue_ok_def free_bufs_def)
  from queue_push_free [OF this(1), of p] this(2) len obtain r where
    "queue_push p ?t = Some (s\<lparr>i2s_slc_queue := r, i2s_slc_queue_len := length ps + 1\<rparr>)"
      "length r = SLC_BUF_CNT - 1" "take (length ps + 1) r = ps @ [p]" by auto
  then show ?thesis using True q(1) ps len
    by (intro exI [of _ r] exI [of _ "length ps + 1"]) (simp add: i2s_is_empty_def)
next
  case False
  from queue_push_free [OF assms, of p] False obtain r where
    "queue_push p s = Some (s\<lparr>i2s_slc_queue := r, i2s_slc_queue_len := i2s_slc_queue_len s + 1\<rparr>)"
      "length r = SLC_BUF_CNT - 1" "take (i2s_slc_queue_len s + 1) r = free_bufs s @ [p]" by (auto simp: i2s_is_empty_def)
  then show ?thesis using False
    by (intro exI [of _ r] exI [of _ "i2s_slc_queue_len s + 1"]) (simp add: i2s_is_empty_def)
qed

text \<open>What the interrupt does with the buffer that is finished.\<close>

lemma isr_ok:
  assumes "drv_ok base ptrs s" "ptrs_ok ptrs" "x < SLC_BUF_CNT" "st AND I2SITE \<noteq> 0"
  shows "\<exists>q io n. i2s_slc_isr (dma_env st (item_addr base x)) base s =
      Some (s\<lparr>i2s_io := io, blocks := (blocks s)(ptrs ! x \<mapsto> replicate SLC_BUF_LEN 0), i2s_slc_queue := q,
        i2s_slc_queue_len := n, slc_ints := True\<rparr>) \<and>
    length q = SLC_BUF_CNT - 1 \<and> 0 < n \<and> n \<le> SLC_BUF_CNT - 1 \<and>
    take n q = (if i2s_is_empty s then tl (free_bufs s) else free_bufs s) @ [ptrs ! x] \<and> regs io I2SIE = regs (i2s_io s) I2SIE"
proof -
  let ?env = "dma_env st (item_addr base x)"
  define io where "io = snd (rd ?env SLCRXEDA (wr I2SIC 0xFFFFFFFF (snd (rd ?env I2SIS (i2s_io s)))))"
  define s1 where "s1 = s\<lparr>slc_ints := False, i2s_io := io, blocks := (blocks s)(ptrs ! x \<mapsto> replicate SLC_BUF_LEN 0)\<rparr>"
  have item: "item_at base (item_addr base x) (s\<lparr>slc_ints := False, i2s_io := io\<rparr>) = Some (slc_item base ptrs x)"
    using item_at_addr [of base ptrs "s\<lparr>slc_ints := False, i2s_io := io\<rparr>" x] assms(1,3)
    by (simp add: drv_ok_def queue_ok_def free_bufs_def)
  have "ptrs ! x \<in> set ptrs" using assms(2,3) by (auto simp: ptrs_ok_def)
  then obtain b where b: "blocks s (ptrs ! x) = Some b" using assms(1) by (auto simp: drv_ok_def)
  have isr: "i2s_slc_isr ?env base s = do {
      t \<leftarrow> do {t \<leftarrow> (if i2s_slc_queue_len s1 \<ge> SLC_BUF_CNT - 1 then map_option snd (i2s_slc_queue_next_item s1) else Some s1);
         queue_push (ptrs ! x) t};
      Some (t\<lparr>slc_ints := True\<rparr>)}"
    using assms(4) item b by (simp add: i2s_slc_isr_def rd_def Let_def zero_block_def s1_def wr_def io_def)
  have "queue_ok s1" "free_bufs s1 = free_bufs s" "i2s_is_empty s1 = i2s_is_empty s"
    using assms(1) by (simp_all add: s1_def drv_ok_def queue_ok_def free_bufs_def i2s_is_empty_def)
  with queue_replace [of s1 "ptrs ! x"] obtain q n where
    "do {t \<leftarrow> (if i2s_slc_queue_len s1 \<ge> SLC_BUF_CNT - 1 then map_option snd (i2s_slc_queue_next_item s1) else Some s1);
         queue_push (ptrs ! x) t} = Some (s1\<lparr>i2s_slc_queue := q, i2s_slc_queue_len := n\<rparr>)"
      "length q = SLC_BUF_CNT - 1" "0 < n" "n \<le> SLC_BUF_CNT - 1"
      "take n q = (if i2s_is_empty s then tl (free_bufs s) else free_bufs s) @ [ptrs ! x]" by auto
  moreover have "regs io I2SIE = regs (i2s_io s) I2SIE" by (simp add: io_def rd_def)
  ultimately show ?thesis unfolding isr
    by (intro exI [of _ q] exI [of _ io] exI [of _ n]) (simp only: bind.bind_lunit, simp add: s1_def)
qed

lemma drv_ok_isr:
  assumes "drv_ok base ptrs s" "ptrs_ok ptrs" "x < SLC_BUF_CNT" "st AND I2SITE \<noteq> 0"
    and "i2s_slc_isr (dma_env st (item_addr base x)) base s = Some t"
  shows "drv_ok base ptrs t" "pc_ok c s \<Longrightarrow> pc_ok c t"
proof -
  have x: "ptrs ! x \<in> set ptrs" using assms(2,3) by (auto simp: ptrs_ok_def)
  from isr_ok [OF assms(1-4)] obtain q io n where t: "t = s\<lparr>i2s_io := io, blocks := (blocks s)(ptrs ! x \<mapsto> replicate SLC_BUF_LEN 0),
        i2s_slc_queue := q, i2s_slc_queue_len := n, slc_ints := True\<rparr>" "length q = SLC_BUF_CNT - 1" "0 < n" "n \<le> SLC_BUF_CNT - 1"
      "take n q = (if i2s_is_empty s then tl (free_bufs s) else free_bufs s) @ [ptrs ! x]"
    using assms(5) by auto
  have "set (tl (free_bufs s)) \<subseteq> set (free_bufs s)" by (cases "free_bufs s") auto
  then have "set (take n q) \<subseteq> set ptrs" using t(5) x assms(1) by (auto simp: drv_ok_def split: if_splits)
  then show "drv_ok base ptrs t"
    using assms(1) t(1,2,4) by (auto simp: drv_ok_def queue_ok_def free_bufs_def)
  show "pc_ok c s \<Longrightarrow> pc_ok c t" using t(1,3) by (cases c) (auto simp: needs_buffer_def)
qed

lemma sys_ok_step:
  assumes "i2s_step base y z" "ptrs_ok ptrs" "sys_ok base ptrs y"
  shows "sys_ok base ptrs z"
  using assms
proof (induction rule: i2s_step.induct)
  case (take_buf y x s)
  then have ok: "drv_ok base ptrs (drv y)" "i2s_slc_queue_len (drv y) > 0" by (auto simp: sys_ok_def)
  then have "free_bufs (drv y) \<noteq> []" by (auto simp: drv_ok_def queue_ok_def free_bufs_def c_defs)
  then obtain p ps where ps: "free_bufs (drv y) = p # ps" by (cases "free_bufs (drv y)") auto
  have len: "length ps \<le> SLC_BUF_CNT - 1"
    using arg_cong [OF ps, of length] ok by (auto simp: free_bufs_def queue_ok_def drv_ok_def c_defs)
  from take_buffer_ok [OF _ ps] ok(1) take_buf.hyps(2) obtain q where
    s: "s = (drv y)\<lparr>i2s_slc_queue := q, i2s_slc_queue_len := length ps, i2s_curr_slc_buf := p, slc_ints := True\<rparr>"
      "length q = SLC_BUF_CNT - 1" "take (length ps) q = ps" by (auto simp: drv_ok_def)
  have "p \<in> set ptrs" "set ps \<subseteq> set ptrs" "p \<noteq> NULL"
    using ok(1) ps take_buf.prems(1) by (auto simp: drv_ok_def ptrs_ok_def)
  then have "drv_ok base ptrs s" "i2s_curr_slc_buf s \<noteq> NULL"
    using ok(1) s len by (auto simp: drv_ok_def queue_ok_def free_bufs_def)
  then show ?case using take_buf.prems(2) by (simp add: sys_ok_def)
next
  case (store y x s)
  then have ok: "drv_ok base ptrs (drv y)" "i2s_curr_slc_buf (drv y) \<noteq> NULL" "i2s_curr_slc_buf_pos (drv y) < SLC_BUF_LEN"
    by (auto simp: sys_ok_def)
  from store_sample_ok [OF this, of x] store.hyps(2) have "drv_ok base ptrs s"
    using ok by (auto simp: drv_ok_def queue_ok_def free_bufs_def)
  then show ?case using store.prems(2) by (simp add: sys_ok_def)
next
  case (play y item b)
  then obtain x where x: "dma_ptr y = item_addr base x" "x < SLC_BUF_CNT" by (auto simp: sys_ok_def item_addrs_def)
  then have "item = slc_item base ptrs x" using play item_at_addr by (metis option.inject sys_ok_def)
  then have "next_link_ptr item \<in> item_addrs base"
    using x(2) by (auto simp: next_link item_addrs_def c_defs)
  then show ?case using play.prems(2) x by (auto simp: dma_next_def sys_ok_def)
next
  case (irq y p st s)
  then obtain x where x: "p = item_addr base x" "x < SLC_BUF_CNT" by (auto simp: sys_ok_def item_addrs_def)
  then show ?case using irq drv_ok_isr [of base ptrs "drv y" x st s] by (auto simp: sys_ok_def)
qed (auto simp: sys_ok_def drv_ok_def queue_ok_def free_bufs_def needs_buffer_def)

lemma sys_ok_well_defined:
  assumes "ptrs_ok ptrs" "sys_ok base ptrs y"
  shows "well_defined base y"
proof -
  have drv: "drv_ok base ptrs (drv y)" and pc: "pc_ok (pc y) (drv y)" using assms(2) by (auto simp: sys_ok_def)
  obtain x where x: "dma_ptr y = item_addr base x" "x < SLC_BUF_CNT" using assms(2) by (auto simp: sys_ok_def item_addrs_def)
  have "ptrs ! x \<in> set ptrs" using assms(1) x(2) by (auto simp: ptrs_ok_def)
  then have "\<exists>item b. item_at base (dma_ptr y) (drv y) = Some item \<and> blocks (drv y) (buf_ptr item) = Some b \<and> dma_pos y < length b"
    using item_at_addr [OF drv x(2)] x(1) drv assms(2) by (auto simp: drv_ok_def sys_ok_def)
  moreover have "case pc y of Taking x \<Rightarrow> take_buffer (drv y) \<noteq> None | Storing x \<Rightarrow> store_sample x (drv y) \<noteq> None | _ \<Rightarrow> True"
  proof (cases "pc y")
    case (Taking x)
    then have "free_bufs (drv y) \<noteq> []" using pc drv by (auto simp: drv_ok_def queue_ok_def free_bufs_def c_defs)
    then show ?thesis using Taking take_buffer_ok [of "drv y"] drv by (cases "free_bufs (drv y)") (auto simp: drv_ok_def)
  next
    case (Storing x)
    then show ?thesis using pc store_sample_ok [OF drv, of x] by auto
  qed simp_all
  moreover have "i2s_slc_isr (dma_env st p) base (drv y) \<noteq> None" if "pending y = Some p" for p st
  proof (cases "st AND I2SITE = 0")
    case False
    have "p \<in> item_addrs base" using assms(2) that by (simp add: sys_ok_def)
    then obtain i where "p = item_addr base i" "i < SLC_BUF_CNT" by (auto simp: item_addrs_def)
    then show ?thesis using isr_ok [OF drv assms(1) _ False] by auto
  qed (simp add: i2s_slc_isr_def rd_def Let_def)
  ultimately show ?thesis unfolding well_defined_def by blast
qed

subsection \<open>The stream of samples\<close>

text \<open>
  Word \<open>i\<close> of everything that is ever played comes from word \<open>i mod 64\<close> of buffer \<open>i div 64\<close>, modulo
  the eight buffers. The first 512 words are the cleared buffers the engine starts with; the
  samples follow. \<open>t\<close> counts the buffers the writer has taken.
\<close>

definition stream :: "sys \<Rightarrow> u32 list" where
  "stream y = replicate LAG 0 @ written y"

definition word_at :: "u32 list \<Rightarrow> i2s \<Rightarrow> nat \<Rightarrow> u32" where
  "word_at ptrs s i = the (blocks s (ptrs ! (i div 64 mod 8))) ! (i mod 64)"

definition filled :: "sys \<Rightarrow> nat" where
  "filled y = (if i2s_curr_slc_buf (drv y) = NULL then 64
     else case pc y of Resetting x \<Rightarrow> 0 | _ \<Rightarrow> i2s_curr_slc_buf_pos (drv y))"

definition finished :: "sys \<Rightarrow> nat" where
  "finished y = length (played y) div 64"

definition released :: "sys \<Rightarrow> nat" where
  "released y = (if pending y = None then finished y else finished y - 1)"

definition dma_at :: "u32 \<Rightarrow> sys \<Rightarrow> bool" where
  "dma_at base y \<longleftrightarrow> dma_ptr y = item_addr base (finished y mod 8) \<and> dma_pos y = length (played y) mod 64 \<and>
     (\<forall>p. pending y = Some p \<longrightarrow> 1 \<le> finished y \<and> p = item_addr base ((finished y - 1) mod 8))"

definition writer_at :: "u32 list \<Rightarrow> nat \<Rightarrow> sys \<Rightarrow> bool" where
  "writer_at ptrs t y \<longleftrightarrow> t \<le> released y \<and> free_bufs (drv y) = map (\<lambda>k. ptrs ! (k mod 8)) [t..<released y] \<and>
     i2s_curr_slc_buf (drv y) = (if t = 0 then NULL else ptrs ! ((t - 1) mod 8)) \<and>
     length (written y) + 64 = 64 * t + filled y \<and> filled y \<le> 64"

definition stream_at :: "u32 list \<Rightarrow> sys \<Rightarrow> bool" where
  "stream_at ptrs y \<longleftrightarrow> length (played y) \<le> length (stream y) \<and> played y = take (length (played y)) (stream y) \<and>
     (\<forall>i. length (played y) \<le> i \<and> i < length (stream y) \<longrightarrow> word_at ptrs (drv y) i = stream y ! i)"

definition stream_ok :: "u32 \<Rightarrow> u32 list \<Rightarrow> sys \<Rightarrow> bool" where
  "stream_ok base ptrs y \<longleftrightarrow> dma_at base y \<and> (\<exists>t. writer_at ptrs t y) \<and> stream_at ptrs y"

lemma length_stream [simp]: "length (stream y) = 512 + length (written y)"
  by (simp add: stream_def LAG_def c_defs)

lemma released_le: "released y \<le> finished y" "64 * finished y \<le> length (played y)"
  by (simp_all add: released_def finished_def)

lemma writer_counts [simp]:
  "finished (y\<lparr>pc := c\<rparr>) = finished y" "finished (y\<lparr>drv := d\<rparr>) = finished y" "finished (y\<lparr>written := w\<rparr>) = finished y"
  "released (y\<lparr>pc := c\<rparr>) = released y" "released (y\<lparr>drv := d\<rparr>) = released y" "released (y\<lparr>written := w\<rparr>) = released y"
  by (simp_all add: finished_def released_def)

text \<open>The steps of the writer that only move its program counter and position.\<close>

lemma stream_ok_move:
  assumes "stream_ok base ptrs y" "filled (y\<lparr>pc := c, drv := (drv y)\<lparr>i2s_curr_slc_buf_pos := k\<rparr>\<rparr>) = filled y"
  shows "stream_ok base ptrs (y\<lparr>pc := c, drv := (drv y)\<lparr>i2s_curr_slc_buf_pos := k\<rparr>\<rparr>)" (is "stream_ok base ptrs ?z")
proof -
  have "writer_at ptrs t ?z = writer_at ptrs t y" for t
    unfolding writer_at_def assms(2) by (simp add: free_bufs_def)
  moreover have "dma_at base ?z = dma_at base y" by (simp add: dma_at_def)
  moreover have "word_at ptrs (drv ?z) = word_at ptrs (drv y)" by (simp add: word_at_def fun_eq_iff)
  then have "stream_at ptrs ?z = stream_at ptrs y" by (simp add: stream_at_def stream_def)
  ultimately show ?thesis using assms(1) by (simp add: stream_ok_def)
qed

lemma stream_ok_pc:
  assumes "stream_ok base ptrs y" "filled (y\<lparr>pc := c\<rparr>) = filled y"
  shows "stream_ok base ptrs (y\<lparr>pc := c\<rparr>)"
  using stream_ok_move [where c = c and k = "i2s_curr_slc_buf_pos (drv y)", OF assms(1)] assms(2) by simp

lemma same_word:
  assumes "i div 64 mod 8 = j div 64 mod 8" "i mod 64 = j mod (64 :: nat)" "i \<le> j" "i \<noteq> j"
  shows "i + 512 \<le> j"
proof -
  have "i mod (64 * 8) = j mod (64 * 8)" unfolding mod_mult2_eq using assms(1,2) by simp
  then have "512 dvd j - i" using mod_eq_dvd_iff_nat [OF assms(3), of 512] by simp
  then have "512 \<le> j - i" using assms(3,4) by (intro dvd_imp_le) simp_all
  then show ?thesis using assms(3) by linarith
qed

lemma ptr_eq: "ptrs_ok ptrs \<Longrightarrow> ptrs ! (i mod 8) = ptrs ! (j mod 8) \<longleftrightarrow> i mod 8 = j mod 8"
  by (simp add: ptrs_ok_def c_defs nth_eq_iff_index_eq)

lemma ptr_in:
  assumes "ptrs_ok ptrs"
  shows "ptrs ! (k mod 8) \<in> set ptrs" "ptrs ! (k mod 8) \<noteq> NULL"
proof -
  have "k mod 8 < length ptrs" using assms by (simp add: ptrs_ok_def c_defs)
  then show "ptrs ! (k mod 8) \<in> set ptrs" by (rule nth_mem)
  then show "ptrs ! (k mod 8) \<noteq> NULL" using assms by (metis ptrs_ok_def)
qed

lemma stream_ok_take:
  assumes "stream_ok base ptrs y" "sys_ok base ptrs y" "pc y = Taking x" "take_buffer (drv y) = Some s" "ptrs_ok ptrs"
  shows "stream_ok base ptrs (y\<lparr>pc := Resetting x, drv := s\<rparr>)"
proof -
  from assms(1) obtain t where t: "writer_at ptrs t y" by (auto simp: stream_ok_def)
  have n: "needs_buffer (drv y)" "i2s_slc_queue_len (drv y) > 0" and q: "queue_ok (drv y)"
    using assms(2,3) by (auto simp: sys_ok_def drv_ok_def)
  have "free_bufs (drv y) \<noteq> []" using n(2) q by (auto simp: queue_ok_def free_bufs_def c_defs)
  then have lt: "t < released y" using t by (auto simp: writer_at_def)
  then have fb: "free_bufs (drv y) = ptrs ! (t mod 8) # map (\<lambda>k. ptrs ! (k mod 8)) [Suc t..<released y]"
    using t by (simp add: writer_at_def upt_conv_Cons)
  from take_buffer_ok [OF q fb] assms(4) obtain r where s: "s = (drv y)\<lparr>i2s_slc_queue := r, i2s_slc_queue_len := released y - Suc t,
      i2s_curr_slc_buf := ptrs ! (t mod 8), slc_ints := True\<rparr>" "take (released y - Suc t) r = map (\<lambda>k. ptrs ! (k mod 8)) [Suc t..<released y]"
    by auto
  note nn = ptr_in(2) [OF assms(5), of t]
  have "filled y = 64" using n(1) assms(3) by (auto simp: filled_def needs_buffer_def c_defs)
  then have "writer_at ptrs (Suc t) (y\<lparr>pc := Resetting x, drv := s\<rparr>)"
    using t lt s nn by (auto simp: writer_at_def free_bufs_def filled_def)
  moreover have "word_at ptrs s = word_at ptrs (drv y)" using s(1) by (simp add: word_at_def fun_eq_iff)
  ultimately show ?thesis using assms(1) unfolding stream_ok_def
    by (auto simp: dma_at_def stream_at_def stream_def)
qed

lemma stream_ok_store:
  assumes "stream_ok base ptrs y" "sys_ok base ptrs y" "pc y = Storing x" "store_sample x (drv y) = Some s" "ptrs_ok ptrs"
  shows "stream_ok base ptrs (y\<lparr>pc := Idle, drv := s, written := written y @ [x]\<rparr>)" (is "stream_ok base ptrs ?z")
proof -
  let ?d = "drv y"
  let ?p = "i2s_curr_slc_buf ?d" and ?k = "i2s_curr_slc_buf_pos ?d" and ?W = "length (written y)"
  from assms(1) obtain t where t: "writer_at ptrs t y" by (auto simp: stream_ok_def)
  have c: "drv_ok base ptrs ?d" "?p \<noteq> NULL" "?k < SLC_BUF_LEN" using assms(2,3) by (auto simp: sys_ok_def)
  from store_sample_ok [OF c, of x] assms(4) obtain b where b: "blocks ?d ?p = Some b" "length b = 64"
      "s = ?d\<lparr>blocks := (blocks ?d)(?p \<mapsto> b[?k := x]), i2s_curr_slc_buf_pos := ?k + 1\<rparr>" by (auto simp: c_defs)
  have t0: "0 < t" "?p = ptrs ! ((t - 1) mod 8)" using t c(2) by (auto simp: writer_at_def split: if_splits)
  have w: "?W + 64 = 64 * t + ?k" using t c(2) assms(3) by (simp add: writer_at_def filled_def)
  have k: "?k < 64" using c(3) by (simp add: c_defs)
  have idx: "(512 + ?W) div 64 = t + 7" "(512 + ?W) mod 64 = ?k" "(t + 7) mod 8 = (t - 1) mod 8"
  proof -
    have "512 + ?W = 64 * (t + 7) + ?k" using w by simp
    then show "(512 + ?W) div 64 = t + 7" "(512 + ?W) mod 64 = ?k" using k by (simp_all only: div_mult_self4 mod_mult_self4 div_less mod_less)
    show "(t + 7) mod 8 = (t - 1) mod 8" using t0(1) by (cases t) simp_all
  qed
  have "writer_at ptrs t ?z" using t c(2) assms(3) w k b(3) by (simp add: writer_at_def filled_def free_bufs_def)
  moreover have "word_at ptrs s i = stream ?z ! i" if i: "length (played y) \<le> i" "i < length (stream ?z)" for i
  proof (cases "i = 512 + ?W")
    case True
    then show ?thesis using b t0(2) k idx by (simp add: word_at_def stream_def nth_append LAG_def c_defs)
  next
    case False
    have "?W < length (played y)" using w k t released_le [of y] by (auto simp: writer_at_def)
    then have far: "\<not> i + 512 \<le> 512 + ?W" and le: "i \<le> 512 + ?W" using i by simp_all
    have "\<not> (i div 64 mod 8 = (t - 1) mod 8 \<and> i mod 64 = ?k)"
      using same_word [of i "512 + ?W", unfolded idx, OF _ _ le False] far by blast
    then have "word_at ptrs s i = word_at ptrs ?d i"
      using b(1,3) t0(2) ptr_eq [OF assms(5), of "i div 64" "t - 1"] by (simp add: word_at_def) (metis nth_list_update_neq)
    also have "\<dots> = stream y ! i" using assms(1) i False by (auto simp: stream_ok_def stream_at_def)
    finally show ?thesis using i False by (auto simp: stream_def nth_append LAG_def c_defs)
  qed
  moreover have "dma_at base ?z" using assms(1) by (simp add: stream_ok_def dma_at_def)
  moreover have "length (played y) \<le> length (stream ?z)" "played y = take (length (played y)) (stream ?z)"
  proof -
    have "stream ?z = stream y @ [x]" by (simp add: stream_def)
    then show "length (played y) \<le> length (stream ?z)" "played y = take (length (played y)) (stream ?z)"
      using assms(1) by (auto simp: stream_ok_def stream_at_def)
  qed
  ultimately show ?thesis unfolding stream_ok_def stream_at_def by auto
qed

lemma stream_ok_play:
  assumes "stream_ok base ptrs y" "sys_ok base ptrs y" "ptrs_ok ptrs" "item_at base (dma_ptr y) (drv y) = Some item"
    and "blocks (drv y) (buf_ptr item) = Some b" "length (played y) < length (stream y)"
    and z: "z = dma_next item (y\<lparr>played := played y @ [b ! dma_pos y], late := l\<rparr>)" "\<not> late z"
  shows "stream_ok base ptrs z"
proof -
  let ?P = "length (played y)"
  have x: "dma_ptr y = item_addr base (finished y mod 8)" "finished y mod 8 < SLC_BUF_CNT" "dma_pos y = ?P mod 64"
    using assms(1) by (auto simp: stream_ok_def dma_at_def c_defs)
  then have item: "item = slc_item base ptrs (finished y mod 8)"
    using assms(2,4) item_at_addr [of base ptrs "drv y" "finished y mod 8"] by (simp add: sys_ok_def)
  then have "b ! dma_pos y = word_at ptrs (drv y) ?P"
    using assms(5) x(3) by (simp add: word_at_def finished_def)
  also have "\<dots> = stream y ! ?P" using assms(1,6) by (simp add: stream_ok_def stream_at_def)
  finally have p: "played y @ [b ! dma_pos y] = take (Suc ?P) (stream y)"
    using assms(1,6) by (simp add: stream_ok_def stream_at_def take_Suc_conv_app_nth)
  have f: "played z = played y @ [b ! dma_pos y]" "written z = written y" "drv z = drv y" "pc z = pc y"
    by (simp_all add: z dma_next_def)
  have st: "stream z = stream y" and len: "length (played z) = Suc ?P" by (simp_all add: stream_def f)
  have "stream_at ptrs z" unfolding stream_at_def
  proof (intro conjI allI impI)
    show "length (played z) \<le> length (stream z)" unfolding len st using assms(6) by linarith
    show "played z = take (length (played z)) (stream z)" unfolding len st using f(1) p by simp
    show "word_at ptrs (drv z) i = stream z ! i" if "length (played z) \<le> i \<and> i < length (stream z)" for i
      using assms(1) that unfolding len st f(3) stream_ok_def stream_at_def by (simp del: length_stream)
  qed
  moreover have "dma_at base z \<and> released z = released y"
  proof (cases "?P mod 64 + 1 < 64")
    case True
    then have "Suc ?P div 64 = ?P div 64" "Suc ?P mod 64 = Suc (?P mod 64)" by (auto simp: div_Suc mod_Suc)
    then show ?thesis using assms(1) True x unfolding z
      by (auto simp: dma_next_def stream_ok_def dma_at_def finished_def released_def c_defs)
  next
    case False
    then have "Suc (?P mod 64) = 64" using mod_less_divisor [of 64 ?P] by linarith
    then have d: "Suc ?P div 64 = Suc (?P div 64)" "Suc ?P mod 64 = 0" by (simp_all add: div_Suc mod_Suc)
    have "pending y = None" using z False x by (auto simp: dma_next_def c_defs)
    then show ?thesis using False x d item next_link [OF x(2)] unfolding z
      by (simp add: dma_next_def dma_at_def finished_def released_def c_defs mod_Suc_eq)
  qed
  moreover have "filled z = filled y" unfolding filled_def f ..
  ultimately have "writer_at ptrs t z = writer_at ptrs t y" for t unfolding writer_at_def by (simp add: f)
  with \<open>stream_at ptrs z\<close> \<open>dma_at base z \<and> released z = released y\<close> show ?thesis
    using assms(1) unfolding stream_ok_def by simp
qed

lemma mod8_neq: "m \<le> k \<Longrightarrow> k < m + 7 \<Longrightarrow> 1 \<le> m \<Longrightarrow> k mod 8 \<noteq> (m - 1) mod (8 :: nat)"
proof
  assume a: "m \<le> k" "k < m + 7" "1 \<le> m" "k mod 8 = (m - 1) mod 8"
  then have "8 dvd k - (m - 1)" by (metis mod_eq_dvd_iff_nat le_trans diff_le_self)
  moreover have "0 < k - (m - 1)" "k - (m - 1) < 8" using a by linarith+
  ultimately show False by (metis nat_dvd_not_less)
qed

lemma stream_ok_irq:
  assumes "stream_ok base ptrs y" "sys_ok base ptrs y" "ptrs_ok ptrs" "pending y = Some p" "st AND I2SITE \<noteq> 0"
    and "i2s_slc_isr (dma_env st p) base (drv y) = Some s" "\<not> i2s_is_empty (drv y)"
  shows "stream_ok base ptrs (y\<lparr>drv := s, pending := None, late := l\<rparr>)" (is "stream_ok base ptrs ?z")
proof -
  let ?m = "finished y"
  from assms(1) obtain t where t: "writer_at ptrs t y" by (auto simp: stream_ok_def)
  have m: "1 \<le> ?m" "p = item_addr base ((?m - 1) mod 8)" "released y = ?m - 1"
    using assms(1,4) by (auto simp: stream_ok_def dma_at_def released_def)
  have "drv_ok base ptrs (drv y)" "(?m - 1) mod 8 < SLC_BUF_CNT" using assms(2) by (simp_all add: sys_ok_def c_defs)
  from isr_ok [OF this(1) assms(3) this(2) assms(5)] assms(6) [unfolded m(2)] assms(7) obtain q io n where
    s: "s = (drv y)\<lparr>i2s_io := io, blocks := (blocks (drv y))(ptrs ! ((?m - 1) mod 8) \<mapsto> replicate SLC_BUF_LEN 0),
        i2s_slc_queue := q, i2s_slc_queue_len := n, slc_ints := True\<rparr>" "take n q = free_bufs (drv y) @ [ptrs ! ((?m - 1) mod 8)]"
    by auto
  have r: "released ?z = ?m" "finished ?z = ?m" by (simp_all add: released_def finished_def)
  have up: "[t..<?m] = [t..<?m - 1] @ [?m - 1]" using m t upt_Suc_append [of t "?m - 1"] by (simp add: writer_at_def)
  have "filled ?z = filled y" using s(1) by (cases "pc y") (simp_all add: filled_def)
  then have "writer_at ptrs t ?z"
    using t m(1,3) s r up unfolding writer_at_def by (auto simp: free_bufs_def)
  moreover have "dma_at base ?z" using assms(1) r by (simp add: stream_ok_def dma_at_def)
  moreover have "word_at ptrs s i = word_at ptrs (drv y) i" if "length (played y) \<le> i" "i < length (stream y)" for i
  proof -
    have "?m \<le> i div 64" using that(1) by (auto simp: finished_def intro: div_le_mono)
    moreover have "length (written y) \<le> 64 * t" "t \<le> ?m - 1" using t m by (auto simp: writer_at_def)
    then have "i < 64 * (?m + 7)" using that(2) m(1) by simp
    then have "i div 64 < ?m + 7" by (simp add: less_mult_imp_div_less mult.commute)
    ultimately have "i div 64 mod 8 \<noteq> (?m - 1) mod 8" using m(1) by (intro mod8_neq)
    then show ?thesis using s(1) ptr_eq [OF assms(3)] by (simp add: word_at_def)
  qed
  then have "stream_at ptrs ?z" using assms(1) by (simp add: stream_ok_def stream_at_def stream_def)
  ultimately show ?thesis by (auto simp: stream_ok_def)
qed

lemma stream_ok_step:
  assumes "i2s_step base y z" "ptrs_ok ptrs" "sys_ok base ptrs y" "\<not> late y \<Longrightarrow> stream_ok base ptrs y" "\<not> late z"
  shows "stream_ok base ptrs z"
  using assms
proof (induction rule: i2s_step.induct)
  case (take_buf y x s)
  then show ?case by (intro stream_ok_take) simp_all
next
  case (store y x s)
  then show ?case by (intro stream_ok_store) simp_all
next
  case (play y item b)
  have "\<not> (late y \<or> LAG + length (written y) \<le> length (played y))"
    using play.prems(4) unfolding dma_next_def by (simp split: if_splits)
  then have "\<not> late y" "length (played y) < length (stream y)" by (simp_all add: LAG_def c_defs)
  then show ?case
    using stream_ok_play [OF play.prems(3) [OF \<open>\<not> late y\<close>] play.prems(2,1) play.hyps(1,2) _ refl play.prems(4)] by blast
next
  case (irq y p st s)
  then have "\<not> late y" "\<not> i2s_is_empty (drv y)" by simp_all
  then show ?case using irq by (intro stream_ok_irq) simp_all
next
  case (reset y x)
  then show ?case by (intro stream_ok_move) (simp_all add: filled_def)
next
  case (call y x nb)
  then show ?case by (intro stream_ok_pc) (simp_all add: filled_def)
next
  case (room y x nb)
  then show ?case by (intro stream_ok_pc) (simp_all add: filled_def)
next
  case (no_room y x nb)
  then show ?case by (intro stream_ok_pc) (simp_all add: filled_def)
next
  case (refuse y x)
  then show ?case by (intro stream_ok_pc) (simp_all add: filled_def)
next
  case (free y x nb)
  then show ?case by (intro stream_ok_pc) (simp_all add: filled_def)
qed simp

subsection \<open>Theorems\<close>

lemma late_step: "i2s_step base y z \<Longrightarrow> late y \<Longrightarrow> late z"
  by (induction rule: i2s_step.induct) (simp_all add: dma_next_def)

lemma run_ok:
  assumes "i2s_steps base y z" "ptrs_ok ptrs" "sys_ok base ptrs y" "stream_ok base ptrs y"
  shows "sys_ok base ptrs z \<and> (\<not> late z \<longrightarrow> stream_ok base ptrs z)"
  using assms(1,3,4)
proof (induction rule: i2s_steps.induct)
  case (i2s_more y z w)
  then show ?case using sys_ok_step [OF i2s_more.hyps(2) assms(2)] stream_ok_step [OF i2s_more.hyps(2) assms(2)] late_step by blast
qed simp

definition fresh :: "i2s \<Rightarrow> bool" where
  "fresh s \<longleftrightarrow> length (i2s_slc_queue s) = SLC_BUF_CNT - 1 \<and> length (i2s_slc_items s) = SLC_BUF_CNT \<and>
     i2s_curr_slc_buf s = NULL \<and> i2s_curr_slc_buf_pos s = 0"

lemma slc_alloc_append: "slc_alloc base ptrs (xs @ ys) s = do {t \<leftarrow> slc_alloc base ptrs xs s; slc_alloc base ptrs ys t}"
  by (induction xs arbitrary: s) simp_all

definition ring_upto :: "u32 \<Rightarrow> u32 list \<Rightarrow> nat \<Rightarrow> i2s \<Rightarrow> bool" where
  "ring_upto base ptrs n s \<longleftrightarrow> length (i2s_slc_items s) = SLC_BUF_CNT \<and>
     (\<forall>x < n. blocks s (ptrs ! x) = Some (replicate SLC_BUF_LEN 0) \<and> i2s_slc_items s ! x = slc_item base ptrs x)"

lemma slc_alloc_ok:
  assumes "ptrs_ok ptrs" "length (i2s_slc_items s) = SLC_BUF_CNT"
  shows "n \<le> SLC_BUF_CNT \<Longrightarrow> \<exists>b m i. slc_alloc base ptrs [0..<n] s = Some (s\<lparr>i2s_slc_buf_pntr := b, blocks := m, i2s_slc_items := i\<rparr>) \<and>
    ring_upto base ptrs n (s\<lparr>i2s_slc_buf_pntr := b, blocks := m, i2s_slc_items := i\<rparr>)"
proof (induction n)
  case 0
  then show ?case using assms(2)
    by (intro exI [of _ "i2s_slc_buf_pntr s"] exI [of _ "blocks s"] exI [of _ "i2s_slc_items s"]) (simp add: ring_upto_def)
next
  case (Suc n)
  then obtain b m i where t: "slc_alloc base ptrs [0..<n] s = Some (s\<lparr>i2s_slc_buf_pntr := b, blocks := m, i2s_slc_items := i\<rparr>)"
      "ring_upto base ptrs n (s\<lparr>i2s_slc_buf_pntr := b, blocks := m, i2s_slc_items := i\<rparr>)" by auto
  have n: "n < length ptrs" "distinct ptrs" "ptrs ! n \<noteq> NULL"
    using Suc.prems assms(1) nth_mem [of n ptrs] by (auto simp: ptrs_ok_def simp del: nth_mem)
  then have "\<forall>x < n. ptrs ! x \<noteq> ptrs ! n" by (auto simp: nth_eq_iff_index_eq)
  then have "ring_upto base ptrs (Suc n) (s\<lparr>i2s_slc_buf_pntr := b[n := ptrs ! n], blocks := m(ptrs ! n \<mapsto> replicate SLC_BUF_LEN 0),
      i2s_slc_items := i[n := slc_item base ptrs n]\<rparr>)"
    using t(2) Suc.prems by (auto simp: ring_upto_def less_Suc_eq)
  moreover have "slc_alloc base ptrs [0..<Suc n] s = Some (s\<lparr>i2s_slc_buf_pntr := b[n := ptrs ! n],
      blocks := m(ptrs ! n \<mapsto> replicate SLC_BUF_LEN 0), i2s_slc_items := i[n := slc_item base ptrs n]\<rparr>)"
    using t(1) n(3) by (simp add: slc_alloc_append)
  ultimately show ?case by blast
qed

text \<open>Starting the engine succeeds and leaves the interrupt enabled and the queue empty.\<close>

lemma slc_begin_ok:
  assumes "ptrs_ok ptrs" "fresh s"
  shows "\<exists>t. i2s_slc_begin base ptrs s = Some t \<and> sys_ok base ptrs (sys_init base t) \<and> stream_ok base ptrs (sys_init base t) \<and>
    irq_enabled t \<and> i2s_slc_queue_len t = 0 \<and> i2s_curr_slc_buf t = NULL \<and> i2s_sample_rate t = i2s_sample_rate s"
proof -
  let ?s = "s\<lparr>i2s_slc_queue_len := 0\<rparr>"
  from slc_alloc_ok [OF assms(1), of ?s SLC_BUF_CNT base] assms(2) obtain b m i where
    t: "slc_alloc base ptrs [0..<SLC_BUF_CNT] ?s = Some (?s\<lparr>i2s_slc_buf_pntr := b, blocks := m, i2s_slc_items := i\<rparr>)"
      "ring_upto base ptrs SLC_BUF_CNT (?s\<lparr>i2s_slc_buf_pntr := b, blocks := m, i2s_slc_items := i\<rparr>)"
    by (auto simp: fresh_def)
  define u where "u = the (i2s_slc_begin base ptrs s)"
  have u: "i2s_slc_begin base ptrs s = Some u" "regs (i2s_io u) I2SIE = I2SITE OR I2SIFSE"
    and v: "blocks u = m" "i2s_slc_items u = i" "i2s_slc_queue_len u = 0" "i2s_slc_queue u = i2s_slc_queue s"
      "i2s_curr_slc_buf u = NULL" "i2s_curr_slc_buf_pos u = 0" "slc_ints u" "slc_handler u" "i2s_sample_rate u = i2s_sample_rate s"
    using t(1) assms(2) by (simp_all add: u_def i2s_slc_begin_def Let_def on_i2s_def fresh_def)
  have len: "length ptrs = 8" using assms(1) by (simp add: ptrs_ok_def c_defs)
  have blk: "blocks u (ptrs ! x) = Some (replicate 64 0)" "i2s_slc_items u ! x = slc_item base ptrs x" if "x < 8" for x
    using t(2) that by (simp_all add: v ring_upto_def c_defs)
  have "i2s_slc_items u = map (slc_item base ptrs) [0..<SLC_BUF_CNT]"
    using t(2) blk(2) by (intro nth_equalityI) (simp_all add: v ring_upto_def c_defs)
  moreover have "\<exists>b. blocks u p = Some b \<and> length b = SLC_BUF_LEN" if "p \<in> set ptrs" for p
    using that blk(1) len unfolding in_set_conv_nth by (auto simp: c_defs)
  ultimately have "drv_ok base ptrs u" using assms(2) v by (simp add: drv_ok_def queue_ok_def free_bufs_def fresh_def)
  then have "sys_ok base ptrs (sys_init base u)" by (auto simp: sys_ok_def sys_init_def item_addrs_def c_defs)
  moreover have "word_at ptrs u i = replicate LAG 0 ! i" if "i < 512" for i
    using that blk(1) [of "i div 64 mod 8"] by (simp add: word_at_def LAG_def c_defs)
  then have "stream_at ptrs (sys_init base u)" by (simp add: stream_at_def sys_init_def stream_def LAG_def c_defs)
  then have "stream_ok base ptrs (sys_init base u)" unfolding stream_ok_def
  proof (intro conjI)
    show "dma_at base (sys_init base u)" by (simp add: dma_at_def sys_init_def finished_def)
    have "writer_at ptrs 0 (sys_init base u)"
      using v by (simp add: writer_at_def sys_init_def released_def finished_def filled_def free_bufs_def)
    then show "\<exists>t. writer_at ptrs t (sys_init base u)" ..
  qed
  moreover have "irq_enabled u" using v u(2) by (simp add: irq_enabled_def I2SITE_def I2SIFSE_def)
  ultimately show ?thesis using u(1) v by blast
qed

text \<open>The non-blocking write is a sequence of steps of its writer, with no interrupt in between.\<close>

definition run_to :: "u32 \<Rightarrow> u32 list \<Rightarrow> sys \<Rightarrow> sys \<Rightarrow> bool" where
  "run_to base ptrs y z \<longleftrightarrow> ptrs_ok ptrs \<and> i2s_steps base y z \<and> sys_ok base ptrs z"

lemma run_to_step: "run_to base ptrs y z \<Longrightarrow> i2s_step base z w \<Longrightarrow> run_to base ptrs y w"
  unfolding run_to_def using i2s_more sys_ok_step by blast

lemma run_to_defined: "run_to base ptrs y z \<Longrightarrow> well_defined base z"
  unfolding run_to_def using sys_ok_well_defined by blast

lemma store_run:
  assumes "run_to base ptrs y z" "pc z = Storing x"
  shows "\<exists>s. store_sample x (drv z) = Some s \<and> run_to base ptrs y (z\<lparr>pc := Idle, drv := s, written := written z @ [x]\<rparr>)"
proof -
  obtain s where "store_sample x (drv z) = Some s" using run_to_defined [OF assms(1)] assms(2) by (auto simp: well_defined_def)
  then show ?thesis using run_to_step [OF assms(1) i2s_step.store [OF assms(2)]] by blast
qed

lemma take_run:
  assumes "run_to base ptrs y z" "pc z = Taking x"
  shows "\<exists>s. take_buffer (drv z) = Some s \<and> run_to base ptrs y (z\<lparr>pc := Storing x, drv := s\<lparr>i2s_curr_slc_buf_pos := 0\<rparr>\<rparr>)"
proof -
  obtain s where s: "take_buffer (drv z) = Some s" using run_to_defined [OF assms(1)] assms(2) by (auto simp: well_defined_def)
  then have "run_to base ptrs y (z\<lparr>pc := Resetting x, drv := s\<rparr>)" using run_to_step [OF assms(1) take_buf [OF assms(2)]] by blast
  from run_to_step [OF this reset] s show ?thesis by simp
qed

lemma wait_run:
  assumes "run_to base ptrs y y" "pc y = Idle" "needs_buffer (drv y)"
  shows "run_to base ptrs y (y\<lparr>pc := Waiting x True\<rparr>)"
  using run_to_step [OF run_to_step [OF assms(1) call [OF assms(2), of base x True]] no_room] assms(3) by simp

lemma write_nb_run:
  assumes "run_to base ptrs y y" "pc y = Idle"
  shows "\<exists>b s. i2s_write_sample_nb x (drv y) = Some (b, s) \<and> (b \<longleftrightarrow> \<not> i2s_is_full (drv y)) \<and>
    i2s_steps base y (y\<lparr>drv := s, written := written y @ (if b then [x] else [])\<rparr>)"
proof (cases "needs_buffer (drv y)")
  case False
  then have "run_to base ptrs y (y\<lparr>pc := Storing x\<rparr>)"
    using run_to_step [OF run_to_step [OF assms(1) call [OF assms(2), of base x True]] room] by simp
  from store_run [OF this] obtain s where "store_sample x (drv y) = Some s"
      "i2s_steps base y (y\<lparr>pc := Idle, drv := s, written := written y @ [x]\<rparr>)" by (auto simp: run_to_def)
  moreover have "y\<lparr>pc := Idle\<rparr> = y" using assms(2) by simp
  ultimately show ?thesis using False by (auto simp: i2s_write_sample_nb_def i2s_is_full_def needs_buffer_def)
next
  case needs: True
  note wait = wait_run [OF assms needs, of x]
  have idle: "y\<lparr>pc := Idle\<rparr> = y" using assms(2) by simp
  show ?thesis
  proof (cases "i2s_slc_queue_len (drv y) = 0")
    case True
    then have "run_to base ptrs y y" using run_to_step [OF wait refuse] idle by simp
    then show ?thesis using True needs by (auto simp: i2s_write_sample_nb_def i2s_is_full_def needs_buffer_def run_to_def)
  next
    case False
    then have "run_to base ptrs y (y\<lparr>pc := Taking x\<rparr>)" using run_to_step [OF wait free] by simp
    from take_run [OF this] obtain s where s: "take_buffer (drv y) = Some s"
      "run_to base ptrs y (y\<lparr>pc := Storing x, drv := s\<lparr>i2s_curr_slc_buf_pos := 0\<rparr>\<rparr>)" by auto
    from store_run [OF s(2)] obtain u where "store_sample x (s\<lparr>i2s_curr_slc_buf_pos := 0\<rparr>) = Some u"
        "i2s_steps base y (y\<lparr>pc := Idle, drv := u, written := written y @ [x]\<rparr>)" by (auto simp: run_to_def)
    then show ?thesis using False needs s(1) idle by (auto simp: i2s_write_sample_nb_def i2s_is_full_def)
  qed
qed

text \<open>
  C11: The DMA engine, its interrupt and the writer, interleaved in any way after \<open>i2s_slc_begin\<close>:
  nothing undefined ever happens - no index leaves the queue, no store goes through a null pointer or
  beyond a buffer, the queue is never popped when empty. And as long as nobody is too late, what is
  played is silence for the 512 words of the ring and then the samples written, each of them, once,
  in order; the writer is never more than the ring ahead. A non-blocking write in between returns
  true exactly when the ring is not full and its effect is that of the writer's steps.
\<close>

theorem i2s_stream_correct:
  assumes "ptrs_ok ptrs" "fresh s"
  shows "\<exists>t. i2s_slc_begin base ptrs s = Some t \<and>
    (\<forall>y. i2s_steps base (sys_init base t) y \<longrightarrow>
       well_defined base y \<and>
       (\<not> late y \<longrightarrow> length (written y) \<le> length (played y) \<and> length (played y) \<le> 512 + length (written y) \<and>
          played y = take (length (played y)) (replicate 512 0 @ written y)) \<and>
       (pc y = Idle \<longrightarrow> (\<exists>b s'. i2s_write_sample_nb x (drv y) = Some (b, s') \<and> b = (\<not> i2s_is_full (drv y)) \<and>
          i2s_steps base y (y\<lparr>drv := s', written := written y @ (if b then [x] else [])\<rparr>))))"
proof -
  from slc_begin_ok [OF assms, of base] obtain t where t: "i2s_slc_begin base ptrs s = Some t"
    "sys_ok base ptrs (sys_init base t)" "stream_ok base ptrs (sys_init base t)" by blast
  have "well_defined base y \<and>
       (\<not> late y \<longrightarrow> length (written y) \<le> length (played y) \<and> length (played y) \<le> 512 + length (written y) \<and>
          played y = take (length (played y)) (replicate 512 0 @ written y)) \<and>
       (pc y = Idle \<longrightarrow> (\<exists>b s'. i2s_write_sample_nb x (drv y) = Some (b, s') \<and> b = (\<not> i2s_is_full (drv y)) \<and>
          i2s_steps base y (y\<lparr>drv := s', written := written y @ (if b then [x] else [])\<rparr>)))"
    if "i2s_steps base (sys_init base t) y" for y
  proof (intro conjI impI)
    have ok: "sys_ok base ptrs y" "\<not> late y \<Longrightarrow> stream_ok base ptrs y" using run_ok [OF that assms(1) t(2,3)] by auto
    show "well_defined base y" using ok(1) assms(1) sys_ok_well_defined by blast
    assume "\<not> late y"
    from ok(2) [OF this] obtain k where k: "writer_at ptrs k y" "stream_at ptrs y" by (auto simp: stream_ok_def)
    have "length (written y) \<le> 64 * k" "k \<le> released y" using k(1) by (simp_all add: writer_at_def)
    then show "length (written y) \<le> length (played y)" using released_le [of y] by linarith
    show "length (played y) \<le> 512 + length (written y)" "played y = take (length (played y)) (replicate 512 0 @ written y)"
      using k(2) by (simp_all add: stream_at_def stream_def LAG_def c_defs)
  next
    assume "pc y = Idle"
    moreover have "run_to base ptrs y y" using run_ok [OF that assms(1) t(2,3)] assms(1) by (simp add: run_to_def i2s_start)
    ultimately show "\<exists>b s'. i2s_write_sample_nb x (drv y) = Some (b, s') \<and> b = (\<not> i2s_is_full (drv y)) \<and>
          i2s_steps base y (y\<lparr>drv := s', written := written y @ (if b then [x] else [])\<rparr>)"
      by (rule write_nb_run [rotated])
  qed
  then show ?thesis using t(1) by blast
qed

definition i2s0 :: i2s where
  "i2s0 = \<lparr>i2s_slc_queue = replicate 7 0, i2s_slc_queue_len = 0, i2s_slc_buf_pntr = replicate 8 0,
     i2s_slc_items = replicate 8 \<lparr>blocksize = 0, datalen = 0, unused = 0, sub_sof = 0, eof = 0, owner = 0, buf_ptr = 0, next_link_ptr = 0\<rparr>,
     i2s_curr_slc_buf = 0, i2s_curr_slc_buf_pos = 0, i2s_sample_rate = 0, ws_pin = 0, data_pin = 0, bck_pin = 0,
     blocks = \<lambda>_. None, slc_ints = False, slc_handler = False, i2s_io = blank_io\<rparr>"

definition ptrs0 :: "u32 list" where
  "ptrs0 = [0x100, 0x200, 0x300, 0x400, 0x500, 0x600, 0x700, 0x800]"

lemma example_ok: "ptrs_ok ptrs0" "fresh i2s0"
  by (simp_all add: ptrs_ok_def ptrs0_def fresh_def i2s0_def c_defs)

theorem i2s_stream_correct_witness:
  "\<exists>t. i2s_slc_begin 0x1000 ptrs0 i2s0 = Some t \<and> well_defined 0x1000 (sys_init 0x1000 t)"
  using i2s_stream_correct [OF example_ok, of "0x1000" 0] i2s_start by blast

text \<open>A driver whose interrupt is masked and whose queue is empty stays so.\<close>

definition muted :: "sys \<Rightarrow> bool" where
  "muted y \<longleftrightarrow> \<not> irq_enabled (drv y) \<and> i2s_slc_queue_len (drv y) = 0 \<and> i2s_curr_slc_buf (drv y) = NULL \<and> written y = [] \<and>
     (case pc y of Idle \<Rightarrow> True | Enter x nb \<Rightarrow> True | Waiting x nb \<Rightarrow> True | _ \<Rightarrow> False)"

lemma muted_step: "i2s_step base y z \<Longrightarrow> muted y \<Longrightarrow> muted z"
  by (induction rule: i2s_step.induct) (auto simp: muted_def needs_buffer_def dma_next_def)

lemma muted_steps: "i2s_steps base y z \<Longrightarrow> muted y \<Longrightarrow> muted z"
  by (induction rule: i2s_steps.induct) (auto intro: muted_step)

lemma muted_writes:
  assumes "muted y"
  shows "i2s_write_sample_nb x (drv y) = Some (False, drv y)" "i2s_write_sample base (replicate n None) x (drv y) = None"
proof -
  have "wait_buffer base (replicate n None) (drv y) = None" using assms by (induction n) (simp_all add: muted_def)
  then show "i2s_write_sample_nb x (drv y) = Some (False, drv y)" "i2s_write_sample base (replicate n None) x (drv y) = None"
    using assms by (simp_all add: muted_def i2s_write_sample_nb_def i2s_write_sample_def needs_buffer_def)
qed

lemma rate_44100: "i2s_sample_rate s = 0 \<Longrightarrow> \<exists>f. i2s_set_rate 44100 s = Some (on_i2s f (s\<lparr>i2s_sample_rate := 44100\<rparr>)) \<and>
    (\<forall>io. regs (f io) I2SIE = regs io I2SIE)"
  by (intro exI [of _ "\<lambda>io. i2s_io (the (i2s_set_rate 44100 (s\<lparr>i2s_io := io\<rparr>)))"]) (simp add: i2s_set_rate_def Let_def on_i2s_def)

lemma matrix_I2SIE [simp]:
  "regs (pinMode pin mode io) I2SIE = regs io I2SIE"
  by (simp add: I2SIE_def I2S_REG_def)

lemma attach_signal_drv:
  "i2s_slc_queue_len (attach_signal pin sig s) = i2s_slc_queue_len s" "i2s_curr_slc_buf (attach_signal pin sig s) = i2s_curr_slc_buf s"
  "i2s_sample_rate (attach_signal pin sig s) = i2s_sample_rate s"
  by (simp_all add: attach_signal_def on_i2s_def)

lemma begin_muted:
  assumes "ptrs_ok ptrs" "fresh s"
  shows "\<exists>t. i2s_begin base ptrs ws data bck s = Some t \<and> muted (sys_init base t)"
proof -
  have "fresh (s\<lparr>i2s_sample_rate := 0\<rparr>)" using assms(2) by (simp add: fresh_def)
  from slc_begin_ok [OF assms(1) this, of base] obtain t where t: "i2s_slc_begin base ptrs (s\<lparr>i2s_sample_rate := 0\<rparr>) = Some t"
    "i2s_slc_queue_len t = 0" "i2s_curr_slc_buf t = NULL" "i2s_sample_rate t = 0" by auto
  define u where "u = on_i2s (clear_bits I2SCC (push_bit 0 7 OR push_bit 3 3)) (on_i2s (set_bits I2SFC (push_bit 12 1))
    (on_i2s (clear_bits I2SFC (push_bit 12 1 OR push_bit 13 7 OR push_bit 16 7)) (on_i2s (clear_bits I2SC 0xF) (on_i2s (set_bits I2SC 0xF)
    (on_i2s (clear_bits I2SC 0xF) (on_i2s (wr I2SIE 0) (on_i2s (wr I2SIC 0x3F)
      (attach_signal bck 24 (attach_signal data 23 (attach_signal ws 25 (t\<lparr>ws_pin := ws, data_pin := data, bck_pin := bck\<rparr>)))))))))))"
  have u: "i2s_sample_rate u = 0" "i2s_slc_queue_len u = 0" "i2s_curr_slc_buf u = NULL" "regs (i2s_io u) I2SIE = 0"
    using t by (simp_all add: u_def on_i2s_def attach_signal_drv)
  from rate_44100 [OF u(1)] obtain f where f: "i2s_set_rate 44100 u = Some (on_i2s f (u\<lparr>i2s_sample_rate := 44100\<rparr>))"
    "\<forall>io. regs (f io) I2SIE = regs io I2SIE" by blast
  have "i2s_begin base ptrs ws data bck s = Some (on_i2s (set_bits I2SC (push_bit 8 1)) (on_i2s f (u\<lparr>i2s_sample_rate := 44100\<rparr>)))"
    unfolding i2s_begin_def t(1) bind.bind_lunit Let_def u_def [symmetric] f(1) ..
  moreover have "muted (sys_init base (on_i2s (set_bits I2SC (push_bit 8 1)) (on_i2s f (u\<lparr>i2s_sample_rate := 44100\<rparr>))))"
    using u f(2) by (simp add: muted_def sys_init_def irq_enabled_def on_i2s_def)
  ultimately show ?thesis by blast
qed

text \<open>
  C33: After \<open>i2s_begin\<close> no sample is ever accepted: \<open>i2s_slc_begin\<close> enables the interrupt of the DMA
  engine and \<open>i2s_begin\<close> then writes 0 into the same enable register. No interrupt comes, the queue of
  free buffers stays empty, \<open>i2s_write_sample_nb\<close> returns false for ever and \<open>i2s_write_sample\<close> waits
  for ever, whatever the engine plays.
\<close>

theorem i2s_begin_never_accepts:
  assumes "ptrs_ok ptrs" "fresh s"
  shows "\<exists>t. i2s_begin base ptrs ws data bck s = Some t \<and>
    (\<forall>y. i2s_steps base (sys_init base t) y \<longrightarrow> written y = [] \<and> i2s_write_sample_nb x (drv y) = Some (False, drv y) \<and>
       i2s_write_sample base (replicate n None) x (drv y) = None)"
  using begin_muted [OF assms] muted_steps muted_writes by (meson muted_def)

theorem i2s_begin_never_accepts_witness:
  "\<exists>t. i2s_begin 0x1000 ptrs0 25 26 27 i2s0 = Some t \<and> i2s_write_sample_nb 7 t = Some (False, t)"
  using i2s_begin_never_accepts [OF example_ok, of "0x1000" 25 26 27 7 0] i2s_start by (fastforce simp: sys_init_def)

end
