(* ===== verification/Cbuf.thy ===== *)
theory Cbuf
  imports Fifo
begin

section \<open>Ring buffer\<close>

text \<open>
  \<open>cbuf.cpp\<close>, the circular buffer of bytes of the core. The pointers \<open>_begin\<close>, \<open>_end\<close> and \<open>_bufend\<close> are
  offsets from \<open>_buf\<close>, and \<open>_bufend\<close> is \<open>_size\<close>. A block of the heap is the list of its bytes; \<open>None\<close> is the
  null pointer \<open>operator new[]\<close> returns when the heap is exhausted (\<open>abi.cpp\<close>). Sizes are 32 bits wide
  and wrap. A copy or an access that leaves the block is undefined (\<open>None\<close> as a result). A read into
  the buffer of the caller returns the bytes and their number. Whether \<open>char\<close> is signed, which decides
  the value of \<open>peek()\<close> and \<open>read()\<close>, is the parameter \<open>sc\<close>.
\<close>

record cbuf =
  cb_size :: nat
  cb_buf :: "byte list option"
  cb_begin :: nat
  cb_end :: nat

subsection \<open>Operations\<close>

definition cbuf_new :: "nat \<Rightarrow> byte list option \<Rightarrow> cbuf" where
  "cbuf_new sz newbuf = \<lparr>cb_size = sz, cb_buf = newbuf, cb_begin = 0, cb_end = 0\<rparr>"

definition block :: "cbuf \<Rightarrow> byte list" where
  "block s = (case cb_buf s of None \<Rightarrow> [] | Some b \<Rightarrow> b)"

definition copy_out :: "cbuf \<Rightarrow> nat \<Rightarrow> nat \<Rightarrow> byte list option" where
  "copy_out s i n = (if i + n \<le> length (block s) then Some (take n (drop i (block s))) else None)"

definition copy_in :: "nat \<Rightarrow> byte list \<Rightarrow> cbuf \<Rightarrow> cbuf option" where
  "copy_in i xs s =
     (if i + length xs \<le> length (block s)
      then Some (s\<lparr>cb_buf := Some (take i (block s) @ xs @ drop (i + length xs) (block s))\<rparr>) else None)"

definition char_int :: "bool \<Rightarrow> byte \<Rightarrow> int" where
  "char_int sc c = (if sc then sint c else uint c)"

definition wrap_if_bufend :: "cbuf \<Rightarrow> nat \<Rightarrow> nat" where
  "wrap_if_bufend s p = (if p = cb_size s then 0 else p)"

definition cbuf_empty :: "cbuf \<Rightarrow> bool" where
  "cbuf_empty s \<longleftrightarrow> cb_begin s = cb_end s"

definition cbuf_full :: "cbuf \<Rightarrow> bool" where
  "cbuf_full s \<longleftrightarrow> wrap_if_bufend s (cb_end s + 1) = cb_begin s"

definition cbuf_available :: "cbuf \<Rightarrow> nat" where
  "cbuf_available s =
     (if cb_end s \<ge> cb_begin s then cb_end s - cb_begin s else sub32 (cb_size s) (cb_begin s - cb_end s))"

definition cbuf_room :: "cbuf \<Rightarrow> nat" where
  "cbuf_room s =
     (if cb_end s \<ge> cb_begin s then sub32 (sub32 (cb_size s) (cb_end s - cb_begin s)) 1
      else sub32 (cb_begin s - cb_end s) 1)"

definition cbuf_peek_char :: "bool \<Rightarrow> cbuf \<Rightarrow> int option" where
  "cbuf_peek_char sc s = (if cbuf_empty s then Some (-1) else map_option (char_int sc) (get_at (block s) (cb_begin s)))"

definition cbuf_peek :: "nat \<Rightarrow> cbuf \<Rightarrow> (nat \<times> byte list) option" where
  "cbuf_peek sz s =
     (let bytes_available = cbuf_available s;
          size_to_read = (if sz < bytes_available then sz else bytes_available)
      in if cb_end s < cb_begin s \<and> size_to_read > cb_size s - cb_begin s then do {
           let top_size = cb_size s - cb_begin s;
           top \<leftarrow> copy_out s (cb_begin s) top_size;
           rest \<leftarrow> copy_out s 0 (size_to_read - top_size);
           Some (size_to_read, top @ rest)
         } else do {
           xs \<leftarrow> copy_out s (cb_begin s) size_to_read;
           Some (size_to_read, xs)
         })"

definition cbuf_read_char :: "bool \<Rightarrow> cbuf \<Rightarrow> (int \<times> cbuf) option" where
  "cbuf_read_char sc s =
     (if cbuf_empty s then Some (-1, s)
      else do {
        result \<leftarrow> get_at (block s) (cb_begin s);
        Some (char_int sc result, s\<lparr>cb_begin := wrap_if_bufend s (cb_begin s + 1)\<rparr>)
      })"

definition cbuf_read :: "nat \<Rightarrow> cbuf \<Rightarrow> (nat \<times> byte list \<times> cbuf) option" where
  "cbuf_read sz s =
     (let bytes_available = cbuf_available s;
          size_to_read = (if sz < bytes_available then sz else bytes_available)
      in if cb_end s < cb_begin s \<and> size_to_read > cb_size s - cb_begin s then do {
           let top_size = cb_size s - cb_begin s;
           top \<leftarrow> copy_out s (cb_begin s) top_size;
           rest \<leftarrow> copy_out s 0 (size_to_read - top_size);
           Some (size_to_read, top @ rest, s\<lparr>cb_begin := wrap_if_bufend s (size_to_read - top_size)\<rparr>)
         } else do {
           xs \<leftarrow> copy_out s (cb_begin s) size_to_read;
           Some (size_to_read, xs, s\<lparr>cb_begin := wrap_if_bufend s (cb_begin s + size_to_read)\<rparr>)
         })"

definition cbuf_write_char :: "byte \<Rightarrow> cbuf \<Rightarrow> (nat \<times> cbuf) option" where
  "cbuf_write_char c s =
     (if cbuf_full s then Some (0, s)
      else do {
        s \<leftarrow> copy_in (cb_end s) [c] s;
        Some (1, s\<lparr>cb_end := wrap_if_bufend s (cb_end s + 1)\<rparr>)
      })"

definition cbuf_write :: "byte list \<Rightarrow> cbuf \<Rightarrow> (nat \<times> cbuf) option" where
  "cbuf_write src s =
     (let bytes_available = cbuf_room s;
          size_to_write = (if length src < bytes_available then length src else bytes_available)
      in if cb_end s \<ge> cb_begin s \<and> size_to_write > cb_size s - cb_end s then do {
           let top_size = cb_size s - cb_end s;
           s \<leftarrow> copy_in (cb_end s) (take top_size src) s;
           let rest = take (size_to_write - top_size) (drop top_size src);
           s \<leftarrow> copy_in 0 rest s;
           Some (size_to_write, s\<lparr>cb_end := wrap_if_bufend s (size_to_write - top_size)\<rparr>)
         } else do {
           s \<leftarrow> copy_in (cb_end s) (take size_to_write src) s;
           Some (size_to_write, s\<lparr>cb_end := wrap_if_bufend s (cb_end s + size_to_write)\<rparr>)
         })"

definition cbuf_flush :: "cbuf \<Rightarrow> cbuf" where
  "cbuf_flush s = s\<lparr>cb_begin := 0, cb_end := 0\<rparr>"

definition cbuf_remove :: "nat \<Rightarrow> cbuf \<Rightarrow> nat \<times> cbuf" where
  "cbuf_remove sz s =
     (let bytes_available = cbuf_available s
      in if sz \<ge> bytes_available then (0, cbuf_flush s)
         else let
           size_to_remove = (if sz < bytes_available then sz else bytes_available);
           s = (if cb_end s < cb_begin s \<and> size_to_remove > cb_size s - cb_begin s
                then s\<lparr>cb_begin := wrap_if_bufend s (size_to_remove - (cb_size s - cb_begin s))\<rparr>
                else s\<lparr>cb_begin := wrap_if_bufend s (cb_begin s + size_to_remove)\<rparr>)
         in (cbuf_available s, s))"

text \<open>\<open>newbuf\<close> is what \<open>new char[newSize]\<close> returns: null, or a block with some contents.\<close>

definition cbuf_resize :: "byte list option \<Rightarrow> nat \<Rightarrow> cbuf \<Rightarrow> (nat \<times> cbuf) option" where
  "cbuf_resize newbuf newSize s =
     (let bytes_available = cbuf_available s
      in if newSize < bytes_available \<or> newSize = cb_size s then Some (cb_size s, s)
         else case newbuf of None \<Rightarrow> Some (cb_size s, s) | Some b \<Rightarrow> do {
           b \<leftarrow> (if cb_buf s \<noteq> None then do {
                    (_, xs, _) \<leftarrow> cbuf_read bytes_available s;
                    Some (xs @ replicate (newSize - bytes_available) 0)
                  } else Some b);
           Some (newSize, \<lparr>cb_size = newSize, cb_buf = Some b, cb_begin = 0, cb_end = bytes_available\<rparr>)
         })"

definition cbuf_resizeAdd :: "byte list option \<Rightarrow> nat \<Rightarrow> cbuf \<Rightarrow> (nat \<times> cbuf) option" where
  "cbuf_resizeAdd newbuf addSize s = cbuf_resize newbuf (add32 (cb_size s) addSize) s"

subsection \<open>The queue it holds\<close>

definition cbuf_ok :: "cbuf \<Rightarrow> bool" where
  "cbuf_ok s \<longleftrightarrow> cb_size s = length (block s) \<and> cb_size s < 2 ^ 32 \<and> cb_begin s < cb_size s \<and> cb_end s < cb_size s"

definition bytes :: "cbuf \<Rightarrow> byte list" where
  "bytes s =
     (if cb_begin s \<le> cb_end s then take (cb_end s - cb_begin s) (drop (cb_begin s) (block s))
      else drop (cb_begin s) (block s) @ take (cb_end s) (block s))"

definition cbuf_cap :: "cbuf \<Rightarrow> nat" where
  "cbuf_cap s = cb_size s - 1"

lemma sub32_le: "j \<le> i \<Longrightarrow> i < 2 ^ 32 \<Longrightarrow> sub32 i j = i - j"
  by (simp add: sub32_def le_mod_geq)

lemma has_block: "cbuf_ok s \<Longrightarrow> cb_buf s \<noteq> None"
  by (cases "cb_buf s") (auto simp: cbuf_ok_def block_def)

lemma available_bytes: "cbuf_ok s \<Longrightarrow> cbuf_available s = length (bytes s)"
  by (auto simp: cbuf_available_def cbuf_ok_def bytes_def sub32_le)

lemma room_bytes: "cbuf_ok s \<Longrightarrow> cbuf_room s = cbuf_cap s - length (bytes s)"
  by (auto simp: cbuf_room_def cbuf_ok_def bytes_def cbuf_cap_def sub32_le)

lemma bytes_bound: "cbuf_ok s \<Longrightarrow> length (bytes s) \<le> cbuf_cap s"
  by (auto simp: cbuf_ok_def bytes_def cbuf_cap_def)

lemma empty_bytes: "cbuf_ok s \<Longrightarrow> cbuf_empty s \<longleftrightarrow> bytes s = []"
  by (auto simp: cbuf_empty_def cbuf_ok_def bytes_def)

lemma full_bytes: "cbuf_ok s \<Longrightarrow> cbuf_full s \<longleftrightarrow> length (bytes s) = cbuf_cap s"
  by (auto simp: cbuf_full_def cbuf_ok_def bytes_def cbuf_cap_def wrap_if_bufend_def)

text \<open>The place of the \<open>n\<close>th byte from the front.\<close>

definition skip :: "nat \<Rightarrow> cbuf \<Rightarrow> cbuf" where
  "skip n s = s\<lparr>cb_begin := (if cb_begin s + n < cb_size s then cb_begin s + n else cb_begin s + n - cb_size s)\<rparr>"

lemma block_simps [simp]:
  "block (s\<lparr>cb_begin := i\<rparr>) = block s" "block (s\<lparr>cb_end := i\<rparr>) = block s" "block (s\<lparr>cb_buf := Some b\<rparr>) = b"
  by (simp_all add: block_def)

lemma skip_bytes:
  assumes "cbuf_ok s" "n \<le> length (bytes s)"
  shows "cbuf_ok (skip n s)" "bytes (skip n s) = drop n (bytes s)" "cb_size (skip n s) = cb_size s"
proof -
  show "cbuf_ok (skip n s)" using assms by (auto simp: cbuf_ok_def skip_def bytes_def split: if_splits)
  show "bytes (skip n s) = drop n (bytes s)"
  proof (cases "cb_begin s \<le> cb_end s")
    case True
    then show ?thesis using assms by (auto simp: cbuf_ok_def skip_def bytes_def drop_take add.commute)
  next
    case False
    then show ?thesis using assms by (auto simp: cbuf_ok_def skip_def bytes_def drop_take add.commute)
  qed
qed (simp add: skip_def)

lemma read_peek:
  fixes n :: nat
  assumes "cbuf_ok s"
  defines "k \<equiv> min n (length (bytes s))"
  shows "cbuf_peek n s = Some (k, take n (bytes s))"
    and "cbuf_read n s = Some (k, take n (bytes s), skip k s)"
proof -
  have k: "(if n < cbuf_available s then n else cbuf_available s) = k" "k \<le> length (bytes s)"
    by (simp_all add: k_def min_def available_bytes [OF assms(1)])
  have tk: "take n (bytes s) = take k (bytes s)" by (simp add: k_def min_def)
  have "cbuf_peek n s = Some (k, take k (bytes s)) \<and> cbuf_read n s = Some (k, take k (bytes s), skip k s)"
  proof (cases "cb_begin s \<le> cb_end s")
    case True
    then show ?thesis using assms(1) k(2)
      by (auto simp: cbuf_peek_def cbuf_read_def k(1) Let_def copy_out_def wrap_if_bufend_def cbuf_ok_def skip_def bytes_def)
  next
    case False
    show ?thesis
    proof (cases "cb_size s - cb_begin s < k")
      case top: True
      have "take k (bytes s) = drop (cb_begin s) (block s) @ take (k - (cb_size s - cb_begin s)) (block s)"
        using False top k(2) assms(1) by (auto simp: bytes_def cbuf_ok_def min_def)
      then show ?thesis using False top assms(1) k(2)
        by (auto simp: cbuf_peek_def cbuf_read_def k(1) Let_def copy_out_def wrap_if_bufend_def cbuf_ok_def skip_def bytes_def add.commute)
    next
      case top: False
      then show ?thesis using False assms(1) k(2)
        by (auto simp: cbuf_peek_def cbuf_read_def k(1) Let_def copy_out_def wrap_if_bufend_def cbuf_ok_def skip_def bytes_def)
    qed
  qed
  then show "cbuf_peek n s = Some (k, take n (bytes s))" "cbuf_read n s = Some (k, take n (bytes s), skip k s)"
    by (simp_all add: tk)
qed

lemma remove_skip:
  assumes "cbuf_ok s" "n < length (bytes s)"
  shows "cbuf_remove n s = (length (bytes s) - n, skip n s)"
proof -
  have "cbuf_available (skip n s) = length (bytes s) - n"
    using available_bytes [OF skip_bytes(1)] skip_bytes(2) assms by simp
  moreover have "snd (cbuf_remove n s) = skip n s"
    using assms by (auto simp: cbuf_remove_def Let_def available_bytes wrap_if_bufend_def skip_def cbuf_ok_def bytes_def split: if_splits)
  ultimately show ?thesis
    using assms by (auto simp: cbuf_remove_def Let_def available_bytes)
qed

lemma read_char_skip:
  assumes "cbuf_ok s" "bytes s = c # cs"
  shows "cbuf_read_char sc s = Some (char_int sc c, skip 1 s)" "cbuf_peek_char sc s = Some (char_int sc c)"
proof -
  have "get_at (block s) (cb_begin s) = Some c"
    using assms by (cases "drop (cb_begin s) (block s)")
      (auto simp: get_at_def bytes_def cbuf_ok_def nth_via_drop take_Cons' split: if_splits)
  then show "cbuf_read_char sc s = Some (char_int sc c, skip 1 s)" "cbuf_peek_char sc s = Some (char_int sc c)"
    using assms by (auto simp: cbuf_read_char_def cbuf_peek_char_def empty_bytes skip_def wrap_if_bufend_def cbuf_ok_def)
qed

lemma copy_in_some:
  "i + length xs \<le> length (block s) \<Longrightarrow>
   copy_in i xs s = Some (s\<lparr>cb_buf := Some (take i (block s) @ xs @ drop (i + length xs) (block s))\<rparr>)"
  by (simp add: copy_in_def)

lemma write_bytes:
  assumes "cbuf_ok s"
  shows "\<exists>s'. cbuf_write xs s = Some (min (length xs) (cbuf_cap s - length (bytes s)), s') \<and> cbuf_ok s' \<and>
    bytes s' = bytes s @ take (cbuf_cap s - length (bytes s)) xs \<and> cb_size s' = cb_size s"
proof -
  define k where "k = min (length xs) (cbuf_cap s - length (bytes s))"
  have k: "(if length xs < cbuf_room s then length xs else cbuf_room s) = k" "k \<le> cbuf_cap s - length (bytes s)" "k \<le> length xs"
    by (simp_all add: k_def room_bytes [OF assms])
  have tk: "take (cbuf_cap s - length (bytes s)) xs = take k xs" by (simp add: k_def min_def)
  have ok: "cb_size s = length (block s)" "cb_size s < 2 ^ 32" "cb_begin s < cb_size s" "cb_end s < cb_size s"
    using assms by (simp_all add: cbuf_ok_def)
  have "\<exists>s'. cbuf_write xs s = Some (k, s') \<and> cbuf_ok s' \<and> bytes s' = bytes s @ take k xs \<and> cb_size s' = cb_size s"
  proof (cases "cb_begin s \<le> cb_end s")
    case True
    then have room: "k + cb_end s < cb_begin s + cb_size s" using k(2) ok by (auto simp: cbuf_cap_def bytes_def)
    show ?thesis
    proof (cases "cb_size s - cb_end s < k")
      case top: True
      define n where "n = cb_size s - cb_end s"
      have "cbuf_write xs s = Some (k, s\<lparr>cb_buf := Some (take (k - n) (drop n xs) @ drop (k - n) (take (cb_end s) (block s) @ take n xs)),
          cb_end := k - n\<rparr>)"
        using True top ok k(3) room
        by (simp add: cbuf_write_def k(1) Let_def n_def [symmetric] copy_in_some wrap_if_bufend_def) (simp add: n_def)
      moreover have "take k xs = take n xs @ take (k - n) (drop n xs)"
        using top by (simp add: n_def take_add [symmetric])
      ultimately show ?thesis using True top ok k(3) room
        by (auto simp: cbuf_ok_def bytes_def n_def drop_take)
    next
      case top: False
      have "cbuf_write xs s = Some (k, s\<lparr>cb_buf := Some (take (cb_end s) (block s) @ take k xs @ drop (cb_end s + k) (block s)),
          cb_end := (if cb_end s + k = cb_size s then 0 else cb_end s + k)\<rparr>)"
        using True top ok k(3) by (simp add: cbuf_write_def k(1) Let_def copy_in_some wrap_if_bufend_def)
      then show ?thesis using True top ok k(3) room
        by (auto simp: cbuf_ok_def bytes_def drop_take)
    qed
  next
    case False
    then have room: "k + cb_end s < cb_begin s" using k(2) ok by (auto simp: cbuf_cap_def bytes_def)
    have "cbuf_write xs s = Some (k, s\<lparr>cb_buf := Some (take (cb_end s) (block s) @ take k xs @ drop (cb_end s + k) (block s)),
          cb_end := cb_end s + k\<rparr>)"
      using False ok k(3) room by (simp add: cbuf_write_def k(1) Let_def copy_in_some wrap_if_bufend_def)
    then show ?thesis using False ok k(3) room by (auto simp: cbuf_ok_def bytes_def)
  qed
  then show ?thesis by (simp add: k_def tk)
qed

text \<open>Writing one character is writing a block of one.\<close>

lemma write_char_write:
  assumes "cbuf_ok s"
  shows "cbuf_write_char c s = cbuf_write [c] s"
proof (cases "cbuf_full s")
  case True
  have "s\<lparr>cb_buf := Some (block s)\<rparr> = s" using assms by (cases s) (auto simp: block_def cbuf_ok_def split: option.splits)
  then show ?thesis using True assms full_bytes [OF assms]
    by (simp add: cbuf_write_char_def cbuf_write_def Let_def room_bytes copy_in_def wrap_if_bufend_def) (simp add: cbuf_ok_def)
next
  case False
  then have k: "(if length [c] < cbuf_room s then length [c] else cbuf_room s) = 1"
    using assms bytes_bound [OF assms] by (auto simp: full_bytes room_bytes)
  have "\<not> cb_size s - cb_end s < 1" "\<not> cb_size s \<le> cb_end s" using assms by (auto simp: cbuf_ok_def)
  then show ?thesis using False unfolding cbuf_write_char_def cbuf_write_def Let_def k by simp
qed

lemma resize_bytes:
  assumes "cbuf_ok s"
  shows "n < length (bytes s) \<or> n = cb_size s \<Longrightarrow> cbuf_resize newbuf n s = Some (cb_size s, s)"
    and "length (bytes s) < n \<Longrightarrow> n \<noteq> cb_size s \<Longrightarrow> n < 2 ^ 32 \<Longrightarrow>
      \<exists>s'. cbuf_resize (Some b) n s = Some (n, s') \<and> cbuf_ok s' \<and> bytes s' = bytes s \<and> cb_size s' = n"
proof -
  show "cbuf_resize newbuf n s = Some (cb_size s, s)" if "n < length (bytes s) \<or> n = cb_size s"
    using that by (auto simp: cbuf_resize_def available_bytes [OF assms])
  assume n: "length (bytes s) < n" "n \<noteq> cb_size s" "n < 2 ^ 32"
  have "cb_buf s \<noteq> None" using has_block [OF assms(1)] .
  then have "cbuf_resize (Some b) n s = Some (n, \<lparr>cb_size = n, cb_buf = Some (bytes s @ replicate (n - length (bytes s)) 0),
      cb_begin = 0, cb_end = length (bytes s)\<rparr>)" (is "_ = Some (n, ?s)")
    using n by (simp add: cbuf_resize_def Let_def available_bytes [OF assms] read_peek(2) [OF assms])
  moreover have "cbuf_ok ?s" "bytes ?s = bytes s" using n by (simp_all add: cbuf_ok_def bytes_def block_def)
  ultimately show "\<exists>s'. cbuf_resize (Some b) n s = Some (n, s') \<and> cbuf_ok s' \<and> bytes s' = bytes s \<and> cb_size s' = n" by simp
qed

text \<open>
  Resizing to exactly the number of bytes held breaks the buffer: one place of the block has to stay
  free, and afterwards the end is not wrapped. The buffer then takes itself for having room for
  2 ^ 32 - 1 bytes, and the next character is written behind the block.
\<close>

lemma resize_exact:
  assumes "cbuf_ok s"
  shows "\<exists>t. cbuf_resize (Some b) (length (bytes s)) s = Some (length (bytes s), t) \<and> bytes t = bytes s \<and>
    cbuf_room t = 2 ^ 32 - 1 \<and> \<not> cbuf_full t \<and> cbuf_write_char c t = None"
proof -
  have n: "length (bytes s) \<noteq> cb_size s" "length (bytes s) < 2 ^ 32" using bytes_bound [OF assms] assms by (auto simp: cbuf_cap_def cbuf_ok_def)
  have "cb_buf s \<noteq> None" using has_block [OF assms] .
  then have "cbuf_resize (Some b) (length (bytes s)) s = Some (length (bytes s), \<lparr>cb_size = length (bytes s), cb_buf = Some (bytes s),
      cb_begin = 0, cb_end = length (bytes s)\<rparr>)" (is "_ = Some (_, ?t)")
    using n by (simp add: cbuf_resize_def Let_def available_bytes [OF assms] read_peek(2) [OF assms])
  moreover have "bytes ?t = bytes s" "cbuf_room ?t = 2 ^ 32 - 1" "\<not> cbuf_full ?t" "cbuf_write_char c ?t = None"
    using n(2) by (simp_all add: bytes_def block_def cbuf_room_def sub32_def cbuf_full_def cbuf_write_char_def copy_in_def wrap_if_bufend_def)
  ultimately show ?thesis by blast
qed

lemma flush_bytes: "cbuf_ok s \<Longrightarrow> cbuf_ok (cbuf_flush s) \<and> bytes (cbuf_flush s) = [] \<and> cb_size (cbuf_flush s) = cb_size s"
  by (auto simp: cbuf_flush_def cbuf_ok_def bytes_def block_def)

subsection \<open>As a bounded queue\<close>

text \<open>A character accepted, a character taken out; with an unsigned \<open>char\<close> -1 is no character.\<close>

definition ring_push :: "byte \<Rightarrow> cbuf \<Rightarrow> cbuf option" where
  "ring_push c s = (case cbuf_write_char c s of Some (Suc _, s') \<Rightarrow> Some s' | _ \<Rightarrow> None)"

definition ring_pop :: "cbuf \<Rightarrow> (byte \<times> cbuf) option" where
  "ring_pop s = (case cbuf_read_char False s of Some (v, s') \<Rightarrow> if v = -1 then None else Some (word_of_int v, s') | None \<Rightarrow> None)"

interpretation ring: bounded_fifo cbuf_ok bytes cbuf_cap ring_push ring_pop
proof
  fix s :: cbuf and a :: byte
  assume ok: "cbuf_ok s"
  show "length (bytes s) \<le> cbuf_cap s" using bytes_bound [OF ok] .
  from write_bytes [OF ok, of "[a]"] obtain s' where s': "cbuf_write_char a s = Some (min 1 (cbuf_cap s - length (bytes s)), s')"
    "cbuf_ok s'" "bytes s' = bytes s @ take (cbuf_cap s - length (bytes s)) [a]" "cb_size s' = cb_size s"
    by (auto simp: write_char_write [OF ok])
  show "\<exists>s'. ring_push a s = Some s' \<and> cbuf_ok s' \<and> bytes s' = bytes s @ [a] \<and> cbuf_cap s' = cbuf_cap s"
    if "length (bytes s) < cbuf_cap s"
    using s' that by (cases "cbuf_cap s - length (bytes s)") (auto simp: ring_push_def cbuf_cap_def)
  show "ring_push a s = None" if "length (bytes s) = cbuf_cap s" using s'(1) that by (simp add: ring_push_def)
  show "ring_pop s = None" if "bytes s = []"
    using that by (simp add: ring_pop_def cbuf_read_char_def empty_bytes [OF ok])
  show "\<exists>s'. ring_pop s = Some (a, s') \<and> cbuf_ok s' \<and> bytes s' = as \<and> cbuf_cap s' = cbuf_cap s"
    if "bytes s = a # as" for as
  proof -
    have "uint a \<noteq> -1" using uint_ge_0 [of a] by linarith
    then show ?thesis using read_char_skip(1) [OF ok that, of False] skip_bytes [OF ok, of 1] that
      by (auto simp: ring_pop_def char_int_def cbuf_cap_def)
  qed
qed

text \<open>
  C12: The ring buffer is a queue. It holds up to one byte less than its block; a write appends as many of
  its bytes as there is room for and returns their number; reads return the oldest bytes, peeking
  leaves them, \<open>remove\<close> and \<open>flush\<close> drop them; resizing keeps them all, or changes nothing when there
  are more than the new size. Nothing leaves the block, wherever in it the bytes lie, with one
  exception: resizing to exactly the number of bytes held leaves no place free, the buffer then takes
  itself for having room for 2 ^ 32 - 1 bytes, and the next character is written behind the block. A
  sequence of writes and reads of single characters takes the characters out in the order they were
  accepted.
\<close>

theorem cbuf_is_queue:
  assumes "cbuf_ok s"
  shows "cbuf_available s = length (bytes s) \<and> length (bytes s) + cbuf_room s = cb_size s - 1 \<and>
    (\<exists>t. cbuf_write xs s = Some (min (length xs) (cbuf_room s), t) \<and> cbuf_ok t \<and> cb_size t = cb_size s \<and>
      bytes t = bytes s @ take (cbuf_room s) xs) \<and>
    cbuf_peek n s = Some (min n (length (bytes s)), take n (bytes s)) \<and>
    (\<exists>t. cbuf_read n s = Some (min n (length (bytes s)), take n (bytes s), t) \<and> cbuf_ok t \<and> cb_size t = cb_size s \<and>
      bytes t = drop n (bytes s)) \<and>
    (\<exists>t. cbuf_remove n s = (length (drop n (bytes s)), t) \<and> cbuf_ok t \<and> cb_size t = cb_size s \<and> bytes t = drop n (bytes s)) \<and>
    (m < 2 ^ 32 \<longrightarrow> m \<noteq> length (bytes s) \<longrightarrow>
      (\<exists>t. cbuf_resize (Some b) m s = Some (cb_size t, t) \<and> cbuf_ok t \<and> bytes t = bytes s \<and>
        cb_size t = (if m < length (bytes s) then cb_size s else m))) \<and>
    (m = length (bytes s) \<longrightarrow>
      (\<exists>t. cbuf_resize (Some b) m s = Some (m, t) \<and> bytes t = bytes s \<and> cbuf_room t = 2 ^ 32 - 1 \<and> \<not> cbuf_full t \<and>
        cbuf_write_char c t = None)) \<and>
    (fifo_run ring_push ring_pop cs s = (ins, outs, u) \<longrightarrow> cbuf_ok u \<and> bytes s @ ins = outs @ bytes u)"
proof (intro conjI impI)
  show "cbuf_available s = length (bytes s)" using available_bytes [OF assms] .
  have room: "cbuf_room s = cbuf_cap s - length (bytes s)" using room_bytes [OF assms] .
  show "length (bytes s) + cbuf_room s = cb_size s - 1" using bytes_bound [OF assms] by (simp add: room cbuf_cap_def)
  show "\<exists>t. cbuf_write xs s = Some (min (length xs) (cbuf_room s), t) \<and> cbuf_ok t \<and> cb_size t = cb_size s \<and>
      bytes t = bytes s @ take (cbuf_room s) xs" using write_bytes [OF assms, of xs] by (auto simp: room)
  show "cbuf_peek n s = Some (min n (length (bytes s)), take n (bytes s))" using read_peek(1) [OF assms] .
  have "bytes (skip (min n (length (bytes s))) s) = drop n (bytes s)"
    using skip_bytes(2) [OF assms, of "min n (length (bytes s))"] by (simp add: min_def)
  then show "\<exists>t. cbuf_read n s = Some (min n (length (bytes s)), take n (bytes s), t) \<and> cbuf_ok t \<and> cb_size t = cb_size s \<and>
      bytes t = drop n (bytes s)"
    using read_peek(2) [OF assms, of n] skip_bytes(1,3) [OF assms, of "min n (length (bytes s))"] by simp
  show "\<exists>t. cbuf_remove n s = (length (drop n (bytes s)), t) \<and> cbuf_ok t \<and> cb_size t = cb_size s \<and> bytes t = drop n (bytes s)"
  proof (cases "n < length (bytes s)")
    case True
    then show ?thesis using remove_skip [OF assms] skip_bytes [OF assms, of n] by simp
  next
    case False
    then show ?thesis using flush_bytes [OF assms] by (simp add: cbuf_remove_def Let_def available_bytes [OF assms])
  qed
  show "\<exists>t. cbuf_resize (Some b) m s = Some (cb_size t, t) \<and> cbuf_ok t \<and> bytes t = bytes s \<and>
        cb_size t = (if m < length (bytes s) then cb_size s else m)" if "m < 2 ^ 32" "m \<noteq> length (bytes s)"
  proof (cases "m < length (bytes s) \<or> m = cb_size s")
    case True
    then show ?thesis using resize_bytes(1) [OF assms True, of "Some b"] assms bytes_bound [OF assms] by (auto simp: cbuf_cap_def)
  next
    case False
    then have "length (bytes s) < m" "m \<noteq> cb_size s" using that(2) by auto
    from resize_bytes(2) [OF assms this that(1), of b] show ?thesis using False by auto
  qed
  show "\<exists>t. cbuf_resize (Some b) m s = Some (m, t) \<and> bytes t = bytes s \<and> cbuf_room t = 2 ^ 32 - 1 \<and> \<not> cbuf_full t \<and>
        cbuf_write_char c t = None" if "m = length (bytes s)"
    using resize_exact [OF assms] that by simp
next
  assume "fifo_run ring_push ring_pop cs s = (ins, outs, u)"
  from ring.fifo_order [OF assms this] show "cbuf_ok u" "bytes s @ ins = outs @ bytes u" by auto
qed

definition ring0 :: cbuf where
  "ring0 = \<lparr>cb_size = 4, cb_buf = Some [10, 11, 12, 13], cb_begin = 2, cb_end = 1\<rparr>"

theorem cbuf_is_queue_witness:
  "cbuf_ok ring0 \<and> cbuf_peek 3 ring0 = Some (3, [12, 13, 10]) \<and>
   (\<exists>t. cbuf_resize (Some (replicate 9 0)) 9 ring0 = Some (9, t) \<and> bytes t = [12, 13, 10]) \<and>
   (\<exists>t. cbuf_resize (Some (replicate 3 0)) 3 ring0 = Some (3, t) \<and> cbuf_write_char 7 t = None) \<and>
   fst (snd (fifo_run ring_push ring_pop [Pop, Push 7, Pop, Pop, Pop] ring0)) = [12, 13, 10, 7]"
proof -
  have ok: "cbuf_ok ring0" by (simp add: cbuf_ok_def ring0_def block_def)
  have b: "bytes ring0 = [12, 13, 10]" by (simp add: bytes_def ring0_def block_def)
  obtain ins outs u where run: "fifo_run ring_push ring_pop [Pop, Push 7, Pop, Pop, Pop] ring0 = (ins, outs, u)"
    by (metis prod_cases3)
  have "\<exists>t. cbuf_resize (Some (replicate 3 0)) 3 ring0 = Some (3, t) \<and> cbuf_write_char 7 t = None"
    using cbuf_is_queue [OF ok, of "[]" 3 3 "replicate 3 0" 7 "[]" "[]" "[]" ring0] by (auto simp: b)
  moreover from cbuf_is_queue [OF ok, of "[]" 3 9 "replicate 9 0" 7 "[Pop, Push 7, Pop, Pop, Pop]"] run
  have "[12, 13, 10] @ ins = outs @ bytes u" "cbuf_peek 3 ring0 = Some (3, [12, 13, 10])"
    "\<exists>t. cbuf_resize (Some (replicate 9 0)) 9 ring0 = Some (9, t) \<and> bytes t = [12, 13, 10]"
    by (force simp: b numeral_3_eq_3)+
  moreover have "outs = [12, 13, 10, 7]"
    using run by (auto simp: ring_pop_def ring_push_def cbuf_read_char_def cbuf_write_char_def cbuf_empty_def cbuf_full_def wrap_if_bufend_def
        ring0_def block_def get_at_def copy_in_def char_int_def)
  ultimately show ?thesis using ok run by simp
qed

end
