(* ===== verification/Interrupts.thy ===== *)
theory Interrupts
  imports Periph
begin

section \<open>Interrupts of pins and timers\<close>

text \<open>
  The interrupt functions of \<open>core_esp31b_wiring_digital.c\<close> and the attachment of the timers of
  \<open>core_esp31b_timer.c\<close>. A pin interrupt is a pulse counter that fires at its first pulse: each of the
  eight counters has an entry in \<open>interrupt_handlers\<close>. What the handlers of the user do is the
  parameter \<open>user\<close>; \<open>irq_log\<close> lists the calls. Undefined behaviour (an index beyond the table, a shift by
  32 or more) and a loop that does not end are \<open>None\<close>. \<open>__builtin_ctz(0)\<close>, which the compiler leaves
  undefined, is the parameter \<open>ctz0\<close>. The functions of the SDK that set the handler of an interrupt
  line and switch it on and off change \<open>line_isr\<close> and \<open>line_on\<close>.
\<close>

subsection \<open>State\<close>

datatype isr = onPinInterrupt_isr | timer1_isr | timer0_isr

record pin_int_handler_t =
  h_pin :: int
  h_mode :: nat
  h_fn :: "nat option"

record irqs =
  irq_io :: io
  line_on :: "nat \<Rightarrow> bool"
  line_isr :: "nat \<Rightarrow> isr option"
  interrupt_handlers :: "pin_int_handler_t list"
  interrupt_initialized :: bool
  timer0_user_cb :: "nat option"
  irq_log :: "nat list"

definition ETS_GPIO_INUM :: nat where [c_defs]: "ETS_GPIO_INUM = 4"
definition HW_GPIO_INUM :: nat where [c_defs]: "HW_GPIO_INUM = 19"
definition ETS_FRC_TIMER1_INUM :: nat where [c_defs]: "ETS_FRC_TIMER1_INUM = 9"
definition ETS_FRC_TIMER1_SOURCE :: nat where [c_defs]: "ETS_FRC_TIMER1_SOURCE = 42"
definition XCHAL_TIMER1_INTERRUPT :: nat where [c_defs]: "XCHAL_TIMER1_INTERRUPT = 15"

definition PCNT_CONF0 :: "nat \<Rightarrow> nat" where "PCNT_CONF0 k = 0x60017000 + k * 12"
definition PCNT_CONF1 :: "nat \<Rightarrow> nat" where "PCNT_CONF1 k = 0x60017004 + k * 12"
definition PCNT_CONF2 :: "nat \<Rightarrow> nat" where "PCNT_CONF2 k = 0x60017008 + k * 12"
definition PCNT_INT_ST :: nat where "PCNT_INT_ST = 0x60017084"
definition PCNT_INT_ENA :: nat where "PCNT_INT_ENA = 0x60017088"
definition PCNT_INT_CLR :: nat where "PCNT_INT_CLR = 0x6001708c"
definition PCNT_CTRL :: nat where "PCNT_CTRL = 0x600170b0"

definition intr_gpio_signals :: "nat list" where
  "intr_gpio_signals = [39, 43, 47, 51, 55, 71, 75, 79]"

definition RISING :: u32 where "RISING = 1"
definition FALLING :: u32 where "FALLING = 2"
definition CHANGE :: u32 where "CHANGE = 3"

definition on_irq :: "(io \<Rightarrow> io) \<Rightarrow> irqs \<Rightarrow> irqs" where
  "on_irq f s = s\<lparr>irq_io := f (irq_io s)\<rparr>"

definition set_line :: "nat \<Rightarrow> bool \<Rightarrow> irqs \<Rightarrow> irqs" where
  "set_line n b s = s\<lparr>line_on := (line_on s)(n := b)\<rparr>"

definition call_user :: "(nat \<Rightarrow> irqs \<Rightarrow> irqs) \<Rightarrow> nat \<Rightarrow> irqs \<Rightarrow> irqs" where
  "call_user user f s = user f (s\<lparr>irq_log := irq_log s @ [f]\<rparr>)"

subsection \<open>Serving pin interrupts\<close>

definition restart_counter :: "nat \<Rightarrow> io \<Rightarrow> io" where
  "restart_counter intr_num =
     CLEAR_PERI_REG_MASK PCNT_CTRL (BIT (intr_num * 2)) \<circ>
     CLEAR_PERI_REG_MASK PCNT_CTRL (BIT (intr_num * 2 + 1)) \<circ>
     SET_PERI_REG_MASK PCNT_CTRL (BIT (intr_num * 2)) \<circ>
     CLEAR_PERI_REG_MASK PCNT_CTRL (BIT (intr_num * 2 + 1)) \<circ>
     SET_PERI_REG_MASK PCNT_INT_CLR (BIT intr_num)"

definition serve :: "(nat \<Rightarrow> irqs \<Rightarrow> irqs) \<Rightarrow> nat \<Rightarrow> irqs \<Rightarrow> irqs option" where
  "serve user intr_num s =
     (if intr_num * 2 + 1 < 32 then do {
        let s = on_irq (restart_counter intr_num) s;
        p \<leftarrow> get_at (interrupt_handlers s) intr_num;
        Some (case h_fn p of Some f \<Rightarrow> if h_pin p \<ge> 0 then call_user user f s else s | None \<Rightarrow> s)
      } else None)"

lemma filter_find:
  "distinct xs \<Longrightarrow> find P xs = Some x \<Longrightarrow> filter P xs = x # filter (\<lambda>y. P y \<and> y \<noteq> x) xs"
  by (induction xs) (auto split: if_splits intro: filter_cong)

lemma pending_next:
  assumes "find (bit (w :: u32)) [0..<32] = Some n"
  shows "filter (bit w) [0..<32] = n # filter (bit (w AND NOT (BIT n))) [0..<32]"
  unfolding filter_find [OF distinct_upt assms] by (auto simp: bit_flag intro: filter_cong)

text \<open>
  The loop over the counters that fired. With no bit left it ends if \<open>__builtin_ctz(0)\<close> is negative;
  otherwise it shifts too far or serves the same counter for ever.
\<close>

function pin_interrupt_loop :: "int \<Rightarrow> (nat \<Rightarrow> irqs \<Rightarrow> irqs) \<Rightarrow> u32 \<Rightarrow> irqs \<Rightarrow> irqs option" where
  "pin_interrupt_loop ctz0 user intr_status s =
     (case find (bit intr_status) [0..<32] of
        None \<Rightarrow> if ctz0 \<ge> 0 then None else Some s
      | Some n \<Rightarrow> do {
          s \<leftarrow> serve user n s;
          pin_interrupt_loop ctz0 user (intr_status AND NOT (BIT n)) s
        })"
  by pat_completeness auto

termination
  by (relation "measure (\<lambda>(_, _, w, _). length (filter (bit w) [0..<32]))")
    (auto simp del: upt_Suc upt_rec_numeral simp: pending_next)

declare pin_interrupt_loop.simps [simp del]

definition onPinInterrupt :: "int \<Rightarrow> (nat \<Rightarrow> irqs \<Rightarrow> irqs) \<Rightarrow> inputs \<Rightarrow> irqs \<Rightarrow> irqs option" where
  "onPinInterrupt ctz0 user env s =
     (let s = set_line ETS_GPIO_INUM False s
      in case rd env (PERI PCNT_INT_ST) (irq_io s) of (intr_status, io) \<Rightarrow>
           map_option (set_line ETS_GPIO_INUM True) (pin_interrupt_loop ctz0 user intr_status (s\<lparr>irq_io := io\<rparr>)))"

subsection \<open>Attaching and detaching\<close>

text \<open>The index of the first entry with a pin; 8 when there is none.\<close>

definition find_handler :: "int \<Rightarrow> irqs \<Rightarrow> nat" where
  "find_handler pin s = length (takeWhile (\<lambda>p. h_pin p \<noteq> pin) (interrupt_handlers s))"

definition init_interrupts :: "irqs \<Rightarrow> irqs" where
  "init_interrupts s =
     (if interrupt_initialized s then s
      else let s = set_line ETS_GPIO_INUM False (s\<lparr>interrupt_initialized := True\<rparr>);
               s = on_irq (intrMatrixAttach HW_GPIO_INUM ETS_GPIO_INUM) s;
               s = s\<lparr>line_isr := (line_isr s)(ETS_GPIO_INUM := Some onPinInterrupt_isr)\<rparr>
           in set_line ETS_GPIO_INUM True s)"

definition edge_modes :: "u32 \<Rightarrow> u32 \<times> u32" where
  "edge_modes intr_type =
     (if intr_type = FALLING then (0, 1) else if intr_type = RISING then (1, 0)
      else if intr_type = CHANGE then (1, 1) else (0, 0))"

definition pin_int_type :: "nat \<Rightarrow> u32 \<Rightarrow> io \<Rightarrow> io" where
  "pin_int_type gpio_num intr_type =
     set_bits (GPC (gpio_num mod 64)) (push_bit 13 8 OR push_bit 7 intr_type) \<circ>
     clear_bits (GPC (gpio_num mod 64)) (push_bit 13 0x1F OR push_bit 7 7)"

definition config_counter :: "nat \<Rightarrow> u32 \<Rightarrow> io \<Rightarrow> io" where
  "config_counter intr_num intr_type s =
     (let cfg0_addr = PCNT_CONF0 intr_num; cfg1_addr = PCNT_CONF1 intr_num; cfg2_addr = PCNT_CONF2 intr_num;
          s = SET_PERI_REG_BITS cfg0_addr 3 0 30 s;
          s = SET_PERI_REG_BITS cfg0_addr 3 0 28 s;
          s = SET_PERI_REG_BITS cfg0_addr 3 0 26 s;
          s = SET_PERI_REG_BITS cfg0_addr 3 0 24 s;
          s = SET_PERI_REG_BITS cfg0_addr 3 0 22 s;
          s = SET_PERI_REG_BITS cfg0_addr 3 0 20 s;
          s = SET_PERI_REG_BITS cfg0_addr 3 (fst (edge_modes intr_type)) 18 s;
          s = SET_PERI_REG_BITS cfg0_addr 3 (snd (edge_modes intr_type)) 16 s;
          s = SET_PERI_REG_BITS cfg1_addr 0xFFFF 1 0 s;
          s = SET_PERI_REG_BITS cfg2_addr 0xFFFF 10 16 s;
          s = SET_PERI_REG_BITS cfg2_addr 0xFFFF 10 0 s;
          s = CLEAR_PERI_REG_MASK cfg0_addr (BIT 15 OR BIT 13 OR BIT 12 OR BIT 11 OR BIT 10) s;
          s = SET_PERI_REG_MASK cfg0_addr (BIT 14) s
      in SET_PERI_REG_MASK PCNT_INT_ENA (BIT intr_num) s)"

definition attachInterrupt :: "nat \<Rightarrow> nat option \<Rightarrow> u32 \<Rightarrow> irqs \<Rightarrow> irqs option" where
  "attachInterrupt gpio_num userFunc intr_type s =
     (let s = init_interrupts s; intr_num = find_handler (-1) s
      in if intr_num \<ge> 8 then Some s
         else do {
           hs \<leftarrow> put_at (interrupt_handlers s) intr_num
             \<lparr>h_pin = sint (of_nat gpio_num :: byte), h_mode = unat (ucast intr_type :: byte), h_fn = userFunc\<rparr>;
           let s = on_irq (pin_int_type gpio_num intr_type) (s\<lparr>interrupt_handlers := hs\<rparr>);
           let s = on_irq (CLEAR_PERI_REG_MASK PCNT_CTRL (BIT (intr_num * 2 + 1))) s;
           let s = on_irq (SET_PERI_REG_MASK PCNT_CTRL (BIT (intr_num * 2))) s;
           signal \<leftarrow> get_at intr_gpio_signals intr_num;
           io \<leftarrow> pinMatrixInAttach gpio_num signal (irq_io s);
           let s = on_irq (config_counter intr_num intr_type) (s\<lparr>irq_io := io\<rparr>);
           let s = on_irq (CLEAR_PERI_REG_MASK PCNT_CTRL (BIT (intr_num * 2 + 1))) s;
           Some (on_irq (CLEAR_PERI_REG_MASK PCNT_CTRL (BIT (intr_num * 2))) s)
         })"

definition no_handler :: pin_int_handler_t where
  "no_handler = \<lparr>h_pin = -1, h_mode = 0, h_fn = None\<rparr>"

definition detachInterrupt :: "nat \<Rightarrow> irqs \<Rightarrow> irqs option" where
  "detachInterrupt gpio_num s =
     (let intr_num = find_handler (int gpio_num) s
      in if intr_num \<ge> 8 then Some s
         else do {
           hs \<leftarrow> put_at (interrupt_handlers s) intr_num no_handler;
           let s = on_irq (pin_int_type gpio_num 0) (s\<lparr>interrupt_handlers := hs\<rparr>);
           let s = on_irq (CLEAR_PERI_REG_MASK PCNT_CTRL (BIT (intr_num * 2 + 1))) s;
           let s = on_irq (SET_PERI_REG_MASK PCNT_CTRL (BIT (intr_num * 2))) s;
           let s = on_irq (CLEAR_PERI_REG_MASK (PCNT_CONF0 intr_num) (BIT 14)) s;
           Some (on_irq (CLEAR_PERI_REG_MASK PCNT_INT_ENA (BIT intr_num)) s)
         })"

subsection \<open>Timers and start-up\<close>

definition timer1_isr_init :: "irqs \<Rightarrow> irqs" where
  "timer1_isr_init s =
     (let s = on_irq (intrMatrixAttach ETS_FRC_TIMER1_SOURCE ETS_FRC_TIMER1_INUM) s
      in s\<lparr>line_isr := (line_isr s)(ETS_FRC_TIMER1_INUM := Some timer1_isr)\<rparr>)"

definition timer0_isr_handler :: "(nat \<Rightarrow> irqs \<Rightarrow> irqs) \<Rightarrow> irqs \<Rightarrow> irqs" where
  "timer0_isr_handler user s = (case timer0_user_cb s of Some f \<Rightarrow> call_user user f s | None \<Rightarrow> s)"

definition timer0_isr_init :: "irqs \<Rightarrow> irqs" where
  "timer0_isr_init s = s\<lparr>line_isr := (line_isr s)(XCHAL_TIMER1_INTERRUPT := Some timer0_isr)\<rparr>"

definition timer0_attachInterrupt :: "nat \<Rightarrow> irqs \<Rightarrow> irqs" where
  "timer0_attachInterrupt userFunc s = set_line XCHAL_TIMER1_INTERRUPT True (s\<lparr>timer0_user_cb := Some userFunc\<rparr>)"

definition timer0_detachInterrupt :: "irqs \<Rightarrow> irqs" where
  "timer0_detachInterrupt s = set_line XCHAL_TIMER1_INTERRUPT False (s\<lparr>timer0_user_cb := None\<rparr>)"

definition initPins :: "irqs \<Rightarrow> irqs" where
  "initPins s = timer1_isr_init (s\<lparr>interrupt_handlers := replicate 8 no_handler, interrupt_initialized := False\<rparr>)"

subsection \<open>Dispatch\<close>

definition registered :: "irqs \<Rightarrow> nat \<Rightarrow> nat option" where
  "registered s n = (let p = interrupt_handlers s ! n in if h_pin p \<ge> 0 then h_fn p else None)"

lemma serve_ok:
  assumes "length (interrupt_handlers s) = 8" "n < 8"
    and "\<And>f t. interrupt_handlers (user f t) = interrupt_handlers t \<and> irq_log (user f t) = irq_log t"
  shows "\<exists>t. serve user n s = Some t \<and> interrupt_handlers t = interrupt_handlers s \<and>
    irq_log t = irq_log s @ (case registered s n of Some f \<Rightarrow> [f] | None \<Rightarrow> [])"
  using assms(1,2) by (auto simp: serve_def get_at_def on_irq_def call_user_def registered_def Let_def assms(3) split: option.split)

lemma loop_dispatch:
  assumes "ctz0 < 0" "\<And>f t. interrupt_handlers (user f t) = interrupt_handlers t \<and> irq_log (user f t) = irq_log t"
  shows "length (interrupt_handlers s) = 8 \<Longrightarrow> (\<And>n. bit w n \<Longrightarrow> n < 8) \<Longrightarrow>
    \<exists>t. pin_interrupt_loop ctz0 user w s = Some t \<and> interrupt_handlers t = interrupt_handlers s \<and>
      irq_log t = irq_log s @ List.map_filter (registered s) (filter (bit w) [0..<32])"
proof (induction "length (filter (bit w) [0..<32])" arbitrary: w s)
  case 0
  then have "filter (bit w) [0..<32] = []" by simp
  then have "find (bit w) [0..<32] = None" unfolding find_None_iff filter_empty_conv by blast
  then show ?case using assms(1) \<open>filter (bit w) [0..<32] = []\<close>
    by (simp add: pin_interrupt_loop.simps [of ctz0] map_filter_simps del: upt_Suc upt_rec_numeral)
next
  case (Suc m)
  then obtain n where n: "find (bit w) [0..<32] = Some n"
    by (metis find_None_iff filter_False length_0_conv nat.distinct(1) not_None_eq)
  let ?w = "w AND NOT (BIT n)"
  have next_: "filter (bit w) [0..<32] = n # filter (bit ?w) [0..<32]" using pending_next [OF n] .
  then have "n \<in> set (filter (bit w) [0..<32])" by (simp only: list.set_intros)
  then have "n < 8" using Suc.prems(2) by simp
  from serve_ok [OF Suc.prems(1) this, of user] assms(2) obtain t where t: "serve user n s = Some t"
    "interrupt_handlers t = interrupt_handlers s" "irq_log t = irq_log s @ (case registered s n of Some f \<Rightarrow> [f] | None \<Rightarrow> [])"
    by blast
  have reg: "registered t = registered s" by (simp add: registered_def fun_eq_iff t(2))
  have "m = length (filter (bit ?w) [0..<32])" using Suc.hyps(2) unfolding next_ by simp
  moreover have "length (interrupt_handlers t) = 8" using t(2) Suc.prems(1) by simp
  moreover have "j < 8" if "bit ?w j" for j using that Suc.prems(2) by (simp add: bit_flag)
  ultimately obtain u where u: "pin_interrupt_loop ctz0 user ?w t = Some u" "interrupt_handlers u = interrupt_handlers t"
    "irq_log u = irq_log t @ List.map_filter (registered t) (filter (bit ?w) [0..<32])"
    using Suc.hyps(1) [of ?w t] by blast
  have "pin_interrupt_loop ctz0 user w s = Some u"
    using n t(1) u(1) by (simp add: pin_interrupt_loop.simps [of ctz0 user w] del: upt_Suc upt_rec_numeral)
  then show ?case unfolding next_ using u t reg
    by (simp add: map_filter_simps split: option.split del: upt_Suc upt_rec_numeral)
qed

lemma loop_undefined:
  assumes "ctz0 \<ge> 0"
  shows "pin_interrupt_loop ctz0 user w s = None"
  using assms
proof (induction ctz0 user w s rule: pin_interrupt_loop.induct)
  case (1 ctz0 user w s)
  then show ?case
    by (subst pin_interrupt_loop.simps)
      (auto simp del: upt_Suc upt_rec_numeral split: option.split bind_splits)
qed

text \<open>
  C34: A pin interrupt calls the handlers of exactly the counters whose status bit is set, each once, in
  the order of the counters; handlers that do not attach or detach leave the table as it was.
  That the loop ends rests on \<open>__builtin_ctz(0)\<close> being negative: with any other value the
  interrupt routine shifts by too much or never returns.
\<close>

theorem pin_interrupt_dispatch:
  assumes "length (interrupt_handlers s) = 8" "env (events (irq_io s)) (PERI PCNT_INT_ST) < 256"
    and "\<And>f t. interrupt_handlers (user f t) = interrupt_handlers t \<and> irq_log (user f t) = irq_log t"
  shows "if ctz0 < 0
    then \<exists>t. onPinInterrupt ctz0 user env s = Some t \<and> interrupt_handlers t = interrupt_handlers s \<and> line_on t ETS_GPIO_INUM \<and>
      irq_log t = irq_log s @ List.map_filter (registered s) (filter (bit (env (events (irq_io s)) (PERI PCNT_INT_ST))) [0..<32])
    else onPinInterrupt ctz0 user env s = None"
proof (cases "ctz0 < 0")
  case True
  define w where "w = env (events (irq_io s)) (PERI PCNT_INT_ST)"
  define u where "u = set_line ETS_GPIO_INUM False s\<lparr>irq_io := (irq_io s)\<lparr>events := events (irq_io s) @ [Rd (PERI PCNT_INT_ST)]\<rparr>\<rparr>"
  have "unat w < 256" using assms(2) by (simp add: w_def word_less_nat_alt)
  then have "take_bit 8 (unat w) = unat w" by (simp add: take_bit_nat_eq_self)
  moreover have "bit (unat w) n" if "bit w n" for n using that by (simp add: bit_unsigned_iff bit_imp_possible_bit)
  ultimately have w: "bit w n \<Longrightarrow> n < 8" for n by (metis bit_take_bit_iff)
  have u: "interrupt_handlers u = interrupt_handlers s" "irq_log u = irq_log s" "registered u = registered s"
    by (simp_all add: u_def set_line_def registered_def fun_eq_iff)
  from loop_dispatch [OF True, of user u w] assms(3) obtain t where t: "pin_interrupt_loop ctz0 user w u = Some t"
    "interrupt_handlers t = interrupt_handlers s" "irq_log t = irq_log s @ List.map_filter (registered s) (filter (bit w) [0..<32])"
    using w assms(1) unfolding u by blast
  have "onPinInterrupt ctz0 user env s = Some (set_line ETS_GPIO_INUM True t)"
    using t(1) by (simp add: onPinInterrupt_def rd_def set_line_def w_def u_def Let_def)
  then show ?thesis using True t(2,3) by (simp add: set_line_def w_def)
next
  case False
  then show ?thesis by (simp add: onPinInterrupt_def rd_def loop_undefined Let_def)
qed

subsection \<open>Counters and table agree\<close>

lemma pcnt_addresses [simp]:
  "PCNT_CONF0 j = PCNT_CONF0 k \<longleftrightarrow> j = k" "PCNT_CONF0 j \<noteq> PCNT_CONF1 k" "PCNT_CONF0 j \<noteq> PCNT_CONF2 k"
  "PCNT_CONF1 j \<noteq> PCNT_CONF0 k" "PCNT_CONF2 j \<noteq> PCNT_CONF0 k"
  "k < 8 \<Longrightarrow> PCNT_CONF0 k \<noteq> PCNT_INT_ENA" "k < 8 \<Longrightarrow> PCNT_CONF1 k \<noteq> PCNT_INT_ENA" "k < 8 \<Longrightarrow> PCNT_CONF2 k \<noteq> PCNT_INT_ENA"
  "k < 8 \<Longrightarrow> PCNT_INT_ENA \<noteq> PCNT_CONF0 k" "k < 8 \<Longrightarrow> PCNT_INT_ENA \<noteq> PCNT_CONF1 k" "k < 8 \<Longrightarrow> PCNT_INT_ENA \<noteq> PCNT_CONF2 k"
  "PCNT_CTRL \<noteq> PCNT_INT_ENA" "PCNT_INT_ENA \<noteq> PCNT_CTRL" "k < 8 \<Longrightarrow> PCNT_CONF0 k \<noteq> PCNT_CTRL" "k < 8 \<Longrightarrow> PCNT_CTRL \<noteq> PCNT_CONF0 k"
  by (auto simp: PCNT_CONF0_def PCNT_CONF1_def PCNT_CONF2_def PCNT_INT_ENA_def PCNT_CTRL_def) presburger+

definition counter_on :: "io \<Rightarrow> nat \<Rightarrow> bool" where
  "counter_on io k \<longleftrightarrow> bit (regs io (PERI PCNT_INT_ENA)) k"

definition counter_edges :: "io \<Rightarrow> nat \<Rightarrow> bool \<times> u32 \<times> u32" where
  "counter_edges io k = (let w = regs io (PERI (PCNT_CONF0 k)) in (bit w 14, field 18 2 w, field 16 2 w))"

definition counter_pin :: "io \<Rightarrow> nat \<Rightarrow> u32" where
  "counter_pin io k = in_pin io (intr_gpio_signals ! k)"

lemma signals:
  assumes "k < 8"
  shows "38 < intr_gpio_signals ! k" "intr_gpio_signals ! k < 80" "intr_gpio_signals ! k < 63 \<or> 68 < intr_gpio_signals ! k"
    and "j < 8 \<Longrightarrow> intr_gpio_signals ! j = intr_gpio_signals ! k \<longleftrightarrow> j = k"
proof -
  have "\<forall>k \<in> {..<8}. \<forall>j \<in> {..<8}. 38 < intr_gpio_signals ! k \<and> intr_gpio_signals ! k < 80 \<and>
      (intr_gpio_signals ! k < 63 \<or> 68 < intr_gpio_signals ! k) \<and> (intr_gpio_signals ! j = intr_gpio_signals ! k \<longleftrightarrow> j = k)"
    by (simp add: intr_gpio_signals_def numeral_eq_Suc lessThan_Suc)
  then show "38 < intr_gpio_signals ! k" "intr_gpio_signals ! k < 80" "intr_gpio_signals ! k < 63 \<or> 68 < intr_gpio_signals ! k"
    "j < 8 \<Longrightarrow> intr_gpio_signals ! j = intr_gpio_signals ! k \<longleftrightarrow> j = k" using assms by auto
qed

lemma signal_address:
  assumes "k < 8"
  shows "GPIO_FUNC_IN_SEL0 + intr_gpio_signals ! k div 5 * 4 < 0x60004170"
proof -
  have "x < 80 \<Longrightarrow> x div 5 * 4 \<le> 60" for x :: nat by presburger
  from this [OF signals(2) [OF assms]] show ?thesis by (simp add: GPIO_FUNC_IN_SEL0_def)
qed

lemma counter_pin_frame:
  assumes "k < 8" "\<And>a. 0x60004130 \<le> a \<Longrightarrow> a < 0x60004170 \<Longrightarrow> regs io' (PERI a) = regs io (PERI a)"
  shows "counter_pin io' k = counter_pin io k"
  using assms(2) signal_address [OF assms(1)] by (simp add: counter_pin_def in_pin_def GPIO_FUNC_IN_SEL0_def)

text \<open>What one counter's set-up does to all of them.\<close>

definition same_counters :: "io \<Rightarrow> io \<Rightarrow> nat set \<Rightarrow> bool" where
  "same_counters io io' K \<longleftrightarrow> (\<forall>k < 8. k \<in> K \<longrightarrow> counter_on io' k = counter_on io k \<and>
     counter_edges io' k = counter_edges io k \<and> counter_pin io' k = counter_pin io k)"

lemma same_counters_set:
  assumes "\<And>b. b \<noteq> a \<Longrightarrow> regs io' (PERI b) = regs io (PERI b)" "a < 0x60004130 \<or> 0x60004170 < a" "a < 0x60017000 \<or> 0x60017088 < a"
  shows "same_counters io io' UNIV"
proof -
  have "\<And>k. k < 8 \<Longrightarrow> counter_pin io' k = counter_pin io k" by (rule counter_pin_frame) (use assms in auto)
  then show ?thesis using assms by (auto simp: same_counters_def counter_on_def counter_edges_def PCNT_INT_ENA_def PCNT_CONF0_def)
qed

lemma same_counters_gpc: "same_counters io (pin_int_type n ty io) UNIV"
  by (auto simp: same_counters_def counter_on_def counter_edges_def counter_pin_def in_pin_def pin_int_type_def)

lemma same_counters_trans [trans]: "same_counters io io' K \<Longrightarrow> same_counters io' io'' K' \<Longrightarrow> same_counters io io'' (K \<inter> K')"
  by (simp add: same_counters_def)

lemma config_counter_pin: "j < 8 \<Longrightarrow> counter_pin (config_counter k ty io) j = counter_pin io j"
proof (rule counter_pin_frame)
  fix a :: nat assume "a < 0x60004170"
  then have "a \<noteq> PCNT_CONF0 k" "a \<noteq> PCNT_CONF1 k" "a \<noteq> PCNT_CONF2 k" "a \<noteq> PCNT_INT_ENA"
    by (auto simp: PCNT_CONF0_def PCNT_CONF1_def PCNT_CONF2_def PCNT_INT_ENA_def)
  then show "regs (config_counter k ty io) (PERI a) = regs io (PERI a)" by (simp add: config_counter_def Let_def)
qed

lemma config_counter_other:
  assumes "k < 8"
  shows "same_counters io (config_counter k ty io) (- {k})"
  unfolding same_counters_def
proof (intro allI impI conjI)
  fix j :: nat assume j: "j < 8" "j \<in> - {k}"
  then show "counter_on (config_counter k ty io) j = counter_on io j" using assms
    by (simp add: counter_on_def config_counter_def Let_def bit_flag)
  show "counter_edges (config_counter k ty io) j = counter_edges io j" using assms j
    by (simp add: counter_edges_def config_counter_def Let_def)
  show "counter_pin (config_counter k ty io) j = counter_pin io j" using config_counter_pin [OF j(1)] .
qed

lemma config_counter_this:
  assumes "k < 8"
  shows "counter_on (config_counter k ty io) k" "counter_edges (config_counter k ty io) k = (True, edge_modes ty)"
    "counter_pin (config_counter k ty io) k = counter_pin io k"
proof -
  show "counter_on (config_counter k ty io) k" using assms
    by (simp add: counter_on_def config_counter_def Let_def bit_flag)
  have e: "take_bit 2 (fst (edge_modes ty)) = fst (edge_modes ty)" "take_bit 2 (snd (edge_modes ty)) = snd (edge_modes ty)"
    by (simp_all add: edge_modes_def take_bit_eq_mod)
  show "counter_edges (config_counter k ty io) k = (True, edge_modes ty)" using assms
    by (simp add: counter_edges_def config_counter_def Let_def masks(1,6) bit_flag field_put_other e bit.de_Morgan_disj and.assoc [symmetric])
  show "counter_pin (config_counter k ty io) k = counter_pin io k" using config_counter_pin [OF assms] .
qed

lemma matrix_counter:
  assumes "k < 8" "pin < 64"
  shows "\<exists>io'. pinMatrixInAttach pin (intr_gpio_signals ! k) io = Some io' \<and> same_counters io io' (- {k}) \<and>
    counter_pin io' k = of_nat pin"
proof -
  have t: "take_bit 6 (of_nat pin :: u32) = of_nat pin"
    using assms(2) by (simp add: take_bit_eq_mod unat_arith_simps(3) unat_mod unat_of_nat)
  have a: "GPIO_FUNC_IN_SEL0 + intr_gpio_signals ! k div 5 * 4 < 0x60017000" using signal_address [OF assms(1)] by simp
  have "pinMatrixInAttach pin (intr_gpio_signals ! k) io =
      Some (SET_PERI_REG_BITS (GPIO_FUNC_IN_SEL0 + intr_gpio_signals ! k div 5 * 4) 0x3f (of_nat pin) (intr_gpio_signals ! k mod 5 * 6) io)"
    using signals(1-3) [OF assms(1)] by (auto simp: pinMatrixInAttach_def Let_def)
  moreover have "same_counters io (SET_PERI_REG_BITS (GPIO_FUNC_IN_SEL0 + intr_gpio_signals ! k div 5 * 4) 0x3f (of_nat pin)
      (intr_gpio_signals ! k mod 5 * 6) io) (- {k})"
    using a signals(4) [OF assms(1)]
    by (auto simp: same_counters_def counter_on_def counter_edges_def counter_pin_def PCNT_INT_ENA_def PCNT_CONF0_def)
  ultimately show ?thesis using t by (simp add: counter_pin_def)
qed

text \<open>
  The edges a mode of \<open>Arduino.h\<close> asks for: rising edges for 1 (\<open>RISING\<close>), falling ones for 2 (\<open>FALLING\<close>) and
  both for 3 (\<open>CHANGE\<close>).
\<close>

definition wants_rising :: "nat \<Rightarrow> bool" where
  "wants_rising mode \<longleftrightarrow> mode \<in> {1, 3}"

definition wants_falling :: "nat \<Rightarrow> bool" where
  "wants_falling mode \<longleftrightarrow> mode \<in> {2, 3}"

text \<open>
  An entry of the table and its counter agree: the counter raises interrupts exactly when the entry is
  taken, and then its input is the pin of the entry and it counts up (1) at the edges the mode asks for
  and ignores (0) the others. In the register \<open>PCNT_CONF0\<close> the field at bit 18 tells what a rising edge
  does, the field at bit 16 what a falling one does (\<open>plus_cnt_reg.h\<close>).
\<close>

definition slot_ok :: "io \<Rightarrow> pin_int_handler_t \<Rightarrow> nat \<Rightarrow> bool" where
  "slot_ok io p k \<longleftrightarrow> (counter_on io k \<longleftrightarrow> h_pin p \<noteq> -1) \<and>
     (h_pin p \<noteq> -1 \<longrightarrow> 0 \<le> h_pin p \<and> counter_pin io k = of_int (h_pin p) \<and>
        counter_edges io k = (True, of_bool (wants_rising (h_mode p)), of_bool (wants_falling (h_mode p))))"

definition irq_inv :: "irqs \<Rightarrow> bool" where
  "irq_inv s \<longleftrightarrow> length (interrupt_handlers s) = 8 \<and> (\<forall>k < 8. slot_ok (irq_io s) (interrupt_handlers s ! k) k)"

datatype irq_op = Attach nat "nat option" u32 | Detach nat

fun irq_call :: "irq_op \<Rightarrow> irqs \<Rightarrow> irqs option" where
  "irq_call (Attach pin f ty) s = attachInterrupt pin f ty s"
| "irq_call (Detach pin) s = detachInterrupt pin s"

primrec irq_run :: "irq_op list \<Rightarrow> irqs \<Rightarrow> irqs option" where
  "irq_run [] s = Some s"
| "irq_run (c # cs) s = do { s \<leftarrow> irq_call c s; irq_run cs s }"

fun op_ok :: "irq_op \<Rightarrow> bool" where
  "op_ok (Attach pin f ty) \<longleftrightarrow> pin < 40 \<and> ty < 256"
| "op_ok (Detach pin) \<longleftrightarrow> pin < 40"

lemma edge_modes_wanted:
  "edge_modes ty = (of_bool (wants_rising (unat ty)), of_bool (wants_falling (unat ty)))"
proof -
  have "unat ty = 1 \<longleftrightarrow> ty = 1" "unat ty = 2 \<longleftrightarrow> ty = 2" "unat ty = 3 \<longleftrightarrow> ty = 3"
    by (auto simp: word_unat_eq_iff)
  then show ?thesis by (simp add: edge_modes_def wants_rising_def wants_falling_def RISING_def FALLING_def CHANGE_def)
qed

lemma slot_ok_same: "same_counters io io' K \<Longrightarrow> k < 8 \<Longrightarrow> k \<in> K \<Longrightarrow> slot_ok io' p k = slot_ok io p k"
  by (simp add: same_counters_def slot_ok_def)

lemma irq_inv_update:
  assumes "irq_inv s" "same_counters (irq_io s) (irq_io t) (- {k})" "k < 8" "interrupt_handlers t = (interrupt_handlers s)[k := p]"
    and "slot_ok (irq_io t) p k"
  shows "irq_inv t"
  using assms slot_ok_same [OF assms(2)] by (auto simp: irq_inv_def nth_list_update)

text \<open>What the calls do to the table: attaching takes the first free entry, detaching frees the first one of the pin.\<close>

primrec replace_first :: "('a \<Rightarrow> bool) \<Rightarrow> 'a \<Rightarrow> 'a list \<Rightarrow> 'a list" where
  "replace_first P y [] = []"
| "replace_first P y (x # xs) = (if P x then y # xs else x # replace_first P y xs)"

fun table_op :: "irq_op \<Rightarrow> pin_int_handler_t list \<Rightarrow> pin_int_handler_t list" where
  "table_op (Attach pin f ty) hs = replace_first (\<lambda>p. h_pin p = -1) \<lparr>h_pin = int pin, h_mode = unat ty, h_fn = f\<rparr> hs"
| "table_op (Detach pin) hs = replace_first (\<lambda>p. h_pin p = int pin) no_handler hs"

lemma replace_first_update:
  "replace_first P y xs = (let k = length (takeWhile (\<lambda>x. \<not> P x) xs) in if k < length xs then xs[k := y] else xs)"
  by (induction xs) (auto simp: Let_def)

lemma replace_handler:
  "length (interrupt_handlers s) = 8 \<Longrightarrow> replace_first (\<lambda>p. h_pin p = pin) y (interrupt_handlers s) =
     (if find_handler pin s < 8 then (interrupt_handlers s)[find_handler pin s := y] else interrupt_handlers s)"
  by (simp add: replace_first_update find_handler_def Let_def)

lemma intr_counters: "source < 256 \<Longrightarrow> same_counters io (intrMatrixAttach source n io) UNIV"
  by (rule same_counters_set [of "PRO_INTR_MAP_REG_A + source div 6 * 4"]) (auto simp: intrMatrixAttach_def Let_def PRO_INTR_MAP_REG_A_def)

lemma irq_inv_same:
  "irq_inv s \<Longrightarrow> same_counters (irq_io s) (irq_io t) UNIV \<Longrightarrow> interrupt_handlers t = interrupt_handlers s \<Longrightarrow> irq_inv t"
  using slot_ok_same by (simp add: irq_inv_def)

lemma same_counters_refl: "same_counters io io K"
  by (simp add: same_counters_def)

lemma init_interrupts_inv: "irq_inv s \<Longrightarrow> irq_inv (init_interrupts s)"
  using intr_counters [of 19 "irq_io s" 4]
  by (auto simp: init_interrupts_def Let_def set_line_def on_irq_def c_defs same_counters_refl elim!: irq_inv_same)

lemma ctrl_counters:
  "same_counters io (SET_PERI_REG_MASK PCNT_CTRL m io) UNIV" "same_counters io (CLEAR_PERI_REG_MASK PCNT_CTRL m io) UNIV"
  by (rule same_counters_set [of PCNT_CTRL]; simp add: PCNT_CTRL_def)+

lemma attach_inv:
  assumes "irq_inv s" "pin < 40" "ty < 256"
  shows "\<exists>t. attachInterrupt pin f ty s = Some t \<and> irq_inv t \<and> interrupt_handlers t = table_op (Attach pin f ty) (interrupt_handlers s)"
proof -
  define u where "u = init_interrupts s"
  have hs: "interrupt_handlers u = interrupt_handlers s" by (simp add: u_def init_interrupts_def Let_def set_line_def on_irq_def)
  have u: "irq_inv u" using init_interrupts_inv [OF assms(1)] by (simp add: u_def)
  define k where "k = find_handler (-1) u"
  show ?thesis
  proof (cases "k < 8")
    case False
    then show ?thesis using u replace_handler [of u "-1"]
      by (simp add: attachInterrupt_def Let_def hs [symmetric] irq_inv_def) (simp add: u_def k_def)
  next
    case True
    define p where "p = \<lparr>h_pin = sint (of_nat pin :: byte), h_mode = unat (ucast ty :: byte), h_fn = f\<rparr>"
    have "unat (ucast ty :: byte) = unat ty" using assms(3) by (simp add: unsigned_ucast_eq take_bit_word_eq_self take_bit_nat_eq_self word_less_nat_alt)
    then have p: "h_pin p = int pin" "h_mode p = unat ty"
      using assms(2) by (simp_all add: p_def signed_of_nat signed_take_bit_int_eq_self)
    define io1 where "io1 = SET_PERI_REG_MASK PCNT_CTRL (BIT (k * 2)) (CLEAR_PERI_REG_MASK PCNT_CTRL (BIT (k * 2 + 1)) (pin_int_type pin ty (irq_io u)))"
    have io1: "same_counters (irq_io u) io1 (UNIV \<inter> UNIV \<inter> UNIV)"
      unfolding io1_def by (rule same_counters_trans [OF same_counters_trans [OF same_counters_gpc ctrl_counters(2)] ctrl_counters(1)])
    from matrix_counter [OF True, of pin io1] assms(2) obtain io2 where io2: "pinMatrixInAttach pin (intr_gpio_signals ! k) io1 = Some io2"
      "same_counters io1 io2 (- {k})" "counter_pin io2 k = of_nat pin" by auto
    define io3 where "io3 = config_counter k ty io2"
    define io4 where "io4 = CLEAR_PERI_REG_MASK PCNT_CTRL (BIT (k * 2)) (CLEAR_PERI_REG_MASK PCNT_CTRL (BIT (k * 2 + 1)) io3)"
    have io4: "same_counters io3 io4 (UNIV \<inter> UNIV)"
      unfolding io4_def by (rule same_counters_trans [OF ctrl_counters(2) ctrl_counters(2)])
    have len: "length (interrupt_handlers u) = 8" using u by (simp add: irq_inv_def)
    have att: "attachInterrupt pin f ty s = Some (u\<lparr>interrupt_handlers := (interrupt_handlers u)[k := p], irq_io := io4\<rparr>)"
      using True len io2(1) by (simp add: attachInterrupt_def Let_def u_def [symmetric] k_def [symmetric] put_at_def get_at_def
          p_def [symmetric] on_irq_def intr_gpio_signals_def [THEN arg_cong [where f = length]] io1_def io3_def io4_def)
    have "slot_ok io3 p k" using config_counter_this [OF True, of ty io2] p io2(3) by (simp add: slot_ok_def io3_def edge_modes_wanted)
    then have "slot_ok io4 p k" using slot_ok_same [OF io4 True] by simp
    moreover have "same_counters (irq_io u) io4 (- {k})"
      using same_counters_trans [OF same_counters_trans [OF same_counters_trans [OF io1 io2(2)] config_counter_other [OF True]] io4 [unfolded io3_def]]
      by simp
    ultimately have "irq_inv (u\<lparr>interrupt_handlers := (interrupt_handlers u)[k := p], irq_io := io4\<rparr>)"
      using irq_inv_update [OF u _ True] by simp
    moreover have "p = \<lparr>h_pin = int pin, h_mode = unat ty, h_fn = f\<rparr>"
      using p(1) \<open>unat (ucast ty :: byte) = unat ty\<close> by (simp add: p_def)
    ultimately show ?thesis using att True replace_handler [OF len, of "-1"] by (simp add: hs [symmetric] k_def)
  qed
qed

lemma detach_inv:
  assumes "irq_inv s"
  shows "\<exists>t. detachInterrupt pin s = Some t \<and> irq_inv t \<and> interrupt_handlers t = table_op (Detach pin) (interrupt_handlers s)"
proof (cases "find_handler (int pin) s < 8")
  case False
  then show ?thesis using assms replace_handler [of s "int pin"] by (simp add: detachInterrupt_def irq_inv_def)
next
  case True
  define k where "k = find_handler (int pin) s"
  define io1 where "io1 = SET_PERI_REG_MASK PCNT_CTRL (BIT (k * 2)) (CLEAR_PERI_REG_MASK PCNT_CTRL (BIT (k * 2 + 1)) (pin_int_type pin 0 (irq_io s)))"
  have io1: "same_counters (irq_io s) io1 (UNIV \<inter> UNIV \<inter> UNIV)"
    unfolding io1_def by (rule same_counters_trans [OF same_counters_trans [OF same_counters_gpc ctrl_counters(2)] ctrl_counters(1)])
  define io2 where "io2 = CLEAR_PERI_REG_MASK PCNT_INT_ENA (BIT k) (CLEAR_PERI_REG_MASK (PCNT_CONF0 k) (BIT 14) io1)"
  have len: "length (interrupt_handlers s) = 8" using assms by (simp add: irq_inv_def)
  have det: "detachInterrupt pin s = Some (s\<lparr>interrupt_handlers := (interrupt_handlers s)[k := no_handler], irq_io := io2\<rparr>)"
    using True len by (simp add: detachInterrupt_def Let_def k_def [symmetric] put_at_def on_irq_def io1_def io2_def)
  have k: "k < 8" using True by (simp add: k_def)
  have "counter_pin io2 j = counter_pin io1 j" if "j < 8" for j
    by (rule counter_pin_frame [OF that]) (auto simp: io2_def PCNT_INT_ENA_def PCNT_CONF0_def)
  then have "same_counters io1 io2 (- {k})"
    using k by (auto simp: same_counters_def io2_def counter_on_def counter_edges_def bit_flag)
  from same_counters_trans [OF io1 this] have "same_counters (irq_io s) io2 (- {k})" by simp
  moreover have "slot_ok io2 no_handler k" using k by (simp add: slot_ok_def no_handler_def counter_on_def io2_def bit_flag)
  ultimately have "irq_inv (s\<lparr>interrupt_handlers := (interrupt_handlers s)[k := no_handler], irq_io := io2\<rparr>)"
    using irq_inv_update [OF assms _ k] by simp
  then show ?thesis using det k replace_handler [OF len, of "int pin"] by (simp add: k_def)
qed

text \<open>
  C17: After \<open>initPins\<close> on a chip with all counter interrupts off, any sequence of attaching and detaching
  keeps the table and the hardware in agreement, and nothing in it is undefined: counter \<open>k\<close> raises
  interrupts exactly when entry \<open>k\<close> is taken, and then its input is routed to the pin of the entry and
  it counts rising edges if the entry asks for \<open>RISING\<close> or \<open>CHANGE\<close> and falling ones if it asks for
  \<open>FALLING\<close> or \<open>CHANGE\<close>, and no others. The table is that of the
  calls: attaching takes the first free entry, if there is one, and detaching frees the first
  entry of the pin.
\<close>

theorem pin_interrupts_agree:
  assumes "\<forall>c \<in> set cs. op_ok c" "\<forall>k < 8. \<not> counter_on (irq_io s) k"
  shows "\<exists>t. irq_run cs (initPins s) = Some t \<and> irq_inv t \<and> interrupt_handlers t = fold table_op cs (replicate 8 no_handler)"
proof -
  have "irq_inv (initPins s)"
    using intr_counters [of 42 "irq_io s" 9] assms(2)
    by (auto simp: irq_inv_def initPins_def timer1_isr_init_def Let_def on_irq_def c_defs slot_ok_def no_handler_def same_counters_def)
  moreover have "interrupt_handlers (initPins s) = replicate 8 no_handler" by (simp add: initPins_def timer1_isr_init_def Let_def on_irq_def)
  moreover have "irq_inv s \<Longrightarrow> \<exists>t. irq_run cs s = Some t \<and> irq_inv t \<and> interrupt_handlers t = fold table_op cs (interrupt_handlers s)" for s
    using assms(1)
  proof (induction cs arbitrary: s)
    case (Cons c cs)
    have "\<exists>t. irq_call c s = Some t \<and> irq_inv t \<and> interrupt_handlers t = table_op c (interrupt_handlers s)"
      using Cons.prems attach_inv detach_inv by (cases c) auto
    then show ?case using Cons by fastforce
  qed simp
  ultimately show ?thesis by metis
qed

definition irqs0 :: irqs where
  "irqs0 = \<lparr>irq_io = blank_io, line_on = \<lambda>_. False, line_isr = \<lambda>_. None, interrupt_handlers = [], interrupt_initialized = False,
     timer0_user_cb = None, irq_log = []\<rparr>"

theorem pin_interrupts_agree_witness:
  "\<exists>t. irq_run [Attach 18 (Some 7) RISING, Attach 19 (Some 8) CHANGE, Detach 18] (initPins irqs0) = Some t \<and> irq_inv t \<and>
     interrupt_handlers t ! 1 = \<lparr>h_pin = 19, h_mode = 3, h_fn = Some 8\<rparr>"
proof -
  let ?cs = "[Attach 18 (Some 7) RISING, Attach 19 (Some 8) CHANGE, Detach 18]"
  have "\<forall>c \<in> set ?cs. op_ok c" by (simp add: RISING_def CHANGE_def)
  moreover have "\<forall>k < 8. \<not> counter_on (irq_io irqs0) k" by (simp add: irqs0_def counter_on_def blank_io_def)
  ultimately obtain t where "irq_run ?cs (initPins irqs0) = Some t" "irq_inv t"
    "interrupt_handlers t = fold table_op ?cs (replicate 8 no_handler)"
    using pin_interrupts_agree by blast
  moreover have "replicate 8 no_handler = no_handler # no_handler # replicate 6 no_handler" by (simp add: numeral_eq_Suc)
  ultimately show ?thesis by (auto simp: no_handler_def RISING_def CHANGE_def)
qed

definition irqs1 :: irqs where
  "irqs1 = irqs0\<lparr>interrupt_handlers := [\<lparr>h_pin = 18, h_mode = 1, h_fn = Some 7\<rparr>, \<lparr>h_pin = 19, h_mode = 1, h_fn = Some 8\<rparr>,
     \<lparr>h_pin = 21, h_mode = 2, h_fn = Some 9\<rparr>] @ replicate 5 no_handler\<rparr>"

theorem pin_interrupt_dispatch_witness:
  "\<exists>t. onPinInterrupt (-1) (\<lambda>_ s. s) (\<lambda>_ _. 5) irqs1 = Some t \<and> irq_log t = [7, 9]"
proof -
  have "filter (bit (5 :: u32)) [0..<32] = [0, 2]" by code_simp
  then have "List.map_filter (registered irqs1) (filter (bit (5 :: u32)) [0..<32]) = [7, 9]"
    by (simp add: map_filter_simps registered_def irqs1_def)
  then show ?thesis
    using pin_interrupt_dispatch [of irqs1 "\<lambda>_ _. 5" "\<lambda>_ s. s" "-1"] by (auto simp: irqs1_def irqs0_def)
qed

end
