(* ===== verification/Uart.thy ===== *)
theory Uart
  imports Periph
begin

section \<open>Serial ports\<close>

text \<open>
  \<open>core_esp31b_uart.c\<close> and the class \<open>HardwareSerial\<close> over it, over the history of register accesses. The
  status register of a port, with the fill level of its transmit FIFO, is read from outside; the
  loops that wait for it need not end and are partial functions (\<open>None\<close> when they do not). A \<open>uart_t *\<close>
  is the structure it points to, or \<open>None\<close> for the null pointer; a null pointer used and a division by
  zero are undefined (\<open>None\<close> as a result). \<open>mem\<close> tells whether \<open>malloc\<close> succeeds. Whether \<open>char\<close> is signed
  is the parameter \<open>sc\<close>.
\<close>

record uart_t =
  uart_nr :: int
  baud_rate :: int
  rxEnabled :: bool
  txEnabled :: bool
  rxPin :: int
  txPin :: int

subsection \<open>The driver\<close>

definition UART_TX_FIFO_SIZE :: byte where "UART_TX_FIFO_SIZE = 0x80"
definition SERIAL_RX_ONLY :: byte where "SERIAL_RX_ONLY = 1"
definition SERIAL_TX_ONLY :: byte where "SERIAL_TX_ONLY = 2"

definition uart_reg :: "nat \<Rightarrow> int \<Rightarrow> reg" where
  "uart_reg a nr = PERI (0x60000000 + a + 0x10000 * nat (nr mod 2))"

definition USF :: "int \<Rightarrow> reg" where "USF = uart_reg 0x000"
definition USD :: "int \<Rightarrow> reg" where "USD = uart_reg 0x014"
definition USS :: "int \<Rightarrow> reg" where "USS = uart_reg 0x01C"
definition USC0 :: "int \<Rightarrow> reg" where "USC0 = uart_reg 0x020"
definition USC1 :: "int \<Rightarrow> reg" where "USC1 = uart_reg 0x024"

definition tx_count :: "u32 \<Rightarrow> byte" where
  "tx_count v = ucast (drop_bit 16 v AND 0xff)"

definition rx_count :: "u32 \<Rightarrow> byte" where
  "rx_count v = ucast (drop_bit 0 v AND 0xff)"

partial_function (option) poll :: "inputs \<Rightarrow> reg \<Rightarrow> (u32 \<Rightarrow> bool) \<Rightarrow> io \<Rightarrow> io option" where
  "poll env r busy s = (case rd env r s of (v, s) \<Rightarrow> if busy v then poll env r busy s else Some s)"

definition char_u32 :: "bool \<Rightarrow> byte \<Rightarrow> u32" where
  "char_u32 sc c = (if sc then scast c else ucast c)"

definition uart_write_char :: "bool \<Rightarrow> inputs \<Rightarrow> uart_t \<Rightarrow> byte \<Rightarrow> io \<Rightarrow> io option" where
  "uart_write_char sc env uart c s = do {
     s \<leftarrow> poll env (USS (uart_nr uart)) (\<lambda>v. tx_count v > 0x7F) s;
     Some (wr (USF (uart_nr uart)) (char_u32 sc c) s)
   }"

definition uart_read_char :: "inputs \<Rightarrow> uart_t \<Rightarrow> io \<Rightarrow> byte \<times> io" where
  "uart_read_char env uart s = (case rd env (USF (uart_nr uart)) s of (v, s) \<Rightarrow> (ucast (v AND 0xff), s))"

definition uart_rx_available :: "inputs \<Rightarrow> uart_t \<Rightarrow> io \<Rightarrow> byte \<times> io" where
  "uart_rx_available env uart s = (case rd env (USS (uart_nr uart)) s of (v, s) \<Rightarrow> (rx_count v, s))"

definition uart_tx_free :: "inputs \<Rightarrow> uart_t \<Rightarrow> io \<Rightarrow> byte \<times> io" where
  "uart_tx_free env uart s = (case rd env (USS (uart_nr uart)) s of (v, s) \<Rightarrow> (UART_TX_FIFO_SIZE - tx_count v, s))"

definition uart_wait_tx_empty :: "inputs \<Rightarrow> uart_t \<Rightarrow> io \<Rightarrow> io option" where
  "uart_wait_tx_empty env uart s = poll env (USS (uart_nr uart)) (\<lambda>v. tx_count v > 0) s"

definition uart_flush :: "uart_t option \<Rightarrow> io \<Rightarrow> io" where
  "uart_flush uart s =
     (case uart of None \<Rightarrow> s
      | Some u \<Rightarrow>
          let tmp = (if rxEnabled u then push_bit 17 1 else 0) OR (if txEnabled u then push_bit 18 1 else 0)
          in clear_bits (USC0 (uart_nr u)) tmp (set_bits (USC0 (uart_nr u)) tmp s))"

text \<open>\<open>80000000 / baud_rate\<close> of C: truncated towards zero.\<close>

definition uart_set_baudrate :: "uart_t option \<Rightarrow> int \<Rightarrow> io \<Rightarrow> (uart_t option \<times> io) option" where
  "uart_set_baudrate uart rate s =
     (case uart of None \<Rightarrow> Some (None, s)
      | Some u \<Rightarrow>
          if rate = 0 then None
          else Some (Some (u\<lparr>baud_rate := rate\<rparr>), wr (USD (uart_nr u)) (of_int (sgn rate * (80000000 div \<bar>rate\<bar>))) s))"

definition uart_get_baudrate :: "uart_t option \<Rightarrow> int" where
  "uart_get_baudrate uart = (case uart of None \<Rightarrow> 0 | Some u \<Rightarrow> baud_rate u)"

definition UART_RXD_IDX :: "int \<Rightarrow> nat" where
  "UART_RXD_IDX p = (if p = 0 then 14 else if p = 1 then 17 else 0)"

definition UART_TXD_IDX :: "int \<Rightarrow> nat" where
  "UART_TXD_IDX p = (if p = 0 then 14 else if p = 1 then 17 else 0)"

text \<open>A pin number of type \<open>int8_t\<close> passed as \<open>uint8_t\<close>.\<close>

definition pin_arg :: "int \<Rightarrow> nat" where
  "pin_arg p = nat (p mod 256)"

definition attach_rx :: "uart_t \<Rightarrow> io \<Rightarrow> io option" where
  "attach_rx u s =
     (if uart_nr u = 0 \<and> rxPin u = 3 then Some (pinMode (pin_arg (rxPin u)) SPECIAL s)
      else pinMatrixInAttach (pin_arg (rxPin u)) (UART_RXD_IDX (uart_nr u))
             (pinMode (pin_arg (rxPin u)) 0 (pinMode (pin_arg (rxPin u)) INPUT s)))"

definition attach_tx :: "uart_t \<Rightarrow> io \<Rightarrow> io" where
  "attach_tx u s =
     (if uart_nr u = 0 \<or> txPin u = 1 then pinMode (pin_arg (txPin u)) SPECIAL s
      else pinMatrixOutAttach (pin_arg (txPin u)) (of_nat (UART_TXD_IDX (uart_nr u)))
             (pinMode (pin_arg (txPin u)) 0 (pinMode (pin_arg (txPin u)) OUTPUT s)))"

definition uart_init :: "bool \<Rightarrow> int \<Rightarrow> int \<Rightarrow> u32 \<Rightarrow> byte \<Rightarrow> int \<Rightarrow> int \<Rightarrow> io \<Rightarrow> (uart_t option \<times> io) option" where
  "uart_init mem nr baudrate config mode rx tx s =
     (if nr \<noteq> 0 \<and> nr \<noteq> 1 then Some (None, s)
      else if rx = -1 \<and> tx = -1 then Some (None, s)
      else if \<not> mem then Some (None, s)
      else do {
        let u = \<lparr>uart_nr = nr, baud_rate = 0, rxEnabled = (rx \<noteq> -1 \<and> mode \<noteq> SERIAL_TX_ONLY),
                 txEnabled = (tx \<noteq> -1 \<and> mode \<noteq> SERIAL_RX_ONLY), rxPin = rx, txPin = tx\<rparr>;
        s \<leftarrow> (if rxEnabled u then attach_rx u s else Some s);
        let s = (if txEnabled u then attach_tx u s else s);
        let s = uart_flush (Some u) s;
        (uart, s) \<leftarrow> uart_set_baudrate (Some u) baudrate s;
        let s = wr (USC0 nr) config s;
        Some (uart, wr (USC1 nr) 0 s)
      })"

definition uart_uninit :: "uart_t option \<Rightarrow> io \<Rightarrow> io option" where
  "uart_uninit uart s =
     (case uart of None \<Rightarrow> Some s
      | Some u \<Rightarrow> do {
          s \<leftarrow> (if rxEnabled u then
                  let s = pinMode (pin_arg (rxPin u)) INPUT s
                  in if uart_nr u \<noteq> 0 \<or> rxPin u \<noteq> 3 then pinMatrixInDetach (UART_RXD_IDX (uart_nr u)) False s else Some s
                else Some s);
          if txEnabled u then
            let s = pinMode (pin_arg (txPin u)) INPUT s
            in if uart_nr u \<noteq> 0 \<or> txPin u \<noteq> 1 then pinMatrixInDetach (UART_TXD_IDX (uart_nr u)) False s else Some s
          else Some s
        })"

subsection \<open>The debug output\<close>

text \<open>The character output function of the ROM, which \<open>ets_install_putc1\<close> sets.\<close>

datatype putc = uart0_write_char | uart1_write_char | uart_ignore_char

record serial_sys =
  ser_io :: io
  s_uart_debug_nr :: int
  putc1 :: "putc option"

definition uart_set_debug :: "uart_t option \<Rightarrow> serial_sys \<Rightarrow> serial_sys option" where
  "uart_set_debug uart s =
     (case uart of None \<Rightarrow> None
      | Some u \<Rightarrow> Some (s\<lparr>s_uart_debug_nr := uart_nr u,
          putc1 := Some (if uart_nr u = 0 then uart0_write_char else if uart_nr u = 1 then uart1_write_char else uart_ignore_char)\<rparr>))"

text \<open>A character of the debug output.\<close>

definition debug_putc :: "bool \<Rightarrow> inputs \<Rightarrow> byte \<Rightarrow> serial_sys \<Rightarrow> serial_sys option" where
  "debug_putc sc env c s =
     (let out = (\<lambda>nr. do {
            io \<leftarrow> poll env (USS nr) (\<lambda>v. tx_count v > 0x7F) (ser_io s);
            Some (s\<lparr>ser_io := wr (USF nr) (char_u32 sc c) io\<rparr>)
          })
      in case putc1 s of Some uart0_write_char \<Rightarrow> out 0 | Some uart1_write_char \<Rightarrow> out 1 | _ \<Rightarrow> Some s)"

subsection \<open>The class\<close>

record HardwareSerial =
  hs_uart_nr :: int
  hs_uart :: "uart_t option"
  hs_rx_pin :: int
  hs_tx_pin :: int

definition HardwareSerial_new :: "int \<Rightarrow> HardwareSerial" where
  "HardwareSerial_new nr =
     \<lparr>hs_uart_nr = nr, hs_uart = None, hs_rx_pin = (if nr = 0 then 3 else -1), hs_tx_pin = (if nr = 0 then 1 else -1)\<rparr>"

definition serial_begin :: "bool \<Rightarrow> int \<Rightarrow> u32 \<Rightarrow> byte \<Rightarrow> HardwareSerial \<times> serial_sys \<Rightarrow> (HardwareSerial \<times> serial_sys) option" where
  "serial_begin mem baud config mode hs =
     (case hs of (h, s) \<Rightarrow> do {
        (uart, io) \<leftarrow> uart_init mem (hs_uart_nr h) baud config mode (hs_rx_pin h) (hs_tx_pin h) (ser_io s);
        Some (h\<lparr>hs_uart := uart\<rparr>, s\<lparr>ser_io := io\<rparr>)
      })"

definition serial_end :: "HardwareSerial \<times> serial_sys \<Rightarrow> (HardwareSerial \<times> serial_sys) option" where
  "serial_end hs =
     (case hs of (h, s) \<Rightarrow> do {
        s \<leftarrow> (if s_uart_debug_nr s = hs_uart_nr h then uart_set_debug None s else Some s);
        io \<leftarrow> uart_uninit (hs_uart h) (ser_io s);
        Some (h\<lparr>hs_uart := None\<rparr>, s\<lparr>ser_io := io\<rparr>)
      })"

definition setPins :: "int \<Rightarrow> int \<Rightarrow> HardwareSerial \<Rightarrow> HardwareSerial" where
  "setPins rx tx h = h\<lparr>hs_rx_pin := rx, hs_tx_pin := tx\<rparr>"

definition setDebugOutput :: "bool \<Rightarrow> HardwareSerial \<times> serial_sys \<Rightarrow> serial_sys option" where
  "setDebugOutput en hs =
     (case hs of (h, s) \<Rightarrow>
        case hs_uart h of None \<Rightarrow> Some s
        | Some u \<Rightarrow>
            if en then uart_set_debug (if txEnabled u then Some u else None) s
            else if s_uart_debug_nr s = hs_uart_nr h then uart_set_debug None s else Some s)"

definition isTxEnabled :: "HardwareSerial \<Rightarrow> bool" where
  "isTxEnabled h = (case hs_uart h of None \<Rightarrow> False | Some u \<Rightarrow> txEnabled u)"

definition isRxEnabled :: "HardwareSerial \<Rightarrow> bool" where
  "isRxEnabled h = (case hs_uart h of None \<Rightarrow> False | Some u \<Rightarrow> rxEnabled u)"

definition serial_available :: "inputs \<Rightarrow> HardwareSerial \<Rightarrow> io \<Rightarrow> int \<times> io" where
  "serial_available env h s =
     (case hs_uart h of
        Some u \<Rightarrow> if rxEnabled u then (case uart_rx_available env u s of (n, s) \<Rightarrow> (uint n, s)) else (0, s)
      | None \<Rightarrow> (0, s))"

definition serial_peek :: int where
  "serial_peek = -1"

definition serial_read :: "inputs \<Rightarrow> HardwareSerial \<Rightarrow> io \<Rightarrow> int \<times> io" where
  "serial_read env h s =
     (case hs_uart h of
        Some u \<Rightarrow> if rxEnabled u then (case uart_read_char env u s of (c, s) \<Rightarrow> (uint c, s)) else (-1, s)
      | None \<Rightarrow> (-1, s))"

definition availableForWrite :: "inputs \<Rightarrow> HardwareSerial \<Rightarrow> io \<Rightarrow> int \<times> io" where
  "availableForWrite env h s =
     (case hs_uart h of
        Some u \<Rightarrow> if txEnabled u then (case uart_tx_free env u s of (n, s) \<Rightarrow> (uint n, s)) else (0, s)
      | None \<Rightarrow> (0, s))"

definition serial_flush :: "inputs \<Rightarrow> HardwareSerial \<Rightarrow> io \<Rightarrow> io option" where
  "serial_flush env h s =
     (case hs_uart h of None \<Rightarrow> Some s | Some u \<Rightarrow> if \<not> txEnabled u then Some s else uart_wait_tx_empty env u s)"

definition serial_write :: "bool \<Rightarrow> inputs \<Rightarrow> HardwareSerial \<Rightarrow> byte \<Rightarrow> io \<Rightarrow> (nat \<times> io) option" where
  "serial_write sc env h c s =
     (case hs_uart h of None \<Rightarrow> Some (0, s)
      | Some u \<Rightarrow> if \<not> txEnabled u then Some (0, s) else do { s \<leftarrow> uart_write_char sc env u c s; Some (1, s) })"

text \<open>\<open>Print::write(buffer, size)\<close>.\<close>

primrec print_write :: "bool \<Rightarrow> inputs \<Rightarrow> HardwareSerial \<Rightarrow> byte list \<Rightarrow> io \<Rightarrow> (nat \<times> io) option" where
  "print_write sc env h [] s = Some (0, s)"
| "print_write sc env h (c # cs) s = do {
     (k, s) \<leftarrow> serial_write sc env h c s;
     (n, s) \<leftarrow> print_write sc env h cs s;
     Some (k + n, s)
   }"

subsection \<open>Waiting for the FIFO\<close>

lemma poll_ends:
  "\<not> busy (env (events s @ replicate n (Rd r)) r) \<Longrightarrow>
   \<exists>m \<le> n. poll env r busy s = Some (s\<lparr>events := events s @ replicate (Suc m) (Rd r)\<rparr>) \<and>
     \<not> busy (env (events s @ replicate m (Rd r)) r)"
proof (induction n arbitrary: s)
  case 0
  then show ?case by (subst poll.simps) (simp add: rd_def)
next
  case (Suc n)
  show ?case
  proof (cases "busy (env (events s) r)")
    case False
    then show ?thesis by (subst poll.simps) (auto simp: rd_def intro!: exI [of _ 0])
  next
    case True
    let ?s = "s\<lparr>events := events s @ [Rd r]\<rparr>"
    from Suc.prems have "\<not> busy (env (events ?s @ replicate n (Rd r)) r)" by simp
    from Suc.IH [OF this] obtain m where m: "m \<le> n" "poll env r busy ?s = Some (?s\<lparr>events := events ?s @ replicate (Suc m) (Rd r)\<rparr>)"
      "\<not> busy (env (events ?s @ replicate m (Rd r)) r)" by blast
    have "poll env r busy s = poll env r busy ?s" using True by (subst poll.simps) (simp add: rd_def)
    then show ?thesis using m by (intro exI [of _ "Suc m"]) simp
  qed
qed

text \<open>
  The transmit FIFO: the bytes written so far, those the port has sent, the fill level. A port is
  honest when the status register shows the level, it sends only what was written, and it empties
  the FIFO while the driver polls.
\<close>

fun fifo_bytes :: "int \<Rightarrow> event list \<Rightarrow> byte list" where
  "fifo_bytes nr [] = []"
| "fifo_bytes nr (Wr r v # h) = (if r = USF nr then ucast v # fifo_bytes nr h else fifo_bytes nr h)"
| "fifo_bytes nr (Rd r # h) = fifo_bytes nr h"

definition level :: "int \<Rightarrow> (event list \<Rightarrow> nat) \<Rightarrow> event list \<Rightarrow> nat" where
  "level nr sent h = length (fifo_bytes nr h) - sent h"

definition honest :: "inputs \<Rightarrow> int \<Rightarrow> (event list \<Rightarrow> nat) \<Rightarrow> bool" where
  "honest env nr sent \<longleftrightarrow>
     (\<forall>h. level nr sent h \<le> 128 \<longrightarrow> unat (tx_count (env h (USS nr))) = level nr sent h) \<and>
     (\<forall>h e. sent h \<le> sent (h @ [e]) \<and> sent h \<le> length (fifo_bytes nr h)) \<and>
     (\<forall>h. \<exists>n. level nr sent (h @ replicate n (Rd (USS nr))) = 0)"

lemma fifo_bytes_append [simp]: "fifo_bytes nr (h @ h') = fifo_bytes nr h @ fifo_bytes nr h'"
  by (induction nr h rule: fifo_bytes.induct) auto

lemma fifo_bytes_polls [simp]: "fifo_bytes nr (replicate n (Rd r)) = []"
  by (induction n) auto

lemma level_polls:
  assumes "honest env nr sent"
  shows "level nr sent (h @ replicate n (Rd r)) \<le> level nr sent h"
proof -
  have "sent h \<le> sent (h @ replicate n (Rd r))"
  proof (induction n)
    case (Suc n)
    have "h @ replicate (Suc n) (Rd r) = (h @ replicate n (Rd r)) @ [Rd r]" by (simp add: replicate_append_same)
    then show ?case using Suc assms by (metis (no_types, lifting) honest_def order_trans)
  qed simp
  then show ?thesis by (simp add: level_def diff_le_mono2)
qed

lemma poll_level:
  assumes "honest env nr sent" "level nr sent (events s) \<le> 128"
  shows "\<exists>m. poll env (USS nr) (\<lambda>v. k < tx_count v) s = Some (s\<lparr>events := events s @ replicate (Suc m) (Rd (USS nr))\<rparr>) \<and>
    level nr sent (events s @ replicate (Suc m) (Rd (USS nr))) \<le> unat k"
proof -
  let ?h = "\<lambda>n. events s @ replicate n (Rd (USS nr))"
  have count: "unat (tx_count (env (?h n) (USS nr))) = level nr sent (?h n)" for n
    using assms level_polls [OF assms(1), of "events s" n] by (meson honest_def order_trans)
  obtain n where "level nr sent (?h n) = 0" using assms(1) by (meson honest_def)
  then have "\<not> k < tx_count (env (?h n) (USS nr))" using count by (simp add: word_less_nat_alt)
  from poll_ends [of "\<lambda>v. k < tx_count v" env s n "USS nr", OF this] obtain m where
    m: "poll env (USS nr) (\<lambda>v. k < tx_count v) s = Some (s\<lparr>events := ?h (Suc m)\<rparr>)" "\<not> k < tx_count (env (?h m) (USS nr))"
    by blast
  have "?h (Suc m) = ?h m @ replicate 1 (Rd (USS nr))" by (simp add: replicate_append_same)
  then have "level nr sent (?h (Suc m)) \<le> level nr sent (?h m)" using level_polls [OF assms(1), of "?h m" 1] by metis
  moreover have "level nr sent (?h m) \<le> unat k" using m(2) count [of m] by (simp add: word_less_nat_alt)
  ultimately show ?thesis using m(1) by (meson order_trans)
qed

definition fifo_safe :: "int \<Rightarrow> (event list \<Rightarrow> nat) \<Rightarrow> event list \<Rightarrow> bool" where
  "fifo_safe nr sent h \<longleftrightarrow> (\<forall>n. level nr sent (take n h) \<le> 128)"

lemma fifo_safe_last: "fifo_safe nr sent h \<Longrightarrow> level nr sent h \<le> 128"
  by (metis fifo_safe_def order_refl take_all)

lemma fifo_safe_polls:
  assumes "honest env nr sent" "fifo_safe nr sent h"
  shows "fifo_safe nr sent (h @ replicate n (Rd r))"
  unfolding fifo_safe_def
proof
  fix k
  show "level nr sent (take k (h @ replicate n (Rd r))) \<le> 128"
  proof (cases "k \<le> length h")
    case True
    then show ?thesis using assms(2) by (simp add: fifo_safe_def)
  next
    case False
    then show ?thesis using level_polls [OF assms(1), of h "min (k - length h) n" r] fifo_safe_last [OF assms(2)] by simp
  qed
qed

lemma fifo_safe_snoc: "fifo_safe nr sent h \<Longrightarrow> level nr sent (h @ [e]) \<le> 128 \<Longrightarrow> fifo_safe nr sent (h @ [e])"
  by (auto simp: fifo_safe_def take_Cons')

lemma ucast_char [simp]: "ucast (char_u32 sc c) = c"
  by (auto simp: char_u32_def intro!: bit_word_eqI simp: bit_simps)

lemma USF_neq_USS [simp]: "USF nr \<noteq> USS nr" "USS nr \<noteq> USF nr"
  by (simp_all add: USF_def USS_def uart_reg_def)

lemma write_char_ok:
  assumes "honest env (uart_nr u) sent" "fifo_safe (uart_nr u) sent (events s)"
  shows "\<exists>t. uart_write_char sc env u c s = Some t \<and> fifo_safe (uart_nr u) sent (events t) \<and>
    fifo_bytes (uart_nr u) (events t) = fifo_bytes (uart_nr u) (events s) @ [c]"
proof -
  let ?nr = "uart_nr u"
  from poll_level [OF assms(1) fifo_safe_last [OF assms(2)], of "0x7F"] obtain m where
    m: "poll env (USS ?nr) (\<lambda>v. 0x7F < tx_count v) s = Some (s\<lparr>events := events s @ replicate (Suc m) (Rd (USS ?nr))\<rparr>)"
      "level ?nr sent (events s @ replicate (Suc m) (Rd (USS ?nr))) \<le> 127" by auto
  define h where "h = events s @ replicate (Suc m) (Rd (USS ?nr))"
  have "sent h \<le> sent (h @ [Wr (USF ?nr) (char_u32 sc c)])" using assms(1) by (simp add: honest_def)
  then have "level ?nr sent (h @ [Wr (USF ?nr) (char_u32 sc c)]) \<le> 128" using m(2) unfolding level_def h_def [symmetric] by simp
  then have "fifo_safe ?nr sent (h @ [Wr (USF ?nr) (char_u32 sc c)])"
    using fifo_safe_snoc fifo_safe_polls [OF assms, of "Suc m"] unfolding h_def by blast
  then show ?thesis using m(1) by (simp add: uart_write_char_def wr_def h_def)
qed

text \<open>
  C35: Writing a buffer to a serial port with transmission enabled ends and puts exactly its bytes into
  the transmit FIFO, in order, whatever the pace of the port; at no moment does the FIFO hold
  more than its 128 bytes. Flushing then waits until everything is sent.
\<close>

theorem serial_write_in_order:
  assumes "honest env (uart_nr u) sent" "hs_uart h = Some u" "txEnabled u" "fifo_safe (uart_nr u) sent (events s)"
  shows "\<exists>t v. print_write sc env h xs s = Some (length xs, t) \<and> fifo_safe (uart_nr u) sent (events t) \<and>
    fifo_bytes (uart_nr u) (events t) = fifo_bytes (uart_nr u) (events s) @ xs \<and>
    serial_flush env h t = Some v \<and> fifo_bytes (uart_nr u) (events v) = fifo_bytes (uart_nr u) (events t) \<and>
    level (uart_nr u) sent (events v) = 0"
proof -
  have "\<exists>t. print_write sc env h xs s = Some (length xs, t) \<and> fifo_safe (uart_nr u) sent (events t) \<and>
    fifo_bytes (uart_nr u) (events t) = fifo_bytes (uart_nr u) (events s) @ xs"
    using assms(4)
  proof (induction xs arbitrary: s)
    case (Cons c cs)
    from write_char_ok [OF assms(1) Cons.prems, of sc c] obtain t where t: "uart_write_char sc env u c s = Some t"
      "fifo_safe (uart_nr u) sent (events t)" "fifo_bytes (uart_nr u) (events t) = fifo_bytes (uart_nr u) (events s) @ [c]" by blast
    then show ?case using Cons.IH [OF t(2)] assms(2,3) by (auto simp: serial_write_def)
  qed simp
  then obtain t where t: "print_write sc env h xs s = Some (length xs, t)" "fifo_safe (uart_nr u) sent (events t)"
    "fifo_bytes (uart_nr u) (events t) = fifo_bytes (uart_nr u) (events s) @ xs" by blast
  from poll_level [OF assms(1) fifo_safe_last [OF t(2)], of 0]
  obtain v where "serial_flush env h t = Some v" "fifo_bytes (uart_nr u) (events v) = fifo_bytes (uart_nr u) (events t)"
    "level (uart_nr u) sent (events v) = 0" using assms(2,3) by (auto simp: serial_flush_def uart_wait_tx_empty_def)
  then show ?thesis using t by blast
qed

text \<open>A port that sends a byte with every look at its status.\<close>

fun slow_level :: "int \<Rightarrow> nat \<Rightarrow> event \<Rightarrow> nat" where
  "slow_level nr k (Wr r v) = (if r = USF nr then k + 1 else k)"
| "slow_level nr k (Rd r) = (if r = USS nr then k - 1 else k)"

definition slow_port :: "int \<Rightarrow> inputs" where
  "slow_port nr h r = push_bit 16 (of_nat (foldl (slow_level nr) 0 h))"

definition slow_sent :: "int \<Rightarrow> event list \<Rightarrow> nat" where
  "slow_sent nr h = length (fifo_bytes nr h) - foldl (slow_level nr) 0 h"

lemma slow_level_le: "foldl (slow_level nr) k h \<le> k + length (fifo_bytes nr h)"
proof (induction nr h arbitrary: k rule: fifo_bytes.induct)
  case (2 nr r v h)
  show ?case using 2 [of "Suc k"] 2 [of k] by auto
next
  case (3 nr r h)
  show ?case using 3 [of "k - 1"] 3 [of k] by auto
qed simp

lemma slow_level_polls: "foldl (slow_level nr) k (replicate n (Rd (USS nr))) = k - n"
  by (induction n arbitrary: k) auto

lemma tx_count_push: "k \<le> 128 \<Longrightarrow> unat (tx_count (push_bit 16 (of_nat k))) = k"
proof -
  have "tx_count (push_bit 16 (of_nat k)) = of_nat k"
    unfolding tx_count_def masks(4) by (rule bit_word_eqI) (auto simp: bit_simps)
  then show "k \<le> 128 \<Longrightarrow> ?thesis" by (simp add: unat_of_nat)
qed

lemma slow_port_honest: "honest (slow_port nr) nr (slow_sent nr)"
proof -
  let ?L = "foldl (slow_level nr) 0"
  have le: "?L h \<le> length (fifo_bytes nr h)" for h using slow_level_le [of nr 0 h] by simp
  then have lev: "level nr (slow_sent nr) h = ?L h" for h by (simp add: level_def slow_sent_def)
  have "unat (tx_count (slow_port nr h (USS nr))) = ?L h" if "?L h \<le> 128" for h
    using that by (simp add: slow_port_def tx_count_push)
  moreover have "slow_sent nr h \<le> slow_sent nr (h @ [e])" for h e
    using le [of h] by (cases e) (auto simp: slow_sent_def)
  moreover have "\<exists>n. ?L (h @ replicate n (Rd (USS nr))) = 0" for h
    using slow_level_polls [of nr "?L h" "?L h"] by auto
  ultimately show ?thesis by (simp add: honest_def lev) (simp add: slow_sent_def)
qed

definition serial1 :: HardwareSerial where
  "serial1 = \<lparr>hs_uart_nr = 1, hs_uart = Some \<lparr>uart_nr = 1, baud_rate = 9600, rxEnabled = False, txEnabled = True, rxPin = -1, txPin = 18\<rparr>,
     hs_rx_pin = -1, hs_tx_pin = 18\<rparr>"

theorem serial_write_in_order_witness:
  "\<exists>t. print_write False (slow_port 1) serial1 [72, 105] blank_io = Some (2, t) \<and> fifo_bytes 1 (events t) = [72, 105]"
proof -
  have "fifo_safe 1 (slow_sent 1) (events blank_io)" by (simp add: fifo_safe_def level_def blank_io_def)
  then show ?thesis
    using serial_write_in_order [of "slow_port 1" "the (hs_uart serial1)" "slow_sent 1" serial1 blank_io False "[72, 105]"]
      slow_port_honest [of 1] by (auto simp: serial1_def numeral_2_eq_2 blank_io_def)
qed

lemma detach_defined: "nr = 0 \<or> nr = 1 \<Longrightarrow> \<exists>t. pinMatrixInDetach (UART_RXD_IDX nr) b s = Some t"
  by (auto simp: pinMatrixInDetach_def pinMatrixInAttach_def UART_RXD_IDX_def Let_def)

lemma uninit_defined:
  assumes "\<And>u. uart = Some u \<Longrightarrow> uart_nr u = 0 \<or> uart_nr u = 1"
  shows "\<exists>t. uart_uninit uart s = Some t"
proof (cases uart)
  case (Some u)
  obtain f where f: "\<And>s. pinMatrixInDetach (UART_RXD_IDX (uart_nr u)) False s = Some (f s)"
    using detach_defined [OF assms [OF Some]] by metis
  have "UART_TXD_IDX = UART_RXD_IDX" by (simp add: fun_eq_iff UART_TXD_IDX_def UART_RXD_IDX_def)
  then show ?thesis using detach_defined [of 0] by (simp add: uart_uninit_def Some Let_def f)
qed (simp add: uart_uninit_def)

text \<open>
  Ending a serial port is undefined exactly while the port carries the debug output, because \<open>end\<close>
  passes a null pointer to \<open>uart_set_debug\<close>, which dereferences it; otherwise it closes the port. The
  debug output starts on UART0, so \<open>Serial.end()\<close> is undefined from the start. \<open>setDebugOutput\<close> passes
  the null pointer when the output is to be switched off the port that carries it, or on a port that does
  not transmit: there is no way to switch the debug output off.
\<close>

theorem serial_end_null_pointer:
  assumes "\<And>u. hs_uart h = Some u \<Longrightarrow> uart_nr u = 0 \<or> uart_nr u = 1"
  shows "(if s_uart_debug_nr s = hs_uart_nr h then serial_end (h, s) = None
      else \<exists>t. serial_end (h, s) = Some (h\<lparr>hs_uart := None\<rparr>, t)) \<and>
    (setDebugOutput en (h, s) = None \<longleftrightarrow>
      (\<exists>u. hs_uart h = Some u \<and> (if en then \<not> txEnabled u else s_uart_debug_nr s = hs_uart_nr h))) \<and>
    serial_end (HardwareSerial_new 0, \<lparr>ser_io = io, s_uart_debug_nr = 0, putc1 = None\<rparr>) = None"
proof -
  obtain t where t: "uart_uninit (hs_uart h) (ser_io s) = Some t" using uninit_defined [of "hs_uart h" "ser_io s"] assms by blast
  show ?thesis using t
    by (auto simp: serial_end_def uart_set_debug_def setDebugOutput_def HardwareSerial_new_def split: option.split)
qed

theorem serial_end_null_pointer_witness:
  "serial_end (serial1, \<lparr>ser_io = blank_io, s_uart_debug_nr = 1, putc1 = None\<rparr>) = None \<and>
   (\<exists>t. serial_end (serial1, \<lparr>ser_io = blank_io, s_uart_debug_nr = 0, putc1 = None\<rparr>) = Some (serial1\<lparr>hs_uart := None\<rparr>, t))"
  using serial_end_null_pointer [of serial1 "\<lparr>ser_io = blank_io, s_uart_debug_nr = 1, putc1 = None\<rparr>" False blank_io]
    serial_end_null_pointer [of serial1 "\<lparr>ser_io = blank_io, s_uart_debug_nr = 0, putc1 = None\<rparr>" False blank_io]
  by (auto simp: serial1_def)

end
