(* ===== verification/Eeprom.thy ===== *)
theory Eeprom
  imports Spiffs_Hal
begin

section \<open>The EEPROM library\<close>

text \<open>
  \<open>libraries/EEPROM/EEPROM.cpp\<close>: a copy in memory of the start of one flash sector, written back by
  \<open>commit\<close>. The flash functions of the SDK are the device of \<open>Spiffs_Hal\<close>. \<open>newbuf\<close> is what
  \<open>new uint8_t[size]\<close> returns: null, or a block with some contents; reading the flash into a null pointer
  is undefined (\<open>None\<close>). \<open>get\<close> and \<open>put\<close> of a value of any type work on its bytes.
\<close>

record eeprom =
  ee_sector :: nat
  ee_data :: "byte list option"
  ee_size :: nat
  ee_dirty :: bool

subsection \<open>Operations\<close>

definition eeprom_new :: "nat \<Rightarrow> eeprom" where
  "eeprom_new sector = \<lparr>ee_sector = sector, ee_data = None, ee_size = 0, ee_dirty = False\<rparr>"

text \<open>What \<open>begin\<close> allocates for a size.\<close>

definition ee_alloc :: "nat \<Rightarrow> nat" where
  "ee_alloc sz = align_down4 ((if sz > SPI_FLASH_SEC_SIZE then SPI_FLASH_SEC_SIZE else sz) + 3)"

definition eeprom_begin :: "spi_dev \<Rightarrow> byte list option \<Rightarrow> nat \<Rightarrow> mem \<Rightarrow> eeprom \<Rightarrow> eeprom option" where
  "eeprom_begin dev newbuf sz m s =
     (if sz = 0 then Some s
      else case newbuf of None \<Rightarrow> None
        | Some b \<Rightarrow> Some (s\<lparr>ee_size := ee_alloc sz,
            ee_data := Some (case flashRead dev (ee_sector s * SPI_FLASH_SEC_SIZE) (ee_alloc sz) m of Some bs \<Rightarrow> bs | None \<Rightarrow> b)\<rparr>))"

definition eeprom_read :: "int \<Rightarrow> eeprom \<Rightarrow> byte option" where
  "eeprom_read address s =
     (if address < 0 \<or> nat address \<ge> ee_size s then Some 0
      else case ee_data s of None \<Rightarrow> Some 0 | Some d \<Rightarrow> get_at d (nat address))"

definition eeprom_write :: "int \<Rightarrow> byte \<Rightarrow> eeprom \<Rightarrow> eeprom option" where
  "eeprom_write address val s =
     (if address < 0 \<or> nat address \<ge> ee_size s then Some s
      else case ee_data s of None \<Rightarrow> Some s
        | Some d \<Rightarrow> do { d \<leftarrow> put_at d (nat address) val; Some (s\<lparr>ee_data := Some d, ee_dirty := True\<rparr>) })"

definition eeprom_commit :: "spi_dev \<Rightarrow> mem \<Rightarrow> eeprom \<Rightarrow> bool \<times> mem \<times> eeprom" where
  "eeprom_commit dev m s =
     (if ee_size s = 0 then (False, m, s)
      else if \<not> ee_dirty s then (True, m, s)
      else case ee_data s of None \<Rightarrow> (False, m, s)
        | Some d \<Rightarrow> (case flashEraseSector dev (ee_sector s) m of
              None \<Rightarrow> (False, m, s)
            | Some m \<Rightarrow> (case flashWrite dev (ee_sector s * SPI_FLASH_SEC_SIZE) (take (ee_size s) d) m of
                  None \<Rightarrow> (False, m, s)
                | Some m \<Rightarrow> (True, m, s\<lparr>ee_dirty := False\<rparr>))))"

definition eeprom_end :: "spi_dev \<Rightarrow> mem \<Rightarrow> eeprom \<Rightarrow> mem \<times> eeprom" where
  "eeprom_end dev m s =
     (if ee_size s = 0 then (m, s)
      else case eeprom_commit dev m s of (_, m, s) \<Rightarrow> (m, s\<lparr>ee_data := None, ee_size := 0\<rparr>))"

definition eeprom_get :: "nat \<Rightarrow> int \<Rightarrow> byte list \<Rightarrow> eeprom \<Rightarrow> byte list option" where
  "eeprom_get n address t s =
     (if address < 0 \<or> add32 (nat address) n > ee_size s then Some t
      else case ee_data s of None \<Rightarrow> None
        | Some d \<Rightarrow> if nat address + n \<le> length d then Some (take n (drop (nat address) d)) else None)"

definition eeprom_put :: "int \<Rightarrow> byte list \<Rightarrow> eeprom \<Rightarrow> eeprom option" where
  "eeprom_put address t s =
     (if address < 0 \<or> add32 (nat address) (length t) > ee_size s then Some s
      else case ee_data s of None \<Rightarrow> None
        | Some d \<Rightarrow> if nat address + length t \<le> length d
            then Some (s\<lparr>ee_data := Some (take (nat address) d @ t @ drop (nat address + length t) d), ee_dirty := True\<rparr>) else None)"

definition eeprom_getDataPtr :: "eeprom \<Rightarrow> eeprom" where
  "eeprom_getDataPtr s = s\<lparr>ee_dirty := True\<rparr>"

subsection \<open>What survives\<close>

definition ee_ok :: "eeprom \<Rightarrow> bool" where
  "ee_ok s \<longleftrightarrow> ee_size s mod 4 = 0 \<and> 0 < ee_size s \<and> ee_size s \<le> SPI_FLASH_SEC_SIZE \<and> (\<exists>d. ee_data s = Some d \<and> length d = ee_size s)"

definition contents :: "eeprom \<Rightarrow> byte list" where
  "contents s = (case ee_data s of Some d \<Rightarrow> d | None \<Rightarrow> [])"

text \<open>The memory copy agrees with the flash unless it is marked dirty.\<close>

definition synced :: "mem \<Rightarrow> eeprom \<Rightarrow> bool" where
  "synced m s \<longleftrightarrow> (\<not> ee_dirty s \<longrightarrow> contents s = mem_read m (ee_sector s * SPI_FLASH_SEC_SIZE) (ee_size s))"

lemma alloc_ok: "0 < sz \<Longrightarrow> ee_alloc sz mod 4 = 0 \<and> 0 < ee_alloc sz \<and> ee_alloc sz \<le> SPI_FLASH_SEC_SIZE"
  unfolding ee_alloc_def align_down4_def c_defs by (cases "4096 < sz") (simp, presburger)

lemma erase_prog: "length bs \<le> n \<Longrightarrow> mem_read (prog a bs (erase a n m)) a (length bs) = bs"
  by (rule nth_equalityI) (simp_all add: mem_read_def prog_def erase_def)

lemma mem_read_other: "(\<And>x. a \<le> x \<Longrightarrow> x < a + n \<Longrightarrow> m' x = m x) \<Longrightarrow> mem_read m' a n = mem_read m a n"
  by (simp add: mem_read_def)

context spi_flash
begin

lemma begin_ok:
  assumes "0 < sz" "(ee_sector s + 1) * SPI_FLASH_SEC_SIZE \<le> chip"
  shows "\<exists>t. eeprom_begin dev (Some b) sz m s = Some t \<and> ee_ok t \<and> ee_size t = ee_alloc sz \<and> ee_sector t = ee_sector s \<and>
    ee_dirty t = ee_dirty s \<and> contents t = mem_read m (ee_sector s * SPI_FLASH_SEC_SIZE) (ee_alloc sz)"
proof -
  have "flashRead dev (ee_sector s * SPI_FLASH_SEC_SIZE) (ee_alloc sz) m = Some (mem_read m (ee_sector s * SPI_FLASH_SEC_SIZE) (ee_alloc sz))"
    using assms alloc_ok [OF assms(1)] by (intro dev_read) (auto simp: c_defs)
  then show ?thesis using assms(1) alloc_ok [OF assms(1)]
    by (auto simp: eeprom_begin_def ee_ok_def contents_def mem_read_def)
qed

lemma commit_ok:
  assumes "ee_ok s" "synced m s" "(ee_sector s + 1) * SPI_FLASH_SEC_SIZE \<le> chip"
  shows "\<exists>m'. eeprom_commit dev m s = (True, m', s\<lparr>ee_dirty := False\<rparr>) \<and>
    mem_read m' (ee_sector s * SPI_FLASH_SEC_SIZE) (ee_size s) = contents s \<and>
    (\<forall>x. x < ee_sector s * SPI_FLASH_SEC_SIZE \<or> (ee_sector s + 1) * SPI_FLASH_SEC_SIZE \<le> x \<longrightarrow> m' x = m x)"
proof (cases "ee_dirty s")
  case False
  then show ?thesis using assms(1,2) by (cases s) (auto simp: eeprom_commit_def ee_ok_def synced_def)
next
  case True
  obtain d where d: "ee_data s = Some d" "length d = ee_size s" using assms(1) by (auto simp: ee_ok_def)
  let ?a = "ee_sector s * SPI_FLASH_SEC_SIZE"
  have "flashEraseSector dev (ee_sector s) m = Some (erase ?a SPI_FLASH_SEC_SIZE m)" using assms(3) by (rule dev_erase)
  moreover have "flashWrite dev ?a d m' = Some (prog ?a d m')" for m'
    using assms d by (intro dev_write) (auto simp: ee_ok_def c_defs)
  ultimately have "eeprom_commit dev m s = (True, prog ?a d (erase ?a SPI_FLASH_SEC_SIZE m), s\<lparr>ee_dirty := False\<rparr>)"
    using True d assms(1) by (simp add: eeprom_commit_def ee_ok_def)
  moreover have "mem_read (prog ?a d (erase ?a SPI_FLASH_SEC_SIZE m)) ?a (ee_size s) = d"
    using erase_prog [of d SPI_FLASH_SEC_SIZE] d assms(1) by (simp add: ee_ok_def)
  ultimately show ?thesis using d assms(1) by (auto simp: contents_def prog_def erase_def ee_ok_def)
qed

end

text \<open>Reads and writes of single bytes on the copy in memory.\<close>

lemma eeprom_rw:
  assumes "ee_ok s"
  shows "\<exists>t. eeprom_write i v s = Some t \<and> ee_ok t \<and> ee_size t = ee_size s \<and> ee_sector t = ee_sector s \<and>
    (synced m s \<longrightarrow> synced m t) \<and>
    contents t = (if 0 \<le> i \<and> nat i < ee_size s then (contents s)[nat i := v] else contents s) \<and>
    eeprom_read j s = Some (if 0 \<le> j \<and> nat j < ee_size s then contents s ! nat j else 0)"
  using assms by (auto simp: ee_ok_def eeprom_write_def eeprom_read_def put_at_def get_at_def contents_def synced_def)

text \<open>A sequence of writes.\<close>

primrec eeprom_writes :: "(int \<times> byte) list \<Rightarrow> eeprom \<Rightarrow> eeprom option" where
  "eeprom_writes [] s = Some s"
| "eeprom_writes (w # ws) s = do { s \<leftarrow> eeprom_write (fst w) (snd w) s; eeprom_writes ws s }"

fun apply_write :: "int \<times> byte \<Rightarrow> byte list \<Rightarrow> byte list" where
  "apply_write (i, v) d = (if 0 \<le> i \<and> nat i < length d then d[nat i := v] else d)"

lemma writes_ok:
  "ee_ok s \<Longrightarrow> synced m s \<Longrightarrow> \<exists>t. eeprom_writes ws s = Some t \<and> ee_ok t \<and> ee_size t = ee_size s \<and> ee_sector t = ee_sector s \<and>
     synced m t \<and> contents t = fold apply_write ws (contents s)"
proof (induction ws arbitrary: s)
  case (Cons w ws)
  obtain i v where w: "w = (i, v)" by (cases w)
  from eeprom_rw [OF Cons.prems(1), of i v m] Cons.prems(2) obtain t where t: "eeprom_write i v s = Some t" "ee_ok t" "ee_size t = ee_size s"
    "ee_sector t = ee_sector s" "synced m t" "contents t = (if 0 \<le> i \<and> nat i < ee_size s then (contents s)[nat i := v] else contents s)" by auto
  moreover have "length (contents s) = ee_size s" using Cons.prems(1) by (auto simp: ee_ok_def contents_def)
  ultimately show ?case using Cons.IH [OF t(2,5)] by (auto simp: w)
qed simp

text \<open>
  C16: What is written to the EEPROM is there after the next start. Starting with any contents of the
  flash, beginning with a size, writing bytes anywhere, ending, and beginning again - with a new
  object, after a reset - gives back the contents with the writes applied in order; writes
  outside of the size have no effect, and no byte of the flash outside of the sector changes. It
  holds for every flash chip that does what the SDK documents.
\<close>

theorem eeprom_survives_reset:
  assumes "spi_flash dev chip" "(sector + 1) * SPI_FLASH_SEC_SIZE \<le> chip" "0 < sz"
  shows "\<exists>s t m' s' t'. eeprom_begin dev (Some b) sz m (eeprom_new sector) = Some s \<and> eeprom_writes ws s = Some t \<and>
    eeprom_end dev m t = (m', s') \<and> eeprom_begin dev (Some b) sz m' (eeprom_new sector) = Some t' \<and>
    contents t' = fold apply_write ws (contents s) \<and>
    contents s = mem_read m (sector * SPI_FLASH_SEC_SIZE) (ee_alloc sz) \<and>
    (\<forall>i. eeprom_read i t' = Some (if 0 \<le> i \<and> nat i < ee_alloc sz then contents t' ! nat i else 0)) \<and>
    (\<forall>x. x < sector * SPI_FLASH_SEC_SIZE \<or> (sector + 1) * SPI_FLASH_SEC_SIZE \<le> x \<longrightarrow> m' x = m x)"
proof -
  let ?n = "eeprom_new sector"
  have n: "ee_sector ?n = sector" "\<not> ee_dirty ?n" by (simp_all add: eeprom_new_def)
  from spi_flash.begin_ok [OF assms(1,3), of ?n b m] assms(2) n obtain s where s: "eeprom_begin dev (Some b) sz m ?n = Some s" "ee_ok s"
    "ee_size s = ee_alloc sz" "ee_sector s = sector" "\<not> ee_dirty s" "contents s = mem_read m (sector * SPI_FLASH_SEC_SIZE) (ee_alloc sz)" by auto
  have "synced m s" using s by (simp add: synced_def)
  from writes_ok [OF s(2) this, of ws] obtain t where t: "eeprom_writes ws s = Some t" "ee_ok t" "ee_size t = ee_alloc sz" "ee_sector t = sector"
    "synced m t" "contents t = fold apply_write ws (contents s)" using s by auto
  from spi_flash.commit_ok [OF assms(1) t(2,5)] t(4) assms(2) obtain m' where m': "eeprom_commit dev m t = (True, m', t\<lparr>ee_dirty := False\<rparr>)"
    "mem_read m' (sector * SPI_FLASH_SEC_SIZE) (ee_alloc sz) = contents t"
    "\<forall>x. x < sector * SPI_FLASH_SEC_SIZE \<or> (sector + 1) * SPI_FLASH_SEC_SIZE \<le> x \<longrightarrow> m' x = m x" using t(3) by auto
  have "ee_size t \<noteq> 0" using t(2) by (simp add: ee_ok_def)
  then have e: "eeprom_end dev m t = (m', t\<lparr>ee_dirty := False, ee_data := None, ee_size := 0\<rparr>)" using m'(1) by (simp add: eeprom_end_def)
  from spi_flash.begin_ok [OF assms(1,3), of ?n b m'] assms(2) n obtain t' where t': "eeprom_begin dev (Some b) sz m' ?n = Some t'" "ee_ok t'"
    "ee_size t' = ee_alloc sz" "contents t' = contents t" using m'(2) by auto
  have "eeprom_read i t' = Some (if 0 \<le> i \<and> nat i < ee_alloc sz then contents t' ! nat i else 0)" for i
    using eeprom_rw [OF t'(2), of 0 0 m i] t'(3) by auto
  then show ?thesis using s(1,6) t(1,6) e t'(1,4) m'(3) by auto
qed

theorem eeprom_survives_reset_witness:
  "\<exists>s t m' s' t'. eeprom_begin nor_chip (Some []) 4 (\<lambda>_. 0xff) (eeprom_new 3) = Some s \<and> eeprom_writes [(1, 7), (9, 8)] s = Some t \<and>
    eeprom_end nor_chip (\<lambda>_. 0xff) t = (m', s') \<and> eeprom_begin nor_chip (Some []) 4 m' (eeprom_new 3) = Some t' \<and>
    contents t' = [0xff, 7, 0xff, 0xff]"
proof -
  have "ee_alloc 4 = 4" by (simp add: ee_alloc_def align_down4_def c_defs)
  moreover have "mem_read (\<lambda>_. 0xff) a 4 = [0xff, 0xff, 0xff, 0xff]" for a by (simp add: mem_read_def numeral_eq_Suc)
  ultimately show ?thesis
    using eeprom_survives_reset [OF chip.spi_flash_axioms, of 3 4 "[]" "\<lambda>_. 0xff" "[(1, 7), (9, 8)]"] by (auto simp: c_defs)
qed

end
