(* ===== verification/Noniso.thy ===== *)
theory Noniso
  imports Prelude "HOL-Library.Signed_Division"
begin

section \<open>Number conversions\<close>

text \<open>
  \<open>core_esp31b_noniso.c\<close>: \<open>itoa\<close>, \<open>ltoa\<close>, \<open>utoa\<close>, \<open>ultoa\<close> with \<open>reverse\<close>, and \<open>atoi\<close>, \<open>atol\<close> over
  the \<open>strtol\<close> of the C library. The destination is the list of the characters from \<open>result\<close> on; a
  store beyond its end, and a read of the digit table out of range, is \<open>None\<close>. \<open>int\<close> and \<open>long\<close>
  have 32 bits. \<open>abs\<close> negates in 32 bits, so that the least number is its own absolute value. The
  floating-point conversions \<open>atof\<close> and \<open>dtostrf\<close> are not modelled.
\<close>

subsection \<open>The code\<close>

definition store :: "'a list \<Rightarrow> nat \<Rightarrow> 'a \<Rightarrow> 'a list option" where
  "store buf i c = (if i < length buf then Some (buf[i := c]) else None)"

text \<open>\<open>reverse\<close>, with \<open>e\<close> one beyond the pointer \<open>ie\<close>.\<close>

function reverse :: "string \<Rightarrow> nat \<Rightarrow> nat \<Rightarrow> string option" where
  "reverse buf is e =
     (if is + 1 < e then
        (if e \<le> length buf then reverse (buf[e - 1 := buf ! is, is := buf ! (e - 1)]) (is + 1) (e - 1) else None)
      else Some buf)"
  by pat_completeness auto
termination by (relation "measure (\<lambda>(buf, is, e). e - is)") auto

declare reverse.simps [simp del]

definition digit_table :: string where
  "digit_table = ''0123456789abcdef'' @ [CHR 0x00]"

text \<open>The \<open>do\<close> loop, with fuel; it returns the buffer and \<open>out\<close>.\<close>

primrec digit_loop :: "nat \<Rightarrow> string \<Rightarrow> nat \<Rightarrow> int \<Rightarrow> int \<Rightarrow> (string \<times> nat) option" where
  "digit_loop 0 buf out quot base = None"
| "digit_loop (Suc n) buf out quot base =
     (let tmp = quot sdiv base; d = quot - tmp * base
      in if 0 \<le> d \<and> d < int (length digit_table) then do {
           buf \<leftarrow> store buf out (digit_table ! nat d);
           if tmp \<noteq> 0 then digit_loop n buf (out + 1) tmp base else Some (buf, out + 1)
         } else None)"

definition abs32 :: "u32 \<Rightarrow> int" where
  "abs32 v = sint (if sint v < 0 then - v else v)"

definition itoa :: "u32 \<Rightarrow> string \<Rightarrow> int \<Rightarrow> string option" where
  "itoa v buf base =
     (if base < 2 \<or> base > 16 then store buf 0 (CHR 0x00)
      else do {
        (buf, out) \<leftarrow> digit_loop 33 buf 0 (abs32 v) base;
        (buf, out) \<leftarrow> (if sint v < 0 then do { buf \<leftarrow> store buf out (CHR ''-''); Some (buf, out + 1) } else Some (buf, out));
        buf \<leftarrow> reverse buf 0 out;
        store buf out (CHR 0x00)
      })"

definition ltoa :: "u32 \<Rightarrow> string \<Rightarrow> int \<Rightarrow> string option" where
  "ltoa v buf base =
     (if base < 2 \<or> base > 16 then store buf 0 (CHR 0x00)
      else do {
        (buf, out) \<leftarrow> digit_loop 33 buf 0 (abs32 v) base;
        (buf, out) \<leftarrow> (if sint v < 0 then do { buf \<leftarrow> store buf out (CHR ''-''); Some (buf, out + 1) } else Some (buf, out));
        buf \<leftarrow> reverse buf 0 out;
        store buf out (CHR 0x00)
      })"

definition utoa :: "u32 \<Rightarrow> string \<Rightarrow> int \<Rightarrow> string option" where
  "utoa v buf base =
     (if base < 2 \<or> base > 16 then store buf 0 (CHR 0x00)
      else do {
        (buf, out) \<leftarrow> digit_loop 33 buf 0 (uint v) base;
        buf \<leftarrow> reverse buf 0 out;
        store buf out (CHR 0x00)
      })"

definition ultoa :: "u32 \<Rightarrow> string \<Rightarrow> int \<Rightarrow> string option" where
  "ultoa v buf base =
     (if base < 2 \<or> base > 16 then store buf 0 (CHR 0x00)
      else do {
        (buf, out) \<leftarrow> digit_loop 33 buf 0 (uint v) base;
        buf \<leftarrow> reverse buf 0 out;
        store buf out (CHR 0x00)
      })"

text \<open>
  \<open>strtol\<close> in base ten as the C standard has it: blanks, a sign, the longest run of digits, and
  the result held within the range of \<open>long\<close>.
\<close>

definition is_space :: "char \<Rightarrow> bool" where
  "is_space c \<longleftrightarrow> c = CHR '' '' \<or> c \<in> {CHR 0x09, CHR 0x0A, CHR 0x0B, CHR 0x0C, CHR 0x0D}"

definition is_digit :: "char \<Rightarrow> bool" where
  "is_digit c \<longleftrightarrow> c \<in> set ''0123456789''"

definition digit_value :: "char \<Rightarrow> int" where
  "digit_value c = int (of_char c) - 48"

definition decimal :: "string \<Rightarrow> int" where
  "decimal s = foldl (\<lambda>n c. 10 * n + digit_value c) 0 (takeWhile is_digit s)"

definition clamp :: "int \<Rightarrow> int" where
  "clamp n = max (- (2 ^ 31)) (min (2 ^ 31 - 1) n)"

definition strtol :: "string \<Rightarrow> int" where
  "strtol s = (case dropWhile is_space s of
       [] \<Rightarrow> 0
     | c # r \<Rightarrow> if c = CHR ''-'' then clamp (- decimal r)
                else if c = CHR ''+'' then clamp (decimal r) else clamp (decimal (c # r)))"

definition atol :: "string \<Rightarrow> u32" where
  "atol s = word_of_int (strtol s)"

definition atoi :: "string \<Rightarrow> u32" where
  "atoi s = atol s"

subsection \<open>Digits\<close>

text \<open>The digits of a number in a base, the least significant one first.\<close>

function lsd :: "nat \<Rightarrow> nat \<Rightarrow> nat list" where
  "lsd b n = (n mod b) # (if b < 2 \<or> n div b = 0 then [] else lsd b (n div b))"
  by pat_completeness auto
termination by (relation "measure (\<lambda>(b, n). n)") (auto simp: div_eq_0_iff)

declare lsd.simps [simp del]

lemma lsd_ne [simp]: "lsd b n \<noteq> []"
  by (subst lsd.simps) simp

lemma lsd_more: "2 \<le> b \<Longrightarrow> b \<le> n \<Longrightarrow> lsd b n = n mod b # lsd b (n div b)"
  by (subst lsd.simps) (simp add: div_eq_0_iff)

lemma lsd_one: "n < b \<Longrightarrow> lsd b n = [n]"
  by (subst lsd.simps) simp

lemma lsd_less: "2 \<le> b \<Longrightarrow> \<forall>d \<in> set (lsd b n). d < b"
proof (induction n rule: less_induct)
  case (less n)
  show ?case
  proof (cases "n < b")
    case False
    then have "n div b < n" using less.prems by (intro div_less_dividend) auto
    then have "\<forall>d \<in> set (lsd b (n div b)). d < b" by (rule less.IH) (rule less.prems)
    moreover have "n mod b < b" using less.prems by simp
    moreover have "lsd b n = n mod b # lsd b (n div b)" using False less.prems by (intro lsd_more) simp_all
    ultimately show ?thesis by simp
  qed (simp add: lsd_one)
qed

lemma lsd_value: "2 \<le> b \<Longrightarrow> foldr (\<lambda>d n. b * n + d) (lsd b n) 0 = n"
proof (induction n rule: less_induct)
  case (less n)
  show ?case
  proof (cases "n < b")
    case False
    then have "n div b < n" using less.prems by (intro div_less_dividend) auto
    then show ?thesis using False less by (simp add: lsd_more)
  qed (simp add: lsd_one)
qed

lemma lsd_last: "2 \<le> b \<Longrightarrow> n \<noteq> 0 \<Longrightarrow> last (lsd b n) \<noteq> 0"
proof (induction n rule: less_induct)
  case (less n)
  show ?case
  proof (cases "n < b")
    case False
    then have "n div b < n" "n div b \<noteq> 0" using less.prems by (auto simp: div_eq_0_iff intro: div_less_dividend)
    then show ?thesis using False less by (simp add: lsd_more)
  qed (use less.prems in \<open>simp add: lsd_one\<close>)
qed

lemma lsd_length: "2 \<le> b \<Longrightarrow> n < b ^ k \<Longrightarrow> 0 < k \<Longrightarrow> length (lsd b n) \<le> k"
proof (induction k arbitrary: n)
  case (Suc k)
  show ?case
  proof (cases "n < b")
    case False
    then have "n div b < b ^ k" "n div b \<noteq> 0"
      using Suc.prems by (simp_all add: less_mult_imp_div_less mult.commute div_eq_0_iff)
    moreover from this have "0 < k" by (cases k) auto
    ultimately show ?thesis using Suc False by (simp add: lsd_more)
  qed (simp add: lsd_one)
qed simp

lemma lsd_length_32:
  assumes "2 \<le> b" "n < 2 ^ k" "0 < k"
  shows "length (lsd b n) \<le> k"
proof -
  have "(2 :: nat) ^ k \<le> b ^ k" using assms(1) by (rule power_mono) simp
  then have "n < b ^ k" using assms(2) by linarith
  then show ?thesis using assms by (intro lsd_length)
qed

lemma digit_loop_lsd:
  assumes "2 \<le> b" "b \<le> 16" "length (lsd b q) \<le> n" "out + length (lsd b q) \<le> length buf"
  shows "digit_loop n buf out (int q) (int b) =
    Some (take out buf @ map ((!) digit_table) (lsd b q) @ drop (out + length (lsd b q)) buf, out + length (lsd b q))"
  using assms(3,4)
proof (induction n arbitrary: q out buf)
  case 0
  then show ?case by simp
next
  case (Suc n)
  have div: "int q sdiv int b = int (q div b)"
    using assms(1) by (simp add: signed_divide_int_def zdiv_int sgn_if)
  have d: "int q - int (q div b) * int b = int (q mod b)"
    by (simp add: minus_div_mult_eq_mod [symmetric] of_nat_diff)
  have "q mod b < b" using assms(1) by simp
  then have "q mod b < 17" using assms(2) by linarith
  then have range: "q mod b < length digit_table" by (simp add: digit_table_def)
  have len: "out < length buf" using Suc.prems(2) by (cases "lsd b q") simp_all
  have step: "digit_loop (Suc n) buf out (int q) (int b) =
    (let buf = buf[out := digit_table ! (q mod b)]
     in if q div b \<noteq> 0 then digit_loop n buf (out + 1) (int (q div b)) (int b) else Some (buf, out + 1))"
    unfolding digit_loop.simps div Let_def d using range len by (simp add: store_def del: of_nat_mod of_nat_div zmod_int zdiv_int)
  have buf: "take out buf @ c # drop (Suc out) buf = buf[out := c]" for c
    using len by (simp add: upd_conv_take_nth_drop)
  show ?case
  proof (cases "q < b")
    case True
    then show ?thesis unfolding step using buf by (simp add: lsd_one)
  next
    case False
    then have "q div b \<noteq> 0" using assms(1) by (simp add: div_eq_0_iff)
    moreover have more: "lsd b q = q mod b # lsd b (q div b)" using False assms(1) by (intro lsd_more) auto
    ultimately show ?thesis
      unfolding step using Suc by (simp add: Let_def take_Suc_conv_app_nth take_update_cancel)
  qed
qed

lemma reverse_middle: "reverse (p @ m @ s) (length p) (length p + length m) = Some (p @ rev m @ s)"
proof (induction m arbitrary: p s rule: length_induct)
  case (1 m)
  show ?case
  proof (cases "length m < 2")
    case True
    then show ?thesis by (subst reverse.simps) (cases m; cases "tl m"; simp)
  next
    case False
    then obtain a m' c where m: "m = a # m' @ [c]" 
      by (metis length_0_conv length_Cons less_2_cases_iff list.exhaust rev_exhaust One_nat_def)
    let ?buf = "p @ m @ s" and ?e = "length p + length m"
    have "?buf[?e - 1 := ?buf ! length p, length p := ?buf ! (?e - 1)] = (p @ [c]) @ m' @ (a # s)"
      by (simp add: m list_update_append nth_append)
    then show ?thesis using 1 [rule_format, of m' "p @ [c]" "a # s"] by (subst reverse.simps) (simp add: m)
  qed
qed

subsection \<open>The conversions\<close>

text \<open>The numeral a conversion writes.\<close>

definition numeral_string :: "nat \<Rightarrow> int \<Rightarrow> string" where
  "numeral_string b v = (if v < 0 then ''-'' else []) @ map ((!) digit_table) (rev (lsd b (nat \<bar>v\<bar>)))"

lemma finish:
  assumes "length cs < length buf"
  shows "do { buf \<leftarrow> reverse (cs @ drop (length cs) buf) 0 (length cs); store buf (length cs) c } =
    Some (rev cs @ c # drop (Suc (length cs)) buf)"
proof -
  have "drop (length cs) buf = buf ! length cs # drop (Suc (length cs)) buf" using assms by (simp add: Cons_nth_drop_Suc)
  then show ?thesis using reverse_middle [of "[]" cs "drop (length cs) buf"] assms
    by (simp add: store_def list_update_append)
qed

lemma abs32_small: "sint v \<noteq> - (2 ^ 31) \<Longrightarrow> abs32 v = \<bar>sint v\<bar>"
  using sint_ge [of v] sint_lt [of v]
  by (auto simp: abs32_def sint_word_ariths signed_take_bit_int_eq_self)

lemma itoa_numeral:
  assumes "2 \<le> b" "b \<le> 16" "sint v \<noteq> - (2 ^ 31)" "length (numeral_string b (sint v)) < length buf"
  shows "itoa v buf (int b) =
    Some (numeral_string b (sint v) @ CHR 0x00 # drop (Suc (length (numeral_string b (sint v)))) buf)"
proof -
  let ?q = "nat \<bar>sint v\<bar>"
  let ?ds = "map ((!) digit_table) (lsd b ?q)"
  have "?q < 2 ^ 32" using sint_ge [of v] sint_lt [of v] by (simp add: nat_less_iff)
  then have "length (lsd b ?q) \<le> 33" using assms(1) lsd_length_32 [of b ?q 32] by simp
  moreover have len: "length ?ds < length buf" "sint v < 0 \<Longrightarrow> Suc (length ?ds) < length buf"
    using assms(4) by (auto simp: numeral_string_def split: if_splits)
  ultimately have loop: "digit_loop 33 buf 0 (abs32 v) (int b) = Some (?ds @ drop (length ?ds) buf, length ?ds)"
    using assms(1-3) digit_loop_lsd [of b ?q 33 0 buf] by (simp add: abs32_small)
  show ?thesis
  proof (cases "sint v < 0")
    case True
    have "store (?ds @ drop (length ?ds) buf) (length ?ds) (CHR ''-'') =
        Some ((?ds @ ''-'') @ drop (length (?ds @ ''-'')) buf)"
      using len(1) by (simp add: store_def list_update_append Cons_nth_drop_Suc [symmetric] del: Cons_nth_drop_Suc)
    then show ?thesis
      using True assms(1,2) loop finish [of "?ds @ ''-''" buf "CHR 0x00"] len(2)
      by (simp add: itoa_def numeral_string_def rev_map)
  next
    case False
    then show ?thesis
      using assms(1,2) loop finish [of ?ds buf "CHR 0x00"] len(1)
      by (simp add: itoa_def numeral_string_def rev_map)
  qed
qed

lemma utoa_numeral:
  assumes "2 \<le> b" "b \<le> 16" "length (numeral_string b (uint v)) < length buf"
  shows "utoa v buf (int b) =
    Some (numeral_string b (uint v) @ CHR 0x00 # drop (Suc (length (numeral_string b (uint v)))) buf)"
proof -
  let ?ds = "map ((!) digit_table) (lsd b (unat v))"
  have q: "nat \<bar>uint v\<bar> = unat v" by simp
  have "unat v < 2 ^ 32" using unsigned_less [of v, where 'a = nat] by simp
  then have "length (lsd b (unat v)) \<le> 33" using assms(1) lsd_length_32 [of b "unat v" 32] by simp
  moreover have len: "length ?ds < length buf" using assms(3) by (simp add: numeral_string_def)
  ultimately have "digit_loop 33 buf 0 (uint v) (int b) = Some (?ds @ drop (length ?ds) buf, length ?ds)"
    using assms(1,2) digit_loop_lsd [of b "unat v" 33 0 buf] by simp
  then show ?thesis
    using assms(1,2) finish [of ?ds buf "CHR 0x00"] len
    by (simp add: utoa_def numeral_string_def rev_map)
qed

lemma same_conversions: "ltoa = itoa" "ultoa = utoa"
  by (simp_all add: fun_eq_iff ltoa_def itoa_def ultoa_def utoa_def)

lemma numeral_string_length:
  assumes "2 \<le> b" "nat \<bar>v\<bar> < b ^ k" "0 < k"
  shows "length (numeral_string b v) \<le> (if v < 0 then Suc k else k)"
  using lsd_length [OF assms] by (auto simp: numeral_string_def abs_if split: if_splits)

text \<open>A negative number left over in the loop leads out of the digit table.\<close>

lemma digit_loop_negative: "q < 0 \<Longrightarrow> 2 \<le> b \<Longrightarrow> digit_loop n buf out q b = None"
proof (induction n arbitrary: q out buf)
  case (Suc n)
  have div: "q sdiv b = - (- q div b)" using Suc.prems by (simp add: signed_divide_int_def sgn_if)
  have d: "q - q sdiv b * b = - (- q mod b)" unfolding div by (simp add: minus_div_mult_eq_mod [symmetric])
  show ?case
  proof (cases "- q mod b = 0")
    case True
    then have "b \<le> - q" using Suc.prems by (simp add: zdvd_imp_le mod_eq_0_iff_dvd)
    then have "q sdiv b < 0" unfolding div using Suc.prems by (simp add: pos_imp_zdiv_pos_iff)
    then show ?thesis using Suc by (simp add: Let_def store_def)
  next
    case False
    moreover have "0 \<le> - q mod b" using Suc.prems by simp
    ultimately have "- (- q mod b) < 0" by linarith
    then show ?thesis unfolding digit_loop.simps Let_def d by simp
  qed
qed simp

subsection \<open>Reading a numeral back\<close>

lemma digit_chars:
  assumes "d < 10"
  shows "is_digit (digit_table ! d)" "digit_value (digit_table ! d) = int d" "\<not> is_space (digit_table ! d)"
    "digit_table ! d \<noteq> CHR ''-''" "digit_table ! d \<noteq> CHR ''+''"
proof -
  have "d = 0 \<or> d = 1 \<or> d = 2 \<or> d = 3 \<or> d = 4 \<or> d = 5 \<or> d = 6 \<or> d = 7 \<or> d = 8 \<or> d = 9" using assms by arith
  then show "is_digit (digit_table ! d)" "digit_value (digit_table ! d) = int d" "\<not> is_space (digit_table ! d)"
    "digit_table ! d \<noteq> CHR ''-''" "digit_table ! d \<noteq> CHR ''+''"
    by (auto simp: digit_table_def is_digit_def digit_value_def is_space_def)
qed

lemma decimal_digits:
  assumes "\<forall>d \<in> set ds. d < 10"
  shows "decimal (map ((!) digit_table) ds @ CHR 0x00 # r) = int (foldl (\<lambda>n d. 10 * n + d) 0 ds)"
proof -
  have "takeWhile is_digit (map ((!) digit_table) ds @ CHR 0x00 # r) = map ((!) digit_table) ds"
  proof (subst takeWhile_append2)
    show "is_digit c" if "c \<in> set (map ((!) digit_table) ds)" for c using that assms by (auto simp: digit_chars)
  qed (simp add: is_digit_def)
  moreover have "foldl (\<lambda>n c. 10 * n + digit_value c) (int k) (map ((!) digit_table) ds) = int (foldl (\<lambda>n d. 10 * n + d) k ds)"
    for k :: nat
    using assms
  proof (induction ds arbitrary: k)
    case (Cons d ds)
    then have "digit_value (digit_table ! d) = int d" by (simp add: digit_chars)
    then show ?case using Cons.IH [of "10 * k + d"] Cons.prems by simp
  qed simp
  from this [of 0] show ?thesis by (simp add: decimal_def calculation)
qed

lemma digits_value: "2 \<le> b \<Longrightarrow> foldl (\<lambda>n d. b * n + d) 0 (rev (lsd b n)) = n"
  by (simp add: foldl_conv_foldr lsd_value)

lemma strtol_numeral:
  assumes "- (2 ^ 31) \<le> v" "v < 2 ^ 31"
  shows "strtol (numeral_string 10 v @ CHR 0x00 # r) = v"
proof -
  let ?ds = "rev (lsd 10 (nat \<bar>v\<bar>))"
  have ds: "\<forall>d \<in> set ?ds. d < 10" using lsd_less [of 10] by simp
  have dec: "decimal (map ((!) digit_table) ?ds @ CHR 0x00 # r) = \<bar>v\<bar>"
    using decimal_digits [OF ds, of r] digits_value [of 10 "nat \<bar>v\<bar>"] by simp
  obtain d ds' where cons: "?ds = d # ds'" by (cases ?ds) auto
  then have "d < 10" using ds by simp
  show ?thesis
  proof (cases "v < 0")
    case True
    then show ?thesis using dec assms by (simp add: numeral_string_def strtol_def is_space_def clamp_def)
  next
    case False
    then have "numeral_string 10 v = map ((!) digit_table) ?ds" by (simp only: numeral_string_def) simp
    then show ?thesis using dec assms False digit_chars [OF \<open>d < 10\<close>]
      unfolding cons by (simp add: strtol_def clamp_def)
  qed
qed

text \<open>What a numeral is, independently of how it is computed.\<close>

definition is_numeral :: "nat \<Rightarrow> int \<Rightarrow> string \<Rightarrow> bool" where
  "is_numeral b v s \<longleftrightarrow> (\<exists>ds. s = (if v < 0 then ''-'' else []) @ map ((!) ''0123456789abcdef'') ds \<and>
     (\<forall>d \<in> set ds. d < b) \<and> int (foldl (\<lambda>n d. b * n + d) 0 ds) = \<bar>v\<bar> \<and> (ds = [0] \<or> ds \<noteq> [] \<and> hd ds \<noteq> 0))"

lemma digit_table_nth: "d < 16 \<Longrightarrow> digit_table ! d = ''0123456789abcdef'' ! d"
  unfolding digit_table_def by (simp only: nth_append) simp

lemma numeral_string_is_numeral:
  assumes "2 \<le> b" "b \<le> 16"
  shows "is_numeral b v (numeral_string b v)"
proof -
  let ?ds = "rev (lsd b (nat \<bar>v\<bar>))"
  have small: "\<forall>d \<in> set ?ds. d < b" using lsd_less [OF assms(1)] by simp
  then have "map ((!) digit_table) ?ds = map ((!) ''0123456789abcdef'') ?ds"
    using assms(2) by (intro map_cong refl digit_table_nth) fastforce
  moreover have "?ds = [0] \<or> ?ds \<noteq> [] \<and> hd ?ds \<noteq> 0"
    using assms(1) lsd_last [of b "nat \<bar>v\<bar>"] by (cases "v = 0") (auto simp: hd_rev lsd_one)
  ultimately show ?thesis
    unfolding is_numeral_def numeral_string_def
    using small digits_value [OF assms(1), of "nat \<bar>v\<bar>"] by (intro exI [of _ ?ds]) simp
qed

subsection \<open>Properties\<close>

text \<open>
  Into a buffer of 33 characters, \<open>itoa\<close> and \<open>ltoa\<close> (for every value but the least) and
  \<open>utoa\<close> and \<open>ultoa\<close> (for every value) write, in every base from 2 to 16, the sign, the digits of
  the number without leading zeros, the most significant first, and the terminator, and leave the
  rest of the buffer as it was.
\<close>

theorem conversions_write_numerals:
  assumes "2 \<le> b" "b \<le> 16" "33 \<le> length buf"
  shows "\<exists>s t. is_numeral b (sint v) s \<and> is_numeral b (uint v) t \<and>
    (sint v \<noteq> - (2 ^ 31) \<longrightarrow>
       itoa v buf (int b) = Some (s @ CHR 0x00 # drop (Suc (length s)) buf) \<and>
       ltoa v buf (int b) = Some (s @ CHR 0x00 # drop (Suc (length s)) buf)) \<and>
    utoa v buf (int b) = Some (t @ CHR 0x00 # drop (Suc (length t)) buf) \<and>
    ultoa v buf (int b) = Some (t @ CHR 0x00 # drop (Suc (length t)) buf)"
proof -
  let ?s = "numeral_string b (sint v)" and ?t = "numeral_string b (uint v)"
  have s: "length ?s < length buf" if "sint v \<noteq> - (2 ^ 31)"
  proof -
    have "nat \<bar>sint v\<bar> < 2 ^ 31" using that sint_ge [of v] sint_lt [of v] by (simp add: nat_less_iff abs_if)
    with assms(1) have "length (lsd b (nat \<bar>sint v\<bar>)) \<le> 31" by (rule lsd_length_32) simp
    then show ?thesis using assms(3) by (auto simp: numeral_string_def abs_if split: if_splits)
  qed
  have "length (lsd b (unat v)) \<le> 32" using assms(1) unsigned_less [of v, where 'a = nat] by (intro lsd_length_32) simp_all
  then have t: "length ?t < length buf" using assms(3) by (simp add: numeral_string_def)
  show ?thesis
    by (rule exI [of _ ?s], rule exI [of _ ?t])
      (use assms itoa_numeral [OF assms(1,2) _ s] utoa_numeral [OF assms(1,2) t] in
        \<open>simp add: numeral_string_is_numeral same_conversions\<close>)
qed

theorem conversions_write_numerals_witness:
  "\<exists>s t. is_numeral 10 (- 42) s \<and> is_numeral 10 4294967254 t \<and>
    itoa (- 42) (replicate 33 CHR ''x'') 10 = Some (s @ CHR 0x00 # drop (Suc (length s)) (replicate 33 CHR ''x'')) \<and>
    utoa (- 42) (replicate 33 CHR ''x'') 10 = Some (t @ CHR 0x00 # drop (Suc (length t)) (replicate 33 CHR ''x''))"
proof -
  have "sint (- 42 :: u32) = - 42" "uint (- 42 :: u32) = 4294967254" by simp_all
  then show ?thesis
    using conversions_write_numerals [of 10 "replicate 33 CHR ''x''" "- 42"] by (simp del: drop_replicate) blast
qed

text \<open>
  C25: Reading back what a decimal conversion wrote gives the number: a buffer of 12 characters is
  enough, \<open>itoa\<close> and \<open>ltoa\<close> succeed, and \<open>atoi\<close> and \<open>atol\<close> return the value. The least integer, whose
  negation \<open>itoa\<close> computes in vain, is excepted.
\<close>

theorem itoa_atoi_roundtrip:
  assumes "sint v \<noteq> - (2 ^ 31)" "12 \<le> length buf"
  shows "\<exists>buf'. itoa v buf 10 = Some buf' \<and> ltoa v buf 10 = Some buf' \<and> length buf' = length buf \<and> atoi buf' = v \<and> atol buf' = v"
proof -
  let ?s = "numeral_string 10 (sint v)"
  have range: "- (2 ^ 31) \<le> sint v" "sint v < 2 ^ 31" using sint_ge [of v] sint_lt [of v] by simp_all
  then have "nat \<bar>sint v\<bar> < 10 ^ 10" by (simp add: nat_less_iff abs_if)
  from numeral_string_length [OF _ this] have "length ?s < length buf" using assms(2) by (simp split: if_splits)
  then show ?thesis
    using itoa_numeral [of 10 v buf] assms strtol_numeral [OF range] by (auto simp: same_conversions atoi_def atol_def)
qed

theorem itoa_atoi_roundtrip_witness:
  "\<exists>buf'. itoa (- 42) (replicate 12 CHR ''x'') 10 = Some buf' \<and> atoi buf' = - 42"
  using itoa_atoi_roundtrip [of "- 42" "replicate 12 CHR ''x''"] by auto

text \<open>
  With a base outside of 2 to 16 every conversion writes the empty string. \<open>itoa\<close> and \<open>ltoa\<close> of
  the least number are undefined in every base: its absolute value does not exist in 32 bits, the
  remainders are negative, and the digit table is read before its start.
\<close>

theorem conversion_errors:
  "(base < 2 \<or> 16 < base \<longrightarrow>
      itoa v (c # buf) base = Some (CHR 0x00 # buf) \<and> ltoa v (c # buf) base = Some (CHR 0x00 # buf) \<and>
      utoa v (c # buf) base = Some (CHR 0x00 # buf) \<and> ultoa v (c # buf) base = Some (CHR 0x00 # buf)) \<and>
   (2 \<le> base \<and> base \<le> 16 \<and> sint v = - (2 ^ 31) \<longrightarrow> itoa v (c # buf) base = None \<and> ltoa v (c # buf) base = None)"
proof -
  have "abs32 v < 0" if "sint v = - (2 ^ 31)"
    using that by (simp add: abs32_def sint_word_ariths)
  then show ?thesis
    by (auto simp: itoa_def ltoa_def utoa_def ultoa_def store_def digit_loop_negative)
qed

theorem conversion_errors_witness:
  "itoa 5 ''abc'' 1 = Some (CHR 0x00 # ''bc'') \<and> itoa 0x80000000 ''abc'' 10 = None"
  using conversion_errors [of 1 5 "CHR ''a''" "''bc''"] conversion_errors [of 10 "0x80000000" "CHR ''a''" "''bc''"] by simp

end
