(* ===== verification/Wstring.thy ===== *)
theory Wstring
  imports Noniso "HOL-Library.Sublist"
begin

section \<open>Strings\<close>

text \<open>
  \<open>WString.cpp\<close>: the class \<open>String\<close>, a character buffer on the heap with its capacity and length. A buffer
  is the list of the bytes of its block, \<open>None\<close> the null pointer. \<open>mem n\<close> tells whether \<open>malloc(n)\<close>
  succeeds. A C string argument is the list of its characters without the terminating zero; a
  \<open>String\<close> argument is another object than the one it is passed to. An access outside of a block,
  through a null pointer, or to a C string without a terminating zero in its block is undefined
  (\<open>None\<close> as a result). Sizes are 32 bits wide and wrap. Copies towards the start of a buffer whose source
  and destination overlap go forward, as those of the C library of the chip do; the C standard leaves
  them undefined. Floating-point arguments are left out.
\<close>

record ws =
  ws_buffer :: "byte list option"
  ws_capacity :: nat
  ws_len :: nat

subsection \<open>Characters and C strings\<close>

definition cstring :: "byte list \<Rightarrow> nat \<Rightarrow> byte list option" where
  "cstring b i = (if i \<le> length b \<and> 0 \<in> set (drop i b) then Some (takeWhile (\<lambda>c. c \<noteq> 0) (drop i b)) else None)"

definition block_write :: "nat \<Rightarrow> byte list \<Rightarrow> byte list \<Rightarrow> byte list option" where
  "block_write i xs b = (if i + length xs \<le> length b then Some (take i b @ xs @ drop (i + length xs) b) else None)"

definition block_read :: "nat \<Rightarrow> nat \<Rightarrow> byte list \<Rightarrow> byte list option" where
  "block_read i n b = (if i + n \<le> length b then Some (take n (drop i b)) else None)"

fun strcmp :: "byte list \<Rightarrow> byte list \<Rightarrow> int" where
  "strcmp [] [] = 0"
| "strcmp [] (b # bs) = - uint b"
| "strcmp (a # as) [] = uint a"
| "strcmp (a # as) (b # bs) = (if a = b then strcmp as bs else uint a - uint b)"

primrec strstr :: "byte list \<Rightarrow> byte list \<Rightarrow> nat option" where
  "strstr p [] = (if p = [] then Some 0 else None)"
| "strstr p (x # xs) = (if take (length p) (x # xs) = p then Some 0 else map_option Suc (strstr p xs))"

primrec strchr :: "byte \<Rightarrow> byte list \<Rightarrow> nat option" where
  "strchr c [] = (if c = 0 then Some 0 else None)"
| "strchr c (x # xs) = (if x = c then Some 0 else map_option Suc (strchr c xs))"

primrec strrchr :: "byte \<Rightarrow> byte list \<Rightarrow> nat option" where
  "strrchr c [] = (if c = 0 then Some 0 else None)"
| "strrchr c (x # xs) = (case strrchr c xs of Some i \<Rightarrow> Some (Suc i) | None \<Rightarrow> if x = c then Some 0 else None)"

definition tolower :: "byte \<Rightarrow> byte" where
  "tolower c = (if 65 \<le> c \<and> c \<le> 90 then c + 32 else c)"

definition toupper :: "byte \<Rightarrow> byte" where
  "toupper c = (if 97 \<le> c \<and> c \<le> 122 then c - 32 else c)"

definition isspace :: "byte \<Rightarrow> bool" where
  "isspace c \<longleftrightarrow> c = 32 \<or> 9 \<le> c \<and> c \<le> 13"

subsection \<open>Memory management\<close>

definition ws_init :: ws where
  "ws_init = \<lparr>ws_buffer = None, ws_capacity = 0, ws_len = 0\<rparr>"

definition invalidate :: "ws \<Rightarrow> ws" where
  "invalidate s = ws_init"

definition old_block :: "ws \<Rightarrow> byte list" where
  "old_block s = (case ws_buffer s of None \<Rightarrow> [] | Some b \<Rightarrow> b)"

definition new_size :: "nat \<Rightarrow> nat" where
  "new_size maxStrLen = 16 * (add32 maxStrLen 16 div 16)"

definition changeBuffer :: "(nat \<Rightarrow> bool) \<Rightarrow> nat \<Rightarrow> ws \<Rightarrow> (bool \<times> ws) option" where
  "changeBuffer mem maxStrLen s =
     (let newSize = new_size maxStrLen
      in if mem newSize then do {
           old \<leftarrow> block_read 0 (ws_len s) (old_block s);
           b \<leftarrow> block_write 0 old (replicate newSize 0);
           Some (True, s\<lparr>ws_buffer := Some b, ws_capacity := sub32 newSize 1\<rparr>)
         } else Some (False, s\<lparr>ws_buffer := None\<rparr>))"

definition on_buffer :: "(byte list \<Rightarrow> byte list option) \<Rightarrow> ws \<Rightarrow> ws option" where
  "on_buffer f s = do { b \<leftarrow> ws_buffer s; b \<leftarrow> f b; Some (s\<lparr>ws_buffer := Some b\<rparr>) }"

definition reserve :: "(nat \<Rightarrow> bool) \<Rightarrow> nat \<Rightarrow> ws \<Rightarrow> (bool \<times> ws) option" where
  "reserve mem sz s =
     (if ws_buffer s \<noteq> None \<and> ws_capacity s \<ge> sz then Some (True, s)
      else do {
        (ok, s) \<leftarrow> changeBuffer mem sz s;
        if ok then do {
          s \<leftarrow> (if ws_len s = 0 then on_buffer (block_write 0 [0]) s else Some s);
          Some (True, s)
        } else Some (False, s)
      })"

subsection \<open>Copy and move\<close>

definition ws_copy :: "(nat \<Rightarrow> bool) \<Rightarrow> byte list \<Rightarrow> nat \<Rightarrow> ws \<Rightarrow> ws option" where
  "ws_copy mem cstr len s = do {
     (ok, s) \<leftarrow> reserve mem len s;
     if ok then on_buffer (block_write 0 (cstr @ [0])) (s\<lparr>ws_len := len\<rparr>) else Some (invalidate s)
   }"

definition ws_of_cstr :: "(nat \<Rightarrow> bool) \<Rightarrow> byte list option \<Rightarrow> ws option" where
  "ws_of_cstr mem cstr = (case cstr of None \<Rightarrow> Some ws_init | Some cs \<Rightarrow> ws_copy mem cs (length cs) ws_init)"

definition ws_assign_cstr :: "(nat \<Rightarrow> bool) \<Rightarrow> byte list option \<Rightarrow> ws \<Rightarrow> ws option" where
  "ws_assign_cstr mem cstr s = (case cstr of None \<Rightarrow> Some (invalidate s) | Some cs \<Rightarrow> ws_copy mem cs (length cs) s)"

definition ws_assign :: "(nat \<Rightarrow> bool) \<Rightarrow> ws \<Rightarrow> ws \<Rightarrow> ws option" where
  "ws_assign mem rhs s =
     (case ws_buffer rhs of None \<Rightarrow> Some (invalidate s)
      | Some b \<Rightarrow> do { cs \<leftarrow> cstring b 0; ws_copy mem cs (ws_len rhs) s })"

definition ws_move :: "ws \<Rightarrow> ws \<Rightarrow> (ws \<times> ws) option" where
  "ws_move s rhs =
     (if ws_buffer s \<noteq> None \<and> ws_capacity s \<ge> ws_len rhs then do {
        b \<leftarrow> ws_buffer rhs;
        cs \<leftarrow> cstring b 0;
        s \<leftarrow> on_buffer (block_write 0 (cs @ [0])) s;
        Some (s\<lparr>ws_len := ws_len rhs\<rparr>, rhs\<lparr>ws_len := 0\<rparr>)
      } else Some (\<lparr>ws_buffer = ws_buffer rhs, ws_capacity = ws_capacity rhs, ws_len = ws_len rhs\<rparr>, ws_init))"

subsection \<open>Concatenation\<close>

definition ws_concat_cstr :: "(nat \<Rightarrow> bool) \<Rightarrow> byte list option \<Rightarrow> nat \<Rightarrow> ws \<Rightarrow> (bool \<times> ws) option" where
  "ws_concat_cstr mem cstr len s =
     (let newlen = add32 (ws_len s) len
      in case cstr of None \<Rightarrow> Some (False, s)
         | Some cs \<Rightarrow>
             if len = 0 then Some (True, s)
             else do {
               (ok, s) \<leftarrow> reserve mem newlen s;
               if ok then do {
                 s \<leftarrow> on_buffer (block_write (ws_len s) (cs @ [0])) s;
                 Some (True, s\<lparr>ws_len := newlen\<rparr>)
               } else Some (False, s)
             })"

definition ws_concat :: "(nat \<Rightarrow> bool) \<Rightarrow> ws \<Rightarrow> ws \<Rightarrow> (bool \<times> ws) option" where
  "ws_concat mem rhs s =
     (case ws_buffer rhs of None \<Rightarrow> ws_concat_cstr mem None (ws_len rhs) s
      | Some b \<Rightarrow> do { cs \<leftarrow> cstring b 0; ws_concat_cstr mem (Some cs) (ws_len rhs) s })"

definition ws_concat_char :: "(nat \<Rightarrow> bool) \<Rightarrow> byte \<Rightarrow> ws \<Rightarrow> (bool \<times> ws) option" where
  "ws_concat_char mem c s = ws_concat_cstr mem (Some (if c = 0 then [] else [c])) 1 s"

definition ws_plus :: "(nat \<Rightarrow> bool) \<Rightarrow> ws \<Rightarrow> ws \<Rightarrow> ws option" where
  "ws_plus mem rhs s = do { (ok, s) \<leftarrow> ws_concat mem rhs s; Some (if ok then s else invalidate s) }"

text \<open>
  A string appended to itself: the characters come from the buffer that \<open>reserve\<close> may have freed,
  and otherwise source and destination of the copy overlap.
\<close>

definition ws_concat_self :: "(nat \<Rightarrow> bool) \<Rightarrow> ws \<Rightarrow> (bool \<times> ws) option" where
  "ws_concat_self mem s =
     (if ws_buffer s = None then Some (False, s)
      else if ws_len s = 0 then Some (True, s)
      else do {
        (ok, s) \<leftarrow> reserve mem (add32 (ws_len s) (ws_len s)) s;
        if ok then None else Some (False, s)
      })"

subsection \<open>Comparison\<close>

definition compareTo :: "ws \<Rightarrow> ws \<Rightarrow> int option" where
  "compareTo s t =
     (case (ws_buffer s, ws_buffer t) of
        (Some a, Some b) \<Rightarrow> do { a \<leftarrow> cstring a 0; b \<leftarrow> cstring b 0; Some (strcmp a b) }
      | (_, Some b) \<Rightarrow> if ws_len t > 0 then map_option (\<lambda>c. - uint c) (get_at b 0) else Some 0
      | (Some a, None) \<Rightarrow> if ws_len s > 0 then map_option uint (get_at a 0) else Some 0
      | (None, None) \<Rightarrow> Some 0)"

definition ws_equals :: "ws \<Rightarrow> ws \<Rightarrow> bool option" where
  "ws_equals s t = (if ws_len s = ws_len t then map_option (\<lambda>r. r = 0) (compareTo s t) else Some False)"

definition equals_cstr :: "byte list option \<Rightarrow> ws \<Rightarrow> bool option" where
  "equals_cstr cstr s =
     (if ws_len s = 0 then Some (cstr = None \<or> cstr = Some [])
      else do {
        b \<leftarrow> ws_buffer s;
        case cstr of None \<Rightarrow> map_option (\<lambda>c. c = 0) (get_at b 0)
        | Some cs \<Rightarrow> do { a \<leftarrow> cstring b 0; Some (strcmp a cs = 0) }
      })"

fun same_ignoring_case :: "byte list \<Rightarrow> byte list \<Rightarrow> bool" where
  "same_ignoring_case [] bs = True"
| "same_ignoring_case (a # as) [] = False"
| "same_ignoring_case (a # as) (b # bs) = (tolower a = tolower b \<and> same_ignoring_case as bs)"

definition equalsIgnoreCase :: "ws \<Rightarrow> ws \<Rightarrow> bool option" where
  "equalsIgnoreCase s t =
     (if ws_len s \<noteq> ws_len t then Some False
      else if ws_len s = 0 then Some True
      else do { a \<leftarrow> ws_buffer s; b \<leftarrow> ws_buffer t; a \<leftarrow> cstring a 0; b \<leftarrow> cstring b 0; Some (same_ignoring_case a b) })"

definition startsWith_at :: "ws \<Rightarrow> nat \<Rightarrow> ws \<Rightarrow> bool option" where
  "startsWith_at t offset s =
     (case (ws_buffer s, ws_buffer t) of
        (Some a, Some b) \<Rightarrow>
          if offset > sub32 (ws_len s) (ws_len t) then Some False
          else do {
            a \<leftarrow> cstring a offset;
            b \<leftarrow> cstring b 0;
            Some (strcmp (take (ws_len t) a) (take (ws_len t) b) = 0)
          }
      | _ \<Rightarrow> Some False)"

definition startsWith :: "ws \<Rightarrow> ws \<Rightarrow> bool option" where
  "startsWith t s = (if ws_len s < ws_len t then Some False else startsWith_at t 0 s)"

definition endsWith :: "ws \<Rightarrow> ws \<Rightarrow> bool option" where
  "endsWith t s =
     (case (ws_buffer s, ws_buffer t) of
        (Some a, Some b) \<Rightarrow>
          if ws_len s < ws_len t then Some False
          else do { a \<leftarrow> cstring a (ws_len s - ws_len t); b \<leftarrow> cstring b 0; Some (strcmp a b = 0) }
      | _ \<Rightarrow> Some False)"

subsection \<open>Character access\<close>

definition charAt :: "nat \<Rightarrow> ws \<Rightarrow> byte option" where
  "charAt i s = (case ws_buffer s of None \<Rightarrow> Some 0 | Some b \<Rightarrow> if i \<ge> ws_len s then Some 0 else get_at b i)"

definition setCharAt :: "nat \<Rightarrow> byte \<Rightarrow> ws \<Rightarrow> ws option" where
  "setCharAt loc c s = (if loc < ws_len s then on_buffer (\<lambda>b. put_at b loc c) s else Some s)"

text \<open>What \<open>getBytes\<close> stores into a buffer of \<open>bufsize\<close> bytes, with \<open>strncpy\<close> padding with zeros.\<close>

definition getBytes :: "nat \<Rightarrow> nat \<Rightarrow> ws \<Rightarrow> byte list option" where
  "getBytes bufsize index s =
     (if bufsize = 0 then Some []
      else if index \<ge> ws_len s then Some [0]
      else do {
        let n = (if bufsize - 1 > ws_len s - index then ws_len s - index else bufsize - 1);
        b \<leftarrow> ws_buffer s;
        cs \<leftarrow> cstring b index;
        Some (take n cs @ replicate (n - length cs) 0 @ [0])
      })"

subsection \<open>Search\<close>

definition position :: "nat option \<Rightarrow> nat \<Rightarrow> int" where
  "position p start = (case p of None \<Rightarrow> -1 | Some i \<Rightarrow> int (start + i))"

definition indexOf_char :: "byte \<Rightarrow> nat \<Rightarrow> ws \<Rightarrow> int option" where
  "indexOf_char ch fromIndex s =
     (if fromIndex \<ge> ws_len s then Some (-1)
      else do { b \<leftarrow> ws_buffer s; cs \<leftarrow> cstring b fromIndex; Some (position (strchr ch cs) fromIndex) })"

definition indexOf :: "ws \<Rightarrow> nat \<Rightarrow> ws \<Rightarrow> int option" where
  "indexOf t fromIndex s =
     (if fromIndex \<ge> ws_len s then Some (-1)
      else do {
        b \<leftarrow> ws_buffer s; cs \<leftarrow> cstring b fromIndex; p \<leftarrow> ws_buffer t; p \<leftarrow> cstring p 0;
        Some (position (strstr p cs) fromIndex)
      })"

definition lastIndexOf_char :: "byte \<Rightarrow> nat \<Rightarrow> ws \<Rightarrow> int option" where
  "lastIndexOf_char ch fromIndex s =
     (if fromIndex \<ge> ws_len s then Some (-1)
      else do {
        b \<leftarrow> ws_buffer s;
        b \<leftarrow> put_at b (fromIndex + 1) 0;
        cs \<leftarrow> cstring b 0;
        Some (position (strrchr ch cs) 0)
      })"

text \<open>The loop of \<open>lastIndexOf\<close>, from the place \<open>i\<close> on; each pass moves on.\<close>

function last_loop :: "byte list \<Rightarrow> byte list \<Rightarrow> nat \<Rightarrow> int \<Rightarrow> nat \<Rightarrow> int option" where
  "last_loop b p fromIndex found i =
     (if i \<le> fromIndex then do {
        cs \<leftarrow> cstring b i;
        case strstr p cs of None \<Rightarrow> Some found
        | Some k \<Rightarrow> last_loop b p fromIndex (if i + k \<le> fromIndex then int (i + k) else found) (i + k + 1)
      } else Some found)"
  by pat_completeness auto
termination
  by (relation "measure (\<lambda>(b, p, fromIndex, found, i). Suc fromIndex - i)") auto

definition lastIndexOf :: "ws \<Rightarrow> nat \<Rightarrow> ws \<Rightarrow> int option" where
  "lastIndexOf t fromIndex s =
     (if ws_len t = 0 \<or> ws_len s = 0 \<or> ws_len t > ws_len s then Some (-1)
      else do {
        let fromIndex = (if fromIndex \<ge> ws_len s then ws_len s - 1 else fromIndex);
        b \<leftarrow> ws_buffer s; p \<leftarrow> ws_buffer t; p \<leftarrow> cstring p 0;
        last_loop b p fromIndex (-1) 0
      })"

definition substring :: "(nat \<Rightarrow> bool) \<Rightarrow> nat \<Rightarrow> nat \<Rightarrow> ws \<Rightarrow> ws option" where
  "substring mem left right s =
     (let (left, right) = (if left > right then (right, left) else (left, right))
      in do {
        out \<leftarrow> ws_of_cstr mem (Some []);
        if left \<ge> ws_len s then Some out
        else do {
          let right = (if right > ws_len s then ws_len s else right);
          b \<leftarrow> ws_buffer s;
          b \<leftarrow> put_at b right 0;
          cs \<leftarrow> cstring b left;
          ws_assign_cstr mem (Some cs) out
        }
      })"

subsection \<open>Modification\<close>

primrec map_cstr :: "(byte \<Rightarrow> byte) \<Rightarrow> byte list \<Rightarrow> byte list option" where
  "map_cstr f [] = None"
| "map_cstr f (x # xs) = (if x = 0 then Some (x # xs) else map_option (Cons (f x)) (map_cstr f xs))"

definition on_chars :: "(byte \<Rightarrow> byte) \<Rightarrow> ws \<Rightarrow> ws option" where
  "on_chars f s = (case ws_buffer s of None \<Rightarrow> Some s | Some b \<Rightarrow> on_buffer (map_cstr f) s)"

definition replace_char :: "byte \<Rightarrow> byte \<Rightarrow> ws \<Rightarrow> ws option" where
  "replace_char c r s = on_chars (\<lambda>x. if x = c then r else x) s"

definition toLowerCase :: "ws \<Rightarrow> ws option" where
  "toLowerCase s = on_chars tolower s"

definition toUpperCase :: "ws \<Rightarrow> ws option" where
  "toUpperCase s = on_chars toupper s"

definition ws_remove :: "nat \<Rightarrow> nat \<Rightarrow> ws \<Rightarrow> ws option" where
  "ws_remove index count s =
     (if index \<ge> ws_len s \<or> count = 0 then Some s
      else do {
        let count = (if count > ws_len s - index then ws_len s - index else count);
        let len = ws_len s - count;
        b \<leftarrow> ws_buffer s;
        cs \<leftarrow> cstring b (index + count);
        let n = len - index;
        b \<leftarrow> block_write index (take n cs @ replicate (n - length cs) 0) b;
        b \<leftarrow> put_at b len 0;
        Some (s\<lparr>ws_buffer := Some b, ws_len := len\<rparr>)
      })"

text \<open>The two loops of \<open>trim\<close>: the first character that is no space, the place behind the last one.\<close>

primrec skip_space :: "byte list \<Rightarrow> nat option" where
  "skip_space [] = None"
| "skip_space (x # xs) = (if isspace x then map_option Suc (skip_space xs) else Some 0)"

primrec trim_end :: "byte list \<Rightarrow> nat \<Rightarrow> nat \<Rightarrow> nat option" where
  "trim_end b start 0 = None"
| "trim_end b start (Suc n) = do {
     c \<leftarrow> get_at b n;
     if isspace c \<and> n \<ge> start then (if n = 0 then None else trim_end b start n) else Some (Suc n)
   }"

definition trim :: "ws \<Rightarrow> ws option" where
  "trim s =
     (if ws_buffer s = None \<or> ws_len s = 0 then Some s
      else do {
        b \<leftarrow> ws_buffer s;
        start \<leftarrow> skip_space b;
        stop_at \<leftarrow> trim_end b start (ws_len s);
        let len = stop_at - start;
        xs \<leftarrow> block_read start len b;
        b \<leftarrow> (if start > 0 then block_write 0 xs b else Some b);
        b \<leftarrow> put_at b len 0;
        Some (s\<lparr>ws_buffer := Some b, ws_len := len\<rparr>)
      })"

definition toInt :: "ws \<Rightarrow> u32 option" where
  "toInt s = (case ws_buffer s of None \<Rightarrow> Some 0 | Some b \<Rightarrow> map_option (\<lambda>cs. atol (map (\<lambda>c. char_of (unat c)) cs)) (cstring b 0))"

subsection \<open>The value of a string\<close>

definition str_ok :: "ws \<Rightarrow> bool" where
  "str_ok s \<longleftrightarrow> ws_capacity s < 2 ^ 32 \<and>
     (case ws_buffer s of None \<Rightarrow> ws_len s = 0
      | Some b \<Rightarrow> length b = ws_capacity s + 1 \<and> ws_len s \<le> ws_capacity s \<and> b ! ws_len s = 0 \<and> 0 \<notin> set (take (ws_len s) b))"

definition str :: "ws \<Rightarrow> byte list" where
  "str s = (case ws_buffer s of None \<Rightarrow> [] | Some b \<Rightarrow> take (ws_len s) b)"

lemma str_len: "str_ok s \<Longrightarrow> length (str s) = ws_len s"
  by (auto simp: str_ok_def str_def split: option.splits)

lemma str_nonzero: "str_ok s \<Longrightarrow> 0 \<notin> set (str s)"
  by (auto simp: str_ok_def str_def split: option.splits)

lemma takeWhile_zero: "0 \<notin> set xs \<Longrightarrow> takeWhile (\<lambda>c. c \<noteq> 0) (xs @ 0 # ys) = (xs :: byte list)"
  by (induction xs) auto

lemma block_split:
  assumes "str_ok s" "ws_buffer s = Some b"
  shows "b = str s @ 0 # drop (Suc (ws_len s)) b"
  using assms id_take_nth_drop [of "ws_len s" b] by (simp add: str_ok_def str_def)

lemma cstring_at:
  assumes "str_ok s" "ws_buffer s = Some b" "i \<le> ws_len s"
  shows "cstring b i = Some (drop i (str s))"
proof -
  have "drop i b = drop i (str s) @ 0 # drop (Suc (ws_len s)) b"
    using assms str_len [OF assms(1)] by (subst block_split [OF assms(1,2)]) simp
  moreover have "0 \<notin> set (drop i (str s))" using str_nonzero [OF assms(1)] by (meson in_set_dropD)
  ultimately show ?thesis using assms by (simp add: cstring_def takeWhile_zero str_ok_def)
qed

lemma str_okI:
  "length b = cap + 1 \<Longrightarrow> cap < 2 ^ 32 \<Longrightarrow> length xs \<le> cap \<Longrightarrow> 0 \<notin> set xs \<Longrightarrow> take (Suc (length xs)) b = xs @ [0] \<Longrightarrow>
   str_ok \<lparr>ws_buffer = Some b, ws_capacity = cap, ws_len = length xs\<rparr> \<and> str \<lparr>ws_buffer = Some b, ws_capacity = cap, ws_len = length xs\<rparr> = xs"
proof -
  assume a: "length b = cap + 1" "cap < 2 ^ 32" "length xs \<le> cap" "0 \<notin> set xs" "take (Suc (length xs)) b = xs @ [0]"
  then have "take (length xs) b @ [b ! length xs] = xs @ [0]" by (simp add: take_Suc_conv_app_nth)
  then show ?thesis using a by (simp add: str_ok_def str_def)
qed

lemma str_ok_update:
  "length b = ws_capacity s + 1 \<Longrightarrow> ws_capacity s < 2 ^ 32 \<Longrightarrow> length xs \<le> ws_capacity s \<Longrightarrow> 0 \<notin> set xs \<Longrightarrow>
   take (Suc (length xs)) b = xs @ [0] \<Longrightarrow>
   str_ok (s\<lparr>ws_buffer := Some b, ws_len := length xs\<rparr>) \<and> str (s\<lparr>ws_buffer := Some b, ws_len := length xs\<rparr>) = xs"
  using str_okI [of b "ws_capacity s" xs] by (cases s) simp

lemma new_size: "n < 2 ^ 32 - 16 \<Longrightarrow> n < new_size n" "n < 2 ^ 32 - 16 \<Longrightarrow> new_size n < 2 ^ 32"
  unfolding new_size_def add32_def by simp_all

lemma reserve_ok:
  assumes "str_ok s" "\<forall>n. mem n" "n < 2 ^ 32 - 16"
  shows "\<exists>t b. reserve mem n s = Some (True, t) \<and> str_ok t \<and> str t = str s \<and> ws_len t = ws_len s \<and> ws_buffer t = Some b \<and> n \<le> ws_capacity t"
proof (cases "ws_buffer s \<noteq> None \<and> ws_capacity s \<ge> n")
  case True
  then show ?thesis using assms(1) by (auto simp: reserve_def)
next
  case False
  have len: "ws_len s \<le> n" "ws_len s \<le> length (old_block s)" "take (ws_len s) (old_block s) = str s"
    using assms(1) False by (auto simp: str_ok_def str_def old_block_def split: option.splits)
  let ?b = "str s @ replicate (new_size n - ws_len s) 0"
  let ?t = "\<lparr>ws_buffer = Some ?b, ws_capacity = new_size n - 1, ws_len = length (str s)\<rparr>"
  have sz: "n < new_size n" "new_size n < 2 ^ 32" using new_size assms(3) by blast+
  have lt: "ws_len s < new_size n" using len(1) sz(1) by simp
  have ch: "changeBuffer mem n s = Some (True, ?t)"
    using len lt sz assms(2) str_len [OF assms(1)]
    by (cases s) (simp add: changeBuffer_def Let_def block_read_def block_write_def sub32_def le_mod_geq)
  have "str_ok ?t \<and> str ?t = str s"
    using str_len [OF assms(1)] str_nonzero [OF assms(1)] lt sz
    by (intro str_okI) (auto simp: take_Cons' Suc_diff_Suc split: nat_diff_split)
  moreover have "on_buffer (block_write 0 [0]) ?t = Some ?t" if "ws_len s = 0"
    using that lt str_len [OF assms(1)] by (cases "new_size n") (auto simp: on_buffer_def block_write_def)
  ultimately show ?thesis using False ch str_len [OF assms(1)] sz(1) by (auto simp: reserve_def)
qed

lemma write_cstr:
  assumes "str_ok s" "ws_buffer s = Some b" "0 \<notin> set cs" "i \<le> ws_len s" "i + length cs \<le> ws_capacity s"
  shows "\<exists>t. on_buffer (block_write i (cs @ [0])) s = Some t \<and> str_ok (t\<lparr>ws_len := i + length cs\<rparr>) \<and>
    str (t\<lparr>ws_len := i + length cs\<rparr>) = take i (str s) @ cs \<and> ws_buffer t \<noteq> None"
proof -
  have b: "length b = ws_capacity s + 1" "ws_capacity s < 2 ^ 32" "ws_len s \<le> ws_capacity s" "0 \<notin> set (take (ws_len s) b)" "str s = take (ws_len s) b"
    using assms(1,2) by (simp_all add: str_ok_def str_def)
  let ?b = "take i b @ (cs @ [0]) @ drop (i + length cs + 1) b"
  let ?t = "\<lparr>ws_buffer = Some ?b, ws_capacity = ws_capacity s, ws_len = length (take i b @ cs)\<rparr>"
  have i: "length (take i b) = i" "take i (str s) = take i b" "0 \<notin> set (take i b)"
    using assms(4) b by (auto dest: in_set_takeD simp: min_def) (metis in_set_takeD min.absorb1 take_take)
  have "str_ok ?t \<and> str ?t = take i b @ cs"
    using b i assms(3,5) by (intro str_okI) auto
  moreover define t where "t = s\<lparr>ws_buffer := Some ?b\<rparr>"
  moreover have "on_buffer (block_write i (cs @ [0])) s = Some t"
    using assms(2,5) b by (simp add: on_buffer_def block_write_def t_def)
  moreover have "t\<lparr>ws_len := i + length cs\<rparr> = ?t" using i by (cases s) (simp add: t_def)
  moreover have "ws_buffer t \<noteq> None" by (simp add: t_def)
  ultimately show ?thesis unfolding i(2) by metis
qed

lemma on_buffer_len [simp]: "on_buffer f (s\<lparr>ws_len := n\<rparr>) = map_option (ws_len_update (\<lambda>_. n)) (on_buffer f s)"
  by (cases s) (auto simp: on_buffer_def split: bind_splits)

lemma copy_ok:
  assumes "str_ok s" "\<forall>n. mem n" "0 \<notin> set cs" "length cs < 2 ^ 32 - 16"
  shows "\<exists>t. ws_copy mem cs (length cs) s = Some t \<and> str_ok t \<and> str t = cs \<and> ws_buffer t \<noteq> None"
proof -
  from reserve_ok [OF assms(1,2,4)] obtain t b where t: "reserve mem (length cs) s = Some (True, t)" "str_ok t" "ws_buffer t = Some b"
    "length cs \<le> ws_capacity t" by blast
  from write_cstr [OF t(2,3) assms(3), of 0] t(4) show ?thesis by (auto simp: ws_copy_def t(1))
qed

lemma concat_cstr_ok:
  assumes "str_ok s" "\<forall>n. mem n" "0 \<notin> set cs" "ws_len s + length cs < 2 ^ 32 - 16"
  shows "\<exists>t. ws_concat_cstr mem (Some cs) (length cs) s = Some (True, t) \<and> str_ok t \<and> str t = str s @ cs"
proof (cases "cs = []")
  case True
  then show ?thesis using assms(1) by (simp add: ws_concat_cstr_def)
next
  case False
  from reserve_ok [OF assms(1,2,4)] obtain t b where t: "reserve mem (ws_len s + length cs) s = Some (True, t)" "str_ok t" "str t = str s"
    "ws_len t = ws_len s" "ws_buffer t = Some b" "ws_len s + length cs \<le> ws_capacity t" by blast
  from write_cstr [OF t(2,5) assms(3), of "ws_len s"] t obtain u where u: "on_buffer (block_write (ws_len s) (cs @ [0])) t = Some u"
    "str_ok (u\<lparr>ws_len := ws_len s + length cs\<rparr>)" "str (u\<lparr>ws_len := ws_len s + length cs\<rparr>) = take (ws_len s) (str s) @ cs" by auto
  have "add32 (ws_len s) (length cs) = ws_len s + length cs" using assms(4) by (simp add: add32_def)
  then show ?thesis using False t(1,4) u str_len [OF assms(1)] by (simp add: ws_concat_cstr_def)
qed

lemma concat_ok:
  assumes "str_ok s" "str_ok t" "\<forall>n. mem n" "ws_buffer t \<noteq> None" "ws_len s + ws_len t < 2 ^ 32 - 16"
  shows "\<exists>u. ws_concat mem t s = Some (True, u) \<and> str_ok u \<and> str u = str s @ str t"
proof -
  obtain b where b: "ws_buffer t = Some b" using assms(4) by blast
  have "cstring b 0 = Some (str t)" using cstring_at [OF assms(2) b, of 0] by simp
  then show ?thesis using concat_cstr_ok [OF assms(1,3) str_nonzero [OF assms(2)]] assms(5) str_len [OF assms(2)]
    by (simp add: ws_concat_def b)
qed

lemma strcmp_eq: "0 \<notin> set as \<Longrightarrow> 0 \<notin> set bs \<Longrightarrow> strcmp as bs = 0 \<longleftrightarrow> as = bs"
  by (induction as bs rule: strcmp.induct) (auto simp: uint_0_iff intro: unsigned_word_eqI)

lemma strstr_Some: "strstr p xs = Some k \<longleftrightarrow>
    k + length p \<le> length xs \<and> take (length p) (drop k xs) = p \<and> (\<forall>j < k. take (length p) (drop j xs) \<noteq> p)"
proof (induction xs arbitrary: k)
  case (Cons x xs)
  show ?case
  proof (cases k)
    case 0
    then show ?thesis by (auto dest: arg_cong [where f = length] simp: min_def split: if_splits)
  next
    case (Suc j)
    have "(\<forall>i < Suc j. take (length p) (drop i (x # xs)) \<noteq> p) \<longleftrightarrow>
        take (length p) (x # xs) \<noteq> p \<and> (\<forall>i < j. take (length p) (drop i xs) \<noteq> p)"
      by (auto simp: less_Suc_eq_0_disj)
    then show ?thesis using Cons [of j] Suc by auto
  qed
qed auto

lemma strstr_None: "strstr p xs = None \<longleftrightarrow> (\<forall>j. take (length p) (drop j xs) \<noteq> p)"
proof (induction xs)
  case (Cons x xs)
  have "(\<forall>j. take (length p) (drop j (x # xs)) \<noteq> p) \<longleftrightarrow> take (length p) (x # xs) \<noteq> p \<and> (\<forall>j. take (length p) (drop j xs) \<noteq> p)"
    by (metis drop0 drop_Suc_Cons not0_implies_Suc)
  then show ?case using Cons by auto
qed auto

text \<open>A zero written inside of a string cuts it.\<close>

lemma cut_cstring:
  assumes "str_ok s" "ws_buffer s = Some b" "i \<le> j" "j \<le> ws_len s"
  shows "\<exists>b'. put_at b j 0 = Some b' \<and> cstring b' i = Some (take (j - i) (drop i (str s)))"
proof -
  have b: "length b = ws_capacity s + 1" "ws_len s \<le> ws_capacity s" using assms(1,2) by (simp_all add: str_ok_def)
  then have j: "j < length b" using assms(4) by simp
  have "str s = take (ws_len s) b" using assms(2) by (simp add: str_def)
  then have t: "take (j - i) (drop i (str s)) = take (j - i) (drop i b)" using assms(3,4) by (simp add: take_drop min_def)
  have "drop i (b[j := 0]) = take (j - i) (drop i b) @ 0 # drop (Suc j) b"
    using j assms(3) by (simp add: upd_conv_take_nth_drop drop_take)
  moreover have "0 \<notin> set (take (j - i) (drop i (str s)))" using str_nonzero [OF assms(1)] by (meson in_set_dropD in_set_takeD)
  ultimately show ?thesis using j assms(3) by (simp add: put_at_def cstring_def t takeWhile_zero)
qed

lemma substring_ok:
  assumes "str_ok s" "\<forall>n. mem n" "ws_len s < 2 ^ 32 - 16"
  shows "\<exists>t. substring mem i j s = Some t \<and> str_ok t \<and> str t = take (max i j - min i j) (drop (min i j) (str s))"
proof -
  define l r where "l = min i j" "r = max i j"
  have lr: "(if i > j then (j, i) else (i, j)) = (l, r)" "l \<le> r" by (auto simp: l_r_def)
  obtain out where out: "ws_of_cstr mem (Some []) = Some out" "str_ok out" "str out = []"
    using copy_ok [of ws_init mem "[]"] assms(2) by (auto simp: ws_of_cstr_def ws_init_def str_ok_def)
  show ?thesis
  proof (cases "l \<ge> ws_len s")
    case True
    then show ?thesis using out lr str_len [OF assms(1)] by (simp add: substring_def Let_def l_r_def [symmetric])
  next
    case False
    then obtain b where b: "ws_buffer s = Some b" using assms(1) by (auto simp: str_ok_def split: option.splits)
    define r' where "r' = (if r > ws_len s then ws_len s else r)"
    have r': "l \<le> r'" "r' \<le> ws_len s" "take (r' - l) (drop l (str s)) = take (r - l) (drop l (str s))"
      using False lr(2) str_len [OF assms(1)] by (auto simp: r'_def)
    from cut_cstring [OF assms(1) b r'(1,2)] obtain b' where b': "put_at b r' 0 = Some b'" "cstring b' l = Some (take (r - l) (drop l (str s)))"
      using r'(3) by auto
    have "0 \<notin> set (take (r - l) (drop l (str s)))" using str_nonzero [OF assms(1)] by (meson in_set_dropD in_set_takeD)
    moreover have "length (take (r - l) (drop l (str s))) < 2 ^ 32 - 16" using str_len [OF assms(1)] assms(3) by simp
    ultimately obtain t where "ws_copy mem (take (r - l) (drop l (str s))) (length (take (r - l) (drop l (str s)))) out = Some t"
      "str_ok t" "str t = take (r - l) (drop l (str s))" using copy_ok [OF out(2) assms(2)] by blast
    then show ?thesis using False b b' out(1) lr(1) by (auto simp: substring_def Let_def r'_def [symmetric] l_r_def [symmetric] ws_assign_cstr_def)
  qed
qed

lemma remove_ok:
  assumes "str_ok s" "index < ws_len s"
  shows "\<exists>t. ws_remove index count s = Some t \<and> str_ok t \<and> str t = take index (str s) @ drop (index + count) (str s)"
proof (cases "count = 0")
  case True
  then show ?thesis using assms(1) by (simp add: ws_remove_def)
next
  case False
  obtain b where b: "ws_buffer s = Some b" using assms by (auto simp: str_ok_def split: option.splits)
  have blk: "length b = ws_capacity s + 1" "ws_capacity s < 2 ^ 32" "ws_len s \<le> ws_capacity s" "str s = take (ws_len s) b"
    using assms(1) b by (simp_all add: str_ok_def str_def)
  define c where "c = (if count > ws_len s - index then ws_len s - index else count)"
  have c: "index + c \<le> ws_len s" "drop (index + c) (str s) = drop (index + count) (str s)" "c \<noteq> 0"
    using assms(2) False str_len [OF assms(1)] by (auto simp: c_def)
  define xs where "xs = take index (str s) @ drop (index + c) (str s)"
  have len: "length xs = ws_len s - c" "0 \<notin> set xs"
    using c(1) assms(2) str_len [OF assms(1)] str_nonzero [OF assms(1)] by (auto simp: xs_def dest: in_set_takeD in_set_dropD)
  have cs: "cstring b (index + c) = Some (drop (index + c) (str s))" using cstring_at [OF assms(1) b c(1)] .
  define b' where "b' = take index b @ drop (index + c) (str s) @ drop (ws_len s - c) b"
  have "take index b = take index (str s)" using blk(4) assms(2) by simp
  then have b': "b' = xs @ drop (length xs) b" by (simp add: b'_def xs_def len(1) [symmetric, unfolded xs_def])
  have w: "block_write index (drop (index + c) (str s)) b = Some b'"
    using blk c(1) str_len [OF assms(1)] assms(2) by (simp add: block_write_def b'_def)
  let ?b = "b'[length xs := 0]"
  have lb: "length b' = ws_capacity s + 1" using blk(1,3) len(1) by (simp add: b')
  have lx: "length xs < length b'" using blk len(1) lb by simp
  have "take (Suc (length xs)) ?b = xs @ [0]" using lx by (simp add: take_Suc_conv_app_nth b')
  then have t: "str_ok (s\<lparr>ws_buffer := Some ?b, ws_len := length xs\<rparr>) \<and> str (s\<lparr>ws_buffer := Some ?b, ws_len := length xs\<rparr>) = xs"
    using lb blk(2,3) len by (intro str_ok_update) auto
  have n: "ws_len s - c - index = length (drop (index + c) (str s))" using str_len [OF assms(1)] c(1) by simp
  have "ws_remove index count s = Some (s\<lparr>ws_buffer := Some ?b, ws_len := length xs\<rparr>)"
    using False assms(2) b cs w lx unfolding ws_remove_def Let_def c_def [symmetric] n
    by (simp add: put_at_def len(1) [symmetric] del: length_drop)
  moreover have "xs = take index (str s) @ drop (index + count) (str s)" by (simp add: xs_def c(2))
  ultimately show ?thesis using t by auto
qed

lemma trim_parts:
  "skip_space (xs @ 0 # ys) = Some (length (takeWhile isspace xs))"
  by (induction xs) (auto simp: isspace_def)

lemma trim_end_parts:
  assumes "n \<le> length b" "start \<le> n" "0 < n" "start < n \<Longrightarrow> \<not> isspace (b ! start)"
  shows "trim_end b start n = Some (if start = n then n else n - length (takeWhile isspace (rev (take n b))))"
  using assms
proof (induction n)
  case (Suc n)
  show ?case
  proof (cases "start \<le> n \<and> isspace (b ! n)")
    case True
    then have "start < n" using Suc.prems(4) by (metis le_neq_implies_less lessI less_or_eq_imp_le order_le_less_trans)
    then show ?thesis using Suc True by (auto simp: get_at_def take_Suc_conv_app_nth)
  next
    case False
    then show ?thesis using Suc.prems by (auto simp: get_at_def take_Suc_conv_app_nth)
  qed
qed simp

definition strip :: "byte list \<Rightarrow> byte list" where
  "strip xs = rev (dropWhile isspace (rev (dropWhile isspace xs)))"

lemma strip_slice:
  fixes xs :: "byte list"
  defines "start \<equiv> length (takeWhile isspace xs)"
  shows "strip xs = take ((if start = length xs then length xs else length xs - length (takeWhile isspace (rev xs))) - start) (drop start xs)"
proof -
  have d: "dropWhile isspace xs = drop start xs" by (simp add: start_def dropWhile_eq_drop)
  show ?thesis
  proof (cases "start = length xs")
    case True
    then show ?thesis by (simp add: strip_def d)
  next
    case False
    then have lt: "start < length xs" using length_takeWhile_le [of isspace xs] by (simp add: start_def)
    then have ns: "\<not> isspace (xs ! start)" using nth_length_takeWhile [of isspace xs] by (simp add: start_def)
    have "takeWhile isspace (rev (drop start xs) @ rev (take start xs)) = takeWhile isspace (rev (drop start xs))"
      using ns lt by (intro takeWhile_append1 [of "xs ! start"]) (auto simp: in_set_conv_nth intro!: exI [of _ 0])
    then have t: "takeWhile isspace (rev xs) = takeWhile isspace (rev (drop start xs))"
      by (metis append_take_drop_id rev_append)
    have "rev (dropWhile P (rev w)) = take (length w - length (takeWhile P (rev w))) w" for P and w :: "byte list"
      unfolding dropWhile_eq_drop rev_drop by simp
    then have "rev (dropWhile isspace (rev (drop start xs))) =
        take (length xs - start - length (takeWhile isspace (rev (drop start xs)))) (drop start xs)" by simp
    then show ?thesis using False lt by (simp add: strip_def d t add.commute)
  qed
qed

lemma trim_ok:
  assumes "str_ok s"
  shows "\<exists>t. trim s = Some t \<and> str_ok t \<and> str t = strip (str s)"
proof (cases "ws_buffer s = None \<or> ws_len s = 0")
  case True
  then have "str s = []" using str_len [OF assms] assms by (auto simp: str_def)
  then show ?thesis using True assms by (simp add: trim_def strip_def)
next
  case False
  then obtain b where b: "ws_buffer s = Some b" by auto
  have blk: "length b = ws_capacity s + 1" "ws_capacity s < 2 ^ 32" "ws_len s \<le> ws_capacity s" "str s = take (ws_len s) b"
    using assms b by (simp_all add: str_ok_def str_def)
  define v where "v = str s"
  have v: "length v = ws_len s" "0 \<notin> set v" "take (ws_len s) b = v" using str_len [OF assms] str_nonzero [OF assms] blk(4) by (simp_all add: v_def)
  define start where "start = length (takeWhile isspace v)"
  have sk: "skip_space b = Some start"
    using trim_parts [of v] block_split [OF assms b] by (simp add: start_def v_def) (metis trim_parts)
  have le: "start \<le> ws_len s" using length_takeWhile_le [of isspace v] v(1) by (simp add: start_def)
  have "\<not> isspace (b ! start)" if "start < ws_len s"
  proof -
    have "\<not> isspace (v ! start)" using nth_length_takeWhile [of isspace v] that v(1) by (simp add: start_def)
    then show ?thesis using that v(3) by (metis nth_take)
  qed
  define stop where "stop = (if start = ws_len s then ws_len s else ws_len s - length (takeWhile isspace (rev v)))"
  have st: "trim_end b start (ws_len s) = Some stop"
    using trim_end_parts [of "ws_len s" b start] le False blk(1,3) v(3) \<open>start < ws_len s \<Longrightarrow> \<not> isspace (b ! start)\<close> by (auto simp: stop_def)
  define xs where "xs = take (stop - start) (drop start b)"
  have "stop \<le> ws_len s" by (simp add: stop_def)
  then have lx: "length xs = stop - start" "start + length xs \<le> ws_len s" using le blk(1,3) by (auto simp: xs_def)
  have xs: "xs = strip v"
  proof -
    have "drop start v = take (ws_len s - start) (drop start b)" using v(3) by (metis drop_take)
    then have "xs = take (stop - start) (drop start v)" using \<open>stop \<le> ws_len s\<close> by (simp add: xs_def min_def)
    then show ?thesis using strip_slice [of v] v(1) by (simp add: start_def stop_def)
  qed
  have nz: "0 \<notin> set xs" using v(2) unfolding xs strip_def by (metis set_dropWhileD set_rev)
  define b1 where "b1 = (if start > 0 then xs @ drop (length xs) b else b)"
  have w: "(if start > 0 then block_write 0 xs b else Some b) = Some b1" using lx blk by (simp add: b1_def block_write_def)
  have b1: "length b1 = ws_capacity s + 1" "take (length xs) b1 = xs" using lx blk by (auto simp: b1_def xs_def)
  let ?b = "b1[length xs := 0]"
  have "take (Suc (length xs)) ?b = xs @ [0]" using b1 lx blk by (simp add: take_Suc_conv_app_nth)
  then have t: "str_ok (s\<lparr>ws_buffer := Some ?b, ws_len := length xs\<rparr>) \<and> str (s\<lparr>ws_buffer := Some ?b, ws_len := length xs\<rparr>) = xs"
    using b1(1) blk(2,3) lx nz by (intro str_ok_update) auto
  have "block_read start (stop - start) b = Some xs" using lx blk le by (simp add: block_read_def xs_def)
  then have "trim s = Some (s\<lparr>ws_buffer := Some ?b, ws_len := length xs\<rparr>)"
    using False b sk st w b1(1) lx blk by (simp add: trim_def put_at_def Let_def)
  then show ?thesis using t xs by (auto simp: v_def)
qed

lemma map_cstr_ok: "0 \<notin> set xs \<Longrightarrow> map_cstr f (xs @ 0 # ys) = Some (map f xs @ 0 # ys)"
  by (induction xs) auto

lemma on_chars_ok:
  assumes "str_ok s" "\<And>c. c \<noteq> 0 \<Longrightarrow> f c \<noteq> 0"
  shows "\<exists>t. on_chars f s = Some t \<and> str_ok t \<and> str t = map f (str s)"
proof (cases "ws_buffer s")
  case None
  then show ?thesis using assms(1) by (simp add: on_chars_def str_def)
next
  case (Some b)
  define b' where "b' = map f (str s) @ 0 # drop (Suc (ws_len s)) b"
  have "map_cstr f b = Some b'"
    using map_cstr_ok [OF str_nonzero [OF assms(1)]] block_split [OF assms(1) Some] unfolding b'_def by metis
  then have o: "on_chars f s = Some (s\<lparr>ws_buffer := Some b', ws_len := length (map f (str s))\<rparr>)"
    using Some str_len [OF assms(1)] by (cases s) (simp add: on_chars_def on_buffer_def)
  have "length b' = ws_capacity s + 1" "ws_capacity s < 2 ^ 32" "ws_len s \<le> ws_capacity s"
    using assms(1) Some str_len [OF assms(1)] by (simp_all add: b'_def str_ok_def)
  moreover have "0 \<notin> set (map f (str s))" using str_nonzero [OF assms(1)] assms(2) by (metis (no_types, lifting) image_iff list.set_map)
  ultimately have "str_ok (s\<lparr>ws_buffer := Some b', ws_len := length (map f (str s))\<rparr>) \<and>
      str (s\<lparr>ws_buffer := Some b', ws_len := length (map f (str s))\<rparr>) = map f (str s)"
    using str_len [OF assms(1)] by (intro str_ok_update) (auto simp: b'_def)
  then show ?thesis using o by blast
qed

subsection \<open>Comparison and search\<close>

lemma compare_ok:
  assumes "str_ok s" "str_ok t" "ws_buffer s \<noteq> None" "ws_buffer t \<noteq> None"
  shows "compareTo s t = Some (strcmp (str s) (str t))" "ws_equals s t = Some (str s = str t)"
    "startsWith t s = Some (take (length (str t)) (str s) = str t)"
    "endsWith t s = Some (length (str t) \<le> length (str s) \<and> drop (length (str s) - length (str t)) (str s) = str t)"
proof -
  obtain a b where ab: "ws_buffer s = Some a" "ws_buffer t = Some b" using assms(3,4) by blast
  note c = cstring_at [OF assms(1) ab(1)] cstring_at [OF assms(2) ab(2)] str_len [OF assms(1)] str_len [OF assms(2)]
  note z = str_nonzero [OF assms(1)] str_nonzero [OF assms(2)]
  show cmp: "compareTo s t = Some (strcmp (str s) (str t))" using c by (simp add: compareTo_def ab)
  show "ws_equals s t = Some (str s = str t)" using c z by (auto simp: ws_equals_def cmp strcmp_eq)
  have lt: "ws_capacity s < 2 ^ 32" "ws_len s \<le> ws_capacity s" using assms(1) ab(1) by (simp_all add: str_ok_def)
  have "strcmp (take (ws_len t) (str s)) (take (ws_len t) (str t)) = 0 \<longleftrightarrow> take (ws_len t) (str s) = str t"
    using z c(4) by (subst strcmp_eq) (auto dest: in_set_takeD)
  then show "startsWith t s = Some (take (length (str t)) (str s) = str t)"
    using c lt by (auto simp: startsWith_def startsWith_at_def ab dest: arg_cong [where f = length])
  show "endsWith t s = Some (length (str t) \<le> length (str s) \<and> drop (length (str s) - length (str t)) (str s) = str t)"
  proof -
    have "strcmp (drop (ws_len s - ws_len t) (str s)) (str t) = 0 \<longleftrightarrow> drop (ws_len s - ws_len t) (str s) = str t"
      using z by (subst strcmp_eq) (auto dest: in_set_dropD)
    then show ?thesis using c by (auto simp: endsWith_def ab)
  qed
qed

text \<open>The first place, from \<open>i\<close> on, where a string occurs.\<close>

definition occurs_at :: "byte list \<Rightarrow> byte list \<Rightarrow> nat \<Rightarrow> bool" where
  "occurs_at p xs k \<longleftrightarrow> k + length p \<le> length xs \<and> take (length p) (drop k xs) = p"

lemma occurs_at_take: "p \<noteq> [] \<Longrightarrow> occurs_at p xs k \<longleftrightarrow> take (length p) (drop k xs) = p"
proof -
  assume "p \<noteq> []"
  moreover have "take (length p) (drop k xs) = p \<Longrightarrow> min (length xs - k) (length p) = length p"
    by (metis length_drop length_take)
  ultimately show ?thesis by (auto simp: occurs_at_def min_def split: if_splits)
qed

lemma indexOf_ok:
  assumes "str_ok s" "str_ok t" "ws_buffer s \<noteq> None" "ws_buffer t \<noteq> None" "i < ws_len s"
  shows "\<exists>r. indexOf t i s = Some r \<and>
    (if r = -1 then \<forall>k \<ge> i. \<not> occurs_at (str t) (str s) k
     else 0 \<le> r \<and> i \<le> nat r \<and> occurs_at (str t) (str s) (nat r) \<and> (\<forall>k. i \<le> k \<longrightarrow> k < nat r \<longrightarrow> \<not> occurs_at (str t) (str s) k))"
proof -
  obtain a b where ab: "ws_buffer s = Some a" "ws_buffer t = Some b" using assms(3,4) by blast
  have c: "cstring a i = Some (drop i (str s))" "cstring b 0 = Some (str t)"
    using cstring_at [OF assms(1) ab(1), of i] cstring_at [OF assms(2) ab(2), of 0] assms(5) by auto
  have e: "indexOf t i s = Some (position (strstr (str t) (drop i (str s))) i)" using assms(5) c by (simp add: indexOf_def ab)
  show ?thesis
  proof (cases "strstr (str t) (drop i (str s))")
    case None
    then have "take (length (str t)) (drop k (str s)) \<noteq> str t" if "i \<le> k" for k
      using that unfolding strstr_None by (metis drop_drop le_add_diff_inverse2)
    then show ?thesis using e None by (simp add: position_def occurs_at_def)
  next
    case (Some k)
    then have k: "k + length (str t) \<le> length (drop i (str s))" "take (length (str t)) (drop k (drop i (str s))) = str t"
      "\<And>j. j < k \<Longrightarrow> take (length (str t)) (drop j (drop i (str s))) \<noteq> str t" unfolding strstr_Some by auto
    have "take (length (str t)) (drop j (str s)) \<noteq> str t" if "i \<le> j" "j < i + k" for j
      using k(3) [of "j - i"] that by simp
    then show ?thesis using e Some k(1,2) assms(5) str_len [OF assms(1)]
      by (auto simp: position_def occurs_at_def add.commute nat_int_add)
  qed
qed

declare last_loop.simps [simp del]

lemma first_occurrence:
  assumes "p \<noteq> []" "strstr p (drop i xs) = Some k"
  shows "occurs_at p xs (i + k)" "i \<le> j \<Longrightarrow> j < i + k \<Longrightarrow> \<not> occurs_at p xs j"
proof -
  have k: "take (length p) (drop k (drop i xs)) = p" "\<And>j. j < k \<Longrightarrow> take (length p) (drop j (drop i xs)) \<noteq> p"
    using assms(2) unfolding strstr_Some by auto
  show "occurs_at p xs (i + k)" using k(1) assms(1) by (simp add: occurs_at_take add.commute)
  show "\<not> occurs_at p xs j" if "i \<le> j" "j < i + k" using k(2) [of "j - i"] that assms(1) by (simp add: occurs_at_take)
qed

lemma no_occurrence:
  assumes "p \<noteq> []" "strstr p (drop i xs) = None" "i \<le> j"
  shows "\<not> occurs_at p xs j"
proof -
  have "take (length p) (drop (j - i) (drop i xs)) \<noteq> p" using assms(2) unfolding strstr_None by blast
  then show ?thesis using assms(1,3) by (simp add: occurs_at_take)
qed

lemma last_loop_ok:
  assumes "str_ok s" "ws_buffer s = Some b" "p \<noteq> []" "n < ws_len s"
  shows "\<exists>r. last_loop b p n found i = Some r \<and>
    (if \<exists>k. i \<le> k \<and> k \<le> n \<and> occurs_at p (str s) k
     then 0 \<le> r \<and> i \<le> nat r \<and> nat r \<le> n \<and> occurs_at p (str s) (nat r) \<and> (\<forall>k. nat r < k \<longrightarrow> k \<le> n \<longrightarrow> \<not> occurs_at p (str s) k)
     else r = found)"
  using assms
proof (induction b p n found i rule: last_loop.induct)
  case (1 b p n found i)
  show ?case
  proof (cases "i \<le> n")
    case False
    then show ?thesis by (auto simp: last_loop.simps)
  next
    case True
    have c: "cstring b i = Some (drop i (str s))" using cstring_at [OF "1.prems"(1,2), of i] True "1.prems"(4) by simp
    show ?thesis
    proof (cases "strstr p (drop i (str s))")
      case None
      then show ?thesis using True c no_occurrence [OF "1.prems"(3) None] by (auto simp: last_loop.simps)
    next
      case (Some k)
      note first = first_occurrence [OF "1.prems"(3) Some]
      define f where "f = (if i + k \<le> n then int (i + k) else found)"
      from "1.IH" [OF True c Some "1.prems"] obtain r where r: "last_loop b p n f (i + k + 1) = Some r"
        "if \<exists>j. i + k + 1 \<le> j \<and> j \<le> n \<and> occurs_at p (str s) j
         then 0 \<le> r \<and> i + k + 1 \<le> nat r \<and> nat r \<le> n \<and> occurs_at p (str s) (nat r) \<and> (\<forall>j. nat r < j \<longrightarrow> j \<le> n \<longrightarrow> \<not> occurs_at p (str s) j)
         else r = f" unfolding f_def by blast
      have l: "last_loop b p n found i = Some r" using r(1) True c Some by (simp add: last_loop.simps [of b p n found i] f_def)
      show ?thesis
      proof (cases "i + k \<le> n")
        case False
        then have "\<not> (\<exists>j. i \<le> j \<and> j \<le> n \<and> occurs_at p (str s) j)" using first(2) by auto
        moreover have "r = f" using r(2) False by auto
        ultimately show ?thesis using l False by (auto simp: f_def)
      next
        case le: True
        show ?thesis
        proof (cases "\<exists>j. i + k + 1 \<le> j \<and> j \<le> n \<and> occurs_at p (str s) j")
          case True
          then show ?thesis using r(2) l by (intro exI [of _ r]) auto
        next
          case False
          then have f: "r = int (i + k)" using r(2) le by (simp add: f_def)
          have "\<not> occurs_at p (str s) j" if "i + k < j" "j \<le> n" for j using False that by auto
          then show ?thesis using l f le first(1) by (intro exI [of _ r]) (auto simp: nat_int_add)
        qed
      qed
    qed
  qed
qed

lemma lastIndexOf_ok:
  assumes "str_ok s" "str_ok t" "ws_buffer t \<noteq> None" "str t \<noteq> []" "length (str t) \<le> length (str s)" "i < ws_len s"
  shows "\<exists>r. lastIndexOf t i s = Some r \<and>
    (if \<exists>k \<le> i. occurs_at (str t) (str s) k
     then 0 \<le> r \<and> nat r \<le> i \<and> occurs_at (str t) (str s) (nat r) \<and> (\<forall>k. nat r < k \<longrightarrow> k \<le> i \<longrightarrow> \<not> occurs_at (str t) (str s) k)
     else r = -1)"
proof -
  obtain a b where ab: "ws_buffer s = Some a" "ws_buffer t = Some b"
    using assms(1,3,6) by (auto simp: str_ok_def split: option.splits)
  have c: "cstring b 0 = Some (str t)" using cstring_at [OF assms(2) ab(2), of 0] by simp
  have "0 < length (str t)" using assms(4) by simp
  then have "\<not> (ws_len t = 0 \<or> ws_len s = 0 \<or> ws_len t > ws_len s)" using assms(5,6) str_len [OF assms(1)] str_len [OF assms(2)] by auto
  then have "lastIndexOf t i s = last_loop a (str t) i (-1) 0" using assms(6) c by (simp add: lastIndexOf_def ab Let_def)
  then show ?thesis using last_loop_ok [OF assms(1) ab(1) assms(4,6), of "-1" 0] by (simp only: le0 simp_thms)
qed

lemma take_prefix: "take (length xs) ys = xs \<longleftrightarrow> prefix xs ys"
  by (auto simp: prefix_def) (metis append_take_drop_id)

lemma drop_suffix: "length xs \<le> length ys \<and> drop (length ys - length xs) ys = xs \<longleftrightarrow> suffix xs ys"
  by (metis suffix_drop suffix_length_le suffix_take append_eq_conv_conj length_take min.absorb2 diff_le_self)

text \<open>Equality also holds of strings without a buffer.\<close>

lemma equals_ok:
  assumes "str_ok s" "str_ok t"
  shows "ws_equals s t = Some (str s = str t)"
proof (cases "ws_buffer s = None \<or> ws_buffer t = None")
  case True
  then have "ws_len s = 0 \<or> ws_len t = 0" using assms by (auto simp: str_ok_def)
  then show ?thesis using str_len [OF assms(1)] str_len [OF assms(2)] True
    by (auto simp: ws_equals_def compareTo_def split: option.splits)
qed (use compare_ok assms in auto)

lemma equals_cstr_ok:
  assumes "str_ok s" "0 \<notin> set cs"
  shows "equals_cstr (Some cs) s = Some (str s = cs)"
proof (cases "ws_len s = 0")
  case False
  then obtain b where b: "ws_buffer s = Some b" using assms(1) by (auto simp: str_ok_def split: option.splits)
  then show ?thesis using False cstring_at [OF assms(1) b, of 0] assms(2) str_nonzero [OF assms(1)]
    by (simp add: equals_cstr_def strcmp_eq)
qed (use str_len [OF assms(1)] in \<open>auto simp: equals_cstr_def\<close>)

subsection \<open>Correctness\<close>

lemma tolower_nonzero: "c \<noteq> 0 \<Longrightarrow> tolower c \<noteq> 0"
  unfolding tolower_def word_le_nat_alt by (auto simp: unat_eq_0 [symmetric] unat_word_ariths)

lemma toupper_nonzero: "c \<noteq> 0 \<Longrightarrow> toupper c \<noteq> 0"
  unfolding toupper_def by (auto simp: word_le_nat_alt)

text \<open>The operation returns, with a string of this value.\<close>

definition yields :: "ws option \<Rightarrow> byte list \<Rightarrow> bool" where
  "yields r xs = (case r of None \<Rightarrow> False | Some u \<Rightarrow> str_ok u \<and> str u = xs)"

lemma yieldsI: "\<exists>u. r = Some u \<and> str_ok u \<and> str u = xs \<Longrightarrow> yields r xs"
  by (auto simp: yields_def)

text \<open>
  C14: on strings in order, while memory lasts, the operations return and compute what their names say:
  concatenation appends, \<open>substring\<close> and \<open>remove\<close> cut, \<open>trim\<close> strips spaces at both ends, the case
  conversions act on every character, comparison and \<open>startsWith\<close>/\<open>endsWith\<close> decide equality, prefix and
  suffix, and each result is in order again.
\<close>

theorem string_operations_correct:
  assumes "str_ok s" "str_ok t" "ws_buffer s \<noteq> None" "ws_buffer t \<noteq> None"
    and "\<forall>n. mem n" "ws_len s + ws_len t < 2 ^ 32 - 16"
  shows "yields (ws_plus mem t s) (str s @ str t)
    \<and> yields (ws_assign mem t s) (str t)
    \<and> yields (substring mem i j s) (take (max i j - min i j) (drop (min i j) (str s)))
    \<and> yields (ws_remove i j s) (take i (str s) @ drop (i + j) (str s))
    \<and> yields (trim s) (strip (str s))
    \<and> yields (toLowerCase s) (map tolower (str s))
    \<and> yields (toUpperCase s) (map toupper (str s))
    \<and> ws_equals s t = Some (str s = str t)
    \<and> startsWith t s = Some (prefix (str t) (str s))
    \<and> endsWith t s = Some (suffix (str t) (str s))"
proof (intro conjI)
  show "yields (ws_plus mem t s) (str s @ str t)"
    using concat_ok [OF assms(1,2,5,4,6)] by (auto simp: ws_plus_def yields_def)
  show "yields (ws_assign mem t s) (str t)"
    using copy_ok [OF assms(1,5) str_nonzero [OF assms(2)]] str_len [OF assms(2)] assms(4,6) cstring_at [OF assms(2), of _ 0]
    by (auto simp: ws_assign_def yields_def)
  show "yields (substring mem i j s) (take (max i j - min i j) (drop (min i j) (str s)))"
    using substring_ok [OF assms(1,5)] assms(6) by (intro yieldsI) simp
  show "yields (ws_remove i j s) (take i (str s) @ drop (i + j) (str s))"
  proof (cases "i < ws_len s")
    case False
    then show ?thesis using assms(1) str_len [OF assms(1)] by (simp add: yields_def ws_remove_def)
  qed (use remove_ok [OF assms(1)] in \<open>intro yieldsI, simp\<close>)
  show "yields (trim s) (strip (str s))" by (intro yieldsI trim_ok assms)
  show "yields (toLowerCase s) (map tolower (str s))"
    unfolding toLowerCase_def by (intro yieldsI on_chars_ok assms) (rule tolower_nonzero)
  show "yields (toUpperCase s) (map toupper (str s))"
    unfolding toUpperCase_def by (intro yieldsI on_chars_ok assms) (rule toupper_nonzero)
  show "ws_equals s t = Some (str s = str t)" by (intro equals_ok assms)
  show "startsWith t s = Some (prefix (str t) (str s))" using compare_ok(3) [OF assms(1-4)] by (simp add: take_prefix)
  show "endsWith t s = Some (suffix (str t) (str s))" using compare_ok(4) [OF assms(1-4)] by (simp add: drop_suffix)
qed

definition sample_string :: "byte list \<Rightarrow> ws" where
  "sample_string cs = \<lparr>ws_buffer = Some (cs @ replicate (16 - length cs) 0), ws_capacity = 15, ws_len = length cs\<rparr>"

lemma sample_string:
  "length cs < 16 \<Longrightarrow> 0 \<notin> set cs \<Longrightarrow> str_ok (sample_string cs) \<and> str (sample_string cs) = cs \<and> ws_len (sample_string cs) = length cs \<and> ws_buffer (sample_string cs) \<noteq> None"
  by (simp add: sample_string_def str_ok_def str_def nth_append)

lemma string_operations_correct_witness:
  "yields (ws_plus (\<lambda>n. True) (sample_string [99]) (sample_string [97, 98])) [97, 98, 99]
    \<and> yields (trim (sample_string [32, 98])) [98]"
proof -
  note a = sample_string [of "[97, 98]"] sample_string [of "[99]"] sample_string [of "[32, 98]"]
  have "yields (ws_plus (\<lambda>n. True) (sample_string [99]) (sample_string [97, 98])) [97, 98, 99]"
    using string_operations_correct [of "sample_string [97, 98]" "sample_string [99]" "\<lambda>n. True"] a by simp
  moreover have "yields (trim (sample_string [32, 98])) [98]"
    using string_operations_correct [of "sample_string [32, 98]" "sample_string [99]" "\<lambda>n. True"] a by (simp add: strip_def isspace_def)
  ultimately show ?thesis by simp
qed

text \<open>
  What the operations do when memory is short or a string is combined with itself. A failed
  growth returns false but leaves the length over a null buffer (and the old buffer unfreed), so that
  the next \<open>setCharAt\<close> inside the length is undefined. Appending a non-empty string to itself is undefined
  whenever the growth succeeds. Moving a string without a buffer into one that has a buffer is undefined.
\<close>

theorem string_errors:
  assumes "str_ok s" "ws_len s = Suc n"
  shows "(ws_capacity s < sz \<and> \<not> mem (new_size sz) \<longrightarrow>
      (\<exists>u. reserve mem sz s = Some (False, u) \<and> ws_buffer u = None \<and> ws_len u = Suc n \<and> setCharAt 0 c u = None))
    \<and> (Suc n < 2 ^ 31 - 8 \<longrightarrow> (\<forall>n. mem n) \<longrightarrow> ws_concat_self mem s = None)
    \<and> ws_move s ws_init = None"
proof (intro conjI impI)
  have b: "ws_buffer s \<noteq> None" using assms by (auto simp: str_ok_def split: option.splits)
  show "\<exists>u. reserve mem sz s = Some (False, u) \<and> ws_buffer u = None \<and> ws_len u = Suc n \<and> setCharAt 0 c u = None"
    if "ws_capacity s < sz \<and> \<not> mem (new_size sz)"
    using that assms(2) by (auto simp: reserve_def changeBuffer_def setCharAt_def on_buffer_def)
  show "ws_concat_self mem s = None" if "Suc n < 2 ^ 31 - 8" "\<forall>n. mem n"
    using reserve_ok [OF assms(1) that(2), of "add32 (ws_len s) (ws_len s)"] that(1) assms(2) b
    by (auto simp: ws_concat_self_def add32_def)
  show "ws_move s ws_init = None" using b by (auto simp: ws_move_def ws_init_def)
qed

lemma string_errors_witness:
  "ws_concat_self (\<lambda>n. True) (sample_string [97]) = None
    \<and> (\<exists>u. reserve (\<lambda>n. False) 20 (sample_string [97]) = Some (False, u) \<and> setCharAt 0 98 u = None)"
proof -
  note a = sample_string [of "[97]"]
  have "ws_concat_self (\<lambda>n. True) (sample_string [97]) = None"
    using string_errors [of "sample_string [97]" 0 20 "\<lambda>n. True"] a by simp
  moreover have "ws_capacity (sample_string [97]) = 15" by (simp add: sample_string_def)
  ultimately show ?thesis using string_errors [of "sample_string [97]" 0 20 "\<lambda>n. False" 98] a by auto
qed

end
