(* ===== verification/Wstring_Replace.thy ===== *)
theory Wstring_Replace
  imports Wstring
begin

section \<open>Strings: replacement\<close>

text \<open>
  \<open>String::replace\<close> for strings. A replacement as long as what it replaces is copied in place; a
  shorter one moves the rest of the string forward as it goes; a longer one first computes the
  size, then works from the end of the string. Copies whose source and destination overlap go
  forward here, as those of the C library of the chip do; the C standard leaves them undefined.
\<close>

lemma cstring_less: "cstring b i = Some cs \<Longrightarrow> i < length b"
  by (auto simp: cstring_def split: if_splits) (metis drop_eq_Nil empty_iff empty_set linorder_not_le)

lemma length_block_write: "block_write i xs b = Some b' \<Longrightarrow> length b' = length b"
  by (auto simp: block_write_def split: if_splits)

subsection \<open>The loops\<close>

text \<open>\<open>n\<close> is the length of both strings; the calls have \<open>n > 0\<close>.\<close>

function replace_same :: "byte list \<Rightarrow> byte list \<Rightarrow> nat \<Rightarrow> byte list \<Rightarrow> nat \<Rightarrow> byte list option" where
  "replace_same p r n b readFrom = do {
     cs \<leftarrow> cstring b readFrom;
     case strstr p cs of None \<Rightarrow> Some b
     | Some k \<Rightarrow> do {
         b' \<leftarrow> block_write (readFrom + k) r b;
         if n = 0 then None else replace_same p r n b' (readFrom + k + n)
       }
   }"
  by pat_completeness auto
termination
  by (relation "measure (\<lambda>(p, r, n, b, i). length b - i)") (auto dest!: length_block_write cstring_less)

function replace_shrink :: "byte list \<Rightarrow> byte list \<Rightarrow> nat \<Rightarrow> byte list \<Rightarrow> nat \<Rightarrow> nat \<Rightarrow> nat \<Rightarrow> (byte list \<times> nat) option" where
  "replace_shrink p r n b readFrom writeTo len = do {
     cs \<leftarrow> cstring b readFrom;
     case strstr p cs of
       None \<Rightarrow> do { b' \<leftarrow> block_write writeTo (cs @ [0]) b; Some (b', len) }
     | Some k \<Rightarrow> do {
         xs \<leftarrow> block_read readFrom k b;
         b1 \<leftarrow> block_write writeTo xs b;
         b2 \<leftarrow> block_write (writeTo + k) r b1;
         if n = 0 then None
         else replace_shrink p r n b2 (readFrom + k + n) (writeTo + k + length r) (sub32 (add32 len (length r)) n)
       }
   }"
  by pat_completeness auto
termination
  by (relation "measure (\<lambda>(p, r, n, b, i, w, l). length b - i)") (auto dest!: length_block_write cstring_less)

function replace_count :: "byte list \<Rightarrow> nat \<Rightarrow> nat \<Rightarrow> byte list \<Rightarrow> nat \<Rightarrow> nat \<Rightarrow> nat option" where
  "replace_count p n diff b readFrom sz = do {
     cs \<leftarrow> cstring b readFrom;
     case strstr p cs of
       None \<Rightarrow> Some sz
     | Some k \<Rightarrow> if n = 0 then None else replace_count p n diff b (readFrom + k + n) (add32 sz diff)
   }"
  by pat_completeness auto
termination
  by (relation "measure (\<lambda>(p, n, diff, b, i, s). length b - i)") (auto dest: cstring_less)

lemma last_loop_le: "last_loop b p n found i = Some r \<Longrightarrow> found \<le> int n \<Longrightarrow> r \<le> int n"
proof (induction b p n found i rule: last_loop.induct)
  case (1 b p n found i)
  show ?case
  proof (cases "i \<le> n")
    case False
    then show ?thesis using "1.prems" by (simp add: last_loop.simps)
  next
    case True
    from "1.prems"(1) [unfolded last_loop.simps [of b p n found i]] True obtain cs where cs: "cstring b i = Some cs"
      by (cases "cstring b i") auto
    show ?thesis
    proof (cases "strstr p cs")
      case None
      then show ?thesis using "1.prems" True cs by (simp add: last_loop.simps)
    next
      case (Some k)
      then have "last_loop b p n (if i + k \<le> n then int (i + k) else found) (i + k + 1) = Some r"
        using "1.prems"(1) True cs by (simp add: last_loop.simps [of b p n found i])
      then show ?thesis using "1.IH" [OF True cs Some] "1.prems"(2) by simp
    qed
  qed
qed

lemma lastIndexOf_le: "lastIndexOf t i s = Some r \<Longrightarrow> r \<le> int i"
  by (auto simp: lastIndexOf_def Let_def split: if_splits bind_splits dest!: last_loop_le)

function replace_grow :: "ws \<Rightarrow> byte list \<Rightarrow> nat \<Rightarrow> ws \<Rightarrow> int \<Rightarrow> ws option" where
  "replace_grow t r diff s index =
     (if index < 0 then Some s
      else case lastIndexOf t (nat index) s of None \<Rightarrow> None
        | Some index' \<Rightarrow>
            if index' < 0 then Some s
            else do {
              b \<leftarrow> ws_buffer s;
              let readFrom = nat index' + ws_len t;
              xs \<leftarrow> block_read readFrom (ws_len s - readFrom) b;
              b \<leftarrow> block_write (readFrom + diff) xs b;
              let len = add32 (ws_len s) diff;
              b \<leftarrow> put_at b len 0;
              b \<leftarrow> block_write (nat index') r b;
              replace_grow t r diff (s\<lparr>ws_buffer := Some b, ws_len := len\<rparr>) (index' - 1)
            })"
  by pat_completeness auto
termination
  by (relation "measure (\<lambda>(t, r, diff, s, index). nat (index + 1))") (auto dest!: lastIndexOf_le)

declare replace_same.simps [simp del] replace_shrink.simps [simp del] replace_count.simps [simp del] replace_grow.simps [simp del]

definition ws_replace :: "(nat \<Rightarrow> bool) \<Rightarrow> ws \<Rightarrow> ws \<Rightarrow> ws \<Rightarrow> ws option" where
  "ws_replace mem pat rep s =
     (if ws_len s = 0 \<or> ws_len pat = 0 then Some s
      else do {
        b \<leftarrow> ws_buffer s;
        p \<leftarrow> ws_buffer pat;
        p \<leftarrow> cstring p 0;
        r \<leftarrow> block_read 0 (ws_len rep) (old_block rep);
        if ws_len rep = ws_len pat then do {
          b \<leftarrow> replace_same p r (ws_len rep) b 0;
          Some (s\<lparr>ws_buffer := Some b\<rparr>)
        } else if ws_len rep < ws_len pat then do {
          (b, len) \<leftarrow> replace_shrink p r (ws_len pat) b 0 0 (ws_len s);
          Some (s\<lparr>ws_buffer := Some b, ws_len := len\<rparr>)
        } else do {
          let diff = ws_len rep - ws_len pat;
          sz \<leftarrow> replace_count p (ws_len pat) diff b 0 (ws_len s);
          if sz = ws_len s then Some s
          else do {
            (ok, s) \<leftarrow> (if sz > ws_capacity s then changeBuffer mem sz s else Some (True, s));
            if ok then replace_grow pat r diff s (int (ws_len s) - 1) else Some s
          }
        }
      })"

subsection \<open>What replacement means\<close>

text \<open>Every occurrence of \<open>p\<close>, found from the left without overlap, becomes \<open>r\<close>.\<close>

function replace_all :: "byte list \<Rightarrow> byte list \<Rightarrow> byte list \<Rightarrow> byte list" where
  "replace_all p r xs =
     (if p = [] then xs
      else case strstr p xs of None \<Rightarrow> xs | Some k \<Rightarrow> take k xs @ r @ replace_all p r (drop (k + length p) xs))"
  by pat_completeness auto
termination
  by (relation "measure (\<lambda>(p, r, xs). length xs)") (auto simp: strstr_Some simp flip: length_greater_0_conv)

declare replace_all.simps [simp del]

lemma strstr_split:
  assumes "strstr p xs = Some k"
  shows "xs = take k xs @ p @ drop (k + length p) xs" "k + length p \<le> length xs"
proof -
  have t: "take (length p) (drop k xs) = p" using assms by (simp add: strstr_Some)
  show "xs = take k xs @ p @ drop (k + length p) xs"
    by (metis append_take_drop_id t drop_drop add.commute)
  have "length (take (length p) (drop k xs)) = length p" by (simp only: t)
  moreover have "k \<le> length xs" using assms by (simp add: strstr_Some)
  ultimately show "k + length p \<le> length xs" by simp
qed

lemma cstring_parts: "0 \<notin> set cs \<Longrightarrow> cstring (pre @ cs @ 0 # rest) (length pre) = Some cs"
  by (simp add: cstring_def takeWhile_zero)

lemma block_write_parts: "length ys = length xs \<Longrightarrow> block_write (length pre) xs (pre @ ys @ rest) = Some (pre @ xs @ rest)"
  by (simp add: block_write_def)

lemma block_write_at: "length xs \<le> length b \<Longrightarrow> block_write (length w) xs (w @ b) = Some (w @ xs @ drop (length xs) b)"
  by (simp add: block_write_def)

lemma replace_same_ok:
  assumes "p \<noteq> []" "length r = length p" "0 \<notin> set cs"
  shows "replace_same p r (length p) (pre @ cs @ 0 # rest) (length pre) = Some (pre @ replace_all p r cs @ 0 # rest)"
  using assms
proof (induction p r cs arbitrary: pre rule: replace_all.induct)
  case (1 p r cs)
  show ?case
  proof (cases "strstr p cs")
    case None
    then show ?thesis using "1.prems" by (simp add: replace_same.simps cstring_parts replace_all.simps [of p r cs])
  next
    case (Some k)
    let ?pre = "pre @ take k cs" and ?tl = "drop (k + length p) cs"
    note sp = strstr_split [OF Some]
    have b: "pre @ cs @ 0 # rest = ?pre @ p @ ?tl @ 0 # rest" using sp(1) by (metis append.assoc)
    have n: "length pre + k = length ?pre" using sp(2) by simp
    have w: "block_write (length pre + k) r (pre @ cs @ 0 # rest) = Some (?pre @ r @ ?tl @ 0 # rest)"
      unfolding n b using "1.prems"(2) by (intro block_write_parts) simp
    have ih: "replace_same p r (length p) ((?pre @ r) @ ?tl @ 0 # rest) (length (?pre @ r)) = Some ((?pre @ r) @ replace_all p r ?tl @ 0 # rest)"
      using "1.prems" by (intro "1.IH" [OF _ Some]) (auto dest: in_set_dropD)
    show ?thesis
      using ih w "1.prems" n Some
      by (subst replace_same.simps) (simp add: cstring_parts replace_all.simps [of p r cs] add.assoc)
  qed
qed

lemma mod_once: "x < 2 * m \<Longrightarrow> x mod m = (if x < m then x else x - (m :: nat))"
  by (simp add: mod_if)

lemma shrink_len:
  assumes "len < 2 ^ 32" "n \<le> len" "m < n"
  shows "sub32 (add32 len m) n = len + m - n"
proof (cases "len + m < 2 ^ 32")
  case True
  then show ?thesis using assms mod_once [of "len + m + 2 ^ 32 - n" "2 ^ 32"] by (simp add: sub32_def add32_def)
next
  case False
  then have "(len + m) mod 2 ^ 32 = len + m - 2 ^ 32" using mod_once [of "len + m" "2 ^ 32"] assms by simp
  then show ?thesis using False assms by (simp add: sub32_def add32_def)
qed

lemma replace_shrink_ok:
  assumes "p \<noteq> []" "length r < length p" "0 \<notin> set cs" "length cs \<le> len" "len < 2 ^ 32"
  shows "\<exists>rest'. replace_shrink p r (length p) (w @ mid @ cs @ 0 # rest) (length w + length mid) (length w) len =
      Some (w @ replace_all p r cs @ 0 # rest', len + length (replace_all p r cs) - length cs)
    \<and> length rest' + length (replace_all p r cs) = length mid + length cs + length rest"
  using assms
proof (induction p r cs arbitrary: w mid len rule: replace_all.induct)
  case (1 p r cs)
  have c: "cstring (w @ mid @ cs @ 0 # rest) (length w + length mid) = Some cs"
    using cstring_parts [OF "1.prems"(3), of "w @ mid" rest] by simp
  show ?case
  proof (cases "strstr p cs")
    case None
    define rest' where "rest' = drop (Suc (length cs)) (mid @ cs @ 0 # rest)"
    have "block_write (length w) (cs @ [0]) (w @ mid @ cs @ 0 # rest) = Some (w @ cs @ 0 # rest')"
      using block_write_at [of "cs @ [0]" "mid @ cs @ 0 # rest" w] by (simp add: rest'_def)
    moreover have "length rest' = length mid + length rest" by (simp add: rest'_def)
    ultimately show ?thesis using None "1.prems"(1) c
      by (intro exI [of _ rest']) (simp add: replace_shrink.simps replace_all.simps [of p r cs])
  next
    case (Some k)
    let ?tl = "drop (k + length p) cs"
    note sp = strstr_split [OF Some]
    let ?m = "mid @ take k cs @ p"
    define mid' where "mid' = drop (k + length r) ?m"
    have b: "w @ mid @ cs @ 0 # rest = w @ ?m @ ?tl @ 0 # rest" using sp(1) by (metis append.assoc)
    have rd: "block_read (length w + length mid) k (w @ mid @ cs @ 0 # rest) = Some (take k cs)"
      using sp(2) by (simp add: block_read_def)
    define old where "old = take (length r) (drop k ?m)"
    have le: "k + length r \<le> length ?m" "k \<le> length ?m" using sp(2) "1.prems"(2) by simp_all
    then have lm: "length old = length r" by (auto simp only: old_def length_take length_drop)
    have m: "drop k ?m = old @ mid'"
      by (simp only: old_def mid'_def add.commute [of k] drop_drop [symmetric] append_take_drop_id)
    have "drop (length (take k cs)) (?m @ ?tl @ 0 # rest) = (old @ mid') @ ?tl @ 0 # rest"
      using le(2) sp(2) by (simp only: m [symmetric] drop_append length_take) simp
    then have w1: "block_write (length w) (take k cs) (w @ mid @ cs @ 0 # rest) = Some (w @ take k cs @ (old @ mid') @ ?tl @ 0 # rest)"
      unfolding b using block_write_at [of "take k cs" "?m @ ?tl @ 0 # rest" w] sp(2) by simp
    have w2: "block_write (length w + k) r (w @ take k cs @ (old @ mid') @ ?tl @ 0 # rest) =
        Some ((w @ take k cs @ r) @ mid' @ ?tl @ 0 # rest)"
      using block_write_parts [OF lm, of "w @ take k cs" "mid' @ ?tl @ 0 # rest"] sp(2) by simp
    have lm': "length mid' + length r = length mid + length p"
      using sp(2) "1.prems"(2) by (simp only: mid'_def length_drop length_append length_take)
    let ?len = "len + length r - length p"
    have len: "sub32 (add32 len (length r)) (length p) = ?len" "length ?tl \<le> ?len" "?len < 2 ^ 32"
      using "1.prems" sp(2) shrink_len [of len "length p" "length r"] by simp_all
    have "\<exists>rest'. replace_shrink p r (length p) ((w @ take k cs @ r) @ mid' @ ?tl @ 0 # rest) (length (w @ take k cs @ r) + length mid') (length (w @ take k cs @ r)) ?len =
      Some ((w @ take k cs @ r) @ replace_all p r ?tl @ 0 # rest', ?len + length (replace_all p r ?tl) - length ?tl)
      \<and> length rest' + length (replace_all p r ?tl) = length mid' + length ?tl + length rest"
      using "1.prems" len by (intro "1.IH" [OF _ Some]) (auto dest: in_set_dropD)
    then obtain rest' where ih: "replace_shrink p r (length p) ((w @ take k cs @ r) @ mid' @ ?tl @ 0 # rest) (length (w @ take k cs @ r) + length mid') (length (w @ take k cs @ r)) ?len =
      Some ((w @ take k cs @ r) @ replace_all p r ?tl @ 0 # rest', ?len + length (replace_all p r ?tl) - length ?tl)"
      "length rest' + length (replace_all p r ?tl) = length mid' + length ?tl + length rest" by blast
    have ix: "length (w @ take k cs @ r) = length w + k + length r" "length w + k + length r + length mid' = length w + length mid + k + length p"
      using lm' sp(2) by simp_all
    have res: "replace_all p r cs = take k cs @ r @ replace_all p r ?tl" using "1.prems"(1) Some by (simp add: replace_all.simps [of p r cs])
    have l: "?len + length (replace_all p r ?tl) - length ?tl = len + length (replace_all p r cs) - length cs"
      using sp(2) "1.prems" by (simp add: res)
    have "replace_shrink p r (length p) (w @ mid @ cs @ 0 # rest) (length w + length mid) (length w) len =
      replace_shrink p r (length p) ((w @ take k cs @ r) @ mid' @ ?tl @ 0 # rest) (length w + length mid + k + length p) (length w + k + length r) ?len"
      using "1.prems"(1) by (subst replace_shrink.simps) (simp only: c rd w1 w2 len Some bind.simps option.case length_0_conv if_False)
    also have "\<dots> = Some (w @ replace_all p r cs @ 0 # rest', len + length (replace_all p r cs) - length cs)"
      using ih(1) unfolding ix l by (simp add: res)
    moreover have "length rest' + length (replace_all p r cs) = length mid + length cs + length rest"
      using ih(2) sp(2) lm' by (simp add: res)
    ultimately show ?thesis by simp
  qed
qed

subsection \<open>One character by a longer string\<close>

lemma replace_all_char [simp]:
  "replace_all [c] r [] = []"
  "replace_all [c] r (x # xs) = (if x = c then r @ replace_all [c] r xs else x # replace_all [c] r xs)"
  by (simp add: replace_all.simps)
    (cases "strstr [c] xs"; simp add: replace_all.simps [of _ _ "x # xs"] replace_all.simps [of _ _ xs])

lemma replace_all_char_append: "replace_all [c] r (xs @ ys) = replace_all [c] r xs @ replace_all [c] r ys"
  by (induction xs) simp_all

lemma replace_all_char_notin: "c \<notin> set xs \<Longrightarrow> replace_all [c] r xs = xs"
  by (induction xs) auto

lemma length_replace_all_char: "length r = Suc d \<Longrightarrow> length (replace_all [c] r xs) = length xs + d * count_list xs c"
  by (induction xs) auto

lemma strstr_char_None: "strstr [c] xs = None \<Longrightarrow> count_list xs c = 0"
  by (induction xs) (auto split: if_splits)

lemma strstr_char_Some: "strstr [c] xs = Some k \<Longrightarrow> count_list xs c = Suc (count_list (drop (Suc k) xs) c) \<and> k < length xs"
  by (induction xs arbitrary: k) (auto split: if_splits)

lemma replace_all_nonzero: "0 \<notin> set xs \<Longrightarrow> 0 \<notin> set r \<Longrightarrow> 0 \<notin> set (replace_all p r xs)"
proof (induction p r xs rule: replace_all.induct)
  case (1 p r xs)
  then show ?case
    by (subst replace_all.simps) (auto split: option.splits dest: in_set_takeD in_set_dropD)
qed

lemma replace_count_ok:
  assumes "0 \<notin> set cs" "sz + d * count_list cs c < 2 ^ 32"
  shows "replace_count [c] (Suc 0) d (pre @ cs @ 0 # rest) (length pre) sz = Some (sz + d * count_list cs c)"
  using assms
proof (induction "length cs" arbitrary: cs pre sz rule: less_induct)
  case less
  show ?case
  proof (cases "strstr [c] cs")
    case None
    then show ?thesis using less.prems by (subst replace_count.simps) (simp add: cstring_parts strstr_char_None)
  next
    case (Some k)
    note k = strstr_char_Some [OF Some]
    let ?tl = "drop (Suc k) cs" and ?pre = "pre @ take (Suc k) cs"
    have ih: "replace_count [c] (Suc 0) d (?pre @ ?tl @ 0 # rest) (length ?pre) (add32 sz d) = Some (add32 sz d + d * count_list ?tl c)"
      using less.prems k by (intro less.hyps) (auto simp: add32_def dest: in_set_dropD)
    have e: "length ?pre = length pre + k + Suc 0" "?pre @ ?tl @ 0 # rest = pre @ cs @ 0 # rest" "add32 sz d = sz + d"
      using less.prems k by (simp_all add: add32_def)
    show ?thesis using ih k Some unfolding e
      by (subst replace_count.simps) (simp add: cstring_parts [OF less.prems(1)] e(3))
  qed
qed

text \<open>The three writes of a pass that replaces \<open>p\<close> by \<open>r\<close>, with room for the \<open>d\<close> bytes more.\<close>

lemma grow_step:
  assumes "length r = length p + d" "d \<le> length rest"
  shows "\<exists>b1 b2 rest'. block_write (length ys + length p + d) ts (ys @ p @ ts @ 0 # rest) = Some b1
    \<and> put_at b1 (length ys + length p + length ts + d) 0 = Some b2
    \<and> block_write (length ys) r b2 = Some (ys @ r @ ts @ 0 # rest') \<and> length rest' + d = length rest"
proof -
  let ?x = "ts @ 0 # rest"
  define A where "A = take d ?x"
  define B where "B = take (length ts) (drop d ?x)"
  have "drop (d + length ts) ?x \<noteq> []" using assms(2) by simp
  then obtain z rest' where z: "drop (d + length ts) ?x = z # rest'" by (meson list.exhaust)
  have x: "?x = A @ B @ z # rest'"
    unfolding A_def B_def z [symmetric] by (simp only: add.commute [of d] drop_drop [symmetric] append_take_drop_id)
  have l: "length A = d" "length B = length ts" using assms(2) by (auto simp only: A_def B_def length_take length_drop length_append list.size)
  have n: "length rest' + d = length rest" using l arg_cong [OF x, of length] by simp
  have "block_write (length ys + length p + d) ts (ys @ p @ A @ B @ z # rest') = Some (ys @ p @ A @ ts @ z # rest')"
    using block_write_parts [OF l(2), of "ys @ p @ A" "z # rest'"] l(1) by (simp add: add.assoc)
  moreover have "put_at (ys @ p @ A @ ts @ z # rest') (length ys + length p + length ts + d) 0 = Some (ys @ p @ A @ ts @ 0 # rest')"
  proof -
    have e: "ys @ p @ A @ ts @ y # rest' = (ys @ p @ A @ ts) @ y # rest'" for y by simp
    have "length ys + length p + length ts + d = length (ys @ p @ A @ ts)" using l by simp
    then show ?thesis by (simp only: e put_at_def list_update_length) simp
  qed
  moreover have "block_write (length ys) r (ys @ p @ A @ ts @ 0 # rest') = Some (ys @ r @ ts @ 0 # rest')"
    using block_write_parts [of "p @ A" r ys "ts @ 0 # rest'"] l(1) assms(1) by simp
  ultimately show ?thesis using n unfolding x by blast
qed

lemma last_split:
  assumes "j < length ys" "ys ! j = c" "\<forall>k. j < k \<longrightarrow> k < length ys \<longrightarrow> ys ! k \<noteq> c"
  shows "ys = take j ys @ c # drop (Suc j) ys" "c \<notin> set (drop (Suc j) ys)"
  using assms by (metis id_take_nth_drop, auto simp: in_set_conv_nth)

lemma replace_grow_ok:
  assumes "str_ok t" "ws_buffer t \<noteq> None" "str t = [c]" "length r = Suc d" "0 \<notin> set r"
    and "str_ok s" "str s = ys @ zs" "length ys + length zs + d * count_list ys c \<le> ws_capacity s"
  shows "yields (replace_grow t r d s (int (length ys) - 1)) (replace_all [c] r ys @ zs)"
  using assms(6-)
proof (induction "length ys" arbitrary: ys zs s rule: less_induct)
  case less
  show ?case
  proof (cases "ys = []")
    case True
    then show ?thesis using less.prems by (simp add: replace_grow.simps yields_def)
  next
    case False
    let ?i = "length ys - 1"
    have len: "ws_len s = length ys + length zs" "ws_len t = Suc 0" using str_len [OF less.prems(1)] str_len [OF assms(1)] assms(3) less.prems(2) by simp_all
    have idx: "int (length ys) - 1 = int ?i" using False by (cases ys) simp_all
    have oc: "occurs_at [c] (str s) k \<longleftrightarrow> ys ! k = c" if "k < length ys" for k
      using that less.prems(2) by (simp add: occurs_at_take take_Suc_conv_app_nth nth_append hd_drop_conv_nth take_Suc)
    have pre: "str t \<noteq> []" "length (str t) \<le> length (str s)" "?i < ws_len s"
      using idx less.prems(2) len assms(3) by auto
    have le: "k \<le> ?i \<longleftrightarrow> k < length ys" for k using idx by auto
    obtain q where q: "lastIndexOf t ?i s = Some q"
      "if \<exists>k < length ys. occurs_at [c] (str s) k
       then 0 \<le> q \<and> nat q < length ys \<and> occurs_at [c] (str s) (nat q) \<and> (\<forall>k. nat q < k \<longrightarrow> k < length ys \<longrightarrow> \<not> occurs_at [c] (str s) k)
       else q = -1"
      using lastIndexOf_ok [OF less.prems(1) assms(1,2) pre, unfolded assms(3) le] by blast
    show ?thesis
    proof (cases "c \<in> set ys")
      case no: False
      then have "q = -1" using q(2) oc by (auto simp: in_set_conv_nth split: if_splits)
      then show ?thesis using q(1) less.prems no by (subst replace_grow.simps) (simp add: idx yields_def replace_all_char_notin)
    next
      case True
      define j where "j = nat q"
      have ex: "\<exists>k < length ys. occurs_at [c] (str s) k" using True oc by (auto simp: in_set_conv_nth)
      have j: "q = int j" "j < length ys" "ys ! j = c" "\<forall>k. j < k \<longrightarrow> k < length ys \<longrightarrow> ys ! k \<noteq> c"
        using q(2) [unfolded if_P [OF ex]] oc by (auto simp: j_def)
      note sp = last_split [OF j(2-4)]
      define ys1 ts where "ys1 = take j ys" and "ts = drop (Suc j) ys @ zs"
      have ys: "ys @ zs = ys1 @ c # ts" "length ys1 = j" "length ys + length zs = Suc (j + length ts)"
        using sp(1) j(2) by (auto simp: ys1_def ts_def)
      have cnt: "count_list ys c = Suc (count_list ys1 c)"
        using arg_cong [OF sp(1), of "\<lambda>l. count_list l c"] count_notin [OF sp(2)] by (simp add: ys1_def)
      have buf: "ws_buffer s \<noteq> None" using less.prems(1) len(1) j(2) by (auto simp: str_ok_def split: option.splits)
      obtain b rest where b: "ws_buffer s = Some b" "b = ys1 @ c # ts @ 0 # rest"
        using buf block_split [OF less.prems(1)] less.prems(2) ys(1) by fastforce
      have cap: "length b = ws_capacity s + 1" "ws_capacity s < 2 ^ 32" using less.prems(1) b(1) by (auto simp: str_ok_def)
      have d: "d \<le> length rest" "ws_len s + d \<le> ws_capacity s" using less.prems(3) cap b(2) ys len cnt by auto
      obtain b1 b2 rest' where st: "block_write (Suc (length ys1) + d) ts b = Some b1" "put_at b1 (Suc (length ys1 + length ts) + d) 0 = Some b2"
        "block_write (length ys1) r b2 = Some (ys1 @ r @ ts @ 0 # rest')" "length rest' + d = length rest"
        using grow_step [of r "[c]" d rest ys1 ts] assms(4) d(1) b(2) by (auto simp: add.assoc)
      let ?b = "ys1 @ r @ ts @ 0 # rest'" and ?xs = "ys1 @ r @ ts"
      let ?s = "s\<lparr>ws_buffer := Some ?b, ws_len := length ?xs\<rparr>"
      have z: "0 \<notin> set ?xs" using str_nonzero [OF less.prems(1)] less.prems(2) ys(1) assms(5) by auto
      have ok: "str_ok ?s \<and> str ?s = ?xs"
        using cap b(2) st(4) assms(4) d(2) len ys z by (intro str_ok_update) auto
      have "block_read (Suc j) (ws_len s - Suc j) b = Some ts" using b(2) ys len by (simp add: block_read_def)
      moreover have "add32 (ws_len s) d = length ?xs" "Suc (length ys1 + length ts) + d = length ?xs" using d(2) cap(2) len ys assms(4) by (simp_all add: add32_def)
      ultimately have "replace_grow t r d s (int (length ys) - 1) = replace_grow t r d ?s (int (length ys1) - 1)"
        using st b(1) q(1) ys(2) len(2) assms(4) unfolding idx j(1) by (subst replace_grow.simps) (simp add: Let_def add_ac)
      moreover have "yields (replace_grow t r d ?s (int (length ys1) - 1)) (replace_all [c] r ys1 @ r @ ts)"
        using ok ys j(2) less.prems(3) cnt assms(4) by (intro less.hyps) auto
      moreover have "replace_all [c] r ys @ zs = replace_all [c] r ys1 @ r @ ts"
        using arg_cong [OF sp(1), of "replace_all [c] r"] sp(2)
        by (simp add: replace_all_char_append replace_all_char_notin ys1_def ts_def)
      ultimately show ?thesis by simp
    qed
  qed
qed

lemma length_replace_same: "length r = length p \<Longrightarrow> length (replace_all p r xs) = length xs"
proof (induction p r xs rule: replace_all.induct)
  case (1 p r xs)
  show ?case
  proof (cases "p = [] \<or> strstr p xs = None")
    case True
    then show ?thesis by (subst replace_all.simps) auto
  next
    case False
    then obtain k where k: "strstr p xs = Some k" "p \<noteq> []" by auto
    then show ?thesis using "1.IH" [OF k(2,1) "1.prems"] strstr_split(2) [OF k(1)] "1.prems"
      by (subst replace_all.simps) simp
  qed
qed

lemma yields_update:
  "length (res @ 0 # rest) = ws_capacity s + 1 \<Longrightarrow> ws_capacity s < 2 ^ 32 \<Longrightarrow> 0 \<notin> set res \<Longrightarrow>
   yields (Some (s\<lparr>ws_buffer := Some (res @ 0 # rest), ws_len := length res\<rparr>)) res"
  using str_ok_update [of "res @ 0 # rest" s res] by (simp add: yields_def)

lemma changeBuffer_ok:
  assumes "str_ok s" "0 < ws_len s" "\<forall>n. mem n" "ws_capacity s < sz" "sz < 2 ^ 32 - 16"
  shows "\<exists>t. changeBuffer mem sz s = Some (True, t) \<and> str_ok t \<and> str t = str s \<and> ws_len t = ws_len s \<and> sz \<le> ws_capacity t"
  using reserve_ok [OF assms(1,3,5)] assms(2-4)
  by (auto simp: reserve_def changeBuffer_def Let_def split: bind_splits)

subsection \<open>Correctness\<close>

lemma ws_replace_ok:
  assumes "str_ok s" "str_ok pat" "str_ok rep" "\<forall>n. mem n"
    and "length (str rep) \<le> length (str pat) \<or> length (str pat) = 1 \<and> length (replace_all (str pat) (str rep) (str s)) < 2 ^ 32 - 16"
  shows "yields (ws_replace mem pat rep s) (replace_all (str pat) (str rep) (str s))"
proof (cases "ws_len s = 0 \<or> ws_len pat = 0")
  case True
  then have "str s = [] \<or> str pat = []" using str_len [OF assms(1)] str_len [OF assms(2)] by auto
  then have "replace_all (str pat) (str rep) (str s) = str s" by (auto simp: replace_all.simps)
  then show ?thesis using True assms(1) by (simp add: ws_replace_def yields_def)
next
  case False
  note len = str_len [OF assms(1)] str_len [OF assms(2)] str_len [OF assms(3)]
  let ?p = "str pat" and ?r = "str rep"
  obtain b p where bp: "ws_buffer s = Some b" "ws_buffer pat = Some p"
    using False assms(1,2) by (auto simp: str_ok_def split: option.splits)
  define rest where "rest = drop (Suc (ws_len s)) b"
  have b: "b = str s @ 0 # rest" using block_split [OF assms(1) bp(1)] by (simp add: rest_def)
  have p: "cstring p 0 = Some ?p" using cstring_at [OF assms(2) bp(2), of 0] by simp
  have r: "block_read 0 (ws_len rep) (old_block rep) = Some ?r"
    using assms(3) by (auto simp: str_ok_def str_def block_read_def old_block_def split: option.splits)
  have ne: "?p \<noteq> []" using False len by auto
  have nz: "0 \<notin> set (replace_all ?p ?r (str s))" "0 \<notin> set (str s)"
    using assms(1,3) by (simp_all add: replace_all_nonzero str_nonzero)
  have cap: "length b = ws_capacity s + 1" "ws_capacity s < 2 ^ 32" using assms(1) bp(1) by (auto simp: str_ok_def)
  consider "length ?r = length ?p" | "length ?r < length ?p" | "length ?r > length ?p" by linarith
  then show ?thesis
  proof cases
    case 1
    have "s\<lparr>ws_buffer := x\<rparr> = s\<lparr>ws_buffer := x, ws_len := length (replace_all ?p ?r (str s))\<rparr>" for x
      using len(1) length_replace_same [OF 1] by (cases s) simp
    then have "ws_replace mem pat rep s = Some (s\<lparr>ws_buffer := Some (replace_all ?p ?r (str s) @ 0 # rest), ws_len := length (replace_all ?p ?r (str s))\<rparr>)"
      using replace_same_ok [OF ne 1 nz(2), of "[]" rest] False bp p r len b 1 by (simp add: ws_replace_def)
    moreover have "length (replace_all ?p ?r (str s) @ 0 # rest) = ws_capacity s + 1"
      using cap(1) b length_replace_same [OF 1] by simp
    ultimately show ?thesis using yields_update cap(2) nz(1) by simp
  next
    case 2
    obtain rest' where rest': "replace_shrink ?p ?r (length ?p) b 0 0 (ws_len s) = Some (replace_all ?p ?r (str s) @ 0 # rest', length (replace_all ?p ?r (str s)))"
      "length rest' + length (replace_all ?p ?r (str s)) = length (str s) + length rest"
      using replace_shrink_ok [OF ne 2 nz(2), of "ws_len s" "[]" "[]" rest] len(1) cap assms(1) bp(1) b by (auto simp: str_ok_def)
    then have "ws_replace mem pat rep s = Some (s\<lparr>ws_buffer := Some (replace_all ?p ?r (str s) @ 0 # rest'), ws_len := length (replace_all ?p ?r (str s))\<rparr>)"
      using False bp p r len 2 by (simp add: ws_replace_def)
    moreover have "length (replace_all ?p ?r (str s) @ 0 # rest') = ws_capacity s + 1"
      using cap(1) b rest'(2) by simp
    ultimately show ?thesis using yields_update cap(2) nz(1) by simp
  next
    case 3
    then have one: "length ?p = 1" and sz: "length (replace_all ?p ?r (str s)) < 2 ^ 32 - 16" using assms(5) by auto
    obtain c where c: "?p = [c]" using one by (auto simp: length_Suc_conv)
    define d where "d = length ?r - 1"
    have d: "length ?r = Suc d" "0 < d" using 3 one by (simp_all add: d_def)
    have l: "ws_len pat = Suc 0" "ws_len rep = Suc d" using one d(1) len by simp_all
    let ?sz = "ws_len s + d * count_list (str s) c"
    have res: "length (replace_all ?p ?r (str s)) = ?sz" using length_replace_all_char [OF d(1)] len(1) c by simp
    have cnt: "replace_count ?p 1 d b 0 (ws_len s) = Some ?sz"
      using replace_count_ok [OF nz(2), of "ws_len s" d c "[]" rest] sz res b c by simp
    have grow: "yields (replace_grow pat ?r d u (int (ws_len s) - 1)) (replace_all ?p ?r (str s))"
      if "str_ok u" "str u = str s" "?sz \<le> ws_capacity u" for u
      using replace_grow_ok [OF assms(2) _ c d(1) str_nonzero [OF assms(3)] that(1), of "str s" "[]"] that bp(2) len(1) c by simp
    show ?thesis
    proof (cases "count_list (str s) c = 0")
      case True
      then have "ws_replace mem pat rep s = Some s" using False bp p r cnt d(2) True by (simp add: l ws_replace_def Let_def)
      then show ?thesis using True assms(1) c by (simp add: yields_def replace_all_char_notin count_list_0_iff)
    next
      case some: False
      show ?thesis
      proof (cases "?sz > ws_capacity s")
        case True
        then obtain u where u: "changeBuffer mem ?sz s = Some (True, u)" "str_ok u" "str u = str s" "ws_len u = ws_len s" "?sz \<le> ws_capacity u"
          using changeBuffer_ok [OF assms(1) _ assms(4) True] False sz res by auto
        then have "ws_replace mem pat rep s = replace_grow pat ?r d u (int (ws_len s) - 1)"
          using False bp p r cnt d(2) some True u(4) by (simp add: l ws_replace_def Let_def)
        then show ?thesis using grow [OF u(2,3,5)] by simp
      next
        case fits: False
        then have "ws_replace mem pat rep s = replace_grow pat ?r d s (int (ws_len s) - 1)"
          using False bp p r cnt d(2) some fits by (simp add: l ws_replace_def Let_def)
        then show ?thesis using grow [OF assms(1)] fits by simp
      qed
    qed
  qed
qed

text \<open>
  C15: \<open>replace\<close> turns every occurrence of the pattern, found from the left without overlap, into the
  replacement, for every pattern when the replacement is not longer, and for a pattern of one character
  when it is, as long as memory lasts and the sizes fit.
\<close>

theorem string_replace_correct:
  assumes "str_ok s" "str_ok pat" "str_ok rep" "\<forall>n. mem n"
    and "length (str rep) \<le> length (str pat) \<or> length (str pat) = 1 \<and> length (replace_all (str pat) (str rep) (str s)) < 2 ^ 32 - 16"
  shows "yields (ws_replace mem pat rep s) (replace_all (str pat) (str rep) (str s))"
  using assms by (rule ws_replace_ok)

lemma string_replace_correct_witness:
  "yields (ws_replace (\<lambda>n. True) (sample_string [98]) (sample_string [99, 100]) (sample_string [97, 98, 98])) [97, 99, 100, 99, 100]"
  using string_replace_correct [of "sample_string [97, 98, 98]" "sample_string [98]" "sample_string [99, 100]" "\<lambda>n. True"]
    sample_string [of "[97, 98, 98]"] sample_string [of "[98]"] sample_string [of "[99, 100]"]
  by simp


subsection \<open>A longer pattern\<close>










end
