(* ===== verification/Dns.thy ===== *)
theory Dns
  imports Wstring_Replace
begin

section \<open>The DNS server\<close>

text \<open>
  \<open>libraries/DNSServer/src/DNSServer.cpp\<close>: a server that answers queries for one name, or for every name,
  with a fixed address. It reads the name of a query from the packet into a \<open>String\<close>. A packet is the
  list of its bytes; an access behind its end is undefined (\<open>None\<close>). The result of handling a packet is the
  datagram sent, if any. The UDP socket (\<open>WiFiUdp.cpp\<close>, \<open>UdpContext.h\<close>) is not modelled
  and is a parameter: \<open>udp port\<close> tells whether it could be opened, and it delivers a packet and takes a datagram as a whole. \<open>mem n\<close> tells whether \<open>malloc(n)\<close> succeeds.
  Bit fields are laid out from the low bit, as the compiler of the chip does.
\<close>

record dns =
  dns_domainName :: ws
  dns_resolvedIP :: "byte list"
  dns_ttl :: u32
  dns_errorReplyCode :: nat

subsection \<open>Operations\<close>

definition htonl :: "u32 \<Rightarrow> u32" where
  "htonl n = push_bit 24 (n AND 0xff) OR push_bit 8 (n AND 0xff00) OR drop_bit 8 (n AND 0xff0000) OR drop_bit 24 (n AND 0xff000000)"

lemma bytes_as_masks: "(0xff :: u32) = mask 8" "(0xff00 :: u32) = push_bit 8 (mask 8)" "(0xff0000 :: u32) = push_bit 16 (mask 8)" "(0xff000000 :: u32) = push_bit 24 (mask 8)"
  by (simp_all add: mask_eq_exp_minus_1 push_bit_eq_mult)

lemma le32_htonl: "le32 (htonl x) = rev (le32 x)"
  unfolding htonl_def bytes_as_masks
  by (auto simp: le32_def bit_simps ac_simps intro!: bit_eqI)

definition dns_new :: dns where
  "dns_new = \<lparr>dns_domainName = ws_init, dns_resolvedIP = [0, 0, 0, 0], dns_ttl = htonl 60, dns_errorReplyCode = 3\<rparr>"

definition setErrorReplyCode :: "nat \<Rightarrow> dns \<Rightarrow> dns" where
  "setErrorReplyCode replyCode d = d\<lparr>dns_errorReplyCode := replyCode\<rparr>"

definition setTTL :: "u32 \<Rightarrow> dns \<Rightarrow> dns" where
  "setTTL ttl d = d\<lparr>dns_ttl := htonl ttl\<rparr>"

definition downcaseAndRemoveWwwPrefix :: "(nat \<Rightarrow> bool) \<Rightarrow> ws \<Rightarrow> ws option" where
  "downcaseAndRemoveWwwPrefix mem domainName = do {
     domainName \<leftarrow> toLowerCase domainName;
     pat \<leftarrow> ws_of_cstr mem (Some [119, 119, 119, 46]);
     rep \<leftarrow> ws_of_cstr mem (Some []);
     ws_replace mem pat rep domainName
   }"

definition dns_start :: "(nat \<Rightarrow> bool) \<Rightarrow> (nat \<Rightarrow> bool) \<Rightarrow> nat \<Rightarrow> ws \<Rightarrow> byte list \<Rightarrow> dns \<Rightarrow> (bool \<times> dns) option" where
  "dns_start mem udp port domainName resolvedIP d = do {
     name \<leftarrow> ws_assign mem domainName (dns_domainName d);
     name \<leftarrow> downcaseAndRemoveWwwPrefix mem name;
     Some (udp port, d\<lparr>dns_domainName := name, dns_resolvedIP := resolvedIP\<rparr>)
   }"

definition requestIncludesOnlyOneQuestion :: "byte list \<Rightarrow> bool option" where
  "requestIncludesOnlyOneQuestion b = do {
     qd \<leftarrow> block_read 4 2 b;
     if qd \<noteq> [0, 1] then Some False
     else do {
       an \<leftarrow> block_read 6 2 b;
       if an \<noteq> [0, 0] then Some False
       else do {
         ns \<leftarrow> block_read 8 2 b;
         if ns \<noteq> [0, 0] then Some False
         else do { ar \<leftarrow> block_read 10 2 b; Some (ar = [0, 0]) }
       }
     }
   }"

text \<open>One label: \<open>n\<close> characters behind the length at \<open>pos\<close>.\<close>

primrec label_loop :: "(nat \<Rightarrow> bool) \<Rightarrow> byte list \<Rightarrow> nat \<Rightarrow> nat \<Rightarrow> ws \<Rightarrow> (nat \<times> ws) option" where
  "label_loop mem b 0 pos s = Some (pos, s)"
| "label_loop mem b (Suc n) pos s = do {
     let pos = pos + 1;
     c \<leftarrow> get_at b (12 + pos);
     (ok, s) \<leftarrow> ws_concat_char mem c s;
     label_loop mem b n pos s
   }"

lemma label_loop_pos: "label_loop mem b n pos s = Some (q, t) \<Longrightarrow> q = pos + n"
proof (induction n arbitrary: pos s)
  case (Suc n)
  then show ?case by (auto split: bind_splits dest: Suc.IH)
qed simp

function name_loop :: "(nat \<Rightarrow> bool) \<Rightarrow> byte list \<Rightarrow> nat \<Rightarrow> ws \<Rightarrow> ws option" where
  "name_loop mem b pos s = do {
     labelLength \<leftarrow> get_at b (12 + pos);
     (pos', s) \<leftarrow> label_loop mem b (unat labelLength) pos s;
     c \<leftarrow> get_at b (12 + (pos' + 1));
     if c = 0 then downcaseAndRemoveWwwPrefix mem s
     else do {
       (ok, s) \<leftarrow> ws_concat_cstr mem (Some [46]) 1 s;
       name_loop mem b (pos' + 1) s
     }
   }"
  by pat_completeness auto
termination
  by (relation "measure (\<lambda>(mem, b, pos, s). length b - pos)") (auto simp: get_at_def dest!: label_loop_pos split: if_splits)

declare name_loop.simps [simp del]

definition getDomainNameWithoutWwwPrefix :: "(nat \<Rightarrow> bool) \<Rightarrow> byte list \<Rightarrow> ws option" where
  "getDomainNameWithoutWwwPrefix mem b = do {
     s \<leftarrow> ws_of_cstr mem (Some []);
     c \<leftarrow> get_at b 12;
     if c = 0 then Some s else name_loop mem b 0 s
   }"

definition replyWithIP :: "byte list \<Rightarrow> dns \<Rightarrow> byte list option" where
  "replyWithIP b d = do {
     flags \<leftarrow> get_at b 2;
     b \<leftarrow> put_at b 2 (flags OR 0x80);
     qd \<leftarrow> block_read 4 2 b;
     b \<leftarrow> block_write 6 qd b;
     Some (b @ [192, 12] @ [0, 1] @ [0, 1] @ le32 (dns_ttl d) @ [0, 4] @ dns_resolvedIP d)
   }"

definition replyWithCustomCode :: "byte list \<Rightarrow> dns \<Rightarrow> byte list option" where
  "replyWithCustomCode b d = do {
     flags \<leftarrow> get_at b 2;
     b \<leftarrow> put_at b 2 (flags OR 0x80);
     r \<leftarrow> get_at b 3;
     b \<leftarrow> put_at b 3 ((r AND 0xF0) OR (of_nat (dns_errorReplyCode d) AND 0x0F));
     b \<leftarrow> block_write 4 [0, 0] b;
     block_read 0 12 b
   }"

definition processNextRequest :: "(nat \<Rightarrow> bool) \<Rightarrow> byte list \<Rightarrow> dns \<Rightarrow> byte list option option" where
  "processNextRequest mem packet d =
     (if packet = [] \<or> \<not> mem (length packet) then Some None
      else do {
        flags \<leftarrow> get_at packet 2;
        let query = flags AND 0x80 = 0;
        answer \<leftarrow> (if query \<and> flags AND 0x78 = 0 then do {
            one \<leftarrow> requestIncludesOnlyOneQuestion packet;
            if \<not> one then Some False
            else do {
              all \<leftarrow> equals_cstr (Some [42]) (dns_domainName d);
              if all then Some True
              else do { name \<leftarrow> getDomainNameWithoutWwwPrefix mem packet; ws_equals name (dns_domainName d) }
            }
          } else Some False);
        if answer then map_option Some (replyWithIP packet d)
        else if query then map_option Some (replyWithCustomCode packet d)
        else Some None
      })"

subsection \<open>Names\<close>

text \<open>The name in a packet and in a string, and what the server compares.\<close>

definition encode_labels :: "byte list list \<Rightarrow> byte list" where
  "encode_labels ls = concat (map (\<lambda>l. of_nat (length l) # l) ls) @ [0]"

fun join_labels :: "byte list list \<Rightarrow> byte list" where
  "join_labels [] = []"
| "join_labels [l] = l"
| "join_labels (l # ls) = l @ 46 # join_labels ls"

definition label_ok :: "byte list \<Rightarrow> bool" where
  "label_ok l \<longleftrightarrow> l \<noteq> [] \<and> length l < 256 \<and> 0 \<notin> set l"

definition normal :: "byte list \<Rightarrow> byte list" where
  "normal xs = replace_all [119, 119, 119, 46] [] (map tolower xs)"

lemma of_cstr_ok:
  assumes "\<forall>n. mem n" "0 \<notin> set cs" "length cs < 2 ^ 32 - 16"
  shows "\<exists>t. ws_of_cstr mem (Some cs) = Some t \<and> str_ok t \<and> str t = cs"
  using copy_ok [of ws_init, OF _ assms] by (auto simp: ws_of_cstr_def str_ok_def ws_init_def)

lemma downcase_ok:
  assumes "str_ok s" "\<forall>n. mem n"
  shows "yields (downcaseAndRemoveWwwPrefix mem s) (normal (str s))"
proof -
  obtain t where t: "toLowerCase s = Some t" "str_ok t" "str t = map tolower (str s)"
    using on_chars_ok [OF assms(1), of tolower] tolower_nonzero by (auto simp: toLowerCase_def)
  obtain p where p: "ws_of_cstr mem (Some [119, 119, 119, 46]) = Some p" "str_ok p" "str p = [119, 119, 119, 46]"
    using of_cstr_ok [OF assms(2), of "[119, 119, 119, 46]"] by auto
  obtain q where q: "ws_of_cstr mem (Some []) = Some q" "str_ok q" "str q = []"
    using of_cstr_ok [OF assms(2), of "[]"] by auto
  show ?thesis using ws_replace_ok [OF t(2) p(2) q(2) assms(2)] t p q by (simp add: downcaseAndRemoveWwwPrefix_def normal_def)
qed

lemma concat_char_ok:
  assumes "str_ok s" "\<forall>n. mem n" "c \<noteq> 0" "ws_len s + 1 < 2 ^ 32 - 16"
  shows "\<exists>t. ws_concat_char mem c s = Some (True, t) \<and> str_ok t \<and> str t = str s @ [c] \<and> ws_len t = ws_len s + 1"
proof -
  obtain t where t: "ws_concat_cstr mem (Some [c]) 1 s = Some (True, t)" "str_ok t" "str t = str s @ [c]"
    using concat_cstr_ok [OF assms(1,2), of "[c]"] assms(3,4) by auto
  then show ?thesis using assms(3) str_len [OF t(2)] str_len [OF assms(1)] by (simp add: ws_concat_char_def)
qed

lemma label_loop_ok:
  assumes "str_ok s" "\<forall>n. mem n" "0 \<notin> set l" "ws_len s + length l < 2 ^ 32 - 16" "length pre = 13 + pos"
  shows "\<exists>t. label_loop mem (pre @ l @ rest) (length l) pos s = Some (pos + length l, t) \<and> str_ok t \<and> str t = str s @ l"
  using assms
proof (induction l arbitrary: pre pos s)
  case (Cons c l)
  obtain t where t: "ws_concat_char mem c s = Some (True, t)" "str_ok t" "str t = str s @ [c]" "ws_len t = ws_len s + 1"
    using concat_char_ok [OF Cons.prems(1,2), of c] Cons.prems(3,4) by auto
  then show ?case using Cons.IH [OF t(2) Cons.prems(2), of "pre @ [c]" "pos + 1"] Cons.prems(3-5) by (auto simp: get_at_def nth_append)
qed simp

lemma encode_labels_Cons: "encode_labels (l # ls) = of_nat (length l) # l @ encode_labels ls"
  by (simp add: encode_labels_def)

lemma encode_labels_hd: "\<forall>l \<in> set ls. label_ok l \<Longrightarrow> encode_labels ls ! 0 = 0 \<longleftrightarrow> ls = []"
  by (cases ls) (auto simp: encode_labels_def label_ok_def unat_eq_0 [symmetric] unat_of_nat)

lemma name_loop_ok:
  assumes "\<forall>n. mem n" "ls \<noteq> []" "\<forall>l \<in> set ls. label_ok l" "length pre = 12 + pos" "str_ok s"
    and "ws_len s + length (join_labels ls) < 2 ^ 32 - 16"
  shows "yields (name_loop mem (pre @ encode_labels ls @ rest) pos s) (normal (str s @ join_labels ls))"
  using assms(2-)
proof (induction ls arbitrary: pre pos s)
  case (Cons l ls)
  let ?b = "pre @ encode_labels (l # ls) @ rest" and ?pre = "pre @ of_nat (length l) # l"
  have l: "0 \<notin> set l" "unat (of_nat (length l) :: byte) = length l" using Cons.prems(2) by (simp_all add: label_ok_def unat_of_nat)
  have j: "join_labels (l # ls) = l @ (if ls = [] then [] else 46 # join_labels ls)" by (cases ls) simp_all
  obtain t where t: "label_loop mem ?b (length l) pos s = Some (pos + length l, t)" "str_ok t" "str t = str s @ l"
    using label_loop_ok [OF Cons.prems(4) assms(1) l(1), of "pre @ [of_nat (length l)]" pos "encode_labels ls @ rest"] Cons.prems j
    by (auto simp: encode_labels_Cons)
  have g: "get_at ?b (12 + pos) = Some (of_nat (length l))" using Cons.prems(3) by (simp add: get_at_def encode_labels_Cons nth_append)
  have c: "get_at ?b (12 + (pos + length l + 1)) = Some (encode_labels ls ! 0)"
    using Cons.prems(3) by (simp add: get_at_def encode_labels_Cons nth_append) (simp add: encode_labels_def)
  show ?case
  proof (cases "ls = []")
    case True
    then have "name_loop mem ?b pos s = downcaseAndRemoveWwwPrefix mem t"
      using g t(1) c l(2) encode_labels_hd [of ls] by (subst name_loop.simps) simp
    then show ?thesis using downcase_ok [OF t(2) assms(1)] t(3) True j by simp
  next
    case False
    obtain u where u: "ws_concat_cstr mem (Some [46]) 1 t = Some (True, u)" "str_ok u" "str u = str t @ [46]"
      using concat_cstr_ok [OF t(2) assms(1), of "[46]"] str_len [OF t(2)] str_len [OF Cons.prems(4)] t(3) Cons.prems(5) j False by auto
    have "name_loop mem ?b pos s = name_loop mem (?pre @ encode_labels ls @ rest) (pos + length l + 1) u"
      using g t(1) c l(2) encode_labels_hd [of ls] Cons.prems(2) False u(1) by (subst name_loop.simps) (simp add: encode_labels_Cons)
    then show ?thesis
      using Cons.IH [of ?pre "pos + length l + 1" u] Cons.prems False u j t(3) str_len [OF u(2)] str_len [OF Cons.prems(4)] by simp
  qed
qed simp

lemma start_ok:
  assumes "\<forall>n. mem n" "str_ok name" "ws_buffer name \<noteq> None" "ws_len name < 2 ^ 32 - 16" "str_ok (dns_domainName d)"
  shows "\<exists>u. dns_start mem udp port name ip d = Some (udp port, d\<lparr>dns_domainName := u, dns_resolvedIP := ip\<rparr>) \<and> str_ok u \<and> str u = normal (str name)"
proof -
  obtain b where b: "ws_buffer name = Some b" using assms(3) by auto
  obtain t where t: "ws_assign mem name (dns_domainName d) = Some t" "str_ok t" "str t = str name"
    using copy_ok [OF assms(5,1) str_nonzero [OF assms(2)]] str_len [OF assms(2)] assms(4) cstring_at [OF assms(2) b, of 0]
    by (auto simp: ws_assign_def b)
  show ?thesis using downcase_ok [OF t(2) assms(1)] t(1,3)
    by (auto simp: dns_start_def yields_def split: option.splits)
qed

lemma getDomainName_ok:
  assumes "\<forall>n. mem n" "ls \<noteq> []" "\<forall>l \<in> set ls. label_ok l" "length (join_labels ls) < 2 ^ 32 - 16" "length hdr = 12"
  shows "yields (getDomainNameWithoutWwwPrefix mem (hdr @ encode_labels ls @ rest)) (normal (join_labels ls))"
proof -
  obtain s where s: "ws_of_cstr mem (Some []) = Some s" "str_ok s" "str s = []" using of_cstr_ok [OF assms(1), of "[]"] by auto
  have "get_at (hdr @ encode_labels ls @ rest) 12 = Some (encode_labels ls ! 0)"
    using assms(5) by (simp add: get_at_def nth_append) (simp add: encode_labels_def)
  moreover have "encode_labels ls ! 0 \<noteq> 0" using encode_labels_hd [OF assms(3)] assms(2) by simp
  ultimately show ?thesis
    using name_loop_ok [OF assms(1-3), of hdr 0 s rest] s str_len [OF s(2)] assms(4,5) by (simp add: getDomainNameWithoutWwwPrefix_def)
qed

definition query_header :: "byte \<Rightarrow> byte \<Rightarrow> byte \<Rightarrow> byte \<Rightarrow> byte list" where
  "query_header i1 i2 flags r = [i1, i2, flags, r, 0, 1, 0, 0, 0, 0, 0, 0]"

lemma flags_query:
  assumes "flags AND 0xF8 = (0 :: byte)"
  shows "flags AND 0x80 = 0" "flags AND 0x78 = 0"
proof -
  have "flags AND 0x80 = (flags AND 0xF8) AND 0x80" "flags AND 0x78 = (flags AND 0xF8) AND 0x78" by (simp_all add: and.assoc)
  then show "flags AND 0x80 = 0" "flags AND 0x78 = 0" using assms by simp_all
qed

lemma process_query:
  assumes "flags AND 0xF8 = 0" "mem (length (query_header i1 i2 flags r @ q))" "str_ok (dns_domainName d)"
    and "str (dns_domainName d) = [42] \<or> yields (getDomainNameWithoutWwwPrefix mem (query_header i1 i2 flags r @ q)) name"
  shows "processNextRequest mem (query_header i1 i2 flags r @ q) d = map_option Some
    (if str (dns_domainName d) = [42] \<or> name = str (dns_domainName d) then replyWithIP (query_header i1 i2 flags r @ q) d
     else replyWithCustomCode (query_header i1 i2 flags r @ q) d)"
proof -
  let ?p = "query_header i1 i2 flags r @ q"
  have one: "requestIncludesOnlyOneQuestion ?p = Some True"
    by (simp add: requestIncludesOnlyOneQuestion_def query_header_def block_read_def)
  have f: "get_at ?p 2 = Some flags" "query_header i1 i2 flags r \<noteq> []" by (simp_all add: get_at_def query_header_def)
  have e: "equals_cstr (Some [42]) (dns_domainName d) = Some (str (dns_domainName d) = [42])" using assms(3) by (intro equals_cstr_ok) simp_all
  show ?thesis
  proof (cases "str (dns_domainName d) = [42]")
    case True
    then show ?thesis using one f e assms(2) flags_query [OF assms(1)] by (simp add: processNextRequest_def)
  next
    case False
    then obtain n where n: "getDomainNameWithoutWwwPrefix mem ?p = Some n" "str_ok n" "str n = name"
      using assms(4) by (auto simp: yields_def split: option.splits)
    then show ?thesis using False one f e assms(2) flags_query [OF assms(1)] equals_ok [OF n(2) assms(3)]
      by (simp add: processNextRequest_def)
  qed
qed

text \<open>
  C13: The server started for a name answers every well-formed query of one question: if it was started
  for \<open>*\<close>, or the name asked for is the server's name (ignoring case and any \<open>www.\<close> in either), the reply is
  the query, marked as a response with one answer, and an address record with the address and the
  time to live; otherwise it is the header marked as a response with the error code and no question.
\<close>

theorem dns_answers_queries:
  assumes "\<forall>n. mem n" "str_ok name" "ws_buffer name \<noteq> None" "ws_len name < 2 ^ 32 - 16" "code < 16"
    and "flags AND 0xF8 = 0" "ls \<noteq> []" "\<forall>l \<in> set ls. label_ok l" "length (join_labels ls) < 2 ^ 32 - 16"
  shows "\<exists>d. dns_start mem udp port name ip (setErrorReplyCode code (setTTL ttl dns_new)) = Some (udp port, d) \<and>
    processNextRequest mem (query_header i1 i2 flags r @ encode_labels ls @ rest) d = Some (Some
      (if normal (str name) = [42] \<or> normal (join_labels ls) = normal (str name)
       then [i1, i2, flags OR 0x80, r, 0, 1, 0, 1, 0, 0, 0, 0] @ encode_labels ls @ rest
         @ [192, 12, 0, 1, 0, 1] @ rev (le32 ttl) @ [0, 4] @ ip
       else [i1, i2, flags OR 0x80, r AND 0xF0 OR of_nat code, 0, 0, 0, 0, 0, 0, 0, 0]))"
proof -
  let ?d0 = "setErrorReplyCode code (setTTL ttl dns_new)" and ?q = "encode_labels ls @ rest"
  have "str_ok (dns_domainName ?d0)" by (simp add: setErrorReplyCode_def setTTL_def dns_new_def str_ok_def ws_init_def)
  from start_ok [OF assms(1-4) this, of udp port ip] obtain u where
    u: "dns_start mem udp port name ip ?d0 = Some (udp port, ?d0\<lparr>dns_domainName := u, dns_resolvedIP := ip\<rparr>)" "str_ok u" "str u = normal (str name)" by blast
  let ?d = "?d0\<lparr>dns_domainName := u, dns_resolvedIP := ip\<rparr>"
  have "yields (getDomainNameWithoutWwwPrefix mem (query_header i1 i2 flags r @ ?q)) (normal (join_labels ls))"
    by (intro getDomainName_ok assms) (simp add: query_header_def)
  then have p: "processNextRequest mem (query_header i1 i2 flags r @ ?q) ?d = map_option Some
    (if str u = [42] \<or> normal (join_labels ls) = str u then replyWithIP (query_header i1 i2 flags r @ ?q) ?d
     else replyWithCustomCode (query_header i1 i2 flags r @ ?q) ?d)"
    using process_query [OF assms(6), of mem i1 i2 r ?q ?d] assms(1) u(2) by simp
  have ip: "replyWithIP (query_header i1 i2 flags r @ ?q) ?d = Some ([i1, i2, flags OR 0x80, r, 0, 1, 0, 1, 0, 0, 0, 0] @ ?q
      @ [192, 12, 0, 1, 0, 1] @ rev (le32 ttl) @ [0, 4] @ ip)"
    by (simp add: replyWithIP_def query_header_def get_at_def put_at_def block_read_def block_write_def setErrorReplyCode_def setTTL_def le32_htonl)
  have "(of_nat code :: byte) AND mask 4 = of_nat code"
    using assms(5) by (simp only: take_bit_eq_mask [symmetric]) (simp add: take_bit_of_nat take_bit_nat_eq_self)
  then have "(of_nat code :: byte) AND 0x0F = of_nat code" by (simp add: mask_eq_exp_minus_1)
  then have "replyWithCustomCode (query_header i1 i2 flags r @ ?q) ?d = Some [i1, i2, flags OR 0x80, r AND 0xF0 OR of_nat code, 0, 0, 0, 0, 0, 0, 0, 0]"
    by (simp add: replyWithCustomCode_def query_header_def get_at_def put_at_def block_read_def block_write_def setErrorReplyCode_def setTTL_def)
  then show ?thesis using u(1,3) p ip by simp
qed

text \<open>A query for \<open>Www.a\<close> to a server for \<open>a\<close>, and one for \<open>b\<close>.\<close>

lemma dns_answers_queries_witness:
  "\<exists>d. dns_start (\<lambda>n. True) (\<lambda>p. True) 53 (sample_string [97]) [10, 0, 0, 1] (setErrorReplyCode 3 (setTTL 60 dns_new)) = Some (True, d) \<and>
    processNextRequest (\<lambda>n. True) (query_header 7 8 1 0 @ [3, 87, 119, 119, 1, 97, 0] @ [0, 1, 0, 1]) d
      = Some (Some ([7, 8, 0x81, 0, 0, 1, 0, 1, 0, 0, 0, 0] @ [3, 87, 119, 119, 1, 97, 0] @ [0, 1, 0, 1]
          @ [192, 12, 0, 1, 0, 1] @ [0, 0, 0, 60] @ [0, 4] @ [10, 0, 0, 1])) \<and>
    processNextRequest (\<lambda>n. True) (query_header 7 8 1 0 @ [1, 98, 0] @ [0, 1, 0, 1]) d
      = Some (Some [7, 8, 0x81, 3, 0, 0, 0, 0, 0, 0, 0, 0])"
proof -
  have n: "normal (str (sample_string [97])) = [97]" "normal (join_labels [[87, 119, 119], [97]]) = [97]" "normal (join_labels [[98]]) = [98]"
    using sample_string [of "[97]"] by (simp_all add: normal_def tolower_def replace_all.simps)
  have e: "encode_labels [[87, 119, 119], [97]] = [3, 87, 119, 119, 1, 97, 0]" "encode_labels [[98]] = [1, 98, 0]" by (simp_all add: encode_labels_def)
  have t: "rev (le32 60) = [0, 0, 0, 60]" by (simp add: le32_def)
  note s = sample_string [of "[97]"]
  show ?thesis
    using dns_answers_queries [of "\<lambda>n. True" "sample_string [97]" 3 1 "[[87, 119, 119], [97]]" "\<lambda>p. True" 53 "[10, 0, 0, 1]" 60 7 8 0 "[0, 1, 0, 1]"]
      dns_answers_queries [of "\<lambda>n. True" "sample_string [97]" 3 1 "[[98]]" "\<lambda>p. True" 53 "[10, 0, 0, 1]" 60 7 8 0 "[0, 1, 0, 1]"] s n e t
    by (auto simp: label_ok_def)
qed

lemma short_undefined:
  assumes "length packet < 12"
  shows "requestIncludesOnlyOneQuestion packet \<noteq> Some True" "replyWithCustomCode packet d = None"
  using assms by (auto simp: requestIncludesOnlyOneQuestion_def replyWithCustomCode_def block_read_def block_write_def get_at_def put_at_def
      split: if_splits bind_splits)

lemma name_loop_undefined:
  assumes "length b \<le> 13 + pos + unat l" "get_at b (12 + pos) = Some l"
  shows "name_loop mem b pos s = None"
  using assms by (subst name_loop.simps) (auto simp: get_at_def dest!: label_loop_pos split: bind_splits)

text \<open>
  C39: Malformed packets make the server read outside of the packet. A packet of fewer than 12 bytes that
  has no flags or is marked as a query is undefined whatever it holds, and so is a query whose first
  label is at least as long as what is left of the packet, for every server that is not started for \<open>*\<close>.
\<close>

theorem dns_malformed_undefined:
  assumes "\<forall>n. mem n"
  shows "(packet \<noteq> [] \<and> length packet < 12 \<and> (length packet \<le> 2 \<or> packet ! 2 AND 0x80 = 0) \<longrightarrow> processNextRequest mem packet d = None) \<and>
    (flags AND 0xF8 = 0 \<and> str_ok (dns_domainName d) \<and> str (dns_domainName d) \<noteq> [42] \<and> l \<noteq> 0 \<and> length cs \<le> unat l \<longrightarrow>
      processNextRequest mem (query_header i1 i2 flags r @ l # cs) d = None)"
proof (intro conjI impI; elim conjE)
  assume p: "packet \<noteq> []" "length packet < 12" "length packet \<le> 2 \<or> packet ! 2 AND 0x80 = 0"
  show "processNextRequest mem packet d = None"
    using p assms short_undefined [OF p(2)]
    by (cases "requestIncludesOnlyOneQuestion packet") (auto simp: processNextRequest_def get_at_def)
next
  assume q: "flags AND 0xF8 = 0" "str_ok (dns_domainName d)" "str (dns_domainName d) \<noteq> [42]" "l \<noteq> 0" "length cs \<le> unat l"
  let ?p = "query_header i1 i2 flags r @ l # cs"
  have "get_at ?p 12 = Some l" "length ?p \<le> 13 + unat l" using q(5) by (simp_all add: get_at_def query_header_def)
  then have "getDomainNameWithoutWwwPrefix mem ?p = None"
    using name_loop_undefined [of ?p 0 l mem] q(4) by (auto simp: getDomainNameWithoutWwwPrefix_def split: bind_splits)
  moreover have "requestIncludesOnlyOneQuestion ?p = Some True" "get_at ?p 2 = Some flags"
    by (simp_all add: requestIncludesOnlyOneQuestion_def query_header_def block_read_def get_at_def)
  moreover have "equals_cstr (Some [42]) (dns_domainName d) = Some False" using q(2,3) equals_cstr_ok [of "dns_domainName d" "[42]"] by simp
  ultimately show "processNextRequest mem ?p d = None"
    using flags_query [OF q(1)] assms by (simp add: processNextRequest_def)
qed

lemma dns_malformed_undefined_witness:
  "processNextRequest (\<lambda>n. True) [7] dns_new = None \<and> processNextRequest (\<lambda>n. True) (query_header 7 8 1 0 @ [63, 97, 98]) dns_new = None"
  using dns_malformed_undefined [of "\<lambda>n. True" "[7]" dns_new 1 63 "[97, 98]" 7 8 0]
  by (simp add: dns_new_def str_ok_def str_def ws_init_def)

end
