(* ===== verification/Streams.thy ===== *)
theory Streams
  imports Wstring
begin

section \<open>Printing to and parsing from streams\<close>

text \<open>
  The number output of \<open>Print.cpp\<close>, the parsing and reading functions of \<open>Stream.cpp\<close>, and \<open>StreamString.cpp\<close>, a
  string that is a stream. The virtual methods of a stream are parameters: \<open>w1\<close> and \<open>wn\<close> write a byte and
  a buffer, \<open>rd\<close> and \<open>pk\<close> are \<open>read\<close> and \<open>peek\<close>. The value \<open>millis\<close> returns at its \<open>k\<close>-th call is \<open>millis k\<close>; the
  operations carry \<open>k\<close>. A loop that does not end, and a signed overflow, is \<open>None\<close>. A plain \<open>char\<close> is
  unsigned, as the compiler of the chip has it.
\<close>

subsection \<open>Printing numbers\<close>

text \<open>The loop of \<open>printNumber\<close>, which fills the buffer from its end; \<open>i\<close> counts down.\<close>

primrec number_loop :: "nat \<Rightarrow> nat \<Rightarrow> nat \<Rightarrow> byte list \<Rightarrow> (nat \<times> byte list) option" where
  "number_loop base n 0 buf = None"
| "number_loop base n (Suc i) buf =
     (let m = n; n = m div base; c = (m - base * n) mod 256
      in do {
        buf \<leftarrow> put_at buf i (if c < 10 then of_nat (c + 48) else of_nat (c + 65 - 10));
        if n \<noteq> 0 then number_loop base n i buf else Some (i, buf)
      })"

definition printNumber :: "(byte list \<Rightarrow> 's \<Rightarrow> (nat \<times> 's) option) \<Rightarrow> nat \<Rightarrow> nat \<Rightarrow> 's \<Rightarrow> (nat \<times> 's) option" where
  "printNumber wn n base s = do {
     let base = (if base < 2 then 10 else base);
     (i, buf) \<leftarrow> number_loop base n 32 (replicate 33 0);
     cs \<leftarrow> cstring buf i;
     wn cs s
   }"

definition print_long :: "(byte \<Rightarrow> 's \<Rightarrow> (nat \<times> 's) option) \<Rightarrow> (byte list \<Rightarrow> 's \<Rightarrow> (nat \<times> 's) option) \<Rightarrow> int \<Rightarrow> nat \<Rightarrow> 's \<Rightarrow> (nat \<times> 's) option" where
  "print_long w1 wn n base s =
     (if base = 0 then w1 (of_int n) s
      else if base = 10 then
        if n < 0 then do {
          (t, s) \<leftarrow> w1 45 s;
          if n = - (2 ^ 31) then None
          else do { (k, s) \<leftarrow> printNumber wn (nat (- n)) 10 s; Some (k + t, s) }
        } else printNumber wn (nat n) 10 s
      else printNumber wn (nat (n mod 2 ^ 32)) (base mod 256) s)"

definition print_ulong :: "(byte \<Rightarrow> 's \<Rightarrow> (nat \<times> 's) option) \<Rightarrow> (byte list \<Rightarrow> 's \<Rightarrow> (nat \<times> 's) option) \<Rightarrow> nat \<Rightarrow> nat \<Rightarrow> 's \<Rightarrow> (nat \<times> 's) option" where
  "print_ulong w1 wn n base s = (if base = 0 then w1 (of_nat n) s else printNumber wn n (base mod 256) s)"

subsection \<open>Reading with a timeout\<close>

partial_function (option) timed_loop :: "('s \<Rightarrow> (int \<times> 's) option) \<Rightarrow> (nat \<Rightarrow> nat) \<Rightarrow> nat \<Rightarrow> nat \<Rightarrow> nat \<Rightarrow> 's \<Rightarrow> (int \<times> nat \<times> 's) option" where
  "timed_loop rd millis timeout start k s = do {
     (c, s) \<leftarrow> rd s;
     if c \<ge> 0 then Some (c, k, s)
     else if sub32 (millis k) start < timeout then timed_loop rd millis timeout start (k + 1) s
     else Some (-1, k + 1, s)
   }"

definition timedRead :: "('s \<Rightarrow> (int \<times> 's) option) \<Rightarrow> (nat \<Rightarrow> nat) \<Rightarrow> nat \<Rightarrow> nat \<Rightarrow> 's \<Rightarrow> (int \<times> nat \<times> 's) option" where
  "timedRead rd millis timeout k s = timed_loop rd millis timeout (millis k) (k + 1) s"

definition timedPeek :: "('s \<Rightarrow> (int \<times> 's) option) \<Rightarrow> (nat \<Rightarrow> nat) \<Rightarrow> nat \<Rightarrow> nat \<Rightarrow> 's \<Rightarrow> (int \<times> nat \<times> 's) option" where
  "timedPeek pk millis timeout k s = timed_loop pk millis timeout (millis k) (k + 1) s"

definition digit_char :: "int \<Rightarrow> bool" where
  "digit_char c \<longleftrightarrow> 48 \<le> c \<and> c \<le> 57"

partial_function (option) peekNextDigit :: "('s \<Rightarrow> (int \<times> 's) option) \<Rightarrow> ('s \<Rightarrow> (int \<times> 's) option) \<Rightarrow> (nat \<Rightarrow> nat) \<Rightarrow> nat \<Rightarrow> nat \<Rightarrow> 's \<Rightarrow> (int \<times> nat \<times> 's) option" where
  "peekNextDigit rd pk millis timeout k s = do {
     (c, k, s) \<leftarrow> timedPeek pk millis timeout k s;
     if c < 0 \<or> c = 45 \<or> digit_char c then Some (c, k, s)
     else do { (x, s) \<leftarrow> rd s; peekNextDigit rd pk millis timeout k s }
   }"

subsection \<open>Parsing integers\<close>

definition add_digit :: "int \<Rightarrow> int \<Rightarrow> int option" where
  "add_digit v c = (if v * 10 + c > 2 ^ 31 - 1 then None else Some (v * 10 + c - 48))"

partial_function (option) parse_loop :: "('s \<Rightarrow> (int \<times> 's) option) \<Rightarrow> ('s \<Rightarrow> (int \<times> 's) option) \<Rightarrow> (nat \<Rightarrow> nat) \<Rightarrow> nat \<Rightarrow> int \<Rightarrow> bool \<Rightarrow> int \<Rightarrow> int \<Rightarrow> nat \<Rightarrow> 's \<Rightarrow> (int \<times> nat \<times> 's) option" where
  "parse_loop rd pk millis timeout skipChar isNegative v c k s = do {
     v \<leftarrow> (if c \<noteq> skipChar \<and> c \<noteq> 45 \<and> digit_char c then add_digit v c else Some v);
     (x, s) \<leftarrow> rd s;
     (d, k, s) \<leftarrow> timedPeek pk millis timeout k s;
     if digit_char d \<or> d = skipChar then parse_loop rd pk millis timeout skipChar (isNegative \<or> c \<noteq> skipChar \<and> c = 45) v d k s
     else Some (if isNegative \<or> c \<noteq> skipChar \<and> c = 45 then - v else v, k, s)
   }"

definition parseInt_skip :: "('s \<Rightarrow> (int \<times> 's) option) \<Rightarrow> ('s \<Rightarrow> (int \<times> 's) option) \<Rightarrow> (nat \<Rightarrow> nat) \<Rightarrow> nat \<Rightarrow> int \<Rightarrow> nat \<Rightarrow> 's \<Rightarrow> (int \<times> nat \<times> 's) option" where
  "parseInt_skip rd pk millis timeout skipChar k s = do {
     (c, k, s) \<leftarrow> peekNextDigit rd pk millis timeout k s;
     if c < 0 then Some (0, k, s) else parse_loop rd pk millis timeout skipChar False 0 c k s
   }"

definition parseInt :: "('s \<Rightarrow> (int \<times> 's) option) \<Rightarrow> ('s \<Rightarrow> (int \<times> 's) option) \<Rightarrow> (nat \<Rightarrow> nat) \<Rightarrow> nat \<Rightarrow> nat \<Rightarrow> 's \<Rightarrow> (int \<times> nat \<times> 's) option" where
  "parseInt rd pk millis timeout k s = parseInt_skip rd pk millis timeout 1 k s"

subsection \<open>Searching and reading\<close>

text \<open>The loop of \<open>findUntil\<close>; the array reads of the source are checked.\<close>

partial_function (option) find_loop :: "('s \<Rightarrow> (int \<times> 's) option) \<Rightarrow> (nat \<Rightarrow> nat) \<Rightarrow> nat \<Rightarrow> byte list \<Rightarrow> byte list \<Rightarrow> nat \<Rightarrow> nat \<Rightarrow> nat \<Rightarrow> 's \<Rightarrow> (bool \<times> nat \<times> 's) option" where
  "find_loop rd millis timeout target terminator index termIndex k s = do {
     (c, k, s) \<leftarrow> timedRead rd millis timeout k s;
     if \<not> c > 0 then Some (False, k, s)
     else do {
       t \<leftarrow> get_at target index;
       let index = (if c \<noteq> uint t then 0 else index);
       t \<leftarrow> get_at target index;
       let index = (if c = uint t then index + 1 else index);
       if c = uint t \<and> index \<ge> length target then Some (True, k, s)
       else if terminator = [] then find_loop rd millis timeout target terminator index 0 k s
       else do {
         e \<leftarrow> get_at terminator termIndex;
         if c = uint e then
           if termIndex + 1 \<ge> length terminator then Some (False, k, s)
           else find_loop rd millis timeout target terminator index (termIndex + 1) k s
         else find_loop rd millis timeout target terminator index 0 k s
       }
     }
   }"

definition findUntil :: "('s \<Rightarrow> (int \<times> 's) option) \<Rightarrow> (nat \<Rightarrow> nat) \<Rightarrow> nat \<Rightarrow> byte list \<Rightarrow> byte list \<Rightarrow> nat \<Rightarrow> 's \<Rightarrow> (bool \<times> nat \<times> 's) option" where
  "findUntil rd millis timeout target terminator k s =
     (if target = [] \<or> hd target = 0 then Some (True, k, s) else find_loop rd millis timeout target terminator 0 0 k s)"

definition find_target :: "('s \<Rightarrow> (int \<times> 's) option) \<Rightarrow> (nat \<Rightarrow> nat) \<Rightarrow> nat \<Rightarrow> byte list \<Rightarrow> nat \<Rightarrow> 's \<Rightarrow> (bool \<times> nat \<times> 's) option" where
  "find_target rd millis timeout target k s = findUntil rd millis timeout target [] k s"

text \<open>The bytes stored into the buffer, with the number of them as the result.\<close>

primrec readBytes :: "('s \<Rightarrow> (int \<times> 's) option) \<Rightarrow> (nat \<Rightarrow> nat) \<Rightarrow> nat \<Rightarrow> nat \<Rightarrow> nat \<Rightarrow> 's \<Rightarrow> (byte list \<times> nat \<times> 's) option" where
  "readBytes rd millis timeout 0 k s = Some ([], k, s)"
| "readBytes rd millis timeout (Suc len) k s = do {
     (c, k, s) \<leftarrow> timedRead rd millis timeout k s;
     if c < 0 then Some ([], k, s)
     else do { (bs, k, s) \<leftarrow> readBytes rd millis timeout len k s; Some (of_int c # bs, k, s) }
   }"

primrec readBytesUntil :: "('s \<Rightarrow> (int \<times> 's) option) \<Rightarrow> (nat \<Rightarrow> nat) \<Rightarrow> nat \<Rightarrow> byte \<Rightarrow> nat \<Rightarrow> nat \<Rightarrow> 's \<Rightarrow> (byte list \<times> nat \<times> 's) option" where
  "readBytesUntil rd millis timeout terminator 0 k s = Some ([], k, s)"
| "readBytesUntil rd millis timeout terminator (Suc len) k s = do {
     (c, k, s) \<leftarrow> timedRead rd millis timeout k s;
     if c < 0 \<or> c = uint terminator then Some ([], k, s)
     else do { (bs, k, s) \<leftarrow> readBytesUntil rd millis timeout terminator len k s; Some (of_int c # bs, k, s) }
   }"

partial_function (option) string_loop :: "(nat \<Rightarrow> bool) \<Rightarrow> ('s \<Rightarrow> (int \<times> 's) option) \<Rightarrow> (nat \<Rightarrow> nat) \<Rightarrow> nat \<Rightarrow> (int \<Rightarrow> bool) \<Rightarrow> ws \<Rightarrow> nat \<Rightarrow> 's \<Rightarrow> (ws \<times> nat \<times> 's) option" where
  "string_loop mem rd millis timeout stop ret k s = do {
     (c, k, s) \<leftarrow> timedRead rd millis timeout k s;
     if c < 0 \<or> stop c then Some (ret, k, s)
     else do { (ok, ret) \<leftarrow> ws_concat_char mem (of_int c) ret; string_loop mem rd millis timeout stop ret k s }
   }"

definition readString :: "(nat \<Rightarrow> bool) \<Rightarrow> ('s \<Rightarrow> (int \<times> 's) option) \<Rightarrow> (nat \<Rightarrow> nat) \<Rightarrow> nat \<Rightarrow> nat \<Rightarrow> 's \<Rightarrow> (ws \<times> nat \<times> 's) option" where
  "readString mem rd millis timeout k s = do {
     ret \<leftarrow> ws_of_cstr mem (Some []);
     string_loop mem rd millis timeout (\<lambda>c. False) ret k s
   }"

definition readStringUntil :: "(nat \<Rightarrow> bool) \<Rightarrow> ('s \<Rightarrow> (int \<times> 's) option) \<Rightarrow> (nat \<Rightarrow> nat) \<Rightarrow> nat \<Rightarrow> byte \<Rightarrow> nat \<Rightarrow> 's \<Rightarrow> (ws \<times> nat \<times> 's) option" where
  "readStringUntil mem rd millis timeout terminator k s = do {
     ret \<leftarrow> ws_of_cstr mem (Some []);
     string_loop mem rd millis timeout (\<lambda>c. c = uint terminator) ret k s
   }"

subsection \<open>Strings as streams\<close>

definition ss_write_all :: "(nat \<Rightarrow> bool) \<Rightarrow> byte list \<Rightarrow> ws \<Rightarrow> (nat \<times> ws) option" where
  "ss_write_all mem data s =
     (if data = [] then Some (0, s)
      else do {
        (ok, s) \<leftarrow> reserve mem (add32 (add32 (ws_len s) (length data)) 1) s;
        if ok then do {
          s \<leftarrow> on_buffer (block_write (ws_len s) data) s;
          let s = s\<lparr>ws_len := add32 (ws_len s) (length data)\<rparr>;
          s \<leftarrow> on_buffer (\<lambda>b. put_at b (ws_len s) 0) s;
          Some (length data, s)
        } else Some (0, s)
      })"

definition ss_write :: "(nat \<Rightarrow> bool) \<Rightarrow> byte \<Rightarrow> ws \<Rightarrow> (nat \<times> ws) option" where
  "ss_write mem c s = do { (ok, s) \<leftarrow> ws_concat_char mem c s; Some (if ok then 1 else 0, s) }"

definition ss_available :: "ws \<Rightarrow> nat" where
  "ss_available s = ws_len s"

definition ss_read :: "ws \<Rightarrow> (int \<times> ws) option" where
  "ss_read s = (if ws_len s \<noteq> 0 then do { c \<leftarrow> charAt 0 s; s \<leftarrow> ws_remove 0 1 s; Some (uint c, s) } else Some (-1, s))"

definition ss_peek :: "ws \<Rightarrow> (int \<times> ws) option" where
  "ss_peek s = (if ws_len s \<noteq> 0 then do { c \<leftarrow> charAt 0 s; Some (uint c, s) } else Some (-1, s))"

subsection \<open>The contract of a source of bytes\<close>

text \<open>
  What the parsing functions rely on: \<open>bytes s\<close> arrive without delay, then nothing more. The clock, which
  may wrap, passes the timeout after every start.
\<close>

definition clock_runs :: "(nat \<Rightarrow> nat) \<Rightarrow> nat \<Rightarrow> bool" where
  "clock_runs millis timeout \<longleftrightarrow> (\<forall>k. \<exists>j > k. timeout \<le> sub32 (millis j) (millis k))"

lemma timed_loop_end:
  assumes "rd s = Some (-1, s)" "k \<le> j" "timeout \<le> sub32 (millis j) start"
  shows "\<exists>k'. timed_loop rd millis timeout start k s = Some (-1, k', s)"
  using assms(2)
proof (induction "j - k" arbitrary: k)
  case 0
  then show ?case using assms by (subst timed_loop.simps) simp
next
  case (Suc n)
  then have "\<exists>k'. timed_loop rd millis timeout start (k + 1) s = Some (-1, k', s)" by simp
  then show ?case using assms(1) by (subst timed_loop.simps) simp
qed

lemma uint_byte_eq: "uint (x :: byte) = 45 \<longleftrightarrow> x = 45" "uint (x :: byte) = 1 \<longleftrightarrow> x = 1"
  by (simp_all add: word_uint_eq_iff)

definition digits_val :: "int \<Rightarrow> byte list \<Rightarrow> int" where
  "digits_val v ds = foldl (\<lambda>v d. v * 10 + uint d - 48) v ds"

lemma digits_val_ge: "0 \<le> v \<Longrightarrow> \<forall>d \<in> set ds. digit_char (uint d) \<Longrightarrow> v \<le> digits_val v ds"
proof (induction ds arbitrary: v)
  case (Cons d ds)
  have "v \<le> v * 10 + uint d - 48" using Cons.prems by (auto simp: digit_char_def)
  moreover have "v * 10 + uint d - 48 \<le> digits_val (v * 10 + uint d - 48) ds" using Cons by (intro Cons.IH) (auto simp: digit_char_def)
  ultimately show ?case by (simp add: digits_val_def)
qed (simp add: digits_val_def)

locale byte_source =
  fixes rd :: "'s \<Rightarrow> (int \<times> 's) option" and pk :: "'s \<Rightarrow> (int \<times> 's) option" and bytes :: "'s \<Rightarrow> byte list" and ok :: "'s \<Rightarrow> bool"
  assumes read_Cons: "ok s \<Longrightarrow> bytes s = c # cs \<Longrightarrow> \<exists>t. rd s = Some (uint c, t) \<and> ok t \<and> bytes t = cs"
    and read_Nil: "ok s \<Longrightarrow> bytes s = [] \<Longrightarrow> rd s = Some (-1, s)"
    and peek_Cons: "ok s \<Longrightarrow> bytes s = c # cs \<Longrightarrow> pk s = Some (uint c, s)"
    and peek_Nil: "ok s \<Longrightarrow> bytes s = [] \<Longrightarrow> pk s = Some (-1, s)"
begin

lemma timedRead_Cons:
  assumes "ok s" "bytes s = c # cs"
  shows "\<exists>k' t. timedRead rd millis timeout k s = Some (uint c, k', t) \<and> ok t \<and> bytes t = cs"
  using read_Cons [OF assms] by (auto simp: timedRead_def timed_loop.simps)

lemma timedPeek_Cons:
  assumes "ok s" "bytes s = c # cs"
  shows "timedPeek pk millis timeout k s = Some (uint c, k + 1, s)"
  using peek_Cons [OF assms] by (simp add: timedPeek_def timed_loop.simps)

lemma timedRead_Nil:
  assumes "ok s" "bytes s = []" "clock_runs millis timeout"
  shows "\<exists>k'. timedRead rd millis timeout k s = Some (-1, k', s)"
proof -
  obtain j where "j > k" "timeout \<le> sub32 (millis j) (millis k)" using assms(3) by (auto simp: clock_runs_def)
  then show ?thesis using timed_loop_end [of rd s "k + 1" j timeout millis "millis k"] read_Nil [OF assms(1,2)] by (simp add: timedRead_def)
qed

lemma timedPeek_Nil:
  assumes "ok s" "bytes s = []" "clock_runs millis timeout"
  shows "\<exists>k'. timedPeek pk millis timeout k s = Some (-1, k', s)"
proof -
  obtain j where "j > k" "timeout \<le> sub32 (millis j) (millis k)" using assms(3) by (auto simp: clock_runs_def)
  then show ?thesis using timed_loop_end [of pk s "k + 1" j timeout millis "millis k"] peek_Nil [OF assms(1,2)] by (simp add: timedPeek_def)
qed

lemma readBytes_ok:
  assumes "ok s" "clock_runs millis timeout"
  shows "\<exists>k' t. readBytes rd millis timeout n k s = Some (take n (bytes s), k', t) \<and> ok t \<and> bytes t = drop n (bytes s)"
  using assms(1)
proof (induction n arbitrary: k s)
  case (Suc n)
  show ?case
  proof (cases "bytes s")
    case Nil
    then show ?thesis using timedRead_Nil [OF Suc.prems Nil assms(2), of k] Suc.prems by auto
  next
    case (Cons c cs)
    obtain k1 t where t: "timedRead rd millis timeout k s = Some (uint c, k1, t)" "ok t" "bytes t = cs"
      using timedRead_Cons [OF Suc.prems Cons] by blast
    then show ?thesis using Suc.IH [OF t(2), of k1] Cons by auto
  qed
qed simp

lemma peekNextDigit_skips:
  assumes "ok s" "bytes s = junk @ c # cs" "\<forall>x \<in> set junk. \<not> digit_char (uint x) \<and> x \<noteq> 45" "digit_char (uint c) \<or> c = 45"
  shows "\<exists>k' t. peekNextDigit rd pk millis timeout k s = Some (uint c, k', t) \<and> ok t \<and> bytes t = c # cs"
  using assms(1-3)
proof (induction junk arbitrary: k s)
  case Nil
  then show ?case using timedPeek_Cons [of s c cs millis timeout k] assms(4) by (subst peekNextDigit.simps) auto
next
  case (Cons x junk)
  obtain t where t: "rd s = Some (uint x, t)" "ok t" "bytes t = junk @ c # cs" using read_Cons [OF Cons.prems(1)] Cons.prems(2) by auto
  have "uint x \<noteq> 45" using Cons.prems(3) by (simp add: uint_byte_eq)
  then show ?case
    using timedPeek_Cons [OF Cons.prems(1), of x "junk @ c # cs" millis timeout k] Cons.prems(2,3) t Cons.IH [OF t(2,3)]
    by (subst peekNextDigit.simps) auto
qed

lemma parse_loop_digits:
  assumes "clock_runs millis timeout" "\<forall>d \<in> set ds. digit_char (uint d)" "rest = [] \<or> \<not> digit_char (uint (hd rest)) \<and> hd rest \<noteq> 1"
    and "ok s" "bytes s = c # ds @ rest" "digit_char (uint c)" "0 \<le> v" "digits_val v (c # ds) + 48 < 2 ^ 31"
  shows "\<exists>k' t. parse_loop rd pk millis timeout 1 neg v (uint c) k s =
      Some (if neg then - digits_val v (c # ds) else digits_val v (c # ds), k', t) \<and> ok t \<and> bytes t = rest"
  using assms(2,4-)
proof (induction ds arbitrary: c v k s)
  case Nil
  obtain t where t: "rd s = Some (uint c, t)" "ok t" "bytes t = rest" using read_Cons [OF Nil.prems(2)] Nil.prems(3) by auto
  have v: "add_digit v (uint c) = Some (digits_val v [c])" using Nil.prems(6) by (simp add: add_digit_def digits_val_def)
  have c: "uint c \<noteq> 1" "uint c \<noteq> 45" using Nil.prems(4) by (auto simp: digit_char_def)
  obtain d k1 where d: "timedPeek pk millis timeout k t = Some (d, k1, t)" "\<not> digit_char d" "d \<noteq> 1"
  proof (cases rest)
    case Nil
    then show ?thesis using timedPeek_Nil [OF t(2) _ assms(1), of k] t(3) that by (auto simp: digit_char_def)
  next
    case (Cons r rs)
    then show ?thesis using timedPeek_Cons [OF t(2), of r rs millis timeout k] t(3) assms(3) that by (auto simp: uint_byte_eq)
  qed
  show ?case using v t c d Nil.prems(4) by (subst parse_loop.simps) auto
next
  case (Cons e ds)
  obtain t where t: "rd s = Some (uint c, t)" "ok t" "bytes t = e # ds @ rest" using read_Cons [OF Cons.prems(2)] Cons.prems(3) by auto
  let ?v = "v * 10 + uint c - 48"
  have dv: "digits_val v (c # e # ds) = digits_val ?v (e # ds)" by (simp add: digits_val_def)
  have v0: "0 \<le> ?v" using Cons.prems(4,5) by (auto simp: digit_char_def)
  then have "?v \<le> digits_val ?v (e # ds)" using Cons.prems(1) by (intro digits_val_ge) auto
  then have v: "add_digit v (uint c) = Some ?v" using Cons.prems(6) dv by (simp add: add_digit_def)
  have c: "uint c \<noteq> 1" "uint c \<noteq> 45" using Cons.prems(4) by (auto simp: digit_char_def)
  have pkd: "timedPeek pk millis timeout k t = Some (uint e, k + 1, t)" using timedPeek_Cons [OF t(2,3)] by simp
  have "parse_loop rd pk millis timeout 1 neg v (uint c) k s = parse_loop rd pk millis timeout 1 neg ?v (uint e) (k + 1) t"
    using v t c pkd Cons.prems(1,4) by (subst parse_loop.simps) auto
  moreover have "\<exists>k' t'. parse_loop rd pk millis timeout 1 neg ?v (uint e) (k + 1) t =
      Some (if neg then - digits_val ?v (e # ds) else digits_val ?v (e # ds), k', t') \<and> ok t' \<and> bytes t' = rest"
    using Cons.prems(1,6) unfolding dv by (intro Cons.IH t v0) auto
  ultimately show ?case unfolding dv by (simp only:)
qed

text \<open>
  The search forgets a partial match: it misses \<open>aab\<close> in \<open>aaab\<close>. One character read:
\<close>

lemma find_step:
  assumes "ok s" "bytes s = c # cs" "c \<noteq> 0" "index < length target" "target ! index = c \<longrightarrow> Suc index < length target" "Suc 0 < length target"
  shows "\<exists>k' t. find_loop rd millis timeout target [] index 0 k s =
      find_loop rd millis timeout target [] (if target ! index = c then Suc index else if target ! 0 = c then 1 else 0) 0 k' t \<and> ok t \<and> bytes t = cs"
proof -
  obtain k' t where t: "timedRead rd millis timeout k s = Some (uint c, k', t)" "ok t" "bytes t = cs"
    using timedRead_Cons [OF assms(1,2)] by blast
  have pos: "0 < uint c" using assms(3) uint_ge_0 [of c] uint_0_iff [of c] by linarith
  have eq: "uint c = uint d \<longleftrightarrow> d = c" for d by (auto simp: word_uint_eq_iff)
  have g: "get_at target index = Some (target ! index)" "get_at target 0 = Some (target ! 0)" using assms(4,6) by (auto simp: get_at_def)
  have "find_loop rd millis timeout target [] index 0 k s =
      find_loop rd millis timeout target [] (if target ! index = c then Suc index else if target ! 0 = c then 1 else 0) 0 k' t"
  proof (cases "target ! index = c")
    case True
    then show ?thesis using t(1) pos assms(5) by (subst find_loop.simps) (simp add: g eq Let_def)
  next
    case False
    then show ?thesis using t(1) pos assms(6) by (subst find_loop.simps) (simp add: g eq Let_def)
  qed
  then show ?thesis using t(2,3) by blast
qed

lemma find_misses:
  assumes "ok s" "bytes s = [97, 97, 97, 98]" "clock_runs millis timeout"
  shows "\<exists>k' t. find_target rd millis timeout [97, 97, 98] k s = Some (False, k', t)"
proof -
  let ?t = "[97, 97, 98] :: byte list"
  obtain k1 s1 where 1: "find_loop rd millis timeout ?t [] 0 0 k s = find_loop rd millis timeout ?t [] 1 0 k1 s1" "ok s1" "bytes s1 = [97, 97, 98]"
    using find_step [OF assms(1,2), of 0 ?t millis timeout k] by auto
  obtain k2 s2 where 2: "find_loop rd millis timeout ?t [] 1 0 k1 s1 = find_loop rd millis timeout ?t [] 2 0 k2 s2" "ok s2" "bytes s2 = [97, 98]"
    using find_step [OF 1(2,3), of 1 ?t millis timeout k1] by (auto simp flip: numeral_2_eq_2)
  obtain k3 s3 where 3: "find_loop rd millis timeout ?t [] 2 0 k2 s2 = find_loop rd millis timeout ?t [] 1 0 k3 s3" "ok s3" "bytes s3 = [98]"
    using find_step [OF 2(2,3), of 2 ?t millis timeout k2] by auto
  obtain k4 s4 where 4: "find_loop rd millis timeout ?t [] 1 0 k3 s3 = find_loop rd millis timeout ?t [] 0 0 k4 s4" "ok s4" "bytes s4 = []"
    using find_step [OF 3(2,3), of 1 ?t millis timeout k3] by auto
  have "\<exists>k' t. find_loop rd millis timeout ?t [] 0 0 k4 s4 = Some (False, k', t)"
    using timedRead_Nil [OF 4(2,3) assms(3), of k4] by (subst find_loop.simps) auto
  then show ?thesis unfolding find_target_def findUntil_def using 1(1) 2(1) 3(1) 4(1) by simp
qed

text \<open>A signed numeral behind characters that are neither digits nor signs.\<close>

lemma parseInt_numeral:
  assumes "clock_runs millis timeout" "ok s" "bytes s = junk @ (if neg then [45] else []) @ ds"
    and "\<forall>x \<in> set junk. \<not> digit_char (uint x) \<and> x \<noteq> 45" "ds \<noteq> []" "\<forall>d \<in> set ds. digit_char (uint d)" "digits_val 0 ds + 48 < 2 ^ 31"
  shows "\<exists>k' t. parseInt rd pk millis timeout k s = Some (if neg then - digits_val 0 ds else digits_val 0 ds, k', t) \<and> ok t \<and> bytes t = []"
proof -
  obtain d es where ds: "ds = d # es" using assms(5) by (cases ds) auto
  show ?thesis
  proof (cases neg)
    case False
    obtain k1 t where t: "peekNextDigit rd pk millis timeout k s = Some (uint d, k1, t)" "ok t" "bytes t = d # es"
      using peekNextDigit_skips [OF assms(2), of junk d es millis timeout k] assms(3,4,6) False ds by auto
    show ?thesis
      using parse_loop_digits [OF assms(1), of es "[]" t d 0 False k1] t assms(6,7) ds False
      by (auto simp: parseInt_def parseInt_skip_def)
  next
    case True
    obtain k1 t where t: "peekNextDigit rd pk millis timeout k s = Some (45, k1, t)" "ok t" "bytes t = 45 # d # es"
      using peekNextDigit_skips [OF assms(2), of junk 45 "d # es" millis timeout k] assms(3,4) True ds by auto
    obtain u where u: "rd t = Some (45, u)" "ok u" "bytes u = d # es" using read_Cons [OF t(2,3)] by auto
    have "timedPeek pk millis timeout k1 u = Some (uint d, k1 + 1, u)" using timedPeek_Cons [OF u(2,3)] by simp
    then have "parse_loop rd pk millis timeout 1 False 0 45 k1 t = parse_loop rd pk millis timeout 1 True 0 (uint d) (k1 + 1) u"
      using u(1) assms(6) ds by (subst parse_loop.simps) (simp add: digit_char_def)
    then show ?thesis
      using parse_loop_digits [OF assms(1), of es "[]" u d 0 True "k1 + 1"] t(1) u(2,3) assms(6,7) ds True
      by (auto simp: parseInt_def parseInt_skip_def)
  qed
qed

end

subsection \<open>A string is a source of bytes\<close>

lemma charAt_hd: "str_ok s \<Longrightarrow> str s = c # cs \<Longrightarrow> ws_len s \<noteq> 0 \<and> charAt 0 s = Some c"
  using str_len [of s]
  by (auto simp: charAt_def str_def str_ok_def get_at_def split: option.splits) (metis nth_Cons_0 nth_take zero_less_Suc)

interpretation string_stream: byte_source ss_read ss_peek str str_ok
proof
  fix s :: ws and c cs
  assume s: "str_ok s" "str s = c # cs"
  note c = charAt_hd [OF s]
  obtain t where "ws_remove 0 1 s = Some t" "str_ok t" "str t = cs" using remove_ok [OF s(1), of 0 1] c s(2) by auto
  then show "\<exists>t. ss_read s = Some (uint c, t) \<and> str_ok t \<and> str t = cs" using c by (simp add: ss_read_def)
  show "ss_peek s = Some (uint c, s)" using c by (simp add: ss_peek_def)
next
  fix s :: ws
  assume s: "str_ok s" "str s = []"
  then have "ws_len s = 0" using str_len [OF s(1)] by simp
  then show "ss_read s = Some (-1, s)" "ss_peek s = Some (-1, s)" by (simp_all add: ss_read_def ss_peek_def)
qed

subsection \<open>Decimal numerals\<close>

fun dec :: "nat \<Rightarrow> byte list" where
  "dec n = (if n < 10 then [of_nat (n + 48)] else dec (n div 10) @ [of_nat (n mod 10 + 48)])"

declare dec.simps [simp del]

definition signed_dec :: "int \<Rightarrow> byte list" where
  "signed_dec n = (if n < 0 then [45] else []) @ dec (nat \<bar>n\<bar>)"

lemma uint_digit: "k < 10 \<Longrightarrow> uint (of_nat k + 48 :: byte) = int k + 48"
proof -
  assume k: "k < 10"
  then have "uint (of_nat (k + 48) :: byte) = int (k + 48)" by (simp only: unsigned_of_nat) (simp add: take_bit_nat_eq_self)
  then show ?thesis by simp
qed

lemma dec_digits: "\<forall>d \<in> set (dec n). digit_char (uint d)"
proof (induction n rule: dec.induct)
  case (1 n)
  then show ?case using uint_digit [of n] uint_digit [of "n mod 10"]
    by (cases "n < 10") (auto simp: dec.simps [of n] digit_char_def)
qed

lemma dec_nonempty: "dec n \<noteq> []"
  by (subst dec.simps) simp

lemma dec_nonzero: "0 \<notin> set (dec n)"
  using dec_digits [of n] by (auto simp: digit_char_def)

lemma dec_val: "digits_val 0 (dec n) = int n"
proof (induction n rule: dec.induct)
  case (1 n)
  show ?case
  proof (cases "n < 10")
    case True
    then show ?thesis using uint_digit [of n] by (simp add: dec.simps [of n] digits_val_def)
  next
    case False
    then have "digits_val 0 (dec n) = int (n div 10) * 10 + int (n mod 10)"
      using "1.IH" uint_digit [of "n mod 10"] by (simp add: dec.simps [of n] digits_val_def del: of_nat_mod of_nat_div)
    also have "\<dots> = int (n div 10 * 10 + n mod 10)" by (simp only: of_nat_add of_nat_mult of_nat_numeral)
    finally show ?thesis by simp
  qed
qed

lemma length_dec: "n < 10 ^ Suc k \<Longrightarrow> length (dec n) \<le> Suc k"
proof (induction k arbitrary: n)
  case (Suc k)
  then have "length (dec (n div 10)) \<le> Suc k" by (intro Suc.IH) (simp add: less_mult_imp_div_less)
  then show ?case by (simp add: dec.simps [of n])
qed (simp add: dec.simps)

lemma number_loop_dec:
  "length (dec n) \<le> length pre \<Longrightarrow>
   number_loop 10 n (length pre) (pre @ post) = Some (length pre - length (dec n), take (length pre - length (dec n)) pre @ dec n @ post)"
proof (induction n arbitrary: pre post rule: dec.induct)
  case (1 n)
  have "pre \<noteq> []" using "1.prems" by (auto simp: dec.simps [of n] split: if_splits)
  then obtain xs x where pre: "pre = xs @ [x]" by (metis append_butlast_last_id)
  have p: "put_at (pre @ post) (length xs) y = Some (xs @ y # post)" for y by (simp add: pre put_at_def)
  have c: "(n - 10 * (n div 10)) mod 256 = n mod 10" "n mod 10 < 10" by (simp_all add: minus_mult_div_eq_mod)
  show ?case
  proof (cases "n < 10")
    case True
    then show ?thesis using p c by (simp add: pre dec.simps [of n] Let_def)
  next
    case False
    then have "n div 10 \<noteq> 0" by simp
    then show ?thesis
      using False "1.IH" [OF False, of xs "of_nat (n mod 10 + 48) # post"] "1.prems" p c
      by (simp add: pre dec.simps [of n] Let_def)
  qed
qed

lemma printNumber_dec:
  assumes "n < 2 ^ 32"
  shows "printNumber wn n 10 s = wn (dec n) s"
proof -
  have l: "length (dec n) \<le> 32" using length_dec [of n 9] assms by simp
  note z = dec_nonzero [of n]
  have "replicate 33 (0 :: byte) = replicate 32 0 @ [0]" using replicate_add [of 32 1 "0 :: byte"] by simp
  then have "number_loop 10 n 32 (replicate 33 0) = Some (32 - length (dec n), replicate (32 - length (dec n)) 0 @ dec n @ [0])"
    using number_loop_dec [of n "replicate 32 0" "[0]"] l by simp
  moreover have "cstring (replicate (32 - length (dec n)) 0 @ dec n @ [0]) (32 - length (dec n)) = Some (dec n)"
    using z takeWhile_zero [OF z, of "[]"] by (simp add: cstring_def)
  ultimately show ?thesis by (simp add: printNumber_def)
qed

subsection \<open>Printing to a string and parsing from it\<close>

lemma block_write_snoc:
  assumes "i + length xs < length b"
  shows "\<exists>b1. block_write i xs b = Some b1 \<and> put_at b1 (i + length xs) x = block_write i (xs @ [x]) b"
  using assms Cons_nth_drop_Suc [OF assms, symmetric] by (simp add: block_write_def put_at_def list_update_append min_def)

lemma ss_write_all_ok:
  assumes "str_ok s" "\<forall>n. mem n" "0 \<notin> set data" "data \<noteq> []" "ws_len s + length data + 1 < 2 ^ 32 - 16"
  shows "\<exists>t. ss_write_all mem data s = Some (length data, t) \<and> str_ok t \<and> str t = str s @ data"
proof -
  let ?n = "ws_len s + length data"
  obtain t b where t: "reserve mem (?n + 1) s = Some (True, t)" "str_ok t" "str t = str s" "ws_len t = ws_len s" "ws_buffer t = Some b" "?n + 1 \<le> ws_capacity t"
    using reserve_ok [OF assms(1,2,5)] by blast
  obtain u where u: "on_buffer (block_write (ws_len s) (data @ [0])) t = Some u" "str_ok (u\<lparr>ws_len := ?n\<rparr>)" "str (u\<lparr>ws_len := ?n\<rparr>) = str s @ data"
    using write_cstr [OF t(2,5) assms(3), of "ws_len s"] t str_len [OF assms(1)] by auto
  have "?n < length b" using t(2,5,6) by (simp add: str_ok_def)
  from block_write_snoc [OF this] obtain b1 where b1: "block_write (ws_len s) data b = Some b1" "put_at b1 ?n 0 = block_write (ws_len s) (data @ [0]) b" by blast
  have a: "add32 (add32 (ws_len s) (length data)) 1 = ?n + 1" "add32 (ws_len s) (length data) = ?n" using assms(5) by (simp_all add: add32_def)
  have "ss_write_all mem data s = Some (length data, u\<lparr>ws_len := ?n\<rparr>)"
    using t(1,4,5) u(1) b1 a assms(4) by (auto simp: ss_write_all_def on_buffer_def split: bind_splits)
  then show ?thesis using u(2,3) by simp
qed

lemma ss_write_ok:
  assumes "str_ok s" "\<forall>n. mem n" "c \<noteq> 0" "ws_len s + 1 < 2 ^ 32 - 16"
  shows "\<exists>t. ss_write mem c s = Some (1, t) \<and> str_ok t \<and> str t = str s @ [c]"
proof -
  obtain t where t: "ws_concat_cstr mem (Some [c]) 1 s = Some (True, t)" "str_ok t" "str t = str s @ [c]"
    using concat_cstr_ok [OF assms(1,2), of "[c]"] assms(3,4) by auto
  then show ?thesis using assms(3) by (simp add: ss_write_def ws_concat_char_def)
qed

lemma print_long_ok:
  assumes "str_ok s" "\<forall>n. mem n" "\<bar>n\<bar> < 2 ^ 31" "ws_len s + 12 < 2 ^ 32 - 16"
  shows "\<exists>t. print_long (ss_write mem) (ss_write_all mem) n 10 s = Some (length (signed_dec n), t) \<and> str_ok t \<and> str t = str s @ signed_dec n"
proof -
  let ?m = "nat \<bar>n\<bar>"
  have l: "length (dec ?m) \<le> 10" "dec ?m \<noteq> []" "0 \<notin> set (dec ?m)"
    using length_dec [of ?m 9] assms(3) dec_nonempty dec_nonzero by simp_all
  have p: "printNumber wn ?m 10 u = wn (dec ?m) u" for wn and u :: ws using assms(3) by (intro printNumber_dec) (simp add: nat_less_iff)
  show ?thesis
  proof (cases "n < 0")
    case False
    then show ?thesis using p ss_write_all_ok [OF assms(1,2) l(3,2)] l(1) assms(4) by (auto simp: print_long_def signed_dec_def)
  next
    case True
    obtain u where u: "ss_write mem 45 s = Some (1, u)" "str_ok u" "str u = str s @ [45]" using ss_write_ok [OF assms(1,2), of 45] assms(4) by auto
    have "ws_len u = ws_len s + 1" using str_len [OF u(2)] str_len [OF assms(1)] u(3) by simp
    then obtain t where "ss_write_all mem (dec ?m) u = Some (length (dec ?m), t)" "str_ok t" "str t = str u @ dec ?m"
      using ss_write_all_ok [OF u(2) assms(2) l(3,2)] l(1) assms(4) by auto
    then show ?thesis using True p [of "ss_write_all mem" u] u assms(3) by (auto simp: print_long_def signed_dec_def)
  qed
qed

text \<open>
  C40: An integer printed to a string stream is parsed back. Printing appends its decimal numeral and
  returns the number of characters; \<open>parseInt\<close> skips what was in the stream before, if it has neither digits
  nor minus signs, returns the integer and leaves the stream empty. Integers within 48 of the limits
  of a \<open>long\<close> are excluded: there \<open>value * 10 + c - '0'\<close> overflows before the subtraction.
\<close>

theorem print_parse_roundtrip:
  assumes "str_ok s" "\<forall>n. mem n" "clock_runs millis timeout" "\<bar>n\<bar> + 48 < 2 ^ 31" "ws_len s + 12 < 2 ^ 32 - 16"
    and "\<forall>x \<in> set (str s). \<not> digit_char (uint x) \<and> x \<noteq> 45"
  shows "\<exists>t k' u. print_long (ss_write mem) (ss_write_all mem) n 10 s = Some (length (signed_dec n), t) \<and>
    str_ok t \<and> str t = str s @ signed_dec n \<and>
    parseInt ss_read ss_peek millis timeout k t = Some (n, k', u) \<and> str_ok u \<and> str u = []"
proof -
  have "\<bar>n\<bar> < 2 ^ 31" using assms(4) by simp
  from print_long_ok [OF assms(1,2) this assms(5)] obtain t where
    t: "print_long (ss_write mem) (ss_write_all mem) n 10 s = Some (length (signed_dec n), t)" "str_ok t" "str t = str s @ signed_dec n" by blast
  let ?ds = "dec (nat \<bar>n\<bar>)"
  have d: "?ds \<noteq> []" "\<forall>d \<in> set ?ds. digit_char (uint d)" "digits_val 0 ?ds = \<bar>n\<bar>"
    using dec_nonempty dec_digits dec_val by simp_all
  have "\<exists>k' u. parseInt ss_read ss_peek millis timeout k t = Some (if n < 0 then - digits_val 0 ?ds else digits_val 0 ?ds, k', u) \<and> str_ok u \<and> str u = []"
    using t(3) assms(4,6) d by (intro string_stream.parseInt_numeral [OF assms(3) t(2)]) (auto simp: signed_dec_def)
  moreover have "(if n < 0 then - digits_val 0 ?ds else digits_val 0 ?ds) = n" unfolding d(3) by simp
  ultimately show ?thesis using t by auto
qed

lemma clock_steps:
  assumes "x < 2 ^ 32"
  shows "sub32 ((x + 1000) mod 2 ^ 32) x = 1000"
proof (cases "x + 1000 < 2 ^ 32")
  case False
  then have "(x + 1000) mod 2 ^ 32 = x + 1000 - 2 ^ 32" using assms by (simp add: le_mod_geq)
  then show ?thesis using False assms by (simp add: sub32_def)
qed (simp add: sub32_def)

lemma wrapping_clock_runs: "clock_runs (\<lambda>k. k mod 2 ^ 32) 1000"
  unfolding clock_runs_def
proof
  fix k :: nat
  have "(k + 1000) mod 2 ^ 32 = (k mod 2 ^ 32 + 1000) mod 2 ^ 32" by (simp add: mod_add_left_eq)
  then have "1000 \<le> sub32 ((k + 1000) mod 2 ^ 32) (k mod 2 ^ 32)" using clock_steps [of "k mod 2 ^ 32"] by simp
  then show "\<exists>j > k. 1000 \<le> sub32 (j mod 2 ^ 32) (k mod 2 ^ 32)" by (intro exI [of _ "k + 1000"]) simp
qed

lemma print_parse_roundtrip_witness:
  "\<exists>t k' u. print_long (ss_write (\<lambda>n. True)) (ss_write_all (\<lambda>n. True)) (-120) 10 (sample_string [120, 61]) = Some (4, t) \<and>
    parseInt ss_read ss_peek (\<lambda>k. k mod 2 ^ 32) 1000 0 t = Some (-120, k', u) \<and> str u = []"
proof -
  have "length (signed_dec (-120)) = 4" by (simp add: signed_dec_def dec.simps)
  then show ?thesis
    using wrapping_clock_runs print_parse_roundtrip [of "sample_string [120, 61]" "\<lambda>n. True" "\<lambda>k. k mod 2 ^ 32" 1000 "-120" 0] sample_string [of "[120, 61]"]
    by (auto simp: digit_char_def)
qed

text \<open>\<open>parseInt\<close> overflows on the largest \<open>long\<close>.\<close>

lemma add_digit_overflow: "add_digit 214748364 55 = None"
  by (simp add: add_digit_def)

end
