(* ===== verification/Spec2Isabelle.thy ===== *)
theory Spec2Isabelle
  imports Base64_String Spiffs_Consistent Sha1 Pwm Wire I2s Cbuf Interrupts Uart Eeprom Dns Streams
begin

text \<open>
  Verification of the ESP31B Arduino core.

  \<^bold>\<open>The program.\<close> The repository is the Arduino core of the ESP31B, a beta chip of the ESP32. Its own
  logic is in \<open>src/cores/esp31b\<close>: the flash file system SPIFFS with the callbacks that reach the flash
  chip, the drivers of the peripherals (pins, shift registers, pulse width modulation, I2C on two pins,
  pin matrix, pin interrupts, LED controller, sigma-delta modulator, sound output, serial ports), the
  string class and conversions (base64, numbers). SHA-1, the Wire, EEPROM and DNS server libraries are in
  \<open>src/libraries\<close>. Around them stand C++ classes that wrap this code and the binary
  SDK, and vendored code (lwIP, axTLS, cJSON).

  \<^bold>\<open>Conventions.\<close> C integers are words of their width where they are combined bitwise or may wrap, and
  natural numbers with the reduction written out (\<open>add32\<close>, \<open>sub32\<close>, \<open>u16_of\<close>, ...) where they are
  indices and counters. An operation returns its result and the new state in the option monad. \<open>None\<close>
  is undefined behaviour of the C code (an access outside an object, a null pointer, a shift by the
  width or more, a division by zero, an uninitialised variable used), never an error code: error codes
  are results. Theorems that say \<open>= Some ...\<close> therefore also say that nothing undefined happens. Loops
  over indices are recursive functions; loops with another end take fuel that is shown to be enough;
  loops that can run for ever are partial functions.

  \<^bold>\<open>SPIFFS\<close> (\<open>src/cores/esp31b/spiffs\<close>, \<open>spiffs_hal.cpp\<close>). From the bottom:
  \<^item> \<open>Spiffs_Layout\<close> (\<open>spiffs.h\<close>, \<open>spiffs_nucleus.h\<close>): the structures as records (\<open>spiffs\<close>, \<open>spiffs_config\<close>,
    \<open>spiffs_fd\<close>, cache pages), flags and codes, byte images of headers, address macros.
    \<open>Spiffs_Geometry\<close>: the address arithmetic is one to one, headers and names are read back as written,
    the test of the mount for room for the magic is sound unless a block has no room at all.
  \<^item> \<open>Spiffs_Hal\<close> (\<open>spiffs_hal.cpp\<close>): the callbacks over the SDK's flash functions. The SDK is the parameter
    \<open>dev\<close>; the locale \<open>spi_flash\<close> states what it documents, the locale \<open>nor_hal\<close> what SPIFFS needs, a
    \<open>sublocale\<close> shows the second from the first, and \<open>chip\<close> interprets both on a concrete flash.
  \<^item> \<open>Spiffs_Cache\<close> (\<open>spiffs_cache.c\<close>) with \<open>Spiffs_Coherence\<close>: the invariant of the cache, and that reads and
    writes through it are reads and writes of the flash. The invariant \<open>cache_ok n\<close> carries the number
    \<open>n\<close> of accesses for which the 32-bit access counter does not wrap; every lemma above says how many
    accesses it spends. \<open>Spiffs_Disk\<close> lifts this to whole pages and lookup entries (\<open>lu_id\<close>).
  \<^item> \<open>Spiffs_Lookup\<close> (\<open>spiffs_nucleus.c\<close>, \<open>spiffs_gc.c\<close>): the visitor of the object lookup, block erasure,
    mount scan, quick garbage collection. \<open>Spiffs_Search\<close> has the locale \<open>lu_visitor\<close>, the contract
    between the nested loops and a callback, and proves in it which entries are visited in which order;
    \<open>Spiffs_Find\<close> interprets it for the callbacks of the searches and of the scan (\<open>stop\<close>, \<open>span\<close>, \<open>scan\<close>),
    \<open>Spiffs_Consistent\<close> for those of the checks (\<open>lookup_check\<close>, \<open>index_check\<close>). Results: a search finds
    the first matching entry if there is one and \<open>SPIFFS_ERR_NOT_FOUND\<close> otherwise; the statistics are
    exact. \<open>Spiffs_Erase\<close>: erasing, the quick collector (only blocks without a live page) and formatting.
  \<^item> \<open>Spiffs_Page\<close>, \<open>Spiffs_Object\<close>, \<open>Spiffs_Modify\<close> (\<open>spiffs_nucleus.c\<close>), \<open>Spiffs_Gc\<close> (\<open>spiffs_gc.c\<close>), \<open>Spiffs_Api\<close>
    (\<open>spiffs_hydrogen.c\<close>), \<open>Spiffs_Check\<close> (\<open>spiffs_check.c\<close>): all functions of these files.
    \<open>Spiffs_Alloc\<close>: what allocating and deleting a page does to the flash; that an allocation outside of
    a collection leaves at least one block free. \<open>Spiffs_Clean\<close>: the cleaner as a step relation
    that ends for every behaviour of the flash; the candidate table is sorted. \<open>Spiffs_Terminate\<close>:
    the passes of the object loops have no infinite chain, and their fuel (\<open>len div D + 3\<close> passes for
    append and modify, \<open>size div D + 3\<close> for truncate, \<open>len + 1\<close> for read) is enough, so that \<open>None\<close> is
    undefined behaviour there too.
  \<^item> \<open>Spiffs_Frame\<close> and \<open>Spiffs_Check_Frame\<close>: the locale \<open>spiffs_inv\<close>, predicates no operation can break, shown
    once for all operations and error paths. \<open>Spiffs_Session\<close> interprets it twice (\<open>shape\<close>, \<open>fds\<close>) and
    concludes about sequences of interface calls between mount and unmount.
  \<^item> \<open>Spiffs_Consistent\<close>: what a consistent file system is (orphaned index pages excluded), that the three
    checks leave it alone and end, and that the object index check is undefined on a file system with an
    index page that is not intact.

  \<^bold>\<open>Peripherals.\<close> \<open>Gpio\<close> (\<open>core_esp31b_wiring_digital.c\<close>, \<open>core_esp31b_wiring_shift.c\<close>) has the state all drivers
  share: the history of register accesses and the contents of the registers that are read back. What
  an input register shows is a function of the history, a parameter: the outside world. On it stand
  \<^item> \<open>Pwm\<close> (\<open>core_esp31b_wiring_pwm.c\<close>, timer 1 of \<open>core_esp31b_timer.c\<close>): in every period each pin is high for
    its share; the period is a multiple of the range, rounded down, and has to fit the 23-bit counter.
    An interrupt inside \<open>analogWrite\<close> is not modelled;
  \<^item> \<open>Si2c\<close> (\<open>core_esp31b_si2c.c\<close>): transfers put exactly the symbols of the I2C protocol on the bus, with
    devices that stretch the clock up to the limit of the driver; \<open>Wire\<close>
    (\<open>libraries/Wire/Wire.cpp\<close>) buffers transmissions and received bytes over it;
  \<^item> \<open>Periph\<close> (\<open>core_esp31b_matrix.c\<close>, \<open>core_esp31b_ledc_hs.c\<close>, \<open>core_esp31b_ledc_ls.c\<close>,
    \<open>core_esp31b_sigma_delta.c\<close>): fields of shared registers, each operation changes its own;
  \<^item> \<open>I2s\<close> (\<open>core_esp31b_i2s.c\<close>): writer, DMA engine and interrupt as an interleaving step relation; the
    samples come out in order. The queue of free buffers interprets the locale \<open>bounded_fifo\<close> of \<open>Fifo\<close>;
  \<^item> \<open>Interrupts\<close> (\<open>core_esp31b_wiring_digital.c\<close>, \<open>core_esp31b_timer.c\<close>): attaching and detaching keep registers and handler table in
    agreement, and each raised interrupt reaches its handler;
  \<^item> \<open>Uart\<close> (\<open>core_esp31b_uart.c\<close>, \<open>HardwareSerial.cpp\<close>): bytes written leave the port in order, for every port
    that empties its FIFO;
  \<^item> \<open>Eeprom\<close> (\<open>libraries/EEPROM\<close>), over the flash of \<open>Spiffs_Hal\<close>: what is written survives a reset.

  \<^bold>\<open>Buffers and strings.\<close> \<open>Cbuf\<close> (\<open>cbuf.cpp\<close>): the ring buffer is a queue, the interpretation \<open>ring\<close> of
  \<open>bounded_fifo\<close>. \<open>Wstring\<close> and \<open>Wstring_Replace\<close> (\<open>WString.cpp\<close>): a string in order (\<open>str_ok\<close>) has the value
  \<open>str\<close>; the operations compute on it what their names say, and the cases where they do not. Copies between overlapping
  parts of a buffer, undefined in C, are forward copies. \<open>Streams\<close>
  (\<open>Print.cpp\<close>, \<open>Stream.cpp\<close>, \<open>StreamString.cpp\<close>): the locale \<open>byte_source\<close> is what parsing relies on, string
  streams interpret it (\<open>string_stream\<close>), and printed integers are parsed back. \<open>Dns\<close>
  (\<open>libraries/DNSServer\<close>): the replies to queries, and the packets that make the server leave its buffer.

  \<^bold>\<open>Conversions and digests.\<close> \<open>Base64\<close> (\<open>libb64\<close>): round trip, streaming, reads beyond the
  table; \<open>Base64_String\<close> (\<open>base64.cpp\<close>): the lengths for which the buffer is too small.
  \<open>Noniso\<close> (\<open>core_esp31b_noniso.c\<close>): numerals and back, the error cases. \<open>Sha1\<close>: the digest refines FIPS 180.

  \<open>Prelude\<close> holds the integer types, byte images and the lemmas all of them share.

  \<^bold>\<open>Not modelled.\<close> The progress callback and the debug output of SPIFFS, the text \<open>SPIFFS_vis\<close> prints;
  floating-point conversions (\<open>atof\<close>, \<open>dtostrf\<close>); start-up, analog input and crash reports, which
  call the SDK; the remaining C++ classes, the SPI and the other network libraries; lwIP, axTLS, cJSON and the SDK's drivers,
  which are third-party code.
\<close>

end
